(* ===== verification/Toise_Prelude.thy ===== *)
theory Toise_Prelude
  imports Complex_Main "HOL-Library.AList" "HOL-Library.Char_ord" "HOL-Library.List_Lexorder"
begin

text \<open>
  Shared vocabulary of the development.

  A Go map is an association list: \<open>map_of\<close> is the lookup, \<open>gput\<close> and \<open>gdel\<close> the
  assignment and the \<open>delete\<close> builtin, and the order of the list is the order in which
  \<open>range\<close> visits the entries.  Go leaves that order unspecified, so a theorem about an
  operation that ranges over a map holds for every such list.  A Go set
  (\<open>map[K]struct{}\<close>) is a map to \<^typ>\<open>unit\<close>.

  A \<open>time.Time\<close> is an integer number of nanoseconds since the zero time (1 January of
  year 1, UTC), so \<open>IsZero\<close> is equality with 0, \<open>Before\<close> and \<open>After\<close> are the strict
  orders and \<open>Add\<close> is addition; a \<open>time.Duration\<close> is an integer number of nanoseconds.
\<close>

section \<open>Types shared by every component\<close>

type_synonym ('k, 'v) gomap = "('k \<times> 'v) list"
type_synonym 'k goset = "('k, unit) gomap"
type_synonym time = int
type_synonym duration = int

named_theorems gomap_simps \<open>lookup laws of Go maps\<close>

section \<open>Go maps\<close>

definition gput :: "'k \<Rightarrow> 'v \<Rightarrow> ('k, 'v) gomap \<Rightarrow> ('k, 'v) gomap" where
  "gput k v m = AList.update k v m"

definition gdel :: "'k \<Rightarrow> ('k, 'v) gomap \<Rightarrow> ('k, 'v) gomap" where
  "gdel k m = AList.delete k m"

text \<open>Reading a missing key of a Go map yields the zero value of the element type.\<close>

definition gget :: "'v \<Rightarrow> ('k, 'v) gomap \<Rightarrow> 'k \<Rightarrow> 'v" where
  "gget z m k = (case map_of m k of None \<Rightarrow> z | Some v \<Rightarrow> v)"

definition ghas :: "('k, 'v) gomap \<Rightarrow> 'k \<Rightarrow> bool" where
  "ghas m k = (map_of m k \<noteq> None)"

definition gadd :: "'k \<Rightarrow> 'k goset \<Rightarrow> 'k goset" where
  "gadd k s = gput k () s"

text \<open>A list of key-value pairs is a map when no key occurs twice.\<close>

definition gdistinct :: "('k, 'v) gomap \<Rightarrow> bool" where
  "gdistinct m = distinct (map fst m)"

definition gkeys :: "('k, 'v) gomap \<Rightarrow> 'k list" where
  "gkeys m = map fst m"

lemma map_of_gput [simp, gomap_simps]: "map_of (gput k v m) = (map_of m)(k \<mapsto> v)"
  by (simp add: gput_def update_conv')

lemma map_of_gdel [simp, gomap_simps]: "map_of (gdel k m) = (map_of m)(k := None)"
  by (simp add: gdel_def delete_conv')

lemma gput_Nil [simp]: "gput k v [] = [(k, v)]"
  by (simp add: gput_def)

lemma gput_Cons [simp]:
  "gput k v ((k', v') # m) = (if k' = k then (k, v) # m else (k', v') # gput k v m)"
  by (auto simp: gput_def)

lemma gput_neq_Nil [simp]: "gput k v m \<noteq> []"
  by (cases m) (auto simp: gput_def)

lemma gdel_Nil [simp]: "gdel k [] = []"
  by (simp add: gdel_def)

lemma gdel_Cons [simp]: "gdel k ((k', v') # m) = (if k' = k then gdel k m else (k', v') # gdel k m)"
  by (auto simp: gdel_def)

lemma ghas_iff [gomap_simps]: "ghas m k \<longleftrightarrow> k \<in> fst ` set m"
  by (simp add: ghas_def map_of_eq_None_iff)

lemma ghas_gadd [simp]: "ghas (gadd k s) x \<longleftrightarrow> x = k \<or> ghas s x"
  by (auto simp: ghas_def gadd_def)

lemma ghas_gdel [simp]: "ghas (gdel k s) x \<longleftrightarrow> x \<noteq> k \<and> ghas s x"
  by (auto simp: ghas_def)

lemma ghas_gput [simp]: "ghas (gput k v m) x \<longleftrightarrow> x = k \<or> ghas m x"
  by (auto simp: ghas_def)

lemma ghas_Nil [simp]: "\<not> ghas [] k"
  by (simp add: ghas_def)

lemma gget_Nil [simp]: "gget z [] k = z"
  by (simp add: gget_def)

lemma gget_gput [simp]: "gget z (gput k v m) x = (if x = k then v else gget z m x)"
  by (simp add: gget_def)

lemma gget_gdel [simp]: "gget z (gdel k m) x = (if x = k then z else gget z m x)"
  by (simp add: gget_def)

lemma gdistinct_Nil [simp]: "gdistinct []"
  by (simp add: gdistinct_def)

lemma gdistinct_Cons [simp]: "gdistinct ((k, v) # m) \<longleftrightarrow> \<not> ghas m k \<and> gdistinct m"
  by (auto simp: gdistinct_def ghas_iff)

lemma gdistinct_gput [simp, intro]: "gdistinct m \<Longrightarrow> gdistinct (gput k v m)"
  by (simp add: gdistinct_def gput_def distinct_update)

lemma gdistinct_gdel [simp, intro]: "gdistinct m \<Longrightarrow> gdistinct (gdel k m)"
  by (simp add: gdistinct_def gdel_def distinct_delete)

lemma gdistinct_gadd [simp, intro]: "gdistinct s \<Longrightarrow> gdistinct (gadd k s)"
  by (simp add: gadd_def)

lemma gdistinct_filter [simp, intro]: "gdistinct m \<Longrightarrow> gdistinct (filter P m)"
  by (simp add: gdistinct_def distinct_map_filter)

lemma gdistinct_map_snd: "gdistinct (map (\<lambda>(k, v). (k, f k v)) m) \<longleftrightarrow> gdistinct m"
  by (simp add: gdistinct_def case_prod_beta o_def)

lemma set_gdel: "set (gdel k m) = {(k', v). (k', v) \<in> set m \<and> k' \<noteq> k}"
  by (auto simp: gdel_def AList.delete_eq)

lemma in_set_gput_D: "(k', v') \<in> set (gput k v m) \<Longrightarrow> (k' = k \<and> v' = v) \<or> (k', v') \<in> set m"
  by (induction m) (auto split: if_splits)

lemma gdistinct_in_set_iff: "gdistinct m \<Longrightarrow> (k, v) \<in> set m \<longleftrightarrow> map_of m k = Some v"
  by (simp add: gdistinct_def)

lemma map_of_filter_key: "map_of (filter (\<lambda>(k, v). P k) m) k = (if P k then map_of m k else None)"
  by (induction m) auto

lemma map_of_filter_Some:
  "gdistinct m \<Longrightarrow> map_of (filter (\<lambda>(k, v). P k v) m) k
     = (case map_of m k of None \<Rightarrow> None | Some v \<Rightarrow> if P k v then Some v else None)"
  by (induction m) (auto simp: ghas_def split: option.splits)

lemma map_of_map_snd: "map_of (map (\<lambda>(k, v). (k, f k v)) m) k = map_option (f k) (map_of m k)"
  by (induction m) auto

lemma length_gput_le: "length (gput k v m) \<le> Suc (length m)"
  by (induction m) auto

lemma length_gdel: "gdistinct m \<Longrightarrow> length (gdel k m) = (if ghas m k then length m - 1 else length m)"
proof (induction m)
  case (Cons p m)
  obtain k' v where p: "p = (k', v)" by (cases p)
  show ?case
  proof (cases "k' = k")
    case True
    with Cons p have "gdel k m = m"
      by (auto simp: gdel_def ghas_iff intro!: delete_id)
    with True p show ?thesis by (simp add: ghas_def)
  next
    case False
    with Cons p have len: "length (gdel k m) = (if ghas m k then length m - 1 else length m)"
      by simp
    show ?thesis
    proof (cases "ghas m k")
      case True
      then have "m \<noteq> []" by auto
      then have "Suc (length m - 1) = length m" by (cases m) auto
      with False len True p show ?thesis by (simp add: ghas_def)
    next
      case no: False
      with False len p show ?thesis by (simp add: ghas_def)
    qed
  qed
qed simp

lemma length_gput: "\<not> ghas m k \<Longrightarrow> length (gput k v m) = Suc (length m)"
  by (induction m) (auto simp: ghas_def split: if_splits)

lemma length_gdel_mem: "gdistinct m \<Longrightarrow> ghas m k \<Longrightarrow> int (length (gdel k m)) = int (length m) - 1"
  by (cases m) (auto simp: length_gdel of_nat_diff)

lemma gdel_absent: "\<not> ghas m k \<Longrightarrow> gdel k m = m"
  by (induction m) (auto simp: ghas_def split: if_splits)

section \<open>Generic list facts\<close>

lemma foldl_invariant:
  assumes "P s" and "\<And>s x. P s \<Longrightarrow> x \<in> set xs \<Longrightarrow> P (f s x)"
  shows "P (foldl f s xs)"
  using assms by (induction xs arbitrary: s) auto

lemma fold_invariant_set:
  assumes "P s" and "\<And>s x. P s \<Longrightarrow> x \<in> set xs \<Longrightarrow> P (f x s)"
  shows "P (fold f xs s)"
  using assms by (induction xs arbitrary: s) auto

lemma append_eq_prefix_free:
  "x \<notin> set as \<Longrightarrow> x \<notin> set bs \<Longrightarrow> as @ x # cs = bs @ x # ds \<longleftrightarrow> as = bs \<and> cs = ds"
  by (induction as arbitrary: bs) (case_tac bs; auto)+

end
