(* ===== verification/Go_Stdlib.thy ===== *)
theory Go_Stdlib
  imports Toise_Prelude "HOL-Library.Word"
begin

text \<open>
  The part of the Go standard library the sources call: \<open>strconv\<close> (decimal integers and
  floats), \<open>strings\<close>, \<open>unicode/utf8\<close>, \<open>encoding/binary\<close> (big-endian words),
  \<open>encoding/hex\<close>, \<open>encoding/json\<close> and \<open>crypto/sha256\<close>.

  A Go string is a byte sequence, here a list of 8-bit characters; \<open>len\<close> is the number of
  bytes and \<open><\<close> the bytewise lexicographic order.  A \<open>float64\<close> other than NaN and the
  infinities is represented by the shortest decimal that denotes it, which is what
  \<open>FormatFloat(f, _, -1, 64)\<close> prints and which determines the float; the order of two
  floats is the order of their shortest decimals.
\<close>

unbundle bit_operations_syntax

section \<open>Bytes\<close>

definition byte_of :: "nat \<Rightarrow> char" where
  "byte_of n = char_of n"

definition nat_of_byte :: "char \<Rightarrow> nat" where
  "nat_of_byte c = of_char c"

text \<open>The NUL byte, the field and record separators of \<open>model\<close>, and the line bytes.\<close>

definition x00 :: char where "x00 = CHR 0x00"
definition x1e :: char where "x1e = CHR 0x1E"
definition x1f :: char where "x1f = CHR 0x1F"

section \<open>strconv: decimal integers\<close>

definition digit :: "nat \<Rightarrow> char" where
  "digit d = char_of (48 + d mod 10)"

fun digits_of :: "nat \<Rightarrow> string" where
  "digits_of n = (if n < 10 then [digit n] else digits_of (n div 10) @ [digit (n mod 10)])"

declare digits_of.simps [simp del]

text \<open>\<open>strconv.Itoa\<close> on a length, and \<open>strconv.FormatInt(i, 10)\<close>.\<close>

definition itoa :: "nat \<Rightarrow> string" where
  "itoa n = digits_of n"

definition format_int :: "int \<Rightarrow> string" where
  "format_int i = (if i < 0 then CHR ''-'' # digits_of (nat (- i)) else digits_of (nat i))"

definition is_digit :: "char \<Rightarrow> bool" where
  "is_digit c = (48 \<le> (of_char c :: nat) \<and> (of_char c :: nat) \<le> 57)"

definition digit_val :: "char \<Rightarrow> nat" where
  "digit_val c = of_char c - 48"

definition nat_of_digits :: "string \<Rightarrow> nat" where
  "nat_of_digits s = foldl (\<lambda>n c. 10 * n + digit_val c) 0 s"

text \<open>
  \<open>strconv.Atoi\<close>: an optional sign and at least one decimal digit, the value in the
  range of a 64-bit \<open>int\<close>; anything else is an error (\<^const>\<open>None\<close>).
\<close>

definition atoi_digits :: "string \<Rightarrow> int option" where
  "atoi_digits s = (if s = [] \<or> \<not> list_all is_digit s then None else Some (int (nat_of_digits s)))"

definition int64_ok :: "int \<Rightarrow> bool" where
  "int64_ok i = (- (2 ^ 63) \<le> i \<and> i < 2 ^ 63)"

definition atoi :: "string \<Rightarrow> int option" where
  "atoi s =
     (let r = (case s of
                 [] \<Rightarrow> None
               | c # cs \<Rightarrow> if c = CHR ''-'' then map_option uminus (atoi_digits cs)
                          else if c = CHR ''+'' then atoi_digits cs
                          else atoi_digits s)
      in case r of None \<Rightarrow> None | Some i \<Rightarrow> if int64_ok i then Some i else None)"

definition format_bool :: "bool \<Rightarrow> string" where
  "format_bool b = (if b then ''true'' else ''false'')"

text \<open>Two's complement wrap-around of a 64-bit signed integer.\<close>

definition wrap64 :: "int \<Rightarrow> int" where
  "wrap64 i = ((i + 2 ^ 63) mod 2 ^ 64) - 2 ^ 63"

section \<open>float64\<close>

text \<open>
  \<open>Fin neg m e\<close> is \<open>(-1)^neg * m * 10^e\<close> with no trailing zero digit in \<open>m\<close>
  (\<open>m = 0\<close> and \<open>e = 0\<close> for the two zeros).
\<close>

datatype float64 = NaN | Inf bool | Fin bool nat int

definition float_wf :: "float64 \<Rightarrow> bool" where
  "float_wf f = (case f of Fin n m e \<Rightarrow> (if m = 0 then e = 0 else m mod 10 \<noteq> 0) | _ \<Rightarrow> True)"

definition rat_of_dec :: "bool \<Rightarrow> nat \<Rightarrow> int \<Rightarrow> rat" where
  "rat_of_dec n m e =
     (if n then -1 else 1) * (if 0 \<le> e then of_nat m * 10 ^ nat e else of_nat m / 10 ^ nat (- e))"

fun f_le :: "float64 \<Rightarrow> float64 \<Rightarrow> bool" where
  "f_le NaN _ = False"
| "f_le _ NaN = False"
| "f_le (Inf True) _ = True"
| "f_le _ (Inf False) = True"
| "f_le (Inf False) _ = False"
| "f_le _ (Inf True) = False"
| "f_le (Fin n m e) (Fin n' m' e') = (rat_of_dec n m e \<le> rat_of_dec n' m' e')"

fun f_lt :: "float64 \<Rightarrow> float64 \<Rightarrow> bool" where
  "f_lt NaN _ = False"
| "f_lt _ NaN = False"
| "f_lt (Inf a) (Inf b) = (a \<and> \<not> b)"
| "f_lt (Inf a) (Fin _ _ _) = a"
| "f_lt (Fin _ _ _) (Inf b) = (\<not> b)"
| "f_lt (Fin n m e) (Fin n' m' e') = (rat_of_dec n m e < rat_of_dec n' m' e')"

fun strip_zeros :: "nat \<Rightarrow> nat \<Rightarrow> nat \<times> nat" where
  "strip_zeros m e = (if m = 0 then (0, 0) else if m mod 10 = 0 then strip_zeros (m div 10) (Suc e) else (m, e))"

declare strip_zeros.simps [simp del]

text \<open>The conversion \<open>float64(i)\<close>, exact up to \<open>2^53\<close> (the callers only use it on \<open>0..1\<close>).\<close>

definition float_of_int :: "int \<Rightarrow> float64" where
  "float_of_int i = (let (m, e) = strip_zeros (nat \<bar>i\<bar>) 0 in Fin (i < 0) m (int e))"

definition f_zero :: float64 where "f_zero = Fin False 0 0"
definition f_one :: float64 where "f_one = Fin False 1 0"

text \<open>The digits of a shortest decimal and the position of its decimal point.\<close>

definition dec_digits :: "nat \<Rightarrow> string" where
  "dec_digits m = (if m = 0 then [] else digits_of m)"

definition dec_point :: "nat \<Rightarrow> int \<Rightarrow> int" where
  "dec_point m e = (if m = 0 then 0 else int (length (digits_of m)) + e)"

definition fmt_sign :: "bool \<Rightarrow> string" where
  "fmt_sign n = (if n then ''-'' else [])"

definition fmt_e :: "bool \<Rightarrow> string \<Rightarrow> int \<Rightarrow> string" where
  "fmt_e neg ds dp =
     (let x = (if ds = [] then 0 else dp - 1);
          ex = digits_of (nat \<bar>x\<bar>);
          ex2 = (if length ex < 2 then CHR ''0'' # ex else ex);
          hd_d = (case ds of [] \<Rightarrow> CHR ''0'' | d # _ \<Rightarrow> d);
          tl_d = (if length ds > 1 then CHR ''.'' # tl ds else [])
      in fmt_sign neg @ [hd_d] @ tl_d @ ''e'' @ (if x < 0 then ''-'' else ''+'') @ ex2)"

definition fmt_f :: "bool \<Rightarrow> string \<Rightarrow> int \<Rightarrow> string" where
  "fmt_f neg ds dp =
     (let nd = int (length ds);
          ip = (if dp > 0 then take (nat dp) ds @ replicate (nat (dp - nd)) (CHR ''0'') else ''0'');
          fp = (if nd - dp > 0
                then CHR ''.'' # replicate (nat (- dp)) (CHR ''0'') @ drop (nat dp) ds else [])
      in fmt_sign neg @ ip @ fp)"

text \<open>\<open>strconv.FormatFloat(f, 'g', -1, 64)\<close>: exponent form below 1e-4 and from 1e6 on.\<close>

fun format_float_g :: "float64 \<Rightarrow> string" where
  "format_float_g NaN = ''NaN''"
| "format_float_g (Inf n) = (if n then ''-Inf'' else ''+Inf'')"
| "format_float_g (Fin n m e) =
     (let ds = dec_digits m; dp = dec_point m e
      in if dp - 1 < -4 \<or> dp - 1 \<ge> 6 then fmt_e n ds dp else fmt_f n ds dp)"

section \<open>strings\<close>

fun index_byte :: "string \<Rightarrow> char \<Rightarrow> nat option" where
  "index_byte [] c = None"
| "index_byte (x # xs) c = (if x = c then Some 0 else map_option Suc (index_byte xs c))"

text \<open>\<open>strings.Cut\<close> around a one-byte separator.\<close>

definition cut :: "string \<Rightarrow> char \<Rightarrow> string \<times> string \<times> bool" where
  "cut s c = (case index_byte s c of None \<Rightarrow> (s, [], False)
              | Some i \<Rightarrow> (take i s, drop (Suc i) s, True))"

definition contains_byte :: "string \<Rightarrow> char \<Rightarrow> bool" where
  "contains_byte s c = (c \<in> set s)"

definition has_prefix :: "string \<Rightarrow> string \<Rightarrow> bool" where
  "has_prefix s p = (take (length p) s = p)"

text \<open>\<open>strings.Split\<close> on a one-byte separator.\<close>

fun split_byte :: "char \<Rightarrow> string \<Rightarrow> string list" where
  "split_byte c [] = [[]]"
| "split_byte c (x # xs) =
     (if x = c then [] # split_byte c xs
      else case split_byte c xs of [] \<Rightarrow> [[x]] | w # ws \<Rightarrow> (x # w) # ws)"

fun join :: "string \<Rightarrow> string list \<Rightarrow> string" where
  "join sep [] = []"
| "join sep [s] = s"
| "join sep (s # t # ss) = s @ sep @ join sep (t # ss)"

text \<open>The UTF-8 encodings of Unicode's white space, as \<open>strings.TrimSpace\<close> cuts them.\<close>

definition space_encodings :: "string list" where
  "space_encodings =
     map (\<lambda>n. [char_of n]) [9, 10, 11, 12, 13, 32::nat]
     @ [[CHR 0xC2, CHR 0x85], [CHR 0xC2, CHR 0xA0], [CHR 0xE1, CHR 0x9A, CHR 0x80]]
     @ map (\<lambda>n. [CHR 0xE2, CHR 0x80, char_of (n::nat)])
         [0x80, 0x81, 0x82, 0x83, 0x84, 0x85, 0x86, 0x87, 0x88, 0x89, 0x8A, 0xA8, 0xA9, 0xAF]
     @ [[CHR 0xE2, CHR 0x81, CHR 0x9F], [CHR 0xE3, CHR 0x80, CHR 0x80]]"

definition lead_space :: "string list \<Rightarrow> string \<Rightarrow> nat" where
  "lead_space encs s = (case find (\<lambda>p. has_prefix s p) encs of None \<Rightarrow> 0 | Some p \<Rightarrow> length p)"

function trim_left :: "string list \<Rightarrow> string \<Rightarrow> string" where
  "trim_left encs s =
     (let n = lead_space encs s in if n = 0 \<or> s = [] then s else trim_left encs (drop n s))"
  by pat_completeness auto
termination by (relation "measure (\<lambda>(encs, s). length s)") auto

declare trim_left.simps [simp del]

definition trim_space :: "string \<Rightarrow> string" where
  "trim_space s =
     rev (trim_left (map rev space_encodings) (rev (trim_left space_encodings s)))"

section \<open>unicode/utf8 and encoding/json\<close>

definition in_range :: "nat \<Rightarrow> nat \<Rightarrow> char \<Rightarrow> bool" where
  "in_range lo hi c = (lo \<le> (of_char c :: nat) \<and> (of_char c :: nat) \<le> hi)"

text \<open>The number of bytes of the well-formed non-ASCII rune at the head, 0 when there is none.\<close>

definition utf8_two :: "char \<Rightarrow> char \<Rightarrow> bool" where
  "utf8_two a b = (in_range 0xC2 0xDF a \<and> in_range 0x80 0xBF b)"

definition utf8_three :: "char \<Rightarrow> char \<Rightarrow> char \<Rightarrow> bool" where
  "utf8_three a b c =
     ((in_range 0xE0 0xE0 a \<and> in_range 0xA0 0xBF b
       \<or> in_range 0xE1 0xEC a \<and> in_range 0x80 0xBF b
       \<or> in_range 0xED 0xED a \<and> in_range 0x80 0x9F b
       \<or> in_range 0xEE 0xEF a \<and> in_range 0x80 0xBF b) \<and> in_range 0x80 0xBF c)"

definition utf8_four :: "char \<Rightarrow> char \<Rightarrow> char \<Rightarrow> char \<Rightarrow> bool" where
  "utf8_four a b c d =
     ((in_range 0xF0 0xF0 a \<and> in_range 0x90 0xBF b
       \<or> in_range 0xF1 0xF3 a \<and> in_range 0x80 0xBF b
       \<or> in_range 0xF4 0xF4 a \<and> in_range 0x80 0x8F b)
      \<and> in_range 0x80 0xBF c \<and> in_range 0x80 0xBF d)"

fun utf8_len :: "string \<Rightarrow> nat" where
  "utf8_len (a # b # c # d # s) =
     (if utf8_two a b then 2 else if utf8_three a b c then 3 else if utf8_four a b c d then 4 else 0)"
| "utf8_len [a, b, c] = (if utf8_two a b then 2 else if utf8_three a b c then 3 else 0)"
| "utf8_len [a, b] = (if utf8_two a b then 2 else 0)"
| "utf8_len _ = 0"

definition hex_digit :: "nat \<Rightarrow> char" where
  "hex_digit n = (if n mod 16 < 10 then char_of (48 + n mod 16) else char_of (87 + n mod 16))"

definition json_ascii :: "char \<Rightarrow> string" where
  "json_ascii c =
     (let n = (of_char c :: nat) in
      if c = CHR 0x22 \<or> c = CHR 0x5C then [CHR 0x5C, c]
      else if n = 8 then [CHR 0x5C, CHR ''b''] else if n = 12 then [CHR 0x5C, CHR ''f'']
      else if n = 10 then [CHR 0x5C, CHR ''n''] else if n = 13 then [CHR 0x5C, CHR ''r'']
      else if n = 9 then [CHR 0x5C, CHR ''t'']
      else if n < 32 \<or> c = CHR ''<'' \<or> c = CHR ''>'' \<or> c = CHR ''&''
        then CHR 0x5C # ''u00'' @ [hex_digit (n div 16), hex_digit n]
      else [c])"

function json_escape :: "string \<Rightarrow> string" where
  "json_escape [] = []"
| "json_escape (c # cs) =
     (if (of_char c :: nat) < 128 then json_ascii c @ json_escape cs
      else let n = utf8_len (c # cs) in
        if n = 0 then CHR 0x5C # ''ufffd'' @ json_escape cs
        else let r = take n (c # cs) in
          (if r = [CHR 0xE2, CHR 0x80, CHR 0xA8] then CHR 0x5C # ''u2028''
           else if r = [CHR 0xE2, CHR 0x80, CHR 0xA9] then CHR 0x5C # ''u2029'' else r)
          @ json_escape (drop n (c # cs)))"
  by pat_completeness auto
termination by (relation "measure length") auto

definition json_string :: "string \<Rightarrow> string" where
  "json_string s = [CHR 0x22] @ json_escape s @ [CHR 0x22]"

text \<open>\<open>json.Marshal\<close> of a float: \<open>None\<close> is the error for NaN and the infinities.\<close>

definition json_exp_clean :: "string \<Rightarrow> string" where
  "json_exp_clean b =
     (let n = length b in
      if n \<ge> 4 \<and> b ! (n - 4) = CHR ''e'' \<and> (b ! (n - 3) = CHR ''-'' \<or> b ! (n - 3) = CHR ''+'')
         \<and> b ! (n - 2) = CHR ''0''
      then take (n - 2) b @ [b ! (n - 1)] else b)"

fun json_float :: "float64 \<Rightarrow> string option" where
  "json_float (Fin n m e) =
     (let ds = dec_digits m; dp = dec_point m e in
      if m \<noteq> 0 \<and> (dp \<le> -6 \<or> dp \<ge> 22) then Some (json_exp_clean (fmt_e n ds dp))
      else Some (fmt_f n ds dp))"
| "json_float _ = None"

section \<open>encoding/binary and encoding/hex\<close>

definition encodeU64 :: "64 word \<Rightarrow> string" where
  "encodeU64 w = map (\<lambda>i. char_of (unat (drop_bit (8 * (7 - i)) w AND 255))) [0..<8]"

definition be_nat :: "string \<Rightarrow> nat" where
  "be_nat bs = foldl (\<lambda>n b. 256 * n + of_char b) 0 bs"

definition decodeU64 :: "string \<Rightarrow> 64 word" where
  "decodeU64 bs = of_nat (be_nat (take 8 bs))"

definition hex_encode :: "string \<Rightarrow> string" where
  "hex_encode bs = concat (map (\<lambda>b. let n = (of_char b :: nat) in [hex_digit (n div 16), hex_digit n]) bs)"

section \<open>crypto/sha256\<close>

type_synonym w32 = "32 word"
type_synonym sha_state = "w32 list"

definition sha_k :: "w32 list" where
  "sha_k = [
     1116352408, 1899447441, 3049323471, 3921009573, 961987163, 1508970993, 2453635748, 2870763221,
     3624381080, 310598401, 607225278, 1426881987, 1925078388, 2162078206, 2614888103, 3248222580,
     3835390401, 4022224774, 264347078, 604807628, 770255983, 1249150122, 1555081692, 1996064986,
     2554220882, 2821834349, 2952996808, 3210313671, 3336571891, 3584528711, 113926993, 338241895,
     666307205, 773529912, 1294757372, 1396182291, 1695183700, 1986661051, 2177026350, 2456956037,
     2730485921, 2820302411, 3259730800, 3345764771, 3516065817, 3600352804, 4094571909, 275423344,
     430227734, 506948616, 659060556, 883997877, 958139571, 1322822218, 1537002063, 1747873779,
     1955562222, 2024104815, 2227730452, 2361852424, 2428436474, 2756734187, 3204031479, 3329325298]"

definition sha_init :: sha_state where
  "sha_init = [1779033703, 3144134277, 1013904242, 2773480762, 1359893119, 2600822924, 528734635, 1541459225]"

definition sha_rotr :: "nat \<Rightarrow> w32 \<Rightarrow> w32" where
  "sha_rotr n x = drop_bit n x OR push_bit (32 - n) x"

definition sha_Sig0 :: "w32 \<Rightarrow> w32" where
  "sha_Sig0 x = sha_rotr 2 x XOR sha_rotr 13 x XOR sha_rotr 22 x"
definition sha_Sig1 :: "w32 \<Rightarrow> w32" where
  "sha_Sig1 x = sha_rotr 6 x XOR sha_rotr 11 x XOR sha_rotr 25 x"
definition sha_sig0 :: "w32 \<Rightarrow> w32" where
  "sha_sig0 x = sha_rotr 7 x XOR sha_rotr 18 x XOR drop_bit 3 x"
definition sha_sig1 :: "w32 \<Rightarrow> w32" where
  "sha_sig1 x = sha_rotr 17 x XOR sha_rotr 19 x XOR drop_bit 10 x"

text \<open>The message schedule, built on the reversed list of words.\<close>

fun sha_extend :: "nat \<Rightarrow> w32 list \<Rightarrow> w32 list" where
  "sha_extend 0 rw = rev rw"
| "sha_extend (Suc n) rw =
     sha_extend n ((sha_sig1 (rw ! 1) + rw ! 6 + sha_sig0 (rw ! 14) + rw ! 15) # rw)"

fun sha_round :: "sha_state \<Rightarrow> w32 \<times> w32 \<Rightarrow> sha_state" where
  "sha_round [a, b, c, d, e, f, g, h] (k, w) =
     (let t1 = h + sha_Sig1 e + ((e AND f) XOR (NOT e AND g)) + k + w;
          t2 = sha_Sig0 a + ((a AND b) XOR (a AND c) XOR (b AND c))
      in [t1 + t2, a, b, c, d + t1, e, f, g])"
| "sha_round s _ = s"

definition word_of_bytes :: "string \<Rightarrow> w32" where
  "word_of_bytes bs = of_nat (be_nat bs)"

definition bytes_of_word :: "w32 \<Rightarrow> string" where
  "bytes_of_word w = map (\<lambda>i. char_of (unat (drop_bit (8 * (3 - i)) w AND 255))) [0..<4]"

definition sha_words :: "string \<Rightarrow> w32 list" where
  "sha_words blk = map (\<lambda>i. word_of_bytes (take 4 (drop (4 * i) blk))) [0..<16]"

definition sha_block :: "sha_state \<Rightarrow> string \<Rightarrow> sha_state" where
  "sha_block s blk =
     map2 (+) s (foldl sha_round s (zip sha_k (sha_extend 48 (rev (sha_words blk)))))"

definition sha_pad :: "string \<Rightarrow> string" where
  "sha_pad msg =
     (let z = (119 - length msg mod 64) mod 64
      in msg @ [CHR 0x80] @ replicate z x00 @ encodeU64 (of_nat (8 * length msg)))"

fun sha_blocks :: "nat \<Rightarrow> sha_state \<Rightarrow> string \<Rightarrow> sha_state" where
  "sha_blocks 0 s _ = s"
| "sha_blocks (Suc n) s msg = sha_blocks n (sha_block s (take 64 msg)) (drop 64 msg)"

definition sha256 :: "string \<Rightarrow> string" where
  "sha256 msg =
     (let p = sha_pad msg
      in concat (map bytes_of_word (sha_blocks (length p div 64) sha_init p)))"

section \<open>Laws of decimal printing and parsing\<close>

lemma of_char_digit [simp]: "(of_char (digit d) :: nat) = 48 + d mod 10"
  by (simp add: digit_def)

lemma is_digit_digit [simp]: "is_digit (digit d)"
  by (simp add: is_digit_def)

lemma digit_val_digit [simp]: "digit_val (digit d) = d mod 10"
  by (simp add: digit_val_def)

lemma digits_of_nonempty [simp]: "digits_of n \<noteq> []"
  by (subst digits_of.simps) simp

lemma digits_of_all_digits: "list_all is_digit (digits_of n)"
proof (induction n rule: digits_of.induct)
  case (1 n)
  then show ?case by (subst digits_of.simps) simp
qed

lemma nat_of_digits_snoc: "nat_of_digits (s @ [c]) = 10 * nat_of_digits s + digit_val c"
  by (simp add: nat_of_digits_def)

lemma nat_of_digits_of [simp]: "nat_of_digits (digits_of n) = n"
proof (induction n rule: digits_of.induct)
  case (1 n)
  show ?case
  proof (cases "n < 10")
    case True
    then show ?thesis
      by (subst digits_of.simps) (simp add: nat_of_digits_def)
  next
    case False
    with 1 have "nat_of_digits (digits_of (n div 10)) = n div 10" by simp
    with False show ?thesis
      by (subst digits_of.simps) (simp add: nat_of_digits_snoc)
  qed
qed

lemma digits_of_inj: "digits_of m = digits_of n \<longleftrightarrow> m = n"
  by (metis nat_of_digits_of)

lemma non_digit_notin_digits_of: "\<not> is_digit c \<Longrightarrow> c \<notin> set (digits_of n)"
  using digits_of_all_digits [of n] by (auto simp: list_all_iff)

lemma x00_not_digit [simp]: "\<not> is_digit x00"
  by (simp add: is_digit_def x00_def)

lemma x00_notin_itoa [simp]: "x00 \<notin> set (itoa n)"
  by (simp add: itoa_def non_digit_notin_digits_of)

lemma atoi_digits_itoa: "atoi_digits (itoa n) = Some (int n)"
  by (simp add: atoi_digits_def itoa_def digits_of_all_digits)

lemma itoa_first_digit: "\<exists>c cs. itoa n = c # cs \<and> is_digit c"
  using digits_of_all_digits [of n] by (cases "digits_of n") (auto simp: itoa_def)

lemma atoi_itoa: "int64_ok (int n) \<Longrightarrow> atoi (itoa n) = Some (int n)"
proof -
  assume ok: "int64_ok (int n)"
  obtain c cs where c: "itoa n = c # cs" "is_digit c"
    using itoa_first_digit by blast
  then have "c \<noteq> CHR ''-''" "c \<noteq> CHR ''+''" by (auto simp: is_digit_def)
  with c ok show ?thesis
    using atoi_digits_itoa [of n] by (simp add: atoi_def Let_def)
qed

lemma format_int_inj: "format_int i = format_int j \<longleftrightarrow> i = j"
proof
  assume eq: "format_int i = format_int j"
  have dash: "CHR ''-'' \<notin> set (digits_of k)" for k
    by (rule non_digit_notin_digits_of) (simp add: is_digit_def)
  have hd_dash: "digits_of k \<noteq> CHR ''-'' # s" for k s
    using dash [of k] by auto
  show "i = j"
    using eq hd_dash hd_dash [THEN not_sym] by (auto simp: format_int_def digits_of_inj split: if_splits)
next
  assume "i = j"
  then show "format_int i = format_int j" by simp
qed

lemma wrap64_id [simp]: "int64_ok i \<Longrightarrow> wrap64 i = i"
  by (simp add: int64_ok_def wrap64_def)

section \<open>Laws of searching and splitting\<close>

lemma index_byte_append [simp]: "c \<notin> set s \<Longrightarrow> index_byte (s @ c # t) c = Some (length s)"
  by (induction s) auto

lemma index_byte_None: "index_byte s c = None \<longleftrightarrow> c \<notin> set s"
  by (induction s) auto

lemma index_byte_Some: "index_byte s c = Some i \<Longrightarrow> i < length s \<and> s ! i = c \<and> c \<notin> set (take i s)"
  by (induction s arbitrary: i) (auto split: if_splits)

lemma has_prefix_iff: "has_prefix s p \<longleftrightarrow> (\<exists>t. s = p @ t)"
  by (auto simp: has_prefix_def) (metis append_take_drop_id)

section \<open>Laws of hashing\<close>

lemma length_hex_encode [simp]: "length (hex_encode bs) = 2 * length bs"
  by (induction bs) (auto simp: hex_encode_def Let_def)

lemma hex_digit_set: "hex_digit n \<in> set ''0123456789abcdef''"
proof -
  have "list_all (\<lambda>m. hex_digit m \<in> set ''0123456789abcdef'') [0..<16]" by code_simp
  moreover have "n mod 16 \<in> set [0..<16]" by simp
  ultimately have "hex_digit (n mod 16) \<in> set ''0123456789abcdef''" unfolding list_all_iff by blast
  moreover have "hex_digit (n mod 16) = hex_digit n" by (simp add: hex_digit_def)
  ultimately show ?thesis by simp
qed

lemma hex_encode_set: "set (hex_encode bs) \<subseteq> set ''0123456789abcdef''"
  using hex_digit_set by (auto simp: hex_encode_def Let_def)

lemma length_bytes_of_word [simp]: "length (bytes_of_word w) = 4"
  by (simp add: bytes_of_word_def)

lemma length_sha_round [simp]: "length (sha_round s kw) = length s"
  by (induction s kw rule: sha_round.induct) (auto simp: Let_def)

lemma length_foldl_sha_round: "length (foldl sha_round s kws) = length s"
  by (induction kws arbitrary: s) auto

lemma length_sha_block [simp]: "length (sha_block s blk) = length s"
  by (simp add: sha_block_def length_foldl_sha_round)

lemma length_sha_blocks [simp]: "length (sha_blocks n s msg) = length s"
  by (induction n s msg rule: sha_blocks.induct) auto

lemma length_concat_bytes: "length (concat (map bytes_of_word ws)) = 4 * length ws"
  by (induction ws) auto

lemma length_sha256 [simp]: "length (sha256 msg) = 32"
  by (simp add: sha256_def Let_def length_concat_bytes sha_init_def)

end
