(* ===== verification/Model_Value.thy ===== *)
theory Model_Value
  imports Go_Stdlib
begin

text \<open>
  \<open>internal/model/value.go\<close>: the typed attribute value, its two canonical encodings, its
  display rendering and its protobuf form.  The struct's kind tag and payload fields are
  one datatype; the constructor functions of the source are its constructors.
\<close>

named_theorems value_simps \<open>encodings of attribute values\<close>

section \<open>Definitions\<close>

text \<open>\<open>Value\<close>; a \<open>KeyValue\<close> is a pair of a key and a value.\<close>

datatype Value =
    InvalidValue
  | StringValue string
  | IntValue int
  | DoubleValue float64
  | BoolValue bool
  | ArrayValue "Value list"
  | KvlistValue "(string \<times> Value) list"

type_synonym KeyValue = "string \<times> Value"

datatype ValueKind =
    KindInvalid | KindString | KindInt | KindDouble | KindBool | KindArray | KindKvlist

fun Kind :: "Value \<Rightarrow> ValueKind" where
  "Kind InvalidValue = KindInvalid"
| "Kind (StringValue _) = KindString"
| "Kind (IntValue _) = KindInt"
| "Kind (DoubleValue _) = KindDouble"
| "Kind (BoolValue _) = KindBool"
| "Kind (ArrayValue _) = KindArray"
| "Kind (KvlistValue _) = KindKvlist"

definition IsValid :: "Value \<Rightarrow> bool" where
  "IsValid v = (Kind v \<noteq> KindInvalid)"

text \<open>The accessors return the zero value of their type for another kind.\<close>

definition Str :: "Value \<Rightarrow> string" where
  "Str v = (case v of StringValue s \<Rightarrow> s | _ \<Rightarrow> [])"

definition Int_of :: "Value \<Rightarrow> int" where
  "Int_of v = (case v of IntValue i \<Rightarrow> i | _ \<Rightarrow> 0)"

definition Double_of :: "Value \<Rightarrow> float64" where
  "Double_of v = (case v of DoubleValue f \<Rightarrow> f | _ \<Rightarrow> f_zero)"

text \<open>
  \<open>canonical\<close>: the type-tagged encoding behind the identity hash and attribute change
  detection.  Composite kinds are length-prefixed and a kvlist is sorted by key.
\<close>

definition len_prefixed :: "string \<Rightarrow> string" where
  "len_prefixed s = itoa (length s) @ '':'' @ s"

fun canonical :: "Value \<Rightarrow> string" where
  "canonical (StringValue s) = ''s:'' @ s"
| "canonical (IntValue i) = ''i:'' @ format_int i"
| "canonical (DoubleValue f) = ''d:'' @ format_float_g f"
| "canonical (BoolValue b) = ''b:'' @ format_bool b"
| "canonical (ArrayValue vs) =
     ''a:'' @ itoa (length vs) @ '':'' @ concat (map (\<lambda>v. len_prefixed (canonical v)) vs)"
| "canonical (KvlistValue kvs) =
     ''k:'' @ itoa (length kvs) @ '':''
     @ concat (map (\<lambda>(k, c). len_prefixed k @ len_prefixed c)
         (sort_key fst (map (\<lambda>(k, v). (k, canonical v)) kvs)))"
| "canonical InvalidValue = ''n:''"

text \<open>\<open>appendCanonical\<close>, the allocation-free form the identity hash uses.\<close>

definition appendCanonical :: "Value \<Rightarrow> string \<Rightarrow> string" where
  "appendCanonical v dst =
     (case v of
        StringValue s \<Rightarrow> (dst @ [CHR ''s'', CHR '':'']) @ s
      | IntValue i \<Rightarrow> (dst @ [CHR ''i'', CHR '':'']) @ format_int i
      | DoubleValue f \<Rightarrow> (dst @ [CHR ''d'', CHR '':'']) @ format_float_g f
      | BoolValue b \<Rightarrow> (dst @ [CHR ''b'', CHR '':'']) @ format_bool b
      | _ \<Rightarrow> dst @ canonical v)"

text \<open>\<open>toAny\<close> and the JSON text \<open>json.Marshal\<close> makes of it (\<^const>\<open>None\<close> on NaN and infinities).\<close>

datatype any =
    AnyNil | AnyString string | AnyInt int | AnyFloat float64 | AnyBool bool
  | AnySlice "any list" | AnyMap "(string \<times> any) list"

definition go_map_of_list :: "('k \<times> 'v) list \<Rightarrow> ('k, 'v) gomap" where
  "go_map_of_list kvs = foldl (\<lambda>m (k, v). gput k v m) [] kvs"

fun toAny :: "Value \<Rightarrow> any" where
  "toAny (StringValue s) = AnyString s"
| "toAny (IntValue i) = AnyInt i"
| "toAny (DoubleValue f) = AnyFloat f"
| "toAny (BoolValue b) = AnyBool b"
| "toAny (ArrayValue vs) = AnySlice (map toAny vs)"
| "toAny (KvlistValue kvs) = AnyMap (go_map_of_list (map (\<lambda>(k, v). (k, toAny v)) kvs))"
| "toAny InvalidValue = AnyNil"

fun all_some :: "'a option list \<Rightarrow> 'a list option" where
  "all_some [] = Some []"
| "all_some (None # _) = None"
| "all_some (Some x # xs) = map_option ((#) x) (all_some xs)"

fun json_marshal :: "any \<Rightarrow> string option" where
  "json_marshal AnyNil = Some ''null''"
| "json_marshal (AnyString s) = Some (json_string s)"
| "json_marshal (AnyInt i) = Some (format_int i)"
| "json_marshal (AnyFloat f) = json_float f"
| "json_marshal (AnyBool b) = Some (format_bool b)"
| "json_marshal (AnySlice xs) =
     map_option (\<lambda>ss. ''['' @ join '','' ss @ '']'') (all_some (map json_marshal xs))"
| "json_marshal (AnyMap kvs) =
     map_option (\<lambda>ss. ''{'' @ join '','' ss @ ''}'')
       (all_some (map (\<lambda>(k, r). map_option (\<lambda>t. json_string k @ '':'' @ t) r)
         (sort_key fst (map (\<lambda>(k, x). (k, json_marshal x)) kvs))))"

definition Display :: "Value \<Rightarrow> string" where
  "Display v =
     (case v of
        IntValue i \<Rightarrow> format_int i
      | DoubleValue f \<Rightarrow> format_float_g f
      | BoolValue b \<Rightarrow> format_bool b
      | ArrayValue _ \<Rightarrow> (case json_marshal (toAny v) of None \<Rightarrow> [] | Some b \<Rightarrow> b)
      | KvlistValue _ \<Rightarrow> (case json_marshal (toAny v) of None \<Rightarrow> [] | Some b \<Rightarrow> b)
      | StringValue s \<Rightarrow> s
      | InvalidValue \<Rightarrow> [])"

text \<open>The protobuf message \<open>toisev1.Value\<close>: its \<open>oneof\<close>, absent in the last constructor.\<close>

datatype PbValue =
    PbString string | PbInt int | PbDouble float64 | PbBool bool
  | PbArray "PbValue list" | PbKvlist "(string \<times> PbValue) list" | PbUnset

fun toProto :: "Value \<Rightarrow> PbValue" where
  "toProto (StringValue s) = PbString s"
| "toProto (IntValue i) = PbInt i"
| "toProto (DoubleValue f) = PbDouble f"
| "toProto (BoolValue b) = PbBool b"
| "toProto (ArrayValue vs) = PbArray (map toProto vs)"
| "toProto (KvlistValue kvs) = PbKvlist (map (\<lambda>(k, v). (k, toProto v)) kvs)"
| "toProto InvalidValue = PbUnset"

fun valueFromProto :: "PbValue \<Rightarrow> Value" where
  "valueFromProto (PbString s) = StringValue s"
| "valueFromProto (PbInt i) = IntValue i"
| "valueFromProto (PbDouble f) = DoubleValue f"
| "valueFromProto (PbBool b) = BoolValue b"
| "valueFromProto (PbArray vs) = ArrayValue (map valueFromProto vs)"
| "valueFromProto (PbKvlist kvs) = KvlistValue (map (\<lambda>(k, v). (k, valueFromProto v)) kvs)"
| "valueFromProto PbUnset = InvalidValue"

definition kvsToProto :: "KeyValue list \<Rightarrow> (string \<times> PbValue) list" where
  "kvsToProto kvs = map (\<lambda>(k, v). (k, toProto v)) kvs"

definition kvsFromProto :: "(string \<times> PbValue) list \<Rightarrow> KeyValue list" where
  "kvsFromProto pks = map (\<lambda>(k, v). (k, valueFromProto v)) pks"

section \<open>Lemmas\<close>

lemma appendCanonical_eq [value_simps]: "appendCanonical v dst = dst @ canonical v"
  by (cases v) (auto simp: appendCanonical_def)

lemma valueFromProto_toProto [simp, value_simps]: "valueFromProto (toProto v) = v"
proof (induction v)
  case (ArrayValue vs)
  then show ?case by (simp add: map_idI)
next
  case (KvlistValue kvs)
  then have "map (\<lambda>p. (fst p, valueFromProto (toProto (snd p)))) kvs = kvs"
    by (intro map_idI) (auto intro: prod_eqI snds.intros)
  then show ?case by (simp add: case_prod_beta o_def)
qed auto

lemma kvsFromProto_kvsToProto [simp, value_simps]: "kvsFromProto (kvsToProto kvs) = kvs"
  by (simp add: kvsFromProto_def kvsToProto_def case_prod_beta o_def map_idI)

text \<open>
  The information the canonical encoding keeps: a kvlist is a list of entries up to the
  order of its keys, at every depth.  The injectivity result is about values without
  floats (identity values are strings, integers and booleans by contract).
\<close>

fun float_free :: "Value \<Rightarrow> bool" where
  "float_free (DoubleValue _) = False"
| "float_free (ArrayValue vs) = list_all float_free vs"
| "float_free (KvlistValue kvs) = list_all (\<lambda>(k, v). float_free v) kvs"
| "float_free _ = True"

fun key_sorted :: "Value \<Rightarrow> Value" where
  "key_sorted (ArrayValue vs) = ArrayValue (map key_sorted vs)"
| "key_sorted (KvlistValue kvs) =
     KvlistValue (sort_key fst (map (\<lambda>(k, v). (k, key_sorted v)) kvs))"
| "key_sorted v = v"

lemma len_prefixed_inject:
  "len_prefixed s @ t = len_prefixed s' @ t' \<longleftrightarrow> s = s' \<and> t = t'"
proof
  assume eq: "len_prefixed s @ t = len_prefixed s' @ t'"
  have colon: "CHR '':'' \<notin> set (itoa n)" for n
    by (simp add: itoa_def non_digit_notin_digits_of is_digit_def)
  from eq have "itoa (length s) = itoa (length s')" and st: "s @ t = s' @ t'"
    by (simp_all add: len_prefixed_def append_eq_prefix_free [OF colon colon])
  then have "length s = length s'" by (simp add: itoa_def digits_of_inj)
  with st show "s = s' \<and> t = t'" by simp
qed simp

lemma concat_len_prefixed_inject:
  "length xs = length ys \<Longrightarrow>
   concat (map len_prefixed xs) = concat (map len_prefixed ys) \<longleftrightarrow> xs = ys"
  by (induction xs ys rule: list_induct2) (auto simp: len_prefixed_inject)

lemma concat_len_prefixed_pairs_inject:
  "length xs = length ys \<Longrightarrow>
   concat (map (\<lambda>(k, c). len_prefixed k @ len_prefixed c) xs)
     = concat (map (\<lambda>(k, c). len_prefixed k @ len_prefixed c) ys) \<longleftrightarrow> xs = ys"
proof (induction xs ys rule: list_induct2)
  case (Cons x xs y ys)
  then show ?case by (cases x; cases y) (simp add: len_prefixed_inject)
qed simp

lemma insort_key_map:
  assumes "\<And>x. g (f x) = h x"
  shows "insort_key g (f x) (map f xs) = map f (insort_key h x xs)"
  by (induction xs) (simp_all add: assms)

lemma sort_key_map:
  assumes "\<And>x. g (f x) = h x"
  shows "sort_key g (map f xs) = map f (sort_key h xs)"
  by (induction xs) (simp_all add: insort_key_map [where g = g and h = h, OF assms])

lemma canonical_kvlist:
  "canonical (KvlistValue kvs) =
     ''k:'' @ itoa (length kvs) @ '':''
     @ concat (map (\<lambda>(k, c). len_prefixed k @ len_prefixed c)
         (map (\<lambda>(k, v). (k, canonical v)) (sort_key fst kvs)))"
  by (simp add: sort_key_map [where h = fst] case_prod_beta del: map_map)

lemma key_sorted_kvlist:
  "key_sorted (KvlistValue kvs) = KvlistValue (map (\<lambda>(k, v). (k, key_sorted v)) (sort_key fst kvs))"
  by (simp add: sort_key_map [where h = fst] case_prod_beta)

lemma colon_itoa_inject:
  "itoa m @ CHR '':'' # s = itoa n @ CHR '':'' # t \<longleftrightarrow> m = n \<and> s = t"
  by (subst append_eq_prefix_free)
    (simp_all add: itoa_def digits_of_inj non_digit_notin_digits_of is_digit_def)

lemma canonical_eq_imp_key_sorted_eq:
  "canonical v = canonical w \<Longrightarrow> float_free v \<Longrightarrow> float_free w \<Longrightarrow> key_sorted v = key_sorted w"
proof (induction v arbitrary: w)
  case (ArrayValue vs)
  then obtain ws where w: "w = ArrayValue ws" by (cases w) auto
  have len: "length vs = length ws"
    and "concat (map len_prefixed (map canonical vs)) = concat (map len_prefixed (map canonical ws))"
    using ArrayValue.prems(1) by (simp_all add: w colon_itoa_inject o_def)
  then have "map canonical vs = map canonical ws"
    by (simp add: concat_len_prefixed_inject del: map_map)
  then have eq: "canonical (vs ! i) = canonical (ws ! i)" if "i < length vs" for i
    using that len by (metis nth_map)
  have "map key_sorted vs = map key_sorted ws"
  proof (rule nth_equalityI)
    fix i assume "i < length (map key_sorted vs)"
    with len ArrayValue.prems eq show "map key_sorted vs ! i = map key_sorted ws ! i"
      by (auto simp: w list_all_length intro!: ArrayValue.IH)
  qed (simp add: len)
  then show ?case by (simp add: w)
next
  case (KvlistValue kvs)
  then obtain kws where w: "w = KvlistValue kws" by (cases w) auto
  let ?vs = "sort_key fst kvs" and ?ws = "sort_key fst kws"
  let ?c = "map (\<lambda>(k, v). (k, canonical v))"
  have len: "length kvs = length kws"
    and "concat (map (\<lambda>(k, c). len_prefixed k @ len_prefixed c) (?c ?vs))
         = concat (map (\<lambda>(k, c). len_prefixed k @ len_prefixed c) (?c ?ws))"
    using KvlistValue.prems(1)
    by (simp_all add: w canonical_kvlist colon_itoa_inject del: canonical.simps map_map)
  then have eqs: "?c ?vs = ?c ?ws"
    by (simp add: concat_len_prefixed_pairs_inject del: map_map)
  have "map (\<lambda>(k, v). (k, key_sorted v)) ?vs = map (\<lambda>(k, v). (k, key_sorted v)) ?ws"
  proof (rule nth_equalityI)
    fix i assume "i < length (map (\<lambda>(k, v). (k, key_sorted v)) ?vs)"
    then have i: "i < length ?vs" "i < length ?ws" by (simp_all add: len)
    obtain k v where kv: "?vs ! i = (k, v)" by fastforce
    obtain k' v' where kv': "?ws ! i = (k', v')" by fastforce
    have "(k, v) \<in> set kvs" and "(k', v') \<in> set kws"
      using i kv kv' by (metis nth_mem set_sort)+
    with KvlistValue.prems(2,3) have ff: "float_free v" "float_free v'"
      by (auto simp: w list_all_iff)
    have "?c ?vs ! i = ?c ?ws ! i" by (simp add: eqs)
    with i kv kv' have "k = k'" "canonical v = canonical v'" by simp_all
    moreover have "key_sorted v = key_sorted v'"
      using KvlistValue.IH [OF \<open>(k, v) \<in> set kvs\<close>, of v] calculation ff by (simp add: snds.intros)
    ultimately show "map (\<lambda>(k, v). (k, key_sorted v)) ?vs ! i = map (\<lambda>(k, v). (k, key_sorted v)) ?ws ! i"
      using i kv kv' by simp
  qed (simp add: len)
  then show ?case by (simp add: w key_sorted_kvlist del: key_sorted.simps)
next
  case (BoolValue b)
  then show ?case by (cases w) (auto simp: format_bool_def split: if_splits)
qed (case_tac w; auto simp: format_int_inj)+

lemma canonical_key_sorted: "canonical (key_sorted v) = canonical v"
proof (induction v)
  case (KvlistValue kvs)
  have IH: "canonical (key_sorted (snd p)) = canonical (snd p)" if "p \<in> set kvs" for p
    using that KvlistValue [of p "snd p"] by (auto intro: snds.intros)
  have "concat (map (\<lambda>p. len_prefixed (fst p) @ len_prefixed (canonical (key_sorted (snd p)))) (sort_key fst kvs))
      = concat (map (\<lambda>p. len_prefixed (fst p) @ len_prefixed (canonical (snd p))) (sort_key fst kvs))"
    by (intro arg_cong [where f = concat] map_cong) (simp_all add: IH)
  moreover have "sort_key fst (sort_key fst kvs) = sort_key fst kvs"
    by (simp add: sort_key_id_if_sorted)
  ultimately show ?case
    by (simp add: case_prod_beta o_def sort_key_map [where h = fst])
qed (auto cong: map_cong)

end
