(* ===== verification/Model_Registry.thy ===== *)
theory Model_Registry
  imports Go_Stdlib
begin

text \<open>
  \<open>internal/model/registry.go\<close> and the literals of \<open>pkg/emit/wire/wire.go\<close> it reads: the
  registered entity types, the relation types with their structural flag and failure
  direction, and the two traversal rules.
\<close>

section \<open>Entity types\<close>

definition TypeHost :: string where "TypeHost = ''host''"
definition TypeProcess :: string where "TypeProcess = ''process''"
definition TypeNetworkInterface :: string where "TypeNetworkInterface = ''network.interface''"
definition TypeNetworkAddress :: string where "TypeNetworkAddress = ''network.address''"
definition TypeNetworkRoute :: string where "TypeNetworkRoute = ''network.route''"
definition TypeServiceListener :: string where "TypeServiceListener = ''service.listener''"
definition TypeServiceInstance :: string where "TypeServiceInstance = ''service.instance''"
definition TypeDatabase :: string where "TypeDatabase = ''db''"
definition TypeNetworkDevice :: string where "TypeNetworkDevice = ''network.device''"
definition TypeNetworkEndpoint :: string where "TypeNetworkEndpoint = ''network.endpoint''"
definition TypeComputeVM :: string where "TypeComputeVM = ''compute.vm''"
definition TypeContainer :: string where "TypeContainer = ''container''"
definition TypePod :: string where "TypePod = ''pod''"
definition TypeNetworkSegment :: string where "TypeNetworkSegment = ''network.segment''"
definition TypeNetworkNeighbor :: string where "TypeNetworkNeighbor = ''network.neighbor''"
definition TypeK8sNode :: string where "TypeK8sNode = ''k8s.node''"
definition TypeCloudResource :: string where "TypeCloudResource = ''cloud.resource''"
definition TypeHostService :: string where "TypeHostService = ''host.service''"

lemmas type_defs = TypeHost_def TypeProcess_def TypeNetworkInterface_def TypeNetworkAddress_def
  TypeNetworkRoute_def TypeServiceListener_def TypeServiceInstance_def TypeDatabase_def
  TypeNetworkDevice_def TypeNetworkEndpoint_def TypeComputeVM_def TypeContainer_def TypePod_def
  TypeNetworkSegment_def TypeNetworkNeighbor_def TypeK8sNode_def TypeCloudResource_def
  TypeHostService_def

section \<open>Relation types\<close>

definition RelRunsOn :: string where "RelRunsOn = ''runs_on''"
definition RelHasInterface :: string where "RelHasInterface = ''has_interface''"
definition RelBoundTo :: string where "RelBoundTo = ''bound_to''"
definition RelNeighborOf :: string where "RelNeighborOf = ''neighbor_of''"
definition RelNextHopVia :: string where "RelNextHopVia = ''next_hop_via''"
definition RelListensOn :: string where "RelListensOn = ''listens_on''"
definition RelMonitors :: string where "RelMonitors = ''monitors''"
definition RelHasRoute :: string where "RelHasRoute = ''has_route''"
definition RelConnectedTo :: string where "RelConnectedTo = ''connected_to''"
definition RelDependsOn :: string where "RelDependsOn = ''depends_on''"
definition RelSameAs :: string where "RelSameAs = ''same_as''"
definition RelResolvesTo :: string where "RelResolvesTo = ''resolves_to''"
definition RelAggregatedInto :: string where "RelAggregatedInto = ''aggregated_into''"
definition RelAttachedTo :: string where "RelAttachedTo = ''attached_to''"
definition RelHasSegment :: string where "RelHasSegment = ''has_segment''"
definition RelRoutesVia :: string where "RelRoutesVia = ''routes_via''"
definition RelForwardsTo :: string where "RelForwardsTo = ''forwards_to''"
definition RelAdjacentTo :: string where "RelAdjacentTo = ''adjacent_to''"

lemmas rel_defs = RelRunsOn_def RelHasInterface_def RelBoundTo_def RelNeighborOf_def
  RelNextHopVia_def RelListensOn_def RelMonitors_def RelHasRoute_def RelConnectedTo_def
  RelDependsOn_def RelSameAs_def RelResolvesTo_def RelAggregatedInto_def RelAttachedTo_def
  RelHasSegment_def RelRoutesVia_def RelForwardsTo_def RelAdjacentTo_def

datatype ImpactFlow = ImpactBoth | ImpactToFrom | ImpactFromTo | ImpactNone

record RelationTypeDef =
  rtd_Type :: string
  rtd_From :: string
  rtd_To :: string
  rtd_Structural :: bool
  rtd_Impact :: ImpactFlow

definition rtd :: "string \<Rightarrow> string \<Rightarrow> string \<Rightarrow> bool \<Rightarrow> ImpactFlow \<Rightarrow> string \<times> RelationTypeDef" where
  "rtd t f o' s i = (t, \<lparr>rtd_Type = t, rtd_From = f, rtd_To = o', rtd_Structural = s, rtd_Impact = i\<rparr>)"

section \<open>The registry\<close>

definition entityTypes :: "string goset" where
  "entityTypes = map (\<lambda>t. (t, ()))
     [TypeHost, TypeProcess, TypeNetworkInterface, TypeNetworkAddress, TypeNetworkRoute,
      TypeServiceListener, TypeK8sNode, TypeHostService, TypeCloudResource, TypeServiceInstance,
      TypeDatabase, TypeNetworkDevice, TypeNetworkEndpoint, TypeComputeVM, TypeContainer, TypePod,
      TypeNetworkSegment, TypeNetworkNeighbor]"

definition relationTypes :: "(string, RelationTypeDef) gomap" where
  "relationTypes =
     [rtd RelRunsOn TypeProcess TypeHost True ImpactToFrom,
      rtd RelHasInterface TypeHost TypeNetworkInterface True ImpactFromTo,
      rtd RelBoundTo TypeNetworkAddress TypeNetworkInterface True ImpactToFrom,
      rtd RelNextHopVia TypeNetworkRoute TypeNetworkAddress True ImpactToFrom,
      rtd RelListensOn TypeServiceListener TypeNetworkInterface True ImpactToFrom,
      rtd RelMonitors TypeServiceInstance [] True ImpactNone,
      rtd RelHasRoute TypeNetworkDevice TypeNetworkRoute True ImpactFromTo,
      rtd RelNeighborOf TypeNetworkNeighbor TypeNetworkInterface True ImpactNone,
      rtd RelConnectedTo TypeNetworkInterface TypeNetworkInterface True ImpactBoth,
      rtd RelDependsOn TypeServiceInstance TypeNetworkEndpoint True ImpactToFrom,
      rtd RelSameAs [] [] False ImpactNone,
      rtd RelResolvesTo TypeNetworkNeighbor TypeNetworkInterface False ImpactNone,
      rtd RelAggregatedInto TypeNetworkInterface TypeNetworkInterface True ImpactNone,
      rtd RelAttachedTo TypeContainer TypeNetworkSegment True ImpactToFrom,
      rtd RelHasSegment TypeServiceInstance TypeNetworkSegment True ImpactFromTo,
      rtd RelRoutesVia TypeNetworkDevice TypeNetworkDevice True ImpactToFrom,
      rtd RelForwardsTo TypeNetworkDevice TypeNetworkDevice True ImpactBoth,
      rtd RelAdjacentTo TypeNetworkDevice TypeNetworkDevice True ImpactBoth]"

definition RelationDef :: "string \<Rightarrow> RelationTypeDef option" where
  "RelationDef t = map_of relationTypes t"

definition IsKnownEntityType :: "string \<Rightarrow> bool" where
  "IsKnownEntityType t = ghas entityTypes t"

definition ImpactFlowOf :: "string \<Rightarrow> ImpactFlow" where
  "ImpactFlowOf relType =
     (case map_of relationTypes relType of Some d \<Rightarrow> rtd_Impact d | None \<Rightarrow> ImpactBoth)"

definition terminalEntityTypes :: "string goset" where
  "terminalEntityTypes = [(TypeNetworkEndpoint, ())]"

definition crossOnlyByChangingRelationTypes :: "string goset" where
  "crossOnlyByChangingRelationTypes = [(TypeNetworkNeighbor, ()), (TypeNetworkInterface, ())]"

definition CrossingNeedsADifferentRelation :: "string \<Rightarrow> bool" where
  "CrossingNeedsADifferentRelation t = ghas crossOnlyByChangingRelationTypes t"

definition IsTerminalEntityType :: "string \<Rightarrow> bool" where
  "IsTerminalEntityType t = ghas terminalEntityTypes t"

definition EntityTypes :: "string list" where
  "EntityTypes = gkeys entityTypes"

definition RelationTypes :: "RelationTypeDef list" where
  "RelationTypes = map snd relationTypes"

section \<open>Lemmas\<close>

lemma RelationDef_Type: "RelationDef t = Some d \<Longrightarrow> rtd_Type d = t"
  by (auto simp: RelationDef_def relationTypes_def rtd_def split: if_splits)

lemma RelationDef_same_as: "RelationDef RelSameAs =
    Some \<lparr>rtd_Type = RelSameAs, rtd_From = [], rtd_To = [], rtd_Structural = False, rtd_Impact = ImpactNone\<rparr>"
  by (simp add: RelationDef_def relationTypes_def rtd_def rel_defs)

end
