(* ===== verification/Model_Entity.thy ===== *)
theory Model_Entity
  imports Model_Value Model_Registry
begin

text \<open>
  \<open>internal/model\<close>: the errors (\<open>errors.go\<close>), the derived identifiers (\<open>ids.go\<close>), the
  entity with its identity hash and validation (\<open>entity.go\<close>) and the relation
  (\<open>relation.go\<close>).  Fresh ULIDs come from a third-party package and are a parameter of
  the operations that mint them.
\<close>

section \<open>Definitions\<close>

type_synonym EntityID = string
type_synonym RelationID = string

datatype ModelErr =
    ErrEmptyType | ErrUnknownType string | ErrNoIdentity | ErrEmptyKey | ErrDuplicateKey string
  | ErrInvalidValue string | ErrEmptyEndpoint | ErrChangeTypeUnset | ErrChangeTypeMismatch
  | ErrMissingEntity | ErrMissingRelation | ErrZeroEventTime | ErrZeroRecordedAt
  | ErrEmptySchemaVersion
  | Wrapped string ModelErr \<comment> \<open>\<open>fmt.Errorf("prefix: %w", err)\<close>\<close>

record Entity =
  ent_ID :: EntityID
  ent_Type :: string
  ent_Identity :: "KeyValue list"
  ent_Attributes :: "KeyValue list"
  ent_SchemaURL :: string

record Relation =
  rel_ID :: RelationID
  rel_Type :: string
  rel_From :: EntityID
  rel_To :: EntityID
  rel_Attributes :: "KeyValue list"
  rel_Structural :: bool

definition zeroEntity :: Entity where
  "zeroEntity = \<lparr>ent_ID = [], ent_Type = [], ent_Identity = [], ent_Attributes = [], ent_SchemaURL = []\<rparr>"

definition zeroRelation :: Relation where
  "zeroRelation = \<lparr>rel_ID = [], rel_Type = [], rel_From = [], rel_To = [], rel_Attributes = [],
     rel_Structural = False\<rparr>"

text \<open>\<open>ids.go\<close>.\<close>

definition idHashBytes :: nat where "idHashBytes = 16"

definition ComputeRelationID :: "string \<Rightarrow> EntityID \<Rightarrow> EntityID \<Rightarrow> RelationID" where
  "ComputeRelationID relType from to =
     relType @ '':'' @ hex_encode (take idHashBytes (sha256 (relType @ [x1f] @ from @ [x1f] @ to)))"

text \<open>\<open>entity.go\<close>: the pre-image of the identity hash, then the hash.\<close>

definition hasAttr :: "KeyValue list \<Rightarrow> string \<Rightarrow> string \<Rightarrow> bool" where
  "hasAttr kvs key val = list_ex (\<lambda>(k, v). k = key \<and> Display v = val) kvs"

definition MatchAll :: "Entity \<Rightarrow> (string, string) gomap \<Rightarrow> bool" where
  "MatchAll e want =
     list_all (\<lambda>(k, v). \<not> (\<not> hasAttr (ent_Identity e) k v \<and> \<not> hasAttr (ent_Attributes e) k v)) want"

definition identityBuf :: "string \<Rightarrow> KeyValue list \<Rightarrow> string" where
  "identityBuf typ identity =
     foldl (\<lambda>buf (k, v). appendCanonical v (buf @ k @ [x1e]) @ [x1f]) (typ @ [x1f])
       (sort_key fst identity)"

definition identityHashOf :: "string \<Rightarrow> KeyValue list \<Rightarrow> string" where
  "identityHashOf typ identity =
     typ @ '':'' @ hex_encode (take idHashBytes (sha256 (identityBuf typ identity)))"

definition IdentityHash :: "Entity \<Rightarrow> string" where
  "IdentityHash e = identityHashOf (ent_Type e) (ent_Identity e)"

fun validateKeyValuesFrom :: "string goset \<Rightarrow> KeyValue list \<Rightarrow> ModelErr option" where
  "validateKeyValuesFrom seen [] = None"
| "validateKeyValuesFrom seen ((k, v) # kvs) =
     (if k = [] then Some ErrEmptyKey
      else if ghas seen k then Some (ErrDuplicateKey k)
      else if \<not> IsValid v then Some (ErrInvalidValue k)
      else validateKeyValuesFrom (gadd k seen) kvs)"

definition validateKeyValues :: "KeyValue list \<Rightarrow> ModelErr option" where
  "validateKeyValues kvs = validateKeyValuesFrom [] kvs"

definition validateEntity :: "bool \<Rightarrow> Entity \<Rightarrow> ModelErr option" where
  "validateEntity vocabulary e =
     (if ent_Type e = [] then Some ErrEmptyType
      else if vocabulary \<and> \<not> IsKnownEntityType (ent_Type e) then Some (ErrUnknownType (ent_Type e))
      else if ent_Identity e = [] then Some ErrNoIdentity
      else case validateKeyValues (ent_Identity e) of
        Some err \<Rightarrow> Some (Wrapped ''identity'' err)
      | None \<Rightarrow> map_option (Wrapped ''attributes'') (validateKeyValues (ent_Attributes e)))"

text \<open>\<open>relation.go\<close>.\<close>

definition NewRelation :: "string \<Rightarrow> EntityID \<Rightarrow> EntityID \<Rightarrow> KeyValue list \<Rightarrow> Relation" where
  "NewRelation relType from to attrs =
     \<lparr>rel_ID = ComputeRelationID relType from to, rel_Type = relType, rel_From = from, rel_To = to,
      rel_Attributes = attrs,
      rel_Structural = (case RelationDef relType of Some d \<Rightarrow> rtd_Structural d | None \<Rightarrow> False)\<rparr>"

definition validateRelation :: "bool \<Rightarrow> Relation \<Rightarrow> ModelErr option" where
  "validateRelation vocabulary r =
     (if rel_Type r = [] then Some ErrEmptyType
      else if vocabulary \<and> RelationDef (rel_Type r) = None then Some (ErrUnknownType (rel_Type r))
      else if rel_From r = [] \<or> rel_To r = [] then Some ErrEmptyEndpoint
      else map_option (Wrapped ''attributes'') (validateKeyValues (rel_Attributes r)))"

text \<open>The protobuf messages \<open>toisev1.Entity\<close> and \<open>toisev1.Relation\<close> and the conversions.\<close>

record PbEntity =
  pbe_EntityId :: string
  pbe_IdentityHash :: string
  pbe_Type :: string
  pbe_Identity :: "(string \<times> PbValue) list"
  pbe_Attributes :: "(string \<times> PbValue) list"
  pbe_SchemaUrl :: string

record PbRelation =
  pbr_RelationId :: string
  pbr_Type :: string
  pbr_FromEntityId :: string
  pbr_ToEntityId :: string
  pbr_Attributes :: "(string \<times> PbValue) list"
  pbr_Structural :: bool

definition entityToProto :: "Entity \<Rightarrow> PbEntity" where
  "entityToProto e =
     \<lparr>pbe_EntityId = ent_ID e, pbe_IdentityHash = IdentityHash e, pbe_Type = ent_Type e,
      pbe_Identity = kvsToProto (ent_Identity e), pbe_Attributes = kvsToProto (ent_Attributes e),
      pbe_SchemaUrl = ent_SchemaURL e\<rparr>"

definition EntityFromProto :: "PbEntity option \<Rightarrow> Entity" where
  "EntityFromProto p =
     (case p of None \<Rightarrow> zeroEntity
      | Some p \<Rightarrow> \<lparr>ent_ID = pbe_EntityId p, ent_Type = pbe_Type p,
          ent_Identity = kvsFromProto (pbe_Identity p), ent_Attributes = kvsFromProto (pbe_Attributes p),
          ent_SchemaURL = pbe_SchemaUrl p\<rparr>)"

definition relationToProto :: "Relation \<Rightarrow> PbRelation" where
  "relationToProto r =
     \<lparr>pbr_RelationId = rel_ID r, pbr_Type = rel_Type r, pbr_FromEntityId = rel_From r,
      pbr_ToEntityId = rel_To r, pbr_Attributes = kvsToProto (rel_Attributes r),
      pbr_Structural = rel_Structural r\<rparr>"

definition RelationFromProto :: "PbRelation option \<Rightarrow> Relation" where
  "RelationFromProto p =
     (case p of None \<Rightarrow> zeroRelation
      | Some p \<Rightarrow> \<lparr>rel_ID = pbr_RelationId p, rel_Type = pbr_Type p, rel_From = pbr_FromEntityId p,
          rel_To = pbr_ToEntityId p, rel_Attributes = kvsFromProto (pbr_Attributes p),
          rel_Structural = pbr_Structural p\<rparr>)"

text \<open>The pre-image of the identity hash, one record per identifying attribute.\<close>

definition identityRec :: "KeyValue \<Rightarrow> string" where
  "identityRec kv = fst kv @ [x1e] @ canonical (snd kv) @ [x1f]"

section \<open>Lemmas\<close>

lemma EntityFromProto_entityToProto [simp, value_simps]: "EntityFromProto (Some (entityToProto e)) = e"
  by (simp add: EntityFromProto_def entityToProto_def)

lemma RelationFromProto_relationToProto [simp, value_simps]:
  "RelationFromProto (Some (relationToProto r)) = r"
  by (simp add: RelationFromProto_def relationToProto_def)

lemma NewRelation_simps [simp]:
  "rel_ID (NewRelation t f o' as) = ComputeRelationID t f o'"
  "rel_Type (NewRelation t f o' as) = t"
  "rel_From (NewRelation t f o' as) = f"
  "rel_To (NewRelation t f o' as) = o'"
  "rel_Attributes (NewRelation t f o' as) = as"
  by (simp_all add: NewRelation_def)

lemma foldl_identityRec:
  "foldl (\<lambda>buf (k, v). appendCanonical v (buf @ k @ [x1e]) @ [x1f]) b kvs
     = b @ concat (map identityRec kvs)"
  by (induction kvs arbitrary: b) (auto simp: identityRec_def appendCanonical_eq)

lemma identityBuf_eq:
  "identityBuf typ identity = typ @ [x1f] @ concat (map identityRec (sort_key fst identity))"
  by (simp add: identityBuf_def foldl_identityRec)

text \<open>The hash ends in 32 hexadecimal digits after a colon, so it determines the type.\<close>

lemma length_identity_hex: "length (hex_encode (take idHashBytes (sha256 m))) = 32"
  by (simp add: idHashBytes_def)

lemma identityHashOf_type: "identityHashOf t i = identityHashOf t' i' \<Longrightarrow> t = t'"
proof -
  assume eq: "identityHashOf t i = identityHashOf t' i'"
  then have "length t = length t'"
    by (metis add_right_cancel identityHashOf_def length_append length_identity_hex)
  with eq show "t = t'" by (simp add: identityHashOf_def)
qed

lemma IdentityHash_type: "IdentityHash e = IdentityHash e' \<Longrightarrow> ent_Type e = ent_Type e'"
  unfolding IdentityHash_def by (rule identityHashOf_type)

lemma IdentityHash_make [simp]:
  "IdentityHash \<lparr>ent_ID = i, ent_Type = t, ent_Identity = k, ent_Attributes = a, ent_SchemaURL = s\<rparr>
     = identityHashOf t k"
  by (simp add: IdentityHash_def)

text \<open>Validated key-values have distinct non-empty keys and set values.\<close>

lemma validateKeyValuesFrom_None:
  "validateKeyValuesFrom seen kvs = None \<longleftrightarrow>
     distinct (map fst kvs) \<and> (\<forall>(k, v) \<in> set kvs. k \<noteq> [] \<and> IsValid v \<and> \<not> ghas seen k)"
proof (induction kvs arbitrary: seen)
  case (Cons p kvs)
  obtain k v where p: "p = (k, v)" by (cases p)
  have "validateKeyValuesFrom seen (p # kvs) = None \<longleftrightarrow>
      k \<noteq> [] \<and> \<not> ghas seen k \<and> IsValid v \<and> validateKeyValuesFrom (gadd k seen) kvs = None"
    by (simp add: p)
  also have "\<dots> \<longleftrightarrow> k \<noteq> [] \<and> \<not> ghas seen k \<and> IsValid v \<and> distinct (map fst kvs) \<and>
      (\<forall>(k', v') \<in> set kvs. k' \<noteq> [] \<and> IsValid v' \<and> k' \<noteq> k \<and> \<not> ghas seen k')"
    by (simp add: Cons.IH)
  also have "\<dots> \<longleftrightarrow> distinct (map fst (p # kvs)) \<and>
      (\<forall>(k, v) \<in> set (p # kvs). k \<noteq> [] \<and> IsValid v \<and> \<not> ghas seen k)"
    unfolding p by (simp add: case_prod_beta) blast
  finally show ?case .
qed simp

lemma validateKeyValues_None:
  "validateKeyValues kvs = None \<longleftrightarrow>
     distinct (map fst kvs) \<and> (\<forall>(k, v) \<in> set kvs. k \<noteq> [] \<and> IsValid v)"
  by (auto simp: validateKeyValues_def validateKeyValuesFrom_None)

end
