(* ===== verification/Model_Event.thy ===== *)
theory Model_Event
  imports Model_Entity
begin

text \<open>
  \<open>internal/model\<close>: the change taxonomy (\<open>changetype.go\<close>) and the bi-temporal events of
  the append-only log with their validation and protobuf forms (\<open>event.go\<close>).
  \<open>ChangeType\<close> is an int in the source; a number outside the named constants is
  \<open>ChangeOther\<close>.
\<close>

section \<open>Definitions\<close>

text \<open>\<open>changetype.go\<close>.\<close>

datatype ChangeType =
    ChangeUnspecified | EntityCreated | EntityDeleted | EntityIdentityChanged
  | EntityAttributeUpdated | EntityStateChanged | EntityUnchanged
  | RelationAdded | RelationRemoved | RelationAttributeChanged
  | ChangeOther int

fun ct_num :: "ChangeType \<Rightarrow> int" where
  "ct_num ChangeUnspecified = 0"
| "ct_num EntityCreated = 1"
| "ct_num EntityDeleted = 2"
| "ct_num EntityIdentityChanged = 3"
| "ct_num EntityAttributeUpdated = 4"
| "ct_num EntityStateChanged = 5"
| "ct_num EntityUnchanged = 6"
| "ct_num RelationAdded = 7"
| "ct_num RelationRemoved = 8"
| "ct_num RelationAttributeChanged = 9"
| "ct_num (ChangeOther n) = n"

definition changeTypeNames :: "(ChangeType, string) gomap" where
  "changeTypeNames =
     [(ChangeUnspecified, ''unspecified''),
      (EntityCreated, ''entity.created''),
      (EntityDeleted, ''entity.deleted''),
      (EntityIdentityChanged, ''entity.identity_changed''),
      (EntityAttributeUpdated, ''entity.attribute_updated''),
      (EntityStateChanged, ''entity.state_changed''),
      (EntityUnchanged, ''entity.unchanged''),
      (RelationAdded, ''relation.added''),
      (RelationRemoved, ''relation.removed''),
      (RelationAttributeChanged, ''relation.attribute_changed'')]"

definition ct_String :: "ChangeType \<Rightarrow> string" where
  "ct_String c = (case map_of changeTypeNames c of Some n \<Rightarrow> n | None \<Rightarrow> ''unspecified'')"

definition IsEntity :: "ChangeType \<Rightarrow> bool" where
  "IsEntity c = (ct_num EntityCreated \<le> ct_num c \<and> ct_num c \<le> ct_num EntityUnchanged)"

definition IsRelation :: "ChangeType \<Rightarrow> bool" where
  "IsRelation c = (ct_num RelationAdded \<le> ct_num c \<and> ct_num c \<le> ct_num RelationAttributeChanged)"

definition changeTypeToProto :: "ChangeType \<Rightarrow> int" where
  "changeTypeToProto c = ct_num c"

definition changeTypeFromProto :: "int \<Rightarrow> ChangeType" where
  "changeTypeFromProto n =
     (if n = 0 then ChangeUnspecified else if n = 1 then EntityCreated
      else if n = 2 then EntityDeleted else if n = 3 then EntityIdentityChanged
      else if n = 4 then EntityAttributeUpdated else if n = 5 then EntityStateChanged
      else if n = 6 then EntityUnchanged else if n = 7 then RelationAdded
      else if n = 8 then RelationRemoved else if n = 9 then RelationAttributeChanged
      else ChangeOther n)"

text \<open>\<open>event.go\<close>: the provenance of a disappearance, the events and the envelope.\<close>

definition SchemaVersion :: string where "SchemaVersion = ''1.1''"

type_synonym DeleteSource = string

definition DeleteSourceUnknown :: DeleteSource where "DeleteSourceUnknown = []"
definition DeleteSourceProducer :: DeleteSource where "DeleteSourceProducer = ''producer''"
definition DeleteSourceLivenessExpiry :: DeleteSource where
  "DeleteSourceLivenessExpiry = ''liveness_expiry''"
definition DeleteSourceCascade :: DeleteSource where "DeleteSourceCascade = ''cascade''"

record EntityEvent =
  ee_EventID :: string
  ee_ChangeType :: ChangeType
  ee_Entity :: Entity
  ee_EventTime :: time
  ee_RecordedAt :: time
  ee_CommitSeq :: "64 word"
  ee_Scope :: string
  ee_SchemaVersion :: string
  ee_ChangedKeys :: "string list"
  ee_DeleteReason :: string
  ee_DeleteSource :: DeleteSource

record RelationEvent =
  re_EventID :: string
  re_ChangeType :: ChangeType
  re_Relation :: Relation
  re_EventTime :: time
  re_RecordedAt :: time
  re_CommitSeq :: "64 word"
  re_Scope :: string
  re_SchemaVersion :: string
  re_ChangedKeys :: "string list"
  re_DeleteSource :: DeleteSource

record Event =
  ev_Entity :: "EntityEvent option"
  ev_Relation :: "RelationEvent option"

definition entityEvent :: "EntityEvent \<Rightarrow> Event" where
  "entityEvent e = \<lparr>ev_Entity = Some e, ev_Relation = None\<rparr>"

definition relationEv :: "RelationEvent \<Rightarrow> Event" where
  "relationEv r = \<lparr>ev_Entity = None, ev_Relation = Some r\<rparr>"

definition zeroEntityEvent :: EntityEvent where
  "zeroEntityEvent =
     \<lparr>ee_EventID = [], ee_ChangeType = ChangeUnspecified, ee_Entity = zeroEntity, ee_EventTime = 0,
      ee_RecordedAt = 0, ee_CommitSeq = 0, ee_Scope = [], ee_SchemaVersion = [], ee_ChangedKeys = [],
      ee_DeleteReason = [], ee_DeleteSource = DeleteSourceUnknown\<rparr>"

definition zeroRelationEvent :: RelationEvent where
  "zeroRelationEvent =
     \<lparr>re_EventID = [], re_ChangeType = ChangeUnspecified, re_Relation = zeroRelation, re_EventTime = 0,
      re_RecordedAt = 0, re_CommitSeq = 0, re_Scope = [], re_SchemaVersion = [], re_ChangedKeys = [],
      re_DeleteSource = DeleteSourceUnknown\<rparr>"

text \<open>
  The store stamps the commit sequence through the event pointers while it appends
  (\<open>internal/store/store.go\<close>, \<open>Append\<close>); every holder of the event sees it afterwards.
\<close>

definition stampCommit :: "64 word \<Rightarrow> Event \<Rightarrow> Event" where
  "stampCommit seq ev =
     (case ev_Entity ev of
        Some ee \<Rightarrow> ev\<lparr>ev_Entity := Some (ee\<lparr>ee_CommitSeq := seq\<rparr>)\<rparr>
      | None \<Rightarrow>
          (case ev_Relation ev of
             Some re \<Rightarrow> ev\<lparr>ev_Relation := Some (re\<lparr>re_CommitSeq := seq\<rparr>)\<rparr>
           | None \<Rightarrow> ev))"

text \<open>Validation.\<close>

definition commonEventChecks :: "time \<Rightarrow> time \<Rightarrow> string \<Rightarrow> ModelErr option" where
  "commonEventChecks eventTime recordedAt schemaVersion =
     (if eventTime = 0 then Some ErrZeroEventTime
      else if recordedAt = 0 then Some ErrZeroRecordedAt
      else if schemaVersion = [] then Some ErrEmptySchemaVersion
      else None)"

definition validateEntityEvent :: "bool \<Rightarrow> EntityEvent \<Rightarrow> ModelErr option" where
  "validateEntityEvent vocabulary e =
     (if ee_ChangeType e = ChangeUnspecified then Some ErrChangeTypeUnset
      else if \<not> IsEntity (ee_ChangeType e) then Some ErrChangeTypeMismatch
      else case commonEventChecks (ee_EventTime e) (ee_RecordedAt e) (ee_SchemaVersion e) of
        Some err \<Rightarrow> Some err
      | None \<Rightarrow> map_option (Wrapped ''entity'') (validateEntity vocabulary (ee_Entity e)))"

definition validateRelationEvent :: "bool \<Rightarrow> RelationEvent \<Rightarrow> ModelErr option" where
  "validateRelationEvent vocabulary r =
     (if re_ChangeType r = ChangeUnspecified then Some ErrChangeTypeUnset
      else if \<not> IsRelation (re_ChangeType r) then Some ErrChangeTypeMismatch
      else case commonEventChecks (re_EventTime r) (re_RecordedAt r) (re_SchemaVersion r) of
        Some err \<Rightarrow> Some err
      | None \<Rightarrow> map_option (Wrapped ''relation'') (validateRelation vocabulary (re_Relation r)))"

definition validateEnvelope :: "bool \<Rightarrow> Event \<Rightarrow> ModelErr option" where
  "validateEnvelope vocabulary e =
     (case (ev_Entity e, ev_Relation e) of
        (Some _, Some _) \<Rightarrow> Some ErrChangeTypeMismatch
      | (Some ee, None) \<Rightarrow> validateEntityEvent vocabulary ee
      | (None, Some re) \<Rightarrow> validateRelationEvent vocabulary re
      | (None, None) \<Rightarrow> Some ErrMissingEntity)"

definition ValidateShape :: "Event \<Rightarrow> ModelErr option" where
  "ValidateShape e = validateEnvelope False e"

definition Times :: "Event \<Rightarrow> time \<times> time" where
  "Times e =
     (case ev_Entity e of
        Some ee \<Rightarrow> (ee_EventTime ee, ee_RecordedAt ee)
      | None \<Rightarrow>
        (case ev_Relation e of
           Some re \<Rightarrow> (re_EventTime re, re_RecordedAt re)
         | None \<Rightarrow> (0, 0)))"

text \<open>
  The wire form.  \<open>UnixNano\<close> counts from 1970, whose distance from the zero time is
  \<open>unixToInternal\<close> seconds, and wraps at 64 bits.
\<close>

definition unixEpoch :: time where "unixEpoch = 62135596800 * 1000000000"

definition unixNano :: "time \<Rightarrow> int" where
  "unixNano t = wrap64 (t - unixEpoch)"

definition nanoOf :: "time \<Rightarrow> int" where
  "nanoOf t = (if t = 0 then 0 else unixNano t)"

definition timeOf :: "int \<Rightarrow> time" where
  "timeOf nano = (if nano = 0 then 0 else unixEpoch + nano)"

definition deleteSourceToProto :: "DeleteSource \<Rightarrow> int" where
  "deleteSourceToProto s =
     (if s = DeleteSourceProducer then 1
      else if s = DeleteSourceLivenessExpiry then 2
      else if s = DeleteSourceCascade then 3
      else 0)"

definition deleteSourceFromProto :: "int \<Rightarrow> DeleteSource" where
  "deleteSourceFromProto p =
     (if p = 1 then DeleteSourceProducer
      else if p = 2 then DeleteSourceLivenessExpiry
      else if p = 3 then DeleteSourceCascade
      else DeleteSourceUnknown)"

record PbEntityEvent =
  pbee_EventId :: string
  pbee_ChangeType :: int
  pbee_Entity :: "PbEntity option"
  pbee_EventTimeUnixNano :: int
  pbee_RecordedAtUnixNano :: int
  pbee_CommitSeq :: "64 word"
  pbee_Scope :: string
  pbee_SchemaVersion :: string
  pbee_ChangedKeys :: "string list"
  pbee_DeleteReason :: string
  pbee_DeleteSource :: int

record PbRelationEvent =
  pbre_EventId :: string
  pbre_ChangeType :: int
  pbre_Relation :: "PbRelation option"
  pbre_EventTimeUnixNano :: int
  pbre_RecordedAtUnixNano :: int
  pbre_CommitSeq :: "64 word"
  pbre_Scope :: string
  pbre_SchemaVersion :: string
  pbre_ChangedKeys :: "string list"
  pbre_DeleteSource :: int

text \<open>The \<open>oneof\<close> of the envelope message; a set member may hold a nil message.\<close>

datatype PbEvent =
    PbEventNone
  | PbEventEntity "PbEntityEvent option"
  | PbEventRelation "PbRelationEvent option"

definition entityEventToProto :: "EntityEvent \<Rightarrow> PbEntityEvent" where
  "entityEventToProto e =
     \<lparr>pbee_EventId = ee_EventID e, pbee_ChangeType = changeTypeToProto (ee_ChangeType e),
      pbee_Entity = Some (entityToProto (ee_Entity e)),
      pbee_EventTimeUnixNano = nanoOf (ee_EventTime e),
      pbee_RecordedAtUnixNano = nanoOf (ee_RecordedAt e), pbee_CommitSeq = ee_CommitSeq e,
      pbee_Scope = ee_Scope e, pbee_SchemaVersion = ee_SchemaVersion e,
      pbee_ChangedKeys = ee_ChangedKeys e, pbee_DeleteReason = ee_DeleteReason e,
      pbee_DeleteSource = deleteSourceToProto (ee_DeleteSource e)\<rparr>"

definition EntityEventFromProto :: "PbEntityEvent option \<Rightarrow> EntityEvent" where
  "EntityEventFromProto p =
     (case p of None \<Rightarrow> zeroEntityEvent
      | Some p \<Rightarrow>
        \<lparr>ee_EventID = pbee_EventId p, ee_ChangeType = changeTypeFromProto (pbee_ChangeType p),
         ee_Entity = EntityFromProto (pbee_Entity p),
         ee_EventTime = timeOf (pbee_EventTimeUnixNano p),
         ee_RecordedAt = timeOf (pbee_RecordedAtUnixNano p), ee_CommitSeq = pbee_CommitSeq p,
         ee_Scope = pbee_Scope p, ee_SchemaVersion = pbee_SchemaVersion p,
         ee_ChangedKeys = pbee_ChangedKeys p, ee_DeleteReason = pbee_DeleteReason p,
         ee_DeleteSource = deleteSourceFromProto (pbee_DeleteSource p)\<rparr>)"

definition relationEventToProto :: "RelationEvent \<Rightarrow> PbRelationEvent" where
  "relationEventToProto r =
     \<lparr>pbre_EventId = re_EventID r, pbre_ChangeType = changeTypeToProto (re_ChangeType r),
      pbre_Relation = Some (relationToProto (re_Relation r)),
      pbre_EventTimeUnixNano = nanoOf (re_EventTime r),
      pbre_RecordedAtUnixNano = nanoOf (re_RecordedAt r), pbre_CommitSeq = re_CommitSeq r,
      pbre_Scope = re_Scope r, pbre_SchemaVersion = re_SchemaVersion r,
      pbre_ChangedKeys = re_ChangedKeys r,
      pbre_DeleteSource = deleteSourceToProto (re_DeleteSource r)\<rparr>"

definition RelationEventFromProto :: "PbRelationEvent option \<Rightarrow> RelationEvent" where
  "RelationEventFromProto p =
     (case p of None \<Rightarrow> zeroRelationEvent
      | Some p \<Rightarrow>
        \<lparr>re_EventID = pbre_EventId p, re_ChangeType = changeTypeFromProto (pbre_ChangeType p),
         re_Relation = RelationFromProto (pbre_Relation p),
         re_EventTime = timeOf (pbre_EventTimeUnixNano p),
         re_RecordedAt = timeOf (pbre_RecordedAtUnixNano p), re_CommitSeq = pbre_CommitSeq p,
         re_Scope = pbre_Scope p, re_SchemaVersion = pbre_SchemaVersion p,
         re_ChangedKeys = pbre_ChangedKeys p,
         re_DeleteSource = deleteSourceFromProto (pbre_DeleteSource p)\<rparr>)"

definition eventToProto :: "Event \<Rightarrow> PbEvent" where
  "eventToProto e =
     (case ev_Entity e of
        Some ee \<Rightarrow> PbEventEntity (Some (entityEventToProto ee))
      | None \<Rightarrow>
        (case ev_Relation e of
           Some re \<Rightarrow> PbEventRelation (Some (relationEventToProto re))
         | None \<Rightarrow> PbEventNone))"

definition EventFromProto :: "PbEvent option \<Rightarrow> Event" where
  "EventFromProto p =
     (case p of
        None \<Rightarrow> \<lparr>ev_Entity = None, ev_Relation = None\<rparr>
      | Some (PbEventEntity x) \<Rightarrow> entityEvent (EntityEventFromProto x)
      | Some (PbEventRelation x) \<Rightarrow> relationEv (RelationEventFromProto x)
      | Some PbEventNone \<Rightarrow> \<lparr>ev_Entity = None, ev_Relation = None\<rparr>)"

text \<open>The times the wire carries without loss: unset, or within 64 bits of 1970 and not 1970 itself.\<close>

definition wire_time :: "time \<Rightarrow> bool" where
  "wire_time t = (t = 0 \<or> (int64_ok (t - unixEpoch) \<and> t \<noteq> unixEpoch))"

definition wire_change :: "ChangeType \<Rightarrow> bool" where
  "wire_change c = (case c of ChangeOther n \<Rightarrow> n < 0 \<or> 9 < n | _ \<Rightarrow> True)"

definition wire_source :: "DeleteSource \<Rightarrow> bool" where
  "wire_source s = (s = DeleteSourceUnknown \<or> s = DeleteSourceProducer
     \<or> s = DeleteSourceLivenessExpiry \<or> s = DeleteSourceCascade)"

definition wire_entityEvent :: "EntityEvent \<Rightarrow> bool" where
  "wire_entityEvent e = (wire_change (ee_ChangeType e) \<and> wire_time (ee_EventTime e)
     \<and> wire_time (ee_RecordedAt e) \<and> wire_source (ee_DeleteSource e))"

definition wire_relationEvent :: "RelationEvent \<Rightarrow> bool" where
  "wire_relationEvent r = (wire_change (re_ChangeType r) \<and> wire_time (re_EventTime r)
     \<and> wire_time (re_RecordedAt r) \<and> wire_source (re_DeleteSource r))"

definition wire_event :: "Event \<Rightarrow> bool" where
  "wire_event e =
     (case (ev_Entity e, ev_Relation e) of
        (Some _, Some _) \<Rightarrow> False
      | (Some ee, None) \<Rightarrow> wire_entityEvent ee
      | (None, Some re) \<Rightarrow> wire_relationEvent re
      | (None, None) \<Rightarrow> True)"

section \<open>Lemmas\<close>

lemmas delete_source_defs =
  DeleteSourceUnknown_def DeleteSourceProducer_def DeleteSourceLivenessExpiry_def
  DeleteSourceCascade_def

lemma ev_simps [simp]:
  "ev_Entity (entityEvent e) = Some e" "ev_Relation (entityEvent e) = None"
  "ev_Entity (relationEv r) = None" "ev_Relation (relationEv r) = Some r"
  by (simp_all add: entityEvent_def relationEv_def)

lemma entityEvent_inject [simp]: "entityEvent e = entityEvent e' \<longleftrightarrow> e = e'"
  by (simp add: entityEvent_def)

lemma relationEv_inject [simp]: "relationEv r = relationEv r' \<longleftrightarrow> r = r'"
  by (simp add: relationEv_def)

lemma entityEvent_neq_relationEv [simp]:
  "entityEvent e \<noteq> relationEv r" "relationEv r \<noteq> entityEvent e"
  by (simp_all add: entityEvent_def relationEv_def)

text \<open>The entity changes and the relation changes partition the named constants.\<close>

lemma IsEntity_cases:
  "wire_change c \<Longrightarrow> IsEntity c \<longleftrightarrow> c \<in> {EntityCreated, EntityDeleted, EntityIdentityChanged,
     EntityAttributeUpdated, EntityStateChanged, EntityUnchanged}"
  by (cases c) (auto simp: IsEntity_def wire_change_def)

lemma IsRelation_cases:
  "wire_change c \<Longrightarrow> IsRelation c \<longleftrightarrow> c \<in> {RelationAdded, RelationRemoved, RelationAttributeChanged}"
  by (cases c) (auto simp: IsRelation_def wire_change_def)

lemma changeTypeFromProto_changeTypeToProto [simp]:
  "wire_change c \<Longrightarrow> changeTypeFromProto (changeTypeToProto c) = c"
  by (cases c) (auto simp: changeTypeFromProto_def changeTypeToProto_def wire_change_def)

lemma deleteSourceFromProto_deleteSourceToProto [simp]:
  "wire_source s \<Longrightarrow> deleteSourceFromProto (deleteSourceToProto s) = s"
  by (auto simp: wire_source_def deleteSourceFromProto_def deleteSourceToProto_def delete_source_defs)

lemma timeOf_nanoOf: "timeOf (nanoOf t) = t \<longleftrightarrow> wire_time t"
proof (cases "t = 0")
  case False
  show ?thesis
  proof (cases "int64_ok (t - unixEpoch)")
    case True
    with False show ?thesis by (auto simp: timeOf_def nanoOf_def unixNano_def wire_time_def)
  next
    case out: False
    have range: "int64_ok (wrap64 (t - unixEpoch))"
      by (simp add: int64_ok_def wrap64_def)
    have "timeOf (nanoOf t) \<noteq> t"
    proof
      assume "timeOf (nanoOf t) = t"
      with False have "unixEpoch + wrap64 (t - unixEpoch) = t"
        by (auto simp: timeOf_def nanoOf_def unixNano_def split: if_splits)
      with range out show False by (metis add_diff_cancel_left')
    qed
    with out False show ?thesis by (simp add: wire_time_def)
  qed
qed (simp add: timeOf_def nanoOf_def wire_time_def)

lemma timeOf_nanoOf_wire [simp]: "wire_time t \<Longrightarrow> timeOf (nanoOf t) = t"
  by (simp add: timeOf_nanoOf)

lemma EntityEventFromProto_toProto [simp]:
  "wire_entityEvent e \<Longrightarrow> EntityEventFromProto (Some (entityEventToProto e)) = e"
  by (simp add: EntityEventFromProto_def entityEventToProto_def wire_entityEvent_def)

lemma RelationEventFromProto_toProto [simp]:
  "wire_relationEvent r \<Longrightarrow> RelationEventFromProto (Some (relationEventToProto r)) = r"
  by (simp add: RelationEventFromProto_def relationEventToProto_def wire_relationEvent_def)

lemma EventFromProto_eventToProto:
  "wire_event e \<Longrightarrow> EventFromProto (Some (eventToProto e)) = e"
  by (cases e)
    (auto simp: EventFromProto_def eventToProto_def wire_event_def entityEvent_def relationEv_def
      split: option.splits)

lemma validateEnvelope_entityEvent [simp]:
  "validateEnvelope v (entityEvent e) = validateEntityEvent v e"
  by (simp add: validateEnvelope_def)

lemma validateEnvelope_relationEv [simp]:
  "validateEnvelope v (relationEv r) = validateRelationEvent v r"
  by (simp add: validateEnvelope_def)

end
