(* ===== verification/Projection_Graph.thy ===== *)
theory Projection_Graph
  imports Model_Event
begin

text \<open>
  \<open>internal/projection/graph.go\<close>: the in-memory projection of the event log.  The record
  has the fields of the struct (the mutex apart: every method runs under it); \<open>now\<close>, which
  the constructor always sets, is the clock reading passed to the methods that consult it.
  A method that panics on its arguments returns \<^const>\<open>None\<close>.
\<close>

named_theorems graph_simps \<open>field laws of the graph operations\<close>

section \<open>Definitions\<close>

definition defaultTombstoneCap :: int where "defaultTombstoneCap = 1024"

definition defaultTombstoneTTL :: duration where "defaultTombstoneTTL = 15 * 60 * 1000000000"

record Graph =
  g_entities :: "(EntityID, Entity) gomap"
  g_deleted :: "(EntityID, bool) gomap"
  g_relations :: "(RelationID, Relation) gomap"
  g_out :: "(EntityID, RelationID goset) gomap"
  g_in :: "(EntityID, RelationID goset) gomap"
  g_byHash :: "(string, EntityID) gomap"
  g_byType :: "(string, EntityID goset) gomap"
  g_tombstones :: "EntityID list"
  g_tombstoneCap :: int
  g_liveTombstones :: int
  g_tombByHash :: "(string, EntityID) gomap"
  g_tombDeadline :: "(EntityID, time) gomap"
  g_tombstoneTTL :: duration

definition NewWithTombstoneCap :: "int \<Rightarrow> Graph" where
  "NewWithTombstoneCap limit =
     \<lparr>g_entities = [], g_deleted = [], g_relations = [], g_out = [], g_in = [], g_byHash = [],
      g_byType = [], g_tombstones = [],
      g_tombstoneCap = (if limit \<le> 0 then defaultTombstoneCap else limit), g_liveTombstones = 0,
      g_tombByHash = [], g_tombDeadline = [], g_tombstoneTTL = defaultTombstoneTTL\<rparr>"

definition NewGraph :: Graph where
  "NewGraph = NewWithTombstoneCap defaultTombstoneCap"

definition SetTombstoneTTL :: "duration \<Rightarrow> Graph \<Rightarrow> Graph" where
  "SetTombstoneTTL ttl g = g\<lparr>g_tombstoneTTL := ttl\<rparr>"

text \<open>\<open>g.deleted[id]\<close>: a missing key reads false.\<close>

definition isDeleted :: "Graph \<Rightarrow> EntityID \<Rightarrow> bool" where
  "isDeleted g eid = gget False (g_deleted g) eid"

definition putEntity :: "Entity \<Rightarrow> Graph \<Rightarrow> Graph" where
  "putEntity e g =
     (let eid = ent_ID e;
          h = IdentityHash e;
          g = g\<lparr>g_entities := gput eid e (g_entities g)\<rparr>;
          g = (if isDeleted g eid
               then g\<lparr>g_liveTombstones := g_liveTombstones g - 1,
                      g_tombDeadline := gdel eid (g_tombDeadline g)\<rparr>
               else g)
      in g\<lparr>g_deleted := gdel eid (g_deleted g),
           g_tombByHash := gdel h (g_tombByHash g),
           g_byHash := gput h eid (g_byHash g),
           g_byType := gput (ent_Type e) (gadd eid (gget [] (g_byType g) (ent_Type e))) (g_byType g)\<rparr>)"

definition dropTombstone :: "EntityID \<Rightarrow> Graph \<Rightarrow> Graph" where
  "dropTombstone eid g =
     (let g = (case map_of (g_entities g) eid of
                 Some e \<Rightarrow>
                   (let h = IdentityHash e
                    in if gget [] (g_tombByHash g) h = eid
                       then g\<lparr>g_tombByHash := gdel h (g_tombByHash g)\<rparr> else g)
               | None \<Rightarrow> g)
      in g\<lparr>g_entities := gdel eid (g_entities g),
           g_deleted := gdel eid (g_deleted g),
           g_tombDeadline := gdel eid (g_tombDeadline g),
           g_liveTombstones := g_liveTombstones g - 1\<rparr>)"

lemma g_tombstones_dropTombstone [simp]: "g_tombstones (dropTombstone eid g) = g_tombstones g"
  by (simp add: dropTombstone_def Let_def split: option.splits)

function evictTombstones :: "Graph \<Rightarrow> Graph" where
  "evictTombstones g =
     (if g_liveTombstones g > g_tombstoneCap g \<and> g_tombstones g \<noteq> []
      then let eid = hd (g_tombstones g);
               g = g\<lparr>g_tombstones := tl (g_tombstones g)\<rparr>
           in if \<not> isDeleted g eid then evictTombstones g
              else evictTombstones (dropTombstone eid g)
      else g)"
  by auto
termination
  by (relation "measure (\<lambda>g. length (g_tombstones g))") auto

declare evictTombstones.simps [simp del]

definition deleteEntry :: "EntityID \<Rightarrow> Graph \<Rightarrow> Graph" where
  "deleteEntry eid g =
     (case map_of (g_entities g) eid of
        Some e \<Rightarrow>
          (let h = IdentityHash e
           in g\<lparr>g_byHash := gdel h (g_byHash g),
                g_tombByHash := gput h eid (g_tombByHash g),
                g_byType := (case map_of (g_byType g) (ent_Type e) of
                    Some ids \<Rightarrow> gput (ent_Type e) (gdel eid ids) (g_byType g)
                  | None \<Rightarrow> g_byType g)\<rparr>)
      | None \<Rightarrow> g)"

definition markDeleted :: "time \<Rightarrow> EntityEvent \<Rightarrow> Graph \<Rightarrow> Graph" where
  "markDeleted now ee g =
     (let eid = ent_ID (ee_Entity ee);
          g = g\<lparr>g_deleted := gput eid True (g_deleted g),
                g_tombstones := g_tombstones g @ [eid],
                g_liveTombstones := g_liveTombstones g + 1\<rparr>
      in if g_tombstoneTTL g > 0
         then let base = (if ee_RecordedAt ee = 0 then now else ee_RecordedAt ee)
              in if base \<noteq> 0
                 then g\<lparr>g_tombDeadline := gput eid (base + g_tombstoneTTL g) (g_tombDeadline g)\<rparr>
                 else g
         else g)"

definition applyEntity :: "time \<Rightarrow> EntityEvent \<Rightarrow> Graph \<Rightarrow> Graph" where
  "applyEntity now ee g =
     (let eid = ent_ID (ee_Entity ee)
      in case ee_ChangeType ee of
           EntityCreated \<Rightarrow> putEntity (ee_Entity ee) g
         | EntityIdentityChanged \<Rightarrow>
             putEntity (ee_Entity ee)
               (case map_of (g_entities g) eid of
                  Some old \<Rightarrow> g\<lparr>g_byHash := gdel (IdentityHash old) (g_byHash g)\<rparr>
                | None \<Rightarrow> g)
         | EntityAttributeUpdated \<Rightarrow> putEntity (ee_Entity ee) g
         | EntityStateChanged \<Rightarrow> putEntity (ee_Entity ee) g
         | EntityDeleted \<Rightarrow>
             (let g = deleteEntry eid g
              in if \<not> isDeleted g eid then evictTombstones (markDeleted now ee g) else g)
         | EntityUnchanged \<Rightarrow>
             (if \<not> ghas (g_entities g) eid then putEntity (ee_Entity ee) g else g)
         | _ \<Rightarrow> g)"

definition addAdjacency :: "Relation \<Rightarrow> Graph \<Rightarrow> Graph" where
  "addAdjacency r g =
     g\<lparr>g_out := gput (rel_From r) (gadd (rel_ID r) (gget [] (g_out g) (rel_From r))) (g_out g),
       g_in := gput (rel_To r) (gadd (rel_ID r) (gget [] (g_in g) (rel_To r))) (g_in g)\<rparr>"

definition applyRelation :: "RelationEvent \<Rightarrow> Graph \<Rightarrow> Graph" where
  "applyRelation re g =
     (let r = re_Relation re
      in case re_ChangeType re of
           RelationAdded \<Rightarrow> addAdjacency r (g\<lparr>g_relations := gput (rel_ID r) r (g_relations g)\<rparr>)
         | RelationAttributeChanged \<Rightarrow>
             addAdjacency r (g\<lparr>g_relations := gput (rel_ID r) r (g_relations g)\<rparr>)
         | RelationRemoved \<Rightarrow>
             g\<lparr>g_relations := gdel (rel_ID r) (g_relations g),
               g_out := (case map_of (g_out g) (rel_From r) of
                   Some s \<Rightarrow> gput (rel_From r) (gdel (rel_ID r) s) (g_out g) | None \<Rightarrow> g_out g),
               g_in := (case map_of (g_in g) (rel_To r) of
                   Some s \<Rightarrow> gput (rel_To r) (gdel (rel_ID r) s) (g_in g) | None \<Rightarrow> g_in g)\<rparr>
         | _ \<Rightarrow> g)"

definition Apply :: "time \<Rightarrow> Event \<Rightarrow> Graph \<Rightarrow> Graph" where
  "Apply now ev g =
     (case ev_Entity ev of
        Some ee \<Rightarrow> applyEntity now ee g
      | None \<Rightarrow> (case ev_Relation ev of Some re \<Rightarrow> applyRelation re g | None \<Rightarrow> g))"

text \<open>\<open>Replay\<close> over the events a scanner hands out in order.\<close>

definition Replay :: "time \<Rightarrow> Event list \<Rightarrow> Graph \<Rightarrow> Graph" where
  "Replay now evs g = fold (Apply now) evs g"

definition compactTombstones :: "Graph \<Rightarrow> Graph" where
  "compactTombstones g =
     g\<lparr>g_tombstones :=
         fst (foldl (\<lambda>(kept, seen) eid.
                if \<not> isDeleted g eid then (kept, seen)
                else if ghas seen eid then (kept, seen)
                else (kept @ [eid], gadd eid seen)) ([], []) (g_tombstones g))\<rparr>"

definition pruneOne :: "time \<Rightarrow> EntityID \<times> time \<Rightarrow> Graph \<times> int \<Rightarrow> Graph \<times> int" where
  "pruneOne now d s =
     (case (d, s) of
        ((eid, deadline), (g, n)) \<Rightarrow>
          if \<not> now > deadline then (g, n)
          else if isDeleted g eid then (dropTombstone eid g, n + 1)
          else (g\<lparr>g_tombDeadline := gdel eid (g_tombDeadline g)\<rparr>, n))"

definition PruneTombstones :: "time \<Rightarrow> Graph \<Rightarrow> Graph \<times> int" where
  "PruneTombstones now g =
     (if g_tombstoneTTL g \<le> 0 then (g, 0)
      else let (g, n) = fold (pruneOne now) (g_tombDeadline g) (g, 0)
           in (if int (length (g_tombstones g)) > 2 * g_liveTombstones g then compactTombstones g else g, n))"

text \<open>The reads.\<close>

definition GetEntity :: "Graph \<Rightarrow> EntityID \<Rightarrow> Entity option \<times> bool" where
  "GetEntity g eid = (map_of (g_entities g) eid, isDeleted g eid)"

definition GetRelation :: "Graph \<Rightarrow> RelationID \<Rightarrow> Relation option" where
  "GetRelation g eid = map_of (g_relations g) eid"

definition EntityCount :: "Graph \<Rightarrow> nat" where
  "EntityCount g = length (filter (\<lambda>(eid, _). \<not> isDeleted g eid) (g_entities g))"

definition RelationCount :: "Graph \<Rightarrow> nat" where
  "RelationCount g = length (g_relations g)"

definition CountByType :: "Graph \<Rightarrow> (string, nat) gomap" where
  "CountByType g =
     foldl (\<lambda>out (t, ids).
        let n = length (filter (\<lambda>(eid, _). \<not> isDeleted g eid) ids)
        in if n > 0 then gput t n out else out) [] (g_byType g)"

type_synonym bfs = "EntityID goset \<times> EntityID list \<times> Entity list"

definition visitNeighbor :: "Graph \<Rightarrow> string \<Rightarrow> EntityID \<Rightarrow> string \<Rightarrow> bfs \<Rightarrow> bfs" where
  "visitNeighbor g relType nb edgeType s =
     (case s of (visited, nxt, result) \<Rightarrow>
        if relType \<noteq> [] \<and> edgeType \<noteq> relType then s
        else if ghas visited nb then s
        else (gadd nb visited, nxt @ [nb],
              case map_of (g_entities g) nb of
                Some e \<Rightarrow> if \<not> isDeleted g nb then result @ [e] else result
              | None \<Rightarrow> result))"

definition expandNode :: "Graph \<Rightarrow> string \<Rightarrow> bfs \<Rightarrow> EntityID \<Rightarrow> bfs" where
  "expandNode g relType s cur =
     (let rel = (\<lambda>rid. gget zeroRelation (g_relations g) rid);
          s = foldl (\<lambda>s (rid, _). visitNeighbor g relType (rel_To (rel rid)) (rel_Type (rel rid)) s)
                s (gget [] (g_out g) cur)
      in foldl (\<lambda>s (rid, _). visitNeighbor g relType (rel_From (rel rid)) (rel_Type (rel rid)) s)
           s (gget [] (g_in g) cur))"

fun neighborsLoop :: "Graph \<Rightarrow> string \<Rightarrow> nat \<Rightarrow> EntityID goset \<Rightarrow> EntityID list \<Rightarrow> Entity list \<Rightarrow> Entity list" where
  "neighborsLoop g relType 0 visited frontier result = result"
| "neighborsLoop g relType (Suc d) visited frontier result =
     (if frontier = [] then result
      else case foldl (expandNode g relType) (visited, [], result) frontier of
             (visited', nxt, result') \<Rightarrow> neighborsLoop g relType d visited' nxt result')"

definition Neighbors :: "Graph \<Rightarrow> EntityID \<Rightarrow> string \<Rightarrow> int \<Rightarrow> Entity list" where
  "Neighbors g eid relType depth =
     (if depth < 1 then [] else neighborsLoop g relType (nat depth) [(eid, ())] [eid] [])"

definition fingerprintKeys :: "Graph \<Rightarrow> string \<Rightarrow> (string \<times> EntityID) list" where
  "fingerprintKeys g typ =
     filter (\<lambda>(fp, eid). \<not> isDeleted g eid \<and>
        (case map_of (g_entities g) eid of
           Some e \<Rightarrow> \<not> (typ \<noteq> [] \<and> ent_Type e \<noteq> typ) | None \<Rightarrow> False)) (g_byHash g)"

definition entityAt :: "Graph \<Rightarrow> EntityID \<Rightarrow> Entity" where
  "entityAt g eid = gget zeroEntity (g_entities g) eid"

definition PageEntitiesByFingerprint ::
    "Graph \<Rightarrow> string \<Rightarrow> string \<Rightarrow> int \<Rightarrow> (Entity list \<times> string \<times> nat) option" where
  "PageEntitiesByFingerprint g typ after limit =
     (let matching = fingerprintKeys g typ;
          keys = sort_key fst (filter (\<lambda>(fp, eid). \<not> (after \<noteq> [] \<and> fp \<le> after)) matching)
      in if limit < 0 then None
         else if int (length keys) > limit
         then (if limit = 0 then None
               else let keys = take (nat limit) keys
                    in Some (map (\<lambda>(fp, eid). entityAt g eid) keys, fst (last keys), length matching))
         else Some (map (\<lambda>(fp, eid). entityAt g eid) keys, [], length matching))"

definition ListEntitiesByFingerprint :: "Graph \<Rightarrow> string \<Rightarrow> Entity list" where
  "ListEntitiesByFingerprint g typ = map (\<lambda>(fp, eid). entityAt g eid) (sort_key fst (fingerprintKeys g typ))"

definition ListEntities :: "Graph \<Rightarrow> string \<Rightarrow> Entity list" where
  "ListEntities g typ =
     sort_key ent_ID (map snd (filter (\<lambda>(eid, e).
       \<not> isDeleted g eid \<and> \<not> (typ \<noteq> [] \<and> ent_Type e \<noteq> typ)) (g_entities g)))"

definition ListRelations :: "Graph \<Rightarrow> string \<Rightarrow> EntityID \<Rightarrow> EntityID \<Rightarrow> Relation list" where
  "ListRelations g typ from to =
     sort_key rel_ID (filter (\<lambda>r.
       \<not> (typ \<noteq> [] \<and> rel_Type r \<noteq> typ) \<and> \<not> (from \<noteq> [] \<and> rel_From r \<noteq> from)
       \<and> \<not> (to \<noteq> [] \<and> rel_To r \<noteq> to)) (map snd (g_relations g)))"

definition addTouching :: "Graph \<Rightarrow> string \<Rightarrow> RelationID goset \<times> Relation list \<Rightarrow> RelationID
    \<Rightarrow> RelationID goset \<times> Relation list" where
  "addTouching g relType s rid =
     (case s of (seen, out) \<Rightarrow>
        if ghas seen rid then s
        else case map_of (g_relations g) rid of
               None \<Rightarrow> s
             | Some r \<Rightarrow> if relType \<noteq> [] \<and> rel_Type r \<noteq> relType then s
                         else (gadd rid seen, out @ [r]))"

definition RelationsTouching :: "Graph \<Rightarrow> EntityID \<Rightarrow> string \<Rightarrow> Relation list" where
  "RelationsTouching g eid relType =
     sort_key rel_ID (snd (foldl (addTouching g relType) ([], [])
       (gkeys (gget [] (g_out g) eid) @ gkeys (gget [] (g_in g) eid))))"

definition MatchIdentity :: "Graph \<Rightarrow> string \<Rightarrow> KeyValue list \<Rightarrow> EntityID option" where
  "MatchIdentity g typ identity =
     (case map_of (g_byHash g) (identityHashOf typ identity) of
        Some eid \<Rightarrow> if \<not> isDeleted g eid then Some eid else None
      | None \<Rightarrow> None)"

definition MatchTombstone :: "time \<Rightarrow> Graph \<Rightarrow> string \<Rightarrow> KeyValue list \<Rightarrow> EntityID option" where
  "MatchTombstone now g typ identity =
     (case map_of (g_tombByHash g) (identityHashOf typ identity) of
        None \<Rightarrow> None
      | Some eid \<Rightarrow>
          if \<not> isDeleted g eid then None
          else if g_tombstoneTTL g > 0
                \<and> (case map_of (g_tombDeadline g) eid of Some deadline \<Rightarrow> now > deadline | None \<Rightarrow> False)
               then None
          else Some eid)"

definition ResolveFingerprint :: "Graph \<Rightarrow> string \<Rightarrow> EntityID option" where
  "ResolveFingerprint g fingerprint =
     (case map_of (g_byHash g) fingerprint of
        Some eid \<Rightarrow> Some eid
      | None \<Rightarrow> map_of (g_tombByHash g) fingerprint)"

definition identityMatches :: "Graph \<Rightarrow> (string, string) gomap \<Rightarrow> EntityID \<Rightarrow> bool" where
  "identityMatches g identity eid =
     (case map_of (g_entities g) eid of
        None \<Rightarrow> False
      | Some e \<Rightarrow> length (ent_Identity e) = length identity \<and>
          list_all (\<lambda>(k, v). map_of identity k = Some (Display v)) (ent_Identity e))"

definition ResolveIdentity :: "Graph \<Rightarrow> string \<Rightarrow> (string, string) gomap \<Rightarrow> EntityID option" where
  "ResolveIdentity g typ identity =
     (if typ = [] \<or> length identity = 0 then None
      else let kvs = map (\<lambda>(k, v). (k, StringValue v)) identity
           in case ResolveFingerprint g (identityHashOf typ kvs) of
                Some eid \<Rightarrow> Some eid
              | None \<Rightarrow> find (identityMatches g identity) (gkeys (gget [] (g_byType g) typ)))"

fun handlePairs :: "string list \<Rightarrow> (string, string) gomap \<Rightarrow> (string, string) gomap option" where
  "handlePairs [] identity = Some identity"
| "handlePairs (pair # pairs) identity =
     (case cut pair (CHR ''='') of
        (k, v, ok) \<Rightarrow> if \<not> ok \<or> k = [] then None else handlePairs pairs (gput k v identity))"

definition ResolveHandle :: "Graph \<Rightarrow> string \<Rightarrow> EntityID option" where
  "ResolveHandle g handle =
     (case cut handle (CHR '':'') of
        (typ, rest, hasColon) \<Rightarrow>
          if \<not> hasColon then Some handle
          else if \<not> contains_byte rest (CHR ''='') then ResolveFingerprint g handle
          else case handlePairs (split_byte (CHR '','') rest) [] of
                 None \<Rightarrow> None
               | Some identity \<Rightarrow> ResolveIdentity g typ identity)"

text \<open>
  \<open>SnapshotEvents\<close>; \<open>newID\<close> stands for the event ids minted in order by the ULID package.
\<close>

definition snapshotEntityEvent :: "time \<Rightarrow> string \<Rightarrow> Entity \<Rightarrow> Event" where
  "snapshotEntityEvent when eid e =
     entityEvent (zeroEntityEvent\<lparr>ee_EventID := eid, ee_ChangeType := EntityCreated, ee_Entity := e,
       ee_EventTime := when, ee_RecordedAt := when, ee_SchemaVersion := SchemaVersion\<rparr>)"

definition snapshotRelationEvent :: "time \<Rightarrow> string \<Rightarrow> Relation \<Rightarrow> Event" where
  "snapshotRelationEvent when eid r =
     relationEv (zeroRelationEvent\<lparr>re_EventID := eid, re_ChangeType := RelationAdded, re_Relation := r,
       re_EventTime := when, re_RecordedAt := when, re_SchemaVersion := SchemaVersion\<rparr>)"

definition SnapshotEvents :: "(nat \<Rightarrow> string) \<Rightarrow> time \<Rightarrow> Graph \<Rightarrow> Event list" where
  "SnapshotEvents newID when g =
     (let live = map snd (filter (\<lambda>(eid, e). \<not> isDeleted g eid) (g_entities g));
          rels = map snd (g_relations g)
      in map (\<lambda>(i, e). snapshotEntityEvent when (newID i) e) (enumerate 0 live)
         @ map (\<lambda>(i, r). snapshotRelationEvent when (newID i) r) (enumerate (length live) rels))"

definition EntitiesOfType :: "Graph \<Rightarrow> string \<Rightarrow> Entity list" where
  "EntitiesOfType g typ =
     concat (map (\<lambda>eid. if isDeleted g eid then []
       else case map_of (g_entities g) eid of Some e \<Rightarrow> [e] | None \<Rightarrow> [])
       (gkeys (gget [] (g_byType g) typ)))"

text \<open>
  \<open>asof.go\<close>: the graph as it was at an instant.  \<open>horizon\<close> is what the reader's
  \<open>PruneHorizon\<close> answers and \<open>scan from to\<close> the outcome of its \<open>ScanByTimeRange\<close>: the
  events it streamed, or an error.
\<close>

datatype 'e AtErr = BeforeHorizon | Canceled | FoldErr 'e

definition At :: "time \<Rightarrow> bool \<Rightarrow> time \<Rightarrow> (time \<Rightarrow> time \<Rightarrow> 'e + Event list) \<Rightarrow> time \<Rightarrow> 'e AtErr + Graph" where
  "At now canceled horizon scan t =
     (if horizon \<noteq> 0 \<and> t < horizon then Inl BeforeHorizon
      else if canceled then Inl Canceled
      else case scan unixEpoch (t + 1) of
             Inl err \<Rightarrow> Inl (FoldErr err)
           | Inr evs \<Rightarrow> Inr (Replay now evs NewGraph))"

end
