(* ===== verification/Projection_Spec.thy ===== *)
theory Projection_Spec
  imports Projection_Graph
begin

text \<open>
  What the projection promises.  The abstract state is a topology: the live entities by
  id and the relations by id.  \<open>spec_apply\<close> is the meaning of one event on it, \<open>view\<close> the
  topology a graph represents; the refinement lemmas say that \<open>Apply\<close>, \<open>Replay\<close> and the
  tombstone operations implement that meaning, whatever the tombstone cache holds.
\<close>

section \<open>Definitions\<close>

record Topology =
  tp_entities :: "EntityID \<rightharpoonup> Entity"
  tp_relations :: "RelationID \<rightharpoonup> Relation"

definition emptyTopology :: Topology where
  "emptyTopology = \<lparr>tp_entities = Map.empty, tp_relations = Map.empty\<rparr>"

definition live :: "Graph \<Rightarrow> EntityID \<Rightarrow> Entity option" where
  "live g i = (if isDeleted g i then None else map_of (g_entities g) i)"

definition view :: "Graph \<Rightarrow> Topology" where
  "view g = \<lparr>tp_entities = live g, tp_relations = map_of (g_relations g)\<rparr>"

definition spec_entity :: "EntityEvent \<Rightarrow> Topology \<Rightarrow> Topology" where
  "spec_entity ee T =
     (let e = ee_Entity ee
      in case ee_ChangeType ee of
           EntityCreated \<Rightarrow> T\<lparr>tp_entities := (tp_entities T)(ent_ID e \<mapsto> e)\<rparr>
         | EntityIdentityChanged \<Rightarrow> T\<lparr>tp_entities := (tp_entities T)(ent_ID e \<mapsto> e)\<rparr>
         | EntityAttributeUpdated \<Rightarrow> T\<lparr>tp_entities := (tp_entities T)(ent_ID e \<mapsto> e)\<rparr>
         | EntityStateChanged \<Rightarrow> T\<lparr>tp_entities := (tp_entities T)(ent_ID e \<mapsto> e)\<rparr>
         | EntityDeleted \<Rightarrow> T\<lparr>tp_entities := (tp_entities T)(ent_ID e := None)\<rparr>
         | EntityUnchanged \<Rightarrow>
             (if tp_entities T (ent_ID e) = None
              then T\<lparr>tp_entities := (tp_entities T)(ent_ID e \<mapsto> e)\<rparr> else T)
         | _ \<Rightarrow> T)"

definition spec_relation :: "RelationEvent \<Rightarrow> Topology \<Rightarrow> Topology" where
  "spec_relation re T =
     (let r = re_Relation re
      in case re_ChangeType re of
           RelationAdded \<Rightarrow> T\<lparr>tp_relations := (tp_relations T)(rel_ID r \<mapsto> r)\<rparr>
         | RelationAttributeChanged \<Rightarrow> T\<lparr>tp_relations := (tp_relations T)(rel_ID r \<mapsto> r)\<rparr>
         | RelationRemoved \<Rightarrow> T\<lparr>tp_relations := (tp_relations T)(rel_ID r := None)\<rparr>
         | _ \<Rightarrow> T)"

definition spec_apply :: "Event \<Rightarrow> Topology \<Rightarrow> Topology" where
  "spec_apply ev T =
     (case ev_Entity ev of
        Some ee \<Rightarrow> spec_entity ee T
      | None \<Rightarrow> (case ev_Relation ev of Some re \<Rightarrow> spec_relation re T | None \<Rightarrow> T))"

definition spec_replay :: "Event list \<Rightarrow> Topology \<Rightarrow> Topology" where
  "spec_replay evs T = fold spec_apply evs T"

text \<open>
  The one event whose effect depends on the tombstone cache is a heartbeat for an id that
  is soft-deleted: it is ignored while the tombstone is kept and re-creates the entity
  once it is evicted.
\<close>

definition heartbeat_of_dead :: "Event \<Rightarrow> Graph \<Rightarrow> bool" where
  "heartbeat_of_dead ev g =
     (case ev_Entity ev of
        Some ee \<Rightarrow> ee_ChangeType ee = EntityUnchanged \<and> isDeleted g (ent_ID (ee_Entity ee))
      | None \<Rightarrow> False)"

text \<open>On the log side: no heartbeat follows a deletion without a re-creation between them.\<close>

definition put_change :: "ChangeType \<Rightarrow> bool" where
  "put_change c = (c = EntityCreated \<or> c = EntityIdentityChanged \<or> c = EntityAttributeUpdated
     \<or> c = EntityStateChanged)"

fun no_dead_heartbeat :: "EntityID list \<Rightarrow> Event list \<Rightarrow> bool" where
  "no_dead_heartbeat dead [] = True"
| "no_dead_heartbeat dead (ev # evs) =
     (case ev_Entity ev of
        None \<Rightarrow> no_dead_heartbeat dead evs
      | Some ee \<Rightarrow>
          let i = ent_ID (ee_Entity ee)
          in if ee_ChangeType ee = EntityUnchanged then i \<notin> set dead \<and> no_dead_heartbeat dead evs
             else if ee_ChangeType ee = EntityDeleted then no_dead_heartbeat (i # dead) evs
             else if put_change (ee_ChangeType ee) then no_dead_heartbeat (removeAll i dead) evs
             else no_dead_heartbeat dead evs)"

text \<open>The identity index of the tombstones once one of them is dropped.\<close>

definition tombOwner :: "Graph \<Rightarrow> EntityID \<Rightarrow> (string, EntityID) gomap" where
  "tombOwner g i =
     (case map_of (g_entities g) i of
        Some e \<Rightarrow> if gget [] (g_tombByHash g) (IdentityHash e) = i
                  then gdel (IdentityHash e) (g_tombByHash g) else g_tombByHash g
      | None \<Rightarrow> g_tombByHash g)"

section \<open>Field laws\<close>

lemma isDeleted_update_simps [simp]:
  "isDeleted (g\<lparr>g_entities := a\<rparr>) i = isDeleted g i"
  "isDeleted (g\<lparr>g_relations := b\<rparr>) i = isDeleted g i"
  "isDeleted (g\<lparr>g_out := c\<rparr>) i = isDeleted g i"
  "isDeleted (g\<lparr>g_in := c\<rparr>) i = isDeleted g i"
  "isDeleted (g\<lparr>g_byHash := d\<rparr>) i = isDeleted g i"
  "isDeleted (g\<lparr>g_byType := f\<rparr>) i = isDeleted g i"
  "isDeleted (g\<lparr>g_tombstones := h\<rparr>) i = isDeleted g i"
  "isDeleted (g\<lparr>g_liveTombstones := k\<rparr>) i = isDeleted g i"
  "isDeleted (g\<lparr>g_tombByHash := d\<rparr>) i = isDeleted g i"
  "isDeleted (g\<lparr>g_tombDeadline := l\<rparr>) i = isDeleted g i"
  "isDeleted (g\<lparr>g_tombstoneTTL := m\<rparr>) i = isDeleted g i"
  "isDeleted (g\<lparr>g_deleted := n\<rparr>) i = gget False n i"
  by (simp_all add: isDeleted_def)

lemma putEntity_fields [simp, graph_simps]:
  "g_entities (putEntity e g) = gput (ent_ID e) e (g_entities g)"
  "g_deleted (putEntity e g) = gdel (ent_ID e) (g_deleted g)"
  "g_relations (putEntity e g) = g_relations g"
  "g_out (putEntity e g) = g_out g"
  "g_in (putEntity e g) = g_in g"
  "g_byHash (putEntity e g) = gput (IdentityHash e) (ent_ID e) (g_byHash g)"
  "g_byType (putEntity e g)
     = gput (ent_Type e) (gadd (ent_ID e) (gget [] (g_byType g) (ent_Type e))) (g_byType g)"
  "g_tombstones (putEntity e g) = g_tombstones g"
  "g_tombstoneCap (putEntity e g) = g_tombstoneCap g"
  "g_liveTombstones (putEntity e g)
     = (if isDeleted g (ent_ID e) then g_liveTombstones g - 1 else g_liveTombstones g)"
  "g_tombByHash (putEntity e g) = gdel (IdentityHash e) (g_tombByHash g)"
  "g_tombDeadline (putEntity e g)
     = (if isDeleted g (ent_ID e) then gdel (ent_ID e) (g_tombDeadline g) else g_tombDeadline g)"
  "g_tombstoneTTL (putEntity e g) = g_tombstoneTTL g"
  by (simp_all add: putEntity_def Let_def)

lemma isDeleted_putEntity [simp, graph_simps]:
  "isDeleted (putEntity e g) i \<longleftrightarrow> i \<noteq> ent_ID e \<and> isDeleted g i"
  by (simp add: isDeleted_def)

lemma dropTombstone_fields [simp, graph_simps]:
  "g_entities (dropTombstone i g) = gdel i (g_entities g)"
  "g_deleted (dropTombstone i g) = gdel i (g_deleted g)"
  "g_relations (dropTombstone i g) = g_relations g"
  "g_out (dropTombstone i g) = g_out g"
  "g_in (dropTombstone i g) = g_in g"
  "g_byHash (dropTombstone i g) = g_byHash g"
  "g_byType (dropTombstone i g) = g_byType g"
  "g_tombstoneCap (dropTombstone i g) = g_tombstoneCap g"
  "g_liveTombstones (dropTombstone i g) = g_liveTombstones g - 1"
  "g_tombByHash (dropTombstone i g) = tombOwner g i"
  "g_tombDeadline (dropTombstone i g) = gdel i (g_tombDeadline g)"
  "g_tombstoneTTL (dropTombstone i g) = g_tombstoneTTL g"
  by (simp_all add: dropTombstone_def tombOwner_def Let_def split: option.splits)

lemma isDeleted_dropTombstone [simp, graph_simps]:
  "isDeleted (dropTombstone i g) j \<longleftrightarrow> j \<noteq> i \<and> isDeleted g j"
  by (simp add: isDeleted_def)

lemma deleteEntry_fields [simp, graph_simps]:
  "g_entities (deleteEntry i g) = g_entities g"
  "g_deleted (deleteEntry i g) = g_deleted g"
  "g_relations (deleteEntry i g) = g_relations g"
  "g_out (deleteEntry i g) = g_out g"
  "g_in (deleteEntry i g) = g_in g"
  "g_tombstones (deleteEntry i g) = g_tombstones g"
  "g_tombstoneCap (deleteEntry i g) = g_tombstoneCap g"
  "g_liveTombstones (deleteEntry i g) = g_liveTombstones g"
  "g_tombDeadline (deleteEntry i g) = g_tombDeadline g"
  "g_tombstoneTTL (deleteEntry i g) = g_tombstoneTTL g"
  by (simp_all add: deleteEntry_def Let_def split: option.splits)

lemma isDeleted_deleteEntry [simp, graph_simps]: "isDeleted (deleteEntry i g) j = isDeleted g j"
  by (simp add: isDeleted_def)

lemma markDeleted_fields [simp, graph_simps]:
  "g_entities (markDeleted now ee g) = g_entities g"
  "g_deleted (markDeleted now ee g) = gput (ent_ID (ee_Entity ee)) True (g_deleted g)"
  "g_relations (markDeleted now ee g) = g_relations g"
  "g_out (markDeleted now ee g) = g_out g"
  "g_in (markDeleted now ee g) = g_in g"
  "g_byHash (markDeleted now ee g) = g_byHash g"
  "g_byType (markDeleted now ee g) = g_byType g"
  "g_tombstones (markDeleted now ee g) = g_tombstones g @ [ent_ID (ee_Entity ee)]"
  "g_tombstoneCap (markDeleted now ee g) = g_tombstoneCap g"
  "g_liveTombstones (markDeleted now ee g) = g_liveTombstones g + 1"
  "g_tombByHash (markDeleted now ee g) = g_tombByHash g"
  "g_tombstoneTTL (markDeleted now ee g) = g_tombstoneTTL g"
  by (simp_all add: markDeleted_def Let_def)

lemma isDeleted_markDeleted [simp, graph_simps]:
  "isDeleted (markDeleted now ee g) j \<longleftrightarrow> j = ent_ID (ee_Entity ee) \<or> isDeleted g j"
  by (simp add: isDeleted_def)

lemma addAdjacency_fields [simp, graph_simps]:
  "g_entities (addAdjacency r g) = g_entities g"
  "g_deleted (addAdjacency r g) = g_deleted g"
  "g_relations (addAdjacency r g) = g_relations g"
  "g_byHash (addAdjacency r g) = g_byHash g"
  "g_byType (addAdjacency r g) = g_byType g"
  "g_tombstones (addAdjacency r g) = g_tombstones g"
  "g_tombstoneCap (addAdjacency r g) = g_tombstoneCap g"
  "g_liveTombstones (addAdjacency r g) = g_liveTombstones g"
  "g_tombByHash (addAdjacency r g) = g_tombByHash g"
  "g_tombDeadline (addAdjacency r g) = g_tombDeadline g"
  "g_tombstoneTTL (addAdjacency r g) = g_tombstoneTTL g"
  by (simp_all add: addAdjacency_def)

lemma compactTombstones_fields [simp, graph_simps]:
  "g_entities (compactTombstones g) = g_entities g"
  "g_deleted (compactTombstones g) = g_deleted g"
  "g_relations (compactTombstones g) = g_relations g"
  "g_out (compactTombstones g) = g_out g"
  "g_in (compactTombstones g) = g_in g"
  "g_byHash (compactTombstones g) = g_byHash g"
  "g_byType (compactTombstones g) = g_byType g"
  "g_tombstoneCap (compactTombstones g) = g_tombstoneCap g"
  "g_liveTombstones (compactTombstones g) = g_liveTombstones g"
  "g_tombByHash (compactTombstones g) = g_tombByHash g"
  "g_tombDeadline (compactTombstones g) = g_tombDeadline g"
  "g_tombstoneTTL (compactTombstones g) = g_tombstoneTTL g"
  by (simp_all add: compactTombstones_def)

lemma pruneOne_simp [simp]:
  "pruneOne now (i, t) (g, n) =
     (if \<not> now > t then (g, n)
      else if isDeleted g i then (dropTombstone i g, n + 1)
      else (g\<lparr>g_tombDeadline := gdel i (g_tombDeadline g)\<rparr>, n))"
  by (simp add: pruneOne_def)

section \<open>Eviction as an invariant rule\<close>

text \<open>
  A property that survives popping the queue and dropping one soft-deleted entity survives
  eviction; the same for the fold of \<open>PruneTombstones\<close>.
\<close>

lemma evictTombstones_invariant:
  assumes "P g"
    and pop: "\<And>g. P g \<Longrightarrow> g_tombstones g \<noteq> [] \<Longrightarrow> \<not> isDeleted g (hd (g_tombstones g))
      \<Longrightarrow> P (g\<lparr>g_tombstones := tl (g_tombstones g)\<rparr>)"
    and drop: "\<And>g i. P g \<Longrightarrow> g_tombstones g \<noteq> [] \<Longrightarrow> i = hd (g_tombstones g) \<Longrightarrow> isDeleted g i
      \<Longrightarrow> P (dropTombstone i (g\<lparr>g_tombstones := tl (g_tombstones g)\<rparr>))"
  shows "P (evictTombstones g)"
  using assms(1)
proof (induction g rule: evictTombstones.induct)
  case (1 g)
  show ?case
  proof (cases "g_liveTombstones g > g_tombstoneCap g \<and> g_tombstones g \<noteq> []")
    case True
    then show ?thesis
      by (subst evictTombstones.simps)
        (use 1 pop [of g] drop [of g "hd (g_tombstones g)"] in \<open>simp add: Let_def\<close>)
  next
    case False
    then have "evictTombstones g = g"
      by (subst evictTombstones.simps) (simp only: if_False)
    with 1 show ?thesis by simp
  qed
qed

lemma pruneOne_invariant:
  assumes "P g"
    and drop: "\<And>g i. P g \<Longrightarrow> isDeleted g i \<Longrightarrow> P (dropTombstone i g)"
    and moot: "\<And>g i. P g \<Longrightarrow> \<not> isDeleted g i \<Longrightarrow> P (g\<lparr>g_tombDeadline := gdel i (g_tombDeadline g)\<rparr>)"
  shows "P (fst (fold (pruneOne now) ds (g, n)))"
  using assms(1)
proof (induction ds arbitrary: g n)
  case (Cons d ds)
  obtain i t where d: "d = (i, t)" by (cases d)
  show ?case
    by (auto simp: d intro!: Cons.IH Cons.prems drop moot)
qed simp

lemma PruneTombstones_invariant:
  assumes "P g"
    and "\<And>g i. P g \<Longrightarrow> isDeleted g i \<Longrightarrow> P (dropTombstone i g)"
    and "\<And>g i. P g \<Longrightarrow> \<not> isDeleted g i \<Longrightarrow> P (g\<lparr>g_tombDeadline := gdel i (g_tombDeadline g)\<rparr>)"
    and compact: "\<And>g. P g \<Longrightarrow> P (compactTombstones g)"
  shows "P (fst (PruneTombstones now g))"
proof -
  have "P (fst (fold (pruneOne now) (g_tombDeadline g) (g, 0)))"
    by (rule pruneOne_invariant) (use assms in auto)
  then show ?thesis
    by (auto simp: PruneTombstones_def assms(1) intro: compact split: prod.splits)
qed

section \<open>Refinement\<close>

lemma view_eqI:
  "g_deleted g = g_deleted g' \<Longrightarrow> g_entities g = g_entities g' \<Longrightarrow> g_relations g = g_relations g'
     \<Longrightarrow> view g = view g'"
  by (simp add: view_def live_def isDeleted_def fun_eq_iff)

lemma view_tombstones [simp]: "view (g\<lparr>g_tombstones := ts\<rparr>) = view g"
  by (rule view_eqI) simp_all

lemma view_tombDeadline [simp]: "view (g\<lparr>g_tombDeadline := ds\<rparr>) = view g"
  by (rule view_eqI) simp_all

lemma view_byHash [simp]: "view (g\<lparr>g_byHash := hs\<rparr>) = view g"
  by (rule view_eqI) simp_all

lemma view_compactTombstones [simp]: "view (compactTombstones g) = view g"
  by (rule view_eqI) simp_all

lemma view_deleteEntry [simp]: "view (deleteEntry i g) = view g"
  by (rule view_eqI) simp_all

lemma view_putEntity:
  "view (putEntity e g) = (view g)\<lparr>tp_entities := (tp_entities (view g))(ent_ID e \<mapsto> e)\<rparr>"
  by (auto simp: view_def live_def fun_eq_iff)

lemma view_dropTombstone: "isDeleted g i \<Longrightarrow> view (dropTombstone i g) = view g"
  by (auto simp: view_def live_def fun_eq_iff)

lemma view_evictTombstones [simp]: "view (evictTombstones g) = view g"
  by (rule evictTombstones_invariant [where P = "\<lambda>g'. view g' = view g"])
    (auto simp: view_dropTombstone view_tombstones)

lemma view_markDeleted:
  "view (markDeleted now ee g)
     = (view g)\<lparr>tp_entities := (tp_entities (view g))(ent_ID (ee_Entity ee) := None)\<rparr>"
  by (auto simp: view_def live_def fun_eq_iff)

lemma view_dead:
  "isDeleted g i \<Longrightarrow> (view g)\<lparr>tp_entities := (tp_entities (view g))(i := None)\<rparr> = view g"
  by (auto simp: view_def live_def fun_eq_iff)

lemma view_applyEntity:
  assumes "\<not> heartbeat_of_dead (entityEvent ee) g"
  shows "view (applyEntity now ee g) = spec_entity ee (view g)"
proof (cases "ee_ChangeType ee")
  case EntityDeleted
  then show ?thesis
    by (auto simp: applyEntity_def spec_entity_def Let_def view_markDeleted view_dead)
next
  case EntityUnchanged
  with assms have "\<not> isDeleted g (ent_ID (ee_Entity ee))"
    by (simp add: heartbeat_of_dead_def)
  then have "tp_entities (view g) (ent_ID (ee_Entity ee)) = map_of (g_entities g) (ent_ID (ee_Entity ee))"
    by (simp add: view_def live_def)
  with EntityUnchanged show ?thesis
    by (auto simp: applyEntity_def spec_entity_def Let_def view_putEntity ghas_def)
qed (auto simp: applyEntity_def spec_entity_def Let_def view_putEntity split: option.splits)

lemma view_applyRelation: "view (applyRelation re g) = spec_relation re (view g)"
  by (cases "re_ChangeType re")
    (auto simp: applyRelation_def spec_relation_def Let_def view_def live_def isDeleted_def fun_eq_iff)

lemma view_Apply:
  assumes "\<not> heartbeat_of_dead ev g"
  shows "view (Apply now ev g) = spec_apply ev (view g)"
  using assms
  by (auto simp: Apply_def spec_apply_def heartbeat_of_dead_def view_applyEntity view_applyRelation
      split: option.splits)

lemma view_PruneTombstones: "view (fst (PruneTombstones now g)) = view g"
  by (rule PruneTombstones_invariant [where P = "\<lambda>g'. view g' = view g"])
    (auto simp: view_dropTombstone)

lemma view_NewWithTombstoneCap [simp]: "view (NewWithTombstoneCap n) = emptyTopology"
  by (auto simp: view_def live_def NewWithTombstoneCap_def isDeleted_def emptyTopology_def fun_eq_iff)

lemma view_NewGraph [simp]: "view NewGraph = emptyTopology"
  by (simp add: NewGraph_def)

text \<open>Only a deletion makes an id soft-deleted, and a re-creation clears the mark.\<close>

lemma isDeleted_compactTombstones [simp]: "isDeleted (compactTombstones g) i = isDeleted g i"
  by (simp add: isDeleted_def)

lemma isDeleted_evictTombstones: "isDeleted (evictTombstones g) i \<Longrightarrow> isDeleted g i"
  using evictTombstones_invariant [where P = "\<lambda>g'. isDeleted g' i \<longrightarrow> isDeleted g i" and g = g] by auto

lemma isDeleted_PruneTombstones: "isDeleted (fst (PruneTombstones now g)) i \<Longrightarrow> isDeleted g i"
  using PruneTombstones_invariant
    [where P = "\<lambda>g'. isDeleted g' i \<longrightarrow> isDeleted g i" and g = g and now = now]
  by auto

lemma isDeleted_applyEntity:
  "isDeleted (applyEntity now ee g) i \<Longrightarrow>
     (if i = ent_ID (ee_Entity ee)
      then (ee_ChangeType ee = EntityDeleted \<or> isDeleted g i) \<and> \<not> put_change (ee_ChangeType ee)
      else isDeleted g i)"
  by (cases "ee_ChangeType ee")
    (auto simp: applyEntity_def Let_def put_change_def dest!: isDeleted_evictTombstones
      split: option.splits if_splits)

lemma isDeleted_applyRelation [simp]: "isDeleted (applyRelation re g) i = isDeleted g i"
  by (cases "re_ChangeType re") (auto simp: applyRelation_def Let_def isDeleted_def)

lemma view_Replay:
  assumes "no_dead_heartbeat dead evs" and "\<And>i. isDeleted g i \<Longrightarrow> i \<in> set dead"
  shows "view (Replay now evs g) = spec_replay evs (view g)"
  using assms
proof (induction evs arbitrary: dead g)
  case (Cons ev evs)
  obtain dead' where tail: "no_dead_heartbeat dead' evs"
    and sub: "\<And>i. isDeleted (Apply now ev g) i \<Longrightarrow> i \<in> set dead'"
    and ok: "\<not> heartbeat_of_dead ev g"
  proof (cases "ev_Entity ev")
    case None
    then have "isDeleted (Apply now ev g) i = isDeleted g i" for i
      by (auto simp: Apply_def split: option.splits)
    with None Cons.prems that [of dead] show ?thesis
      by (simp add: heartbeat_of_dead_def)
  next
    case (Some ee)
    let ?i = "ent_ID (ee_Entity ee)"
    let ?dead' = "if ee_ChangeType ee = EntityUnchanged then dead
      else if ee_ChangeType ee = EntityDeleted then ?i # dead
      else if put_change (ee_ChangeType ee) then removeAll ?i dead else dead"
    show ?thesis
    proof (rule that [of ?dead'])
      show "no_dead_heartbeat ?dead' evs"
        using Cons.prems(1) Some by (auto simp: Let_def split: if_splits)
      show "\<not> heartbeat_of_dead ev g"
        using Cons.prems Some by (auto simp: heartbeat_of_dead_def Let_def)
      show "i \<in> set ?dead'" if "isDeleted (Apply now ev g) i" for i
        using that Some isDeleted_applyEntity [of now ee g i] Cons.prems(2) [of i]
        by (auto simp: Apply_def split: if_splits)
    qed
  qed
  have "view (Replay now evs (Apply now ev g)) = spec_replay evs (view (Apply now ev g))"
    using tail sub by (rule Cons.IH)
  with view_Apply [OF ok] show ?case by (simp add: Replay_def spec_replay_def)
qed (simp add: Replay_def spec_replay_def)

end
