(* ===== verification/Projection_Inv.thy ===== *)
theory Projection_Inv
  imports Projection_Spec
begin

text \<open>
  The invariants of the projection's redundant state.  \<open>wf_tombs\<close> ties the tombstone
  counter, queue and deadlines to the deleted set and holds after any sequence of events;
  \<open>wf_index\<close> says that the identity and type indexes list exactly the live entities and
  \<open>wf_adj\<close> that the adjacency lists exactly the relations, and both are kept by every
  admissible event.  The index reads are then equal to their definitions by scanning.
\<close>

section \<open>Definitions\<close>

definition wf_tombs :: "Graph \<Rightarrow> bool" where
  "wf_tombs g =
     (gdistinct (g_deleted g) \<and> (\<forall>i. ghas (g_deleted g) i \<longrightarrow> isDeleted g i) \<and>
      g_liveTombstones g = int (length (g_deleted g)) \<and>
      (\<forall>i. ghas (g_deleted g) i \<longrightarrow> i \<in> set (g_tombstones g)) \<and>
      (\<forall>i. ghas (g_tombDeadline g) i \<longrightarrow> ghas (g_deleted g) i) \<and>
      0 < g_tombstoneCap g)"

definition wf_index :: "Graph \<Rightarrow> bool" where
  "wf_index g =
     ((\<forall>i e. map_of (g_entities g) i = Some e \<longrightarrow> ent_ID e = i) \<and>
      (\<forall>h i. map_of (g_byHash g) h = Some i \<longleftrightarrow> (\<exists>e. live g i = Some e \<and> IdentityHash e = h)) \<and>
      (\<forall>h i. map_of (g_tombByHash g) h = Some i \<longrightarrow>
         isDeleted g i \<and> (\<exists>e. map_of (g_entities g) i = Some e \<and> IdentityHash e = h)) \<and>
      (\<forall>t i. ghas (gget [] (g_byType g) t) i \<longleftrightarrow> (\<exists>e. live g i = Some e \<and> ent_Type e = t)))"

definition wf_adj :: "Graph \<Rightarrow> bool" where
  "wf_adj g =
     ((\<forall>i r. map_of (g_relations g) i = Some r \<longrightarrow> rel_ID r = i) \<and>
      (\<forall>n i. ghas (gget [] (g_out g) n) i \<longleftrightarrow> (\<exists>r. map_of (g_relations g) i = Some r \<and> rel_From r = n)) \<and>
      (\<forall>n i. ghas (gget [] (g_in g) n) i \<longleftrightarrow> (\<exists>r. map_of (g_relations g) i = Some r \<and> rel_To r = n)))"

text \<open>Go maps have no duplicate keys.\<close>

definition wf_maps :: "Graph \<Rightarrow> bool" where
  "wf_maps g =
     (gdistinct (g_entities g) \<and> gdistinct (g_relations g) \<and> gdistinct (g_byHash g) \<and>
      gdistinct (g_byType g) \<and> (\<forall>t. gdistinct (gget [] (g_byType g) t)) \<and>
      (\<forall>n. gdistinct (gget [] (g_out g) n)) \<and> (\<forall>n. gdistinct (gget [] (g_in g) n)))"

text \<open>
  The events the change engine emits: an identity is immutable and owned by one id, a
  deletion or a heartbeat names an id that is not soft-deleted, and a relation id keeps
  its endpoints.
\<close>

definition admits_put :: "Graph \<Rightarrow> Entity \<Rightarrow> bool" where
  "admits_put g e =
     ((case map_of (g_entities g) (ent_ID e) of
         Some e0 \<Rightarrow> IdentityHash e0 = IdentityHash e | None \<Rightarrow> True) \<and>
      (case map_of (g_byHash g) (IdentityHash e) of Some i \<Rightarrow> i = ent_ID e | None \<Rightarrow> True))"

definition admits_relation :: "Graph \<Rightarrow> Relation \<Rightarrow> bool" where
  "admits_relation g r =
     (case map_of (g_relations g) (rel_ID r) of
        Some r0 \<Rightarrow> rel_From r0 = rel_From r \<and> rel_To r0 = rel_To r | None \<Rightarrow> True)"

definition admissible :: "Event \<Rightarrow> Graph \<Rightarrow> bool" where
  "admissible ev g =
     (case ev_Entity ev of
        Some ee \<Rightarrow>
          (case ee_ChangeType ee of
             EntityCreated \<Rightarrow> admits_put g (ee_Entity ee)
           | EntityAttributeUpdated \<Rightarrow> admits_put g (ee_Entity ee)
           | EntityStateChanged \<Rightarrow> admits_put g (ee_Entity ee)
           | EntityUnchanged \<Rightarrow>
               \<not> isDeleted g (ent_ID (ee_Entity ee)) \<and> admits_put g (ee_Entity ee)
           | EntityDeleted \<Rightarrow> \<not> isDeleted g (ent_ID (ee_Entity ee))
           | EntityIdentityChanged \<Rightarrow> False
           | _ \<Rightarrow> True)
      | None \<Rightarrow>
          (case ev_Relation ev of Some re \<Rightarrow> admits_relation g (re_Relation re) | None \<Rightarrow> True))"

definition graph_wf :: "Graph \<Rightarrow> bool" where
  "graph_wf g = (wf_tombs g \<and> wf_index g \<and> wf_adj g \<and> wf_maps g)"

section \<open>Tombstones\<close>

lemma isDeleted_iff: "wf_tombs g \<Longrightarrow> isDeleted g i \<longleftrightarrow> ghas (g_deleted g) i"
  by (auto simp: wf_tombs_def isDeleted_def gget_def ghas_def split: option.splits)

lemma wf_tombsI:
  assumes "gdistinct (g_deleted g)" and "\<And>i. ghas (g_deleted g) i \<Longrightarrow> isDeleted g i"
    and "g_liveTombstones g = int (length (g_deleted g))"
    and "\<And>i. ghas (g_deleted g) i \<Longrightarrow> i \<in> set (g_tombstones g)"
    and "\<And>i. ghas (g_tombDeadline g) i \<Longrightarrow> ghas (g_deleted g) i" and "0 < g_tombstoneCap g"
  shows "wf_tombs g"
  using assms by (simp add: wf_tombs_def)

lemma wf_tombsD:
  assumes "wf_tombs g"
  shows "gdistinct (g_deleted g)" and "ghas (g_deleted g) i \<Longrightarrow> isDeleted g i"
    and "g_liveTombstones g = int (length (g_deleted g))"
    and "ghas (g_deleted g) i \<Longrightarrow> i \<in> set (g_tombstones g)"
    and "ghas (g_tombDeadline g) i \<Longrightarrow> ghas (g_deleted g) i" and "0 < g_tombstoneCap g"
  using assms by (simp_all add: wf_tombs_def)

lemma wf_tombs_drop:
  assumes wf: "wf_tombs g" and del: "isDeleted g i"
    and q: "set (g_tombstones g) \<subseteq> insert i (set q)"
  shows "wf_tombs (dropTombstone i (g\<lparr>g_tombstones := q\<rparr>))"
proof (rule wf_tombsI)
  show "g_liveTombstones (dropTombstone i (g\<lparr>g_tombstones := q\<rparr>))
      = int (length (g_deleted (dropTombstone i (g\<lparr>g_tombstones := q\<rparr>))))"
    using wf del by (simp add: length_gdel_mem isDeleted_iff wf_tombsD(1,3))
qed (use wf q wf_tombsD [OF wf] in auto)

lemma wf_tombs_pop:
  assumes wf: "wf_tombs g" and q: "g_tombstones g = j # q" and "\<not> isDeleted g j"
  shows "wf_tombs (g\<lparr>g_tombstones := q\<rparr>)"
proof (rule wf_tombsI)
  show "i \<in> set (g_tombstones (g\<lparr>g_tombstones := q\<rparr>))" if "ghas (g_deleted (g\<lparr>g_tombstones := q\<rparr>)) i" for i
    using that wf_tombsD(2,4) [OF wf, of i] assms by auto
qed (use wf_tombsD [OF wf] in auto)

lemma wf_tombs_evict: "wf_tombs g \<Longrightarrow> wf_tombs (evictTombstones g)"
proof (erule evictTombstones_invariant [where P = wf_tombs])
  fix g :: Graph
  assume wf: "wf_tombs g" and "g_tombstones g \<noteq> []"
  then obtain j q where q: "g_tombstones g = j # q" by (cases "g_tombstones g") auto
  show "wf_tombs (g\<lparr>g_tombstones := tl (g_tombstones g)\<rparr>)" if "\<not> isDeleted g (hd (g_tombstones g))"
    using wf_tombs_pop [OF wf q] q that by simp
  show "wf_tombs (dropTombstone i (g\<lparr>g_tombstones := tl (g_tombstones g)\<rparr>))"
    if "i = hd (g_tombstones g)" and "isDeleted g i" for i
    using wf_tombs_drop [OF wf that(2), of q] q that by auto
qed

text \<open>After eviction the cap is met: an emptied queue leaves no tombstone to count.\<close>

lemma evictTombstones_cap:
  "wf_tombs g \<Longrightarrow> g_liveTombstones (evictTombstones g) \<le> g_tombstoneCap (evictTombstones g)"
proof (induction g rule: evictTombstones.induct)
  case (1 g)
  show ?case
  proof (cases "g_liveTombstones g > g_tombstoneCap g \<and> g_tombstones g \<noteq> []")
    case True
    then obtain j q where q: "g_tombstones g = j # q" by (cases "g_tombstones g") auto
    let ?g = "g\<lparr>g_tombstones := q\<rparr>"
    have step: "evictTombstones g = (if \<not> isDeleted g j then evictTombstones ?g
        else evictTombstones (dropTombstone j ?g))"
      by (subst evictTombstones.simps) (use True q in \<open>simp add: Let_def\<close>)
    show ?thesis
    proof (cases "isDeleted g j")
      case del: True
      have "wf_tombs (dropTombstone j ?g)"
        using wf_tombs_drop [OF "1.prems" del, of q] q by simp
      from "1.IH"(2) [OF True _ _ _ this] q del show ?thesis by (simp add: step)
    next
      case nd: False
      have "wf_tombs ?g" by (rule wf_tombs_pop [OF "1.prems" q nd])
      from "1.IH"(1) [OF True _ _ _ this] q nd show ?thesis by (simp add: step)
    qed
  next
    case False
    then have eq: "evictTombstones g = g"
      by (subst evictTombstones.simps) (simp only: if_False)
    have "g_tombstones g = [] \<Longrightarrow> g_deleted g = []"
      using wf_tombsD(4) [OF "1.prems", of "fst (hd (g_deleted g))"] by (cases "g_deleted g") (auto simp: ghas_def)
    with False eq wf_tombsD(3,6) [OF "1.prems"] show ?thesis by force
  qed
qed

lemma wf_tombs_markDeleted:
  assumes wf: "wf_tombs g" and "\<not> isDeleted g (ent_ID (ee_Entity ee))"
  shows "wf_tombs (markDeleted now ee g)"
proof (rule wf_tombsI)
  let ?i = "ent_ID (ee_Entity ee)"
  show "g_liveTombstones (markDeleted now ee g) = int (length (g_deleted (markDeleted now ee g)))"
    using assms wf_tombsD(3) [OF wf] by (simp add: isDeleted_iff length_gput)
  show "ghas (g_deleted (markDeleted now ee g)) i" if "ghas (g_tombDeadline (markDeleted now ee g)) i" for i
    using that wf_tombsD(5) [OF wf, of i] by (auto simp: markDeleted_def Let_def split: if_splits)
qed (use wf_tombsD [OF wf] in auto)

lemma wf_tombs_put:
  assumes wf: "wf_tombs g"
  shows "wf_tombs (putEntity e g)"
proof (rule wf_tombsI)
  show "g_liveTombstones (putEntity e g) = int (length (g_deleted (putEntity e g)))"
    using wf_tombsD(1,3) [OF wf] by (auto simp: isDeleted_iff [OF wf] length_gdel_mem gdel_absent)
  show "ghas (g_deleted (putEntity e g)) i" if "ghas (g_tombDeadline (putEntity e g)) i" for i
    using that wf_tombsD(2,5) [OF wf, of i] by (auto split: if_splits)
qed (use wf_tombsD [OF wf] in auto)

lemma wf_tombs_cong:
  "wf_tombs g \<Longrightarrow> g_deleted g' = g_deleted g \<Longrightarrow> g_liveTombstones g' = g_liveTombstones g
     \<Longrightarrow> g_tombstones g' = g_tombstones g \<Longrightarrow> g_tombDeadline g' = g_tombDeadline g
     \<Longrightarrow> g_tombstoneCap g' = g_tombstoneCap g \<Longrightarrow> wf_tombs g'"
  by (simp add: wf_tombs_def isDeleted_def)

lemma wf_tombs_applyEntity: "wf_tombs g \<Longrightarrow> wf_tombs (applyEntity now ee g)"
proof (cases "ee_ChangeType ee")
  case EntityDeleted
  assume wf: "wf_tombs g"
  let ?g = "deleteEntry (ent_ID (ee_Entity ee)) g"
  have wf': "wf_tombs ?g" by (rule wf_tombs_cong [OF wf]) simp_all
  with EntityDeleted show ?thesis
    by (simp add: applyEntity_def Let_def wf_tombs_evict wf_tombs_markDeleted)
qed (auto simp: applyEntity_def Let_def intro!: wf_tombs_put elim!: wf_tombs_cong split: option.splits)

lemma wf_tombs_applyRelation: "wf_tombs g \<Longrightarrow> wf_tombs (applyRelation re g)"
  by (cases "re_ChangeType re") (auto simp: applyRelation_def Let_def elim!: wf_tombs_cong)

lemma wf_tombs_Apply: "wf_tombs g \<Longrightarrow> wf_tombs (Apply now ev g)"
  by (simp add: Apply_def wf_tombs_applyEntity wf_tombs_applyRelation split: option.splits)

text \<open>Compaction keeps the soft-deleted ids, each once, in queue order.\<close>

lemma compact_fold:
  "foldl (\<lambda>(kept, seen) i. if \<not> P i then (kept, seen) else if ghas seen i then (kept, seen)
       else (kept @ [i], gadd i seen)) (kept, seen) q = (kept', seen') \<Longrightarrow>
   distinct kept \<Longrightarrow> (\<And>i. ghas seen i \<longleftrightarrow> i \<in> set kept) \<Longrightarrow>
   distinct kept' \<and> set kept' = set kept \<union> {i \<in> set q. P i}"
proof (induction q arbitrary: kept seen)
  case (Cons j q)
  show ?case
  proof (cases "P j \<and> \<not> ghas seen j")
    case True
    with Cons.prems have "foldl (\<lambda>(kept, seen) i. if \<not> P i then (kept, seen) else if ghas seen i then (kept, seen)
       else (kept @ [i], gadd i seen)) (kept @ [j], gadd j seen) q = (kept', seen')" by simp
    from Cons.IH [OF this] True Cons.prems show ?thesis by auto
  next
    case False
    with Cons.prems have "foldl (\<lambda>(kept, seen) i. if \<not> P i then (kept, seen) else if ghas seen i then (kept, seen)
       else (kept @ [i], gadd i seen)) (kept, seen) q = (kept', seen')" by (auto split: if_splits)
    from Cons.IH [OF this] False Cons.prems show ?thesis by auto
  qed
qed auto

lemma compactTombstones_queue:
  "distinct (g_tombstones (compactTombstones g))"
  "set (g_tombstones (compactTombstones g)) = {i \<in> set (g_tombstones g). isDeleted g i}"
proof -
  obtain kept seen where eq: "foldl (\<lambda>(kept, seen) i. if \<not> isDeleted g i then (kept, seen)
      else if ghas seen i then (kept, seen) else (kept @ [i], gadd i seen)) ([], []) (g_tombstones g)
      = (kept, seen)" by fastforce
  from compact_fold [OF eq] eq
  show "distinct (g_tombstones (compactTombstones g))"
    and "set (g_tombstones (compactTombstones g)) = {i \<in> set (g_tombstones g). isDeleted g i}"
    by (simp_all add: compactTombstones_def)
qed

lemma wf_tombs_compact:
  assumes wf: "wf_tombs g"
  shows "wf_tombs (compactTombstones g)"
  by (rule wf_tombsI) (use wf_tombsD [OF wf] in \<open>auto simp: compactTombstones_queue\<close>)

lemma wf_tombs_Prune: "wf_tombs g \<Longrightarrow> wf_tombs (fst (PruneTombstones now g))"
proof (erule PruneTombstones_invariant [where P = wf_tombs])
  fix g i
  show "wf_tombs (dropTombstone i g)" if "wf_tombs g" "isDeleted g i"
    using wf_tombs_drop [OF that, of "g_tombstones g"] by auto
  show "wf_tombs (g\<lparr>g_tombDeadline := gdel i (g_tombDeadline g)\<rparr>)" if "wf_tombs g"
    using that by (auto simp: wf_tombs_def)
qed (auto intro: wf_tombs_compact)

section \<open>Indexes\<close>

lemma live_putEntity [simp]: "live (putEntity e g) i = (if i = ent_ID e then Some e else live g i)"
  by (simp add: live_def)

lemma live_dropTombstone [simp]: "isDeleted g i \<Longrightarrow> live (dropTombstone i g) = live g"
  by (auto simp: live_def fun_eq_iff)

lemma live_cong:
  "g_entities g' = g_entities g \<Longrightarrow> g_deleted g' = g_deleted g \<Longrightarrow> live g' = live g"
  by (simp add: live_def isDeleted_def fun_eq_iff)

lemma wf_indexD:
  assumes "wf_index g"
  shows "map_of (g_entities g) i = Some e \<Longrightarrow> ent_ID e = i"
    and "map_of (g_byHash g) h = Some i \<longleftrightarrow> (\<exists>e. live g i = Some e \<and> IdentityHash e = h)"
    and "map_of (g_tombByHash g) h = Some i \<Longrightarrow>
       isDeleted g i \<and> (\<exists>e. map_of (g_entities g) i = Some e \<and> IdentityHash e = h)"
    and "ghas (gget [] (g_byType g) t) i \<longleftrightarrow> (\<exists>e. live g i = Some e \<and> ent_Type e = t)"
  using assms by (simp_all add: wf_index_def)

lemma wf_indexI:
  assumes "\<And>i e. map_of (g_entities g) i = Some e \<Longrightarrow> ent_ID e = i"
    and "\<And>h i. map_of (g_byHash g) h = Some i \<longleftrightarrow> (\<exists>e. live g i = Some e \<and> IdentityHash e = h)"
    and "\<And>h i. map_of (g_tombByHash g) h = Some i \<Longrightarrow>
       isDeleted g i \<and> (\<exists>e. map_of (g_entities g) i = Some e \<and> IdentityHash e = h)"
    and "\<And>t i. ghas (gget [] (g_byType g) t) i \<longleftrightarrow> (\<exists>e. live g i = Some e \<and> ent_Type e = t)"
  shows "wf_index g"
  using assms by (simp add: wf_index_def)

lemma wf_index_cong:
  "wf_index g \<Longrightarrow> g_entities g' = g_entities g \<Longrightarrow> g_deleted g' = g_deleted g
     \<Longrightarrow> g_byHash g' = g_byHash g \<Longrightarrow> g_tombByHash g' = g_tombByHash g \<Longrightarrow> g_byType g' = g_byType g
     \<Longrightarrow> wf_index g'"
  using live_cong [of g' g] by (simp add: wf_index_def isDeleted_def)

lemma live_entities: "live g i = Some e \<Longrightarrow> map_of (g_entities g) i = Some e \<and> \<not> isDeleted g i"
  by (auto simp: live_def split: if_splits)

lemma live_iff: "live g i = Some e \<longleftrightarrow> map_of (g_entities g) i = Some e \<and> \<not> isDeleted g i"
  by (auto simp: live_def)

lemma wf_index_put:
  assumes wf: "wf_index g" and ok: "admits_put g e"
  shows "wf_index (putEntity e g)"
proof (rule wf_indexI)
  note D = wf_indexD [OF wf]
  have same: "IdentityHash e0 = IdentityHash e" if "live g (ent_ID e) = Some e0" for e0
    using ok that by (auto simp: admits_put_def dest!: live_entities)
  have owner: "i = ent_ID e" if "map_of (g_byHash g) (IdentityHash e) = Some i" for i
    using ok that by (simp add: admits_put_def)
  show "ent_ID e' = i" if "map_of (g_entities (putEntity e g)) i = Some e'" for i e'
    using that D(1) by (auto split: if_splits)
  show "map_of (g_byHash (putEntity e g)) h = Some i \<longleftrightarrow>
      (\<exists>e'. live (putEntity e g) i = Some e' \<and> IdentityHash e' = h)" for h i
  proof (cases "h = IdentityHash e")
    case True
    with D(2) [of h i] owner [of i] show ?thesis by (cases "i = ent_ID e") auto
  next
    case False
    with D(2) [of h i] same show ?thesis by (cases "i = ent_ID e") auto
  qed
  show "isDeleted (putEntity e g) i \<and>
      (\<exists>e'. map_of (g_entities (putEntity e g)) i = Some e' \<and> IdentityHash e' = h)"
    if "map_of (g_tombByHash (putEntity e g)) h = Some i" for h i
  proof -
    from that have h: "h \<noteq> IdentityHash e" and old: "map_of (g_tombByHash g) h = Some i"
      by (auto split: if_splits)
    from D(3) [OF old] obtain e' where e': "isDeleted g i" "map_of (g_entities g) i = Some e'" "IdentityHash e' = h"
      by blast
    with ok h have "i \<noteq> ent_ID e" by (auto simp: admits_put_def)
    with e' show ?thesis by simp
  qed
  show "ghas (gget [] (g_byType (putEntity e g)) t) i \<longleftrightarrow>
      (\<exists>e'. live (putEntity e g) i = Some e' \<and> ent_Type e' = t)" for t i
    using D(4) [of t i] same by (auto dest: IdentityHash_type)
qed

lemma wf_index_drop:
  assumes wf: "wf_index g" and del: "isDeleted g i"
  shows "wf_index (dropTombstone i g)"
proof (rule wf_indexI)
  note D = wf_indexD [OF wf]
  show "isDeleted (dropTombstone i g) j \<and>
      (\<exists>e. map_of (g_entities (dropTombstone i g)) j = Some e \<and> IdentityHash e = h)"
    if "map_of (g_tombByHash (dropTombstone i g)) h = Some j" for h j
  proof -
    have old: "map_of (g_tombByHash g) h = Some j"
      using that by (auto simp: tombOwner_def split: option.splits if_splits)
    from D(3) [OF old] obtain e where e: "isDeleted g j" "map_of (g_entities g) j = Some e" "IdentityHash e = h"
      by blast
    have "j \<noteq> i"
    proof
      assume "j = i"
      with old e have "gget [] (g_tombByHash g) (IdentityHash e) = i" by (simp add: gget_def)
      with that e \<open>j = i\<close> show False by (simp add: tombOwner_def)
    qed
    with e show ?thesis by simp
  qed
qed (use del wf_indexD [OF wf] in \<open>auto split: if_splits\<close>)

lemma wf_index_evict: "wf_index g \<Longrightarrow> wf_index (evictTombstones g)"
proof (erule evictTombstones_invariant [where P = wf_index])
  fix g :: Graph
  assume wf: "wf_index g"
  show pop: "wf_index (g\<lparr>g_tombstones := tl (g_tombstones g)\<rparr>)"
    by (rule wf_index_cong [OF wf]) simp_all
  show "wf_index (dropTombstone i (g\<lparr>g_tombstones := tl (g_tombstones g)\<rparr>))" if "isDeleted g i" for i
    using wf_index_drop [OF pop, of i] that by simp
qed

lemma wf_index_delete:
  assumes wf: "wf_index g" and fresh: "\<not> isDeleted g (ent_ID (ee_Entity ee))"
  shows "wf_index (markDeleted now ee (deleteEntry (ent_ID (ee_Entity ee)) g))"
proof -
  let ?i = "ent_ID (ee_Entity ee)"
  let ?g = "markDeleted now ee (deleteEntry ?i g)"
  note D = wf_indexD [OF wf]
  have lv: "live ?g j = (if j = ?i then None else live g j)" for j
    by (simp add: live_def)
  show ?thesis
  proof (cases "map_of (g_entities g) ?i")
    case None
    then have same: "g_byHash ?g = g_byHash g" "g_tombByHash ?g = g_tombByHash g" "g_byType ?g = g_byType g"
      by (simp_all add: deleteEntry_def)
    have dead: "live g ?i = None" using None by (simp add: live_def)
    show ?thesis
      by (rule wf_indexI) (use D None dead same in \<open>auto simp: lv split: if_splits\<close>)
  next
    case (Some e)
    let ?h = "IdentityHash e"
    have eq: "g_byHash ?g = gdel ?h (g_byHash g)" "g_tombByHash ?g = gput ?h ?i (g_tombByHash g)"
      using Some by (simp_all add: deleteEntry_def Let_def)
    have le: "live g ?i = Some e" using Some fresh by (simp add: live_def)
    have bt: "ghas (gget [] (g_byType ?g) t) j \<longleftrightarrow> (ghas (gget [] (g_byType g) t) j \<and> (t = ent_Type e \<longrightarrow> j \<noteq> ?i))"
      for t j
      using Some by (auto simp: deleteEntry_def Let_def gget_def split: option.splits if_splits)
    show ?thesis
    proof (rule wf_indexI)
      show "map_of (g_byHash ?g) h = Some j \<longleftrightarrow> (\<exists>e. live ?g j = Some e \<and> IdentityHash e = h)" for h j
      proof (cases "h = ?h")
        case True
        with D(2) [of h ?i] le have "map_of (g_byHash g) h = Some ?i" by simp
        with D(2) [of h j] True show ?thesis by (cases "j = ?i") (auto simp: eq [simplified] lv)
      next
        case False
        with D(2) [of h j] le show ?thesis by (cases "j = ?i") (auto simp: eq [simplified] lv)
      qed
      show "isDeleted ?g j \<and> (\<exists>e. map_of (g_entities ?g) j = Some e \<and> IdentityHash e = h)"
        if "map_of (g_tombByHash ?g) h = Some j" for h j
        using that D(3) [of h j] Some by (auto simp: eq [simplified] split: if_splits)
      show "ghas (gget [] (g_byType ?g) t) j \<longleftrightarrow> (\<exists>e. live ?g j = Some e \<and> ent_Type e = t)" for t j
        using D(4) [of t j] le by (auto simp: bt [simplified] lv)
    qed (use D(1) in simp)
  qed
qed

lemma wf_index_Apply:
  assumes wf: "wf_index g" and ok: "admissible ev g"
  shows "wf_index (Apply now ev g)"
proof (cases "ev_Entity ev")
  case None
  have "wf_index (applyRelation re g)" for re
    by (cases "re_ChangeType re") (auto simp: applyRelation_def Let_def intro!: wf_index_cong [OF wf])
  with None wf show ?thesis by (simp add: Apply_def split: option.splits)
next
  case (Some ee)
  show ?thesis
  proof (cases "ee_ChangeType ee = EntityDeleted")
    case True
    with Some ok have "\<not> isDeleted g (ent_ID (ee_Entity ee))" by (simp add: admissible_def)
    with wf_index_delete [OF wf this] Some True show ?thesis
      by (simp add: Apply_def applyEntity_def Let_def wf_index_evict)
  next
    case False
    with Some ok wf show ?thesis
      by (cases "ee_ChangeType ee")
        (auto simp: Apply_def applyEntity_def admissible_def Let_def wf_index_put)
  qed
qed

lemma wf_index_Prune: "wf_index g \<Longrightarrow> wf_index (fst (PruneTombstones now g))"
proof (erule PruneTombstones_invariant [where P = wf_index])
  fix g i
  assume wf: "wf_index g"
  show "wf_index (g\<lparr>g_tombDeadline := gdel i (g_tombDeadline g)\<rparr>)"
    and "wf_index (compactTombstones g)"
    by (rule wf_index_cong [OF wf]; simp)+
qed (simp add: wf_index_drop)

section \<open>Adjacency\<close>

lemma wf_adjD:
  assumes "wf_adj g"
  shows "map_of (g_relations g) i = Some r \<Longrightarrow> rel_ID r = i"
    and "ghas (gget [] (g_out g) n) i \<longleftrightarrow> (\<exists>r. map_of (g_relations g) i = Some r \<and> rel_From r = n)"
    and "ghas (gget [] (g_in g) n) i \<longleftrightarrow> (\<exists>r. map_of (g_relations g) i = Some r \<and> rel_To r = n)"
  using assms by (simp_all add: wf_adj_def)

lemma wf_adj_cong:
  "wf_adj g \<Longrightarrow> g_relations g' = g_relations g \<Longrightarrow> g_out g' = g_out g \<Longrightarrow> g_in g' = g_in g \<Longrightarrow> wf_adj g'"
  by (simp add: wf_adj_def)

lemma wf_adj_add:
  assumes wf: "wf_adj g" and ok: "admits_relation g r"
  shows "wf_adj (addAdjacency r (g\<lparr>g_relations := gput (rel_ID r) r (g_relations g)\<rparr>))"
proof -
  note D = wf_adjD [OF wf]
  have same: "rel_From r0 = rel_From r \<and> rel_To r0 = rel_To r"
    if "map_of (g_relations g) (rel_ID r) = Some r0" for r0
    using ok that by (simp add: admits_relation_def)
  show ?thesis
    using D same by (auto simp: wf_adj_def addAdjacency_def)
qed

lemma wf_adj_remove:
  assumes wf: "wf_adj g" and ok: "admits_relation g r"
  shows "wf_adj (g\<lparr>g_relations := gdel (rel_ID r) (g_relations g),
     g_out := (case map_of (g_out g) (rel_From r) of
         Some s \<Rightarrow> gput (rel_From r) (gdel (rel_ID r) s) (g_out g) | None \<Rightarrow> g_out g),
     g_in := (case map_of (g_in g) (rel_To r) of
         Some s \<Rightarrow> gput (rel_To r) (gdel (rel_ID r) s) (g_in g) | None \<Rightarrow> g_in g)\<rparr>)" (is "wf_adj ?g")
proof -
  note D = wf_adjD [OF wf]
  have same: "rel_From r0 = rel_From r \<and> rel_To r0 = rel_To r"
    if "map_of (g_relations g) (rel_ID r) = Some r0" for r0
    using ok that by (simp add: admits_relation_def)
  have out: "ghas (gget [] (g_out ?g) n) i \<longleftrightarrow> ghas (gget [] (g_out g) n) i \<and> (n = rel_From r \<longrightarrow> i \<noteq> rel_ID r)"
    and inn: "ghas (gget [] (g_in ?g) n) i \<longleftrightarrow> ghas (gget [] (g_in g) n) i \<and> (n = rel_To r \<longrightarrow> i \<noteq> rel_ID r)" for n i
    by (auto simp: gget_def split: option.splits)
  show ?thesis
    unfolding wf_adj_def out inn using D same by auto
qed

lemma wf_adj_applyEntity: "wf_adj g \<Longrightarrow> wf_adj (applyEntity now ee g)"
proof -
  assume wf: "wf_adj g"
  have ev: "wf_adj (evictTombstones g')" if "wf_adj g'" for g'
    using that
    by (elim evictTombstones_invariant [where P = wf_adj]) (auto elim!: wf_adj_cong)
  show ?thesis
    by (cases "ee_ChangeType ee")
      (auto simp: applyEntity_def Let_def intro!: ev intro: wf_adj_cong [OF wf] split: option.splits)
qed

lemma wf_adj_applyRelation:
  "wf_adj g \<Longrightarrow> admits_relation g (re_Relation re) \<Longrightarrow> wf_adj (applyRelation re g)"
  by (cases "re_ChangeType re") (simp_all add: applyRelation_def Let_def wf_adj_add wf_adj_remove)

lemma wf_adj_Apply: "wf_adj g \<Longrightarrow> admissible ev g \<Longrightarrow> wf_adj (Apply now ev g)"
  by (auto simp: Apply_def admissible_def wf_adj_applyEntity wf_adj_applyRelation split: option.splits)

lemma wf_adj_Prune: "wf_adj g \<Longrightarrow> wf_adj (fst (PruneTombstones now g))"
  by (erule PruneTombstones_invariant [where P = wf_adj]) (auto elim!: wf_adj_cong)

section \<open>Map keys\<close>

lemma wf_maps_cong:
  "wf_maps g \<Longrightarrow> g_relations g' = g_relations g \<Longrightarrow> g_out g' = g_out g \<Longrightarrow> g_in g' = g_in g
     \<Longrightarrow> g_entities g' = g_entities g \<Longrightarrow> g_byHash g' = g_byHash g \<Longrightarrow> g_byType g' = g_byType g
     \<Longrightarrow> wf_maps g'"
  by (simp add: wf_maps_def)

lemma wf_maps_put: "wf_maps g \<Longrightarrow> wf_maps (putEntity e g)"
  by (auto simp: wf_maps_def)

lemma wf_maps_drop: "wf_maps g \<Longrightarrow> wf_maps (dropTombstone i g)"
  by (auto simp: wf_maps_def)

lemma wf_maps_evict: "wf_maps g \<Longrightarrow> wf_maps (evictTombstones g)"
  by (elim evictTombstones_invariant [where P = wf_maps]) (auto elim!: wf_maps_cong intro!: wf_maps_drop)

lemma gdistinct_gget_gput_opt:
  "\<forall>n. gdistinct (gget [] m n) \<Longrightarrow>
   gdistinct (gget [] (case map_of m k of Some s \<Rightarrow> gput k (gdel x s) m | None \<Rightarrow> m) n)"
proof -
  assume d: "\<forall>n. gdistinct (gget [] m n)"
  show ?thesis
  proof (cases "map_of m k")
    case (Some s)
    with d [rule_format, of k] have "gdistinct s" by (simp add: gget_def)
    with Some d show ?thesis by simp
  qed (use d in simp)
qed

lemma wf_maps_deleteEntry:
  assumes "wf_maps g"
  shows "wf_maps (deleteEntry i g)"
proof (cases "map_of (g_entities g) i")
  case (Some e)
  have "gdistinct (g_byType (deleteEntry i g))" and "gdistinct (g_byHash (deleteEntry i g))"
    using assms Some by (auto simp: deleteEntry_def Let_def wf_maps_def split: option.splits)
  moreover have "gdistinct (gget [] (g_byType (deleteEntry i g)) t)" for t
    using assms Some gdistinct_gget_gput_opt [of "g_byType g"]
    by (simp add: deleteEntry_def Let_def wf_maps_def)
  ultimately show ?thesis using assms by (simp add: wf_maps_def)
qed (use assms in \<open>simp add: deleteEntry_def\<close>)

lemma wf_maps_applyEntity: "wf_maps g \<Longrightarrow> wf_maps (applyEntity now ee g)"
proof -
  assume wf: "wf_maps g"
  have mark: "wf_maps (markDeleted now ee (deleteEntry i g))" for i
    by (rule wf_maps_cong [OF wf_maps_deleteEntry [OF wf, of i]]) simp_all
  have hash: "wf_maps (g\<lparr>g_byHash := gdel h (g_byHash g)\<rparr>)" for h
    using wf by (simp add: wf_maps_def)
  show ?thesis
    by (cases "ee_ChangeType ee")
      (auto simp: applyEntity_def Let_def wf mark hash wf_maps_put wf_maps_evict wf_maps_deleteEntry
        split: option.splits)
qed

lemma wf_maps_applyRelation: "wf_maps g \<Longrightarrow> wf_maps (applyRelation re g)"
  using gdistinct_gget_gput_opt [of "g_out g"] gdistinct_gget_gput_opt [of "g_in g"]
  by (cases "re_ChangeType re") (auto simp: applyRelation_def addAdjacency_def Let_def wf_maps_def)

lemma wf_maps_Apply: "wf_maps g \<Longrightarrow> wf_maps (Apply now ev g)"
  by (simp add: Apply_def wf_maps_applyEntity wf_maps_applyRelation split: option.splits)

lemma wf_maps_Prune: "wf_maps g \<Longrightarrow> wf_maps (fst (PruneTombstones now g))"
  by (erule PruneTombstones_invariant [where P = wf_maps]) (auto elim!: wf_maps_cong intro!: wf_maps_drop)

section \<open>The invariant\<close>

lemma graph_wf_New: "graph_wf (NewWithTombstoneCap n)"
  by (auto simp: graph_wf_def wf_tombs_def wf_index_def wf_adj_def wf_maps_def NewWithTombstoneCap_def
      live_def defaultTombstoneCap_def)

lemma graph_wf_Apply: "graph_wf g \<Longrightarrow> admissible ev g \<Longrightarrow> graph_wf (Apply now ev g)"
  by (simp add: graph_wf_def wf_tombs_Apply wf_index_Apply wf_adj_Apply wf_maps_Apply)

lemma graph_wf_Prune: "graph_wf g \<Longrightarrow> graph_wf (fst (PruneTombstones now g))"
  by (simp add: graph_wf_def wf_tombs_Prune wf_index_Prune wf_adj_Prune wf_maps_Prune)

lemma admissible_not_dead: "admissible ev g \<Longrightarrow> \<not> heartbeat_of_dead ev g"
  by (auto simp: admissible_def heartbeat_of_dead_def split: option.splits)

end
