(* ===== verification/Projection_Reads.thy ===== *)
theory Projection_Reads
  imports Projection_Inv
begin

text \<open>
  What the read methods of \<open>internal/projection/graph.go\<close> answer, in terms of the live
  topology: identity matching, the incident relations, the neighbourhood within a number
  of hops, the lists and counts, cursor paging by fingerprint, handle resolution and the
  snapshot.
\<close>

section \<open>Definitions\<close>

text \<open>One hop along a relation in either direction, filtered by relation type.\<close>

definition hop :: "Graph \<Rightarrow> string \<Rightarrow> (EntityID \<times> EntityID) set" where
  "hop g relType =
     {(a, b). \<exists>i r. map_of (g_relations g) i = Some r \<and> (relType = [] \<or> rel_Type r = relType) \<and>
        ((rel_From r = a \<and> rel_To r = b) \<or> (rel_To r = a \<and> rel_From r = b))}"

definition reach_within :: "(EntityID \<times> EntityID) set \<Rightarrow> nat \<Rightarrow> EntityID set \<Rightarrow> EntityID set" where
  "reach_within E d S = {y. \<exists>n \<le> d. \<exists>x \<in> S. (x, y) \<in> E ^^ n}"

text \<open>The neighbours of a node in the order the two adjacency sets list them.\<close>

definition nbrs :: "Graph \<Rightarrow> string \<Rightarrow> EntityID \<Rightarrow> EntityID list" where
  "nbrs g relType cur =
     (let rel = (\<lambda>rid. gget zeroRelation (g_relations g) rid);
          ok = (\<lambda>rid. relType = [] \<or> rel_Type (rel rid) = relType)
      in map (\<lambda>rid. rel_To (rel rid)) (filter ok (gkeys (gget [] (g_out g) cur)))
         @ map (\<lambda>rid. rel_From (rel rid)) (filter ok (gkeys (gget [] (g_in g) cur))))"

text \<open>A client that follows the cursor of \<open>PageEntitiesByFingerprint\<close> to the last page.\<close>

fun all_pages :: "nat \<Rightarrow> Graph \<Rightarrow> string \<Rightarrow> string \<Rightarrow> int \<Rightarrow> Entity list option" where
  "all_pages 0 g typ after limit = None"
| "all_pages (Suc fuel) g typ after limit =
     (case PageEntitiesByFingerprint g typ after limit of
        None \<Rightarrow> None
      | Some (page, nxt, _) \<Rightarrow>
          if nxt = [] then Some page
          else map_option ((@) page) (all_pages fuel g typ nxt limit))"

text \<open>The keys after a cursor, in fingerprint order.\<close>

definition pageKeys :: "Graph \<Rightarrow> string \<Rightarrow> string \<Rightarrow> (string \<times> EntityID) list" where
  "pageKeys g typ after =
     filter (\<lambda>x. \<not> (after \<noteq> [] \<and> fst x \<le> after)) (sort_key fst (fingerprintKeys g typ))"

section \<open>Identity\<close>

lemma MatchIdentity_iff:
  assumes "wf_index g"
  shows "MatchIdentity g typ identity = Some i \<longleftrightarrow>
    (\<exists>e. live g i = Some e \<and> IdentityHash e = identityHashOf typ identity)"
proof -
  note D = wf_indexD [OF assms]
  have "map_of (g_byHash g) h = Some j \<Longrightarrow> \<not> isDeleted g j" for h j
    using D(2) by (auto simp: live_iff)
  with D(2) [of "identityHashOf typ identity" i] show ?thesis
    by (auto simp: MatchIdentity_def split: option.splits)
qed

lemma MatchIdentity_None:
  assumes "wf_index g"
  shows "MatchIdentity g typ identity = None \<longleftrightarrow>
    (\<forall>i e. live g i = Some e \<longrightarrow> IdentityHash e \<noteq> identityHashOf typ identity)"
  using MatchIdentity_iff [OF assms, of "typ" identity] by (metis option.exhaust option.distinct(1))

lemma MatchIdentity_type:
  assumes "wf_index g" and "MatchIdentity g typ identity = Some i"
  shows "\<exists>e. live g i = Some e \<and> ent_Type e = typ"
  using assms by (auto simp: MatchIdentity_iff IdentityHash_def dest: identityHashOf_type)

lemma live_unique:
  assumes "wf_index g" and "live g i = Some e" and "live g j = Some e'" and "IdentityHash e = IdentityHash e'"
  shows "i = j"
  using wf_indexD(2) [OF assms(1)] assms by (metis option.inject)

lemma MatchTombstone_sound:
  assumes "wf_index g" and "MatchTombstone now g typ identity = Some i"
  shows "isDeleted g i" and "\<exists>e. map_of (g_entities g) i = Some e \<and> IdentityHash e = identityHashOf typ identity"
  using assms wf_indexD(3) [OF assms(1)]
  by (auto simp: MatchTombstone_def split: option.splits if_splits)

section \<open>Neighbourhoods\<close>

lemma nbrs_set: "wf_adj g \<Longrightarrow> set (nbrs g relType cur) = {y. (cur, y) \<in> hop g relType}"
proof -
  assume wf: "wf_adj g"
  note D = wf_adjD [OF wf]
  have rel: "map_of (g_relations g) i = Some r \<Longrightarrow> gget zeroRelation (g_relations g) i = r" for i r
    by (simp add: gget_def)
  have o: "i \<in> set (gkeys (gget [] (g_out g) cur)) \<longleftrightarrow> (\<exists>r. map_of (g_relations g) i = Some r \<and> rel_From r = cur)"
    and n: "i \<in> set (gkeys (gget [] (g_in g) cur)) \<longleftrightarrow> (\<exists>r. map_of (g_relations g) i = Some r \<and> rel_To r = cur)"
    for i using D(2,3) by (auto simp: gkeys_def ghas_iff)
  show ?thesis
    unfolding nbrs_def hop_def Let_def by (auto simp: o n rel image_iff) (metis rel)+
qed

lemma visitNeighbor_filter:
  "visitNeighbor g relType nb ty s = (if relType = [] \<or> ty = relType then visitNeighbor g [] nb [] s else s)"
  by (auto simp: visitNeighbor_def split: prod.splits)

lemma foldl_visit_filter:
  "foldl (\<lambda>s (rid, u). visitNeighbor g relType (f rid) (ty rid) s) s (kvs :: RelationID goset)
     = foldl (\<lambda>s nb. visitNeighbor g [] nb [] s) s
         (map f (filter (\<lambda>rid. relType = [] \<or> ty rid = relType) (gkeys kvs)))"
proof (induction kvs arbitrary: s)
  case (Cons p kvs)
  then show ?case
    by (cases p) (simp add: gkeys_def visitNeighbor_filter [of g relType])
qed (simp add: gkeys_def)

lemma expandNode_eq:
  "expandNode g relType s cur = foldl (\<lambda>s nb. visitNeighbor g [] nb [] s) s (nbrs g relType cur)"
  by (simp add: expandNode_def nbrs_def Let_def foldl_visit_filter)

lemma level_eq:
  "foldl (expandNode g relType) s frontier
     = foldl (\<lambda>s nb. visitNeighbor g [] nb [] s) s (concat (map (nbrs g relType) frontier))"
  by (induction frontier arbitrary: s) (simp_all add: expandNode_eq)

lemma visit_new:
  "visitNeighbor g [] nb [] (vis, nxt, res)
     = (if ghas vis nb then (vis, nxt, res)
        else (gadd nb vis, nxt @ [nb], res @ List.map_filter (live g) [nb]))"
  by (auto simp: visitNeighbor_def live_def List.map_filter_def split: option.splits)

lemma map_filter_Nil [simp]: "List.map_filter f [] = []"
  by (simp add: List.map_filter_def)

lemma map_filter_append: "List.map_filter f (xs @ ys) = List.map_filter f xs @ List.map_filter f ys"
  by (simp add: List.map_filter_def)

lemma visit_fold:
  "\<exists>vis' new. foldl (\<lambda>s nb. visitNeighbor g [] nb [] s) (vis, nxt, res) nbs
      = (vis', nxt @ new, res @ List.map_filter (live g) new)
    \<and> (\<forall>x. ghas vis' x \<longleftrightarrow> ghas vis x \<or> x \<in> set nbs) \<and> distinct new
    \<and> set new = {x \<in> set nbs. \<not> ghas vis x}"
proof (induction nbs arbitrary: vis nxt res)
  case Nil
  show ?case by (intro exI [of _ vis] exI [of _ "[]"]) (simp add: List.map_filter_def)
next
  case (Cons nb nbs)
  show ?case
  proof (cases "ghas vis nb")
    case True
    with Cons.IH [of vis nxt res] show ?thesis by (fastforce simp: visit_new)
  next
    case False
    from Cons.IH [of "gadd nb vis" "nxt @ [nb]" "res @ List.map_filter (live g) [nb]"]
    obtain vis' new where
      eq: "foldl (\<lambda>s nb. visitNeighbor g [] nb [] s) (gadd nb vis, nxt @ [nb], res @ List.map_filter (live g) [nb]) nbs
        = (vis', (nxt @ [nb]) @ new, (res @ List.map_filter (live g) [nb]) @ List.map_filter (live g) new)"
      and vis': "\<forall>x. ghas vis' x \<longleftrightarrow> ghas (gadd nb vis) x \<or> x \<in> set nbs"
      and new: "distinct new" "set new = {x \<in> set nbs. \<not> ghas (gadd nb vis) x}"
      by blast
    have mf: "List.map_filter (live g) (nb # new) = List.map_filter (live g) [nb] @ List.map_filter (live g) new"
      using map_filter_append [of "live g" "[nb]" new] by simp
    show ?thesis
      by (intro exI [of _ vis'] exI [of _ "nb # new"])
        (use False eq vis' new in \<open>auto simp: visit_new mf split: option.splits\<close>)
  qed
qed

lemma relpow_leaves:
  assumes "(x, y) \<in> E ^^ n" and "x \<in> V" and "y \<notin> V"
  shows "\<exists>z m. m < n \<and> z \<notin> V \<and> (\<exists>x \<in> V. (x, z) \<in> E) \<and> (z, y) \<in> E ^^ m"
  using assms
proof (induction n arbitrary: x)
  case (Suc n)
  from Suc.prems(1) obtain z where z: "(x, z) \<in> E" "(z, y) \<in> E ^^ n" by (rule relpow_Suc_E2)
  show ?case
  proof (cases "z \<in> V")
    case True
    from Suc.IH [OF z(2) True Suc.prems(3)] show ?thesis by (metis less_Suc_eq)
  next
    case False
    with z Suc.prems(2) show ?thesis by blast
  qed
qed auto

lemma within_step:
  assumes front: "F \<subseteq> V" and closed: "\<And>x y. x \<in> V - F \<Longrightarrow> (x, y) \<in> E \<Longrightarrow> y \<in> V"
    and new: "N = {y. y \<notin> V \<and> (\<exists>x \<in> F. (x, y) \<in> E)}"
  shows "reach_within E (Suc d) F - V = N \<union> (reach_within E d N - (V \<union> N))"
proof
  show "reach_within E (Suc d) F - V \<subseteq> N \<union> (reach_within E d N - (V \<union> N))"
  proof
    fix y assume "y \<in> reach_within E (Suc d) F - V"
    then obtain n x where n: "n \<le> Suc d" "x \<in> F" "(x, y) \<in> E ^^ n" and y: "y \<notin> V"
      by (auto simp: reach_within_def)
    from relpow_leaves [OF n(3), of V] n(2) front y obtain z m x'
      where z: "m < n" "z \<notin> V" "x' \<in> V" "(x', z) \<in> E" "(z, y) \<in> E ^^ m" by blast
    with closed have "x' \<in> F" by blast
    with z new have "z \<in> N" by blast
    moreover have "m \<le> d" using z(1) n(1) by simp
    ultimately have "y \<in> reach_within E d N" using z(5) unfolding reach_within_def by blast
    with y show "y \<in> N \<union> (reach_within E d N - (V \<union> N))" by blast
  qed
next
  show "N \<union> (reach_within E d N - (V \<union> N)) \<subseteq> reach_within E (Suc d) F - V"
  proof
    fix y assume "y \<in> N \<union> (reach_within E d N - (V \<union> N))"
    moreover have "N \<subseteq> reach_within E d N"
      unfolding reach_within_def by (auto intro!: exI [of _ 0])
    ultimately have y: "y \<notin> V" and "y \<in> reach_within E d N" using new by auto
    then obtain n z where z: "n \<le> d" "z \<in> N" "(z, y) \<in> E ^^ n" by (auto simp: reach_within_def)
    with new obtain x where "x \<in> F" "(x, z) \<in> E" by blast
    with z have "(x, y) \<in> E ^^ Suc n" by (meson relpow_Suc_I2)
    with \<open>x \<in> F\<close> z(1) y show "y \<in> reach_within E (Suc d) F - V" unfolding reach_within_def by blast
  qed
qed

lemma neighborsLoop_correct:
  assumes wf: "wf_adj g" and "set frontier \<subseteq> {x. ghas vis x}"
    and "\<And>x y. ghas vis x \<Longrightarrow> x \<notin> set frontier \<Longrightarrow> (x, y) \<in> hop g relType \<Longrightarrow> ghas vis y"
  shows "\<exists>new. neighborsLoop g relType d vis frontier res = res @ List.map_filter (live g) new
    \<and> distinct new \<and> set new = reach_within (hop g relType) d (set frontier) - {x. ghas vis x}"
  using assms(2,3)
proof (induction d arbitrary: vis frontier res)
  case 0
  then show ?case
    by (intro exI [of _ "[]"]) (auto simp: List.map_filter_def reach_within_def)
next
  case (Suc d)
  let ?E = "hop g relType"
  show ?case
  proof (cases "frontier = []")
    case True
    then show ?thesis by (intro exI [of _ "[]"]) (auto simp: List.map_filter_def reach_within_def)
  next
    case False
    let ?nbs = "concat (map (nbrs g relType) frontier)"
    obtain vis' new where
      fold: "foldl (expandNode g relType) (vis, [], res) frontier = (vis', new, res @ List.map_filter (live g) new)"
      and vis': "\<And>x. ghas vis' x \<longleftrightarrow> ghas vis x \<or> x \<in> set ?nbs"
      and new: "distinct new" "set new = {x \<in> set ?nbs. \<not> ghas vis x}"
      using visit_fold [of g vis "[]" res ?nbs] by (auto simp: level_eq)
    have nbs: "set ?nbs = {y. \<exists>x \<in> set frontier. (x, y) \<in> ?E}"
      by (auto simp: nbrs_set [OF wf])
    have newN: "set new = {y. y \<notin> {x. ghas vis x} \<and> (\<exists>x \<in> set frontier. (x, y) \<in> ?E)}"
      using new(2) nbs by auto
    have V': "{x. ghas vis' x} = {x. ghas vis x} \<union> set new"
      using vis' new(2) by auto
    have closed': "ghas vis' y" if "ghas vis' x" "x \<notin> set new" "(x, y) \<in> ?E" for x y
      using that Suc.prems(2) [of x y] V' newN by blast
    have "set new \<subseteq> {x. ghas vis' x}" using V' by blast
    then have "\<exists>new'. neighborsLoop g relType d vis' new (res @ List.map_filter (live g) new)
          = (res @ List.map_filter (live g) new) @ List.map_filter (live g) new'
        \<and> distinct new' \<and> set new' = reach_within ?E d (set new) - {x. ghas vis' x}"
      by (rule Suc.IH) (rule closed')
    then obtain new' where loop: "neighborsLoop g relType d vis' new (res @ List.map_filter (live g) new)
          = (res @ List.map_filter (live g) new) @ List.map_filter (live g) new'"
      and new': "distinct new'" "set new' = reach_within ?E d (set new) - {x. ghas vis' x}" by blast
    have "reach_within ?E (Suc d) (set frontier) - {x. ghas vis x}
        = set new \<union> (reach_within ?E d (set new) - ({x. ghas vis x} \<union> set new))"
      by (rule within_step) (use Suc.prems newN in auto)
    then have "set (new @ new') = reach_within ?E (Suc d) (set frontier) - {x. ghas vis x}"
      using new'(2) V' by simp
    moreover have "distinct (new @ new')" using new(1) new' V' by auto
    moreover have "neighborsLoop g relType (Suc d) vis frontier res
        = res @ List.map_filter (live g) (new @ new')"
      using False fold loop by (simp add: map_filter_append)
    ultimately show ?thesis by blast
  qed
qed

lemma Neighbors_correct:
  assumes wf: "wf_adj g" and "1 \<le> depth"
  shows "\<exists>ids. Neighbors g i relType depth = List.map_filter (live g) ids \<and> distinct ids
    \<and> set ids = reach_within (hop g relType) (nat depth) {i} - {i}"
proof -
  have "\<exists>new. neighborsLoop g relType (nat depth) [(i, ())] [i] [] = [] @ List.map_filter (live g) new
    \<and> distinct new \<and> set new = reach_within (hop g relType) (nat depth) (set [i]) - {x. ghas [(i, ())] x}"
    by (rule neighborsLoop_correct [OF wf]) (auto simp: ghas_def split: if_splits)
  moreover have "{x. ghas [(i, ())] x} = {i}" by (auto simp: ghas_def)
  ultimately show ?thesis using assms(2) by (simp add: Neighbors_def)
qed

section \<open>Lists, counts and incident relations\<close>

lemma live_entities_iff:
  "wf_maps g \<Longrightarrow> (i, e) \<in> set (g_entities g) \<and> \<not> isDeleted g i \<longleftrightarrow> live g i = Some e"
  by (auto simp: wf_maps_def live_iff gdistinct_in_set_iff)

lemma sort_key_unique:
  assumes "distinct (map f xs)" and "distinct (map f ys)" and "set xs = set ys"
  shows "sort_key f xs = sort_key f ys"
proof (rule map_sorted_distinct_set_unique [where f = f])
  show "inj_on f (set (sort_key f xs) \<union> set (sort_key f ys))"
    using assms by (simp add: distinct_map)
  show "distinct (map f (sort_key f xs))" "distinct (map f (sort_key f ys))"
    using assms by (simp_all add: distinct_map)
qed (use assms in auto)

lemma relations_distinct:
  assumes "wf_adj g" and "wf_maps g"
  shows "distinct (map rel_ID (map snd (g_relations g)))"
proof -
  have eq: "map rel_ID (map snd (g_relations g)) = map fst (g_relations g)"
    using assms wf_adjD(1) [OF assms(1)]
    by (auto simp: wf_maps_def gdistinct_in_set_iff)
  show ?thesis unfolding eq using assms(2) by (simp add: wf_maps_def gdistinct_def)
qed

lemma relations_mem: "wf_maps g \<Longrightarrow> r \<in> snd ` set (g_relations g) \<longleftrightarrow> (\<exists>i. map_of (g_relations g) i = Some r)"
  by (force simp: wf_maps_def gdistinct_in_set_iff [symmetric])

lemma addTouching_fold:
  assumes key: "\<And>i r. map_of (g_relations g) i = Some r \<Longrightarrow> rel_ID r = i"
  shows "foldl (addTouching g relType) (seen, out) rids = (seen', out') \<Longrightarrow>
    distinct (map rel_ID out) \<Longrightarrow> (\<And>i. ghas seen i \<longleftrightarrow> i \<in> rel_ID ` set out) \<Longrightarrow>
    distinct (map rel_ID out') \<and>
    set out' = set out \<union> {r. \<exists>i \<in> set rids. map_of (g_relations g) i = Some r
      \<and> (relType = [] \<or> rel_Type r = relType) \<and> i \<notin> rel_ID ` set out}"
proof (induction rids arbitrary: seen out)
  case (Cons i rids)
  show ?case
  proof (cases "ghas seen i \<or> (\<forall>r. map_of (g_relations g) i = Some r \<longrightarrow> relType \<noteq> [] \<and> rel_Type r \<noteq> relType)")
    case True
    then have "addTouching g relType (seen, out) i = (seen, out)"
      by (auto simp: addTouching_def split: option.splits)
    with Cons.prems have "foldl (addTouching g relType) (seen, out) rids = (seen', out')" by simp
    from Cons.IH [OF this Cons.prems(2,3)] True Cons.prems(3) [of i] show ?thesis by auto
  next
    case False
    then obtain r where r: "map_of (g_relations g) i = Some r" "relType = [] \<or> rel_Type r = relType"
      and ns: "\<not> ghas seen i" by blast
    then have "addTouching g relType (seen, out) i = (gadd i seen, out @ [r])"
      by (auto simp: addTouching_def)
    with Cons.prems have eq: "foldl (addTouching g relType) (gadd i seen, out @ [r]) rids = (seen', out')"
      by simp
    have id: "rel_ID r = i" using key r(1) .
    have "distinct (map rel_ID (out @ [r]))" using Cons.prems(2,3) ns id by auto
    moreover have "ghas (gadd i seen) j \<longleftrightarrow> j \<in> rel_ID ` set (out @ [r])" for j
      using Cons.prems(3) id by auto
    ultimately have "distinct (map rel_ID out') \<and>
      set out' = set (out @ [r]) \<union> {r'. \<exists>j \<in> set rids. map_of (g_relations g) j = Some r'
        \<and> (relType = [] \<or> rel_Type r' = relType) \<and> j \<notin> rel_ID ` set (out @ [r])}"
      by (rule Cons.IH [OF eq])
    then show ?thesis using r id ns Cons.prems(3) [of i] by auto
  qed
qed auto

text \<open>The adjacency answer equals the full scan, in the same order.\<close>

lemma RelationsTouching_scan:
  assumes adj: "wf_adj g" and maps: "wf_maps g"
  shows "RelationsTouching g i relType =
    sort_key rel_ID (filter (\<lambda>r. (relType = [] \<or> rel_Type r = relType) \<and> (rel_From r = i \<or> rel_To r = i))
      (map snd (g_relations g)))"
proof -
  note D = wf_adjD [OF adj]
  let ?rids = "gkeys (gget [] (g_out g) i) @ gkeys (gget [] (g_in g) i)"
  obtain seen out where eq: "foldl (addTouching g relType) ([], []) ?rids = (seen, out)" by fastforce
  from addTouching_fold [OF D(1) eq]
  have dist: "distinct (map rel_ID out)"
    and set: "set out = {r. \<exists>j \<in> set ?rids. map_of (g_relations g) j = Some r \<and> (relType = [] \<or> rel_Type r = relType)}"
    by simp_all
  have rids: "j \<in> set ?rids \<longleftrightarrow> rel_From r = i \<or> rel_To r = i" if "map_of (g_relations g) j = Some r" for j r
    using D(2,3) [of i j] that by (auto simp: gkeys_def ghas_iff)
  have "set out = set (filter (\<lambda>r. (relType = [] \<or> rel_Type r = relType) \<and> (rel_From r = i \<or> rel_To r = i))
      (map snd (g_relations g)))"
    unfolding set using rids by (auto simp: relations_mem [OF maps] simp del: set_append; metis option.inject)
  moreover have "distinct (map rel_ID (filter P (map snd (g_relations g))))" for P
    using relations_distinct [OF adj maps] by (rule distinct_map_filter)
  ultimately show ?thesis
    using sort_key_unique [OF dist] eq by (simp only: RelationsTouching_def snd_conv)
qed

lemma entities_distinct:
  assumes "wf_index g" and "wf_maps g"
  shows "distinct (map ent_ID (map snd (filter P (g_entities g))))"
proof -
  have eq: "map ent_ID (map snd (filter P (g_entities g))) = map fst (filter P (g_entities g))"
    using assms wf_indexD(1) [OF assms(1)] by (auto simp: wf_maps_def gdistinct_in_set_iff)
  show ?thesis unfolding eq using assms(2) by (simp add: wf_maps_def gdistinct_def distinct_map_filter)
qed

lemma set_ListEntities:
  "wf_maps g \<Longrightarrow> set (ListEntities g typ) = {e. \<exists>i. live g i = Some e \<and> (typ = [] \<or> ent_Type e = typ)}"
  using live_entities_iff [of g] by (force simp: ListEntities_def)

lemma set_EntitiesOfType:
  "wf_index g \<Longrightarrow> set (EntitiesOfType g typ) = {e. \<exists>i. live g i = Some e \<and> ent_Type e = typ}"
proof -
  assume wf: "wf_index g"
  have mem: "i \<in> set (gkeys (gget [] (g_byType g) typ)) \<longleftrightarrow> (\<exists>e. live g i = Some e \<and> ent_Type e = typ)" for i
    using wf_indexD(4) [OF wf, of "typ" i] by (auto simp: gkeys_def ghas_iff)
  have "EntitiesOfType g typ = List.map_filter (live g) (gkeys (gget [] (g_byType g) typ))"
    unfolding EntitiesOfType_def
    by (rule list.induct [of _ "gkeys (gget [] (g_byType g) typ)"])
      (auto simp: live_def List.map_filter_simps split: option.splits)
  then show ?thesis using mem by (force simp: List.map_filter_def image_iff)
qed

lemma EntityCount_card: "wf_maps g \<Longrightarrow> EntityCount g = card (dom (live g))"
proof -
  assume wf: "wf_maps g"
  let ?xs = "map fst (filter (\<lambda>(i, _). \<not> isDeleted g i) (g_entities g))"
  have "distinct ?xs" using wf by (simp add: wf_maps_def gdistinct_def distinct_map_filter)
  moreover have "set ?xs = dom (live g)"
    using live_entities_iff [OF wf] by (force simp: dom_def)
  ultimately show ?thesis by (metis EntityCount_def distinct_card length_map)
qed

section \<open>Snapshots\<close>

lemma spec_replay_append: "spec_replay (xs @ ys) T = spec_replay ys (spec_replay xs T)"
  by (simp add: spec_replay_def)

lemma spec_replay_entities:
  "distinct (map ent_ID es) \<Longrightarrow>
   spec_replay (map (\<lambda>(i, e). snapshotEntityEvent when (newID i) e) (enumerate n es)) T
     = T\<lparr>tp_entities := tp_entities T ++ map_of (map (\<lambda>e. (ent_ID e, e)) es)\<rparr>"
proof (induction es arbitrary: n T)
  case (Cons e es)
  have "map_of (map (\<lambda>e. (ent_ID e, e)) es) (ent_ID e) = None"
    using Cons.prems by (force simp: map_of_eq_None_iff)
  then have upd: "tp_entities T ++ map_of (map (\<lambda>e. (ent_ID e, e)) (e # es))
      = (tp_entities T)(ent_ID e \<mapsto> e) ++ map_of (map (\<lambda>e. (ent_ID e, e)) es)"
    by (auto simp: map_add_def fun_eq_iff split: option.splits)
  have "spec_replay (map (\<lambda>(i, e). snapshotEntityEvent when (newID i) e) (enumerate n (e # es))) T
      = spec_replay (map (\<lambda>(i, e). snapshotEntityEvent when (newID i) e) (enumerate (Suc n) es))
          (T\<lparr>tp_entities := (tp_entities T)(ent_ID e \<mapsto> e)\<rparr>)"
    by (simp add: spec_replay_def spec_apply_def spec_entity_def snapshotEntityEvent_def Let_def)
  also have "\<dots> = T\<lparr>tp_entities := (tp_entities T)(ent_ID e \<mapsto> e) ++ map_of (map (\<lambda>e. (ent_ID e, e)) es)\<rparr>"
    using Cons by simp
  finally show ?case by (simp only: upd)
qed (simp add: spec_replay_def)

lemma spec_replay_relations:
  "distinct (map rel_ID rs) \<Longrightarrow>
   spec_replay (map (\<lambda>(i, r). snapshotRelationEvent when (newID i) r) (enumerate n rs)) T
     = T\<lparr>tp_relations := tp_relations T ++ map_of (map (\<lambda>r. (rel_ID r, r)) rs)\<rparr>"
proof (induction rs arbitrary: n T)
  case (Cons r rs)
  have "map_of (map (\<lambda>r. (rel_ID r, r)) rs) (rel_ID r) = None"
    using Cons.prems by (force simp: map_of_eq_None_iff)
  then have upd: "tp_relations T ++ map_of (map (\<lambda>r. (rel_ID r, r)) (r # rs))
      = (tp_relations T)(rel_ID r \<mapsto> r) ++ map_of (map (\<lambda>r. (rel_ID r, r)) rs)"
    by (auto simp: map_add_def fun_eq_iff split: option.splits)
  have "spec_replay (map (\<lambda>(i, r). snapshotRelationEvent when (newID i) r) (enumerate n (r # rs))) T
      = spec_replay (map (\<lambda>(i, r). snapshotRelationEvent when (newID i) r) (enumerate (Suc n) rs))
          (T\<lparr>tp_relations := (tp_relations T)(rel_ID r \<mapsto> r)\<rparr>)"
    by (simp add: spec_replay_def spec_apply_def spec_relation_def snapshotRelationEvent_def Let_def)
  also have "\<dots> = T\<lparr>tp_relations := (tp_relations T)(rel_ID r \<mapsto> r) ++ map_of (map (\<lambda>r. (rel_ID r, r)) rs)\<rparr>"
    using Cons by simp
  finally show ?case by (simp only: upd)
qed (simp add: spec_replay_def)

lemma snapshot_live:
  assumes "wf_index g" and "wf_maps g"
  shows "map_of (map (\<lambda>e. (ent_ID e, e)) (map snd (filter (\<lambda>(i, e). \<not> isDeleted g i) (g_entities g)))) = live g"
proof -
  have "map (\<lambda>e. (ent_ID e, e)) (map snd (filter (\<lambda>(i, e). \<not> isDeleted g i) (g_entities g)))
      = filter (\<lambda>(i, e). \<not> isDeleted g i) (g_entities g)"
    using wf_indexD(1) [OF assms(1)] assms(2)
    by (auto simp: wf_maps_def gdistinct_in_set_iff intro!: map_idI)
  then show ?thesis by (simp add: map_of_filter_key live_def fun_eq_iff)
qed

lemma snapshot_relations:
  assumes "wf_adj g" and "wf_maps g"
  shows "map_of (map (\<lambda>r. (rel_ID r, r)) (map snd (g_relations g))) = map_of (g_relations g)"
proof -
  have "map (\<lambda>r. (rel_ID r, r)) (map snd (g_relations g)) = g_relations g"
    using wf_adjD(1) [OF assms(1)] assms(2)
    by (auto simp: wf_maps_def gdistinct_in_set_iff intro!: map_idI)
  then show ?thesis by simp
qed

lemma no_dead_heartbeat_snapshot:
  "no_dead_heartbeat dead (map (\<lambda>(i, e). snapshotEntityEvent when (newID i) e) (enumerate n es)
     @ map (\<lambda>(i, r). snapshotRelationEvent when (newID i) r) (enumerate m rs))"
proof (induction es arbitrary: n dead)
  case Nil
  show ?case
    by (induction rs arbitrary: m) (simp_all add: snapshotRelationEvent_def)
qed (simp add: snapshotEntityEvent_def Let_def put_change_def)

lemma view_snapshot:
  assumes "graph_wf g"
  shows "view (Replay now (SnapshotEvents newID when g) NewGraph) = view g"
proof -
  from assms have wf: "wf_index g" "wf_adj g" "wf_maps g" by (simp_all add: graph_wf_def)
  let ?live = "map snd (filter (\<lambda>(i, e). \<not> isDeleted g i) (g_entities g))"
  have "view (Replay now (SnapshotEvents newID when g) NewGraph)
      = spec_replay (SnapshotEvents newID when g) emptyTopology"
  proof -
    have "no_dead_heartbeat [] (SnapshotEvents newID when g)"
      by (simp add: SnapshotEvents_def Let_def no_dead_heartbeat_snapshot)
    moreover have "\<not> isDeleted NewGraph i" for i
      by (simp add: NewGraph_def NewWithTombstoneCap_def isDeleted_def)
    ultimately show ?thesis using view_Replay [of "[]" _ NewGraph] by simp
  qed
  also have "\<dots> = view g"
    using entities_distinct [OF wf(1,3)] relations_distinct [OF wf(2,3)]
    by (simp add: SnapshotEvents_def Let_def spec_replay_append spec_replay_entities spec_replay_relations
        snapshot_live [OF wf(1,3)] snapshot_relations [OF wf(2,3)] emptyTopology_def view_def del: map_map)
  finally show ?thesis .
qed

section \<open>Cursor paging\<close>

lemma filter_after_nth:
  assumes "sorted_wrt (\<lambda>x y. f x < (f y :: 'b :: linorder)) xs" and "0 < l" and "l \<le> length xs"
  shows "filter (\<lambda>x. f (xs ! (l - 1)) < f x) xs = drop l xs"
proof -
  have "\<not> f (xs ! (l - 1)) < f x" if x: "x \<in> set (take l xs)" for x
  proof -
    from x assms(3) obtain i where i: "i < l" "x = xs ! i" by (auto simp: in_set_conv_nth)
    show ?thesis
    proof (cases "i = l - 1")
      case False
      with i assms have "f (xs ! i) < f (xs ! (l - 1))"
        using sorted_wrt_nth_less [OF assms(1), of i "l - 1"] by simp
      with i show ?thesis by simp
    qed (use i in simp)
  qed
  then have lo: "filter (\<lambda>x. f (xs ! (l - 1)) < f x) (take l xs) = []" by (simp add: filter_empty_conv)
  have "f (xs ! (l - 1)) < f x" if x: "x \<in> set (drop l xs)" for x
  proof -
    from x obtain i where i: "i < length xs - l" "x = xs ! (l + i)" by (auto simp: in_set_conv_nth)
    with assms show ?thesis using sorted_wrt_nth_less [OF assms(1), of "l - 1" "l + i"] by simp
  qed
  then have hi: "filter (\<lambda>x. f (xs ! (l - 1)) < f x) (drop l xs) = drop l xs" by simp
  have "filter (\<lambda>x. f (xs ! (l - 1)) < f x) (take l xs @ drop l xs) = drop l xs"
    by (simp only: filter_append lo hi append_Nil)
  then show ?thesis by simp
qed

lemma PageEntities_pageKeys:
  "PageEntitiesByFingerprint g typ after limit =
     (let keys = pageKeys g typ after
      in if limit < 0 then None
         else if int (length keys) > limit
         then (if limit = 0 then None
               else Some (map (\<lambda>(fp, i). entityAt g i) (take (nat limit) keys),
                 fst (last (take (nat limit) keys)), length (fingerprintKeys g typ)))
         else Some (map (\<lambda>(fp, i). entityAt g i) keys, [], length (fingerprintKeys g typ)))"
proof -
  have "sort_key fst (filter (\<lambda>(fp, i). \<not> (after \<noteq> [] \<and> fp \<le> after)) (fingerprintKeys g typ))
      = pageKeys g typ after"
    by (simp only: pageKeys_def filter_sort case_prod_unfold)
  then show ?thesis by (simp only: PageEntitiesByFingerprint_def Let_def)
qed

lemma fingerprintKeys_strict:
  assumes "wf_maps g"
  shows "sorted_wrt (\<lambda>x y. fst x < fst y) (sort_key fst (fingerprintKeys g typ))"
proof -
  have "distinct (map fst (fingerprintKeys g typ))"
    using assms by (simp add: fingerprintKeys_def wf_maps_def gdistinct_def distinct_map_filter)
  then have "distinct (map fst (sort_key fst (fingerprintKeys g typ)))"
    by (simp add: distinct_map)
  then have "sorted_wrt (<) (map fst (sort_key fst (fingerprintKeys g typ)))"
    by (simp add: strict_sorted_iff)
  then show ?thesis by (simp add: sorted_wrt_map)
qed

lemma fingerprint_not_empty:
  assumes "wf_index g" and "wf_maps g" and "x \<in> set (pageKeys g typ after)"
  shows "fst x \<noteq> []"
proof -
  from assms(3) have "x \<in> set (g_byHash g)" by (auto simp: pageKeys_def fingerprintKeys_def)
  with assms(2) have "map_of (g_byHash g) (fst x) = Some (snd x)"
    by (cases x) (simp add: wf_maps_def gdistinct_in_set_iff)
  with assms(1) obtain e where "IdentityHash e = fst x" by (auto simp: wf_indexD(2))
  then have "fst x = ent_Type e @ '':'' @ hex_encode (take idHashBytes (sha256 (identityBuf (ent_Type e) (ent_Identity e))))"
    by (simp add: IdentityHash_def identityHashOf_def)
  then show ?thesis by auto
qed

lemma pageKeys_next:
  assumes wf: "wf_index g" "wf_maps g" and l: "0 < l" "l < length (pageKeys g typ after)"
  shows "pageKeys g typ (fst (last (take l (pageKeys g typ after)))) = drop l (pageKeys g typ after)"
    and "fst (last (take l (pageKeys g typ after))) \<noteq> []"
proof -
  let ?K = "pageKeys g typ after"
  let ?L = "sort_key fst (fingerprintKeys g typ)"
  have last: "last (take l ?K) = ?K ! (l - 1)" using l by (subst last_conv_nth) auto
  have mem: "?K ! (l - 1) \<in> set ?K" using l by simp
  show ne: "fst (last (take l ?K)) \<noteq> []"
    unfolding last by (rule fingerprint_not_empty [OF wf mem])
  have gt: "after \<noteq> [] \<Longrightarrow> after < fst (?K ! (l - 1))"
    using mem by (auto simp: pageKeys_def)
  have "pageKeys g typ (fst (?K ! (l - 1))) = filter (\<lambda>x. fst (?K ! (l - 1)) < fst x) ?L"
    using ne last by (simp add: pageKeys_def not_le)
  also have "\<dots> = filter (\<lambda>x. fst (?K ! (l - 1)) < fst x) ?K"
    using gt by (auto simp: pageKeys_def intro!: filter_cong)
  also have "\<dots> = drop l ?K"
  proof (rule filter_after_nth)
    show "sorted_wrt (\<lambda>x y. fst x < fst y) ?K"
      unfolding pageKeys_def by (intro sorted_wrt_filter fingerprintKeys_strict wf)
  qed (use l in auto)
  finally show "pageKeys g typ (fst (last (take l ?K))) = drop l ?K" by (simp only: last)
qed

lemma all_pages_complete:
  assumes wf: "wf_index g" "wf_maps g" and limit: "0 < limit"
  shows "length (pageKeys g typ after) < fuel \<Longrightarrow>
    all_pages fuel g typ after limit = Some (map (\<lambda>(fp, i). entityAt g i) (pageKeys g typ after))"
proof (induction fuel arbitrary: after)
  case (Suc fuel)
  let ?K = "pageKeys g typ after"
  show ?case
  proof (cases "int (length ?K) > limit")
    case True
    then have l: "0 < nat limit" "nat limit < length ?K" using limit by auto
    from pageKeys_next [OF wf l]
    have nxt: "pageKeys g typ (fst (last (take (nat limit) ?K))) = drop (nat limit) ?K"
      and ne: "fst (last (take (nat limit) ?K)) \<noteq> []" .
    have "all_pages fuel g typ (fst (last (take (nat limit) ?K))) limit
        = Some (map (\<lambda>(fp, i). entityAt g i) (drop (nat limit) ?K))"
      using Suc.IH [of "fst (last (take (nat limit) ?K))"] Suc.prems l by (simp add: nxt)
    then show ?thesis
      using True ne limit by (simp add: PageEntities_pageKeys Let_def map_append [symmetric] del: map_append)
  next
    case False
    with limit show ?thesis by (simp add: PageEntities_pageKeys Let_def)
  qed
qed simp

lemma pageKeys_start: "pageKeys g typ [] = sort_key fst (fingerprintKeys g typ)"
  by (simp add: pageKeys_def)

text \<open>The fingerprint order lists each live entity of the type exactly once.\<close>

lemma set_ListEntitiesByFingerprint:
  assumes wf: "wf_index g" "wf_maps g"
  shows "set (ListEntitiesByFingerprint g typ) = {e. \<exists>i. live g i = Some e \<and> (typ = [] \<or> ent_Type e = typ)}"
proof -
  have idx: "(h, i) \<in> set (g_byHash g) \<longleftrightarrow> (\<exists>e. live g i = Some e \<and> IdentityHash e = h)" for h i
    using wf by (simp add: wf_maps_def gdistinct_in_set_iff wf_indexD(2))
  have mem: "(h, i) \<in> set (fingerprintKeys g typ) \<longleftrightarrow>
      (\<exists>e. live g i = Some e \<and> IdentityHash e = h \<and> (typ = [] \<or> ent_Type e = typ))" for h i
    by (auto simp: fingerprintKeys_def idx live_iff split: option.splits)
  have ent: "live g i = Some e \<Longrightarrow> entityAt g i = e" for i e
    by (simp add: entityAt_def live_iff gget_def)
  have "e \<in> set (ListEntitiesByFingerprint g typ) \<longleftrightarrow> (\<exists>h i. (h, i) \<in> set (fingerprintKeys g typ) \<and> e = entityAt g i)" for e
    by (force simp: ListEntitiesByFingerprint_def image_iff)
  then have "e \<in> set (ListEntitiesByFingerprint g typ) \<longleftrightarrow>
      (\<exists>i e'. live g i = Some e' \<and> (typ = [] \<or> ent_Type e' = typ) \<and> e = entityAt g i)" for e
    unfolding mem by blast
  then have "e \<in> set (ListEntitiesByFingerprint g typ) \<longleftrightarrow>
      (\<exists>i. live g i = Some e \<and> (typ = [] \<or> ent_Type e = typ))" for e
    using ent by metis
  then show ?thesis by blast
qed

section \<open>Handles\<close>

lemma cut_append: "c \<notin> set xs \<Longrightarrow> cut (xs @ c # ys) c = (xs, ys, True)"
  by (simp add: cut_def index_byte_append)

lemma ResolveHandle_fingerprint:
  assumes wf: "wf_index g" and e: "live g i = Some e"
    and nc: "CHR '':'' \<notin> set (ent_Type e)"
  shows "ResolveHandle g (IdentityHash e) = Some i"
proof -
  let ?hex = "hex_encode (take idHashBytes (sha256 (identityBuf (ent_Type e) (ent_Identity e))))"
  have "cut (IdentityHash e) (CHR '':'') = (ent_Type e, ?hex, True)"
    using nc cut_append [of "CHR '':''" "ent_Type e" ?hex] by (simp add: IdentityHash_def identityHashOf_def)
  moreover have "\<not> contains_byte ?hex (CHR ''='')"
    using hex_encode_set by (auto simp: contains_byte_def)
  moreover have "map_of (g_byHash g) (IdentityHash e) = Some i"
    using wf e by (auto simp: wf_indexD(2))
  ultimately show ?thesis by (simp add: ResolveHandle_def ResolveFingerprint_def)
qed

end
