(* ===== verification/Canonical.thy ===== *)
theory Canonical
  imports Projection_Reads "HOL-Library.Product_Lexorder"
begin

text \<open>
  \<open>internal/canonical/canonical.go\<close>: the read-time identity overlay, a walk over the
  believed \<open>same_as\<close> edges.  The walk reads a graph through the interface the package
  declares; the locale \<open>belief_graph\<close> states what it relies on, and the projection's
  \<open>RelationsTouching\<close> provides it.
\<close>

section \<open>Definitions\<close>

definition ConfidenceKey :: string where "ConfidenceKey = ''confidence''"
definition BasisKey :: string where "BasisKey = ''basis''"

definition DefaultThreshold :: float64 where "DefaultThreshold = Fin False 9 (-1)"

record Link =
  lnk_From :: string
  lnk_To :: string
  lnk_Confidence :: float64
  lnk_Basis :: string

definition unitRange :: "float64 \<Rightarrow> bool" where
  "unitRange c = (f_le f_zero c \<and> f_le c f_one)"

text \<open>The reading of a confidence off an attribute list, the first occurrence of its key.\<close>

fun confidenceOf :: "KeyValue list \<Rightarrow> float64 \<times> bool" where
  "confidenceOf [] = (f_zero, False)"
| "confidenceOf ((k, v) # kvs) =
     (if k \<noteq> ConfidenceKey then confidenceOf kvs
      else case Kind v of
             KindDouble \<Rightarrow> (let c = Double_of v in (c, unitRange c))
           | KindInt \<Rightarrow> (let c = float_of_int (Int_of v) in (c, unitRange c))
           | _ \<Rightarrow> (f_zero, False))"

definition Confidence :: "Relation \<Rightarrow> float64 \<times> bool" where
  "Confidence r = confidenceOf (rel_Attributes r)"

fun basisOf :: "KeyValue list \<Rightarrow> string" where
  "basisOf [] = []"
| "basisOf ((k, v) # kvs) = (if k = BasisKey then Display v else basisOf kvs)"

definition Basis :: "Relation \<Rightarrow> string" where
  "Basis r = basisOf (rel_Attributes r)"

text \<open>An edge the walk follows: a readable confidence that is not below the threshold.\<close>

definition believed :: "float64 \<Rightarrow> Relation \<Rightarrow> bool" where
  "believed threshold r = (case Confidence r of (conf, ok) \<Rightarrow> \<not> (\<not> ok \<or> f_lt conf threshold))"

record WalkState =
  ws_seen :: "EntityID goset"
  ws_seenLink :: "RelationID goset"
  ws_members :: "EntityID list"
  ws_queue :: "EntityID list"
  ws_links :: "Link list"

definition linkOf :: "Relation \<Rightarrow> Link" where
  "linkOf r = \<lparr>lnk_From = rel_From r, lnk_To = rel_To r, lnk_Confidence = fst (Confidence r),
     lnk_Basis = Basis r\<rparr>"

definition otherEnd :: "EntityID \<Rightarrow> Relation \<Rightarrow> EntityID" where
  "otherEnd cur r = (if rel_To r = cur then rel_From r else rel_To r)"

definition walkEdge :: "float64 \<Rightarrow> EntityID \<Rightarrow> WalkState \<Rightarrow> Relation \<Rightarrow> WalkState" where
  "walkEdge threshold cur s r =
     (if \<not> believed threshold r then s
      else let s = (if ghas (ws_seenLink s) (rel_ID r) then s
                    else s\<lparr>ws_seenLink := gadd (rel_ID r) (ws_seenLink s),
                           ws_links := ws_links s @ [linkOf r]\<rparr>);
               other = otherEnd cur r
           in if ghas (ws_seen s) other then s
              else s\<lparr>ws_seen := gadd other (ws_seen s), ws_members := ws_members s @ [other],
                     ws_queue := ws_queue s @ [other]\<rparr>)"

partial_function (option) walkLoop ::
    "(EntityID \<Rightarrow> string \<Rightarrow> Relation list) \<Rightarrow> float64 \<Rightarrow> WalkState \<Rightarrow> WalkState option" where
  "walkLoop touching threshold s =
     (if ws_queue s = [] then Some s
      else let cur = hd (ws_queue s);
               s = s\<lparr>ws_queue := tl (ws_queue s)\<rparr>
           in walkLoop touching threshold (foldl (walkEdge threshold cur) s (touching cur RelSameAs)))"

definition walkStart :: "EntityID \<Rightarrow> WalkState" where
  "walkStart start = \<lparr>ws_seen = [(start, ())], ws_seenLink = [], ws_members = [start], ws_queue = [start],
     ws_links = []\<rparr>"

definition Walk :: "(EntityID \<Rightarrow> string \<Rightarrow> Relation list) \<Rightarrow> EntityID \<Rightarrow> float64
    \<Rightarrow> (EntityID list \<times> Link list) option" where
  "Walk touching start threshold =
     map_option (\<lambda>s. (ws_members s, sort_key (\<lambda>l. (lnk_From l, lnk_To l)) (ws_links s)))
       (walkLoop touching threshold (walkStart start))"

text \<open>The belief relation on ids: one believed \<open>same_as\<close> edge in either direction.\<close>

definition belief :: "Relation set \<Rightarrow> float64 \<Rightarrow> (EntityID \<times> EntityID) set" where
  "belief R threshold =
     {(a, b). \<exists>r \<in> R. rel_Type r = RelSameAs \<and> believed threshold r \<and>
        ((rel_From r = a \<and> rel_To r = b) \<or> (rel_To r = a \<and> rel_From r = b))}"

section \<open>One node of the walk\<close>

lemma walkEdge_fold:
  "\<exists>new. ws_members (foldl (walkEdge th cur) s rs) = ws_members s @ new \<and>
     ws_queue (foldl (walkEdge th cur) s rs) = ws_queue s @ new \<and> distinct new \<and>
     set new = {x. \<not> ghas (ws_seen s) x \<and> (\<exists>r \<in> set rs. believed th r \<and> x = otherEnd cur r)} \<and>
     (\<forall>x. ghas (ws_seen (foldl (walkEdge th cur) s rs)) x \<longleftrightarrow> ghas (ws_seen s) x \<or> x \<in> set new)"
proof (induction rs arbitrary: s)
  case (Cons r rs)
  let ?s = "walkEdge th cur s r"
  from Cons.IH [of ?s] obtain new where
    IH: "ws_members (foldl (walkEdge th cur) ?s rs) = ws_members ?s @ new"
      "ws_queue (foldl (walkEdge th cur) ?s rs) = ws_queue ?s @ new" "distinct new"
      "set new = {x. \<not> ghas (ws_seen ?s) x \<and> (\<exists>r \<in> set rs. believed th r \<and> x = otherEnd cur r)}"
      "\<And>x. ghas (ws_seen (foldl (walkEdge th cur) ?s rs)) x \<longleftrightarrow> ghas (ws_seen ?s) x \<or> x \<in> set new"
    by blast
  show ?case
  proof (cases "believed th r \<and> \<not> ghas (ws_seen s) (otherEnd cur r)")
    case True
    then have s: "ws_members ?s = ws_members s @ [otherEnd cur r]" "ws_queue ?s = ws_queue s @ [otherEnd cur r]"
      "\<And>x. ghas (ws_seen ?s) x \<longleftrightarrow> ghas (ws_seen s) x \<or> x = otherEnd cur r"
      by (auto simp: walkEdge_def Let_def)
    have "set (otherEnd cur r # new)
        = {x. \<not> ghas (ws_seen s) x \<and> (\<exists>r \<in> set (r # rs). believed th r \<and> x = otherEnd cur r)}"
      using True IH(4) s(3) by auto
    moreover have "distinct (otherEnd cur r # new)" using IH(3,4) s(3) by simp
    ultimately show ?thesis
      using IH s by (intro exI [of _ "otherEnd cur r # new"]) auto
  next
    case False
    then have s: "ws_members ?s = ws_members s" "ws_queue ?s = ws_queue s" "ws_seen ?s = ws_seen s"
      by (auto simp: walkEdge_def Let_def)
    have "set new = {x. \<not> ghas (ws_seen s) x \<and> (\<exists>r \<in> set (r # rs). believed th r \<and> x = otherEnd cur r)}"
      using False IH(4) s(3) by auto
    then show ?thesis using IH s by (intro exI [of _ new]) simp
  qed
qed simp

lemma walkEdge_links:
  "(\<forall>i. ghas (ws_seenLink (foldl (walkEdge th cur) s rs)) i \<longleftrightarrow>
      ghas (ws_seenLink s) i \<or> i \<in> rel_ID ` {r \<in> set rs. believed th r}) \<and>
   (inj_on rel_ID (set rs) \<longrightarrow>
      set (ws_links (foldl (walkEdge th cur) s rs)) =
        set (ws_links s) \<union> linkOf ` {r \<in> set rs. believed th r \<and> \<not> ghas (ws_seenLink s) (rel_ID r)})"
proof (induction rs arbitrary: s)
  case (Cons r rs)
  let ?s = "walkEdge th cur s r"
  have seen: "ghas (ws_seenLink ?s) i \<longleftrightarrow> ghas (ws_seenLink s) i \<or> (believed th r \<and> i = rel_ID r)" for i
    by (auto simp: walkEdge_def Let_def)
  have links: "set (ws_links ?s) = set (ws_links s)
      \<union> (if believed th r \<and> \<not> ghas (ws_seenLink s) (rel_ID r) then {linkOf r} else {})"
    by (auto simp: walkEdge_def Let_def)
  have "set (ws_links (foldl (walkEdge th cur) ?s rs)) =
      set (ws_links s) \<union> linkOf ` {r' \<in> set (r # rs). believed th r' \<and> \<not> ghas (ws_seenLink s) (rel_ID r')}"
    if inj: "inj_on rel_ID (set (r # rs))"
  proof -
    have "{r' \<in> set rs. believed th r' \<and> \<not> ghas (ws_seenLink ?s) (rel_ID r')} \<union>
        (if believed th r \<and> \<not> ghas (ws_seenLink s) (rel_ID r) then {r} else {})
      = {r' \<in> set (r # rs). believed th r' \<and> \<not> ghas (ws_seenLink s) (rel_ID r')}"
      using inj by (auto simp: seen inj_on_def)
    then show ?thesis
      using Cons.IH [of ?s] links inj by (auto simp: inj_on_def split: if_splits)
  qed
  with Cons.IH [of ?s] seen show ?case by auto
qed simp

section \<open>The interface and the walk\<close>

locale belief_graph =
  fixes inv :: "'g \<Rightarrow> bool"
    and touching :: "'g \<Rightarrow> EntityID \<Rightarrow> string \<Rightarrow> Relation list"
    and rels :: "'g \<Rightarrow> Relation set"
  assumes finite_rels: "inv g \<Longrightarrow> finite (rels g)"
    and inj_rels: "inv g \<Longrightarrow> inj_on rel_ID (rels g)"
    and set_touching: "inv g \<Longrightarrow> set (touching g i t) =
      {r \<in> rels g. (t = [] \<or> rel_Type r = t) \<and> (rel_From r = i \<or> rel_To r = i)}"
begin

definition walk_inv :: "'g \<Rightarrow> float64 \<Rightarrow> EntityID \<Rightarrow> WalkState \<Rightarrow> bool" where
  "walk_inv g th start s =
     (distinct (ws_members s) \<and> ws_members s \<noteq> [] \<and> hd (ws_members s) = start \<and>
      (\<forall>x. ghas (ws_seen s) x \<longleftrightarrow> x \<in> set (ws_members s)) \<and>
      set (ws_queue s) \<subseteq> set (ws_members s) \<and>
      set (ws_members s) \<subseteq> (belief (rels g) th)\<^sup>* `` {start} \<and>
      (\<forall>x \<in> set (ws_members s) - set (ws_queue s). \<forall>y. (x, y) \<in> belief (rels g) th \<longrightarrow> y \<in> set (ws_members s)))"

lemma others:
  assumes "inv g"
  shows "(\<exists>r \<in> set (touching g cur RelSameAs). believed th r \<and> x = otherEnd cur r)
    \<longleftrightarrow> (cur, x) \<in> belief (rels g) th"
  by (auto simp: set_touching [OF assms] belief_def otherEnd_def rel_defs split: if_splits)

lemma walk_step:
  assumes inv: "inv g" and w: "walk_inv g th start s" and q: "ws_queue s = cur # q"
  defines "s' \<equiv> foldl (walkEdge th cur) (s\<lparr>ws_queue := q\<rparr>) (touching g cur RelSameAs)"
  shows "walk_inv g th start s'"
    and "\<exists>new. ws_members s' = ws_members s @ new \<and> ws_queue s' = q @ new \<and> distinct (ws_members s @ new) \<and>
      (\<forall>x \<in> set new. \<exists>y. (y, x) \<in> belief (rels g) th)"
proof -
  let ?B = "belief (rels g) th"
  from walkEdge_fold [of th cur "s\<lparr>ws_queue := q\<rparr>" "touching g cur RelSameAs"]
  obtain new where new: "ws_members s' = ws_members s @ new" "ws_queue s' = q @ new" "distinct new"
      "set new = {x. \<not> ghas (ws_seen s) x \<and> (cur, x) \<in> ?B}"
      "\<And>x. ghas (ws_seen s') x \<longleftrightarrow> ghas (ws_seen s) x \<or> x \<in> set new"
    unfolding s'_def others [OF inv] by auto
  from w q have cur: "cur \<in> set (ws_members s)" by (auto simp: walk_inv_def)
  with w have "(start, cur) \<in> ?B\<^sup>*" by (auto simp: walk_inv_def)
  then have reach: "set new \<subseteq> ?B\<^sup>* `` {start}" unfolding new(4) by (auto intro: rtrancl_into_rtrancl)
  have dist: "distinct (ws_members s @ new)"
    using w new(3,4) by (auto simp: walk_inv_def)
  with new show "\<exists>new. ws_members s' = ws_members s @ new \<and> ws_queue s' = q @ new
      \<and> distinct (ws_members s @ new) \<and> (\<forall>x \<in> set new. \<exists>y. (y, x) \<in> ?B)" by blast
  have "y \<in> set (ws_members s')" if "x \<in> set (ws_members s') - set (ws_queue s')" "(x, y) \<in> ?B" for x y
  proof (cases "x = cur")
    case True
    with that(2) new w show ?thesis by (auto simp: walk_inv_def)
  next
    case False
    with that new q have "x \<in> set (ws_members s) - set (ws_queue s)" by auto
    with w that(2) new(1) show ?thesis by (auto simp: walk_inv_def)
  qed
  moreover have "ws_members s' \<noteq> [] \<and> hd (ws_members s') = start"
    using w new(1) by (simp add: walk_inv_def)
  moreover have "ghas (ws_seen s') x \<longleftrightarrow> x \<in> set (ws_members s')" for x
    using w new(1) new(5) [of x] by (simp add: walk_inv_def)
  moreover have "set (ws_queue s') \<subseteq> set (ws_members s')"
    using w new(1,2) q by (auto simp: walk_inv_def)
  moreover have "set (ws_members s') \<subseteq> ?B\<^sup>* `` {start}"
    using w new(1) reach by (simp add: walk_inv_def)
  moreover have "distinct (ws_members s')" using dist new(1) by simp
  ultimately show "walk_inv g th start s'" unfolding walk_inv_def by blast
qed

lemma walkLoop_total:
  assumes "inv g"
  shows "walk_inv g th start s \<Longrightarrow> \<exists>s'. walkLoop (touching g) th s = Some s' \<and> walk_inv g th start s' \<and> ws_queue s' = []"
proof -
  let ?B = "belief (rels g) th"
  define N where "N = snd ` ?B"
  have "?B \<subseteq> (\<lambda>r. (rel_From r, rel_To r)) ` rels g \<union> (\<lambda>r. (rel_To r, rel_From r)) ` rels g"
    by (auto simp: belief_def)
  then have fin: "finite N"
    unfolding N_def using finite_rels [OF assms] by (meson finite_UnI finite_imageI finite_subset)
  show "walk_inv g th start s \<Longrightarrow> ?thesis"
  proof (induction "(card (N - set (ws_members s)), length (ws_queue s))" arbitrary: s
      rule: wf_induct_rule [OF wf_lex_prod [OF wf_less_than wf_less_than]])
    case (1 s)
    show ?case
    proof (cases "ws_queue s")
      case Nil
      with 1 show ?thesis by (subst walkLoop.simps) simp
    next
      case (Cons cur q)
      let ?s = "foldl (walkEdge th cur) (s\<lparr>ws_queue := q\<rparr>) (touching g cur RelSameAs)"
      note step = walk_step [OF assms "1.prems" Cons]
      from step(2) obtain new where new: "ws_members ?s = ws_members s @ new" "ws_queue ?s = q @ new"
        "distinct (ws_members s @ new)" "\<forall>x \<in> set new. \<exists>y. (y, x) \<in> ?B" by blast
      have "((card (N - set (ws_members ?s)), length (ws_queue ?s)), (card (N - set (ws_members s)), length (ws_queue s)))
          \<in> less_than <*lex*> less_than"
      proof (cases "new = []")
        case True
        with new Cons show ?thesis by simp
      next
        case False
        then obtain x where "x \<in> set new" by (cases new) auto
        with new(4) have "x \<in> N" by (force simp: N_def)
        with \<open>x \<in> set new\<close> new(1,3) have "x \<in> N - set (ws_members s)" "x \<notin> N - set (ws_members ?s)"
          by auto
        moreover have "N - set (ws_members ?s) \<subseteq> N - set (ws_members s)" using new(1) by auto
        ultimately have "card (N - set (ws_members ?s)) < card (N - set (ws_members s))"
          using fin by (intro psubset_card_mono) auto
        then show ?thesis by simp
      qed
      from "1.hyps" [OF this step(1)] Cons show ?thesis by (subst walkLoop.simps) (simp add: Let_def)
    qed
  qed
qed

text \<open>The walk returns, and its group is the closure of the belief relation, the start first.\<close>

lemma walk_group:
  assumes "inv g"
  shows "\<exists>members links. Walk (touching g) start th = Some (members, links) \<and> distinct members \<and>
    hd members = start \<and> set members = (belief (rels g) th)\<^sup>* `` {start}"
proof -
  have "walk_inv g th start (walkStart start)"
    by (auto simp: walk_inv_def walkStart_def ghas_def)
  from walkLoop_total [OF assms this] obtain s where s: "walkLoop (touching g) th (walkStart start) = Some s"
    "walk_inv g th start s" "ws_queue s = []" by blast
  have "y \<in> set (ws_members s)" if "(start, y) \<in> (belief (rels g) th)\<^sup>*" for y
    using that
  proof (induction rule: rtrancl_induct)
    case base
    from s(2) show ?case by (auto simp: walk_inv_def)
  next
    case (step y z)
    with s(2,3) show ?case by (auto simp: walk_inv_def)
  qed
  then have "set (ws_members s) = (belief (rels g) th)\<^sup>* `` {start}"
    using s(2) by (auto simp: walk_inv_def)
  with s show ?thesis by (simp add: Walk_def walk_inv_def)
qed

end

section \<open>The projection provides the interface\<close>

interpretation projection: belief_graph graph_wf RelationsTouching "\<lambda>g. snd ` set (g_relations g)"
proof
  fix g :: Graph and i t
  assume wf: "graph_wf g"
  show "finite (snd ` set (g_relations g))" by simp
  show "inj_on rel_ID (snd ` set (g_relations g))"
    using relations_distinct [of g] wf by (auto simp: graph_wf_def distinct_map comp_inj_on_iff inj_on_def)
  show "set (RelationsTouching g i t) =
      {r \<in> snd ` set (g_relations g). (t = [] \<or> rel_Type r = t) \<and> (rel_From r = i \<or> rel_To r = i)}"
    using wf by (auto simp: graph_wf_def RelationsTouching_scan)
qed

end
