(* ===== verification/Projection_Theorems.thy ===== *)
theory Projection_Theorems
  imports Projection_Reads Canonical
begin

text \<open>
  The properties of the projection and of the canonical view, each stated over the
  definitions of \<open>Projection_Graph\<close> and \<open>Canonical\<close>, with a small topology on which the
  hypotheses hold.
\<close>

section \<open>A small topology\<close>

definition fxHost :: Entity where
  "fxHost = \<lparr>ent_ID = ''h1'', ent_Type = ''host'', ent_Identity = [(''host.id'', StringValue ''a'')],
     ent_Attributes = [(''host.name'', StringValue ''web'')], ent_SchemaURL = []\<rparr>"

definition fxVM :: Entity where
  "fxVM = \<lparr>ent_ID = ''v1'', ent_Type = ''compute.vm'', ent_Identity = [(''vm.id'', StringValue ''b'')],
     ent_Attributes = [], ent_SchemaURL = []\<rparr>"

definition fxProc :: Entity where
  "fxProc = \<lparr>ent_ID = ''p1'', ent_Type = ''process'', ent_Identity = [(''process.pid'', IntValue 7)],
     ent_Attributes = [], ent_SchemaURL = []\<rparr>"

definition fxEdge :: Relation where
  "fxEdge = \<lparr>rel_ID = ''r1'', rel_Type = RelSameAs, rel_From = ''h1'', rel_To = ''v1'',
     rel_Attributes = [(ConfidenceKey, IntValue 1)], rel_Structural = False\<rparr>"

definition fxEvent :: "ChangeType \<Rightarrow> Entity \<Rightarrow> Event" where
  "fxEvent ct e = entityEvent (zeroEntityEvent\<lparr>ee_ChangeType := ct, ee_Entity := e, ee_RecordedAt := 1\<rparr>)"

definition fxLog :: "Event list" where
  "fxLog = [fxEvent EntityCreated fxHost, fxEvent EntityCreated fxVM,
     relationEv (zeroRelationEvent\<lparr>re_ChangeType := RelationAdded, re_Relation := fxEdge\<rparr>)]"

definition fxGraph :: Graph where
  "fxGraph = Replay 0 fxLog NewGraph"

lemmas fx_defs = fxHost_def fxVM_def fxProc_def fxEdge_def fxEvent_def

lemma fxGraph_wf: "graph_wf fxGraph"
proof -
  have diff: "IdentityHash fxHost \<noteq> IdentityHash fxVM"
    using IdentityHash_type [of fxHost fxVM] by (auto simp: fx_defs)
  let ?g1 = "Apply 0 (fxEvent EntityCreated fxHost) NewGraph"
  let ?g2 = "Apply 0 (fxEvent EntityCreated fxVM) ?g1"
  have "graph_wf NewGraph" unfolding NewGraph_def by (rule graph_wf_New)
  moreover have "admissible (fxEvent EntityCreated fxHost) NewGraph"
    by (simp add: admissible_def admits_put_def fxEvent_def NewGraph_def NewWithTombstoneCap_def)
  ultimately have 1: "graph_wf ?g1" by (rule graph_wf_Apply)
  have "admissible (fxEvent EntityCreated fxVM) ?g1"
    using diff
    by (simp add: admissible_def admits_put_def fxEvent_def Apply_def applyEntity_def NewGraph_def
        NewWithTombstoneCap_def Let_def) (simp add: fx_defs)
  from graph_wf_Apply [OF 1 this] have 2: "graph_wf ?g2" .
  have "admissible (relationEv (zeroRelationEvent\<lparr>re_ChangeType := RelationAdded, re_Relation := fxEdge\<rparr>)) ?g2"
    by (simp add: admissible_def admits_relation_def fxEvent_def Apply_def applyEntity_def NewGraph_def
        NewWithTombstoneCap_def Let_def)
  from graph_wf_Apply [OF 2 this] show ?thesis by (simp add: fxGraph_def fxLog_def Replay_def)
qed

lemma fx_no_dead: "no_dead_heartbeat [] fxLog"
  by (simp add: fxLog_def fx_defs put_change_def Let_def)

lemma isDeleted_New [simp]: "\<not> isDeleted (NewWithTombstoneCap n) i" "\<not> isDeleted NewGraph i"
  by (simp_all add: isDeleted_def NewGraph_def NewWithTombstoneCap_def gget_def)

lemma fxGraph_view: "view fxGraph = spec_replay fxLog emptyTopology"
  unfolding fxGraph_def using view_Replay [OF fx_no_dead, of NewGraph 0] by simp

lemma fxGraph_live: "live fxGraph ''h1'' = Some fxHost" "live fxGraph ''v1'' = Some fxVM"
  using fxGraph_view
  by (simp_all add: view_def spec_replay_def fxLog_def fxEvent_def spec_apply_def spec_entity_def spec_relation_def
      Let_def emptyTopology_def fun_eq_iff fxHost_def fxVM_def)

lemma fxGraph_relation: "map_of (g_relations fxGraph) ''r1'' = Some fxEdge"
  using fxGraph_view
  by (simp add: view_def spec_replay_def fxLog_def fxEvent_def spec_apply_def spec_entity_def spec_relation_def
      Let_def emptyTopology_def fun_eq_iff fxEdge_def)

section \<open>The tombstone cache\<close>

definition tombs_bounded :: "Graph \<Rightarrow> bool" where
  "tombs_bounded g = (wf_tombs g \<and> g_liveTombstones g \<le> g_tombstoneCap g)"

lemma cap_evict [simp]: "g_tombstoneCap (evictTombstones g) = g_tombstoneCap g"
  by (rule evictTombstones_invariant [where P = "\<lambda>g'. g_tombstoneCap g' = g_tombstoneCap g"]) simp_all

lemma cap_Apply [simp]: "g_tombstoneCap (Apply now ev g) = g_tombstoneCap g"
  by (auto simp: Apply_def applyEntity_def applyRelation_def Let_def split: option.splits ChangeType.splits)

lemma tombs_bounded_Apply:
  assumes "tombs_bounded g"
  shows "tombs_bounded (Apply now ev g)"
proof -
  have wf: "wf_tombs (Apply now ev g)" using assms wf_tombs_Apply by (simp add: tombs_bounded_def)
  have put: "g_liveTombstones (putEntity e g') \<le> g_tombstoneCap g" if "g_liveTombstones g' \<le> g_tombstoneCap g" for e g'
    using that by simp
  have le: "g_liveTombstones g \<le> g_tombstoneCap g" using assms by (simp add: tombs_bounded_def)
  have "g_liveTombstones (Apply now ev g) \<le> g_tombstoneCap g"
  proof (cases "ev_Entity ev")
    case None
    with le show ?thesis
      by (auto simp: Apply_def applyRelation_def Let_def split: option.splits ChangeType.splits)
  next
    case (Some ee)
    let ?d = "deleteEntry (ent_ID (ee_Entity ee)) g"
    have wfd: "wf_tombs ?d" using assms wf_tombs_cong [of g ?d] by (simp add: tombs_bounded_def)
    have "g_liveTombstones (evictTombstones (markDeleted now ee ?d)) \<le> g_tombstoneCap g"
      if "\<not> isDeleted g (ent_ID (ee_Entity ee))"
      using evictTombstones_cap [OF wf_tombs_markDeleted [OF wfd, of ee now]] that by simp
    with Some le show ?thesis
      by (cases "ee_ChangeType ee") (auto simp: Apply_def applyEntity_def Let_def intro!: put split: option.splits)
  qed
  with wf show ?thesis by (simp add: tombs_bounded_def)
qed

lemma tombs_bounded_New: "tombs_bounded (NewWithTombstoneCap n)"
  using graph_wf_New [of n]
  by (auto simp: tombs_bounded_def graph_wf_def NewWithTombstoneCap_def defaultTombstoneCap_def)

lemma tombs_bounded_Replay: "tombs_bounded g \<Longrightarrow> tombs_bounded (Replay now evs g)"
  unfolding Replay_def by (induction evs arbitrary: g) (simp_all add: tombs_bounded_Apply)

lemma cap_Replay [simp]: "g_tombstoneCap (Replay now evs g) = g_tombstoneCap g"
  unfolding Replay_def by (induction evs arbitrary: g) simp_all

text \<open>What one creation or one deletion does to the tombstone queue.\<close>

lemma tomb_create:
  "g_deleted (Apply now (fxEvent EntityCreated e) g) = gdel (ent_ID e) (g_deleted g)"
  "g_tombstones (Apply now (fxEvent EntityCreated e) g) = g_tombstones g"
  "g_liveTombstones (Apply now (fxEvent EntityCreated e) g) =
     (if isDeleted g (ent_ID e) then g_liveTombstones g - 1 else g_liveTombstones g)"
  by (simp_all add: fxEvent_def Apply_def applyEntity_def Let_def)

lemma evict_below: "\<not> g_liveTombstones g > g_tombstoneCap g \<Longrightarrow> evictTombstones g = g"
  by (simp add: evictTombstones.simps)

lemma evict_head:
  "g_liveTombstones g = g_tombstoneCap g + 1 \<Longrightarrow> g_tombstones g = i # q \<Longrightarrow> isDeleted g i \<Longrightarrow>
     g_deleted (evictTombstones g) = gdel i (g_deleted g)"
  by (subst evictTombstones.simps) (simp add: Let_def evict_below)

lemma tomb_delete:
  assumes "\<not> isDeleted g (ent_ID e)" and "g_liveTombstones g < g_tombstoneCap g"
  shows "g_deleted (Apply now (fxEvent EntityDeleted e) g) = gput (ent_ID e) True (g_deleted g)"
    and "g_tombstones (Apply now (fxEvent EntityDeleted e) g) = g_tombstones g @ [ent_ID e]"
    and "g_liveTombstones (Apply now (fxEvent EntityDeleted e) g) = g_liveTombstones g + 1"
  using assms by (simp_all add: fxEvent_def Apply_def applyEntity_def Let_def evict_below)

lemma tomb_full:
  assumes "\<not> isDeleted g (ent_ID e)" and "g_liveTombstones g = g_tombstoneCap g"
    and "g_tombstones g = i # q" and "isDeleted g i"
  shows "g_deleted (Apply now (fxEvent EntityDeleted e) g) = gdel i (gput (ent_ID e) True (g_deleted g))"
  using assms by (simp add: fxEvent_def Apply_def applyEntity_def Let_def evict_head)

section \<open>Properties of the projection\<close>

text \<open>
  C34. The projection refines the log: after replaying any log in which no heartbeat follows a
  deletion without a re-creation, the live entities and the relations are exactly those the
  abstract meaning of the events gives, whatever the tombstone cache holds.
\<close>

theorem projection_refines_log:
  assumes "no_dead_heartbeat [] evs"
  shows "view (Replay now evs (NewWithTombstoneCap n)) = spec_replay evs emptyTopology"
  using view_Replay [OF assms, of "NewWithTombstoneCap n" now] by simp

theorem projection_refines_log_witness:
  "no_dead_heartbeat [] fxLog \<and> view (Replay 0 fxLog (NewWithTombstoneCap 1)) = spec_replay fxLog emptyTopology"
  using projection_refines_log [of fxLog 0 1] fx_no_dead by simp

text \<open>
  C40. Every admissible event keeps the redundant indexes of the graph consistent: the identity
  and type indexes list exactly the live entities, the adjacency sets exactly the relations, and
  the tombstone counter, queue and deadlines agree with the deleted set; pruning tombstones keeps
  all of it too.
\<close>

theorem projection_indexes_consistent:
  assumes "graph_wf g" and "admissible ev g"
  shows "graph_wf (Apply now ev g) \<and> graph_wf (fst (PruneTombstones later (Apply now ev g)))"
  using graph_wf_Apply [OF assms] graph_wf_Prune by blast

theorem projection_indexes_consistent_witness:
  "graph_wf fxGraph \<and> admissible (fxEvent EntityDeleted fxVM) fxGraph \<and>
   graph_wf (Apply 3 (fxEvent EntityDeleted fxVM) fxGraph)"
proof -
  have "admissible (fxEvent EntityDeleted fxVM) fxGraph"
    using fxGraph_live(2) by (simp add: admissible_def fxEvent_def live_def fxVM_def split: if_splits)
  with projection_indexes_consistent [of fxGraph "fxEvent EntityDeleted fxVM" 3 4] fxGraph_wf show ?thesis by simp
qed

text \<open>
  The memory of soft-deleted entities is bounded: after any sequence of events whatsoever a
  graph keeps at most its tombstone cap of them, and a graph built with a non-positive cap keeps
  at most the default 1024.
\<close>

theorem tombstones_bounded:
  "int (length (g_deleted (Replay now evs (NewWithTombstoneCap n)))) \<le> (if n \<le> 0 then 1024 else n)"
proof -
  let ?g = "Replay now evs (NewWithTombstoneCap n)"
  have cap: "g_tombstoneCap ?g = (if n \<le> 0 then 1024 else n)"
    unfolding cap_Replay by (simp add: NewWithTombstoneCap_def defaultTombstoneCap_def)
  have "tombs_bounded ?g" by (rule tombs_bounded_Replay [OF tombs_bounded_New])
  then show ?thesis unfolding cap [symmetric] by (simp add: tombs_bounded_def wf_tombs_def)
qed

text \<open>
  An identity match is exact: it answers the live entity whose identity hash is that of the
  observed identity when there is one, nothing otherwise, and the entity it answers has the
  observed type.
\<close>

theorem MatchIdentity_exact:
  assumes "graph_wf g"
  shows "MatchIdentity g t identity = Some i \<longleftrightarrow>
    (\<exists>e. live g i = Some e \<and> ent_Type e = t \<and> IdentityHash e = identityHashOf t identity)"
proof -
  have wf: "wf_index g" using assms by (simp add: graph_wf_def)
  show ?thesis
    unfolding MatchIdentity_iff [OF wf] by (auto simp: IdentityHash_def dest: identityHashOf_type)
qed

theorem MatchIdentity_exact_witness:
  "graph_wf fxGraph \<and> MatchIdentity fxGraph ''host'' [(''host.id'', StringValue ''a'')] = Some ''h1''"
  using MatchIdentity_exact [of fxGraph "''host''" "[(''host.id'', StringValue ''a'')]" "''h1''"]
    fxGraph_wf fxGraph_live(1) by (simp add: fxHost_def)

text \<open>
  The bounded neighbourhood is right: for a depth of at least one, the entities answered are
  the live ones among the ids reachable over relations of the wanted type, in either direction, in
  at most that many hops, the start excluded and each id once.
\<close>

theorem Neighbors_reachable:
  assumes "graph_wf g" and "1 \<le> depth"
  shows "\<exists>ids. Neighbors g i relType depth = List.map_filter (live g) ids \<and> distinct ids \<and>
    set ids = reach_within (hop g relType) (nat depth) {i} - {i}"
  using Neighbors_correct [of g depth i relType] assms by (simp add: graph_wf_def)

theorem Neighbors_reachable_witness:
  "\<exists>ids. Neighbors fxGraph ''h1'' [] 2 = List.map_filter (live fxGraph) ids \<and> distinct ids \<and>
    set ids = reach_within (hop fxGraph []) 2 {''h1''} - {''h1''}"
  using Neighbors_reachable [of fxGraph 2 "''h1''" "[]"] fxGraph_wf by simp

text \<open>
  The adjacency index is equivalent to the scan it replaces: the relations touching an id are
  the relations of the graph with that endpoint and type, each once, in the order of their ids.
\<close>

theorem RelationsTouching_equals_scan:
  assumes "graph_wf g"
  shows "RelationsTouching g i relType = sort_key rel_ID
    (filter (\<lambda>r. (relType = [] \<or> rel_Type r = relType) \<and> (rel_From r = i \<or> rel_To r = i)) (map snd (g_relations g)))"
  using RelationsTouching_scan [of g i relType] assms by (simp add: graph_wf_def)

theorem RelationsTouching_equals_scan_witness:
  "fxEdge \<in> set (RelationsTouching fxGraph ''v1'' RelSameAs)"
  using RelationsTouching_equals_scan [OF fxGraph_wf, of "''v1''" RelSameAs] map_of_SomeD [OF fxGraph_relation]
  by (force simp: fxEdge_def)

text \<open>
  A snapshot restores the graph: replaying the synthetic events of a snapshot into a fresh
  graph gives exactly the live entities and relations the graph had.
\<close>

theorem snapshot_restores:
  assumes "graph_wf g"
  shows "view (Replay now (SnapshotEvents newID when g) NewGraph) = view g"
  by (rule view_snapshot [OF assms])

theorem snapshot_restores_witness:
  "graph_wf fxGraph \<and> view (Replay 5 (SnapshotEvents itoa 4 fxGraph) NewGraph) = spec_replay fxLog emptyTopology"
  using snapshot_restores [OF fxGraph_wf, of 5 itoa 4] fxGraph_wf fxGraph_view by simp

text \<open>
  Cursor paging loses and repeats nothing: a client that follows the cursor with a positive
  page size from the start ends, and the pages together are the fingerprint-ordered list of the
  type.
\<close>

theorem paging_complete:
  assumes "graph_wf g" and "0 < limit"
  shows "\<exists>fuel. all_pages fuel g t [] limit = Some (ListEntitiesByFingerprint g t)"
proof -
  have "all_pages (Suc (length (pageKeys g t []))) g t [] limit =
      Some (map (\<lambda>(fp, i). entityAt g i) (pageKeys g t []))"
    using all_pages_complete [of g limit t "[]" "Suc (length (pageKeys g t []))"] assms
    by (simp add: graph_wf_def del: all_pages.simps)
  also have "map (\<lambda>(fp, i). entityAt g i) (pageKeys g t []) = ListEntitiesByFingerprint g t"
    by (simp add: pageKeys_start ListEntitiesByFingerprint_def)
  finally show ?thesis ..
qed

theorem paging_complete_witness:
  "graph_wf fxGraph \<and> (\<exists>fuel. all_pages fuel fxGraph [] [] 1 = Some (ListEntitiesByFingerprint fxGraph []))"
  using paging_complete [OF fxGraph_wf, of 1 "[]"] fxGraph_wf by simp

text \<open>
  The handle a read surface hands out leads back to its entity: resolving the fingerprint of a
  live entity whose type has no colon answers that entity's id.
\<close>

theorem handle_resolves:
  assumes "graph_wf g" and "live g i = Some e" and "CHR '':'' \<notin> set (ent_Type e)"
  shows "ResolveHandle g (IdentityHash e) = Some i"
  using ResolveHandle_fingerprint [OF _ assms(2,3)] assms(1) by (simp add: graph_wf_def)

theorem handle_resolves_witness: "ResolveHandle fxGraph (IdentityHash fxHost) = Some ''h1''"
  using handle_resolves [OF fxGraph_wf fxGraph_live(1)] by (simp add: fxHost_def)

text \<open>
  The canonical view is the connected component of belief: the walk terminates, lists each
  member once with the start first, and its members are exactly the entities reachable over
  \<open>same_as\<close> edges whose confidence is readable and at or above the threshold.
\<close>

theorem Walk_component:
  assumes "graph_wf g"
  shows "\<exists>members links. Walk (RelationsTouching g) start th = Some (members, links) \<and> distinct members \<and>
    hd members = start \<and> set members = (belief (snd ` set (g_relations g)) th)\<^sup>* `` {start}"
  by (rule projection.walk_group [OF assms])

theorem Walk_component_witness:
  "\<exists>members links. Walk (RelationsTouching fxGraph) ''h1'' DefaultThreshold = Some (members, links) \<and>
    distinct members \<and> hd members = ''h1'' \<and>
    set members = (belief (snd ` set (g_relations fxGraph)) DefaultThreshold)\<^sup>* `` {''h1''}"
  using Walk_component [OF fxGraph_wf, of "''h1''" DefaultThreshold] by simp

text \<open>
  The eviction order follows the first deletion of an id and not its latest one: with room for
  two tombstones, an entity deleted, resurrected and deleted again after another one is the one
  evicted, although the other was deleted earlier.
\<close>

theorem evicts_redeleted_first:
  "let g = Replay 0 [fxEvent EntityCreated fxHost, fxEvent EntityCreated fxVM, fxEvent EntityCreated fxProc,
       fxEvent EntityDeleted fxHost, fxEvent EntityCreated fxHost, fxEvent EntityDeleted fxVM,
       fxEvent EntityDeleted fxHost, fxEvent EntityDeleted fxProc] (NewWithTombstoneCap 2)
   in isDeleted g ''v1'' \<and> \<not> isDeleted g ''h1''"
proof -
  have ids: "ent_ID fxHost = ''h1''" "ent_ID fxVM = ''v1''" "ent_ID fxProc = ''p1''" by (simp_all add: fx_defs)
  define g3 where "g3 = Replay 0 [fxEvent EntityCreated fxHost, fxEvent EntityCreated fxVM,
    fxEvent EntityCreated fxProc] (NewWithTombstoneCap 2)"
  have c: "g_tombstoneCap g3 = 2" by (simp add: g3_def) (simp add: NewWithTombstoneCap_def)
  have g3: "g_deleted g3 = []" "g_tombstones g3 = []" "g_liveTombstones g3 = 0"
    by (simp_all add: g3_def Replay_def tomb_create isDeleted_def) (simp_all add: NewWithTombstoneCap_def)
  define g4 where "g4 = Apply 0 (fxEvent EntityDeleted fxHost) g3"
  have g4: "g_deleted g4 = [(''h1'', True)]" "g_tombstones g4 = [''h1'']" "g_liveTombstones g4 = 1"
    using g3 c by (simp_all add: g4_def tomb_delete ids isDeleted_def gget_def)
  define g5 where "g5 = Apply 0 (fxEvent EntityCreated fxHost) g4"
  have g5: "g_deleted g5 = []" "g_tombstones g5 = [''h1'']" "g_liveTombstones g5 = 0"
    using g4 by (simp_all add: g5_def tomb_create ids isDeleted_def gget_def)
  define g6 where "g6 = Apply 0 (fxEvent EntityDeleted fxVM) g5"
  have g6: "g_deleted g6 = [(''v1'', True)]" "g_tombstones g6 = [''h1'', ''v1'']" "g_liveTombstones g6 = 1"
    using g5 c by (simp_all add: g6_def tomb_delete ids isDeleted_def gget_def g5_def g4_def)
  define g7 where "g7 = Apply 0 (fxEvent EntityDeleted fxHost) g6"
  have c6: "g_tombstoneCap g6 = 2" using c by (simp add: g6_def g5_def g4_def)
  have g7: "g_deleted g7 = gput ''h1'' True [(''v1'', True)]" "g_tombstones g7 = [''h1'', ''v1'', ''h1'']"
    "g_liveTombstones g7 = 2" "g_tombstoneCap g7 = 2"
    using g6 c6 by (simp_all add: g7_def tomb_delete ids isDeleted_def gget_def)
  have "g_deleted (Apply 0 (fxEvent EntityDeleted fxProc) g7) = gdel ''h1'' (gput ''p1'' True (g_deleted g7))"
    by (rule tomb_full [of g7 fxProc "''h1''", unfolded ids]) (simp_all add: g7 isDeleted_def gget_def)
  then have "isDeleted (Apply 0 (fxEvent EntityDeleted fxProc) g7) ''v1'' \<and>
      \<not> isDeleted (Apply 0 (fxEvent EntityDeleted fxProc) g7) ''h1''"
    using g7(1) by (simp add: isDeleted_def gget_def)
  then show ?thesis
    unfolding g7_def g6_def g5_def g4_def g3_def by (simp add: Replay_def)
qed

end
