(* ===== verification/Tenant.thy ===== *)
theory Tenant
  imports Go_Stdlib
begin

text \<open>
  \<open>internal/tenant\<close>: the tenant id of a request, and the ids that may name a store directory.
\<close>

section \<open>Definitions\<close>

definition Default :: string where "Default = ''default''"
definition HeaderOrgID :: string where "HeaderOrgID = ''X-Scope-OrgID''"
definition ResourceAttr :: string where "ResourceAttr = ''tenant.id''"
definition maxLen :: nat where "maxLen = 64"

text \<open>The context value, when the request carries one.\<close>

definition FromContext :: "string option \<Rightarrow> string" where
  "FromContext ctx = (case ctx of Some i \<Rightarrow> if i \<noteq> [] then i else Default | None \<Rightarrow> Default)"

definition idByte :: "char \<Rightarrow> bool" where
  "idByte c = (in_range 97 122 c \<or> in_range 65 90 c \<or> in_range 48 57 c \<or> c = CHR ''-'' \<or> c = CHR ''_'' \<or> c = CHR ''.'')"

text \<open>A rune outside ASCII has only bytes that are no id byte, so the runes can be read as bytes.\<close>

definition Sanitize :: "string \<Rightarrow> string \<times> bool" where
  "Sanitize raw =
     (let raw = trim_space raw
      in if raw = [] then (Default, True)
         else if length raw > maxLen \<or> raw = ''.'' \<or> raw = ''..'' then ([], False)
         else if list_all idByte raw then (raw, True)
         else ([], False))"

text \<open>The header's value, empty when it is absent; the query parameter; the metadata values.\<close>

definition FromHTTP :: "string \<Rightarrow> string \<times> bool" where
  "FromHTTP header = Sanitize header"

definition FromHTTPWithQuery :: "string \<Rightarrow> string \<Rightarrow> string \<times> bool" where
  "FromHTTPWithQuery q header = (if q \<noteq> [] then Sanitize q else FromHTTP header)"

definition FromGRPC :: "string list \<Rightarrow> string \<times> bool" where
  "FromGRPC vals = (case vals of [] \<Rightarrow> (Default, True) | v # _ \<Rightarrow> Sanitize v)"

section \<open>Sanitized ids\<close>

lemma space_lead: "p \<in> set encs \<Longrightarrow> p \<noteq> []" if "encs = space_encodings \<or> encs = map rev space_encodings"
  using that by (auto simp: space_encodings_def)

lemma spaces_no_id: "list_all (list_all (\<lambda>c. \<not> idByte c)) space_encodings"
  by code_simp

lemma id_not_space:
  assumes "list_all idByte s" and "encs = space_encodings \<or> encs = map rev space_encodings"
  shows "lead_space encs s = 0"
proof (cases s)
  case Nil
  have "find (has_prefix []) encs = None"
    unfolding find_None_iff using space_lead [OF assms(2)] by (auto simp: has_prefix_def)
  then show ?thesis by (simp add: lead_space_def Nil)
next
  case (Cons c s')
  have c: "idByte c" using assms(1) Cons by simp
  have "\<forall>p \<in> set encs. \<forall>b \<in> set p. \<not> idByte b"
    using assms(2) spaces_no_id by (auto simp: list_all_iff)
  moreover have "\<exists>b \<in> set p. b = c" if p: "p \<in> set encs" "has_prefix s p" for p
  proof -
    obtain b p' where "p = b # p'" using space_lead [OF assms(2) p(1)] by (meson neq_Nil_conv)
    with p(2) show ?thesis by (simp add: has_prefix_def Cons)
  qed
  ultimately have "\<not> (\<exists>p. p \<in> set encs \<and> has_prefix s p)" using c by blast
  then have "find (has_prefix s) encs = None" by (simp add: find_None_iff)
  then show ?thesis by (simp add: lead_space_def)
qed

lemma trim_id: "list_all idByte s \<Longrightarrow> trim_space s = s"
  using id_not_space [of s space_encodings] id_not_space [of "rev s" "map rev space_encodings"]
  by (simp add: trim_space_def trim_left.simps [of space_encodings s] trim_left.simps [of "map rev space_encodings" "rev s"] list_all_iff)

lemma Sanitize_accepted:
  assumes "Sanitize raw = (i, True)"
  shows "i \<noteq> [] \<and> length i \<le> maxLen \<and> i \<noteq> ''.'' \<and> i \<noteq> ''..'' \<and> list_all idByte i" and "Sanitize i = (i, True)"
proof -
  have d: "list_all idByte Default" by (simp add: Default_def idByte_def in_range_def)
  show *: "i \<noteq> [] \<and> length i \<le> maxLen \<and> i \<noteq> ''.'' \<and> i \<noteq> ''..'' \<and> list_all idByte i"
    using assms d by (auto simp: Sanitize_def Let_def maxLen_def Default_def split: if_splits)
  then show "Sanitize i = (i, True)" by (simp add: Sanitize_def trim_id)
qed

lemma Default_accepted [simp]: "Sanitize Default = (Default, True)"
  by (rule Sanitize_accepted(2) [of "[]"]) (simp add: Sanitize_def trim_id)

text \<open>
  C33. A tenant id that is accepted can name a directory of its own and nothing else: it is not
  empty, at most 64 bytes, neither dot nor dot-dot, and of letters, digits, dashes, underscores
  and dots only, so it holds no path separator; and sanitizing it again gives it back, so it
  names one tenant wherever it is resolved.
\<close>

theorem sanitized_id_is_a_path_segment:
  assumes "Sanitize raw = (i, True)"
  shows "i \<noteq> [] \<and> length i \<le> 64 \<and> i \<noteq> ''.'' \<and> i \<noteq> ''..'' \<and> (\<forall>c \<in> set i. idByte c \<and> c \<noteq> CHR ''/'') \<and> Sanitize i = (i, True)"
proof -
  have "\<not> idByte (CHR ''/'')" by (simp add: idByte_def in_range_def)
  with Sanitize_accepted [OF assms] show ?thesis by (auto simp: maxLen_def list_all_iff)
qed

theorem sanitized_id_is_a_path_segment_witness: "Sanitize '' acme-1 '' = (''acme-1'', True) \<and> Sanitize ''acme-1'' = (''acme-1'', True)"
proof -
  have "Sanitize '' acme-1 '' = (''acme-1'', True)" by code_simp
  with sanitized_id_is_a_path_segment [OF this] show ?thesis by blast
qed

end
