(* ===== verification/Auth.thy ===== *)
theory Auth
  imports Tenant Toise_Prelude
begin

text \<open>
  \<open>internal/auth\<close>: bearer tokens, what they grant on which surface and for which tenant, and how
  the tenant of a request is resolved.

  A configured token is kept as its hash.  The verifier of OIDC tokens is a parameter, the function
  from a raw token to the tenant and role it grants.  A request is the record of the parts that
  the package reads and sets: the path, the headers, the tenant parameter of the query, and the two values of its
  context.  What the
  middleware does with a request is the request it passes on or the status it answers, and whether
  the failure hook ran.
\<close>

section \<open>Tokens\<close>

type_synonym scopedTokens = "(string, string list) gomap"

datatype surface = surfaceRead | surfaceIngest

record Authenticator =
  au_tokens :: "string list"
  au_readTokens :: "string list"
  au_ingestTokens :: "string list"
  au_scoped :: scopedTokens
  au_scopedRead :: scopedTokens
  au_scopedIngest :: scopedTokens
  au_deriveOnly :: bool
  au_oidc :: "(string \<Rightarrow> (string \<times> string) option) option"
  au_oidcDeclared :: bool
  au_ingestMTLSOnly :: bool
  au_tenantExempt :: "(string, bool) gomap"
  au_unauthenticatedWrites :: bool

definition hashToken :: "string \<Rightarrow> string" where
  "hashToken t = sha256 t"

definition toBytes :: "string list \<Rightarrow> string list" where
  "toBytes toks = foldl (\<lambda>out t. let t = trim_space t in if t \<noteq> [] then out @ [hashToken t] else out) [] toks"

definition hashScopedMap :: "(string, string list) gomap \<Rightarrow> scopedTokens" where
  "hashScopedMap m =
     foldl (\<lambda>out (tenantID, toks).
        foldl (\<lambda>out t. let t = trim_space t in
           if t = [] then out else gput tenantID (gget [] out tenantID @ [hashToken t]) out) out toks) [] m"

definition NewWithRoles :: "string list \<Rightarrow> string list \<Rightarrow> string list \<Rightarrow> (string, string list) gomap \<Rightarrow> Authenticator" where
  "NewWithRoles both readOnly ingestOnly scoped =
     \<lparr>au_tokens = toBytes both, au_readTokens = toBytes readOnly, au_ingestTokens = toBytes ingestOnly,
      au_scoped = hashScopedMap scoped, au_scopedRead = [], au_scopedIngest = [], au_deriveOnly = False, au_oidc = None,
      au_oidcDeclared = False, au_ingestMTLSOnly = False, au_tenantExempt = [], au_unauthenticatedWrites = False\<rparr>"

definition NewWithTenantTokens :: "string list \<Rightarrow> (string, string list) gomap \<Rightarrow> Authenticator" where
  "NewWithTenantTokens global scoped = NewWithRoles global [] [] scoped"

definition NewAuth :: "string list \<Rightarrow> Authenticator" where
  "NewAuth tokens = NewWithTenantTokens tokens []"

definition WithScopedRoleTokens :: "(string, string list) gomap \<Rightarrow> (string, string list) gomap \<Rightarrow> Authenticator \<Rightarrow> Authenticator" where
  "WithScopedRoleTokens read ingest a = a\<lparr>au_scopedRead := hashScopedMap read, au_scopedIngest := hashScopedMap ingest\<rparr>"

definition SetTenantExemptPaths :: "(string, bool) gomap \<Rightarrow> Authenticator \<Rightarrow> Authenticator" where
  "SetTenantExemptPaths paths a = a\<lparr>au_tenantExempt := paths\<rparr>"

definition SetOIDC :: "(string \<Rightarrow> (string \<times> string) option) option \<Rightarrow> Authenticator \<Rightarrow> Authenticator" where
  "SetOIDC v a = a\<lparr>au_oidc := v, au_oidcDeclared := (v \<noteq> None)\<rparr>"

definition SetOIDCDeclared :: "bool \<Rightarrow> Authenticator \<Rightarrow> Authenticator" where
  "SetOIDCDeclared v a = a\<lparr>au_oidcDeclared := v\<rparr>"

definition SetTenantTrustMode :: "bool \<Rightarrow> Authenticator \<Rightarrow> Authenticator" where
  "SetTenantTrustMode deriveOnly a = a\<lparr>au_deriveOnly := deriveOnly\<rparr>"

definition SetIngestMTLSOnly :: "bool \<Rightarrow> Authenticator \<Rightarrow> Authenticator" where
  "SetIngestMTLSOnly v a = a\<lparr>au_ingestMTLSOnly := v\<rparr>"

definition SetUnauthenticatedWrites :: "bool \<Rightarrow> Authenticator \<Rightarrow> Authenticator" where
  "SetUnauthenticatedWrites v a = a\<lparr>au_unauthenticatedWrites := v\<rparr>"

definition Enabled :: "Authenticator \<Rightarrow> bool" where
  "Enabled a = (au_tokens a \<noteq> [] \<or> au_readTokens a \<noteq> [] \<or> au_ingestTokens a \<noteq> [] \<or> au_scoped a \<noteq> [] \<or>
     au_scopedRead a \<noteq> [] \<or> au_scopedIngest a \<noteq> [] \<or> au_oidc a \<noteq> None \<or> au_oidcDeclared a)"

definition UnauthenticatedWritesAllowed :: "Authenticator \<Rightarrow> bool" where
  "UnauthenticatedWritesAllowed a = (au_unauthenticatedWrites a \<and> \<not> Enabled a)"

section \<open>What a token grants\<close>

definition matchAny :: "string \<Rightarrow> string list \<Rightarrow> bool" where
  "matchAny token wants = foldl (\<lambda>ok want. if token = want then True else ok) False wants"

definition roleSet :: "surface \<Rightarrow> Authenticator \<Rightarrow> string list" where
  "roleSet s a = (if s = surfaceIngest then au_ingestTokens a else au_readTokens a)"

definition scopedRoleSet :: "surface \<Rightarrow> Authenticator \<Rightarrow> scopedTokens" where
  "scopedRoleSet s a = (if s = surfaceIngest then au_scopedIngest a else au_scopedRead a)"

definition valid :: "string \<Rightarrow> surface \<Rightarrow> Authenticator \<Rightarrow> bool" where
  "valid token s a =
     (let got = hashToken token;
          full = matchAny got (au_tokens a);
          role = matchAny got (roleSet s a);
          scoped = foldl (\<lambda>ok (_, toks). if matchAny got toks then True else ok) False (au_scoped a);
          scoped = foldl (\<lambda>ok (_, toks). if matchAny got toks then True else ok) scoped (scopedRoleSet s a)
      in full \<or> role \<or> scoped)"

definition allowedForTenant :: "string \<Rightarrow> string \<Rightarrow> surface \<Rightarrow> Authenticator \<Rightarrow> bool" where
  "allowedForTenant token tenantID s a =
     (let got = hashToken token;
          full = matchAny got (au_tokens a);
          role = matchAny got (roleSet s a);
          scoped = (matchAny got (gget [] (au_scoped a) tenantID) \<or> matchAny got (gget [] (scopedRoleSet s a) tenantID))
      in full \<or> role \<or> scoped)"

definition lowerByte :: "char \<Rightarrow> char" where
  "lowerByte c = (if in_range 65 90 c then char_of (of_char c + 32 :: nat) else c)"

text \<open>
  \<open>strings.EqualFold\<close> with the prefix, whose letters have no case variant outside ASCII, is equality
  of the lower-case bytes.
\<close>

definition bearer :: "string \<Rightarrow> string" where
  "bearer h =
     (let prefix = ''Bearer ''
      in if length h \<le> length prefix \<or> map lowerByte (take (length prefix) h) \<noteq> map lowerByte prefix then []
         else trim_space (drop (length prefix) h))"

definition validHeader :: "string \<Rightarrow> surface \<Rightarrow> Authenticator \<Rightarrow> bool" where
  "validHeader h s a = (bearer h \<noteq> [] \<and> valid (bearer h) s a)"

definition headerAllowedForTenant :: "string \<Rightarrow> string \<Rightarrow> surface \<Rightarrow> Authenticator \<Rightarrow> bool" where
  "headerAllowedForTenant h tenantID s a = (bearer h \<noteq> [] \<and> allowedForTenant (bearer h) tenantID s a)"

definition canWriteHeader :: "string \<Rightarrow> Authenticator \<Rightarrow> bool" where
  "canWriteHeader h a =
     (let t = bearer h
      in if t = [] then False
         else let got = hashToken t
              in if matchAny got (au_tokens a) then True
                 else list_ex (\<lambda>(_, toks). matchAny got toks) (au_scoped a))"

section \<open>The tenant of a request\<close>

text \<open>The one tenant a scoped token is bound to.\<close>

definition TenantForBearer :: "string \<Rightarrow> Authenticator \<Rightarrow> string option" where
  "TenantForBearer h a =
     (let t = bearer h
      in if t = [] then None
         else let got = hashToken t
              in if matchAny got (au_tokens a) \<or> matchAny got (au_readTokens a) \<or> matchAny got (au_ingestTokens a) then None
                 else let seen = foldl (\<lambda>seen m. foldl (\<lambda>seen (tid, toks). if matchAny got toks then gadd tid seen else seen) seen m)
                                   [] [au_scoped a, au_scopedRead a, au_scopedIngest a]
                      in case seen of [(tid, _)] \<Rightarrow> Some tid | _ \<Rightarrow> None)"

text \<open>The metadata of a gRPC call.\<close>

record GrpcContext =
  gc_authorization :: "string list"
  gc_orgID :: "string list"

definition TenantForBearerGRPC :: "GrpcContext \<Rightarrow> Authenticator \<Rightarrow> string option" where
  "TenantForBearerGRPC ctx a = (case gc_authorization ctx of [] \<Rightarrow> None | v # _ \<Rightarrow> TenantForBearer v a)"

definition EffectiveTenantGRPC :: "Authenticator \<Rightarrow> GrpcContext \<Rightarrow> string \<times> bool \<times> bool" where
  "EffectiveTenantGRPC a ctx =
     (case (if au_deriveOnly a \<and> Enabled a then TenantForBearerGRPC ctx a else None) of
        Some t \<Rightarrow> (t, True, True)
      | None \<Rightarrow> (case FromGRPC (gc_orgID ctx) of (i, ok) \<Rightarrow> (i, False, ok)))"

definition AllowedForTenantGRPC :: "Authenticator \<Rightarrow> GrpcContext \<Rightarrow> string \<Rightarrow> bool" where
  "AllowedForTenantGRPC a ctx tenantID =
     (if au_ingestMTLSOnly a then True
      else if \<not> Enabled a then True
      else case gc_authorization ctx of [] \<Rightarrow> False | v # _ \<Rightarrow> headerAllowedForTenant v tenantID surfaceIngest a)"

text \<open>\<open>checkContext\<close>, which the two interceptors run before the handler; True is a pass.\<close>

definition checkContext :: "Authenticator \<Rightarrow> GrpcContext \<Rightarrow> bool" where
  "checkContext a ctx =
     (if au_ingestMTLSOnly a then True
      else if \<not> Enabled a then True
      else case gc_authorization ctx of [] \<Rightarrow> False | v # _ \<Rightarrow> validHeader v surfaceIngest a)"

section \<open>HTTP\<close>

record Request =
  rq_Path :: string
  rq_Authorization :: string
  rq_OrgID :: string
  rq_TenantQuery :: string
  rq_resolvedTenant :: "string option"
  rq_writable :: "bool option"

definition WithWritable :: "bool \<Rightarrow> Request \<Rightarrow> Request" where
  "WithWritable writable r = r\<lparr>rq_writable := Some writable\<rparr>"

definition CanWrite :: "Request \<Rightarrow> bool" where
  "CanWrite r = (case rq_writable r of Some v \<Rightarrow> v | None \<Rightarrow> False)"

definition EffectiveTenantHTTP :: "Authenticator \<Rightarrow> Request \<Rightarrow> string \<times> bool" where
  "EffectiveTenantHTTP a r =
     (case rq_resolvedTenant r of
        Some i \<Rightarrow> if i \<noteq> [] then (i, True)
          else (case (if au_deriveOnly a \<and> Enabled a then TenantForBearer (rq_Authorization r) a else None) of
                  Some i \<Rightarrow> (i, True) | None \<Rightarrow> FromHTTP (rq_OrgID r))
      | None \<Rightarrow>
          (case (if au_deriveOnly a \<and> Enabled a then TenantForBearer (rq_Authorization r) a else None) of
             Some i \<Rightarrow> (i, True) | None \<Rightarrow> FromHTTP (rq_OrgID r)))"

definition MetricsScope :: "Authenticator \<Rightarrow> Request \<Rightarrow> string \<times> bool" where
  "MetricsScope a r =
     (if \<not> Enabled a then ([], True)
      else case rq_resolvedTenant r of
             Some (c # i) \<Rightarrow> (c # i, False)
           | _ \<Rightarrow>
               (let t = bearer (rq_Authorization r)
                in if t = [] then ([], False)
                   else if matchAny (hashToken t) (au_tokens a) \<or> matchAny (hashToken t) (au_readTokens a) then ([], True)
                   else case TenantForBearer (rq_Authorization r) a of Some i \<Rightarrow> (i, False) | None \<Rightarrow> ([], False)))"

datatype outcome = Pass Request | Forbidden | Unauthorized

text \<open>The wrapped handler; \<open>public\<close> are the paths that need no token, and the flag is the failure hook.\<close>

definition HTTPMiddleware :: "(string, bool) gomap \<Rightarrow> Authenticator \<Rightarrow> Request \<Rightarrow> outcome \<times> bool" where
  "HTTPMiddleware public a r =
     (if \<not> Enabled a then (Pass (WithWritable (UnauthenticatedWritesAllowed a) r), False)
      else if gget False public (rq_Path r) then (Pass r, False)
      else
        let h = rq_Authorization r
        in if validHeader h surfaceRead a then
             (case EffectiveTenantHTTP a r of (i, ok) \<Rightarrow>
                if ok \<and> \<not> gget False (au_tenantExempt a) (rq_Path r) \<and> \<not> allowedForTenant (bearer h) i surfaceRead a
                then (Forbidden, True)
                else (Pass (WithWritable (canWriteHeader h a) r), False))
           else
             case au_oidc a of
               None \<Rightarrow> (Unauthorized, True)
             | Some verify \<Rightarrow>
                 (case verify (bearer h) of
                    None \<Rightarrow> (Unauthorized, True)
                  | Some (tID, role) \<Rightarrow>
                      if role = ''ingest'' then (Forbidden, True)
                      else (Pass (WithWritable (role = ''full'') (r\<lparr>rq_resolvedTenant := Some tID\<rparr>)), False)))"

end
