(* ===== verification/Oidc.thy ===== *)
theory Oidc
  imports Auth
begin

text \<open>
  \<open>internal/oidc\<close>: the claims of a verified token become a tenant and a role.  Verification of the
  token itself (signature, issuer, audience, expiry) belongs to a library and is a parameter, the
  function from a raw token to the claims of one that verifies.
\<close>

definition RoleFull :: string where "RoleFull = ''full''"
definition RoleRead :: string where "RoleRead = ''read''"
definition RoleIngest :: string where "RoleIngest = ''ingest''"

record OidcConfig =
  oc_Issuer :: string
  oc_Audience :: string
  oc_TenantClaim :: string
  oc_RoleClaim :: string

definition tenantClaim :: "OidcConfig \<Rightarrow> string" where
  "tenantClaim c = (if oc_TenantClaim c = [] then ''tenant'' else oc_TenantClaim c)"

text \<open>A claim is a string or another JSON value.\<close>

datatype claim = ClaimString string | ClaimOther

definition claimString :: "(string, claim) gomap \<Rightarrow> string \<Rightarrow> string" where
  "claimString claims k = (case map_of claims k of Some (ClaimString s) \<Rightarrow> s | _ \<Rightarrow> [])"

definition Verify :: "(string \<Rightarrow> (string, claim) gomap option) \<Rightarrow> OidcConfig \<Rightarrow> string \<Rightarrow> (string \<times> string) option" where
  "Verify idToken cfg rawToken =
     (case idToken rawToken of
        None \<Rightarrow> None
      | Some claims \<Rightarrow>
          let rawTenant = claimString claims (tenantClaim cfg)
          in if rawTenant = [] then None
             else case Sanitize rawTenant of (san, sanOK) \<Rightarrow>
               if \<not> sanOK \<or> san = [] then None
               else if oc_RoleClaim cfg = [] then Some (san, RoleFull)
               else let rs = claimString claims (oc_RoleClaim cfg)
                    in if rs = RoleFull \<or> rs = RoleRead \<or> rs = RoleIngest then Some (san, rs) else None)"

lemma Verify_tenant:
  assumes "Verify idToken cfg raw = Some (t, role)"
  shows "t \<noteq> []" and "Sanitize t = (t, True)" and "role \<in> {RoleFull, RoleRead, RoleIngest}"
proof -
  obtain rawTenant where "Sanitize rawTenant = (t, True)"
    using assms by (auto simp: Verify_def Let_def split: option.splits prod.splits if_splits)
  from Sanitize_accepted [OF this] show "t \<noteq> []" "Sanitize t = (t, True)" by blast+
  show "role \<in> {RoleFull, RoleRead, RoleIngest}"
    using assms by (auto simp: Verify_def Let_def split: option.splits prod.splits if_splits)
qed

text \<open>
  A tenant claim of white space authenticates for the default tenant.  The check for an empty
  claim looks at the claim as it came, the sanitizer trims it and reads the rest as the default
  tenant, so a token that verifies is granted that tenant, with the full role when no role claim
  is configured.
\<close>

theorem blank_tenant_claim_grants_the_default_tenant:
  assumes "idToken raw = Some claims" and "map_of claims (tenantClaim cfg) = Some (ClaimString '' '')" and "oc_RoleClaim cfg = []"
  shows "Verify idToken cfg raw = Some (Default, RoleFull)"
proof -
  have "Sanitize '' '' = (Default, True)" by code_simp
  with assms show ?thesis by (simp add: Verify_def claimString_def Default_def)
qed

theorem blank_tenant_claim_grants_the_default_tenant_witness:
  "Verify (\<lambda>_. Some [(''tenant'', ClaimString '' '')]) \<lparr>oc_Issuer = ''https://issuer'', oc_Audience = ''toise'', oc_TenantClaim = [], oc_RoleClaim = []\<rparr> ''jwt''
     = Some (''default'', ''full'')"
  using blank_tenant_claim_grants_the_default_tenant [of "\<lambda>_. Some [(''tenant'', ClaimString '' '')]" "''jwt''" "[(''tenant'', ClaimString '' '')]"
      "\<lparr>oc_Issuer = ''https://issuer'', oc_Audience = ''toise'', oc_TenantClaim = [], oc_RoleClaim = []\<rparr>"]
  by (simp add: tenantClaim_def Default_def RoleFull_def)

end
