(* ===== verification/Change_Speakers.thy ===== *)
theory Change_Speakers
  imports Model_Event
begin

text \<open>
  The speakers of \<open>internal/change/engine.go\<close>: the key that names a producer and its
  collection method, the liveness references held under it, and the functions of a
  reference set.  \<open>refKey\<close> is injective and \<open>splitRefKey\<close> its inverse, for every producer
  and method whose length fits an int.
\<close>

section \<open>Definitions\<close>

record liveRef =
  lr_deadline :: time
  lr_interval :: duration
  lr_legacy :: bool

definition zeroRef :: liveRef where
  "zeroRef = \<lparr>lr_deadline = 0, lr_interval = 0, lr_legacy = False\<rparr>"

type_synonym speakers = "(string, liveRef) gomap"

definition refKey :: "string \<Rightarrow> string \<Rightarrow> string" where
  "refKey producer scope =
     (if scope = [] \<and> (producer = [] \<or> hd producer \<noteq> x00) then producer
      else [x00] @ itoa (length producer) @ [x00] @ producer @ scope)"

definition splitRefKey :: "string \<Rightarrow> string \<times> string" where
  "splitRefKey key =
     (if key = [] \<or> hd key \<noteq> x00 then (key, [])
      else case index_byte (tl key) x00 of
             None \<Rightarrow> (key, [])
           | Some end \<Rightarrow>
               (case atoi (take end (tl key)) of
                  None \<Rightarrow> (key, [])
                | Some n \<Rightarrow>
                    if n < 0 \<or> 1 + int end + 1 + n > int (length key) then (key, [])
                    else let body = drop (1 + end + 1) key
                         in (take (nat n) body, drop (nat n) body)))"

definition inheritedRef :: "(EntityID, speakers) gomap \<Rightarrow> EntityID \<Rightarrow> string \<Rightarrow> liveRef" where
  "inheritedRef refs from key =
     (case map_of refs from of
        None \<Rightarrow> zeroRef
      | Some src \<Rightarrow>
          (case map_of src key of
             None \<Rightarrow> zeroRef
           | Some ref \<Rightarrow> \<lparr>lr_deadline = lr_deadline ref, lr_interval = lr_interval ref, lr_legacy = False\<rparr>))"

definition releaseSpeaker :: "speakers \<Rightarrow> string \<Rightarrow> string \<Rightarrow> speakers \<times> bool" where
  "releaseSpeaker refs producer scope =
     (let (refs, released) =
            (if ghas refs (refKey producer scope) then (gdel (refKey producer scope) refs, True)
             else (refs, False))
      in foldl (\<lambda>(m, released) (key, ref).
           if \<not> lr_legacy ref then (m, released)
           else if fst (splitRefKey key) = producer then (gdel key m, True)
           else (m, released)) (refs, released) refs)"

text \<open>A speaker lapses when it promised a refresh and the clock is past it.\<close>

definition lapsed :: "time \<Rightarrow> liveRef \<Rightarrow> bool" where
  "lapsed now ref = (lr_deadline ref \<noteq> 0 \<and> now > lr_deadline ref)"

definition dropLapsed :: "time \<Rightarrow> speakers \<Rightarrow> speakers" where
  "dropLapsed now speakers =
     foldl (\<lambda>m (key, ref). if lapsed now ref then gdel key m else m) speakers speakers"

definition distinctSorted :: "string list \<Rightarrow> string list" where
  "distinctSorted xs =
     sort (fst (foldl (\<lambda>(out, seen) x. if x = [] then (out, seen)
       else if ghas seen x then (out, seen) else (out @ [x], gadd x seen)) ([], []) xs))"

definition producersOf :: "speakers \<Rightarrow> string list" where
  "producersOf speakers = distinctSorted (map (\<lambda>key. fst (splitRefKey key)) (gkeys speakers))"

definition scopesOf :: "speakers \<Rightarrow> string list" where
  "scopesOf speakers = distinctSorted (map (\<lambda>key. snd (splitRefKey key)) (gkeys speakers))"

definition anonymousIn :: "speakers \<Rightarrow> nat" where
  "anonymousIn speakers = length (filter (\<lambda>key. fst (splitRefKey key) = []) (gkeys speakers))"

definition coarsestInterval :: "speakers \<Rightarrow> duration" where
  "coarsestInterval speakers =
     foldl (\<lambda>coarsest (_, ref). if lr_interval ref > coarsest then lr_interval ref else coarsest) 0 speakers"

definition floorDeadline :: "time \<Rightarrow> duration \<Rightarrow> time \<Rightarrow> time" where
  "floorDeadline deadline interval now =
     (if deadline = 0 \<or> interval \<le> 0 then deadline
      else if deadline < now + interval then now + interval
      else deadline)"

definition maxPlausibleLivenessPromise :: duration where
  "maxPlausibleLivenessPromise = 7 * 24 * 3600 * 1000000000"

section \<open>The speaker key\<close>

lemma atoi_itoa_length:
  "length producer < 2 ^ 63 \<Longrightarrow> atoi (itoa (length producer)) = Some (int (length producer))"
  by (rule atoi_itoa) (simp add: int64_ok_def)

lemma splitRefKey_composite:
  assumes "length producer < 2 ^ 63"
  shows "splitRefKey ([x00] @ itoa (length producer) @ [x00] @ producer @ scope) = (producer, scope)"
  using assms by (simp add: splitRefKey_def x00_notin_itoa atoi_itoa_length)

lemma splitRefKey_refKey:
  assumes "length producer < 2 ^ 63"
  shows "splitRefKey (refKey producer scope) = (producer, scope)"
proof (cases "scope = [] \<and> (producer = [] \<or> hd producer \<noteq> x00)")
  case True
  then have "refKey producer scope = producer" by (simp add: refKey_def)
  with True show ?thesis by (simp add: splitRefKey_def)
next
  case False
  then show ?thesis
    unfolding refKey_def using splitRefKey_composite [OF assms, of scope] by (simp only: if_False)
qed

lemma refKey_inj:
  assumes "length p < 2 ^ 63" and "length p' < 2 ^ 63" and "refKey p s = refKey p' s'"
  shows "p = p' \<and> s = s'"
  using splitRefKey_refKey [OF assms(1), of s] splitRefKey_refKey [OF assms(2), of s'] assms(3) by (metis prod.inject)

section \<open>Reference sets\<close>

lemma map_of_foldl_gdel:
  "map_of (foldl (\<lambda>m (key, ref). if P key ref then gdel key m else m) m xs) k =
     (if \<exists>ref. (k, ref) \<in> set xs \<and> P k ref then None else map_of m k)"
proof (induction xs arbitrary: m)
  case (Cons x xs)
  obtain k' r where "x = (k', r)" by (cases x)
  then show ?case by (auto simp: Cons.IH)
qed simp

lemma gdistinct_foldl_gdel:
  "gdistinct m \<Longrightarrow> gdistinct (foldl (\<lambda>m (key, ref). if P key ref then gdel key m else m) m xs)"
  by (induction xs arbitrary: m) auto

lemma map_of_dropLapsed:
  "gdistinct sp \<Longrightarrow> map_of (dropLapsed now sp) k =
     (case map_of sp k of None \<Rightarrow> None | Some ref \<Rightarrow> if lapsed now ref then None else Some ref)"
  unfolding dropLapsed_def map_of_foldl_gdel [where P = "\<lambda>k. lapsed now"]
  by (auto simp: gdistinct_in_set_iff split: option.splits)

lemma gdistinct_dropLapsed [simp]: "gdistinct sp \<Longrightarrow> gdistinct (dropLapsed now sp)"
  unfolding dropLapsed_def by (rule gdistinct_foldl_gdel [where P = "\<lambda>k. lapsed now"])

lemma foldl_release_pair:
  "foldl (\<lambda>(m, released) (key, ref).
       if \<not> lr_legacy ref then (m, released)
       else if fst (splitRefKey key) = producer then (gdel key m, True)
       else (m, released)) (m, b) xs
   = (foldl (\<lambda>m (key, ref). if lr_legacy ref \<and> fst (splitRefKey key) = producer then gdel key m else m) m xs,
      b \<or> (\<exists>(key, ref) \<in> set xs. lr_legacy ref \<and> fst (splitRefKey key) = producer))"
  by (induction xs arbitrary: m b) auto

lemma releaseSpeaker_eq:
  "releaseSpeaker refs producer scope =
     (let refs' = gdel (refKey producer scope) refs in
      (foldl (\<lambda>m (key, ref). if lr_legacy ref \<and> fst (splitRefKey key) = producer then gdel key m else m) refs' refs',
       ghas refs (refKey producer scope)
         \<or> (\<exists>(key, ref) \<in> set refs'. lr_legacy ref \<and> fst (splitRefKey key) = producer)))"
proof (cases "ghas refs (refKey producer scope)")
  case False
  then have "gdel (refKey producer scope) refs = refs" by (rule gdel_absent)
  with False show ?thesis by (simp add: releaseSpeaker_def foldl_release_pair Let_def)
qed (simp add: releaseSpeaker_def foldl_release_pair Let_def)

text \<open>
  A release drops the reference of the one speaker and the legacy references of the same
  producer, and no other.
\<close>

lemma map_of_releaseSpeaker:
  assumes "gdistinct refs"
  shows "map_of (fst (releaseSpeaker refs producer scope)) k =
    (if k = refKey producer scope then None
     else case map_of refs k of
            None \<Rightarrow> None
          | Some ref \<Rightarrow> if lr_legacy ref \<and> fst (splitRefKey k) = producer then None else Some ref)"
proof -
  let ?r = "gdel (refKey producer scope) refs"
  have mem: "(k, ref) \<in> set ?r \<longleftrightarrow> k \<noteq> refKey producer scope \<and> map_of refs k = Some ref" for ref
    using assms by (simp add: set_gdel gdistinct_in_set_iff conj_commute)
  show ?thesis
    unfolding releaseSpeaker_eq Let_def fst_conv
      map_of_foldl_gdel [where P = "\<lambda>key ref. lr_legacy ref \<and> fst (splitRefKey key) = producer"]
    by (auto simp: mem split: option.splits)
qed

lemma gdistinct_releaseSpeaker [simp]:
  "gdistinct refs \<Longrightarrow> gdistinct (fst (releaseSpeaker refs producer scope))"
  unfolding releaseSpeaker_eq Let_def fst_conv
  by (rule gdistinct_foldl_gdel [where P = "\<lambda>key ref. lr_legacy ref \<and> fst (splitRefKey key) = producer"]) simp

lemma gomap_empty_iff: "m = [] \<longleftrightarrow> (\<forall>k. map_of m k = None)"
  by (cases m) auto

section \<open>Names in a reference set\<close>

lemma distinctSorted_fold:
  "foldl (\<lambda>(out, seen) x. if x = [] then (out, seen)
       else if ghas seen x then (out, seen) else (out @ [x], gadd x seen)) (out, seen) xs = (out', seen') \<Longrightarrow>
   distinct out \<Longrightarrow> (\<And>x. ghas seen x \<longleftrightarrow> x \<in> set out) \<Longrightarrow>
   distinct out' \<and> set out' = set out \<union> {x \<in> set xs. x \<noteq> []}"
proof (induction xs arbitrary: out seen)
  case (Cons y xs)
  show ?case
  proof (cases "y \<noteq> [] \<and> \<not> ghas seen y")
    case True
    with Cons.prems have "foldl (\<lambda>(out, seen) x. if x = [] then (out, seen)
       else if ghas seen x then (out, seen) else (out @ [x], gadd x seen)) (out @ [y], gadd y seen) xs = (out', seen')"
      by simp
    from Cons.IH [OF this] True Cons.prems show ?thesis by auto
  next
    case False
    with Cons.prems have "foldl (\<lambda>(out, seen) x. if x = [] then (out, seen)
       else if ghas seen x then (out, seen) else (out @ [x], gadd x seen)) (out, seen) xs = (out', seen')"
      by (auto split: if_splits)
    from Cons.IH [OF this Cons.prems(2,3)] False Cons.prems show ?thesis by auto
  qed
qed auto

lemma distinctSorted_correct:
  "sorted (distinctSorted xs) \<and> distinct (distinctSorted xs) \<and> set (distinctSorted xs) = set xs - {[]}"
proof -
  obtain out seen where eq: "foldl (\<lambda>(out, seen) x. if x = [] then (out, seen)
       else if ghas seen x then (out, seen) else (out @ [x], gadd x seen)) ([], []) xs = (out, seen)"
    by fastforce
  from distinctSorted_fold [OF eq] eq show ?thesis by (auto simp: distinctSorted_def)
qed

section \<open>Intervals and deadlines\<close>

lemma coarsestInterval_fold:
  "foldl (\<lambda>c (_, ref). if lr_interval ref > c then lr_interval ref else c) c sp
     = Max (insert c ((\<lambda>(k, ref). lr_interval ref) ` set sp))"
proof (induction sp arbitrary: c)
  case (Cons x sp)
  obtain k r where x: "x = (k, r)" by (cases x)
  let ?S = "(\<lambda>(k, ref). lr_interval ref) ` set sp"
  have "Max (insert c (insert (lr_interval r) ?S)) = Max (insert (max c (lr_interval r)) ?S)"
    by (cases "?S = {}") (auto simp: max.assoc)
  moreover have "(if lr_interval r > c then lr_interval r else c) = max c (lr_interval r)" by auto
  ultimately show ?case by (simp add: x Cons.IH)
qed simp

lemma floorDeadline_ge:
  "deadline \<noteq> 0 \<Longrightarrow> 0 < interval \<Longrightarrow>
     now + interval \<le> floorDeadline deadline interval now \<and> deadline \<le> floorDeadline deadline interval now"
  by (auto simp: floorDeadline_def)

end
