(* ===== verification/Change_Alias.thy ===== *)
theory Change_Alias
  imports Canonical Change_Speakers
begin

text \<open>
  The observations of \<open>internal/change/engine.go\<close> and the identity alias index of
  \<open>internal/change/alias.go\<close>: which equivalence a \<open>same_as\<close> observation asserts, the index
  of the asserted equivalences with their speakers, and the substitution of unambiguous
  aliases in an identity.
\<close>

section \<open>Definitions\<close>

record EntityObservation =
  eo_Type :: string
  eo_Identity :: "KeyValue list"
  eo_Attributes :: "KeyValue list"
  eo_SchemaURL :: string
  eo_EventTime :: time
  eo_Interval :: duration
  eo_Producer :: string
  eo_DeleteReason :: string

record EndpointRef =
  ep_Type :: string
  ep_Identity :: "KeyValue list"

record RelationObservation =
  ro_Type :: string
  ro_From :: EndpointRef
  ro_To :: EndpointRef
  ro_Attributes :: "KeyValue list"
  ro_EventTime :: time
  ro_Producer :: string
  ro_Interval :: duration
  ro_SourceInterval :: duration

record aliasKey =
  ak_attributeKey :: string
  ak_aliasValue :: string

record aliasClaimKey =
  ck_alias :: aliasKey
  ck_canonicalValue :: string

record identityAliasIndex =
  ix_speakers :: "(aliasClaimKey, speakers) gomap"
  ix_byAlias :: "(aliasKey, string goset) gomap"

definition newIdentityAliasIndex :: identityAliasIndex where
  "newIdentityAliasIndex = \<lparr>ix_speakers = [], ix_byAlias = []\<rparr>"

definition alias_record :: "aliasClaimKey \<Rightarrow> string \<Rightarrow> liveRef \<Rightarrow> identityAliasIndex
    \<Rightarrow> identityAliasIndex \<times> bool \<times> bool" where
  "alias_record claim speaker ref idx =
     (let isNew = (map_of (ix_speakers idx) claim = None);
          speakers = gput speaker ref (gget [] (ix_speakers idx) claim);
          candidates = gget [] (ix_byAlias idx) (ck_alias claim);
          dup = ghas candidates (ck_canonicalValue claim);
          candidates' = (if dup then candidates else gadd (ck_canonicalValue claim) candidates);
          conflict = (\<not> dup \<and> length candidates' = 2)
      in (\<lparr>ix_speakers = gput claim speakers (ix_speakers idx),
           ix_byAlias = gput (ck_alias claim) candidates' (ix_byAlias idx)\<rparr>, isNew, conflict))"

definition alias_resolve :: "identityAliasIndex \<Rightarrow> aliasKey \<Rightarrow> string option" where
  "alias_resolve idx k =
     (case gget [] (ix_byAlias idx) k of [(v, _)] \<Rightarrow> Some v | _ \<Rightarrow> None)"

definition alias_live :: "identityAliasIndex \<Rightarrow> aliasClaimKey \<Rightarrow> bool" where
  "alias_live idx claim = (length (gget [] (ix_speakers idx) claim) > 0)"

definition sweepClaim :: "time \<Rightarrow> aliasClaimKey \<times> speakers \<Rightarrow> identityAliasIndex \<Rightarrow> identityAliasIndex" where
  "sweepClaim now c idx =
     (case c of (claim, speakers) \<Rightarrow>
        let speakers = dropLapsed now speakers
        in if speakers = []
           then let idx = idx\<lparr>ix_speakers := gdel claim (ix_speakers idx)\<rparr>;
                    by = (case map_of (ix_byAlias idx) (ck_alias claim) of
                            None \<Rightarrow> ix_byAlias idx
                          | Some cs \<Rightarrow> gput (ck_alias claim) (gdel (ck_canonicalValue claim) cs) (ix_byAlias idx))
                in idx\<lparr>ix_byAlias :=
                     (if gget [] by (ck_alias claim) = [] then gdel (ck_alias claim) by else by)\<rparr>
           else idx\<lparr>ix_speakers := gput claim speakers (ix_speakers idx)\<rparr>)"

definition alias_sweep :: "time \<Rightarrow> identityAliasIndex \<Rightarrow> identityAliasIndex" where
  "alias_sweep now idx = fold (sweepClaim now) (ix_speakers idx) idx"

definition observationConfidence :: "KeyValue list \<Rightarrow> float64 \<times> bool" where
  "observationConfidence attrs = confidenceOf attrs"

definition identityValueMap :: "KeyValue list \<Rightarrow> (string, Value) gomap" where
  "identityValueMap identity = foldl (\<lambda>m (k, v). gput k v m) [] identity"

fun aliasDiff :: "(string, Value) gomap \<Rightarrow> (string, Value) gomap \<Rightarrow> nat \<times> string \<Rightarrow> (nat \<times> string) option" where
  "aliasDiff to [] acc = Some acc"
| "aliasDiff to ((k, fv) # from) (nd, diffKey) =
     (case map_of to k of
        None \<Rightarrow> None
      | Some tv \<Rightarrow>
          if canonical fv \<noteq> canonical tv then aliasDiff to from (nd + 1, k)
          else aliasDiff to from (nd, diffKey))"

definition aliasClaimFromObservation :: "RelationObservation \<Rightarrow> aliasClaimKey option" where
  "aliasClaimFromObservation obs =
     (case observationConfidence (ro_Attributes obs) of
        (conf, ok) \<Rightarrow>
          if \<not> ok \<or> f_lt conf DefaultThreshold then None
          else if ep_Type (ro_From obs) \<noteq> ep_Type (ro_To obs) then None
          else let from = identityValueMap (ep_Identity (ro_From obs));
                   to = identityValueMap (ep_Identity (ro_To obs))
               in if length from \<noteq> length to then None
                  else case aliasDiff to from (0, []) of
                         None \<Rightarrow> None
                       | Some (nd, diffKey) \<Rightarrow>
                           if nd \<noteq> 1 then None
                           else let fv = gget InvalidValue from diffKey;
                                    tv = gget InvalidValue to diffKey
                                in if Kind fv \<noteq> KindString \<or> Kind tv \<noteq> KindString then None
                                   else Some \<lparr>ck_alias = \<lparr>ak_attributeKey = diffKey, ak_aliasValue = Str tv\<rparr>,
                                              ck_canonicalValue = Str fv\<rparr>)"

definition aliasSlackFactor :: int where "aliasSlackFactor = 2"

text \<open>The product of a duration and the slack is a 64-bit multiplication.\<close>

definition aliasDeadline :: "time \<Rightarrow> RelationObservation \<Rightarrow> time option" where
  "aliasDeadline now obs =
     (if ro_Interval obs > 0
      then (if ro_Interval obs > maxPlausibleLivenessPromise then None
            else Some (now + wrap64 (ro_Interval obs * aliasSlackFactor)))
      else if ro_SourceInterval obs > 0
      then (if ro_SourceInterval obs > maxPlausibleLivenessPromise then None
            else Some (now + wrap64 (ro_SourceInterval obs * aliasSlackFactor)))
      else Some 0)"

definition substituteValue :: "identityAliasIndex \<Rightarrow> KeyValue \<Rightarrow> KeyValue option" where
  "substituteValue idx kv =
     (case kv of (k, v) \<Rightarrow>
        if Kind v = KindString
        then map_option (\<lambda>c. (k, StringValue c))
               (alias_resolve idx \<lparr>ak_attributeKey = k, ak_aliasValue = Str v\<rparr>)
        else None)"

definition substituteAliases :: "identityAliasIndex \<Rightarrow> KeyValue list \<Rightarrow> KeyValue list option" where
  "substituteAliases idx identity =
     (case foldl (\<lambda>(out, changed) kv.
              case substituteValue idx kv of
                Some kv' \<Rightarrow> (out @ [kv'], True)
              | None \<Rightarrow> (out @ [kv], changed)) ([], False) identity of
        (out, changed) \<Rightarrow> if \<not> changed then None else Some out)"

definition endpointHash :: "EndpointRef \<Rightarrow> string" where
  "endpointHash ref = identityHashOf (ep_Type ref) (ep_Identity ref)"

definition aliasBeliefLive :: "identityAliasIndex \<Rightarrow> RelationObservation \<Rightarrow> bool" where
  "aliasBeliefLive idx obs =
     (if ro_Type obs \<noteq> RelSameAs then False
      else case aliasClaimFromObservation obs of Some claim \<Rightarrow> alias_live idx claim | None \<Rightarrow> False)"

text \<open>
  The abstract state of the index is the set of asserted claims; the index is well formed
  when the two maps agree on it.
\<close>

definition claims :: "identityAliasIndex \<Rightarrow> aliasClaimKey set" where
  "claims idx = {c. ghas (ix_speakers idx) c}"

definition alias_wf :: "identityAliasIndex \<Rightarrow> bool" where
  "alias_wf idx =
     (gdistinct (ix_speakers idx) \<and>
      (\<forall>c sp. map_of (ix_speakers idx) c = Some sp \<longrightarrow> sp \<noteq> [] \<and> gdistinct sp) \<and>
      (\<forall>k. gdistinct (gget [] (ix_byAlias idx) k)) \<and>
      (\<forall>k. map_of (ix_byAlias idx) k \<noteq> Some []) \<and>
      (\<forall>c. ghas (ix_speakers idx) c \<longleftrightarrow> ghas (gget [] (ix_byAlias idx) (ck_alias c)) (ck_canonicalValue c)))"

text \<open>The claims a sweep keeps: those with a speaker that has not lapsed.\<close>

definition kept_claim :: "time \<Rightarrow> speakers \<Rightarrow> bool" where
  "kept_claim now sp = (\<exists>k ref. map_of sp k = Some ref \<and> \<not> lapsed now ref)"

section \<open>The index\<close>

lemma alias_wf_new: "alias_wf newIdentityAliasIndex"
  by (simp add: alias_wf_def newIdentityAliasIndex_def)

lemma claim_eq: "c = c' \<longleftrightarrow> ck_alias c = ck_alias c' \<and> ck_canonicalValue c = ck_canonicalValue (c' :: aliasClaimKey)"
  by (cases c; cases c') auto

lemma alias_wf_record:
  assumes "alias_wf idx"
  shows "alias_wf (fst (alias_record claim speaker ref idx))"
proof -
  let ?cs = "gget [] (ix_byAlias idx) (ck_alias claim)"
  have sp: "gdistinct (gget [] (ix_speakers idx) claim)"
    using assms by (auto simp: alias_wf_def gget_def split: option.splits)
  have ne: "gput speaker ref m \<noteq> []" for m :: speakers by simp
  have cs: "(if ghas ?cs (ck_canonicalValue claim) then ?cs else gadd (ck_canonicalValue claim) ?cs) \<noteq> []"
    by (cases ?cs) (auto simp: gadd_def)
  show ?thesis
    unfolding alias_record_def Let_def fst_conv
    using assms sp ne cs by (auto simp: alias_wf_def claim_eq split: if_splits)
qed

lemma claims_record: "claims (fst (alias_record claim speaker ref idx)) = insert claim (claims idx)"
  by (auto simp: claims_def alias_record_def Let_def)

text \<open>An alias resolves exactly when one canonical value is claimed for it.\<close>

lemma alias_resolve_iff:
  assumes "alias_wf idx"
  shows "alias_resolve idx k = Some v \<longleftrightarrow> (\<forall>c. (c \<in> claims idx \<and> ck_alias c = k) \<longleftrightarrow> c = \<lparr>ck_alias = k, ck_canonicalValue = v\<rparr>)"
proof -
  let ?cs = "gget [] (ix_byAlias idx) k"
  have mem: "c \<in> claims idx \<longleftrightarrow> ghas (gget [] (ix_byAlias idx) (ck_alias c)) (ck_canonicalValue c)" for c
    using assms by (simp add: claims_def alias_wf_def)
  have dist: "gdistinct ?cs" using assms by (simp add: alias_wf_def)
  have "alias_resolve idx k = Some v \<longleftrightarrow> ?cs = [(v, ())]"
    by (auto simp: alias_resolve_def split: list.splits)
  also have "\<dots> \<longleftrightarrow> (\<forall>w. ghas ?cs w \<longleftrightarrow> w = v)"
  proof
    show "?cs = [(v, ())] \<Longrightarrow> \<forall>w. ghas ?cs w \<longleftrightarrow> w = v" by (auto simp: ghas_def)
    assume all: "\<forall>w. ghas ?cs w \<longleftrightarrow> w = v"
    then obtain u cs where c: "?cs = u # cs" by (cases ?cs) (auto simp: ghas_def)
    have "cs = []"
    proof (cases cs)
      case (Cons u' cs')
      with c all have "fst u = v" "fst u' = v" by (auto simp: ghas_iff)
      with c Cons dist show ?thesis by (auto simp: gdistinct_def)
    qed
    obtain w where u: "u = (w, ())" by (cases u) simp
    with c have "ghas ?cs w" by (simp add: ghas_def)
    with all have "w = v" by simp
    with u c \<open>cs = []\<close> show "?cs = [(v, ())]" by simp
  qed
  also have "\<dots> \<longleftrightarrow> (\<forall>c. (c \<in> claims idx \<and> ck_alias c = k) \<longleftrightarrow> c = \<lparr>ck_alias = k, ck_canonicalValue = v\<rparr>)"
  proof
    assume all: "\<forall>w. ghas ?cs w \<longleftrightarrow> w = v"
    show "\<forall>c. (c \<in> claims idx \<and> ck_alias c = k) \<longleftrightarrow> c = \<lparr>ck_alias = k, ck_canonicalValue = v\<rparr>"
      using all by (auto simp: mem claim_eq)
  next
    assume all: "\<forall>c. (c \<in> claims idx \<and> ck_alias c = k) \<longleftrightarrow> c = \<lparr>ck_alias = k, ck_canonicalValue = v\<rparr>"
    show "\<forall>w. ghas ?cs w \<longleftrightarrow> w = v"
    proof
      fix w
      show "ghas ?cs w \<longleftrightarrow> w = v"
        using all [rule_format, of "\<lparr>ck_alias = k, ck_canonicalValue = w\<rparr>"] by (simp add: mem)
    qed
  qed
  finally show ?thesis .
qed

section \<open>Sweeping the index\<close>

lemma dropLapsed_Nil: "gdistinct sp \<Longrightarrow> dropLapsed now sp = [] \<longleftrightarrow> \<not> kept_claim now sp"
  by (auto simp: gomap_empty_iff map_of_dropLapsed kept_claim_def split: option.splits)

lemma sweepClaim_drop:
  assumes wf: "alias_wf idx" and c: "map_of (ix_speakers idx) claim = Some sp" and gone: "\<not> kept_claim now sp"
  shows "alias_wf (sweepClaim now (claim, sp) idx)"
    and "ix_speakers (sweepClaim now (claim, sp) idx) = gdel claim (ix_speakers idx)"
proof -
  from wf c have sp: "gdistinct sp" by (auto simp: alias_wf_def)
  with gone have nil: "dropLapsed now sp = []" by (simp add: dropLapsed_Nil)
  show sps: "ix_speakers (sweepClaim now (claim, sp) idx) = gdel claim (ix_speakers idx)"
    using nil by (simp add: sweepClaim_def Let_def)
  let ?idx = "sweepClaim now (claim, sp) idx"
  let ?cs = "gget [] (ix_byAlias idx) (ck_alias claim)"
  have get: "gget [] (ix_byAlias ?idx) k = (if k = ck_alias claim then gdel (ck_canonicalValue claim) ?cs
      else gget [] (ix_byAlias idx) k)" for k
    using nil by (auto simp: sweepClaim_def Let_def gget_def split: option.splits)
  have none: "map_of (ix_byAlias ?idx) k \<noteq> Some []" for k
    using nil wf by (auto simp: sweepClaim_def Let_def gget_def alias_wf_def split: option.splits if_splits)
  show "alias_wf ?idx"
    unfolding alias_wf_def sps get using wf none by (auto simp: alias_wf_def claim_eq)
qed

lemma sweepClaim_keep:
  assumes wf: "alias_wf idx" and c: "map_of (ix_speakers idx) claim = Some sp" and kept: "kept_claim now sp"
  shows "alias_wf (sweepClaim now (claim, sp) idx)"
    and "ix_speakers (sweepClaim now (claim, sp) idx) = gput claim (dropLapsed now sp) (ix_speakers idx)"
proof -
  from wf c have sp: "gdistinct sp" by (auto simp: alias_wf_def)
  with kept have ne: "dropLapsed now sp \<noteq> []" by (simp add: dropLapsed_Nil)
  then show sps: "ix_speakers (sweepClaim now (claim, sp) idx) = gput claim (dropLapsed now sp) (ix_speakers idx)"
    by (simp add: sweepClaim_def Let_def)
  have idxBy: "ix_byAlias (sweepClaim now (claim, sp) idx) = ix_byAlias idx"
    using ne by (simp add: sweepClaim_def Let_def)
  have "ghas (ix_speakers idx) claim" using c by (simp add: ghas_def)
  then show "alias_wf (sweepClaim now (claim, sp) idx)"
    unfolding alias_wf_def sps idxBy using wf ne sp by (auto simp: alias_wf_def split: if_splits)
qed

lemma sweep_fold:
  assumes "alias_wf idx" and "gdistinct cs" and "\<And>c sp. (c, sp) \<in> set cs \<Longrightarrow> map_of (ix_speakers idx) c = Some sp"
  shows "alias_wf (fold (sweepClaim now) cs idx) \<and>
    (\<forall>c. map_of (ix_speakers (fold (sweepClaim now) cs idx)) c =
      (case map_of cs c of
         None \<Rightarrow> map_of (ix_speakers idx) c
       | Some sp \<Rightarrow> if kept_claim now sp then Some (dropLapsed now sp) else None))"
  using assms
proof (induction cs arbitrary: idx)
  case (Cons x cs)
  obtain c sp where x: "x = (c, sp)" by (cases x)
  let ?idx = "sweepClaim now (c, sp) idx"
  have c: "map_of (ix_speakers idx) c = Some sp" using Cons.prems(3) x by simp
  have step: "alias_wf ?idx" "\<And>d. map_of (ix_speakers ?idx) d =
      (if d = c then if kept_claim now sp then Some (dropLapsed now sp) else None else map_of (ix_speakers idx) d)"
    using sweepClaim_keep [OF Cons.prems(1) c, of now] sweepClaim_drop [OF Cons.prems(1) c, of now]
    by (cases "kept_claim now sp"; simp)+
  have fresh: "map_of cs c = None" and dist: "gdistinct cs" using Cons.prems(2) x by (auto simp: ghas_def)
  have rest: "map_of (ix_speakers ?idx) d = Some sp'" if "(d, sp') \<in> set cs" for d sp'
  proof -
    have "d \<noteq> c" using that fresh by (force simp: map_of_eq_None_iff)
    with that Cons.prems(3) [of d sp'] step(2) [of d] show ?thesis by simp
  qed
  from Cons.IH [OF step(1) dist rest] show ?case
    using fresh step(2) by (auto simp: x split: option.splits)
qed simp

lemma sweep_speakers:
  assumes "alias_wf idx"
  shows "alias_wf (alias_sweep now idx) \<and>
    (\<forall>c. map_of (ix_speakers (alias_sweep now idx)) c =
      (case map_of (ix_speakers idx) c of
         None \<Rightarrow> None | Some sp \<Rightarrow> if kept_claim now sp then Some (dropLapsed now sp) else None))"
proof -
  have dist: "gdistinct (ix_speakers idx)" using assms by (simp add: alias_wf_def)
  then have "alias_wf (fold (sweepClaim now) (ix_speakers idx) idx) \<and>
    (\<forall>c. map_of (ix_speakers (fold (sweepClaim now) (ix_speakers idx) idx)) c =
      (case map_of (ix_speakers idx) c of
         None \<Rightarrow> map_of (ix_speakers idx) c
       | Some sp \<Rightarrow> if kept_claim now sp then Some (dropLapsed now sp) else None))"
    by (intro sweep_fold [OF assms]) (auto simp: gdistinct_in_set_iff)
  then show ?thesis by (simp add: alias_sweep_def split: option.splits)
qed

lemma alias_wf_sweep: "alias_wf idx \<Longrightarrow> alias_wf (alias_sweep now idx)"
  using sweep_speakers by blast

lemma claims_sweep:
  "alias_wf idx \<Longrightarrow> claims (alias_sweep now idx) = {c. \<exists>sp. map_of (ix_speakers idx) c = Some sp \<and> kept_claim now sp}"
  using sweep_speakers [of idx now] by (auto simp: claims_def ghas_def split: option.splits if_splits)

section \<open>Substitution\<close>

lemma substituteAliases_eq:
  "substituteAliases idx identity =
     (if \<exists>kv \<in> set identity. substituteValue idx kv \<noteq> None
      then Some (map (\<lambda>kv. case substituteValue idx kv of Some kv' \<Rightarrow> kv' | None \<Rightarrow> kv) identity)
      else None)"
proof -
  have "foldl (\<lambda>(out, changed) kv. case substituteValue idx kv of
            Some kv' \<Rightarrow> (out @ [kv'], True) | None \<Rightarrow> (out @ [kv], changed)) (out, b) identity
      = (out @ map (\<lambda>kv. case substituteValue idx kv of Some kv' \<Rightarrow> kv' | None \<Rightarrow> kv) identity,
         b \<or> (\<exists>kv \<in> set identity. substituteValue idx kv \<noteq> None))" for out b
    by (induction identity arbitrary: out b) (auto split: option.splits)
  then show ?thesis by (simp add: substituteAliases_def)
qed

lemma substituteAliases_keys:
  "substituteAliases idx identity = Some out \<Longrightarrow> map fst out = map fst identity"
  by (auto simp: substituteAliases_eq substituteValue_def split: if_splits option.splits prod.splits)

section \<open>Deadlines\<close>

text \<open>The bound on a declared cycle removes the overflow of the slack multiplication.\<close>

lemma aliasDeadline_exact:
  assumes "aliasDeadline now obs = Some d"
  shows "d = (if ro_Interval obs > 0 then now + 2 * ro_Interval obs
    else if ro_SourceInterval obs > 0 then now + 2 * ro_SourceInterval obs else 0)"
  using assms
  by (auto simp: aliasDeadline_def aliasSlackFactor_def maxPlausibleLivenessPromise_def int64_ok_def
      split: if_splits)

end
