(* ===== verification/Model_DisplayName.thy ===== *)
theory Model_DisplayName
  imports Model_Entity
begin

text \<open>
  \<open>internal/model/displayname.go\<close>: what a human calls an entity.  A name is composed from
  several attributes for three types and read from one attribute for the others; one type
  deliberately has none.
\<close>

section \<open>Definitions\<close>

definition displayNameKeys :: "(string, string list) gomap" where
  "displayNameKeys =
     [(TypeHost, [''host.name'']),
      (TypeContainer, [''container.name'', ''compose.service'']),
      (TypeServiceInstance, [''service.name'']),
      (TypeHostService, [''host.service.name'']),
      (TypeK8sNode, [''k8s.node.name'']),
      (TypeNetworkDevice, [''network.device.name'', ''device.name'', ''sys.name'']),
      (TypeNetworkInterface, [''network.interface.name'', ''interface.name'']),
      (TypeServiceListener, [''process.executable.name'', ''process.name'']),
      (TypeProcess, [''process.name'', ''process.executable.name'']),
      (TypePod, [''k8s.pod.name'']),
      (TypeComputeVM, [''vm.name'', ''host.name'']),
      (TypeNetworkRoute, [''route.destination'']),
      (TypeNetworkAddress, [''network.address'']),
      (TypeCloudResource, [''azure.resource.name''])]"

definition displayNameNone :: "(string, string) gomap" where
  "displayNameNone =
     [(TypeNetworkSegment, ''its id is an assigned opaque value and no producer emits a name'')]"

definition DisplayNameAbsentReason :: "string \<Rightarrow> string \<times> bool" where
  "DisplayNameAbsentReason entityType =
     (gget [] displayNameNone entityType, ghas displayNameNone entityType)"

fun firstValue :: "KeyValue list \<Rightarrow> string \<Rightarrow> string option" where
  "firstValue [] key = None"
| "firstValue ((k, v) # kvs) key = (if k = key then Some (Display v) else firstValue kvs key)"

definition attrValue :: "Entity \<Rightarrow> string \<Rightarrow> string" where
  "attrValue e key =
     (case firstValue (ent_Identity e) key of
        Some s \<Rightarrow> s
      | None \<Rightarrow> (case firstValue (ent_Attributes e) key of Some s \<Rightarrow> s | None \<Rightarrow> []))"

definition neighborName :: "Entity \<Rightarrow> string" where
  "neighborName e = attrValue e ''mac''"

definition bracketed :: "string \<Rightarrow> string" where
  "bracketed addr =
     (if contains_byte addr (CHR '':'') \<and> \<not> has_prefix addr ''['' then ''['' @ addr @ '']'' else addr)"

definition endpointName :: "Entity \<Rightarrow> string" where
  "endpointName e =
     (let addr = attrValue e ''server.address''
      in if addr = [] then []
         else let addr = bracketed addr;
                  port = attrValue e ''server.port''
              in if port \<noteq> [] then addr @ '':'' @ port else addr)"

definition databaseName :: "Entity \<Rightarrow> string" where
  "databaseName e =
     (let system = attrValue e ''db.system.name''
      in if system = [] then []
         else let addr = attrValue e ''server.address''
              in if addr = [] then system
                 else let addr = bracketed addr;
                          port = attrValue e ''server.port''
                      in if port \<noteq> [] then system @ ''@'' @ addr @ '':'' @ port
                         else system @ ''@'' @ addr)"

definition displayNameComposed :: "(string, Entity \<Rightarrow> string) gomap" where
  "displayNameComposed =
     [(TypeNetworkEndpoint, endpointName),
      (TypeDatabase, databaseName),
      (TypeNetworkNeighbor, neighborName)]"

fun firstNamed :: "Entity \<Rightarrow> string list \<Rightarrow> string" where
  "firstNamed e [] = []"
| "firstNamed e (key # keys) =
     (let s = attrValue e key in if s \<noteq> [] then s else firstNamed e keys)"

definition DisplayName :: "Entity \<Rightarrow> string" where
  "DisplayName e =
     (let s = (case map_of displayNameComposed (ent_Type e) of Some compose \<Rightarrow> compose e | None \<Rightarrow> [])
      in if s \<noteq> [] then s else firstNamed e (gget [] displayNameKeys (ent_Type e)))"

definition LabelName :: "Entity \<Rightarrow> string" where
  "LabelName e =
     (let name = DisplayName e
      in if name = [] then []
         else if list_ex (\<lambda>(k, v). Display v = name) (ent_Identity e) then []
         else name)"

section \<open>Lemmas\<close>

lemma firstNamed_mem: "firstNamed e keys \<noteq> [] \<Longrightarrow> \<exists>key \<in> set keys. firstNamed e keys = attrValue e key"
  by (induction keys) (auto simp: Let_def)

text \<open>
  The label name is the display name or empty, and it is empty exactly when there is no
  name or the identity already shows it.
\<close>

lemma LabelName_cases:
  "LabelName e = (if \<exists>(k, v) \<in> set (ent_Identity e). Display v = DisplayName e then [] else DisplayName e)"
  by (auto simp: LabelName_def list_ex_iff Let_def)

text \<open>Every registered type decides on a name in exactly one of the three maps.\<close>

lemma display_name_decided:
  "list_all (\<lambda>t. length (filter id [ghas displayNameKeys t, ghas displayNameComposed t,
       ghas displayNameNone t]) = 1) EntityTypes"
  by (simp add: EntityTypes_def entityTypes_def gkeys_def displayNameKeys_def displayNameComposed_def
      displayNameNone_def ghas_def type_defs)

end
