(* ===== verification/Change_Engine.thy ===== *)
theory Change_Engine
  imports Change_Alias Model_DisplayName
begin

text \<open>
  \<open>internal/change/engine.go\<close> and the engine's half of \<open>alias.go\<close>: the change engine.

  The record \<open>Engine\<close> has the fields of the struct, the observation lock apart: each
  operation below is one call under it.  The collaborators the engine calls are a
  parameter \<open>env\<close>: the clock (read once per locked call), the ULID package (the \<open>n\<close>-th
  identifier it mints) and the appender, which either fails or returns its new state and
  the commit sequence it stamped on the events.  Subscribers, reporters and rollbacks are
  callbacks into other code: their calls are recorded in order in the trace fields.
  Logging is left out.
\<close>

section \<open>State\<close>

record 'a env =
  env_now :: time
  env_ulid :: "nat \<Rightarrow> string"
  env_append :: "'a \<Rightarrow> Event list \<Rightarrow> string + ('a \<times> 64 word)"

datatype EngErr =
    AppendErr string
  | FlushErr string
  | EndpointMissing
  | EndpointsCollapsed
  | Wrap string EngErr
  | Joined "EngErr list"

datatype Report =
    PromiseReport string string duration
  | DiscardReport string string string
  | AliasConflict string string

definition stateKeys :: "string goset" where
  "stateKeys = map (\<lambda>k. (k, ()))
     [''oper_state'', ''admin_state'', ''status'', ''replication.role'', ''read_only'', ''hw.state'', ''ha.role'']"

definition maxPendingRelations :: nat where "maxPendingRelations = 4096"
definition maxContestedDisplayNames :: nat where "maxContestedDisplayNames = 8"

record contestedNames =
  cn_last :: string
  cn_contested :: bool
  cn_values :: "(string, time) gomap"

record pendingRelation =
  pr_obs :: RelationObservation
  pr_deadline :: time
  pr_scope :: string

record badPromise =
  bp_declared :: duration
  bp_producer :: string

record staged =
  st_events :: "(Event \<times> bool) list"
  st_scope :: string
  st_entities :: "(EntityID, Entity) gomap"
  st_deleted :: "(EntityID, bool) gomap"
  st_byHash :: "(string, EntityID) gomap"
  st_relations :: "(RelationID, Relation) gomap"
  st_relRemoved :: "(RelationID, bool) gomap"
  st_rollbacks :: "nat list"

record 'a Engine =
  e_graph :: Graph
  e_appender :: 'a
  e_promiseReporter :: bool
  e_discardReporter :: bool
  e_aliasConflictReporter :: bool
  e_badPromises :: "(EntityID, badPromise) gomap"
  e_bufferTTL :: duration
  e_pending :: "pendingRelation list"
  e_pendingHashes :: "string goset"
  e_refs :: "(EntityID, speakers) gomap"
  e_relRefs :: "(RelationID, speakers) gomap"
  e_contested :: "(EntityID, contestedNames) gomap"
  e_aliases :: identityAliasIndex
  e_staged :: "staged option"
  e_subs :: "nat goset"
  e_subID :: nat
  e_ulids :: nat
  e_delivered :: "(nat \<times> Event \<times> bool) list"
  e_reports :: "Report list"
  e_rolledBack :: "nat list"

section \<open>Staging\<close>

definition newStaged :: staged where
  "newStaged = \<lparr>st_events = [], st_scope = [], st_entities = [], st_deleted = [], st_byHash = [],
     st_relations = [], st_relRemoved = [], st_rollbacks = []\<rparr>"

definition staged_apply :: "Event \<Rightarrow> staged \<Rightarrow> staged" where
  "staged_apply ev st =
     (case ev_Entity ev of
        Some ee \<Rightarrow>
          (let ent = ee_Entity ee
           in case ee_ChangeType ee of
                EntityCreated \<Rightarrow>
                  st\<lparr>st_entities := gput (ent_ID ent) ent (st_entities st),
                     st_deleted := gdel (ent_ID ent) (st_deleted st),
                     st_byHash := gput (IdentityHash ent) (ent_ID ent) (st_byHash st)\<rparr>
              | EntityAttributeUpdated \<Rightarrow> st\<lparr>st_entities := gput (ent_ID ent) ent (st_entities st)\<rparr>
              | EntityStateChanged \<Rightarrow> st\<lparr>st_entities := gput (ent_ID ent) ent (st_entities st)\<rparr>
              | EntityDeleted \<Rightarrow> st\<lparr>st_deleted := gput (ent_ID ent) True (st_deleted st)\<rparr>
              | _ \<Rightarrow> st)
      | None \<Rightarrow>
          (case ev_Relation ev of
             Some re \<Rightarrow>
               (let r = re_Relation re
                in case re_ChangeType re of
                     RelationAdded \<Rightarrow>
                       st\<lparr>st_relations := gput (rel_ID r) r (st_relations st),
                          st_relRemoved := gdel (rel_ID r) (st_relRemoved st)\<rparr>
                   | RelationAttributeChanged \<Rightarrow>
                       st\<lparr>st_relations := gput (rel_ID r) r (st_relations st),
                          st_relRemoved := gdel (rel_ID r) (st_relRemoved st)\<rparr>
                   | RelationRemoved \<Rightarrow>
                       st\<lparr>st_relations := gdel (rel_ID r) (st_relations st),
                          st_relRemoved := gput (rel_ID r) True (st_relRemoved st)\<rparr>
                   | _ \<Rightarrow> st)
           | None \<Rightarrow> st))"

definition stDeleted :: "staged \<Rightarrow> EntityID \<Rightarrow> bool" where
  "stDeleted st i = gget False (st_deleted st) i"

definition stRelRemoved :: "staged \<Rightarrow> RelationID \<Rightarrow> bool" where
  "stRelRemoved st i = gget False (st_relRemoved st) i"

section \<open>Construction, reporters and subscribers\<close>

definition NewEngine :: "Graph \<Rightarrow> 'a \<Rightarrow> 'a Engine" where
  "NewEngine graph appender =
     \<lparr>e_graph = graph, e_appender = appender, e_promiseReporter = False, e_discardReporter = False,
      e_aliasConflictReporter = False, e_badPromises = [], e_bufferTTL = 0, e_pending = [],
      e_pendingHashes = [], e_refs = [], e_relRefs = [], e_contested = [],
      e_aliases = newIdentityAliasIndex, e_staged = None, e_subs = [], e_subID = 0, e_ulids = 0,
      e_delivered = [], e_reports = [], e_rolledBack = []\<rparr>"

definition WithRelationBuffer :: "duration \<Rightarrow> 'a Engine \<Rightarrow> 'a Engine" where
  "WithRelationBuffer ttl e = e\<lparr>e_bufferTTL := ttl\<rparr>"

definition SetDiscardReporter :: "bool \<Rightarrow> 'a Engine \<Rightarrow> 'a Engine" where
  "SetDiscardReporter fn e = e\<lparr>e_discardReporter := fn\<rparr>"

definition SetIdentityAliasConflictReporter :: "bool \<Rightarrow> 'a Engine \<Rightarrow> 'a Engine" where
  "SetIdentityAliasConflictReporter fn e = e\<lparr>e_aliasConflictReporter := fn\<rparr>"

definition SetPromiseReporter :: "bool \<Rightarrow> 'a Engine \<Rightarrow> 'a Engine" where
  "SetPromiseReporter fn e = e\<lparr>e_promiseReporter := fn\<rparr>"

definition Subscribe :: "'a Engine \<Rightarrow> 'a Engine \<times> nat" where
  "Subscribe e = (e\<lparr>e_subID := Suc (e_subID e), e_subs := gadd (e_subID e) (e_subs e)\<rparr>, e_subID e)"

definition Unsubscribe :: "nat \<Rightarrow> 'a Engine \<Rightarrow> 'a Engine" where
  "Unsubscribe i e = e\<lparr>e_subs := gdel i (e_subs e)\<rparr>"

definition notify :: "Event \<Rightarrow> bool \<Rightarrow> 'a Engine \<Rightarrow> 'a Engine" where
  "notify ev highPriority e =
     e\<lparr>e_delivered := e_delivered e @ map (\<lambda>i. (i, ev, highPriority)) (gkeys (e_subs e))\<rparr>"

definition reportDiscard :: "RelationObservation \<Rightarrow> 'a Engine \<Rightarrow> 'a Engine" where
  "reportDiscard obs e =
     (if \<not> e_discardReporter e then e
      else e\<lparr>e_reports := e_reports e
             @ [DiscardReport (ro_Type obs) (ep_Type (ro_From obs)) (ep_Type (ro_To obs))]\<rparr>)"

text \<open>\<open>model.NewEntityID\<close> and \<open>model.NewEventID\<close> mint the next identifier.\<close>

definition mint :: "'a env \<Rightarrow> 'a Engine \<Rightarrow> string \<times> 'a Engine" where
  "mint env e = (env_ulid env (e_ulids e), e\<lparr>e_ulids := Suc (e_ulids e)\<rparr>)"

definition currentScope :: "'a Engine \<Rightarrow> string" where
  "currentScope e = (case e_staged e of None \<Rightarrow> [] | Some st \<Rightarrow> st_scope st)"

definition setCurrentScope :: "string \<Rightarrow> 'a Engine \<Rightarrow> 'a Engine" where
  "setCurrentScope scope e =
     (case e_staged e of None \<Rightarrow> e | Some st \<Rightarrow> e\<lparr>e_staged := Some (st\<lparr>st_scope := scope\<rparr>)\<rparr>)"

section \<open>Classification reads\<close>

definition matchIdentity :: "'a Engine \<Rightarrow> string \<Rightarrow> KeyValue list \<Rightarrow> EntityID option" where
  "matchIdentity e typ identity =
     (case e_staged e of
        None \<Rightarrow> MatchIdentity (e_graph e) typ identity
      | Some st \<Rightarrow>
          (case map_of (st_byHash st) (identityHashOf typ identity) of
             Some i \<Rightarrow> if stDeleted st i then None else Some i
           | None \<Rightarrow>
               (case MatchIdentity (e_graph e) typ identity of
                  Some i \<Rightarrow> if \<not> stDeleted st i then Some i else None
                | None \<Rightarrow> None)))"

definition matchTombstone :: "'a env \<Rightarrow> 'a Engine \<Rightarrow> string \<Rightarrow> KeyValue list \<Rightarrow> EntityID option" where
  "matchTombstone env e typ identity =
     (case MatchTombstone (env_now env) (e_graph e) typ identity of
        None \<Rightarrow> None
      | Some i \<Rightarrow>
          (case e_staged e of
             Some st \<Rightarrow> if stDeleted st i then None else Some i
           | None \<Rightarrow> Some i))"

definition getEntity :: "'a Engine \<Rightarrow> EntityID \<Rightarrow> Entity option \<times> bool" where
  "getEntity e i =
     (case e_staged e of
        None \<Rightarrow> GetEntity (e_graph e) i
      | Some st \<Rightarrow>
          (case map_of (st_entities st) i of
             Some ent \<Rightarrow> (Some ent, stDeleted st i)
           | None \<Rightarrow> (case GetEntity (e_graph e) i of (ent, deleted) \<Rightarrow> (ent, deleted \<or> stDeleted st i))))"

definition getRelation :: "'a Engine \<Rightarrow> RelationID \<Rightarrow> Relation option" where
  "getRelation e i =
     (case e_staged e of
        None \<Rightarrow> GetRelation (e_graph e) i
      | Some st \<Rightarrow>
          if stRelRemoved st i then None
          else case map_of (st_relations st) i of
                 Some r \<Rightarrow> Some r
               | None \<Rightarrow> GetRelation (e_graph e) i)"

definition touchStaged :: "EntityID \<Rightarrow> (RelationID, Relation) gomap \<Rightarrow> Relation list" where
  "touchStaged i rels = filter (\<lambda>r. rel_From r = i \<or> rel_To r = i) (map snd rels)"

definition listRelationsTouching :: "'a Engine \<Rightarrow> EntityID \<Rightarrow> Relation list" where
  "listRelationsTouching e i =
     (let out = (case e_staged e of Some st \<Rightarrow> touchStaged i (st_relations st) | None \<Rightarrow> []);
          seen = map (\<lambda>r. (rel_ID r, ())) out;
          res = foldl (\<lambda>(out, seen) r.
                  if ghas seen (rel_ID r) then (out, seen)
                  else if (case e_staged e of Some st \<Rightarrow> stRelRemoved st (rel_ID r) | None \<Rightarrow> False)
                  then (out, gadd (rel_ID r) seen)
                  else (out @ [r], gadd (rel_ID r) seen)) (out, seen)
                (ListRelations (e_graph e) [] i [] @ ListRelations (e_graph e) [] [] i)
      in sort_key rel_ID (fst res))"

section \<open>Commit and flush\<close>

definition commit :: "'a env \<Rightarrow> Event \<Rightarrow> bool \<Rightarrow> 'a Engine \<Rightarrow> 'a Engine \<times> (EngErr + Event)" where
  "commit env ev highPriority e =
     (case e_staged e of
        Some st \<Rightarrow>
          (e\<lparr>e_staged := Some (staged_apply ev (st\<lparr>st_events := st_events st @ [(ev, highPriority)]\<rparr>))\<rparr>, Inr ev)
      | None \<Rightarrow>
          (case env_append env (e_appender e) [ev] of
             Inl err \<Rightarrow> (e, Inl (AppendErr err))
           | Inr (app, seq) \<Rightarrow>
               let ev = stampCommit seq ev;
                   e = e\<lparr>e_appender := app\<rparr>;
                   e = e\<lparr>e_graph := Apply (env_now env) ev (e_graph e)\<rparr>
               in (notify ev highPriority e, Inr ev)))"

definition applyNotify :: "'a env \<Rightarrow> Event \<times> bool \<Rightarrow> 'a Engine \<Rightarrow> 'a Engine" where
  "applyNotify env se e =
     (case se of (ev, hp) \<Rightarrow> notify ev hp (e\<lparr>e_graph := Apply (env_now env) ev (e_graph e)\<rparr>))"

definition flushStaged :: "'a env \<Rightarrow> staged \<Rightarrow> 'a Engine \<Rightarrow> 'a Engine \<times> EngErr option" where
  "flushStaged env st e =
     (let e = e\<lparr>e_staged := None\<rparr>
      in if st_events st = [] then (e, None)
         else case env_append env (e_appender e) (map fst (st_events st)) of
                Inl err \<Rightarrow> (e\<lparr>e_rolledBack := e_rolledBack e @ rev (st_rollbacks st)\<rparr>, Some (FlushErr err))
              | Inr (app, seq) \<Rightarrow>
                  (fold (applyNotify env) (map (\<lambda>(ev, hp). (stampCommit seq ev, hp)) (st_events st))
                     (e\<lparr>e_appender := app\<rparr>), None))"

definition joinErrs :: "EngErr list \<Rightarrow> EngErr option" where
  "joinErrs errs = (if errs = [] then None else Some (Joined errs))"

section \<open>Entities\<close>

definition canonMap :: "KeyValue list \<Rightarrow> (string, string) gomap" where
  "canonMap kvs = foldl (\<lambda>m (k, v). gput k (canonical v) m) [] kvs"

definition diffAttributes :: "KeyValue list \<Rightarrow> KeyValue list \<Rightarrow> string list \<times> bool" where
  "diffAttributes oldAttrs newAttrs =
     (let om = canonMap oldAttrs;
          nm = canonMap newAttrs;
          changed = map fst (filter (\<lambda>(k, nv). \<not> ghas om k \<or> map_of om k \<noteq> Some nv) nm)
                    @ filter (\<lambda>k. \<not> ghas nm k) (gkeys om)
      in (changed, list_ex (\<lambda>k. ghas stateKeys k) changed))"

definition promise :: "EntityID \<Rightarrow> string \<Rightarrow> string \<Rightarrow> duration \<Rightarrow> 'a Engine \<Rightarrow> 'a Engine \<times> duration" where
  "promise i typ producer declared e =
     (if declared \<le> maxPlausibleLivenessPromise
      then (if i \<noteq> [] then e\<lparr>e_badPromises := gdel i (e_badPromises e)\<rparr> else e, declared)
      else let e = (if i \<noteq> []
                    then e\<lparr>e_badPromises := gput i \<lparr>bp_declared = declared, bp_producer = producer\<rparr> (e_badPromises e)\<rparr>
                    else e)
           in (if e_promiseReporter e
               then e\<lparr>e_reports := e_reports e @ [PromiseReport producer typ declared]\<rparr> else e, 0))"

definition oldestName :: "(string, time) gomap \<Rightarrow> string" where
  "oldestName values =
     fst (foldl (\<lambda>(oldestValue, oldestAt) (v, seenAt).
       if oldestValue = [] \<or> seenAt < oldestAt then (v, seenAt) else (oldestValue, oldestAt)) ([], 0) values)"

definition recordName :: "time \<Rightarrow> string \<Rightarrow> contestedNames \<Rightarrow> contestedNames" where
  "recordName now name c =
     (if name = cn_last c then c\<lparr>cn_values := gput name now (cn_values c)\<rparr>
      else let c = (if ghas (cn_values c) name then c\<lparr>cn_contested := True\<rparr> else c);
               c = (if length (cn_values c) \<ge> maxContestedDisplayNames
                    then c\<lparr>cn_contested := True, cn_values := gdel (oldestName (cn_values c)) (cn_values c)\<rparr>
                    else c)
           in c\<lparr>cn_values := gput name now (cn_values c), cn_last := name\<rparr>)"

definition trackDisplayName :: "'a env \<Rightarrow> EntityID \<Rightarrow> EntityObservation \<Rightarrow> string \<Rightarrow> 'a Engine \<Rightarrow> 'a Engine" where
  "trackDisplayName env i obs prev e =
     (let name = DisplayName (zeroEntity\<lparr>ent_Type := eo_Type obs, ent_Identity := eo_Identity obs,
                   ent_Attributes := eo_Attributes obs\<rparr>)
      in if name = [] then e
         else let prev = (if prev = [] then name else prev);
                  now = env_now env
              in case map_of (e_contested e) i of
                   None \<Rightarrow>
                     if name = prev then e
                     else e\<lparr>e_contested := gput i
                            \<lparr>cn_last = name, cn_contested = False,
                             cn_values = gput name now (if prev \<noteq> [] then gput prev now [] else [])\<rparr>
                            (e_contested e)\<rparr>
                 | Some c \<Rightarrow> e\<lparr>e_contested := gput i (recordName now name c) (e_contested e)\<rparr>)"

definition ContestedDisplayNames :: "'a Engine \<Rightarrow> nat" where
  "ContestedDisplayNames e = length (filter (\<lambda>(_, c). cn_contested c) (e_contested e))"

text \<open>\<open>relationEvent\<close>, which mints the event id.\<close>

definition relationEvent :: "'a env \<Rightarrow> ChangeType \<Rightarrow> Relation \<Rightarrow> time \<Rightarrow> DeleteSource \<Rightarrow> 'a Engine
    \<Rightarrow> Event \<times> 'a Engine" where
  "relationEvent env ct rel eventTime source e =
     (let (eid, e) = mint env e
      in (relationEv (zeroRelationEvent\<lparr>re_EventID := eid, re_ChangeType := ct, re_Relation := rel,
            re_EventTime := eventTime, re_RecordedAt := env_now env, re_SchemaVersion := SchemaVersion,
            re_DeleteSource := source, re_Scope := currentScope e\<rparr>), e))"

definition resolveEndpoint :: "'a Engine \<Rightarrow> EndpointRef \<Rightarrow> EntityID \<times> bool" where
  "resolveEndpoint e ref =
     (case matchIdentity e (ep_Type ref) (ep_Identity ref) of
        Some i \<Rightarrow> (i, False)
      | None \<Rightarrow>
          (case substituteAliases (e_aliases e) (ep_Identity ref) of
             None \<Rightarrow> ([], False)
           | Some sub \<Rightarrow>
               (case matchIdentity e (ep_Type ref) sub of
                  Some i \<Rightarrow> (i, True)
                | None \<Rightarrow> ([], False))))"

definition resolveEndpoints :: "'a Engine \<Rightarrow> EndpointRef \<Rightarrow> EndpointRef \<Rightarrow> EngErr + (EntityID \<times> EntityID)" where
  "resolveEndpoints e from to =
     (case resolveEndpoint e from of
        (fromID, fromSub) \<Rightarrow>
          if fromID = [] then Inl EndpointMissing
          else case resolveEndpoint e to of
                 (toID, toSub) \<Rightarrow>
                   if toID = [] then Inl EndpointMissing
                   else if (fromSub \<or> toSub) \<and> fromID = toID then Inl EndpointsCollapsed
                   else Inr (fromID, toID))"

definition dropPendingRelation :: "RelationObservation \<Rightarrow> 'a Engine \<Rightarrow> 'a Engine" where
  "dropPendingRelation obs e =
     (if aliasBeliefLive (e_aliases e) obs then e else reportDiscard obs e)"

definition pendingHashesOf :: "identityAliasIndex \<Rightarrow> pendingRelation list \<Rightarrow> string goset" where
  "pendingHashesOf aliases pending =
     foldl (\<lambda>m ref.
        let m = gadd (endpointHash ref) m
        in case substituteAliases aliases (ep_Identity ref) of
             Some sub \<Rightarrow> gadd (identityHashOf (ep_Type ref) sub) m
           | None \<Rightarrow> m) []
       (concat (map (\<lambda>p. [ro_From (pr_obs p), ro_To (pr_obs p)]) pending))"

definition rebuildPendingHashes :: "'a Engine \<Rightarrow> 'a Engine" where
  "rebuildPendingHashes e = e\<lparr>e_pendingHashes := pendingHashesOf (e_aliases e) (e_pending e)\<rparr>"

section \<open>Relations\<close>

text \<open>Record the reference of the observing speaker on the edge.\<close>

definition referRelation :: "'a env \<Rightarrow> RelationObservation \<Rightarrow> EntityID \<Rightarrow> RelationID \<Rightarrow> 'a Engine \<Rightarrow> 'a Engine" where
  "referRelation env obs from i e =
     (let refs = gget [] (e_relRefs e) i;
          e = e\<lparr>e_relRefs := gput i refs (e_relRefs e)\<rparr>;
          key = refKey (ro_Producer obs) (currentScope e);
          (e, iv) = promise [] (ro_Type obs) (ro_Producer obs) (ro_Interval obs) e;
          ref = (if iv > 0 then \<lparr>lr_deadline = env_now env + iv, lr_interval = iv, lr_legacy = False\<rparr>
                 else inheritedRef (e_refs e) from key)
      in e\<lparr>e_relRefs := gput i (gput key ref refs) (e_relRefs e)\<rparr>)"

definition observeRelationLocked :: "'a env \<Rightarrow> RelationObservation \<Rightarrow> 'a Engine
    \<Rightarrow> 'a Engine \<times> Event option \<times> EngErr option" where
  "observeRelationLocked env obs e =
     (case resolveEndpoints e (ro_From obs) (ro_To obs) of
        Inl err \<Rightarrow> (e, None, Some err)
      | Inr (from, to) \<Rightarrow>
          let rel = NewRelation (ro_Type obs) from to (ro_Attributes obs);
              e = referRelation env obs from (rel_ID rel) e;
              ct = (case getRelation e (rel_ID rel) of
                      Some existing \<Rightarrow>
                        if fst (diffAttributes (rel_Attributes existing) (ro_Attributes obs)) = [] then None
                        else Some RelationAttributeChanged
                    | None \<Rightarrow> Some RelationAdded)
          in case ct of
               None \<Rightarrow> (e, None, None)
             | Some ct \<Rightarrow>
                 let (ev, e) = relationEvent env ct rel (ro_EventTime obs) DeleteSourceUnknown e;
                     highPriority = (rel_Structural rel \<and> ct = RelationAdded)
                 in case commit env ev highPriority e of
                      (e, Inl err) \<Rightarrow> (e, None, Some err)
                    | (e, Inr ev) \<Rightarrow> (e, Some ev, None))"

definition flushOne :: "'a env \<Rightarrow> pendingRelation \<Rightarrow> 'a Engine \<times> pendingRelation list
    \<Rightarrow> 'a Engine \<times> pendingRelation list" where
  "flushOne env p s =
     (case s of (e, kept) \<Rightarrow>
        if env_now env > pr_deadline p then (dropPendingRelation (pr_obs p) e, kept)
        else let flushing = currentScope e;
                 e = setCurrentScope (pr_scope p) e
             in case observeRelationLocked env (pr_obs p) e of
                  (e, _, err) \<Rightarrow>
                    let e = setCurrentScope flushing e
                    in if err = None then (e, kept)
                       else if err = Some EndpointsCollapsed then (dropPendingRelation (pr_obs p) e, kept)
                       else (e, kept @ [p]))"

definition flushPending :: "'a env \<Rightarrow> 'a Engine \<Rightarrow> 'a Engine" where
  "flushPending env e =
     (if e_pending e = [] then e
      else case fold (flushOne env) (e_pending e) (e, []) of
             (e, kept) \<Rightarrow> rebuildPendingHashes (e\<lparr>e_pending := kept\<rparr>))"

definition recordAliasLocked :: "'a env \<Rightarrow> RelationObservation \<Rightarrow> 'a Engine \<Rightarrow> 'a Engine" where
  "recordAliasLocked env obs e =
     (case aliasClaimFromObservation obs of
        None \<Rightarrow> e
      | Some claim \<Rightarrow>
          let speaker = refKey (ro_Producer obs) (currentScope e)
          in case aliasDeadline (env_now env) obs of
               None \<Rightarrow> e
             | Some deadline \<Rightarrow>
                 (case alias_record claim speaker (zeroRef\<lparr>lr_deadline := deadline\<rparr>) (e_aliases e) of
                    (aliases, _, conflict) \<Rightarrow>
                      let e = e\<lparr>e_aliases := aliases\<rparr>;
                          e = (if conflict \<and> e_aliasConflictReporter e
                               then e\<lparr>e_reports := e_reports e @ [AliasConflict
                                      (ak_attributeKey (ck_alias claim)) (ak_aliasValue (ck_alias claim))]\<rparr>
                               else e)
                      in if e_pending e \<noteq> [] then flushPending env (rebuildPendingHashes e) else e))"

text \<open>Park an out-of-order edge, giving up on the oldest one when the buffer is full.\<close>

definition parkRelation :: "'a env \<Rightarrow> RelationObservation \<Rightarrow> 'a Engine \<Rightarrow> 'a Engine" where
  "parkRelation env obs e =
     (let e = (if length (e_pending e) \<ge> maxPendingRelations
               then reportDiscard (pr_obs (hd (e_pending e))) (e\<lparr>e_pending := tl (e_pending e)\<rparr>)
               else e);
          hold = (if ro_SourceInterval obs > e_bufferTTL e then ro_SourceInterval obs else e_bufferTTL e)
      in rebuildPendingHashes (e\<lparr>e_pending := e_pending e
           @ [\<lparr>pr_obs = obs, pr_deadline = env_now env + hold, pr_scope = currentScope e\<rparr>]\<rparr>))"

definition observeRelationBuffered :: "'a env \<Rightarrow> RelationObservation \<Rightarrow> 'a Engine
    \<Rightarrow> 'a Engine \<times> Event option \<times> EngErr option" where
  "observeRelationBuffered env obs e =
     (let e = (if ro_Type obs = RelSameAs then recordAliasLocked env obs e else e)
      in case observeRelationLocked env obs e of
           (e, ev, err) \<Rightarrow>
             if err = Some EndpointsCollapsed then (dropPendingRelation obs e, None, None)
             else if e_bufferTTL e > 0 \<and> err = Some EndpointMissing then (parkRelation env obs e, None, None)
             else (e, ev, err))"

definition ObserveRelation :: "'a env \<Rightarrow> RelationObservation \<Rightarrow> 'a Engine
    \<Rightarrow> 'a Engine \<times> Event option \<times> EngErr option" where
  "ObserveRelation env obs e = observeRelationBuffered env obs e"

definition removeRelationLocked :: "'a env \<Rightarrow> RelationObservation \<Rightarrow> 'a Engine
    \<Rightarrow> 'a Engine \<times> Event option \<times> EngErr option" where
  "removeRelationLocked env obs e =
     (case resolveEndpoints e (ro_From obs) (ro_To obs) of
        Inl err \<Rightarrow> if err = EndpointMissing then (e, None, None) else (e, None, Some err)
      | Inr (from, to) \<Rightarrow>
          let i = ComputeRelationID (ro_Type obs) from to;
              (e, held) =
                (case map_of (e_relRefs e) i of
                   Some refs \<Rightarrow>
                     (let refs = fst (releaseSpeaker refs (ro_Producer obs) (currentScope e))
                      in if refs \<noteq> [] then (e\<lparr>e_relRefs := gput i refs (e_relRefs e)\<rparr>, True)
                         else (e\<lparr>e_relRefs := gdel i (e_relRefs e)\<rparr>, False))
                 | None \<Rightarrow> (e, False))
          in if held then (e, None, None)
             else case getRelation e i of
                    None \<Rightarrow> (e, None, None)
                  | Some existing \<Rightarrow>
                      let (ev, e) = relationEvent env RelationRemoved existing (ro_EventTime obs)
                                      DeleteSourceProducer e
                      in case commit env ev (rel_Structural existing) e of
                           (e, Inl err) \<Rightarrow> (e, None, Some err)
                         | (e, Inr ev) \<Rightarrow> (e, Some ev, None))"

definition RemoveRelation :: "'a env \<Rightarrow> RelationObservation \<Rightarrow> 'a Engine
    \<Rightarrow> 'a Engine \<times> Event option \<times> EngErr option" where
  "RemoveRelation env obs e = removeRelationLocked env obs e"

definition removeOne :: "'a env \<Rightarrow> time \<Rightarrow> Relation \<Rightarrow> 'a Engine \<times> nat \<times> EngErr list
    \<Rightarrow> 'a Engine \<times> nat \<times> EngErr list" where
  "removeOne env when rel s =
     (case s of (e, n, errs) \<Rightarrow>
        let (ev, e) = relationEvent env RelationRemoved rel when DeleteSourceCascade e
        in case commit env ev (rel_Structural rel) e of
             (e, Inl err) \<Rightarrow> (e, n, errs @ [Wrap (rel_ID rel) err])
           | (e, Inr _) \<Rightarrow> (e\<lparr>e_relRefs := gdel (rel_ID rel) (e_relRefs e)\<rparr>, n + 1, errs))"

definition removeIncidentRelations :: "'a env \<Rightarrow> EntityID \<Rightarrow> time \<Rightarrow> 'a Engine
    \<Rightarrow> 'a Engine \<times> nat \<times> EngErr option" where
  "removeIncidentRelations env i when e =
     (case fold (removeOne env when) (listRelationsTouching e i) (e, 0, []) of
        (e, n, errs) \<Rightarrow> (e, n, joinErrs errs))"

section \<open>Observing and deleting entities\<close>

text \<open>Classify an observation: change type, logical id, changed keys, previous display name.\<close>

definition classify :: "'a env \<Rightarrow> EntityObservation \<Rightarrow> 'a Engine
    \<Rightarrow> (ChangeType \<times> EntityID \<times> string list \<times> string) \<times> 'a Engine" where
  "classify env obs e =
     (case matchIdentity e (eo_Type obs) (eo_Identity obs) of
        None \<Rightarrow>
          (case matchTombstone env e (eo_Type obs) (eo_Identity obs) of
             Some rid \<Rightarrow> ((EntityCreated, rid, [], []), e)
           | None \<Rightarrow> (let (i, e) = mint env e in ((EntityCreated, i, [], []), e)))
      | Some i \<Rightarrow>
          let existing = (case getEntity e i of (Some ent, _) \<Rightarrow> ent | (None, _) \<Rightarrow> zeroEntity);
              (changed, stateChanged) = diffAttributes (ent_Attributes existing) (eo_Attributes obs);
              ct = (if changed = [] then EntityUnchanged
                    else if stateChanged then EntityStateChanged else EntityAttributeUpdated)
          in ((ct, i, changed, DisplayName existing), e))"

definition observedEntity :: "EntityObservation \<Rightarrow> EntityID \<Rightarrow> Entity" where
  "observedEntity obs i =
     \<lparr>ent_ID = i, ent_Type = eo_Type obs, ent_Identity = eo_Identity obs,
      ent_Attributes = eo_Attributes obs, ent_SchemaURL = eo_SchemaURL obs\<rparr>"

definition referEntity :: "'a env \<Rightarrow> EntityObservation \<Rightarrow> EntityID \<Rightarrow> 'a Engine \<Rightarrow> 'a Engine" where
  "referEntity env obs i e =
     (let speakers = gget [] (e_refs e) i;
          key = refKey (eo_Producer obs) (currentScope e);
          (e, iv) = promise i (eo_Type obs) (eo_Producer obs) (eo_Interval obs) e;
          ref = (if iv > 0 then \<lparr>lr_deadline = env_now env + iv, lr_interval = iv, lr_legacy = False\<rparr>
                 else zeroRef)
      in e\<lparr>e_refs := gput i (gput key ref speakers) (e_refs e)\<rparr>)"

definition retryPending :: "'a env \<Rightarrow> EntityObservation \<Rightarrow> 'a Engine \<Rightarrow> 'a Engine" where
  "retryPending env obs e =
     (if e_pending e \<noteq> [] \<and> ghas (e_pendingHashes e) (identityHashOf (eo_Type obs) (eo_Identity obs))
      then flushPending env e else e)"

definition observeEntityLocked :: "'a env \<Rightarrow> EntityObservation \<Rightarrow> 'a Engine
    \<Rightarrow> 'a Engine \<times> (EngErr + Event)" where
  "observeEntityLocked env obs e =
     (case classify env obs e of
        ((ct, i, changedKeys, prevName), e) \<Rightarrow>
          let (eid, e) = mint env e;
              ev = entityEvent (zeroEntityEvent\<lparr>ee_EventID := eid, ee_ChangeType := ct,
                     ee_Entity := observedEntity obs i, ee_EventTime := eo_EventTime obs,
                     ee_RecordedAt := env_now env, ee_SchemaVersion := SchemaVersion,
                     ee_ChangedKeys := changedKeys, ee_Scope := currentScope e\<rparr>)
          in case commit env ev False e of
               (e, Inl err) \<Rightarrow> (e, Inl err)
             | (e, Inr ev) \<Rightarrow>
                 (retryPending env obs (trackDisplayName env i obs prevName (referEntity env obs i e)), Inr ev))"

definition ObserveEntity :: "'a env \<Rightarrow> EntityObservation \<Rightarrow> 'a Engine \<Rightarrow> 'a Engine \<times> (EngErr + Event)" where
  "ObserveEntity env obs e = observeEntityLocked env obs e"

text \<open>Once no speaker holds the entity: commit its deletion and take its edges with it.\<close>

definition commitDelete :: "'a env \<Rightarrow> EntityObservation \<Rightarrow> EntityID \<Rightarrow> 'a Engine
    \<Rightarrow> 'a Engine \<times> Event option \<times> EngErr option" where
  "commitDelete env obs i e =
     (let (eid, e) = mint env e;
          ev = entityEvent (zeroEntityEvent\<lparr>ee_EventID := eid, ee_ChangeType := EntityDeleted,
                 ee_Entity := observedEntity obs i, ee_EventTime := eo_EventTime obs,
                 ee_RecordedAt := env_now env, ee_SchemaVersion := SchemaVersion,
                 ee_DeleteReason := eo_DeleteReason obs, ee_DeleteSource := DeleteSourceProducer,
                 ee_Scope := currentScope e\<rparr>)
      in case commit env ev False e of
           (e, Inl err) \<Rightarrow> (e, None, Some err)
         | (e, Inr ev) \<Rightarrow>
             (case removeIncidentRelations env i (eo_EventTime obs) (e\<lparr>e_contested := gdel i (e_contested e)\<rparr>) of
                (e, _, rerr) \<Rightarrow> (e, Some ev, rerr)))"

definition deleteEntityLocked :: "'a env \<Rightarrow> EntityObservation \<Rightarrow> 'a Engine
    \<Rightarrow> 'a Engine \<times> Event option \<times> EngErr option" where
  "deleteEntityLocked env obs e =
     (case matchIdentity e (eo_Type obs) (eo_Identity obs) of
        None \<Rightarrow> (e, None, None)
      | Some i \<Rightarrow>
          (case map_of (e_refs e) i of
             Some speakers \<Rightarrow>
               (let speakers = fst (releaseSpeaker speakers (eo_Producer obs) (currentScope e))
                in if speakers \<noteq> [] then (e\<lparr>e_refs := gput i speakers (e_refs e)\<rparr>, None, None)
                   else commitDelete env obs i (e\<lparr>e_refs := gdel i (e_refs e)\<rparr>))
           | None \<Rightarrow> commitDelete env obs i e))"

definition DeleteEntity :: "'a env \<Rightarrow> EntityObservation \<Rightarrow> 'a Engine
    \<Rightarrow> 'a Engine \<times> Event option \<times> EngErr option" where
  "DeleteEntity env obs e = deleteEntityLocked env obs e"

section \<open>Sweep\<close>

record SweepResult =
  sr_Entities :: nat
  sr_Relations :: nat

text \<open>
  Drop the lapsed references of every entity; an entity left with none is orphaned, and
  the method whose deadline was the latest is the one that went silent.
\<close>

definition silencedIn :: "time \<Rightarrow> speakers \<Rightarrow> (string \<times> time) option" where
  "silencedIn now speakers =
     foldl (\<lambda>s (key, ref).
        if lapsed now ref
        then (case s of
                None \<Rightarrow> Some (snd (splitRefKey key), lr_deadline ref)
              | Some (_, d) \<Rightarrow>
                  if lr_deadline ref > d then Some (snd (splitRefKey key), lr_deadline ref) else s)
        else s) None speakers"

definition sweepRefs :: "time \<Rightarrow> (EntityID, speakers) gomap
    \<Rightarrow> (EntityID, speakers) gomap \<times> EntityID list \<times> (EntityID, string) gomap" where
  "sweepRefs now refs =
     foldl (\<lambda>(refs', orphaned, silenced) (i, speakers).
        let kept = dropLapsed now speakers
        in (gput i kept refs',
            if kept = [] then orphaned @ [i] else orphaned,
            case silencedIn now speakers of Some (scope, _) \<Rightarrow> gput i scope silenced | None \<Rightarrow> silenced))
       (refs, [], []) refs"

definition expireEntity :: "'a env \<Rightarrow> (EntityID, string) gomap \<Rightarrow> EntityID
    \<Rightarrow> 'a Engine \<times> SweepResult \<times> EngErr list \<Rightarrow> 'a Engine \<times> SweepResult \<times> EngErr list" where
  "expireEntity env silenced i s =
     (case s of (e, res, errs) \<Rightarrow>
        case GetEntity (e_graph e) i of
          (Some ent, False) \<Rightarrow>
            let (eid, e) = mint env e;
                ev = entityEvent (zeroEntityEvent\<lparr>ee_EventID := eid, ee_ChangeType := EntityDeleted,
                       ee_Entity := ent, ee_EventTime := env_now env, ee_RecordedAt := env_now env,
                       ee_SchemaVersion := SchemaVersion, ee_DeleteSource := DeleteSourceLivenessExpiry,
                       ee_Scope := gget [] silenced i\<rparr>)
            in (case commit env ev False e of
                  (e, Inl err) \<Rightarrow> (e, res, errs @ [Wrap i err])
                | (e, Inr _) \<Rightarrow>
                    let e = e\<lparr>e_refs := gdel i (e_refs e), e_contested := gdel i (e_contested e)\<rparr>
                    in case removeIncidentRelations env i (env_now env) e of
                         (e, rn, rerr) \<Rightarrow>
                           (e, res\<lparr>sr_Entities := sr_Entities res + 1, sr_Relations := sr_Relations res + rn\<rparr>,
                            case rerr of Some err \<Rightarrow> errs @ [err] | None \<Rightarrow> errs))
        | _ \<Rightarrow> (e\<lparr>e_refs := gdel i (e_refs e), e_contested := gdel i (e_contested e)\<rparr>, res, errs))"

definition livenessIntervalLocked :: "'a Engine \<Rightarrow> EntityID \<Rightarrow> duration \<times> bool" where
  "livenessIntervalLocked e i =
     (let coarsest = coarsestInterval (gget [] (e_refs e) i) in (coarsest, coarsest > 0))"

definition sweepContested :: "time \<Rightarrow> 'a Engine \<Rightarrow> 'a Engine" where
  "sweepContested now e =
     e\<lparr>e_contested :=
        foldl (\<lambda>m (i, c).
          let (interval, ok) = livenessIntervalLocked e i;
              values = (if ok then filter (\<lambda>(v, seenAt). \<not> now > seenAt + interval) (cn_values c) else cn_values c)
          in if values = [] then gdel i m else gput i (c\<lparr>cn_values := values\<rparr>) m)
        (e_contested e) (e_contested e)\<rparr>"

definition sweepPending :: "time \<Rightarrow> 'a Engine \<Rightarrow> 'a Engine" where
  "sweepPending now e =
     (if e_pending e = [] then e
      else let e' = fold (\<lambda>p e. if now > pr_deadline p then dropPendingRelation (pr_obs p) e else e)
                      (e_pending e) e
           in rebuildPendingHashes (e'\<lparr>e_pending := filter (\<lambda>p. \<not> now > pr_deadline p) (e_pending e)\<rparr>))"

definition sweepRelRefs :: "time \<Rightarrow> (RelationID, speakers) gomap
    \<Rightarrow> (RelationID, speakers) gomap \<times> RelationID list" where
  "sweepRelRefs now refs =
     foldl (\<lambda>(refs', expired) (i, speakers).
        let kept = dropLapsed now speakers
        in (gput i kept refs', if kept = [] then expired @ [i] else expired)) (refs, []) refs"

definition expireRelation :: "'a env \<Rightarrow> RelationID
    \<Rightarrow> 'a Engine \<times> SweepResult \<times> EngErr list \<Rightarrow> 'a Engine \<times> SweepResult \<times> EngErr list" where
  "expireRelation env i s =
     (case s of (e, res, errs) \<Rightarrow>
        case GetRelation (e_graph e) i of
          None \<Rightarrow> (e\<lparr>e_relRefs := gdel i (e_relRefs e)\<rparr>, res, errs)
        | Some rel \<Rightarrow>
            let (ev, e) = relationEvent env RelationRemoved rel (env_now env) DeleteSourceLivenessExpiry e
            in case commit env ev (rel_Structural rel) e of
                 (e, Inl err) \<Rightarrow> (e, res, errs @ [Wrap i err])
               | (e, Inr _) \<Rightarrow>
                   (e\<lparr>e_relRefs := gdel i (e_relRefs e)\<rparr>, res\<lparr>sr_Relations := sr_Relations res + 1\<rparr>, errs))"

definition zeroSweep :: SweepResult where
  "zeroSweep = \<lparr>sr_Entities = 0, sr_Relations = 0\<rparr>"

text \<open>The pass up to the flush: everything it stages.\<close>

definition sweepStage :: "'a env \<Rightarrow> 'a Engine \<Rightarrow> 'a Engine \<times> SweepResult \<times> EngErr list" where
  "sweepStage env e =
     (let now = env_now env;
          e = e\<lparr>e_staged := Some newStaged\<rparr>;
          (refs, orphaned, silenced) = sweepRefs now (e_refs e);
          e = e\<lparr>e_refs := refs\<rparr>;
          (e, res, errs) = fold (expireEntity env silenced) orphaned (e, zeroSweep, []);
          e = sweepContested now e;
          e = sweepPending now e;
          (relRefs, expired) = sweepRelRefs now (e_relRefs e);
          e = e\<lparr>e_relRefs := relRefs\<rparr>
      in fold (expireRelation env) expired (e, res, errs))"

definition stagedOf :: "'a Engine \<Rightarrow> staged" where
  "stagedOf e = (case e_staged e of Some st \<Rightarrow> st | None \<Rightarrow> newStaged)"

definition Sweep :: "'a env \<Rightarrow> 'a Engine \<Rightarrow> 'a Engine \<times> SweepResult \<times> EngErr option" where
  "Sweep env e =
     (case sweepStage env e of
        (e, res, errs) \<Rightarrow>
          (case flushStaged env (stagedOf e) e of
             (e, ferr) \<Rightarrow>
               let (res, errs) = (case ferr of Some err \<Rightarrow> (zeroSweep, errs @ [err]) | None \<Rightarrow> (res, errs));
                   e = e\<lparr>e_aliases := alias_sweep (env_now env) (e_aliases e)\<rparr>;
                   e = e\<lparr>e_graph := fst (PruneTombstones (env_now env) (e_graph e))\<rparr>
               in (e, res, joinErrs errs)))"

section \<open>Batches\<close>

text \<open>
  The operations of a \<open>Batch\<close>.  The function a caller passes to \<open>Batch\<close> makes a sequence of
  these calls; a rollback is a handle of the registered function.
\<close>

datatype BatchOp =
    BObserveEntity EntityObservation
  | BDeleteEntity EntityObservation
  | BObserveRelation RelationObservation
  | BRemoveRelation RelationObservation
  | BSetScope string
  | BOnRollback nat

fun batchStep :: "'a env \<Rightarrow> BatchOp \<Rightarrow> 'a Engine \<Rightarrow> 'a Engine" where
  "batchStep env (BObserveEntity obs) e = fst (observeEntityLocked env obs e)"
| "batchStep env (BDeleteEntity obs) e = fst (deleteEntityLocked env obs e)"
| "batchStep env (BObserveRelation obs) e = fst (observeRelationBuffered env obs e)"
| "batchStep env (BRemoveRelation obs) e = fst (removeRelationLocked env obs e)"
| "batchStep env (BSetScope scope) e = setCurrentScope scope e"
| "batchStep env (BOnRollback fn) e =
     (case e_staged e of
        Some st \<Rightarrow> e\<lparr>e_staged := Some (st\<lparr>st_rollbacks := st_rollbacks st @ [fn]\<rparr>)\<rparr>
      | None \<Rightarrow> e)"

definition Batch :: "'a env \<Rightarrow> BatchOp list \<Rightarrow> 'a Engine \<Rightarrow> 'a Engine \<times> EngErr option" where
  "Batch env ops e =
     (let e = fold (batchStep env) ops (e\<lparr>e_staged := Some newStaged\<rparr>)
      in flushStaged env (stagedOf e) e)"

section \<open>Reads of the liveness state\<close>

definition AssertingProducers :: "'a Engine \<Rightarrow> EntityID \<Rightarrow> string list" where
  "AssertingProducers e i = producersOf (gget [] (e_refs e) i)"

definition RelationAssertingProducers :: "'a Engine \<Rightarrow> RelationID \<Rightarrow> string list" where
  "RelationAssertingProducers e i = producersOf (gget [] (e_relRefs e) i)"

definition RelationAssertingScopes :: "'a Engine \<Rightarrow> RelationID \<Rightarrow> string list" where
  "RelationAssertingScopes e i = scopesOf (gget [] (e_relRefs e) i)"

definition AssertingScopes :: "'a Engine \<Rightarrow> EntityID \<Rightarrow> string list" where
  "AssertingScopes e i = scopesOf (gget [] (e_refs e) i)"

definition AnonymousReferences :: "'a Engine \<Rightarrow> EntityID \<Rightarrow> nat" where
  "AnonymousReferences e i = anonymousIn (gget [] (e_refs e) i)"

definition AnonymousReferenceEntities :: "'a Engine \<Rightarrow> nat" where
  "AnonymousReferenceEntities e = length (filter (\<lambda>(_, speakers). anonymousIn speakers > 0) (e_refs e))"

definition ImplausiblePromise :: "'a Engine \<Rightarrow> EntityID \<Rightarrow> duration \<times> string \<times> bool" where
  "ImplausiblePromise e i =
     (case map_of (e_badPromises e) i of
        Some bp \<Rightarrow> (bp_declared bp, bp_producer bp, True) | None \<Rightarrow> (0, [], False))"

definition ObservationInterval :: "'a Engine \<Rightarrow> EntityID \<Rightarrow> duration \<times> bool" where
  "ObservationInterval e i = livenessIntervalLocked e i"

section \<open>The liveness memento\<close>

text \<open>
  The snapshot the blob encodes; the JSON text is the standard library's encoding of it.
\<close>

record livenessSnapshot =
  ls_Refs :: "(string, (string, time) gomap) gomap"
  ls_RefIntervals :: "(string, (string, duration) gomap) gomap"
  ls_SpeakerKeys :: bool
  ls_RelRefs :: "(string, (string, time) gomap) gomap"
  ls_RelRefIntervals :: "(string, (string, duration) gomap) gomap"
  ls_RelDeadlines :: "(string, time) gomap"
  ls_RelIntervals :: "(string, duration) gomap"

definition LivenessBlob :: "'a Engine \<Rightarrow> livenessSnapshot" where
  "LivenessBlob e =
     \<lparr>ls_Refs = map (\<lambda>(i, sp). (i, map (\<lambda>(p, ref). (p, lr_deadline ref)) sp)) (e_refs e),
      ls_RefIntervals = map (\<lambda>(i, sp). (i, map (\<lambda>(p, ref). (p, lr_interval ref)) sp)) (e_refs e),
      ls_SpeakerKeys = True,
      ls_RelRefs = map (\<lambda>(i, sp). (i, map (\<lambda>(p, ref). (p, lr_deadline ref)) sp)) (e_relRefs e),
      ls_RelRefIntervals = map (\<lambda>(i, sp). (i, map (\<lambda>(p, ref). (p, lr_interval ref)) sp)) (e_relRefs e),
      ls_RelDeadlines = [], ls_RelIntervals = []\<rparr>"

definition carriesAnyCompositeKey :: "livenessSnapshot \<Rightarrow> bool" where
  "carriesAnyCompositeKey snap =
     (list_ex (\<lambda>(_, sp). list_ex (\<lambda>(key, _). snd (splitRefKey key) \<noteq> []) sp) (ls_Refs snap)
      \<or> list_ex (\<lambda>(_, sp). list_ex (\<lambda>(key, _). snd (splitRefKey key) \<noteq> []) sp) (ls_RelRefs snap))"

definition restoreRef :: "'a env \<Rightarrow> bool \<Rightarrow> livenessSnapshot \<Rightarrow> string \<Rightarrow> string \<times> time
    \<Rightarrow> 'a Engine \<times> speakers \<Rightarrow> 'a Engine \<times> speakers" where
  "restoreRef env legacy snap i pd s =
     (case (pd, s) of ((p, deadline), (e, ps)) \<Rightarrow>
        let interval = gget 0 (gget [] (ls_RefIntervals snap) i) p;
            (producer, scope) = splitRefKey p;
            (e, kept) = promise i [] producer interval e;
            deadline = (if kept = 0 \<and> interval > 0 then 0 else deadline)
        in (e, gput p \<lparr>lr_deadline = floorDeadline deadline kept (env_now env), lr_interval = kept,
                       lr_legacy = (legacy \<and> scope = [])\<rparr> ps))"

definition restoreEntity :: "'a env \<Rightarrow> bool \<Rightarrow> livenessSnapshot \<Rightarrow> string \<times> (string, time) gomap
    \<Rightarrow> 'a Engine \<Rightarrow> 'a Engine" where
  "restoreEntity env legacy snap idp e =
     (case idp of (i, producers) \<Rightarrow>
        case fold (restoreRef env legacy snap i) producers (e, []) of
          (e, ps) \<Rightarrow> e\<lparr>e_refs := gput i ps (e_refs e)\<rparr>)"

definition restoreRelation :: "'a env \<Rightarrow> bool \<Rightarrow> livenessSnapshot \<Rightarrow> string \<times> (string, time) gomap
    \<Rightarrow> 'a Engine \<Rightarrow> 'a Engine" where
  "restoreRelation env legacy snap idp e =
     (case idp of (i, producers) \<Rightarrow>
        let ps = foldl (\<lambda>ps (p, deadline).
                   let interval = gget 0 (gget [] (ls_RelRefIntervals snap) i) p
                   in gput p \<lparr>lr_deadline = floorDeadline deadline interval (env_now env),
                             lr_interval = interval, lr_legacy = (legacy \<and> snd (splitRefKey p) = [])\<rparr> ps)
                 [] producers
        in e\<lparr>e_relRefs := gput i ps (e_relRefs e)\<rparr>)"

definition restoreDeadline :: "'a env \<Rightarrow> livenessSnapshot \<Rightarrow> string \<times> time \<Rightarrow> 'a Engine \<Rightarrow> 'a Engine" where
  "restoreDeadline env snap idd e =
     (case idd of (i, deadline) \<Rightarrow>
        if ghas (e_relRefs e) i then e
        else let interval = gget 0 (ls_RelIntervals snap) i
             in e\<lparr>e_relRefs := gput i [([], \<lparr>lr_deadline = floorDeadline deadline interval (env_now env),
                    lr_interval = interval, lr_legacy = False\<rparr>)] (e_relRefs e)\<rparr>)"

definition RestoreLiveness :: "'a env \<Rightarrow> livenessSnapshot \<Rightarrow> 'a Engine \<Rightarrow> 'a Engine" where
  "RestoreLiveness env snap e =
     (let legacy = (\<not> ls_SpeakerKeys snap \<and> \<not> carriesAnyCompositeKey snap);
          e = fold (restoreEntity env legacy snap) (ls_Refs snap) e;
          e = fold (restoreRelation env legacy snap) (ls_RelRefs snap) e
      in fold (restoreDeadline env snap) (ls_RelDeadlines snap) e)"

end
