(* ===== verification/Store_Keys.thy ===== *)
theory Store_Keys
  imports Model_Event
begin

text \<open>
  \<open>internal/store/store.go\<close>: the keys of the log in the key-value store.  A key is a byte string
  and the store iterates in bytewise order; the lemmas show that this order is the order of the
  sequence numbers and of the event times, that an iterator over a prefix meets exactly the keys
  with that prefix, and that every key determines the sequence of its event.
\<close>

section \<open>Definitions\<close>

definition primaryPrefix :: string where "primaryPrefix = ''evt/''"
definition entityPrefix :: string where "entityPrefix = ''ent/''"
definition typePrefix :: string where "typePrefix = ''typ/''"
definition timePrefix :: string where "timePrefix = ''tim/''"
definition metaSeqKey :: string where "metaSeqKey = ''meta/seq''"
definition metaPruneHorizonKey :: string where "metaPruneHorizonKey = ''meta/prune_horizon''"
definition metaFormatKey :: string where "metaFormatKey = ''meta/format_version''"
definition snapshotKey :: string where "snapshotKey = ''meta/snapshot''"

lemmas prefix_defs = primaryPrefix_def entityPrefix_def typePrefix_def timePrefix_def
lemmas meta_defs = metaSeqKey_def metaPruneHorizonKey_def metaFormatKey_def snapshotKey_def

definition primaryKey :: "64 word \<Rightarrow> string" where
  "primaryKey seq = primaryPrefix @ encodeU64 seq"

definition entityKey :: "string \<Rightarrow> 64 word \<Rightarrow> string" where
  "entityKey i seq = entityPrefix @ i @ [CHR 0x2F] @ encodeU64 seq"

text \<open>\<open>byte(ct)\<close> keeps the low eight bits of the change type.\<close>

definition ct_byte :: "ChangeType \<Rightarrow> char" where
  "ct_byte ct = char_of (nat (ct_num ct mod 256))"

definition typeKey :: "ChangeType \<Rightarrow> 64 word \<Rightarrow> string" where
  "typeKey ct seq = typePrefix @ [ct_byte ct] @ encodeU64 seq"

definition timeKeyBound :: "int \<Rightarrow> string" where
  "timeKeyBound eventNano = timePrefix @ encodeU64 (of_int eventNano)"

definition timeKey :: "int \<Rightarrow> 64 word \<Rightarrow> string" where
  "timeKey eventNano seq = timePrefix @ encodeU64 (of_int eventNano) @ encodeU64 seq"

definition seqFromKeySuffix :: "string \<Rightarrow> 64 word" where
  "seqFromKeySuffix key = (if length key < 8 then 0 else decodeU64 (drop (length key - 8) key))"

definition prefixUpperBound :: "string \<Rightarrow> string option" where
  "prefixUpperBound p =
     (case dropWhile (\<lambda>c. c = CHR 0xFF) (rev p) of
        [] \<Rightarrow> None
      | c # cs \<Rightarrow> Some (rev cs @ [char_of (of_char c + 1 :: nat)]))"

text \<open>
  The class of an event in one byte: the low seven bits of the change type, and the high bit for
  a structural relation.
\<close>

definition classTag :: "Event \<Rightarrow> ChangeType \<Rightarrow> char" where
  "classTag ev ct =
     (let b = nat (ct_num ct mod 128)
      in char_of (case ev_Relation ev of
           Some re \<Rightarrow> if rel_Structural (re_Relation re) then b + 128 else b
         | None \<Rightarrow> b))"

section \<open>Big-endian words\<close>

lemma be_nat_Cons: "be_nat (c # s) = of_char c * 256 ^ length s + be_nat s"
proof -
  have "foldl (\<lambda>n b. 256 * n + of_char b) m s = m * 256 ^ length s + foldl (\<lambda>n b. 256 * n + of_char b) 0 s" for m :: nat
  proof (induction s arbitrary: m)
    case (Cons a s)
    show ?case using Cons [of "256 * m + of_char a"] Cons [of "of_char a"] by (simp add: algebra_simps)
  qed simp
  from this [of "of_char c"] show ?thesis by (simp add: be_nat_def)
qed

lemma be_nat_Nil [simp]: "be_nat [] = 0"
  by (simp add: be_nat_def)

lemma be_nat_less: "be_nat s < 256 ^ length s"
proof (induction s)
  case (Cons c s)
  have "of_char c < (256 :: nat)" by (rule nat_of_char_less_256)
  then have "of_char c \<le> (255 :: nat)" by linarith
  then have "of_char c * 256 ^ length s \<le> 255 * (256 ^ length s :: nat)" by (rule mult_le_mono1)
  with Cons have "of_char c * 256 ^ length s + be_nat s < 256 * (256 ^ length s :: nat)" by linarith
  then show ?case by (simp add: be_nat_Cons)
qed simp

lemma less_char_nat: "(c :: char) < d \<longleftrightarrow> (of_char c :: nat) < of_char d"
  by (simp add: less_char_def)

lemma be_nat_order: "length s = length t \<Longrightarrow> be_nat s < be_nat t \<longleftrightarrow> s < t"
proof (induction s t rule: list_induct2)
  case (Cons c s d t)
  have bs: "be_nat s < 256 ^ length t" "be_nat t < 256 ^ length t" using be_nat_less [of s] be_nat_less [of t] Cons.hyps by simp_all
  consider "(of_char c :: nat) < of_char d" | "c = d" | "(of_char d :: nat) < of_char c"
    by (metis linorder_less_linear of_char_eq_iff)
  then show ?case
  proof cases
    case 1
    then have "(of_char c + 1) * 256 ^ length t \<le> of_char d * (256 ^ length t :: nat)" by (intro mult_le_mono1) simp
    with bs 1 show ?thesis by (simp add: be_nat_Cons less_char_nat Cons.hyps)
  next
    case 2
    with Cons show ?thesis by (simp add: be_nat_Cons)
  next
    case 3
    then have "(of_char d + 1) * 256 ^ length t \<le> of_char c * (256 ^ length t :: nat)" by (intro mult_le_mono1) simp
    with bs 3 show ?thesis by (auto simp: be_nat_Cons less_char_nat Cons.hyps)
  qed
qed simp

lemma length_encodeU64 [simp]: "length (encodeU64 w) = 8"
  by (simp add: encodeU64_def)

lemma be_nat_encodeU64: "be_nat (encodeU64 w) = unat w"
proof -
  have byte: "unat (drop_bit k w AND 255) = unat w div 2 ^ k mod 256" for k
  proof -
    have "drop_bit k w AND 255 = take_bit 8 (drop_bit k w)"
      unfolding take_bit_eq_mask by (simp add: mask_eq_exp_minus_1)
    then show ?thesis
      by (simp only: unsigned_take_bit_eq unat_drop_bit_eq) (simp only: take_bit_eq_mod drop_bit_eq_div, simp)
  qed
  have byte0: "unat (w AND 255) = unat w mod 256" using byte [of 0] by simp
  define n where "n = unat w"
  have n: "n < 2 ^ 64" using unsigned_less [of w] by (simp add: n_def)
  have H: "256 * (n div (x * 256)) + n div x mod 256 = n div x" for x :: nat by (simp add: div_mult2_eq)
  have top: "n div 72057594037927936 mod 256 = n div 72057594037927936" using n by simp
  have horner: "72057594037927936 * q7 + 281474976710656 * r6 + 1099511627776 * r5 + 4294967296 * r4 + 16777216 * r3 + 65536 * r2
      + 256 * r1 + r0 = m"
    if "256 * q1 + r0 = m" "256 * q2 + r1 = q1" "256 * q3 + r2 = q2" "256 * q4 + r3 = q3" "256 * q5 + r4 = q4" "256 * q6 + r5 = q5"
      "256 * q7 + r6 = q6" for q1 q2 q3 q4 q5 q6 q7 r0 r1 r2 r3 r4 r5 r6 m :: nat
    using that by linarith
  show ?thesis
    by (simp add: encodeU64_def be_nat_def upt_conv_Cons byte byte0 n_def [symmetric] top del: upt_Suc)
      (rule horner [OF mult_div_mod_eq [of 256 n] H [of 256, simplified] H [of 65536, simplified] H [of 16777216, simplified]
        H [of 4294967296, simplified] H [of 1099511627776, simplified] H [of 281474976710656, simplified]])
qed

lemma decodeU64_encodeU64 [simp]: "decodeU64 (encodeU64 w) = w"
  by (simp add: decodeU64_def be_nat_encodeU64)

lemma encodeU64_inject [simp]: "encodeU64 v = encodeU64 w \<longleftrightarrow> v = w"
  by (metis decodeU64_encodeU64)

lemma encodeU64_less [simp]: "encodeU64 v < encodeU64 w \<longleftrightarrow> v < w"
  using be_nat_order [of "encodeU64 v" "encodeU64 w"] by (simp add: be_nat_encodeU64 word_less_nat_alt)

lemma encodeU64_le [simp]: "encodeU64 v \<le> encodeU64 w \<longleftrightarrow> v \<le> w"
  by (metis encodeU64_less linorder_not_less)

section \<open>Order of keys\<close>

lemma append_less_append [simp]: "(p :: string) @ s < p @ t \<longleftrightarrow> s < t"
  by (induction p) auto

lemma append_le_append [simp]: "(p :: string) @ s \<le> p @ t \<longleftrightarrow> s \<le> t"
  by (induction p) auto

lemma le_append_same: "length s = length t \<Longrightarrow> (s :: string) \<le> t @ r \<longleftrightarrow> s \<le> t"
  by (induction s t rule: list_induct2) auto

lemma append_less_same: "length s = length t \<Longrightarrow> (t :: string) @ r < s \<longleftrightarrow> t < s"
  by (induction s t rule: list_induct2) auto

lemma append_less_both: "length s = length t \<Longrightarrow> (s :: string) @ x < t @ y \<longleftrightarrow> s < t \<or> s = t \<and> x < y"
  by (induction s t rule: list_induct2) auto

lemma of_char_FF: "(of_char c :: nat) = 255 \<longleftrightarrow> c = CHR 0xFF"
proof -
  have "(of_char (CHR 0xFF) :: nat) = 255" by simp
  then show ?thesis by (metis of_char_eq_iff)
qed

lemma char_le_FF: "(c :: char) \<le> CHR 0xFF"
proof -
  have "(of_char c :: nat) < 256" by (rule nat_of_char_less_256)
  moreover have "(of_char (CHR 0xFF) :: nat) = 255" by simp
  ultimately show ?thesis unfolding less_eq_char_def by linarith
qed

lemma replicate_FF_le: "replicate n (CHR 0xFF) \<le> k \<longleftrightarrow> has_prefix k (replicate n (CHR 0xFF))"
proof (induction n arbitrary: k)
  case 0
  then show ?case by (simp add: has_prefix_def)
next
  case (Suc n)
  show ?case
  proof (cases k)
    case Nil
    then show ?thesis by (simp add: has_prefix_def)
  next
    case (Cons c k')
    with Suc.IH [of k'] char_le_FF [of c] show ?thesis by (auto simp: has_prefix_def)
  qed
qed

lemma less_successor:
  assumes "c \<noteq> CHR 0xFF"
  shows "d < char_of (of_char c + 1 :: nat) \<longleftrightarrow> d \<le> c"
proof -
  have "(of_char c :: nat) < 256" by (rule nat_of_char_less_256)
  moreover have "(of_char c :: nat) \<noteq> 255" using assms by (simp add: of_char_FF)
  ultimately have "(of_char c :: nat) + 1 < 256" by linarith
  then have "of_char (char_of (of_char c + 1 :: nat) :: char) = (of_char c + 1 :: nat)" by simp
  then show ?thesis by (simp only: less_char_def less_eq_char_def) auto
qed

lemma append_successor_range:
  assumes c: "c \<noteq> CHR 0xFF"
  shows "q @ c # replicate n (CHR 0xFF) \<le> k \<and> k < q @ [char_of (of_char c + 1 :: nat)]
    \<longleftrightarrow> has_prefix k (q @ c # replicate n (CHR 0xFF))"
proof (induction q arbitrary: k)
  case Nil
  show ?case
  proof (cases k)
    case (Cons d k')
    with replicate_FF_le [of n k'] less_successor [OF c, of d] show ?thesis by (auto simp: has_prefix_def)
  qed (simp add: has_prefix_def)
next
  case (Cons a q)
  show ?case
  proof (cases k)
    case k: (Cons d k')
    with Cons.IH [of k'] show ?thesis by (auto simp: has_prefix_def)
  qed (simp add: has_prefix_def)
qed

text \<open>The keys below an optional upper bound.\<close>

definition below :: "string option \<Rightarrow> string \<Rightarrow> bool" where
  "below hi k = (case hi of None \<Rightarrow> True | Some h \<Rightarrow> k < h)"

lemma prefix_range: "p \<le> k \<and> below (prefixUpperBound p) k \<longleftrightarrow> has_prefix k p"
proof (cases "dropWhile (\<lambda>c. c = CHR 0xFF) (rev p)")
  case Nil
  then have "\<forall>c \<in> set p. c = CHR 0xFF" by (simp add: dropWhile_eq_Nil_conv)
  then have p: "replicate (length p) (CHR 0xFF) = p" by (metis replicate_length_same)
  have "prefixUpperBound p = None" using Nil unfolding prefixUpperBound_def by (simp only: list.case)
  then show ?thesis using replicate_FF_le [of "length p" k] unfolding p by (simp add: below_def)
next
  case (Cons c cs)
  obtain w where w: "rev p = w @ c # cs" "\<forall>d \<in> set w. d = CHR 0xFF"
    using takeWhile_dropWhile_id [of "\<lambda>c. c = CHR 0xFF" "rev p"] set_takeWhileD [of _ "\<lambda>c. c = CHR 0xFF" "rev p"] unfolding Cons
    by metis
  have c: "c \<noteq> CHR 0xFF" using Cons by (metis (full_types) hd_dropWhile list.discI list.sel(1))
  from w(1) have "p = rev cs @ c # rev w" by (simp add: rev_eq_append_conv)
  moreover have "w = replicate (length w) (CHR 0xFF)" using w(2) by (metis replicate_length_same)
  ultimately have p: "p = rev cs @ c # replicate (length w) (CHR 0xFF)" by (metis rev_replicate)
  have "prefixUpperBound p = Some (rev cs @ [char_of (of_char c + 1 :: nat)])" using Cons by (simp add: prefixUpperBound_def)
  with append_successor_range [OF c, of "rev cs" "length w" k] p show ?thesis by (simp add: below_def)
qed

section \<open>Sequences of keys\<close>

lemma seqFromKeySuffix_append [simp]: "seqFromKeySuffix (p @ encodeU64 n) = n"
  by (simp add: seqFromKeySuffix_def)

lemma seqFromKeySuffix_keys [simp]:
  "seqFromKeySuffix (primaryKey n) = n" "seqFromKeySuffix (entityKey i n) = n"
  "seqFromKeySuffix (typeKey ct n) = n" "seqFromKeySuffix (timeKey t n) = n"
  using seqFromKeySuffix_append [of "entityPrefix @ i @ [CHR 0x2F]" n] seqFromKeySuffix_append [of "typePrefix @ [ct_byte ct]" n]
    seqFromKeySuffix_append [of "timePrefix @ encodeU64 (of_int t)" n]
  by (simp_all add: primaryKey_def entityKey_def typeKey_def timeKey_def)

lemma primaryKey_less [simp]: "primaryKey m < primaryKey n \<longleftrightarrow> m < n"
  by (simp add: primaryKey_def)

lemma primaryKey_le [simp]: "primaryKey m \<le> primaryKey n \<longleftrightarrow> m \<le> n"
  by (simp add: primaryKey_def)

lemma primaryKey_inject [simp]: "primaryKey m = primaryKey n \<longleftrightarrow> m = n"
  by (simp add: primaryKey_def)

lemma entityKey_inject [simp]: "entityKey i m = entityKey j n \<longleftrightarrow> i = j \<and> m = n"
  by (auto simp: entityKey_def)

lemma typeKey_inject [simp]: "typeKey c m = typeKey d n \<longleftrightarrow> ct_byte c = ct_byte d \<and> m = n"
  by (auto simp: typeKey_def)

lemma timeKey_inject [simp]: "timeKey s m = timeKey t n \<longleftrightarrow> (of_int s :: 64 word) = of_int t \<and> m = n"
  by (auto simp: timeKey_def)

lemma timeKey_less:
  "timeKey s m < timeKey t n \<longleftrightarrow> (of_int s :: 64 word) < of_int t \<or> (of_int s :: 64 word) = of_int t \<and> m < n"
  by (simp add: timeKey_def append_less_both)

lemma timeKeyBound_le: "timeKeyBound a \<le> timeKey t n \<longleftrightarrow> (of_int a :: 64 word) \<le> of_int t"
  by (simp add: timeKey_def timeKeyBound_def le_append_same)

lemma timeKey_below: "timeKey t n < timeKeyBound b \<longleftrightarrow> (of_int t :: 64 word) < of_int b"
  by (simp add: timeKey_def timeKeyBound_def append_less_same)

lemma keys_disjoint [simp]:
  "primaryKey n \<noteq> entityKey i m" "primaryKey n \<noteq> typeKey c m" "primaryKey n \<noteq> timeKey t m"
  "entityKey i m \<noteq> primaryKey n" "typeKey c m \<noteq> primaryKey n" "timeKey t m \<noteq> primaryKey n"
  "entityKey i n \<noteq> typeKey c m" "entityKey i n \<noteq> timeKey t m" "typeKey c n \<noteq> timeKey t m"
  "typeKey c m \<noteq> entityKey i n" "timeKey t m \<noteq> entityKey i n" "timeKey t m \<noteq> typeKey c n"
  by (simp_all add: primaryKey_def entityKey_def typeKey_def timeKey_def prefix_defs)

end
