(* ===== verification/Store_Log.thy ===== *)
theory Store_Log
  imports Store_Keys
begin

text \<open>
  \<open>internal/store\<close>: the append-only event log (\<open>store.go\<close>), its reads (\<open>read.go\<close>), retention
  (\<open>retention.go\<close>) and the projection snapshot (\<open>snapshot_store.go\<close>).

  The database is the pebble package, a parameter of every definition: a point read, a bounded
  ordered iteration with the error the iterator ends with, and an atomic commit of a batch that
  yields the next database or an error (staging into an open batch is taken to succeed, so its
  errors are the commit's).  A pebble snapshot is the database value at the time it is taken.
  The protobuf encoding of the event message is a parameter as well.  A callback is a function on
  an accumulator that may return an error; a context is the error it reports at the n-th check.
  The locks and logging are left out: an operation is one step, except that retention reads its
  snapshot before it appends and commits, which are separate definitions.
\<close>

section \<open>The database and the message encoding\<close>

datatype kvop = KvSet string string | KvDelete string

record 'd pebble =
  pb_get :: "'d \<Rightarrow> string \<Rightarrow> string + string option"
  pb_iter :: "'d \<Rightarrow> string \<Rightarrow> string option \<Rightarrow> string + ((string \<times> string) list \<times> string option)"
  pb_commit :: "'d \<Rightarrow> kvop list \<Rightarrow> string + 'd"

record proto =
  pm_marshal :: "PbEvent \<Rightarrow> string + string"
  pm_unmarshal :: "string \<Rightarrow> string + PbEvent"

datatype StoreErr =
    InvalidEvent nat ModelErr
  | MarshalErr nat string
  | EmptyEnvelope
  | CommitErr string
  | DecodeErr "64 word" string
  | NotFound "64 word"
  | GetErr string
  | IterOpenErr string
  | IterErr string
  | ContextErr string
  | CorruptMarker string nat
  | NewerFormat "64 word"
  | SnapshotShort nat
  | SnapshotTruncated
  | SnapshotDecode string
  | CallbackErr string

section \<open>The store\<close>

record StoreConfig =
  cf_RetentionMaxAge :: duration
  cf_CompactionInterval :: duration
  cf_AcceptUnknownTypes :: bool

definition DefaultConfig :: StoreConfig where
  "DefaultConfig = \<lparr>cf_RetentionMaxAge = 0, cf_CompactionInterval = 3600 * 1000000000, cf_AcceptUnknownTypes = False\<rparr>"

record 'd Store =
  s_db :: 'd
  s_cfg :: StoreConfig
  s_readOnly :: bool
  s_seq :: "64 word"
  s_pruneHorizon :: int
  s_prunedEvents :: "64 word"
  s_prunedBytes :: "64 word"
  s_snapshotSeq :: "64 word"
  s_snapshotsWritten :: "64 word"

definition formatVersion :: "64 word" where "formatVersion = 1"

definition checkFormat :: "'d pebble \<Rightarrow> 'd Store \<Rightarrow> StoreErr + 'd Store" where
  "checkFormat pb s =
     (case pb_get pb (s_db s) metaFormatKey of
        Inl err \<Rightarrow> Inl (GetErr err)
      | Inr None \<Rightarrow>
          if s_readOnly s then Inr s
          else (case pb_commit pb (s_db s) [KvSet metaFormatKey (encodeU64 formatVersion)] of
                  Inl err \<Rightarrow> Inl (CommitErr err)
                | Inr d \<Rightarrow> Inr (s\<lparr>s_db := d\<rparr>))
      | Inr (Some v) \<Rightarrow>
          if length v \<noteq> 8 then Inl (CorruptMarker metaFormatKey (length v))
          else if decodeU64 v > formatVersion then Inl (NewerFormat (decodeU64 v))
          else Inr s)"

definition recoverHorizon :: "'d pebble \<Rightarrow> 'd Store \<Rightarrow> StoreErr + 'd Store" where
  "recoverHorizon pb s =
     (case pb_get pb (s_db s) metaPruneHorizonKey of
        Inl err \<Rightarrow> Inl (GetErr err)
      | Inr None \<Rightarrow> Inr s
      | Inr (Some hv) \<Rightarrow>
          if length hv \<noteq> 8 then Inl (CorruptMarker metaPruneHorizonKey (length hv))
          else Inr (s\<lparr>s_pruneHorizon := sint (decodeU64 hv)\<rparr>))"

definition recoverSnapshotSeq :: "'d pebble \<Rightarrow> 'd Store \<Rightarrow> StoreErr + 'd Store" where
  "recoverSnapshotSeq pb s =
     (case pb_get pb (s_db s) snapshotKey of
        Inl err \<Rightarrow> Inl (GetErr err)
      | Inr None \<Rightarrow> Inr s
      | Inr (Some sv) \<Rightarrow> Inr (if length sv \<ge> 8 then s\<lparr>s_snapshotSeq := decodeU64 sv\<rparr> else s))"

definition recoverSeq :: "'d pebble \<Rightarrow> 'd Store \<Rightarrow> StoreErr + 'd Store" where
  "recoverSeq pb s =
     (case pb_get pb (s_db s) metaSeqKey of
        Inl err \<Rightarrow> Inl (GetErr err)
      | Inr None \<Rightarrow> Inr (s\<lparr>s_seq := 0\<rparr>)
      | Inr (Some v) \<Rightarrow>
          if length v \<noteq> 8 then Inl (CorruptMarker metaSeqKey (length v))
          else (case recoverHorizon pb (s\<lparr>s_seq := decodeU64 v\<rparr>) of
                  Inl err \<Rightarrow> Inl err
                | Inr s \<Rightarrow> recoverSnapshotSeq pb s))"

text \<open>\<open>open\<close>, once pebble has opened the directory as \<open>d\<close>.\<close>

definition openStore :: "'d pebble \<Rightarrow> 'd \<Rightarrow> StoreConfig \<Rightarrow> bool \<Rightarrow> StoreErr + 'd Store" where
  "openStore pb d cfg readOnly =
     (case checkFormat pb \<lparr>s_db = d, s_cfg = cfg, s_readOnly = readOnly, s_seq = 0, s_pruneHorizon = 0,
             s_prunedEvents = 0, s_prunedBytes = 0, s_snapshotSeq = 0, s_snapshotsWritten = 0\<rparr> of
        Inl err \<Rightarrow> Inl err
      | Inr s \<Rightarrow> recoverSeq pb s)"

definition Healthy :: "'d pebble \<Rightarrow> 'd Store \<Rightarrow> StoreErr option" where
  "Healthy pb s = (case pb_get pb (s_db s) metaSeqKey of Inl err \<Rightarrow> Some (GetErr err) | Inr _ \<Rightarrow> None)"

definition PruneHorizon :: "'d Store \<Rightarrow> time" where
  "PruneHorizon s = (if s_pruneHorizon s = 0 then 0 else unixEpoch + s_pruneHorizon s)"

definition Sequence :: "'d Store \<Rightarrow> 64 word" where
  "Sequence s = s_seq s"

section \<open>Append\<close>

definition validateFor :: "StoreConfig \<Rightarrow> Event \<Rightarrow> ModelErr option" where
  "validateFor cfg ev = (if cf_AcceptUnknownTypes cfg then ValidateShape ev else validateEnvelope True ev)"

definition indexEvent :: "Event \<Rightarrow> 64 word \<Rightarrow> StoreErr + kvop list" where
  "indexEvent ev seq =
     (let rows = (\<lambda>ct eventNs entities.
            map (\<lambda>i. KvSet (entityKey i seq) []) (filter (\<lambda>i. i \<noteq> []) entities)
            @ [KvSet (typeKey ct seq) [], KvSet (timeKey eventNs seq) [classTag ev ct]])
      in case ev_Entity ev of
           Some ee \<Rightarrow> Inr (rows (ee_ChangeType ee) (unixNano (ee_EventTime ee)) [ent_ID (ee_Entity ee)])
         | None \<Rightarrow>
             (case ev_Relation ev of
                Some re \<Rightarrow> Inr (rows (re_ChangeType re) (unixNano (re_EventTime re))
                             [rel_From (re_Relation re), rel_To (re_Relation re)])
              | None \<Rightarrow> Inl EmptyEnvelope))"

fun stageEvents :: "proto \<Rightarrow> StoreConfig \<Rightarrow> 64 word \<Rightarrow> nat \<Rightarrow> Event list \<Rightarrow> 64 word \<times> kvop list
    \<Rightarrow> StoreErr + (64 word \<times> kvop list)" where
  "stageEvents pm cfg commitSeq i [] s = Inr s"
| "stageEvents pm cfg commitSeq i (ev # evs) (localSeq, batch) =
     (case validateFor cfg ev of
        Some err \<Rightarrow> Inl (InvalidEvent i err)
      | None \<Rightarrow>
          let ev = stampCommit commitSeq ev;
              localSeq = localSeq + 1
          in case pm_marshal pm (eventToProto ev) of
               Inl err \<Rightarrow> Inl (MarshalErr i err)
             | Inr data \<Rightarrow>
                 (case indexEvent ev localSeq of
                    Inl err \<Rightarrow> Inl err
                  | Inr ops \<Rightarrow>
                      stageEvents pm cfg commitSeq (Suc i) evs
                        (localSeq, batch @ KvSet (primaryKey localSeq) data # ops)))"

definition Append :: "'d pebble \<Rightarrow> proto \<Rightarrow> Event list \<Rightarrow> 'd Store \<Rightarrow> 'd Store \<times> StoreErr option" where
  "Append pb pm events s =
     (if events = [] then (s, None)
      else case stageEvents pm (s_cfg s) (s_seq s + 1) 0 events (s_seq s, []) of
             Inl err \<Rightarrow> (s, Some err)
           | Inr (localSeq, batch) \<Rightarrow>
               (case pb_commit pb (s_db s) (batch @ [KvSet metaSeqKey (encodeU64 localSeq)]) of
                  Inl err \<Rightarrow> (s, Some (CommitErr err))
                | Inr d \<Rightarrow> (s\<lparr>s_db := d, s_seq := localSeq\<rparr>, None)))"

section \<open>Iteration\<close>

fun forRows :: "(string \<times> string \<Rightarrow> 'a \<Rightarrow> StoreErr + 'a) \<Rightarrow> (string \<times> string) list \<Rightarrow> 'a \<Rightarrow> StoreErr + 'a" where
  "forRows f [] a = Inr a"
| "forRows f (row # rows) a = (case f row a of Inl err \<Rightarrow> Inl err | Inr a \<Rightarrow> forRows f rows a)"

definition iterate :: "'d pebble \<Rightarrow> 'd \<Rightarrow> string \<Rightarrow> string option \<Rightarrow> (string \<times> string \<Rightarrow> 'a \<Rightarrow> StoreErr + 'a)
    \<Rightarrow> 'a \<Rightarrow> StoreErr + 'a" where
  "iterate pb d lo hi f a =
     (case pb_iter pb d lo hi of
        Inl err \<Rightarrow> Inl (IterOpenErr err)
      | Inr (rows, ierr) \<Rightarrow>
          (case forRows f rows a of
             Inl err \<Rightarrow> Inl err
           | Inr a \<Rightarrow> (case ierr of Some err \<Rightarrow> Inl (IterErr err) | None \<Rightarrow> Inr a)))"

definition decodeRow :: "proto \<Rightarrow> string \<times> string \<Rightarrow> StoreErr + (64 word \<times> Event)" where
  "decodeRow pm row =
     (case pm_unmarshal pm (snd row) of
        Inl err \<Rightarrow> Inl (DecodeErr (seqFromKeySuffix (fst row)) err)
      | Inr pe \<Rightarrow> Inr (seqFromKeySuffix (fst row), EventFromProto (Some pe)))"

definition scanRow :: "proto \<Rightarrow> (64 word \<Rightarrow> Event \<Rightarrow> 'a \<Rightarrow> StoreErr + 'a) \<Rightarrow> string \<times> string \<Rightarrow> 'a \<Rightarrow> StoreErr + 'a" where
  "scanRow pm fn row a = (case decodeRow pm row of Inl err \<Rightarrow> Inl err | Inr (seq, ev) \<Rightarrow> fn seq ev a)"

definition Scan :: "'d pebble \<Rightarrow> proto \<Rightarrow> (64 word \<Rightarrow> Event \<Rightarrow> 'a \<Rightarrow> StoreErr + 'a) \<Rightarrow> 'd Store \<Rightarrow> 'a \<Rightarrow> StoreErr + 'a" where
  "Scan pb pm fn s = iterate pb (s_db s) primaryPrefix (prefixUpperBound primaryPrefix) (scanRow pm fn)"

definition ScanFrom :: "'d pebble \<Rightarrow> proto \<Rightarrow> 64 word \<Rightarrow> (64 word \<Rightarrow> Event \<Rightarrow> 'a \<Rightarrow> StoreErr + 'a) \<Rightarrow> 'd Store \<Rightarrow> 'a
    \<Rightarrow> StoreErr + 'a" where
  "ScanFrom pb pm afterSeq fn s =
     iterate pb (s_db s) (primaryKey (afterSeq + 1)) (prefixUpperBound primaryPrefix) (scanRow pm fn)"

section \<open>Reads\<close>

definition checkEvery :: "(nat \<Rightarrow> StoreErr option) \<Rightarrow> nat \<Rightarrow> StoreErr option" where
  "checkEvery ctx n = (if n mod 1024 = 0 then ctx n else None)"

definition getBySeq :: "'d pebble \<Rightarrow> proto \<Rightarrow> 'd Store \<Rightarrow> 64 word \<Rightarrow> StoreErr + Event" where
  "getBySeq pb pm s seq =
     (case pb_get pb (s_db s) (primaryKey seq) of
        Inl err \<Rightarrow> Inl (GetErr err)
      | Inr None \<Rightarrow> Inl (NotFound seq)
      | Inr (Some v) \<Rightarrow>
          (case pm_unmarshal pm v of
             Inl err \<Rightarrow> Inl (DecodeErr seq err)
           | Inr pe \<Rightarrow> Inr (EventFromProto (Some pe))))"

definition resolveSeq :: "'d pebble \<Rightarrow> proto \<Rightarrow> 'd Store \<Rightarrow> 64 word \<Rightarrow> StoreErr + Event option" where
  "resolveSeq pb pm s seq =
     (case getBySeq pb pm s seq of
        Inl (NotFound _) \<Rightarrow> Inr None
      | Inl err \<Rightarrow> Inl err
      | Inr ev \<Rightarrow> Inr (Some ev))"

definition Resolve :: "'d pebble \<Rightarrow> proto \<Rightarrow> 'd Store \<Rightarrow> 64 word \<Rightarrow> StoreErr + Event option" where
  "Resolve pb pm s seq = resolveSeq pb pm s seq"

text \<open>
  The index reads: check the context, resolve the row, hand an event that is there to the callback.
\<close>

definition resolveRow :: "'d pebble \<Rightarrow> proto \<Rightarrow> (nat \<Rightarrow> StoreErr option) \<Rightarrow> 'd Store \<Rightarrow> (Event \<Rightarrow> 'a \<Rightarrow> StoreErr + 'a)
    \<Rightarrow> string \<times> string \<Rightarrow> nat \<times> 'a \<Rightarrow> StoreErr + (nat \<times> 'a)" where
  "resolveRow pb pm ctx s fn row na =
     (case checkEvery ctx (fst na) of
        Some err \<Rightarrow> Inl err
      | None \<Rightarrow>
          (case resolveSeq pb pm s (seqFromKeySuffix (fst row)) of
             Inl err \<Rightarrow> Inl err
           | Inr None \<Rightarrow> Inr (Suc (fst na), snd na)
           | Inr (Some ev) \<Rightarrow>
               (case fn ev (snd na) of Inl err \<Rightarrow> Inl err | Inr a \<Rightarrow> Inr (Suc (fst na), a))))"

definition collect :: "Event \<Rightarrow> Event list \<Rightarrow> StoreErr + Event list" where
  "collect ev out = Inr (out @ [ev])"

definition readBySeqIndex :: "'d pebble \<Rightarrow> proto \<Rightarrow> (nat \<Rightarrow> StoreErr option) \<Rightarrow> string \<Rightarrow> 'd Store \<Rightarrow> StoreErr + Event list" where
  "readBySeqIndex pb pm ctx p s =
     map_sum (\<lambda>err. err) snd (iterate pb (s_db s) p (prefixUpperBound p) (resolveRow pb pm ctx s collect) (0, []))"

definition ReadByEntity :: "'d pebble \<Rightarrow> proto \<Rightarrow> (nat \<Rightarrow> StoreErr option) \<Rightarrow> EntityID \<Rightarrow> 'd Store \<Rightarrow> StoreErr + Event list" where
  "ReadByEntity pb pm ctx i s = readBySeqIndex pb pm ctx (entityPrefix @ i @ [CHR 0x2F]) s"

definition ReadByType :: "'d pebble \<Rightarrow> proto \<Rightarrow> (nat \<Rightarrow> StoreErr option) \<Rightarrow> ChangeType \<Rightarrow> 'd Store \<Rightarrow> StoreErr + Event list" where
  "ReadByType pb pm ctx ct s = readBySeqIndex pb pm ctx (typePrefix @ [ct_byte ct]) s"

definition ScanByTimeRange :: "'d pebble \<Rightarrow> proto \<Rightarrow> (nat \<Rightarrow> StoreErr option) \<Rightarrow> time \<Rightarrow> time
    \<Rightarrow> (Event \<Rightarrow> 'a \<Rightarrow> StoreErr + 'a) \<Rightarrow> 'd Store \<Rightarrow> 'a \<Rightarrow> StoreErr + 'a" where
  "ScanByTimeRange pb pm ctx start end fn s a =
     map_sum (\<lambda>err. err) snd
       (iterate pb (s_db s) (timeKeyBound (unixNano start)) (Some (timeKeyBound (unixNano end)))
          (resolveRow pb pm ctx s fn) (0, a))"

definition ReadByTimeRange :: "'d pebble \<Rightarrow> proto \<Rightarrow> (nat \<Rightarrow> StoreErr option) \<Rightarrow> time \<Rightarrow> time \<Rightarrow> 'd Store
    \<Rightarrow> StoreErr + Event list" where
  "ReadByTimeRange pb pm ctx start end s = ScanByTimeRange pb pm ctx start end collect s []"

record TimeIndexEntry =
  ti_Seq :: "64 word"
  ti_ChangeType :: ChangeType
  ti_Structural :: bool
  ti_Tagged :: bool

definition timeEntry :: "string \<times> string \<Rightarrow> TimeIndexEntry" where
  "timeEntry row =
     (case row of (key, v) \<Rightarrow>
        if length v = 1
        then let b = (of_char (hd v) :: nat)
             in \<lparr>ti_Seq = seqFromKeySuffix key, ti_ChangeType = changeTypeFromProto (int (b mod 128)),
                 ti_Structural = (b \<ge> 128), ti_Tagged = True\<rparr>
        else \<lparr>ti_Seq = seqFromKeySuffix key, ti_ChangeType = ChangeUnspecified, ti_Structural = False, ti_Tagged = False\<rparr>)"

definition timeRow :: "(nat \<Rightarrow> StoreErr option) \<Rightarrow> (TimeIndexEntry \<Rightarrow> 'a \<Rightarrow> StoreErr + 'a)
    \<Rightarrow> string \<times> string \<Rightarrow> nat \<times> 'a \<Rightarrow> StoreErr + (nat \<times> 'a)" where
  "timeRow ctx fn row na =
     (case checkEvery ctx (fst na) of
        Some err \<Rightarrow> Inl err
      | None \<Rightarrow> (case fn (timeEntry row) (snd na) of Inl err \<Rightarrow> Inl err | Inr a \<Rightarrow> Inr (Suc (fst na), a)))"

text \<open>An iterator that is positioned at its end and steps back visits the rows in reverse.\<close>

definition ScanTimeIndex :: "'d pebble \<Rightarrow> (nat \<Rightarrow> StoreErr option) \<Rightarrow> time \<Rightarrow> time \<Rightarrow> bool
    \<Rightarrow> (TimeIndexEntry \<Rightarrow> 'a \<Rightarrow> StoreErr + 'a) \<Rightarrow> 'd Store \<Rightarrow> 'a \<Rightarrow> StoreErr + 'a" where
  "ScanTimeIndex pb ctx start end newestFirst fn s a =
     (case pb_iter pb (s_db s) (timeKeyBound (unixNano start)) (Some (timeKeyBound (unixNano end))) of
        Inl err \<Rightarrow> Inl (IterOpenErr err)
      | Inr (rows, ierr) \<Rightarrow>
          (case forRows (timeRow ctx fn) (if newestFirst then rev rows else rows) (0, a) of
             Inl err \<Rightarrow> Inl err
           | Inr (_, a) \<Rightarrow> (case ierr of Some err \<Rightarrow> Inl (IterErr err) | None \<Rightarrow> Inr a)))"

definition NewestEventTime :: "'d pebble \<Rightarrow> 'd Store \<Rightarrow> StoreErr + time option" where
  "NewestEventTime pb s =
     (case pb_iter pb (s_db s) (timeKeyBound 0) (prefixUpperBound timePrefix) of
        Inl err \<Rightarrow> Inl (IterOpenErr err)
      | Inr (rows, ierr) \<Rightarrow>
          if rows = [] then (case ierr of Some err \<Rightarrow> Inl (IterErr err) | None \<Rightarrow> Inr None)
          else let key = fst (last rows)
               in if length key < length timePrefix + 16 then Inr None
                  else Inr (Some (unixEpoch + sint (decodeU64 (take 8 (drop (length timePrefix) key))))))"

section \<open>Retention\<close>

definition snapshotScan :: "'d pebble \<Rightarrow> proto \<Rightarrow> (64 word \<Rightarrow> string \<Rightarrow> Event \<Rightarrow> 'a \<Rightarrow> StoreErr + 'a) \<Rightarrow> 'd \<Rightarrow> 'a \<Rightarrow> StoreErr + 'a" where
  "snapshotScan pb pm fn snap =
     iterate pb snap primaryPrefix (prefixUpperBound primaryPrefix)
       (\<lambda>row. scanRow pm (\<lambda>seq ev. fn seq (snd row) ev) row)"

record coalesceRec =
  cr_seq :: "64 word"
  cr_ct :: ChangeType
  cr_nano :: int

definition noteEntity :: "64 word \<Rightarrow> string \<Rightarrow> Event \<Rightarrow> (EntityID, coalesceRec list) gomap
    \<Rightarrow> StoreErr + (EntityID, coalesceRec list) gomap" where
  "noteEntity seq raw ev perEntity =
     (case ev_Entity ev of
        None \<Rightarrow> Inr perEntity
      | Some ee \<Rightarrow>
          let i = ent_ID (ee_Entity ee)
          in Inr (gput i (gget [] perEntity i
               @ [\<lparr>cr_seq = seq, cr_ct = ee_ChangeType ee, cr_nano = unixNano (ee_EventTime ee)\<rparr>]) perEntity))"

text \<open>The records between the first and the last of each run of heartbeats.\<close>

function runMiddles :: "coalesceRec list \<Rightarrow> coalesceRec list" where
  "runMiddles [] = []"
| "runMiddles (r # rs) =
     (if cr_ct r \<noteq> EntityUnchanged then runMiddles rs
      else butlast (takeWhile (\<lambda>r. cr_ct r = EntityUnchanged) rs)
           @ runMiddles (dropWhile (\<lambda>r. cr_ct r = EntityUnchanged) rs))"
  by pat_completeness auto
termination
  by (relation "measure length") (auto simp: le_imp_less_Suc length_dropWhile_le)

definition coalesceKeys :: "EntityID \<Rightarrow> coalesceRec \<Rightarrow> string list" where
  "coalesceKeys i r =
     [primaryKey (cr_seq r), entityKey i (cr_seq r), typeKey (cr_ct r) (cr_seq r), timeKey (cr_nano r) (cr_seq r)]"

definition CoalesceHeartbeats :: "'d pebble \<Rightarrow> proto \<Rightarrow> 'd Store \<Rightarrow> 'd Store \<times> (StoreErr + nat)" where
  "CoalesceHeartbeats pb pm s =
     (case snapshotScan pb pm noteEntity (s_db s) [] of
        Inl err \<Rightarrow> (s, Inl err)
      | Inr perEntity \<Rightarrow>
          let drops = concat (map (\<lambda>(i, recs). map (\<lambda>r. (i, r)) (runMiddles recs)) perEntity)
          in if drops = [] then (s, Inr 0)
             else case pb_commit pb (s_db s) (concat (map (\<lambda>(i, r). map KvDelete (coalesceKeys i r)) drops)) of
                    Inl err \<Rightarrow> (s, Inl (CommitErr err))
                  | Inr d \<Rightarrow> (s\<lparr>s_db := d\<rparr>, Inr (length drops)))"

definition recordedAtOf :: "Event \<Rightarrow> time" where
  "recordedAtOf ev =
     (case ev_Entity ev of
        Some ee \<Rightarrow> ee_RecordedAt ee
      | None \<Rightarrow> (case ev_Relation ev of Some re \<Rightarrow> re_RecordedAt re | None \<Rightarrow> 0))"

definition eventKeys :: "Event \<Rightarrow> 64 word \<Rightarrow> string list" where
  "eventKeys ev seq =
     primaryKey seq #
       (case ev_Entity ev of
          Some ee \<Rightarrow> [entityKey (ent_ID (ee_Entity ee)) seq, typeKey (ee_ChangeType ee) seq,
                      timeKey (unixNano (ee_EventTime ee)) seq]
        | None \<Rightarrow>
            (case ev_Relation ev of
               Some re \<Rightarrow> [entityKey (rel_From (re_Relation re)) seq, entityKey (rel_To (re_Relation re)) seq,
                           typeKey (re_ChangeType re) seq, timeKey (unixNano (re_EventTime re)) seq]
             | None \<Rightarrow> []))"

definition baselineEvent :: "string \<Rightarrow> Event \<Rightarrow> time \<Rightarrow> Event" where
  "baselineEvent newID ev cutoff =
     (case ev_Entity ev of
        Some ee \<Rightarrow> entityEvent (ee\<lparr>ee_EventID := newID, ee_EventTime := cutoff, ee_RecordedAt := cutoff, ee_ChangedKeys := []\<rparr>)
      | None \<Rightarrow>
          relationEv ((case ev_Relation ev of Some re \<Rightarrow> re | None \<Rightarrow> zeroRelationEvent)
            \<lparr>re_EventID := newID, re_EventTime := cutoff, re_RecordedAt := cutoff, re_ChangedKeys := []\<rparr>))"

record lastRec =
  la_seq :: "64 word"
  la_alive :: bool
  la_ev :: Event
  la_nano :: int
  la_born :: bool

definition noteLast :: "int \<Rightarrow> 64 word \<Rightarrow> string \<Rightarrow> Event
    \<Rightarrow> (EntityID, lastRec) gomap \<times> (RelationID, lastRec) gomap
    \<Rightarrow> StoreErr + ((EntityID, lastRec) gomap \<times> (RelationID, lastRec) gomap)" where
  "noteLast cutoffNano seq raw ev lasts =
     (case lasts of (entLast, relLast) \<Rightarrow>
        case ev_Entity ev of
          Some ee \<Rightarrow>
            let i = ent_ID (ee_Entity ee);
                n = unixNano (ee_EventTime ee);
                born = (case map_of entLast i of Some l \<Rightarrow> la_born l | None \<Rightarrow> False)
            in Inr (gput i \<lparr>la_seq = seq, la_alive = (ee_ChangeType ee \<noteq> EntityDeleted), la_ev = ev, la_nano = n,
                     la_born = (born \<or> n \<le> cutoffNano)\<rparr> entLast, relLast)
        | None \<Rightarrow>
            (case ev_Relation ev of
               Some re \<Rightarrow>
                 let i = rel_ID (re_Relation re);
                     n = unixNano (re_EventTime re);
                     born = (case map_of relLast i of Some l \<Rightarrow> la_born l | None \<Rightarrow> False)
                 in Inr (entLast, gput i \<lparr>la_seq = seq, la_alive = (re_ChangeType re \<noteq> RelationRemoved), la_ev = ev, la_nano = n,
                          la_born = (born \<or> n \<le> cutoffNano)\<rparr> relLast)
             | None \<Rightarrow> Inr (entLast, relLast)))"

definition notePruned :: "time \<Rightarrow> 64 word goset \<Rightarrow> 64 word \<Rightarrow> string \<Rightarrow> Event \<Rightarrow> nat \<times> nat \<times> kvop list
    \<Rightarrow> StoreErr + (nat \<times> nat \<times> kvop list)" where
  "notePruned cutoff keep seq raw ev acc =
     (case acc of (events, bytes, batch) \<Rightarrow>
        if ghas keep seq then Inr acc
        else if \<not> recordedAtOf ev < cutoff then Inr acc
        else Inr (events + 1, bytes + length raw, batch @ map KvDelete (eventKeys ev seq)))"

definition keepSet :: "(EntityID, lastRec) gomap \<Rightarrow> (RelationID, lastRec) gomap \<Rightarrow> 64 word goset" where
  "keepSet entLast relLast =
     foldl (\<lambda>m l. if la_alive l then gadd (la_seq l) m else m) [] (map snd entLast @ map snd relLast)"

definition needsBaseline :: "int \<Rightarrow> lastRec \<Rightarrow> bool" where
  "needsBaseline cutoffNano l = (la_alive l \<and> la_born l \<and> la_nano l > cutoffNano)"

record prunePlan =
  pp_events :: nat
  pp_bytes :: nat
  pp_deletes :: "kvop list"
  pp_survivors :: "Event list"

text \<open>
  The two passes over the snapshot: what to delete, and the events that need a baseline at the
  horizon.
\<close>

definition planPrune :: "'d pebble \<Rightarrow> proto \<Rightarrow> time \<Rightarrow> 'd \<Rightarrow> StoreErr + prunePlan" where
  "planPrune pb pm cutoff snap =
     (let cutoffNano = unixNano cutoff
      in case snapshotScan pb pm (noteLast cutoffNano) snap ([], []) of
           Inl err \<Rightarrow> Inl err
         | Inr (entLast, relLast) \<Rightarrow>
             (case snapshotScan pb pm (notePruned cutoff (keepSet entLast relLast)) snap (0, 0, []) of
                Inl err \<Rightarrow> Inl err
              | Inr (events, bytes, batch) \<Rightarrow>
                  Inr \<lparr>pp_events = events, pp_bytes = bytes, pp_deletes = batch,
                       pp_survivors = map la_ev (filter (needsBaseline cutoffNano) (map snd entLast @ map snd relLast))\<rparr>))"

text \<open>Append the baselines, then commit the deletions with the new horizon.\<close>

definition applyPrune :: "'d pebble \<Rightarrow> proto \<Rightarrow> (nat \<Rightarrow> string) \<Rightarrow> time \<Rightarrow> prunePlan \<Rightarrow> 'd Store
    \<Rightarrow> 'd Store \<times> (StoreErr + nat \<times> nat)" where
  "applyPrune pb pm newID cutoff plan s =
     (if pp_events plan = 0 then (s, Inr (0, 0))
      else let baselines = map (\<lambda>(n, ev). baselineEvent (newID n) ev cutoff) (enumerate 0 (pp_survivors plan))
           in case Append pb pm baselines s of
                (s, Some err) \<Rightarrow> (s, Inl err)
              | (s, None) \<Rightarrow>
                  (case pb_commit pb (s_db s) (pp_deletes plan @ [KvSet metaPruneHorizonKey (encodeU64 (of_int (unixNano cutoff)))]) of
                     Inl err \<Rightarrow> (s, Inl (CommitErr err))
                   | Inr d \<Rightarrow>
                       (s\<lparr>s_db := d, s_prunedEvents := s_prunedEvents s + of_nat (pp_events plan),
                          s_prunedBytes := s_prunedBytes s + of_nat (pp_bytes plan),
                          s_pruneHorizon := (if unixNano cutoff > s_pruneHorizon s then unixNano cutoff else s_pruneHorizon s)\<rparr>,
                        Inr (pp_events plan, pp_bytes plan))))"

definition PruneOlderThan :: "'d pebble \<Rightarrow> proto \<Rightarrow> (nat \<Rightarrow> string) \<Rightarrow> time \<Rightarrow> 'd Store \<Rightarrow> 'd Store \<times> (StoreErr + nat \<times> nat)" where
  "PruneOlderThan pb pm newID cutoff s =
     (case planPrune pb pm cutoff (s_db s) of
        Inl err \<Rightarrow> (s, Inl err)
      | Inr plan \<Rightarrow> applyPrune pb pm newID cutoff plan s)"

section \<open>The projection snapshot\<close>

definition encodeU32 :: "32 word \<Rightarrow> string" where
  "encodeU32 w = map (\<lambda>i. char_of (unat (drop_bit (8 * (3 - i)) w AND 255))) [0..<4]"

definition decodeU32 :: "string \<Rightarrow> 32 word" where
  "decodeU32 bs = of_nat (be_nat (take 4 bs))"

definition livenessSentinel :: "32 word" where "livenessSentinel = 0xFFFFFFFF"

definition framed :: "string \<Rightarrow> string" where
  "framed b = encodeU32 (of_nat (length b)) @ b"

fun snapshotBody :: "proto \<Rightarrow> nat \<Rightarrow> Event list \<Rightarrow> StoreErr + string" where
  "snapshotBody pm i [] = Inr []"
| "snapshotBody pm i (ev # evs) =
     (case pm_marshal pm (eventToProto ev) of
        Inl err \<Rightarrow> Inl (MarshalErr i err)
      | Inr b \<Rightarrow> (case snapshotBody pm (Suc i) evs of Inl err \<Rightarrow> Inl err | Inr rest \<Rightarrow> Inr (framed b @ rest)))"

definition WriteSnapshot :: "'d pebble \<Rightarrow> proto \<Rightarrow> 64 word \<Rightarrow> Event list \<Rightarrow> string \<Rightarrow> 'd Store \<Rightarrow> 'd Store \<times> StoreErr option" where
  "WriteSnapshot pb pm seq events liveness s =
     (case snapshotBody pm 0 events of
        Inl err \<Rightarrow> (s, Some err)
      | Inr body \<Rightarrow>
          let buf = encodeU64 seq @ body
                @ (if liveness = [] then [] else encodeU32 livenessSentinel @ framed liveness)
          in case pb_commit pb (s_db s) [KvSet snapshotKey buf] of
               Inl err \<Rightarrow> (s, Some (CommitErr err))
             | Inr d \<Rightarrow> (s\<lparr>s_db := d, s_snapshotSeq := seq, s_snapshotsWritten := s_snapshotsWritten s + 1\<rparr>, None))"

definition DropSnapshot :: "'d pebble \<Rightarrow> 'd Store \<Rightarrow> 'd Store \<times> StoreErr option" where
  "DropSnapshot pb s =
     (case pb_commit pb (s_db s) [KvDelete snapshotKey] of
        Inl err \<Rightarrow> (s, Some (CommitErr err))
      | Inr d \<Rightarrow> (s\<lparr>s_db := d, s_snapshotSeq := 0\<rparr>, None))"

function parseSnapshot :: "proto \<Rightarrow> string \<Rightarrow> Event list \<times> string \<Rightarrow> StoreErr + (Event list \<times> string)" where
  "parseSnapshot pm rest (events, liveness) =
     (if rest = [] then Inr (events, liveness)
      else if length rest < 4 then Inl SnapshotTruncated
      else let n = decodeU32 rest;
               rest' = drop 4 rest
           in if n = livenessSentinel
              then if length rest' < 4 then Inr (events, rest')
                   else let ln = decodeU32 rest';
                            rest'' = drop 4 rest'
                        in if of_nat (length rest'') < ln then Inr (events, rest'')
                           else parseSnapshot pm (drop (unat ln) rest'') (events, take (unat ln) rest'')
              else if of_nat (length rest') < n then Inl SnapshotTruncated
              else case pm_unmarshal pm (take (unat n) rest') of
                     Inl err \<Rightarrow> Inl (SnapshotDecode err)
                   | Inr pe \<Rightarrow> parseSnapshot pm (drop (unat n) rest') (events @ [EventFromProto (Some pe)], liveness))"
  by pat_completeness auto
termination
  by (relation "measure (\<lambda>(pm, rest, s). length rest)") auto

definition ReadSnapshot :: "'d pebble \<Rightarrow> proto \<Rightarrow> 'd Store \<Rightarrow> StoreErr + (64 word \<times> Event list \<times> string) option" where
  "ReadSnapshot pb pm s =
     (case pb_get pb (s_db s) snapshotKey of
        Inl err \<Rightarrow> Inl (GetErr err)
      | Inr None \<Rightarrow> Inr None
      | Inr (Some data) \<Rightarrow>
          if length data < 8 then Inl (SnapshotShort (length data))
          else (case parseSnapshot pm (drop 8 data) ([], []) of
                  Inl err \<Rightarrow> Inl err
                | Inr (events, liveness) \<Rightarrow> Inr (Some (decodeU64 data, events, liveness))))"

end
