(* ===== verification/Registry.thy ===== *)
theory Registry
  imports Tenant Change_Engine Store_Log Projection_Graph
begin

text \<open>
  \<open>internal/registry\<close>: one stack (event log, projection, change engine) per tenant under a data
  directory, and the snapshot a stack is restored from (\<open>writeTenantSnapshot\<close> of the server).

  A stack's store and graph are the engine's appender and graph: the fields of \<open>Stack\<close> that
  alias them are read through the engine.  What the packages do is a parameter: opening a
  directory (created when there is none), the JSON of the liveness section, the annotation
  sidecar.  \<open>ensure\<close> holds the registry's lock at its beginning and at its end and opens the stack
  in between, so these are two steps.
\<close>

section \<open>State\<close>

record Limits =
  lm_AutoCreate :: bool
  lm_Allowlist :: "string list"
  lm_MaxTenants :: int

datatype RegErr =
    AutoCreateOff string
  | NotOnAllowlist string
  | CapReached int
  | InvalidTenant string
  | OpenErr string string
  | OpenLogErr string StoreErr
  | ReplayErr string StoreErr
  | AnnotationsErr string string
  | NoDataDir
  | LegacyLayout
  | NoTenantStores
  | WaitingForever

record 'd Stack =
  sk_Tenant :: string
  sk_Engine :: "'d Store Engine"

record 'd packages =
  pk_pebble :: "'d pebble"
  pk_proto :: proto
  pk_open :: "'d option \<Rightarrow> string + 'd"
  pk_json :: "string \<Rightarrow> livenessSnapshot option"
  pk_annotations :: "string \<Rightarrow> string option"

record 'd Registry =
  rg_storeCfg :: StoreConfig
  rg_relBuf :: duration
  rg_resGrace :: duration
  rg_promiseReporter :: bool
  rg_discardReporter :: bool
  rg_aliasConflictReporter :: bool
  rg_limits :: Limits
  rg_quarantined :: "string list"
  rg_stacks :: "(string, 'd Stack) gomap"
  rg_opening :: "string goset"

type_synonym 'd disk = "(string, 'd) gomap"

section \<open>Limits\<close>

definition allows :: "Limits \<Rightarrow> string \<Rightarrow> nat \<Rightarrow> RegErr option" where
  "allows l i n =
     (if i = Default then None
      else if \<not> lm_AutoCreate l then Some (AutoCreateOff i)
      else if lm_Allowlist l \<noteq> [] \<and> \<not> list_ex (\<lambda>a. a = i) (lm_Allowlist l) then Some (NotOnAllowlist i)
      else if lm_MaxTenants l > 0 \<and> int n \<ge> lm_MaxTenants l then Some (CapReached (lm_MaxTenants l))
      else None)"

section \<open>Stacks\<close>

text \<open>The projection of a log: the snapshot, then the records after it.\<close>

definition restoreGraph :: "'d packages \<Rightarrow> time \<Rightarrow> duration \<Rightarrow> 'd Store \<Rightarrow> StoreErr + (Graph \<times> string)" where
  "restoreGraph pk now grace st =
     (let graph = (if grace \<noteq> 0 then SetTombstoneTTL grace NewGraph else NewGraph);
          (restoredFrom, graph, liveness) =
            (case ReadSnapshot (pk_pebble pk) (pk_proto pk) st of
               Inl rerr \<Rightarrow> (0, graph, [])
             | Inr None \<Rightarrow> (0, graph, [])
             | Inr (Some (seq, snapEvents, blob)) \<Rightarrow> (seq, Replay now snapEvents graph, blob))
      in map_sum (\<lambda>err. err) (\<lambda>graph. (graph, liveness))
           (ScanFrom (pk_pebble pk) (pk_proto pk) restoredFrom (\<lambda>_ ev graph. Inr (Apply now ev graph)) st graph))"

definition openStack :: "'d packages \<Rightarrow> 'd Store env \<Rightarrow> string \<Rightarrow> 'd disk \<Rightarrow> 'd Registry \<Rightarrow> 'd disk \<times> (RegErr + 'd Stack)" where
  "openStack pk env i disk r =
     (case pk_open pk (map_of disk i) of
        Inl err \<Rightarrow> (disk, Inl (OpenErr i err))
      | Inr d \<Rightarrow>
          let disk = gput i d disk
          in case openStore (pk_pebble pk) d (rg_storeCfg r) False of
               Inl err \<Rightarrow> (disk, Inl (OpenLogErr i err))
             | Inr st \<Rightarrow>
                 let disk = gput i (s_db st) disk
                 in case restoreGraph pk (env_now env) (rg_resGrace r) st of
                      Inl err \<Rightarrow> (disk, Inl (ReplayErr i err))
                    | Inr (graph, liveness) \<Rightarrow>
                        let engine = SetIdentityAliasConflictReporter (rg_aliasConflictReporter r)
                              (SetDiscardReporter (rg_discardReporter r) (SetPromiseReporter (rg_promiseReporter r)
                                (WithRelationBuffer (rg_relBuf r) (NewEngine graph st))));
                            engine = (if liveness = [] then engine
                                      else case pk_json pk liveness of
                                             None \<Rightarrow> engine
                                           | Some snap \<Rightarrow> RestoreLiveness env snap engine)
                        in case pk_annotations pk i of
                             Some aerr \<Rightarrow> (disk, Inl (AnnotationsErr i aerr))
                           | None \<Rightarrow> (disk, Inr \<lparr>sk_Tenant = i, sk_Engine = engine\<rparr>))"

text \<open>\<open>writeTenantSnapshot\<close>: \<open>blob\<close> is the encoding of the liveness state, or the error it gave.\<close>

definition writeTenantSnapshot :: "'d packages \<Rightarrow> (nat \<Rightarrow> string) \<Rightarrow> time \<Rightarrow> string + string \<Rightarrow> 'd Stack \<Rightarrow> 'd Stack \<times> StoreErr option" where
  "writeTenantSnapshot pk newID now blob sk =
     (let e = sk_Engine sk;
          seq = Sequence (e_appender e);
          events = SnapshotEvents newID now (e_graph e);
          liveness = (case blob of Inl lerr \<Rightarrow> [] | Inr b \<Rightarrow> b)
      in case WriteSnapshot (pk_pebble pk) (pk_proto pk) seq events liveness (e_appender e) of
           (s, werr) \<Rightarrow> (sk\<lparr>sk_Engine := e\<lparr>e_appender := s\<rparr>\<rparr>, werr))"

section \<open>The registry\<close>

datatype 'd entered = Cached "'d Stack" | Waiting | Refused RegErr | Slot

definition ensureEnter :: "string \<Rightarrow> bool \<Rightarrow> 'd Registry \<Rightarrow> 'd Registry \<times> 'd entered" where
  "ensureEnter i minting r =
     (case map_of (rg_stacks r) i of
        Some s \<Rightarrow> (r, Cached s)
      | None \<Rightarrow>
          if ghas (rg_opening r) i then (r, Waiting)
          else case (if minting then allows (rg_limits r) i (length (rg_stacks r) + length (rg_opening r)) else None) of
                 Some lerr \<Rightarrow> (r, Refused lerr)
               | None \<Rightarrow> (r\<lparr>rg_opening := gadd i (rg_opening r)\<rparr>, Slot))"

definition ensureLeave :: "string \<Rightarrow> RegErr + 'd Stack \<Rightarrow> 'd Registry \<Rightarrow> 'd Registry" where
  "ensureLeave i res r =
     (let r = (case res of Inr s \<Rightarrow> r\<lparr>rg_stacks := gput i s (rg_stacks r)\<rparr> | Inl _ \<Rightarrow> r)
      in r\<lparr>rg_opening := gdel i (rg_opening r)\<rparr>)"

text \<open>
  \<open>ensure\<close> with no other caller: no slot is held by another one, and the wait for it, which would
  not end, does not occur.
\<close>

definition ensure :: "'d packages \<Rightarrow> 'd Store env \<Rightarrow> string \<Rightarrow> bool \<Rightarrow> 'd disk \<Rightarrow> 'd Registry
    \<Rightarrow> 'd disk \<times> 'd Registry \<times> (RegErr + 'd Stack)" where
  "ensure pk env i minting disk r =
     (case ensureEnter i minting r of
        (r, Cached s) \<Rightarrow> (disk, r, Inr s)
      | (r, Refused lerr) \<Rightarrow> (disk, r, Inl lerr)
      | (r, Waiting) \<Rightarrow> (disk, r, Inl WaitingForever)
      | (r, Slot) \<Rightarrow>
          (case openStack pk env i disk r of
             (disk, res) \<Rightarrow> (disk, ensureLeave i res r, res)))"

definition For :: "'d packages \<Rightarrow> 'd Store env \<Rightarrow> string \<Rightarrow> 'd disk \<Rightarrow> 'd Registry \<Rightarrow> 'd disk \<times> 'd Registry \<times> (RegErr + 'd Stack)" where
  "For pk env rawTenant disk r =
     (case Sanitize rawTenant of
        (i, False) \<Rightarrow> (disk, r, Inl (InvalidTenant rawTenant))
      | (i, True) \<Rightarrow> ensure pk env i (\<not> ghas disk i) disk r)"

definition Peek :: "string \<Rightarrow> 'd Registry \<Rightarrow> 'd Stack option" where
  "Peek rawTenant r = (case Sanitize rawTenant of (i, False) \<Rightarrow> None | (i, True) \<Rightarrow> map_of (rg_stacks r) i)"

definition TenantCount :: "'d Registry \<Rightarrow> nat" where
  "TenantCount r = length (rg_stacks r)"

definition Stacks :: "'d Registry \<Rightarrow> 'd Stack list" where
  "Stacks r = sort_key sk_Tenant (map snd (rg_stacks r))"

text \<open>The settings reach the open stacks and, through the registry, those opened later.\<close>

definition mapEngines :: "('d Store Engine \<Rightarrow> 'd Store Engine) \<Rightarrow> (string, 'd Stack) gomap \<Rightarrow> (string, 'd Stack) gomap" where
  "mapEngines f stacks = map (\<lambda>(i, s). (i, s\<lparr>sk_Engine := f (sk_Engine s)\<rparr>)) stacks"

definition rg_SetDiscardReporter :: "bool \<Rightarrow> 'd Registry \<Rightarrow> 'd Registry" where
  "rg_SetDiscardReporter fn r = r\<lparr>rg_discardReporter := fn, rg_stacks := mapEngines (SetDiscardReporter fn) (rg_stacks r)\<rparr>"

definition rg_SetIdentityAliasConflictReporter :: "bool \<Rightarrow> 'd Registry \<Rightarrow> 'd Registry" where
  "rg_SetIdentityAliasConflictReporter fn r =
     r\<lparr>rg_aliasConflictReporter := fn, rg_stacks := mapEngines (SetIdentityAliasConflictReporter fn) (rg_stacks r)\<rparr>"

definition rg_SetPromiseReporter :: "bool \<Rightarrow> 'd Registry \<Rightarrow> 'd Registry" where
  "rg_SetPromiseReporter fn r = r\<lparr>rg_promiseReporter := fn, rg_stacks := mapEngines (SetPromiseReporter fn) (rg_stacks r)\<rparr>"

definition SetResurrectionGrace :: "duration \<Rightarrow> 'd Registry \<Rightarrow> 'd Registry" where
  "SetResurrectionGrace d r =
     (if d = 0 then r
      else r\<lparr>rg_resGrace := d,
             rg_stacks := mapEngines (\<lambda>e. e\<lparr>e_graph := SetTombstoneTTL d (e_graph e)\<rparr>) (rg_stacks r)\<rparr>)"

section \<open>Boot\<close>

text \<open>The entries of the data directory: name and whether it is a directory.\<close>

definition tenantDirs :: "(string \<times> bool) list \<Rightarrow> string list \<times> string list" where
  "tenantDirs ents =
     foldl (\<lambda>(out, skipped) (name, isDir).
       if \<not> isDir \<or> has_prefix name ''.'' then (out, skipped)
       else if Sanitize name = (name, True) then (out @ [name], skipped)
       else (out, skipped @ [name])) ([], []) ents"

definition bootTenant :: "'d packages \<Rightarrow> 'd Store env \<Rightarrow> string \<Rightarrow> 'd disk \<times> 'd Registry \<Rightarrow> 'd disk \<times> 'd Registry" where
  "bootTenant pk env i s =
     (case s of (disk, r) \<Rightarrow>
        case ensure pk env i False disk r of
          (disk, r, Inl err) \<Rightarrow> (disk, r\<lparr>rg_quarantined := rg_quarantined r @ [i]\<rparr>)
        | (disk, r, Inr _) \<Rightarrow> (disk, r))"

definition openWithClock :: "'d packages \<Rightarrow> 'd Store env \<Rightarrow> StoreConfig \<Rightarrow> duration \<Rightarrow> Limits \<Rightarrow> (string \<times> bool) list \<Rightarrow> 'd disk
    \<Rightarrow> 'd disk \<times> (RegErr + 'd Registry)" where
  "openWithClock pk env storeCfg relBuf limits ents disk =
     (let r = \<lparr>rg_storeCfg = storeCfg, rg_relBuf = relBuf, rg_resGrace = 0, rg_promiseReporter = False, rg_discardReporter = False,
                rg_aliasConflictReporter = False, rg_limits = limits, rg_quarantined = [], rg_stacks = [], rg_opening = []\<rparr>;
          (disk, r) = fold (bootTenant pk env) (fst (tenantDirs ents)) (disk, r)
      in case ensure pk env Default False disk r of
           (disk, r, Inl err) \<Rightarrow> (disk, Inl err)
         | (disk, r, Inr _) \<Rightarrow> (disk, Inr r))"

definition Quarantined :: "'d Registry \<Rightarrow> string list" where
  "Quarantined r = rg_quarantined r"

text \<open>
  \<open>openExistingStores\<close>: \<open>ents\<close> is None when the data directory does not exist, and \<open>legacy\<close> whether
  it holds the marker of a single-tenant store.
\<close>

definition openExistingStores :: "'d packages \<Rightarrow> StoreConfig \<Rightarrow> (string \<times> bool) list option \<Rightarrow> bool \<Rightarrow> bool \<Rightarrow> 'd disk
    \<Rightarrow> RegErr + (string \<times> 'd Store) list" where
  "openExistingStores pk storeCfg ents legacy readOnly disk =
     (case ents of
        None \<Rightarrow> Inl NoDataDir
      | Some ents \<Rightarrow>
          if legacy then Inl LegacyLayout
          else if fst (tenantDirs ents) = [] then Inl NoTenantStores
          else foldl (\<lambda>out i.
            case out of
              Inl err \<Rightarrow> Inl err
            | Inr out \<Rightarrow>
                (case pk_open pk (map_of disk i) of
                   Inl err \<Rightarrow> Inl (OpenErr i err)
                 | Inr d \<Rightarrow>
                     (case openStore (pk_pebble pk) d storeCfg readOnly of
                        Inl err \<Rightarrow> Inl (OpenLogErr i err)
                      | Inr st \<Rightarrow> Inr (out @ [(i, st)])))) (Inr []) (fst (tenantDirs ents)))"

end
