(* ===== verification/Tenant_Router.thy ===== *)
theory Tenant_Router
  imports Auth Registry
begin

text \<open>
  \<open>cmd/toise-server/tenant_router.go\<close> and the wiring of the read surfaces in \<open>main.go\<close>: a request
  is authenticated, its tenant is resolved, and the handler of that tenant serves it.

  A handler is the tenant id of the stack it was built on; \<open>build\<close> is a parameter, None when it
  succeeds and the error otherwise.
\<close>

section \<open>The router\<close>

record tenantRouter =
  tr_build :: "string \<Rightarrow> string option"
  tr_resolve :: "Request \<Rightarrow> string \<times> bool"
  tr_handlers :: "(string, string) gomap"

definition newTenantRouter :: "(string \<Rightarrow> string option) \<Rightarrow> tenantRouter" where
  "newTenantRouter build = \<lparr>tr_build = build, tr_resolve = (\<lambda>r. FromHTTP (rq_OrgID r)), tr_handlers = []\<rparr>"

definition handlerFor :: "'d Registry \<Rightarrow> string \<Rightarrow> tenantRouter \<Rightarrow> tenantRouter \<times> (string + string option)" where
  "handlerFor reg i tr =
     (case map_of (tr_handlers tr) i of
        Some h \<Rightarrow> (tr, Inr (Some h))
      | None \<Rightarrow>
          (case Peek i reg of
             None \<Rightarrow> (tr, Inr None)
           | Some st \<Rightarrow>
               (case tr_build tr (sk_Tenant st) of
                  Some err \<Rightarrow> (tr, Inl err)
                | None \<Rightarrow> (tr\<lparr>tr_handlers := gput i (sk_Tenant st) (tr_handlers tr)\<rparr>, Inr (Some (sk_Tenant st))))))"

datatype reply = BadRequest | NotFound | InternalError | Denied outcome | Served string string Request

text \<open>The handler that serves, the tenant that the context then carries, and the request.\<close>

definition ServeHTTP :: "'d Registry \<Rightarrow> Request \<Rightarrow> tenantRouter \<Rightarrow> tenantRouter \<times> reply" where
  "ServeHTTP reg r tr =
     (case tr_resolve tr r of (i, ok) \<Rightarrow>
        if \<not> ok then (tr, BadRequest)
        else case handlerFor reg i tr of
               (tr, Inl err) \<Rightarrow> (tr, InternalError)
             | (tr, Inr None) \<Rightarrow> (tr, NotFound)
             | (tr, Inr (Some h)) \<Rightarrow> (tr, Served h i r))"

section \<open>The wiring\<close>

text \<open>
  The resolvers of the query routers (GraphQL and MCP) and of the debug router: the claims decide
  when tenancy is derived or OIDC is on, and the client otherwise.
\<close>

definition queryResolve :: "bool \<Rightarrow> Authenticator \<Rightarrow> Request \<Rightarrow> string \<times> bool" where
  "queryResolve oidcEnabled a r =
     (if au_deriveOnly a \<or> oidcEnabled then EffectiveTenantHTTP a r else FromHTTP (rq_OrgID r))"

definition debugResolve :: "bool \<Rightarrow> Authenticator \<Rightarrow> Request \<Rightarrow> string \<times> bool" where
  "debugResolve oidcEnabled a r =
     (if au_deriveOnly a \<or> oidcEnabled then EffectiveTenantHTTP a r
      else FromHTTPWithQuery (rq_TenantQuery r) (rq_OrgID r))"

text \<open>A request through the middleware and then the router.\<close>

definition serve :: "(string, bool) gomap \<Rightarrow> Authenticator \<Rightarrow> 'd Registry \<Rightarrow> Request \<Rightarrow> tenantRouter \<Rightarrow> tenantRouter \<times> reply" where
  "serve public a reg r tr =
     (case HTTPMiddleware public a r of
        (Pass r', _) \<Rightarrow> ServeHTTP reg r' tr
      | (denied, _) \<Rightarrow> (tr, Denied denied))"

section \<open>Handlers stay with their tenants\<close>

text \<open>
  Every cached handler is the one of the stack that the id names, and stacks are kept under the id
  they carry.
\<close>

definition stacks_named :: "'d Registry \<Rightarrow> bool" where
  "stacks_named reg = (\<forall>i st. map_of (rg_stacks reg) i = Some st \<longrightarrow> sk_Tenant st = i)"

definition handlers_ok :: "tenantRouter \<Rightarrow> bool" where
  "handlers_ok tr = (\<forall>i h. map_of (tr_handlers tr) i = Some h \<longrightarrow> Sanitize i = (h, True))"

lemma Peek_named: "stacks_named reg \<Longrightarrow> Peek i reg = Some st \<Longrightarrow> Sanitize i = (sk_Tenant st, True)"
  by (auto simp: Peek_def stacks_named_def split: prod.splits bool.splits)

lemma handlerFor_ok:
  assumes "handlerFor reg i tr = (tr', res)" and "handlers_ok tr" and "stacks_named reg"
  shows "handlers_ok tr' \<and> (\<forall>h. res = Inr (Some h) \<longrightarrow> Sanitize i = (h, True))"
  using assms Peek_named [OF assms(3)]
  by (auto simp: handlerFor_def handlers_ok_def split: option.splits if_splits)

lemma ServeHTTP_ok:
  assumes "ServeHTTP reg r tr = (tr', rep)" and "handlers_ok tr" and "stacks_named reg"
  shows "handlers_ok tr' \<and> (\<forall>h i r'. rep = Served h i r' \<longrightarrow> r' = r \<and> tr_resolve tr r = (i, True) \<and> Sanitize i = (h, True))"
  using assms handlerFor_ok [OF _ assms(2,3)]
  by (fastforce simp: ServeHTTP_def split: prod.splits if_splits sum.splits option.splits)

end
