(* ===== verification/Change_Overlay.thy ===== *)
theory Change_Overlay
  imports Change_Engine
begin

text \<open>
  The staging overlay of the engine refines the projection: what the engine reads while a
  batch runs (\<open>eview\<close>) is the topology the projection will hold once the staged events are
  applied.  \<open>hid\<close> names the identity hash an id was created with; \<open>ev_ok\<close> is the condition
  under which the engine emits an event, and \<open>graph_inv\<close>, \<open>staged_inv\<close> and \<open>engine_inv\<close> are
  what every operation keeps.
\<close>

section \<open>Definitions\<close>

definition overlay :: "staged \<Rightarrow> Topology \<Rightarrow> Topology" where
  "overlay st T =
     \<lparr>tp_entities = (\<lambda>i. if stDeleted st i then None
        else case map_of (st_entities st) i of Some ent \<Rightarrow> Some ent | None \<Rightarrow> tp_entities T i),
      tp_relations = (\<lambda>i. if stRelRemoved st i then None
        else case map_of (st_relations st) i of Some r \<Rightarrow> Some r | None \<Rightarrow> tp_relations T i)\<rparr>"

definition eview :: "'a Engine \<Rightarrow> Topology" where
  "eview e = (case e_staged e of None \<Rightarrow> view (e_graph e) | Some st \<Rightarrow> overlay st (view (e_graph e)))"

definition ev_ok :: "(EntityID \<Rightarrow> string) \<Rightarrow> Topology \<Rightarrow> Event \<Rightarrow> bool" where
  "ev_ok hid T ev =
     (case ev_Entity ev of
        Some ee \<Rightarrow>
          (let i = ent_ID (ee_Entity ee)
           in hid i = IdentityHash (ee_Entity ee) \<and>
              (case ee_ChangeType ee of
                 EntityCreated \<Rightarrow> (\<forall>j. tp_entities T j \<noteq> None \<longrightarrow> hid j \<noteq> hid i)
               | EntityAttributeUpdated \<Rightarrow> tp_entities T i \<noteq> None
               | EntityStateChanged \<Rightarrow> tp_entities T i \<noteq> None
               | EntityUnchanged \<Rightarrow> tp_entities T i \<noteq> None
               | EntityDeleted \<Rightarrow> tp_entities T i \<noteq> None
               | _ \<Rightarrow> False))
      | None \<Rightarrow>
          (case ev_Relation ev of
             Some re \<Rightarrow> re_ChangeType re \<in> {RelationAdded, RelationAttributeChanged, RelationRemoved}
           | None \<Rightarrow> False))"

fun ok_events :: "(EntityID \<Rightarrow> string) \<Rightarrow> Topology \<Rightarrow> Event list \<Rightarrow> bool" where
  "ok_events hid T [] = True"
| "ok_events hid T (ev # evs) = (ev_ok hid T ev \<and> ok_events hid (spec_apply ev T) evs)"

definition uniq :: "(EntityID \<Rightarrow> string) \<Rightarrow> Topology \<Rightarrow> bool" where
  "uniq hid T = (\<forall>i j. tp_entities T i \<noteq> None \<longrightarrow> tp_entities T j \<noteq> None \<longrightarrow> hid i = hid j \<longrightarrow> i = j)"

definition hid_ok :: "(EntityID \<Rightarrow> string) \<Rightarrow> Topology \<Rightarrow> bool" where
  "hid_ok hid T = (\<forall>i ent. tp_entities T i = Some ent \<longrightarrow> ent_ID ent = i \<and> hid i = IdentityHash ent)"

definition rel_keys :: "Topology \<Rightarrow> bool" where
  "rel_keys T = (\<forall>i r. tp_relations T i = Some r \<longrightarrow> rel_ID r = i)"

definition graph_inv :: "(EntityID \<Rightarrow> string) \<Rightarrow> Graph \<Rightarrow> bool" where
  "graph_inv hid g =
     (wf_tombs g \<and> wf_index g \<and> wf_maps g \<and> rel_keys (view g) \<and>
      (\<forall>i ent. map_of (g_entities g) i = Some ent \<longrightarrow> hid i = IdentityHash ent))"

definition staged_inv :: "(EntityID \<Rightarrow> string) \<Rightarrow> Graph \<Rightarrow> staged \<Rightarrow> bool" where
  "staged_inv hid g st =
     (ok_events hid (view g) (map fst (st_events st)) \<and>
      spec_replay (map fst (st_events st)) (view g) = overlay st (view g) \<and>
      (\<forall>h i. map_of (st_byHash st) h = Some i \<longrightarrow> hid i = h \<and> ghas (st_entities st) i) \<and>
      (\<forall>i. tp_entities (overlay st (view g)) i \<noteq> None \<longrightarrow>
         map_of (st_byHash st) (hid i) = Some i \<or> (map_of (st_byHash st) (hid i) = None \<and> live g i \<noteq> None)) \<and>
      gdistinct (st_relations st) \<and> (\<forall>i r. map_of (st_relations st) i = Some r \<longrightarrow> rel_ID r = i))"

text \<open>The ids an engine state mentions.\<close>

definition event_ids :: "Event \<Rightarrow> EntityID set" where
  "event_ids ev = (case ev_Entity ev of Some ee \<Rightarrow> {ent_ID (ee_Entity ee)} | None \<Rightarrow> {})"

definition graph_ids :: "Graph \<Rightarrow> EntityID set" where
  "graph_ids g = {i. ghas (g_entities g) i \<or> isDeleted g i}"

definition staged_ids :: "staged \<Rightarrow> EntityID set" where
  "staged_ids st = {i. ghas (st_entities st) i} \<union> {i. \<exists>h. map_of (st_byHash st) h = Some i}
     \<union> (\<Union>ev \<in> fst ` set (st_events st). event_ids ev)"

definition engine_ids :: "'a Engine \<Rightarrow> EntityID set" where
  "engine_ids e = graph_ids (e_graph e) \<union> (case e_staged e of Some st \<Rightarrow> staged_ids st | None \<Rightarrow> {})"

definition engine_inv :: "(nat \<Rightarrow> string) \<Rightarrow> (EntityID \<Rightarrow> string) \<Rightarrow> 'a Engine \<Rightarrow> bool" where
  "engine_inv ulid hid e =
     (graph_inv hid (e_graph e) \<and>
      (case e_staged e of Some st \<Rightarrow> staged_inv hid (e_graph e) st | None \<Rightarrow> True) \<and>
      engine_ids e \<subseteq> ulid ` {..<e_ulids e})"

text \<open>No relation touches an entity that is not live.\<close>

definition no_dangling :: "Topology \<Rightarrow> bool" where
  "no_dangling T = (\<forall>i r. tp_relations T i = Some r \<longrightarrow>
     tp_entities T (rel_From r) \<noteq> None \<and> tp_entities T (rel_To r) \<noteq> None)"

section \<open>Events and topologies\<close>

lemma stampCommit_entity [simp]:
  "stampCommit seq (entityEvent ee) = entityEvent (ee\<lparr>ee_CommitSeq := seq\<rparr>)"
  by (simp add: stampCommit_def entityEvent_def)

lemma stampCommit_relation [simp]:
  "stampCommit seq (relationEv re) = relationEv (re\<lparr>re_CommitSeq := seq\<rparr>)"
  by (simp add: stampCommit_def relationEv_def)

lemma spec_apply_stamp [simp]: "spec_apply (stampCommit seq ev) T = spec_apply ev T"
  by (simp add: spec_apply_def stampCommit_def spec_entity_def spec_relation_def Let_def split: option.splits)

lemma ev_ok_stamp [simp]: "ev_ok hid T (stampCommit seq ev) = ev_ok hid T ev"
  by (simp add: ev_ok_def stampCommit_def Let_def split: option.splits)

lemma event_ids_stamp [simp]: "event_ids (stampCommit seq ev) = event_ids ev"
  by (simp add: event_ids_def stampCommit_def split: option.splits)

lemma ok_events_stamp [simp]: "ok_events hid T (map (stampCommit seq) evs) = ok_events hid T evs"
  by (induction evs arbitrary: T) simp_all

lemma spec_replay_stamp [simp]: "spec_replay (map (stampCommit seq) evs) T = spec_replay evs T"
  by (induction evs arbitrary: T) (simp_all add: spec_replay_def)

lemma spec_replay_simps [simp]:
  "spec_replay [] T = T" "spec_replay (ev # evs) T = spec_replay evs (spec_apply ev T)"
  "spec_replay (evs @ evs') T = spec_replay evs' (spec_replay evs T)"
  by (simp_all add: spec_replay_def)

lemma ok_events_append [simp]:
  "ok_events hid T (evs @ evs') \<longleftrightarrow> ok_events hid T evs \<and> ok_events hid (spec_replay evs T) evs'"
  by (induction evs arbitrary: T) auto

lemma uniq_spec_apply: "uniq hid T \<Longrightarrow> ev_ok hid T ev \<Longrightarrow> uniq hid (spec_apply ev T)"
  by (auto simp: uniq_def ev_ok_def spec_apply_def spec_entity_def spec_relation_def Let_def
      split: option.splits ChangeType.splits if_splits)

lemma rel_keys_spec_apply: "rel_keys T \<Longrightarrow> rel_keys (spec_apply ev T)"
  by (auto simp: rel_keys_def spec_apply_def spec_entity_def spec_relation_def Let_def
      split: option.splits ChangeType.splits if_splits)

lemma hid_ok_spec_apply: "hid_ok hid T \<Longrightarrow> ev_ok hid T ev \<Longrightarrow> hid_ok hid (spec_apply ev T)"
  by (auto simp: hid_ok_def ev_ok_def spec_apply_def spec_entity_def spec_relation_def Let_def
      split: option.splits ChangeType.splits if_splits)

lemma spec_replay_invariants:
  assumes "ok_events hid T evs" and "uniq hid T" and "rel_keys T" and "hid_ok hid T"
  shows "uniq hid (spec_replay evs T) \<and> rel_keys (spec_replay evs T) \<and> hid_ok hid (spec_replay evs T)"
  using assms
  by (induction evs arbitrary: T) (auto simp: uniq_spec_apply rel_keys_spec_apply hid_ok_spec_apply)

section \<open>The projection under the engine's events\<close>

lemma view_simps [simp]:
  "tp_entities (view g) = live g" "tp_relations (view g) = map_of (g_relations g)"
  by (simp_all add: view_def)

lemma graph_inv_hid_ok: "graph_inv hid g \<Longrightarrow> hid_ok hid (view g)"
  using wf_indexD(1) [of g] by (auto simp: graph_inv_def hid_ok_def live_iff)

lemma graph_inv_uniq:
  assumes "graph_inv hid g"
  shows "uniq hid (view g)"
proof (unfold uniq_def, intro allI impI)
  fix i j
  assume "tp_entities (view g) i \<noteq> None" "tp_entities (view g) j \<noteq> None" "hid i = hid j"
  then obtain a b where ab: "live g i = Some a" "live g j = Some b" by auto
  have "hid i = IdentityHash a" "hid j = IdentityHash b"
    using assms ab by (simp_all add: graph_inv_def live_iff)
  with \<open>hid i = hid j\<close> have "IdentityHash a = IdentityHash b" by simp
  moreover have "wf_index g" using assms by (simp add: graph_inv_def)
  ultimately show "i = j" using ab by (intro live_unique [of g i a j b])
qed

lemma entities_evict:
  assumes "map_of (g_entities (evictTombstones g)) i = Some ent"
  shows "map_of (g_entities g) i = Some ent"
proof -
  have "map_of (g_entities (evictTombstones g)) i = Some ent \<longrightarrow> map_of (g_entities g) i = Some ent"
    by (rule evictTombstones_invariant
        [where P = "\<lambda>g'. map_of (g_entities g') i = Some ent \<longrightarrow> map_of (g_entities g) i = Some ent"])
      simp_all
  with assms show ?thesis by blast
qed

lemma entities_prune:
  assumes "map_of (g_entities (fst (PruneTombstones now g))) i = Some ent"
  shows "map_of (g_entities g) i = Some ent"
proof -
  have "map_of (g_entities (fst (PruneTombstones now g))) i = Some ent \<longrightarrow> map_of (g_entities g) i = Some ent"
    by (rule PruneTombstones_invariant
        [where P = "\<lambda>g'. map_of (g_entities g') i = Some ent \<longrightarrow> map_of (g_entities g) i = Some ent"])
      simp_all
  with assms show ?thesis by blast
qed

lemma entities_applyEntity:
  "map_of (g_entities (applyEntity now ee g)) i = Some ent \<Longrightarrow>
     map_of (g_entities g) i = Some ent \<or> (ent = ee_Entity ee \<and> i = ent_ID ent)"
  by (cases "ee_ChangeType ee")
    (auto simp: applyEntity_def Let_def dest!: entities_evict split: if_splits option.splits)

lemma entities_applyRelation [simp]: "g_entities (applyRelation re g) = g_entities g"
  by (cases "re_ChangeType re") (auto simp: applyRelation_def Let_def)

lemma graph_ids_Apply: "graph_ids (Apply now ev g) \<subseteq> graph_ids g \<union> event_ids ev"
proof (cases "ev_Entity ev")
  case None
  then show ?thesis
    by (auto simp: graph_ids_def Apply_def split: option.splits)
next
  case (Some ee)
  show ?thesis
  proof
    fix i assume "i \<in> graph_ids (Apply now ev g)"
    then consider ent where "map_of (g_entities (applyEntity now ee g)) i = Some ent"
      | "isDeleted (applyEntity now ee g) i"
      using Some by (auto simp: graph_ids_def Apply_def ghas_def)
    then show "i \<in> graph_ids g \<union> event_ids ev"
    proof cases
      case 1
      from entities_applyEntity [OF this] Some show ?thesis
        by (auto simp: graph_ids_def event_ids_def ghas_def)
    next
      case 2
      from isDeleted_applyEntity [OF this] Some show ?thesis
        by (auto simp: graph_ids_def event_ids_def split: if_splits)
    qed
  qed
qed

lemma graph_ids_prune: "graph_ids (fst (PruneTombstones now g)) \<subseteq> graph_ids g"
  by (auto simp: graph_ids_def ghas_def dest: entities_prune isDeleted_PruneTombstones)

lemma admits_putI:
  assumes "\<And>e0. map_of (g_entities g) (ent_ID e) = Some e0 \<Longrightarrow> IdentityHash e0 = IdentityHash e"
    and "\<And>j. map_of (g_byHash g) (IdentityHash e) = Some j \<Longrightarrow> j = ent_ID e"
  shows "admits_put g e"
  unfolding admits_put_def
  by (cases "map_of (g_entities g) (ent_ID e)"; cases "map_of (g_byHash g) (IdentityHash e)")
    (auto dest: assms)

lemma ev_ok_admissible:
  assumes inv: "graph_inv hid g" and ok: "ev_ok hid (view g) ev" and ee: "ev_Entity ev = Some ee"
  shows "admissible (entityEvent ee) g"
proof -
  let ?i = "ent_ID (ee_Entity ee)"
  from ok ee have hid: "hid ?i = IdentityHash (ee_Entity ee)" by (simp add: ev_ok_def Let_def)
  have own: "\<And>ent. map_of (g_entities g) ?i = Some ent \<Longrightarrow> IdentityHash ent = IdentityHash (ee_Entity ee)"
    using inv hid by (auto simp: graph_inv_def)
  have idx: "live g j \<noteq> None \<and> hid j = h" if "map_of (g_byHash g) h = Some j" for h j
    using that inv wf_indexD(2) [of g h j] by (auto simp: graph_inv_def live_iff)
  have byHash: "j = ?i" if "map_of (g_byHash g) (IdentityHash (ee_Entity ee)) = Some j" "live g ?i \<noteq> None" for j
    using idx [OF that(1)] that(2) graph_inv_uniq [OF inv] hid by (auto simp: uniq_def)
  have liveD: "\<not> isDeleted g ?i" if "live g ?i \<noteq> None" using that by (auto simp: live_def split: if_splits)
  have put: "admits_put g (ee_Entity ee)" if "live g ?i \<noteq> None"
    by (rule admits_putI) (use own byHash [OF _ that] in blast)+
  have create: "admits_put g (ee_Entity ee)" if "\<forall>j. live g j \<noteq> None \<longrightarrow> hid j \<noteq> hid ?i"
    by (rule admits_putI) (use own idx that hid in metis)+
  show ?thesis
    using ok ee put create liveD
    by (cases "ee_ChangeType ee") (auto simp: ev_ok_def admissible_def Let_def)
qed

lemma Apply_entityEvent: "ev_Entity ev = Some ee \<Longrightarrow> Apply now ev g = Apply now (entityEvent ee) g"
  by (simp add: Apply_def)

lemma graph_inv_Apply:
  assumes inv: "graph_inv hid g" and ok: "ev_ok hid (view g) ev"
  shows "graph_inv hid (Apply now ev g)" and "view (Apply now ev g) = spec_apply ev (view g)"
proof -
  have nd: "\<not> heartbeat_of_dead ev g"
    using ok by (auto simp: heartbeat_of_dead_def ev_ok_def Let_def live_def split: option.splits if_splits)
  show v: "view (Apply now ev g) = spec_apply ev (view g)" by (rule view_Apply [OF nd])
  have idx: "wf_index (Apply now ev g)"
  proof (cases "ev_Entity ev")
    case (Some ee)
    have "wf_index g" using inv by (simp add: graph_inv_def)
    from wf_index_Apply [OF this ev_ok_admissible [OF inv ok Some]] show ?thesis
      unfolding Apply_entityEvent [OF Some] .
  next
    case None
    have wf: "wf_index g" using inv by (simp add: graph_inv_def)
    have "wf_index (applyRelation re g)" for re
      by (cases "re_ChangeType re") (auto simp: applyRelation_def Let_def intro!: wf_index_cong [OF wf])
    with None inv show ?thesis by (simp add: Apply_def graph_inv_def split: option.splits)
  qed
  have hid: "hid i = IdentityHash ent" if "map_of (g_entities (Apply now ev g)) i = Some ent" for i ent
  proof (cases "ev_Entity ev")
    case (Some ee)
    with that have "map_of (g_entities (applyEntity now ee g)) i = Some ent" by (simp add: Apply_def)
    from entities_applyEntity [OF this] Some inv ok show ?thesis
      by (auto simp: graph_inv_def ev_ok_def Let_def)
  next
    case None
    with that inv show ?thesis by (simp add: Apply_def graph_inv_def split: option.splits)
  qed
  have "rel_keys (view (Apply now ev g))"
    unfolding v using inv by (simp add: graph_inv_def rel_keys_spec_apply)
  with idx hid inv show "graph_inv hid (Apply now ev g)"
    by (simp add: graph_inv_def wf_tombs_Apply wf_maps_Apply)
qed

lemma graph_inv_prune:
  assumes "graph_inv hid g"
  shows "graph_inv hid (fst (PruneTombstones now g))"
  using assms entities_prune [of now g]
  by (auto simp: graph_inv_def wf_tombs_Prune wf_index_Prune wf_maps_Prune view_PruneTombstones)

end
