(* ===== verification/Change_Inv.thy ===== *)
theory Change_Inv
  imports Change_Overlay
begin

text \<open>
  The reads of the engine agree with \<open>eview\<close>, and its building blocks (minting, commit,
  flush, edge removal) keep \<open>engine_inv\<close> and move \<open>eview\<close> by the meaning of the events they
  emit.
\<close>

definition ulid_ok :: "(nat \<Rightarrow> string) \<Rightarrow> bool" where
  "ulid_ok ulid = (inj ulid \<and> (\<forall>n. ulid n \<noteq> []))"

section \<open>The overlay\<close>

lemma overlay_events [simp]:
  "overlay (st\<lparr>st_events := evs\<rparr>) T = overlay st T"
  "overlay (st\<lparr>st_scope := sc\<rparr>) T = overlay st T"
  "overlay (st\<lparr>st_rollbacks := rb\<rparr>) T = overlay st T"
  by (simp_all add: overlay_def stDeleted_def stRelRemoved_def cong: if_cong)

lemma overlay_newStaged [simp]: "overlay newStaged T = T"
  by (simp add: overlay_def newStaged_def stDeleted_def stRelRemoved_def)

lemma overlay_apply:
  assumes "ev_ok hid (overlay st T) ev"
  shows "overlay (staged_apply ev st) T = spec_apply ev (overlay st T)"
proof (cases "ev_Entity ev")
  case None
  with assms show ?thesis
    by (auto simp: ev_ok_def staged_apply_def spec_apply_def spec_relation_def overlay_def stDeleted_def
        stRelRemoved_def Let_def fun_eq_iff split: option.splits)
next
  case (Some ee)
  have present: "\<not> stDeleted st i" if "tp_entities (overlay st T) i \<noteq> None" for i
    using that by (auto simp: overlay_def split: if_splits)
  show ?thesis
  proof (cases "ee_ChangeType ee")
    case EntityUnchanged
    with Some assms obtain y where "tp_entities (overlay st T) (ent_ID (ee_Entity ee)) = Some y"
      by (auto simp: ev_ok_def Let_def)
    with Some EntityUnchanged show ?thesis
      by (simp add: staged_apply_def spec_apply_def spec_entity_def Let_def)
  qed (use Some assms present [of "ent_ID (ee_Entity ee)"] in
      \<open>auto simp: ev_ok_def staged_apply_def spec_apply_def spec_entity_def overlay_def stDeleted_def
        stRelRemoved_def Let_def fun_eq_iff\<close>)
qed

lemma staged_events_apply [simp]: "st_events (staged_apply ev st) = st_events st"
  "st_scope (staged_apply ev st) = st_scope st" "st_rollbacks (staged_apply ev st) = st_rollbacks st"
  by (auto simp: staged_apply_def Let_def split: option.splits ChangeType.splits)

lemma staged_inv_overlay:
  assumes "graph_inv hid g" and "staged_inv hid g st"
  shows "uniq hid (overlay st (view g)) \<and> rel_keys (overlay st (view g)) \<and> hid_ok hid (overlay st (view g))"
proof -
  have "rel_keys (view g)" using assms(1) by (simp add: graph_inv_def)
  with spec_replay_invariants [of hid "view g" "map fst (st_events st)"] assms
    graph_inv_uniq [OF assms(1)] graph_inv_hid_ok [OF assms(1)]
  show ?thesis by (simp add: staged_inv_def)
qed

lemma eview_inv:
  assumes "engine_inv ulid hid e"
  shows "uniq hid (eview e)" and "rel_keys (eview e)" and "hid_ok hid (eview e)"
proof -
  have g: "graph_inv hid (e_graph e)" using assms by (simp add: engine_inv_def)
  have "uniq hid (eview e) \<and> rel_keys (eview e) \<and> hid_ok hid (eview e)"
  proof (cases "e_staged e")
    case None
    with g graph_inv_uniq [OF g] graph_inv_hid_ok [OF g] show ?thesis
      by (simp add: eview_def graph_inv_def)
  next
    case (Some st)
    with assms staged_inv_overlay [OF g] show ?thesis by (simp add: eview_def engine_inv_def)
  qed
  then show "uniq hid (eview e)" "rel_keys (eview e)" "hid_ok hid (eview e)" by simp_all
qed

section \<open>Classification reads\<close>

lemma graph_match:
  assumes "graph_inv hid g"
  shows "MatchIdentity g typ identity = Some i \<longleftrightarrow> live g i \<noteq> None \<and> hid i = identityHashOf typ identity"
proof -
  have wf: "wf_index g" using assms by (simp add: graph_inv_def)
  have "hid i = IdentityHash ent" if "live g i = Some ent" for ent
    using that assms by (simp add: graph_inv_def live_iff)
  then show ?thesis unfolding MatchIdentity_iff [OF wf] by auto
qed

lemma matchIdentity_iff:
  assumes "engine_inv ulid hid e"
  shows "matchIdentity e typ identity = Some i \<longleftrightarrow>
    tp_entities (eview e) i \<noteq> None \<and> hid i = identityHashOf typ identity"
proof (cases "e_staged e")
  case None
  with assms graph_match [of hid "e_graph e" "typ" identity i] show ?thesis
    by (simp add: matchIdentity_def engine_inv_def eview_def)
next
  case (Some st)
  let ?g = "e_graph e"
  let ?h = "identityHashOf typ identity"
  have g: "graph_inv hid ?g" and st: "staged_inv hid ?g st"
    using assms Some by (simp_all add: engine_inv_def)
  have ev: "eview e = overlay st (view ?g)" using Some by (simp add: eview_def)
  have own: "hid j = h" if "map_of (st_byHash st) h = Some j" for h j
    using st that by (simp add: staged_inv_def)
  have reg: "map_of (st_byHash st) (hid j) = Some j \<or> (map_of (st_byHash st) (hid j) = None \<and> live ?g j \<noteq> None)"
    if "tp_entities (eview e) j \<noteq> None" for j
    using st that by (simp add: staged_inv_def ev)
  have nd: "\<not> stDeleted st j" if "tp_entities (eview e) j \<noteq> None" for j
    using that by (auto simp: ev overlay_def split: if_splits)
  have gl: "tp_entities (eview e) j \<noteq> None" if "live ?g j \<noteq> None" "\<not> stDeleted st j" for j
    using that by (auto simp: ev overlay_def split: option.splits)
  show ?thesis
  proof (cases "map_of (st_byHash st) ?h")
    case (Some j)
    have ent: "tp_entities (eview e) j \<noteq> None" if "\<not> stDeleted st j"
    proof -
      have "ghas (st_entities st) j" using st Some by (simp add: staged_inv_def)
      with that show ?thesis by (auto simp: ev overlay_def ghas_def)
    qed
    have "matchIdentity e typ identity = (if stDeleted st j then None else Some j)"
      using Some \<open>e_staged e = Some st\<close> by (simp add: matchIdentity_def)
    moreover have "i = j" if "tp_entities (eview e) i \<noteq> None" "hid i = ?h"
      using reg [OF that(1)] that(2) Some by auto
    ultimately show ?thesis
      using ent nd [of i] own [OF Some] by (cases "stDeleted st j") auto
  next
    case None
    then have "matchIdentity e typ identity = Some i \<longleftrightarrow> MatchIdentity ?g typ identity = Some i \<and> \<not> stDeleted st i"
      using Some by (auto simp: matchIdentity_def split: option.splits)
    also have "\<dots> \<longleftrightarrow> tp_entities (eview e) i \<noteq> None \<and> hid i = ?h"
      using None reg [of i] nd [of i] gl [of i] unfolding graph_match [OF g, of "typ" identity i] by auto
    finally show ?thesis .
  qed
qed

lemma matchIdentity_None:
  assumes "engine_inv ulid hid e" and "matchIdentity e typ identity = None"
  shows "tp_entities (eview e) j \<noteq> None \<Longrightarrow> hid j \<noteq> identityHashOf typ identity"
  using matchIdentity_iff [OF assms(1), of "typ" identity j] assms(2) by auto

lemma getEntity_eview:
  assumes "tp_entities (eview e) i = Some ent"
  shows "getEntity e i = (Some ent, False)"
  using assms
  by (auto simp: getEntity_def GetEntity_def eview_def overlay_def live_iff split: option.splits if_splits)

lemma getRelation_eview: "getRelation e i = tp_relations (eview e) i"
  by (auto simp: getRelation_def GetRelation_def eview_def overlay_def split: option.splits)

lemma matchTombstone_sound:
  assumes inv: "engine_inv ulid hid e" and m: "matchTombstone env e typ identity = Some i"
  shows "hid i = identityHashOf typ identity" and "i \<in> engine_ids e"
proof -
  from m have t: "MatchTombstone (env_now env) (e_graph e) typ identity = Some i"
    by (auto simp: matchTombstone_def split: option.splits if_splits)
  have wf: "wf_index (e_graph e)" using inv by (simp add: engine_inv_def graph_inv_def)
  from MatchTombstone_sound [OF wf t] inv show "hid i = identityHashOf typ identity" "i \<in> engine_ids e"
    by (auto simp: engine_inv_def graph_inv_def engine_ids_def graph_ids_def)
qed

text \<open>Every relation incident to a node is among the edges a cascade removes.\<close>

lemma touch_fold:
  assumes "foldl (\<lambda>(out, seen) r. if ghas seen (rel_ID r) then (out, seen)
      else if rem (rel_ID r) then (out, gadd (rel_ID r) seen) else (out @ [r], gadd (rel_ID r) seen)) (out, seen) rs
      = (out', seen')"
  shows "set out \<subseteq> set out'" and "\<And>r. r \<in> set rs \<Longrightarrow> \<not> rem (rel_ID r) \<Longrightarrow>
      ghas seen (rel_ID r) \<or> (\<exists>r' \<in> set out'. rel_ID r' = rel_ID r)"
    and "set out' \<subseteq> set out \<union> set rs"
  using assms
proof (induction rs arbitrary: out seen)
  case (Cons r0 rs)
  {
    case 1
    then show ?case using Cons.IH(1) by (fastforce split: if_splits)
  next
    case (2 r)
    show ?case
    proof (cases "ghas seen (rel_ID r0)")
      case True
      with 2 Cons.IH(2) show ?thesis by auto
    next
      case False
      show ?thesis
      proof (cases "rem (rel_ID r0)")
        case True
        with 2 False Cons.IH(2) [of r out "gadd (rel_ID r0) seen"] show ?thesis by auto
      next
        case nr: False
        with 2 False have eq: "foldl (\<lambda>(out, seen) r. if ghas seen (rel_ID r) then (out, seen)
            else if rem (rel_ID r) then (out, gadd (rel_ID r) seen) else (out @ [r], gadd (rel_ID r) seen))
            (out @ [r0], gadd (rel_ID r0) seen) rs = (out', seen')" by simp
        from Cons.IH(1) [OF eq] have "r0 \<in> set out'" by auto
        moreover have "r \<in> set rs \<Longrightarrow> rel_ID r = rel_ID r0 \<or> ghas seen (rel_ID r)
            \<or> (\<exists>r' \<in> set out'. rel_ID r' = rel_ID r)"
          using Cons.IH(2) [OF _ 2(2) eq] by simp
        ultimately show ?thesis using 2(1) by (metis set_ConsD)
      qed
    qed
  next
    case 3
    then show ?case using Cons.IH(3) by (fastforce split: if_splits)
  }
qed auto

lemma touching_complete:
  assumes inv: "engine_inv ulid hid e" and i: "i \<noteq> []"
    and r: "tp_relations (eview e) j = Some r" "rel_From r = i \<or> rel_To r = i"
  shows "\<exists>r' \<in> set (listRelationsTouching e i). rel_ID r' = j"
proof -
  let ?g = "e_graph e"
  define rem where "rem = (\<lambda>k. case e_staged e of Some st \<Rightarrow> stRelRemoved st k | None \<Rightarrow> False)"
  define out where "out = (case e_staged e of Some st \<Rightarrow> touchStaged i (st_relations st) | None \<Rightarrow> [])"
  define rs where "rs = ListRelations ?g [] i [] @ ListRelations ?g [] [] i"
  obtain out' seen' where f: "foldl (\<lambda>(out, seen) r. if ghas seen (rel_ID r) then (out, seen)
      else if rem (rel_ID r) then (out, gadd (rel_ID r) seen) else (out @ [r], gadd (rel_ID r) seen))
      (out, map (\<lambda>r. (rel_ID r, ())) out) rs = (out', seen')" by fastforce
  have list: "set (listRelationsTouching e i) = set out'"
    using f unfolding listRelationsTouching_def Let_def out_def rs_def rem_def by simp
  have id: "rel_ID r = j" using eview_inv(2) [OF inv] r(1) by (simp add: rel_keys_def)
  have "\<exists>r' \<in> set out'. rel_ID r' = rel_ID r"
  proof (cases "\<exists>st. e_staged e = Some st \<and> map_of (st_relations st) j = Some r")
    case True
    then have "r \<in> set out" using r(2) by (force simp: out_def touchStaged_def dest: map_of_SomeD)
    with touch_fold(1) [OF f] show ?thesis by blast
  next
    case False
    with r(1) have g: "map_of (g_relations ?g) j = Some r" and nr: "\<not> rem j"
      by (auto simp: eview_def overlay_def rem_def split: option.splits if_splits)
    from g have "r \<in> snd ` set (g_relations ?g)" by (force dest: map_of_SomeD)
    with r(2) i have mem: "r \<in> set rs" by (auto simp: rs_def ListRelations_def)
    have "ghas (map (\<lambda>r. (rel_ID r, ())) out) k \<longleftrightarrow> k \<in> rel_ID ` set out" for k
      by (force simp: ghas_iff image_iff)
    with touch_fold(1,2) [OF f] mem nr id show ?thesis by fastforce
  qed
  with list id show ?thesis by simp
qed

section \<open>Staging an event\<close>

lemma staged_byHash_apply:
  "st_byHash (staged_apply ev st) =
     (case ev_Entity ev of
        Some ee \<Rightarrow> if ee_ChangeType ee = EntityCreated
          then gput (IdentityHash (ee_Entity ee)) (ent_ID (ee_Entity ee)) (st_byHash st) else st_byHash st
      | None \<Rightarrow> st_byHash st)"
  by (auto simp: staged_apply_def Let_def split: option.splits ChangeType.splits)

lemma staged_entities_apply:
  "ghas (st_entities (staged_apply ev st)) i \<Longrightarrow> ghas (st_entities st) i \<or> i \<in> event_ids ev"
  "ghas (st_entities st) i \<Longrightarrow> ghas (st_entities (staged_apply ev st)) i"
  by (auto simp: staged_apply_def Let_def event_ids_def split: option.splits ChangeType.splits)

lemma staged_created_entities:
  "ev_Entity ev = Some ee \<Longrightarrow> ee_ChangeType ee = EntityCreated \<Longrightarrow>
     ghas (st_entities (staged_apply ev st)) (ent_ID (ee_Entity ee))"
  by (simp add: staged_apply_def Let_def)

lemma staged_relations_apply:
  "gdistinct (st_relations st) \<Longrightarrow> gdistinct (st_relations (staged_apply ev st))"
  "(\<And>i r. map_of (st_relations st) i = Some r \<Longrightarrow> rel_ID r = i) \<Longrightarrow>
     map_of (st_relations (staged_apply ev st)) j = Some r' \<Longrightarrow> rel_ID r' = j"
  by (auto simp: staged_apply_def Let_def split: option.splits ChangeType.splits if_splits)

lemma spec_apply_entities:
  "tp_entities (spec_apply ev T) i \<noteq> None \<Longrightarrow> tp_entities T i \<noteq> None \<or> i \<in> event_ids ev"
  by (auto simp: spec_apply_def spec_entity_def spec_relation_def event_ids_def Let_def
      split: option.splits ChangeType.splits if_splits)

lemma staged_inv_apply:
  assumes inv: "staged_inv hid g st" and ok: "ev_ok hid (overlay st (view g)) ev"
  shows "staged_inv hid g (staged_apply ev (st\<lparr>st_events := st_events st @ [(ev, hp)]\<rparr>))"
proof -
  let ?st = "st\<lparr>st_events := st_events st @ [(ev, hp)]\<rparr>"
  let ?T = "overlay st (view g)"
  have ov: "overlay (staged_apply ev ?st) (view g) = spec_apply ev ?T"
    using overlay_apply [of hid ?st "view g" ev] ok by simp
  have own: "hid i = h \<and> ghas (st_entities st) i" if "map_of (st_byHash st) h = Some i" for h i
    using inv that by (simp add: staged_inv_def)
  have own': "hid i = h \<and> ghas (st_entities (staged_apply ev ?st)) i"
    if "map_of (st_byHash (staged_apply ev ?st)) h = Some i" for h i
  proof (cases "\<exists>ee. ev_Entity ev = Some ee \<and> ee_ChangeType ee = EntityCreated \<and> i = ent_ID (ee_Entity ee)
      \<and> h = IdentityHash (ee_Entity ee)")
    case True
    with ok show ?thesis by (auto simp: ev_ok_def Let_def staged_created_entities)
  next
    case False
    with that have "map_of (st_byHash st) h = Some i"
      by (auto simp: staged_byHash_apply split: option.splits if_splits)
    from own [OF this] show ?thesis by (simp add: staged_entities_apply(2))
  qed
  have reg: "map_of (st_byHash (staged_apply ev ?st)) (hid i) = Some i
      \<or> (map_of (st_byHash (staged_apply ev ?st)) (hid i) = None \<and> live g i \<noteq> None)"
    if i: "tp_entities (spec_apply ev ?T) i \<noteq> None" for i
  proof (cases "\<exists>ee. ev_Entity ev = Some ee \<and> ee_ChangeType ee = EntityCreated")
    case True
    then obtain ee where ee: "ev_Entity ev = Some ee" "ee_ChangeType ee = EntityCreated" by blast
    let ?k = "ent_ID (ee_Entity ee)"
    from ok ee have hid: "hid ?k = IdentityHash (ee_Entity ee)"
      and fresh: "\<And>j. tp_entities ?T j \<noteq> None \<Longrightarrow> hid j \<noteq> hid ?k" by (auto simp: ev_ok_def Let_def)
    show ?thesis
    proof (cases "i = ?k")
      case True
      with ee hid show ?thesis by (simp add: staged_byHash_apply)
    next
      case False
      with i ee have "tp_entities ?T i \<noteq> None"
        by (auto simp: spec_apply_def spec_entity_def Let_def split: if_splits)
      with inv fresh [OF this] ee hid show ?thesis by (simp add: staged_inv_def staged_byHash_apply)
    qed
  next
    case False
    then have same: "st_byHash (staged_apply ev ?st) = st_byHash st"
      by (auto simp: staged_byHash_apply split: option.splits)
    have "tp_entities ?T i \<noteq> None"
      using spec_apply_entities [OF i] False ok
      by (auto simp: event_ids_def ev_ok_def Let_def split: option.splits ChangeType.splits)
    with inv show ?thesis unfolding same by (simp add: staged_inv_def)
  qed
  show ?thesis
    unfolding staged_inv_def ov
  proof (intro conjI allI impI)
    show "ok_events hid (view g) (map fst (st_events (staged_apply ev ?st)))"
      and "spec_replay (map fst (st_events (staged_apply ev ?st))) (view g) = spec_apply ev ?T"
      using inv ok by (simp_all add: staged_inv_def)
    show "gdistinct (st_relations (staged_apply ev ?st))"
      using inv staged_relations_apply(1) [of ?st ev] by (simp add: staged_inv_def)
    show "rel_ID r = i" if "map_of (st_relations (staged_apply ev ?st)) i = Some r" for i r
      using inv that staged_relations_apply(2) [of ?st ev i r] by (simp add: staged_inv_def)
  qed (use own' reg in blast)+
qed

lemma staged_inv_new: "staged_inv hid g newStaged"
  unfolding staged_inv_def by (auto simp: newStaged_def overlay_def stDeleted_def stRelRemoved_def view_def)

lemma staged_ids_apply:
  "staged_ids (staged_apply ev (st\<lparr>st_events := st_events st @ [(ev, hp)]\<rparr>)) \<subseteq> staged_ids st \<union> event_ids ev"
proof -
  let ?st = "st\<lparr>st_events := st_events st @ [(ev, hp)]\<rparr>"
  have "{i. ghas (st_entities (staged_apply ev ?st)) i} \<subseteq> {i. ghas (st_entities st) i} \<union> event_ids ev"
    using staged_entities_apply(1) [of ev ?st] by auto
  moreover have "{i. \<exists>h. map_of (st_byHash (staged_apply ev ?st)) h = Some i}
      \<subseteq> {i. \<exists>h. map_of (st_byHash st) h = Some i} \<union> event_ids ev"
    by (auto simp: staged_byHash_apply event_ids_def split: option.splits if_splits)
  ultimately show ?thesis unfolding staged_ids_def by auto
qed

end
