(* ===== verification/Change_Steps.thy ===== *)
theory Change_Steps
  imports Change_Inv
begin

text \<open>
  Every operation of the engine keeps its invariant: minting, commit, flush, the edge
  cascade, and then each handler built from them.
\<close>

section \<open>Definitions\<close>

text \<open>The part of the state the projection view depends on; the bookkeeping leaves it alone.\<close>

definition ecore :: "'a Engine \<Rightarrow> Graph \<times> 'a \<times> staged option \<times> nat \<times> (nat \<times> Event \<times> bool) list \<times> nat goset \<times> nat list" where
  "ecore e = (e_graph e, e_appender e, e_staged e, e_ulids e, e_delivered e, e_subs e, e_rolledBack e)"

text \<open>The invariant of the handlers: the overlay invariant, and no edge to a dead entity.\<close>

definition sound :: "(nat \<Rightarrow> string) \<Rightarrow> (EntityID \<Rightarrow> string) \<Rightarrow> 'a Engine \<Rightarrow> bool" where
  "sound ulid hid e = (engine_inv ulid hid e \<and> no_dangling (eview e))"

section \<open>Identity of fresh ids\<close>

lemma eview_ids: "tp_entities (eview e) i \<noteq> None \<Longrightarrow> i \<in> engine_ids e"
  by (auto simp: eview_def overlay_def engine_ids_def staged_ids_def graph_ids_def live_iff ghas_def
      split: option.splits if_splits)

lemma ev_ok_cong:
  assumes "\<And>i. tp_entities T i \<noteq> None \<Longrightarrow> hid' i = hid i" and "\<And>i. i \<in> event_ids ev \<Longrightarrow> hid' i = hid i"
  shows "ev_ok hid' T ev = ev_ok hid T ev"
proof (cases "ev_Entity ev")
  case (Some ee)
  have "hid' (ent_ID (ee_Entity ee)) = hid (ent_ID (ee_Entity ee))"
    using assms(2) Some by (simp add: event_ids_def)
  moreover have "(\<forall>j. tp_entities T j \<noteq> None \<longrightarrow> hid' j \<noteq> x) \<longleftrightarrow> (\<forall>j. tp_entities T j \<noteq> None \<longrightarrow> hid j \<noteq> x)" for x
    using assms(1) by auto
  ultimately show ?thesis
    unfolding ev_ok_def using Some by (cases "ee_ChangeType ee") (simp_all add: Let_def)
qed (simp add: ev_ok_def)

lemma ok_events_cong:
  assumes "\<And>i. i \<in> A \<Longrightarrow> hid' i = hid i" and "dom (tp_entities T) \<subseteq> A"
    and "\<And>ev. ev \<in> set evs \<Longrightarrow> event_ids ev \<subseteq> A"
  shows "ok_events hid' T evs = ok_events hid T evs"
  using assms(2,3)
proof (induction evs arbitrary: T)
  case (Cons ev evs)
  have "ev_ok hid' T ev = ev_ok hid T ev"
  proof (rule ev_ok_cong)
    show "hid' i = hid i" if "tp_entities T i \<noteq> None" for i
      using that Cons.prems(1) assms(1) by blast
    show "hid' i = hid i" if "i \<in> event_ids ev" for i
      using that Cons.prems(2) [of ev] assms(1) by auto
  qed
  moreover have "dom (tp_entities (spec_apply ev T)) \<subseteq> A"
  proof
    fix i assume "i \<in> dom (tp_entities (spec_apply ev T))"
    with spec_apply_entities [of ev T i] Cons.prems show "i \<in> A" by auto
  qed
  ultimately show ?case using Cons.IH [of "spec_apply ev T"] Cons.prems(2) by simp
qed simp

lemma engine_inv_hid:
  assumes inv: "engine_inv ulid hid e" and same: "\<And>i. i \<in> engine_ids e \<Longrightarrow> hid' i = hid i"
  shows "engine_inv ulid hid' e"
proof -
  let ?g = "e_graph e"
  have g: "graph_inv hid' ?g"
    using inv same by (auto simp: engine_inv_def graph_inv_def engine_ids_def graph_ids_def ghas_def)
  moreover have "staged_inv hid' ?g st" if st: "e_staged e = Some st" for st
  proof -
    have old: "staged_inv hid ?g st" using inv st by (simp add: engine_inv_def)
    have dom: "dom (tp_entities (view ?g)) \<subseteq> engine_ids e"
      by (auto simp: engine_ids_def graph_ids_def live_iff ghas_def)
    have evs: "event_ids ev \<subseteq> engine_ids e" if "ev \<in> set (map fst (st_events st))" for ev
      using that st by (auto simp: engine_ids_def staged_ids_def)
    have ok: "ok_events hid' (view ?g) (map fst (st_events st))"
    proof -
      have "ok_events hid' (view ?g) (map fst (st_events st)) = ok_events hid (view ?g) (map fst (st_events st))"
        by (rule ok_events_cong [OF same dom evs])
      with old show ?thesis by (simp add: staged_inv_def)
    qed
    have own: "hid' i = h \<and> ghas (st_entities st) i" if "map_of (st_byHash st) h = Some i" for h i
    proof -
      have "i \<in> engine_ids e" using that st by (auto simp: engine_ids_def staged_ids_def)
      with same old that show ?thesis by (auto simp: staged_inv_def)
    qed
    have reg: "hid' i = hid i" if "tp_entities (overlay st (view ?g)) i \<noteq> None" for i
      using that eview_ids [of e i] st same by (simp add: eview_def)
    show ?thesis
      unfolding staged_inv_def
    proof (intro conjI allI impI)
      show "map_of (st_byHash st) (hid' i) = Some i \<or> map_of (st_byHash st) (hid' i) = None \<and> live ?g i \<noteq> None"
        if "tp_entities (overlay st (view ?g)) i \<noteq> None" for i
        using old that reg [OF that] by (simp add: staged_inv_def)
    qed (use old ok own in \<open>auto simp: staged_inv_def\<close>)
  qed
  ultimately show ?thesis using inv by (auto simp: engine_inv_def split: option.splits)
qed

lemma engine_inv_core:
  assumes "engine_inv ulid hid e" and "e_graph e' = e_graph e" and "e_staged e' = e_staged e"
    and "e_ulids e \<le> e_ulids e'"
  shows "engine_inv ulid hid e'" and "eview e' = eview e"
proof -
  have "ulid ` {..<e_ulids e} \<subseteq> ulid ` {..<e_ulids e'}" using assms(4) by auto
  with assms show "engine_inv ulid hid e'"
    by (cases "e_staged e") (auto simp: engine_inv_def engine_ids_def)
  show "eview e' = eview e" using assms by (cases "e_staged e") (simp_all add: eview_def)
qed

lemma mint_simps [simp]:
  "fst (mint env e) = env_ulid env (e_ulids e)" "snd (mint env e) = e\<lparr>e_ulids := Suc (e_ulids e)\<rparr>"
  by (simp_all add: mint_def)

lemma mint_fresh:
  assumes "engine_inv (env_ulid env) hid e" and "inj (env_ulid env)"
  shows "env_ulid env (e_ulids e) \<notin> engine_ids e"
  using assms by (force simp: engine_inv_def inj_def)

section \<open>Commit\<close>

lemma commit_staged:
  "e_staged e = Some st \<Longrightarrow> commit env ev hp e =
     (e\<lparr>e_staged := Some (staged_apply ev (st\<lparr>st_events := st_events st @ [(ev, hp)]\<rparr>))\<rparr>, Inr ev)"
  by (simp add: commit_def)

lemma notify_fields [simp]:
  "e_graph (notify ev hp e) = e_graph e" "e_staged (notify ev hp e) = e_staged e"
  "e_ulids (notify ev hp e) = e_ulids e" "e_appender (notify ev hp e) = e_appender e"
  "e_refs (notify ev hp e) = e_refs e" "e_relRefs (notify ev hp e) = e_relRefs e"
  "e_pending (notify ev hp e) = e_pending e" "e_aliases (notify ev hp e) = e_aliases e"
  "e_subs (notify ev hp e) = e_subs e" "e_bufferTTL (notify ev hp e) = e_bufferTTL e"
  "e_contested (notify ev hp e) = e_contested e" "e_rolledBack (notify ev hp e) = e_rolledBack e"
  by (simp_all add: notify_def)

lemma commit_inv:
  assumes inv: "engine_inv ulid hid e" and ok: "ev_ok hid (eview e) ev"
    and ids: "event_ids ev \<subseteq> ulid ` {..<e_ulids e}" and c: "commit env ev hp e = (e', res)"
  shows "engine_inv ulid hid e'" and "eview e' = (case res of Inr _ \<Rightarrow> spec_apply ev (eview e) | Inl _ \<Rightarrow> eview e)"
    and "e_ulids e' = e_ulids e"
proof -
  have "engine_inv ulid hid e' \<and> eview e' = (case res of Inr _ \<Rightarrow> spec_apply ev (eview e) | Inl _ \<Rightarrow> eview e)
      \<and> e_ulids e' = e_ulids e"
  proof (cases "e_staged e")
    case (Some st)
    let ?st = "staged_apply ev (st\<lparr>st_events := st_events st @ [(ev, hp)]\<rparr>)"
    from c Some have e': "e' = e\<lparr>e_staged := Some ?st\<rparr>" and res: "res = Inr ev" by (simp_all add: commit_staged)
    from ok Some have ok': "ev_ok hid (overlay st (view (e_graph e))) ev" by (simp add: eview_def)
    have "staged_inv hid (e_graph e) ?st"
      by (rule staged_inv_apply [OF _ ok']) (use inv Some in \<open>simp add: engine_inv_def\<close>)
    moreover have "staged_ids ?st \<subseteq> ulid ` {..<e_ulids e}"
      using staged_ids_apply [of ev st hp] ids inv Some by (auto simp: engine_inv_def engine_ids_def)
    moreover have "overlay ?st (view (e_graph e)) = spec_apply ev (overlay st (view (e_graph e)))"
      using overlay_apply [of hid "st\<lparr>st_events := st_events st @ [(ev, hp)]\<rparr>" "view (e_graph e)" ev] ok' by simp
    ultimately show ?thesis
      using inv Some res e' by (auto simp: engine_inv_def engine_ids_def eview_def)
  next
    case None
    show ?thesis
    proof (cases "env_append env (e_appender e) [ev]")
      case (Inl err)
      with c None inv show ?thesis by (auto simp: commit_def)
    next
      case (Inr p)
      obtain app sq where p: "p = (app, sq)" by (cases p)
      let ?ev = "stampCommit sq ev"
      from c None Inr p have g: "e_graph e' = Apply (env_now env) ?ev (e_graph e)" "e_staged e' = None"
        "e_ulids e' = e_ulids e" "res = Inr ?ev"
        by (auto simp: commit_def Let_def)
      have gi: "graph_inv hid (e_graph e)" using inv by (simp add: engine_inv_def)
      have ok': "ev_ok hid (view (e_graph e)) ?ev" using ok None by (simp add: eview_def)
      note A = graph_inv_Apply [OF gi ok', of "env_now env"]
      have "graph_ids (e_graph e') \<subseteq> ulid ` {..<e_ulids e}"
        using graph_ids_Apply [of "env_now env" ?ev "e_graph e"] inv None ids g(1)
        by (auto simp: engine_inv_def engine_ids_def)
      with A g None show ?thesis by (simp add: engine_inv_def engine_ids_def eview_def)
    qed
  qed
  then show "engine_inv ulid hid e'"
    "eview e' = (case res of Inr _ \<Rightarrow> spec_apply ev (eview e) | Inl _ \<Rightarrow> eview e)" "e_ulids e' = e_ulids e"
    by simp_all
qed

section \<open>Flush\<close>

lemma applyNotify_fields [simp]:
  "e_graph (applyNotify env (ev, hp) e) = Apply (env_now env) ev (e_graph e)"
  "e_staged (applyNotify env (ev, hp) e) = e_staged e" "e_ulids (applyNotify env (ev, hp) e) = e_ulids e"
  "e_appender (applyNotify env (ev, hp) e) = e_appender e"
  by (simp_all add: applyNotify_def)

lemma flush_fold:
  assumes "engine_inv ulid hid e" and "e_staged e = None" and "ok_events hid (view (e_graph e)) (map fst ses)"
    and "\<And>ev. ev \<in> fst ` set ses \<Longrightarrow> event_ids ev \<subseteq> ulid ` {..<e_ulids e}"
  shows "engine_inv ulid hid (fold (applyNotify env) ses e) \<and>
    view (e_graph (fold (applyNotify env) ses e)) = spec_replay (map fst ses) (view (e_graph e)) \<and>
    e_staged (fold (applyNotify env) ses e) = None \<and> e_ulids (fold (applyNotify env) ses e) = e_ulids e"
  using assms
proof (induction ses arbitrary: e)
  case (Cons se ses)
  obtain ev hp where se: "se = (ev, hp)" by (cases se)
  let ?e = "applyNotify env (ev, hp) e"
  have gi: "graph_inv hid (e_graph e)" and ok: "ev_ok hid (view (e_graph e)) ev"
    using Cons.prems se by (simp_all add: engine_inv_def)
  note A = graph_inv_Apply [OF gi ok, of "env_now env"]
  have "engine_inv ulid hid ?e"
    using A(1) Cons.prems(1,2) Cons.prems(4) [of ev] graph_ids_Apply [of "env_now env" ev "e_graph e"] se
    by (fastforce simp: engine_inv_def engine_ids_def)
  with Cons.IH [of ?e] Cons.prems A(2) show ?case by (simp add: se)
qed simp

lemma flushStaged_inv:
  assumes inv: "engine_inv ulid hid e" and st: "e_staged e = Some st" and f: "flushStaged env st e = (e', err)"
  shows "engine_inv ulid hid e'" and "e_staged e' = None"
    and "eview e' = (if err = None then eview e else view (e_graph e))"
    and "e_ulids e' = e_ulids e"
proof -
  let ?e = "e\<lparr>e_staged := None\<rparr>"
  have s: "staged_inv hid (e_graph e) st" using inv st by (simp add: engine_inv_def)
  have base: "engine_inv ulid hid ?e" using inv st by (auto simp: engine_inv_def engine_ids_def)
  have ev: "eview e = spec_replay (map fst (st_events st)) (view (e_graph e))"
    using s st by (simp add: staged_inv_def eview_def)
  have "engine_inv ulid hid e' \<and> e_staged e' = None \<and>
      eview e' = (if err = None then eview e else view (e_graph e)) \<and> e_ulids e' = e_ulids e"
  proof (cases "st_events st = []")
    case True
    with f base ev show ?thesis by (auto simp: flushStaged_def eview_def)
  next
    case False
    show ?thesis
    proof (cases "env_append env (e_appender e) (map fst (st_events st))")
      case (Inl a)
      with f False have e': "e' = ?e\<lparr>e_rolledBack := e_rolledBack e @ rev (st_rollbacks st)\<rparr>" "err = Some (FlushErr a)"
        by (auto simp: flushStaged_def Let_def)
      from engine_inv_core [OF base, of e'] e' show ?thesis by (simp add: eview_def)
    next
      case (Inr p)
      obtain app sq where p: "p = (app, sq)" by (cases p)
      let ?ses = "map (\<lambda>(ev, hp). (stampCommit sq ev, hp)) (st_events st)"
      let ?e2 = "?e\<lparr>e_appender := app\<rparr>"
      from f False Inr p have e': "e' = fold (applyNotify env) ?ses ?e2" "err = None"
        by (auto simp: flushStaged_def Let_def)
      have fst: "map fst ?ses = map (stampCommit sq) (map fst (st_events st))" by (induction "st_events st") auto
      have inv2: "engine_inv ulid hid ?e2" using engine_inv_core [OF base, of ?e2] by simp
      have ids: "event_ids ev \<subseteq> ulid ` {..<e_ulids ?e2}" if "ev \<in> fst ` set ?ses" for ev
      proof -
        from that obtain ev0 hp where "(ev0, hp) \<in> set (st_events st)" "ev = stampCommit sq ev0" by auto
        moreover have "staged_ids st \<subseteq> ulid ` {..<e_ulids e}"
          using inv st by (simp add: engine_inv_def engine_ids_def)
        ultimately show ?thesis unfolding staged_ids_def by force
      qed
      have "ok_events hid (view (e_graph ?e2)) (map fst ?ses)"
        using s unfolding fst by (simp add: staged_inv_def del: map_map)
      from flush_fold [OF inv2 _ this ids] show ?thesis
        unfolding e' fst using ev by (simp add: eview_def del: map_map)
    qed
  qed
  then show "engine_inv ulid hid e'" "e_staged e' = None"
    "eview e' = (if err = None then eview e else view (e_graph e))" "e_ulids e' = e_ulids e" by simp_all
qed

section \<open>Bookkeeping leaves the core alone\<close>

lemma ecore_sound:
  assumes "ecore e' = ecore e"
  shows "sound ulid hid e' = sound ulid hid e" and "eview e' = eview e"
    and "engine_inv ulid hid e' = engine_inv ulid hid e"
proof -
  from assms have eq: "e_graph e' = e_graph e" "e_staged e' = e_staged e" "e_ulids e' = e_ulids e"
    by (simp_all add: ecore_def)
  show v: "eview e' = eview e" using eq by (cases "e_staged e") (simp_all add: eview_def)
  show i: "engine_inv ulid hid e' = engine_inv ulid hid e"
    using eq by (cases "e_staged e") (simp_all add: engine_inv_def engine_ids_def)
  show "sound ulid hid e' = sound ulid hid e" by (simp add: sound_def v i)
qed

lemma ecore_updates [simp]:
  "ecore (e\<lparr>e_refs := a\<rparr>) = ecore e" "ecore (e\<lparr>e_relRefs := b\<rparr>) = ecore e"
  "ecore (e\<lparr>e_pending := c\<rparr>) = ecore e" "ecore (e\<lparr>e_pendingHashes := d\<rparr>) = ecore e"
  "ecore (e\<lparr>e_contested := f\<rparr>) = ecore e" "ecore (e\<lparr>e_aliases := g\<rparr>) = ecore e"
  "ecore (e\<lparr>e_badPromises := h\<rparr>) = ecore e" "ecore (e\<lparr>e_reports := k\<rparr>) = ecore e"
  by (simp_all add: ecore_def)

lemma ecore_promise [simp]: "ecore (fst (promise i t p d e)) = ecore e"
  by (simp add: promise_def Let_def)

lemma ecore_reportDiscard [simp]: "ecore (reportDiscard obs e) = ecore e"
  by (simp add: reportDiscard_def)

lemma ecore_dropPending [simp]: "ecore (dropPendingRelation obs e) = ecore e"
  by (simp add: dropPendingRelation_def)

lemma ecore_rebuild [simp]: "ecore (rebuildPendingHashes e) = ecore e"
  by (simp add: rebuildPendingHashes_def)

lemma ecore_referRelation [simp]: "ecore (referRelation env obs from i e) = ecore e"
  by (simp add: referRelation_def Let_def case_prod_beta)

lemma ecore_referEntity [simp]: "ecore (referEntity env obs i e) = ecore e"
  by (simp add: referEntity_def Let_def case_prod_beta)

lemma ecore_trackDisplayName [simp]: "ecore (trackDisplayName env i obs prev e) = ecore e"
  by (simp add: trackDisplayName_def Let_def split: option.splits)

lemma ecore_park [simp]: "ecore (parkRelation env obs e) = ecore e"
  by (simp add: parkRelation_def Let_def)

lemma setCurrentScope_sound:
  "sound ulid hid (setCurrentScope sc e) = sound ulid hid e"
  "eview (setCurrentScope sc e) = eview e"
  "(e_staged (setCurrentScope sc e) = None) = (e_staged e = None)"
proof -
  have "engine_inv ulid hid (setCurrentScope sc e) = engine_inv ulid hid e" and v: "eview (setCurrentScope sc e) = eview e"
    by (auto simp: setCurrentScope_def eview_def engine_inv_def engine_ids_def staged_inv_def staged_ids_def
        split: option.splits)
  then show "sound ulid hid (setCurrentScope sc e) = sound ulid hid e" by (simp add: sound_def)
  show "eview (setCurrentScope sc e) = eview e" by (rule v)
  show "(e_staged (setCurrentScope sc e) = None) = (e_staged e = None)"
    by (simp add: setCurrentScope_def split: option.splits)
qed

section \<open>Relations\<close>

lemma relationEvent_eq:
  "relationEvent env ct rel t src e = (relationEv (zeroRelationEvent\<lparr>re_EventID := env_ulid env (e_ulids e),
     re_ChangeType := ct, re_Relation := rel, re_EventTime := t, re_RecordedAt := env_now env,
     re_SchemaVersion := SchemaVersion, re_DeleteSource := src, re_Scope := currentScope e\<rparr>),
     e\<lparr>e_ulids := Suc (e_ulids e)\<rparr>)"
  by (simp add: relationEvent_def mint_def currentScope_def)

lemma resolveEndpoint_live:
  assumes "engine_inv ulid hid e" and "resolveEndpoint e ref = (i, sub)" and "i \<noteq> []"
  shows "tp_entities (eview e) i \<noteq> None"
  using assms matchIdentity_iff [OF assms(1), of "ep_Type ref" _ i]
  by (auto simp: resolveEndpoint_def split: option.splits)

lemma resolveEndpoints_live:
  assumes "engine_inv ulid hid e" and "resolveEndpoints e from to = Inr (i, j)"
  shows "tp_entities (eview e) i \<noteq> None" and "tp_entities (eview e) j \<noteq> None" and "i \<noteq> []" and "j \<noteq> []"
  using assms resolveEndpoint_live [OF assms(1)]
  by (auto simp: resolveEndpoints_def split: prod.splits if_splits)

lemma no_dangling_add:
  assumes "no_dangling T" and "tp_entities T (rel_From r) \<noteq> None" and "tp_entities T (rel_To r) \<noteq> None"
  shows "no_dangling (T\<lparr>tp_relations := (tp_relations T)(rel_ID r \<mapsto> r)\<rparr>)"
  using assms by (auto simp: no_dangling_def)

lemma no_dangling_remove:
  "no_dangling T \<Longrightarrow> no_dangling (T\<lparr>tp_relations := (tp_relations T)(i := None)\<rparr>)"
  by (auto simp: no_dangling_def split: if_splits)

text \<open>Committing a relation event keeps the live entities.\<close>

lemma commit_relation:
  assumes s: "sound ulid hid e" and ct: "ct \<in> {RelationAdded, RelationAttributeChanged, RelationRemoved}"
    and ends: "ct \<noteq> RelationRemoved \<Longrightarrow> tp_entities (eview e) (rel_From rel) \<noteq> None \<and> tp_entities (eview e) (rel_To rel) \<noteq> None"
    and r: "relationEvent env ct rel t src e = (ev, e1)" and c: "commit env ev hp e1 = (e', res)"
  shows "sound ulid hid e'" and "tp_entities (eview e') = tp_entities (eview e)"
    and "(e_staged e' = None) = (e_staged e = None)"
    and "eview e' = (case res of Inl _ \<Rightarrow> eview e | Inr _ \<Rightarrow>
      (eview e)\<lparr>tp_relations := (tp_relations (eview e))(rel_ID rel := (if ct = RelationRemoved then None else Some rel))\<rparr>)"
proof -
  from r have e1: "e1 = e\<lparr>e_ulids := Suc (e_ulids e)\<rparr>" and ev: "\<exists>re. ev = relationEv re \<and> re_ChangeType re = ct \<and> re_Relation re = rel"
    by (auto simp: relationEvent_eq)
  from ev obtain re where re: "ev = relationEv re" "re_ChangeType re = ct" "re_Relation re = rel" by blast
  have inv1: "engine_inv ulid hid e1" and v1: "eview e1 = eview e"
    using engine_inv_core [of ulid hid e e1] s by (simp_all add: sound_def e1)
  have ok: "ev_ok hid (eview e1) ev" using re ct by (auto simp: ev_ok_def)
  note C = commit_inv [OF inv1 ok _ c]
  have ids: "event_ids ev \<subseteq> ulid ` {..<e_ulids e1}" using re by (simp add: event_ids_def)
  have sp: "spec_apply ev T = T\<lparr>tp_relations := (tp_relations T)(rel_ID rel := (if ct = RelationRemoved then None else Some rel))\<rparr>" for T
    using re ct by (auto simp: spec_apply_def spec_relation_def Let_def)
  show v: "eview e' = (case res of Inl _ \<Rightarrow> eview e | Inr _ \<Rightarrow>
      (eview e)\<lparr>tp_relations := (tp_relations (eview e))(rel_ID rel := (if ct = RelationRemoved then None else Some rel))\<rparr>)"
    using C(2) [OF ids] by (simp add: sp v1 split: sum.splits)
  then show "tp_entities (eview e') = tp_entities (eview e)" by (simp split: sum.splits)
  have "no_dangling (eview e')"
    unfolding v using s no_dangling_add [of "eview e" rel] no_dangling_remove [of "eview e" "rel_ID rel"] ends
    by (auto simp: sound_def split: sum.splits)
  with C(1) [OF ids] show "sound ulid hid e'" by (simp add: sound_def)
  show "(e_staged e' = None) = (e_staged e = None)"
    using c by (auto simp: commit_def e1 Let_def split: option.splits sum.splits)
qed

lemma observeRelationLocked_sound:
  assumes s: "sound ulid hid e" and o: "observeRelationLocked env obs e = (e', ev, err)"
  shows "sound ulid hid e' \<and> tp_entities (eview e') = tp_entities (eview e) \<and> (e_staged e' = None) = (e_staged e = None)"
proof (cases "resolveEndpoints e (ro_From obs) (ro_To obs)")
  case (Inl a)
  with o s show ?thesis by (simp add: observeRelationLocked_def)
next
  case (Inr p)
  obtain i j where p: "p = (i, j)" by (cases p)
  let ?rel = "NewRelation (ro_Type obs) i j (ro_Attributes obs)"
  let ?e = "referRelation env obs i (rel_ID ?rel) e"
  have core: "ecore ?e = ecore e" by simp
  note sc = ecore_sound [OF core]
  have ends: "tp_entities (eview ?e) (rel_From ?rel) \<noteq> None \<and> tp_entities (eview ?e) (rel_To ?rel) \<noteq> None"
    using resolveEndpoints_live [of ulid hid e] s Inr p sc(2) by (simp add: sound_def)
  have st: "(e_staged ?e = None) = (e_staged e = None)" using core by (simp add: ecore_def)
  consider "(e', ev, err) = (?e, None, None)"
    | ct ev1 e1 e2 res where "ct \<in> {RelationAdded, RelationAttributeChanged}"
        "relationEvent env ct ?rel (ro_EventTime obs) DeleteSourceUnknown ?e = (ev1, e1)"
        "commit env ev1 (rel_Structural ?rel \<and> ct = RelationAdded) e1 = (e2, res)" "e' = e2"
    using o Inr p
    by (force simp: observeRelationLocked_def Let_def split: option.splits prod.splits sum.splits if_splits)
  then show ?thesis
  proof cases
    case 1
    with s sc st show ?thesis by simp
  next
    case 2
    from commit_relation [OF _ _ ends 2(2,3)] s sc 2(1,4) st show ?thesis by auto
  qed
qed

end
