(* ===== verification/Change_Handlers.thy ===== *)
theory Change_Handlers
  imports Change_Steps
begin

text \<open>
  The handlers of the engine keep its invariant: observing and deleting entities,
  observing, parking, flushing and removing relations, the edge cascade.
\<close>

section \<open>Definitions\<close>

text \<open>A relation operation: the invariant holds after it and the live entities are the same.\<close>

definition keeps :: "(nat \<Rightarrow> string) \<Rightarrow> (EntityID \<Rightarrow> string) \<Rightarrow> 'a Engine \<Rightarrow> 'a Engine \<Rightarrow> bool" where
  "keeps ulid hid e e' = (sound ulid hid e' \<and> tp_entities (eview e') = tp_entities (eview e) \<and>
     (e_staged e' = None) = (e_staged e = None))"

text \<open>Every relation has live endpoints or touches the one given id.\<close>

definition dangling_at :: "EntityID \<Rightarrow> Topology \<Rightarrow> bool" where
  "dangling_at i T = (\<forall>j r. tp_relations T j = Some r \<longrightarrow> rel_From r = i \<or> rel_To r = i \<or>
     (tp_entities T (rel_From r) \<noteq> None \<and> tp_entities T (rel_To r) \<noteq> None))"

section \<open>Relations\<close>

lemma keeps_refl: "sound ulid hid e \<Longrightarrow> keeps ulid hid e e"
  by (simp add: keeps_def)

lemma keeps_trans: "keeps ulid hid e e1 \<Longrightarrow> keeps ulid hid e1 e2 \<Longrightarrow> keeps ulid hid e e2"
  by (simp add: keeps_def)

lemma keeps_core: "keeps ulid hid e e1 \<Longrightarrow> ecore e2 = ecore e1 \<Longrightarrow> keeps ulid hid e e2"
  using ecore_sound [of e2 e1] by (simp add: keeps_def ecore_def)

lemma keeps_observeRelationLocked:
  "sound ulid hid e \<Longrightarrow> keeps ulid hid e (fst (observeRelationLocked env obs e))"
  using observeRelationLocked_sound [of ulid hid e env obs "fst (observeRelationLocked env obs e)"
      "fst (snd (observeRelationLocked env obs e))" "snd (snd (observeRelationLocked env obs e))"]
  by (simp add: keeps_def)

lemma keeps_setScope:
  "keeps ulid hid e e1 \<Longrightarrow> keeps ulid hid e (setCurrentScope sc e1)"
  by (simp add: keeps_def setCurrentScope_sound)

lemma keeps_flushOne:
  assumes "sound ulid hid e"
  shows "keeps ulid hid e (fst (flushOne env p (e, kept)))"
proof (cases "env_now env > pr_deadline p")
  case True
  then show ?thesis
    using keeps_core [OF keeps_refl [OF assms]] by (simp add: flushOne_def)
next
  case False
  let ?e1 = "setCurrentScope (pr_scope p) e"
  obtain e2 ev err where o: "observeRelationLocked env (pr_obs p) ?e1 = (e2, ev, err)"
    by (metis prod_cases3)
  have k1: "keeps ulid hid e ?e1" by (rule keeps_setScope [OF keeps_refl [OF assms]])
  then have "sound ulid hid ?e1" by (simp add: keeps_def)
  from keeps_observeRelationLocked [OF this, of env "pr_obs p"] have "keeps ulid hid e e2"
    using o k1 keeps_trans by (metis fst_conv)
  then have k3: "keeps ulid hid e (setCurrentScope (currentScope e) e2)" by (rule keeps_setScope)
  show ?thesis
    using False o k3 keeps_core [OF k3 ecore_dropPending] by (simp add: flushOne_def Let_def)
qed

lemma keeps_flushFold:
  "sound ulid hid e \<Longrightarrow> keeps ulid hid e (fst (fold (flushOne env) ps (e, kept)))"
proof (induction ps arbitrary: e kept)
  case (Cons p ps)
  obtain e1 kept1 where f: "flushOne env p (e, kept) = (e1, kept1)" by fastforce
  have k: "keeps ulid hid e e1" using keeps_flushOne [OF Cons.prems, of env p kept] f by simp
  then have "sound ulid hid e1" by (simp add: keeps_def)
  from keeps_trans [OF k Cons.IH [OF this]] show ?case using f by simp
qed (simp add: keeps_refl)

lemma keeps_flushPending: "sound ulid hid e \<Longrightarrow> keeps ulid hid e (flushPending env e)"
proof (cases "e_pending e = []")
  case False
  assume s: "sound ulid hid e"
  obtain e1 kept where f: "fold (flushOne env) (e_pending e) (e, []) = (e1, kept)" by fastforce
  have "keeps ulid hid e e1" using keeps_flushFold [OF s, of env "e_pending e" "[]"] f by simp
  from keeps_core [OF this, of "rebuildPendingHashes (e1\<lparr>e_pending := kept\<rparr>)"] show ?thesis
    using False f by (simp add: flushPending_def)
qed (simp add: flushPending_def keeps_refl)

lemma keeps_recordAlias: "sound ulid hid e \<Longrightarrow> keeps ulid hid e (recordAliasLocked env obs e)"
proof -
  assume s: "sound ulid hid e"
  have stay: "keeps ulid hid e e1" if "ecore e1 = ecore e" for e1
    by (rule keeps_core [OF keeps_refl [OF s] that])
  have flush: "keeps ulid hid e (flushPending env (rebuildPendingHashes e1))" if "ecore e1 = ecore e" for e1
  proof -
    have k: "keeps ulid hid e (rebuildPendingHashes e1)" using stay that by simp
    then have "sound ulid hid (rebuildPendingHashes e1)" by (simp add: keeps_def)
    from keeps_trans [OF k keeps_flushPending [OF this]] show ?thesis .
  qed
  show ?thesis
    unfolding recordAliasLocked_def Let_def
    by (auto split: option.splits prod.splits intro!: stay flush)
qed

lemma keeps_buffered: "sound ulid hid e \<Longrightarrow> keeps ulid hid e (fst (observeRelationBuffered env obs e))"
proof -
  assume s: "sound ulid hid e"
  let ?e = "if ro_Type obs = RelSameAs then recordAliasLocked env obs e else e"
  obtain e1 ev err where o: "observeRelationLocked env obs ?e = (e1, ev, err)" by (metis prod_cases3)
  have k0: "keeps ulid hid e ?e" using s keeps_refl keeps_recordAlias by auto
  then have "sound ulid hid ?e" by (simp add: keeps_def)
  from keeps_trans [OF k0 keeps_observeRelationLocked [OF this]] o have k: "keeps ulid hid e e1"
    by (metis fst_conv)
  show ?thesis
    using o k keeps_core [OF k ecore_dropPending] keeps_core [OF k ecore_park]
    by (simp add: observeRelationBuffered_def Let_def)
qed

lemma removeRelation_steps:
  assumes "removeRelationLocked env obs e = (e', ev', err)"
  shows "ecore e' = ecore e \<or> (\<exists>existing e0 ev e1 res. ecore e0 = ecore e \<and>
     relationEvent env RelationRemoved existing (ro_EventTime obs) DeleteSourceProducer e0 = (ev, e1) \<and>
     commit env ev (rel_Structural existing) e1 = (e', res))"
proof (cases "resolveEndpoints e (ro_From obs) (ro_To obs)")
  case (Inl a)
  with assms show ?thesis by (simp add: removeRelationLocked_def split: if_splits)
next
  case (Inr p)
  obtain i j where p: "p = (i, j)" by (cases p)
  let ?k = "ComputeRelationID (ro_Type obs) i j"
  have last: ?thesis
    if c: "ecore e0 = ecore e" and r: "(case getRelation e0 ?k of None \<Rightarrow> (e0, None, None)
        | Some existing \<Rightarrow> let (ev, e) = relationEvent env RelationRemoved existing (ro_EventTime obs) DeleteSourceProducer e0
             in case commit env ev (rel_Structural existing) e of
                  (e, Inl err) \<Rightarrow> (e, None, Some err) | (e, Inr ev) \<Rightarrow> (e, Some ev, None)) = (e', ev', err)" for e0
  proof (cases "getRelation e0 ?k")
    case None
    with c r show ?thesis by simp
  next
    case (Some existing)
    obtain ev e1 where re: "relationEvent env RelationRemoved existing (ro_EventTime obs) DeleteSourceProducer e0 = (ev, e1)"
      by fastforce
    obtain e2 res where cm: "commit env ev (rel_Structural existing) e1 = (e2, res)" by fastforce
    from r Some re cm have "e2 = e'" by (simp split: sum.splits)
    with c re cm show ?thesis by blast
  qed
  show ?thesis
  proof (cases "map_of (e_relRefs e) ?k")
    case None
    with assms Inr p last [of e] show ?thesis by (simp add: removeRelationLocked_def Let_def)
  next
    case (Some refs)
    show ?thesis
    proof (cases "fst (releaseSpeaker refs (ro_Producer obs) (currentScope e)) = []")
      case True
      with assms Inr p Some last [of "e\<lparr>e_relRefs := gdel ?k (e_relRefs e)\<rparr>"] show ?thesis
        by (simp add: removeRelationLocked_def Let_def)
    next
      case False
      with assms Inr p Some show ?thesis by (auto simp: removeRelationLocked_def Let_def)
    qed
  qed
qed

lemma keeps_removeRelation: "sound ulid hid e \<Longrightarrow> keeps ulid hid e (fst (removeRelationLocked env obs e))"
proof -
  assume s: "sound ulid hid e"
  obtain e' ev' err where r: "removeRelationLocked env obs e = (e', ev', err)" by (metis prod_cases3)
  from removeRelation_steps [OF r] show ?thesis
  proof (elim disjE exE conjE)
    assume "ecore e' = ecore e"
    with r keeps_core [OF keeps_refl [OF s]] show ?thesis by simp
  next
    fix existing e0 ev e1 res
    assume c: "ecore e0 = ecore e"
      and re: "relationEvent env RelationRemoved existing (ro_EventTime obs) DeleteSourceProducer e0 = (ev, e1)"
      and cm: "commit env ev (rel_Structural existing) e1 = (e', res)"
    have k0: "keeps ulid hid e e0" by (rule keeps_core [OF keeps_refl [OF s] c])
    then have "sound ulid hid e0" by (simp add: keeps_def)
    from commit_relation [OF this _ _ re cm] have "keeps ulid hid e0 e'" by (simp add: keeps_def)
    with keeps_trans [OF k0] r show ?thesis by simp
  qed
qed

section \<open>The edge cascade\<close>

lemma removeOne_inv:
  assumes inv: "engine_inv ulid hid e" and f: "removeOne env when rel (e, n, errs) = (e', n', errs')"
  shows "engine_inv ulid hid e'" and "tp_entities (eview e') = tp_entities (eview e)"
    and "(e_staged e' = None) = (e_staged e = None)"
    and "tp_relations (eview e') = (if errs' = errs then (tp_relations (eview e))(rel_ID rel := None) else tp_relations (eview e))"
    and "\<exists>more. errs' = errs @ more" and "e_staged e \<noteq> None \<Longrightarrow> errs' = errs"
proof -
  obtain ev e1 where r: "relationEvent env RelationRemoved rel when DeleteSourceCascade e = (ev, e1)" by fastforce
  obtain e2 res where c: "commit env ev (rel_Structural rel) e1 = (e2, res)" by fastforce
  from r have e1: "e1 = e\<lparr>e_ulids := Suc (e_ulids e)\<rparr>"
    and ev: "\<exists>re. ev = relationEv re \<and> re_ChangeType re = RelationRemoved \<and> re_Relation re = rel"
    by (auto simp: relationEvent_eq)
  have inv1: "engine_inv ulid hid e1" and v1: "eview e1 = eview e"
    using engine_inv_core [of ulid hid e e1] inv by (simp_all add: e1)
  from ev obtain re where re: "ev = relationEv re" "re_ChangeType re = RelationRemoved" "re_Relation re = rel" by blast
  have ok: "ev_ok hid (eview e1) ev" using re by (simp add: ev_ok_def)
  have ids: "event_ids ev \<subseteq> ulid ` {..<e_ulids e1}" using re by (simp add: event_ids_def)
  have sp: "spec_apply ev T = T\<lparr>tp_relations := (tp_relations T)(rel_ID rel := None)\<rparr>" for T
    using re by (simp add: spec_apply_def spec_relation_def Let_def)
  note C = commit_inv [OF inv1 ok ids c]
  have st: "(e_staged e2 = None) = (e_staged e = None)" "e_staged e \<noteq> None \<Longrightarrow> \<exists>x. res = Inr x"
    using c by (auto simp: commit_def e1 Let_def split: option.splits sum.splits)
  have res: "(e', errs') = (case res of Inl err \<Rightarrow> (e2, errs @ [Wrap (rel_ID rel) err])
      | Inr _ \<Rightarrow> (e2\<lparr>e_relRefs := gdel (rel_ID rel) (e_relRefs e2)\<rparr>, errs))"
    using f r c by (cases res) (simp_all add: removeOne_def)
  have core: "ecore e' = ecore e2" using res by (cases res) simp_all
  note S = ecore_sound [OF core]
  show "engine_inv ulid hid e'" using S(3) C(1) by simp
  show "tp_entities (eview e') = tp_entities (eview e)"
    using S(2) C(2) by (simp add: sp v1 split: sum.splits)
  show "(e_staged e' = None) = (e_staged e = None)" using core st(1) by (simp add: ecore_def)
  show "tp_relations (eview e') = (if errs' = errs then (tp_relations (eview e))(rel_ID rel := None) else tp_relations (eview e))"
    using S(2) C(2) res by (cases res) (simp_all add: sp v1)
  show "\<exists>more. errs' = errs @ more" and "e_staged e \<noteq> None \<Longrightarrow> errs' = errs"
    using res st(2) by (cases res; fastforce)+
qed

lemma remove_fold:
  assumes "engine_inv ulid hid e" and "fold (removeOne env when) rels (e, n, errs) = (e', n', errs')"
  shows "engine_inv ulid hid e' \<and> tp_entities (eview e') = tp_entities (eview e) \<and>
    (e_staged e' = None) = (e_staged e = None) \<and>
    (\<forall>j r. tp_relations (eview e') j = Some r \<longrightarrow> tp_relations (eview e) j = Some r) \<and>
    (\<exists>more. errs' = errs @ more) \<and> (e_staged e \<noteq> None \<longrightarrow> errs' = errs) \<and>
    (errs' = errs \<longrightarrow> (\<forall>r \<in> set rels. tp_relations (eview e') (rel_ID r) = None))"
  using assms
proof (induction rels arbitrary: e n errs)
  case (Cons rel rels)
  obtain e1 n1 errs1 where f: "removeOne env when rel (e, n, errs) = (e1, n1, errs1)" by (metis prod_cases3)
  note R = removeOne_inv [OF Cons.prems(1) f]
  from Cons.prems(2) f have f2: "fold (removeOne env when) rels (e1, n1, errs1) = (e', n', errs')" by simp
  note IH = Cons.IH [OF R(1) f2]
  from R(5) IH obtain m1 m2 where m: "errs1 = errs @ m1" "errs' = errs1 @ m2" by blast
  have both: "errs1 = errs \<and> errs' = errs1" if "errs' = errs" using that m by simp
  have keep: "tp_relations (eview e) j = Some r" if "tp_relations (eview e1) j = Some r" for j r
    using that unfolding R(4) by (cases "errs1 = errs"; cases "j = rel_ID rel") simp_all
  have gone: "tp_relations (eview e') (rel_ID r) = None" if "errs' = errs" "r \<in> set (rel # rels)" for r
  proof (cases "r \<in> set rels")
    case True
    with IH both [OF that(1)] show ?thesis by blast
  next
    case False
    with that(2) have "r = rel" by simp
    moreover have "tp_relations (eview e1) (rel_ID rel) = None"
      unfolding R(4) using both [OF that(1)] by simp
    ultimately show ?thesis using IH by (metis not_Some_eq)
  qed
  show ?case
  proof (intro conjI)
    show "\<exists>more. errs' = errs @ more" using m by simp
    show "\<forall>j r. tp_relations (eview e') j = Some r \<longrightarrow> tp_relations (eview e) j = Some r"
      using IH keep by blast
    show "e_staged e \<noteq> None \<longrightarrow> errs' = errs"
    proof
      assume n: "e_staged e \<noteq> None"
      with R(3) have "e_staged e1 \<noteq> None" by simp
      with IH R(6) [OF n] show "errs' = errs" by simp
    qed
  qed (use IH R(2,3) gone in simp_all)
qed simp

lemma removeIncident_inv:
  assumes inv: "engine_inv ulid hid e" and d: "dangling_at i (eview e)" and i: "i \<noteq> []"
    and f: "removeIncidentRelations env i when e = (e', n, err)"
  shows "engine_inv ulid hid e'" and "tp_entities (eview e') = tp_entities (eview e)"
    and "(e_staged e' = None) = (e_staged e = None)"
    and "e_staged e \<noteq> None \<Longrightarrow> err = None" and "err = None \<Longrightarrow> no_dangling (eview e')"
    and "err = None \<Longrightarrow> tp_relations (eview e') j = Some r \<Longrightarrow> rel_From r \<noteq> i \<and> rel_To r \<noteq> i"
    and "tp_relations (eview e') j = Some r \<Longrightarrow> tp_relations (eview e) j = Some r"
proof -
  obtain errs where r: "fold (removeOne env when) (listRelationsTouching e i) (e, 0, []) = (e', n, errs)"
    and err: "err = joinErrs errs"
    using f by (auto simp: removeIncidentRelations_def split: prod.splits)
  note R = remove_fold [OF inv r]
  show "engine_inv ulid hid e'" "tp_entities (eview e') = tp_entities (eview e)"
    "(e_staged e' = None) = (e_staged e = None)" using R by simp_all
  show "e_staged e \<noteq> None \<Longrightarrow> err = None" using R err by (simp add: joinErrs_def)
  show sub: "tp_relations (eview e') j = Some r \<Longrightarrow> tp_relations (eview e) j = Some r" for j r using R by simp
  show gone: "rel_From r \<noteq> i \<and> rel_To r \<noteq> i" if none: "err = None" and j: "tp_relations (eview e') j = Some r" for j r
  proof (rule ccontr)
    assume "\<not> (rel_From r \<noteq> i \<and> rel_To r \<noteq> i)"
    with touching_complete [OF inv i sub [OF j]] obtain r' where
      "r' \<in> set (listRelationsTouching e i)" "rel_ID r' = j" by auto
    with R none err j show False by (auto simp: joinErrs_def split: if_splits)
  qed
  show "no_dangling (eview e')" if none: "err = None"
    unfolding no_dangling_def
  proof (intro allI impI)
    fix j r assume j: "tp_relations (eview e') j = Some r"
    from d sub [OF j] gone [OF none j] R
    show "tp_entities (eview e') (rel_From r) \<noteq> None \<and> tp_entities (eview e') (rel_To r) \<noteq> None"
      unfolding dangling_at_def by fastforce
  qed
qed

end
