(* ===== verification/Change_Entities.thy ===== *)
theory Change_Entities
  imports Change_Handlers
begin

text \<open>
  Observing and deleting entities keeps the invariant of the engine.  An observation either
  matches a live entity, resurrects a tombstone of the same identity or mints a fresh id,
  and the entity it leaves is the observed one; a deletion removes the entity and, when the
  cascade succeeds, every edge that touched it.
\<close>

section \<open>Definitions\<close>

definition good :: "(nat \<Rightarrow> string) \<Rightarrow> 'a Engine \<Rightarrow> bool" where
  "good ulid e = (ulid_ok ulid \<and> (\<exists>hid. sound ulid hid e))"

text \<open>What the classification of an observation promises about the event built from it.\<close>

definition classified :: "(EntityID \<Rightarrow> string) \<Rightarrow> 'a Engine \<Rightarrow> EntityObservation \<Rightarrow> ChangeType \<Rightarrow> EntityID \<Rightarrow> bool" where
  "classified hid e obs ct i =
     (hid i = identityHashOf (eo_Type obs) (eo_Identity obs) \<and>
      (if ct = EntityCreated then \<forall>j. tp_entities (eview e) j \<noteq> None \<longrightarrow> hid j \<noteq> hid i
       else ct \<in> {EntityUnchanged, EntityStateChanged, EntityAttributeUpdated} \<and> tp_entities (eview e) i \<noteq> None))"

section \<open>Classification\<close>

lemma classify_cases:
  assumes "classify env obs e = ((ct, i, changed, prev), e1)"
  obtains
    (minted) "matchIdentity e (eo_Type obs) (eo_Identity obs) = None" "matchTombstone env e (eo_Type obs) (eo_Identity obs) = None"
      "ct = EntityCreated" "i = env_ulid env (e_ulids e)" "e1 = e\<lparr>e_ulids := Suc (e_ulids e)\<rparr>"
  | (resurrected) "matchIdentity e (eo_Type obs) (eo_Identity obs) = None"
      "matchTombstone env e (eo_Type obs) (eo_Identity obs) = Some i" "ct = EntityCreated" "e1 = e"
  | (matched) "matchIdentity e (eo_Type obs) (eo_Identity obs) = Some i"
      "ct \<in> {EntityUnchanged, EntityStateChanged, EntityAttributeUpdated}" "e1 = e"
proof (cases "matchIdentity e (eo_Type obs) (eo_Identity obs)")
  case None
  show thesis
  proof (cases "matchTombstone env e (eo_Type obs) (eo_Identity obs)")
    case None
    with minted \<open>matchIdentity _ _ _ = None\<close> assms show thesis by (auto simp: classify_def mint_def)
  next
    case (Some r)
    with resurrected \<open>matchIdentity _ _ _ = None\<close> assms show thesis by (auto simp: classify_def)
  qed
next
  case (Some j)
  with matched assms show thesis by (auto simp: classify_def Let_def split: prod.splits option.splits)
qed

lemma classify_ok:
  assumes inv: "engine_inv (env_ulid env) hid e" and u: "ulid_ok (env_ulid env)"
    and c: "classify env obs e = ((ct, i, changed, prev), e1)"
  shows "\<exists>hid'. engine_inv (env_ulid env) hid' e1 \<and> classified hid' e1 obs ct i \<and> i \<in> env_ulid env ` {..<e_ulids e1}
    \<and> eview e1 = eview e \<and> e_staged e1 = e_staged e"
proof -
  note cases = classify_cases [OF c]
  have known: "j \<in> env_ulid env ` {..<e_ulids e}" if "j \<in> engine_ids e" for j
    using inv that by (auto simp: engine_inv_def)
  from c show ?thesis
  proof (cases rule: classify_cases)
    case minted
    let ?h = "identityHashOf (eo_Type obs) (eo_Identity obs)"
    have new: "i \<notin> engine_ids e" using mint_fresh [OF inv] u minted(4) by (simp add: ulid_ok_def)
    have inv': "engine_inv (env_ulid env) (hid(i := ?h)) e"
      by (rule engine_inv_hid [OF inv]) (use new in auto)
    have old: "(hid(i := ?h)) j \<noteq> ?h" if "tp_entities (eview e) j \<noteq> None" for j
      using matchIdentity_None [OF inv minted(1) that] eview_ids [OF that] new by auto
    from engine_inv_core [OF inv', of e1] minted have "engine_inv (env_ulid env) (hid(i := ?h)) e1" "eview e1 = eview e"
      by simp_all
    moreover have "classified (hid(i := ?h)) e1 obs ct i"
      using old minted \<open>eview e1 = eview e\<close> by (simp add: classified_def)
    ultimately show ?thesis using minted by (intro exI [of _ "hid(i := ?h)"]) auto
  next
    case resurrected
    note T = matchTombstone_sound [OF inv resurrected(2)]
    have "classified hid e1 obs ct i"
      using T(1) resurrected matchIdentity_None [OF inv resurrected(1)] by (simp add: classified_def)
    with inv resurrected known [OF T(2)] show ?thesis by blast
  next
    case matched
    from matched(1) have m: "tp_entities (eview e) i \<noteq> None" "hid i = identityHashOf (eo_Type obs) (eo_Identity obs)"
      unfolding matchIdentity_iff [OF inv] by auto
    with matched have "classified hid e1 obs ct i" by (auto simp: classified_def)
    with inv matched known [OF eview_ids [OF m(1)]] show ?thesis by blast
  qed
qed

section \<open>Observing an entity\<close>

lemma no_dangling_entities:
  assumes "no_dangling T" and "tp_relations T' = tp_relations T"
    and "\<And>i. tp_entities T i \<noteq> None \<Longrightarrow> tp_entities T' i \<noteq> None"
  shows "no_dangling T'"
  using assms unfolding no_dangling_def by metis

lemma commit_stagedness: "commit env ev hp e = (e', res) \<Longrightarrow> (e_staged e' = None) = (e_staged e = None)"
  by (auto simp: commit_def Let_def split: option.splits sum.splits)

lemma commit_Inr_event:
  assumes "commit env ev hp e = (e', Inr ev')"
  shows "ev' = ev \<or> (\<exists>sq. ev' = stampCommit sq ev)"
  using assms by (auto simp: commit_def Let_def split: option.splits sum.splits)

text \<open>The effect of the event an observation commits on the live topology.\<close>

lemma spec_observed:
  assumes "ct \<in> {EntityCreated, EntityUnchanged, EntityStateChanged, EntityAttributeUpdated}"
    and "ev_Entity ev = Some ee" and "ee_ChangeType ee = ct" and "ee_Entity ee = ent"
  shows "tp_relations (spec_apply ev T) = tp_relations T"
    and "ct \<noteq> EntityUnchanged \<Longrightarrow> tp_entities (spec_apply ev T) = (tp_entities T)(ent_ID ent \<mapsto> ent)"
    and "ct = EntityUnchanged \<Longrightarrow> tp_entities T (ent_ID ent) \<noteq> None \<Longrightarrow> spec_apply ev T = T"
    and "tp_entities T i \<noteq> None \<Longrightarrow> tp_entities (spec_apply ev T) i \<noteq> None"
  using assms by (auto simp: spec_apply_def spec_entity_def Let_def)

lemma IdentityHash_observed [simp]:
  "IdentityHash (observedEntity obs i) = identityHashOf (eo_Type obs) (eo_Identity obs)"
  "ent_ID (observedEntity obs i) = i"
  by (simp_all add: observedEntity_def)

lemma observeEntity_commit:
  assumes s: "sound (env_ulid env) hid e" and u: "ulid_ok (env_ulid env)"
    and c: "classify env obs e = ((ct, i, changed, prev), e1)"
    and ee: "ee_ChangeType ee = ct" "ee_Entity ee = observedEntity obs i"
    and k: "commit env (entityEvent ee) False (e1\<lparr>e_ulids := Suc (e_ulids e1)\<rparr>) = (e2, res)"
  shows "(\<exists>hid'. sound (env_ulid env) hid' e2) \<and> (e_staged e2 = None) = (e_staged e = None) \<and>
    eview e2 = (case res of Inl _ \<Rightarrow> eview e | Inr _ \<Rightarrow> spec_apply (entityEvent ee) (eview e))"
proof -
  let ?e = "e1\<lparr>e_ulids := Suc (e_ulids e1)\<rparr>"
  have inv: "engine_inv (env_ulid env) hid e" and nd: "no_dangling (eview e)" using s by (simp_all add: sound_def)
  from classify_ok [OF inv u c] obtain hid' where inv1: "engine_inv (env_ulid env) hid' e1"
    and cl: "classified hid' e1 obs ct i" and i: "i \<in> env_ulid env ` {..<e_ulids e1}"
    and v1: "eview e1 = eview e" "e_staged e1 = e_staged e" by blast
  have inv2: "engine_inv (env_ulid env) hid' ?e" and v2: "eview ?e = eview e"
    using engine_inv_core [OF inv1, of ?e] v1 by simp_all
  have ct: "ct \<in> {EntityCreated, EntityUnchanged, EntityStateChanged, EntityAttributeUpdated}"
    using cl by (auto simp: classified_def split: if_splits)
  have ok: "ev_ok hid' (eview ?e) (entityEvent ee)"
    using cl ee v1 v2 ct by (auto simp: ev_ok_def classified_def Let_def split: if_splits)
  have ids: "event_ids (entityEvent ee) \<subseteq> env_ulid env ` {..<e_ulids ?e}"
    using i ee by (auto simp: event_ids_def)
  note C = commit_inv [OF inv2 ok ids k]
  have v: "eview e2 = (case res of Inl _ \<Rightarrow> eview e | Inr _ \<Rightarrow> spec_apply (entityEvent ee) (eview e))"
    using C(2) v2 by (simp split: sum.splits)
  have "no_dangling (spec_apply (entityEvent ee) (eview e))"
    using no_dangling_entities [OF nd spec_observed(1) spec_observed(4)] ct ee by simp
  with nd v C(1) have "sound (env_ulid env) hid' e2" by (auto simp: sound_def split: sum.splits)
  moreover have "(e_staged e2 = None) = (e_staged e = None)" using commit_stagedness [OF k] v1 by simp
  ultimately show ?thesis using v by blast
qed

lemma keeps_retryPending: "sound ulid hid e \<Longrightarrow> keeps ulid hid e (retryPending env obs e)"
  by (simp add: retryPending_def keeps_refl keeps_flushPending)

lemma observeEntity_sound:
  assumes g: "good (env_ulid env) e" and o: "observeEntityLocked env obs e = (e', res)"
  shows "good (env_ulid env) e' \<and> (e_staged e' = None) = (e_staged e = None) \<and>
    (\<exists>ct i changed prev e1 ee. classify env obs e = ((ct, i, changed, prev), e1) \<and> ee_ChangeType ee = ct \<and>
       ee_Entity ee = observedEntity obs i \<and>
       tp_entities (eview e') = (case res of Inl _ \<Rightarrow> tp_entities (eview e)
         | Inr _ \<Rightarrow> tp_entities (spec_apply (entityEvent ee) (eview e))))"
proof -
  obtain ct i changed prev e1 where c: "classify env obs e = ((ct, i, changed, prev), e1)" by (metis surj_pair)
  define ee where "ee = zeroEntityEvent\<lparr>ee_EventID := env_ulid env (e_ulids e1), ee_ChangeType := ct,
     ee_Entity := observedEntity obs i, ee_EventTime := eo_EventTime obs, ee_RecordedAt := env_now env,
     ee_SchemaVersion := SchemaVersion, ee_ChangedKeys := changed,
     ee_Scope := currentScope (e1\<lparr>e_ulids := Suc (e_ulids e1)\<rparr>)\<rparr>"
  obtain e2 r where k: "commit env (entityEvent ee) False (e1\<lparr>e_ulids := Suc (e_ulids e1)\<rparr>) = (e2, r)" by fastforce
  have eq: "(e', res) = (case r of Inl err \<Rightarrow> (e2, Inl err)
      | Inr ev \<Rightarrow> (retryPending env obs (trackDisplayName env i obs prev (referEntity env obs i e2)), Inr ev))"
    using o c k by (simp add: observeEntityLocked_def mint_def Let_def ee_def split: sum.splits)
  obtain hid where s: "sound (env_ulid env) hid e" and u: "ulid_ok (env_ulid env)" using g by (auto simp: good_def)
  have ee: "ee_ChangeType ee = ct" "ee_Entity ee = observedEntity obs i" by (simp_all add: ee_def)
  note O = observeEntity_commit [OF s u c ee k]
  from O obtain hid' where s2: "sound (env_ulid env) hid' e2" by (elim conjE exE)
  from O have st: "(e_staged e2 = None) = (e_staged e = None)" by (elim conjE)
  from O have v: "eview e2 = (case r of Inl _ \<Rightarrow> eview e | Inr _ \<Rightarrow> spec_apply (entityEvent ee) (eview e))"
    by (elim conjE)
  let ?t = "trackDisplayName env i obs prev (referEntity env obs i e2)"
  have kt: "keeps (env_ulid env) hid' e2 ?t" by (rule keeps_core [OF keeps_refl [OF s2]]) simp
  have kr: "keeps (env_ulid env) hid' e2 (retryPending env obs ?t)"
    using keeps_trans [OF kt keeps_retryPending] kt by (simp add: keeps_def)
  have "keeps (env_ulid env) hid' e2 e'"
    using eq kr keeps_refl [OF s2] by (cases r) simp_all
  then have "sound (env_ulid env) hid' e'" and v': "tp_entities (eview e') = tp_entities (eview e2)"
    and st': "(e_staged e' = None) = (e_staged e2 = None)" by (simp_all add: keeps_def)
  with u have "good (env_ulid env) e'" by (auto simp: good_def)
  moreover have "tp_entities (eview e') = (case res of Inl _ \<Rightarrow> tp_entities (eview e)
       | Inr _ \<Rightarrow> tp_entities (spec_apply (entityEvent ee) (eview e)))"
    using eq v' v by (cases r) simp_all
  moreover have "(e_staged e' = None) = (e_staged e = None)" using st st' by simp
  ultimately show ?thesis using c ee by blast
qed

section \<open>Deleting an entity\<close>

lemma spec_deleted:
  assumes "ee_ChangeType ee = EntityDeleted" and "ent_ID (ee_Entity ee) = i"
  shows "spec_apply (entityEvent ee) T = T\<lparr>tp_entities := (tp_entities T)(i := None)\<rparr>"
  using assms by (simp add: spec_apply_def spec_entity_def Let_def)

lemma dangling_at_delete: "no_dangling T \<Longrightarrow> dangling_at i (T\<lparr>tp_entities := (tp_entities T)(i := None)\<rparr>)"
  by (auto simp: no_dangling_def dangling_at_def)

text \<open>Commit a deletion, then remove the edges of the deleted node.\<close>

lemma delete_cascade:
  assumes s: "sound ulid hid e" and u: "ulid_ok ulid"
    and i: "tp_entities (eview e) i \<noteq> None"
    and ee: "ee_ChangeType ee = EntityDeleted" "ent_ID (ee_Entity ee) = i" "IdentityHash (ee_Entity ee) = hid i"
    and c: "commit env (entityEvent ee) False e = (e1, Inr ev)" and core: "ecore e2 = ecore e1"
    and r: "removeIncidentRelations env i t e2 = (e', n, err)"
  shows "engine_inv ulid hid e'" and "tp_entities (eview e') = (tp_entities (eview e))(i := None)"
    and "(e_staged e' = None) = (e_staged e = None)" and "e_staged e \<noteq> None \<Longrightarrow> err = None"
    and "err = None \<Longrightarrow> no_dangling (eview e')"
    and "err = None \<Longrightarrow> tp_relations (eview e') j = Some rel \<Longrightarrow> rel_From rel \<noteq> i \<and> rel_To rel \<noteq> i"
proof -
  have inv: "engine_inv ulid hid e" and nd: "no_dangling (eview e)" using s by (simp_all add: sound_def)
  have mem: "i \<in> ulid ` {..<e_ulids e}" using eview_ids [OF i] inv by (auto simp: engine_inv_def)
  then have ne: "i \<noteq> []" using u by (auto simp: ulid_ok_def)
  have ok: "ev_ok hid (eview e) (entityEvent ee)" using i ee by (simp add: ev_ok_def)
  have ids: "event_ids (entityEvent ee) \<subseteq> ulid ` {..<e_ulids e}" using mem ee by (simp add: event_ids_def)
  note C = commit_inv [OF inv ok ids c]
  have v1: "eview e1 = (eview e)\<lparr>tp_entities := (tp_entities (eview e))(i := None)\<rparr>"
    using C(2) by (simp add: spec_deleted [OF ee(1,2)])
  have st1: "(e_staged e1 = None) = (e_staged e = None)" by (rule commit_stagedness [OF c])
  note E = ecore_sound [OF core]
  have inv2: "engine_inv ulid hid e2" using C(1) E(3) by blast
  have st2: "(e_staged e2 = None) = (e_staged e = None)" using core st1 by (simp add: ecore_def)
  have d2: "dangling_at i (eview e2)" unfolding E(2) v1 by (rule dangling_at_delete [OF nd])
  note R = removeIncident_inv [OF inv2 d2 ne r]
  show "engine_inv ulid hid e'" by (rule R(1))
  show "tp_entities (eview e') = (tp_entities (eview e))(i := None)" using R(2) E(2) v1 by simp
  show "(e_staged e' = None) = (e_staged e = None)" using R(3) st2 by simp
  show "e_staged e \<noteq> None \<Longrightarrow> err = None" using R(4) st2 by simp
  show "err = None \<Longrightarrow> no_dangling (eview e')" by (rule R(5))
  show "err = None \<Longrightarrow> tp_relations (eview e') j = Some rel \<Longrightarrow> rel_From rel \<noteq> i \<and> rel_To rel \<noteq> i"
    by (rule R(6))
qed

lemma commit_failed: "commit env ev hp e = (e', Inl err) \<Longrightarrow> e' = e \<and> e_staged e = None"
  by (auto simp: commit_def Let_def split: option.splits sum.splits)

lemma commitDelete_cases:
  assumes "commitDelete env obs i e0 = (e', r, err)"
  obtains
    (failed) err0 where "e' = e0\<lparr>e_ulids := Suc (e_ulids e0)\<rparr>" "r = None" "err = Some err0"
  | (deleted) ee e2 ev n where
      "ee_ChangeType ee = EntityDeleted" "ee_Entity ee = observedEntity obs i" "ee_DeleteSource ee = DeleteSourceProducer"
      "commit env (entityEvent ee) False (e0\<lparr>e_ulids := Suc (e_ulids e0)\<rparr>) = (e2, Inr ev)"
      "removeIncidentRelations env i (eo_EventTime obs) (e2\<lparr>e_contested := gdel i (e_contested e2)\<rparr>) = (e', n, err)"
      "r = Some ev"
proof -
  define ee where "ee = zeroEntityEvent\<lparr>ee_EventID := env_ulid env (e_ulids e0), ee_ChangeType := EntityDeleted,
           ee_Entity := observedEntity obs i, ee_EventTime := eo_EventTime obs,
           ee_RecordedAt := env_now env, ee_SchemaVersion := SchemaVersion,
           ee_DeleteReason := eo_DeleteReason obs, ee_DeleteSource := DeleteSourceProducer,
           ee_Scope := currentScope (e0\<lparr>e_ulids := Suc (e_ulids e0)\<rparr>)\<rparr>"
  obtain e2 res where c: "commit env (entityEvent ee) False (e0\<lparr>e_ulids := Suc (e_ulids e0)\<rparr>) = (e2, res)" by fastforce
  show thesis
  proof (cases res)
    case (Inl err0)
    with assms c have "e' = e2" "r = None" "err = Some err0" by (simp_all add: commitDelete_def mint_def ee_def)
    with commit_failed [of env "entityEvent ee" False _ e2 err0] c Inl failed show thesis by blast
  next
    case (Inr ev)
    obtain e3 n rerr where ri: "removeIncidentRelations env i (eo_EventTime obs)
        (e2\<lparr>e_contested := gdel i (e_contested e2)\<rparr>) = (e3, n, rerr)" by (metis prod_cases3)
    with assms c Inr have "e3 = e'" "r = Some ev" "rerr = err" by (simp_all add: commitDelete_def mint_def ee_def)
    moreover have "ee_ChangeType ee = EntityDeleted" "ee_Entity ee = observedEntity obs i"
      "ee_DeleteSource ee = DeleteSourceProducer" by (simp_all add: ee_def)
    ultimately show thesis using deleted [OF _ _ _ c [unfolded Inr]] ri by blast
  qed
qed

text \<open>The paths of a deletion: nothing to delete, still held, or no speaker left.\<close>

lemma deleteEntity_cases:
  assumes "deleteEntityLocked env obs e = (e', r, err)"
  obtains
    (missing) "matchIdentity e (eo_Type obs) (eo_Identity obs) = None" "e' = e" "r = None" "err = None"
  | (held) i sp where "matchIdentity e (eo_Type obs) (eo_Identity obs) = Some i" "map_of (e_refs e) i = Some sp"
      "fst (releaseSpeaker sp (eo_Producer obs) (currentScope e)) \<noteq> []"
      "e' = e\<lparr>e_refs := gput i (fst (releaseSpeaker sp (eo_Producer obs) (currentScope e))) (e_refs e)\<rparr>"
      "r = None" "err = None"
  | (released) i e0 where "matchIdentity e (eo_Type obs) (eo_Identity obs) = Some i"
      "\<And>sp. map_of (e_refs e) i = Some sp \<Longrightarrow> fst (releaseSpeaker sp (eo_Producer obs) (currentScope e)) = []"
      "e0 = (case map_of (e_refs e) i of None \<Rightarrow> e | Some _ \<Rightarrow> e\<lparr>e_refs := gdel i (e_refs e)\<rparr>)"
      "commitDelete env obs i e0 = (e', r, err)"
proof (cases "matchIdentity e (eo_Type obs) (eo_Identity obs)")
  case None
  with missing assms show thesis by (simp add: deleteEntityLocked_def)
next
  case m: (Some i)
  show thesis
  proof (cases "map_of (e_refs e) i")
    case None
    with released [OF m] assms m show thesis by (simp add: deleteEntityLocked_def)
  next
    case (Some sp)
    show thesis
    proof (cases "fst (releaseSpeaker sp (eo_Producer obs) (currentScope e)) = []")
      case True
      with released [OF m] assms m Some show thesis by (simp add: deleteEntityLocked_def Let_def)
    next
      case False
      with assms m Some show thesis by (intro held) (auto simp: deleteEntityLocked_def Let_def)
    qed
  qed
qed

lemma matchIdentity_core:
  "e_graph e' = e_graph e \<Longrightarrow> e_staged e' = e_staged e \<Longrightarrow> matchIdentity e' t k = matchIdentity e t k"
  unfolding matchIdentity_def by (simp only:)

lemma good_core: "ecore e' = ecore e \<Longrightarrow> good ulid e' = good ulid e"
  using ecore_sound(1) [of e' e] by (simp add: good_def)

lemma good_ulids: "good ulid e \<Longrightarrow> good ulid (e\<lparr>e_ulids := Suc (e_ulids e)\<rparr>)"
  using engine_inv_core [of ulid _ e "e\<lparr>e_ulids := Suc (e_ulids e)\<rparr>"]
  by (auto simp: good_def sound_def)

lemma deleteEntity_sound:
  assumes g: "good (env_ulid env) e" and o: "deleteEntityLocked env obs e = (e', r, err)"
  shows "(e_staged e' = None) = (e_staged e = None)"
    and "err = None \<or> r = None \<or> e_staged e \<noteq> None \<Longrightarrow> good (env_ulid env) e'"
    and "r \<noteq> None \<Longrightarrow> \<exists>i. matchIdentity e (eo_Type obs) (eo_Identity obs) = Some i \<and>
      tp_entities (eview e') = (tp_entities (eview e))(i := None) \<and>
      (err = None \<longrightarrow> (\<forall>j rel. tp_relations (eview e') j = Some rel \<longrightarrow> rel_From rel \<noteq> i \<and> rel_To rel \<noteq> i))"
    and "r = None \<Longrightarrow> eview e' = eview e"
proof -
  have "(e_staged e' = None) = (e_staged e = None) \<and> (err = None \<or> r = None \<or> e_staged e \<noteq> None \<longrightarrow> good (env_ulid env) e') \<and>
    (r \<noteq> None \<longrightarrow> (\<exists>i. matchIdentity e (eo_Type obs) (eo_Identity obs) = Some i \<and>
      tp_entities (eview e') = (tp_entities (eview e))(i := None) \<and>
      (err = None \<longrightarrow> (\<forall>j rel. tp_relations (eview e') j = Some rel \<longrightarrow> rel_From rel \<noteq> i \<and> rel_To rel \<noteq> i)))) \<and>
    (r = None \<longrightarrow> eview e' = eview e)"
    using o
  proof (cases rule: deleteEntity_cases)
    case missing
    with g show ?thesis by simp
  next
    case (held i sp)
    then have core: "ecore e' = ecore e" by simp
    then have "e_staged e' = e_staged e" by (simp add: ecore_def)
    with held(5,6) good_core [OF core] ecore_sound(2) [OF core] g show ?thesis by simp
  next
    case (released i e0)
    have core: "ecore e0 = ecore e" using released(3) by (simp split: option.splits)
    note E = ecore_sound [OF core]
    let ?e = "e0\<lparr>e_ulids := Suc (e_ulids e0)\<rparr>"
    have g1: "good (env_ulid env) ?e" using good_ulids [of _ e0] good_core [OF core] g by simp
    have v1: "eview ?e = eview e" using E(2) by (simp add: eview_def split: option.splits)
    have st1: "e_staged ?e = e_staged e" using core by (simp add: ecore_def)
    from released(4) show ?thesis
    proof (cases rule: commitDelete_cases)
      case (failed err0)
      with g1 v1 st1 show ?thesis by simp
    next
      case (deleted ee e2 ev n)
      obtain hid where s: "sound (env_ulid env) hid ?e" and u: "ulid_ok (env_ulid env)" using g1 by (auto simp: good_def)
      have inv: "engine_inv (env_ulid env) hid ?e" using s by (simp add: sound_def)
      have m: "matchIdentity ?e (eo_Type obs) (eo_Identity obs) = Some i"
        using released(1) matchIdentity_core [of ?e e] core by (simp add: ecore_def)
      from m have i: "tp_entities (eview ?e) i \<noteq> None" and h: "hid i = identityHashOf (eo_Type obs) (eo_Identity obs)"
        unfolding matchIdentity_iff [OF inv] by auto
      note D = delete_cascade [OF s u i deleted(1) _ _ deleted(4) _ deleted(5)]
      have "good (env_ulid env) e'" if "err = None \<or> e_staged e \<noteq> None"
        using D(1,4,5) deleted(2) h u st1 that by (auto simp: good_def sound_def)
      moreover have "(e_staged e' = None) = (e_staged e = None)" using D(3) deleted(2) h st1 by simp
      moreover have "tp_entities (eview e') = (tp_entities (eview e))(i := None)" using D(2) deleted(2) h v1 by simp
      moreover have "err = None \<longrightarrow> (\<forall>j rel. tp_relations (eview e') j = Some rel \<longrightarrow> rel_From rel \<noteq> i \<and> rel_To rel \<noteq> i)"
        using D(6) deleted(2) h by simp
      ultimately show ?thesis using deleted(6) released(1) by simp
    qed
  qed
  then show "(e_staged e' = None) = (e_staged e = None)"
    and "err = None \<or> r = None \<or> e_staged e \<noteq> None \<Longrightarrow> good (env_ulid env) e'"
    and "r \<noteq> None \<Longrightarrow> \<exists>i. matchIdentity e (eo_Type obs) (eo_Identity obs) = Some i \<and>
      tp_entities (eview e') = (tp_entities (eview e))(i := None) \<and>
      (err = None \<longrightarrow> (\<forall>j rel. tp_relations (eview e') j = Some rel \<longrightarrow> rel_From rel \<noteq> i \<and> rel_To rel \<noteq> i))"
    and "r = None \<Longrightarrow> eview e' = eview e" by blast+
qed

end
