(* ===== verification/Change_Books.thy ===== *)
theory Change_Books
  imports Change_Entities
begin

text \<open>
  The bookkeeping of the engine beside the projection: the reference counts of entities and
  edges, the alias index, the buffer of out-of-order edges and the contested names.  \<open>books\<close>
  is its invariant: the maps are maps, no entity reference carries an interval above the
  plausible promise, the alias index is consistent, the buffer and the name history are
  within their bounds and every parked edge can be found by the identities it waits for.
\<close>

section \<open>Definitions\<close>

definition refs_ok :: "(string, speakers) gomap \<Rightarrow> bool" where
  "refs_ok m = (gdistinct m \<and> (\<forall>i sp. map_of m i = Some sp \<longrightarrow> gdistinct sp))"

definition promises_ok :: "(string, speakers) gomap \<Rightarrow> bool" where
  "promises_ok m = (\<forall>i sp k r. map_of m i = Some sp \<longrightarrow> map_of sp k = Some r \<longrightarrow>
     lr_interval r \<le> maxPlausibleLivenessPromise)"

definition names_ok :: "contestedNames \<Rightarrow> bool" where
  "names_ok c = (gdistinct (cn_values c) \<and> length (cn_values c) \<le> maxContestedDisplayNames \<and>
     (ghas (cn_values c) (cn_last c) \<or> length (cn_values c) < maxContestedDisplayNames) \<and>
     (\<forall>v. ghas (cn_values c) v \<longrightarrow> v \<noteq> []))"

definition contested_ok :: "(EntityID, contestedNames) gomap \<Rightarrow> bool" where
  "contested_ok m = (gdistinct m \<and> (\<forall>i c. map_of m i = Some c \<longrightarrow> names_ok c))"

definition parked_ok :: "'a Engine \<Rightarrow> bool" where
  "parked_ok e = (length (e_pending e) \<le> maxPendingRelations \<and>
     (\<forall>p \<in> set (e_pending e). ghas (e_pendingHashes e) (endpointHash (ro_From (pr_obs p))) \<and>
        ghas (e_pendingHashes e) (endpointHash (ro_To (pr_obs p)))))"

definition books :: "'a Engine \<Rightarrow> bool" where
  "books e = (refs_ok (e_refs e) \<and> promises_ok (e_refs e) \<and> refs_ok (e_relRefs e) \<and>
     alias_wf (e_aliases e) \<and> contested_ok (e_contested e) \<and> parked_ok e)"

definition bk :: "'a Engine \<Rightarrow> (EntityID, speakers) gomap \<times> (RelationID, speakers) gomap \<times> identityAliasIndex
    \<times> (EntityID, contestedNames) gomap \<times> pendingRelation list \<times> string goset" where
  "bk e = (e_refs e, e_relRefs e, e_aliases e, e_contested e, e_pending e, e_pendingHashes e)"

section \<open>Reference maps\<close>

lemma refs_ok_gput [intro]: "refs_ok m \<Longrightarrow> gdistinct sp \<Longrightarrow> refs_ok (gput i sp m)"
  by (auto simp: refs_ok_def split: if_splits)

lemma refs_ok_gdel [intro]: "refs_ok m \<Longrightarrow> refs_ok (gdel i m)"
  by (auto simp: refs_ok_def split: if_splits)

lemma refs_ok_get [intro]: "refs_ok m \<Longrightarrow> gdistinct (gget [] m i)"
  by (auto simp: refs_ok_def gget_def split: option.splits)

lemma promises_ok_gput [intro]:
  "promises_ok m \<Longrightarrow> (\<And>k r. map_of sp k = Some r \<Longrightarrow> lr_interval r \<le> maxPlausibleLivenessPromise) \<Longrightarrow>
     promises_ok (gput i sp m)"
  by (auto simp: promises_ok_def split: if_splits)

lemma promises_ok_gdel [intro]: "promises_ok m \<Longrightarrow> promises_ok (gdel i m)"
  by (auto simp: promises_ok_def split: if_splits)

lemma promises_ok_get:
  "promises_ok m \<Longrightarrow> map_of (gget [] m i) k = Some r \<Longrightarrow> lr_interval r \<le> maxPlausibleLivenessPromise"
  by (auto simp: promises_ok_def gget_def split: option.splits)

lemma promise_snd: "snd (promise i t p d e) \<le> maxPlausibleLivenessPromise"
  by (simp add: promise_def Let_def maxPlausibleLivenessPromise_def)

section \<open>Operations that leave the books alone\<close>

lemma books_bk: "bk e' = bk e \<Longrightarrow> books e' = books e"
  by (simp add: books_def bk_def parked_ok_def)

lemma bk_updates [simp]:
  "bk (e\<lparr>e_graph := a\<rparr>) = bk e" "bk (e\<lparr>e_appender := b\<rparr>) = bk e" "bk (e\<lparr>e_staged := c\<rparr>) = bk e"
  "bk (e\<lparr>e_ulids := d\<rparr>) = bk e" "bk (e\<lparr>e_delivered := f\<rparr>) = bk e" "bk (e\<lparr>e_reports := h\<rparr>) = bk e"
  "bk (e\<lparr>e_badPromises := k\<rparr>) = bk e" "bk (e\<lparr>e_rolledBack := l\<rparr>) = bk e" "bk (e\<lparr>e_subs := s\<rparr>) = bk e"
  by (simp_all add: bk_def)

lemma bk_promise [simp]: "bk (fst (promise i t p d e)) = bk e"
  by (simp add: promise_def Let_def)

lemma bk_notify [simp]: "bk (notify ev hp e) = bk e"
  by (simp add: notify_def)

lemma bk_commit: "commit env ev hp e = (e', res) \<Longrightarrow> bk e' = bk e"
  by (auto simp: commit_def Let_def split: option.splits sum.splits)

lemma bk_applyNotify [simp]: "bk (applyNotify env se e) = bk e"
  by (simp add: applyNotify_def split: prod.splits)

lemma bk_apply_fold [simp]: "bk (fold (applyNotify env) ses e) = bk e"
  by (induction ses arbitrary: e) simp_all

lemma bk_flushStaged: "flushStaged env st e = (e', err) \<Longrightarrow> bk e' = bk e"
  by (auto simp: flushStaged_def Let_def split: if_splits sum.splits)

lemma bk_reportDiscard [simp]: "bk (reportDiscard obs e) = bk e"
  by (simp add: reportDiscard_def)

lemma bk_dropPending [simp]: "bk (dropPendingRelation obs e) = bk e"
  by (simp add: dropPendingRelation_def)

lemma bk_setCurrentScope [simp]: "bk (setCurrentScope sc e) = bk e"
  by (simp add: setCurrentScope_def split: option.splits)

lemma bk_relationEvent: "relationEvent env ct rel t src e = (ev, e') \<Longrightarrow> bk e' = bk e"
  by (auto simp: relationEvent_eq)

section \<open>Parking\<close>

lemma pendingHashes_cover:
  assumes "p \<in> set ps"
  shows "ghas (pendingHashesOf al ps) (endpointHash (ro_From (pr_obs p)))"
    and "ghas (pendingHashesOf al ps) (endpointHash (ro_To (pr_obs p)))"
proof -
  define f where "f = (\<lambda>m ref. let m = gadd (endpointHash ref) m
        in case substituteAliases al (ep_Identity ref) of
             Some sub \<Rightarrow> gadd (identityHashOf (ep_Type ref) sub) m | None \<Rightarrow> m)"
  have step: "ghas m h \<Longrightarrow> ghas (f m ref) h" "ghas (f m ref) (endpointHash ref)" for m h ref
    by (auto simp: f_def Let_def split: option.splits)
  have mono: "ghas m h \<Longrightarrow> ghas (foldl f m refs) h" for m h refs
    by (induction refs arbitrary: m) (auto simp: step)
  have mem: "ref \<in> set refs \<Longrightarrow> ghas (foldl f m refs) (endpointHash ref)" for m ref refs
    by (induction refs arbitrary: m) (auto simp: step intro: mono)
  show "ghas (pendingHashesOf al ps) (endpointHash (ro_From (pr_obs p)))"
    and "ghas (pendingHashesOf al ps) (endpointHash (ro_To (pr_obs p)))"
    unfolding pendingHashesOf_def f_def [symmetric] by (rule mem; use assms in force)+
qed

lemma rebuild_fields [simp]:
  "e_refs (rebuildPendingHashes e) = e_refs e" "e_relRefs (rebuildPendingHashes e) = e_relRefs e"
  "e_aliases (rebuildPendingHashes e) = e_aliases e" "e_contested (rebuildPendingHashes e) = e_contested e"
  "e_pending (rebuildPendingHashes e) = e_pending e"
  by (simp_all add: rebuildPendingHashes_def)

lemma books_rebuild:
  assumes "books e" and "length ps \<le> maxPendingRelations"
  shows "books (rebuildPendingHashes (e\<lparr>e_pending := ps\<rparr>))"
  using assms pendingHashes_cover [of _ ps "e_aliases e"]
  by (simp add: books_def parked_ok_def) (simp add: rebuildPendingHashes_def)

section \<open>Relations\<close>

lemma books_referRelation:
  assumes "books e"
  shows "books (referRelation env obs from i e)"
proof -
  let ?refs = "gget [] (e_relRefs e) i"
  let ?e1 = "e\<lparr>e_relRefs := gput i ?refs (e_relRefs e)\<rparr>"
  let ?p = "promise [] (ro_Type obs) (ro_Producer obs) (ro_Interval obs) ?e1"
  have d: "gdistinct ?refs" and ok: "refs_ok (e_relRefs e)" using assms by (auto simp: books_def)
  have ok1: "refs_ok (gput i (gput k ref ?refs) (gput i ?refs (e_relRefs e)))" for k ref
    by (intro refs_ok_gput ok d gdistinct_gput)
  have p: "bk (fst ?p) = bk ?e1" by simp
  then have rel: "e_relRefs (fst ?p) = gput i ?refs (e_relRefs e)" and f: "e_refs (fst ?p) = e_refs e"
    "e_aliases (fst ?p) = e_aliases e" "e_contested (fst ?p) = e_contested e" "e_pending (fst ?p) = e_pending e"
    "e_pendingHashes (fst ?p) = e_pendingHashes e" by (simp_all add: bk_def)
  show ?thesis
    using assms ok1 by (simp add: referRelation_def Let_def case_prod_beta books_def parked_ok_def rel f)
qed

lemma bk_observeTail:
  assumes "resolveEndpoints e (ro_From obs) (ro_To obs) = Inr (from, to)"
    and "observeRelationLocked env obs e = (e', ev, err)"
  shows "bk e' = bk (referRelation env obs from (ComputeRelationID (ro_Type obs) from to) e)"
proof -
  let ?e = "referRelation env obs from (ComputeRelationID (ro_Type obs) from to) e"
  consider "e' = ?e"
    | ct rel ev1 e1 hp res where "relationEvent env ct rel (ro_EventTime obs) DeleteSourceUnknown ?e = (ev1, e1)"
        "commit env ev1 hp e1 = (e', res)"
    using assms
    by (force simp: observeRelationLocked_def Let_def split: option.splits prod.splits sum.splits if_splits)
  then show ?thesis
    by cases (auto dest!: bk_commit bk_relationEvent)
qed

lemma books_observeRelationLocked:
  assumes "books e"
  shows "books (fst (observeRelationLocked env obs e))"
proof (cases "resolveEndpoints e (ro_From obs) (ro_To obs)")
  case (Inl a)
  with assms show ?thesis by (simp add: observeRelationLocked_def)
next
  case (Inr p)
  obtain i j where p: "p = (i, j)" by (cases p)
  obtain e' ev err where o: "observeRelationLocked env obs e = (e', ev, err)" by (metis prod_cases3)
  from books_bk [OF bk_observeTail [OF Inr [unfolded p] o]] books_referRelation [OF assms] o
  show ?thesis by simp
qed

lemma observe_pending:
  "e_pending (fst (observeRelationLocked env obs e)) = e_pending e"
proof (cases "resolveEndpoints e (ro_From obs) (ro_To obs)")
  case (Inl a)
  then show ?thesis by (simp add: observeRelationLocked_def)
next
  case (Inr p)
  obtain i j where p: "p = (i, j)" by (cases p)
  obtain e' ev err where o: "observeRelationLocked env obs e = (e', ev, err)" by (metis prod_cases3)
  have "e_pending (fst (promise a b c d e1)) = e_pending e1" for a b c d and e1 :: "'a Engine"
    using bk_promise [of a b c d e1] by (simp add: bk_def del: bk_promise)
  then have "e_pending (referRelation env obs i (ComputeRelationID (ro_Type obs) i j) e) = e_pending e"
    by (simp add: referRelation_def Let_def case_prod_beta)
  with bk_observeTail [OF Inr [unfolded p] o] o show ?thesis by (simp add: bk_def)
qed

lemma books_flushOne: "books e \<Longrightarrow> books (fst (flushOne env p (e, kept)))"
proof -
  assume b: "books e"
  obtain e2 ev err where o: "observeRelationLocked env (pr_obs p) (setCurrentScope (pr_scope p) e) = (e2, ev, err)"
    by (metis prod_cases3)
  have "books (setCurrentScope (pr_scope p) e)" using b books_bk [OF bk_setCurrentScope] by blast
  from books_observeRelationLocked [OF this, of env "pr_obs p"] o have "books e2" by simp
  then have b3: "books (setCurrentScope sc e2)" for sc using books_bk [OF bk_setCurrentScope] by blast
  then have b4: "books (dropPendingRelation obs (setCurrentScope sc e2))" for sc obs
    using books_bk [OF bk_dropPending] by blast
  have "books (dropPendingRelation (pr_obs p) e)" using b books_bk [OF bk_dropPending] by blast
  with o b3 b4 show ?thesis by (simp add: flushOne_def Let_def)
qed

lemma flushOne_kept: "length (snd (flushOne env p (e, kept))) \<le> Suc (length kept)"
  by (simp add: flushOne_def Let_def split: prod.splits)

lemma books_flushFold:
  "books e \<Longrightarrow> books (fst (fold (flushOne env) ps (e, kept))) \<and>
     length (snd (fold (flushOne env) ps (e, kept))) \<le> length ps + length kept"
proof (induction ps arbitrary: e kept)
  case (Cons p ps)
  obtain e1 kept1 where f: "flushOne env p (e, kept) = (e1, kept1)" by fastforce
  have "books e1" "length kept1 \<le> Suc (length kept)"
    using books_flushOne [OF Cons.prems, of env p kept] flushOne_kept [of env p e kept] f by simp_all
  with Cons.IH [of e1 kept1] f show ?case by simp
qed simp

lemma books_flushPending:
  assumes "books e"
  shows "books (flushPending env e)"
proof (cases "e_pending e = []")
  case False
  obtain e1 kept where f: "fold (flushOne env) (e_pending e) (e, []) = (e1, kept)" by fastforce
  have "length (e_pending e) \<le> maxPendingRelations" using assms by (simp add: books_def parked_ok_def)
  with books_flushFold [OF assms, of env "e_pending e" "[]"] f have "books e1" "length kept \<le> maxPendingRelations"
    by simp_all
  with books_rebuild False f show ?thesis by (simp add: flushPending_def)
qed (use assms in \<open>simp add: flushPending_def\<close>)

lemma books_aliases:
  assumes "books e" and "alias_wf al"
  shows "books (e\<lparr>e_aliases := al\<rparr>)"
  using assms by (simp add: books_def parked_ok_def)

lemma books_recordAlias: "books e \<Longrightarrow> books (recordAliasLocked env obs e)"
proof -
  assume b: "books e"
  have al: "books (e\<lparr>e_aliases := aliases\<rparr>)" if "alias_record claim k ref (e_aliases e) = (aliases, n, c)"
    for claim k ref aliases n c
    using alias_wf_record [of "e_aliases e" claim k ref] b that by (intro books_aliases) (simp_all add: books_def)
  have rep: "books (e1\<lparr>e_reports := r\<rparr>)" if "books e1" for e1 :: "'a Engine" and r
    using that books_bk [OF bk_updates(6)] by blast
  have fl: "books (flushPending env (rebuildPendingHashes e1))" if "books e1" for e1
  proof -
    have "length (e_pending e1) \<le> maxPendingRelations" using that by (simp add: books_def parked_ok_def)
    from books_rebuild [OF that this] have "books (rebuildPendingHashes e1)" by simp
    then show ?thesis by (rule books_flushPending)
  qed
  show ?thesis
    unfolding recordAliasLocked_def Let_def
    by (auto split: option.splits prod.splits intro!: b fl rep intro: al)
qed

lemma books_park:
  assumes "books e"
  shows "books (parkRelation env obs e)"
proof -
  define e1 where "e1 = (if length (e_pending e) \<ge> maxPendingRelations
      then reportDiscard (pr_obs (hd (e_pending e))) (e\<lparr>e_pending := tl (e_pending e)\<rparr>) else e)"
  have le: "length (e_pending e) \<le> maxPendingRelations" using assms by (simp add: books_def parked_ok_def)
  have tl: "books (e\<lparr>e_pending := tl (e_pending e)\<rparr>)"
    using assms by (cases "e_pending e") (simp_all add: books_def parked_ok_def)
  have b1: "books e1"
    using assms tl books_bk [OF bk_reportDiscard] by (auto simp: e1_def)
  have "e_pending (reportDiscard o1 e2) = e_pending e2" for o1 and e2 :: "'a Engine"
    by (simp add: reportDiscard_def)
  then have "length (e_pending e1) < maxPendingRelations"
    using le by (auto simp: e1_def maxPendingRelations_def)
  with books_rebuild [OF b1, of "e_pending e1 @ [x]" for x] show ?thesis
    by (simp add: parkRelation_def Let_def e1_def [symmetric])
qed

lemma books_buffered: "books e \<Longrightarrow> books (fst (observeRelationBuffered env obs e))"
proof -
  assume b: "books e"
  let ?e = "if ro_Type obs = RelSameAs then recordAliasLocked env obs e else e"
  obtain e1 ev err where o: "observeRelationLocked env obs ?e = (e1, ev, err)" by (metis prod_cases3)
  have "books ?e" using b books_recordAlias by auto
  from books_observeRelationLocked [OF this, of env obs] o have b1: "books e1" by simp
  then have "books (dropPendingRelation obs e1)" using books_bk [OF bk_dropPending] by blast
  with o b1 books_park [OF b1] show ?thesis by (simp add: observeRelationBuffered_def Let_def)
qed

lemma books_relRefs: "books e \<Longrightarrow> refs_ok m \<Longrightarrow> books (e\<lparr>e_relRefs := m\<rparr>)"
  by (simp add: books_def parked_ok_def)

lemma books_refs: "books e \<Longrightarrow> refs_ok m \<Longrightarrow> promises_ok m \<Longrightarrow> books (e\<lparr>e_refs := m\<rparr>)"
  by (simp add: books_def parked_ok_def)

lemma books_contested: "books e \<Longrightarrow> contested_ok m \<Longrightarrow> books (e\<lparr>e_contested := m\<rparr>)"
  by (simp add: books_def parked_ok_def)

lemma books_removeRelation:
  assumes b: "books e"
  shows "books (fst (removeRelationLocked env obs e))"
proof (cases "resolveEndpoints e (ro_From obs) (ro_To obs)")
  case (Inl a)
  with b show ?thesis by (simp add: removeRelationLocked_def)
next
  case (Inr p)
  obtain i j where p: "p = (i, j)" by (cases p)
  let ?k = "ComputeRelationID (ro_Type obs) i j"
  have r: "refs_ok (e_relRefs e)" using b by (simp add: books_def)
  have last: "books (fst (case getRelation e0 ?k of None \<Rightarrow> (e0, None, None)
        | Some existing \<Rightarrow> let (ev, e) = relationEvent env RelationRemoved existing (ro_EventTime obs) DeleteSourceProducer e0
             in case commit env ev (rel_Structural existing) e of
                  (e, Inl err) \<Rightarrow> (e, None, Some err) | (e, Inr ev) \<Rightarrow> (e, Some ev, None)))" if "books e0" for e0
  proof (cases "getRelation e0 ?k")
    case (Some existing)
    obtain ev e1 where re: "relationEvent env RelationRemoved existing (ro_EventTime obs) DeleteSourceProducer e0 = (ev, e1)"
      by fastforce
    obtain e2 res where cm: "commit env ev (rel_Structural existing) e1 = (e2, res)" by fastforce
    have "books e2" using books_bk [of e2 e0] bk_commit [OF cm] bk_relationEvent [OF re] that by simp
    with Some re cm show ?thesis by (simp split: sum.splits)
  qed (use that in simp)
  show ?thesis
  proof (cases "map_of (e_relRefs e) ?k")
    case None
    with last [OF b] Inr p show ?thesis by (simp add: removeRelationLocked_def Let_def)
  next
    case (Some refs)
    have "gdistinct refs" using r Some by (auto simp: refs_ok_def)
    then have put: "books (e\<lparr>e_relRefs := gput ?k (fst (releaseSpeaker refs (ro_Producer obs) (currentScope e))) (e_relRefs e)\<rparr>)"
      using b r by (intro books_relRefs refs_ok_gput) simp_all
    have del: "books (e\<lparr>e_relRefs := gdel ?k (e_relRefs e)\<rparr>)" using b r by (intro books_relRefs refs_ok_gdel)
    show ?thesis
      using Inr p Some put last [OF del] by (simp add: removeRelationLocked_def Let_def split del: if_split split: if_splits)
  qed
qed

lemma books_removeOne: "books e \<Longrightarrow> books (fst (removeOne env when rel (e, n, errs)))"
proof -
  assume b: "books e"
  obtain ev e1 where re: "relationEvent env RelationRemoved rel when DeleteSourceCascade e = (ev, e1)" by fastforce
  obtain e2 res where cm: "commit env ev (rel_Structural rel) e1 = (e2, res)" by fastforce
  have b2: "books e2" using books_bk [of e2 e] bk_commit [OF cm] bk_relationEvent [OF re] b by simp
  then have "books (e2\<lparr>e_relRefs := gdel (rel_ID rel) (e_relRefs e2)\<rparr>)"
    by (intro books_relRefs refs_ok_gdel) (simp_all add: books_def)
  with b2 re cm show ?thesis by (cases res) (simp_all add: removeOne_def)
qed

lemma books_removeIncident: "books e \<Longrightarrow> books (fst (removeIncidentRelations env i when e))"
proof -
  assume b: "books e"
  have "books (fst (fold (removeOne env when) rels (e, n, errs)))" for rels n errs
    using b
  proof (induction rels arbitrary: e n errs)
    case (Cons rel rels)
    obtain e1 n1 errs1 where f: "removeOne env when rel (e, n, errs) = (e1, n1, errs1)" by (metis prod_cases3)
    with Cons.IH [of e1 n1 errs1] books_removeOne [OF Cons.prems, of env "when" rel n errs] show ?case by simp
  qed simp
  then show ?thesis by (simp add: removeIncidentRelations_def case_prod_beta)
qed

section \<open>Entities\<close>

lemma books_referEntity:
  assumes "books e"
  shows "books (referEntity env obs i e)"
proof -
  let ?p = "promise i (eo_Type obs) (eo_Producer obs) (eo_Interval obs) e"
  let ?sp = "gget [] (e_refs e) i"
  have b: "books (fst ?p)" using assms books_bk [OF bk_promise] by blast
  have ef: "e_refs (fst ?p) = e_refs e" using bk_promise [of i _ _ _ e] by (simp add: bk_def del: bk_promise)
  have ok: "refs_ok (e_refs e)" "promises_ok (e_refs e)" using assms by (simp_all add: books_def)
  have "refs_ok (gput i (gput k ref ?sp) (e_refs e))" for k ref using ok by (intro refs_ok_gput gdistinct_gput) auto
  moreover have "promises_ok (gput i (gput k ref ?sp) (e_refs e))" if "lr_interval ref \<le> maxPlausibleLivenessPromise" for k ref
    using ok that promises_ok_get [OF ok(2), of i] by (intro promises_ok_gput) (auto split: if_splits)
  moreover have "lr_interval (if snd ?p > 0 then \<lparr>lr_deadline = d, lr_interval = snd ?p, lr_legacy = False\<rparr> else zeroRef)
      \<le> maxPlausibleLivenessPromise" for d
    using promise_snd [of i "eo_Type obs" "eo_Producer obs" "eo_Interval obs" e]
    by (simp add: zeroRef_def maxPlausibleLivenessPromise_def)
  ultimately show ?thesis
    unfolding referEntity_def Let_def case_prod_beta ef by (intro books_refs [OF b]) blast+
qed

lemma oldest_fold:
  "oldest \<noteq> [] \<or> vs \<noteq> [] \<Longrightarrow> \<forall>v \<in> fst ` set vs. v \<noteq> [] \<Longrightarrow>
   fst (foldl (\<lambda>(oldestValue, oldestAt) (v, seenAt).
       if oldestValue = [] \<or> seenAt < oldestAt then (v, seenAt) else (oldestValue, oldestAt)) (oldest, since) vs)
     \<in> insert oldest (fst ` set vs) - {[]}"
proof (induction vs arbitrary: oldest since)
  case (Cons v vs)
  show ?case
  proof (cases "oldest = [] \<or> snd v < since")
    case True
    have "fst v \<noteq> []" using Cons.prems by simp
    with Cons.IH [of "fst v" "snd v"] Cons.prems True show ?thesis by (auto simp: case_prod_beta)
  next
    case False
    with Cons.IH [of oldest since] Cons.prems show ?thesis by (auto simp: case_prod_beta)
  qed
qed simp

lemma oldestName_mem:
  assumes "values \<noteq> []" and "\<forall>v. ghas values v \<longrightarrow> v \<noteq> []"
  shows "ghas values (oldestName values)"
proof -
  have ne: "\<forall>v \<in> fst ` set values. v \<noteq> []" using assms(2) by (force simp: ghas_iff)
  show ?thesis
    using oldest_fold [OF _ ne, of "[]" 0] assms(1) unfolding oldestName_def by (auto simp: ghas_iff image_iff)
qed

lemma length_gput_has: "ghas m k \<Longrightarrow> length (gput k v m) = length m"
  by (induction m) (auto simp: ghas_def split: if_splits)

lemma names_ok_record:
  assumes "names_ok c" and "name \<noteq> []"
  shows "names_ok (recordName now name c)"
proof -
  let ?vs = "cn_values c"
  have d: "gdistinct ?vs" and l: "length ?vs \<le> maxContestedDisplayNames" and n: "\<forall>v. ghas ?vs v \<longrightarrow> v \<noteq> []"
    and last: "ghas ?vs (cn_last c) \<or> length ?vs < maxContestedDisplayNames"
    using assms by (simp_all add: names_ok_def)
  have put: "length (gput name now vs) \<le> maxContestedDisplayNames"
    if "length vs < maxContestedDisplayNames \<or> (length vs \<le> maxContestedDisplayNames \<and> ghas vs name)" for vs
    using that length_gput_le [of name now vs] length_gput_has [of vs name now] by auto
  have old: "length (gdel (oldestName ?vs) ?vs) < maxContestedDisplayNames" if "length ?vs \<ge> maxContestedDisplayNames"
  proof -
    have "?vs \<noteq> []" using that by (auto simp: maxContestedDisplayNames_def)
    from oldestName_mem [OF this n] have "length (gdel (oldestName ?vs) ?vs) < length ?vs"
      using length_gdel [OF d, of "oldestName ?vs"] \<open>?vs \<noteq> []\<close> by simp
    with l show ?thesis by simp
  qed
  show ?thesis
  proof (cases "name = cn_last c")
    case True
    with d n l last put [of ?vs] assms(2) show ?thesis by (auto simp: names_ok_def recordName_def)
  next
    case False
    show ?thesis
    proof (cases "length ?vs \<ge> maxContestedDisplayNames")
      case True
      with False d n put old [OF True] assms(2) show ?thesis
        by (auto simp: names_ok_def recordName_def Let_def)
    next
      case less: False
      with False d n put [of ?vs] assms(2) show ?thesis
        by (auto simp: names_ok_def recordName_def Let_def)
    qed
  qed
qed

lemma books_track: "books e \<Longrightarrow> books (trackDisplayName env i obs prev e)"
proof -
  assume b: "books e"
  let ?name = "DisplayName (zeroEntity\<lparr>ent_Type := eo_Type obs, ent_Identity := eo_Identity obs,
     ent_Attributes := eo_Attributes obs\<rparr>)"
  have co: "contested_ok (e_contested e)" using b by (simp add: books_def)
  have put: "books (e\<lparr>e_contested := gput i c (e_contested e)\<rparr>)" if "names_ok c" for c
    using b co that by (intro books_contested) (auto simp: contested_ok_def split: if_splits)
  have new: "names_ok \<lparr>cn_last = ?name, cn_contested = False, cn_values = gput ?name now (if p \<noteq> [] then gput p now [] else [])\<rparr>"
    if "?name \<noteq> []" for p now
    using that by (auto simp: names_ok_def maxContestedDisplayNames_def gdistinct_def ghas_def split: if_splits)
  show ?thesis
  proof (cases "?name = []")
    case True
    with b show ?thesis by (simp add: trackDisplayName_def)
  next
    case False
    show ?thesis
    proof (cases "map_of (e_contested e) i")
      case None
      then show ?thesis
        unfolding trackDisplayName_def Let_def using False b put [OF new [OF False]] by (simp split del: if_split split: if_splits)
    next
      case (Some c)
      have "names_ok c" using co Some by (auto simp: contested_ok_def)
      from names_ok_record [OF this False] put False Some show ?thesis
        by (simp add: trackDisplayName_def Let_def)
    qed
  qed
qed

lemma books_observeEntity:
  assumes b: "books e"
  shows "books (fst (observeEntityLocked env obs e))"
proof -
  obtain ct i changed prev e1 where c: "classify env obs e = ((ct, i, changed, prev), e1)" by (metis surj_pair)
  have b1: "bk e1 = bk e" using c by (cases rule: classify_cases) simp_all
  define ev where "ev = entityEvent (zeroEntityEvent\<lparr>ee_EventID := env_ulid env (e_ulids e1), ee_ChangeType := ct,
     ee_Entity := observedEntity obs i, ee_EventTime := eo_EventTime obs, ee_RecordedAt := env_now env,
     ee_SchemaVersion := SchemaVersion, ee_ChangedKeys := changed,
     ee_Scope := currentScope (e1\<lparr>e_ulids := Suc (e_ulids e1)\<rparr>)\<rparr>)"
  obtain e2 r where k: "commit env ev False (e1\<lparr>e_ulids := Suc (e_ulids e1)\<rparr>) = (e2, r)" by fastforce
  have b2: "books e2" using books_bk [of e2 e] bk_commit [OF k] b1 b by simp
  let ?t = "trackDisplayName env i obs prev (referEntity env obs i e2)"
  have bt: "books ?t" by (intro books_track books_referEntity b2)
  have "books (retryPending env obs ?t)" using bt books_flushPending [OF bt] by (simp add: retryPending_def)
  moreover have "fst (observeEntityLocked env obs e) = (case r of Inl _ \<Rightarrow> e2 | Inr _ \<Rightarrow> retryPending env obs ?t)"
    using c k by (simp add: observeEntityLocked_def mint_def Let_def ev_def split: sum.splits)
  ultimately show ?thesis using b2 by (simp split: sum.splits)
qed

lemma contested_ok_gdel: "contested_ok m \<Longrightarrow> contested_ok (gdel i m)"
  by (auto simp: contested_ok_def split: if_splits)

lemma books_commitDelete:
  assumes b: "books e"
  shows "books (fst (commitDelete env obs i e))"
proof -
  obtain e' r err where c: "commitDelete env obs i e = (e', r, err)" by (metis prod_cases3)
  then show ?thesis
  proof (cases rule: commitDelete_cases)
    case (failed err0)
    with books_bk [of e' e] b c show ?thesis by simp
  next
    case (deleted ee e2 ev n)
    have b2: "books e2" using books_bk [of e2 e] bk_commit [OF deleted(4)] b by simp
    then have "contested_ok (e_contested e2)" by (simp add: books_def)
    from books_removeIncident [OF books_contested [OF b2 contested_ok_gdel [OF this]]] deleted(5) c
    show ?thesis by (metis fst_conv)
  qed
qed

lemma books_deleteEntity:
  assumes b: "books e"
  shows "books (fst (deleteEntityLocked env obs e))"
proof -
  have ok: "refs_ok (e_refs e)" "promises_ok (e_refs e)" using b by (simp_all add: books_def)
  obtain e' r err where o: "deleteEntityLocked env obs e = (e', r, err)" by (metis prod_cases3)
  then show ?thesis
  proof (cases rule: deleteEntity_cases)
    case missing
    with b o show ?thesis by simp
  next
    case (held i sp)
    have d: "gdistinct sp" using ok held(2) by (auto simp: refs_ok_def)
    have "refs_ok (gput i (fst (releaseSpeaker sp (eo_Producer obs) (currentScope e))) (e_refs e))"
      using ok d by (intro refs_ok_gput) simp_all
    moreover have "promises_ok (gput i (fst (releaseSpeaker sp (eo_Producer obs) (currentScope e))) (e_refs e))"
      using ok d held(2)
      by (intro promises_ok_gput) (auto simp: map_of_releaseSpeaker promises_ok_def split: option.splits if_splits)
    ultimately show ?thesis using books_refs [OF b] held(4) o by simp
  next
    case (released i e0)
    have "books e0"
      using released(3) b books_refs [OF b refs_ok_gdel [OF ok(1)] promises_ok_gdel [OF ok(2)]]
      by (simp split: option.splits)
    from books_commitDelete [OF this, of env obs i] released(4) o show ?thesis by simp
  qed
qed

end
