(* ===== verification/Change_Atomic.thy ===== *)
theory Change_Atomic
  imports Change_Books
begin

text \<open>
  While a batch is staged no handler touches what is shared with the outside: the
  projection, the appender, the subscribers and what they were told.  So a batch takes
  effect in \<open>flushStaged\<close> or not at all.
\<close>

section \<open>Definitions\<close>

definition base :: "'a Engine \<Rightarrow> Graph \<times> 'a \<times> (nat \<times> Event \<times> bool) list \<times> nat goset \<times> nat list" where
  "base e = (e_graph e, e_appender e, e_delivered e, e_subs e, e_rolledBack e)"

definition rollbacks :: "'a Engine \<Rightarrow> nat list" where
  "rollbacks e = (case e_staged e of Some st \<Rightarrow> st_rollbacks st | None \<Rightarrow> [])"

definition stays :: "'a Engine \<Rightarrow> 'a Engine \<Rightarrow> bool" where
  "stays e e' = (e_staged e \<noteq> None \<longrightarrow> e_staged e' \<noteq> None \<and> base e' = base e \<and> rollbacks e' = rollbacks e)"

text \<open>The rollback functions a batch registers, in order.\<close>

fun registered :: "BatchOp list \<Rightarrow> nat list" where
  "registered [] = []"
| "registered (BOnRollback fn # ops) = fn # registered ops"
| "registered (_ # ops) = registered ops"

section \<open>Staged operations stay\<close>

lemma stays_refl [simp]: "stays e e"
  by (simp add: stays_def)

lemma stays_trans: "stays e e1 \<Longrightarrow> stays e1 e2 \<Longrightarrow> stays e e2"
  by (simp add: stays_def)

lemma stays_core: "ecore e' = ecore e \<Longrightarrow> stays e e'"
  by (simp add: stays_def base_def rollbacks_def ecore_def)

lemma stays_ulids [simp]: "stays e (e\<lparr>e_ulids := n\<rparr>)"
  by (simp add: stays_def base_def rollbacks_def)

lemma stays_setScope [simp]: "stays e (setCurrentScope sc e)"
  by (simp add: stays_def base_def rollbacks_def setCurrentScope_def split: option.splits)

lemma st_rollbacks_apply [simp]: "st_rollbacks (staged_apply ev st) = st_rollbacks st"
  by (simp add: staged_apply_def Let_def split: option.splits ChangeType.splits)

lemma stays_commit: "commit env ev hp e = (e', res) \<Longrightarrow> stays e e'"
  by (auto simp: stays_def base_def rollbacks_def commit_def)

lemma stays_relationEvent: "relationEvent env ct rel t src e = (ev, e') \<Longrightarrow> stays e e'"
  by (auto simp: relationEvent_eq)

lemma stays_observeRelationLocked: "stays e (fst (observeRelationLocked env obs e))"
proof (cases "resolveEndpoints e (ro_From obs) (ro_To obs)")
  case (Inl a)
  then show ?thesis by (simp add: observeRelationLocked_def)
next
  case (Inr p)
  obtain i j where p: "p = (i, j)" by (cases p)
  let ?e = "referRelation env obs i (ComputeRelationID (ro_Type obs) i j) e"
  obtain e' ev err where o: "observeRelationLocked env obs e = (e', ev, err)" by (metis prod_cases3)
  consider "e' = ?e"
    | ct rel ev1 e1 hp res where "relationEvent env ct rel (ro_EventTime obs) DeleteSourceUnknown ?e = (ev1, e1)"
        "commit env ev1 hp e1 = (e', res)"
    using o Inr p
    by (force simp: observeRelationLocked_def Let_def split: option.splits prod.splits sum.splits if_splits)
  then have "stays ?e e'" by cases (auto dest!: stays_commit stays_relationEvent intro: stays_trans)
  with stays_trans [OF stays_core, of ?e e e'] o show ?thesis by simp
qed

lemma stays_flushOne: "stays e (fst (flushOne env p (e, kept)))"
proof -
  obtain e2 ev err where o: "observeRelationLocked env (pr_obs p) (setCurrentScope (pr_scope p) e) = (e2, ev, err)"
    by (metis prod_cases3)
  have "stays (setCurrentScope (pr_scope p) e) e2"
    using stays_observeRelationLocked [of "setCurrentScope (pr_scope p) e" env "pr_obs p"] o by simp
  then have s3: "stays e (setCurrentScope sc e2)" for sc by (meson stays_setScope stays_trans)
  have drop: "stays e1 (dropPendingRelation obs e1)" for obs and e1 :: "'a Engine" by (rule stays_core) simp
  then have s4: "stays e (dropPendingRelation obs (setCurrentScope sc e2))" for obs sc
    using s3 stays_trans by blast
  from o s3 s4 drop show ?thesis by (simp add: flushOne_def Let_def)
qed

lemma stays_flushPending: "stays e (flushPending env e)"
proof -
  have fold: "stays e (fst (fold (flushOne env) ps (e, kept)))" for ps kept e
  proof (induction ps arbitrary: e kept)
    case (Cons p ps)
    obtain e1 kept1 where f: "flushOne env p (e, kept) = (e1, kept1)" by fastforce
    with stays_flushOne [of e env p kept] Cons.IH [of e1 kept1] stays_trans [of e e1] show ?case by simp
  qed simp
  obtain e1 kept where f: "fold (flushOne env) (e_pending e) (e, []) = (e1, kept)" by fastforce
  have "stays e e1" using fold [of e "e_pending e" "[]"] f by simp
  moreover have "stays e1 (rebuildPendingHashes (e1\<lparr>e_pending := kept\<rparr>))" by (rule stays_core) simp
  ultimately have "stays e (rebuildPendingHashes (e1\<lparr>e_pending := kept\<rparr>))" by (rule stays_trans)
  with f show ?thesis by (simp add: flushPending_def)
qed

lemma stays_recordAlias: "stays e (recordAliasLocked env obs e)"
proof -
  have fl: "stays e (flushPending env (rebuildPendingHashes e1))" if "ecore e1 = ecore e" for e1
    using stays_trans [OF stays_core stays_flushPending, of "rebuildPendingHashes e1" e] that by simp
  show ?thesis
    unfolding recordAliasLocked_def Let_def
    by (auto split: option.splits prod.splits intro!: fl intro: stays_core)
qed

lemma stays_buffered: "stays e (fst (observeRelationBuffered env obs e))"
proof -
  let ?e = "if ro_Type obs = RelSameAs then recordAliasLocked env obs e else e"
  obtain e1 ev err where o: "observeRelationLocked env obs ?e = (e1, ev, err)" by (metis prod_cases3)
  have "stays e ?e" using stays_recordAlias by auto
  with stays_observeRelationLocked [of ?e env obs] o have s: "stays e e1" using stays_trans by (metis fst_conv)
  have "stays e1 (dropPendingRelation obs e1)" "stays e1 (parkRelation env obs e1)" by (rule stays_core; simp)+
  with o s stays_trans [OF s] show ?thesis by (simp add: observeRelationBuffered_def Let_def)
qed

lemma stays_removeRelation: "stays e (fst (removeRelationLocked env obs e))"
proof -
  obtain e' ev' err where r: "removeRelationLocked env obs e = (e', ev', err)" by (metis prod_cases3)
  from removeRelation_steps [OF r] have "stays e e'"
    by (auto dest!: stays_commit stays_relationEvent intro: stays_core stays_trans)
  with r show ?thesis by simp
qed

lemma stays_removeIncident: "stays e (fst (removeIncidentRelations env i t e))"
proof -
  have one: "stays e (fst (removeOne env t rel (e, n, errs)))" for e :: "'a Engine" and rel n errs
  proof -
    obtain ev e1 where re: "relationEvent env RelationRemoved rel t DeleteSourceCascade e = (ev, e1)" by fastforce
    obtain e2 res where cm: "commit env ev (rel_Structural rel) e1 = (e2, res)" by fastforce
    have s2: "stays e e2" using stays_trans [OF stays_relationEvent [OF re] stays_commit [OF cm]] .
    have "stays e2 (e2\<lparr>e_relRefs := gdel (rel_ID rel) (e_relRefs e2)\<rparr>)" by (rule stays_core) simp
    with stays_trans [OF s2] s2 re cm show ?thesis by (cases res) (simp_all add: removeOne_def)
  qed
  have "stays e (fst (fold (removeOne env t) rels (e, n, errs)))" for rels n errs e
  proof (induction rels arbitrary: e n errs)
    case (Cons rel rels)
    obtain e1 n1 errs1 where f: "removeOne env t rel (e, n, errs) = (e1, n1, errs1)" by (metis prod_cases3)
    with one [of e rel n errs] Cons.IH [of e1 n1 errs1] stays_trans [of e e1] show ?case by simp
  qed simp
  then show ?thesis by (simp add: removeIncidentRelations_def case_prod_beta)
qed

lemma stays_observeEntity: "stays e (fst (observeEntityLocked env obs e))"
proof -
  obtain ct i changed prev e1 where c: "classify env obs e = ((ct, i, changed, prev), e1)" by (metis surj_pair)
  have s1: "stays e e1" using c by (cases rule: classify_cases) simp_all
  define ev where "ev = entityEvent (zeroEntityEvent\<lparr>ee_EventID := env_ulid env (e_ulids e1), ee_ChangeType := ct,
     ee_Entity := observedEntity obs i, ee_EventTime := eo_EventTime obs, ee_RecordedAt := env_now env,
     ee_SchemaVersion := SchemaVersion, ee_ChangedKeys := changed,
     ee_Scope := currentScope (e1\<lparr>e_ulids := Suc (e_ulids e1)\<rparr>)\<rparr>)"
  obtain e2 r where k: "commit env ev False (e1\<lparr>e_ulids := Suc (e_ulids e1)\<rparr>) = (e2, r)" by fastforce
  have s2: "stays e e2" using stays_trans [OF stays_trans [OF s1 stays_ulids] stays_commit [OF k]] .
  let ?t = "trackDisplayName env i obs prev (referEntity env obs i e2)"
  have "stays e2 ?t" by (rule stays_core) simp
  moreover have "stays ?t (retryPending env obs ?t)"
    using stays_flushPending [of ?t env] by (simp add: retryPending_def)
  ultimately have "stays e (retryPending env obs ?t)" using s2 stays_trans by blast
  moreover have "fst (observeEntityLocked env obs e) = (case r of Inl _ \<Rightarrow> e2 | Inr _ \<Rightarrow> retryPending env obs ?t)"
    using c k by (simp add: observeEntityLocked_def mint_def Let_def ev_def split: sum.splits)
  ultimately show ?thesis using s2 by (simp split: sum.splits)
qed

lemma stays_deleteEntity: "stays e (fst (deleteEntityLocked env obs e))"
proof -
  have cd: "stays e0 (fst (commitDelete env obs i e0))" for i and e0 :: "'a Engine"
  proof -
    obtain e' r err where c: "commitDelete env obs i e0 = (e', r, err)" by (metis prod_cases3)
    then show ?thesis
    proof (cases rule: commitDelete_cases)
      case (failed err0)
      with c show ?thesis by simp
    next
      case (deleted ee e2 ev n)
      have "stays e0 e2" by (rule stays_trans [OF stays_ulids stays_commit [OF deleted(4)]])
      moreover have "stays e2 (e2\<lparr>e_contested := gdel i (e_contested e2)\<rparr>)" by (rule stays_core) simp
      ultimately show ?thesis
        using stays_removeIncident [of "e2\<lparr>e_contested := gdel i (e_contested e2)\<rparr>" env i "eo_EventTime obs"]
          deleted(5) c stays_trans by (metis fst_conv)
    qed
  qed
  obtain e' r err where o: "deleteEntityLocked env obs e = (e', r, err)" by (metis prod_cases3)
  then show ?thesis
  proof (cases rule: deleteEntity_cases)
    case missing
    with o show ?thesis by simp
  next
    case (held i sp)
    with o show ?thesis using stays_core [of e' e] by simp
  next
    case (released i e0)
    have "stays e e0" by (rule stays_core) (simp add: released(3) split: option.splits)
    with cd [of e0 i] released(4) o stays_trans show ?thesis by (metis fst_conv)
  qed
qed

lemma batchStep_stays:
  assumes "e_staged e \<noteq> None"
  shows "e_staged (batchStep env op e) \<noteq> None \<and> base (batchStep env op e) = base e \<and>
    rollbacks (batchStep env op e) = rollbacks e @ registered [op]"
proof (cases op)
  case (BOnRollback fn)
  with assms show ?thesis by (auto simp: base_def rollbacks_def)
next
  case (BObserveEntity obs)
  with assms stays_observeEntity [of e env obs] show ?thesis by (simp add: stays_def)
next
  case (BDeleteEntity obs)
  with assms stays_deleteEntity [of e env obs] show ?thesis by (simp add: stays_def)
next
  case (BObserveRelation obs)
  with assms stays_buffered [of e env obs] show ?thesis by (simp add: stays_def)
next
  case (BRemoveRelation obs)
  with assms stays_removeRelation [of e env obs] show ?thesis by (simp add: stays_def)
next
  case (BSetScope sc)
  with assms stays_setScope [of e sc] show ?thesis by (simp add: stays_def)
qed

lemma registered_Cons: "registered (op # ops) = registered [op] @ registered ops"
  by (cases op) simp_all

lemma batchFold_stays:
  assumes "e_staged e \<noteq> None"
  shows "e_staged (fold (batchStep env) ops e) \<noteq> None \<and> base (fold (batchStep env) ops e) = base e \<and>
    rollbacks (fold (batchStep env) ops e) = rollbacks e @ registered ops"
  using assms
proof (induction ops arbitrary: e)
  case (Cons op ops)
  note one = batchStep_stays [OF Cons.prems, of env op]
  with Cons.IH [of "batchStep env op e"] registered_Cons [of op ops] show ?case by simp
qed simp

end
