(* ===== verification/Change_Sweep.thy ===== *)
theory Change_Sweep
  imports Change_Atomic
begin

text \<open>
  The sweep and the batch: both stage their events and flush them once.  The sweep expires
  exactly the entities all of whose references have lapsed, and a failed flush leaves the
  projection as it was.
\<close>

section \<open>Definitions\<close>

text \<open>No reference of the speakers is still alive.\<close>

definition all_lapsed :: "time \<Rightarrow> speakers \<Rightarrow> bool" where
  "all_lapsed now sp = (\<forall>k r. map_of sp k = Some r \<longrightarrow> lapsed now r)"

definition orphans :: "time \<Rightarrow> (string, speakers) gomap \<Rightarrow> string list" where
  "orphans now refs = map fst (filter (\<lambda>(i, sp). dropLapsed now sp = []) refs)"

section \<open>Staging and flushing\<close>

lemma good_keeps:
  assumes "good ulid e" and "\<And>hid. sound ulid hid e \<Longrightarrow> keeps ulid hid e e'"
  shows "good ulid e'" and "tp_entities (eview e') = tp_entities (eview e)"
    and "(e_staged e' = None) = (e_staged e = None)"
  using assms by (auto simp: good_def keeps_def)

lemma eview_new [simp]: "e_staged e = None \<Longrightarrow> eview (e\<lparr>e_staged := Some newStaged\<rparr>) = eview e"
  by (simp add: eview_def overlay_def newStaged_def stDeleted_def stRelRemoved_def gget_def)

lemma good_stage:
  assumes "good ulid e" and "e_staged e = None"
  shows "good ulid (e\<lparr>e_staged := Some newStaged\<rparr>)"
proof -
  obtain hid where s: "sound ulid hid e" and u: "ulid_ok ulid" using assms by (auto simp: good_def)
  have "staged_ids newStaged = {}" by (simp add: staged_ids_def newStaged_def)
  with s assms(2) staged_inv_new [of hid "e_graph e"] have "engine_inv ulid hid (e\<lparr>e_staged := Some newStaged\<rparr>)"
    by (auto simp: sound_def engine_inv_def engine_ids_def)
  with s assms(2) u show ?thesis by (auto simp: good_def sound_def)
qed

lemma good_flush:
  assumes g: "good ulid e" and st: "e_staged e = Some st" and f: "flushStaged env st e = (e', err)"
    and nd: "no_dangling (view (e_graph e))"
  shows "good ulid e'" and "e_staged e' = None" and "eview e' = (if err = None then eview e else view (e_graph e))"
proof -
  obtain hid where s: "sound ulid hid e" and u: "ulid_ok ulid" using g by (auto simp: good_def)
  have inv: "engine_inv ulid hid e" using s by (simp add: sound_def)
  note F = flushStaged_inv [OF inv st f]
  show "e_staged e' = None" "eview e' = (if err = None then eview e else view (e_graph e))" by (rule F)+
  then have "no_dangling (eview e')" using nd s by (simp add: sound_def)
  with F(1) u show "good ulid e'" by (auto simp: good_def sound_def)
qed

lemma overlay_rollbacks [simp]: "overlay (st\<lparr>st_rollbacks := r\<rparr>) T = overlay st T"
  by (simp add: overlay_def stDeleted_def stRelRemoved_def cong: if_cong option.case_cong)

lemma batchStep_good:
  assumes "good (env_ulid env) e" and st: "e_staged e \<noteq> None"
  shows "good (env_ulid env) (batchStep env op e)"
proof (cases op)
  case (BObserveEntity obs)
  obtain e' res where "observeEntityLocked env obs e = (e', res)" by fastforce
  with observeEntity_sound [OF assms(1) this] BObserveEntity show ?thesis by simp
next
  case (BDeleteEntity obs)
  obtain e' r err where "deleteEntityLocked env obs e = (e', r, err)" by (metis prod_cases3)
  with deleteEntity_sound(2) [OF assms(1) this] BDeleteEntity st show ?thesis by simp
next
  case (BObserveRelation obs)
  with good_keeps(1) [OF assms(1) keeps_buffered] show ?thesis by simp
next
  case (BRemoveRelation obs)
  with good_keeps(1) [OF assms(1) keeps_removeRelation] show ?thesis by simp
next
  case (BSetScope scope)
  with good_keeps(1) [OF assms(1) keeps_setScope [OF keeps_refl]] show ?thesis by simp
next
  case (BOnRollback fn)
  obtain s where s: "e_staged e = Some s" using st by auto
  have inv: "engine_inv (env_ulid env) hid (e\<lparr>e_staged := Some (s\<lparr>st_rollbacks := r\<rparr>)\<rparr>) = engine_inv (env_ulid env) hid e"
    for hid r using s by (simp add: engine_inv_def engine_ids_def staged_inv_def staged_ids_def)
  have v: "eview (e\<lparr>e_staged := Some (s\<lparr>st_rollbacks := r\<rparr>)\<rparr>) = eview e" for r using s by (simp add: eview_def)
  have "sound (env_ulid env) hid (e\<lparr>e_staged := Some (s\<lparr>st_rollbacks := r\<rparr>)\<rparr>) = sound (env_ulid env) hid e" for hid r
    by (simp only: sound_def inv v)
  with assms(1) BOnRollback s show ?thesis by (simp add: good_def)
qed

lemma batchFold_good:
  "good (env_ulid env) e \<Longrightarrow> e_staged e \<noteq> None \<Longrightarrow>
     good (env_ulid env) (fold (batchStep env) ops e) \<and> e_staged (fold (batchStep env) ops e) \<noteq> None"
proof (induction ops arbitrary: e)
  case (Cons op ops)
  have "e_staged (batchStep env op e) \<noteq> None"
    using batchStep_stays [of e env op] Cons.prems(2) by simp
  with Cons.IH [OF batchStep_good [OF Cons.prems]] show ?case by simp
qed simp

lemma Batch_good:
  assumes g: "good (env_ulid env) e" and n: "e_staged e = None" and b: "Batch env ops e = (e', err)"
  shows "good (env_ulid env) e'" and "e_staged e' = None" and "err \<noteq> None \<Longrightarrow> eview e' = eview e"
proof -
  let ?e0 = "e\<lparr>e_staged := Some newStaged\<rparr>"
  let ?e1 = "fold (batchStep env) ops ?e0"
  have g1: "good (env_ulid env) ?e1" "e_staged ?e1 \<noteq> None"
    using batchFold_good [OF good_stage [OF g n], of ops] by simp_all
  then obtain st where st: "e_staged ?e1 = Some st" by auto
  have gr: "e_graph ?e1 = e_graph e" using batchFold_stays [of ?e0 env ops] by (simp add: base_def)
  have nd: "no_dangling (view (e_graph ?e1))"
    using g n unfolding gr by (auto simp: good_def sound_def eview_def)
  have f: "flushStaged env st ?e1 = (e', err)" using b st by (simp add: Batch_def stagedOf_def)
  note F = good_flush [OF g1(1) st f nd]
  show "good (env_ulid env) e'" "e_staged e' = None" by (rule F)+
  have v: "eview e = view (e_graph e)" using n by (simp add: eview_def)
  show "err \<noteq> None \<Longrightarrow> eview e' = eview e" using F(3) unfolding gr v by (cases err) simp_all
qed

section \<open>Lapsed references\<close>

lemma dropLapsed_all: "gdistinct sp \<Longrightarrow> dropLapsed now sp = [] \<longleftrightarrow> all_lapsed now sp"
  unfolding gomap_empty_iff [of "dropLapsed now sp"] all_lapsed_def
  by (auto simp: map_of_dropLapsed split: option.splits)

lemma sweep_pair:
  "foldl (\<lambda>(refs', orphaned, silenced) (i, speakers).
        let kept = dropLapsed now speakers
        in (gput i kept refs', if kept = [] then orphaned @ [i] else orphaned,
            case silencedIn now speakers of Some (scope, _) \<Rightarrow> gput i scope silenced | None \<Rightarrow> silenced))
       (m, os, sil) xs = (foldl (\<lambda>m (i, sp). gput i (dropLapsed now sp) m) m xs, os @ orphans now xs,
     foldl (\<lambda>silenced (i, speakers). case silencedIn now speakers of Some (scope, _) \<Rightarrow> gput i scope silenced | None \<Rightarrow> silenced) sil xs)"
  by (induction xs arbitrary: m os sil) (auto simp: orphans_def Let_def)

lemma sweep_rel_pair:
  "foldl (\<lambda>(refs', expired) (i, speakers).
        let kept = dropLapsed now speakers in (gput i kept refs', if kept = [] then expired @ [i] else expired)) (m, os) xs
   = (foldl (\<lambda>m (i, sp). gput i (dropLapsed now sp) m) m xs, os @ orphans now xs)"
  by (induction xs arbitrary: m os) (auto simp: orphans_def Let_def)

lemma map_of_drop_fold:
  "gdistinct xs \<Longrightarrow> map_of (foldl (\<lambda>m (i, sp). gput i (f sp) m) m xs) k =
     (case map_of xs k of Some sp \<Rightarrow> Some (f sp) | None \<Rightarrow> map_of m k)"
proof (induction xs arbitrary: m)
  case (Cons x xs)
  obtain i sp where x: "x = (i, sp)" by (cases x)
  from Cons.prems have "gdistinct xs" "map_of xs i = None"
    by (auto simp: x gdistinct_def map_of_eq_None_iff)
  with Cons.IH [of "gput i (f sp) m"] show ?case by (auto simp: x split: option.splits)
qed simp

lemma gdistinct_drop_fold: "gdistinct m \<Longrightarrow> gdistinct (foldl (\<lambda>m (i, sp). gput i (f sp) m) m xs)"
  by (induction xs arbitrary: m) auto

lemma refs_ok_drop:
  assumes "refs_ok m"
  shows "refs_ok (foldl (\<lambda>m (i, sp). gput i (dropLapsed now sp) m) m m)"
  using assms gdistinct_drop_fold [of m] by (auto simp: refs_ok_def map_of_drop_fold split: option.splits)

lemma promises_ok_drop:
  assumes "refs_ok m" and "promises_ok m"
  shows "promises_ok (foldl (\<lambda>m (i, sp). gput i (dropLapsed now sp) m) m m)"
  using assms
  by (fastforce simp: refs_ok_def promises_ok_def map_of_drop_fold map_of_dropLapsed split: option.splits if_splits)

lemma orphans_distinct: "gdistinct refs \<Longrightarrow> distinct (orphans now refs)"
  by (simp add: orphans_def gdistinct_def distinct_map_filter)

lemma set_orphans:
  assumes "refs_ok refs"
  shows "i \<in> set (orphans now refs) \<longleftrightarrow> (\<exists>sp. map_of refs i = Some sp \<and> all_lapsed now sp)"
proof -
  have "i \<in> set (orphans now refs) \<longleftrightarrow> (\<exists>sp. map_of refs i = Some sp \<and> dropLapsed now sp = [])"
    using assms by (force simp: orphans_def refs_ok_def gdistinct_in_set_iff)
  also have "\<dots> \<longleftrightarrow> (\<exists>sp. map_of refs i = Some sp \<and> all_lapsed now sp)"
    using assms dropLapsed_all by (auto simp: refs_ok_def)
  finally show ?thesis .
qed

section \<open>Expiry\<close>

text \<open>
  The state of the expiry loop: the entities still to visit are as the projection has them,
  those visited are gone from the overlay.
\<close>

definition expiring :: "(nat \<Rightarrow> string) \<Rightarrow> 'a Engine \<Rightarrow> EntityID set \<Rightarrow> EngErr list \<Rightarrow> 'a Engine \<Rightarrow> bool" where
  "expiring ulid e0 gone errs e =
     (good ulid e \<and> e_staged e \<noteq> None \<and> base e = base e0 \<and> errs = [] \<and>
      tp_entities (eview e) = (\<lambda>i. if i \<in> gone then None else live (e_graph e0) i))"

lemma expireEntity_step:
  assumes x: "expiring (env_ulid env) e0 gone errs e" and i: "i \<notin> gone"
    and f: "expireEntity env sil i (e, res, errs) = (e', res', errs')"
  shows "expiring (env_ulid env) e0 (insert i gone) errs' e'"
proof -
  have g: "good (env_ulid env) e" and st: "e_staged e \<noteq> None" and b: "base e = base e0" and er: "errs = []"
    and v: "tp_entities (eview e) = (\<lambda>i. if i \<in> gone then None else live (e_graph e0) i)"
    using x by (simp_all add: expiring_def)
  have gr: "e_graph e = e_graph e0" using b by (simp add: base_def)
  show ?thesis
  proof (cases "live (e_graph e) i")
    case None
    then have e': "e' = e\<lparr>e_refs := gdel i (e_refs e), e_contested := gdel i (e_contested e)\<rparr>" "errs' = errs"
      using f by (auto simp: expireEntity_def GetEntity_def live_def split: option.splits if_splits)
    have core: "ecore e' = ecore e" by (simp add: e')
    have none: "live (e_graph e0) i = None" using None gr by simp
    have "(\<lambda>j. if j \<in> gone then None else live (e_graph e0) j) = (\<lambda>j. if j \<in> insert i gone then None else live (e_graph e0) j)"
      using none by auto
    with v ecore_sound(2) [OF core] have "tp_entities (eview e') = (\<lambda>j. if j \<in> insert i gone then None else live (e_graph e0) j)"
      by simp
    moreover have "e_staged e' \<noteq> None" "base e' = base e0" using core st b by (simp_all add: ecore_def base_def)
    ultimately show ?thesis using good_core [OF core] g er e'(2) by (simp add: expiring_def)
  next
    case (Some ent)
    let ?e = "e\<lparr>e_ulids := Suc (e_ulids e)\<rparr>"
    define ee where "ee = zeroEntityEvent\<lparr>ee_EventID := env_ulid env (e_ulids e), ee_ChangeType := EntityDeleted,
           ee_Entity := ent, ee_EventTime := env_now env, ee_RecordedAt := env_now env,
           ee_SchemaVersion := SchemaVersion, ee_DeleteSource := DeleteSourceLivenessExpiry,
           ee_Scope := gget [] sil i\<rparr>"
    then have ee: "ee_ChangeType ee = EntityDeleted" "ee_Entity ee = ent" by simp_all
    obtain hid where s: "sound (env_ulid env) hid ?e" and u: "ulid_ok (env_ulid env)"
      using good_ulids [OF g] by (auto simp: good_def)
    have v1: "eview ?e = eview e" by (simp add: eview_def split: option.splits)
    have li: "tp_entities (eview ?e) i = Some ent" using v i Some gr v1 by simp
    have hid: "ent_ID ent = i \<and> hid i = IdentityHash ent"
      using eview_inv(3) [of "env_ulid env" hid ?e] s li by (auto simp: hid_ok_def sound_def)
    obtain e1 ev where c: "commit env (entityEvent ee) False ?e = (e1, Inr ev)"
      using st by (auto simp: commit_def)
    let ?e2 = "e1\<lparr>e_refs := gdel i (e_refs e1), e_contested := gdel i (e_contested e1)\<rparr>"
    obtain e3 n rerr where r3: "removeIncidentRelations env i (env_now env) ?e2 = (e3, n, rerr)" by (metis prod_cases3)
    have "e3 = e'" and errs': "errs' = (case rerr of Some err \<Rightarrow> errs @ [err] | None \<Rightarrow> errs)"
      using f Some c r3 by (simp_all add: expireEntity_def GetEntity_def live_iff mint_def ee_def Let_def)
    with r3 have r: "removeIncidentRelations env i (env_now env) ?e2 = (e', n, rerr)" by simp
    note D = delete_cascade [OF s u _ ee(1) _ _ c _ r, unfolded ee(2) li]
    have none: "rerr = None" using D(4) hid st by simp
    have "tp_entities (eview e') = (\<lambda>j. if j \<in> insert i gone then None else live (e_graph e0) j)"
      using D(2) hid unfolding v1 v by (auto simp: fun_eq_iff)
    moreover have "stays e e'"
      using stays_removeIncident [of ?e2 env i "env_now env"] r stays_commit [OF c] stays_ulids [of e "Suc (e_ulids e)"]
        stays_core [of ?e2 e1] stays_trans by (metis ecore_updates(1,5) fst_conv)
    moreover have "good (env_ulid env) e'" using D(1,5) hid none u by (auto simp: good_def sound_def)
    ultimately show ?thesis using st b er errs' none by (simp add: expiring_def stays_def)
  qed
qed

lemma expire_fold:
  "expiring (env_ulid env) e0 gone errs e \<Longrightarrow> distinct is \<Longrightarrow> set is \<inter> gone = {} \<Longrightarrow>
   fold (expireEntity env sil) is (e, res, errs) = (e', res', errs') \<Longrightarrow>
   expiring (env_ulid env) e0 (gone \<union> set is) errs' e'"
proof (induction "is" arbitrary: e res errs gone)
  case (Cons i "is")
  obtain e1 res1 errs1 where f: "expireEntity env sil i (e, res, errs) = (e1, res1, errs1)" by (metis prod_cases3)
  have "expiring (env_ulid env) e0 (insert i gone) errs1 e1"
    by (rule expireEntity_step [OF Cons.prems(1) _ f]) (use Cons.prems in auto)
  from Cons.IH [OF this] Cons.prems f show ?case by auto
qed simp

lemma ecore_sweepContested [simp]: "ecore (sweepContested now e) = ecore e"
  by (simp add: sweepContested_def)

lemma ecore_drop_fold [simp]:
  "ecore (fold (\<lambda>p e. if pr_deadline p < now then dropPendingRelation (pr_obs p) e else e) ps e) = ecore e"
  by (induction ps arbitrary: e) auto

lemma ecore_sweepPending [simp]: "ecore (sweepPending now e) = ecore e"
  by (simp add: sweepPending_def)

lemma expiring_core: "expiring ulid e0 gone errs e \<Longrightarrow> ecore e' = ecore e \<Longrightarrow> expiring ulid e0 gone errs e'"
  using good_core [of e' e] ecore_sound(2) [of e' e] by (auto simp: expiring_def base_def ecore_def)

lemma expireRelation_step:
  assumes x: "expiring (env_ulid env) e0 gone errs e"
    and f: "expireRelation env i (e, res, errs) = (e', res', errs')"
  shows "expiring (env_ulid env) e0 gone errs' e'"
proof (cases "GetRelation (e_graph e) i")
  case None
  with f have "e' = e\<lparr>e_relRefs := gdel i (e_relRefs e)\<rparr>" "errs' = errs" by (auto simp: expireRelation_def)
  with expiring_core [OF x, of e'] show ?thesis by simp
next
  case (Some rel)
  have st: "e_staged e \<noteq> None" and g: "good (env_ulid env) e" and er: "errs = []" using x by (simp_all add: expiring_def)
  obtain ev e1 where re: "relationEvent env RelationRemoved rel (env_now env) DeleteSourceLivenessExpiry e = (ev, e1)"
    by fastforce
  have st1: "e_staged e1 = e_staged e" using re by (auto simp: relationEvent_eq)
  then obtain e2 ev2 where c: "commit env ev (rel_Structural rel) e1 = (e2, Inr ev2)"
    using st by (auto simp: commit_def)
  have e': "e' = e2\<lparr>e_relRefs := gdel i (e_relRefs e2)\<rparr>" "errs' = errs"
    using f Some re c by (simp_all add: expireRelation_def)
  obtain hid where s: "sound (env_ulid env) hid e" and u: "ulid_ok (env_ulid env)" using g by (auto simp: good_def)
  note C = commit_relation [OF s _ _ re c]
  have "stays e e2" by (rule stays_trans [OF stays_relationEvent [OF re] stays_commit [OF c]])
  with C x u er st have "expiring (env_ulid env) e0 gone errs e2"
    by (auto simp: expiring_def good_def stays_def)
  from expiring_core [OF this, of e'] e' show ?thesis by simp
qed

lemma expireRelation_fold:
  "expiring (env_ulid env) e0 gone errs e \<Longrightarrow>
   fold (expireRelation env) is (e, res, errs) = (e', res', errs') \<Longrightarrow> expiring (env_ulid env) e0 gone errs' e'"
proof (induction "is" arbitrary: e res errs)
  case (Cons i "is")
  obtain e1 res1 errs1 where f: "expireRelation env i (e, res, errs) = (e1, res1, errs1)" by (metis prod_cases3)
  from Cons.IH [OF expireRelation_step [OF Cons.prems(1) f]] Cons.prems(2) f show ?case by simp
qed simp

lemma sweepStage_expiring:
  assumes g: "good (env_ulid env) e" and n: "e_staged e = None" and r: "refs_ok (e_refs e)"
    and f: "sweepStage env e = (e', res, errs)"
  shows "expiring (env_ulid env) e (set (orphans (env_now env) (e_refs e))) errs e'"
proof -
  let ?now = "env_now env"
  let ?e0 = "e\<lparr>e_staged := Some newStaged\<rparr>"
  obtain refs sil where sw: "sweepRefs ?now (e_refs e) = (refs, orphans ?now (e_refs e), sil)"
    unfolding sweepRefs_def sweep_pair by simp
  let ?e1 = "?e0\<lparr>e_refs := refs\<rparr>"
  have v: "tp_entities (eview ?e0) = live (e_graph e)" using n by simp (simp add: eview_def)
  have "expiring (env_ulid env) e {} [] ?e0"
    using good_stage [OF g n] v by (simp add: expiring_def base_def)
  then have x1: "expiring (env_ulid env) e {} [] ?e1" by (rule expiring_core) simp
  obtain e2 res2 errs2 where f2: "fold (expireEntity env sil) (orphans ?now (e_refs e)) (?e1, zeroSweep, []) = (e2, res2, errs2)"
    by (metis prod_cases3)
  have x2: "expiring (env_ulid env) e (set (orphans ?now (e_refs e))) errs2 e2"
    using expire_fold [OF x1 _ _ f2] orphans_distinct [of "e_refs e"] r by (simp add: refs_ok_def)
  let ?e3 = "sweepPending ?now (sweepContested ?now e2)"
  obtain relRefs expired where sr: "sweepRelRefs ?now (e_relRefs ?e3) = (relRefs, expired)" by fastforce
  let ?e4 = "?e3\<lparr>e_relRefs := relRefs\<rparr>"
  have x4: "expiring (env_ulid env) e (set (orphans ?now (e_refs e))) errs2 ?e4"
    by (rule expiring_core [OF x2]) simp
  have "fold (expireRelation env) expired (?e4, res2, errs2) = (e', res, errs)"
    using f sw f2 sr by (simp add: sweepStage_def Let_def)
  from expireRelation_fold [OF x4 this] show ?thesis .
qed

lemma Sweep_sound:
  assumes g: "good (env_ulid env) e" and n: "e_staged e = None" and r: "refs_ok (e_refs e)"
    and f: "Sweep env e = (e', res, err)"
  shows "good (env_ulid env) e'" and "e_staged e' = None"
    and "tp_entities (eview e') = (\<lambda>i. if err = None \<and> i \<in> set (orphans (env_now env) (e_refs e)) then None
      else tp_entities (eview e) i)"
    and "err \<noteq> None \<Longrightarrow> eview e' = eview e \<and> res = zeroSweep"
proof -
  obtain e1 res1 errs where s: "sweepStage env e = (e1, res1, errs)" by (metis prod_cases3)
  note X = sweepStage_expiring [OF g n r s]
  then obtain st where st: "e_staged e1 = Some st" by (auto simp: expiring_def)
  have er: "errs = []" and gr: "e_graph e1 = e_graph e" and g1: "good (env_ulid env) e1"
    and v1: "tp_entities (eview e1) = (\<lambda>i. if i \<in> set (orphans (env_now env) (e_refs e)) then None else live (e_graph e) i)"
    using X by (simp_all add: expiring_def base_def)
  obtain e2 ferr where fl: "flushStaged env st e1 = (e2, ferr)" by fastforce
  have v0: "eview e = view (e_graph e)" using n by (simp add: eview_def)
  have nd: "no_dangling (view (e_graph e1))" using g unfolding gr v0 [symmetric] by (auto simp: good_def sound_def)
  note F = good_flush [OF g1 st fl nd, unfolded gr]
  let ?e3 = "e2\<lparr>e_aliases := alias_sweep (env_now env) (e_aliases e2)\<rparr>"
  have e': "e' = ?e3\<lparr>e_graph := fst (PruneTombstones (env_now env) (e_graph e2))\<rparr>"
    and err: "err = (case ferr of None \<Rightarrow> None | Some x \<Rightarrow> Some (Joined [x]))"
    and res: "res = (if ferr = None then res1 else zeroSweep)"
    using f s st fl er by (auto simp: Sweep_def stagedOf_def joinErrs_def Let_def split: option.splits)
  show st': "e_staged e' = None" using F(2) by (simp add: e')
  have v': "eview e' = eview e2" using F(2) by (simp add: e' eview_def view_PruneTombstones)
  obtain hid where s2: "sound (env_ulid env) hid e2" and u: "ulid_ok (env_ulid env)" using F(1) by (auto simp: good_def)
  have "engine_inv (env_ulid env) hid e'"
    using s2 F(2) graph_inv_prune [of hid "e_graph e2" "env_now env"] graph_ids_prune [of "env_now env" "e_graph e2"]
    by (auto simp: e' sound_def engine_inv_def engine_ids_def)
  with s2 v' u show "good (env_ulid env) e'" by (auto simp: good_def sound_def)
  show "tp_entities (eview e') = (\<lambda>i. if err = None \<and> i \<in> set (orphans (env_now env) (e_refs e)) then None
      else tp_entities (eview e) i)"
    unfolding v' F(3) v0 err using v1 by (cases ferr) auto
  show "err \<noteq> None \<Longrightarrow> eview e' = eview e \<and> res = zeroSweep"
    unfolding v' F(3) v0 err res by (cases ferr) auto
qed

end
