(* ===== verification/Change_Reach.thy ===== *)
theory Change_Reach
  imports Change_Sweep
begin

text \<open>
  The engine as a state machine.  A step is one call under the observation lock; a reachable
  state is one a fresh engine gets to by such calls.  Every reachable state satisfies the
  invariant of the projection overlay and of the bookkeeping.
\<close>

section \<open>The bookkeeping across sweep, batch and restore\<close>

lemma books_expireEntity: "books e \<Longrightarrow> books (fst (expireEntity env sil i (e, res, errs)))"
proof -
  assume b: "books e"
  have del: "books (e1\<lparr>e_refs := gdel i (e_refs e1), e_contested := gdel i (e_contested e1)\<rparr>)" if "books e1" for e1 :: "'a Engine"
    using that by (simp add: books_def parked_ok_def refs_ok_gdel promises_ok_gdel contested_ok_gdel)
  show ?thesis
  proof (cases "\<exists>ent. GetEntity (e_graph e) i = (Some ent, False)")
    case False
    with del [OF b] show ?thesis by (auto simp: expireEntity_def split: prod.splits option.splits bool.splits)
  next
    case True
    then obtain ent where ent: "GetEntity (e_graph e) i = (Some ent, False)" by blast
    define ev where "ev = entityEvent (zeroEntityEvent\<lparr>ee_EventID := env_ulid env (e_ulids e), ee_ChangeType := EntityDeleted,
           ee_Entity := ent, ee_EventTime := env_now env, ee_RecordedAt := env_now env,
           ee_SchemaVersion := SchemaVersion, ee_DeleteSource := DeleteSourceLivenessExpiry,
           ee_Scope := gget [] sil i\<rparr>)"
    obtain e1 r where c: "commit env ev False (e\<lparr>e_ulids := Suc (e_ulids e)\<rparr>) = (e1, r)" by fastforce
    have b1: "books e1" using books_bk [of e1 e] bk_commit [OF c] b by simp
    have "books (fst (removeIncidentRelations env i (env_now env)
        (e1\<lparr>e_refs := gdel i (e_refs e1), e_contested := gdel i (e_contested e1)\<rparr>)))"
      by (rule books_removeIncident [OF del [OF b1]])
    with b1 ent c show ?thesis
      by (cases r) (simp_all add: expireEntity_def mint_def ev_def Let_def case_prod_beta)
  qed
qed

lemma books_expireRelation: "books e \<Longrightarrow> books (fst (expireRelation env i (e, res, errs)))"
proof -
  assume b: "books e"
  have del: "books (e1\<lparr>e_relRefs := gdel i (e_relRefs e1)\<rparr>)" if "books e1" for e1 :: "'a Engine"
    using that by (intro books_relRefs refs_ok_gdel) (simp_all add: books_def)
  show ?thesis
  proof (cases "GetRelation (e_graph e) i")
    case None
    with del [OF b] show ?thesis by (simp add: expireRelation_def)
  next
    case (Some rel)
    obtain ev e1 where re: "relationEvent env RelationRemoved rel (env_now env) DeleteSourceLivenessExpiry e = (ev, e1)"
      by fastforce
    obtain e2 r where c: "commit env ev (rel_Structural rel) e1 = (e2, r)" by fastforce
    have "books e2" using books_bk [of e2 e] bk_commit [OF c] bk_relationEvent [OF re] b by simp
    with del [OF this] Some re c show ?thesis by (cases r) (simp_all add: expireRelation_def)
  qed
qed

lemma books_fold:
  assumes "\<And>x e res errs. books e \<Longrightarrow> books (fst (f x (e, res, errs)))"
  shows "books e \<Longrightarrow> books (fst (fold f xs (e, res, errs)))"
proof (induction xs arbitrary: e res errs)
  case (Cons x xs)
  obtain e1 res1 errs1 where f: "f x (e, res, errs) = (e1, res1, errs1)" by (metis prod_cases3)
  with Cons.IH [of e1 res1 errs1] assms [OF Cons.prems, of x res errs] show ?case by simp
qed simp

lemma names_ok_filter:
  assumes "names_ok c"
  shows "names_ok (c\<lparr>cn_values := filter P (cn_values c)\<rparr>)"
proof -
  have d: "gdistinct (cn_values c)" using assms by (simp add: names_ok_def)
  then have "gdistinct (filter P (cn_values c))" by (simp add: gdistinct_def distinct_map_filter)
  moreover have sub: "ghas (cn_values c) v" if "ghas (filter P (cn_values c)) v" for v
    using that by (auto simp: ghas_iff)
  moreover have "ghas (filter P (cn_values c)) (cn_last c) \<or> length (filter P (cn_values c)) < maxContestedDisplayNames"
  proof (cases "length (filter P (cn_values c)) < length (cn_values c)")
    case True
    with assms show ?thesis by (auto simp: names_ok_def)
  next
    case False
    then have "filter P (cn_values c) = cn_values c"
      by (metis length_filter_less filter_True)
    with assms show ?thesis by (simp add: names_ok_def)
  qed
  moreover have "length (filter P (cn_values c)) \<le> maxContestedDisplayNames"
    using assms order_trans [OF length_filter_le [of P "cn_values c"], of maxContestedDisplayNames]
    by (simp add: names_ok_def)
  ultimately show ?thesis using assms by (auto simp: names_ok_def)
qed

lemma contested_ok_sweep: "contested_ok (e_contested e) \<Longrightarrow> contested_ok (e_contested (sweepContested now e))"
proof -
  let ?f = "\<lambda>m (i, c). let (interval, ok) = livenessIntervalLocked e i;
            values = (if ok then filter (\<lambda>(v, seenAt). \<not> now > seenAt + interval) (cn_values c) else cn_values c)
          in if values = [] then gdel i m else gput i (c\<lparr>cn_values := values\<rparr>) m"
  assume co: "contested_ok (e_contested e)"
  have step: "contested_ok m \<Longrightarrow> \<forall>(i, c) \<in> set xs. names_ok c \<Longrightarrow> contested_ok (foldl ?f m xs)" for m xs
  proof (induction xs arbitrary: m)
    case (Cons x xs)
    obtain i c where x: "x = (i, c)" by (cases x)
    have "names_ok c" using Cons.prems by (simp add: x)
    then have n: "names_ok (c\<lparr>cn_values := vs\<rparr>)" if "vs = cn_values c \<or> (\<exists>P. vs = filter P (cn_values c))" for vs
      using that names_ok_filter [of c] by auto
    obtain interval ok where l: "livenessIntervalLocked e i = (interval, ok)" by fastforce
    define vs where "vs = (if ok then filter (\<lambda>(v, seenAt). \<not> now > seenAt + interval) (cn_values c) else cn_values c)"
    have vs: "vs = cn_values c \<or> (\<exists>P. vs = filter P (cn_values c))" unfolding vs_def by (cases ok) auto
    have eq: "?f m (i, c) = (if vs = [] then gdel i m else gput i (c\<lparr>cn_values := vs\<rparr>) m)"
      by (simp only: l Let_def prod.case vs_def)
    have "contested_ok (?f m (i, c))"
      unfolding eq using Cons.prems(1) n [OF vs] by (auto simp: contested_ok_def split: if_splits)
    from Cons.IH [OF this] Cons.prems(2) show ?case by (simp add: x)
  qed simp
  have "\<forall>(i, c) \<in> set (e_contested e). names_ok c"
    using co by (auto simp: contested_ok_def gdistinct_in_set_iff)
  from step [OF co this] show ?thesis by (simp add: sweepContested_def)
qed

lemma books_sweepContested: "books e \<Longrightarrow> books (sweepContested now e)"
  using contested_ok_sweep [of e now] by (simp add: books_def parked_ok_def sweepContested_def)

lemma bk_drop_fold [simp]:
  "bk (fold (\<lambda>p e. if pr_deadline p < now then dropPendingRelation (pr_obs p) e else e) ps e) = bk e"
  by (induction ps arbitrary: e) auto

lemma books_sweepPending:
  assumes "books e"
  shows "books (sweepPending now e)"
proof (cases "e_pending e = []")
  case False
  let ?e = "fold (\<lambda>p e. if pr_deadline p < now then dropPendingRelation (pr_obs p) e else e) (e_pending e) e"
  have "books ?e" using assms books_bk [OF bk_drop_fold] by blast
  moreover have "length (filter (\<lambda>p. \<not> now > pr_deadline p) (e_pending e)) \<le> maxPendingRelations"
    using assms order_trans [OF length_filter_le [of _ "e_pending e"], of maxPendingRelations]
    by (simp add: books_def parked_ok_def)
  ultimately show ?thesis using books_rebuild False by (simp add: sweepPending_def)
qed (use assms in \<open>simp add: sweepPending_def\<close>)

lemma books_sweepStage: "books e \<Longrightarrow> books (fst (sweepStage env e))"
proof -
  assume b: "books e"
  let ?now = "env_now env"
  obtain refs os sil where sw: "sweepRefs ?now (e_refs e) = (refs, os, sil)" by (metis prod_cases3)
  then have refs: "refs = foldl (\<lambda>m (i, sp). gput i (dropLapsed ?now sp) m) (e_refs e) (e_refs e)"
    unfolding sweepRefs_def sweep_pair by simp
  have "refs_ok refs" "promises_ok refs"
    using b refs_ok_drop promises_ok_drop by (simp_all add: refs books_def)
  then have b1: "books (e\<lparr>e_staged := Some newStaged, e_refs := refs\<rparr>)"
    using b by (simp add: books_def parked_ok_def)
  obtain e2 res2 errs2 where f2: "fold (expireEntity env sil) os (e\<lparr>e_staged := Some newStaged, e_refs := refs\<rparr>, zeroSweep, [])
      = (e2, res2, errs2)" by (metis prod_cases3)
  have "books (fst (fold (expireEntity env sil) os (e\<lparr>e_staged := Some newStaged, e_refs := refs\<rparr>, zeroSweep, [])))"
    by (rule books_fold [OF _ b1]) (rule books_expireEntity)
  with f2 have "books e2" by simp
  then have b3: "books (sweepPending ?now (sweepContested ?now e2))"
    by (intro books_sweepPending books_sweepContested)
  let ?e3 = "sweepPending ?now (sweepContested ?now e2)"
  obtain rr ex where sr: "sweepRelRefs ?now (e_relRefs ?e3) = (rr, ex)" by fastforce
  then have "rr = foldl (\<lambda>m (i, sp). gput i (dropLapsed ?now sp) m) (e_relRefs ?e3) (e_relRefs ?e3)"
    unfolding sweepRelRefs_def sweep_rel_pair by simp
  then have b4: "books (?e3\<lparr>e_relRefs := rr\<rparr>)" using b3 refs_ok_drop by (intro books_relRefs) (simp_all add: books_def)
  have "books (fst (fold (expireRelation env) ex (?e3\<lparr>e_relRefs := rr\<rparr>, res2, errs2)))"
    by (rule books_fold [OF _ b4]) (rule books_expireRelation)
  then show ?thesis
    using sw f2 sr by (simp add: sweepStage_def Let_def)
qed

lemma books_Sweep: "books e \<Longrightarrow> books (fst (Sweep env e))"
proof -
  assume b: "books e"
  obtain e1 res errs where s: "sweepStage env e = (e1, res, errs)" by (metis prod_cases3)
  obtain e2 ferr where f: "flushStaged env (stagedOf e1) e1 = (e2, ferr)" by fastforce
  have b2: "books e2" using books_sweepStage [OF b, of env] s books_bk [OF bk_flushStaged [OF f]] by simp
  let ?e3 = "e2\<lparr>e_aliases := alias_sweep (env_now env) (e_aliases e2)\<rparr>"
  have "books ?e3" using b2 by (intro books_aliases alias_wf_sweep) (simp_all add: books_def)
  then have "books (?e3\<lparr>e_graph := fst (PruneTombstones (env_now env) (e_graph e2))\<rparr>)"
    using books_bk [OF bk_updates(1)] by blast
  with s f show ?thesis by (simp add: Sweep_def Let_def case_prod_beta)
qed

lemma books_batchStep: "books e \<Longrightarrow> books (batchStep env op e)"
proof (cases op)
  case (BOnRollback fn)
  assume "books e"
  with BOnRollback show ?thesis by (cases "e_staged e") (simp_all add: books_bk [OF bk_updates(3)])
next
  case (BSetScope sc)
  assume "books e"
  with BSetScope show ?thesis by (simp add: books_bk [OF bk_setCurrentScope])
qed (simp_all add: books_observeEntity books_deleteEntity books_buffered books_removeRelation)

lemma books_Batch:
  assumes "books e"
  shows "books (fst (Batch env ops e))"
proof -
  have "books e1 \<Longrightarrow> books (fold (batchStep env) ops e1)" for e1
    by (induction ops arbitrary: e1) (simp_all add: books_batchStep)
  moreover have "books (e\<lparr>e_staged := Some newStaged\<rparr>)" using assms books_bk [OF bk_updates(3)] by blast
  ultimately have b: "books (fold (batchStep env) ops (e\<lparr>e_staged := Some newStaged\<rparr>))" by blast
  obtain e' err where "flushStaged env (stagedOf (fold (batchStep env) ops (e\<lparr>e_staged := Some newStaged\<rparr>)))
      (fold (batchStep env) ops (e\<lparr>e_staged := Some newStaged\<rparr>)) = (e', err)" by fastforce
  with books_bk [OF bk_flushStaged [OF this]] b show ?thesis by (simp add: Batch_def Let_def)
qed

text \<open>Restoring the liveness memento: the bound on promises holds for what is restored too.\<close>

lemma restoreRef_fold:
  assumes "gdistinct ps" and "\<And>k r. map_of ps k = Some r \<Longrightarrow> lr_interval r \<le> maxPlausibleLivenessPromise"
    and "fold (restoreRef env legacy snap i) xs (e, ps) = (e', ps')"
  shows "bk e' = bk e \<and> ecore e' = ecore e \<and> gdistinct ps' \<and>
    (\<forall>k r. map_of ps' k = Some r \<longrightarrow> lr_interval r \<le> maxPlausibleLivenessPromise)"
  using assms
proof (induction xs arbitrary: e ps)
  case (Cons x xs)
  obtain p d where x: "x = (p, d)" by (cases x)
  let ?q = "promise i [] (fst (splitRefKey p)) (gget 0 (gget [] (ls_RefIntervals snap) i) p) e"
  have le: "snd ?q \<le> maxPlausibleLivenessPromise" by (rule promise_snd)
  obtain d' lg where step: "restoreRef env legacy snap i x (e, ps) =
      (fst ?q, gput p \<lparr>lr_deadline = d', lr_interval = snd ?q, lr_legacy = lg\<rparr> ps)"
    by (simp add: restoreRef_def x Let_def case_prod_beta)
  let ?ps = "gput p \<lparr>lr_deadline = d', lr_interval = snd ?q, lr_legacy = lg\<rparr> ps"
  have "gdistinct ?ps" using Cons.prems(1) by simp
  moreover have "lr_interval r \<le> maxPlausibleLivenessPromise" if "map_of ?ps k = Some r" for k r
    using that le Cons.prems(2) by (auto split: if_splits)
  moreover have "fold (restoreRef env legacy snap i) xs (fst ?q, ?ps) = (e', ps')"
    using Cons.prems(3) step by simp
  ultimately have "bk e' = bk (fst ?q) \<and> ecore e' = ecore (fst ?q) \<and> gdistinct ps' \<and>
    (\<forall>k r. map_of ps' k = Some r \<longrightarrow> lr_interval r \<le> maxPlausibleLivenessPromise)"
    by (rule Cons.IH)
  then show ?case by simp
qed simp

lemma restoreEntity_inv: "books e \<Longrightarrow> books (restoreEntity env legacy snap x e) \<and> ecore (restoreEntity env legacy snap x e) = ecore e"
proof -
  assume b: "books e"
  obtain i ps0 where x: "x = (i, ps0)" by (cases x)
  obtain e1 ps where f: "fold (restoreRef env legacy snap i) ps0 (e, []) = (e1, ps)" by fastforce
  have R: "bk e1 = bk e \<and> ecore e1 = ecore e \<and> gdistinct ps \<and>
      (\<forall>k r. map_of ps k = Some r \<longrightarrow> lr_interval r \<le> maxPlausibleLivenessPromise)"
    by (rule restoreRef_fold [OF _ _ f]) (simp_all add: gdistinct_def)
  then have "books e1" using books_bk [of e1 e] b by simp
  then have "books (e1\<lparr>e_refs := gput i ps (e_refs e1)\<rparr>)"
    using R by (intro books_refs refs_ok_gput promises_ok_gput) (simp_all add: books_def)
  with R x f show ?thesis by (simp add: restoreEntity_def)
qed

lemma restoreRelation_inv: "books e \<Longrightarrow> books (restoreRelation env legacy snap x e) \<and> ecore (restoreRelation env legacy snap x e) = ecore e"
proof -
  assume b: "books e"
  obtain i ps0 where x: "x = (i, ps0)" by (cases x)
  have d: "gdistinct m \<Longrightarrow> gdistinct (foldl (\<lambda>ps (p, deadline). let interval = gget 0 (gget [] (ls_RelRefIntervals snap) i) p
       in gput p \<lparr>lr_deadline = floorDeadline deadline interval (env_now env), lr_interval = interval,
                  lr_legacy = (legacy \<and> snd (splitRefKey p) = [])\<rparr> ps) m xs)" for m xs
    by (induction xs arbitrary: m) (auto simp: Let_def)
  have "gdistinct []" by (simp add: gdistinct_def)
  from d [OF this, of ps0] b show ?thesis
    by (auto simp: restoreRelation_def x Let_def books_def intro!: books_relRefs [unfolded books_def, simplified] simp: parked_ok_def)
qed

lemma restoreDeadline_inv: "books e \<Longrightarrow> books (restoreDeadline env snap x e) \<and> ecore (restoreDeadline env snap x e) = ecore e"
proof -
  assume b: "books e"
  have "books (e\<lparr>e_relRefs := gput i [([], ref)] (e_relRefs e)\<rparr>)" for i ref
    using b by (intro books_relRefs refs_ok_gput) (simp_all add: books_def gdistinct_def)
  with b show ?thesis by (simp add: restoreDeadline_def Let_def split: prod.splits)
qed

lemma RestoreLiveness_inv: "books e \<Longrightarrow> books (RestoreLiveness env snap e) \<and> ecore (RestoreLiveness env snap e) = ecore e"
proof -
  assume b: "books e"
  have run: "books e1 \<Longrightarrow> books (fold f xs e1) \<and> ecore (fold f xs e1) = ecore e1"
    if "\<And>x e. books e \<Longrightarrow> books (f x e) \<and> ecore (f x e) = ecore e" for f xs and e1 :: "'a Engine"
    using that by (induction xs arbitrary: e1) auto
  let ?lg = "\<not> ls_SpeakerKeys snap \<and> \<not> carriesAnyCompositeKey snap"
  let ?e1 = "fold (restoreEntity env ?lg snap) (ls_Refs snap) e"
  let ?e2 = "fold (restoreRelation env ?lg snap) (ls_RelRefs snap) ?e1"
  have 1: "books ?e1 \<and> ecore ?e1 = ecore e" by (rule run [OF restoreEntity_inv b])
  have 2: "books ?e2 \<and> ecore ?e2 = ecore ?e1" by (rule run [OF restoreRelation_inv conjunct1 [OF 1]])
  have "books (fold (restoreDeadline env snap) (ls_RelDeadlines snap) ?e2) \<and>
      ecore (fold (restoreDeadline env snap) (ls_RelDeadlines snap) ?e2) = ecore ?e2"
    by (rule run [OF restoreDeadline_inv conjunct1 [OF 2]])
  with 1 2 show ?thesis by (simp add: RestoreLiveness_def Let_def)
qed

section \<open>Reachable states\<close>

inductive reach :: "(nat \<Rightarrow> string) \<Rightarrow> 'a Engine \<Rightarrow> bool" for ulid where
  new: "reach ulid (NewEngine (NewWithTombstoneCap n) a)"
| with_buffer: "reach ulid e \<Longrightarrow> reach ulid (WithRelationBuffer ttl e)"
| set_discard: "reach ulid e \<Longrightarrow> reach ulid (SetDiscardReporter fn e)"
| set_conflict: "reach ulid e \<Longrightarrow> reach ulid (SetIdentityAliasConflictReporter fn e)"
| set_promise: "reach ulid e \<Longrightarrow> reach ulid (SetPromiseReporter fn e)"
| subscribe: "reach ulid e \<Longrightarrow> reach ulid (fst (Subscribe e))"
| unsubscribe: "reach ulid e \<Longrightarrow> reach ulid (Unsubscribe i e)"
| observe_entity: "reach ulid e \<Longrightarrow> env_ulid env = ulid \<Longrightarrow> reach ulid (fst (ObserveEntity env obs e))"
| delete_entity: "reach ulid e \<Longrightarrow> env_ulid env = ulid \<Longrightarrow> DeleteEntity env obs e = (e', ev, err) \<Longrightarrow>
    ev = None \<or> err = None \<Longrightarrow> reach ulid e'"
| observe_relation: "reach ulid e \<Longrightarrow> env_ulid env = ulid \<Longrightarrow> reach ulid (fst (ObserveRelation env obs e))"
| remove_relation: "reach ulid e \<Longrightarrow> env_ulid env = ulid \<Longrightarrow> reach ulid (fst (RemoveRelation env obs e))"
| batch: "reach ulid e \<Longrightarrow> env_ulid env = ulid \<Longrightarrow> reach ulid (fst (Batch env ops e))"
| sweep: "reach ulid e \<Longrightarrow> env_ulid env = ulid \<Longrightarrow> reach ulid (fst (Sweep env e))"
| restore: "reach ulid e \<Longrightarrow> reach ulid (RestoreLiveness env snap e)"

definition idle_ok :: "(nat \<Rightarrow> string) \<Rightarrow> 'a Engine \<Rightarrow> bool" where
  "idle_ok ulid e = (good ulid e \<and> books e \<and> e_staged e = None)"

lemma idle_ok_same:
  assumes "idle_ok ulid e" and "e_graph e' = e_graph e" "e_staged e' = e_staged e" "e_ulids e' = e_ulids e" "bk e' = bk e"
  shows "idle_ok ulid e'"
proof -
  have "engine_inv ulid hid e' \<longleftrightarrow> engine_inv ulid hid e" for hid
    using assms by (simp add: idle_ok_def engine_inv_def engine_ids_def)
  moreover have "eview e' = eview e" using assms by (simp add: idle_ok_def eview_def)
  ultimately show ?thesis using assms books_bk [OF assms(5)] by (simp add: idle_ok_def good_def sound_def)
qed

lemma idle_ok_new:
  assumes "ulid_ok ulid"
  shows "idle_ok ulid (NewEngine (NewWithTombstoneCap n) a)"
proof -
  let ?g = "NewWithTombstoneCap n"
  have wf: "graph_wf ?g" by (rule graph_wf_New)
  have v: "view ?g = emptyTopology" by simp
  have "graph_inv hid ?g" for hid
    using wf v by (simp add: graph_inv_def graph_wf_def rel_keys_def emptyTopology_def NewWithTombstoneCap_def)
  moreover have "graph_ids ?g = {}"
    by (simp add: graph_ids_def isDeleted_def NewWithTombstoneCap_def gget_def ghas_def)
  moreover have "no_dangling (view ?g)" by (simp add: v no_dangling_def emptyTopology_def)
  ultimately have "good ulid (NewEngine ?g a)"
    using assms by (simp add: good_def sound_def engine_inv_def engine_ids_def eview_def NewEngine_def)
  moreover have "books (NewEngine ?g a)"
    by (simp add: books_def NewEngine_def refs_ok_def promises_ok_def contested_ok_def parked_ok_def alias_wf_new gdistinct_def)
  ultimately show ?thesis by (simp add: idle_ok_def NewEngine_def)
qed

lemma reach_idle:
  assumes "ulid_ok ulid" and "reach ulid e"
  shows "idle_ok ulid e"
  using assms(2)
proof induction
  case (new n a)
  show ?case by (rule idle_ok_new [OF assms(1)])
next
  case (with_buffer e ttl)
  from with_buffer.IH show ?case by (rule idle_ok_same [of _ e]) (simp_all add: WithRelationBuffer_def bk_def)
next
  case (set_discard e fn)
  from set_discard.IH show ?case by (rule idle_ok_same [of _ e]) (simp_all add: SetDiscardReporter_def bk_def)
next
  case (set_conflict e fn)
  from set_conflict.IH show ?case by (rule idle_ok_same [of _ e]) (simp_all add: SetIdentityAliasConflictReporter_def bk_def)
next
  case (set_promise e fn)
  from set_promise.IH show ?case by (rule idle_ok_same [of _ e]) (simp_all add: SetPromiseReporter_def bk_def)
next
  case (subscribe e)
  from subscribe.IH show ?case by (rule idle_ok_same [of _ e]) (simp_all add: Subscribe_def bk_def)
next
  case (unsubscribe e i)
  from unsubscribe.IH show ?case by (rule idle_ok_same [of _ e]) (simp_all add: Unsubscribe_def bk_def)
next
  case (observe_entity e env obs)
  obtain e' res where o: "observeEntityLocked env obs e = (e', res)" by fastforce
  with observe_entity observeEntity_sound [of env e obs e' res] books_observeEntity [of e env obs] show ?case
    by (simp add: idle_ok_def ObserveEntity_def)
next
  case (delete_entity e env obs e' ev err)
  from delete_entity.hyps(3) have o: "deleteEntityLocked env obs e = (e', ev, err)" by (simp add: DeleteEntity_def)
  have g: "good (env_ulid env) e" using delete_entity by (simp add: idle_ok_def)
  note D = deleteEntity_sound [OF g o]
  have "good ulid e'" using D(2) delete_entity.hyps(2,4) by auto
  moreover have "books e'" using books_deleteEntity [of e env obs] o delete_entity by (simp add: idle_ok_def)
  moreover have "e_staged e' = None" using D(1) delete_entity by (simp add: idle_ok_def)
  ultimately show ?case by (simp add: idle_ok_def)
next
  case (observe_relation e env obs)
  then have g: "good ulid e" "books e" "e_staged e = None" by (simp_all add: idle_ok_def)
  from good_keeps [OF g(1) keeps_buffered, of env obs] g books_buffered [of e env obs] show ?case
    by (simp add: idle_ok_def ObserveRelation_def)
next
  case (remove_relation e env obs)
  then have g: "good ulid e" "books e" "e_staged e = None" by (simp_all add: idle_ok_def)
  from good_keeps [OF g(1) keeps_removeRelation, of env obs] g books_removeRelation [of e env obs] show ?case
    by (simp add: idle_ok_def RemoveRelation_def)
next
  case (batch e env ops)
  obtain e' err where b: "Batch env ops e = (e', err)" by fastforce
  with batch Batch_good [of env e ops e' err] books_Batch [of e env ops] show ?case by (simp add: idle_ok_def)
next
  case (sweep e env)
  obtain e' res err where s: "Sweep env e = (e', res, err)" by (metis prod_cases3)
  have "refs_ok (e_refs e)" using sweep by (simp add: idle_ok_def books_def)
  with sweep Sweep_sound [of env e e' res err] books_Sweep [of e env] s show ?case by (simp add: idle_ok_def)
next
  case (restore e env snap)
  then have "books e" "good ulid e" "e_staged e = None" by (simp_all add: idle_ok_def)
  with RestoreLiveness_inv [of e env snap] good_core [of "RestoreLiveness env snap e" e ulid] show ?case
    by (simp add: idle_ok_def ecore_def)
qed

end
