(* ===== verification/Change_Theorems.thy ===== *)
theory Change_Theorems
  imports Change_Reach
begin

text \<open>
  The properties of the change engine, stated over the definitions of \<open>Change_Engine\<close> for the
  states reachable by calls, with a small run on which the hypotheses hold.
\<close>

section \<open>Attribute differences\<close>

lemma map_of_canonMap_fold:
  "map_of (foldl (\<lambda>m (k, v). gput k (canonical v) m) m kvs) k =
     (case map_of (rev kvs) k of Some v \<Rightarrow> Some (canonical v) | None \<Rightarrow> map_of m k)"
  by (induction kvs arbitrary: m) (auto simp: map_add_def split: option.splits)

lemma map_of_canonMap: "map_of (canonMap kvs) k = map_option canonical (map_of (rev kvs) k)"
  by (simp add: canonMap_def map_of_canonMap_fold split: option.splits)

lemma gdistinct_canonMap: "gdistinct (canonMap kvs)"
proof -
  have "gdistinct m \<Longrightarrow> gdistinct (foldl (\<lambda>m (k, v). gput k (canonical v) m) m kvs)" for m
    by (induction kvs arbitrary: m) auto
  then show ?thesis by (simp add: canonMap_def gdistinct_def)
qed

lemma diff_changed:
  "k \<in> set (fst (diffAttributes old new)) \<longleftrightarrow> map_of (canonMap old) k \<noteq> map_of (canonMap new) k"
proof -
  have n: "(k, v) \<in> set (canonMap kvs) \<longleftrightarrow> map_of (canonMap kvs) k = Some v" for v kvs
    using gdistinct_canonMap by (simp add: gdistinct_in_set_iff)
  have "k \<in> set (fst (diffAttributes old new)) \<longleftrightarrow>
      (\<exists>v. map_of (canonMap new) k = Some v \<and> (\<not> ghas (canonMap old) k \<or> map_of (canonMap old) k \<noteq> Some v))
      \<or> (ghas (canonMap old) k \<and> \<not> ghas (canonMap new) k)"
    by (force simp: diffAttributes_def Let_def n [symmetric] gkeys_def ghas_iff)
  then show ?thesis by (auto simp: ghas_def)
qed

lemma diff_state:
  "snd (diffAttributes old new) \<longleftrightarrow> (\<exists>k. ghas stateKeys k \<and> map_of (canonMap old) k \<noteq> map_of (canonMap new) k)"
  unfolding diff_changed [symmetric] by (auto simp: diffAttributes_def Let_def list_ex_iff)

lemma diff_same: "fst (diffAttributes as as) = []"
  using diff_changed [of _ as as] by (metis last_in_set)

section \<open>A small run\<close>

definition fxUlid :: "nat \<Rightarrow> string" where
  "fxUlid n = replicate (Suc n) (CHR ''a'')"

definition fxEnv :: "time \<Rightarrow> Event list env" where
  "fxEnv t = \<lparr>env_now = t, env_ulid = fxUlid,
     env_append = (\<lambda>l evs. Inr (l @ evs, of_nat (length l + 1)))\<rparr>"

definition fxObs :: EntityObservation where
  "fxObs = \<lparr>eo_Type = ''host'', eo_Identity = [(''host.id'', StringValue ''a'')],
     eo_Attributes = [(''host.name'', StringValue ''web'')], eo_SchemaURL = [], eo_EventTime = 1,
     eo_Interval = 10, eo_Producer = ''agent'', eo_DeleteReason = []\<rparr>"

definition fxStart :: "Event list Engine" where
  "fxStart = NewEngine NewGraph []"

definition fxEngine :: "Event list Engine" where
  "fxEngine = fst (ObserveEntity (fxEnv 1) fxObs fxStart)"

lemma fx_ulid_ok: "ulid_ok fxUlid"
  by (simp add: ulid_ok_def inj_def fxUlid_def)

lemma fx_reach: "reach fxUlid fxStart" "reach fxUlid fxEngine"
proof -
  show "reach fxUlid fxStart" unfolding fxStart_def NewGraph_def by (rule reach.new)
  then show "reach fxUlid fxEngine"
    unfolding fxEngine_def by (rule reach.observe_entity) (simp add: fxEnv_def)
qed

lemma reach_good:
  assumes "ulid_ok ulid" and "reach ulid e"
  obtains hid where "sound ulid hid e" and "graph_inv hid (e_graph e)" and "eview e = view (e_graph e)"
    and "e_staged e = None" and "books e"
proof -
  have i: "idle_ok ulid e" by (rule reach_idle [OF assms])
  then obtain hid where "sound ulid hid e" by (auto simp: idle_ok_def good_def)
  moreover from this have "graph_inv hid (e_graph e)" by (simp add: sound_def engine_inv_def)
  ultimately show thesis using that i by (simp add: idle_ok_def eview_def)
qed

section \<open>Invariants of reachable states\<close>

text \<open>
  C38. Edges die with their node: in every state the engine reaches through its calls, as long as
  no direct deletion reported a failed cascade, both endpoints of every relation of the projection
  are live entities.
\<close>

theorem no_edge_to_a_dead_entity:
  assumes "ulid_ok ulid" and "reach ulid e" and "GetRelation (e_graph e) i = Some r"
  shows "live (e_graph e) (rel_From r) \<noteq> None \<and> live (e_graph e) (rel_To r) \<noteq> None"
proof -
  obtain hid where "sound ulid hid e" and v: "eview e = view (e_graph e)"
    using reach_good [OF assms(1,2)] by blast
  then have "no_dangling (view (e_graph e))" by (simp add: sound_def)
  with assms(3) show ?thesis by (auto simp: no_dangling_def GetRelation_def)
qed

text \<open>
  One identity, one entity: in every reachable state two live entities with the same identity
  hash are the same entity, the identity and type indexes list exactly the live entities, and the
  soft-deleted ids are exactly those the tombstone counter counts.
\<close>

theorem identity_is_unique:
  assumes "ulid_ok ulid" and "reach ulid e"
  shows "wf_index (e_graph e) \<and> wf_tombs (e_graph e) \<and>
    (\<forall>i j a b. live (e_graph e) i = Some a \<longrightarrow> live (e_graph e) j = Some b \<longrightarrow> IdentityHash a = IdentityHash b \<longrightarrow> i = j)"
proof -
  obtain hid where g: "graph_inv hid (e_graph e)" using reach_good [OF assms] by blast
  then have "wf_index (e_graph e)" "wf_tombs (e_graph e)" by (simp_all add: graph_inv_def)
  with live_unique [of "e_graph e"] show ?thesis by blast
qed

theorem identity_is_unique_witness: "reach fxUlid fxEngine \<and> wf_index (e_graph fxEngine)"
  using identity_is_unique [OF fx_ulid_ok fx_reach(2)] fx_reach(2) by blast

text \<open>
  The bookkeeping stays within its bounds in every reachable state: at most 4096 edges are
  parked, at most eight names are remembered per entity, and no reference on an entity promises
  more than the seven days an interval may plausibly be, restored references included.
\<close>

theorem bookkeeping_bounded:
  assumes "ulid_ok ulid" and "reach ulid e"
  shows "length (e_pending e) \<le> 4096 \<and> (\<forall>i c. map_of (e_contested e) i = Some c \<longrightarrow> length (cn_values c) \<le> 8) \<and>
    (\<forall>i sp k ref. map_of (e_refs e) i = Some sp \<longrightarrow> map_of sp k = Some ref \<longrightarrow>
       lr_interval ref \<le> maxPlausibleLivenessPromise)"
proof -
  obtain b: "books e" using reach_good [OF assms] by blast
  then have "length (e_pending e) \<le> 4096" by (simp add: books_def parked_ok_def maxPendingRelations_def)
  moreover have "length (cn_values c) \<le> 8" if "map_of (e_contested e) i = Some c" for i c
    using b that by (auto simp: books_def contested_ok_def names_ok_def maxContestedDisplayNames_def)
  moreover have "lr_interval ref \<le> maxPlausibleLivenessPromise" if "map_of (e_refs e) i = Some sp" "map_of sp k = Some ref" for i sp k ref
    using b that by (auto simp: books_def promises_ok_def)
  ultimately show ?thesis by blast
qed

theorem bookkeeping_bounded_witness: "reach fxUlid fxEngine \<and> length (e_pending fxEngine) \<le> 4096"
  using bookkeeping_bounded [OF fx_ulid_ok fx_reach(2)] fx_reach(2) by blast

text \<open>
  No parked edge is forgotten: in every reachable state, for each edge of the buffer, the
  arrival of an entity with the identity of either endpoint is recognised as one the buffer waits
  for.
\<close>

theorem parked_edges_are_indexed:
  assumes "ulid_ok ulid" and "reach ulid e" and "p \<in> set (e_pending e)"
  shows "ghas (e_pendingHashes e) (endpointHash (ro_From (pr_obs p))) \<and>
    ghas (e_pendingHashes e) (endpointHash (ro_To (pr_obs p)))"
proof -
  obtain b: "books e" using reach_good [OF assms(1,2)] by blast
  with assms(3) show ?thesis by (auto simp: books_def parked_ok_def)
qed

section \<open>Observing\<close>

lemma classify_unchanged:
  assumes inv: "engine_inv ulid hid e" and c: "classify env obs e = ((ct, i, changed, prev), e1)"
    and m: "matchIdentity e (eo_Type obs) (eo_Identity obs) = Some i" and ent: "tp_entities (eview e) i = Some ent"
  shows "(changed, ct) = (fst (diffAttributes (ent_Attributes ent) (eo_Attributes obs)),
    if fst (diffAttributes (ent_Attributes ent) (eo_Attributes obs)) = [] then EntityUnchanged
    else if snd (diffAttributes (ent_Attributes ent) (eo_Attributes obs)) then EntityStateChanged else EntityAttributeUpdated)"
  using c m getEntity_eview [OF ent] by (auto simp: classify_def Let_def case_prod_beta)

lemma observe_exact_at:
  assumes u: "ulid_ok (env_ulid env)" and r: "reach (env_ulid env) e" and o: "ObserveEntity env obs e = (e', Inr ev)"
    and at: "classify env obs e = ((ct0, i, changed0, prev0), e0)"
  shows "\<exists>ent. MatchIdentity (e_graph e') (eo_Type obs) (eo_Identity obs) = Some i \<and> live (e_graph e') i = Some ent \<and>
    fst (diffAttributes (ent_Attributes ent) (eo_Attributes obs)) = [] \<and>
    (\<forall>old. live (e_graph e) i = Some old \<longrightarrow> IdentityHash old = IdentityHash ent) \<and>
    (\<forall>j. j \<noteq> i \<longrightarrow> live (e_graph e') j = live (e_graph e) j)"
proof -
  obtain hid where s: "sound (env_ulid env) hid e" and v: "eview e = view (e_graph e)" and n: "e_staged e = None"
    using reach_good [OF u r] by blast
  have inv: "engine_inv (env_ulid env) hid e" using s by (simp add: sound_def)
  have g: "good (env_ulid env) e" using s u by (auto simp: good_def)
  have o': "observeEntityLocked env obs e = (e', Inr ev)" using o by (simp add: ObserveEntity_def)
  from observeEntity_sound [OF g o'] at obtain ct changed prev e1 ee where
    g': "good (env_ulid env) e'" and n': "e_staged e' = None"
    and c: "classify env obs e = ((ct, i, changed, prev), e1)" and ee: "ee_ChangeType ee = ct" "ee_Entity ee = observedEntity obs i"
    and live': "tp_entities (eview e') = tp_entities (spec_apply (entityEvent ee) (eview e))"
    using n by auto
  obtain hid' where s': "sound (env_ulid env) hid' e'" using g' by (auto simp: good_def)
  have v': "eview e' = view (e_graph e')" using n' by (simp add: eview_def)
  have ct: "ct \<in> {EntityCreated, EntityUnchanged, EntityStateChanged, EntityAttributeUpdated}"
    using c by (cases rule: classify_cases) auto
  have same_hash: "IdentityHash old = identityHashOf (eo_Type obs) (eo_Identity obs)"
    if old: "live (e_graph e) i = Some old" for old
  proof -
    from classify_ok [OF inv u c] obtain hid1 where inv1: "engine_inv (env_ulid env) hid1 e1" and cl: "classified hid1 e1 obs ct i"
      and v1: "eview e1 = eview e" by blast
    have "tp_entities (eview e1) i = Some old" using old v v1 by simp
    with eview_inv(3) [OF inv1] cl show ?thesis by (auto simp: hid_ok_def classified_def split: if_splits)
  qed
  have E: "\<exists>ent. live (e_graph e') i = Some ent \<and> IdentityHash ent = identityHashOf (eo_Type obs) (eo_Identity obs) \<and>
      fst (diffAttributes (ent_Attributes ent) (eo_Attributes obs)) = [] \<and>
      (\<forall>old. live (e_graph e) i = Some old \<longrightarrow> IdentityHash old = IdentityHash ent) \<and>
      (\<forall>j. j \<noteq> i \<longrightarrow> live (e_graph e') j = live (e_graph e) j)"
  proof (cases "ct = EntityUnchanged")
    case True
    from c True have m: "matchIdentity e (eo_Type obs) (eo_Identity obs) = Some i"
      by (cases rule: classify_cases) auto
    then obtain ent where ent: "tp_entities (eview e) i = Some ent" and h: "hid i = identityHashOf (eo_Type obs) (eo_Identity obs)"
      unfolding matchIdentity_iff [OF inv] by auto
    from classify_unchanged [OF inv c m ent] True have "fst (diffAttributes (ent_Attributes ent) (eo_Attributes obs)) = []"
      by (auto split: if_splits)
    moreover have "IdentityHash ent = identityHashOf (eo_Type obs) (eo_Identity obs)"
      using eview_inv(3) [OF inv] ent h by (simp add: hid_ok_def)
    moreover have "live (e_graph e') = live (e_graph e)"
      using live' spec_observed(3) [OF ct _ ee] True ent v v' by simp
    ultimately show ?thesis using ent v by auto
  next
    case False
    have "live (e_graph e') = (live (e_graph e))(i \<mapsto> observedEntity obs i)"
      using live' spec_observed(2) [OF ct _ ee] False v v' by simp
    then show ?thesis using same_hash by (simp add: diff_same) (simp add: observedEntity_def diff_same)
  qed
  have "wf_index (e_graph e')" using s' by (simp add: sound_def engine_inv_def graph_inv_def)
  from MatchIdentity_iff [OF this] E show ?thesis by blast
qed

lemma observe_exact:
  assumes u: "ulid_ok (env_ulid env)" and r: "reach (env_ulid env) e" and o: "ObserveEntity env obs e = (e', Inr ev)"
  shows "\<exists>i ent. MatchIdentity (e_graph e') (eo_Type obs) (eo_Identity obs) = Some i \<and> live (e_graph e') i = Some ent \<and>
    fst (diffAttributes (ent_Attributes ent) (eo_Attributes obs)) = [] \<and>
    (\<forall>old. live (e_graph e) i = Some old \<longrightarrow> IdentityHash old = IdentityHash ent) \<and>
    (\<forall>j. j \<noteq> i \<longrightarrow> live (e_graph e') j = live (e_graph e) j)"
proof -
  obtain ct i changed prev e1 where c: "classify env obs e = ((ct, i, changed, prev), e1)" by (metis surj_pair)
  from observe_exact_at [OF assms c] show ?thesis by blast
qed

lemma observe_match:
  assumes "ulid_ok (env_ulid env)" and "reach (env_ulid env) e" and "ObserveEntity env obs e = (e', Inr ev)"
    and "classify env obs e = ((ct, i, changed, prev), e1)"
  shows "MatchIdentity (e_graph e') (eo_Type obs) (eo_Identity obs) = Some i"
  using observe_exact_at [OF assms] by blast

text \<open>
  C35. What is observed is what the projection holds: after an observation that the log accepted,
  in any reachable state, the observed type and identity match exactly one live entity, whose
  attributes differ from the observed ones in no key; it replaces no live entity of another
  identity, and every other entity is as it was.
\<close>

theorem observed_entity_is_live:
  assumes u: "ulid_ok (env_ulid env)" and r: "reach (env_ulid env) e" and o: "ObserveEntity env obs e = (e', Inr ev)"
  shows "\<exists>i ent. MatchIdentity (e_graph e') (eo_Type obs) (eo_Identity obs) = Some i \<and> live (e_graph e') i = Some ent \<and>
    fst (diffAttributes (ent_Attributes ent) (eo_Attributes obs)) = [] \<and>
    (\<forall>old. live (e_graph e) i = Some old \<longrightarrow> IdentityHash old = IdentityHash ent) \<and>
    (\<forall>j. j \<noteq> i \<longrightarrow> live (e_graph e') j = live (e_graph e) j)"
  by (rule observe_exact [OF assms])

lemma observeRelation_view:
  assumes s: "sound ulid hid e" and ends: "resolveEndpoints e (ro_From obs) (ro_To obs) = Inr (i, j)"
    and o: "observeRelationLocked env obs e = (e', ev, None)"
  shows "\<exists>r. tp_relations (eview e') (ComputeRelationID (ro_Type obs) i j) = Some r \<and>
      fst (diffAttributes (rel_Attributes r) (ro_Attributes obs)) = []"
    and "k \<noteq> ComputeRelationID (ro_Type obs) i j \<Longrightarrow> tp_relations (eview e') k = tp_relations (eview e) k"
proof -
  let ?rel = "NewRelation (ro_Type obs) i j (ro_Attributes obs)"
  let ?e = "referRelation env obs i (rel_ID ?rel) e"
  have core: "ecore ?e = ecore e" by simp
  note sc = ecore_sound [OF core]
  have s1: "sound ulid hid ?e" using s sc(1) by blast
  have live: "tp_entities (eview ?e) i \<noteq> None \<and> tp_entities (eview ?e) j \<noteq> None"
    using resolveEndpoints_live [of ulid hid e] s ends sc(2) by (simp add: sound_def)
  consider (same) r where "e' = ?e" "getRelation ?e (rel_ID ?rel) = Some r"
      "fst (diffAttributes (rel_Attributes r) (ro_Attributes obs)) = []"
    | (emit) ct ev1 e1 ev2 where "ct \<in> {RelationAdded, RelationAttributeChanged}"
        "relationEvent env ct ?rel (ro_EventTime obs) DeleteSourceUnknown ?e = (ev1, e1)"
        "commit env ev1 (rel_Structural ?rel \<and> ct = RelationAdded) e1 = (e', Inr ev2)"
    using o ends
    by (force simp: observeRelationLocked_def Let_def split: option.splits prod.splits sum.splits if_splits)
  then have "(\<exists>r. tp_relations (eview e') (rel_ID ?rel) = Some r \<and> fst (diffAttributes (rel_Attributes r) (ro_Attributes obs)) = [])
      \<and> (k \<noteq> rel_ID ?rel \<longrightarrow> tp_relations (eview e') k = tp_relations (eview e) k)"
  proof cases
    case same
    with sc(2) show ?thesis by (auto simp: getRelation_eview)
  next
    case emit
    have "eview e' = (eview ?e)\<lparr>tp_relations := (tp_relations (eview ?e))(rel_ID ?rel \<mapsto> ?rel)\<rparr>"
      using commit_relation(4) [OF s1 _ _ emit(2,3)] emit(1) live by auto
    with sc(2) show ?thesis by (simp add: diff_same)
  qed
  then show "\<exists>r. tp_relations (eview e') (ComputeRelationID (ro_Type obs) i j) = Some r \<and>
      fst (diffAttributes (rel_Attributes r) (ro_Attributes obs)) = []"
    and "k \<noteq> ComputeRelationID (ro_Type obs) i j \<Longrightarrow> tp_relations (eview e') k = tp_relations (eview e) k"
    by simp_all
qed

lemma observe_edge_exact:
  assumes u: "ulid_ok (env_ulid env)" and r: "reach (env_ulid env) e" and t: "ro_Type obs \<noteq> RelSameAs"
    and ends: "resolveEndpoints e (ro_From obs) (ro_To obs) = Inr (i, j)"
    and o: "ObserveRelation env obs e = (e', ev, None)"
  shows "\<exists>rel. GetRelation (e_graph e') (ComputeRelationID (ro_Type obs) i j) = Some rel \<and>
    fst (diffAttributes (rel_Attributes rel) (ro_Attributes obs)) = [] \<and>
    (\<forall>k. k \<noteq> ComputeRelationID (ro_Type obs) i j \<longrightarrow> GetRelation (e_graph e') k = GetRelation (e_graph e) k) \<and>
    live (e_graph e') = live (e_graph e)"
proof -
  obtain hid where s: "sound (env_ulid env) hid e" and v: "eview e = view (e_graph e)" and n: "e_staged e = None"
    using reach_good [OF u r] by blast
  obtain e1 ev1 err1 where o1: "observeRelationLocked env obs e = (e1, ev1, err1)" by (metis prod_cases3)
  have "err1 \<noteq> Some EndpointMissing \<and> err1 \<noteq> Some EndpointsCollapsed"
    using o1 ends by (auto simp: observeRelationLocked_def commit_def Let_def n
        split: option.splits prod.splits sum.splits if_splits)
  with o o1 t have e': "e' = e1" "err1 = None"
    by (auto simp: ObserveRelation_def observeRelationBuffered_def split: if_splits)
  note V = observeRelation_view [OF s ends o1 [unfolded e'(2)]]
  have K: "keeps (env_ulid env) hid e e'" using keeps_buffered [OF s, of env obs] o by (simp add: ObserveRelation_def)
  then have v': "eview e' = view (e_graph e')" using n by (simp add: keeps_def eview_def)
  have ents: "tp_entities (eview e') = tp_entities (eview e)" using K by (simp add: keeps_def)
  from V(1) obtain rel where "tp_relations (eview e') (ComputeRelationID (ro_Type obs) i j) = Some rel"
    "fst (diffAttributes (rel_Attributes rel) (ro_Attributes obs)) = []" using e' by blast
  with V(2) ents show ?thesis unfolding e'(1) [symmetric] v v' by (auto simp: GetRelation_def)
qed

text \<open>
  C39. An observed edge between known entities is in the projection: in any reachable state, when a
  relation of another type than \<open>same_as\<close> is observed, both its endpoints resolve and the log accepts, the relation with the computed id is
  there with attributes that differ from the observed ones in no key, and every other relation and
  every entity is as it was.
\<close>

theorem observed_relation_is_live:
  assumes u: "ulid_ok (env_ulid env)" and r: "reach (env_ulid env) e" and t: "ro_Type obs \<noteq> RelSameAs"
    and ends: "resolveEndpoints e (ro_From obs) (ro_To obs) = Inr (i, j)"
    and o: "ObserveRelation env obs e = (e', ev, None)"
  shows "\<exists>rel. GetRelation (e_graph e') (ComputeRelationID (ro_Type obs) i j) = Some rel \<and>
    fst (diffAttributes (rel_Attributes rel) (ro_Attributes obs)) = [] \<and>
    (\<forall>k. k \<noteq> ComputeRelationID (ro_Type obs) i j \<longrightarrow> GetRelation (e_graph e') k = GetRelation (e_graph e) k) \<and>
    live (e_graph e') = live (e_graph e)"
  by (rule observe_edge_exact [OF assms])

section \<open>A run that accepts every append\<close>

lemma fx_commit:
  assumes "e_staged e = None"
  obtains e' ev' where "commit (fxEnv t) ev hp e = (e', Inr ev')"
  using assms by (simp add: commit_def fxEnv_def Let_def)

lemma fx_observe:
  assumes "reach fxUlid e"
  obtains e' ev where "ObserveEntity (fxEnv t) obs e = (e', Inr ev)" and "reach fxUlid e'"
proof -
  have n: "e_staged e = None" using reach_idle [OF fx_ulid_ok assms] by (simp add: idle_ok_def)
  obtain ct i changed prev e1 where c: "classify (fxEnv t) obs e = ((ct, i, changed, prev), e1)" by (metis surj_pair)
  have n1: "e_staged e1 = None" using c n by (cases rule: classify_cases) simp_all
  then have "\<exists>e' ev. ObserveEntity (fxEnv t) obs e = (e', Inr ev)"
    using c by (simp add: ObserveEntity_def observeEntityLocked_def mint_def commit_def fxEnv_def Let_def)
  then obtain e' ev where o: "ObserveEntity (fxEnv t) obs e = (e', Inr ev)" by blast
  have "reach fxUlid (fst (ObserveEntity (fxEnv t) obs e))"
    by (rule reach.observe_entity [OF assms]) (simp add: fxEnv_def)
  with o that show thesis by simp
qed

theorem observed_entity_is_live_witness:
  "\<exists>e' ev i. ObserveEntity (fxEnv 1) fxObs fxStart = (e', Inr ev) \<and>
     MatchIdentity (e_graph e') ''host'' [(''host.id'', StringValue ''a'')] = Some i"
proof -
  have e: "env_ulid (fxEnv 1) = fxUlid" by (simp add: fxEnv_def)
  obtain e' ev where o: "ObserveEntity (fxEnv 1) fxObs fxStart = (e', Inr ev)" using fx_observe [OF fx_reach(1)] by blast
  from observed_entity_is_live [of "fxEnv 1" fxStart fxObs e' ev, unfolded e, OF fx_ulid_ok fx_reach(1) o] o
  show ?thesis by (auto simp: fxObs_def)
qed

definition fxObs2 :: EntityObservation where
  "fxObs2 = fxObs\<lparr>eo_Type := ''process'', eo_Identity := [(''process.pid'', IntValue 7)]\<rparr>"

definition fxEdgeObs :: RelationObservation where
  "fxEdgeObs = \<lparr>ro_Type = RelRunsOn, ro_From = \<lparr>ep_Type = ''process'', ep_Identity = [(''process.pid'', IntValue 7)]\<rparr>,
     ro_To = \<lparr>ep_Type = ''host'', ep_Identity = [(''host.id'', StringValue ''a'')]\<rparr>,
     ro_Attributes = [], ro_EventTime = 2, ro_Producer = ''agent'', ro_Interval = 0, ro_SourceInterval = 0\<rparr>"

lemma fx_ulid_env [simp]: "env_ulid (fxEnv t) = fxUlid"
  by (simp add: fxEnv_def)

lemma fx_pair:
  obtains e :: "Event list Engine" where "reach fxUlid e" and "MatchIdentity (e_graph e) ''host'' [(''host.id'', StringValue ''a'')] \<noteq> None"
    and "MatchIdentity (e_graph e) ''process'' [(''process.pid'', IntValue 7)] \<noteq> None"
proof -
  obtain e1 ev1 where o1: "ObserveEntity (fxEnv 1) fxObs fxStart = (e1, Inr ev1)" and r1: "reach fxUlid e1"
    using fx_observe [OF fx_reach(1)] by blast
  obtain e2 ev2 where o2: "ObserveEntity (fxEnv 1) fxObs2 e1 = (e2, Inr ev2)" and r2: "reach fxUlid e2"
    using fx_observe [OF r1] by blast
  from observe_exact [of "fxEnv 1" fxStart fxObs e1 ev1] fx_ulid_ok fx_reach(1) o1
  obtain i where i: "MatchIdentity (e_graph e1) ''host'' [(''host.id'', StringValue ''a'')] = Some i" by (auto simp: fxObs_def)
  from observe_exact [of "fxEnv 1" e1 fxObs2 e2 ev2] fx_ulid_ok r1 o2
  obtain j b where j: "MatchIdentity (e_graph e2) ''process'' [(''process.pid'', IntValue 7)] = Some j"
    and b: "live (e_graph e2) j = Some b" and old: "\<forall>old. live (e_graph e1) j = Some old \<longrightarrow> IdentityHash old = IdentityHash b"
    and rest: "\<forall>k. k \<noteq> j \<longrightarrow> live (e_graph e2) k = live (e_graph e1) k"
    by (auto simp: fxObs2_def)
  have wf: "wf_index (e_graph e1)" "wf_index (e_graph e2)"
    using reach_good [OF fx_ulid_ok r1] reach_good [OF fx_ulid_ok r2] by (auto simp: graph_inv_def)
  from i obtain a where a: "live (e_graph e1) i = Some a" "IdentityHash a = identityHashOf ''host'' [(''host.id'', StringValue ''a'')]"
    unfolding MatchIdentity_iff [OF wf(1)] by blast
  from j b have hb: "IdentityHash b = identityHashOf ''process'' [(''process.pid'', IntValue 7)]"
    unfolding MatchIdentity_iff [OF wf(2)] by auto
  have "i \<noteq> j"
  proof
    assume "i = j"
    with old a hb have "identityHashOf ''host'' [(''host.id'', StringValue ''a'')] = identityHashOf ''process'' [(''process.pid'', IntValue 7)]"
      by auto
    from identityHashOf_type [OF this] show False by simp
  qed
  with rest a have "live (e_graph e2) i = Some a" by simp
  with a(2) have "MatchIdentity (e_graph e2) ''host'' [(''host.id'', StringValue ''a'')] = Some i"
    unfolding MatchIdentity_iff [OF wf(2)] by blast
  with that r2 j show thesis by auto
qed

lemma fx_edge:
  obtains e i j e' ev where "reach fxUlid e" and "resolveEndpoints e (ro_From fxEdgeObs) (ro_To fxEdgeObs) = Inr (i, j)"
    and "ObserveRelation (fxEnv 2) fxEdgeObs e = (e', ev, None)" and "reach fxUlid e'"
proof -
  obtain e :: "Event list Engine" and h p where r: "reach fxUlid e" and h: "MatchIdentity (e_graph e) ''host'' [(''host.id'', StringValue ''a'')] = Some h"
    and p: "MatchIdentity (e_graph e) ''process'' [(''process.pid'', IntValue 7)] = Some p"
    using fx_pair by blast
  obtain hid where s: "sound fxUlid hid e" and n: "e_staged e = None" using reach_good [OF fx_ulid_ok r] by blast
  have m: "matchIdentity e ''process'' [(''process.pid'', IntValue 7)] = Some p"
    "matchIdentity e ''host'' [(''host.id'', StringValue ''a'')] = Some h" using h p n by (simp_all add: matchIdentity_def)
  have inv: "engine_inv fxUlid hid e" using s by (simp add: sound_def)
  have "p \<noteq> [] \<and> h \<noteq> []"
    using m eview_ids inv fx_ulid_ok unfolding matchIdentity_iff [OF inv]
    by (metis (no_types, lifting) engine_inv_def image_iff subset_iff ulid_ok_def)
  with m have ends: "resolveEndpoints e (ro_From fxEdgeObs) (ro_To fxEdgeObs) = Inr (p, h)"
    by (simp add: resolveEndpoints_def resolveEndpoint_def fxEdgeObs_def)
  have st: "e_staged (referRelation (fxEnv 2) fxEdgeObs p k e) = None" for k
    using ecore_referRelation [of "fxEnv 2" fxEdgeObs p k e] n by (simp add: ecore_def del: ecore_referRelation)
  have "\<exists>e' ev. observeRelationLocked (fxEnv 2) fxEdgeObs e = (e', ev, None)"
    unfolding observeRelationLocked_def ends
    by (simp add: Let_def relationEvent_eq commit_def st fxEnv_def split: option.splits)
  then obtain e' ev where "observeRelationLocked (fxEnv 2) fxEdgeObs e = (e', ev, None)" by blast
  then have o: "ObserveRelation (fxEnv 2) fxEdgeObs e = (e', ev, None)"
    by (simp add: ObserveRelation_def observeRelationBuffered_def Let_def) (simp add: fxEdgeObs_def RelRunsOn_def RelSameAs_def)
  have "reach fxUlid (fst (ObserveRelation (fxEnv 2) fxEdgeObs e))" by (rule reach.observe_relation [OF r]) simp
  with o r ends that show thesis by simp
qed

theorem observed_relation_is_live_witness:
  "\<exists>(e :: Event list Engine) e' ev i j. resolveEndpoints e (ro_From fxEdgeObs) (ro_To fxEdgeObs) = Inr (i, j) \<and>
     ObserveRelation (fxEnv 2) fxEdgeObs e = (e', ev, None) \<and>
     GetRelation (e_graph e') (ComputeRelationID RelRunsOn i j) \<noteq> None"
proof -
  obtain e i j e' ev where r: "reach fxUlid e" and ends: "resolveEndpoints e (ro_From fxEdgeObs) (ro_To fxEdgeObs) = Inr (i, j)"
    and o: "ObserveRelation (fxEnv 2) fxEdgeObs e = (e', ev, None)" and r': "reach fxUlid e'" by (rule fx_edge)
  have t: "ro_Type fxEdgeObs = RelRunsOn" "ro_Type fxEdgeObs \<noteq> RelSameAs"
    by (simp_all add: fxEdgeObs_def RelRunsOn_def RelSameAs_def)
  from observed_relation_is_live [of "fxEnv 2" e fxEdgeObs i j e' ev, unfolded fx_ulid_env, OF fx_ulid_ok r t(2) ends o]
  have "GetRelation (e_graph e') (ComputeRelationID RelRunsOn i j) \<noteq> None" using t(1) by auto
  with ends o show ?thesis by blast
qed

theorem no_edge_to_a_dead_entity_witness:
  "\<exists>(e :: Event list Engine) i r. reach fxUlid e \<and> GetRelation (e_graph e) i = Some r \<and>
     live (e_graph e) (rel_From r) \<noteq> None \<and> live (e_graph e) (rel_To r) \<noteq> None"
proof -
  obtain e i j e' ev where r: "reach fxUlid e" and ends: "resolveEndpoints e (ro_From fxEdgeObs) (ro_To fxEdgeObs) = Inr (i, j)"
    and o: "ObserveRelation (fxEnv 2) fxEdgeObs e = (e', ev, None)" and r': "reach fxUlid e'" by (rule fx_edge)
  have t: "ro_Type fxEdgeObs \<noteq> RelSameAs" by (simp add: fxEdgeObs_def RelRunsOn_def RelSameAs_def)
  from observe_edge_exact [of "fxEnv 2" e fxEdgeObs i j e' ev, unfolded fx_ulid_env, OF fx_ulid_ok r t ends o]
  obtain k rel where k: "GetRelation (e_graph e') k = Some rel" by blast
  from no_edge_to_a_dead_entity [OF fx_ulid_ok r' k] r' k show ?thesis by blast
qed

section \<open>Deleting\<close>

text \<open>
  C36. A deletion that removes an entity removes all of it and nothing else: in any reachable
  state, when it reports a deletion and no error, the deleted identity no longer matches, no
  relation touches the deleted id, and every other entity is as it was.
\<close>

theorem deleted_entity_is_gone:
  assumes u: "ulid_ok (env_ulid env)" and r: "reach (env_ulid env) e" and o: "DeleteEntity env obs e = (e', Some ev, None)"
  shows "\<exists>i. MatchIdentity (e_graph e) (eo_Type obs) (eo_Identity obs) = Some i \<and>
    MatchIdentity (e_graph e') (eo_Type obs) (eo_Identity obs) = None \<and>
    (\<forall>j rel. GetRelation (e_graph e') j = Some rel \<longrightarrow> rel_From rel \<noteq> i \<and> rel_To rel \<noteq> i) \<and>
    live (e_graph e') = (live (e_graph e))(i := None)"
proof -
  obtain hid where s: "sound (env_ulid env) hid e" and v: "eview e = view (e_graph e)" and n: "e_staged e = None"
    using reach_good [OF u r] by blast
  have inv: "engine_inv (env_ulid env) hid e" and g: "good (env_ulid env) e" using s u by (auto simp: sound_def good_def)
  have o': "deleteEntityLocked env obs e = (e', Some ev, None)" using o by (simp add: DeleteEntity_def)
  note D = deleteEntity_sound [OF g o']
  have n': "e_staged e' = None" and g': "good (env_ulid env) e'" using D(1,2) n by simp_all
  then have v': "eview e' = view (e_graph e')" by (simp add: eview_def)
  from D(3) obtain i where m: "matchIdentity e (eo_Type obs) (eo_Identity obs) = Some i"
    and l: "live (e_graph e') = (live (e_graph e))(i := None)"
    and rel: "\<forall>j rel. map_of (g_relations (e_graph e')) j = Some rel \<longrightarrow> rel_From rel \<noteq> i \<and> rel_To rel \<noteq> i"
    using v v' by auto
  from m have h: "hid i = identityHashOf (eo_Type obs) (eo_Identity obs)" and li: "live (e_graph e) i \<noteq> None"
    unfolding matchIdentity_iff [OF inv] v by simp_all
  have wf: "wf_index (e_graph e')" using g' by (auto simp: good_def sound_def engine_inv_def graph_inv_def)
  have "MatchIdentity (e_graph e') (eo_Type obs) (eo_Identity obs) = None"
    unfolding MatchIdentity_None [OF wf]
  proof (intro allI impI)
    fix j ent assume j: "live (e_graph e') j = Some ent"
    then have jj: "j \<noteq> i" "live (e_graph e) j = Some ent" by (auto simp: l split: if_splits)
    show "IdentityHash ent \<noteq> identityHashOf (eo_Type obs) (eo_Identity obs)"
    proof
      assume "IdentityHash ent = identityHashOf (eo_Type obs) (eo_Identity obs)"
      moreover have "hid j = IdentityHash ent" using eview_inv(3) [OF inv] jj(2) v by (simp add: hid_ok_def)
      ultimately have "i = j" using eview_inv(1) [OF inv] h li jj(2) v by (simp add: uniq_def)
      with jj(1) show False by simp
    qed
  qed
  moreover have "MatchIdentity (e_graph e) (eo_Type obs) (eo_Identity obs) = Some i" using m n by (simp add: matchIdentity_def)
  ultimately show ?thesis using l rel by (auto simp: GetRelation_def)
qed

text \<open>
  C37. One speaker's withdrawal never retracts another's entity: when, in any reachable state, the
  entity is referenced by a speaker other than the withdrawing one (the producer under the unscoped
  key, as a deletion outside a batch speaks), with a reference that is not a legacy one of the same
  producer, then the deletion emits nothing and fails nothing, the topology is unchanged, and
  exactly two kinds of reference are released: the withdrawing speaker's own, and the legacy ones of
  the same producer.  Every other reference of this entity and every reference of any other entity
  is as it was, and nothing of the engine but the references of entities has changed.
\<close>

theorem held_entity_survives:
  assumes u: "ulid_ok (env_ulid env)" and r: "reach (env_ulid env) e"
    and m: "MatchIdentity (e_graph e) (eo_Type obs) (eo_Identity obs) = Some i"
    and sp: "map_of (e_refs e) i = Some sp" and other: "map_of sp k = Some ref"
    and not_own: "k \<noteq> refKey (eo_Producer obs) []" and stays: "\<not> (lr_legacy ref \<and> fst (splitRefKey k) = eo_Producer obs)"
  shows "\<exists>e'. DeleteEntity env obs e = (e', None, None) \<and> view (e_graph e') = view (e_graph e) \<and>
    map_of (gget [] (e_refs e') i) k = Some ref \<and>
    (\<forall>j key. map_of (gget [] (e_refs e') j) key =
       (if j = i \<and> (key = refKey (eo_Producer obs) [] \<or>
             (\<exists>old. map_of sp key = Some old \<and> lr_legacy old \<and> fst (splitRefKey key) = eo_Producer obs))
        then None else map_of (gget [] (e_refs e) j) key)) \<and>
    e' = e\<lparr>e_refs := e_refs e'\<rparr>"
proof -
  have b: "books e" and n: "e_staged e = None" using reach_idle [OF u r] by (simp_all add: idle_ok_def)
  have d: "gdistinct sp" using b sp by (auto simp: books_def refs_ok_def)
  have sc: "currentScope e = []" using n by (simp add: currentScope_def)
  let ?sp = "fst (releaseSpeaker sp (eo_Producer obs) [])"
  have k: "map_of ?sp k = Some ref" using other not_own stays d by (auto simp: map_of_releaseSpeaker)
  then have ne: "?sp \<noteq> []" by auto
  have refs: "map_of ?sp key = (if key = refKey (eo_Producer obs) [] \<or>
        (\<exists>old. map_of sp key = Some old \<and> lr_legacy old \<and> fst (splitRefKey key) = eo_Producer obs)
      then None else map_of sp key)" for key
    using d by (auto simp: map_of_releaseSpeaker split: option.splits)
  have "matchIdentity e (eo_Type obs) (eo_Identity obs) = Some i" using m n by (simp add: matchIdentity_def)
  with sp sc ne have "DeleteEntity env obs e = (e\<lparr>e_refs := gput i ?sp (e_refs e)\<rparr>, None, None)"
    by (simp add: DeleteEntity_def deleteEntityLocked_def Let_def)
  moreover have "map_of (gget [] (gput i ?sp (e_refs e)) j) key = (if j = i \<and> (key = refKey (eo_Producer obs) [] \<or>
        (\<exists>old. map_of sp key = Some old \<and> lr_legacy old \<and> fst (splitRefKey key) = eo_Producer obs))
      then None else map_of (gget [] (e_refs e) j) key)" for j key
    using refs [of key] sp by (cases "j = i") (auto simp: gget_def)
  ultimately show ?thesis using k by (simp add: gget_def)
qed

section \<open>References\<close>

lemma refs_of_bk: "bk e' = bk e \<Longrightarrow> e_refs e' = e_refs e"
  by (simp add: bk_def)

lemma refs_promise [simp]: "e_refs (fst (promise i t p d e)) = e_refs e"
  by (rule refs_of_bk [OF bk_promise])

lemma refs_observeRelation [simp]: "e_refs (fst (observeRelationLocked env obs e)) = e_refs e"
proof (cases "resolveEndpoints e (ro_From obs) (ro_To obs)")
  case (Inl a)
  then show ?thesis by (simp add: observeRelationLocked_def)
next
  case (Inr p)
  obtain i j where p: "p = (i, j)" by (cases p)
  obtain e' ev err where o: "observeRelationLocked env obs e = (e', ev, err)" by (metis prod_cases3)
  have "e_refs (referRelation env obs i k e) = e_refs e" for k
    by (simp add: referRelation_def Let_def case_prod_beta)
  with refs_of_bk [OF bk_observeTail [OF Inr [unfolded p] o]] o show ?thesis by simp
qed

lemma refs_flushOne: "e_refs (fst (flushOne env p (e, kept))) = e_refs e"
proof -
  obtain e2 ev err where o: "observeRelationLocked env (pr_obs p) (setCurrentScope (pr_scope p) e) = (e2, ev, err)"
    by (metis prod_cases3)
  then have "e_refs e2 = e_refs e"
    using refs_observeRelation [of env "pr_obs p" "setCurrentScope (pr_scope p) e"] refs_of_bk [OF bk_setCurrentScope, of _ e]
    by simp
  then have "e_refs (setCurrentScope sc e2) = e_refs e" for sc using refs_of_bk [OF bk_setCurrentScope, of sc e2] by simp
  with o show ?thesis
    by (simp add: flushOne_def Let_def refs_of_bk [OF bk_dropPending])
qed

lemma refs_flushPending [simp]: "e_refs (flushPending env e) = e_refs e"
proof -
  have "e_refs (fst (fold (flushOne env) ps (e, kept))) = e_refs e" for ps kept
  proof (induction ps arbitrary: e kept)
    case (Cons p ps)
    obtain e1 kept1 where f: "flushOne env p (e, kept) = (e1, kept1)" by fastforce
    with Cons.IH [of e1 kept1] refs_flushOne [of env p e kept] show ?case by simp
  qed simp
  then show ?thesis by (simp add: flushPending_def case_prod_beta)
qed

lemma refs_trackDisplayName [simp]: "e_refs (trackDisplayName env i obs prev e) = e_refs e"
  by (simp add: trackDisplayName_def Let_def split: option.splits)

text \<open>The reference an observation leaves.\<close>

definition armed :: "time \<Rightarrow> duration \<Rightarrow> liveRef" where
  "armed now d = (if 0 < d \<and> d \<le> maxPlausibleLivenessPromise
     then \<lparr>lr_deadline = now + d, lr_interval = d, lr_legacy = False\<rparr> else zeroRef)"

lemma observe_refs:
  assumes o: "observeEntityLocked env obs e = (e', Inr ev)" and c: "classify env obs e = ((ct, i, changed, prev), e1)"
  shows "e_refs e' = gput i (gput (refKey (eo_Producer obs) (currentScope e)) (armed (env_now env) (eo_Interval obs))
    (gget [] (e_refs e) i)) (e_refs e)"
proof -
  have e1: "bk e1 = bk e" "currentScope e1 = currentScope e"
    using c by (cases rule: classify_cases; simp add: currentScope_def)+
  define ev0 where "ev0 = entityEvent (zeroEntityEvent\<lparr>ee_EventID := env_ulid env (e_ulids e1), ee_ChangeType := ct,
     ee_Entity := observedEntity obs i, ee_EventTime := eo_EventTime obs, ee_RecordedAt := env_now env,
     ee_SchemaVersion := SchemaVersion, ee_ChangedKeys := changed,
     ee_Scope := currentScope (e1\<lparr>e_ulids := Suc (e_ulids e1)\<rparr>)\<rparr>)"
  obtain e2 r where k: "commit env ev0 False (e1\<lparr>e_ulids := Suc (e_ulids e1)\<rparr>) = (e2, r)" by fastforce
  have e': "e' = retryPending env obs (trackDisplayName env i obs prev (referEntity env obs i e2))"
    using o c k by (cases r) (simp_all add: observeEntityLocked_def mint_def Let_def ev0_def)
  have r2: "e_refs e2 = e_refs e" using refs_of_bk [of e2 e] bk_commit [OF k] e1(1) by simp
  have s2: "currentScope e2 = currentScope e"
    using k e1(2)
    by (auto simp: commit_def currentScope_def Let_def staged_apply_def split: option.splits sum.splits ChangeType.splits)
  have p: "e_refs (fst (promise a b c d e2)) = e_refs e" "currentScope (fst (promise a b c d e2)) = currentScope e" for a b c d
    using r2 s2 by (simp_all add: promise_def Let_def currentScope_def)
  have "e_refs e' = e_refs (referEntity env obs i e2)" by (simp add: e' retryPending_def)
  also have "\<dots> = gput i (gput (refKey (eo_Producer obs) (currentScope e)) (armed (env_now env) (eo_Interval obs))
      (gget [] (e_refs e) i)) (e_refs e)"
    using r2 s2 p by (simp add: referEntity_def Let_def case_prod_beta armed_def)
      (auto simp: promise_def Let_def zeroRef_def)
  finally show ?thesis .
qed

text \<open>
  An observation arms exactly the observing speaker's reference: in any reachable state, once
  the log accepted it, the entity it matches carries that speaker's reference with a deadline one
  interval ahead when the interval is positive and plausible and with no deadline otherwise, and
  every other reference is as it was.
\<close>

theorem observation_arms_reference:
  assumes u: "ulid_ok (env_ulid env)" and r: "reach (env_ulid env) e" and o: "ObserveEntity env obs e = (e', Inr ev)"
  shows "\<exists>i. MatchIdentity (e_graph e') (eo_Type obs) (eo_Identity obs) = Some i \<and>
    map_of (gget [] (e_refs e') i) (refKey (eo_Producer obs) []) = Some (armed (env_now env) (eo_Interval obs)) \<and>
    (\<forall>j k. j \<noteq> i \<or> k \<noteq> refKey (eo_Producer obs) [] \<longrightarrow> map_of (gget [] (e_refs e') j) k = map_of (gget [] (e_refs e) j) k)"
proof -
  have o': "observeEntityLocked env obs e = (e', Inr ev)" using o by (simp add: ObserveEntity_def)
  obtain hid where s: "sound (env_ulid env) hid e" and n: "e_staged e = None"
    using reach_good [OF u r] by blast
  obtain ct i changed prev e1 where c: "classify env obs e = ((ct, i, changed, prev), e1)" by (metis surj_pair)
  have sc: "currentScope e = []" using n by (simp add: currentScope_def)
  note R = observe_refs [OF o' c, unfolded sc]
  have "MatchIdentity (e_graph e') (eo_Type obs) (eo_Identity obs) = Some i"
    by (rule observe_match [OF u r o c])
  with R show ?thesis by (auto simp: gget_def split: option.splits)
qed

section \<open>Witnesses\<close>

text \<open>The host observed once, by one producer: its entity and its one reference.\<close>

lemma fx_host:
  obtains i where "MatchIdentity (e_graph fxEngine) ''host'' [(''host.id'', StringValue ''a'')] = Some i"
    and "e_refs fxEngine = [(i, [(''agent'', armed 1 10)])]"
proof -
  obtain e' ev where o: "ObserveEntity (fxEnv 1) fxObs fxStart = (e', Inr ev)" using fx_observe [OF fx_reach(1)] by blast
  then have e': "e' = fxEngine" by (simp add: fxEngine_def)
  obtain ct i changed prev e1 where c: "classify (fxEnv 1) fxObs fxStart = ((ct, i, changed, prev), e1)" by (metis surj_pair)
  have "MatchIdentity (e_graph fxEngine) ''host'' [(''host.id'', StringValue ''a'')] = Some i"
    using observe_match [of "fxEnv 1" fxStart fxObs, OF _ _ o c] fx_ulid_ok fx_reach(1) by (simp add: e' fxObs_def)
  moreover have "e_refs fxEngine = [(i, [(''agent'', armed 1 10)])]"
    using observe_refs [OF o [unfolded ObserveEntity_def] c]
    by (simp add: e') (simp add: fxObs_def fxStart_def NewEngine_def currentScope_def refKey_def x00_def gget_def gput_def fxEnv_def)
  ultimately show thesis by (rule that)
qed

lemma fx_removeOne:
  assumes "e_staged e = None"
  obtains e' where "removeOne (fxEnv t) w rel (e, n, errs) = (e', Suc n, errs)" and "e_staged e' = None"
  using assms by (simp add: removeOne_def relationEvent_eq commit_def fxEnv_def Let_def notify_def)

lemma fx_removeIncident:
  assumes "e_staged e = None"
  obtains e' n where "removeIncidentRelations (fxEnv t) i w e = (e', n, None)"
proof -
  have "\<exists>e' m. fold (removeOne (fxEnv t) w) rs (e, n, []) = (e', m, [])" if "e_staged e = None" for rs n e
    using that
  proof (induction rs arbitrary: e n)
    case (Cons r rs)
    obtain e1 where "removeOne (fxEnv t) w r (e, n, []) = (e1, Suc n, [])" "e_staged e1 = None"
      using fx_removeOne [OF Cons.prems] by blast
    with Cons.IH [of e1 "Suc n"] show ?case by simp
  qed simp
  from this [OF assms, of "listRelationsTouching e i" 0] that show thesis
    by (auto simp: removeIncidentRelations_def joinErrs_def)
qed

lemma fx_delete:
  obtains e' ev where "DeleteEntity (fxEnv 2) fxObs fxEngine = (e', Some ev, None)"
proof -
  have n: "e_staged fxEngine = None" using reach_idle [OF fx_ulid_ok fx_reach(2)] by (simp add: idle_ok_def)
  obtain i where m: "MatchIdentity (e_graph fxEngine) ''host'' [(''host.id'', StringValue ''a'')] = Some i"
    and r: "e_refs fxEngine = [(i, [(''agent'', armed 1 10)])]" by (rule fx_host)
  have "matchIdentity fxEngine (eo_Type fxObs) (eo_Identity fxObs) = Some i" using m n by (simp add: matchIdentity_def fxObs_def)
  moreover have "fst (releaseSpeaker [(''agent'', armed 1 10)] (eo_Producer fxObs) []) = []"
    by (simp add: fxObs_def releaseSpeaker_def refKey_def x00_def ghas_def gdel_def)
  ultimately have d: "DeleteEntity (fxEnv 2) fxObs fxEngine = commitDelete (fxEnv 2) fxObs i (fxEngine\<lparr>e_refs := gdel i (e_refs fxEngine)\<rparr>)"
    using n r by (simp add: DeleteEntity_def deleteEntityLocked_def currentScope_def)
  obtain e' ev err where cd: "commitDelete (fxEnv 2) fxObs i (fxEngine\<lparr>e_refs := gdel i (e_refs fxEngine)\<rparr>) = (e', ev, err)"
    by (metis prod_cases3)
  have "ev \<noteq> None \<and> err = None"
    using cd
  proof (cases rule: commitDelete_cases)
    case (failed err0)
    then show ?thesis using cd n by (auto simp: commitDelete_def mint_def commit_def fxEnv_def Let_def split: prod.splits)
  next
    case (deleted ee e2 ev2 k)
    then have "e_staged (e2\<lparr>e_contested := gdel i (e_contested e2)\<rparr>) = None"
      using n by (simp add: commit_def fxEnv_def Let_def notify_def) auto
    from fx_removeIncident [OF this] deleted show ?thesis by (metis Pair_inject option.discI)
  qed
  with d cd that show thesis by auto
qed

theorem deleted_entity_is_gone_witness:
  "\<exists>e' ev. DeleteEntity (fxEnv 2) fxObs fxEngine = (e', Some ev, None) \<and>
     MatchIdentity (e_graph e') ''host'' [(''host.id'', StringValue ''a'')] = None"
proof -
  obtain e' ev where d: "DeleteEntity (fxEnv 2) fxObs fxEngine = (e', Some ev, None)" by (rule fx_delete)
  from deleted_entity_is_gone [of "fxEnv 2" fxEngine fxObs e' ev, unfolded fx_ulid_env, OF fx_ulid_ok fx_reach(2) d] d
  show ?thesis by (auto simp: fxObs_def)
qed

theorem held_entity_survives_witness:
  "\<exists>e'. DeleteEntity (fxEnv 2) (fxObs\<lparr>eo_Producer := ''other''\<rparr>) fxEngine = (e', None, None) \<and>
     view (e_graph e') = view (e_graph fxEngine)"
proof -
  obtain i where m: "MatchIdentity (e_graph fxEngine) ''host'' [(''host.id'', StringValue ''a'')] = Some i"
    and r: "e_refs fxEngine = [(i, [(''agent'', armed 1 10)])]" by (rule fx_host)
  let ?o = "fxObs\<lparr>eo_Producer := ''other''\<rparr>"
  have "MatchIdentity (e_graph fxEngine) (eo_Type ?o) (eo_Identity ?o) = Some i" using m by (simp add: fxObs_def)
  moreover have "map_of (e_refs fxEngine) i = Some [(''agent'', armed 1 10)]" "map_of [(''agent'', armed 1 10)] ''agent'' = Some (armed 1 10)"
    by (simp_all add: r)
  moreover have "''agent'' \<noteq> refKey (eo_Producer ?o) []" "\<not> (lr_legacy (armed 1 10) \<and> fst (splitRefKey ''agent'') = eo_Producer ?o)"
    by (simp_all add: refKey_def x00_def armed_def zeroRef_def)
  ultimately show ?thesis
    using held_entity_survives [of "fxEnv 2" fxEngine ?o, unfolded fx_ulid_env, OF fx_ulid_ok fx_reach(2)] by blast
qed

theorem observation_arms_reference_witness:
  "\<exists>e' ev i. ObserveEntity (fxEnv 1) fxObs fxStart = (e', Inr ev) \<and>
     map_of (gget [] (e_refs e') i) ''agent'' = Some \<lparr>lr_deadline = 11, lr_interval = 10, lr_legacy = False\<rparr>"
proof -
  obtain e' ev where o: "ObserveEntity (fxEnv 1) fxObs fxStart = (e', Inr ev)" using fx_observe [OF fx_reach(1)] by blast
  have k: "refKey ''agent'' [] = ''agent''" "armed 1 10 = \<lparr>lr_deadline = 11, lr_interval = 10, lr_legacy = False\<rparr>"
    by (simp_all add: refKey_def x00_def armed_def maxPlausibleLivenessPromise_def)
  from observation_arms_reference [of "fxEnv 1" fxStart fxObs e' ev, unfolded fx_ulid_env, OF fx_ulid_ok fx_reach(1) o] o
  show ?thesis by (auto simp: fxObs_def fxEnv_def k)
qed

theorem parked_edges_are_indexed_witness:
  "\<exists>(e :: Event list Engine) p. reach fxUlid e \<and> e_pending e = [p] \<and> ro_Type (pr_obs p) = RelRunsOn \<and>
     ghas (e_pendingHashes e) (endpointHash (ro_To (pr_obs p)))"
proof -
  let ?e = "WithRelationBuffer 30 fxStart"
  let ?e' = "fst (ObserveRelation (fxEnv 1) fxEdgeObs ?e)"
  have r: "reach fxUlid ?e'"
    by (rule reach.observe_relation [OF reach.with_buffer [OF fx_reach(1)]]) simp
  have t: "ro_Type fxEdgeObs = RelRunsOn" "RelRunsOn \<noteq> RelSameAs"
    by (simp_all add: fxEdgeObs_def RelRunsOn_def RelSameAs_def)
  have "resolveEndpoint ?e ref = ([], False)" for ref
    by (simp add: resolveEndpoint_def WithRelationBuffer_def fxStart_def NewEngine_def matchIdentity_def MatchIdentity_def
        NewGraph_def NewWithTombstoneCap_def substituteAliases_def newIdentityAliasIndex_def alias_resolve_def Let_def
        split: option.splits)
  then have "observeRelationLocked (fxEnv 1) fxEdgeObs ?e = (?e, None, Some EndpointMissing)"
    by (simp add: observeRelationLocked_def resolveEndpoints_def)
  then have p: "?e' = parkRelation (fxEnv 1) fxEdgeObs ?e"
    using t by (simp add: ObserveRelation_def observeRelationBuffered_def Let_def WithRelationBuffer_def)
  let ?p = "\<lparr>pr_obs = fxEdgeObs, pr_deadline = 31, pr_scope = []\<rparr>"
  have "e_pending ?e' = [?p]"
    unfolding p by (simp add: parkRelation_def rebuildPendingHashes_def Let_def WithRelationBuffer_def fxStart_def NewEngine_def
        currentScope_def maxPendingRelations_def fxEnv_def fxEdgeObs_def)
  with parked_edges_are_indexed [OF fx_ulid_ok r, of ?p] r t show ?thesis by auto
qed

end
