(* ===== verification/Change_Expiry.thy ===== *)
theory Change_Expiry
  imports Change_Theorems
begin

text \<open>
  The liveness backstop and the batches: what a sweep expires and what it leaves, what a failed
  flush leaves behind, and that a batch takes effect in one append or not at all.
\<close>

section \<open>What a flush does outside the engine\<close>

text \<open>
  The calls of the subscribers for the events of one append, in order.
\<close>

definition told :: "nat goset \<Rightarrow> 64 word \<Rightarrow> (Event \<times> bool) list \<Rightarrow> (nat \<times> Event \<times> bool) list" where
  "told subs seq ses = concat (map (\<lambda>(ev, hp). map (\<lambda>i. (i, stampCommit seq ev, hp)) (gkeys subs)) ses)"

text \<open>
  The three outcomes of a flush of the staged events: nothing to append, a refused append, an
  accepted one.
\<close>

inductive flushed :: "'a env \<Rightarrow> (Event \<times> bool) list \<Rightarrow> 'a Engine \<Rightarrow> 'a Engine \<Rightarrow> bool \<Rightarrow> bool" where
  nothing: "view (e_graph e') = view (e_graph e) \<Longrightarrow> e_appender e' = e_appender e \<Longrightarrow> e_delivered e' = e_delivered e \<Longrightarrow>
    e_subs e' = e_subs e \<Longrightarrow> flushed env [] e e' True"
| refused: "env_append env (e_appender e) (map fst ses) = Inl a \<Longrightarrow> ses \<noteq> [] \<Longrightarrow>
    view (e_graph e') = view (e_graph e) \<Longrightarrow> e_appender e' = e_appender e \<Longrightarrow> e_delivered e' = e_delivered e \<Longrightarrow>
    e_subs e' = e_subs e \<Longrightarrow> flushed env ses e e' False"
| accepted: "env_append env (e_appender e) (map fst ses) = Inr (app, seq) \<Longrightarrow> ses \<noteq> [] \<Longrightarrow>
    view (e_graph e') = spec_replay (map fst ses) (view (e_graph e)) \<Longrightarrow> e_appender e' = app \<Longrightarrow>
    e_delivered e' = e_delivered e @ told (e_subs e) seq ses \<Longrightarrow> e_subs e' = e_subs e \<Longrightarrow> flushed env ses e e' True"

inductive_cases flushed_accepted [elim]: "flushed env ses e e' True"
inductive_cases flushed_refused [elim]: "flushed env ses e e' False"

lemma apply_notify_fold:
  "e_appender (fold (applyNotify env) (map (\<lambda>(ev, hp). (stampCommit seq ev, hp)) ses) e) = e_appender e \<and>
   e_subs (fold (applyNotify env) (map (\<lambda>(ev, hp). (stampCommit seq ev, hp)) ses) e) = e_subs e \<and>
   e_rolledBack (fold (applyNotify env) (map (\<lambda>(ev, hp). (stampCommit seq ev, hp)) ses) e) = e_rolledBack e \<and>
   e_delivered (fold (applyNotify env) (map (\<lambda>(ev, hp). (stampCommit seq ev, hp)) ses) e) = e_delivered e @ told (e_subs e) seq ses"
proof (induction ses arbitrary: e)
  case (Cons se ses)
  obtain ev hp where "se = (ev, hp)" by (cases se)
  with Cons.IH show ?case by (simp add: applyNotify_def notify_def told_def)
qed (simp add: told_def)

lemma flush_effect:
  assumes g: "good ulid e" and st: "e_staged e = Some st" and f: "flushStaged env st e = (e', err)"
    and nd: "no_dangling (view (e_graph e))"
  shows "flushed env (st_events st) e e' (err = None)"
    and "e_rolledBack e' = e_rolledBack e @ (if err = None then [] else rev (st_rollbacks st))"
proof -
  obtain hid where "staged_inv hid (e_graph e) st" using g st by (auto simp: good_def sound_def engine_inv_def)
  then have v: "eview e = spec_replay (map fst (st_events st)) (view (e_graph e))"
    using st by (simp add: staged_inv_def eview_def)
  note F = good_flush [OF g st f nd]
  have v': "view (e_graph e') = (if err = None then spec_replay (map fst (st_events st)) (view (e_graph e)) else view (e_graph e))"
    using F(2,3) v by (auto simp: eview_def)
  let ?e = "e\<lparr>e_staged := None\<rparr>"
  consider (nothing) "st_events st = []" "e' = ?e" "err = None"
    | (refused) a where "st_events st \<noteq> []" "env_append env (e_appender e) (map fst (st_events st)) = Inl a"
        "e' = ?e\<lparr>e_rolledBack := e_rolledBack e @ rev (st_rollbacks st)\<rparr>" "err = Some (FlushErr a)"
    | (accepted) app seq where "st_events st \<noteq> []" "env_append env (e_appender e) (map fst (st_events st)) = Inr (app, seq)"
        "e' = fold (applyNotify env) (map (\<lambda>(ev, hp). (stampCommit seq ev, hp)) (st_events st)) (?e\<lparr>e_appender := app\<rparr>)" "err = None"
    using f by (cases "st_events st = []"; cases "env_append env (e_appender e) (map fst (st_events st))")
      (auto simp: flushStaged_def Let_def)
  then have "flushed env (st_events st) e e' (err = None) \<and>
      e_rolledBack e' = e_rolledBack e @ (if err = None then [] else rev (st_rollbacks st))"
  proof cases
    case nothing
    then show ?thesis by (simp add: flushed.nothing)
  next
    case refused
    then show ?thesis using flushed.refused [OF refused(2,1)] by simp
  next
    case accepted
    then show ?thesis using flushed.accepted [OF accepted(2,1)] v' apply_notify_fold [of env seq "st_events st" "?e\<lparr>e_appender := app\<rparr>"]
      by simp
  qed
  then show "flushed env (st_events st) e e' (err = None)"
    "e_rolledBack e' = e_rolledBack e @ (if err = None then [] else rev (st_rollbacks st))" by simp_all
qed

text \<open>A flush judges what was outside before the staging began, and what is outside after a prune.\<close>

lemma flushed_before:
  assumes "flushed env ses e1 e' ok" and "base e1 = base e"
  shows "flushed env ses e e' ok"
  using assms(1)
proof cases
  case nothing
  with assms(2) show ?thesis by (simp add: base_def flushed.nothing)
next
  case (refused a)
  with assms(2) flushed.refused [of env e ses a e'] show ?thesis by (simp add: base_def)
next
  case (accepted app seq)
  with assms(2) flushed.accepted [of env e ses app seq e'] show ?thesis by (simp add: base_def)
qed

lemma flushed_after:
  assumes "flushed env ses e e1 ok" and "view (e_graph e') = view (e_graph e1)" and "e_appender e' = e_appender e1"
    and "e_delivered e' = e_delivered e1" and "e_subs e' = e_subs e1"
  shows "flushed env ses e e' ok"
  using assms(1)
proof cases
  case nothing
  with assms(2-) show ?thesis by (simp add: flushed.nothing)
next
  case (refused a)
  with assms(2-) flushed.refused [of env e ses a e'] show ?thesis by simp
next
  case (accepted app seq)
  with assms(2-) flushed.accepted [of env e ses app seq e'] show ?thesis by simp
qed

section \<open>References after a sweep\<close>

lemma refs_removeIncident [simp]: "e_refs (fst (removeIncidentRelations env i t e)) = e_refs e"
proof -
  have one: "e_refs (fst (removeOne env t rel (e, n, errs))) = e_refs e" for rel n errs and e :: "'a Engine"
  proof -
    obtain ev e1 where re: "relationEvent env RelationRemoved rel t DeleteSourceCascade e = (ev, e1)" by fastforce
    obtain e2 res where cm: "commit env ev (rel_Structural rel) e1 = (e2, res)" by fastforce
    have "e_refs e2 = e_refs e"
      using refs_of_bk [OF bk_commit [OF cm]] refs_of_bk [OF bk_relationEvent [OF re]] by simp
    with re cm show ?thesis by (cases res) (simp_all add: removeOne_def)
  qed
  have "e_refs (fst (fold (removeOne env t) rels (e, n, errs))) = e_refs e" for rels n errs
  proof (induction rels arbitrary: e n errs)
    case (Cons rel rels)
    obtain e1 n1 errs1 where f: "removeOne env t rel (e, n, errs) = (e1, n1, errs1)" by (metis prod_cases3)
    with one [of rel e n errs] Cons.IH [of e1 n1 errs1] show ?case by simp
  qed simp
  then show ?thesis by (simp add: removeIncidentRelations_def case_prod_beta)
qed

lemma expireEntity_refs:
  assumes st: "e_staged e \<noteq> None" and x: "expireEntity env sil i (e, res, errs) = (e', res', errs')"
  shows "e_refs e' = gdel i (e_refs e)" and "e_staged e' \<noteq> None"
proof -
  let ?drop = "\<lambda>e. e\<lparr>e_refs := gdel i (e_refs e), e_contested := gdel i (e_contested e)\<rparr>"
  have "e_refs e' = gdel i (e_refs e) \<and> e_staged e' \<noteq> None"
  proof (cases "\<exists>ent. GetEntity (e_graph e) i = (Some ent, False)")
    case False
    then have "e' = ?drop e" using x by (auto simp: expireEntity_def split: prod.splits option.splits bool.splits)
    with st show ?thesis by simp
  next
    case True
    then obtain ent where ent: "GetEntity (e_graph e) i = (Some ent, False)" by blast
    obtain ev e1 where cm: "commit env ev False (e\<lparr>e_ulids := Suc (e_ulids e)\<rparr>) = (e1, Inr ev)"
      and e': "e' = fst (removeIncidentRelations env i (env_now env) (?drop e1))"
      using x st ent
      by (auto simp: expireEntity_def mint_def commit_def Let_def case_prod_beta)
    have "e_refs e1 = e_refs e" using refs_of_bk [OF bk_commit [OF cm]] by simp
    moreover have "e_staged e1 \<noteq> None" using cm st by (auto simp: commit_def)
    ultimately show ?thesis
      using stays_removeIncident [of "?drop e1" env i "env_now env"] unfolding e' by (simp add: stays_def)
  qed
  then show "e_refs e' = gdel i (e_refs e)" "e_staged e' \<noteq> None" by simp_all
qed

lemma expire_refs:
  "e_staged e \<noteq> None \<Longrightarrow> fold (expireEntity env sil) is (e, res, errs) = (e', res', errs') \<Longrightarrow>
   map_of (e_refs e') k = (if k \<in> set is then None else map_of (e_refs e) k)"
proof (induction "is" arbitrary: e res errs)
  case (Cons i "is")
  obtain e1 res1 errs1 where f: "expireEntity env sil i (e, res, errs) = (e1, res1, errs1)" by (metis prod_cases3)
  with Cons.IH [of e1 res1 errs1] Cons.prems expireEntity_refs [OF Cons.prems(1) f] show ?case by auto
qed simp

lemma refs_expireRelation: "e_refs (fst (expireRelation env i (e, res, errs))) = e_refs e"
proof (cases "GetRelation (e_graph e) i")
  case None
  then show ?thesis by (simp add: expireRelation_def)
next
  case (Some rel)
  obtain ev e1 where re: "relationEvent env RelationRemoved rel (env_now env) DeleteSourceLivenessExpiry e = (ev, e1)" by fastforce
  obtain e2 r where cm: "commit env ev (rel_Structural rel) e1 = (e2, r)" by fastforce
  have "e_refs e2 = e_refs e"
    using refs_of_bk [OF bk_commit [OF cm]] refs_of_bk [OF bk_relationEvent [OF re]] by simp
  with Some re cm show ?thesis by (cases r) (simp_all add: expireRelation_def)
qed

lemma refs_expireRelations: "e_refs (fst (fold (expireRelation env) is (e, res, errs))) = e_refs e"
proof (induction "is" arbitrary: e res errs)
  case (Cons i "is")
  obtain e1 res1 errs1 where f: "expireRelation env i (e, res, errs) = (e1, res1, errs1)" by (metis prod_cases3)
  with Cons.IH [of e1 res1 errs1] refs_expireRelation [of env i e res errs] show ?case by simp
qed simp

lemma refs_sweepContested [simp]: "e_refs (sweepContested now e) = e_refs e"
  by (simp add: sweepContested_def)

lemma refs_sweepPending [simp]: "e_refs (sweepPending now e) = e_refs e"
  by (simp add: sweepPending_def Let_def rebuildPendingHashes_def refs_of_bk [OF bk_drop_fold])

text \<open>
  What a sweep does to the references, whether its flush succeeds or not: the lapsed ones go, and
  an entity left with none is forgotten.
\<close>

lemma Sweep_refs:
  assumes r: "refs_ok (e_refs e)" and f: "Sweep env e = (e', res, err)"
  shows "map_of (e_refs e') i = (case map_of (e_refs e) i of
      None \<Rightarrow> None
    | Some sp \<Rightarrow> if all_lapsed (env_now env) sp then None else Some (dropLapsed (env_now env) sp))"
proof -
  let ?now = "env_now env"
  let ?refs = "foldl (\<lambda>m (i, sp). gput i (dropLapsed ?now sp) m) (e_refs e) (e_refs e)"
  obtain sil where sw: "sweepRefs ?now (e_refs e) = (?refs, orphans ?now (e_refs e), sil)"
    unfolding sweepRefs_def sweep_pair by simp
  let ?e1 = "e\<lparr>e_staged := Some newStaged, e_refs := ?refs\<rparr>"
  obtain e2 res2 errs2 where f2: "fold (expireEntity env sil) (orphans ?now (e_refs e)) (?e1, zeroSweep, []) = (e2, res2, errs2)"
    by (metis prod_cases3)
  have e2: "map_of (e_refs e2) i = (if i \<in> set (orphans ?now (e_refs e)) then None else map_of ?refs i)"
    using expire_refs [OF _ f2, of i] by simp
  obtain e3 res3 errs3 where s: "sweepStage env e = (e3, res3, errs3)" by (metis prod_cases3)
  obtain relRefs expired where sr: "sweepRelRefs ?now (e_relRefs (sweepPending ?now (sweepContested ?now e2))) = (relRefs, expired)"
    by fastforce
  have "sweepStage env e = fold (expireRelation env) expired
      ((sweepPending ?now (sweepContested ?now e2))\<lparr>e_relRefs := relRefs\<rparr>, res2, errs2)"
    using sw f2 sr by (simp add: sweepStage_def Let_def)
  with s refs_expireRelations [of env expired "(sweepPending ?now (sweepContested ?now e2))\<lparr>e_relRefs := relRefs\<rparr>" res2 errs2]
  have "e_refs e3 = e_refs e2" by simp
  moreover obtain e4 ferr where fl: "flushStaged env (stagedOf e3) e3 = (e4, ferr)" by fastforce
  moreover have "e_refs e' = e_refs e4" using f s fl by (auto simp: Sweep_def Let_def split: option.splits prod.splits)
  ultimately have "e_refs e' = e_refs e2" using refs_of_bk [OF bk_flushStaged [OF fl]] by simp
  with e2 have "map_of (e_refs e') i = (if i \<in> set (orphans ?now (e_refs e)) then None else map_of ?refs i)" by simp
  moreover have "map_of ?refs i = map_option (dropLapsed ?now) (map_of (e_refs e) i)"
    using r by (simp add: refs_ok_def map_of_drop_fold split: option.splits)
  ultimately show ?thesis unfolding set_orphans [OF r] by (auto split: option.splits)
qed

section \<open>Sweeping\<close>

text \<open>
  C11. A sweep expires what went silent and nothing else: in any reachable state, when the log
  accepts it, the entities it deletes are exactly those with references all of which had a
  deadline that is past, and of every other entity exactly the references that have not lapsed
  remain.
\<close>

theorem sweep_expires_exactly_the_silent:
  assumes u: "ulid_ok (env_ulid env)" and r: "reach (env_ulid env) e" and f: "Sweep env e = (e', res, None)"
  shows "live (e_graph e') i = (if \<exists>sp. map_of (e_refs e) i = Some sp \<and> (\<forall>k ref. map_of sp k = Some ref \<longrightarrow> lapsed (env_now env) ref)
      then None else live (e_graph e) i) \<and>
    map_of (gget [] (e_refs e') i) k = (case map_of (gget [] (e_refs e) i) k of
      Some ref \<Rightarrow> if lapsed (env_now env) ref then None else Some ref | None \<Rightarrow> None)"
proof -
  have g: "good (env_ulid env) e" and b: "refs_ok (e_refs e)" and n: "e_staged e = None"
    using reach_idle [OF u r] by (simp_all add: idle_ok_def books_def)
  note S = Sweep_sound [OF g n b f]
  have v: "eview e = view (e_graph e)" "eview e' = view (e_graph e')" using n S(2) by (simp_all add: eview_def)
  have "live (e_graph e') i = (if i \<in> set (orphans (env_now env) (e_refs e)) then None else live (e_graph e) i)"
    using fun_cong [OF S(3), of i] by (simp add: v)
  moreover have "map_of (gget [] (e_refs e') i) k = (case map_of (gget [] (e_refs e) i) k of
      Some ref \<Rightarrow> if lapsed (env_now env) ref then None else Some ref | None \<Rightarrow> None)"
  proof (cases "map_of (e_refs e) i")
    case None
    with Sweep_refs [OF b f, of i] show ?thesis by (simp add: gget_def)
  next
    case (Some sp)
    then have "gdistinct sp" using b by (auto simp: refs_ok_def)
    with Sweep_refs [OF b f, of i] Some show ?thesis
      by (auto simp: gget_def all_lapsed_def map_of_dropLapsed split: option.splits)
  qed
  ultimately show ?thesis by (simp add: set_orphans [OF b] all_lapsed_def)
qed

text \<open>The events a sweep and a batch hand to the log.\<close>

definition sweepEvents :: "'a env \<Rightarrow> 'a Engine \<Rightarrow> (Event \<times> bool) list" where
  "sweepEvents env e = st_events (stagedOf (fst (sweepStage env e)))"

definition batchEvents :: "'a env \<Rightarrow> BatchOp list \<Rightarrow> 'a Engine \<Rightarrow> (Event \<times> bool) list" where
  "batchEvents env ops e = st_events (stagedOf (fold (batchStep env) ops (e\<lparr>e_staged := Some newStaged\<rparr>)))"

lemma good_staged_events:
  assumes "good ulid e" and "e_staged e = Some st"
  obtains hid where "ok_events hid (view (e_graph e)) (map fst (st_events st))"
  using assms by (auto simp: good_def sound_def engine_inv_def staged_inv_def)

lemma Sweep_events:
  assumes u: "ulid_ok (env_ulid env)" and r: "reach (env_ulid env) e" and f: "Sweep env e = (e', res, err)"
  shows "flushed env (sweepEvents env e) e e' (err = None)"
    and "\<exists>hid. ok_events hid (view (e_graph e)) (map fst (sweepEvents env e))"
proof -
  have g: "good (env_ulid env) e" and b: "refs_ok (e_refs e)" and n: "e_staged e = None"
    using reach_idle [OF u r] by (simp_all add: idle_ok_def books_def)
  obtain e1 res1 errs where s: "sweepStage env e = (e1, res1, errs)" by (metis prod_cases3)
  note X = sweepStage_expiring [OF g n b s]
  then obtain st where st: "e_staged e1 = Some st" by (auto simp: expiring_def)
  have er: "errs = []" and base: "base e1 = base e" and g1: "good (env_ulid env) e1" using X by (simp_all add: expiring_def)
  obtain e2 ferr where fl: "flushStaged env st e1 = (e2, ferr)" by fastforce
  let ?e3 = "e2\<lparr>e_aliases := alias_sweep (env_now env) (e_aliases e2)\<rparr>"
  have e': "e' = ?e3\<lparr>e_graph := fst (PruneTombstones (env_now env) (e_graph e2))\<rparr>"
    and err: "err = None \<longleftrightarrow> ferr = None"
    using f s st fl er by (auto simp: Sweep_def stagedOf_def joinErrs_def Let_def split: option.splits)
  have "no_dangling (view (e_graph e1))" using g n base by (auto simp: good_def sound_def eview_def base_def)
  from flushed_before [OF flush_effect(1) [OF g1 st fl this] base]
  have "flushed env (st_events st) e e2 (ferr = None)" .
  from flushed_after [OF this, of e'] have "flushed env (st_events st) e e' (err = None)"
    by (simp add: e' err view_PruneTombstones)
  then show "flushed env (sweepEvents env e) e e' (err = None)" using s st by (simp add: sweepEvents_def stagedOf_def)
  show "\<exists>hid. ok_events hid (view (e_graph e)) (map fst (sweepEvents env e))"
  proof -
    obtain hid where "ok_events hid (view (e_graph e1)) (map fst (st_events st))" by (rule good_staged_events [OF g1 st])
    with s st base show ?thesis by (auto simp: sweepEvents_def stagedOf_def base_def)
  qed
qed

lemma Sweep_effect:
  assumes "ulid_ok (env_ulid env)" and "reach (env_ulid env) e" and "Sweep env e = (e', res, err)"
  obtains ses where "flushed env ses e e' (err = None)"
  using Sweep_events(1) [OF assms] by (rule that)

text \<open>
  A sweep whose flush fails changes nothing outside the engine: in any reachable state it
  reports zero expiries, and the topology, the log and what the subscribers were told are as they
  were.
\<close>

theorem failed_sweep_is_silent:
  assumes u: "ulid_ok (env_ulid env)" and r: "reach (env_ulid env) e" and f: "Sweep env e = (e', res, Some err)"
  shows "res = zeroSweep \<and> view (e_graph e') = view (e_graph e) \<and> e_appender e' = e_appender e \<and> e_delivered e' = e_delivered e"
proof -
  have "good (env_ulid env) e" "refs_ok (e_refs e)" "e_staged e = None"
    using reach_idle [OF u r] by (simp_all add: idle_ok_def books_def)
  from Sweep_sound(4) [OF this(1,3,2) f] have "res = zeroSweep" by simp
  moreover obtain ses where "flushed env ses e e' False" using Sweep_effect [OF u r f] by auto
  ultimately show ?thesis by (auto elim: flushed_refused)
qed

text \<open>
  A failed sweep is not retried: an entity that a sweep found silent and could not expire,
  because its flush failed, is live without any reference, so every later sweep leaves it live.
\<close>

theorem failed_sweep_is_not_retried:
  assumes u: "ulid_ok (env_ulid env)" and r: "reach (env_ulid env) e" and f: "Sweep env e = (e1, res1, Some err)"
    and silent: "map_of (e_refs e) i = Some sp" "\<forall>k ref. map_of sp k = Some ref \<longrightarrow> lapsed (env_now env) ref"
    and again: "Sweep env' e1 = (e2, res2, err2)" and u': "env_ulid env' = env_ulid env"
  shows "live (e_graph e2) i = live (e_graph e) i \<and> map_of (e_refs e2) i = None"
proof -
  have i: "good (env_ulid env) e" "refs_ok (e_refs e)" "e_staged e = None"
    using reach_idle [OF u r] by (simp_all add: idle_ok_def books_def)
  have r1: "reach (env_ulid env) e1" using reach.sweep [OF r refl] f by (metis fst_conv)
  have i1: "good (env_ulid env') e1" "refs_ok (e_refs e1)" "e_staged e1 = None"
    using reach_idle [OF u r1] by (simp_all add: idle_ok_def books_def u')
  have none: "map_of (e_refs e1) i = None" using Sweep_refs [OF i(2) f, of i] silent by (simp add: all_lapsed_def)
  have "live (e_graph e1) i = live (e_graph e) i"
    using Sweep_sound(4) [OF i(1,3,2) f] Sweep_sound(2) [OF i(1,3,2) f] i(3) by (simp add: eview_def view_def)
  moreover have "live (e_graph e2) i = live (e_graph e1) i"
    using fun_cong [OF Sweep_sound(3) [OF i1(1,3,2) again], of i] Sweep_sound(2) [OF i1(1,3,2) again] i1(3) none
    by (simp add: eview_def set_orphans [OF i1(2)])
  moreover have "map_of (e_refs e2) i = None" using Sweep_refs [OF i1(2) again, of i] none by simp
  ultimately show ?thesis by simp
qed

section \<open>Witnesses of the sweep\<close>

definition fxDown :: "time \<Rightarrow> Event list env" where
  "fxDown t = (fxEnv t)\<lparr>env_append := (\<lambda>l evs. Inl ''closed'')\<rparr>"

lemma fx_ulid_down: "env_ulid (fxDown t) = fxUlid"
  by (simp add: fxDown_def fxEnv_def)

lemma fx_sweep:
  assumes "reach fxUlid e"
  obtains e' res where "Sweep (fxEnv t) e = (e', res, None)"
proof -
  obtain e' res err where f: "Sweep (fxEnv t) e = (e', res, err)" by (metis prod_cases3)
  obtain ses where "flushed (fxEnv t) ses e e' (err = None)"
    using Sweep_effect [of "fxEnv t" e, unfolded fx_ulid_env, OF fx_ulid_ok assms f] by blast
  then have "err = None" by cases (simp_all add: fxEnv_def)
  with f that show thesis by simp
qed

lemma fx_host_live:
  assumes "MatchIdentity (e_graph fxEngine) ''host'' [(''host.id'', StringValue ''a'')] = Some h"
  shows "live (e_graph fxEngine) h \<noteq> None"
proof -
  have "wf_index (e_graph fxEngine)" using reach_good [OF fx_ulid_ok fx_reach(2)] by (auto simp: graph_inv_def)
  with assms show ?thesis by (auto simp: MatchIdentity_iff)
qed

lemma fx_lapsed: "map_of [(''agent'', armed 1 10)] k = Some ref \<Longrightarrow> lapsed 12 ref"
  by (auto simp: armed_def lapsed_def maxPlausibleLivenessPromise_def split: if_splits)

lemma fx_sweep_down:
  obtains e' res err where "Sweep (fxDown 12) fxEngine = (e', res, Some err)"
proof -
  obtain e' res err where f: "Sweep (fxDown 12) fxEngine = (e', res, err)" by (metis prod_cases3)
  have i: "good fxUlid fxEngine" "refs_ok (e_refs fxEngine)" "e_staged fxEngine = None"
    using reach_idle [OF fx_ulid_ok fx_reach(2)] by (simp_all add: idle_ok_def books_def)
  obtain h where m: "MatchIdentity (e_graph fxEngine) ''host'' [(''host.id'', StringValue ''a'')] = Some h"
    and rf: "e_refs fxEngine = [(h, [(''agent'', armed 1 10)])]" by (rule fx_host)
  have l: "live (e_graph fxEngine) h \<noteq> None" by (rule fx_host_live [OF m])
  have "err \<noteq> None"
  proof
    assume n: "err = None"
    obtain ses where "flushed (fxDown 12) ses fxEngine e' True"
      using Sweep_effect [of "fxDown 12" fxEngine, unfolded fx_ulid_down, OF fx_ulid_ok fx_reach(2) f] n by auto
    then have "view (e_graph e') = view (e_graph fxEngine)" by cases (simp_all add: fxDown_def)
    then have same: "live (e_graph e') h = live (e_graph fxEngine) h" by (simp add: view_def)
    have orph: "h \<in> set (orphans 12 (e_refs fxEngine))"
      unfolding set_orphans [OF i(2)] using fx_lapsed by (auto simp: rf all_lapsed_def)
    note S = Sweep_sound [of "fxDown 12" fxEngine, unfolded fx_ulid_down, OF i(1,3,2) f]
    have "live (e_graph e') h = None"
      using fun_cong [OF S(3), of h] S(2) n orph by (simp add: eview_def fxDown_def fxEnv_def)
    with same l show False by simp
  qed
  with f that show thesis by auto
qed

theorem sweep_expires_exactly_the_silent_witness:
  "\<exists>e' res i. Sweep (fxEnv 12) fxEngine = (e', res, None) \<and>
     MatchIdentity (e_graph fxEngine) ''host'' [(''host.id'', StringValue ''a'')] = Some i \<and> live (e_graph e') i = None"
proof -
  obtain h where m: "MatchIdentity (e_graph fxEngine) ''host'' [(''host.id'', StringValue ''a'')] = Some h"
    and rf: "e_refs fxEngine = [(h, [(''agent'', armed 1 10)])]" by (rule fx_host)
  obtain e' res where f: "Sweep (fxEnv 12) fxEngine = (e', res, None)" by (rule fx_sweep [OF fx_reach(2)])
  have "env_now (fxEnv 12) = 12" by (simp add: fxEnv_def)
  with sweep_expires_exactly_the_silent [of "fxEnv 12" fxEngine e' res h "''agent''", unfolded fx_ulid_env, OF fx_ulid_ok fx_reach(2) f]
    fx_lapsed rf have "live (e_graph e') h = None" by auto
  with m f show ?thesis by blast
qed

theorem failed_sweep_is_silent_witness:
  "\<exists>e' err. Sweep (fxDown 12) fxEngine = (e', zeroSweep, Some err) \<and> view (e_graph e') = view (e_graph fxEngine)"
proof -
  obtain e' res err where f: "Sweep (fxDown 12) fxEngine = (e', res, Some err)" by (rule fx_sweep_down)
  from failed_sweep_is_silent [of "fxDown 12" fxEngine, unfolded fx_ulid_down, OF fx_ulid_ok fx_reach(2) f] f
  show ?thesis by auto
qed

theorem failed_sweep_is_not_retried_witness:
  "\<exists>e1 err e2 res i. Sweep (fxDown 12) fxEngine = (e1, zeroSweep, Some err) \<and> Sweep (fxEnv 100) e1 = (e2, res, None) \<and>
     MatchIdentity (e_graph fxEngine) ''host'' [(''host.id'', StringValue ''a'')] = Some i \<and> live (e_graph e2) i \<noteq> None"
proof -
  obtain h where m: "MatchIdentity (e_graph fxEngine) ''host'' [(''host.id'', StringValue ''a'')] = Some h"
    and rf: "e_refs fxEngine = [(h, [(''agent'', armed 1 10)])]" by (rule fx_host)
  have l: "live (e_graph fxEngine) h \<noteq> None" by (rule fx_host_live [OF m])
  obtain e1 res1 err where f: "Sweep (fxDown 12) fxEngine = (e1, res1, Some err)" by (rule fx_sweep_down)
  have z: "res1 = zeroSweep"
    using reach_idle [OF fx_ulid_ok fx_reach(2)] Sweep_sound(4) [of "fxDown 12" fxEngine, unfolded fx_ulid_down, OF _ _ _ f]
    by (simp add: idle_ok_def books_def)
  have "reach fxUlid e1" using reach.sweep [OF fx_reach(2) fx_ulid_down, of 12] f by simp
  then obtain e2 res2 where g: "Sweep (fxEnv 100) e1 = (e2, res2, None)" using fx_sweep by blast
  have "map_of (e_refs fxEngine) h = Some [(''agent'', armed 1 10)]" by (simp add: rf)
  from failed_sweep_is_not_retried [of "fxDown 12" fxEngine, unfolded fx_ulid_down, OF fx_ulid_ok fx_reach(2) f this _ g]
  have "live (e_graph e2) h = live (e_graph fxEngine) h" using fx_lapsed by (auto simp: fxDown_def fxEnv_def)
  with l f g m z show ?thesis by auto
qed

section \<open>Batches\<close>

lemma Batch_events:
  assumes u: "ulid_ok (env_ulid env)" and r: "reach (env_ulid env) e" and f: "Batch env ops e = (e', err)"
  shows "flushed env (batchEvents env ops e) e e' (err = None)"
    and "e_rolledBack e' = e_rolledBack e @ (if err = None then [] else rev (registered ops))"
    and "\<exists>hid. ok_events hid (view (e_graph e)) (map fst (batchEvents env ops e))"
proof -
  have g: "good (env_ulid env) e" and n: "e_staged e = None" using reach_idle [OF u r] by (simp_all add: idle_ok_def)
  let ?e0 = "e\<lparr>e_staged := Some newStaged\<rparr>"
  let ?e1 = "fold (batchStep env) ops ?e0"
  have g1: "good (env_ulid env) ?e1" using batchFold_good [OF good_stage [OF g n], of ops] by simp
  have s1: "e_staged ?e1 \<noteq> None" "base ?e1 = base e" "rollbacks ?e1 = registered ops"
    using batchFold_stays [of ?e0 env ops] by (simp_all add: base_def rollbacks_def newStaged_def)
  then obtain st where st: "e_staged ?e1 = Some st" by auto
  have rb: "st_rollbacks st = registered ops" using s1(3) st by (simp add: rollbacks_def)
  have nd: "no_dangling (view (e_graph ?e1))" using g n s1(2) by (auto simp: good_def sound_def eview_def base_def)
  have fl: "flushStaged env st ?e1 = (e', err)" using f st by (simp add: Batch_def stagedOf_def)
  note F = flush_effect [OF g1 st fl nd]
  have "e_rolledBack ?e1 = e_rolledBack e" using s1(2) by (simp add: base_def)
  with F(2) rb flushed_before [OF F(1) s1(2)] st
  show "flushed env (batchEvents env ops e) e e' (err = None)"
    "e_rolledBack e' = e_rolledBack e @ (if err = None then [] else rev (registered ops))"
    by (simp_all add: batchEvents_def stagedOf_def)
  obtain hid where "ok_events hid (view (e_graph ?e1)) (map fst (st_events st))" by (rule good_staged_events [OF g1 st])
  with s1(2) st show "\<exists>hid. ok_events hid (view (e_graph e)) (map fst (batchEvents env ops e))"
    by (auto simp: batchEvents_def stagedOf_def base_def)
qed

text \<open>
  C10. A batch takes effect in one append or not at all: in any reachable state, when the log
  refuses it, the topology, the log and what the subscribers were told are as they were and the
  registered rollbacks ran last first; when it does not report an error, either its operations staged
  nothing and it changed nothing outside, or all the events they staged went to the log in one append, the topology is
  what replaying them gives, and the subscribers were told of exactly these events, with the
  commit number of that append.
\<close>

theorem batch_all_or_nothing:
  assumes u: "ulid_ok (env_ulid env)" and r: "reach (env_ulid env) e" and f: "Batch env ops e = (e', err)"
  shows "(let ses = batchEvents env ops e in if err \<noteq> None \<or> ses = []
      then view (e_graph e') = view (e_graph e) \<and> e_appender e' = e_appender e \<and> e_delivered e' = e_delivered e
      else \<exists>seq. env_append env (e_appender e) (map fst ses) = Inr (e_appender e', seq) \<and>
        view (e_graph e') = spec_replay (map fst ses) (view (e_graph e)) \<and>
        e_delivered e' = e_delivered e @ told (e_subs e) seq ses) \<and>
    e_rolledBack e' = e_rolledBack e @ (if err = None then [] else rev (registered ops))"
proof -
  note E = Batch_events [OF assms]
  from E(1,2) show ?thesis by cases (auto simp: Let_def)
qed

theorem batch_all_or_nothing_witness:
  "\<exists>e' err. Batch (fxDown 1) [BOnRollback 1, BOnRollback 2] fxStart = (e', err) \<and> view (e_graph e') = view (e_graph fxStart)"
proof -
  obtain e' err where b: "Batch (fxDown 1) [BOnRollback 1, BOnRollback 2] fxStart = (e', err)" by fastforce
  from batch_all_or_nothing [of "fxDown 1", unfolded fx_ulid_down, OF fx_ulid_ok fx_reach(1) b]
  have "view (e_graph e') = view (e_graph fxStart)" by (auto simp: fxDown_def Let_def split: if_splits)
  with b show ?thesis by blast
qed

end
