(* ===== verification/Ingest_Convert.thy ===== *)
theory Ingest_Convert
  imports Change_Expiry
begin

text \<open>
  \<open>internal/ingest/convert.go\<close>: an OTLP log record becomes an entity observation.

  An OTLP value is the data type \<open>PValue\<close>, one constructor for each \<open>pcommon.ValueType\<close>; a
  \<open>pcommon.Map\<close> is the list of its entries, of which \<open>Get\<close> reads the first with the key and which
  \<open>Range\<close> visits in order.  A timestamp is the unsigned count of nanoseconds since 1970 that the
  record carries.  The engine that a record is routed to is an argument and a result.
\<close>

section \<open>OTLP values and records\<close>

datatype PValue =
    PEmpty | PStr string | PInt int | PDouble float64 | PBool bool
  | PMap "(string \<times> PValue) list" | PSlice "PValue list" | PBytes string

type_synonym PMapping = "(string \<times> PValue) list"

record LogRecord =
  lr_EventName :: string
  lr_Attributes :: PMapping
  lr_Timestamp :: "64 word"
  lr_ObservedTimestamp :: "64 word"

section \<open>The wire vocabulary\<close>

definition attrEntityType :: string where "attrEntityType = ''entity.type''"
definition attrEntityID :: string where "attrEntityID = ''entity.id''"
definition attrEntityDesc :: string where "attrEntityDesc = ''entity.description''"
definition attrEntityInterval :: string where "attrEntityInterval = ''entity.report.interval''"
definition resAttrProducer :: string where "resAttrProducer = ''service.instance.id''"
definition attrEntityDeleteReason :: string where "attrEntityDeleteReason = ''entity.delete.reason''"
definition attrEntityRelationships :: string where "attrEntityRelationships = ''entity.relationships''"
definition relDescType :: string where "relDescType = ''relationship.type''"
definition relDescEntityType :: string where "relDescEntityType = attrEntityType"
definition relDescEntityID :: string where "relDescEntityID = attrEntityID"
definition relDescConfidence :: string where "relDescConfidence = ''confidence''"
definition relDescBasis :: string where "relDescBasis = ''basis''"
definition evEntityState :: string where "evEntityState = ''entity.state''"
definition evEntityDelete :: string where "evEntityDelete = ''entity.delete''"

lemmas wire_names = attrEntityType_def attrEntityID_def attrEntityDesc_def attrEntityInterval_def
  resAttrProducer_def attrEntityDeleteReason_def attrEntityRelationships_def relDescType_def
  relDescEntityType_def relDescEntityID_def relDescConfidence_def relDescBasis_def evEntityState_def
  evEntityDelete_def

section \<open>Values\<close>

definition joinKey :: "string \<Rightarrow> string \<Rightarrow> string" where
  "joinKey prefix k = (if prefix = [] then k else prefix @ ''.'' @ k)"

text \<open>
  \<open>valueFrom\<close> and \<open>kvsFromMap\<close>, with the loop over a slice as a function of its own.  A value that
  is not converted is None.
\<close>

function valueFrom :: "PValue \<Rightarrow> bool \<Rightarrow> Value option"
  and kvsFromMap :: "PMapping \<Rightarrow> string \<Rightarrow> bool \<Rightarrow> KeyValue list \<times> string list"
  and elemsFrom :: "PValue list \<Rightarrow> Value list option"
where
  "valueFrom (PStr s) allowNested = Some (StringValue s)"
| "valueFrom (PInt i) allowNested = Some (IntValue i)"
| "valueFrom (PDouble f) allowNested = Some (DoubleValue f)"
| "valueFrom (PBool b) allowNested = Some (BoolValue b)"
| "valueFrom (PSlice s) allowNested =
     (if \<not> allowNested then None else map_option ArrayValue (elemsFrom s))"
| "valueFrom (PMap m) allowNested =
     (if \<not> allowNested then None
      else case kvsFromMap m [] True of (kvs, dropped) \<Rightarrow> if dropped \<noteq> [] then None else Some (KvlistValue kvs))"
| "valueFrom PEmpty allowNested = None"
| "valueFrom (PBytes b) allowNested = None"
| "kvsFromMap [] prefix allowNested = ([], [])"
| "kvsFromMap ((k, v) # m) prefix allowNested =
     (case kvsFromMap m prefix allowNested of (kvs, dropped) \<Rightarrow>
        case valueFrom v allowNested of
          Some mv \<Rightarrow> ((k, mv) # kvs, dropped)
        | None \<Rightarrow> (kvs, joinKey prefix k # dropped))"
| "elemsFrom [] = Some []"
| "elemsFrom (v # s) =
     (case valueFrom v True of
        None \<Rightarrow> None
      | Some ev \<Rightarrow> map_option (\<lambda>elems. ev # elems) (elemsFrom s))"
  by pat_completeness auto
termination
  by (relation "measure (\<lambda>x. case x of
        Inl (v, _) \<Rightarrow> size v
      | Inr (Inl (m, _)) \<Rightarrow> size_list (size_prod (\<lambda>_. 0) size) m
      | Inr (Inr s) \<Rightarrow> size_list size s)") auto

section \<open>Attributes of a record\<close>

definition strAttr :: "PMapping \<Rightarrow> string \<Rightarrow> string option" where
  "strAttr attrs key = (case map_of attrs key of Some (PStr s) \<Rightarrow> Some s | _ \<Rightarrow> None)"

definition mapAttr :: "PMapping \<Rightarrow> string \<Rightarrow> bool \<Rightarrow> (KeyValue list \<times> string list) option" where
  "mapAttr attrs key allowNested =
     (case map_of attrs key of Some (PMap m) \<Rightarrow> Some (kvsFromMap m key allowNested) | _ \<Rightarrow> None)"

text \<open>\<open>time.Duration(secs) * time.Second\<close> is a 64-bit product.\<close>

definition reportEntityInterval :: "PMapping \<Rightarrow> duration" where
  "reportEntityInterval attrs =
     (case map_of attrs attrEntityInterval of
        Some (PInt secs) \<Rightarrow> if secs > 0 then wrap64 (secs * 1000000000) else 0
      | _ \<Rightarrow> 0)"

text \<open>\<open>Timestamp.AsTime\<close> reads the count as a signed 64-bit integer.\<close>

definition eventTimeOf :: "time \<Rightarrow> LogRecord \<Rightarrow> time" where
  "eventTimeOf now lr =
     (if lr_Timestamp lr \<noteq> 0 then unixEpoch + sint (lr_Timestamp lr)
      else if lr_ObservedTimestamp lr \<noteq> 0 then unixEpoch + sint (lr_ObservedTimestamp lr)
      else now)"

section \<open>Routing a record\<close>

datatype IngestErr =
    MissingType
  | MissingIdentity
  | BadEntity ModelErr
  | UnknownRelation string
  | Engine EngErr

text \<open>\<open>errors.Is(err, errInvalidRecord)\<close>.\<close>

fun errInvalidRecord :: "IngestErr \<Rightarrow> bool" where
  "errInvalidRecord (Engine err) = False"
| "errInvalidRecord _ = True"

definition entityObs :: "PMapping \<Rightarrow> time \<Rightarrow> bool \<Rightarrow> (IngestErr + EntityObservation) \<times> string list" where
  "entityObs attrs when strictVocab =
     (case strAttr attrs attrEntityType of
        None \<Rightarrow> (Inl MissingType, [])
      | Some typ \<Rightarrow>
          (case mapAttr attrs attrEntityID False of
             None \<Rightarrow> (Inl MissingIdentity, [])
           | Some (ident, identDropped) \<Rightarrow>
               if ident = [] then (Inl MissingIdentity, identDropped)
               else
                 let (descriptive, descDropped) =
                       (case mapAttr attrs attrEntityDesc True of None \<Rightarrow> ([], []) | Some r \<Rightarrow> r);
                     dropped = identDropped @ descDropped;
                     ent = \<lparr>ent_ID = [], ent_Type = typ, ent_Identity = ident, ent_Attributes = descriptive, ent_SchemaURL = []\<rparr>
                 in case validateEntity strictVocab ent of
                      Some verr \<Rightarrow> (Inl (BadEntity verr), dropped)
                    | None \<Rightarrow>
                        let (interval, dropped) =
                              (case map_of attrs attrEntityInterval of
                                 None \<Rightarrow> (0, dropped)
                               | Some (PInt secs) \<Rightarrow> (if secs > 0 then wrap64 (secs * 1000000000) else 0, dropped)
                               | Some _ \<Rightarrow> (0, dropped @ [attrEntityInterval]))
                        in (Inr \<lparr>eo_Type = typ, eo_Identity = ident, eo_Attributes = descriptive, eo_SchemaURL = [],
                                 eo_EventTime = when, eo_Interval = interval, eo_Producer = [], eo_DeleteReason = []\<rparr>, dropped)))"

definition routeRecordVocab :: "'a env \<Rightarrow> LogRecord \<Rightarrow> string \<Rightarrow> bool \<Rightarrow> 'a Engine
    \<Rightarrow> 'a Engine \<times> bool \<times> string list \<times> IngestErr option" where
  "routeRecordVocab env lr producer strictVocab e =
     (let attrs = lr_Attributes lr;
          when = eventTimeOf (env_now env) lr
      in if lr_EventName lr = evEntityState then
           (case entityObs attrs when strictVocab of
              (Inl oerr, dropped) \<Rightarrow> (e, True, dropped, Some oerr)
            | (Inr obs, dropped) \<Rightarrow>
                (case observeEntityLocked env (obs\<lparr>eo_Producer := producer\<rparr>) e of
                   (e, Inl err) \<Rightarrow> (e, True, dropped, Some (Engine err))
                 | (e, Inr ev) \<Rightarrow> (e, True, dropped, None)))
         else if lr_EventName lr = evEntityDelete then
           (case entityObs attrs when strictVocab of
              (Inl oerr, dropped) \<Rightarrow> (e, True, dropped, Some oerr)
            | (Inr obs, dropped) \<Rightarrow>
                let obs = obs\<lparr>eo_Producer := producer\<rparr>;
                    obs = (case strAttr attrs attrEntityDeleteReason of Some reason \<Rightarrow> obs\<lparr>eo_DeleteReason := reason\<rparr> | None \<Rightarrow> obs)
                in case deleteEntityLocked env obs e of
                     (e, ev, err) \<Rightarrow> (e, True, dropped, map_option Engine err))
         else (e, False, [], None))"

definition routeRecord :: "'a env \<Rightarrow> LogRecord \<Rightarrow> string \<Rightarrow> 'a Engine \<Rightarrow> 'a Engine \<times> bool \<times> string list \<times> IngestErr option" where
  "routeRecord env lr producer e = routeRecordVocab env lr producer True e"

end
