(* ===== verification/Ingest_Embedded.thy ===== *)
theory Ingest_Embedded
  imports Ingest_Convert
begin

text \<open>
  \<open>internal/ingest/embedded.go\<close>: the relationships that an entity state record carries become
  relation observations, and a relationship that a source stops listing is removed.

  The state of the reconciler is a Go map from the key of a source to the relations it asserts.  A
  function value given to \<open>OnRollback\<close> is an \<open>undo\<close>, a value that says what the function does to
  that map; the engine records its position in the list of the undos of the batch.
\<close>

type_synonym assertions = "(string, RelationObservation) gomap"
type_synonym embeddedReconciler = "(string, assertions) gomap"

definition newEmbeddedReconciler :: embeddedReconciler where
  "newEmbeddedReconciler = []"

datatype undo = Restore string assertions | Forget string

fun runUndo :: "undo \<Rightarrow> embeddedReconciler \<Rightarrow> embeddedReconciler" where
  "runUndo (Restore sourceKey prev) r = gput sourceKey prev r"
| "runUndo (Forget sourceKey) r = gdel sourceKey r"

record 'a routing =
  rt_engine :: "'a Engine"
  rt_reconciler :: embeddedReconciler
  rt_undos :: "undo list"

definition OnRollback :: "'a env \<Rightarrow> undo \<Rightarrow> 'a routing \<Rightarrow> 'a routing" where
  "OnRollback env u s =
     s\<lparr>rt_engine := batchStep env (BOnRollback (length (rt_undos s))) (rt_engine s), rt_undos := rt_undos s @ [u]\<rparr>"

section \<open>Keys\<close>

definition canonicalIdentity :: "KeyValue list \<Rightarrow> string" where
  "canonicalIdentity kvs = join '','' (sort (map (\<lambda>(k, v). k @ ''='' @ Display v) kvs))"

definition endpointKey :: "EndpointRef \<Rightarrow> string" where
  "endpointKey ep = ep_Type ep @ ''|'' @ canonicalIdentity (ep_Identity ep)"

definition producerKey :: "string \<Rightarrow> string \<Rightarrow> EndpointRef \<Rightarrow> string" where
  "producerKey producer scope ep = producer @ [x00] @ scope @ [x00] @ endpointKey ep"

definition relationKey :: "RelationObservation \<Rightarrow> string" where
  "relationKey obs = ro_Type obs @ ''=>'' @ endpointKey (ro_To obs)"

section \<open>Descriptors\<close>

definition strFromMap :: "PMapping \<Rightarrow> string \<Rightarrow> string option" where
  "strFromMap m key = (case map_of m key of Some (PStr s) \<Rightarrow> Some s | _ \<Rightarrow> None)"

record beliefNote =
  bn_relType :: string
  bn_reason :: string

definition beliefAttributes :: "PMapping \<Rightarrow> string \<Rightarrow> KeyValue list \<times> string" where
  "beliefAttributes m relType =
     (let unit = (\<lambda>c. f_le f_zero c \<and> f_le c f_one);
          (out, reason) =
            (case map_of m relDescConfidence of
               None \<Rightarrow> ([], ''no_confidence'')
             | Some (PDouble c) \<Rightarrow>
                 ([(relDescConfidence, DoubleValue c)], if unit c then [] else ''confidence_out_of_range'')
             | Some (PInt i) \<Rightarrow>
                 ([(relDescConfidence, IntValue i)], if unit (float_of_int i) then [] else ''confidence_out_of_range'')
             | Some _ \<Rightarrow> ([], ''confidence_not_numeric''));
          reason =
            (if relType = RelResolvesTo
             then (if ghas m relDescConfidence then ''relation_has_no_reader'' else []) else reason);
          out =
            (case map_of m relDescBasis of
               Some (PStr b) \<Rightarrow> if b \<noteq> [] then out @ [(relDescBasis, StringValue b)] else out
             | _ \<Rightarrow> out)
      in (out, reason))"

record parsed =
  pa_rels :: "RelationObservation list"
  pa_dropped :: "string list"
  pa_beliefs :: "beliefNote list"
  pa_err :: "IngestErr option"

definition descriptorKey :: "nat \<Rightarrow> string" where
  "descriptorKey i = attrEntityRelationships @ ''['' @ itoa i @ '']''"

text \<open>One element of the array, at its index.\<close>

definition embeddedRelation :: "EndpointRef \<Rightarrow> string \<Rightarrow> time \<Rightarrow> bool \<Rightarrow> duration \<Rightarrow> parsed \<Rightarrow> nat \<times> PValue \<Rightarrow> parsed" where
  "embeddedRelation source producer when strictVocab srcInterval p iel =
     (case iel of (i, el) \<Rightarrow>
        let key = descriptorKey i
        in case el of
             PMap m \<Rightarrow>
               (case (strFromMap m relDescType, strFromMap m relDescEntityType, map_of m relDescEntityID) of
                  (Some relType, Some toType, Some (PMap idv)) \<Rightarrow>
                    if relType = [] then p\<lparr>pa_dropped := pa_dropped p @ [key]\<rparr>
                    else if strictVocab \<and> RelationDef relType = None then
                      (if pa_err p = None then p\<lparr>pa_err := Some (UnknownRelation relType)\<rparr> else p)
                    else
                      let (toID, idDropped) = kvsFromMap idv (key @ ''.'' @ relDescEntityID) False;
                          p = p\<lparr>pa_dropped := pa_dropped p @ idDropped\<rparr>
                      in if toID = [] then p\<lparr>pa_dropped := pa_dropped p @ [key @ ''.'' @ relDescEntityID]\<rparr>
                         else
                           let obs = \<lparr>ro_Type = relType, ro_From = source, ro_To = \<lparr>ep_Type = toType, ep_Identity = toID\<rparr>,
                                      ro_Attributes = [], ro_EventTime = when, ro_Producer = producer, ro_Interval = 0,
                                      ro_SourceInterval = srcInterval\<rparr>;
                               (obs, beliefs) =
                                 (if relType = RelSameAs \<or> relType = RelResolvesTo then
                                    (case beliefAttributes m relType of (attrs, reason) \<Rightarrow>
                                       (obs\<lparr>ro_Attributes := attrs\<rparr>,
                                        if reason \<noteq> [] then pa_beliefs p @ [\<lparr>bn_relType = relType, bn_reason = reason\<rparr>]
                                        else pa_beliefs p))
                                  else (obs, pa_beliefs p))
                           in p\<lparr>pa_rels := pa_rels p @ [obs], pa_beliefs := beliefs\<rparr>
                | _ \<Rightarrow> p\<lparr>pa_dropped := pa_dropped p @ [key]\<rparr>)
           | _ \<Rightarrow> p\<lparr>pa_dropped := pa_dropped p @ [key]\<rparr>)"

definition embeddedRelations :: "PMapping \<Rightarrow> EndpointRef \<Rightarrow> string \<Rightarrow> time \<Rightarrow> bool \<Rightarrow> parsed" where
  "embeddedRelations attrs source producer when strictVocab =
     (let none = \<lparr>pa_rels = [], pa_dropped = [], pa_beliefs = [], pa_err = None\<rparr>
      in case map_of attrs attrEntityRelationships of
           Some (PSlice sl) \<Rightarrow>
             foldl (embeddedRelation source producer when strictVocab (reportEntityInterval attrs)) none (enumerate 0 sl)
         | _ \<Rightarrow> none)"

section \<open>Reconciling\<close>

definition errList :: "EngErr option \<Rightarrow> EngErr list" where
  "errList err = (case err of Some e \<Rightarrow> [e] | None \<Rightarrow> [])"

definition observeDesired :: "'a env \<Rightarrow> RelationObservation \<Rightarrow> 'a Engine \<times> assertions \<times> EngErr list \<Rightarrow> 'a Engine \<times> assertions \<times> EngErr list" where
  "observeDesired env obs s =
     (case s of (e, want, errs) \<Rightarrow>
        case observeRelationBuffered env obs e of
          (e, ev, err) \<Rightarrow> (e, gput (relationKey obs) obs want, errs @ errList err))"

definition removeAbsent :: "'a env \<Rightarrow> time \<Rightarrow> assertions \<Rightarrow> string \<times> RelationObservation \<Rightarrow> 'a Engine \<times> EngErr list \<Rightarrow> 'a Engine \<times> EngErr list" where
  "removeAbsent env when want kprev s =
     (case (kprev, s) of ((k, prev), (e, errs)) \<Rightarrow>
        if ghas want k then (e, errs)
        else case removeRelationLocked env (prev\<lparr>ro_EventTime := when\<rparr>) e of
               (e, ev, err) \<Rightarrow> (e, errs @ errList err))"

definition reconcile :: "'a env \<Rightarrow> string \<Rightarrow> RelationObservation list \<Rightarrow> time \<Rightarrow> 'a routing \<Rightarrow> 'a routing \<times> EngErr option" where
  "reconcile env sourceKey desired when s =
     (let prevState = map_of (rt_reconciler s) sourceKey;
          (e, want, errs) = fold (observeDesired env) desired (rt_engine s, [], []);
          (e, errs) = fold (removeAbsent env when want) (case prevState of Some prev \<Rightarrow> prev | None \<Rightarrow> []) (e, errs);
          r = (if want = [] then gdel sourceKey (rt_reconciler s) else gput sourceKey want (rt_reconciler s));
          s = s\<lparr>rt_engine := e, rt_reconciler := r\<rparr>;
          s = OnRollback env (case prevState of Some prev \<Rightarrow> Restore sourceKey prev | None \<Rightarrow> Forget sourceKey) s
      in (s, joinErrs errs))"

record handled =
  ha_dropped :: "string list"
  ha_beliefs :: "beliefNote list"
  ha_err :: "IngestErr option"

definition handleVocab :: "'a env \<Rightarrow> LogRecord \<Rightarrow> string \<Rightarrow> string \<Rightarrow> bool \<Rightarrow> 'a routing \<Rightarrow> 'a routing \<times> handled" where
  "handleVocab env lr producer scope strictVocab s =
     (let attrs = lr_Attributes lr; et = lr_EventName lr
      in if et \<noteq> evEntityState \<and> et \<noteq> evEntityDelete then (s, \<lparr>ha_dropped = [], ha_beliefs = [], ha_err = None\<rparr>)
         else case (strAttr attrs attrEntityType, mapAttr attrs attrEntityID False) of
                (Some sourceType, Some (sourceID, idDropped)) \<Rightarrow>
                  if sourceID = [] then (s, \<lparr>ha_dropped = idDropped, ha_beliefs = [], ha_err = None\<rparr>)
                  else
                    let source = \<lparr>ep_Type = sourceType, ep_Identity = sourceID\<rparr>;
                        sk = producerKey producer scope source
                    in if et = evEntityDelete then
                         (let prev = map_of (rt_reconciler s) sk;
                              s = s\<lparr>rt_reconciler := gdel sk (rt_reconciler s)\<rparr>;
                              s = (case prev of Some prev \<Rightarrow> OnRollback env (Restore sk prev) s | None \<Rightarrow> s)
                          in (s, \<lparr>ha_dropped = idDropped, ha_beliefs = [], ha_err = None\<rparr>))
                       else
                         let when = eventTimeOf (env_now env) lr;
                             p = embeddedRelations attrs source producer when strictVocab;
                             (s, rerr) = reconcile env sk (pa_rels p) when s
                         in (s, \<lparr>ha_dropped = idDropped @ pa_dropped p, ha_beliefs = pa_beliefs p,
                                 ha_err = (case rerr of Some err \<Rightarrow> Some (Engine err) | None \<Rightarrow> pa_err p)\<rparr>)
              | (_, idr) \<Rightarrow>
                  (s, \<lparr>ha_dropped = (case idr of Some (_, idDropped) \<Rightarrow> idDropped | None \<Rightarrow> []), ha_beliefs = [], ha_err = None\<rparr>))"

definition handle :: "'a env \<Rightarrow> LogRecord \<Rightarrow> string \<Rightarrow> string \<Rightarrow> 'a routing \<Rightarrow> 'a routing \<times> handled" where
  "handle env lr producer scope s = handleVocab env lr producer scope True s"

end
