(* ===== verification/Ingest_Receiver.thy ===== *)
theory Ingest_Receiver
  imports Ingest_Embedded Registry
begin

text \<open>
  \<open>internal/ingest/receiver.go\<close>: the OTLP logs server.  An export is a list of resources; each is
  resolved to a tenant, authorized, and ingested as one batch of the engine of that tenant.

  The engines live in a world \<open>'w\<close> that \<open>engineFor\<close> reads (and may extend, when it opens a
  tenant) and that a batch writes back with \<open>putEngine\<close>, which stands for the engine being a
  pointer; on the server both are the registry (\<open>registryServer\<close>).  A request's context is a
  value of the type \<open>'c\<close>.  Counters of the metrics package are left out; what the log line and the
  response report is in the tallies.
\<close>

section \<open>Requests\<close>

record ResourceLogs =
  rl_Attributes :: PMapping
  rl_ScopeLogs :: "(string \<times> LogRecord list) list"

record ('c, 'a, 'w) logsServer =
  ls_engineFor :: "string \<Rightarrow> 'w \<Rightarrow> 'w \<times> (RegErr + 'a Engine)"
  ls_putEngine :: "string \<Rightarrow> 'a Engine \<Rightarrow> 'w \<Rightarrow> 'w"
  ls_authorize :: "('c \<Rightarrow> string \<Rightarrow> bool) option"
  ls_acceptUnknown :: bool
  ls_resolveTenant :: "'c \<Rightarrow> string \<times> bool \<times> bool"
  ls_reconcilers :: "(string, embeddedReconciler) gomap"

definition reconcilerFor :: "string \<Rightarrow> ('c, 'a, 'w) logsServer \<Rightarrow> embeddedReconciler" where
  "reconcilerFor tenantID srv = gget newEmbeddedReconciler (ls_reconcilers srv) tenantID"

text \<open>The default resolution of a tenant is the metadata of the request, and it is not locked.  With one
  tenant the world is its engine.\<close>

definition NewRoutedReceiver :: "(string \<Rightarrow> 'w \<Rightarrow> 'w \<times> (RegErr + 'a Engine)) \<Rightarrow> (string \<Rightarrow> 'a Engine \<Rightarrow> 'w \<Rightarrow> 'w)
    \<Rightarrow> ('c \<Rightarrow> string \<Rightarrow> bool) option \<Rightarrow> ('c \<Rightarrow> string list) \<Rightarrow> bool \<Rightarrow> ('c, 'a, 'w) logsServer" where
  "NewRoutedReceiver engineFor putEngine authorize metadata acceptUnknownTypes =
     \<lparr>ls_engineFor = engineFor, ls_putEngine = putEngine, ls_authorize = authorize, ls_acceptUnknown = acceptUnknownTypes,
      ls_resolveTenant = (\<lambda>ctx. case FromGRPC (metadata ctx) of (i, ok) \<Rightarrow> (i, False, ok)), ls_reconcilers = []\<rparr>"

definition NewReceiver :: "('c \<Rightarrow> string list) \<Rightarrow> ('c, 'a, 'a Engine) logsServer" where
  "NewReceiver metadata = NewRoutedReceiver (\<lambda>_ e. (e, Inr e)) (\<lambda>_ e _. e) None metadata False"

definition SetTenantResolver :: "('c \<Rightarrow> string \<times> bool \<times> bool) option \<Rightarrow> ('c, 'a, 'w) logsServer \<Rightarrow> ('c, 'a, 'w) logsServer" where
  "SetTenantResolver fn srv = (case fn of Some f \<Rightarrow> srv\<lparr>ls_resolveTenant := f\<rparr> | None \<Rightarrow> srv)"

text \<open>The wiring of the server: \<open>engineFor\<close> of \<open>cmd/toise-server/main.go\<close>.\<close>

definition engineFor :: "'d packages \<Rightarrow> 'd Store env \<Rightarrow> string \<Rightarrow> 'd disk \<times> 'd Registry \<Rightarrow> ('d disk \<times> 'd Registry) \<times> (RegErr + 'd Store Engine)" where
  "engineFor pk env t w =
     (case w of (disk, r) \<Rightarrow>
        case For pk env t disk r of
          (disk, r, Inl ferr) \<Rightarrow> ((disk, r), Inl ferr)
        | (disk, r, Inr st) \<Rightarrow> ((disk, r), Inr (sk_Engine st)))"

definition putEngine :: "string \<Rightarrow> 'd Store Engine \<Rightarrow> 'd disk \<times> 'd Registry \<Rightarrow> 'd disk \<times> 'd Registry" where
  "putEngine t e w =
     (case w of (disk, r) \<Rightarrow>
        case map_of (rg_stacks r) t of
          None \<Rightarrow> (disk, r)
        | Some st \<Rightarrow> (disk, r\<lparr>rg_stacks := gput t (st\<lparr>sk_Engine := e\<rparr>) (rg_stacks r)\<rparr>))"

definition registryServer :: "'d packages \<Rightarrow> 'd Store env \<Rightarrow> ('c \<Rightarrow> string \<Rightarrow> bool) option \<Rightarrow> ('c \<Rightarrow> string list) \<Rightarrow> bool
    \<Rightarrow> ('c, 'd Store, 'd disk \<times> 'd Registry) logsServer" where
  "registryServer pk env authorize metadata acceptUnknownTypes =
     NewRoutedReceiver (engineFor pk env) putEngine authorize metadata acceptUnknownTypes"

section \<open>Tallies\<close>

record tally =
  ta_handled :: nat
  ta_skipped :: nat
  ta_rejected :: nat
  ta_rejectMsg :: "(IngestErr \<times> string) option"
  ta_inert :: nat
  ta_inertMsg :: "(beliefNote \<times> string \<times> string) option"
  ta_dropped :: "string list"

definition zeroTally :: tally where
  "zeroTally = \<lparr>ta_handled = 0, ta_skipped = 0, ta_rejected = 0, ta_rejectMsg = None, ta_inert = 0, ta_inertMsg = None, ta_dropped = []\<rparr>"

record tenantCounts =
  tc_handled :: nat
  tc_skipped :: nat
  tc_rejected :: nat
  tc_dropped :: nat

definition zeroCounts :: tenantCounts where
  "zeroCounts = \<lparr>tc_handled = 0, tc_skipped = 0, tc_rejected = 0, tc_dropped = 0\<rparr>"

definition reject :: "IngestErr \<Rightarrow> string \<Rightarrow> tally \<Rightarrow> tally" where
  "reject err tenantID t =
     t\<lparr>ta_rejected := ta_rejected t + 1, ta_rejectMsg := (if ta_rejectMsg t = None then Some (err, tenantID) else ta_rejectMsg t)\<rparr>"

definition noteInert :: "string \<Rightarrow> string \<Rightarrow> beliefNote \<Rightarrow> tally \<Rightarrow> tally" where
  "noteInert producer tenantID bn t =
     t\<lparr>ta_inert := ta_inert t + 1,
       ta_inertMsg := (if ta_inertMsg t = None then Some (bn, producer, tenantID) else ta_inertMsg t)\<rparr>"

section \<open>One resource as one batch\<close>

record 'a batchState =
  bs_routing :: "'a routing"
  bs_tally :: tally
  bs_routeErr :: "IngestErr option"

text \<open>
  The body of the loop over the records of a scope: a record that violates the wire contract is
  rejected and the loop goes on, any other error ends it.
\<close>

definition ingestRecord :: "'a env \<Rightarrow> string \<Rightarrow> string \<Rightarrow> string \<Rightarrow> bool \<Rightarrow> 'a batchState \<Rightarrow> LogRecord \<Rightarrow> 'a batchState" where
  "ingestRecord env tenantID producer scope strictVocab b lr =
     (if bs_routeErr b \<noteq> None then b
      else
        case routeRecordVocab env lr producer strictVocab (rt_engine (bs_routing b)) of
          (e, ok, dropt, err) \<Rightarrow>
            let s = (bs_routing b)\<lparr>rt_engine := e\<rparr>;
                t = (bs_tally b)\<lparr>ta_dropped := ta_dropped (bs_tally b) @ dropt\<rparr>
            in case err of
                 Some err \<Rightarrow>
                   if errInvalidRecord err then b\<lparr>bs_routing := s, bs_tally := reject err tenantID t\<rparr>
                   else b\<lparr>bs_routing := s, bs_tally := t, bs_routeErr := Some err\<rparr>
               | None \<Rightarrow>
                   (case handleVocab env lr producer scope strictVocab s of
                      (s, h) \<Rightarrow>
                        let t = t\<lparr>ta_dropped := ta_dropped t @ ha_dropped h\<rparr>;
                            t = fold (noteInert producer tenantID) (ha_beliefs h) t
                        in case ha_err h of
                             Some eerr \<Rightarrow>
                               if errInvalidRecord eerr then b\<lparr>bs_routing := s, bs_tally := reject eerr tenantID t\<rparr>
                               else b\<lparr>bs_routing := s, bs_tally := t, bs_routeErr := Some eerr\<rparr>
                           | None \<Rightarrow>
                               b\<lparr>bs_routing := s,
                                 bs_tally := (if ok then t\<lparr>ta_handled := ta_handled t + 1\<rparr> else t\<lparr>ta_skipped := ta_skipped t + 1\<rparr>)\<rparr>))"

definition ingestScope :: "'a env \<Rightarrow> string \<Rightarrow> string \<Rightarrow> bool \<Rightarrow> 'a batchState \<Rightarrow> string \<times> LogRecord list \<Rightarrow> 'a batchState" where
  "ingestScope env tenantID producer strictVocab b sl =
     (case sl of (scope, recs) \<Rightarrow>
        if bs_routeErr b \<noteq> None then b
        else
          let s = bs_routing b;
              b = b\<lparr>bs_routing := s\<lparr>rt_engine := batchStep env (BSetScope scope) (rt_engine s)\<rparr>\<rparr>
          in foldl (ingestRecord env tenantID producer scope strictVocab) b recs)"

text \<open>
  \<open>engine.Batch\<close> with the function of the receiver.  The rollbacks that a failed flush ran are those
  the engine added to its record of them, and each is one of the undos of this batch.
\<close>

definition batchBody :: "'a env \<Rightarrow> string \<Rightarrow> string \<Rightarrow> bool \<Rightarrow> (string \<times> LogRecord list) list \<Rightarrow> embeddedReconciler \<Rightarrow> tally \<Rightarrow> 'a Engine \<Rightarrow> 'a batchState" where
  "batchBody env tenantID producer strictVocab scopes r t e =
     foldl (ingestScope env tenantID producer strictVocab)
       \<lparr>bs_routing = \<lparr>rt_engine = e\<lparr>e_staged := Some newStaged\<rparr>, rt_reconciler = r, rt_undos = []\<rparr>, bs_tally = t, bs_routeErr = None\<rparr> scopes"

definition rollback :: "undo list \<Rightarrow> nat list \<Rightarrow> embeddedReconciler \<Rightarrow> embeddedReconciler" where
  "rollback undos fns r = fold (\<lambda>n r. if n < length undos then runUndo (undos ! n) r else r) fns r"

definition ingestBatch :: "'a env \<Rightarrow> string \<Rightarrow> string \<Rightarrow> bool \<Rightarrow> (string \<times> LogRecord list) list \<Rightarrow> embeddedReconciler \<Rightarrow> tally \<Rightarrow> 'a Engine
    \<Rightarrow> 'a Engine \<times> embeddedReconciler \<times> tally \<times> IngestErr option \<times> EngErr option" where
  "ingestBatch env tenantID producer strictVocab scopes r t e =
     (let b = batchBody env tenantID producer strictVocab scopes r t e;
          s = bs_routing b
      in case flushStaged env (stagedOf (rt_engine s)) (rt_engine s) of
           (e', batchErr) \<Rightarrow>
             (e', rollback (rt_undos s) (drop (length (e_rolledBack (rt_engine s))) (e_rolledBack e')) (rt_reconciler s),
              bs_tally b, bs_routeErr b, batchErr))"

section \<open>Export\<close>

datatype ExportErr =
    InvalidMetadata
  | InvalidTenantAttr string
  | NotAuthorized string
  | TenantRefused string RegErr
  | TenantUnavailable string RegErr
  | RoutingFailed IngestErr
  | BatchFailed EngErr

datatype Code = InvalidArgument | PermissionDenied | Unavailable

fun codeOf :: "ExportErr \<Rightarrow> Code" where
  "codeOf InvalidMetadata = InvalidArgument"
| "codeOf (InvalidTenantAttr _) = InvalidArgument"
| "codeOf (NotAuthorized _) = PermissionDenied"
| "codeOf (TenantRefused _ _) = InvalidArgument"
| "codeOf (TenantUnavailable _ _) = Unavailable"
| "codeOf (RoutingFailed _) = Unavailable"
| "codeOf (BatchFailed _) = Unavailable"

text \<open>\<open>errors.Is(err, tenant.ErrNotAllowed)\<close>.\<close>

fun ErrNotAllowed :: "RegErr \<Rightarrow> bool" where
  "ErrNotAllowed (AutoCreateOff _) = True"
| "ErrNotAllowed (NotOnAllowlist _) = True"
| "ErrNotAllowed (CapReached _) = True"
| "ErrNotAllowed _ = False"

definition resourceTenant :: "string \<Rightarrow> bool \<Rightarrow> PMapping \<Rightarrow> ExportErr + string" where
  "resourceTenant baseTenant tenantLocked attrs =
     (case strAttr attrs ResourceAttr of
        None \<Rightarrow> Inr baseTenant
      | Some rt \<Rightarrow>
          if tenantLocked then Inr baseTenant
          else case Sanitize rt of (san, ok) \<Rightarrow> if ok then Inr san else Inl (InvalidTenantAttr rt))"

record ('c, 'a, 'w) exportState =
  xs_server :: "('c, 'a, 'w) logsServer"
  xs_world :: 'w
  xs_tally :: tally
  xs_perTenant :: "(string, tenantCounts) gomap"

definition countTenant :: "string \<Rightarrow> tally \<Rightarrow> tally \<Rightarrow> (string, tenantCounts) gomap \<Rightarrow> (string, tenantCounts) gomap" where
  "countTenant tenantID before after perTenant =
     (let c = gget zeroCounts perTenant tenantID
      in gput tenantID
           (c\<lparr>tc_handled := tc_handled c + (ta_handled after - ta_handled before),
              tc_skipped := tc_skipped c + (ta_skipped after - ta_skipped before),
              tc_rejected := tc_rejected c + (ta_rejected after - ta_rejected before),
              tc_dropped := tc_dropped c + (length (ta_dropped after) - length (ta_dropped before))\<rparr>) perTenant)"

definition exportResource :: "'a env \<Rightarrow> 'c \<Rightarrow> string \<Rightarrow> bool \<Rightarrow> ResourceLogs \<Rightarrow> ('c, 'a, 'w) exportState
    \<Rightarrow> ('c, 'a, 'w) exportState \<times> ExportErr option" where
  "exportResource env ctx baseTenant tenantLocked rl x =
     (let srv = xs_server x;
          producer = (case strAttr (rl_Attributes rl) resAttrProducer of Some p \<Rightarrow> p | None \<Rightarrow> [])
      in case resourceTenant baseTenant tenantLocked (rl_Attributes rl) of
           Inl err \<Rightarrow> (x, Some err)
         | Inr tenantID \<Rightarrow>
             if (case ls_authorize srv of Some authorize \<Rightarrow> \<not> authorize ctx tenantID | None \<Rightarrow> False)
             then (x, Some (NotAuthorized tenantID))
             else
               case ls_engineFor srv tenantID (xs_world x) of
                 (w, Inl err) \<Rightarrow>
                   (x\<lparr>xs_world := w\<rparr>, Some (if ErrNotAllowed err then TenantRefused tenantID err else TenantUnavailable tenantID err))
               | (w, Inr engine) \<Rightarrow>
                   (case ingestBatch env tenantID producer (\<not> ls_acceptUnknown srv) (rl_ScopeLogs rl) (reconcilerFor tenantID srv)
                      (xs_tally x) engine of
                      (engine, r, t, routeErr, batchErr) \<Rightarrow>
                        let x' = x\<lparr>xs_server := srv\<lparr>ls_reconcilers := gput tenantID r (ls_reconcilers srv)\<rparr>,
                                   xs_world := ls_putEngine srv tenantID engine w, xs_tally := t\<rparr>
                        in case routeErr of
                             Some err \<Rightarrow> (x', Some (RoutingFailed err))
                           | None \<Rightarrow>
                               (case batchErr of
                                  Some err \<Rightarrow> (x', Some (BatchFailed err))
                                | None \<Rightarrow> (x'\<lparr>xs_perTenant := countTenant tenantID (xs_tally x) t (xs_perTenant x)\<rparr>, None))))"

fun exportResources :: "'a env \<Rightarrow> 'c \<Rightarrow> string \<Rightarrow> bool \<Rightarrow> ResourceLogs list \<Rightarrow> ('c, 'a, 'w) exportState
    \<Rightarrow> ('c, 'a, 'w) exportState \<times> ExportErr option" where
  "exportResources env ctx baseTenant tenantLocked [] x = (x, None)"
| "exportResources env ctx baseTenant tenantLocked (rl # rls) x =
     (case exportResource env ctx baseTenant tenantLocked rl x of
        (x, Some err) \<Rightarrow> (x, Some err)
      | (x, None) \<Rightarrow> exportResources env ctx baseTenant tenantLocked rls x)"

text \<open>The response: how many records were rejected, and the first reason, when there were any.\<close>

record ExportResponse =
  er_RejectedLogRecords :: nat
  er_ErrorMessage :: "IngestErr option"

definition Export :: "'a env \<Rightarrow> 'c \<Rightarrow> ResourceLogs list \<Rightarrow> ('c, 'a, 'w) logsServer \<Rightarrow> 'w
    \<Rightarrow> ('c, 'a, 'w) exportState \<times> (ExportErr + ExportResponse)" where
  "Export env ctx rls srv w =
     (let x = \<lparr>xs_server = srv, xs_world = w, xs_tally = zeroTally, xs_perTenant = []\<rparr>
      in case ls_resolveTenant srv ctx of
           (baseTenant, tenantLocked, ok) \<Rightarrow>
             if \<not> ok then (x, Inl InvalidMetadata)
             else case exportResources env ctx baseTenant tenantLocked rls x of
                    (x, Some err) \<Rightarrow> (x, Inl err)
                  | (x, None) \<Rightarrow>
                      (x, Inr (if ta_rejected (xs_tally x) > 0
                               then \<lparr>er_RejectedLogRecords = ta_rejected (xs_tally x), er_ErrorMessage = map_option fst (ta_rejectMsg (xs_tally x))\<rparr>
                               else \<lparr>er_RejectedLogRecords = 0, er_ErrorMessage = None\<rparr>)))"

end
