(* ===== verification/Ingest_Laws.thy ===== *)
theory Ingest_Laws
  imports Ingest_Receiver
begin

text \<open>
  What a record does to the state it is routed through: the engine sees a list of batch operations,
  every change of the reconciler comes with an undo that the engine knows by its position, and
  running the undos last first gives the reconciler back.
\<close>

section \<open>Operations and their undos\<close>

definition undoAll :: "undo list \<Rightarrow> embeddedReconciler \<Rightarrow> embeddedReconciler" where
  "undoAll us r = fold runUndo (rev us) r"

definition routes :: "'a env \<Rightarrow> 'a routing \<Rightarrow> 'a routing \<Rightarrow> bool" where
  "routes env s s' = (\<exists>ops us. rt_engine s' = fold (batchStep env) ops (rt_engine s) \<and> rt_undos s' = rt_undos s @ us \<and>
     registered ops = [length (rt_undos s) ..< length (rt_undos s')] \<and>
     map_of (undoAll us (rt_reconciler s')) = map_of (rt_reconciler s))"

lemma runUndo_cong: "map_of r = map_of r' \<Longrightarrow> map_of (runUndo u r) = map_of (runUndo u r')"
  by (cases u) simp_all

lemma undoAll_cong:
  assumes "map_of r = map_of r'"
  shows "map_of (undoAll us r) = map_of (undoAll us r')"
proof -
  have "map_of r = map_of r' \<Longrightarrow> map_of (fold runUndo vs r) = map_of (fold runUndo vs r')" for vs r r'
  proof (induction vs arbitrary: r r')
    case (Cons v vs)
    from Cons.IH [OF runUndo_cong [OF Cons.prems]] show ?case by simp
  qed simp
  from this [OF assms] show ?thesis by (simp add: undoAll_def)
qed

lemma undoAll_append: "undoAll (us @ vs) r = undoAll us (undoAll vs r)"
  by (simp add: undoAll_def)

lemma registered_append: "registered (ops @ ops') = registered ops @ registered ops'"
  by (induction ops rule: registered.induct) simp_all

lemma routes_refl [simp]: "routes env s s"
  unfolding routes_def by (rule exI [of _ "[]"]) (simp add: undoAll_def)

lemma routes_trans:
  assumes "routes env s s1" and "routes env s1 s2"
  shows "routes env s s2"
proof -
  obtain o1 u1 where 1: "rt_engine s1 = fold (batchStep env) o1 (rt_engine s)" "rt_undos s1 = rt_undos s @ u1"
    "registered o1 = [length (rt_undos s) ..< length (rt_undos s1)]" "map_of (undoAll u1 (rt_reconciler s1)) = map_of (rt_reconciler s)"
    using assms(1) unfolding routes_def by blast
  obtain o2 u2 where 2: "rt_engine s2 = fold (batchStep env) o2 (rt_engine s1)" "rt_undos s2 = rt_undos s1 @ u2"
    "registered o2 = [length (rt_undos s1) ..< length (rt_undos s2)]" "map_of (undoAll u2 (rt_reconciler s2)) = map_of (rt_reconciler s1)"
    using assms(2) unfolding routes_def by blast
  have "registered (o1 @ o2) = [length (rt_undos s) ..< length (rt_undos s2)]"
    using upt_add_eq_append [of "length (rt_undos s)" "length (rt_undos s1)" "length u2"] 1(2,3) 2(2,3)
    unfolding registered_append by (simp only: length_append le_add1)
  moreover have "map_of (undoAll (u1 @ u2) (rt_reconciler s2)) = map_of (rt_reconciler s)"
    using undoAll_cong [OF 2(4), of u1] 1(4) by (simp add: undoAll_append)
  ultimately show ?thesis using 1(1,2) 2(1,2) unfolding routes_def by (intro exI [of _ "o1 @ o2"] exI [of _ "u1 @ u2"]) simp
qed

lemma routes_engine:
  assumes "e' = fold (batchStep env) ops (rt_engine s)" and "registered ops = []"
  shows "routes env s (s\<lparr>rt_engine := e'\<rparr>)"
  unfolding routes_def using assms by (intro exI [of _ ops] exI [of _ "[]"]) (simp add: undoAll_def)

text \<open>A change of the reconciler followed by the registration of an undo that takes it back.\<close>

lemma routes_undo:
  assumes "map_of (runUndo u r) = map_of (rt_reconciler s)"
  shows "routes env s (OnRollback env u (s\<lparr>rt_reconciler := r\<rparr>))"
  unfolding routes_def using assms
  by (intro exI [of _ "[BOnRollback (length (rt_undos s))]"] exI [of _ "[u]"]) (simp add: OnRollback_def undoAll_def)

section \<open>Records\<close>

text \<open>The operation that a record asks of the engine.\<close>

definition recordOps :: "'a env \<Rightarrow> LogRecord \<Rightarrow> string \<Rightarrow> bool \<Rightarrow> BatchOp list" where
  "recordOps env lr producer strictVocab =
     (case entityObs (lr_Attributes lr) (eventTimeOf (env_now env) lr) strictVocab of
        (Inl _, _) \<Rightarrow> []
      | (Inr obs, _) \<Rightarrow>
          if lr_EventName lr = evEntityState then [BObserveEntity (obs\<lparr>eo_Producer := producer\<rparr>)]
          else if lr_EventName lr = evEntityDelete then
            [BDeleteEntity (case strAttr (lr_Attributes lr) attrEntityDeleteReason of
               Some reason \<Rightarrow> obs\<lparr>eo_Producer := producer, eo_DeleteReason := reason\<rparr> | None \<Rightarrow> obs\<lparr>eo_Producer := producer\<rparr>)]
          else [])"

lemma registered_recordOps [simp]: "registered (recordOps env lr producer strictVocab) = []"
  by (simp add: recordOps_def split: prod.splits sum.splits)

lemma event_names [simp]: "evEntityState \<noteq> evEntityDelete" "evEntityDelete \<noteq> evEntityState"
  by (simp_all add: wire_names)

lemma routeRecord_ops:
  "fst (routeRecordVocab env lr producer strictVocab e) = fold (batchStep env) (recordOps env lr producer strictVocab) e"
  by (auto simp: routeRecordVocab_def recordOps_def Let_def split: prod.splits sum.splits option.splits)

section \<open>Reconciling\<close>

lemma observeDesired_fold:
  "fold (observeDesired env) desired (e, want, errs) = (e', want', errs') \<Longrightarrow>
     e' = fold (batchStep env) (map BObserveRelation desired) e \<and>
     want' = fold (\<lambda>obs. gput (relationKey obs) obs) desired want"
proof (induction desired arbitrary: e want errs)
  case (Cons obs desired)
  then show ?case by (simp add: observeDesired_def split: prod.splits)
qed simp

lemma removeAbsent_fold:
  "fold (removeAbsent env when want) prev (e, errs) = (e', errs') \<Longrightarrow>
     e' = fold (batchStep env) (map (\<lambda>(k, obs). BRemoveRelation (obs\<lparr>ro_EventTime := when\<rparr>)) (filter (\<lambda>(k, obs). \<not> ghas want k) prev)) e"
proof (induction prev arbitrary: e errs)
  case (Cons kp prev)
  obtain k p where kp: "kp = (k, p)" by (cases kp)
  show ?case
  proof (cases "ghas want k")
    case True
    with Cons.prems Cons.IH [of e errs] kp show ?thesis by (simp add: removeAbsent_def)
  next
    case False
    obtain e1 ev err where "removeRelationLocked env (p\<lparr>ro_EventTime := when\<rparr>) e = (e1, ev, err)" by (metis prod_cases3)
    with False Cons.prems Cons.IH [of e1 "errs @ errList err"] kp show ?thesis by (simp add: removeAbsent_def)
  qed
qed simp

definition wanted :: "RelationObservation list \<Rightarrow> assertions" where
  "wanted desired = fold (\<lambda>obs. gput (relationKey obs) obs) desired []"

definition reconcileOps :: "RelationObservation list \<Rightarrow> time \<Rightarrow> assertions \<Rightarrow> BatchOp list" where
  "reconcileOps desired when prev =
     map BObserveRelation desired @
     map (\<lambda>(k, obs). BRemoveRelation (obs\<lparr>ro_EventTime := when\<rparr>)) (filter (\<lambda>(k, obs). \<not> ghas (wanted desired) k) prev)"

lemma registered_reconcileOps [simp]: "registered (reconcileOps desired when prev) = []"
proof -
  have "registered (map (\<lambda>(k, obs). BRemoveRelation (obs\<lparr>ro_EventTime := when\<rparr>)) kps) = []" for kps
    by (induction kps) auto
  moreover have "registered (map BObserveRelation desired) = []" by (induction desired) simp_all
  ultimately show ?thesis by (simp add: reconcileOps_def registered_append)
qed

lemma reconcile_run:
  assumes "reconcile env sk desired when s = (s', err)"
  shows "s' = OnRollback env (case map_of (rt_reconciler s) sk of Some prev \<Rightarrow> Restore sk prev | None \<Rightarrow> Forget sk)
      (s\<lparr>rt_engine := fold (batchStep env) (reconcileOps desired when (gget [] (rt_reconciler s) sk)) (rt_engine s),
         rt_reconciler := (if wanted desired = [] then gdel sk (rt_reconciler s) else gput sk (wanted desired) (rt_reconciler s))\<rparr>)"
proof -
  let ?prev = "gget [] (rt_reconciler s) sk"
  obtain e1 want errs where o: "fold (observeDesired env) desired (rt_engine s, [], []) = (e1, want, errs)" by (metis prod_cases3)
  obtain e2 errs2 where r: "fold (removeAbsent env when want) ?prev (e1, errs) = (e2, errs2)" by fastforce
  have e1: "e1 = fold (batchStep env) (map BObserveRelation desired) (rt_engine s)" and w: "want = wanted desired"
    using observeDesired_fold [OF o] by (simp_all add: wanted_def)
  have e2: "e2 = fold (batchStep env) (reconcileOps desired when ?prev) (rt_engine s)"
    using removeAbsent_fold [OF r] e1 w by (simp add: reconcileOps_def)
  have p: "(case map_of (rt_reconciler s) sk of Some prev \<Rightarrow> prev | None \<Rightarrow> []) = ?prev" by (simp add: gget_def split: option.splits)
  show ?thesis using assms r unfolding reconcile_def p o Let_def prod.case e2 w by (simp cong: if_cong)
qed

lemma reconcile_routes:
  assumes "reconcile env sk desired when s = (s', err)"
  shows "routes env s s'"
proof -
  let ?e = "fold (batchStep env) (reconcileOps desired when (gget [] (rt_reconciler s) sk)) (rt_engine s)"
  let ?s = "s\<lparr>rt_engine := ?e\<rparr>"
  let ?r = "if wanted desired = [] then gdel sk (rt_reconciler s) else gput sk (wanted desired) (rt_reconciler s)"
  let ?u = "case map_of (rt_reconciler s) sk of Some prev \<Rightarrow> Restore sk prev | None \<Rightarrow> Forget sk"
  have "map_of (runUndo ?u ?r) = map_of (rt_reconciler ?s)"
    by (auto simp: fun_eq_iff split: option.splits)
  from routes_undo [OF this, of env] have "routes env ?s s'" using reconcile_run [OF assms] by simp
  moreover have "routes env s ?s" by (rule routes_engine [OF refl]) simp
  ultimately show ?thesis by (rule routes_trans [rotated])
qed

lemma handleVocab_routes:
  assumes "handleVocab env lr producer scope strictVocab s = (s', h)"
  shows "routes env s s'"
proof (cases "\<exists>sourceType sourceID idDropped. strAttr (lr_Attributes lr) attrEntityType = Some sourceType \<and>
    mapAttr (lr_Attributes lr) attrEntityID False = Some (sourceID, idDropped) \<and> sourceID \<noteq> [] \<and>
    (lr_EventName lr = evEntityState \<or> lr_EventName lr = evEntityDelete)")
  case False
  then have "s' = s" using assms by (auto simp: handleVocab_def Let_def split: option.splits if_splits)
  then show ?thesis by simp
next
  case True
  then obtain sourceType sourceID idDropped where S: "strAttr (lr_Attributes lr) attrEntityType = Some sourceType"
    "mapAttr (lr_Attributes lr) attrEntityID False = Some (sourceID, idDropped)" "sourceID \<noteq> []"
    and ev: "lr_EventName lr = evEntityState \<or> lr_EventName lr = evEntityDelete" by blast
  let ?sk = "producerKey producer scope \<lparr>ep_Type = sourceType, ep_Identity = sourceID\<rparr>"
  show ?thesis
  proof (cases "lr_EventName lr = evEntityState")
    case True
    then show ?thesis using assms S by (auto simp: handleVocab_def Let_def split: prod.splits intro: reconcile_routes)
  next
    case False
    with ev have d: "lr_EventName lr = evEntityDelete" by simp
    show ?thesis
    proof (cases "map_of (rt_reconciler s) ?sk")
      case None
      have "routes env s (s\<lparr>rt_reconciler := gdel ?sk (rt_reconciler s)\<rparr>)"
        unfolding routes_def by (intro exI [of _ "[]"]) (use None in \<open>auto simp: undoAll_def fun_eq_iff\<close>)
      then show ?thesis using assms S d None by (auto simp: handleVocab_def Let_def)
    next
      case (Some prev)
      have "map_of (runUndo (Restore ?sk prev) (gdel ?sk (rt_reconciler s))) = map_of (rt_reconciler s)"
        using Some by (auto simp: fun_eq_iff)
      from routes_undo [OF this, of env] show ?thesis using assms S d Some by (auto simp: handleVocab_def Let_def)
    qed
  qed
qed

section \<open>Batches\<close>

lemma ingestRecord_routes: "routes env (bs_routing b) (bs_routing (ingestRecord env tenantID producer scope strictVocab b lr))"
proof -
  let ?s = "bs_routing b"
  obtain e ok dr err where r: "routeRecordVocab env lr producer strictVocab (rt_engine ?s) = (e, ok, dr, err)" by (metis prod_cases4)
  have e: "e = fold (batchStep env) (recordOps env lr producer strictVocab) (rt_engine ?s)"
    using routeRecord_ops [of env lr producer strictVocab "rt_engine ?s"] r by simp
  have one: "routes env ?s (?s\<lparr>rt_engine := e\<rparr>)" by (rule routes_engine [OF e]) simp
  obtain s2 h where h: "handleVocab env lr producer scope strictVocab (?s\<lparr>rt_engine := e\<rparr>) = (s2, h)" by fastforce
  have two: "routes env ?s s2" by (rule routes_trans [OF one handleVocab_routes [OF h]])
  show ?thesis using r h one two by (simp add: ingestRecord_def Let_def split: option.splits)
qed

lemma foldl_ingestRecord_routes:
  "routes env (bs_routing b) (bs_routing (foldl (ingestRecord env tenantID producer scope strictVocab) b recs))"
proof (induction recs arbitrary: b)
  case (Cons lr recs)
  from routes_trans [OF ingestRecord_routes Cons.IH] show ?case by simp
qed simp

lemma ingestScope_routes: "routes env (bs_routing b) (bs_routing (ingestScope env tenantID producer strictVocab b sl))"
proof -
  obtain scope recs where sl: "sl = (scope, recs)" by (cases sl)
  let ?s = "(bs_routing b)\<lparr>rt_engine := fold (batchStep env) [BSetScope scope] (rt_engine (bs_routing b))\<rparr>"
  have "routes env (bs_routing b) ?s" by (rule routes_engine [OF refl]) simp
  moreover have "routes env ?s (bs_routing (foldl (ingestRecord env tenantID producer scope strictVocab) (b\<lparr>bs_routing := ?s\<rparr>) recs))"
    using foldl_ingestRecord_routes [of env "b\<lparr>bs_routing := ?s\<rparr>"] by simp
  ultimately show ?thesis using sl routes_trans by (fastforce simp: ingestScope_def Let_def)
qed

lemma foldl_ingestScope_routes:
  "routes env (bs_routing b) (bs_routing (foldl (ingestScope env tenantID producer strictVocab) b sls))"
proof (induction sls arbitrary: b)
  case (Cons sl sls)
  from routes_trans [OF ingestScope_routes Cons.IH] show ?case by simp
qed simp

lemma rollback_all: "rollback us (rev [0 ..< length us]) r = undoAll us r"
proof -
  have "fold (\<lambda>n r. if n < length us then runUndo (us ! n) r else r) ns r = fold runUndo (map ((!) us) ns) r"
    if "set ns \<subseteq> {..< length us}" for ns
    using that by (induction ns arbitrary: r) auto
  moreover have "set (rev [0 ..< length us]) \<subseteq> {..< length us}" by auto
  ultimately have "rollback us (rev [0 ..< length us]) r = fold runUndo (map ((!) us) (rev [0 ..< length us])) r"
    unfolding rollback_def by blast
  then show ?thesis by (simp only: undoAll_def rev_map [symmetric] map_nth)
qed

text \<open>Ingesting a resource is one batch of the engine, and a failed flush gives the reconciler back.\<close>

lemma ingestBatch_batch:
  assumes u: "ulid_ok (env_ulid env)" and r: "reach (env_ulid env) e"
    and b: "ingestBatch env tenantID producer strictVocab scopes rc t e = (e', rc', t', routeErr, batchErr)"
  shows "\<exists>ops. Batch env ops e = (e', batchErr) \<and> batchEvents env ops e = st_events (stagedOf (rt_engine (bs_routing (batchBody env tenantID producer strictVocab scopes rc t e))))"
    and "batchErr \<noteq> None \<Longrightarrow> map_of rc' = map_of rc"
    and "batchErr = None \<Longrightarrow> rc' = rt_reconciler (bs_routing (batchBody env tenantID producer strictVocab scopes rc t e))"
proof -
  let ?s = "bs_routing (batchBody env tenantID producer strictVocab scopes rc t e)"
  let ?e0 = "e\<lparr>e_staged := Some newStaged\<rparr>"
  have "routes env \<lparr>rt_engine = ?e0, rt_reconciler = rc, rt_undos = []\<rparr> ?s"
    unfolding batchBody_def
    using foldl_ingestScope_routes [of env "\<lparr>bs_routing = \<lparr>rt_engine = ?e0, rt_reconciler = rc, rt_undos = []\<rparr>, bs_tally = t, bs_routeErr = None\<rparr>"]
    by simp
  then obtain ops where E: "rt_engine ?s = fold (batchStep env) ops ?e0" and R: "registered ops = [0 ..< length (rt_undos ?s)]"
    and U: "map_of (undoAll (rt_undos ?s) (rt_reconciler ?s)) = map_of rc"
    unfolding routes_def by auto
  obtain e1 err1 where f: "flushStaged env (stagedOf (rt_engine ?s)) (rt_engine ?s) = (e1, err1)" by fastforce
  have I: "e' = e1" "batchErr = err1"
    "rc' = rollback (rt_undos ?s) (drop (length (e_rolledBack (rt_engine ?s))) (e_rolledBack e')) (rt_reconciler ?s)"
    using b unfolding ingestBatch_def Let_def f prod.case by blast+
  have B: "Batch env ops e = (e', batchErr)" using E f I by (simp add: Batch_def)
  with E show "\<exists>ops. Batch env ops e = (e', batchErr) \<and> batchEvents env ops e = st_events (stagedOf (rt_engine ?s))"
    by (auto simp: batchEvents_def)
  have "e_rolledBack (rt_engine ?s) = e_rolledBack e" using batchFold_stays [of ?e0 env ops] E by (simp add: base_def)
  with Batch_events(2) [OF u r B] have ran: "drop (length (e_rolledBack (rt_engine ?s))) (e_rolledBack e') = (if batchErr = None then [] else rev (registered ops))"
    by simp
  show "map_of rc' = map_of rc" if "batchErr \<noteq> None"
    using that I(3) unfolding ran R by (auto simp: rollback_all U)
  show "rc' = rt_reconciler ?s" if "batchErr = None" using that I(3) unfolding ran by (simp add: rollback_def)
qed

end
