(* ===== verification/Ingest_Theorems.thy ===== *)
theory Ingest_Theorems
  imports Ingest_Laws "HOL-Library.Multiset"
begin

text \<open>
  The properties of the OTLP boundary: conversion loses nothing silently, a refused batch leaves no
  trace, every record is accounted for, and an export stays within the tenants it may write.
\<close>

section \<open>Conversion\<close>

text \<open>The OTLP value that says what a model value says, and the values that have one.\<close>

fun otlp :: "Value \<Rightarrow> PValue" where
  "otlp InvalidValue = PEmpty"
| "otlp (StringValue s) = PStr s"
| "otlp (IntValue i) = PInt i"
| "otlp (DoubleValue f) = PDouble f"
| "otlp (BoolValue b) = PBool b"
| "otlp (ArrayValue vs) = PSlice (map otlp vs)"
| "otlp (KvlistValue kvs) = PMap (map (\<lambda>(k, v). (k, otlp v)) kvs)"

fun proper :: "Value \<Rightarrow> bool" where
  "proper InvalidValue = False"
| "proper (ArrayValue vs) = (\<forall>v \<in> set vs. proper v)"
| "proper (KvlistValue kvs) = (\<forall>(k, v) \<in> set kvs. proper v)"
| "proper _ = True"

definition converted :: "bool \<Rightarrow> string \<times> PValue \<Rightarrow> KeyValue option" where
  "converted allowNested kp = map_option (Pair (fst kp)) (valueFrom (snd kp) allowNested)"

lemma kvsFromMap_split:
  "kvsFromMap m prefix allowNested =
     (List.map_filter (converted allowNested) m, map (joinKey prefix \<circ> fst) (filter (\<lambda>kp. converted allowNested kp = None) m))"
proof (induction m)
  case (Cons kp m)
  then show ?case by (cases kp) (auto simp: converted_def map_filter_simps split: option.splits)
qed (simp add: map_filter_simps)

lemma elemsFrom_Some: "elemsFrom s = Some vs \<longleftrightarrow> list_all2 (\<lambda>p v. valueFrom p True = Some v) s vs"
  by (induction s arbitrary: vs) (auto simp: list_all2_Cons1 split: option.splits)

lemma kvsFromMap_all:
  "kvsFromMap m prefix a = (kvs, []) \<longleftrightarrow> list_all2 (\<lambda>kp kv. fst kp = fst kv \<and> valueFrom (snd kp) a = Some (snd kv)) m kvs"
proof (induction m arbitrary: kvs)
  case (Cons kp m)
  obtain k p where kp: "kp = (k, p)" by (cases kp)
  show ?case
  proof (cases "valueFrom p a")
    case None
    then show ?thesis by (auto simp: kp list_all2_Cons1 split: prod.splits)
  next
    case (Some v)
    have "kvsFromMap (kp # m) prefix a = (kvs, []) \<longleftrightarrow> (\<exists>kvs'. kvs = (k, v) # kvs' \<and> kvsFromMap m prefix a = (kvs', []))"
      using Some by (auto simp: kp split: prod.splits)
    also have "\<dots> \<longleftrightarrow> list_all2 (\<lambda>kp kv. fst kp = fst kv \<and> valueFrom (snd kp) a = Some (snd kv)) (kp # m) kvs"
      using Some by (auto simp: kp list_all2_Cons1 Cons.IH)
    finally show ?thesis .
  qed
qed auto

lemma valueFrom_sound: "valueFrom p True = Some v \<Longrightarrow> proper v \<and> otlp v = p"
proof (induction p arbitrary: v)
  case (PMap m)
  then obtain kvs where v: "v = KvlistValue kvs" and k: "kvsFromMap m [] True = (kvs, [])"
    by (auto split: prod.splits if_splits)
  have l: "list_all2 (\<lambda>kp kv. fst kp = fst kv \<and> valueFrom (snd kp) True = Some (snd kv)) m kvs" using k by (simp add: kvsFromMap_all)
  have "list_all2 (\<lambda>kp kv. kp = (fst kv, otlp (snd kv)) \<and> proper (snd kv)) m kvs"
    using l by (rule list.rel_mono_strong) (use PMap.IH in \<open>fastforce simp: prod_eq_iff elim: in_set_zipE\<close>)
  then have "map (\<lambda>(k, v). (k, otlp v)) kvs = m \<and> (\<forall>(k, v) \<in> set kvs. proper v)"
    by (induction rule: list_all2_induct) auto
  then show ?case by (simp add: v)
next
  case (PSlice s)
  then obtain vs where v: "v = ArrayValue vs" and e: "elemsFrom s = Some vs" by auto
  have "list_all2 (\<lambda>p v. p = otlp v \<and> proper v) s vs"
    using e unfolding elemsFrom_Some by (rule list.rel_mono_strong) (use PSlice.IH in \<open>metis in_set_zipE\<close>)
  then have "map otlp vs = s \<and> (\<forall>v \<in> set vs. proper v)" by (induction rule: list_all2_induct) auto
  then show ?case by (simp add: v)
qed auto

lemma valueFrom_complete: "proper v \<Longrightarrow> valueFrom (otlp v) True = Some v"
proof (induction v)
  case (ArrayValue vs)
  then have "list_all2 (\<lambda>p v. valueFrom p True = Some v) (map otlp vs) vs"
    by (induction vs) simp_all
  then show ?case by (simp add: elemsFrom_Some [symmetric])
next
  case (KvlistValue kvs)
  then have "\<forall>(k, v) \<in> set kvs. valueFrom (otlp v) True = Some v" by fastforce
  then have "list_all2 (\<lambda>kp kv. fst kp = fst kv \<and> valueFrom (snd kp) True = Some (snd kv)) (map (\<lambda>(k, v). (k, otlp v)) kvs) kvs"
    by (induction kvs) auto
  then have "kvsFromMap (map (\<lambda>(k, v). (k, otlp v)) kvs) [] True = (kvs, [])" by (simp add: kvsFromMap_all)
  then show ?case by simp
qed simp_all

text \<open>
  C28. Conversion is all or nothing for each attribute.  A value is converted exactly when it is the
  OTLP form of a model value without an unset part, and that model value is the result, so nothing
  deep inside a composite is lost; in an identity only scalars are converted; and every entry of a
  map is either converted, in order, or reported under its dotted key.
\<close>

theorem conversion_loses_nothing_silently:
  "(valueFrom p True = Some v \<longleftrightarrow> proper v \<and> otlp v = p) \<and>
   (valueFrom p False = Some v \<longleftrightarrow> Kind v \<notin> {KindArray, KindKvlist} \<and> proper v \<and> otlp v = p) \<and>
   kvsFromMap m prefix allowNested =
     (List.map_filter (\<lambda>(k, p). map_option (Pair k) (valueFrom p allowNested)) m,
      map (joinKey prefix \<circ> fst) (filter (\<lambda>(k, p). valueFrom p allowNested = None) m))"
proof -
  have c: "converted allowNested = (\<lambda>(k, p). map_option (Pair k) (valueFrom p allowNested))"
    by (auto simp: converted_def fun_eq_iff)
  have f: "(\<lambda>kp. converted allowNested kp = None) = (\<lambda>(k, p). valueFrom p allowNested = None)"
    by (auto simp: converted_def fun_eq_iff)
  have "valueFrom p False = Some v \<longleftrightarrow> Kind v \<notin> {KindArray, KindKvlist} \<and> valueFrom p True = Some v"
    by (cases p) (auto split: prod.splits)
  moreover have "valueFrom p True = Some v \<longleftrightarrow> proper v \<and> otlp v = p" using valueFrom_sound valueFrom_complete by blast
  ultimately show ?thesis using kvsFromMap_split [of m prefix allowNested] c f by simp
qed

text \<open>
  The interval of a record is a 64-bit product, so that a cadence of almost 585 years is read as one
  of less than a third of a second, which no bound on implausible promises catches.
\<close>

theorem huge_interval_wraps_to_a_short_one:
  "reportEntityInterval [(attrEntityInterval, PInt 18446744074)] = 290448384"
  by (simp add: reportEntityInterval_def wrap64_def)

section \<open>A refused batch\<close>

text \<open>
  C9. Each resource of an export is one unit of work.  When its flush is refused, the topology, the
  log, what subscribers were told and what every source is recorded to assert are as they were
  before the batch, whatever its records changed on the way; and in either case the engine is again
  in a reachable state.  (Edges that were waiting for an endpoint and were flushed in the refused
  batch are not put back, so that nothing is said of what a retry derives from them.)
\<close>

theorem refused_batch_leaves_no_trace:
  assumes u: "ulid_ok (env_ulid env)" and r: "reach (env_ulid env) e"
    and b: "ingestBatch env tenantID producer strictVocab scopes rc t e = (e', rc', t', routeErr, batchErr)"
  shows "reach (env_ulid env) e' \<and>
    (batchErr \<noteq> None \<longrightarrow> map_of rc' = map_of rc \<and> view (e_graph e') = view (e_graph e) \<and>
       e_appender e' = e_appender e \<and> e_delivered e' = e_delivered e)"
proof -
  obtain ops where B: "Batch env ops e = (e', batchErr)" using ingestBatch_batch(1) [OF assms] by blast
  have "reach (env_ulid env) e'" using reach.batch [OF r refl, of ops] B by simp
  moreover have "view (e_graph e') = view (e_graph e) \<and> e_appender e' = e_appender e \<and> e_delivered e' = e_delivered e"
    if "batchErr \<noteq> None"
    using Batch_events(1) [OF u r B] that by cases auto
  ultimately show ?thesis using ingestBatch_batch(2) [OF assms] by blast
qed

text \<open>An export of a delete of one host and the state of another, to a log that is closed.\<close>

definition fxRecord' :: "string \<Rightarrow> string \<Rightarrow> LogRecord" where
  "fxRecord' name i = \<lparr>lr_EventName = name,
     lr_Attributes = [(attrEntityType, PStr ''host''), (attrEntityID, PMap [(''host.id'', PStr i)])],
     lr_Timestamp = 7, lr_ObservedTimestamp = 0\<rparr>"

definition fxHost :: "string \<Rightarrow> EndpointRef" where
  "fxHost i = \<lparr>ep_Type = ''host'', ep_Identity = [(''host.id'', StringValue i)]\<rparr>"

definition fxAsserted :: embeddedReconciler where
  "fxAsserted = [(producerKey ''p'' ''s'' (fxHost ''b''), [(relationKey fxEdgeObs, fxEdgeObs)])]"

lemma fx_obs: "entityObs (lr_Attributes (fxRecord' name i)) when strictVocab =
    (Inr \<lparr>eo_Type = ''host'', eo_Identity = [(''host.id'', StringValue i)], eo_Attributes = [], eo_SchemaURL = [],
       eo_EventTime = when, eo_Interval = 0, eo_Producer = [], eo_DeleteReason = []\<rparr>, [])"
proof -
  have "IsKnownEntityType ''host''" by code_simp
  then show ?thesis
    by (simp add: entityObs_def fxRecord'_def strAttr_def mapAttr_def wire_names validateEntity_def validateKeyValues_def
        IsValid_def ghas_def)
qed

lemma observe_stages:
  assumes "e_staged e = Some st" and "e_pending e = []"
  shows "\<exists>e' ev st'. observeEntityLocked env obs e = (e', Inr ev) \<and> e_staged e' = Some st' \<and> st_events st' \<noteq> []"
proof -
  obtain ct i changed prev e1 where c: "classify env obs e = ((ct, i, changed, prev), e1)" by (metis surj_pair)
  have e1: "e_staged e1 = Some st" "e_pending e1 = []" using c assms by (cases rule: classify_cases; simp)+
  let ?ev = "entityEvent (zeroEntityEvent\<lparr>ee_EventID := env_ulid env (e_ulids e1), ee_ChangeType := ct,
     ee_Entity := observedEntity obs i, ee_EventTime := eo_EventTime obs, ee_RecordedAt := env_now env,
     ee_SchemaVersion := SchemaVersion, ee_ChangedKeys := changed, ee_Scope := currentScope (e1\<lparr>e_ulids := Suc (e_ulids e1)\<rparr>)\<rparr>)"
  let ?st = "staged_apply ?ev (st\<lparr>st_events := st_events st @ [(?ev, False)]\<rparr>)"
  let ?e2 = "e1\<lparr>e_ulids := Suc (e_ulids e1), e_staged := Some ?st\<rparr>"
  let ?e3 = "trackDisplayName env i obs prev (referEntity env obs i ?e2)"
  have "e_pending ?e3 = []" using e1(2)
    by (simp add: trackDisplayName_def referEntity_def promise_def Let_def split: option.splits)
  then have r: "retryPending env obs ?e3 = ?e3" by (simp add: retryPending_def)
  have "ecore ?e3 = ecore ?e2" by simp
  then have "e_staged ?e3 = Some ?st" by (simp add: ecore_def)
  moreover have "observeEntityLocked env obs e = (?e3, Inr ?ev)"
    using c e1(1) r by (simp add: observeEntityLocked_def mint_def commit_def Let_def)
  ultimately show ?thesis by simp
qed

lemma fx_fields [simp]:
  "lr_EventName (fxRecord' name i) = name" "eventTimeOf now (fxRecord' name i) = unixEpoch + 7"
  "strAttr (lr_Attributes (fxRecord' name i)) attrEntityDeleteReason = None"
  by (simp_all add: fxRecord'_def eventTimeOf_def strAttr_def wire_names)

lemma fx_handle:
  "handleVocab env (fxRecord' evEntityDelete i) ''p'' ''s'' True s =
     (let sk = producerKey ''p'' ''s'' (fxHost i); s' = s\<lparr>rt_reconciler := gdel sk (rt_reconciler s)\<rparr>
      in case map_of (rt_reconciler s) sk of Some prev \<Rightarrow> OnRollback env (Restore sk prev) s' | None \<Rightarrow> s',
      \<lparr>ha_dropped = [], ha_beliefs = [], ha_err = None\<rparr>)"
  "handleVocab env (fxRecord' evEntityState i) ''p'' ''s'' True s =
     (case reconcile env (producerKey ''p'' ''s'' (fxHost i)) [] (unixEpoch + 7) s of
        (s', rerr) \<Rightarrow> (s', \<lparr>ha_dropped = [], ha_beliefs = [], ha_err = map_option Engine rerr\<rparr>))"
  by (simp_all add: handleVocab_def fxRecord'_def strAttr_def mapAttr_def wire_names fxHost_def embeddedRelations_def
      eventTimeOf_def Let_def split: option.splits prod.splits)

lemma fx_refused:
  obtains e' rc' t' err where
    "ingestBatch (fxDown 1) ''t'' ''p'' True [(''s'', [fxRecord' evEntityDelete ''b'', fxRecord' evEntityState ''a''])]
       fxAsserted zeroTally fxStart = (e', rc', t', None, Some err)"
proof -
  let ?env = "fxDown 1"
  define e0 where "e0 = setCurrentScope ''s'' (fxStart\<lparr>e_staged := Some newStaged\<rparr>)"
  define s1 where "s1 = OnRollback ?env (Restore (producerKey ''p'' ''s'' (fxHost ''b'')) [(relationKey fxEdgeObs, fxEdgeObs)])
    \<lparr>rt_engine = e0, rt_reconciler = [], rt_undos = []\<rparr>"
  let ?rec = "ingestRecord ?env ''t'' ''p'' ''s'' True"
  let ?b0 = "\<lparr>bs_routing = \<lparr>rt_engine = e0, rt_reconciler = fxAsserted, rt_undos = []\<rparr>, bs_tally = zeroTally, bs_routeErr = None\<rparr>"
  have m: "matchIdentity e0 ''host'' idents = None" for idents
    by (simp add: matchIdentity_def MatchIdentity_def e0_def setCurrentScope_def fxStart_def NewEngine_def NewGraph_def
        NewWithTombstoneCap_def newStaged_def)
  have r1: "routeRecordVocab ?env (fxRecord' evEntityDelete ''b'') ''p'' True e0 = (e0, True, [], None)"
    using m by (simp add: routeRecordVocab_def fx_obs deleteEntityLocked_def Let_def)
  obtain b1 where b1: "?rec ?b0 (fxRecord' evEntityDelete ''b'') = b1" "bs_routing b1 = s1" "bs_routeErr b1 = None"
    by (simp add: ingestRecord_def r1 fx_handle s1_def fxAsserted_def Let_def gdel_def)
  have st: "e_staged (rt_engine s1) \<noteq> None" "e_pending (rt_engine s1) = []"
    by (simp_all add: s1_def OnRollback_def e0_def setCurrentScope_def fxStart_def NewEngine_def)
  then obtain e2 ev st2 where e2: "observeEntityLocked ?env (\<lparr>eo_Type = ''host'', eo_Identity = [(''host.id'', StringValue ''a'')], eo_Attributes = [],
      eo_SchemaURL = [], eo_EventTime = unixEpoch + 7, eo_Interval = 0, eo_Producer = ''p'', eo_DeleteReason = []\<rparr>) (rt_engine s1) = (e2, Inr ev)"
    "e_staged e2 = Some st2" "st_events st2 \<noteq> []" using observe_stages by blast
  have r2: "routeRecordVocab ?env (fxRecord' evEntityState ''a'') ''p'' True (rt_engine s1) = (e2, True, [], None)"
    using e2(1) by (simp add: routeRecordVocab_def fx_obs Let_def)
  obtain s3 err3 where s3: "reconcile ?env (producerKey ''p'' ''s'' (fxHost ''a'')) [] (unixEpoch + 7) (s1\<lparr>rt_engine := e2\<rparr>) = (s3, err3)" by fastforce
  have "\<exists>b2. ?rec b1 (fxRecord' evEntityState ''a'') = b2 \<and> bs_routing b2 = s3 \<and> bs_routeErr b2 = map_option Engine err3"
    using b1 r2 s3 by (simp add: ingestRecord_def fx_handle Let_def split: option.splits)
  moreover have "\<exists>st. e_staged (rt_engine s3) = Some st \<and> st_events st \<noteq> []"
    using e2(2,3) by (simp add: reconcile_run [OF s3] reconcileOps_def gget_def s1_def OnRollback_def)
  moreover have "err3 = None" using s3 by (simp add: reconcile_def joinErrs_def s1_def OnRollback_def Let_def)
  ultimately obtain b2 where b2: "?rec b1 (fxRecord' evEntityState ''a'') = b2" "bs_routeErr b2 = None"
    "\<exists>st. e_staged (rt_engine (bs_routing b2)) = Some st \<and> st_events st \<noteq> []" by auto
  have "batchBody ?env ''t'' ''p'' True [(''s'', [fxRecord' evEntityDelete ''b'', fxRecord' evEntityState ''a''])] fxAsserted zeroTally fxStart = b2"
    using b1(1) b2(1) by (simp add: batchBody_def ingestScope_def e0_def)
  then show thesis using that b2(2,3) by (auto simp: ingestBatch_def flushStaged_def stagedOf_def fxDown_def Let_def)
qed

theorem refused_batch_leaves_no_trace_witness:
  "\<exists>e' rc' t' err. ingestBatch (fxDown 1) ''t'' ''p'' True [(''s'', [fxRecord' evEntityDelete ''b'', fxRecord' evEntityState ''a''])]
     fxAsserted zeroTally fxStart = (e', rc', t', None, Some err) \<and> map_of rc' = map_of fxAsserted"
proof -
  obtain e' rc' t' err where
    b: "ingestBatch (fxDown 1) ''t'' ''p'' True [(''s'', [fxRecord' evEntityDelete ''b'', fxRecord' evEntityState ''a''])]
       fxAsserted zeroTally fxStart = (e', rc', t', None, Some err)" by (rule fx_refused)
  from refused_batch_leaves_no_trace [of "fxDown 1", unfolded fx_ulid_down, OF fx_ulid_ok fx_reach(1) b] b
  show ?thesis by blast
qed

section \<open>Removal by absence\<close>

lemma producerKey_speaker:
  assumes "producerKey p sc ep = producerKey p' sc' ep'" and "x00 \<notin> set p" "x00 \<notin> set sc" "x00 \<notin> set p'" "x00 \<notin> set sc'"
  shows "p = p'" and "sc = sc'"
proof -
  have cut: "takeWhile (\<lambda>c. c \<noteq> x00) (q @ x00 # r) = q" "dropWhile (\<lambda>c. c \<noteq> x00) (q @ x00 # r) = x00 # r" if "x00 \<notin> set q" for q r
    using that by (induction q) auto
  have k: "producerKey p sc ep = p @ x00 # sc @ x00 # endpointKey ep" for p sc ep by (simp add: producerKey_def)
  show p: "p = p'" using arg_cong [OF assms(1), of "takeWhile (\<lambda>c. c \<noteq> x00)"] assms(2,4) by (simp add: k cut)
  have "sc @ x00 # endpointKey ep = sc' @ x00 # endpointKey ep'" using assms(1) p by (simp add: k)
  from arg_cong [OF this, of "takeWhile (\<lambda>c. c \<noteq> x00)"] show "sc = sc'" using assms(3,5) by (simp add: cut)
qed

lemma map_of_wanted: "map_of (wanted desired) k = map_of (map (\<lambda>obs. (relationKey obs, obs)) (rev desired)) k"
proof -
  have "map_of (fold (\<lambda>obs. gput (relationKey obs) obs) desired m) k =
      (case map_of (map (\<lambda>obs. (relationKey obs, obs)) (rev desired)) k of Some obs \<Rightarrow> Some obs | None \<Rightarrow> map_of m k)" for m
    by (induction desired arbitrary: m) (auto simp: map_add_def split: option.splits)
  from this [of "[]"] show ?thesis by (simp add: wanted_def split: option.splits)
qed

lemma wanted_Nil: "wanted desired = [] \<longleftrightarrow> desired = []"
proof
  assume w: "wanted desired = []"
  have "relationKey obs \<notin> relationKey ` set desired" for obs
    using map_of_wanted [of desired "relationKey obs", symmetric] w by (simp add: map_of_eq_None_iff image_image)
  then show "desired = []" by (cases desired) auto
qed (simp add: wanted_def)

text \<open>
  Two observations of one source are of the same relation: the same type and the same target, the
  pairs of its identity in any order.
\<close>

definition sameRelation :: "RelationObservation \<Rightarrow> RelationObservation \<Rightarrow> bool" where
  "sameRelation a b =
     (ro_Type a = ro_Type b \<and> ep_Type (ro_To a) = ep_Type (ro_To b) \<and>
      sort_key fst (ep_Identity (ro_To a)) = sort_key fst (ep_Identity (ro_To b)))"

text \<open>
  What was listed is filed under its own keys, as the reconciler files it, and no key of what is
  listed now is that of another relation listed before.
\<close>

definition keysTell :: "RelationObservation list \<Rightarrow> (string, RelationObservation) gomap \<Rightarrow> bool" where
  "keysTell desired listed =
     (\<forall>(k, old) \<in> set listed. k = relationKey old \<and>
        (\<forall>obs \<in> set desired. relationKey obs = relationKey old \<longrightarrow> sameRelation obs old))"

lemma same_relation_key: "sameRelation a b \<Longrightarrow> relationKey a = relationKey b"
proof -
  have "canonicalIdentity kvs = canonicalIdentity (sort_key fst kvs)" for kvs
    unfolding canonicalIdentity_def by (rule arg_cong [of _ _ "join _"]) (rule properties_for_sort, simp_all)
  then show "sameRelation a b \<Longrightarrow> relationKey a = relationKey b" unfolding sameRelation_def relationKey_def endpointKey_def by metis
qed

lemma keys_tell:
  assumes "keysTell desired listed"
  shows "filter (\<lambda>(k, old). k \<notin> relationKey ` set desired) listed = filter (\<lambda>(k, old). \<not> (\<exists>obs \<in> set desired. sameRelation obs old)) listed"
proof (rule filter_cong [OF refl])
  fix r assume r: "r \<in> set listed"
  obtain k old where ko: "r = (k, old)" by (cases r)
  have "k = relationKey old" "\<forall>obs \<in> set desired. relationKey obs = relationKey old \<longrightarrow> sameRelation obs old"
    using assms r ko by (auto simp: keysTell_def)
  then have "k \<notin> relationKey ` set desired \<longleftrightarrow> \<not> (\<exists>obs \<in> set desired. sameRelation obs old)"
    using same_relation_key by (metis image_iff)
  then show "(case r of (k, old) \<Rightarrow> k \<notin> relationKey ` set desired) = (case r of (k, old) \<Rightarrow> \<not> (\<exists>obs \<in> set desired. sameRelation obs old))"
    by (simp add: ko)
qed

text \<open>The reconciler files what it is given under its own keys.\<close>

lemma wanted_keys: "(k, obs) \<in> set (wanted desired) \<Longrightarrow> k = relationKey obs"
proof -
  have "\<forall>(k, obs) \<in> set (fold (\<lambda>obs. gput (relationKey obs) obs) desired m). k = relationKey obs" if "\<forall>(k, obs) \<in> set m. k = relationKey obs" for m
    using that
  proof (induction desired arbitrary: m)
    case (Cons obs desired)
    have "\<forall>(k, obs) \<in> set (gput (relationKey obs) obs m). k = relationKey obs" using Cons.prems by (induction m) (auto split: if_splits)
    with Cons.IH show ?case by simp
  qed simp
  from this [of "[]"] show "(k, obs) \<in> set (wanted desired) \<Longrightarrow> k = relationKey obs" by (auto simp: wanted_def)
qed

text \<open>
  C26. The record of an entity's state is the whole of what its speaker asserts about it.  For a
  producer and a collection method whose names hold no NUL, and as long as the keys under which
  relations are filed (they hold the displayed form of the target's identity, in which the number 1
  and the string 1 look alike) tell what is listed now from what was listed before, the engine is
  asked to observe every relation that the record lists, and to remove, at the time of the record,
  exactly those that this producer and method last listed for the entity and that are listed no
  more, by relation type and by type and identity of the target; the assertion set of the source
  becomes what was listed, the last descriptor of a key winning; and the assertions of every other
  producer and of every other method of the same producer, with names of that kind, stay as they were.
\<close>

theorem absence_removes_only_own_relations:
  assumes ev: "lr_EventName lr = evEntityState" and ty: "strAttr (lr_Attributes lr) attrEntityType = Some typ"
    and ids: "mapAttr (lr_Attributes lr) attrEntityID False = Some (ident, idDropped)" "ident \<noteq> []"
    and h: "handleVocab env lr producer scope strictVocab s = (s', h)"
    and nul: "x00 \<notin> set producer" "x00 \<notin> set scope"
    and tell: "keysTell (pa_rels (embeddedRelations (lr_Attributes lr) \<lparr>ep_Type = typ, ep_Identity = ident\<rparr> producer (eventTimeOf (env_now env) lr) strictVocab))
      (gget [] (rt_reconciler s) (producerKey producer scope \<lparr>ep_Type = typ, ep_Identity = ident\<rparr>))"
  shows "let source = \<lparr>ep_Type = typ, ep_Identity = ident\<rparr>; sk = producerKey producer scope source; now = eventTimeOf (env_now env) lr;
      desired = pa_rels (embeddedRelations (lr_Attributes lr) source producer now strictVocab);
      gone = filter (\<lambda>(k, old). \<not> (\<exists>obs \<in> set desired. sameRelation obs old)) (gget [] (rt_reconciler s) sk)
    in rt_engine s' = fold (batchStep env) (map BObserveRelation desired @ map (\<lambda>(k, obs). BRemoveRelation (obs\<lparr>ro_EventTime := now\<rparr>)) gone @
         [BOnRollback (length (rt_undos s))]) (rt_engine s) \<and>
       map_of (gget [] (rt_reconciler s') sk) = map_of (map (\<lambda>obs. (relationKey obs, obs)) (rev desired)) \<and>
       (\<forall>producer' scope' source'. x00 \<notin> set producer' \<longrightarrow> x00 \<notin> set scope' \<longrightarrow> (producer', scope') \<noteq> (producer, scope) \<longrightarrow>
          map_of (rt_reconciler s') (producerKey producer' scope' source') = map_of (rt_reconciler s) (producerKey producer' scope' source'))"
proof -
  let ?source = "\<lparr>ep_Type = typ, ep_Identity = ident\<rparr>"
  let ?sk = "producerKey producer scope ?source"
  let ?now = "eventTimeOf (env_now env) lr"
  let ?desired = "pa_rels (embeddedRelations (lr_Attributes lr) ?source producer ?now strictVocab)"
  obtain rerr where r: "reconcile env ?sk ?desired ?now s = (s', rerr)"
    using h ev ty ids by (auto simp: handleVocab_def Let_def split: prod.splits)
  have g: "ghas (wanted ?desired) k \<longleftrightarrow> k \<in> relationKey ` set ?desired" for k
    unfolding ghas_def map_of_wanted by (force simp: map_of_eq_None_iff)
  have E: "rt_engine s' = fold (batchStep env) (reconcileOps ?desired ?now (gget [] (rt_reconciler s) ?sk) @ [BOnRollback (length (rt_undos s))]) (rt_engine s)"
    unfolding reconcile_run [OF r] by (simp add: OnRollback_def)
  have R: "rt_reconciler s' = (if wanted ?desired = [] then gdel ?sk (rt_reconciler s) else gput ?sk (wanted ?desired) (rt_reconciler s))"
    unfolding reconcile_run [OF r] by (simp add: OnRollback_def)
  have "map_of (gget [] (rt_reconciler s') ?sk) = map_of (map (\<lambda>obs. (relationKey obs, obs)) (rev ?desired))"
    unfolding R by (auto simp: gget_def fun_eq_iff map_of_wanted wanted_Nil)
  moreover have "map_of (rt_reconciler s') (producerKey p' sc' ep') = map_of (rt_reconciler s) (producerKey p' sc' ep')"
    if "x00 \<notin> set p'" "x00 \<notin> set sc'" "(p', sc') \<noteq> (producer, scope)" for p' sc' ep'
    unfolding R using producerKey_speaker [of p' sc' ep' producer scope ?source] that nul by auto
  ultimately show ?thesis using E by (simp add: reconcileOps_def g Let_def keys_tell [OF tell])
qed

theorem absence_removes_only_own_relations_witness:
  "\<exists>s' h. handleVocab (fxEnv 1) (fxRecord' evEntityState ''b'') ''p'' ''s'' True \<lparr>rt_engine = fxStart, rt_reconciler = fxAsserted, rt_undos = []\<rparr> = (s', h) \<and>
     rt_engine s' = fold (batchStep (fxEnv 1)) [BRemoveRelation (fxEdgeObs\<lparr>ro_EventTime := unixEpoch + 7\<rparr>), BOnRollback 0] fxStart"
proof -
  let ?s = "\<lparr>rt_engine = fxStart, rt_reconciler = fxAsserted, rt_undos = []\<rparr>"
  obtain s' h where h: "handleVocab (fxEnv 1) (fxRecord' evEntityState ''b'') ''p'' ''s'' True ?s = (s', h)" by fastforce
  have a: "strAttr (lr_Attributes (fxRecord' evEntityState ''b'')) attrEntityType = Some ''host''"
    "mapAttr (lr_Attributes (fxRecord' evEntityState ''b'')) attrEntityID False = Some ([(''host.id'', StringValue ''b'')], [])"
    "embeddedRelations (lr_Attributes (fxRecord' evEntityState ''b'')) source ''p'' t True = \<lparr>pa_rels = [], pa_dropped = [], pa_beliefs = [], pa_err = None\<rparr>" for source t
    by (simp_all add: fxRecord'_def strAttr_def mapAttr_def wire_names embeddedRelations_def)
  have "\<lparr>ep_Type = ''host'', ep_Identity = [(''host.id'', StringValue ''b'')]\<rparr> = fxHost ''b''" by (simp add: fxHost_def)
  with absence_removes_only_own_relations [OF _ a(1,2) _ h] have
    "rt_engine s' = fold (batchStep (fxEnv 1)) [BRemoveRelation (fxEdgeObs\<lparr>ro_EventTime := unixEpoch + 7\<rparr>), BOnRollback 0] fxStart"
    by (simp add: a(3) keysTell_def Let_def x00_def fxAsserted_def gget_def del: batchStep.simps fold_simps fold_append)
  with h show ?thesis by blast
qed

text \<open>
  The key of a relation holds the displayed form of its target's identity, in which the number 1 and
  the string 1 look alike although they identify different entities.  A source that first listed
  the one and now lists the other has the old edge neither kept nor removed.
\<close>

theorem retyped_target_is_not_removed:
  "let target = (\<lambda>v. fxEdgeObs\<lparr>ro_To := \<lparr>ep_Type = ''process'', ep_Identity = [(''process.pid'', v)]\<rparr>\<rparr>);
       old = target (IntValue 1); new = target (StringValue ''1'')
   in identityBuf ''process'' (ep_Identity (ro_To old)) \<noteq> identityBuf ''process'' (ep_Identity (ro_To new)) \<and>
      reconcileOps [new] when [(relationKey old, old)] = [BObserveRelation new]"
proof -
  have d: "Display (IntValue 1) = Display (StringValue ''1'')" by code_simp
  then have k: "relationKey (fxEdgeObs\<lparr>ro_To := \<lparr>ep_Type = ''process'', ep_Identity = [(''process.pid'', IntValue 1)]\<rparr>\<rparr>) =
      relationKey (fxEdgeObs\<lparr>ro_To := \<lparr>ep_Type = ''process'', ep_Identity = [(''process.pid'', StringValue ''1'')]\<rparr>\<rparr>)"
    by (simp add: relationKey_def endpointKey_def canonicalIdentity_def)
  have "identityBuf ''process'' [(''process.pid'', IntValue 1)] \<noteq> identityBuf ''process'' [(''process.pid'', StringValue ''1'')]" by code_simp
  then show ?thesis by (simp add: reconcileOps_def wanted_def k ghas_def)
qed

end
