(* ===== verification/Ingest_Export.thy ===== *)
theory Ingest_Export
  imports Ingest_Theorems
begin

text \<open>
  The properties of a whole export: the tallies, the events an accepted record leads to, and the
  tenants that an export can reach, proved against an interface that the registry provides.
\<close>

section \<open>Tallies\<close>

definition counted :: "tally \<Rightarrow> nat" where
  "counted t = ta_handled t + ta_skipped t + ta_rejected t"

text \<open>Tallies only grow, and the first reason is there as soon as a record is rejected.\<close>

definition grows :: "tally \<Rightarrow> tally \<Rightarrow> bool" where
  "grows t t' = (ta_handled t \<le> ta_handled t' \<and> ta_skipped t \<le> ta_skipped t' \<and> ta_rejected t \<le> ta_rejected t' \<and>
     length (ta_dropped t) \<le> length (ta_dropped t') \<and>
     ((ta_rejected t = 0 \<longleftrightarrow> ta_rejectMsg t = None) \<longrightarrow> (ta_rejected t' = 0 \<longleftrightarrow> ta_rejectMsg t' = None)))"

lemma grows_refl [simp]: "grows t t"
  by (simp add: grows_def)

lemma grows_trans: "grows t t1 \<Longrightarrow> grows t1 t2 \<Longrightarrow> grows t t2"
  by (auto simp: grows_def)

lemma noteInert_fold [simp]:
  "ta_handled (fold (noteInert producer tenantID) bns t) = ta_handled t"
  "ta_skipped (fold (noteInert producer tenantID) bns t) = ta_skipped t"
  "ta_rejected (fold (noteInert producer tenantID) bns t) = ta_rejected t"
  "ta_rejectMsg (fold (noteInert producer tenantID) bns t) = ta_rejectMsg t"
  "ta_dropped (fold (noteInert producer tenantID) bns t) = ta_dropped t"
  by (induction bns arbitrary: t) (simp_all add: noteInert_def)

text \<open>A batch that went on without an error has counted \<open>n\<close> more records.\<close>

definition counts :: "nat \<Rightarrow> 'a batchState \<Rightarrow> 'a batchState \<Rightarrow> bool" where
  "counts n b b' = (grows (bs_tally b) (bs_tally b') \<and>
     (bs_routeErr b' = None \<longrightarrow> bs_routeErr b = None \<and> counted (bs_tally b') = counted (bs_tally b) + n))"

lemma counts_trans: "counts n b b1 \<Longrightarrow> counts m b1 b2 \<Longrightarrow> counts (n + m) b b2"
  unfolding counts_def using grows_trans by fastforce

lemma counts_fold:
  assumes "\<And>b x. counts (n x) b (f b x)"
  shows "counts (sum_list (map n xs)) b (foldl f b xs)"
proof (induction xs arbitrary: b)
  case (Cons x xs)
  from counts_trans [OF assms Cons.IH] show ?case by simp
qed (simp add: counts_def)

lemma counts_ingestRecord: "counts 1 b (ingestRecord env tenantID producer scope strictVocab b lr)"
proof (cases "bs_routeErr b")
  case None
  obtain e ok dr err where r: "routeRecordVocab env lr producer strictVocab (rt_engine (bs_routing b)) = (e, ok, dr, err)" by (metis prod_cases4)
  obtain s h where h: "handleVocab env lr producer scope strictVocab ((bs_routing b)\<lparr>rt_engine := e\<rparr>) = (s, h)" by fastforce
  show ?thesis
  proof (cases err)
    case (Some err')
    with None r show ?thesis by (simp add: counts_def ingestRecord_def reject_def grows_def counted_def Let_def)
  next
    case err: None
    show ?thesis
    proof (cases "ha_err h")
      case (Some eerr)
      with None r h err show ?thesis by (simp add: counts_def ingestRecord_def reject_def grows_def counted_def Let_def)
    next
      case herr: None
      with None r h err show ?thesis by (cases ok) (simp_all add: counts_def ingestRecord_def grows_def counted_def Let_def)
    qed
  qed
qed (simp add: counts_def ingestRecord_def)

lemma counts_ingestScope: "counts (length (snd sl)) b (ingestScope env tenantID producer strictVocab b sl)"
proof (cases "bs_routeErr b")
  case None
  obtain scope recs where sl: "sl = (scope, recs)" by (cases sl)
  let ?s = "bs_routing b"
  let ?b = "b\<lparr>bs_routing := ?s\<lparr>rt_engine := batchStep env (BSetScope scope) (rt_engine ?s)\<rparr>\<rparr>"
  have "counts (length recs) ?b (foldl (ingestRecord env tenantID producer scope strictVocab) ?b recs)"
    using counts_fold [of "\<lambda>_. 1", OF counts_ingestRecord, where xs = recs] by (simp add: sum_list_triv)
  then show ?thesis using None by (simp add: ingestScope_def sl counts_def Let_def)
qed (simp add: counts_def ingestScope_def split: prod.splits)

lemma ingestBatch_tally:
  assumes "ingestBatch env tenantID producer strictVocab scopes r t e = (e', r', t', routeErr, batchErr)"
  shows "grows t t'" and "routeErr = None \<Longrightarrow> counted t' = counted t + sum_list (map (length \<circ> snd) scopes)"
proof -
  let ?b = "batchBody env tenantID producer strictVocab scopes r t e"
  have "t' = bs_tally ?b" "routeErr = bs_routeErr ?b" using assms by (auto simp: ingestBatch_def Let_def split: prod.splits)
  moreover have "counts (sum_list (map (length \<circ> snd) scopes))
      \<lparr>bs_routing = \<lparr>rt_engine = e\<lparr>e_staged := Some newStaged\<rparr>, rt_reconciler = r, rt_undos = []\<rparr>, bs_tally = t, bs_routeErr = None\<rparr> ?b"
    unfolding batchBody_def comp_def by (rule counts_fold, rule counts_ingestScope)
  ultimately show "grows t t'" "routeErr = None \<Longrightarrow> counted t' = counted t + sum_list (map (length \<circ> snd) scopes)"
    by (simp_all add: counts_def)
qed

definition records :: "ResourceLogs list \<Rightarrow> nat" where
  "records rls = sum_list (map (\<lambda>rl. sum_list (map (length \<circ> snd) (rl_ScopeLogs rl))) rls)"

text \<open>The tallies of the tenants add up to the tally of the export.\<close>

definition tenantSum :: "(tenantCounts \<Rightarrow> nat) \<Rightarrow> (string, tenantCounts) gomap \<Rightarrow> nat" where
  "tenantSum f per = sum_list (map (f \<circ> snd) per)"

definition adds_up :: "('c, 'a, 'w) exportState \<Rightarrow> bool" where
  "adds_up x = (tenantSum tc_handled (xs_perTenant x) = ta_handled (xs_tally x) \<and>
     tenantSum tc_skipped (xs_perTenant x) = ta_skipped (xs_tally x) \<and>
     tenantSum tc_rejected (xs_perTenant x) = ta_rejected (xs_tally x) \<and>
     tenantSum tc_dropped (xs_perTenant x) = length (ta_dropped (xs_tally x)))"

lemma tenantSum_gput: "f z = 0 \<Longrightarrow> tenantSum f (gput k v m) + f (gget z m k) = tenantSum f m + f v"
  by (induction m) (auto simp: tenantSum_def gput_def gget_def)

lemma countTenant_sum:
  assumes "grows t t'" and "tenantSum tc_handled per = ta_handled t" "tenantSum tc_skipped per = ta_skipped t"
    "tenantSum tc_rejected per = ta_rejected t" "tenantSum tc_dropped per = length (ta_dropped t)"
  shows "tenantSum tc_handled (countTenant i t t' per) = ta_handled t'" "tenantSum tc_skipped (countTenant i t t' per) = ta_skipped t'"
    "tenantSum tc_rejected (countTenant i t t' per) = ta_rejected t'" "tenantSum tc_dropped (countTenant i t t' per) = length (ta_dropped t')"
proof -
  let ?c = "gget zeroCounts per i"
  let ?c' = "?c\<lparr>tc_handled := tc_handled ?c + (ta_handled t' - ta_handled t), tc_skipped := tc_skipped ?c + (ta_skipped t' - ta_skipped t),
    tc_rejected := tc_rejected ?c + (ta_rejected t' - ta_rejected t), tc_dropped := tc_dropped ?c + (length (ta_dropped t') - length (ta_dropped t))\<rparr>"
  have "countTenant i t t' per = gput i ?c' per" by (simp add: countTenant_def Let_def)
  with assms tenantSum_gput [of tc_handled zeroCounts i ?c' per] tenantSum_gput [of tc_skipped zeroCounts i ?c' per]
    tenantSum_gput [of tc_rejected zeroCounts i ?c' per] tenantSum_gput [of tc_dropped zeroCounts i ?c' per]
  show "tenantSum tc_handled (countTenant i t t' per) = ta_handled t'" "tenantSum tc_skipped (countTenant i t t' per) = ta_skipped t'"
    "tenantSum tc_rejected (countTenant i t t' per) = ta_rejected t'" "tenantSum tc_dropped (countTenant i t t' per) = length (ta_dropped t')"
    by (simp_all add: grows_def zeroCounts_def)
qed

lemma exportResource_tally:
  assumes x: "exportResource env ctx bt locked rl x = (x', None)" and "adds_up x"
  shows "adds_up x' \<and> grows (xs_tally x) (xs_tally x') \<and>
    counted (xs_tally x') = counted (xs_tally x) + sum_list (map (length \<circ> snd) (rl_ScopeLogs rl))"
proof -
  obtain tenantID producer strictVocab r e e' r' t' where
    b: "ingestBatch env tenantID producer strictVocab (rl_ScopeLogs rl) r (xs_tally x) e = (e', r', t', None, None)"
    and x': "xs_tally x' = t'" "xs_perTenant x' = countTenant tenantID (xs_tally x) t' (xs_perTenant x)"
    using x by (auto simp: exportResource_def Let_def split: sum.splits if_splits prod.splits option.splits)
  note T = ingestBatch_tally [OF b]
  show ?thesis using T assms(2) countTenant_sum [OF T(1)] by (simp add: adds_up_def x')
qed

lemma exportResources_tally:
  assumes "exportResources env ctx bt locked rls x = (x', None)" and "adds_up x"
  shows "adds_up x' \<and> grows (xs_tally x) (xs_tally x') \<and> counted (xs_tally x') = counted (xs_tally x) + records rls"
  using assms
proof (induction rls arbitrary: x)
  case (Cons rl rls)
  obtain x1 where 1: "exportResource env ctx bt locked rl x = (x1, None)" and 2: "exportResources env ctx bt locked rls x1 = (x', None)"
    using Cons.prems(1) by (auto split: prod.splits option.splits)
  note A = exportResource_tally [OF 1 Cons.prems(2)]
  then have B: "adds_up x' \<and> grows (xs_tally x1) (xs_tally x') \<and> counted (xs_tally x') = counted (xs_tally x1) + records rls"
    using Cons.IH [OF 2] by blast
  then have "grows (xs_tally x) (xs_tally x')" using A grows_trans by blast
  with A B show ?case by (simp add: records_def)
qed (simp add: records_def)

text \<open>
  C27. An export that is accepted accounts for every record it carried: each is handled, ignored or
  rejected, and counted once; the response reports how many were rejected, and carries a reason
  exactly when there was one; and the tallies of the tenants, for each of the counters, add up to
  those of the export.
\<close>

theorem every_record_is_accounted_for:
  assumes "Export env ctx rls srv w = (x, Inr resp)"
  shows "ta_handled (xs_tally x) + ta_skipped (xs_tally x) + ta_rejected (xs_tally x) = records rls \<and>
    er_RejectedLogRecords resp = ta_rejected (xs_tally x) \<and> (er_ErrorMessage resp = None \<longleftrightarrow> ta_rejected (xs_tally x) = 0) \<and> adds_up x"
proof -
  let ?x0 = "\<lparr>xs_server = srv, xs_world = w, xs_tally = zeroTally, xs_perTenant = []\<rparr>"
  obtain bt locked where e: "exportResources env ctx bt locked rls ?x0 = (x, None)"
    and r: "resp = (if ta_rejected (xs_tally x) > 0
       then \<lparr>er_RejectedLogRecords = ta_rejected (xs_tally x), er_ErrorMessage = map_option fst (ta_rejectMsg (xs_tally x))\<rparr>
       else \<lparr>er_RejectedLogRecords = 0, er_ErrorMessage = None\<rparr>)"
    using assms by (auto simp: Export_def Let_def split: prod.splits if_splits option.splits)
  have "adds_up ?x0" by (simp add: adds_up_def tenantSum_def zeroTally_def)
  from exportResources_tally [OF e this] r show ?thesis by (auto simp: counted_def grows_def zeroTally_def)
qed

text \<open>An export of a record that is none of ours and of a state record without a type.\<close>

definition fxLogs :: ResourceLogs where
  "fxLogs = \<lparr>rl_Attributes = [], rl_ScopeLogs = [(''s'', [fxRecord' ''login'' ''a'',
     \<lparr>lr_EventName = evEntityState, lr_Attributes = [], lr_Timestamp = 7, lr_ObservedTimestamp = 0\<rparr>])]\<rparr>"

theorem every_record_is_accounted_for_witness:
  "\<exists>x resp. Export (fxEnv 1) () [fxLogs] (NewReceiver (\<lambda>_. [])) fxStart = (x, Inr resp) \<and>
     ta_handled (xs_tally x) + ta_skipped (xs_tally x) + ta_rejected (xs_tally x) = 2 \<and> er_RejectedLogRecords resp = 1"
proof -
  let ?b = "batchBody (fxEnv 1) Default [] True (rl_ScopeLogs fxLogs) [] zeroTally fxStart"
  have r: "routeRecordVocab (fxEnv 1) (fxRecord' ''login'' ''a'') [] True e = (e, False, [], None)"
    "handleVocab (fxEnv 1) (fxRecord' ''login'' ''a'') [] ''s'' True s = (s, \<lparr>ha_dropped = [], ha_beliefs = [], ha_err = None\<rparr>)" for e s
    by (simp_all add: routeRecordVocab_def handleVocab_def wire_names)
  have r2: "routeRecordVocab (fxEnv 1) \<lparr>lr_EventName = evEntityState, lr_Attributes = [], lr_Timestamp = 7, lr_ObservedTimestamp = 0\<rparr> [] True e
      = (e, True, [], Some MissingType)" for e
    by (simp add: routeRecordVocab_def entityObs_def strAttr_def)
  have b: "bs_tally ?b = zeroTally\<lparr>ta_skipped := 1, ta_rejected := 1, ta_rejectMsg := Some (MissingType, Default)\<rparr>"
    "bs_routeErr ?b = None" "stagedOf (rt_engine (bs_routing ?b)) = newStaged\<lparr>st_scope := ''s''\<rparr>"
    by (simp_all add: batchBody_def fxLogs_def ingestScope_def ingestRecord_def r r2 Let_def zeroTally_def reject_def stagedOf_def setCurrentScope_def fxStart_def NewEngine_def)
  then have "\<exists>e' rc'. ingestBatch (fxEnv 1) Default [] True (rl_ScopeLogs fxLogs) [] zeroTally fxStart = (e', rc', bs_tally ?b, None, None)"
    by (simp add: ingestBatch_def flushStaged_def Let_def newStaged_def)
  then obtain x where x: "Export (fxEnv 1) () [fxLogs] (NewReceiver (\<lambda>_. [])) fxStart = (x, Inr \<lparr>er_RejectedLogRecords = 1, er_ErrorMessage = Some MissingType\<rparr>)"
    using b(1) by (auto simp: Export_def exportResource_def NewReceiver_def NewRoutedReceiver_def FromGRPC_def resourceTenant_def
        strAttr_def fxLogs_def reconcilerFor_def newEmbeddedReconciler_def gget_def Let_def)
  from every_record_is_accounted_for [OF x] x show ?thesis by (auto simp: records_def fxLogs_def)
qed

section \<open>Accepted records and the log\<close>

lemma eventTime_set: "now \<noteq> 0 \<Longrightarrow> eventTimeOf now lr \<noteq> 0"
  using sint_ge [of "lr_Timestamp lr"] sint_ge [of "lr_ObservedTimestamp lr"]
  by (auto simp: eventTimeOf_def unixEpoch_def)

lemma entityObs_valid:
  assumes "entityObs attrs when strictVocab = (Inr obs, dropped)"
  shows "validateEntity strictVocab (observedEntity (obs\<lparr>eo_Producer := p\<rparr>) i) = None"
    and "validateEntity strictVocab (observedEntity (obs\<lparr>eo_Producer := p, eo_DeleteReason := reason\<rparr>) i) = None"
    and "eo_EventTime obs = when"
  using assms by (auto simp: entityObs_def Let_def observedEntity_def validateEntity_def split: option.splits prod.splits if_splits)

lemma commit_ev: "snd (commit env ev hp e) = Inr ev' \<Longrightarrow> ev' = ev \<or> (\<exists>seq. ev' = stampCommit seq ev)"
  by (auto simp: commit_def Let_def split: option.splits sum.splits)

lemma validate_stamped [simp]: "validateEntityEvent vocabulary (ee\<lparr>ee_CommitSeq := seq\<rparr>) = validateEntityEvent vocabulary ee"
  by (simp add: validateEntityEvent_def cong: option.case_cong if_cong)

lemma committed_valid:
  assumes "snd (commit env (entityEvent ee) hp e) = Inr ev" and "validateEntityEvent vocabulary ee = None"
  shows "validateEnvelope vocabulary ev = None"
  using commit_ev [OF assms(1)] assms(2)
  by (auto simp: validateEnvelope_def stampCommit_def entityEvent_def)

lemma classify_entity: "classify env obs e = ((ct, i, changed, prev), e1) \<Longrightarrow> ct \<noteq> ChangeUnspecified \<and> IsEntity ct"
  by (auto simp: classify_def IsEntity_def Let_def split: option.splits prod.splits if_splits)

lemma beliefAttributes_valid: "validateKeyValues (fst (beliefAttributes m relType)) = None"
  by (auto simp: beliefAttributes_def validateKeyValues_def IsValid_def wire_names ghas_def gadd_def Let_def
      split: option.splits PValue.splits)

definition storable_rel :: "bool \<Rightarrow> time \<Rightarrow> RelationObservation \<Rightarrow> bool" where
  "storable_rel strictVocab when obs = (ro_EventTime obs = when \<and> (\<forall>from to. from \<noteq> [] \<longrightarrow> to \<noteq> [] \<longrightarrow>
     validateRelation strictVocab (NewRelation (ro_Type obs) from to (ro_Attributes obs)) = None))"

lemma embeddedRelation_rels:
  "pa_rels (embeddedRelation source producer when strictVocab iv p iel) = pa_rels p \<or>
   (\<exists>obs. pa_rels (embeddedRelation source producer when strictVocab iv p iel) = pa_rels p @ [obs] \<and> storable_rel strictVocab when obs)"
proof -
  obtain i el where iel: "iel = (i, el)" by (cases iel)
  show ?thesis
  proof (cases "\<exists>m relType toType idv. el = PMap m \<and> strFromMap m relDescType = Some relType \<and> strFromMap m relDescEntityType = Some toType \<and>
      map_of m relDescEntityID = Some (PMap idv) \<and> relType \<noteq> [] \<and> \<not> (strictVocab \<and> RelationDef relType = None)")
    case False
    then show ?thesis
      by (auto simp: embeddedRelation_def iel Let_def split: PValue.splits option.splits)
  next
    case True
    then obtain m relType toType idv where E: "el = PMap m" "strFromMap m relDescType = Some relType" "strFromMap m relDescEntityType = Some toType"
      "map_of m relDescEntityID = Some (PMap idv)" "relType \<noteq> []" and v: "\<not> (strictVocab \<and> RelationDef relType = None)" by blast
    obtain toID dr where k: "kvsFromMap idv (descriptorKey i @ ''.'' @ relDescEntityID) False = (toID, dr)" by fastforce
    obtain attrs reason where b: "beliefAttributes m relType = (attrs, reason)" by fastforce
    have "validateKeyValues attrs = None" using beliefAttributes_valid [of m relType] b by simp
    moreover have "validateKeyValues [] = None" by (simp add: validateKeyValues_def)
    ultimately have st: "storable_rel strictVocab when obs" if "ro_Type obs = relType" "ro_EventTime obs = when" "ro_Attributes obs = attrs \<or> ro_Attributes obs = []" for obs
      using that E(5) v by (auto simp: storable_rel_def validateRelation_def NewRelation_def)
    show ?thesis using E v k b by (cases "toID = []") (auto simp: embeddedRelation_def iel Let_def st)
  qed
qed

lemma embeddedRelations_storable: "\<forall>obs \<in> set (pa_rels (embeddedRelations attrs source producer when strictVocab)). storable_rel strictVocab when obs"
proof -
  let ?f = "embeddedRelation source producer when strictVocab (reportEntityInterval attrs)"
  have "\<forall>obs \<in> set (pa_rels p). storable_rel strictVocab when obs \<Longrightarrow> \<forall>obs \<in> set (pa_rels (foldl ?f p iels)). storable_rel strictVocab when obs" for p iels
  proof (induction iels arbitrary: p)
    case (Cons iel iels)
    have "\<forall>obs \<in> set (pa_rels (?f p iel)). storable_rel strictVocab when obs"
      using Cons.prems embeddedRelation_rels [of source producer "when" strictVocab "reportEntityInterval attrs" p iel] by auto
    from Cons.IH [OF this] show ?case by simp
  qed simp
  from this [of "\<lparr>pa_rels = [], pa_dropped = [], pa_beliefs = [], pa_err = None\<rparr>"] show ?thesis
    by (simp add: embeddedRelations_def Let_def split: option.splits PValue.splits)
qed

lemma validate_stamped_relation [simp]: "validateRelationEvent vocabulary (re\<lparr>re_CommitSeq := seq\<rparr>) = validateRelationEvent vocabulary re"
  by (simp add: validateRelationEvent_def cong: option.case_cong if_cong)

lemma observed_relation_valid:
  assumes st: "storable_rel strictVocab t rel" and now: "t \<noteq> 0" "env_now env \<noteq> 0"
    and r: "resolveEndpoints e (ro_From rel) (ro_To rel) = Inr (from, to)" "from \<noteq> []" "to \<noteq> []"
    and o: "observeRelationLocked env rel e = (e', Some ev, err)"
  shows "validateEnvelope strictVocab ev = None"
proof -
  let ?r = "NewRelation (ro_Type rel) from to (ro_Attributes rel)"
  obtain ct hp e1 where ct: "ct = RelationAdded \<or> ct = RelationAttributeChanged"
    and c: "snd (commit env (fst (relationEvent env ct ?r (ro_EventTime rel) DeleteSourceUnknown e1)) hp
      (snd (relationEvent env ct ?r (ro_EventTime rel) DeleteSourceUnknown e1))) = Inr ev"
    using o r(1) by (auto simp: observeRelationLocked_def Let_def case_prod_beta split: option.splits if_splits prod.splits sum.splits)
  obtain re where re: "fst (relationEvent env ct ?r (ro_EventTime rel) DeleteSourceUnknown e1) = relationEv re"
    "re_ChangeType re = ct" "re_Relation re = ?r" "re_EventTime re = t" "re_RecordedAt re = env_now env" "re_SchemaVersion re = SchemaVersion"
    using st by (auto simp: relationEvent_def Let_def case_prod_beta storable_rel_def)
  have "validateRelationEvent strictVocab re = None"
    using st now r ct re by (auto simp: validateRelationEvent_def commonEventChecks_def SchemaVersion_def IsRelation_def storable_rel_def)
  then show ?thesis using commit_ev [OF c [unfolded re(1)]] by (auto simp: validateEnvelope_def stampCommit_def relationEv_def)
qed

text \<open>
  C25. What a record that the boundary accepts leads to is never refused by the validation of the
  store: with the vocabulary check of the boundary and of the log set alike and a running clock,
  the event that observing the entity commits, the one that deleting it commits, and the one that
  observing any relation of the record commits, between whatever two entities its endpoints
  resolve to, are valid.  (Whether the codec marshals them, and the removals of relations that a
  deletion drags along, are not part of it.)
\<close>

theorem accepted_records_are_storable:
  assumes o: "entityObs (lr_Attributes lr) (eventTimeOf (env_now env) lr) strictVocab = (Inr obs, dropped)" and now: "env_now env \<noteq> 0"
    and cfg: "cf_AcceptUnknownTypes cfg \<longleftrightarrow> \<not> strictVocab"
  shows "(observeEntityLocked env (obs\<lparr>eo_Producer := producer\<rparr>) e = (e', Inr ev) \<longrightarrow> validateFor cfg ev = None) \<and>
    (deleteEntityLocked env (obs\<lparr>eo_Producer := producer, eo_DeleteReason := reason\<rparr>) e = (e', Some ev, err) \<longrightarrow> validateFor cfg ev = None) \<and>
    (\<forall>rel \<in> set (pa_rels (embeddedRelations (lr_Attributes lr) source producer (eventTimeOf (env_now env) lr) strictVocab)).
       \<forall>from to. resolveEndpoints e (ro_From rel) (ro_To rel) = Inr (from, to) \<longrightarrow> from \<noteq> [] \<longrightarrow> to \<noteq> [] \<longrightarrow>
         observeRelationLocked env rel e = (e', Some ev, err) \<longrightarrow> validateFor cfg ev = None)"
proof (intro conjI impI)
  have V: "validateFor cfg = validateEnvelope strictVocab" using cfg by (auto simp: validateFor_def ValidateShape_def fun_eq_iff)
  note O = entityObs_valid [OF o]
  have t: "eo_EventTime obs \<noteq> 0" using O(3) eventTime_set [OF now] by simp
  show "validateFor cfg ev = None" if ob: "observeEntityLocked env (obs\<lparr>eo_Producer := producer\<rparr>) e = (e', Inr ev)"
  proof -
    let ?obs = "obs\<lparr>eo_Producer := producer\<rparr>"
    obtain ct i changed prev e1 where c: "classify env ?obs e = ((ct, i, changed, prev), e1)" by (metis surj_pair)
    let ?ee = "zeroEntityEvent\<lparr>ee_EventID := fst (mint env e1), ee_ChangeType := ct, ee_Entity := observedEntity ?obs i,
      ee_EventTime := eo_EventTime obs, ee_RecordedAt := env_now env, ee_SchemaVersion := SchemaVersion,
      ee_ChangedKeys := changed, ee_Scope := currentScope (snd (mint env e1))\<rparr>"
    have "snd (commit env (entityEvent ?ee) False (snd (mint env e1))) = Inr ev"
      using ob c by (auto simp: observeEntityLocked_def Let_def case_prod_beta split: prod.splits sum.splits)
    moreover have "validateEntityEvent strictVocab ?ee = None"
      using O(1) t now classify_entity [OF c] by (simp add: validateEntityEvent_def commonEventChecks_def SchemaVersion_def)
    ultimately show ?thesis unfolding V using committed_valid by blast
  qed
  show "validateFor cfg ev = None" if de: "deleteEntityLocked env (obs\<lparr>eo_Producer := producer, eo_DeleteReason := reason\<rparr>) e = (e', Some ev, err)"
  proof -
    let ?obs = "obs\<lparr>eo_Producer := producer, eo_DeleteReason := reason\<rparr>"
    obtain i e1 where "commitDelete env ?obs i e1 = (e', Some ev, err)"
      using de by (auto simp: deleteEntityLocked_def Let_def split: option.splits if_splits)
    then have "snd (commit env (entityEvent (zeroEntityEvent\<lparr>ee_EventID := fst (mint env e1), ee_ChangeType := EntityDeleted,
        ee_Entity := observedEntity ?obs i, ee_EventTime := eo_EventTime obs, ee_RecordedAt := env_now env,
        ee_SchemaVersion := SchemaVersion, ee_DeleteReason := reason, ee_DeleteSource := DeleteSourceProducer,
        ee_Scope := currentScope (snd (mint env e1))\<rparr>)) False (snd (mint env e1))) = Inr ev"
      by (auto simp: commitDelete_def Let_def case_prod_beta split: prod.splits sum.splits)
    moreover have "validateEntityEvent strictVocab (zeroEntityEvent\<lparr>ee_EventID := fst (mint env e1), ee_ChangeType := EntityDeleted,
        ee_Entity := observedEntity ?obs i, ee_EventTime := eo_EventTime obs, ee_RecordedAt := env_now env,
        ee_SchemaVersion := SchemaVersion, ee_DeleteReason := reason, ee_DeleteSource := DeleteSourceProducer,
        ee_Scope := currentScope (snd (mint env e1))\<rparr>) = None"
      using O(2) t now by (simp add: validateEntityEvent_def commonEventChecks_def SchemaVersion_def IsEntity_def)
    ultimately show ?thesis unfolding V using committed_valid by blast
  qed
  show "\<forall>rel \<in> set (pa_rels (embeddedRelations (lr_Attributes lr) source producer (eventTimeOf (env_now env) lr) strictVocab)).
       \<forall>from to. resolveEndpoints e (ro_From rel) (ro_To rel) = Inr (from, to) \<longrightarrow> from \<noteq> [] \<longrightarrow> to \<noteq> [] \<longrightarrow>
         observeRelationLocked env rel e = (e', Some ev, err) \<longrightarrow> validateFor cfg ev = None"
  proof (intro ballI allI impI)
    fix rel a b
    assume "rel \<in> set (pa_rels (embeddedRelations (lr_Attributes lr) source producer (eventTimeOf (env_now env) lr) strictVocab))"
      and r: "resolveEndpoints e (ro_From rel) (ro_To rel) = Inr (a, b)" "a \<noteq> []" "b \<noteq> []" "observeRelationLocked env rel e = (e', Some ev, err)"
    then have st: "storable_rel strictVocab (eventTimeOf (env_now env) lr) rel" using embeddedRelations_storable by blast
    show "validateFor cfg ev = None" unfolding V
      by (rule observed_relation_valid [OF st eventTime_set [OF now] now r])
  qed
qed

theorem accepted_records_are_storable_witness:
  "\<exists>e' ev obs. fst (entityObs (lr_Attributes (fxRecord' evEntityState ''a'')) (unixEpoch + 7) True) = Inr obs \<and>
     observeEntityLocked (fxEnv 1) (obs\<lparr>eo_Producer := ''p''\<rparr>) fxStart = (e', Inr ev) \<and> validateFor (DefaultConfig\<lparr>cf_AcceptUnknownTypes := False\<rparr>) ev = None"
proof -
  obtain obs where o: "entityObs (lr_Attributes (fxRecord' evEntityState ''a'')) (eventTimeOf (env_now (fxEnv 1)) (fxRecord' evEntityState ''a'')) True = (Inr obs, [])"
    by (simp add: fx_obs)
  obtain e' ev where ob: "ObserveEntity (fxEnv 1) (obs\<lparr>eo_Producer := ''p''\<rparr>) fxStart = (e', Inr ev)" using fx_observe [OF fx_reach(1)] by blast
  from accepted_records_are_storable [OF o, of "DefaultConfig\<lparr>cf_AcceptUnknownTypes := False\<rparr>" "''p''" fxStart e' ev] o ob
  show ?thesis by (auto simp: ObserveEntity_def fxEnv_def)
qed

end
