(* ===== verification/Store_Inv.thy ===== *)
theory Store_Inv
  imports Store_Log
begin

text \<open>
  The laws of the database and of the message encoding that the log relies on, as locales, and
  what the store keeps under them: the records of the log in the order of their sequence numbers,
  and index rows for exactly these records.
\<close>

section \<open>Definitions\<close>

definition kvStep :: "kvop \<Rightarrow> (string \<rightharpoonup> string) \<Rightarrow> (string \<rightharpoonup> string)" where
  "kvStep op C = (case op of KvSet k v \<Rightarrow> C(k \<mapsto> v) | KvDelete k \<Rightarrow> C(k := None))"

definition kvApply :: "kvop list \<Rightarrow> (string \<rightharpoonup> string) \<Rightarrow> (string \<rightharpoonup> string)" where
  "kvApply ops C = fold kvStep ops C"

text \<open>The event as it comes back from the wire.\<close>

definition onWire :: "Event \<Rightarrow> Event" where
  "onWire ev = EventFromProto (Some (eventToProto ev))"

definition indexRows :: "Event \<Rightarrow> 64 word \<Rightarrow> (string \<times> string) list" where
  "indexRows ev n =
     (case indexEvent ev n of
        Inr ops \<Rightarrow> concat (map (\<lambda>op. case op of KvSet k v \<Rightarrow> [(k, v)] | KvDelete k \<Rightarrow> []) ops)
      | Inl _ \<Rightarrow> [])"

definition isIndex :: "string \<Rightarrow> bool" where
  "isIndex k = (has_prefix k entityPrefix \<or> has_prefix k typePrefix \<or> has_prefix k timePrefix)"

text \<open>The database holds exactly the records of the log \<open>L\<close>, in the order of their sequences.\<close>

definition logged :: "proto \<Rightarrow> (string \<rightharpoonup> string) \<Rightarrow> (64 word \<times> Event) list \<Rightarrow> bool" where
  "logged pm C L =
     (sorted_wrt (<) (map fst L) \<and>
      (\<forall>n ev. (n, ev) \<in> set L \<longrightarrow> C (primaryKey n) \<noteq> None) \<and>
      (\<forall>k v. has_prefix k primaryPrefix \<longrightarrow> C k = Some v \<longrightarrow>
         (\<exists>n ev pe. (n, ev) \<in> set L \<and> k = primaryKey n \<and> pm_unmarshal pm v = Inr pe \<and> EventFromProto (Some pe) = ev)))"

text \<open>The index rows are those of the records.\<close>

definition indexed :: "(string \<rightharpoonup> string) \<Rightarrow> (64 word \<times> Event) list \<Rightarrow> bool" where
  "indexed C L = (\<forall>k v. isIndex k \<longrightarrow> (C k = Some v \<longleftrightarrow> (\<exists>n ev. (n, ev) \<in> set L \<and> (k, v) \<in> set (indexRows ev n))))"

text \<open>The sequence marker, and no record beyond it.\<close>

definition sequenced :: "(string \<rightharpoonup> string) \<Rightarrow> 64 word \<Rightarrow> (64 word \<times> Event) list \<Rightarrow> bool" where
  "sequenced C seq L =
     ((C metaSeqKey = Some (encodeU64 seq) \<or> C metaSeqKey = None \<and> seq = 0) \<and> (\<forall>n ev. (n, ev) \<in> set L \<longrightarrow> n \<le> seq))"

fun numbered :: "64 word \<Rightarrow> Event list \<Rightarrow> (64 word \<times> Event) list" where
  "numbered l [] = []"
| "numbered l (ev # evs) = (l + 1, ev) # numbered (l + 1) evs"

fun forLog :: "(64 word \<Rightarrow> Event \<Rightarrow> 'a \<Rightarrow> StoreErr + 'a) \<Rightarrow> (64 word \<times> Event) list \<Rightarrow> 'a \<Rightarrow> StoreErr + 'a" where
  "forLog fn [] a = Inr a"
| "forLog fn ((n, ev) # L) a = (case fn n ev a of Inl err \<Rightarrow> Inl err | Inr a \<Rightarrow> forLog fn L a)"

section \<open>Operations on the contents\<close>

lemma kvApply_simps [simp]:
  "kvApply [] C = C" "kvApply (op # ops) C = kvApply ops (kvStep op C)"
  "kvApply (ops @ ops') C = kvApply ops' (kvApply ops C)"
  by (simp_all add: kvApply_def)

lemma kvStep_simps [simp]:
  "kvStep (KvSet k v) C = C(k \<mapsto> v)" "kvStep (KvDelete k) C = C(k := None)"
  by (simp_all add: kvStep_def)

lemma kvApply_deletes: "kvApply (map KvDelete ks) C = (\<lambda>k. if k \<in> set ks then None else C k)"
  by (induction ks arbitrary: C) auto

lemma has_prefix_primaryKey [simp]: "has_prefix (primaryKey n) primaryPrefix"
  by (simp add: primaryKey_def has_prefix_def)

lemma not_primary [simp]:
  "\<not> has_prefix (entityKey i n) primaryPrefix" "\<not> has_prefix (typeKey c n) primaryPrefix" "\<not> has_prefix (timeKey t n) primaryPrefix"
  "\<not> has_prefix metaSeqKey primaryPrefix" "\<not> has_prefix metaPruneHorizonKey primaryPrefix" "\<not> has_prefix metaFormatKey primaryPrefix"
  "\<not> has_prefix snapshotKey primaryPrefix"
  by (simp_all add: has_prefix_def prefix_defs meta_defs entityKey_def typeKey_def timeKey_def)

lemma isIndex_keys [simp]:
  "isIndex (entityKey i n)" "isIndex (typeKey c n)" "isIndex (timeKey t n)" "\<not> isIndex (primaryKey n)"
  "\<not> isIndex metaSeqKey" "\<not> isIndex metaPruneHorizonKey" "\<not> isIndex metaFormatKey" "\<not> isIndex snapshotKey"
  by (simp_all add: isIndex_def has_prefix_def prefix_defs meta_defs entityKey_def typeKey_def timeKey_def primaryKey_def)

lemma meta_distinct [simp]:
  "metaSeqKey \<noteq> metaPruneHorizonKey" "metaSeqKey \<noteq> snapshotKey" "metaSeqKey \<noteq> metaFormatKey" "metaPruneHorizonKey \<noteq> metaSeqKey"
  "snapshotKey \<noteq> metaSeqKey" "metaFormatKey \<noteq> metaSeqKey"
  by (simp_all add: meta_defs)

lemma meta_not_key [simp]:
  "metaSeqKey \<noteq> primaryKey n" "metaSeqKey \<noteq> entityKey i n" "metaSeqKey \<noteq> typeKey c n" "metaSeqKey \<noteq> timeKey t n"
  "primaryKey n \<noteq> metaSeqKey" "entityKey i n \<noteq> metaSeqKey" "typeKey c n \<noteq> metaSeqKey" "timeKey t n \<noteq> metaSeqKey"
  by (simp_all add: meta_defs prefix_defs entityKey_def typeKey_def timeKey_def primaryKey_def)

section \<open>Index rows\<close>

lemma indexRows_entity [simp]:
  "indexRows (entityEvent ee) n = (if ent_ID (ee_Entity ee) = [] then [] else [(entityKey (ent_ID (ee_Entity ee)) n, [])])
     @ [(typeKey (ee_ChangeType ee) n, []), (timeKey (unixNano (ee_EventTime ee)) n, [classTag (entityEvent ee) (ee_ChangeType ee)])]"
  by (simp add: indexRows_def indexEvent_def Let_def)

lemma indexRows_relation [simp]:
  "indexRows (relationEv re) n =
     concat (map (\<lambda>i. if i = [] then [] else [(entityKey i n, [])]) [rel_From (re_Relation re), rel_To (re_Relation re)])
     @ [(typeKey (re_ChangeType re) n, []), (timeKey (unixNano (re_EventTime re)) n, [classTag (relationEv re) (re_ChangeType re)])]"
  by (simp add: indexRows_def indexEvent_def Let_def)

text \<open>A valid event is an entity event or a relation event.\<close>

lemma valid_event:
  assumes "validateEnvelope v ev = None"
  obtains (entity) ee where "ev = entityEvent ee" "validateEntityEvent v ee = None"
  | (relation) re where "ev = relationEv re" "validateRelationEvent v re = None"
  using assms by (cases ev) (auto simp: validateEnvelope_def entityEvent_def relationEv_def split: option.splits)

lemma indexEvent_valid:
  assumes "validateFor cfg ev = None"
  shows "\<exists>ops. indexEvent (stampCommit c ev) n = Inr ops \<and> ops = map (\<lambda>(k, v). KvSet k v) (indexRows (stampCommit c ev) n)"
proof -
  have "\<exists>v. validateEnvelope v ev = None" using assms by (auto simp: validateFor_def ValidateShape_def split: if_splits)
  then obtain v where "validateEnvelope v ev = None" by blast
  then show ?thesis
    by (cases rule: valid_event) (auto simp: stampCommit_def indexEvent_def indexRows_def Let_def entityEvent_def relationEv_def)
qed

lemma indexRows_keys: "(k, v) \<in> set (indexRows ev n) \<Longrightarrow> isIndex k \<and> seqFromKeySuffix k = n"
  by (auto simp: indexRows_def indexEvent_def Let_def split: option.splits if_splits)

lemma indexRows_fun: "(k, v) \<in> set (indexRows ev n) \<Longrightarrow> (k, v') \<in> set (indexRows ev n) \<Longrightarrow> v = v'"
  by (auto simp: indexRows_def indexEvent_def Let_def split: option.splits if_splits)

lemma map_of_indexRows: "map_of (indexRows ev n) k = Some v \<longleftrightarrow> (k, v) \<in> set (indexRows ev n)"
  by (metis indexRows_fun map_of_SomeD weak_map_of_SomeI)

lemma kvApply_indexRows:
  "kvApply (map (\<lambda>(k, v). KvSet k v) (indexRows ev n)) C =
     (\<lambda>k. case map_of (indexRows ev n) k of Some v \<Rightarrow> Some v | None \<Rightarrow> C k)"
proof -
  have "kvApply (map (\<lambda>(k, v). KvSet k v) rows) C = (\<lambda>k. case map_of rows k of Some v \<Rightarrow> Some v | None \<Rightarrow> C k)"
    if "\<And>k v v'. (k, v) \<in> set rows \<Longrightarrow> (k, v') \<in> set rows \<Longrightarrow> v = v'" for rows
    using that
  proof (induction rows arbitrary: C)
    case (Cons row rows)
    obtain k v where row: "row = (k, v)" by (cases row)
    have IH: "kvApply (map (\<lambda>(k, v). KvSet k v) rows) (C(k \<mapsto> v)) = (\<lambda>k'. case map_of rows k' of Some v \<Rightarrow> Some v | None \<Rightarrow> (C(k \<mapsto> v)) k')"
      using Cons.IH Cons.prems by (metis list.set_intros(2))
    have "map_of rows k \<in> {None, Some v}" using Cons.prems row by (metis insertCI list.set_intros map_of_SomeD not_Some_eq)
    with IH row show ?case by (auto simp: fun_eq_iff split: option.splits)
  qed simp
  then show ?thesis using indexRows_fun by blast
qed

section \<open>One record more\<close>

lemma onWire_entity: "onWire (entityEvent ee) = entityEvent (EntityEventFromProto (Some (entityEventToProto ee)))"
  by (simp add: onWire_def EventFromProto_def eventToProto_def)

lemma onWire_relation: "onWire (relationEv re) = relationEv (RelationEventFromProto (Some (relationEventToProto re)))"
  by (simp add: onWire_def EventFromProto_def eventToProto_def)

lemma onWire_same: "wire_event ev \<Longrightarrow> onWire ev = ev"
  by (simp add: onWire_def EventFromProto_eventToProto)

lemma logged_meta:
  "\<not> has_prefix k primaryPrefix \<Longrightarrow> logged pm (C(k := x)) L = logged pm C L"
proof -
  assume k: "\<not> has_prefix k primaryPrefix"
  then have "k \<noteq> primaryKey n" for n by auto
  with k show ?thesis unfolding logged_def by (metis fun_upd_apply)
qed

lemma indexed_meta: "\<not> isIndex k \<Longrightarrow> indexed (C(k := x)) L = indexed C L"
  unfolding indexed_def by (metis fun_upd_apply)

lemma logged_row:
  assumes L: "logged pm C L" and v: "C (primaryKey n) = Some v"
  obtains ev pe where "(n, ev) \<in> set L" and "pm_unmarshal pm v = Inr pe" and "EventFromProto (Some pe) = ev"
proof -
  have "has_prefix k primaryPrefix \<longrightarrow> C k = Some v \<longrightarrow>
     (\<exists>n ev pe. (n, ev) \<in> set L \<and> k = primaryKey n \<and> pm_unmarshal pm v = Inr pe \<and> EventFromProto (Some pe) = ev)" for k
    using L by (simp add: logged_def)
  from this [of "primaryKey n"] v that show thesis by auto
qed

lemma logged_snoc:
  assumes L: "logged pm C L" and new: "\<forall>n ev. (n, ev) \<in> set L \<longrightarrow> n < m"
    and d: "pm_unmarshal pm data = Inr pe" and ev: "EventFromProto (Some pe) = ev"
    and rows: "\<forall>k. has_prefix k primaryPrefix \<longrightarrow> map_of rows k = None"
  shows "logged pm (\<lambda>k. case map_of rows k of Some v \<Rightarrow> Some v | None \<Rightarrow> (C(primaryKey m \<mapsto> data)) k) (L @ [(m, ev)])"
proof -
  let ?C = "\<lambda>k. case map_of rows k of Some v \<Rightarrow> Some v | None \<Rightarrow> (C(primaryKey m \<mapsto> data)) k"
  have same: "?C k = (C(primaryKey m \<mapsto> data)) k" if "has_prefix k primaryPrefix" for k using rows that by simp
  have s: "sorted_wrt (<) (map fst (L @ [(m, ev)]))" using L new by (auto simp: logged_def sorted_wrt_append)
  have there: "?C (primaryKey n) \<noteq> None" if "(n, e) \<in> set (L @ [(m, ev)])" for n e
    using that L by (auto simp: same logged_def)
  have ex: "\<exists>n e pe. (n, e) \<in> set (L @ [(m, ev)]) \<and> k = primaryKey n \<and> pm_unmarshal pm v = Inr pe \<and> EventFromProto (Some pe) = e"
    if k: "has_prefix k primaryPrefix" and v: "?C k = Some v" for k v
  proof (cases "k = primaryKey m")
    case True
    with v d ev show ?thesis by (auto simp: same)
  next
    case False
    with v k have "C k = Some v" by (simp add: same)
    with L k show ?thesis unfolding logged_def by fastforce
  qed
  show ?thesis unfolding logged_def using s there ex by blast
qed

lemma indexed_snoc:
  assumes L: "indexed C L" and new: "\<forall>n ev. (n, ev) \<in> set L \<longrightarrow> n < m"
  shows "indexed (\<lambda>k. case map_of (indexRows ev m) k of Some v \<Rightarrow> Some v | None \<Rightarrow> (C(primaryKey m \<mapsto> data)) k) (L @ [(m, ev)])"
  unfolding indexed_def
proof (intro allI impI)
  fix k v assume k: "isIndex k"
  then have ne: "k \<noteq> primaryKey m" by auto
  have iff: "C k = Some v \<longleftrightarrow> (\<exists>n e. (n, e) \<in> set L \<and> (k, v) \<in> set (indexRows e n))" using L k by (simp add: indexed_def)
  show "(case map_of (indexRows ev m) k of Some v \<Rightarrow> Some v | None \<Rightarrow> (C(primaryKey m \<mapsto> data)) k) = Some v \<longleftrightarrow>
      (\<exists>n e. (n, e) \<in> set (L @ [(m, ev)]) \<and> (k, v) \<in> set (indexRows e n))"
  proof (cases "map_of (indexRows ev m) k")
    case None
    then have "(k, v) \<notin> set (indexRows ev m)" by (metis map_of_indexRows option.discI)
    with None ne iff show ?thesis by auto
  next
    case (Some w)
    then have kw: "(k, w) \<in> set (indexRows ev m)" by (simp add: map_of_indexRows)
    then have m: "seqFromKeySuffix k = m" using indexRows_keys by blast
    have "(n, e) \<notin> set L" if "(k, v) \<in> set (indexRows e n)" for n e
      using indexRows_keys [OF that] m new by blast
    with Some kw indexRows_fun [of k w ev m v] show ?thesis by auto
  qed
qed

end
