(* ===== verification/Store_Laws.thy ===== *)
theory Store_Laws
  imports Store_Inv
begin

text \<open>
  The database as the log uses it (\<open>pebble_laws\<close>) and the log over it with a message encoding
  that decodes what it encoded (\<open>log_laws\<close>), with what \<open>Append\<close> and the scans do under these
  laws.  An in-memory sorted association list is a database with these laws.
\<close>

section \<open>The database\<close>

locale pebble_laws =
  fixes pb :: "'d pebble" and contents :: "'d \<Rightarrow> string \<rightharpoonup> string"
  assumes get_law: "pb_get pb d k = Inr r \<Longrightarrow> r = contents d k"
    and iter_sorted: "pb_iter pb d lo hi = Inr (rows, None) \<Longrightarrow> sorted_wrt (<) (map fst rows)"
    and iter_rows: "pb_iter pb d lo hi = Inr (rows, None) \<Longrightarrow>
      (k, v) \<in> set rows \<longleftrightarrow> contents d k = Some v \<and> lo \<le> k \<and> below hi k"
    and commit_law: "pb_commit pb d ops = Inr d' \<Longrightarrow> contents d' = kvApply ops (contents d)"
begin

lemma iterate_cases:
  assumes "iterate pb d lo hi f a = Inr b"
  obtains rows where "pb_iter pb d lo hi = Inr (rows, None)" and "forRows f rows a = Inr b"
  using assms by (auto simp: iterate_def split: sum.splits option.splits prod.splits)

lemma prefix_rows:
  assumes "pb_iter pb d p (prefixUpperBound p) = Inr (rows, None)"
  shows "(k, v) \<in> set rows \<longleftrightarrow> contents d k = Some v \<and> has_prefix k p"
  using iter_rows [OF assms] prefix_range by blast

end

section \<open>Sorted rows\<close>

lemma unat_succ: "unat l + 1 < 2 ^ 64 \<Longrightarrow> unat (l + 1 :: 64 word) = unat l + 1"
  by (simp add: unat_word_ariths)

lemma succ_le_iff:
  assumes "(l + 1 :: 64 word) \<noteq> 0"
  shows "l + 1 \<le> n \<longleftrightarrow> l < n"
proof -
  have "unat l + 1 \<noteq> 2 ^ 64"
  proof
    assume "unat l + 1 = 2 ^ 64"
    then have "of_nat (unat l + 1) = (of_nat (2 ^ 64) :: 64 word)" by simp
    with assms show False by simp
  qed
  moreover have "unat l < 2 ^ 64" using unsigned_less [of l] by simp
  ultimately have "unat (l + 1) = unat l + 1" by (intro unat_succ) linarith
  then show ?thesis by (simp add: word_le_nat_alt word_less_nat_alt Suc_le_eq)
qed

lemma sorted_pairs_unique:
  assumes "sorted_wrt (<) (map fst xs)" and "sorted_wrt (<) (map fst ys)" and "set xs = set ys"
  shows "xs = (ys :: ('a :: linorder \<times> 'b) list)"
proof -
  have fst: "map fst xs = map fst ys"
    by (rule strict_sorted_equal) (use assms in \<open>simp_all\<close>)
  have d: "distinct (map fst xs)" using assms(1) strict_sorted_iff by blast
  from fst have len: "length xs = length ys" by (rule map_eq_imp_length_eq)
  show ?thesis
  proof (rule nth_equalityI [OF len])
    fix i assume i: "i < length xs"
    have "fst (xs ! i) = fst (ys ! i)" using fst i len by (metis nth_map)
    moreover have "xs ! i \<in> set xs" "ys ! i \<in> set xs" using i len assms(3) by (metis nth_mem)+
    ultimately show "xs ! i = ys ! i" using eq_key_imp_eq_value [OF d] by (metis prod.collapse)
  qed
qed

lemma forLog_append: "forLog fn (L @ L') a = (case forLog fn L a of Inl err \<Rightarrow> Inl err | Inr a \<Rightarrow> forLog fn L' a)"
  by (induction fn L a rule: forLog.induct) (auto split: sum.splits)

lemma forLog_total: "(\<And>n ev a. fn n ev a = Inr (g n ev a)) \<Longrightarrow> forLog fn L a = Inr (fold (\<lambda>(n, ev). g n ev) L a)"
  by (induction fn L a rule: forLog.induct) auto

section \<open>The log\<close>

locale log_laws = pebble_laws pb contents for pb :: "'d pebble" and contents :: "'d \<Rightarrow> string \<rightharpoonup> string" +
  fixes pm :: proto
  assumes codec: "pm_marshal pm p = Inr b \<Longrightarrow> pm_unmarshal pm b = Inr p"
begin

lemma stage_logged:
  assumes "stageEvents pm cfg c i evs (l, b) = Inr (l', b')" and "logged pm (kvApply b C) L"
    and "\<forall>n ev. (n, ev) \<in> set L \<longrightarrow> n \<le> l" and "unat l + length evs < 2 ^ 64"
  shows "l' = l + of_nat (length evs) \<and> logged pm (kvApply b' C) (L @ numbered l (map (onWire \<circ> stampCommit c) evs)) \<and>
    (\<forall>n ev. (n, ev) \<in> set (L @ numbered l (map (onWire \<circ> stampCommit c) evs)) \<longrightarrow> n \<le> l') \<and>
    kvApply b' C metaSeqKey = kvApply b C metaSeqKey"
  using assms
proof (induction evs arbitrary: i l b L)
  case (Cons ev evs)
  let ?ev = "stampCommit c ev" and ?m = "l + 1"
  from Cons.prems(1) obtain data ops where v: "validateFor cfg ev = None" and d: "pm_marshal pm (eventToProto ?ev) = Inr data"
    and ix: "indexEvent ?ev ?m = Inr ops"
    and rest: "stageEvents pm cfg c (Suc i) evs (?m, b @ KvSet (primaryKey ?m) data # ops) = Inr (l', b')"
    by (auto simp: Let_def split: option.splits sum.splits)
  have um: "unat ?m = unat l + 1" using Cons.prems(4) by (intro unat_succ) simp
  then have less: "l < ?m" by (simp add: word_less_nat_alt)
  have ops: "ops = map (\<lambda>(k, v). KvSet k v) (indexRows ?ev ?m)" using indexEvent_valid [OF v, of c ?m] ix by simp
  have apply': "kvApply (b @ KvSet (primaryKey ?m) data # ops) C =
      (\<lambda>k. case map_of (indexRows ?ev ?m) k of Some v \<Rightarrow> Some v | None \<Rightarrow> ((kvApply b C)(primaryKey ?m \<mapsto> data)) k)"
    by (simp add: ops kvApply_indexRows)
  have no: "map_of (indexRows ?ev ?m) k = None" if "\<not> isIndex k" for k
    using that indexRows_keys by (metis map_of_indexRows not_Some_eq)
  have prim: "\<forall>k. has_prefix k primaryPrefix \<longrightarrow> map_of (indexRows ?ev ?m) k = None"
    using no by (auto simp: isIndex_def has_prefix_def prefix_defs)
  have new: "\<forall>n e. (n, e) \<in> set L \<longrightarrow> n < ?m" using Cons.prems(3) less by force
  have "logged pm (kvApply (b @ KvSet (primaryKey ?m) data # ops) C) (L @ [(?m, onWire ?ev)])"
    unfolding apply' by (rule logged_snoc [OF Cons.prems(2) new codec [OF d] _ prim]) (simp add: onWire_def)
  moreover have "\<forall>n e. (n, e) \<in> set (L @ [(?m, onWire ?ev)]) \<longrightarrow> n \<le> ?m" using new by force
  moreover have "unat ?m + length evs < 2 ^ 64" using Cons.prems(4) um by simp
  moreover have "kvApply (b @ KvSet (primaryKey ?m) data # ops) C metaSeqKey = kvApply b C metaSeqKey"
    unfolding apply' using no [of metaSeqKey] by simp
  ultimately have IH: "l' = ?m + of_nat (length evs)"
      "logged pm (kvApply b' C) ((L @ [(?m, onWire ?ev)]) @ numbered ?m (map (onWire \<circ> stampCommit c) evs))"
      "\<forall>n e. (n, e) \<in> set ((L @ [(?m, onWire ?ev)]) @ numbered ?m (map (onWire \<circ> stampCommit c) evs)) \<longrightarrow> n \<le> l'"
      "kvApply b' C metaSeqKey = kvApply b C metaSeqKey"
    using Cons.IH [OF rest, of "L @ [(?m, onWire ?ev)]"] by metis+
  have L': "(L @ [(?m, onWire ?ev)]) @ numbered ?m (map (onWire \<circ> stampCommit c) evs) =
      L @ numbered l (map (onWire \<circ> stampCommit c) (ev # evs))" by simp
  have "?m + of_nat (length evs) = l + of_nat (length (ev # evs))" by (simp add: add.assoc)
  with IH show ?case unfolding L' by metis
qed simp

lemma stage_indexed:
  assumes "stageEvents pm cfg c i evs (l, b) = Inr (l', b')" and "indexed (kvApply b C) L"
    and "\<forall>n ev. (n, ev) \<in> set L \<longrightarrow> n \<le> l" and "unat l + length evs < 2 ^ 64"
  shows "indexed (kvApply b' C) (L @ numbered l (map (stampCommit c) evs))"
  using assms
proof (induction evs arbitrary: i l b L)
  case (Cons ev evs)
  let ?ev = "stampCommit c ev" and ?m = "l + 1"
  from Cons.prems(1) obtain data ops where v: "validateFor cfg ev = None" and ix: "indexEvent ?ev ?m = Inr ops"
    and rest: "stageEvents pm cfg c (Suc i) evs (?m, b @ KvSet (primaryKey ?m) data # ops) = Inr (l', b')"
    by (auto simp: Let_def split: option.splits sum.splits)
  have um: "unat ?m = unat l + 1" using Cons.prems(4) by (intro unat_succ) simp
  then have less: "l < ?m" by (simp add: word_less_nat_alt)
  have ops: "ops = map (\<lambda>(k, v). KvSet k v) (indexRows ?ev ?m)" using indexEvent_valid [OF v, of c ?m] ix by simp
  have new: "\<forall>n e. (n, e) \<in> set L \<longrightarrow> n < ?m" using Cons.prems(3) less by force
  have "indexed (kvApply (b @ KvSet (primaryKey ?m) data # ops) C) (L @ [(?m, ?ev)])"
    using indexed_snoc [OF Cons.prems(2) new, where ev = ?ev and data = data] by (simp add: ops kvApply_indexRows)
  moreover have "\<forall>n e. (n, e) \<in> set (L @ [(?m, ?ev)]) \<longrightarrow> n \<le> ?m" using new by force
  moreover have "unat ?m + length evs < 2 ^ 64" using Cons.prems(4) um by simp
  ultimately show ?case using Cons.IH [OF rest, of "L @ [(?m, ?ev)]"] by simp
qed simp

lemma Append_cases:
  assumes "Append pb pm evs s = (s', err)"
  obtains (empty) "evs = []" "s' = s" "err = None"
  | (failed) e where "evs \<noteq> []" "s' = s" "err = Some e"
  | (appended) l b d where "evs \<noteq> []" "stageEvents pm (s_cfg s) (s_seq s + 1) 0 evs (s_seq s, []) = Inr (l, b)"
      "contents d = kvApply (b @ [KvSet metaSeqKey (encodeU64 l)]) (contents (s_db s))"
      "s' = s\<lparr>s_db := d, s_seq := l\<rparr>" "err = None"
proof (cases "evs = []")
  case True
  with assms empty show thesis by (simp add: Append_def)
next
  case ne: False
  show thesis
  proof (cases "stageEvents pm (s_cfg s) (s_seq s + 1) 0 evs (s_seq s, [])")
    case (Inl e)
    with assms ne show thesis by (intro failed [of e]) (simp_all add: Append_def)
  next
    case (Inr lb)
    obtain l b where lb: "lb = (l, b)" by (cases lb)
    show thesis
    proof (cases "pb_commit pb (s_db s) (b @ [KvSet metaSeqKey (encodeU64 l)])")
      case (Inl e)
      with assms ne lb Inr show thesis by (intro failed [of "CommitErr e"]) (simp_all add: Append_def)
    next
      case r: (Inr d)
      with assms ne lb Inr commit_law [OF r] show thesis by (intro appended [of l b d]) (simp_all add: Append_def)
    qed
  qed
qed

text \<open>The whole store: records, marker and index.\<close>

lemma append_log:
  assumes a: "Append pb pm evs s = (s', None)" and L: "logged pm (contents (s_db s)) L"
    and q: "sequenced (contents (s_db s)) (s_seq s) L" and room: "unat (s_seq s) + length evs < 2 ^ 64"
  shows "logged pm (contents (s_db s')) (L @ numbered (s_seq s) (map (onWire \<circ> stampCommit (s_seq s + 1)) evs)) \<and>
    sequenced (contents (s_db s')) (s_seq s') (L @ numbered (s_seq s) (map (onWire \<circ> stampCommit (s_seq s + 1)) evs)) \<and>
    s_seq s' = s_seq s + of_nat (length evs)"
  using a
proof (cases rule: Append_cases)
  case empty
  with L q show ?thesis by simp
next
  case (appended l b d)
  have "logged pm (kvApply [] (contents (s_db s))) L" "\<forall>n ev. (n, ev) \<in> set L \<longrightarrow> n \<le> s_seq s"
    using L q by (simp_all add: sequenced_def)
  note S = stage_logged [OF appended(2) this room]
  have C: "contents (s_db s') = (kvApply b (contents (s_db s)))(metaSeqKey \<mapsto> encodeU64 l)" and q': "s_seq s' = l"
    using appended(3,4) by simp_all
  from S have l: "l = s_seq s + of_nat (length evs)" and le: "\<forall>n ev. (n, ev) \<in> set (L @ numbered (s_seq s) (map (onWire \<circ> stampCommit (s_seq s + 1)) evs)) \<longrightarrow> n \<le> l"
    and lg: "logged pm (kvApply b (contents (s_db s))) (L @ numbered (s_seq s) (map (onWire \<circ> stampCommit (s_seq s + 1)) evs))"
    by blast+
  show ?thesis
  proof (intro conjI)
    show "sequenced (contents (s_db s')) (s_seq s') (L @ numbered (s_seq s) (map (onWire \<circ> stampCommit (s_seq s + 1)) evs))"
      unfolding C q' sequenced_def using le by simp
  qed (use lg l in \<open>simp_all add: C q' logged_meta\<close>)
qed simp

lemma append_index:
  assumes a: "Append pb pm evs s = (s', None)" and L: "indexed (contents (s_db s)) L"
    and q: "sequenced (contents (s_db s)) (s_seq s) L" and room: "unat (s_seq s) + length evs < 2 ^ 64"
  shows "indexed (contents (s_db s')) (L @ numbered (s_seq s) (map (stampCommit (s_seq s + 1)) evs))"
  using a
proof (cases rule: Append_cases)
  case empty
  with L show ?thesis by simp
next
  case (appended l b d)
  have "indexed (kvApply [] (contents (s_db s))) L" "\<forall>n ev. (n, ev) \<in> set L \<longrightarrow> n \<le> s_seq s"
    using L q by (simp_all add: sequenced_def)
  from stage_indexed [OF appended(2) this room] appended(3,4) show ?thesis by (simp add: indexed_meta)
qed simp

lemma append_failed: "Append pb pm evs s = (s', Some err) \<Longrightarrow> s' = s"
  by (erule Append_cases) auto

text \<open>What a scan over a range of primary keys visits.\<close>

lemma row_decode:
  assumes L: "logged pm C L" and ev: "(n, ev) \<in> set L"
  shows "decodeRow pm (primaryKey n, the (C (primaryKey n))) = Inr (n, ev)"
proof -
  obtain v where v: "C (primaryKey n) = Some v" using L ev by (auto simp: logged_def)
  obtain ev' pe where "(n, ev') \<in> set L" and d: "pm_unmarshal pm v = Inr pe" "EventFromProto (Some pe) = ev'"
    by (rule logged_row [OF L v])
  moreover have "distinct (map fst L)" using L strict_sorted_iff by (auto simp: logged_def)
  ultimately have "ev' = ev" using ev eq_key_imp_eq_value by metis
  with v d show ?thesis by (simp add: decodeRow_def)
qed

lemma sorted_rows_range:
  assumes L: "logged pm (contents d) L" and range: "\<And>k. contents d k \<noteq> None \<Longrightarrow> lo \<le> k \<and> below hi k \<longleftrightarrow> (\<exists>n. k = primaryKey n \<and> P n)"
    and sorted: "sorted_wrt (<) (map fst rows)" and rows: "\<And>k v. (k, v) \<in> set rows \<longleftrightarrow> contents d k = Some v \<and> lo \<le> k \<and> below hi k"
  shows "rows = map (\<lambda>(n, ev). (primaryKey n, the (contents d (primaryKey n)))) (filter (\<lambda>(n, ev). P n) L)" (is "_ = ?rows")
proof (rule sorted_pairs_unique [OF sorted])
  have "sorted_wrt (<) (map fst (filter (\<lambda>(n, ev). P n) L))" using L by (simp add: logged_def sorted_wrt_map sorted_wrt_filter)
  then show "sorted_wrt (<) (map fst ?rows)" by (simp add: sorted_wrt_map case_prod_beta)
  show "set rows = set ?rows"
  proof (intro set_eqI iffI)
    fix row assume r: "row \<in> set rows"
    obtain k v where row: "row = (k, v)" by (cases row)
    with r rows have C: "contents d k = Some v" and b: "lo \<le> k \<and> below hi k" by blast+
    with range [of k] obtain n where n: "k = primaryKey n" "P n" by auto
    obtain ev pe where "(n, ev) \<in> set L" "pm_unmarshal pm v = Inr pe" "EventFromProto (Some pe) = ev"
      by (rule logged_row [OF L C [unfolded n(1)]])
    with row n C show "row \<in> set ?rows" by force
  next
    fix row assume "row \<in> set ?rows"
    then obtain n ev where ev: "(n, ev) \<in> set L" "P n" and row: "row = (primaryKey n, the (contents d (primaryKey n)))" by auto
    with L obtain v where v: "contents d (primaryKey n) = Some v" by (auto simp: logged_def)
    with range [of "primaryKey n"] ev(2) rows [of "primaryKey n" v] row show "row \<in> set rows" by auto
  qed
qed

lemma rows_range:
  assumes "logged pm (contents d) L" and "\<And>k. contents d k \<noteq> None \<Longrightarrow> lo \<le> k \<and> below hi k \<longleftrightarrow> (\<exists>n. k = primaryKey n \<and> P n)"
    and it: "pb_iter pb d lo hi = Inr (rows, None)"
  shows "rows = map (\<lambda>(n, ev). (primaryKey n, the (contents d (primaryKey n)))) (filter (\<lambda>(n, ev). P n) L)"
  by (rule sorted_rows_range [OF assms(1,2) iter_sorted [OF it] iter_rows [OF it]])

lemma forRows_log:
  assumes "\<And>n ev. (n, ev) \<in> set L \<Longrightarrow> decodeRow pm (primaryKey n, val n) = Inr (n, ev)"
  shows "forRows (\<lambda>row. scanRow pm (\<lambda>seq. fn seq (snd row)) row) (map (\<lambda>(n, ev). (primaryKey n, val n)) L) a =
    forLog (\<lambda>n. fn n (val n)) L a"
  using assms
proof (induction L arbitrary: a)
  case (Cons r L)
  obtain n ev where r: "r = (n, ev)" by (cases r)
  then have d: "decodeRow pm (primaryKey n, val n) = Inr (n, ev)" using Cons.prems by simp
  have IH: "forRows (\<lambda>row. scanRow pm (\<lambda>seq. fn seq (snd row)) row) (map (\<lambda>(n, ev). (primaryKey n, val n)) L) b =
      forLog (\<lambda>n. fn n (val n)) L b" for b
    by (rule Cons.IH) (simp add: Cons.prems)
  have "scanRow pm (\<lambda>seq. fn seq (val n)) (primaryKey n, val n) a = fn n (val n) ev a" by (simp add: scanRow_def d)
  with IH show ?case by (cases "fn n (val n) ev a") (simp_all add: r)
qed simp

text \<open>A scan that hands the raw value to its callback as well.\<close>

lemma scan_range_raw:
  assumes L: "logged pm (contents d) L" and range: "\<And>k. contents d k \<noteq> None \<Longrightarrow> lo \<le> k \<and> below hi k \<longleftrightarrow> (\<exists>n. k = primaryKey n \<and> P n)"
    and it: "pb_iter pb d lo hi = Inr (rows, None)"
  shows "forRows (\<lambda>row. scanRow pm (\<lambda>seq. fn seq (snd row)) row) rows a =
    forLog (\<lambda>n. fn n (the (contents d (primaryKey n)))) (filter (\<lambda>(n, ev). P n) L) a"
proof -
  have rows: "rows = map (\<lambda>(n, ev). (primaryKey n, the (contents d (primaryKey n)))) (filter (\<lambda>(n, ev). P n) L)"
    by (rule rows_range [OF L range it])
  show ?thesis unfolding rows by (rule forRows_log) (auto intro: row_decode [OF L])
qed

lemma scan_range:
  assumes "logged pm (contents d) L" and "\<And>k. contents d k \<noteq> None \<Longrightarrow> lo \<le> k \<and> below hi k \<longleftrightarrow> (\<exists>n. k = primaryKey n \<and> P n)"
    and "pb_iter pb d lo hi = Inr (rows, None)"
  shows "forRows (scanRow pm fn) rows a = forLog fn (filter (\<lambda>(n, ev). P n) L) a"
  using scan_range_raw [OF assms, of "\<lambda>n raw. fn n" a] by simp

lemma primary_keys:
  assumes "logged pm (contents d) L" and "contents d k \<noteq> None"
  shows "has_prefix k primaryPrefix \<longleftrightarrow> (\<exists>n. k = primaryKey n)"
  using assms by (auto simp: logged_def) blast

lemma Scan_log:
  assumes L: "logged pm (contents (s_db s)) L" and r: "Scan pb pm fn s a = Inr b"
  shows "forLog fn L a = Inr b"
proof -
  from r obtain rows where it: "pb_iter pb (s_db s) primaryPrefix (prefixUpperBound primaryPrefix) = Inr (rows, None)"
    and f: "forRows (scanRow pm fn) rows a = Inr b" unfolding Scan_def by (rule iterate_cases)
  have "forRows (scanRow pm fn) rows a = forLog fn (filter (\<lambda>(n, ev). True) L) a"
    by (rule scan_range [OF L _ it]) (simp add: prefix_range primary_keys [OF L])
  with f show ?thesis by simp
qed

lemma snapshotScan_log:
  assumes L: "logged pm (contents d) L" and r: "snapshotScan pb pm fn d a = Inr b"
  shows "forLog (\<lambda>n. fn n (the (contents d (primaryKey n)))) L a = Inr b"
proof -
  from r obtain rows where it: "pb_iter pb d primaryPrefix (prefixUpperBound primaryPrefix) = Inr (rows, None)"
    and f: "forRows (\<lambda>row. scanRow pm (\<lambda>seq ev. fn seq (snd row) ev) row) rows a = Inr b"
    unfolding snapshotScan_def by (rule iterate_cases)
  have "forRows (\<lambda>row. scanRow pm (\<lambda>seq ev. fn seq (snd row) ev) row) rows a =
      forLog (\<lambda>n. fn n (the (contents d (primaryKey n)))) (filter (\<lambda>(n, ev). True) L) a"
    by (rule scan_range_raw [OF L _ it]) (simp add: prefix_range primary_keys [OF L])
  with f show ?thesis by simp
qed

lemma after_range:
  assumes L: "logged pm (contents d) L" and nowrap: "after + 1 \<noteq> 0" and C: "contents d k \<noteq> None"
  shows "primaryKey (after + 1) \<le> k \<and> below (prefixUpperBound primaryPrefix) k \<longleftrightarrow> (\<exists>n. k = primaryKey n \<and> after < n)"
proof -
  have "primaryPrefix \<le> primaryKey (after + 1)" using prefix_range [of primaryPrefix "primaryKey (after + 1)"] by simp
  then have "primaryKey (after + 1) \<le> k \<and> below (prefixUpperBound primaryPrefix) k \<longleftrightarrow>
      primaryKey (after + 1) \<le> k \<and> has_prefix k primaryPrefix"
    using prefix_range [of primaryPrefix k] by (metis order.trans)
  also have "\<dots> \<longleftrightarrow> (\<exists>n. k = primaryKey n \<and> after < n)"
    using primary_keys [OF L C] succ_le_iff [OF nowrap] by (metis primaryKey_le)
  finally show ?thesis .
qed

lemma ScanFrom_rows:
  assumes L: "logged pm (contents (s_db s)) L" and nowrap: "after + 1 \<noteq> 0"
    and it: "pb_iter pb (s_db s) (primaryKey (after + 1)) (prefixUpperBound primaryPrefix) = Inr (rows, None)"
  shows "forRows (scanRow pm fn) rows a = forLog fn (filter (\<lambda>(n, ev). after < n) L) a"
  using scan_range [OF L after_range [OF L nowrap] it, of fn a] .

lemma ScanFrom_log:
  assumes L: "logged pm (contents (s_db s)) L" and r: "ScanFrom pb pm after fn s a = Inr b" and nowrap: "after + 1 \<noteq> 0"
  shows "forLog fn (filter (\<lambda>(n, ev). after < n) L) a = Inr b"
proof -
  from r obtain rows where it: "pb_iter pb (s_db s) (primaryKey (after + 1)) (prefixUpperBound primaryPrefix) = Inr (rows, None)"
    and f: "forRows (scanRow pm fn) rows a = Inr b" unfolding ScanFrom_def by (rule iterate_cases)
  with ScanFrom_rows [OF L nowrap it, of fn a] show ?thesis by simp
qed

end

end
