(* ===== verification/Store_Reads.thy ===== *)
theory Store_Reads
  imports Store_Laws
begin

text \<open>
  The index reads return what the log holds: by entity, by change type and by time range.
\<close>

section \<open>Definitions\<close>

definition touched :: "Event \<Rightarrow> EntityID list" where
  "touched ev =
     (case ev_Entity ev of
        Some ee \<Rightarrow> [ent_ID (ee_Entity ee)]
      | None \<Rightarrow> (case ev_Relation ev of Some re \<Rightarrow> [rel_From (re_Relation re), rel_To (re_Relation re)] | None \<Rightarrow> []))"

definition changeOf :: "Event \<Rightarrow> ChangeType" where
  "changeOf ev =
     (case ev_Entity ev of
        Some ee \<Rightarrow> ee_ChangeType ee
      | None \<Rightarrow> (case ev_Relation ev of Some re \<Rightarrow> re_ChangeType re | None \<Rightarrow> ChangeUnspecified))"

definition whole :: "Event \<Rightarrow> bool" where
  "whole ev = (ev_Entity ev \<noteq> None \<or> ev_Relation ev \<noteq> None)"

definition nanosOf :: "Event \<Rightarrow> 64 word" where
  "nanosOf ev = of_int (unixNano (fst (Times ev)))"

section \<open>Unique sorted lists\<close>

lemma sorted_wrt_unique:
  assumes irr: "\<And>x. \<not> R x x" and tr: "\<And>x y z. R x y \<Longrightarrow> R y z \<Longrightarrow> R x z"
    and "sorted_wrt R xs" and "sorted_wrt R ys" and "set xs = set ys"
  shows "xs = ys"
  using assms(3-)
proof (induction xs arbitrary: ys)
  case (Cons x xs)
  then obtain y ys' where ys: "ys = y # ys'" by (cases ys) auto
  have "x = y"
  proof (rule ccontr)
    assume "x \<noteq> y"
    with Cons.prems ys have "R y x" "R x y" by (auto simp: set_eq_iff)
    with tr irr show False by blast
  qed
  moreover have "x \<notin> set xs" "y \<notin> set ys'" using Cons.prems ys irr by auto
  ultimately have "set xs = set ys'" using Cons.prems(3) ys by auto
  with Cons.IH [of ys'] Cons.prems ys \<open>x = y\<close> show ?case by simp
qed simp

lemma sorted_insort_key:
  assumes "sorted_wrt (\<lambda>x y. f x < f y \<or> f x = f y \<and> g x < g y) ys" and "\<forall>y \<in> set ys. g x < g y"
  shows "sorted_wrt (\<lambda>x y. f x < f y \<or> f x = f y \<and> (g x :: 'b :: linorder) < g y) (insort_key (f :: 'a \<Rightarrow> 'c :: linorder) x ys)"
  using assms by (induction ys) (auto simp: set_insort_key not_le)

lemma sorted_sort_key:
  assumes "sorted_wrt (\<lambda>x y. g x < g y) xs"
  shows "sorted_wrt (\<lambda>x y. f x < f y \<or> f x = f y \<and> (g x :: 'b :: linorder) < g y) (sort_key (f :: 'a \<Rightarrow> 'c :: linorder) xs)"
  using assms by (induction xs) (auto intro!: sorted_insort_key)

section \<open>Reading through an index\<close>

lemma set_indexRows:
  "(k, v) \<in> set (indexRows ev n) \<longleftrightarrow> (\<exists>j \<in> set (touched ev). j \<noteq> [] \<and> k = entityKey j n \<and> v = []) \<or>
     whole ev \<and> (k = typeKey (changeOf ev) n \<and> v = [] \<or> k = timeKey (unixNano (fst (Times ev))) n \<and> v = [classTag ev (changeOf ev)])"
proof (cases "ev_Entity ev")
  case (Some ee)
  then show ?thesis by (auto simp: indexRows_def indexEvent_def touched_def changeOf_def Times_def whole_def)
next
  case None
  then show ?thesis
    by (cases "ev_Relation ev") (auto simp: indexRows_def indexEvent_def touched_def changeOf_def Times_def whole_def)
qed

lemma key_prefixes [simp]:
  "has_prefix (entityKey i n) entityPrefix" "\<not> has_prefix (typeKey c n) entityPrefix" "\<not> has_prefix (timeKey t n) entityPrefix"
  "has_prefix (typeKey c n) typePrefix" "\<not> has_prefix (entityKey i n) typePrefix" "\<not> has_prefix (timeKey t n) typePrefix"
  "has_prefix (timeKey t n) timePrefix" "\<not> has_prefix (entityKey i n) timePrefix" "\<not> has_prefix (typeKey c n) timePrefix"
  by (simp_all add: has_prefix_def prefix_defs entityKey_def typeKey_def timeKey_def)

text \<open>The events of the rows of an index, in the order of the rows.\<close>

definition rowEvents :: "(64 word \<times> Event) list \<Rightarrow> (string \<times> string) list \<Rightarrow> (64 word \<times> Event) list" where
  "rowEvents L rows = map (\<lambda>row. (seqFromKeySuffix (fst row), the (map_of L (seqFromKeySuffix (fst row))))) rows"

context log_laws
begin

lemma logged_get:
  assumes L: "logged pm (contents (s_db s)) L" and g: "getBySeq pb pm s n = r" and m: "map_of L n = Some ev"
  shows "r = Inr ev \<or> (\<exists>e. r = Inl (GetErr e))"
proof (cases "pb_get pb (s_db s) (primaryKey n)")
  case (Inl e)
  with g show ?thesis by (auto simp: getBySeq_def)
next
  case (Inr o')
  then have o': "o' = contents (s_db s) (primaryKey n)" by (rule get_law)
  have d: "distinct (map fst L)" using L strict_sorted_iff by (auto simp: logged_def)
  from m have "(n, ev) \<in> set L" by (rule map_of_SomeD)
  with L obtain v where v: "contents (s_db s) (primaryKey n) = Some v" by (auto simp: logged_def)
  then obtain ev' pe where "(n, ev') \<in> set L" "pm_unmarshal pm v = Inr pe" "EventFromProto (Some pe) = ev'"
    using logged_row [OF L] by blast
  moreover from this(1) m d have "ev' = ev" by simp
  ultimately show ?thesis using g Inr o' v by (auto simp: getBySeq_def)
qed

lemma resolve_rows:
  assumes L: "logged pm (contents (s_db s)) L"
  shows "\<forall>row \<in> set rows. map_of L (seqFromKeySuffix (fst row)) \<noteq> None \<Longrightarrow>
    forRows (resolveRow pb pm ctx s fn) rows (m, a) = Inr (m', b) \<Longrightarrow>
    forLog (\<lambda>n. fn) (rowEvents L rows) a = Inr b"
proof (induction rows arbitrary: m a)
  case (Cons row rows)
  let ?n = "seqFromKeySuffix (fst row)"
  obtain ev where ev: "map_of L ?n = Some ev" using Cons.prems(1) by auto
  from Cons.prems(2) obtain m1 a1 where r: "resolveRow pb pm ctx s fn row (m, a) = Inr (m1, a1)"
    and rest: "forRows (resolveRow pb pm ctx s fn) rows (m1, a1) = Inr (m', b)"
    by (auto split: sum.splits)
  have "fn ev a = Inr a1"
    using r logged_get [OF L refl ev]
    by (auto simp: resolveRow_def resolveSeq_def split: option.splits sum.splits)
  with Cons.IH [OF _ rest] Cons.prems(1) ev show ?case by (simp add: rowEvents_def)
qed (simp add: rowEvents_def)

lemma rowEvents_set:
  assumes L: "logged pm C L" and rows: "\<And>k v. (k, v) \<in> set rows \<longleftrightarrow> (\<exists>n ev. (n, ev) \<in> set L \<and> P n ev k v)"
    and seq: "\<And>n ev k v. P n ev k v \<Longrightarrow> seqFromKeySuffix k = n"
  shows "(\<forall>row \<in> set rows. map_of L (seqFromKeySuffix (fst row)) \<noteq> None) \<and>
    set (rowEvents L rows) = {(n, ev). (n, ev) \<in> set L \<and> (\<exists>k v. P n ev k v)}"
proof -
  have d: "distinct (map fst L)" using L strict_sorted_iff by (auto simp: logged_def)
  have at: "\<exists>ev. map_of L (seqFromKeySuffix k) = Some ev \<and> (seqFromKeySuffix k, ev) \<in> set L \<and> P (seqFromKeySuffix k) ev k v"
    if kv: "(k, v) \<in> set rows" for k v
  proof -
    from rows kv obtain n ev where ev: "(n, ev) \<in> set L" "P n ev k v" by blast
    with seq [OF ev(2)] d show ?thesis by auto
  qed
  have "set (rowEvents L rows) \<subseteq> {(n, ev). (n, ev) \<in> set L \<and> (\<exists>k v. P n ev k v)}"
    using at by (fastforce simp: rowEvents_def)
  moreover have "{(n, ev). (n, ev) \<in> set L \<and> (\<exists>k v. P n ev k v)} \<subseteq> set (rowEvents L rows)"
  proof
    fix r assume "r \<in> {(n, ev). (n, ev) \<in> set L \<and> (\<exists>k v. P n ev k v)}"
    then obtain n ev k v where r: "r = (n, ev)" "(n, ev) \<in> set L" "P n ev k v" by auto
    then have kv: "(k, v) \<in> set rows" "seqFromKeySuffix k = n" using rows seq by blast+
    moreover have "map_of L n = Some ev" using r(2) d by simp
    ultimately show "r \<in> set (rowEvents L rows)" unfolding rowEvents_def r(1) set_map by (intro image_eqI [of _ _ "(k, v)"]) simp_all
  qed
  ultimately show ?thesis using at by force
qed

lemma forLog_collect: "forLog (\<lambda>n. collect) L out = Inr (out @ map snd L)"
  by (induction L arbitrary: out) (auto simp: collect_def)

lemma index_read:
  assumes L: "logged pm (contents (s_db s)) L" and I: "indexed (contents (s_db s)) L"
    and ix: "\<And>k. has_prefix k p \<Longrightarrow> isIndex k"
    and key: "\<And>n ev k v. (n, ev) \<in> set L \<Longrightarrow> (k, v) \<in> set (indexRows ev n) \<Longrightarrow> has_prefix k p \<Longrightarrow> k = p @ encodeU64 n"
    and r: "readBySeqIndex pb pm ctx p s = Inr evs"
  shows "evs = map snd (filter (\<lambda>(n, ev). p @ encodeU64 n \<in> fst ` set (indexRows ev n)) L)"
proof -
  from r obtain m where it: "iterate pb (s_db s) p (prefixUpperBound p) (resolveRow pb pm ctx s collect) (0, []) = Inr (m, evs)"
    by (auto simp: readBySeqIndex_def map_sum_def split: sum.splits)
  from it obtain rows where rows: "pb_iter pb (s_db s) p (prefixUpperBound p) = Inr (rows, None)"
    and f: "forRows (resolveRow pb pm ctx s collect) rows (0, []) = Inr (m, evs)" by (rule iterate_cases)
  let ?P = "\<lambda>n ev k v. k = p @ encodeU64 n \<and> (k, v) \<in> set (indexRows ev n)"
  have mem: "(k, v) \<in> set rows \<longleftrightarrow> (\<exists>n ev. (n, ev) \<in> set L \<and> ?P n ev k v)" for k v
  proof -
    have "(k, v) \<in> set rows \<longleftrightarrow> contents (s_db s) k = Some v \<and> has_prefix k p" by (rule prefix_rows [OF rows])
    also have "\<dots> \<longleftrightarrow> (\<exists>n ev. (n, ev) \<in> set L \<and> (k, v) \<in> set (indexRows ev n)) \<and> has_prefix k p"
      using I ix unfolding indexed_def by blast
    also have "\<dots> \<longleftrightarrow> (\<exists>n ev. (n, ev) \<in> set L \<and> ?P n ev k v)"
    proof
      assume "(\<exists>n ev. (n, ev) \<in> set L \<and> (k, v) \<in> set (indexRows ev n)) \<and> has_prefix k p"
      then obtain n ev where "(n, ev) \<in> set L" "(k, v) \<in> set (indexRows ev n)" "has_prefix k p" by blast
      with key [OF this] show "\<exists>n ev. (n, ev) \<in> set L \<and> ?P n ev k v" by blast
    next
      assume "\<exists>n ev. (n, ev) \<in> set L \<and> ?P n ev k v"
      moreover have "has_prefix (p @ t) p" for t by (simp add: has_prefix_def)
      ultimately show "(\<exists>n ev. (n, ev) \<in> set L \<and> (k, v) \<in> set (indexRows ev n)) \<and> has_prefix k p" by blast
    qed
    finally show ?thesis .
  qed
  have seq: "seqFromKeySuffix k = n" if "?P n ev k v" for n ev k v using that by simp
  have R: "(\<forall>row \<in> set rows. map_of L (seqFromKeySuffix (fst row)) \<noteq> None) \<and>
      set (rowEvents L rows) = {(n, ev). (n, ev) \<in> set L \<and> (\<exists>k v. ?P n ev k v)}"
    by (rule rowEvents_set [where P = ?P, OF L mem]) (rule seq)
  have "evs = map snd (rowEvents L rows)"
    using resolve_rows [OF L conjunct1 [OF R] f] by (simp add: forLog_collect)
  moreover have "rowEvents L rows = filter (\<lambda>(n, ev). p @ encodeU64 n \<in> fst ` set (indexRows ev n)) L" (is "_ = ?F")
  proof (rule sorted_pairs_unique)
    have "fst row = p @ encodeU64 (seqFromKeySuffix (fst row))" if "row \<in> set rows" for row
      using mem [of "fst row" "snd row"] that by auto
    then have ks: "map fst rows = map (\<lambda>n. p @ encodeU64 n) (map fst (rowEvents L rows))" by (simp add: rowEvents_def)
    show "sorted_wrt (<) (map fst (rowEvents L rows))"
      using iter_sorted [OF rows] unfolding ks by (simp add: sorted_wrt_map)
    show "sorted_wrt (<) (map fst ?F)" using L by (simp add: logged_def sorted_wrt_map sorted_wrt_filter)
    show "set (rowEvents L rows) = set ?F" using conjunct2 [OF R] by force
  qed
  ultimately show ?thesis by simp
qed

lemma slash_prefix:
  assumes "has_prefix (j @ CHR 0x2F # t) (i @ [CHR 0x2F])" and "CHR 0x2F \<notin> set i" and "CHR 0x2F \<notin> set j"
  shows "i = j"
  using assms
proof (induction i arbitrary: j)
  case Nil
  then show ?case by (cases j) (auto simp: has_prefix_def)
next
  case (Cons c i)
  then show ?case by (cases j) (auto simp: has_prefix_def)
qed

lemma ReadByEntity_log:
  assumes L: "logged pm (contents (s_db s)) L" and I: "indexed (contents (s_db s)) L"
    and ids: "\<forall>n ev. (n, ev) \<in> set L \<longrightarrow> (\<forall>j \<in> set (touched ev). CHR 0x2F \<notin> set j)"
    and i: "CHR 0x2F \<notin> set i" "i \<noteq> []" and r: "ReadByEntity pb pm ctx i s = Inr evs"
  shows "evs = map snd (filter (\<lambda>(n, ev). i \<in> set (touched ev)) L)"
proof -
  let ?p = "entityPrefix @ i @ [CHR 0x2F]"
  have rows: "(k, v) \<in> set (indexRows ev n) \<and> has_prefix k entityPrefix \<longleftrightarrow> (\<exists>j \<in> set (touched ev). j \<noteq> [] \<and> k = entityKey j n \<and> v = [])"
    for k v ev n
    by (auto simp: set_indexRows)
  have pe: "has_prefix k entityPrefix" if "has_prefix k ?p" for k using that by (auto simp: has_prefix_iff)
  have "k = ?p @ encodeU64 n" if ev: "(n, ev) \<in> set L" and kv: "(k, v) \<in> set (indexRows ev n)" and k: "has_prefix k ?p" for n ev k v
  proof -
    from rows [of k v ev n] kv pe [OF k] obtain j where j: "j \<in> set (touched ev)" "k = entityKey j n" by blast
    with k have "has_prefix (j @ CHR 0x2F # encodeU64 n) (i @ [CHR 0x2F])"
      by (simp add: entityKey_def has_prefix_def entityPrefix_def)
    from slash_prefix [OF this i(1)] ids ev j have "i = j" by blast
    with j(2) show ?thesis by (simp add: entityKey_def)
  qed
  from index_read [OF L I _ this] r pe have "evs = map snd (filter (\<lambda>(n, ev). ?p @ encodeU64 n \<in> fst ` set (indexRows ev n)) L)"
    by (simp add: ReadByEntity_def isIndex_def)
  moreover have "?p @ encodeU64 n \<in> fst ` set (indexRows ev n) \<longleftrightarrow> i \<in> set (touched ev)" for n ev
  proof -
    have e: "?p @ encodeU64 n = entityKey i n" by (simp add: entityKey_def)
    have "entityKey i n \<in> fst ` set (indexRows ev n) \<longleftrightarrow> (\<exists>v. (entityKey i n, v) \<in> set (indexRows ev n))" by force
    with i(2) show ?thesis unfolding e by (simp add: set_indexRows)
  qed
  ultimately show ?thesis by simp
qed

lemma ReadByType_log:
  assumes L: "logged pm (contents (s_db s)) L" and I: "indexed (contents (s_db s)) L"
    and r: "ReadByType pb pm ctx ct s = Inr evs"
    and w: "\<forall>n ev. (n, ev) \<in> set L \<longrightarrow> whole ev"
  shows "evs = map snd (filter (\<lambda>(n, ev). ct_byte (changeOf ev) = ct_byte ct) L)"
proof -
  let ?p = "typePrefix @ [ct_byte ct]"
  have rows: "(k, v) \<in> set (indexRows ev n) \<and> has_prefix k typePrefix \<longleftrightarrow> whole ev \<and> k = typeKey (changeOf ev) n \<and> v = []" for k v ev n
    by (auto simp: set_indexRows)
  have pe: "has_prefix k typePrefix" if "has_prefix k ?p" for k using that by (auto simp: has_prefix_iff)
  have "k = ?p @ encodeU64 n" if ev: "(n, ev) \<in> set L" and kv: "(k, v) \<in> set (indexRows ev n)" and k: "has_prefix k ?p" for n ev k v
  proof -
    from rows [of k v ev n] kv pe [OF k] have j: "k = typeKey (changeOf ev) n" by blast
    with k show ?thesis by (auto simp: typeKey_def has_prefix_def typePrefix_def)
  qed
  from index_read [OF L I _ this] r pe have "evs = map snd (filter (\<lambda>(n, ev). ?p @ encodeU64 n \<in> fst ` set (indexRows ev n)) L)"
    by (simp add: ReadByType_def isIndex_def)
  moreover have "?p @ encodeU64 n \<in> fst ` set (indexRows ev n) \<longleftrightarrow> ct_byte (changeOf ev) = ct_byte ct" if "(n, ev) \<in> set L" for n ev
  proof -
    have e: "?p @ encodeU64 n = typeKey ct n" by (simp add: typeKey_def)
    have "typeKey ct n \<in> fst ` set (indexRows ev n) \<longleftrightarrow> (\<exists>v. (typeKey ct n, v) \<in> set (indexRows ev n))" by force
    also have "\<dots> \<longleftrightarrow> ct_byte (changeOf ev) = ct_byte ct" using w that by (auto simp: set_indexRows)
    finally show ?thesis unfolding e .
  qed
  then have "filter (\<lambda>(n, ev). ?p @ encodeU64 n \<in> fst ` set (indexRows ev n)) L = filter (\<lambda>(n, ev). ct_byte (changeOf ev) = ct_byte ct) L"
    by (intro filter_cong) auto
  ultimately show ?thesis by simp
qed

text \<open>
  A time range: the rows are in the order of the event time, then of the sequence.
\<close>

lemma time_rows:
  assumes L: "logged pm (contents (s_db s)) L" and I: "indexed (contents (s_db s)) L"
    and w: "\<forall>n ev. (n, ev) \<in> set L \<longrightarrow> whole ev"
    and rows: "pb_iter pb (s_db s) (timeKeyBound (unixNano start)) (Some (timeKeyBound (unixNano end))) = Inr (rows, None)"
  shows "\<forall>row \<in> set rows. map_of L (seqFromKeySuffix (fst row)) \<noteq> None \<and>
      row \<in> set (indexRows (the (map_of L (seqFromKeySuffix (fst row)))) (seqFromKeySuffix (fst row))) \<and> has_prefix (fst row) timePrefix"
    and "rowEvents L rows =
      sort_key (nanosOf \<circ> snd) (filter (\<lambda>(n, ev). of_int (unixNano start) \<le> nanosOf ev \<and> nanosOf ev < of_int (unixNano end)) L)"
proof -
  let ?lo = "timeKeyBound (unixNano start)" and ?hi = "timeKeyBound (unixNano end)"
  let ?in = "\<lambda>(n, ev). of_int (unixNano start) \<le> nanosOf ev \<and> nanosOf ev < of_int (unixNano end)"
  have tim: "has_prefix k timePrefix" if "?lo \<le> k" "k < ?hi" for k
  proof -
    have "timePrefix \<le> k" using that(1) prefix_range [of timePrefix ?lo] by (auto simp: timeKeyBound_def has_prefix_def)
    moreover have "below (prefixUpperBound timePrefix) k"
      using that(2) prefix_range [of timePrefix ?hi] by (auto simp: timeKeyBound_def has_prefix_def below_def split: option.splits)
    ultimately show ?thesis using prefix_range by blast
  qed
  have time: "k = timeKey (unixNano (fst (Times ev))) n" if "(k, v) \<in> set (indexRows ev n)" "has_prefix k timePrefix" for k v ev n
    using that by (auto simp: set_indexRows)
  let ?P = "\<lambda>n ev k v. ?in (n, ev) \<and> k = timeKey (unixNano (fst (Times ev))) n \<and> (k, v) \<in> set (indexRows ev n)"
  have bounds: "?lo \<le> timeKey (unixNano (fst (Times ev))) n \<and> timeKey (unixNano (fst (Times ev))) n < ?hi \<longleftrightarrow> ?in (n, ev)" for n ev
    by (simp add: timeKeyBound_le timeKey_below nanosOf_def)
  have mem: "(k, v) \<in> set rows \<longleftrightarrow> (\<exists>n ev. (n, ev) \<in> set L \<and> ?P n ev k v)" for k v
  proof -
    have "(k, v) \<in> set rows \<longleftrightarrow> contents (s_db s) k = Some v \<and> ?lo \<le> k \<and> k < ?hi" using iter_rows [OF rows] by (simp add: below_def)
    also have "\<dots> \<longleftrightarrow> (\<exists>n ev. (n, ev) \<in> set L \<and> (k, v) \<in> set (indexRows ev n)) \<and> ?lo \<le> k \<and> k < ?hi"
      using I tim unfolding indexed_def isIndex_def by blast
    also have "\<dots> \<longleftrightarrow> (\<exists>n ev. (n, ev) \<in> set L \<and> ?P n ev k v)"
    proof
      assume "(\<exists>n ev. (n, ev) \<in> set L \<and> (k, v) \<in> set (indexRows ev n)) \<and> ?lo \<le> k \<and> k < ?hi"
      then obtain n ev where ev: "(n, ev) \<in> set L" "(k, v) \<in> set (indexRows ev n)" and k: "?lo \<le> k" "k < ?hi" by blast
      from time [OF ev(2) tim [OF k]] bounds [of ev n] k have "?P n ev k v" using ev(2) by simp
      with ev(1) show "\<exists>n ev. (n, ev) \<in> set L \<and> ?P n ev k v" by blast
    next
      assume "\<exists>n ev. (n, ev) \<in> set L \<and> ?P n ev k v"
      then obtain n ev where "(n, ev) \<in> set L" "?P n ev k v" by blast
      with bounds [of ev n] show "(\<exists>n ev. (n, ev) \<in> set L \<and> (k, v) \<in> set (indexRows ev n)) \<and> ?lo \<le> k \<and> k < ?hi" by blast
    qed
    finally show ?thesis .
  qed
  have seq: "seqFromKeySuffix k = n" if "?P n ev k v" for n ev k v using that by simp
  have R: "(\<forall>row \<in> set rows. map_of L (seqFromKeySuffix (fst row)) \<noteq> None) \<and>
      set (rowEvents L rows) = {(n, ev). (n, ev) \<in> set L \<and> (\<exists>k v. ?P n ev k v)}"
    by (rule rowEvents_set [where P = ?P, OF L mem]) (rule seq)
  let ?lt = "\<lambda>x y. (nanosOf \<circ> snd) x < (nanosOf \<circ> snd) y \<or> (nanosOf \<circ> snd) x = (nanosOf \<circ> snd) y \<and> fst x < fst y"
  have d: "distinct (map fst L)" using L strict_sorted_iff by (auto simp: logged_def)
  show "\<forall>row \<in> set rows. map_of L (seqFromKeySuffix (fst row)) \<noteq> None \<and>
      row \<in> set (indexRows (the (map_of L (seqFromKeySuffix (fst row)))) (seqFromKeySuffix (fst row))) \<and> has_prefix (fst row) timePrefix"
  proof
    fix row assume row: "row \<in> set rows"
    with mem [of "fst row" "snd row"] obtain n ev where ev: "(n, ev) \<in> set L" "?P n ev (fst row) (snd row)" by auto
    moreover have "?lo \<le> fst row" "fst row < ?hi" using bounds [of ev n] ev(2) by auto
    ultimately show "map_of L (seqFromKeySuffix (fst row)) \<noteq> None \<and>
      row \<in> set (indexRows (the (map_of L (seqFromKeySuffix (fst row)))) (seqFromKeySuffix (fst row))) \<and> has_prefix (fst row) timePrefix"
      using d tim by auto
  qed
  show "rowEvents L rows = sort_key (nanosOf \<circ> snd) (filter ?in L)"
  proof (rule sorted_wrt_unique [of ?lt])
    have row: "fst row = timeKey (unixNano (fst (Times (the (map_of L (seqFromKeySuffix (fst row))))))) (seqFromKeySuffix (fst row))"
      if "row \<in> set rows" for row
    proof -
      from mem [of "fst row" "snd row"] that obtain n ev where "(n, ev) \<in> set L" "?P n ev (fst row) (snd row)" by auto
      then show ?thesis using d by auto
    qed
    have "sorted_wrt (\<lambda>x y. fst x < fst y) rows" using iter_sorted [OF rows] by (simp add: sorted_wrt_map)
    then have "sorted_wrt (\<lambda>x y. ?lt (seqFromKeySuffix (fst x), the (map_of L (seqFromKeySuffix (fst x))))
        (seqFromKeySuffix (fst y), the (map_of L (seqFromKeySuffix (fst y))))) rows"
      by (rule sorted_wrt_mono_rel [rotated]) (metis (no_types, lifting) comp_apply fst_conv nanosOf_def row snd_conv timeKey_less)
    then show "sorted_wrt ?lt (rowEvents L rows)" by (simp add: rowEvents_def sorted_wrt_map)
    have "sorted_wrt (\<lambda>x y. fst x < fst y) (filter ?in L)" using L by (simp add: logged_def sorted_wrt_map sorted_wrt_filter)
    then show "sorted_wrt ?lt (sort_key (nanosOf \<circ> snd) (filter ?in L))" by (rule sorted_sort_key)
    have "(\<exists>k v. ?P n ev k v) \<longleftrightarrow> ?in (n, ev)" if "(n, ev) \<in> set L" for n ev
      using w that by (auto simp: set_indexRows)
    then show "set (rowEvents L rows) = set (sort_key (nanosOf \<circ> snd) (filter ?in L))" using conjunct2 [OF R] by auto
  qed auto
qed

lemma ScanByTimeRange_log:
  assumes L: "logged pm (contents (s_db s)) L" and I: "indexed (contents (s_db s)) L"
    and w: "\<forall>n ev. (n, ev) \<in> set L \<longrightarrow> whole ev"
    and r: "ScanByTimeRange pb pm ctx start end fn s a = Inr b"
  shows "forLog (\<lambda>n. fn) (sort_key (nanosOf \<circ> snd) (filter (\<lambda>(n, ev). of_int (unixNano start) \<le> nanosOf ev \<and> nanosOf ev < of_int (unixNano end)) L)) a
    = Inr b"
proof -
  let ?lo = "timeKeyBound (unixNano start)" and ?hi = "timeKeyBound (unixNano end)"
  from r obtain m where it: "iterate pb (s_db s) ?lo (Some ?hi) (resolveRow pb pm ctx s fn) (0, a) = Inr (m, b)"
    by (auto simp: ScanByTimeRange_def map_sum_def split: sum.splits)
  from it obtain rows where rows: "pb_iter pb (s_db s) ?lo (Some ?hi) = Inr (rows, None)"
    and f: "forRows (resolveRow pb pm ctx s fn) rows (0, a) = Inr (m, b)" by (rule iterate_cases)
  have "\<forall>row \<in> set rows. map_of L (seqFromKeySuffix (fst row)) \<noteq> None" using time_rows(1) [OF L I w rows] by blast
  from resolve_rows [OF L this f] show ?thesis unfolding time_rows(2) [OF L I w rows] .
qed

end

end
