(* ===== verification/Store_Retention.thy ===== *)
theory Store_Retention
  imports Store_Reads Projection_Spec
begin

text \<open>
  Retention keeps the projection: heartbeat coalescing and pruning delete records with their index
  rows and nothing else, and replaying what is left gives the topology that replaying the whole
  log gave.
\<close>

section \<open>Replay by id\<close>

definition entStep :: "EntityEvent \<Rightarrow> Entity option \<Rightarrow> Entity option" where
  "entStep ee x =
     (case ee_ChangeType ee of
        EntityCreated \<Rightarrow> Some (ee_Entity ee)
      | EntityIdentityChanged \<Rightarrow> Some (ee_Entity ee)
      | EntityAttributeUpdated \<Rightarrow> Some (ee_Entity ee)
      | EntityStateChanged \<Rightarrow> Some (ee_Entity ee)
      | EntityDeleted \<Rightarrow> None
      | EntityUnchanged \<Rightarrow> (if x = None then Some (ee_Entity ee) else x)
      | _ \<Rightarrow> x)"

definition relStep :: "RelationEvent \<Rightarrow> Relation option \<Rightarrow> Relation option" where
  "relStep re x =
     (case re_ChangeType re of
        RelationAdded \<Rightarrow> Some (re_Relation re)
      | RelationAttributeChanged \<Rightarrow> Some (re_Relation re)
      | RelationRemoved \<Rightarrow> None
      | _ \<Rightarrow> x)"

text \<open>The records of one entity and of one relation, in order.\<close>

definition entRow :: "EntityID \<Rightarrow> 'n \<times> Event \<Rightarrow> ('n \<times> EntityEvent) option" where
  "entRow i r =
     (case ev_Entity (snd r) of
        Some ee \<Rightarrow> if ent_ID (ee_Entity ee) = i then Some (fst r, ee) else None
      | None \<Rightarrow> None)"

definition relRow :: "RelationID \<Rightarrow> 'n \<times> Event \<Rightarrow> ('n \<times> RelationEvent) option" where
  "relRow i r =
     (case ev_Entity (snd r) of
        Some _ \<Rightarrow> None
      | None \<Rightarrow>
          (case ev_Relation (snd r) of
             Some re \<Rightarrow> if rel_ID (re_Relation re) = i then Some (fst r, re) else None
           | None \<Rightarrow> None))"

definition entRows :: "EntityID \<Rightarrow> ('n \<times> Event) list \<Rightarrow> ('n \<times> EntityEvent) list" where
  "entRows i L = List.map_filter (entRow i) L"

definition relRows :: "RelationID \<Rightarrow> ('n \<times> Event) list \<Rightarrow> ('n \<times> RelationEvent) list" where
  "relRows i L = List.map_filter (relRow i) L"

definition replayLog :: "('n \<times> Event) list \<Rightarrow> Topology" where
  "replayLog L = spec_replay (map snd L) emptyTopology"

lemma rows_simps [simp]:
  "entRows i [] = []" "entRows i (r # L) = (case entRow i r of Some x \<Rightarrow> x # entRows i L | None \<Rightarrow> entRows i L)"
  "relRows i [] = []" "relRows i (r # L) = (case relRow i r of Some y \<Rightarrow> y # relRows i L | None \<Rightarrow> relRows i L)"
  by (simp_all add: entRows_def relRows_def List.map_filter_simps split: option.splits)

lemma rows_append [simp]:
  "entRows i (L @ L') = entRows i L @ entRows i L'" "relRows j (L @ L') = relRows j L @ relRows j L'"
  by (simp_all add: entRows_def relRows_def List.map_filter_def)

lemma spec_apply_entity:
  "tp_entities (spec_apply ev T) i = (case entRow i (n, ev) of Some (_, ee) \<Rightarrow> entStep ee (tp_entities T i) | None \<Rightarrow> tp_entities T i)"
proof (cases "ev_Entity ev")
  case None
  then show ?thesis
    by (cases "ev_Relation ev") (simp_all add: spec_apply_def spec_relation_def entRow_def Let_def split: ChangeType.split)
next
  case (Some ee)
  then show ?thesis
    by (cases "ee_ChangeType ee") (simp_all add: spec_apply_def spec_entity_def entRow_def entStep_def Let_def)
qed

lemma spec_apply_relation:
  "tp_relations (spec_apply ev T) i = (case relRow i (n, ev) of Some (_, re) \<Rightarrow> relStep re (tp_relations T i) | None \<Rightarrow> tp_relations T i)"
proof (cases "ev_Entity ev")
  case (Some ee)
  then show ?thesis by (cases "ee_ChangeType ee") (simp_all add: spec_apply_def spec_entity_def relRow_def Let_def)
next
  case None
  show ?thesis
  proof (cases "ev_Relation ev")
    case (Some re)
    with None show ?thesis
      by (cases "re_ChangeType re") (simp_all add: spec_apply_def spec_relation_def relRow_def relStep_def Let_def)
  qed (simp add: None spec_apply_def relRow_def)
qed

lemma replay_entity_from:
  "tp_entities (spec_replay (map snd L) T) i = fold entStep (map snd (entRows i L)) (tp_entities T i)"
proof (induction L arbitrary: T)
  case (Cons r L)
  obtain n ev where r: "r = (n, ev)" by (cases r)
  have "tp_entities (spec_replay (map snd (r # L)) T) i = fold entStep (map snd (entRows i L)) (tp_entities (spec_apply ev T) i)"
    using Cons.IH [of "spec_apply ev T"] by (simp add: r spec_replay_def)
  then show ?case unfolding spec_apply_entity [of ev T i n] by (simp add: r split: option.splits)
qed (simp add: spec_replay_def)

lemma replay_relation_from:
  "tp_relations (spec_replay (map snd L) T) i = fold relStep (map snd (relRows i L)) (tp_relations T i)"
proof (induction L arbitrary: T)
  case (Cons r L)
  obtain n ev where r: "r = (n, ev)" by (cases r)
  have "tp_relations (spec_replay (map snd (r # L)) T) i = fold relStep (map snd (relRows i L)) (tp_relations (spec_apply ev T) i)"
    using Cons.IH [of "spec_apply ev T"] by (simp add: r spec_replay_def)
  then show ?case unfolding spec_apply_relation [of ev T i n] by (simp add: r split: option.splits)
qed (simp add: spec_replay_def)

lemma replayLog_entity: "tp_entities (replayLog L) i = fold entStep (map snd (entRows i L)) None"
  by (simp add: replayLog_def replay_entity_from emptyTopology_def)

lemma replayLog_relation: "tp_relations (replayLog L) i = fold relStep (map snd (relRows i L)) None"
  by (simp add: replayLog_def replay_relation_from emptyTopology_def)

lemma entRows_filter: "entRows i (filter (\<lambda>(n, ev). P n) L) = filter (P \<circ> fst) (entRows i L)"
proof (induction L)
  case (Cons r L)
  then show ?case by (cases r) (auto simp: entRow_def split: option.splits)
qed simp

lemma relRows_filter: "relRows i (filter (\<lambda>(n, ev). P n) L) = filter (P \<circ> fst) (relRows i L)"
proof (induction L)
  case (Cons r L)
  then show ?case by (cases r) (auto simp: relRow_def split: option.splits)
qed simp

lemma set_entRows: "(n, ee) \<in> set (entRows i L) \<longleftrightarrow> (\<exists>ev. (n, ev) \<in> set L \<and> ev_Entity ev = Some ee) \<and> ent_ID (ee_Entity ee) = i"
  by (induction L) (auto simp: entRow_def split: option.splits if_splits)

lemma set_relRows:
  "(n, re) \<in> set (relRows i L) \<longleftrightarrow> (\<exists>ev. (n, ev) \<in> set L \<and> ev_Entity ev = None \<and> ev_Relation ev = Some re) \<and> rel_ID (re_Relation re) = i"
  by (induction L) (auto simp: relRow_def split: option.splits if_splits)

lemma sorted_rows:
  "sorted_wrt (<) (map fst L) \<Longrightarrow> sorted_wrt (<) (map fst (entRows i L))"
  "sorted_wrt (<) (map fst L) \<Longrightarrow> sorted_wrt (<) (map fst (relRows j L))"
proof -
  show "sorted_wrt (<) (map fst L) \<Longrightarrow> sorted_wrt (<) (map fst (entRows i L))"
  proof (induction L)
    case (Cons r L)
    then show ?case by (auto simp: entRow_def split: option.splits) (auto simp: set_entRows)
  qed simp
  show "sorted_wrt (<) (map fst L) \<Longrightarrow> sorted_wrt (<) (map fst (relRows j L))"
  proof (induction L)
    case (Cons r L)
    then show ?case by (auto simp: relRow_def split: option.splits) (auto simp: set_relRows)
  qed simp
qed

section \<open>Deleting records\<close>

lemma logged_remove:
  assumes L: "logged pm C L" and all: "\<And>n ev. (n, ev) \<in> set L \<Longrightarrow> n \<in> D \<Longrightarrow> primaryKey n \<in> K"
    and only: "\<And>k. k \<in> K \<Longrightarrow> seqFromKeySuffix k \<in> D"
  shows "logged pm (\<lambda>k. if k \<in> K then None else C k) (filter (\<lambda>(n, ev). n \<notin> D) L)"
proof -
  have "sorted_wrt (<) (map fst (filter (\<lambda>(n, ev). n \<notin> D) L))" using L by (simp add: logged_def sorted_wrt_map sorted_wrt_filter)
  moreover have "primaryKey n \<notin> K" if "n \<notin> D" for n using only [of "primaryKey n"] that by auto
  ultimately show ?thesis using L all unfolding logged_def by auto metis
qed

lemma indexed_remove:
  assumes I: "indexed C L" and all: "\<And>n ev k v. (n, ev) \<in> set L \<Longrightarrow> n \<in> D \<Longrightarrow> (k, v) \<in> set (indexRows ev n) \<Longrightarrow> k \<in> K"
    and only: "\<And>k. k \<in> K \<Longrightarrow> seqFromKeySuffix k \<in> D"
  shows "indexed (\<lambda>k. if k \<in> K then None else C k) (filter (\<lambda>(n, ev). n \<notin> D) L)"
  unfolding indexed_def
proof (intro allI impI)
  fix k v assume k: "isIndex k"
  have iff: "C k = Some v \<longleftrightarrow> (\<exists>n ev. (n, ev) \<in> set L \<and> (k, v) \<in> set (indexRows ev n))" using I k by (simp add: indexed_def)
  show "(if k \<in> K then None else C k) = Some v \<longleftrightarrow>
      (\<exists>n ev. (n, ev) \<in> set (filter (\<lambda>(n, ev). n \<notin> D) L) \<and> (k, v) \<in> set (indexRows ev n))"
  proof (cases "k \<in> K")
    case True
    with only [of k] indexRows_keys show ?thesis by auto
  next
    case False
    then have "(\<exists>n ev. (n, ev) \<in> set (filter (\<lambda>(n, ev). n \<notin> D) L) \<and> (k, v) \<in> set (indexRows ev n)) \<longleftrightarrow>
        (\<exists>n ev. (n, ev) \<in> set L \<and> (k, v) \<in> set (indexRows ev n))"
      using all by fastforce
    with False iff show ?thesis by simp
  qed
qed

section \<open>Runs of heartbeats\<close>

function middles :: "('a \<Rightarrow> bool) \<Rightarrow> 'a list \<Rightarrow> 'a list" where
  "middles P [] = []"
| "middles P (x # xs) = (if \<not> P x then middles P xs else butlast (takeWhile P xs) @ middles P (dropWhile P xs))"
  by pat_completeness auto
termination
  by (relation "measure (\<lambda>(P, xs). length xs)") (auto simp: le_imp_less_Suc length_dropWhile_le)

function ends :: "('a \<Rightarrow> bool) \<Rightarrow> 'a list \<Rightarrow> 'a list" where
  "ends P [] = []"
| "ends P (x # xs) =
     (if \<not> P x then x # ends P xs
      else x # (if takeWhile P xs = [] then [] else [last (takeWhile P xs)]) @ ends P (dropWhile P xs))"
  by pat_completeness auto
termination
  by (relation "measure (\<lambda>(P, xs). length xs)") (auto simp: le_imp_less_Suc length_dropWhile_le)

lemma runMiddles_eq: "runMiddles rs = middles (\<lambda>r. cr_ct r = EntityUnchanged) rs"
  by (induction rs rule: runMiddles.induct) simp_all

lemma middles_map: "middles P (map f xs) = map f (middles (P \<circ> f) xs)"
  by (induction "P \<circ> f" xs rule: middles.induct) (simp_all add: takeWhile_map dropWhile_map map_butlast comp_def)

lemma set_middles: "set (middles P xs) \<subseteq> set xs"
proof (induction P xs rule: middles.induct)
  case (2 P x xs)
  then show ?case by (auto dest!: in_set_butlastD set_takeWhileD simp: set_dropWhileD)
      (meson set_dropWhileD subsetD)
qed simp

lemma filter_middles:
  "distinct xs \<Longrightarrow> filter (\<lambda>x. x \<notin> set (middles P xs)) xs = ends P xs"
proof (induction P xs rule: middles.induct)
  case (2 P x xs)
  show ?case
  proof (cases "P x")
    case False
    with 2 set_middles [of P xs] show ?thesis by auto
  next
    case True
    obtain t d where t: "takeWhile P xs = t" and d: "dropWhile P xs = d" by simp
    then have xs: "xs = t @ d" by (metis takeWhile_dropWhile_id)
    have dis: "distinct t" "distinct d" "set t \<inter> set d = {}" "x \<notin> set t" "x \<notin> set d" using 2(3) by (auto simp: xs)
    have IH: "filter (\<lambda>x. x \<notin> set (middles P d)) d = ends P d" using 2(2) True dis(2) d by simp
    have m: "set (middles P d) \<subseteq> set d" by (rule set_middles)
    let ?M = "set (butlast t) \<union> set (middles P d)"
    have "filter (\<lambda>y. y \<notin> ?M) t = (if t = [] then [] else [last t])"
    proof (cases t rule: rev_cases)
      case (snoc u y)
      with dis(1,3) m show ?thesis by (auto simp: filter_empty_conv)
    qed simp
    moreover have "filter (\<lambda>y. y \<notin> ?M) d = ends P d"
    proof -
      have "y \<notin> set (butlast t)" if "y \<in> set d" for y using that dis(3) by (meson disjoint_iff in_set_butlastD)
      then have "filter (\<lambda>y. y \<notin> ?M) d = filter (\<lambda>x. x \<notin> set (middles P d)) d" by (intro filter_cong) auto
      with IH show ?thesis by simp
    qed
    moreover have "x \<notin> ?M" using dis(4,5) m by (auto dest: in_set_butlastD)
    ultimately show ?thesis using True IH by (simp add: t d) (simp add: xs)
  qed
qed simp

lemma fold_ends:
  assumes noop: "\<And>x a. P x \<Longrightarrow> step x (Some a) = Some a" and some: "\<And>x s. P x \<Longrightarrow> step x s \<noteq> None"
  shows "fold step (ends P xs) s = fold step xs s"
  using assms
proof (induction P xs arbitrary: s rule: ends.induct)
  case (2 P x xs)
  show ?case
  proof (cases "P x")
    case True
    obtain a where a: "step x s = Some a" using 2(4) [OF True] by blast
    have still: "fold step ys (Some a) = Some a" if "\<forall>y \<in> set ys. P y" for ys using that 2(3) by (induction ys) simp_all
    have split: "fold step xs (Some a) = fold step (dropWhile P xs) (fold step (takeWhile P xs) (Some a))"
      using fold_append [of step "takeWhile P xs" "dropWhile P xs"] by simp
    have "\<forall>y \<in> set (takeWhile P xs). P y" by (blast dest: set_takeWhileD)
    from still [OF this] have "fold step (takeWhile P xs) (Some a) = Some a" .
    with split have "fold step xs (Some a) = fold step (dropWhile P xs) (Some a)" by simp
    also have "\<dots> = fold step (ends P (dropWhile P xs)) (Some a)" using 2(2) [OF _ 2(3,4)] True by simp
    also have "\<dots> = fold step ((if takeWhile P xs = [] then [] else [last (takeWhile P xs)]) @ ends P (dropWhile P xs)) (Some a)"
    proof (cases "takeWhile P xs = []")
      case False
      then have "P (last (takeWhile P xs))" by (metis last_in_set set_takeWhileD)
      with False 2(3) show ?thesis by simp
    qed simp
    finally show ?thesis using True a by simp
  qed (simp add: 2)
qed simp

section \<open>Coalescing\<close>

definition recOf :: "64 word \<times> EntityEvent \<Rightarrow> coalesceRec" where
  "recOf r = \<lparr>cr_seq = fst r, cr_ct = ee_ChangeType (snd r), cr_nano = unixNano (ee_EventTime (snd r))\<rparr>"

definition heartbeat :: "'n \<times> EntityEvent \<Rightarrow> bool" where
  "heartbeat r = (ee_ChangeType (snd r) = EntityUnchanged)"

lemma noteEntity_log:
  "forLog (\<lambda>n. noteEntity n (val n)) L m = Inr m' \<Longrightarrow> gdistinct m \<Longrightarrow>
   gdistinct m' \<and> gget [] m' i = gget [] m i @ map recOf (entRows i L)"
proof (induction L arbitrary: m)
  case (Cons r L)
  obtain n ev where r: "r = (n, ev)" by (cases r)
  show ?case
  proof (cases "ev_Entity ev")
    case None
    with Cons r show ?thesis by (simp add: noteEntity_def entRow_def)
  next
    case (Some ee)
    let ?j = "ent_ID (ee_Entity ee)"
    let ?m = "gput ?j (gget [] m ?j @ [recOf (n, ee)]) m"
    have "noteEntity n (val n) ev m = Inr ?m" using Some by (simp add: noteEntity_def recOf_def Let_def)
    then have "forLog (\<lambda>n. noteEntity n (val n)) L ?m = Inr m'" using Cons.prems(1) r by simp
    with Cons.IH [of ?m] Cons.prems(2) Some r show ?thesis by (auto simp: entRow_def recOf_def)
  qed
qed simp

context log_laws
begin

lemma coalesce_log:
  assumes c: "CoalesceHeartbeats pb pm s = (s', Inr k)" and L: "logged pm (contents (s_db s)) L" and I: "indexed (contents (s_db s)) L"
    and q: "sequenced (contents (s_db s)) (s_seq s) L"
  obtains D where "logged pm (contents (s_db s')) (filter (\<lambda>(n, ev). n \<notin> D) L)"
    and "indexed (contents (s_db s')) (filter (\<lambda>(n, ev). n \<notin> D) L)"
    and "sequenced (contents (s_db s')) (s_seq s') (filter (\<lambda>(n, ev). n \<notin> D) L)"
    and "\<And>i n ee. (n, ee) \<in> set (entRows i L) \<Longrightarrow> n \<in> D \<longleftrightarrow> (n, ee) \<in> set (middles heartbeat (entRows i L))"
    and "\<And>n ev. (n, ev) \<in> set L \<Longrightarrow> n \<in> D \<Longrightarrow> ev_Entity ev \<noteq> None"
proof -
  obtain perEntity where sc: "snapshotScan pb pm noteEntity (s_db s) [] = Inr perEntity"
    using c by (auto simp: CoalesceHeartbeats_def split: sum.splits)
  have "forLog (\<lambda>n. noteEntity n (the (contents (s_db s) (primaryKey n)))) L [] = Inr perEntity"
    by (rule snapshotScan_log [OF L sc])
  note N = noteEntity_log [OF this, simplified]
  have gd: "gdistinct perEntity" and per: "gget [] perEntity i = map recOf (entRows i L)" for i using N by simp_all
  define drops where "drops = concat (map (\<lambda>(i, recs). map (\<lambda>r. (i, r)) (runMiddles recs)) perEntity)"
  define D where "D = {cr_seq r |i r. (i, r) \<in> set drops}"
  define K where "K = {k. \<exists>(i, r) \<in> set drops. k \<in> set (coalesceKeys i r)}"
  have drop: "(i, r) \<in> set drops \<longleftrightarrow> (\<exists>x \<in> set (middles heartbeat (entRows i L)). r = recOf x)" for i r
  proof -
    have "(i, r) \<in> set drops \<longleftrightarrow> (\<exists>recs. (i, recs) \<in> set perEntity \<and> r \<in> set (runMiddles recs))" by (auto simp: drops_def)
    also have "\<dots> \<longleftrightarrow> r \<in> set (runMiddles (gget [] perEntity i))"
      using gd by (auto simp: gdistinct_in_set_iff gget_def split: option.splits)
    also have "\<dots> \<longleftrightarrow> (\<exists>x \<in> set (middles heartbeat (entRows i L)). r = recOf x)"
      by (auto simp: per runMiddles_eq middles_map comp_def recOf_def heartbeat_def [abs_def])
    finally show ?thesis .
  qed
  have dist: "distinct (map fst L)" using L strict_sorted_iff by (auto simp: logged_def)
  have inD: "n \<in> D \<Longrightarrow> (n, ev) \<in> set L \<Longrightarrow> \<exists>i ee. (n, ee) \<in> set (middles heartbeat (entRows i L)) \<and> ev_Entity ev = Some ee \<and>
      ent_ID (ee_Entity ee) = i \<and> (i, recOf (n, ee)) \<in> set drops" for n ev
  proof -
    assume "n \<in> D" and ev: "(n, ev) \<in> set L"
    then obtain i x where x: "x \<in> set (middles heartbeat (entRows i L))" "(i, recOf x) \<in> set drops" "cr_seq (recOf x) = n"
      using drop by (auto simp: D_def)
    obtain ee where xe: "x = (n, ee)" using x(3) by (cases x) (simp add: recOf_def)
    have "(n, ee) \<in> set (entRows i L)" using subsetD [OF set_middles x(1)] xe by simp
    then obtain ev' where "(n, ev') \<in> set L" "ev_Entity ev' = Some ee" "ent_ID (ee_Entity ee) = i" by (auto simp: set_entRows)
    moreover from this(1) ev dist have "ev' = ev" using eq_key_imp_eq_value by metis
    ultimately show ?thesis using x xe by (intro exI [of _ i] exI [of _ ee]) simp
  qed
  have all: "primaryKey n \<in> K" "(k, v) \<in> set (indexRows ev n) \<Longrightarrow> k \<in> K" if nD: "n \<in> D" "(n, ev) \<in> set L" for n ev k v
  proof -
    obtain i ee where e: "ev_Entity ev = Some ee" "ent_ID (ee_Entity ee) = i" "(i, recOf (n, ee)) \<in> set drops"
      using inD [OF nD] by (elim exE conjE)
    then show "primaryKey n \<in> K" by (force simp: K_def coalesceKeys_def recOf_def)
    assume "(k, v) \<in> set (indexRows ev n)"
    then have "k \<in> set (coalesceKeys i (recOf (n, ee)))"
      using e(1,2) by (auto simp: set_indexRows touched_def changeOf_def Times_def coalesceKeys_def recOf_def)
    with e(3) show "k \<in> K" by (force simp: K_def)
  qed
  have only: "seqFromKeySuffix k \<in> D" if "k \<in> K" for k
  proof -
    have "cr_seq r \<in> D" if "(i, r) \<in> set drops" for i r using that unfolding D_def by blast
    with that show ?thesis by (auto simp: K_def coalesceKeys_def)
  qed
  have C': "contents (s_db s') = (\<lambda>k. if k \<in> K then None else contents (s_db s) k)" and seq: "s_seq s' = s_seq s"
  proof -
    have "(contents (s_db s') = (\<lambda>k. if k \<in> K then None else contents (s_db s) k)) \<and> s_seq s' = s_seq s"
    proof (cases "drops = []")
      case True
      with c sc show ?thesis by (simp add: CoalesceHeartbeats_def drops_def K_def)
    next
      case False
      let ?ops = "concat (map (\<lambda>(i, r). map KvDelete (coalesceKeys i r)) drops)"
      obtain d where d: "pb_commit pb (s_db s) ?ops = Inr d" and s': "s' = s\<lparr>s_db := d\<rparr>"
        using c sc False by (auto simp: CoalesceHeartbeats_def drops_def [symmetric] Let_def split: sum.splits)
      have "?ops = map KvDelete (concat (map (\<lambda>(i, r). coalesceKeys i r) drops))"
        by (simp add: map_concat comp_def case_prod_beta')
      then have "contents d = (\<lambda>k. if k \<in> set (concat (map (\<lambda>(i, r). coalesceKeys i r) drops)) then None else contents (s_db s) k)"
        using commit_law [OF d] by (simp add: kvApply_deletes)
      moreover have "set (concat (map (\<lambda>(i, r). coalesceKeys i r) drops)) = K" by (auto simp: K_def)
      ultimately have "contents d = (\<lambda>k. if k \<in> K then None else contents (s_db s) k)" by (simp only:)
      with s' show ?thesis by simp
    qed
    then show "contents (s_db s') = (\<lambda>k. if k \<in> K then None else contents (s_db s) k)" "s_seq s' = s_seq s" by simp_all
  qed
  have meta: "metaSeqKey \<notin> K" by (auto simp: K_def coalesceKeys_def)
  show thesis
  proof (rule that [of D])
    show "logged pm (contents (s_db s')) (filter (\<lambda>(n, ev). n \<notin> D) L)"
      unfolding C' by (rule logged_remove [OF L]) (use all only in blast)+
    show "indexed (contents (s_db s')) (filter (\<lambda>(n, ev). n \<notin> D) L)"
      unfolding C' by (rule indexed_remove [OF I]) (use all only in blast)+
    show "sequenced (contents (s_db s')) (s_seq s') (filter (\<lambda>(n, ev). n \<notin> D) L)"
      using q meta by (auto simp: C' seq sequenced_def)
    show "n \<in> D \<longleftrightarrow> (n, ee) \<in> set (middles heartbeat (entRows i L))" if "(n, ee) \<in> set (entRows i L)" for i n ee
    proof
      assume nD: "n \<in> D"
      obtain ev where ev: "(n, ev) \<in> set L" "ev_Entity ev = Some ee" "ent_ID (ee_Entity ee) = i" using \<open>(n, ee) \<in> set (entRows i L)\<close> by (auto simp: set_entRows)
      from inD [OF nD ev(1)] ev(2,3) show "(n, ee) \<in> set (middles heartbeat (entRows i L))" by auto
    next
      assume "(n, ee) \<in> set (middles heartbeat (entRows i L))"
      then have "(i, recOf (n, ee)) \<in> set drops" using drop by blast
      then show "n \<in> D" by (force simp: D_def recOf_def)
    qed
    show "ev_Entity ev \<noteq> None" if "(n, ev) \<in> set L" "n \<in> D" for n ev using inD [OF that(2,1)] by auto
  qed
qed

end

lemma coalesced_replay:
  assumes sorted: "sorted_wrt (<) (map fst L)"
    and D: "\<And>i n ee. (n, ee) \<in> set (entRows i L) \<Longrightarrow> n \<in> D \<longleftrightarrow> (n, ee) \<in> set (middles heartbeat (entRows i L))"
    and ent: "\<And>n ev. (n, ev) \<in> set L \<Longrightarrow> n \<in> D \<Longrightarrow> ev_Entity ev \<noteq> None"
  shows "replayLog (filter (\<lambda>(n :: 'n :: linorder, ev). n \<notin> D) L) = replayLog L"
proof -
  let ?L = "filter (\<lambda>(n, ev). n \<notin> D) L"
  have "tp_entities (replayLog ?L) i = tp_entities (replayLog L) i" for i
  proof -
    have d: "distinct (entRows i L)" using sorted_rows(1) [OF sorted, of i] strict_sorted_iff distinct_map by blast
    have "entRows i ?L = filter (\<lambda>x. x \<notin> set (middles heartbeat (entRows i L))) (entRows i L)"
      unfolding entRows_filter [where P = "\<lambda>n. n \<notin> D"] using D by (intro filter_cong) auto
    also have "\<dots> = ends heartbeat (entRows i L)" by (rule filter_middles [OF d])
    finally have "fold entStep (map snd (entRows i ?L)) None = fold (entStep \<circ> snd) (ends heartbeat (entRows i L)) None"
      by (simp add: fold_map)
    also have "\<dots> = fold (entStep \<circ> snd) (entRows i L) None"
      by (rule fold_ends) (auto simp: heartbeat_def entStep_def)
    finally show ?thesis by (simp add: replayLog_entity fold_map)
  qed
  moreover have "tp_relations (replayLog ?L) i = tp_relations (replayLog L) i" for i
  proof -
    have "distinct (map fst L)" using sorted strict_sorted_iff by blast
    then have "fst x \<notin> D" if "x \<in> set (relRows i L)" for x
      using that ent set_relRows [of "fst x" "snd x" i L] by (metis option.distinct(1) prod.collapse)
    then have "filter ((\<lambda>n. n \<notin> D) \<circ> fst) (relRows i L) = relRows i L" by (simp add: filter_id_conv)
    then show ?thesis unfolding replayLog_relation relRows_filter [where P = "\<lambda>n. n \<notin> D"] by simp
  qed
  ultimately show ?thesis by (intro Topology.equality ext) simp_all
qed

end
