(* ===== verification/Store_Prune.thy ===== *)
theory Store_Prune
  imports Store_Retention
begin

text \<open>
  \<open>PruneOlderThan\<close>: what the two passes over the snapshot collect, and that deleting it and
  appending the baselines leaves the projection of the log as it was.
\<close>

section \<open>Definitions\<close>

definition proper :: "Event \<Rightarrow> bool" where
  "proper ev =
     (case ev_Entity ev of
        Some ee \<Rightarrow> ee_ChangeType ee \<in> {EntityCreated, EntityDeleted, EntityIdentityChanged, EntityAttributeUpdated,
                     EntityStateChanged, EntityUnchanged}
      | None \<Rightarrow>
          (case ev_Relation ev of
             Some re \<Rightarrow> re_ChangeType re \<in> {RelationAdded, RelationRemoved, RelationAttributeChanged}
           | None \<Rightarrow> False))"

text \<open>
  A deletion is recorded no earlier than the events it ends: the clock that stamps the records
  does not step back across it.
\<close>

definition deletes_last :: "(64 word \<times> Event) list \<Rightarrow> bool" where
  "deletes_last L =
     ((\<forall>i n ee m ee'. (n, ee) \<in> set (entRows i L) \<longrightarrow> (m, ee') \<in> set (entRows i L) \<longrightarrow> n \<le> m \<longrightarrow>
         ee_ChangeType ee' = EntityDeleted \<longrightarrow> ee_RecordedAt ee \<le> ee_RecordedAt ee') \<and>
      (\<forall>i n re m re'. (n, re) \<in> set (relRows i L) \<longrightarrow> (m, re') \<in> set (relRows i L) \<longrightarrow> n \<le> m \<longrightarrow>
         re_ChangeType re' = RelationRemoved \<longrightarrow> re_RecordedAt re \<le> re_RecordedAt re'))"

text \<open>What the first pass knows of an entity or a relation: its last record.\<close>

definition lastEnt :: "(64 word \<times> Event) list \<Rightarrow> EntityID \<Rightarrow> lastRec option \<Rightarrow> bool" where
  "lastEnt L i x =
     (case x of
        None \<Rightarrow> entRows i L = []
      | Some l \<Rightarrow> \<exists>ee. entRows i L \<noteq> [] \<and> last (entRows i L) = (la_seq l, ee) \<and> la_alive l = (ee_ChangeType ee \<noteq> EntityDeleted)
           \<and> ev_Entity (la_ev l) = Some ee \<and> (la_seq l, la_ev l) \<in> set L)"

definition lastRel :: "(64 word \<times> Event) list \<Rightarrow> RelationID \<Rightarrow> lastRec option \<Rightarrow> bool" where
  "lastRel L i x =
     (case x of
        None \<Rightarrow> relRows i L = []
      | Some l \<Rightarrow> \<exists>re. relRows i L \<noteq> [] \<and> last (relRows i L) = (la_seq l, re) \<and> la_alive l = (re_ChangeType re \<noteq> RelationRemoved)
           \<and> ev_Entity (la_ev l) = None \<and> ev_Relation (la_ev l) = Some re \<and> (la_seq l, la_ev l) \<in> set L)"

section \<open>The first pass\<close>

lemma lastEnt_other:
  assumes "lastEnt L i x" and "entRow i r = None"
  shows "lastEnt (L @ [r]) i x"
proof (cases x)
  case None
  with assms show ?thesis by (simp add: lastEnt_def)
next
  case (Some l)
  with assms show ?thesis by (auto simp: lastEnt_def)
qed

lemma lastRel_other:
  assumes "lastRel L i x" and "relRow i r = None"
  shows "lastRel (L @ [r]) i x"
proof (cases x)
  case None
  with assms show ?thesis by (simp add: lastRel_def)
next
  case (Some l)
  with assms show ?thesis by (auto simp: lastRel_def)
qed

lemma noteLast_total: "\<exists>p'. noteLast c n raw ev p = Inr p'"
  by (cases p) (simp add: noteLast_def Let_def split: option.splits)

lemma noteLast_log:
  assumes "forLog (\<lambda>n. noteLast c n (val n)) L ([], []) = Inr (el, rl)"
  shows "gdistinct el \<and> gdistinct rl \<and> (\<forall>i. lastEnt L i (map_of el i)) \<and> (\<forall>i. lastRel L i (map_of rl i))"
  using assms
proof (induction L arbitrary: el rl rule: rev_induct)
  case Nil
  then show ?case by (simp add: lastEnt_def lastRel_def)
next
  case (snoc r L)
  obtain n ev where r: "r = (n, ev)" by (cases r)
  from snoc.prems obtain el0 rl0 where f: "forLog (\<lambda>n. noteLast c n (val n)) L ([], []) = Inr (el0, rl0)"
    and st: "noteLast c n (val n) ev (el0, rl0) = Inr (el, rl)"
    by (auto simp: forLog_append r split: sum.splits)
  note IH = snoc.IH [OF f]
  show ?case
  proof (cases "ev_Entity ev")
    case (Some ee)
    let ?i = "ent_ID (ee_Entity ee)"
    obtain l where el: "el = gput ?i l el0" "rl = rl0" "la_seq l = n" "la_alive l = (ee_ChangeType ee \<noteq> EntityDeleted)" "la_ev l = ev"
      using st Some by (auto simp: noteLast_def Let_def)
    have row: "entRow ?i r = Some (n, ee)" "\<And>j. j \<noteq> ?i \<Longrightarrow> entRow j r = None" "\<And>j. relRow j r = None"
      using Some by (simp_all add: entRow_def relRow_def r)
    have "lastEnt (L @ [r]) j (map_of el j)" for j
    proof (cases "j = ?i")
      case True
      with el row(1) Some show ?thesis by (simp add: lastEnt_def r)
    next
      case False
      with lastEnt_other IH row(2) el(1) show ?thesis by auto
    qed
    with lastRel_other IH row(3) el show ?thesis by auto
  next
    case None
    show ?thesis
    proof (cases "ev_Relation ev")
      case (Some re)
      let ?i = "rel_ID (re_Relation re)"
      obtain l where el: "rl = gput ?i l rl0" "el = el0" "la_seq l = n" "la_alive l = (re_ChangeType re \<noteq> RelationRemoved)" "la_ev l = ev"
        using st Some None by (auto simp: noteLast_def Let_def)
      have row: "relRow ?i r = Some (n, re)" "\<And>j. j \<noteq> ?i \<Longrightarrow> relRow j r = None" "\<And>j. entRow j r = None"
        using Some None by (simp_all add: entRow_def relRow_def r)
      have "lastRel (L @ [r]) j (map_of rl j)" for j
      proof (cases "j = ?i")
        case True
        with el row(1) Some None show ?thesis by (simp add: lastRel_def r)
      next
        case False
        with lastRel_other IH row(2) el(1) show ?thesis by auto
      qed
      with lastEnt_other IH row(3) el show ?thesis by auto
    next
      case n2: None
      then have "el = el0" "rl = rl0" "\<And>j. entRow j r = None" "\<And>j. relRow j r = None"
        using st None by (simp_all add: noteLast_def entRow_def relRow_def r)
      with lastEnt_other lastRel_other IH show ?thesis by simp
    qed
  qed
qed

lemma keepSet_iff: "ghas (keepSet el rl) n \<longleftrightarrow> (\<exists>l \<in> snd ` set el \<union> snd ` set rl. la_alive l \<and> la_seq l = n)"
proof -
  have "ghas (foldl (\<lambda>m l. if la_alive l then gadd (la_seq l) m else m) m ls) n \<longleftrightarrow>
      ghas m n \<or> (\<exists>l \<in> set ls. la_alive l \<and> la_seq l = n)" for m ls
    by (induction ls arbitrary: m) auto
  from this [of "[]" "map snd el @ map snd rl"] show ?thesis by (simp only: keepSet_def set_append set_map) simp
qed

section \<open>The second pass\<close>

definition prunable :: "time \<Rightarrow> 64 word goset \<Rightarrow> 64 word \<times> Event \<Rightarrow> bool" where
  "prunable cutoff keep r = (\<not> ghas keep (fst r) \<and> recordedAtOf (snd r) < cutoff)"

lemma notePruned_log:
  "forLog (\<lambda>n. notePruned cutoff keep n (val n)) L (e, b, ops) = Inr (e', b', ops') \<Longrightarrow>
   e' = e + length (filter (prunable cutoff keep) L) \<and>
   ops' = ops @ concat (map (\<lambda>(n, ev). map KvDelete (eventKeys ev n)) (filter (prunable cutoff keep) L))"
proof (induction L arbitrary: e b ops)
  case (Cons r L)
  obtain n ev where r: "r = (n, ev)" by (cases r)
  show ?case
  proof (cases "prunable cutoff keep r")
    case True
    then have "notePruned cutoff keep n (val n) ev (e, b, ops) = Inr (e + 1, b + length (val n), ops @ map KvDelete (eventKeys ev n))"
      by (simp add: notePruned_def prunable_def r)
    with Cons.prems r have "forLog (\<lambda>n. notePruned cutoff keep n (val n)) L (e + 1, b + length (val n), ops @ map KvDelete (eventKeys ev n)) =
        Inr (e', b', ops')" by simp
    from Cons.IH [OF this] True r show ?thesis by simp
  next
    case False
    then have "notePruned cutoff keep n (val n) ev (e, b, ops) = Inr (e, b, ops)"
      by (auto simp: notePruned_def prunable_def r)
    with Cons False r show ?thesis by simp
  qed
qed simp

lemma eventKeys_rows:
  "primaryKey n \<in> set (eventKeys ev n)" "(k, v) \<in> set (indexRows ev n) \<Longrightarrow> k \<in> set (eventKeys ev n)"
  "k \<in> set (eventKeys ev n) \<Longrightarrow> seqFromKeySuffix k = n \<and> k \<noteq> metaSeqKey"
  by (auto simp: eventKeys_def set_indexRows touched_def changeOf_def Times_def whole_def split: option.splits)

section \<open>Replay after pruning\<close>

lemma fold_last_entity:
  assumes "xs \<noteq> []"
  shows "ee_ChangeType (last xs) = EntityDeleted \<Longrightarrow> fold entStep xs s = None"
    and "ee_ChangeType (last xs) \<in> {EntityCreated, EntityIdentityChanged, EntityAttributeUpdated, EntityStateChanged} \<Longrightarrow>
      fold entStep xs s = Some (ee_Entity (last xs))"
    and "ee_ChangeType (last xs) = EntityUnchanged \<Longrightarrow> fold entStep xs s \<noteq> None"
  using assms by (cases xs rule: rev_cases; auto simp: entStep_def)+

lemma fold_last_relation:
  assumes "xs \<noteq> []"
  shows "re_ChangeType (last xs) = RelationRemoved \<Longrightarrow> fold relStep xs s = None"
    and "re_ChangeType (last xs) \<in> {RelationAdded, RelationAttributeChanged} \<Longrightarrow> fold relStep xs s = Some (re_Relation (last xs))"
  using assms by (cases xs rule: rev_cases; auto simp: relStep_def)+

lemma last_filter:
  assumes "xs \<noteq> []" and "P (last xs)"
  shows "filter P xs \<noteq> [] \<and> last (filter P xs) = last xs"
  using assms by (cases xs rule: rev_cases) auto

text \<open>Re-asserting the last state of an entity changes nothing.\<close>

lemma reassert_entity:
  assumes "\<forall>x \<in> set es. ee_ChangeType x = ee_ChangeType ee \<and> ee_Entity x = ee_Entity ee" and "s \<noteq> None"
    and "ee_ChangeType ee \<in> {EntityCreated, EntityIdentityChanged, EntityAttributeUpdated, EntityStateChanged} \<and> s = Some (ee_Entity ee) \<or>
      ee_ChangeType ee = EntityUnchanged"
  shows "fold entStep es s = s"
  using assms by (induction es arbitrary: s) (auto simp: entStep_def)

lemma reassert_relation:
  assumes "\<forall>x \<in> set es. re_ChangeType x = re_ChangeType re \<and> re_Relation x = re_Relation re"
    and "re_ChangeType re \<in> {RelationAdded, RelationAttributeChanged}" and "s = Some (re_Relation re)"
  shows "fold relStep es s = s"
  using assms by (induction es arbitrary: s) (auto simp: relStep_def)

text \<open>A record of the log that is the last of an entity or a relation that is alive.\<close>

definition current :: "(64 word \<times> Event) list \<Rightarrow> Event \<Rightarrow> bool" where
  "current L ev =
     ((\<exists>n. (n, ev) \<in> set L) \<and>
      (case ev_Entity ev of
         Some ee \<Rightarrow> entRows (ent_ID (ee_Entity ee)) L \<noteq> [] \<and> snd (last (entRows (ent_ID (ee_Entity ee)) L)) = ee \<and>
           ee_ChangeType ee \<noteq> EntityDeleted
       | None \<Rightarrow>
           (case ev_Relation ev of
              Some re \<Rightarrow> relRows (rel_ID (re_Relation re)) L \<noteq> [] \<and> snd (last (relRows (rel_ID (re_Relation re)) L)) = re \<and>
                re_ChangeType re \<noteq> RelationRemoved
            | None \<Rightarrow> False)))"

text \<open>
  The rows that survive: none of a record that is kept for being the last of something alive,
  or that is recent.
\<close>

definition survives :: "(64 word \<times> Event) list \<Rightarrow> time \<Rightarrow> 64 word set \<Rightarrow> bool" where
  "survives L cutoff D =
     ((\<forall>n ev. (n, ev) \<in> set L \<longrightarrow> n \<in> D \<longrightarrow> recordedAtOf ev < cutoff) \<and>
      (\<forall>i. entRows i L \<noteq> [] \<longrightarrow>
         (if ee_ChangeType (snd (last (entRows i L))) = EntityDeleted
          then \<forall>(n, ee) \<in> set (entRows i L). ee_RecordedAt ee < cutoff \<longrightarrow> n \<in> D
          else fst (last (entRows i L)) \<notin> D)) \<and>
      (\<forall>i. relRows i L \<noteq> [] \<longrightarrow>
         (if re_ChangeType (snd (last (relRows i L))) = RelationRemoved
          then \<forall>(n, re) \<in> set (relRows i L). re_RecordedAt re < cutoff \<longrightarrow> n \<in> D
          else fst (last (relRows i L)) \<notin> D)) \<and>
      (\<forall>n ev. (n, ev) \<in> set L \<longrightarrow> recordedAtOf ev < cutoff \<longrightarrow> n \<in> D \<or> current L ev))"

text \<open>The rows appended after them only repeat the last state of what is alive.\<close>

definition reasserts :: "(64 word \<times> Event) list \<Rightarrow> (64 word \<times> Event) list \<Rightarrow> bool" where
  "reasserts L B =
     ((\<forall>i. \<forall>(n, ee) \<in> set (entRows i B). entRows i L \<noteq> [] \<and> ee_ChangeType (snd (last (entRows i L))) \<noteq> EntityDeleted \<and>
         ee_ChangeType ee = ee_ChangeType (snd (last (entRows i L))) \<and> ee_Entity ee = ee_Entity (snd (last (entRows i L)))) \<and>
      (\<forall>i. \<forall>(n, re) \<in> set (relRows i B). relRows i L \<noteq> [] \<and> re_ChangeType (snd (last (relRows i L))) \<noteq> RelationRemoved \<and>
         re_ChangeType re = re_ChangeType (snd (last (relRows i L))) \<and> re_Relation re = re_Relation (snd (last (relRows i L)))))"

lemma reasserts_entity:
  assumes rs: "reasserts L B"
  shows "entRows i L = [] \<or> ee_ChangeType (snd (last (entRows i L))) = EntityDeleted \<Longrightarrow> entRows i B = []"
    and "\<forall>x \<in> set (map snd (entRows i B)). ee_ChangeType x = ee_ChangeType (snd (last (entRows i L))) \<and>
      ee_Entity x = ee_Entity (snd (last (entRows i L)))"
proof -
  have "\<forall>x \<in> set (entRows i B). entRows i L \<noteq> [] \<and> ee_ChangeType (snd (last (entRows i L))) \<noteq> EntityDeleted \<and>
      ee_ChangeType (snd x) = ee_ChangeType (snd (last (entRows i L))) \<and> ee_Entity (snd x) = ee_Entity (snd (last (entRows i L)))"
    using rs by (auto simp: reasserts_def case_prod_beta')
  note H = this
  show "entRows i B = []" if "entRows i L = [] \<or> ee_ChangeType (snd (last (entRows i L))) = EntityDeleted"
  proof -
    have "set (entRows i B) = {}" using H that by (metis equals0I)
    then show ?thesis by simp
  qed
  show "\<forall>x \<in> set (map snd (entRows i B)). ee_ChangeType x = ee_ChangeType (snd (last (entRows i L))) \<and>
      ee_Entity x = ee_Entity (snd (last (entRows i L)))"
    using H by (simp only: set_map) blast
qed

lemma reasserts_relation:
  assumes rs: "reasserts L B"
  shows "relRows i L = [] \<or> re_ChangeType (snd (last (relRows i L))) = RelationRemoved \<Longrightarrow> relRows i B = []"
    and "\<forall>x \<in> set (map snd (relRows i B)). re_ChangeType x = re_ChangeType (snd (last (relRows i L))) \<and>
      re_Relation x = re_Relation (snd (last (relRows i L)))"
proof -
  have "\<forall>x \<in> set (relRows i B). relRows i L \<noteq> [] \<and> re_ChangeType (snd (last (relRows i L))) \<noteq> RelationRemoved \<and>
      re_ChangeType (snd x) = re_ChangeType (snd (last (relRows i L))) \<and> re_Relation (snd x) = re_Relation (snd (last (relRows i L)))"
    using rs by (auto simp: reasserts_def case_prod_beta')
  note H = this
  show "relRows i B = []" if "relRows i L = [] \<or> re_ChangeType (snd (last (relRows i L))) = RelationRemoved"
  proof -
    have "set (relRows i B) = {}" using H that by (metis equals0I)
    then show ?thesis by simp
  qed
  show "\<forall>x \<in> set (map snd (relRows i B)). re_ChangeType x = re_ChangeType (snd (last (relRows i L))) \<and>
      re_Relation x = re_Relation (snd (last (relRows i L)))"
    using H by (simp only: set_map) blast
qed

lemma proper_rows:
  assumes p: "\<forall>n ev. (n, ev) \<in> set L \<longrightarrow> proper ev"
  shows "(n, ee) \<in> set (entRows i L) \<Longrightarrow> ee_ChangeType ee \<in> {EntityCreated, EntityDeleted, EntityIdentityChanged,
      EntityAttributeUpdated, EntityStateChanged, EntityUnchanged}"
    and "(n, re) \<in> set (relRows j L) \<Longrightarrow> re_ChangeType re \<in> {RelationAdded, RelationRemoved, RelationAttributeChanged}"
proof -
  assume "(n, ee) \<in> set (entRows i L)"
  then obtain ev where "(n, ev) \<in> set L" and ee: "ev_Entity ev = Some ee" by (auto simp: set_entRows)
  with p have "proper ev" by blast
  with ee show "ee_ChangeType ee \<in> {EntityCreated, EntityDeleted, EntityIdentityChanged,
      EntityAttributeUpdated, EntityStateChanged, EntityUnchanged}" by (simp add: proper_def)
next
  assume "(n, re) \<in> set (relRows j L)"
  then obtain ev where "(n, ev) \<in> set L" and re: "ev_Entity ev = None" "ev_Relation ev = Some re" by (auto simp: set_relRows)
  with p have "proper ev" by blast
  with re show "re_ChangeType re \<in> {RelationAdded, RelationRemoved, RelationAttributeChanged}" by (simp add: proper_def)
qed

lemma pruned_entity:
  assumes srt: "sorted_wrt (<) (map fst L)" and p: "\<forall>n ev. (n, ev) \<in> set L \<longrightarrow> proper ev" and dl: "deletes_last L"
    and sv: "survives L cutoff D" and rs: "reasserts L B"
  shows "(tp_entities (replayLog (filter (\<lambda>(n, ev). n \<notin> D) L @ B)) i = None) = (tp_entities (replayLog L) i = None)"
    and "entRows i L = [] \<or> ee_ChangeType (snd (last (entRows i L))) \<noteq> EntityUnchanged \<Longrightarrow>
      tp_entities (replayLog (filter (\<lambda>(n, ev). n \<notin> D) L @ B)) i = tp_entities (replayLog L) i"
proof -
  let ?R = "entRows i L" and ?K = "filter ((\<lambda>n. n \<notin> D) \<circ> fst) (entRows i L)"
  have after: "tp_entities (replayLog (filter (\<lambda>(n, ev). n \<notin> D) L @ B)) i =
      fold entStep (map snd (entRows i B)) (fold entStep (map snd ?K) None)"
    by (simp add: replayLog_entity entRows_filter [where P = "\<lambda>n. n \<notin> D"])
  have before: "tp_entities (replayLog L) i = fold entStep (map snd ?R) None" by (rule replayLog_entity)
  have "((fold entStep (map snd (entRows i B)) (fold entStep (map snd ?K) None) = None) = (fold entStep (map snd ?R) None = None)) \<and>
    (?R = [] \<or> ee_ChangeType (snd (last ?R)) \<noteq> EntityUnchanged \<longrightarrow>
      fold entStep (map snd (entRows i B)) (fold entStep (map snd ?K) None) = fold entStep (map snd ?R) None)"
  proof (cases "?R = []")
    case True
    with reasserts_entity(1) [OF rs] have "entRows i B = []" by blast
    with True show ?thesis by simp
  next
    case ne: False
    obtain n ee where last: "last ?R = (n, ee)" by fastforce
    have mem: "(n, ee) \<in> set ?R" using ne last by (metis last_in_set)
    have ct: "ee_ChangeType ee \<in> {EntityCreated, EntityDeleted, EntityIdentityChanged, EntityAttributeUpdated, EntityStateChanged, EntityUnchanged}"
      by (rule proper_rows(1) [OF p mem])
    have B: "\<forall>x \<in> set (map snd (entRows i B)). ee_ChangeType x = ee_ChangeType ee \<and> ee_Entity x = ee_Entity ee"
      using reasserts_entity(2) [OF rs, of i] unfolding last by simp
    show ?thesis
    proof (cases "ee_ChangeType ee = EntityDeleted")
      case True
      have "entRows i B = []" using reasserts_entity(1) [OF rs, of i] last True by simp
      moreover have "fold entStep (map snd ?R) None = None"
        using fold_last_entity(1) [of "map snd ?R"] ne last True by (simp add: last_map)
      moreover have "fold entStep (map snd ?K) None = None"
      proof (cases "n \<in> D")
        case False
        with last_filter [OF ne, of "(\<lambda>n. n \<notin> D) \<circ> fst"] last have "?K \<noteq> []" "last ?K = (n, ee)" by simp_all
        with fold_last_entity(1) [of "map snd ?K"] True show ?thesis by (simp add: last_map)
      next
        case nD: True
        obtain ev where ev: "(n, ev) \<in> set L" "ev_Entity ev = Some ee" using mem by (auto simp: set_entRows)
        then have rec: "ee_RecordedAt ee < cutoff" using sv nD by (force simp: survives_def recordedAtOf_def)
        have le: "m \<le> n" if "(m, x) \<in> set ?R" for m x
        proof -
          have "sorted_wrt (<) (map fst ?R)" by (rule sorted_rows(1) [OF srt])
          with that ne last show ?thesis by (cases ?R rule: rev_cases) (auto simp: sorted_wrt_append intro: less_imp_le)
        qed
        have "m \<in> D" if "(m, x) \<in> set ?R" for m x
        proof -
          have "ee_RecordedAt x \<le> ee_RecordedAt ee" using dl that mem le [OF that] True by (auto simp: deletes_last_def)
          then have "ee_RecordedAt x < cutoff" using rec by simp
          moreover have "\<forall>(m, x) \<in> set ?R. ee_RecordedAt x < cutoff \<longrightarrow> m \<in> D" using sv ne last True by (auto simp: survives_def)
          ultimately show ?thesis using that by blast
        qed
        then have "?K = []" by (auto simp: filter_empty_conv)
        then show ?thesis by simp
      qed
      ultimately show ?thesis by simp
    next
      case alive: False
      have "n \<notin> D" using sv ne last alive by (auto simp: survives_def)
      with last_filter [OF ne, of "(\<lambda>n. n \<notin> D) \<circ> fst"] last have K: "?K \<noteq> []" "last ?K = (n, ee)" by simp_all
      have lK: "last (map snd ?K) = ee" "last (map snd ?R) = ee" using K ne last by (simp_all add: last_map)
      show ?thesis
      proof (cases "ee_ChangeType ee = EntityUnchanged")
        case True
        have a: "fold entStep (map snd ?K) None \<noteq> None" using fold_last_entity(3) [of "map snd ?K"] K lK True by simp
        have b: "fold entStep (map snd ?R) None \<noteq> None" using fold_last_entity(3) [of "map snd ?R"] ne lK True by simp
        from reassert_entity [OF B a] True a b last ne show ?thesis by auto
      next
        case False
        with ct alive have put: "ee_ChangeType ee \<in> {EntityCreated, EntityIdentityChanged, EntityAttributeUpdated, EntityStateChanged}" by auto
        have a: "fold entStep (map snd ?K) None = Some (ee_Entity ee)" using fold_last_entity(2) [of "map snd ?K"] K lK put by simp
        have b: "fold entStep (map snd ?R) None = Some (ee_Entity ee)" using fold_last_entity(2) [of "map snd ?R"] ne lK put by simp
        have "fold entStep (map snd (entRows i B)) (Some (ee_Entity ee)) = Some (ee_Entity ee)"
          by (rule reassert_entity [OF B]) (use put in blast)+
        with a b show ?thesis by simp
      qed
    qed
  qed
  then show "(tp_entities (replayLog (filter (\<lambda>(n, ev). n \<notin> D) L @ B)) i = None) = (tp_entities (replayLog L) i = None)"
    and "?R = [] \<or> ee_ChangeType (snd (last ?R)) \<noteq> EntityUnchanged \<Longrightarrow>
      tp_entities (replayLog (filter (\<lambda>(n, ev). n \<notin> D) L @ B)) i = tp_entities (replayLog L) i"
    unfolding after before by blast+
qed

text \<open>
  The records of an entity are steady when their stamps are in order and every heartbeat carries the
  entity as it stood: the clock does not step back between them, and a heartbeat repeats the state
  of which it says that nothing changed.
\<close>

definition steady :: "EntityID \<Rightarrow> (64 word \<times> Event) list \<Rightarrow> bool" where
  "steady i L =
     (let es = map snd (entRows i L)
      in sorted (map ee_RecordedAt es) \<and>
         (\<forall>k < length es. ee_ChangeType (es ! k) = EntityUnchanged \<longrightarrow>
            fold entStep (take k es) None \<in> {None, Some (ee_Entity (es ! k))}))"

lemma sorted_suffix:
  assumes "sorted (map f xs)"
  shows "\<exists>P. xs = P @ filter (\<lambda>x. (c :: int) \<le> f x) xs"
  using assms
proof (induction xs)
  case (Cons x xs)
  show ?case
  proof (cases "c \<le> f x")
    case True
    then have "filter (\<lambda>x. c \<le> f x) (x # xs) = x # xs" using Cons.prems by (auto simp: filter_id_conv)
    then show ?thesis by simp
  next
    case False
    from Cons obtain P where "xs = P @ filter (\<lambda>x. c \<le> f x) xs" by auto
    then have "x # xs = (x # P) @ filter (\<lambda>x. c \<le> f x) (x # xs)" using False by simp
    then show ?thesis by blast
  qed
qed simp

text \<open>A suffix of steady records replays to what all of them do.\<close>

lemma steady_suffix:
  assumes "steady i L" and es: "map snd (entRows i L) = P @ x # S" and ct: "ee_ChangeType x \<in> {EntityCreated, EntityDeleted,
      EntityIdentityChanged, EntityAttributeUpdated, EntityStateChanged, EntityUnchanged}"
  shows "fold entStep (P @ x # S) None = fold entStep (x # S) None"
proof -
  have "ee_ChangeType x = EntityUnchanged \<longrightarrow> fold entStep P None \<in> {None, Some (ee_Entity x)}"
    using assms(1) unfolding steady_def Let_def es by (auto dest!: spec [of _ "length P"])
  then have "entStep x (fold entStep P None) = entStep x None" using ct by (auto simp: entStep_def)
  then show ?thesis by simp
qed

lemma pruned_steady:
  assumes srt: "sorted_wrt (<) (map fst L)" and p: "\<forall>n ev. (n, ev) \<in> set L \<longrightarrow> proper ev" and sv: "survives L cutoff D"
    and rs: "reasserts L B" and st: "steady i L" and ne: "entRows i L \<noteq> []"
    and hb: "ee_ChangeType (snd (last (entRows i L))) = EntityUnchanged"
  shows "tp_entities (replayLog (filter (\<lambda>(n, ev). n \<notin> D) L @ B)) i = tp_entities (replayLog L) i"
proof -
  let ?R = "entRows i L" and ?K = "filter ((\<lambda>n. n \<notin> D) \<circ> fst) (entRows i L)"
  obtain n ee where last: "last ?R = (n, ee)" by fastforce
  then have hb': "ee_ChangeType ee = EntityUnchanged" using hb by simp
  have nD: "n \<notin> D" using sv ne last hb' by (auto simp: survives_def)
  with last_filter [OF ne, of "(\<lambda>n. n \<notin> D) \<circ> fst"] last have K: "?K \<noteq> []" "last ?K = (n, ee)" by simp_all
  have kept: "cutoff \<le> ee_RecordedAt x \<or> x = ee" if "(m, x) \<in> set ?R" "m \<notin> D" for m x
  proof -
    from that(1) obtain ev where ev: "(m, ev) \<in> set L" "ev_Entity ev = Some x" "ent_ID (ee_Entity x) = i" by (auto simp: set_entRows)
    have "recordedAtOf ev < cutoff \<longrightarrow> current L ev" using sv ev(1) that(2) unfolding survives_def by blast
    then show ?thesis using ev last by (auto simp: current_def recordedAtOf_def)
  qed
  have young: "m \<notin> D" if "(m, x) \<in> set ?R" "cutoff \<le> ee_RecordedAt x" for m x
  proof -
    from that(1) obtain ev where ev: "(m, ev) \<in> set L" "ev_Entity ev = Some x" by (auto simp: set_entRows)
    then have "recordedAtOf ev = ee_RecordedAt x" by (simp add: recordedAtOf_def)
    with sv ev(1) that(2) show ?thesis unfolding survives_def by force
  qed
  have so: "sorted (map (\<lambda>r. ee_RecordedAt (snd r)) ?R)" using st by (simp add: steady_def Let_def comp_def)
  have ct: "ee_ChangeType x \<in> {EntityCreated, EntityDeleted, EntityIdentityChanged, EntityAttributeUpdated, EntityStateChanged, EntityUnchanged}"
    if "x \<in> set (map snd ?R)" for x using proper_rows(1) [OF p] that by fastforce
  have KR: "fold entStep (map snd ?K) None = fold entStep (map snd ?R) None"
  proof (cases "cutoff \<le> ee_RecordedAt ee")
    case True
    have "?K = filter (\<lambda>r. cutoff \<le> ee_RecordedAt (snd r)) ?R" using kept young True by (force intro!: filter_cong)
    with sorted_suffix [OF so, of cutoff] obtain P where P: "?R = P @ ?K" by metis
    obtain r S where rS: "?K = r # S" using K(1) by (cases ?K) auto
    have R: "map snd ?R = map snd P @ snd r # map snd S" using P rS by (metis list.simps(9) map_append)
    then have "snd r \<in> set (map snd ?R)" by simp
    from steady_suffix [OF st R ct [OF this]] show ?thesis unfolding R rS by simp
  next
    case False
    have "?R = butlast ?R @ [(n, ee)]" using append_butlast_last_id [OF ne] last by simp
    then have R: "map snd ?R = map snd (butlast ?R) @ ee # []" by (rule ssubst [of _ _ "\<lambda>xs. map snd xs = _"]) simp
    then have eR: "ee \<in> set (map snd ?R)" by simp
    have "x = ee" if "(m, x) \<in> set ?K" for m x
    proof (rule ccontr)
      assume "x \<noteq> ee"
      with kept that have x: "cutoff \<le> ee_RecordedAt x" "(m, x) \<in> set ?R" by auto
      moreover have "ee_RecordedAt x \<le> ee_RecordedAt ee"
        using so x(2) ne last by (cases ?R rule: rev_cases) (auto simp: sorted_append)
      ultimately show False using False by simp
    qed
    then have all: "map snd ?K = replicate (length ?K) ee" by (intro replicate_eqI) auto
    have rep: "fold entStep (replicate (Suc k) ee) None = Some (ee_Entity ee)" for k
      using reassert_entity [of "replicate k ee" ee "Some (ee_Entity ee)"] hb' by (simp add: entStep_def)
    obtain k where "length ?K = Suc k" using K(1) by (cases ?K) auto
    then have "fold entStep (map snd ?K) None = Some (ee_Entity ee)" unfolding all using rep by simp
    moreover have "fold entStep (map snd ?R) None = Some (ee_Entity ee)"
      using steady_suffix [OF st R ct [OF eR]] hb' unfolding R by (simp add: entStep_def)
    ultimately show ?thesis by simp
  qed
  have B: "\<forall>x \<in> set (map snd (entRows i B)). ee_ChangeType x = ee_ChangeType ee \<and> ee_Entity x = ee_Entity ee"
    using reasserts_entity(2) [OF rs, of i] unfolding last by simp
  have a: "fold entStep (map snd ?K) None \<noteq> None" using fold_last_entity(3) [of "map snd ?K"] K hb' by (simp add: last_map)
  show ?thesis
    using reassert_entity [OF B a] hb' KR by (simp add: replayLog_entity entRows_filter [where P = "\<lambda>n. n \<notin> D"])
qed

text \<open>A record repeats another when it says the same of the same entity or relation.\<close>

definition repeats :: "Event \<Rightarrow> Event \<Rightarrow> bool" where
  "repeats ev old =
     (changeOf ev = changeOf old \<and> map_option ee_Entity (ev_Entity ev) = map_option ee_Entity (ev_Entity old) \<and>
      (ev_Entity old = None \<longrightarrow> map_option re_Relation (ev_Relation ev) = map_option re_Relation (ev_Relation old)))"

lemma reasserts_repeats:
  assumes rs: "reasserts L B" and p: "proper ev" and m: "(n, ev) \<in> set B"
  shows "\<exists>m old. (m, old) \<in> set L \<and> current L old \<and> repeats ev old"
proof (cases "ev_Entity ev")
  case (Some ee)
  let ?i = "ent_ID (ee_Entity ee)"
  have "(n, ee) \<in> set (entRows ?i B)" using m Some by (auto simp: set_entRows)
  then have H: "entRows ?i L \<noteq> []" "ee_ChangeType (snd (last (entRows ?i L))) \<noteq> EntityDeleted"
      "ee_ChangeType ee = ee_ChangeType (snd (last (entRows ?i L)))" "ee_Entity ee = ee_Entity (snd (last (entRows ?i L)))"
    using rs unfolding reasserts_def by blast+
  obtain k x where x: "last (entRows ?i L) = (k, x)" by fastforce
  then have "(k, x) \<in> set (entRows ?i L)" using last_in_set [OF H(1)] by simp
  then obtain old where old: "(k, old) \<in> set L" "ev_Entity old = Some x" by (auto simp: set_entRows)
  have "current L old" using old H x by (auto simp: current_def)
  moreover have "repeats ev old" using old Some H x by (simp add: repeats_def changeOf_def)
  ultimately show ?thesis using old by blast
next
  case None
  then obtain re where re: "ev_Relation ev = Some re" using p by (auto simp: proper_def split: option.splits)
  let ?i = "rel_ID (re_Relation re)"
  have "(n, re) \<in> set (relRows ?i B)" using m None re by (auto simp: set_relRows)
  then have H: "relRows ?i L \<noteq> []" "re_ChangeType (snd (last (relRows ?i L))) \<noteq> RelationRemoved"
      "re_ChangeType re = re_ChangeType (snd (last (relRows ?i L)))" "re_Relation re = re_Relation (snd (last (relRows ?i L)))"
    using rs unfolding reasserts_def by blast+
  obtain k x where x: "last (relRows ?i L) = (k, x)" by fastforce
  then have "(k, x) \<in> set (relRows ?i L)" using last_in_set [OF H(1)] by simp
  then obtain old where old: "(k, old) \<in> set L" "ev_Entity old = None" "ev_Relation old = Some x" by (auto simp: set_relRows)
  have "current L old" using old H x by (auto simp: current_def)
  moreover have "repeats ev old" using old None re H x by (simp add: repeats_def changeOf_def)
  ultimately show ?thesis using old by blast
qed

lemma pruned_relation:
  assumes srt: "sorted_wrt (<) (map fst L)" and p: "\<forall>n ev. (n, ev) \<in> set L \<longrightarrow> proper ev" and dl: "deletes_last L"
    and sv: "survives L cutoff D" and rs: "reasserts L B"
  shows "tp_relations (replayLog (filter (\<lambda>(n, ev). n \<notin> D) L @ B)) i = tp_relations (replayLog L) i"
proof -
  let ?R = "relRows i L" and ?K = "filter ((\<lambda>n. n \<notin> D) \<circ> fst) (relRows i L)"
  have after: "tp_relations (replayLog (filter (\<lambda>(n, ev). n \<notin> D) L @ B)) i =
      fold relStep (map snd (relRows i B)) (fold relStep (map snd ?K) None)"
    by (simp add: replayLog_relation relRows_filter [where P = "\<lambda>n. n \<notin> D"])
  have before: "tp_relations (replayLog L) i = fold relStep (map snd ?R) None" by (rule replayLog_relation)
  have "fold relStep (map snd (relRows i B)) (fold relStep (map snd ?K) None) = fold relStep (map snd ?R) None"
  proof (cases "?R = []")
    case True
    with reasserts_relation(1) [OF rs] have "relRows i B = []" by blast
    with True show ?thesis by simp
  next
    case ne: False
    obtain n re where last: "last ?R = (n, re)" by fastforce
    have mem: "(n, re) \<in> set ?R" using ne last by (metis last_in_set)
    have ct: "re_ChangeType re \<in> {RelationAdded, RelationRemoved, RelationAttributeChanged}"
      by (rule proper_rows(2) [OF p mem])
    have B: "\<forall>x \<in> set (map snd (relRows i B)). re_ChangeType x = re_ChangeType re \<and> re_Relation x = re_Relation re"
      using reasserts_relation(2) [OF rs, of i] unfolding last by simp
    show ?thesis
    proof (cases "re_ChangeType re = RelationRemoved")
      case True
      have "relRows i B = []" using reasserts_relation(1) [OF rs, of i] last True by simp
      moreover have "fold relStep (map snd ?R) None = None"
        using fold_last_relation(1) [of "map snd ?R"] ne last True by (simp add: last_map)
      moreover have "fold relStep (map snd ?K) None = None"
      proof (cases "n \<in> D")
        case False
        with last_filter [OF ne, of "(\<lambda>n. n \<notin> D) \<circ> fst"] last have "?K \<noteq> []" "last ?K = (n, re)" by simp_all
        with fold_last_relation(1) [of "map snd ?K"] True show ?thesis by (simp add: last_map)
      next
        case nD: True
        obtain ev where ev: "(n, ev) \<in> set L" "ev_Entity ev = None" "ev_Relation ev = Some re" using mem by (auto simp: set_relRows)
        then have rec: "re_RecordedAt re < cutoff" using sv nD by (force simp: survives_def recordedAtOf_def)
        have le: "m \<le> n" if "(m, x) \<in> set ?R" for m x
        proof -
          have "sorted_wrt (<) (map fst ?R)" by (rule sorted_rows(2) [OF srt])
          with that ne last show ?thesis by (cases ?R rule: rev_cases) (auto simp: sorted_wrt_append intro: less_imp_le)
        qed
        have "m \<in> D" if "(m, x) \<in> set ?R" for m x
        proof -
          have "re_RecordedAt x \<le> re_RecordedAt re" using dl that mem le [OF that] True by (auto simp: deletes_last_def)
          then have "re_RecordedAt x < cutoff" using rec by simp
          moreover have "\<forall>(m, x) \<in> set ?R. re_RecordedAt x < cutoff \<longrightarrow> m \<in> D" using sv ne last True by (auto simp: survives_def)
          ultimately show ?thesis using that by blast
        qed
        then have "?K = []" by (auto simp: filter_empty_conv)
        then show ?thesis by simp
      qed
      ultimately show ?thesis by simp
    next
      case alive: False
      have "n \<notin> D" using sv ne last alive by (auto simp: survives_def)
      with last_filter [OF ne, of "(\<lambda>n. n \<notin> D) \<circ> fst"] last have K: "?K \<noteq> []" "last ?K = (n, re)" by simp_all
      have lK: "last (map snd ?K) = re" "last (map snd ?R) = re" using K ne last by (simp_all add: last_map)
      have put: "re_ChangeType re \<in> {RelationAdded, RelationAttributeChanged}" using ct alive by auto
      have a: "fold relStep (map snd ?K) None = Some (re_Relation re)" using fold_last_relation(2) [of "map snd ?K"] K lK put by simp
      have b: "fold relStep (map snd ?R) None = Some (re_Relation re)" using fold_last_relation(2) [of "map snd ?R"] ne lK put by simp
      from reassert_relation [OF B put, of "Some (re_Relation re)"] a b show ?thesis by simp
    qed
  qed
  then show ?thesis unfolding after before .
qed

section \<open>The plan\<close>

lemma row_event:
  assumes "distinct (map fst L)" and "(n, ee) \<in> set (entRows i L)" and "(n, ev) \<in> set L"
  shows "ev_Entity ev = Some ee" and "ent_ID (ee_Entity ee) = i"
proof -
  obtain ev' where "(n, ev') \<in> set L" "ev_Entity ev' = Some ee" "ent_ID (ee_Entity ee) = i" using assms(2) by (auto simp: set_entRows)
  moreover from this(1) assms have "ev' = ev" using eq_key_imp_eq_value by metis
  ultimately show "ev_Entity ev = Some ee" "ent_ID (ee_Entity ee) = i" by simp_all
qed

lemma row_relation:
  assumes "distinct (map fst L)" and "(n, re) \<in> set (relRows i L)" and "(n, ev) \<in> set L"
  shows "ev_Entity ev = None" and "ev_Relation ev = Some re" and "rel_ID (re_Relation re) = i"
proof -
  obtain ev' where "(n, ev') \<in> set L" "ev_Entity ev' = None" "ev_Relation ev' = Some re" "rel_ID (re_Relation re) = i"
    using assms(2) by (auto simp: set_relRows)
  moreover from this(1) assms have "ev' = ev" using eq_key_imp_eq_value by metis
  ultimately show "ev_Entity ev = None" "ev_Relation ev = Some re" "rel_ID (re_Relation re) = i" by simp_all
qed

lemma kept_entity:
  assumes d: "distinct (map fst L)" and g: "gdistinct el" "gdistinct rl" and e: "\<forall>i. lastEnt L i (map_of el i)" and r: "\<forall>i. lastRel L i (map_of rl i)"
    and row: "(n, ee) \<in> set (entRows i L)"
  shows "ghas (keepSet el rl) n \<longleftrightarrow> last (entRows i L) = (n, ee) \<and> ee_ChangeType ee \<noteq> EntityDeleted"
proof
  obtain ev where ev: "(n, ev) \<in> set L" using row by (auto simp: set_entRows)
  note E = row_event [OF d row ev]
  assume "ghas (keepSet el rl) n"
  then obtain j l where jl: "(j, l) \<in> set el \<or> (j, l) \<in> set rl" "la_alive l" "la_seq l = n" by (auto simp: keepSet_iff; blast)
  show "last (entRows i L) = (n, ee) \<and> ee_ChangeType ee \<noteq> EntityDeleted"
  proof (cases "(j, l) \<in> set el")
    case True
    then have "map_of el j = Some l" using g(1) by (simp add: gdistinct_in_set_iff)
    with e obtain ee' where l: "entRows j L \<noteq> []" "last (entRows j L) = (n, ee')" "la_alive l = (ee_ChangeType ee' \<noteq> EntityDeleted)"
      using jl(3) by (force simp: lastEnt_def split: option.splits)
    then have "(n, ee') \<in> set (entRows j L)" by (metis last_in_set)
    from row_event [OF d this ev] E have "ee' = ee" "j = i" by auto
    with l jl(2) show ?thesis by simp
  next
    case False
    then have "map_of rl j = Some l" using jl(1) g(2) by (simp add: gdistinct_in_set_iff)
    with r have "ev_Entity (la_ev l) = None" "(n, la_ev l) \<in> set L" using jl(3) by (force simp: lastRel_def split: option.splits)+
    moreover from this(2) ev d have "la_ev l = ev" using eq_key_imp_eq_value by metis
    ultimately show ?thesis using E by simp
  qed
next
  assume a: "last (entRows i L) = (n, ee) \<and> ee_ChangeType ee \<noteq> EntityDeleted"
  have ne: "entRows i L \<noteq> []" using row by auto
  have le: "lastEnt L i (map_of el i)" using e by blast
  obtain l where l: "map_of el i = Some l" using le ne by (cases "map_of el i") (simp_all add: lastEnt_def)
  from le [unfolded l lastEnt_def] a have "la_alive l" "la_seq l = n" by auto
  with map_of_SomeD [OF l] show "ghas (keepSet el rl) n" unfolding keepSet_iff by force
qed

lemma kept_relation:
  assumes d: "distinct (map fst L)" and g: "gdistinct el" "gdistinct rl" and e: "\<forall>i. lastEnt L i (map_of el i)" and r: "\<forall>i. lastRel L i (map_of rl i)"
    and row: "(n, re) \<in> set (relRows i L)"
  shows "ghas (keepSet el rl) n \<longleftrightarrow> last (relRows i L) = (n, re) \<and> re_ChangeType re \<noteq> RelationRemoved"
proof
  obtain ev where ev: "(n, ev) \<in> set L" using row by (auto simp: set_relRows)
  note E = row_relation [OF d row ev]
  assume "ghas (keepSet el rl) n"
  then obtain j l where jl: "(j, l) \<in> set rl \<or> (j, l) \<in> set el" "la_alive l" "la_seq l = n" by (auto simp: keepSet_iff; blast)
  show "last (relRows i L) = (n, re) \<and> re_ChangeType re \<noteq> RelationRemoved"
  proof (cases "(j, l) \<in> set rl")
    case True
    then have "map_of rl j = Some l" using g(2) by (simp add: gdistinct_in_set_iff)
    with r obtain re' where l: "relRows j L \<noteq> []" "last (relRows j L) = (n, re')" "la_alive l = (re_ChangeType re' \<noteq> RelationRemoved)"
      using jl(3) by (force simp: lastRel_def split: option.splits)
    then have "(n, re') \<in> set (relRows j L)" by (metis last_in_set)
    from row_relation [OF d this ev] E have "re' = re" "j = i" by auto
    with l jl(2) show ?thesis by simp
  next
    case False
    then have "map_of el j = Some l" using jl(1) g(1) by (simp add: gdistinct_in_set_iff)
    with e have "ev_Entity (la_ev l) \<noteq> None" "(n, la_ev l) \<in> set L" using jl(3) by (force simp: lastEnt_def split: option.splits)+
    moreover from this(2) ev d have "la_ev l = ev" using eq_key_imp_eq_value by metis
    ultimately show ?thesis using E by simp
  qed
next
  assume a: "last (relRows i L) = (n, re) \<and> re_ChangeType re \<noteq> RelationRemoved"
  have ne: "relRows i L \<noteq> []" using row by auto
  have le: "lastRel L i (map_of rl i)" using r by blast
  obtain l where l: "map_of rl i = Some l" using le ne by (cases "map_of rl i") (simp_all add: lastRel_def)
  from le [unfolded l lastRel_def] a have "la_alive l" "la_seq l = n" by auto
  with map_of_SomeD [OF l] show "ghas (keepSet el rl) n" unfolding keepSet_iff by force
qed

definition prunedSeqs :: "time \<Rightarrow> 64 word goset \<Rightarrow> (64 word \<times> Event) list \<Rightarrow> 64 word set" where
  "prunedSeqs cutoff keep L = fst ` set (filter (prunable cutoff keep) L)"

lemma prunedSeqs_iff:
  assumes "distinct (map fst L)" and "(n, ev) \<in> set L"
  shows "n \<in> prunedSeqs cutoff keep L \<longleftrightarrow> \<not> ghas keep n \<and> recordedAtOf ev < cutoff"
proof -
  have "n \<in> prunedSeqs cutoff keep L \<longleftrightarrow> (\<exists>ev'. (n, ev') \<in> set L \<and> prunable cutoff keep (n, ev'))"
    by (force simp: prunedSeqs_def)
  also have "\<dots> \<longleftrightarrow> prunable cutoff keep (n, ev)" using assms eq_key_imp_eq_value by metis
  finally show ?thesis by (simp add: prunable_def)
qed

lemma last_current:
  assumes e: "\<forall>i. lastEnt L i (map_of el i)" and r: "\<forall>i. lastRel L i (map_of rl i)" and g: "gdistinct el" "gdistinct rl"
    and l: "l \<in> snd ` set el \<union> snd ` set rl" "la_alive l"
  shows "current L (la_ev l) \<and> (la_seq l, la_ev l) \<in> set L"
proof -
  have last_in: "xs \<noteq> [] \<Longrightarrow> last xs = x \<Longrightarrow> x \<in> set xs" for xs :: "'x list" and x by (metis last_in_set)
  consider (ent) j where "map_of el j = Some l" | (rel) j where "map_of rl j = Some l"
    using l(1) g by (auto simp: gdistinct_in_set_iff)
  then show ?thesis
  proof cases
    case ent
    with e obtain ee where "entRows j L \<noteq> []" "last (entRows j L) = (la_seq l, ee)" "la_alive l = (ee_ChangeType ee \<noteq> EntityDeleted)"
      "ev_Entity (la_ev l) = Some ee" "(la_seq l, la_ev l) \<in> set L" by (force simp: lastEnt_def split: option.splits)
    moreover from last_in [OF this(1,2)] have "ent_ID (ee_Entity ee) = j" by (simp add: set_entRows)
    ultimately show ?thesis using l(2) by (auto simp: current_def)
  next
    case rel
    with r obtain re where "relRows j L \<noteq> []" "last (relRows j L) = (la_seq l, re)" "la_alive l = (re_ChangeType re \<noteq> RelationRemoved)"
      "ev_Entity (la_ev l) = None" "ev_Relation (la_ev l) = Some re" "(la_seq l, la_ev l) \<in> set L" by (force simp: lastRel_def split: option.splits)
    moreover from last_in [OF this(1,2)] have "rel_ID (re_Relation re) = j" by (simp add: set_relRows)
    ultimately show ?thesis using l(2) by (auto simp: current_def)
  qed
qed

lemma survives_plan:
  assumes d: "distinct (map fst L)" and g: "gdistinct el" "gdistinct rl" and e: "\<forall>i. lastEnt L i (map_of el i)" and r: "\<forall>i. lastRel L i (map_of rl i)"
  shows "survives L cutoff (prunedSeqs cutoff (keepSet el rl) L)"
  unfolding survives_def
proof (intro conjI allI impI)
  let ?D = "prunedSeqs cutoff (keepSet el rl) L"
  show "recordedAtOf ev < cutoff" if "(n, ev) \<in> set L" "n \<in> ?D" for n ev using prunedSeqs_iff [OF d that(1)] that(2) by blast
  show "n \<in> ?D \<or> current L ev" if ev: "(n, ev) \<in> set L" "recordedAtOf ev < cutoff" for n ev
  proof (cases "ghas (keepSet el rl) n")
    case True
    then obtain l where "l \<in> snd ` set el \<union> snd ` set rl" "la_alive l" "la_seq l = n" by (auto simp: keepSet_iff)
    with last_current [OF e r g, of l] have "current L (la_ev l)" "(n, la_ev l) \<in> set L" by auto
    moreover from this(2) ev(1) d have "la_ev l = ev" using eq_key_imp_eq_value by metis
    ultimately show ?thesis by simp
  qed (use prunedSeqs_iff [OF d ev(1)] ev(2) in blast)
  show "if ee_ChangeType (snd (last (entRows i L))) = EntityDeleted then \<forall>(n, ee) \<in> set (entRows i L). ee_RecordedAt ee < cutoff \<longrightarrow> n \<in> ?D
      else fst (last (entRows i L)) \<notin> ?D" if ne: "entRows i L \<noteq> []" for i
  proof -
    have D: "n \<in> ?D \<longleftrightarrow> \<not> (last (entRows i L) = (n, ee) \<and> ee_ChangeType ee \<noteq> EntityDeleted) \<and> ee_RecordedAt ee < cutoff"
      if row: "(n, ee) \<in> set (entRows i L)" for n ee
    proof -
      obtain ev where ev: "(n, ev) \<in> set L" "ev_Entity ev = Some ee" using row by (auto simp: set_entRows)
      from prunedSeqs_iff [OF d ev(1)] kept_entity [OF d g e r row] ev(2) show ?thesis by (simp add: recordedAtOf_def)
    qed
    show ?thesis
    proof (cases "ee_ChangeType (snd (last (entRows i L))) = EntityDeleted")
      case True
      then show ?thesis using D by auto
    next
      case False
      have "(fst (last (entRows i L)), snd (last (entRows i L))) \<in> set (entRows i L)" using ne by simp
      from D [OF this] False show ?thesis by simp
    qed
  qed
  show "if re_ChangeType (snd (last (relRows i L))) = RelationRemoved then \<forall>(n, re) \<in> set (relRows i L). re_RecordedAt re < cutoff \<longrightarrow> n \<in> ?D
      else fst (last (relRows i L)) \<notin> ?D" if ne: "relRows i L \<noteq> []" for i
  proof -
    have D: "n \<in> ?D \<longleftrightarrow> \<not> (last (relRows i L) = (n, re) \<and> re_ChangeType re \<noteq> RelationRemoved) \<and> re_RecordedAt re < cutoff"
      if row: "(n, re) \<in> set (relRows i L)" for n re
    proof -
      obtain ev where ev: "(n, ev) \<in> set L" "ev_Entity ev = None" "ev_Relation ev = Some re" using row by (auto simp: set_relRows)
      from prunedSeqs_iff [OF d ev(1)] kept_relation [OF d g e r row] ev(2,3) show ?thesis by (simp add: recordedAtOf_def)
    qed
    show ?thesis
    proof (cases "re_ChangeType (snd (last (relRows i L))) = RelationRemoved")
      case True
      then show ?thesis using D by auto
    next
      case False
      have "(fst (last (relRows i L)), snd (last (relRows i L))) \<in> set (relRows i L)" using ne by simp
      from D [OF this] False show ?thesis by simp
    qed
  qed
qed

section \<open>Baselines\<close>

lemma wire_baseline:
  assumes "wire_event ev" and "proper ev" and "wire_time cutoff"
  shows "wire_event (stampCommit c (baselineEvent i ev cutoff))"
  using assms
  by (auto simp: wire_event_def baselineEvent_def proper_def stampCommit_def entityEvent_def relationEv_def wire_entityEvent_def
      wire_relationEvent_def split: option.splits)

lemma set_numbered: "(n, ev) \<in> set (numbered l evs) \<Longrightarrow> ev \<in> set evs"
  by (induction evs arbitrary: l) auto

lemma reasserts_baselines:
  assumes cur: "\<forall>ev \<in> set evs. current L ev"
    and B: "\<forall>(n, b) \<in> set B. \<exists>ev \<in> set evs. \<exists>i c. b = stampCommit c (baselineEvent i ev cutoff)"
  shows "reasserts L B"
proof -
  have b: "\<exists>ev \<in> set evs. \<exists>i c. b = stampCommit c (baselineEvent i ev cutoff)" if "(n, b) \<in> set B" for n b using B that by blast
  show ?thesis
    unfolding reasserts_def
  proof (intro conjI allI ballI)
    fix i x assume x: "x \<in> set (entRows i B)"
    obtain n ee where xe: "x = (n, ee)" by (cases x)
    with x obtain b' where "(n, b') \<in> set B" "ev_Entity b' = Some ee" "ent_ID (ee_Entity ee) = i" by (auto simp: set_entRows)
    moreover from b [OF this(1)] obtain ev j c where "ev \<in> set evs" "b' = stampCommit c (baselineEvent j ev cutoff)" by blast
    moreover from this(1) cur have "current L ev" by blast
    ultimately show "case x of (n, ee) \<Rightarrow> entRows i L \<noteq> [] \<and> ee_ChangeType (snd (last (entRows i L))) \<noteq> EntityDeleted \<and>
        ee_ChangeType ee = ee_ChangeType (snd (last (entRows i L))) \<and> ee_Entity ee = ee_Entity (snd (last (entRows i L)))"
      unfolding xe by (auto simp: current_def baselineEvent_def stampCommit_def split: option.splits)
  next
    fix i x assume x: "x \<in> set (relRows i B)"
    obtain n re where xe: "x = (n, re)" by (cases x)
    with x obtain b' where "(n, b') \<in> set B" "ev_Entity b' = None" "ev_Relation b' = Some re" "rel_ID (re_Relation re) = i" by (auto simp: set_relRows)
    moreover from b [OF this(1)] obtain ev j c where "ev \<in> set evs" "b' = stampCommit c (baselineEvent j ev cutoff)" by blast
    moreover from this(1) cur have "current L ev" by blast
    ultimately show "case x of (n, re) \<Rightarrow> relRows i L \<noteq> [] \<and> re_ChangeType (snd (last (relRows i L))) \<noteq> RelationRemoved \<and>
        re_ChangeType re = re_ChangeType (snd (last (relRows i L))) \<and> re_Relation re = re_Relation (snd (last (relRows i L)))"
      unfolding xe by (auto simp: current_def baselineEvent_def stampCommit_def split: option.splits)
  qed
qed

section \<open>The whole operation\<close>

text \<open>The store holds the log \<open>L\<close> of well-formed records.\<close>

definition stored :: "proto \<Rightarrow> (string \<rightharpoonup> string) \<Rightarrow> 64 word \<Rightarrow> (64 word \<times> Event) list \<Rightarrow> bool" where
  "stored pm C seq L =
     (logged pm C L \<and> indexed C L \<and> sequenced C seq L \<and> (\<forall>n ev. (n, ev) \<in> set L \<longrightarrow> wire_event ev \<and> proper ev))"

context log_laws
begin

lemma plan_log:
  assumes L: "logged pm (contents d) L" and p: "planPrune pb pm cutoff d = Inr plan"
  obtains D where "survives L cutoff D" and "\<forall>ev \<in> set (pp_survivors plan). current L ev"
    and "\<forall>C. kvApply (pp_deletes plan) C = (\<lambda>k. if k \<in> {k. \<exists>(n, ev) \<in> set L. n \<in> D \<and> k \<in> set (eventKeys ev n)} then None else C k)"
    and "pp_events plan = 0 \<longleftrightarrow> D = {}" and "D \<subseteq> fst ` set L"
proof -
  have d: "distinct (map fst L)" using L strict_sorted_iff by (auto simp: logged_def)
  from p obtain el rl events bytes batch where
    one: "snapshotScan pb pm (noteLast (unixNano cutoff)) d ([], []) = Inr (el, rl)"
    and two: "snapshotScan pb pm (notePruned cutoff (keepSet el rl)) d (0, 0, []) = Inr (events, bytes, batch)"
    and plan: "pp_events plan = events" "pp_deletes plan = batch"
      "pp_survivors plan = map la_ev (filter (needsBaseline (unixNano cutoff)) (map snd el @ map snd rl))"
    by (auto simp: planPrune_def Let_def split: sum.splits)
  let ?keep = "keepSet el rl"
  let ?D = "prunedSeqs cutoff ?keep L"
  have N: "gdistinct el \<and> gdistinct rl \<and> (\<forall>i. lastEnt L i (map_of el i)) \<and> (\<forall>i. lastRel L i (map_of rl i))"
    by (rule noteLast_log [OF snapshotScan_log [OF L one]])
  have P: "events = length (filter (prunable cutoff ?keep) L)"
      "batch = concat (map (\<lambda>(n, ev). map KvDelete (eventKeys ev n)) (filter (prunable cutoff ?keep) L))"
    using notePruned_log [OF snapshotScan_log [OF L two]] by simp_all
  have del: "batch = map KvDelete (concat (map (\<lambda>(n, ev). eventKeys ev n) (filter (prunable cutoff ?keep) L)))"
    by (simp add: P map_concat comp_def case_prod_beta')
  have K: "set (concat (map (\<lambda>(n, ev). eventKeys ev n) (filter (prunable cutoff ?keep) L))) =
      {k. \<exists>(n, ev) \<in> set L. n \<in> ?D \<and> k \<in> set (eventKeys ev n)}"
  proof -
    have "n \<in> ?D \<longleftrightarrow> prunable cutoff ?keep (n, ev)" if "(n, ev) \<in> set L" for n ev
      using prunedSeqs_iff [OF d that] by (simp add: prunable_def)
    then show ?thesis by fastforce
  qed
  show thesis
  proof (rule that [of ?D])
    show "survives L cutoff ?D" by (rule survives_plan) (use d N in simp_all)
    show "\<forall>ev \<in> set (pp_survivors plan). current L ev"
    proof
      fix ev assume "ev \<in> set (pp_survivors plan)"
      then obtain l where "l \<in> snd ` set el \<union> snd ` set rl" "la_alive l" "ev = la_ev l" by (auto simp: plan needsBaseline_def)
      with last_current [of L el rl l] N show "current L ev" by simp
    qed
    show "\<forall>C. kvApply (pp_deletes plan) C = (\<lambda>k. if k \<in> {k. \<exists>(n, ev) \<in> set L. n \<in> ?D \<and> k \<in> set (eventKeys ev n)} then None else C k)"
      unfolding plan(2) del kvApply_deletes K by blast
    show "pp_events plan = 0 \<longleftrightarrow> ?D = {}" by (simp add: plan P prunedSeqs_def del: set_filter)
    show "?D \<subseteq> fst ` set L" by (auto simp: prunedSeqs_def)
  qed
qed

lemma append_stored:
  assumes a: "Append pb pm evs s = (s', None)" and L: "stored pm (contents (s_db s)) (s_seq s) L"
    and room: "unat (s_seq s) + length evs < 2 ^ 64" and ok: "\<forall>ev \<in> set evs. wire_event (stampCommit (s_seq s + 1) ev) \<and> proper ev"
  shows "stored pm (contents (s_db s')) (s_seq s') (L @ numbered (s_seq s) (map (stampCommit (s_seq s + 1)) evs))"
proof -
  have same: "map (onWire \<circ> stampCommit (s_seq s + 1)) evs = map (stampCommit (s_seq s + 1)) evs" using ok by (simp add: onWire_same)
  have pr: "proper (stampCommit c ev) = proper ev" for c ev by (simp add: proper_def stampCommit_def split: option.splits)
  have "logged pm (contents (s_db s)) L" "indexed (contents (s_db s)) L" "sequenced (contents (s_db s)) (s_seq s) L" using L by (simp_all add: stored_def)
  note A = append_log [OF a this(1,3) room, unfolded same] append_index [OF a this(2,3) room]
  have "wire_event ev \<and> proper ev" if "(n, ev) \<in> set (L @ numbered (s_seq s) (map (stampCommit (s_seq s + 1)) evs))" for n ev
  proof (cases "(n, ev) \<in> set L")
    case True
    then show ?thesis using L by (auto simp: stored_def)
  next
    case False
    with that have "ev \<in> set (map (stampCommit (s_seq s + 1)) evs)" by (auto dest: set_numbered)
    with ok pr show ?thesis by auto
  qed
  with A show ?thesis unfolding stored_def by blast
qed

lemma prune_log:
  assumes pr: "PruneOlderThan pb pm newID cutoff s = (s', Inr r)" and L: "stored pm (contents (s_db s)) (s_seq s) L" and w: "wire_time cutoff"
    and room: "\<And>plan. planPrune pb pm cutoff (s_db s) = Inr plan \<Longrightarrow> unat (s_seq s) + length (pp_survivors plan) < 2 ^ 64"
  obtains D B where "stored pm (contents (s_db s')) (s_seq s') (filter (\<lambda>(n, ev). n \<notin> D) L @ B)"
    and "survives L cutoff D" and "reasserts L B" and "fst ` set B \<inter> fst ` set L = {}"
proof -
  have lg: "logged pm (contents (s_db s)) L" and wp: "\<And>n ev. (n, ev) \<in> set L \<Longrightarrow> wire_event ev \<and> proper ev"
    using L by (auto simp: stored_def)
  obtain plan where plan: "planPrune pb pm cutoff (s_db s) = Inr plan" and ap: "applyPrune pb pm newID cutoff plan s = (s', Inr r)"
    using pr by (auto simp: PruneOlderThan_def split: sum.splits)
  obtain D where sv: "survives L cutoff D" and cur: "\<forall>ev \<in> set (pp_survivors plan). current L ev"
    and del: "\<forall>C. kvApply (pp_deletes plan) C = (\<lambda>k. if k \<in> {k. \<exists>(n, ev) \<in> set L. n \<in> D \<and> k \<in> set (eventKeys ev n)} then None else C k)"
    and z: "pp_events plan = 0 \<longleftrightarrow> D = {}" and sub: "D \<subseteq> fst ` set L" by (rule plan_log [OF lg plan])
  let ?K = "{k. \<exists>(n, ev) \<in> set L. n \<in> D \<and> k \<in> set (eventKeys ev n)}"
  show thesis
  proof (cases "pp_events plan = 0")
    case True
    then have "s' = s" "D = {}" using ap z by (simp_all add: applyPrune_def)
    with L sv show thesis by (intro that [of "{}" "[]"]) (simp_all add: reasserts_def)
  next
    case False
    let ?bs = "map (\<lambda>(n, ev). baselineEvent (newID n) ev cutoff) (enumerate 0 (pp_survivors plan))"
    obtain s1 d where a: "Append pb pm ?bs s = (s1, None)"
      and c: "pb_commit pb (s_db s1) (pp_deletes plan @ [KvSet metaPruneHorizonKey (encodeU64 (of_int (unixNano cutoff)))]) = Inr d"
      and s': "s_db s' = d" "s_seq s' = s_seq s1"
      using ap False by (auto simp: applyPrune_def Let_def split: prod.splits option.splits sum.splits)
    let ?B = "numbered (s_seq s) (map (stampCommit (s_seq s + 1)) ?bs)"
    have bs: "b \<in> set ?bs \<Longrightarrow> \<exists>ev \<in> set (pp_survivors plan). \<exists>i. b = baselineEvent i ev cutoff" for b
      by (auto simp: enumerate_eq_zip dest!: set_zip_rightD)
    have okb: "wire_event (stampCommit (s_seq s + 1) b) \<and> proper b" if b: "b \<in> set ?bs" for b
    proof -
      obtain ev i where ev: "ev \<in> set (pp_survivors plan)" and be: "b = baselineEvent i ev cutoff" using bs [OF b] by blast
      then obtain n where "(n, ev) \<in> set L" using cur by (auto simp: current_def)
      then have "wire_event ev" "proper ev" using wp by blast+
      with wire_baseline [OF this w] show ?thesis
        unfolding be by (auto simp: proper_def baselineEvent_def split: option.splits)
    qed
    have rm: "unat (s_seq s) + length ?bs < 2 ^ 64" using room [OF plan] by simp
    have st1: "stored pm (contents (s_db s1)) (s_seq s1) (L @ ?B)"
      by (rule append_stored [OF a L rm]) (use okb in blast)
    have rs: "reasserts L ?B"
    proof (rule reasserts_baselines [OF cur])
      show "\<forall>(n, b) \<in> set ?B. \<exists>ev \<in> set (pp_survivors plan). \<exists>i c. b = stampCommit c (baselineEvent i ev cutoff)"
      proof (intro ballI, clarify)
        fix n b assume "(n, b) \<in> set ?B"
        then have "b \<in> set (map (stampCommit (s_seq s + 1)) ?bs)" by (rule set_numbered)
        then obtain b0 where "b0 \<in> set ?bs" "b = stampCommit (s_seq s + 1) b0" by auto
        with bs [of b0] show "\<exists>ev \<in> set (pp_survivors plan). \<exists>i c. b = stampCommit c (baselineEvent i ev cutoff)" by blast
      qed
    qed
    have srt: "sorted_wrt (<) (map fst (L @ ?B))" using st1 by (simp add: stored_def logged_def)
    have new: "n \<notin> D" if "(n, b) \<in> set ?B" for n b
      using srt sub that by (force simp: sorted_wrt_append)
    have keep: "filter (\<lambda>(n, ev). n \<notin> D) (L @ ?B) = filter (\<lambda>(n, ev). n \<notin> D) L @ ?B"
      using new by (auto simp: filter_id_conv)
    have C': "contents (s_db s') = (\<lambda>k. if k \<in> ?K then None else contents (s_db s1) k)(metaPruneHorizonKey \<mapsto> encodeU64 (of_int (unixNano cutoff)))"
      using commit_law [OF c] s'(1) by (simp only: kvApply_simps del [rule_format] kvStep_simps)
    have only: "seqFromKeySuffix k \<in> D" if "k \<in> ?K" for k using that eventKeys_rows(3) by auto
    have inL: "(n, ev) \<in> set L" if "(n, ev) \<in> set (L @ ?B)" "n \<in> D" for n ev using that new by auto
    have "logged pm (\<lambda>k. if k \<in> ?K then None else contents (s_db s1) k) (filter (\<lambda>(n, ev). n \<notin> D) (L @ ?B))"
      by (rule logged_remove [of pm "contents (s_db s1)" "L @ ?B" D ?K])
        (use st1 in \<open>simp add: stored_def\<close>, use inL eventKeys_rows(1) in blast, rule only)
    moreover have "indexed (\<lambda>k. if k \<in> ?K then None else contents (s_db s1) k) (filter (\<lambda>(n, ev). n \<notin> D) (L @ ?B))"
      by (rule indexed_remove [of "contents (s_db s1)" "L @ ?B" D ?K])
        (use st1 in \<open>simp add: stored_def\<close>, use inL eventKeys_rows(2) in blast, rule only)
    moreover have "metaSeqKey \<notin> ?K" using eventKeys_rows(3) by blast
    ultimately have st: "stored pm (contents (s_db s')) (s_seq s') (filter (\<lambda>(n, ev). n \<notin> D) L @ ?B)"
      using st1 unfolding stored_def C' s'(2) keep [symmetric]
      by (auto simp: logged_meta indexed_meta sequenced_def)
    have "fst ` set ?B \<inter> fst ` set L = {}" using srt by (force simp: sorted_wrt_append)
    then show thesis by (rule that [OF st sv rs])
  qed
qed

end

end
