(* ===== verification/Store_Mem.thy ===== *)
theory Store_Mem
  imports Store_Prune "HOL-Library.AList"
begin

text \<open>
  A database in memory and a message encoding over a table, with the laws the log relies on: the
  instances the witnesses of the store's properties run on.
\<close>

section \<open>Definitions\<close>

type_synonym rows = "(string \<times> string) list"

definition memStep :: "kvop \<Rightarrow> rows \<Rightarrow> rows" where
  "memStep op d = (case op of KvSet k v \<Rightarrow> AList.update k v d | KvDelete k \<Rightarrow> AList.delete k d)"

definition memPebble :: "rows pebble" where
  "memPebble =
     \<lparr>pb_get = (\<lambda>d k. Inr (map_of d k)),
      pb_iter = (\<lambda>d lo hi. Inr (sort_key fst (filter (\<lambda>(k, v). lo \<le> k \<and> below hi k) (AList.clearjunk d)), None)),
      pb_commit = (\<lambda>d ops. Inr (fold memStep ops d))\<rparr>"

text \<open>A database whose commits fail.\<close>

definition fullPebble :: "rows pebble" where
  "fullPebble = memPebble\<lparr>pb_commit := (\<lambda>d ops. Inl ''disk full'')\<rparr>"

text \<open>A message is the unary number of its place in the table.\<close>

definition tableProto :: "PbEvent list \<Rightarrow> proto" where
  "tableProto t =
     \<lparr>pm_marshal = (\<lambda>p. if p \<in> set t then Inr (replicate (length (takeWhile (\<lambda>q. q \<noteq> p) t)) CHR ''x'') else Inl ''not in the table''),
      pm_unmarshal = (\<lambda>b. if length b < length t then Inr (t ! length b) else Inl ''not in the table'')\<rparr>"

definition emptyStore :: "bool \<Rightarrow> rows Store" where
  "emptyStore accept = \<lparr>s_db = [], s_cfg = DefaultConfig\<lparr>cf_AcceptUnknownTypes := accept\<rparr>, s_readOnly = False, s_seq = 0, s_pruneHorizon = 0,
     s_prunedEvents = 0, s_prunedBytes = 0, s_snapshotSeq = 0, s_snapshotsWritten = 0\<rparr>"

section \<open>The laws\<close>

lemma map_of_memStep: "map_of (memStep op d) = kvStep op (map_of d)"
  by (cases op) (simp_all add: memStep_def kvStep_def update_conv' delete_conv')

lemma map_of_memSteps: "map_of (fold memStep ops d) = kvApply ops (map_of d)"
  by (induction ops arbitrary: d) (simp_all add: map_of_memStep kvApply_def)

lemma sort_key_strict:
  assumes "distinct (map fst xs)"
  shows "sorted_wrt (<) (map fst (sort_key fst xs))"
proof -
  have "distinct (map fst (sort_key fst xs))" using assms by (simp add: distinct_map)
  then show ?thesis by (simp add: strict_sorted_iff)
qed

lemma mem_rows: "(k, v) \<in> set (AList.clearjunk d) \<longleftrightarrow> map_of d k = Some v"
  by (metis distinct_clearjunk map_of_clearjunk map_of_eq_Some_iff)

interpretation mem: log_laws memPebble map_of "tableProto t" for t
proof unfold_locales
  fix d lo hi rows
  assume r: "pb_iter memPebble d lo hi = Inr (rows, None)"
  have "distinct (map fst (filter (\<lambda>(k, v). lo \<le> k \<and> below hi k) (AList.clearjunk d)))"
    by (intro distinct_map_filter distinct_clearjunk)
  with r show "sorted_wrt (<) (map fst rows)" by (auto simp: memPebble_def intro: sort_key_strict)
  show "((k, v) \<in> set rows) = (map_of d k = Some v \<and> lo \<le> k \<and> below hi k)" for k v
    using r by (auto simp: memPebble_def mem_rows)
next
  fix p b assume m: "pm_marshal (tableProto t) p = Inr b"
  let ?n = "length (takeWhile (\<lambda>q. q \<noteq> p) t)"
  from m have p: "p \<in> set t" and b: "length b = ?n" by (auto simp: tableProto_def split: if_splits)
  have lt: "?n < length t" using p by (induction t) auto
  then have "t ! ?n = p" using nth_length_takeWhile [of "\<lambda>q. q \<noteq> p" t] by simp
  with b lt show "pm_unmarshal (tableProto t) b = Inr p" by (simp add: tableProto_def)
qed (auto simp: memPebble_def map_of_memSteps)

interpretation full: log_laws fullPebble map_of "tableProto t" for t
proof unfold_locales
  show "pb_iter fullPebble d lo hi = Inr (rows, None) \<Longrightarrow> sorted_wrt (<) (map fst rows)" for d lo hi rows
    using mem.iter_sorted by (simp add: fullPebble_def)
  show "pb_iter fullPebble d lo hi = Inr (rows, None) \<Longrightarrow> ((k, v) \<in> set rows) = (map_of d k = Some v \<and> lo \<le> k \<and> below hi k)"
    for d lo hi rows k v using mem.iter_rows by (simp add: fullPebble_def)
  show "pm_marshal (tableProto t) p = Inr b \<Longrightarrow> pm_unmarshal (tableProto t) b = Inr p" for p b by (rule mem.codec)
qed (simp_all add: fullPebble_def memPebble_def)

lemma stored_empty: "stored pm (map_of []) 0 []"
  by (simp add: stored_def logged_def indexed_def sequenced_def)

end
