(* ===== verification/Store_Theorems.thy ===== *)
theory Store_Theorems
  imports Store_Mem
begin

text \<open>
  The properties of the event log: what an append leaves, what the reads return, what retention
  keeps and what a restart finds, for every database and message encoding with the laws of
  \<open>log_laws\<close>.
\<close>

section \<open>Definitions\<close>

text \<open>A database that answers every read.\<close>

definition answers :: "'d pebble \<Rightarrow> 'd \<Rightarrow> bool" where
  "answers pb d = ((\<forall>k. \<exists>r. pb_get pb d k = Inr r) \<and> (\<forall>lo hi. \<exists>rows. pb_iter pb d lo hi = Inr (rows, None)))"

definition noDeadline :: "nat \<Rightarrow> StoreErr option" where
  "noDeadline n = None"

text \<open>Records for the witnesses: the life of one host.\<close>

definition fxRecord :: "nat \<Rightarrow> ChangeType \<Rightarrow> time \<Rightarrow> Event" where
  "fxRecord n ct t = entityEvent (zeroEntityEvent\<lparr>ee_EventID := replicate n (CHR ''r''), ee_ChangeType := ct,
     ee_Entity := \<lparr>ent_ID = ''h'', ent_Type = ''host'', ent_Identity = [(''host.id'', StringValue ''h'')], ent_Attributes = [], ent_SchemaURL = []\<rparr>,
     ee_EventTime := unixEpoch + t, ee_RecordedAt := unixEpoch + t, ee_SchemaVersion := ''v''\<rparr>)"

definition fxLife :: "Event list" where
  "fxLife = [fxRecord 1 EntityCreated 10, fxRecord 2 EntityUnchanged 20, fxRecord 3 EntityUnchanged 30, fxRecord 4 EntityUnchanged 40]"

definition fxCutoff :: time where
  "fxCutoff = unixEpoch + 35"

definition fxCodec :: proto where
  "fxCodec = tableProto (map eventToProto (map (stampCommit 1) fxLife
     @ [stampCommit 5 (baselineEvent ''b'' (fxRecord 4 EntityUnchanged 40) fxCutoff)]))"

definition fxStore :: "rows Store" where
  "fxStore = fst (Append memPebble fxCodec fxLife (emptyStore False))"

section \<open>Records\<close>

lemma wire_stamp [simp]: "wire_event (stampCommit c ev) = wire_event ev"
  by (auto simp: wire_event_def stampCommit_def wire_entityEvent_def wire_relationEvent_def split: option.splits)

lemma validated_proper:
  assumes "validateFor cfg ev = None" and "wire_event ev"
  shows "proper ev"
proof -
  obtain v where "validateEnvelope v ev = None" using assms(1) by (auto simp: validateFor_def ValidateShape_def split: if_splits)
  then show ?thesis
  proof (cases rule: valid_event)
    case (entity ee)
    then have "IsEntity (ee_ChangeType ee)" "wire_change (ee_ChangeType ee)"
      using assms(2) by (auto simp: validateEntityEvent_def wire_event_def wire_entityEvent_def split: if_splits)
    then show ?thesis using entity by (auto simp: proper_def IsEntity_cases)
  next
    case (relation re)
    then have "IsRelation (re_ChangeType re)" "wire_change (re_ChangeType re)"
      using assms(2) by (auto simp: validateRelationEvent_def wire_event_def wire_relationEvent_def split: if_splits)
    then show ?thesis using relation by (auto simp: proper_def IsRelation_cases)
  qed
qed

lemma staged_valid: "stageEvents pm cfg c i evs lb = Inr r \<Longrightarrow> ev \<in> set evs \<Longrightarrow> validateFor cfg ev = None"
  by (induction pm cfg c i evs lb rule: stageEvents.induct) (auto simp: Let_def split: option.splits sum.splits)

lemma appended_valid:
  assumes "Append pb pm evs s = (s', None)" and "ev \<in> set evs"
  shows "validateFor (s_cfg s) ev = None"
  using assms staged_valid [of pm "s_cfg s" "s_seq s + 1" 0 evs "(s_seq s, [])" _ ev]
  by (auto simp: Append_def split: if_splits sum.splits)

section \<open>Append\<close>

text \<open>
  C12. A batch enters the log whole or not at all: a successful \<open>Append\<close> extends the log by its
  events in order, stamped with the sequence of the first, under the next consecutive sequence
  numbers, with the index rows of exactly the records of the log and the marker at the last of
  them; a failed one leaves the store as it was.
\<close>

theorem append_is_atomic:
  assumes "log_laws pb contents pm" and L: "stored pm (contents (s_db s)) (s_seq s) L" and a: "Append pb pm evs s = (s', err)"
    and room: "unat (s_seq s) + length evs < 2 ^ 64" and w: "\<forall>ev \<in> set evs. wire_event ev"
  shows "if err = None
    then stored pm (contents (s_db s')) (s_seq s') (L @ numbered (s_seq s) (map (stampCommit (s_seq s + 1)) evs)) \<and>
      s_seq s' = s_seq s + of_nat (length evs)
    else s' = s"
proof -
  note laws = assms(1)
  show ?thesis
  proof (cases err)
    case None
    have p: "\<forall>ev \<in> set evs. wire_event (stampCommit (s_seq s + 1) ev) \<and> proper ev"
      using w validated_proper [OF appended_valid [OF a [unfolded None]]] by auto
    have "logged pm (contents (s_db s)) L" "sequenced (contents (s_db s)) (s_seq s) L" using L by (simp_all add: stored_def)
    from log_laws.append_log [OF laws a [unfolded None] this room] log_laws.append_stored [OF laws a [unfolded None] L room p] None
    show ?thesis by simp
  next
    case (Some e)
    with log_laws.append_failed [OF laws] a show ?thesis by simp
  qed
qed

lemma stage_total:
  assumes "\<forall>ev \<in> set evs. validateFor cfg ev = None \<and> (\<exists>b. pm_marshal pm (eventToProto (stampCommit c ev)) = Inr b)"
  shows "\<exists>r. stageEvents pm cfg c i evs lb = Inr r"
  using assms
proof (induction evs arbitrary: i lb)
  case (Cons ev evs)
  obtain l b where lb: "lb = (l, b)" by (cases lb)
  have v: "validateFor cfg ev = None" using Cons.prems by simp
  obtain ops where "indexEvent (stampCommit c ev) (l + 1) = Inr ops" using indexEvent_valid [OF v, of c "l + 1"] by blast
  with Cons v lb show ?case by (auto simp: Let_def)
qed simp

lemma mem_append:
  assumes "\<forall>ev \<in> set evs. validateFor (s_cfg s) ev = None \<and> eventToProto (stampCommit (s_seq s + 1) ev) \<in> set t"
  shows "\<exists>s'. Append memPebble (tableProto t) evs s = (s', None)"
proof -
  have "\<exists>r. stageEvents (tableProto t) (s_cfg s) (s_seq s + 1) 0 evs (s_seq s, []) = Inr r"
    by (rule stage_total) (use assms in \<open>auto simp: tableProto_def\<close>)
  then show ?thesis by (auto simp: Append_def memPebble_def)
qed

lemma fx_records [simp]: "wire_event (fxRecord n ct t) \<longleftrightarrow> wire_change ct \<and> t \<noteq> 0 \<and> int64_ok t \<or> t = - unixEpoch \<and> wire_change ct"
  by (auto simp: fxRecord_def wire_event_def wire_entityEvent_def wire_time_def wire_source_def zeroEntityEvent_def)

lemma fx_known: "IsKnownEntityType ''host''" "IsValid (StringValue ''h'')"
  by code_simp+

lemma fx_append: "\<exists>s'. Append memPebble fxCodec fxLife (emptyStore False) = (s', None)"
  unfolding fxCodec_def
  by (rule mem_append)
    (simp add: fxLife_def emptyStore_def DefaultConfig_def validateFor_def validateEnvelope_def validateEntityEvent_def fxRecord_def
      IsEntity_def commonEventChecks_def unixEpoch_def validateEntity_def validateKeyValues_def fx_known)

lemma fx_laws: "log_laws memPebble map_of fxCodec"
  unfolding fxCodec_def by (rule mem.log_laws_axioms)

lemma fx_wire: "\<forall>ev \<in> set fxLife. wire_event ev"
  by (simp add: fxLife_def wire_change_def int64_ok_def)

lemma fx_start: "stored fxCodec (map_of (s_db (emptyStore False))) (s_seq (emptyStore False)) []"
    "unat (s_seq (emptyStore False)) + length fxLife < 2 ^ 64"
  using stored_empty by (simp_all add: emptyStore_def fxLife_def)

theorem append_is_atomic_witness:
  "stored fxCodec (map_of (s_db fxStore)) 4 (numbered 0 (map (stampCommit 1) fxLife))"
proof -
  obtain s' where s': "Append memPebble fxCodec fxLife (emptyStore False) = (s', None)" using fx_append by blast
  from append_is_atomic [OF fx_laws fx_start(1) s' fx_start(2) fx_wire] s' show ?thesis
    by (cases s') (auto simp: fxStore_def emptyStore_def fxLife_def)
qed

lemma fx_stored: "stored fxCodec (map_of (s_db fxStore)) (s_seq fxStore) (numbered 0 (map (stampCommit 1) fxLife))"
    "s_seq fxStore = 4" "s_cfg fxStore = s_cfg (emptyStore False)"
proof -
  obtain s' where s': "Append memPebble fxCodec fxLife (emptyStore False) = (s', None)" using fx_append by blast
  have p: "\<forall>ev \<in> set fxLife. wire_event (stampCommit (s_seq (emptyStore False) + 1) ev) \<and> proper ev"
    using fx_wire validated_proper [OF appended_valid [OF s']] by auto
  from log_laws.append_stored [OF fx_laws s' fx_start(1,2) p] s'
  show "stored fxCodec (map_of (s_db fxStore)) (s_seq fxStore) (numbered 0 (map (stampCommit 1) fxLife))"
    by (simp add: fxStore_def emptyStore_def)
  have lg: "logged fxCodec (map_of (s_db (emptyStore False))) []" "sequenced (map_of (s_db (emptyStore False))) (s_seq (emptyStore False)) []"
    using fx_start(1) by (simp_all add: stored_def)
  from log_laws.append_log [OF fx_laws s' lg fx_start(2)] s'
  show "s_seq fxStore = 4" by (simp add: fxStore_def emptyStore_def fxLife_def)
  show "s_cfg fxStore = s_cfg (emptyStore False)"
    by (simp add: fxStore_def Append_def split: sum.splits prod.splits)
qed

lemma mem_answers: "answers memPebble d"
  by (simp add: answers_def memPebble_def)

text \<open>
  C29. A batch with an invalid event is refused with the index of the first of them and the
  reason, and nothing of the batch is written, whatever events it holds before, as long as each of
  these is valid and the codec marshals it (one that does not marshal is refused first, as a
  marshalling error).
\<close>

theorem append_names_the_first_invalid_event:
  assumes "i < length evs" and "validateFor (s_cfg s) (evs ! i) = Some e"
    and "\<forall>j < i. validateFor (s_cfg s) (evs ! j) = None \<and> (\<exists>b. pm_marshal pm (eventToProto (stampCommit (s_seq s + 1) (evs ! j))) = Inr b)"
  shows "Append pb pm evs s = (s, Some (InvalidEvent i e))"
proof -
  have "stageEvents pm cfg c n evs lb = Inl (InvalidEvent (n + i) e)"
    if "i < length evs" "validateFor cfg (evs ! i) = Some e"
      "\<forall>j < i. validateFor cfg (evs ! j) = None \<and> (\<exists>b. pm_marshal pm (eventToProto (stampCommit c (evs ! j))) = Inr b)" for cfg c n lb
    using that
  proof (induction evs arbitrary: i n lb)
    case (Cons ev evs)
    obtain l b where lb: "lb = (l, b)" by (cases lb)
    show ?case
    proof (cases i)
      case 0
      with Cons.prems lb show ?thesis by simp
    next
      case (Suc k)
      have v: "validateFor cfg ev = None" using Cons.prems(3) Suc by auto
      obtain m where m: "pm_marshal pm (eventToProto (stampCommit c ev)) = Inr m" using Cons.prems(3) Suc by auto
      obtain ops where ops: "indexEvent (stampCommit c ev) (l + 1) = Inr ops" using indexEvent_valid [OF v, of c "l + 1"] by blast
      have "stageEvents pm cfg c (Suc n) evs lb' = Inl (InvalidEvent (Suc n + k) e)" for lb'
        by (rule Cons.IH) (use Cons.prems Suc in auto)
      with v m ops lb Suc show ?thesis by simp
    qed
  qed simp
  with assms show ?thesis by (auto simp: Append_def)
qed

theorem append_names_the_first_invalid_event_witness:
  "Append memPebble fxCodec (fxLife @ [fxRecord 5 RelationAdded 50]) (emptyStore False) =
     (emptyStore False, Some (InvalidEvent 4 ErrChangeTypeMismatch))"
proof (rule append_names_the_first_invalid_event)
  have v: "\<forall>ev \<in> set fxLife. validateFor (s_cfg (emptyStore False)) ev = None" using appended_valid fx_append by blast
  have t: "\<forall>ev \<in> set fxLife. \<exists>b. pm_marshal fxCodec (eventToProto (stampCommit 1 ev)) = Inr b" by (auto simp: fxCodec_def tableProto_def)
  show "\<forall>j < 4. validateFor (s_cfg (emptyStore False)) ((fxLife @ [fxRecord 5 RelationAdded 50]) ! j) = None \<and>
      (\<exists>b. pm_marshal fxCodec (eventToProto (stampCommit (s_seq (emptyStore False) + 1) ((fxLife @ [fxRecord 5 RelationAdded 50]) ! j))) = Inr b)"
  proof (intro allI impI)
    fix j :: nat assume "j < 4"
    then have j: "j < length fxLife" by (simp add: fxLife_def)
    then have "(fxLife @ [fxRecord 5 RelationAdded 50]) ! j = fxLife ! j" "fxLife ! j \<in> set fxLife"
      by (rule nth_append_left) (rule nth_mem [OF j])
    with v t show "validateFor (s_cfg (emptyStore False)) ((fxLife @ [fxRecord 5 RelationAdded 50]) ! j) = None \<and>
      (\<exists>b. pm_marshal fxCodec (eventToProto (stampCommit (s_seq (emptyStore False) + 1) ((fxLife @ [fxRecord 5 RelationAdded 50]) ! j))) = Inr b)"
      by (simp add: emptyStore_def)
  qed
qed (simp_all add: fxLife_def emptyStore_def DefaultConfig_def validateFor_def validateEnvelope_def validateEntityEvent_def fxRecord_def IsEntity_def)

section \<open>Reads\<close>

text \<open>Over a database that answers, an index read without a deadline returns.\<close>

lemma resolveSeq_total:
  assumes L: "logged pm (contents (s_db s)) L" and laws: "log_laws pb contents pm" and ans: "answers pb (s_db s)"
  shows "\<exists>r. resolveSeq pb pm s n = Inr r"
proof -
  obtain o' where o': "pb_get pb (s_db s) (primaryKey n) = Inr o'" using ans unfolding answers_def by blast
  then have c: "o' = contents (s_db s) (primaryKey n)" using laws pebble_laws.get_law log_laws.axioms(1) by metis
  show ?thesis
  proof (cases o')
    case None
    with o' show ?thesis by (simp add: resolveSeq_def getBySeq_def)
  next
    case (Some v)
    then obtain ev pe where "pm_unmarshal pm v = Inr pe" using logged_row [OF L, of n v] c by metis
    with Some o' show ?thesis by (simp add: resolveSeq_def getBySeq_def)
  qed
qed

lemma resolveRows_total:
  assumes "logged pm (contents (s_db s)) L" and "log_laws pb contents pm" and "answers pb (s_db s)" and "\<And>ev a. \<exists>b. fn ev a = Inr b"
  shows "\<exists>r. forRows (resolveRow pb pm noDeadline s fn) rows na = Inr r"
proof (induction rows arbitrary: na)
  case (Cons row rows)
  obtain r where r: "resolveSeq pb pm s (seqFromKeySuffix (fst row)) = Inr r"
    using resolveSeq_total [OF assms(1-3)] by blast
  have "\<exists>na'. resolveRow pb pm noDeadline s fn row na = Inr na'"
  proof (cases r)
    case (Some ev)
    obtain b where "fn ev (snd na) = Inr b" using assms(4) by blast
    with Some r show ?thesis by (simp add: resolveRow_def checkEvery_def noDeadline_def)
  qed (use r in \<open>simp add: resolveRow_def checkEvery_def noDeadline_def\<close>)
  with Cons.IH show ?case by auto
qed simp

lemma iterate_total:
  assumes "answers pb d" and "\<And>rows. \<exists>r. forRows f rows a = Inr r"
  shows "\<exists>r. iterate pb d lo hi f a = Inr r"
proof -
  obtain rows where "pb_iter pb d lo hi = Inr (rows, None)" using assms(1) unfolding answers_def by blast
  with assms(2) [of rows] show ?thesis by (auto simp: iterate_def)
qed

lemma index_reads_total:
  assumes "logged pm (contents (s_db s)) L" and "log_laws pb contents pm" and "answers pb (s_db s)"
  shows "\<exists>evs. readBySeqIndex pb pm noDeadline p s = Inr evs" and "\<exists>evs. ReadByTimeRange pb pm noDeadline from to s = Inr evs"
proof -
  have f: "\<exists>r. forRows (resolveRow pb pm noDeadline s collect) rows na = Inr r" for rows na
    by (rule resolveRows_total [OF assms]) (simp add: collect_def)
  have i: "\<exists>r. iterate pb (s_db s) lo hi (resolveRow pb pm noDeadline s collect) (0, []) = Inr r" for lo hi
    by (rule iterate_total [OF assms(3) f])
  from i [of p "prefixUpperBound p"] show "\<exists>evs. readBySeqIndex pb pm noDeadline p s = Inr evs" by (auto simp: readBySeqIndex_def)
  from i [of "timeKeyBound (unixNano from)" "Some (timeKeyBound (unixNano to))"] show "\<exists>evs. ReadByTimeRange pb pm noDeadline from to s = Inr evs" by (auto simp: ReadByTimeRange_def ScanByTimeRange_def)
qed

lemma stored_whole: "stored pm C n L \<Longrightarrow> \<forall>m ev. (m, ev) \<in> set L \<longrightarrow> whole ev"
  by (auto simp: stored_def proper_def whole_def split: option.splits)

text \<open>
  C21. The index reads return exactly what the log holds, in log order by entity (an id and the
  ids of the log being free of the separator of the keys) and by change type, and by event time,
  equal times in log order, for a time range; over a database that answers they do return.
\<close>

theorem index_reads_are_exact:
  assumes laws: "log_laws pb contents pm" and L: "stored pm (contents (s_db s)) (s_seq s) L" and ans: "answers pb (s_db s)"
    and ids: "\<forall>(n, ev) \<in> set L. \<forall>j \<in> set (touched ev). CHR 0x2F \<notin> set j" and i: "CHR 0x2F \<notin> set i" "i \<noteq> []"
  shows "ReadByEntity pb pm noDeadline i s = Inr (map snd (filter (\<lambda>(n, ev). i \<in> set (touched ev)) L)) \<and>
    ReadByType pb pm noDeadline ct s = Inr (map snd (filter (\<lambda>(n, ev). ct_byte (changeOf ev) = ct_byte ct) L)) \<and>
    ReadByTimeRange pb pm noDeadline from to s =
      Inr (map snd (sort_key (nanosOf \<circ> snd) (filter (\<lambda>(n, ev). of_int (unixNano from) \<le> nanosOf ev \<and> nanosOf ev < of_int (unixNano to)) L)))"
proof -
  have lg: "logged pm (contents (s_db s)) L" and ix: "indexed (contents (s_db s)) L" using L by (simp_all add: stored_def)
  note total = index_reads_total [OF lg laws ans]
  obtain evs1 evs2 evs3 where r1: "ReadByEntity pb pm noDeadline i s = Inr evs1" and r2: "ReadByType pb pm noDeadline ct s = Inr evs2"
    and r3: "ReadByTimeRange pb pm noDeadline from to s = Inr evs3"
    using total unfolding ReadByEntity_def ReadByType_def by metis
  have ids': "\<forall>n ev. (n, ev) \<in> set L \<longrightarrow> (\<forall>j \<in> set (touched ev). CHR 0x2F \<notin> set j)" using ids by auto
  have "evs1 = map snd (filter (\<lambda>(n, ev). i \<in> set (touched ev)) L)"
    by (rule log_laws.ReadByEntity_log [OF laws lg ix ids' i r1])
  moreover have "evs2 = map snd (filter (\<lambda>(n, ev). ct_byte (changeOf ev) = ct_byte ct) L)"
    by (rule log_laws.ReadByType_log [OF laws lg ix r2 stored_whole [OF L]])
  moreover have "evs3 = map snd (sort_key (nanosOf \<circ> snd) (filter (\<lambda>(n, ev). of_int (unixNano from) \<le> nanosOf ev \<and> nanosOf ev < of_int (unixNano to)) L))"
    using log_laws.ScanByTimeRange_log [OF laws lg ix stored_whole [OF L] r3 [unfolded ReadByTimeRange_def]]
    by (simp add: log_laws.forLog_collect [OF laws])
  ultimately show ?thesis using r1 r2 r3 by simp
qed

theorem index_reads_are_exact_witness:
  "ReadByEntity memPebble fxCodec noDeadline ''h'' fxStore = Inr (map (stampCommit 1) fxLife)"
proof -
  have t: "touched (stampCommit c (fxRecord n ct t)) = [''h'']" for c n ct t
    by (simp add: touched_def stampCommit_def fxRecord_def)
  have "\<forall>(n, ev) \<in> set (numbered 0 (map (stampCommit 1) fxLife)). touched ev = [''h'']" by (simp add: fxLife_def t)
  then have ids: "\<forall>(n, ev) \<in> set (numbered 0 (map (stampCommit 1) fxLife)). \<forall>j \<in> set (touched ev). CHR 0x2F \<notin> set j" by auto
  have "ReadByEntity memPebble fxCodec noDeadline ''h'' fxStore =
      Inr (map snd (filter (\<lambda>(n, ev). ''h'' \<in> set (touched ev)) (numbered 0 (map (stampCommit 1) fxLife))))"
    using index_reads_are_exact [OF fx_laws fx_stored(1) mem_answers ids, of "''h''" EntityCreated 0 0] by simp
  then show ?thesis by (simp add: fxLife_def t)
qed

section \<open>Retention\<close>

text \<open>
  C20. Coalescing heartbeats changes no answer of a replay: it keeps the order of the log, the
  sequence counter and every record but the inner heartbeats of a run of one entity's records (every
  record that goes is an entity event and such a heartbeat, and every such heartbeat goes, so that
  no relation record is touched), keeps index rows for exactly the records left, and the projection
  of the log is what it was; on an error the store is untouched.
\<close>

theorem coalescing_keeps_the_projection:
  assumes laws: "log_laws pb contents pm" and L: "stored pm (contents (s_db s)) (s_seq s) L" and c: "CoalesceHeartbeats pb pm s = (s', r)"
  shows "case r of
      Inl err \<Rightarrow> s' = s
    | Inr k \<Rightarrow> \<exists>D. stored pm (contents (s_db s')) (s_seq s') (filter (\<lambda>(n, ev). n \<notin> D) L) \<and>
        replayLog (filter (\<lambda>(n, ev). n \<notin> D) L) = replayLog L \<and> s_seq s' = s_seq s \<and>
        (\<forall>i. \<forall>(n, ee) \<in> set (entRows i L). n \<in> D \<longleftrightarrow> (n, ee) \<in> set (middles heartbeat (entRows i L))) \<and>
        (\<forall>(n, ev) \<in> set L. n \<in> D \<longrightarrow>
           (\<exists>ee. ev_Entity ev = Some ee \<and> (n, ee) \<in> set (middles heartbeat (entRows (ent_ID (ee_Entity ee)) L))))"
proof (cases r)
  case (Inl e)
  then show ?thesis using c by (auto simp: CoalesceHeartbeats_def Let_def split: sum.splits if_splits)
next
  case (Inr k)
  have lg: "logged pm (contents (s_db s)) L" "indexed (contents (s_db s)) L" "sequenced (contents (s_db s)) (s_seq s) L"
    and wp: "\<forall>n ev. (n, ev) \<in> set L \<longrightarrow> wire_event ev \<and> proper ev" using L by (simp_all add: stored_def)
  have q: "s_seq s' = s_seq s" using c by (auto simp: CoalesceHeartbeats_def Let_def split: sum.splits if_splits)
  have srt: "sorted_wrt (<) (map fst L)" using lg(1) by (simp add: logged_def)
  show ?thesis
  proof (rule log_laws.coalesce_log [OF laws c [unfolded Inr] lg])
    fix D
    assume st: "logged pm (contents (s_db s')) (filter (\<lambda>(n, ev). n \<notin> D) L)" "indexed (contents (s_db s')) (filter (\<lambda>(n, ev). n \<notin> D) L)"
        "sequenced (contents (s_db s')) (s_seq s') (filter (\<lambda>(n, ev). n \<notin> D) L)"
      and D: "\<And>i n ee. (n, ee) \<in> set (entRows i L) \<Longrightarrow> n \<in> D \<longleftrightarrow> (n, ee) \<in> set (middles heartbeat (entRows i L))"
      and ent: "\<And>n ev. (n, ev) \<in> set L \<Longrightarrow> n \<in> D \<Longrightarrow> ev_Entity ev \<noteq> None"
    have "replayLog (filter (\<lambda>(n, ev). n \<notin> D) L) = replayLog L" by (rule coalesced_replay [OF srt D ent])
    moreover have "stored pm (contents (s_db s')) (s_seq s') (filter (\<lambda>(n, ev). n \<notin> D) L)" using st wp by (auto simp: stored_def)
    moreover have "\<exists>ee. ev_Entity ev = Some ee \<and> (n, ee) \<in> set (middles heartbeat (entRows (ent_ID (ee_Entity ee)) L))"
      if "(n, ev) \<in> set L" "n \<in> D" for n ev
    proof -
      from ent [OF that] obtain ee where ee: "ev_Entity ev = Some ee" by blast
      then have "(n, ee) \<in> set (entRows (ent_ID (ee_Entity ee)) L)" using that(1) by (auto simp: set_entRows)
      with ee D that(2) show ?thesis by blast
    qed
    ultimately show ?thesis using Inr q D by auto
  qed
qed

text \<open>Over a database that answers, the passes of retention return.\<close>

lemma forLog_returns:
  assumes "\<And>n ev a. \<exists>b. fn n ev a = Inr b"
  shows "\<exists>b. forLog fn L a = Inr b"
proof (induction L arbitrary: a)
  case (Cons r L)
  obtain n ev where r: "r = (n, ev)" by (cases r)
  obtain b where "fn n ev a = Inr b" using assms by blast
  with Cons r show ?case by simp
qed simp

lemma snapshotScan_total:
  assumes laws: "log_laws pb contents pm" and L: "logged pm (contents d) L" and ans: "answers pb d" and fn: "\<And>n raw ev a. \<exists>b. fn n raw ev a = Inr b"
  shows "\<exists>b. snapshotScan pb pm fn d a = Inr b"
proof -
  obtain rows where rows: "pb_iter pb d primaryPrefix (prefixUpperBound primaryPrefix) = Inr (rows, None)"
    using ans unfolding answers_def by blast
  have range: "primaryPrefix \<le> k \<and> below (prefixUpperBound primaryPrefix) k \<longleftrightarrow> (\<exists>n. k = primaryKey n \<and> True)" if "contents d k \<noteq> None" for k
    using prefix_range log_laws.primary_keys [OF laws L that] by simp
  have "forRows (\<lambda>row. scanRow pm (\<lambda>seq. fn seq (snd row)) row) rows a =
      forLog (\<lambda>n. fn n (the (contents d (primaryKey n)))) (filter (\<lambda>(n, ev). True) L) a"
    by (rule log_laws.scan_range_raw [OF laws L range rows])
  moreover have "\<exists>b. forLog (\<lambda>n. fn n (the (contents d (primaryKey n)))) (filter (\<lambda>(n, ev). True) L) a = Inr b"
    by (rule forLog_returns) (rule fn)
  ultimately show ?thesis using rows by (auto simp: snapshotScan_def iterate_def)
qed

lemma ScanFrom_total:
  assumes laws: "log_laws pb contents pm" and L: "logged pm (contents (s_db s)) L" and ans: "answers pb (s_db s)" and nowrap: "after + 1 \<noteq> 0"
    and fn: "\<And>n ev a. \<exists>b. fn n ev a = Inr b"
  shows "\<exists>b. ScanFrom pb pm after fn s a = Inr b"
proof -
  obtain rows where rows: "pb_iter pb (s_db s) (primaryKey (after + 1)) (prefixUpperBound primaryPrefix) = Inr (rows, None)"
    using ans unfolding answers_def by blast
  have "\<exists>b. forLog fn (filter (\<lambda>(n, ev). after < n) L) a = Inr b" by (rule forLog_returns [OF fn])
  with log_laws.ScanFrom_rows [OF laws L nowrap rows, of fn a] rows show ?thesis by (auto simp: ScanFrom_def iterate_def)
qed

lemma noteEntity_total: "\<exists>b. noteEntity n raw ev a = Inr b"
  by (auto simp: noteEntity_def Let_def split: option.splits)

theorem coalescing_keeps_the_projection_witness:
  "\<exists>s' k L'. CoalesceHeartbeats memPebble fxCodec fxStore = (s', Inr k) \<and> stored fxCodec (map_of (s_db s')) 4 L' \<and>
     replayLog L' = replayLog (numbered 0 (map (stampCommit 1) fxLife))"
proof -
  have "logged fxCodec (map_of (s_db fxStore)) (numbered 0 (map (stampCommit 1) fxLife))" using fx_stored(1) by (simp add: stored_def)
  from snapshotScan_total [OF fx_laws this mem_answers, of noteEntity "[]"] noteEntity_total
  obtain per where per: "snapshotScan memPebble fxCodec noteEntity (s_db fxStore) [] = Inr per" by blast
  have "pb_commit memPebble d ops = Inr (fold memStep ops d)" for d ops by (simp add: memPebble_def)
  with per have "\<exists>s' k. CoalesceHeartbeats memPebble fxCodec fxStore = (s', Inr k)" by (simp add: CoalesceHeartbeats_def Let_def)
  then obtain s' k where c: "CoalesceHeartbeats memPebble fxCodec fxStore = (s', Inr k)" by blast
  from coalescing_keeps_the_projection [OF fx_laws fx_stored(1) c] c fx_stored(2) show ?thesis by auto
qed

text \<open>The first pass of a prune knows at most one entity or relation per record.\<close>

lemma noteLast_length:
  assumes "forLog (\<lambda>n. noteLast c n (val n)) L (el, rl) = Inr (el', rl')"
  shows "length el' + length rl' \<le> length el + length rl + length L"
  using assms
proof (induction L arbitrary: el rl)
  case (Cons r L)
  obtain n ev where r: "r = (n, ev)" by (cases r)
  obtain el1 rl1 where n: "noteLast c n (val n) ev (el, rl) = Inr (el1, rl1)" using noteLast_total by (metis surj_pair)
  then have "length el1 + length rl1 \<le> Suc (length el + length rl)"
    by (auto simp: noteLast_def Let_def length_gput_le split: option.splits)
  moreover have "length el' + length rl' \<le> length el1 + length rl1 + length L" using Cons n r by simp
  ultimately show ?case by simp
qed simp

lemma plan_room:
  assumes laws: "log_laws pb contents pm" and L: "logged pm (contents d) L" and p: "planPrune pb pm cutoff d = Inr plan"
  shows "length (pp_survivors plan) \<le> length L"
proof -
  obtain el rl where one: "snapshotScan pb pm (noteLast (unixNano cutoff)) d ([], []) = Inr (el, rl)"
    and pl: "pp_survivors plan = map la_ev (filter (needsBaseline (unixNano cutoff)) (map snd el @ map snd rl))"
    using p by (auto simp: planPrune_def Let_def split: sum.splits)
  have "length (pp_survivors plan) \<le> length (map snd el @ map snd rl)" unfolding pl length_map by (rule length_filter_le)
  then show ?thesis using noteLast_length [OF log_laws.snapshotScan_log [OF laws L one]] by simp
qed

text \<open>
  C19. Pruning loses nothing that is alive: when the records of a deleted entity or relation are
  stamped no later than its deletion, a prune that returns leaves a log of index rows and records
  that replays to the same relations and to entities under the same ids.  Each of these entities is
  the same in every part, except that for one whose last record is a heartbeat this asks that its
  stamps are in order and that every heartbeat carries the entity as it stood.  Every record of the
  new log is one of the old log or repeats, with its change and its entity or relation, the last
  record of something alive.  No record stamped at the cutoff or later is lost, every older one is
  dropped unless it is the last of something alive, and the sequence never steps back.
\<close>

theorem pruning_keeps_what_is_alive:
  assumes laws: "log_laws pb contents pm" and L: "stored pm (contents (s_db s)) (s_seq s) L" and dl: "deletes_last L"
    and room: "unat (s_seq s) + length L < 2 ^ 64" and w: "wire_time cutoff" and pr: "PruneOlderThan pb pm newID cutoff s = (s', Inr r)"
  shows "\<exists>L'. stored pm (contents (s_db s')) (s_seq s') L' \<and> s_seq s \<le> s_seq s' \<and>
    (\<forall>i. tp_relations (replayLog L') i = tp_relations (replayLog L) i) \<and>
    (\<forall>i. tp_entities (replayLog L') i = None \<longleftrightarrow> tp_entities (replayLog L) i = None) \<and>
    (\<forall>i. entRows i L = [] \<or> ee_ChangeType (snd (last (entRows i L))) \<noteq> EntityUnchanged \<or> steady i L \<longrightarrow>
       tp_entities (replayLog L') i = tp_entities (replayLog L) i) \<and>
    (\<forall>(n, ev) \<in> set L'. (n, ev) \<in> set L \<or> (\<exists>m old. (m, old) \<in> set L \<and> current L old \<and> repeats ev old)) \<and>
    (\<forall>(n, ev) \<in> set L. cutoff \<le> recordedAtOf ev \<longrightarrow> (n, ev) \<in> set L') \<and>
    (\<forall>(n, ev) \<in> set L. recordedAtOf ev < cutoff \<longrightarrow> \<not> current L ev \<longrightarrow> n \<notin> fst ` set L')"
proof -
  have lg: "logged pm (contents (s_db s)) L" and wp: "\<forall>n ev. (n, ev) \<in> set L \<longrightarrow> proper ev" using L by (simp_all add: stored_def)
  have srt: "sorted_wrt (<) (map fst L)" using lg by (simp add: logged_def)
  have rm: "unat (s_seq s) + length (pp_survivors plan) < 2 ^ 64" if "planPrune pb pm cutoff (s_db s) = Inr plan" for plan
    using plan_room [OF laws lg that] room by linarith
  obtain plan where plan: "planPrune pb pm cutoff (s_db s) = Inr plan" and ap: "applyPrune pb pm newID cutoff plan s = (s', Inr r)"
    using pr by (auto simp: PruneOlderThan_def split: sum.splits)
  have q: "s_seq s \<le> s_seq s'"
  proof (cases "pp_events plan = 0")
    case True
    then show ?thesis using ap by (simp add: applyPrune_def)
  next
    case False
    let ?bs = "map (\<lambda>(n, ev). baselineEvent (newID n) ev cutoff) (enumerate 0 (pp_survivors plan))"
    obtain s1 where a: "Append pb pm ?bs s = (s1, None)" and s': "s_seq s' = s_seq s1"
      using ap False by (auto simp: applyPrune_def Let_def split: prod.splits option.splits sum.splits)
    have sq: "sequenced (contents (s_db s)) (s_seq s) L" using L by (simp add: stored_def)
    have rmb: "unat (s_seq s) + length ?bs < 2 ^ 64" using rm [OF plan] by simp
    have "s_seq s1 = s_seq s + of_nat (length ?bs)" using log_laws.append_log [OF laws a lg sq rmb] by simp
    moreover have "unat (s_seq s + of_nat (length ?bs)) = unat (s_seq s) + length ?bs"
    proof -
      have "length ?bs < 2 ^ 64" using rmb by linarith
      then have "unat (of_nat (length ?bs) :: 64 word) = length ?bs" by (simp add: unat_of_nat)
      with rmb show ?thesis by (simp add: unat_word_ariths)
    qed
    ultimately show ?thesis using s' by (simp add: word_le_nat_alt)
  qed
  show ?thesis
  proof (rule log_laws.prune_log [OF laws pr L w])
    show "unat (s_seq s) + length (pp_survivors plan) < 2 ^ 64" if "planPrune pb pm cutoff (s_db s) = Inr plan" for plan by (rule rm [OF that])
    fix D B
    assume st: "stored pm (contents (s_db s')) (s_seq s') (filter (\<lambda>(n, ev). n \<notin> D) L @ B)" and sv: "survives L cutoff D" and rs: "reasserts L B"
      and new: "fst ` set B \<inter> fst ` set L = {}"
    note E = pruned_entity [OF srt wp dl sv rs] and S = pruned_steady [OF srt wp sv rs] and R = pruned_relation [OF srt wp dl sv rs]
    let ?L = "filter (\<lambda>(n, ev). n \<notin> D) L @ B"
    have ents: "tp_entities (replayLog ?L) i = tp_entities (replayLog L) i"
      if "entRows i L = [] \<or> ee_ChangeType (snd (last (entRows i L))) \<noteq> EntityUnchanged \<or> steady i L" for i
      using that E(2) S by blast
    have "(n, ev) \<in> set L \<or> (\<exists>m old. (m, old) \<in> set L \<and> current L old \<and> repeats ev old)" if m: "(n, ev) \<in> set ?L" for n ev
    proof -
      have "proper ev" using st m by (auto simp: stored_def)
      with m reasserts_repeats [OF rs, of ev n] show ?thesis by auto
    qed
    then have origin: "\<forall>(n, ev) \<in> set ?L. (n, ev) \<in> set L \<or> (\<exists>m old. (m, old) \<in> set L \<and> current L old \<and> repeats ev old)" by blast
    have keep: "\<forall>(n, ev) \<in> set L. cutoff \<le> recordedAtOf ev \<longrightarrow> (n, ev) \<in> set (filter (\<lambda>(n, ev). n \<notin> D) L @ B)"
      using sv unfolding survives_def by fastforce
    have old: "n \<in> D \<or> current L ev" if "(n, ev) \<in> set L" "recordedAtOf ev < cutoff" for n ev using sv that unfolding survives_def by blast
    have drop: "\<forall>(n, ev) \<in> set L. recordedAtOf ev < cutoff \<longrightarrow> \<not> current L ev \<longrightarrow> n \<notin> fst ` set (filter (\<lambda>(n, ev). n \<notin> D) L @ B)"
      using old new by force
    show ?thesis
      by (rule exI [of _ ?L]) (use st q E(1) ents origin R keep drop in blast)
  qed
qed

lemma plan_total:
  assumes "log_laws pb contents pm" and "logged pm (contents d) L" and "answers pb d"
  shows "\<exists>plan. planPrune pb pm cutoff d = Inr plan"
proof -
  have n: "\<exists>b. notePruned c k n raw ev a = Inr b" for c k n raw ev a by (simp add: notePruned_def split: prod.splits)
  from snapshotScan_total [OF assms, of "noteLast (unixNano cutoff)" "([], [])"] noteLast_total
  obtain el rl where one: "snapshotScan pb pm (noteLast (unixNano cutoff)) d ([], []) = Inr (el, rl)" by force
  from snapshotScan_total [OF assms, of "notePruned cutoff (keepSet el rl)" "(0, 0, [])"] n
  obtain k m b where "snapshotScan pb pm (notePruned cutoff (keepSet el rl)) d (0, 0, []) = Inr (k, m, b)" by force
  with one show ?thesis by (simp add: planPrune_def Let_def)
qed

lemma fx_entRows:
  "entRows i (numbered 0 (map (stampCommit 1) fxLife)) =
    (if i = ''h'' then map (\<lambda>(n, ev). (n, the (ev_Entity ev))) (numbered 0 (map (stampCommit 1) fxLife)) else [])"
  "relRows i (numbered 0 (map (stampCommit 1) fxLife)) = []"
  by (simp_all add: fxLife_def fxRecord_def stampCommit_def entRows_def relRows_def entRow_def relRow_def List.map_filter_def)

lemma fx_current:
  assumes "current (numbered 0 (map (stampCommit 1) fxLife)) ev"
  shows "ev = stampCommit 1 (fxRecord 4 EntityUnchanged 40)"
proof -
  have "ev \<in> set (map (stampCommit 1) fxLife)" using assms by (auto simp: current_def dest: set_numbered)
  then obtain n ct t where n: "ev = stampCommit 1 (fxRecord n ct t)" "(n, ct, t) \<in> {(1, EntityCreated, 10), (2, EntityUnchanged, 20), (3, EntityUnchanged, 30), (4, EntityUnchanged, 40)}"
    unfolding fxLife_def by auto
  have e: "ev_Entity (stampCommit c (fxRecord n ct t)) \<noteq> None" "ent_ID (ee_Entity (the (ev_Entity (stampCommit c (fxRecord n ct t))))) = ''h''"
      "ee_EventID (the (ev_Entity (stampCommit c (fxRecord n ct t)))) = replicate n (CHR ''r'')" for c n ct t
    by (simp_all add: fxRecord_def stampCommit_def)
  have "snd (last (entRows ''h'' (numbered 0 (map (stampCommit 1) fxLife)))) = the (ev_Entity ev)"
    using assms e(1) [of 1 n ct t] e(2) [of 1 n ct t] unfolding n(1) current_def by (auto split: option.splits)
  then have "ee_EventID (the (ev_Entity (stampCommit 1 (fxRecord 4 EntityUnchanged 40)))) = ee_EventID (the (ev_Entity ev))"
    unfolding fx_entRows by (simp add: fxLife_def)
  then have "n = 4" unfolding n(1) e(3) by simp
  with n show ?thesis by simp
qed

lemma fx_prune: "\<exists>s' r. PruneOlderThan memPebble fxCodec (\<lambda>n. ''b'') fxCutoff fxStore = (s', Inr r)"
proof -
  let ?L = "numbered 0 (map (stampCommit 1) fxLife)"
  have lg: "logged fxCodec (map_of (s_db fxStore)) ?L" using fx_stored(1) by (simp add: stored_def)
  obtain plan where plan: "planPrune memPebble fxCodec fxCutoff (s_db fxStore) = Inr plan"
    using plan_total [OF fx_laws lg mem_answers] by blast
  have cur: "\<forall>ev \<in> set (pp_survivors plan). ev = stampCommit 1 (fxRecord 4 EntityUnchanged 40)"
    using log_laws.plan_log [OF fx_laws lg plan] fx_current by metis
  let ?bs = "map (\<lambda>(n, ev). baselineEvent ''b'' ev fxCutoff) (enumerate 0 (pp_survivors plan))"
  have bs: "b = baselineEvent ''b'' (stampCommit 1 (fxRecord 4 EntityUnchanged 40)) fxCutoff" if "b \<in> set ?bs" for b
    using that cur by (auto simp: enumerate_eq_zip dest!: set_zip_rightD)
  have v: "validateFor (s_cfg fxStore) (baselineEvent ''b'' (stampCommit 1 (fxRecord 4 EntityUnchanged 40)) fxCutoff) = None"
    unfolding fx_stored(3)
    by (simp add: emptyStore_def DefaultConfig_def validateFor_def validateEnvelope_def validateEntityEvent_def fxRecord_def stampCommit_def
      baselineEvent_def IsEntity_def commonEventChecks_def unixEpoch_def validateEntity_def validateKeyValues_def fx_known fxCutoff_def)
  have t: "stampCommit 5 (baselineEvent ''b'' (stampCommit 1 (fxRecord 4 EntityUnchanged 40)) fxCutoff) =
      stampCommit 5 (baselineEvent ''b'' (fxRecord 4 EntityUnchanged 40) fxCutoff)"
    by (simp add: baselineEvent_def stampCommit_def fxRecord_def)
  have "validateFor (s_cfg fxStore) b = None \<and> eventToProto (stampCommit (s_seq fxStore + 1) b) \<in>
      set (map eventToProto (map (stampCommit 1) fxLife @ [stampCommit 5 (baselineEvent ''b'' (fxRecord 4 EntityUnchanged 40) fxCutoff)]))"
    if b: "b \<in> set ?bs" for b
    unfolding bs [OF b] using v t by (simp add: fx_stored(2))
  then have "\<exists>s1. Append memPebble fxCodec ?bs fxStore = (s1, None)"
    unfolding fxCodec_def by (intro mem_append ballI)
  with plan show ?thesis by (auto simp: PruneOlderThan_def applyPrune_def Let_def memPebble_def)
qed

lemma fx_deletes_last: "deletes_last (numbered 0 (map (stampCommit 1) fxLife))"
  unfolding deletes_last_def fx_entRows by (auto simp: fxLife_def fxRecord_def stampCommit_def)

lemma fx_steady: "steady ''h'' (numbered 0 (map (stampCommit 1) fxLife))"
  unfolding steady_def fx_entRows by (simp add: fxLife_def fxRecord_def stampCommit_def entStep_def less_Suc_eq Let_def)

theorem pruning_keeps_what_is_alive_witness:
  "\<exists>s' r L'. PruneOlderThan memPebble fxCodec (\<lambda>n. ''b'') fxCutoff fxStore = (s', Inr r) \<and>
     stored fxCodec (map_of (s_db s')) (s_seq s') L' \<and> tp_entities (replayLog L') ''h'' =
       Some \<lparr>ent_ID = ''h'', ent_Type = ''host'', ent_Identity = [(''host.id'', StringValue ''h'')], ent_Attributes = [], ent_SchemaURL = []\<rparr>"
proof -
  let ?L = "numbered 0 (map (stampCommit 1) fxLife)"
  obtain s' r where pr: "PruneOlderThan memPebble fxCodec (\<lambda>n. ''b'') fxCutoff fxStore = (s', Inr r)" using fx_prune by blast
  have room: "unat (s_seq fxStore) + length (numbered 0 (map (stampCommit 1) fxLife)) < 2 ^ 64" by (simp add: fx_stored(2) fxLife_def)
  have w: "wire_time fxCutoff" by (simp add: wire_time_def fxCutoff_def int64_ok_def)
  have h: "tp_entities (replayLog ?L) ''h'' =
      Some \<lparr>ent_ID = ''h'', ent_Type = ''host'', ent_Identity = [(''host.id'', StringValue ''h'')], ent_Attributes = [], ent_SchemaURL = []\<rparr>"
    unfolding replayLog_entity fx_entRows by (simp add: fxLife_def fxRecord_def stampCommit_def entStep_def)
  obtain L' where L': "stored fxCodec (map_of (s_db s')) (s_seq s') L'"
      "\<forall>i. entRows i ?L = [] \<or> ee_ChangeType (snd (last (entRows i ?L))) \<noteq> EntityUnchanged \<or> steady i ?L \<longrightarrow>
         tp_entities (replayLog L') i = tp_entities (replayLog ?L) i"
    using pruning_keeps_what_is_alive [OF fx_laws fx_stored(1) fx_deletes_last room w pr] by (elim exE conjE)
  have "tp_entities (replayLog L') ''h'' = tp_entities (replayLog ?L) ''h''" using L'(2) fx_steady by blast
  with h pr L'(1) show ?thesis by metis
qed

section \<open>Restart\<close>

lemma get_contents: "log_laws pb contents pm \<Longrightarrow> pb_get pb d k = Inr r \<Longrightarrow> r = contents d k"
  by (rule pebble_laws.get_law [OF log_laws.axioms(1)])

lemma recover_same:
  "recoverHorizon pb s = Inr s' \<Longrightarrow> s_db s' = s_db s \<and> s_seq s' = s_seq s"
  "recoverSnapshotSeq pb s = Inr s' \<Longrightarrow> s_db s' = s_db s \<and> s_seq s' = s_seq s \<and> s_pruneHorizon s' = s_pruneHorizon s"
  by (auto simp: recoverHorizon_def recoverSnapshotSeq_def split: sum.splits option.splits if_splits)

lemma checkFormat_same:
  assumes "log_laws pb contents pm" and "checkFormat pb s = Inr s'"
  shows "s_seq s' = s_seq s \<and> s_pruneHorizon s' = s_pruneHorizon s \<and>
    (contents (s_db s') = contents (s_db s) \<or> contents (s_db s') = (contents (s_db s))(metaFormatKey \<mapsto> encodeU64 formatVersion))"
  using assms pebble_laws.commit_law [OF log_laws.axioms(1) [OF assms(1)]]
  by (auto simp: checkFormat_def split: sum.splits option.splits if_splits)

lemma stored_format:
  "stored pm (C(metaFormatKey \<mapsto> v)) n L = stored pm C n L"
  by (simp add: stored_def logged_meta indexed_meta sequenced_def)

lemma reopened_store:
  assumes laws: "log_laws pb contents pm" and L: "sequenced (contents d) n L" and op: "openStore pb d cfg ro = Inr s'"
  shows "s_seq s' = n" and "contents (s_db s') = contents d \<or> contents (s_db s') = (contents d)(metaFormatKey \<mapsto> encodeU64 formatVersion)"
proof -
  let ?z = "\<lparr>s_db = d, s_cfg = cfg, s_readOnly = ro, s_seq = 0, s_pruneHorizon = 0, s_prunedEvents = 0, s_prunedBytes = 0,
    s_snapshotSeq = 0, s_snapshotsWritten = 0\<rparr>"
  obtain s1 where cf: "checkFormat pb ?z = Inr s1" and rs: "recoverSeq pb s1 = Inr s'"
    using op by (auto simp: openStore_def split: sum.splits)
  have c: "contents (s_db s1) = contents d \<or> contents (s_db s1) = (contents d)(metaFormatKey \<mapsto> encodeU64 formatVersion)"
    using checkFormat_same [OF laws cf] by simp
  then have q: "contents (s_db s1) metaSeqKey = Some (encodeU64 n) \<or> contents (s_db s1) metaSeqKey = None \<and> n = 0"
    using L by (auto simp: sequenced_def meta_defs)
  obtain r where r: "pb_get pb (s_db s1) metaSeqKey = Inr r" using rs by (auto simp: recoverSeq_def split: sum.splits)
  then have rc: "r = contents (s_db s1) metaSeqKey" by (rule get_contents [OF laws])
  have same: "s_seq s' = n \<and> s_db s' = s_db s1"
  proof (cases r)
    case None
    then show ?thesis using rs r rc q by (auto simp: recoverSeq_def)
  next
    case (Some v)
    then have "v = encodeU64 n" using q rc by auto
    then show ?thesis using rs r Some recover_same(1) recover_same(2)
      by (fastforce simp: recoverSeq_def split: sum.splits if_splits)
  qed
  then show "s_seq s' = n" by simp
  show "contents (s_db s') = contents d \<or> contents (s_db s') = (contents d)(metaFormatKey \<mapsto> encodeU64 formatVersion)"
    using same c by simp
qed

lemma reopened_log:
  assumes laws: "log_laws pb contents pm" and L: "stored pm (contents d) n L" and op: "openStore pb d cfg ro = Inr s'"
  shows "s_seq s' = n \<and> stored pm (contents (s_db s')) (s_seq s') L" and "k \<noteq> metaFormatKey \<Longrightarrow> contents (s_db s') k = contents d k"
proof -
  have q: "sequenced (contents d) n L" using L by (simp add: stored_def)
  note R = reopened_store [OF laws q op]
  show "s_seq s' = n \<and> stored pm (contents (s_db s')) (s_seq s') L" using R L by (auto simp: stored_format)
  show "contents (s_db s') k = contents d k" if "k \<noteq> metaFormatKey" using R(2) that by auto
qed

text \<open>
  C22. A restart finds the log it left: opening the database of a store recovers the sequence
  counter, so that the next append continues the numbering, and the same records and index rows.
\<close>

theorem reopening_recovers_the_log:
  assumes laws: "log_laws pb contents pm" and L: "stored pm (contents (s_db s)) (s_seq s) L" and op: "openStore pb (s_db s) cfg ro = Inr s'"
  shows "s_seq s' = s_seq s \<and> stored pm (contents (s_db s')) (s_seq s') L"
  by (rule reopened_log(1) [OF assms])

lemma stage_meta:
  assumes "stageEvents pm cfg c i evs (l, b) = Inr (l', b')" and "\<not> has_prefix k primaryPrefix" and "\<not> isIndex k"
  shows "kvApply b' C k = kvApply b C k"
  using assms(1)
proof (induction evs arbitrary: i l b)
  case (Cons ev evs)
  from Cons.prems obtain m ops where v: "validateFor cfg ev = None" and ops: "indexEvent (stampCommit c ev) (l + 1) = Inr ops"
    and rest: "stageEvents pm cfg c (Suc i) evs (l + 1, b @ KvSet (primaryKey (l + 1)) m # ops) = Inr (l', b')"
    by (auto simp: Let_def split: option.splits sum.splits)
  have "ops = map (\<lambda>(k, v). KvSet k v) (indexRows (stampCommit c ev) (l + 1))" using indexEvent_valid [OF v] ops by force
  moreover have "map_of (indexRows (stampCommit c ev) (l + 1)) k = None"
    using assms(3) indexRows_keys by (metis not_None_eq map_of_SomeD)
  moreover have "k \<noteq> primaryKey (l + 1)" using assms(2) by auto
  ultimately show ?case using Cons.IH [OF rest] by (simp add: kvApply_indexRows)
qed simp

lemma append_meta:
  assumes "log_laws pb contents pm" and "Append pb pm evs s = (s', None)" and "\<not> has_prefix k primaryPrefix" and "\<not> isIndex k" and "k \<noteq> metaSeqKey"
  shows "contents (s_db s') k = contents (s_db s) k"
proof (rule log_laws.Append_cases [OF assms(1,2)])
  fix l b d
  assume "stageEvents pm (s_cfg s) (s_seq s + 1) 0 evs (s_seq s, []) = Inr (l, b)"
    "contents d = kvApply (b @ [KvSet metaSeqKey (encodeU64 l)]) (contents (s_db s))" "s' = s\<lparr>s_db := d, s_seq := l\<rparr>"
  then show ?thesis using stage_meta [OF _ assms(3,4), of pm "s_cfg s" "s_seq s + 1" 0 evs "s_seq s" "[]" l b "contents (s_db s)"] assms(5)
    by simp
qed simp_all

lemma mem_open:
  assumes q: "map_of d metaSeqKey = Some (encodeU64 n)" and f: "map_of d metaFormatKey = None"
    and h: "map_of d metaPruneHorizonKey = None \<or> map_of d metaPruneHorizonKey = Some (encodeU64 m)"
  shows "\<exists>s'. openStore memPebble d cfg False = Inr s'"
proof -
  show ?thesis using q f h
    by (auto simp: openStore_def checkFormat_def recoverSeq_def recoverHorizon_def recoverSnapshotSeq_def memPebble_def map_of_memStep meta_defs
      split: option.splits)
qed

lemma fx_markers: "map_of (s_db fxStore) metaSeqKey = Some (encodeU64 4)" "map_of (s_db fxStore) metaFormatKey = None"
proof -
  show "map_of (s_db fxStore) metaSeqKey = Some (encodeU64 4)" using fx_stored(1,2) by (simp add: stored_def sequenced_def)
  obtain s where s: "Append memPebble fxCodec fxLife (emptyStore False) = (s, None)" using fx_append by blast
  then show "map_of (s_db fxStore) metaFormatKey = None" using append_meta [OF fx_laws s] by (simp add: fxStore_def emptyStore_def)
qed

theorem reopening_recovers_the_log_witness:
  "\<exists>s'. openStore memPebble (s_db fxStore) DefaultConfig False = Inr s' \<and> s_seq s' = 4"
proof -
  obtain s where s: "Append memPebble fxCodec fxLife (emptyStore False) = (s, None)" using fx_append by blast
  have "map_of (s_db fxStore) metaPruneHorizonKey = None" using append_meta [OF fx_laws s] s by (simp add: fxStore_def emptyStore_def)
  then have "\<exists>s'. openStore memPebble (s_db fxStore) DefaultConfig False = Inr s'" by (intro mem_open [OF fx_markers] disjI1)
  then show ?thesis using reopening_recovers_the_log [OF fx_laws fx_stored(1)] fx_stored(2) by metis
qed

lemma sint_unixNano: "sint (of_int (unixNano t) :: 64 word) = unixNano t"
proof -
  have "- (2 ^ 63) \<le> unixNano t" "unixNano t < 2 ^ 63" by (simp_all add: unixNano_def wrap64_def)
  then show ?thesis by (simp add: signed_of_int signed_take_bit_int_eq_self)
qed

lemma reopened_horizon:
  assumes laws: "log_laws pb contents pm" and op: "openStore pb d cfg ro = Inr s"
    and m: "contents d metaSeqKey = Some (encodeU64 m)" and h: "contents d metaPruneHorizonKey = Some (encodeU64 h)"
  shows "s_pruneHorizon s = sint h"
proof -
  let ?z = "\<lparr>s_db = d, s_cfg = cfg, s_readOnly = ro, s_seq = 0, s_pruneHorizon = 0, s_prunedEvents = 0, s_prunedBytes = 0,
    s_snapshotSeq = 0, s_snapshotsWritten = 0\<rparr>"
  obtain s1 where cf: "checkFormat pb ?z = Inr s1" and rs: "recoverSeq pb s1 = Inr s"
    using op by (auto simp: openStore_def split: sum.splits)
  have "metaFormatKey \<noteq> metaPruneHorizonKey" by (simp add: meta_defs)
  then have C: "contents (s_db s1) metaSeqKey = Some (encodeU64 m)" "contents (s_db s1) metaPruneHorizonKey = Some (encodeU64 h)"
    using checkFormat_same [OF laws cf] m h by auto
  have "pb_get pb (s_db s1) metaSeqKey = Inr (Some (encodeU64 m))"
    using rs get_contents [OF laws, of "s_db s1" metaSeqKey] C(1) by (auto simp: recoverSeq_def split: sum.splits)
  with rs obtain s2 where rh: "recoverHorizon pb (s1\<lparr>s_seq := m\<rparr>) = Inr s2" and sn: "recoverSnapshotSeq pb s2 = Inr s"
    by (auto simp: recoverSeq_def split: sum.splits)
  have "pb_get pb (s_db s1) metaPruneHorizonKey = Inr (Some (encodeU64 h))"
    using rh get_contents [OF laws, of "s_db s1" metaPruneHorizonKey] C(2) by (auto simp: recoverHorizon_def split: sum.splits)
  with rh have "s_pruneHorizon s2 = sint h" by (auto simp: recoverHorizon_def)
  with recover_same(2) [OF sn] show ?thesis by simp
qed

lemma eventKeys_not_meta: "k \<in> set (eventKeys ev n) \<Longrightarrow> has_prefix k primaryPrefix \<or> isIndex k"
  by (auto simp: eventKeys_def split: option.splits)

lemma pruned_markers:
  assumes laws: "log_laws pb contents pm" and L: "stored pm (contents (s_db s)) (s_seq s) L" and ne: "s_seq s \<noteq> 0"
    and pr: "PruneOlderThan pb pm newID cutoff s = (s', Inr (n, b))" and n: "n \<noteq> 0"
  shows "s_pruneHorizon s' = max (s_pruneHorizon s) (unixNano cutoff) \<and> (\<exists>m. contents (s_db s') metaSeqKey = Some (encodeU64 m)) \<and>
    contents (s_db s') metaPruneHorizonKey = Some (encodeU64 (of_int (unixNano cutoff))) \<and>
    contents (s_db s') metaFormatKey = contents (s_db s) metaFormatKey"
proof -
  obtain plan where plan: "planPrune pb pm cutoff (s_db s) = Inr plan" and ap: "applyPrune pb pm newID cutoff plan s = (s', Inr (n, b))"
    using pr by (auto simp: PruneOlderThan_def split: sum.splits)
  have ev: "pp_events plan \<noteq> 0" using ap n by (auto simp: applyPrune_def split: if_splits)
  let ?bs = "map (\<lambda>(n, ev). baselineEvent (newID n) ev cutoff) (enumerate 0 (pp_survivors plan))"
  let ?h = "encodeU64 (of_int (unixNano cutoff))"
  obtain s1 d where a: "Append pb pm ?bs s = (s1, None)"
    and c: "pb_commit pb (s_db s1) (pp_deletes plan @ [KvSet metaPruneHorizonKey ?h]) = Inr d"
    and s': "s_db s' = d" "s_pruneHorizon s' = (if unixNano cutoff > s_pruneHorizon s1 then unixNano cutoff else s_pruneHorizon s1)"
    using ap ev by (auto simp: applyPrune_def Let_def split: prod.splits option.splits sum.splits)
  have h1: "s_pruneHorizon s1 = s_pruneHorizon s" using a by (auto simp: Append_def split: if_splits sum.splits)
  have C: "contents d = (kvApply (pp_deletes plan) (contents (s_db s1)))(metaPruneHorizonKey \<mapsto> ?h)"
    using pebble_laws.commit_law [OF log_laws.axioms(1) [OF laws] c] by simp
  have lg: "logged pm (contents (s_db s)) L" and sq: "contents (s_db s) metaSeqKey = Some (encodeU64 (s_seq s))"
    using L ne by (auto simp: stored_def sequenced_def)
  have del: "kvApply (pp_deletes plan) (contents (s_db s1)) k = contents (s_db s1) k" if "\<not> has_prefix k primaryPrefix" "\<not> isIndex k" for k
  proof (rule log_laws.plan_log [OF laws lg plan])
    fix D assume "\<forall>C. kvApply (pp_deletes plan) C = (\<lambda>k. if k \<in> {k. \<exists>(n, ev) \<in> set L. n \<in> D \<and> k \<in> set (eventKeys ev n)} then None else C k)"
    then show ?thesis using eventKeys_not_meta that by fastforce
  qed
  have "\<exists>m. contents (s_db s1) metaSeqKey = Some (encodeU64 m)"
    by (rule log_laws.Append_cases [OF laws a]) (use sq in auto)
  moreover have "contents (s_db s1) metaFormatKey = contents (s_db s) metaFormatKey" by (rule append_meta [OF laws a]) simp_all
  moreover have "metaFormatKey \<noteq> metaPruneHorizonKey" by (simp add: meta_defs)
  ultimately show ?thesis using s' h1 C del by (auto simp: max_def)
qed

text \<open>
  The prune horizon of a running store is the latest cutoff it has applied, but what a restart
  recovers is the last one: after a prune that dropped records, the reopened store has the horizon
  of that prune, even where an earlier prune had gone further.
\<close>

theorem horizon_after_restart_is_the_last_cutoff:
  assumes laws: "log_laws pb contents pm" and L: "stored pm (contents (s_db s)) (s_seq s) L" and ne: "s_seq s \<noteq> 0"
    and pr: "PruneOlderThan pb pm newID cutoff s = (s', Inr (n, b))" and n: "n \<noteq> 0" and op: "openStore pb (s_db s') cfg ro = Inr s2"
  shows "s_pruneHorizon s' = max (s_pruneHorizon s) (unixNano cutoff) \<and> s_pruneHorizon s2 = unixNano cutoff"
proof -
  note M = pruned_markers [OF laws L ne pr n]
  then obtain m where m: "contents (s_db s') metaSeqKey = Some (encodeU64 m)" by blast
  from reopened_horizon [OF laws op m] M show ?thesis by (simp add: sint_unixNano)
qed

lemma fx_pruned:
  assumes pr: "PruneOlderThan memPebble fxCodec newID fxCutoff fxStore = (s', Inr (n, b))"
  shows "n \<noteq> 0"
proof
  assume "n = 0"
  let ?L = "numbered 0 (map (stampCommit 1) fxLife)"
  have lg: "logged fxCodec (map_of (s_db fxStore)) ?L" using fx_stored(1) by (simp add: stored_def)
  obtain plan where plan: "planPrune memPebble fxCodec fxCutoff (s_db fxStore) = Inr plan"
    and ap: "applyPrune memPebble fxCodec newID fxCutoff plan fxStore = (s', Inr (n, b))"
    using pr by (auto simp: PruneOlderThan_def split: sum.splits)
  have z: "pp_events plan = 0"
    using ap \<open>n = 0\<close> by (auto simp: applyPrune_def Let_def split: if_splits prod.splits option.splits sum.splits)
  show False
  proof (rule log_laws.plan_log [OF fx_laws lg plan])
    fix D assume "survives ?L fxCutoff D" "(pp_events plan = 0) = (D = {})"
    moreover have "(1, stampCommit 1 (fxRecord 1 EntityCreated 10)) \<in> set ?L" by (simp add: fxLife_def)
    moreover have "recordedAtOf (stampCommit 1 (fxRecord 1 EntityCreated 10)) < fxCutoff"
      by (simp add: recordedAtOf_def stampCommit_def fxRecord_def fxCutoff_def)
    ultimately have "current ?L (stampCommit 1 (fxRecord 1 EntityCreated 10))" using z unfolding survives_def by blast
    from fx_current [OF this] show False by (simp add: stampCommit_def fxRecord_def entityEvent_def zeroEntityEvent_def)
  qed
qed

theorem horizon_after_restart_is_the_last_cutoff_witness:
  "\<exists>s' n b s2. PruneOlderThan memPebble fxCodec (\<lambda>n. ''b'') fxCutoff fxStore = (s', Inr (n, b)) \<and>
     openStore memPebble (s_db s') DefaultConfig False = Inr s2 \<and> s_pruneHorizon s2 = 35"
proof -
  obtain s' n b where pr: "PruneOlderThan memPebble fxCodec (\<lambda>n. ''b'') fxCutoff fxStore = (s', Inr (n, b))" using fx_prune by auto
  note n = fx_pruned [OF pr]
  have z: "s_seq fxStore \<noteq> 0" by (simp add: fx_stored(2))
  note M = pruned_markers [OF fx_laws fx_stored(1) z pr n]
  then obtain m where m: "map_of (s_db s') metaSeqKey = Some (encodeU64 m)" by blast
  have "\<exists>s2. openStore memPebble (s_db s') DefaultConfig False = Inr s2"
    by (rule mem_open [OF m]) (use M fx_markers(2) in auto)
  then obtain s2 where op: "openStore memPebble (s_db s') DefaultConfig False = Inr s2" by blast
  have "unixNano fxCutoff = 35" by (simp add: unixNano_def fxCutoff_def int64_ok_def)
  with horizon_after_restart_is_the_last_cutoff [OF fx_laws fx_stored(1) z pr n op] pr op show ?thesis by auto
qed

end
