(* ===== verification/Change_Log.thy ===== *)
theory Change_Log
  imports Change_Expiry Store_Theorems
begin

text \<open>
  The engine over the event log: what the engine needs of its appender (\<open>event_log\<close>), that the
  store provides it, and that a served engine's projection and what its subscribers were told
  are those of the log on disk.
\<close>

section \<open>Definitions\<close>

text \<open>The store as the engine's appender; \<open>errText\<close> is the text of an error.\<close>

definition storeAppend :: "'d pebble \<Rightarrow> proto \<Rightarrow> (StoreErr \<Rightarrow> string) \<Rightarrow> 'd Store \<Rightarrow> Event list \<Rightarrow> string + ('d Store \<times> 64 word)" where
  "storeAppend pb pm errText s evs =
     (case Append pb pm evs s of
        (s', None) \<Rightarrow> Inr (s', Sequence s + 1)
      | (s', Some err) \<Rightarrow> Inl (errText err))"

definition storeEnv :: "'d pebble \<Rightarrow> proto \<Rightarrow> (StoreErr \<Rightarrow> string) \<Rightarrow> (nat \<Rightarrow> string) \<Rightarrow> time \<Rightarrow> 'd Store env" where
  "storeEnv pb pm errText ulid t = \<lparr>env_now = t, env_ulid = ulid, env_append = storeAppend pb pm errText\<rparr>"

text \<open>The sequence numbers left.\<close>

definition storeRoom :: "'d Store \<Rightarrow> nat \<Rightarrow> bool" where
  "storeRoom s n = (unat (Sequence s) + n < 2 ^ 64)"

text \<open>
  An engine as the server drives it: batches from the receivers, the periodic sweep, the change
  feed, and the settings and the liveness restored at boot.
\<close>

inductive driven :: "(time \<Rightarrow> 'a env) \<Rightarrow> ('a \<Rightarrow> nat \<Rightarrow> bool) \<Rightarrow> 'a \<Rightarrow> 'a Engine \<Rightarrow> bool" for envAt room a where
  start: "driven envAt room a (NewEngine (NewWithTombstoneCap n) a)"
| with_buffer: "driven envAt room a e \<Longrightarrow> driven envAt room a (WithRelationBuffer ttl e)"
| set_discard: "driven envAt room a e \<Longrightarrow> driven envAt room a (SetDiscardReporter fn e)"
| set_conflict: "driven envAt room a e \<Longrightarrow> driven envAt room a (SetIdentityAliasConflictReporter fn e)"
| set_promise: "driven envAt room a e \<Longrightarrow> driven envAt room a (SetPromiseReporter fn e)"
| restore: "driven envAt room a e \<Longrightarrow> driven envAt room a (RestoreLiveness (envAt t) snap e)"
| subscribe: "driven envAt room a e \<Longrightarrow> driven envAt room a (fst (Subscribe e))"
| unsubscribe: "driven envAt room a e \<Longrightarrow> driven envAt room a (Unsubscribe i e)"
| batch: "driven envAt room a e \<Longrightarrow> room (e_appender e) (length (batchEvents (envAt t) ops e)) \<Longrightarrow>
    driven envAt room a (fst (Batch (envAt t) ops e))"
| sweep: "driven envAt room a e \<Longrightarrow> room (e_appender e) (length (sweepEvents (envAt t) e)) \<Longrightarrow>
    driven envAt room a (fst (Sweep (envAt t) e))"

text \<open>A history in which every heartbeat is one of a live entity.\<close>

fun live_beats :: "Topology \<Rightarrow> Event list \<Rightarrow> bool" where
  "live_beats T [] = True"
| "live_beats T (ev # evs) =
     ((case ev_Entity ev of
         Some ee \<Rightarrow> ee_ChangeType ee = EntityUnchanged \<longrightarrow> tp_entities T (ent_ID (ee_Entity ee)) \<noteq> None
       | None \<Rightarrow> True) \<and> live_beats (spec_apply ev T) evs)"

text \<open>The projection and the deliveries of an engine agree with the history of its log.\<close>

definition mirrors :: "'a Engine \<Rightarrow> Event list \<Rightarrow> bool" where
  "mirrors e H =
     (view (e_graph e) = spec_replay H emptyTopology \<and> live_beats emptyTopology H \<and>
      (\<forall>(i, ev, hp) \<in> set (e_delivered e). onWire ev \<in> set H))"

section \<open>Histories\<close>

lemma live_beats_append: "live_beats T (H @ evs) \<longleftrightarrow> live_beats T H \<and> live_beats (spec_replay H T) evs"
  by (induction H arbitrary: T) (auto simp: spec_replay_def)

lemma live_beats_no_dead:
  assumes "live_beats T evs" and "\<forall>i \<in> set dead. tp_entities T i = None"
  shows "no_dead_heartbeat dead evs"
  using assms
proof (induction evs arbitrary: T dead)
  case (Cons ev evs)
  show ?case
  proof (cases "ev_Entity ev")
    case None
    then have "tp_entities (spec_apply ev T) = tp_entities T" by (auto simp: spec_apply_def spec_relation_def Let_def split: option.splits ChangeType.splits)
    with Cons None show ?thesis by simp
  next
    case (Some ee)
    let ?i = "ent_ID (ee_Entity ee)"
    let ?dead = "if ee_ChangeType ee = EntityUnchanged then dead else if ee_ChangeType ee = EntityDeleted then ?i # dead
      else if put_change (ee_ChangeType ee) then removeAll ?i dead else dead"
    have "no_dead_heartbeat ?dead evs"
      by (rule Cons.IH [of "spec_apply ev T"])
        (use Cons.prems Some in \<open>auto simp: spec_apply_def spec_entity_def Let_def put_change_def split: ChangeType.splits\<close>)
    with Cons.prems Some show ?thesis by (auto simp: Let_def)
  qed
qed simp

lemma ok_events_live_beats: "ok_events hid T evs \<Longrightarrow> live_beats T evs"
  by (induction evs arbitrary: T) (auto simp: ev_ok_def Let_def split: option.splits)

lemma ev_ok_proper: "ev_ok hid T ev \<Longrightarrow> proper ev"
  by (auto simp: ev_ok_def proper_def Let_def split: option.splits ChangeType.splits)

lemma ok_events_proper: "ok_events hid T evs \<Longrightarrow> \<forall>ev \<in> set evs. proper ev"
  by (induction evs arbitrary: T) (auto dest: ev_ok_proper)

text \<open>What the wire keeps of a record is enough to replay it.\<close>

lemma proper_stamp [simp]: "proper (stampCommit c ev) = proper ev"
  by (simp add: proper_def stampCommit_def split: option.splits)

lemma onWire_proper:
  assumes "proper ev"
  shows "spec_apply (onWire ev) = spec_apply ev" and "live_beats T [onWire ev] = live_beats T [ev]"
proof -
  have "spec_apply (onWire ev) = spec_apply ev \<and> live_beats T [onWire ev] = live_beats T [ev]"
  proof (cases "ev_Entity ev")
    case (Some ee)
    let ?w = "EntityEventFromProto (Some (entityEventToProto ee))"
    have w: "ev_Entity (onWire ev) = Some ?w" using Some by (simp add: onWire_def eventToProto_def EventFromProto_def)
    have "wire_change (ee_ChangeType ee)" using assms Some by (auto simp: proper_def wire_change_def)
    then have f: "ee_ChangeType ?w = ee_ChangeType ee" "ee_Entity ?w = ee_Entity ee"
      by (simp_all add: EntityEventFromProto_def entityEventToProto_def)
    then have "spec_entity ?w = spec_entity ee" by (simp add: spec_entity_def fun_eq_iff)
    with Some w f show ?thesis by (simp add: spec_apply_def fun_eq_iff)
  next
    case None
    then obtain re where re: "ev_Relation ev = Some re" "wire_change (re_ChangeType re)"
      using assms by (auto simp: proper_def wire_change_def split: option.splits)
    let ?w = "RelationEventFromProto (Some (relationEventToProto re))"
    have w: "ev_Entity (onWire ev) = None" "ev_Relation (onWire ev) = Some ?w"
      using None re by (simp_all add: onWire_def eventToProto_def EventFromProto_def)
    have "re_ChangeType ?w = re_ChangeType re" "re_Relation ?w = re_Relation re"
      using re(2) by (simp_all add: RelationEventFromProto_def relationEventToProto_def)
    then have "spec_relation ?w = spec_relation re" by (simp add: spec_relation_def fun_eq_iff)
    with None re w show ?thesis by (simp add: spec_apply_def fun_eq_iff)
  qed
  then show "spec_apply (onWire ev) = spec_apply ev" "live_beats T [onWire ev] = live_beats T [ev]" by simp_all
qed

lemma live_beats_stamp: "live_beats T [stampCommit c ev] = live_beats T [ev]"
  by (auto simp: stampCommit_def split: option.splits)

lemma recorded_history:
  assumes "\<forall>ev \<in> set evs. proper ev"
  shows "spec_replay (map (onWire \<circ> stampCommit c) evs) T = spec_replay evs T"
    and "live_beats T (map (onWire \<circ> stampCommit c) evs) = live_beats T evs"
proof -
  have "spec_replay (map (onWire \<circ> stampCommit c) evs) T = spec_replay evs T \<and>
      live_beats T (map (onWire \<circ> stampCommit c) evs) = live_beats T evs"
    using assms
  proof (induction evs arbitrary: T)
    case (Cons ev evs)
    have p: "proper (stampCommit c ev)" using Cons.prems by simp
    have s: "spec_apply (onWire (stampCommit c ev)) = spec_apply ev" using onWire_proper(1) [OF p] by (simp add: fun_eq_iff)
    have "live_beats T [onWire (stampCommit c ev)] = live_beats T [ev]" using onWire_proper(2) [OF p] live_beats_stamp by blast
    then have "(case ev_Entity (onWire (stampCommit c ev)) of Some ee \<Rightarrow> ee_ChangeType ee = EntityUnchanged \<longrightarrow> tp_entities T (ent_ID (ee_Entity ee)) \<noteq> None
        | None \<Rightarrow> True) = (case ev_Entity ev of Some ee \<Rightarrow> ee_ChangeType ee = EntityUnchanged \<longrightarrow> tp_entities T (ent_ID (ee_Entity ee)) \<noteq> None
        | None \<Rightarrow> True)" by simp
    with Cons s show ?case by (simp add: spec_replay_def)
  qed simp
  then show "spec_replay (map (onWire \<circ> stampCommit c) evs) T = spec_replay evs T"
    "live_beats T (map (onWire \<circ> stampCommit c) evs) = live_beats T evs" by simp_all
qed

lemma settings_appender [simp]:
  "e_appender (WithRelationBuffer ttl e) = e_appender e" "e_appender (SetDiscardReporter fn e) = e_appender e"
  "e_appender (SetIdentityAliasConflictReporter fn e) = e_appender e" "e_appender (SetPromiseReporter fn e) = e_appender e"
  "e_appender (fst (Subscribe e)) = e_appender e" "e_appender (Unsubscribe i e) = e_appender e"
  by (simp_all add: WithRelationBuffer_def SetDiscardReporter_def SetIdentityAliasConflictReporter_def SetPromiseReporter_def Subscribe_def Unsubscribe_def)

lemma settings_mirrors [simp]:
  "mirrors (WithRelationBuffer ttl e) = mirrors e" "mirrors (SetDiscardReporter fn e) = mirrors e"
  "mirrors (SetIdentityAliasConflictReporter fn e) = mirrors e" "mirrors (SetPromiseReporter fn e) = mirrors e"
  "mirrors (fst (Subscribe e)) = mirrors e" "mirrors (Unsubscribe i e) = mirrors e"
  by (simp_all add: mirrors_def fun_eq_iff WithRelationBuffer_def SetDiscardReporter_def SetIdentityAliasConflictReporter_def
    SetPromiseReporter_def Subscribe_def Unsubscribe_def)

section \<open>The interface\<close>

text \<open>
  What the engine relies on: an accepted append extends the history by the events it was given,
  as the wire keeps them, stamped with the commit it returns.
\<close>

locale event_log =
  fixes append :: "'a \<Rightarrow> Event list \<Rightarrow> string + ('a \<times> 64 word)" and holds :: "'a \<Rightarrow> Event list \<Rightarrow> bool"
    and room :: "'a \<Rightarrow> nat \<Rightarrow> bool"
  assumes append_law: "holds a H \<Longrightarrow> room a (length evs) \<Longrightarrow> evs \<noteq> [] \<Longrightarrow> append a evs = Inr (a', seq) \<Longrightarrow>
    holds a' (H @ map (onWire \<circ> stampCommit seq) evs)"
begin

lemma flushed_mirrors:
  assumes f: "flushed env ses e e' ok" and a: "env_append env = append" and h: "holds (e_appender e) H" and m: "mirrors e H"
    and r: "room (e_appender e) (length ses)" and o: "ok_events hid (view (e_graph e)) (map fst ses)"
  shows "\<exists>H'. holds (e_appender e') H' \<and> mirrors e' H'"
  using f
proof cases
  case nothing
  with h m show ?thesis by (auto simp: mirrors_def)
next
  case (refused a)
  with h m show ?thesis by (auto simp: mirrors_def)
next
  case (accepted app seq)
  let ?H = "H @ map (onWire \<circ> stampCommit seq) (map fst ses)"
  have p: "\<forall>ev \<in> set (map fst ses). proper ev" by (rule ok_events_proper [OF o])
  have "holds app ?H"
    by (rule append_law [OF h]) (use r accepted a in simp_all)
  moreover have "spec_replay ?H emptyTopology = view (e_graph e')"
    using m accepted(4) recorded_history(1) [OF p] by (simp add: mirrors_def spec_replay_append)
  moreover have "live_beats emptyTopology ?H"
    using m ok_events_live_beats [OF o] recorded_history(2) [OF p] by (simp add: mirrors_def live_beats_append)
  moreover have "\<forall>(i, ev, hp) \<in> set (told (e_subs e) seq ses). onWire ev \<in> set ?H" by (force simp: told_def)
  ultimately show ?thesis using m accepted by (intro exI [of _ ?H]) (auto simp: mirrors_def)
qed

lemma driven_mirrors:
  assumes env: "\<And>t. env_append (envAt t) = append" "\<And>t. env_ulid (envAt t) = ulid" and u: "ulid_ok ulid" and h: "holds a []"
    and d: "driven envAt room a e"
  shows "reach ulid e \<and> (\<exists>H. holds (e_appender e) H \<and> mirrors e H)"
  using d
proof induction
  case (start n)
  have "mirrors (NewEngine (NewWithTombstoneCap n) a) []" by (simp add: mirrors_def NewEngine_def spec_replay_def)
  moreover have "holds (e_appender (NewEngine (NewWithTombstoneCap n) a)) []" using h by (simp add: NewEngine_def)
  ultimately show ?case by (intro conjI exI [of _ "[]"] reach.new)
next
  case (restore e t snap)
  have "ecore (RestoreLiveness (envAt t) snap e) = ecore e"
    using RestoreLiveness_inv reach_idle [OF u] restore.IH unfolding idle_ok_def by blast
  then have "e_appender (RestoreLiveness (envAt t) snap e) = e_appender e" "mirrors (RestoreLiveness (envAt t) snap e) = mirrors e"
    by (simp_all add: ecore_def mirrors_def fun_eq_iff)
  with restore.IH show ?case by (auto intro: reach.restore)
next
  case (batch e t ops)
  obtain e' err where b: "Batch (envAt t) ops e = (e', err)" by fastforce
  have r: "reach (env_ulid (envAt t)) e" and u': "ulid_ok (env_ulid (envAt t))" using batch.IH u env(2) by simp_all
  note E = Batch_events [OF u' r b]
  from E(3) obtain hid where o: "ok_events hid (view (e_graph e)) (map fst (batchEvents (envAt t) ops e))" by blast
  from batch.IH obtain H where "holds (e_appender e) H" "mirrors e H" by blast
  from flushed_mirrors [OF E(1) env(1) this batch.hyps(2) o] b reach.batch [OF r refl, of ops] env(2) show ?case by simp
next
  case (sweep e t)
  obtain e' res err where b: "Sweep (envAt t) e = (e', res, err)" by (metis prod_cases3)
  have r: "reach (env_ulid (envAt t)) e" and u': "ulid_ok (env_ulid (envAt t))" using sweep.IH u env(2) by simp_all
  note E = Sweep_events [OF u' r b]
  from E(2) obtain hid where o: "ok_events hid (view (e_graph e)) (map fst (sweepEvents (envAt t) e))" by blast
  from sweep.IH obtain H where "holds (e_appender e) H" "mirrors e H" by blast
  from flushed_mirrors [OF E(1) env(1) this sweep.hyps(2) o] b reach.sweep [OF r refl] env(2) show ?case by simp
qed (auto intro: reach.intros)

end

section \<open>The store as the engine's log\<close>

lemma map_snd_numbered [simp]: "map snd (numbered l evs) = evs"
  by (induction evs arbitrary: l) auto

text \<open>The store holds a history: the records of its log are the events of the history in order.\<close>

definition storeHolds :: "('d \<Rightarrow> string \<rightharpoonup> string) \<Rightarrow> proto \<Rightarrow> 'd Store \<Rightarrow> Event list \<Rightarrow> bool" where
  "storeHolds contents pm s H =
     (\<exists>L. logged pm (contents (s_db s)) L \<and> sequenced (contents (s_db s)) (s_seq s) L \<and> map snd L = H)"

sublocale log_laws \<subseteq> engine_log: event_log "storeAppend pb pm errText" "storeHolds contents pm" storeRoom for errText
proof unfold_locales
  fix s H evs s' seq
  assume h: "storeHolds contents pm s H" and r: "storeRoom s (length evs)" and a: "storeAppend pb pm errText s evs = Inr (s', seq)"
  obtain L where L: "logged pm (contents (s_db s)) L" "sequenced (contents (s_db s)) (s_seq s) L" "map snd L = H"
    using h by (auto simp: storeHolds_def)
  have ap: "Append pb pm evs s = (s', None)" and seq: "seq = s_seq s + 1"
    using a by (auto simp: storeAppend_def Sequence_def split: prod.splits option.splits)
  have "unat (s_seq s) + length evs < 2 ^ 64" using r by (simp add: storeRoom_def Sequence_def)
  from append_log [OF ap L(1,2) this] L(3) seq show "storeHolds contents pm s' (H @ map (onWire \<circ> stampCommit seq) evs)"
    unfolding storeHolds_def by (metis map_append map_snd_numbered)
qed

lemma storeHolds_empty: "stored pm (contents (s_db s)) (s_seq s) [] \<Longrightarrow> storeHolds contents pm s []"
  by (auto simp: storeHolds_def stored_def)

context log_laws
begin

lemma served:
  assumes "ulid_ok ulid" and "stored pm (contents (s_db s)) (s_seq s) []" and "driven (storeEnv pb pm errText ulid) storeRoom s e"
  shows "reach ulid e" and "\<exists>H. storeHolds contents pm (e_appender e) H \<and> mirrors e H"
  using engine_log.driven_mirrors [of "storeEnv pb pm errText ulid" errText ulid s e] assms(1,3) storeHolds_empty [of pm contents s, OF assms(2)]
  by (simp_all add: storeEnv_def)

end

text \<open>
  C1. The log is the truth of a served engine: however it is driven, with batches, sweeps,
  subscriptions and a restored liveness, over a store that starts empty and whose sequence does
  not run out, the live topology is exactly what replaying the records on disk gives, and every
  event a subscriber was told of is one of these records.
\<close>

theorem served_topology_is_the_log:
  assumes "log_laws pb contents pm" and "ulid_ok ulid" and "stored pm (contents (s_db s)) (s_seq s) []"
    and "driven (storeEnv pb pm errText ulid) storeRoom s e"
  shows "\<exists>L. logged pm (contents (s_db (e_appender e))) L \<and> sequenced (contents (s_db (e_appender e))) (s_seq (e_appender e)) L \<and>
    view (e_graph e) = replayLog L \<and> (\<forall>(i, ev, hp) \<in> set (e_delivered e). \<exists>n. (n, onWire ev) \<in> set L)"
proof -
  obtain H where h: "storeHolds contents pm (e_appender e) H" and m: "mirrors e H" using log_laws.served(2) [OF assms] by blast
  then obtain L where L: "logged pm (contents (s_db (e_appender e))) L" "sequenced (contents (s_db (e_appender e))) (s_seq (e_appender e)) L"
    "map snd L = H" by (auto simp: storeHolds_def)
  have "\<exists>n. (n, ev) \<in> set L" if "ev \<in> set H" for ev using that L(3) by force
  with L m show ?thesis unfolding mirrors_def replayLog_def by fastforce
qed

definition fxFirst :: Event where
  "fxFirst = entityEvent (zeroEntityEvent\<lparr>ee_EventID := fxUlid 1, ee_ChangeType := EntityCreated, ee_Entity := observedEntity fxObs (fxUlid 0),
     ee_EventTime := 1, ee_RecordedAt := 1, ee_SchemaVersion := SchemaVersion\<rparr>)"

lemma staged_observed:
  assumes "e_pending e = []"
  shows "e_staged (retryPending env obs (trackDisplayName env i obs prev (referEntity env obs i e))) = e_staged e"
proof -
  have p: "e_pending (fst (promise i t p d e)) = e_pending e" for t p d and e :: "'b Engine"
    by (auto simp: promise_def Let_def)
  have "e_pending (referEntity env obs i e) = e_pending e" by (simp add: referEntity_def Let_def p split: prod.splits) (metis fst_conv p)
  moreover have "e_pending (trackDisplayName env i obs prev e1) = e_pending e1" for e1 :: "'a Engine"
    by (auto simp: trackDisplayName_def Let_def split: option.splits)
  moreover have "ecore (trackDisplayName env i obs prev (referEntity env obs i e)) = ecore e" by simp
  ultimately show ?thesis using assms by (simp add: retryPending_def ecore_def)
qed

lemma fx_batchEvents:
  "batchEvents (storeEnv pb pm errText fxUlid 1) [BObserveEntity fxObs] (NewEngine (NewWithTombstoneCap n) s) = [(fxFirst, False)]"
proof -
  let ?env = "storeEnv pb pm errText fxUlid 1" and ?e = "(NewEngine (NewWithTombstoneCap n) s)\<lparr>e_staged := Some newStaged\<rparr>"
  have c: "classify ?env fxObs ?e = ((EntityCreated, fxUlid 0, [], []), ?e\<lparr>e_ulids := 1\<rparr>)"
    by (simp add: classify_def matchIdentity_def matchTombstone_def NewEngine_def newStaged_def NewWithTombstoneCap_def MatchIdentity_def
      MatchTombstone_def mint_def storeEnv_def gget_def)
  let ?e2 = "?e\<lparr>e_ulids := 2, e_staged := Some (staged_apply fxFirst (newStaged\<lparr>st_events := [(fxFirst, False)]\<rparr>))\<rparr>"
  have ev: "entityEvent (zeroEntityEvent\<lparr>ee_EventID := fxUlid (Suc 0), ee_ChangeType := EntityCreated, ee_Entity := observedEntity fxObs (fxUlid 0),
      ee_EventTime := 1, ee_RecordedAt := 1, ee_SchemaVersion := SchemaVersion, ee_ChangedKeys := [], ee_Scope := []\<rparr>) = fxFirst"
    by (simp add: fxFirst_def zeroEntityEvent_def)
  have "commit ?env fxFirst False (?e\<lparr>e_ulids := Suc (Suc 0)\<rparr>) = (?e2, Inr fxFirst)" by (simp add: commit_def newStaged_def numeral_2_eq_2)
  moreover have "env_ulid ?env = fxUlid" "env_now ?env = 1" "eo_EventTime fxObs = 1" "currentScope (?e\<lparr>e_ulids := k\<rparr>) = []" for k
    by (simp_all add: storeEnv_def fxObs_def currentScope_def newStaged_def)
  ultimately have "fst (observeEntityLocked ?env fxObs ?e) = retryPending ?env fxObs (trackDisplayName ?env (fxUlid 0) fxObs [] (referEntity ?env fxObs (fxUlid 0) ?e2))"
    by (simp add: observeEntityLocked_def c mint_def ev)
  moreover have "e_pending ?e2 = []" by (simp add: NewEngine_def)
  ultimately have "e_staged (fst (observeEntityLocked ?env fxObs ?e)) = e_staged ?e2" by (simp only: staged_observed)
  then show ?thesis by (simp add: batchEvents_def stagedOf_def)
qed

definition fxPm :: proto where
  "fxPm = tableProto [eventToProto (stampCommit 1 fxFirst)]"

definition fxServer :: "time \<Rightarrow> rows Store env" where
  "fxServer = storeEnv memPebble fxPm (\<lambda>err. []) fxUlid"

definition fxServed :: "rows Store Engine" where
  "fxServed = fst (Batch (fxServer 1) [BObserveEntity fxObs] (NewEngine (NewWithTombstoneCap 1) (emptyStore False)))"

lemma fx_served:
  "driven fxServer storeRoom (emptyStore False) fxServed" "tp_entities (view (e_graph fxServed)) (fxUlid 0) = Some (observedEntity fxObs (fxUlid 0))"
proof -
  let ?e = "NewEngine (NewWithTombstoneCap 1) (emptyStore False)"
  have b: "batchEvents (fxServer 1) [BObserveEntity fxObs] ?e = [(fxFirst, False)]" unfolding fxServer_def by (rule fx_batchEvents)
  have "storeRoom (e_appender ?e) (length (batchEvents (fxServer 1) [BObserveEntity fxObs] ?e))"
    unfolding b by (simp add: storeRoom_def NewEngine_def emptyStore_def Sequence_def)
  then show "driven fxServer storeRoom (emptyStore False) fxServed" unfolding fxServed_def by (intro driven.batch driven.start)
  have v: "validateFor (s_cfg (emptyStore False)) fxFirst = None"
    by (simp add: emptyStore_def DefaultConfig_def validateFor_def validateEnvelope_def validateEntityEvent_def fxFirst_def IsEntity_def commonEventChecks_def
      SchemaVersion_def validateEntity_def observedEntity_def fxObs_def validateKeyValues_def fx_known IsValid_def)
  have "\<exists>s'. Append memPebble fxPm [fxFirst] (emptyStore False) = (s', None)"
    unfolding fxPm_def by (rule mem_append) (use v in \<open>simp add: emptyStore_def\<close>)
  then have ap: "\<exists>s' n. env_append (fxServer 1) (e_appender ?e) [fxFirst] = Inr (s', n)"
    by (auto simp: fxServer_def storeEnv_def storeAppend_def NewEngine_def)
  obtain e' err where f: "Batch (fxServer 1) [BObserveEntity fxObs] ?e = (e', err)" by fastforce
  have u: "ulid_ok (env_ulid (fxServer 1))" using fx_ulid_ok by (simp add: fxServer_def storeEnv_def)
  have "flushed (fxServer 1) [(fxFirst, False)] ?e e' (err = None)" using Batch_events(1) [OF u reach.new f] b by simp
  then have "view (e_graph e') = spec_replay [fxFirst] (view (e_graph ?e))" by cases (use ap in auto)
  moreover have "view (e_graph ?e) = emptyTopology" by (simp add: NewEngine_def)
  ultimately show "tp_entities (view (e_graph fxServed)) (fxUlid 0) = Some (observedEntity fxObs (fxUlid 0))"
    using f by (simp add: fxServed_def spec_replay_def spec_apply_def spec_entity_def fxFirst_def observedEntity_def)
qed

theorem served_topology_is_the_log_witness:
  "\<exists>L. logged fxPm (map_of (s_db (e_appender fxServed))) L \<and> tp_entities (replayLog L) (fxUlid 0) = Some (observedEntity fxObs (fxUlid 0))"
proof -
  have l: "log_laws memPebble map_of fxPm" unfolding fxPm_def by (rule mem.log_laws_axioms)
  have "stored fxPm (map_of (s_db (emptyStore False))) (s_seq (emptyStore False)) []" using stored_empty by (simp add: emptyStore_def)
  from served_topology_is_the_log [OF l fx_ulid_ok this fx_served(1) [unfolded fxServer_def]] fx_served(2) show ?thesis by metis
qed

end
