(* ===== verification/Registry_Restart.thy ===== *)
theory Registry_Restart
  imports Registry Change_Log Projection_Reads
begin

text \<open>
  The snapshot that a store keeps of the projection, which is read back as it was written, and the
  life of a tenant's database: the commits of the engine, the snapshots that are taken beside
  them in three unlocked steps (the reference sequence, the sample of the graph, the write), the
  dropped snapshots and the restarts; and what it leaves for the next restart.
\<close>

section \<open>Definitions\<close>

text \<open>The maps of a graph file every entity and every relation under its own id, once.\<close>

definition keyed :: "Graph \<Rightarrow> bool" where
  "keyed g = (wf_maps g \<and> (\<forall>i e. map_of (g_entities g) i = Some e \<longrightarrow> ent_ID e = i) \<and>
     (\<forall>i r. map_of (g_relations g) i = Some r \<longrightarrow> rel_ID r = i))"

text \<open>
  What the engine does when it commits \<open>evs\<close> over the graph \<open>g\<close>: the events are proper, every
  heartbeat is one of an entity that is alive, and the graph after them shows what they say.
\<close>

definition engineCommit :: "Graph \<Rightarrow> Event list \<Rightarrow> Graph \<Rightarrow> bool" where
  "engineCommit g evs g' =
     ((\<forall>ev \<in> set evs. proper ev) \<and> live_beats (view g) evs \<and> keyed g' \<and> view g' = spec_replay evs (view g))"

text \<open>
  A snapshot under way: the reference sequence that was read, and the events that were sampled
  from the graph after it.
\<close>

type_synonym flight = "(64 word \<times> Event list option) option"

inductive tenant_life :: "'d packages \<Rightarrow> ('d \<Rightarrow> string \<rightharpoonup> string) \<Rightarrow> 'd Store \<Rightarrow> Graph \<Rightarrow> flight \<Rightarrow> bool" for pk contents where
  fresh: "logged (pk_proto pk) (contents (s_db st)) [] \<Longrightarrow> sequenced (contents (s_db st)) (s_seq st) [] \<Longrightarrow>
    contents (s_db st) snapshotKey = None \<Longrightarrow> s_seq st + 1 \<noteq> 0 \<Longrightarrow> tenant_life pk contents st (NewWithTombstoneCap cap) None"
| commit: "tenant_life pk contents st g fl \<Longrightarrow> Append (pk_pebble pk) (pk_proto pk) evs st = (st', None) \<Longrightarrow>
    unat (s_seq st) + length evs + 1 < 2 ^ 64 \<Longrightarrow> engineCommit g evs g' \<Longrightarrow> tenant_life pk contents st' g' fl"
| quiet: "tenant_life pk contents st g fl \<Longrightarrow> keyed g' \<Longrightarrow> view g' = view g \<Longrightarrow> tenant_life pk contents st g' fl"
| reference: "tenant_life pk contents st g fl \<Longrightarrow> tenant_life pk contents st g (Some (Sequence st, None))"
| sample: "tenant_life pk contents st g (Some (seq, None)) \<Longrightarrow> tenant_life pk contents st g (Some (seq, Some (SnapshotEvents newID when g)))"
| written: "tenant_life pk contents st g (Some (seq, Some evs)) \<Longrightarrow>
    WriteSnapshot (pk_pebble pk) (pk_proto pk) seq evs blob st = (st', werr) \<Longrightarrow>
    (\<forall>body. snapshotBody (pk_proto pk) 0 evs = Inr body \<longrightarrow> length body + length blob < 2 ^ 32 - 9) \<Longrightarrow>
    tenant_life pk contents st' g None"
| drop: "tenant_life pk contents st g fl \<Longrightarrow> DropSnapshot (pk_pebble pk) st = (st', derr) \<Longrightarrow> tenant_life pk contents st' g fl"
| restart: "tenant_life pk contents st g fl \<Longrightarrow> openStore (pk_pebble pk) (s_db st) cfg False = Inr st' \<Longrightarrow>
    restoreGraph pk now grace st' = Inr (g', liveness) \<Longrightarrow> tenant_life pk contents st' g' None"

text \<open>
  What a snapshot under the sequence \<open>seq\<close> holds for the log \<open>L\<close> that has reached \<open>n\<close>: the events
  that build the state at some point between the two.
\<close>

definition snapshot_of :: "(64 word \<times> Event) list \<Rightarrow> 64 word \<Rightarrow> 64 word \<Rightarrow> Event list \<Rightarrow> bool" where
  "snapshot_of L n seq evs =
     ((\<forall>ev \<in> set evs. proper ev \<and> (\<forall>ee. ev_Entity ev = Some ee \<longrightarrow> put_change (ee_ChangeType ee))) \<and>
      (\<exists>k. seq \<le> k \<and> k \<le> n \<and> spec_replay evs emptyTopology = replayLog (filter (\<lambda>(m, ev). m \<le> k) L)))"

definition flight_ok :: "(64 word \<times> Event) list \<Rightarrow> 64 word \<Rightarrow> flight \<Rightarrow> bool" where
  "flight_ok L n fl =
     (case fl of None \<Rightarrow> True | Some (seq, None) \<Rightarrow> seq \<le> n | Some (seq, Some evs) \<Rightarrow> snapshot_of L n seq evs)"

text \<open>What the snapshot row of a database may hold, to whoever reads it.\<close>

definition row_ok :: "'d packages \<Rightarrow> ('d \<Rightarrow> string \<rightharpoonup> string) \<Rightarrow> string option \<Rightarrow> (64 word \<times> Event) list \<Rightarrow> 64 word \<Rightarrow> bool" where
  "row_ok pk contents row L n =
     (\<forall>st seq evs blob. contents (s_db st) snapshotKey = row \<longrightarrow>
        ReadSnapshot (pk_pebble pk) (pk_proto pk) st = Inr (Some (seq, evs, blob)) \<longrightarrow> snapshot_of L n seq evs)"

definition life_ok :: "'d packages \<Rightarrow> ('d \<Rightarrow> string \<rightharpoonup> string) \<Rightarrow> 'd Store \<Rightarrow> Graph \<Rightarrow> flight \<Rightarrow> (64 word \<times> Event) list \<Rightarrow> bool" where
  "life_ok pk contents st g fl L =
     (logged (pk_proto pk) (contents (s_db st)) L \<and> sequenced (contents (s_db st)) (s_seq st) L \<and> 0 \<notin> fst ` set L \<and>
      s_seq st + 1 \<noteq> 0 \<and> keyed g \<and> view g = replayLog L \<and> live_beats emptyTopology (map snd L) \<and>
      row_ok pk contents (contents (s_db st) snapshotKey) L (s_seq st) \<and> flight_ok L (s_seq st) fl)"

section \<open>The snapshot on disk\<close>

lemma length_encodeU32 [simp]: "length (encodeU32 w) = 4"
  by (simp add: encodeU32_def)

lemma encodeU32_neq_Nil [simp]: "encodeU32 w \<noteq> []"
  by (simp add: encodeU32_def)

declare parseSnapshot.simps [simp del]

lemma be_nat_encodeU32: "be_nat (encodeU32 w) = unat w"
proof -
  have byte: "unat (drop_bit k w AND 255) = unat w div 2 ^ k mod 256" for k
  proof -
    have "drop_bit k w AND 255 = take_bit 8 (drop_bit k w)" unfolding take_bit_eq_mask by (simp add: mask_eq_exp_minus_1)
    then show ?thesis
      by (simp only: unsigned_take_bit_eq unat_drop_bit_eq) (simp only: take_bit_eq_mod drop_bit_eq_div, simp)
  qed
  have byte0: "unat (w AND 255) = unat w mod 256" using byte [of 0] by simp
  define n where "n = unat w"
  have n: "n < 2 ^ 32" using unsigned_less [of w] by (simp add: n_def)
  have H: "256 * (n div (x * 256)) + n div x mod 256 = n div x" for x :: nat by (simp add: div_mult2_eq)
  have top: "n div 16777216 mod 256 = n div 16777216" using n by simp
  have horner: "16777216 * q3 + 65536 * r2 + 256 * r1 + r0 = m"
    if "256 * q1 + r0 = m" "256 * q2 + r1 = q1" "256 * q3 + r2 = q2" for q1 q2 q3 r0 r1 r2 m :: nat
    using that by linarith
  show ?thesis
    by (simp add: encodeU32_def be_nat_def upt_conv_Cons byte byte0 n_def [symmetric] top del: upt_Suc)
      (rule horner [OF mult_div_mod_eq [of 256 n] H [of 256, simplified] H [of 65536, simplified]])
qed

lemma decodeU32_encodeU32 [simp]: "decodeU32 (encodeU32 w @ s) = w"
  by (simp add: decodeU32_def be_nat_encodeU32)

lemma unat_size: "n < 2 ^ 32 \<Longrightarrow> unat (of_nat n :: 32 word) = n"
  by (simp add: unat_of_nat)

lemma size_not_sentinel: "n < 2 ^ 32 - 1 \<Longrightarrow> (of_nat n :: 32 word) \<noteq> livenessSentinel"
proof
  assume n: "n < 2 ^ 32 - 1" and e: "(of_nat n :: 32 word) = livenessSentinel"
  from n have "unat (of_nat n :: 32 word) = n" by (intro unat_size) simp
  with e have "n = unat livenessSentinel" by simp
  with n show False by (simp add: livenessSentinel_def)
qed

context log_laws
begin

lemma parse_body:
  assumes "snapshotBody pm i evs = Inr body" and "length body + length rest < 2 ^ 32 - 1"
  shows "parseSnapshot pm (body @ rest) (acc, lv) = parseSnapshot pm rest (acc @ map onWire evs, lv)"
  using assms
proof (induction evs arbitrary: i body acc)
  case (Cons ev evs)
  from Cons.prems(1) obtain b tl where m: "pm_marshal pm (eventToProto ev) = Inr b" and t: "snapshotBody pm (Suc i) evs = Inr tl"
    and body: "body = framed b @ tl" by (auto split: sum.splits)
  have u: "pm_unmarshal pm b = Inr (eventToProto ev)" by (rule codec [OF m])
  let ?n = "of_nat (length b) :: 32 word" and ?rest = "b @ tl @ rest"
  have len: "length b < 2 ^ 32 - 1" "length ?rest < 2 ^ 32" using Cons.prems(2) by (simp_all add: body framed_def)
  have n: "unat ?n = length b" "?n \<noteq> livenessSentinel" using len size_not_sentinel by (simp_all add: unat_size)
  have "\<not> of_nat (length ?rest) < ?n" using len by (simp add: word_less_nat_alt unat_size n(1) del: of_nat_add length_append) simp
  then have "parseSnapshot pm (body @ rest) (acc, lv) = parseSnapshot pm (tl @ rest) (acc @ [onWire ev], lv)"
    using n u by (subst parseSnapshot.simps) (simp add: body framed_def Let_def onWire_def)
  also have "\<dots> = parseSnapshot pm rest ((acc @ [onWire ev]) @ map onWire evs, lv)"
    by (rule Cons.IH [OF t]) (use Cons.prems(2) in \<open>simp add: body\<close>)
  finally show ?case by simp
qed simp

lemma parse_liveness:
  assumes "length blob < 2 ^ 32" and "blob \<noteq> []"
  shows "parseSnapshot pm (encodeU32 livenessSentinel @ framed blob) (acc, lv) = Inr (acc, blob)"
proof -
  have "unat (of_nat (length blob) :: 32 word) = length blob" by (rule unat_size [OF assms(1)])
  moreover have "parseSnapshot pm [] (acc, blob) = Inr (acc, blob)" by (simp add: parseSnapshot.simps)
  ultimately show ?thesis by (subst parseSnapshot.simps) (simp add: framed_def Let_def)
qed

lemma snapshot_row:
  assumes row: "contents (s_db s) snapshotKey = Some (encodeU64 seq @ body @ (if blob = [] then [] else encodeU32 livenessSentinel @ framed blob))"
    and b: "snapshotBody pm 0 evs = Inr body" and size: "length body + length blob < 2 ^ 32 - 9" and g: "pb_get pb (s_db s) snapshotKey = Inr r"
  shows "ReadSnapshot pb pm s = Inr (Some (seq, map onWire evs, blob))"
proof -
  let ?tail = "if blob = [] then [] else encodeU32 livenessSentinel @ framed blob"
  have r: "r = Some (encodeU64 seq @ body @ ?tail)" using get_law [OF g] row by simp
  have len: "length body + length ?tail < 2 ^ 32 - 1" using size by (simp add: framed_def)
  have "parseSnapshot pm (body @ ?tail) ([], []) = parseSnapshot pm ?tail (map onWire evs, [])" using parse_body [OF b len, of "[]" "[]"] by (simp only: append_Nil)
  also have "\<dots> = Inr (map onWire evs, blob)"
  proof (cases "blob = []")
    case False
    then show ?thesis using parse_liveness [of blob] size by simp
  qed (simp add: parseSnapshot.simps)
  finally show ?thesis using g r by (simp add: ReadSnapshot_def decodeU64_def be_nat_encodeU64)
qed

lemma snapshot_stored:
  assumes w: "WriteSnapshot pb pm seq evs blob s = (s', None)"
  obtains body where "snapshotBody pm 0 evs = Inr body" and "contents (s_db s') = (contents (s_db s))(snapshotKey \<mapsto>
      encodeU64 seq @ body @ (if blob = [] then [] else encodeU32 livenessSentinel @ framed blob))" and "s_seq s' = s_seq s"
proof -
  from w obtain body d where b: "snapshotBody pm 0 evs = Inr body"
    and c: "pb_commit pb (s_db s) [KvSet snapshotKey (encodeU64 seq @ body @ (if blob = [] then [] else encodeU32 livenessSentinel @ framed blob))] = Inr d"
    and d: "s_db s' = d" "s_seq s' = s_seq s"
    by (auto simp: WriteSnapshot_def Let_def split: sum.splits)
  show thesis by (rule that [OF b]) (use commit_law [OF c] d in simp_all)
qed

lemma snapshot_written:
  assumes w: "WriteSnapshot pb pm seq evs blob s = (s', None)" and b: "snapshotBody pm 0 evs = Inr body"
    and size: "length body + length blob < 2 ^ 32 - 9" and g: "pb_get pb (s_db s') snapshotKey = Inr r"
  shows "ReadSnapshot pb pm s' = Inr (Some (seq, map onWire evs, blob))"
  using w by (rule snapshot_stored) (rule snapshot_row [OF _ b size g], use b in simp)

end

text \<open>
  A snapshot is read back as it was written: when it fits the 32-bit lengths of its frames,
  \<open>ReadSnapshot\<close> after a successful \<open>WriteSnapshot\<close> returns the sequence, the events as the wire
  keeps them and in order, and the liveness section, also when that is empty; and a dropped
  snapshot is gone.
\<close>

theorem snapshot_roundtrip:
  assumes laws: "log_laws pb contents pm" and w: "WriteSnapshot pb pm seq evs blob s = (s', None)" and b: "snapshotBody pm 0 evs = Inr body"
    and size: "length body + length blob < 2 ^ 32 - 9" and ans: "answers pb (s_db s')" and d: "DropSnapshot pb s' = (s'', None)" "answers pb (s_db s'')"
  shows "ReadSnapshot pb pm s' = Inr (Some (seq, map onWire evs, blob)) \<and> ReadSnapshot pb pm s'' = Inr None"
proof -
  obtain r where "pb_get pb (s_db s') snapshotKey = Inr r" using ans unfolding answers_def by blast
  from log_laws.snapshot_written [OF laws w b size this] have "ReadSnapshot pb pm s' = Inr (Some (seq, map onWire evs, blob))" .
  moreover obtain d' where c: "pb_commit pb (s_db s') [KvDelete snapshotKey] = Inr d'" and s'': "s_db s'' = d'"
    using d(1) by (auto simp: DropSnapshot_def split: sum.splits)
  moreover have "contents d' snapshotKey = None" using pebble_laws.commit_law [OF log_laws.axioms(1) [OF laws] c] by simp
  moreover obtain r' where r': "pb_get pb (s_db s'') snapshotKey = Inr r'" using d(2) unfolding answers_def by blast
  moreover from get_contents [OF laws this] have "r' = contents (s_db s'') snapshotKey" .
  ultimately show ?thesis by (simp add: ReadSnapshot_def)
qed

theorem snapshot_roundtrip_witness:
  "\<exists>s'. WriteSnapshot memPebble fxCodec 4 (map (stampCommit 1) fxLife) ''live'' fxStore = (s', None) \<and>
     ReadSnapshot memPebble fxCodec s' = Inr (Some (4, map (stampCommit 1) fxLife, ''live''))"
proof -
  let ?evs = "map (stampCommit 1) fxLife"
  have m: "\<exists>b. pm_marshal fxCodec (eventToProto ev) = Inr b \<and> length b \<le> 5" if "ev \<in> set ?evs" for ev
    using that length_takeWhile_le [of "\<lambda>q. q \<noteq> eventToProto ev"
      "map eventToProto (map (stampCommit 1) fxLife @ [stampCommit 5 (baselineEvent ''b'' (fxRecord 4 EntityUnchanged 40) fxCutoff)])"]
    by (auto simp: fxCodec_def tableProto_def fxLife_def)
  have "\<exists>body. snapshotBody fxCodec i evs = Inr body \<and> length body \<le> 9 * length evs" if "set evs \<subseteq> set ?evs" for i evs
    using that
  proof (induction evs arbitrary: i)
    case (Cons ev evs)
    obtain b where "pm_marshal fxCodec (eventToProto ev) = Inr b" "length b \<le> 5" using m Cons.prems by auto
    moreover obtain tl where "snapshotBody fxCodec (Suc i) evs = Inr tl" "length tl \<le> 9 * length evs" using Cons by force
    ultimately show ?case by (simp add: framed_def)
  qed simp
  then obtain body where b: "snapshotBody fxCodec 0 ?evs = Inr body" and lb: "length body \<le> 9 * length ?evs" by blast
  then have w: "WriteSnapshot memPebble fxCodec 4 ?evs ''live'' fxStore = (fst (WriteSnapshot memPebble fxCodec 4 ?evs ''live'' fxStore), None)"
    by (simp add: WriteSnapshot_def Let_def memPebble_def)
  have "length body + length ''live'' < 2 ^ 32 - 9" using lb by (simp add: fxLife_def)
  note R = snapshot_roundtrip [OF fx_laws w b this mem_answers]
  have "DropSnapshot memPebble s = (fst (DropSnapshot memPebble s), None)" for s :: "rows Store" by (simp add: DropSnapshot_def memPebble_def)
  from R [OF this mem_answers] have "ReadSnapshot memPebble fxCodec (fst (WriteSnapshot memPebble fxCodec 4 ?evs ''live'' fxStore)) =
      Inr (Some (4, map onWire ?evs, ''live''))" by blast
  moreover have "map onWire ?evs = ?evs" using fx_wire by (simp add: onWire_same)
  ultimately show ?thesis using w by metis
qed

section \<open>Replaying a tail that overlaps\<close>

text \<open>A run of events sets an entity, or leaves it, or only brings it to life.\<close>

lemma entity_run:
  "(\<exists>c. \<forall>x. fold entStep es x = c) \<or> (\<forall>x. fold entStep es x = x) \<or>
    (fold entStep es None \<noteq> None \<and> (\<forall>y. fold entStep es (Some y) = Some y))"
proof (induction es rule: rev_induct)
  case (snoc e es)
  then show ?case by (cases "ee_ChangeType e") (auto simp: entStep_def)
qed simp

lemma relation_run: "(\<exists>c. \<forall>x. fold relStep es x = c) \<or> (\<forall>x. fold relStep es x = x)"
proof (induction es rule: rev_induct)
  case (snoc e es)
  then show ?case by (cases "re_ChangeType e") (auto simp: relStep_def)
qed simp

lemma entity_again: "fold entStep es (fold entStep es x) = fold entStep es x"
  using entity_run [of es] by (cases "fold entStep es x"; cases x) force+

lemma relation_again: "fold relStep es (fold relStep es x) = fold relStep es x"
  using relation_run [of es] by auto

lemma replay_again: "spec_replay (map snd L) (spec_replay (map snd L) T) = spec_replay (map snd L) T"
proof -
  have "tp_entities (spec_replay (map snd L) (spec_replay (map snd L) T)) = tp_entities (spec_replay (map snd L) T)"
    "tp_relations (spec_replay (map snd L) (spec_replay (map snd L) T)) = tp_relations (spec_replay (map snd L) T)"
    by (simp_all add: fun_eq_iff replay_entity_from replay_relation_from entity_again relation_again)
  then show ?thesis by simp
qed

lemma sorted_cut:
  assumes "sorted_wrt (<) (map fst L)"
  shows "L = filter (\<lambda>(n, ev). n \<le> a) L @ filter (\<lambda>(n, ev). (a :: 64 word) < n) L"
  using assms
proof (induction L)
  case (Cons r L)
  obtain n ev where r: "r = (n, ev)" by (cases r)
  show ?case
  proof (cases "n \<le> a")
    case True
    with Cons r show ?thesis by simp
  next
    case False
    then have "filter (\<lambda>(n, ev). n \<le> a) L = []" "filter (\<lambda>(n, ev). a < n) L = L"
      using Cons.prems r by (auto simp: filter_empty_conv filter_id_conv)
    with False r show ?thesis by simp
  qed
qed simp

lemma sorted_split:
  assumes s: "sorted_wrt (<) (map fst L)" and "a \<le> (b :: 64 word)"
  shows "filter (\<lambda>(n, ev). n \<le> b) L = filter (\<lambda>(n, ev). n \<le> a) L @ filter (\<lambda>(n, ev). a < n \<and> n \<le> b) L"
    and "filter (\<lambda>(n, ev). a < n) L = filter (\<lambda>(n, ev). a < n \<and> n \<le> b) L @ filter (\<lambda>(n, ev). b < n) L"
proof -
  have f: "sorted_wrt (<) (map fst (filter P L))" for P using s by (simp add: sorted_wrt_map sorted_wrt_filter)
  have F: "filter (\<lambda>(n, ev). n \<le> a) (filter (\<lambda>(n, ev). n \<le> b) L) = filter (\<lambda>(n, ev). n \<le> a) L"
    "filter (\<lambda>(n, ev). a < n) (filter (\<lambda>(n, ev). n \<le> b) L) = filter (\<lambda>(n, ev). a < n \<and> n \<le> b) L"
    "filter (\<lambda>(n, ev). n \<le> b) (filter (\<lambda>(n, ev). a < n) L) = filter (\<lambda>(n, ev). a < n \<and> n \<le> b) L"
    "filter (\<lambda>(n, ev). b < n) (filter (\<lambda>(n, ev). a < n) L) = filter (\<lambda>(n, ev). b < n) L"
    unfolding filter_filter using assms(2) by (auto intro!: filter_cong)
  show "filter (\<lambda>(n, ev). n \<le> b) L = filter (\<lambda>(n, ev). n \<le> a) L @ filter (\<lambda>(n, ev). a < n \<and> n \<le> b) L"
    using sorted_cut [OF f, of "\<lambda>(n, ev). n \<le> b" a] unfolding F .
  show "filter (\<lambda>(n, ev). a < n) L = filter (\<lambda>(n, ev). a < n \<and> n \<le> b) L @ filter (\<lambda>(n, ev). b < n) L"
    using sorted_cut [OF f, of "\<lambda>(n, ev). a < n" b] unfolding F .
qed

text \<open>The tail replayed over a state that is ahead of it gives the state of the whole log.\<close>

lemma overlap_replay:
  assumes s: "sorted_wrt (<) (map fst L)" and "seq \<le> (k :: 64 word)"
  shows "spec_replay (map snd (filter (\<lambda>(n, ev). seq < n) L)) (replayLog (filter (\<lambda>(n, ev). n \<le> k) L)) = replayLog L"
proof -
  let ?A = "map snd (filter (\<lambda>(n, ev). n \<le> seq) L)" and ?B = "map snd (filter (\<lambda>(n, ev). seq < n \<and> n \<le> k) L)"
    and ?C = "map snd (filter (\<lambda>(n, ev). k < n) L)"
  note S = sorted_split [OF s assms(2)]
  have "map snd L = ?A @ ?B @ ?C" using sorted_cut [OF s, of seq] S(2) by (metis map_append)
  then have "replayLog L = spec_replay ?C (spec_replay ?B (spec_replay ?A emptyTopology))" by (simp add: replayLog_def spec_replay_append)
  moreover have "replayLog (filter (\<lambda>(n, ev). n \<le> k) L) = spec_replay ?B (spec_replay ?A emptyTopology)"
    unfolding replayLog_def S(1) by (simp add: spec_replay_append)
  ultimately show ?thesis unfolding S(2) by (simp add: spec_replay_append replay_again)
qed

lemma no_dead_mono: "no_dead_heartbeat dead' evs \<Longrightarrow> set dead \<subseteq> set dead' \<Longrightarrow> no_dead_heartbeat dead evs"
proof (induction evs arbitrary: dead dead')
  case (Cons ev evs)
  show ?case
  proof (cases "ev_Entity ev")
    case (Some ee)
    let ?next = "\<lambda>d. if ee_ChangeType ee = EntityUnchanged then d else if ee_ChangeType ee = EntityDeleted then ent_ID (ee_Entity ee) # d
      else if put_change (ee_ChangeType ee) then removeAll (ent_ID (ee_Entity ee)) d else d"
    have "no_dead_heartbeat (?next dead') evs" using Cons.prems(1) Some by (auto simp: Let_def split: if_splits)
    then have "no_dead_heartbeat (?next dead) evs" by (rule Cons.IH) (use Cons.prems(2) in auto)
    with Cons.prems Some show ?thesis by (auto simp: Let_def split: if_splits)
  qed (use Cons in auto)
qed simp

lemma no_dead_suffix: "no_dead_heartbeat dead (xs @ ys) \<Longrightarrow> no_dead_heartbeat [] ys"
proof (induction xs arbitrary: dead)
  case Nil
  then show ?case using no_dead_mono [of dead ys "[]"] by simp
next
  case (Cons ev xs)
  then show ?case by (auto simp: Let_def split: option.splits if_splits)
qed

lemma no_dead_puts:
  assumes "\<forall>ev \<in> set evs. \<forall>ee. ev_Entity ev = Some ee \<longrightarrow> put_change (ee_ChangeType ee)"
  shows "no_dead_heartbeat [] (evs @ tail) = no_dead_heartbeat [] tail"
  using assms
proof (induction evs)
  case (Cons ev evs)
  then show ?case by (cases "ev_Entity ev") (auto simp: Let_def put_change_def)
qed simp

section \<open>Graphs and their snapshots\<close>

lemma keyed_wf: "graph_wf g \<Longrightarrow> keyed g"
  by (auto simp: keyed_def graph_wf_def wf_index_def wf_adj_def)

lemma keyed_New: "keyed (NewWithTombstoneCap n)" and keyed_TTL: "keyed (SetTombstoneTTL d g) = keyed g"
  by (simp_all add: keyed_def NewWithTombstoneCap_def SetTombstoneTTL_def wf_maps_def gdistinct_def)

lemma entities_putEntity: "g_entities (putEntity e g) = gput (ent_ID e) e (g_entities g)"
  by (simp add: putEntity_def Let_def)

lemma keyed_evict:
  assumes "\<forall>i e. map_of (g_entities g) i = Some e \<longrightarrow> ent_ID e = i"
  shows "\<forall>i e. map_of (g_entities (evictTombstones g)) i = Some e \<longrightarrow> ent_ID e = i"
  by (rule evictTombstones_invariant [where P = "\<lambda>g. \<forall>i e. map_of (g_entities g) i = Some e \<longrightarrow> ent_ID e = i", OF assms]) simp_all

lemma relations_applyEntity: "g_relations (applyEntity now ee g) = g_relations g"
proof -
  have "g_relations (evictTombstones h) = g_relations h" for h
    by (rule evictTombstones_invariant [where P = "\<lambda>h'. g_relations h' = g_relations h"]) simp_all
  then show ?thesis by (cases "ee_ChangeType ee") (simp_all add: applyEntity_def Let_def split: option.splits)
qed

lemma keyed_Apply: "keyed g \<Longrightarrow> keyed (Apply now ev g)"
proof -
  assume k: "keyed g"
  have "map_of (g_entities (Apply now ev g)) i = Some e \<Longrightarrow> ent_ID e = i" for i e
  proof (cases "ev_Entity ev")
    case (Some ee)
    have "\<forall>i e. map_of (g_entities (evictTombstones (markDeleted now ee (deleteEntry j g)))) i = Some e \<longrightarrow> ent_ID e = i" for j
      by (rule keyed_evict) (use k in \<open>simp add: keyed_def\<close>)
    with k Some show "map_of (g_entities (Apply now ev g)) i = Some e \<Longrightarrow> ent_ID e = i"
      by (cases "ee_ChangeType ee") (auto simp: keyed_def Apply_def applyEntity_def Let_def entities_putEntity split: if_splits option.splits)
  next
    case None
    with k show "map_of (g_entities (Apply now ev g)) i = Some e \<Longrightarrow> ent_ID e = i"
      by (cases "ev_Relation ev") (auto simp: keyed_def Apply_def)
  qed
  moreover have "map_of (g_relations (Apply now ev g)) i = Some r \<Longrightarrow> rel_ID r = i" for i r
    using k by (auto simp: keyed_def Apply_def relations_applyEntity applyRelation_def addAdjacency_def Let_def split: option.splits ChangeType.splits if_splits)
  ultimately show ?thesis using k wf_maps_Apply by (simp add: keyed_def)
qed

lemma keyed_Replay: "keyed g \<Longrightarrow> keyed (Replay now evs g)"
  by (induction evs arbitrary: g) (simp_all add: Replay_def keyed_Apply)

lemma snapshot_proper:
  assumes "ev \<in> set (SnapshotEvents newID when g)"
  shows "proper ev" and "ev_Entity ev = Some ee \<Longrightarrow> put_change (ee_ChangeType ee)"
  using assms by (auto simp: SnapshotEvents_def Let_def snapshotEntityEvent_def snapshotRelationEvent_def proper_def put_change_def)

lemma snapshot_spec:
  assumes "keyed g"
  shows "spec_replay (SnapshotEvents newID when g) emptyTopology = view g"
proof -
  let ?live = "filter (\<lambda>(i, e). \<not> isDeleted g i) (g_entities g)"
  have ids: "map (\<lambda>e. (ent_ID e, e)) (map snd ?live) = ?live" "map (\<lambda>r. (rel_ID r, r)) (map snd (g_relations g)) = g_relations g"
    using assms by (auto simp: keyed_def wf_maps_def gdistinct_in_set_iff intro!: map_idI)
  have d: "distinct (map fst ?live)" "distinct (map fst (g_relations g))"
    using assms by (simp_all add: keyed_def wf_maps_def gdistinct_def distinct_map_filter)
  have eq: "map ent_ID (map snd ?live) = map fst ?live" "map rel_ID (map snd (g_relations g)) = map fst (g_relations g)"
    using arg_cong [OF ids(1), of "map fst"] arg_cong [OF ids(2), of "map fst"] by (simp_all add: comp_def)
  have "distinct (map ent_ID (map snd ?live))" "distinct (map rel_ID (map snd (g_relations g)))" unfolding eq by (rule d)+
  then show ?thesis
    by (simp add: SnapshotEvents_def Let_def spec_replay_append spec_replay_entities spec_replay_relations ids map_of_filter_key
      emptyTopology_def view_def live_def fun_eq_iff del: map_map)
qed

section \<open>Restart\<close>

lemma no_plus_overflow_below: "seq \<le> k \<Longrightarrow> k \<le> n \<Longrightarrow> n + 1 \<noteq> 0 \<Longrightarrow> seq + 1 \<noteq> (0 :: 64 word)"
proof
  assume le: "seq \<le> k" "k \<le> n" and n: "n + 1 \<noteq> 0" and "seq + 1 = 0"
  then have "seq = - 1" by (metis add_eq_0_iff2 add.commute)
  with le have "n = - 1" by (metis order.trans word_order.extremum_unique)
  with n show False by simp
qed

lemma restored_view:
  assumes laws: "log_laws (pk_pebble pk) contents (pk_proto pk)" and L: "logged (pk_proto pk) (contents (s_db st)) L"
    and zero: "0 \<notin> fst ` set L" and nd: "no_dead_heartbeat [] (map snd L)"
    and snap: "row_ok pk contents (contents (s_db st) snapshotKey) L n" and n: "n + 1 \<noteq> 0"
    and r: "restoreGraph pk now grace st = Inr (graph, liveness)"
  shows "view graph = replayLog L" and "keyed graph"
proof -
  let ?g0 = "if grace \<noteq> 0 then SetTombstoneTTL grace NewGraph else NewGraph"
  let ?apply = "\<lambda>(_ :: 64 word) ev graph. Inr (Apply now ev graph) :: StoreErr + Graph"
  have srt: "sorted_wrt (<) (map fst L)" using L by (simp add: logged_def)
  have fresh: "\<not> isDeleted ?g0 i" "view ?g0 = emptyTopology" for i
    by (simp_all add: SetTombstoneTTL_def isDeleted_def NewGraph_def NewWithTombstoneCap_def view_def live_def emptyTopology_def fun_eq_iff)
  have k0: "keyed ?g0" by (simp add: keyed_TTL keyed_New NewGraph_def)
  have scan: "graph = Replay now (map snd (filter (\<lambda>(n, ev). after < n) L)) g1"
    if "ScanFrom (pk_pebble pk) (pk_proto pk) after ?apply st g1 = Inr graph" "after + 1 \<noteq> 0" for after g1
  proof -
    have "forLog ?apply (filter (\<lambda>(n, ev). after < n) L) g1 = Inr graph" by (rule log_laws.ScanFrom_log [OF laws L that])
    then show ?thesis by (simp add: forLog_total [where g = "\<lambda>_. Apply now"] Replay_def fold_map comp_def case_prod_beta')
  qed
  have full: "view graph = replayLog L \<and> keyed graph" if s: "ScanFrom (pk_pebble pk) (pk_proto pk) 0 ?apply st ?g0 = Inr graph"
  proof -
    have "filter (\<lambda>(n, ev). 0 < n) L = L" using zero by (force simp: filter_id_conv word_neq_0_conv [symmetric])
    then have "graph = Replay now (map snd L) ?g0" using scan [OF s] by simp
    then show ?thesis using view_Replay [OF nd, of ?g0 now] fresh keyed_Replay [OF k0] by (simp add: replayLog_def)
  qed
  have "view graph = replayLog L \<and> keyed graph"
  proof (cases "ReadSnapshot (pk_pebble pk) (pk_proto pk) st")
    case (Inl err)
    with r full show ?thesis by (auto simp: restoreGraph_def Let_def map_sum_def split: sum.splits)
  next
    case (Inr x)
    show ?thesis
    proof (cases x)
      case None
      with Inr r full show ?thesis by (auto simp: restoreGraph_def Let_def map_sum_def split: sum.splits)
    next
      case (Some t)
      obtain seq evs blob where t: "t = (seq, evs, blob)" by (cases t)
      have so: "snapshot_of L n seq evs" using snap Inr Some t unfolding row_ok_def by blast
      then have puts: "\<forall>ev \<in> set evs. \<forall>ee. ev_Entity ev = Some ee \<longrightarrow> put_change (ee_ChangeType ee)" unfolding snapshot_of_def by blast
      obtain k where k: "seq \<le> k" "k \<le> n" and vg: "spec_replay evs emptyTopology = replayLog (filter (\<lambda>(n, ev). n \<le> k) L)"
        using so unfolding snapshot_of_def by blast
      have sq: "seq + 1 \<noteq> 0" using n k by (metis no_plus_overflow_below)
      let ?tail = "map snd (filter (\<lambda>(n, ev). seq < n) L)"
      have "ScanFrom (pk_pebble pk) (pk_proto pk) seq ?apply st (Replay now evs ?g0) = Inr graph"
        using r Inr Some t by (auto simp: restoreGraph_def Let_def map_sum_def split: sum.splits)
      then have gr: "graph = Replay now (evs @ ?tail) ?g0" using scan [OF _ sq] by (simp add: Replay_def)
      have "no_dead_heartbeat [] (evs @ ?tail)"
        unfolding no_dead_puts [OF puts] using nd no_dead_suffix [of "[]"] sorted_cut [OF srt, of seq] by (metis map_append)
      then have "view graph = spec_replay ?tail (spec_replay evs emptyTopology)"
        using view_Replay [of "[]" "evs @ ?tail" ?g0 now] fresh gr by (simp add: spec_replay_append)
      also have "\<dots> = replayLog L" unfolding vg by (rule overlap_replay [OF srt k(1)])
      finally show ?thesis using keyed_Replay [OF k0] gr by simp
    qed
  qed
  then show "view graph = replayLog L" and "keyed graph" by simp_all
qed

section \<open>The life of a database\<close>

lemma numbered_above: "unat l + length evs < 2 ^ 64 \<Longrightarrow> (n, ev) \<in> set (numbered l evs) \<Longrightarrow> l < n"
proof (induction evs arbitrary: l)
  case (Cons e evs)
  have u: "unat (l + 1) = unat l + 1" using Cons.prems(1) by (intro unat_succ) simp
  then have "l < l + 1" by (simp add: word_less_nat_alt)
  moreover have "l + 1 < n" if "(n, ev) \<in> set (numbered (l + 1) evs)"
    by (rule Cons.IH [OF _ that]) (use Cons.prems(1) u in simp)
  ultimately show ?case using Cons.prems(2) by force
qed simp

lemma snapshot_of_grows:
  assumes "snapshot_of L n seq evs" and "\<forall>(m, ev) \<in> set N. n < m" and "n \<le> n'"
  shows "snapshot_of (L @ N) n' seq evs"
proof -
  obtain k where k: "seq \<le> k" "k \<le> n" "spec_replay evs emptyTopology = replayLog (filter (\<lambda>(m, ev). m \<le> k) L)"
    using assms(1) unfolding snapshot_of_def by blast
  have "filter (\<lambda>(m, ev). m \<le> k) N = []" using assms(2) k(2) by (fastforce simp: filter_empty_conv)
  then have "seq \<le> k \<and> k \<le> n' \<and> spec_replay evs emptyTopology = replayLog (filter (\<lambda>(m, ev). m \<le> k) (L @ N))"
    using k assms(3) by auto
  then show ?thesis using assms(1) unfolding snapshot_of_def by blast
qed

lemma flight_ok_grows:
  assumes "flight_ok L n fl" and "\<forall>(m, ev) \<in> set N. n < m" and "n \<le> n'"
  shows "flight_ok (L @ N) n' fl"
  using assms snapshot_of_grows [OF _ assms(2,3)] by (auto simp: flight_ok_def split: option.splits)

lemma row_ok_grows:
  assumes "row_ok pk contents row L n" and "\<forall>(m, ev) \<in> set N. n < m" and "n \<le> n'"
  shows "row_ok pk contents row (L @ N) n'"
  using assms snapshot_of_grows [OF _ assms(2,3)] unfolding row_ok_def by blast

lemma life_commit:
  assumes laws: "log_laws (pk_pebble pk) contents (pk_proto pk)" and l: "life_ok pk contents st g fl L"
    and a: "Append (pk_pebble pk) (pk_proto pk) evs st = (st', None)" and room: "unat (s_seq st) + length evs + 1 < 2 ^ 64"
    and c: "engineCommit g evs g'"
  shows "life_ok pk contents st' g' fl (L @ numbered (s_seq st) (map (onWire \<circ> stampCommit (s_seq st + 1)) evs))"
proof -
  let ?N = "numbered (s_seq st) (map (onWire \<circ> stampCommit (s_seq st + 1)) evs)"
  note I = l [unfolded life_ok_def] and C = c [unfolded engineCommit_def]
  have p: "\<forall>ev \<in> set evs. proper ev" using C by blast
  have "unat (s_seq st) + length evs < 2 ^ 64" using room by linarith
  then have A: "logged (pk_proto pk) (contents (s_db st')) (L @ ?N)" "sequenced (contents (s_db st')) (s_seq st') (L @ ?N)"
    "s_seq st' = s_seq st + of_nat (length evs)"
    using log_laws.append_log [OF laws a, of L] I by blast+
  have u: "unat (s_seq st') = unat (s_seq st) + length evs"
  proof -
    have "unat (of_nat (length evs) :: 64 word) = length evs" using room by (simp add: unat_of_nat)
    then show ?thesis using room A(3) by (simp add: unat_word_ariths)
  qed
  have above: "\<forall>(m, ev) \<in> set ?N. s_seq st < m" using numbered_above [of "s_seq st" "map (onWire \<circ> stampCommit (s_seq st + 1)) evs"] room by auto
  then have zero: "0 \<notin> fst ` set (L @ ?N)" using I by fastforce
  have le: "s_seq st \<le> s_seq st'" using u by (simp add: word_le_nat_alt)
  have top: "s_seq st' + 1 \<noteq> 0" using unat_succ [of "s_seq st'"] u room by (metis add_is_0 one_neq_zero unat_0)
  have row: "contents (s_db st') snapshotKey = contents (s_db st) snapshotKey" by (rule append_meta [OF laws a]) simp_all
  have v: "view g' = replayLog (L @ ?N)"
    using C I recorded_history(1) [OF p] by (simp add: replayLog_def spec_replay_append)
  have b: "live_beats emptyTopology (map snd (L @ ?N))"
    using C I recorded_history(2) [OF p] by (simp add: live_beats_append replayLog_def)
  have "row_ok pk contents (contents (s_db st') snapshotKey) (L @ ?N) (s_seq st')" "flight_ok (L @ ?N) (s_seq st') fl"
    unfolding row using row_ok_grows flight_ok_grows I above le by blast+
  then show ?thesis using A zero top v b C unfolding life_ok_def by blast
qed

lemma row_ok_absent: "log_laws (pk_pebble pk) contents (pk_proto pk) \<Longrightarrow> row_ok pk contents None L n"
  unfolding row_ok_def using get_contents by (fastforce simp: ReadSnapshot_def split: sum.splits option.splits)

lemma onWire_kept:
  assumes "proper ev" and "\<forall>ee. ev_Entity ev = Some ee \<longrightarrow> put_change (ee_ChangeType ee)"
  shows "proper (onWire ev) \<and> (\<forall>ee. ev_Entity (onWire ev) = Some ee \<longrightarrow> put_change (ee_ChangeType ee))"
proof (cases "ev_Entity ev")
  case (Some ee)
  then have "wire_change (ee_ChangeType ee)" using assms(1) by (auto simp: proper_def wire_change_def)
  then have "ev_Entity (onWire ev) = Some (EntityEventFromProto (Some (entityEventToProto ee)))"
    "ee_ChangeType (EntityEventFromProto (Some (entityEventToProto ee))) = ee_ChangeType ee"
    using Some by (simp_all add: onWire_def eventToProto_def EventFromProto_def EntityEventFromProto_def entityEventToProto_def)
  with assms Some show ?thesis by (simp add: proper_def)
next
  case None
  then obtain re where re: "ev_Relation ev = Some re" "wire_change (re_ChangeType re)"
    using assms(1) by (auto simp: proper_def wire_change_def split: option.splits)
  then have "ev_Entity (onWire ev) = None" "ev_Relation (onWire ev) = Some (RelationEventFromProto (Some (relationEventToProto re)))"
    "re_ChangeType (RelationEventFromProto (Some (relationEventToProto re))) = re_ChangeType re"
    using None by (simp_all add: onWire_def eventToProto_def EventFromProto_def RelationEventFromProto_def relationEventToProto_def)
  with assms None re show ?thesis by (simp add: proper_def)
qed

text \<open>A snapshot that was written is what any later reader of its row gets, as the wire keeps it.\<close>

lemma row_ok_written:
  assumes laws: "log_laws (pk_pebble pk) contents (pk_proto pk)" and w: "WriteSnapshot (pk_pebble pk) (pk_proto pk) seq evs blob st = (st', None)"
    and size: "\<forall>body. snapshotBody (pk_proto pk) 0 evs = Inr body \<longrightarrow> length body + length blob < 2 ^ 32 - 9"
    and so: "snapshot_of L n seq evs"
  shows "row_ok pk contents (contents (s_db st') snapshotKey) L n"
proof -
  have p: "\<forall>ev \<in> set evs. proper ev" and puts: "\<forall>ev \<in> set evs. \<forall>ee. ev_Entity ev = Some ee \<longrightarrow> put_change (ee_ChangeType ee)"
    using so unfolding snapshot_of_def by blast+
  have onWire_puts: "proper (onWire ev) \<and> (\<forall>ee. ev_Entity (onWire ev) = Some ee \<longrightarrow> put_change (ee_ChangeType ee))" if "ev \<in> set evs" for ev
    using onWire_kept that p puts by blast
  have "spec_replay (map onWire evs) T = spec_replay evs T" for T
    using p by (induction evs arbitrary: T) (simp_all add: spec_replay_def onWire_proper(1))
  then have "snapshot_of L n seq (map onWire evs)" using so onWire_puts unfolding snapshot_of_def by auto
  moreover have "evs' = map onWire evs \<and> seq' = seq"
    if c: "contents (s_db s) snapshotKey = contents (s_db st') snapshotKey" and r: "ReadSnapshot (pk_pebble pk) (pk_proto pk) s = Inr (Some (seq', evs', blob'))" for s seq' evs' blob'
  proof -
    obtain v where g: "pb_get (pk_pebble pk) (s_db s) snapshotKey = Inr v" using r by (auto simp: ReadSnapshot_def split: sum.splits)
    obtain body where b: "snapshotBody (pk_proto pk) 0 evs = Inr body" and row: "contents (s_db st') snapshotKey =
        Some (encodeU64 seq @ body @ (if blob = [] then [] else encodeU32 livenessSentinel @ framed blob))"
      using log_laws.snapshot_stored [OF laws w] by (metis fun_upd_same)
    from log_laws.snapshot_row [OF laws row [folded c] b _ g] size b r show ?thesis by simp
  qed
  ultimately show ?thesis unfolding row_ok_def by blast
qed

lemma sampled_snapshot:
  assumes q: "sequenced C n L" and v: "view g = replayLog L" "keyed g" and "seq \<le> n"
  shows "snapshot_of L n seq (SnapshotEvents newID when g)"
proof -
  have "filter (\<lambda>(m, ev). m \<le> n) L = L" using q by (auto simp: filter_id_conv sequenced_def)
  then have "seq \<le> n \<and> n \<le> n \<and> spec_replay (SnapshotEvents newID when g) emptyTopology = replayLog (filter (\<lambda>(m, ev). m \<le> n) L)"
    using assms(4) snapshot_spec [OF v(2)] v(1) by simp
  then show ?thesis using snapshot_proper unfolding snapshot_of_def by blast
qed

lemma meta_snapshot:
  "logged pm (C(snapshotKey := x)) L = logged pm C L" "sequenced (C(snapshotKey := x)) n L = sequenced C n L"
  "logged pm (C(metaFormatKey := x)) L = logged pm C L" "sequenced (C(metaFormatKey := x)) n L = sequenced C n L"
  by (simp_all add: logged_meta sequenced_def)

text \<open>The database as a restart finds it, whatever the engine and the snapshots did before.\<close>

lemma reopened_life:
  assumes laws: "log_laws (pk_pebble pk) contents (pk_proto pk)" and l: "life_ok pk contents st g fl L"
    and o: "openStore (pk_pebble pk) (s_db st) cfg False = Inr st'" and r: "restoreGraph pk now grace st' = Inr (g', liveness)"
  shows "life_ok pk contents st' g' None L" and "s_seq st' = s_seq st"
proof -
  note I = l [unfolded life_ok_def]
  have q: "sequenced (contents (s_db st)) (s_seq st) L" using I by blast
  note R = reopened_store [OF laws q o]
  have C: "logged (pk_proto pk) (contents (s_db st')) L" "sequenced (contents (s_db st')) (s_seq st') L"
    using R I by (auto simp: meta_snapshot)
  have row: "contents (s_db st') snapshotKey = contents (s_db st) snapshotKey" using R(2) by (auto simp: meta_defs)
  have k: "row_ok pk contents (contents (s_db st') snapshotKey) L (s_seq st')" "s_seq st' + 1 \<noteq> 0" "0 \<notin> fst ` set L"
    using I R(1) by (simp_all add: row)
  have "no_dead_heartbeat [] (map snd L)" by (rule live_beats_no_dead [of emptyTopology]) (use I in simp_all)
  note V = restored_view [OF laws C(1) k(3) this k(1,2) r]
  show "s_seq st' = s_seq st" by (rule R(1))
  show "life_ok pk contents st' g' None L" using V C k I unfolding life_ok_def by (simp add: flight_ok_def)
qed

lemma life_invariant:
  assumes laws: "log_laws (pk_pebble pk) contents (pk_proto pk)" and t: "tenant_life pk contents st g fl"
  shows "\<exists>L. life_ok pk contents st g fl L"
  using t
proof induction
  case (fresh st cap)
  then have "life_ok pk contents st (NewWithTombstoneCap cap) None []"
    using row_ok_absent [OF laws] by (simp add: life_ok_def keyed_New flight_ok_def replayLog_def spec_replay_def)
  then show ?case ..
next
  case (commit st g fl evs st' g')
  then show ?case using life_commit [OF laws] by blast
next
  case (quiet st g fl g')
  then show ?case unfolding life_ok_def by metis
next
  case (reference st g fl)
  then show ?case by (auto simp: life_ok_def flight_ok_def Sequence_def)
next
  case (sample st g seq newID t0)
  then obtain L where l: "life_ok pk contents st g (Some (seq, None)) L" by blast
  then have "seq \<le> s_seq st" by (simp add: life_ok_def flight_ok_def)
  then have "snapshot_of L (s_seq st) seq (SnapshotEvents newID t0 g)" using sampled_snapshot l unfolding life_ok_def by blast
  then show ?case using l by (auto simp: life_ok_def flight_ok_def)
next
  case (written st g seq evs blob st' werr)
  then obtain L where l: "life_ok pk contents st g (Some (seq, Some evs)) L" by blast
  show ?case
  proof (cases werr)
    case None
    have so: "snapshot_of L (s_seq st) seq evs" using l by (simp add: life_ok_def flight_ok_def)
    note row = row_ok_written [OF laws written.hyps(2) [unfolded None] written.hyps(3) so]
    obtain v where "contents (s_db st') = (contents (s_db st))(snapshotKey \<mapsto> v)" "s_seq st' = s_seq st"
      using log_laws.snapshot_stored [OF laws written.hyps(2) [unfolded None]] by metis
    then have "life_ok pk contents st' g None L" using l row by (simp add: life_ok_def flight_ok_def meta_snapshot)
    then show ?thesis ..
  next
    case (Some err)
    then have "st' = st" using written.hyps(2) by (auto simp: WriteSnapshot_def Let_def split: sum.splits)
    then have "life_ok pk contents st' g None L" using l by (simp add: life_ok_def flight_ok_def)
    then show ?thesis ..
  qed
next
  case (drop st g fl st' derr)
  then obtain L where l: "life_ok pk contents st g fl L" by blast
  show ?case
  proof (cases derr)
    case None
    then obtain d where c: "pb_commit (pk_pebble pk) (s_db st) [KvDelete snapshotKey] = Inr d" and d: "s_db st' = d" "s_seq st' = s_seq st"
      using drop.hyps(2) by (auto simp: DropSnapshot_def split: sum.splits)
    have "contents d = (contents (s_db st))(snapshotKey := None)" using pebble_laws.commit_law [OF log_laws.axioms(1) [OF laws] c] by simp
    then have "life_ok pk contents st' g fl L" using l d row_ok_absent [OF laws] by (simp add: life_ok_def meta_snapshot)
    then show ?thesis ..
  next
    case (Some err)
    then have "st' = st" using drop.hyps(2) by (auto simp: DropSnapshot_def split: sum.splits)
    with l show ?thesis by blast
  qed
next
  case (restart st g fl cfg st' now grace g' liveness)
  then show ?case using reopened_life [OF laws] by blast
qed

section \<open>The engine and the snapshot writer\<close>

text \<open>
  The whole of \<open>writeTenantSnapshot\<close>, when nothing is committed beside it.
\<close>

lemma writeTenantSnapshot_life:
  assumes "tenant_life pk contents (e_appender (sk_Engine sk)) (e_graph (sk_Engine sk)) fl"
    and w: "writeTenantSnapshot pk newID now blob sk = (sk', werr)"
    and size: "\<forall>body. snapshotBody (pk_proto pk) 0 (SnapshotEvents newID now (e_graph (sk_Engine sk))) = Inr body \<longrightarrow>
      length body + length (case blob of Inl lerr \<Rightarrow> [] | Inr b \<Rightarrow> b) < 2 ^ 32 - 9"
  shows "tenant_life pk contents (e_appender (sk_Engine sk')) (e_graph (sk_Engine sk')) None" and "e_graph (sk_Engine sk') = e_graph (sk_Engine sk)"
proof -
  let ?e = "sk_Engine sk" and ?evs = "SnapshotEvents newID now (e_graph (sk_Engine sk))" and ?b = "case blob of Inl lerr \<Rightarrow> [] | Inr b \<Rightarrow> b"
  obtain st' err where s: "WriteSnapshot (pk_pebble pk) (pk_proto pk) (Sequence (e_appender ?e)) ?evs ?b (e_appender ?e) = (st', err)" by fastforce
  then have sk': "sk_Engine sk' = ?e\<lparr>e_appender := st'\<rparr>" using w by (auto simp: writeTenantSnapshot_def Let_def)
  show "e_graph (sk_Engine sk') = e_graph ?e" by (simp add: sk')
  have "tenant_life pk contents st' (e_graph ?e) None"
    by (rule tenant_life.written [OF tenant_life.sample [OF tenant_life.reference [OF assms(1)]] s size])
  then show "tenant_life pk contents (e_appender (sk_Engine sk')) (e_graph (sk_Engine sk')) None" by (simp add: sk')
qed

lemma reach_keyed:
  assumes "ulid_ok ulid" and "reach ulid e"
  shows "keyed (e_graph e)"
proof -
  obtain hid where "graph_inv hid (e_graph e)" using reach_idle [OF assms] by (auto simp: idle_ok_def good_def sound_def engine_inv_def)
  then show ?thesis by (simp add: keyed_def graph_inv_def wf_index_def rel_keys_def view_def)
qed

lemma flushed_life:
  assumes t: "tenant_life pk contents (e_appender e) (e_graph e) fl" and f: "flushed env ses e e' ok" and k: "keyed (e_graph e')"
    and a: "env_append env = storeAppend (pk_pebble pk) (pk_proto pk) errText" and room: "unat (s_seq (e_appender e)) + length ses + 1 < 2 ^ 64"
    and o: "ok_events hid (view (e_graph e)) (map fst ses)"
  shows "tenant_life pk contents (e_appender e') (e_graph e') fl"
  using f
proof cases
  case nothing
  with tenant_life.quiet [OF t k] show ?thesis by simp
next
  case (refused err)
  with tenant_life.quiet [OF t k] show ?thesis by simp
next
  case (accepted app seq)
  have "Append (pk_pebble pk) (pk_proto pk) (map fst ses) (e_appender e) = (app, None)"
    using accepted(2) a by (auto simp: storeAppend_def split: prod.splits option.splits)
  moreover have "engineCommit (e_graph e) (map fst ses) (e_graph e')"
    using accepted k ok_events_proper [OF o] ok_events_live_beats [OF o] by (simp add: engineCommit_def)
  ultimately show ?thesis using tenant_life.commit [OF t] room accepted by simp
qed

lemma settings_graph [simp]:
  "e_graph (WithRelationBuffer ttl e) = e_graph e" "e_graph (SetDiscardReporter fn e) = e_graph e"
  "e_graph (SetIdentityAliasConflictReporter fn e) = e_graph e" "e_graph (SetPromiseReporter fn e) = e_graph e"
  "e_graph (fst (Subscribe e)) = e_graph e" "e_graph (Unsubscribe i e) = e_graph e"
  by (simp_all add: WithRelationBuffer_def SetDiscardReporter_def SetIdentityAliasConflictReporter_def SetPromiseReporter_def Subscribe_def Unsubscribe_def)

text \<open>
  The engine is one that commits so: an engine as the server drives it over a database that was
  empty is a life of this database.
\<close>

lemma driven_life:
  assumes laws: "log_laws (pk_pebble pk) contents (pk_proto pk)" and u: "ulid_ok ulid" and s: "stored (pk_proto pk) (contents (s_db s)) (s_seq s) []"
    and e: "contents (s_db s) snapshotKey = None" "s_seq s + 1 \<noteq> 0"
    and d: "driven (storeEnv (pk_pebble pk) (pk_proto pk) errText ulid) (\<lambda>s n. unat (s_seq s) + n + 1 < 2 ^ 64) s e"
  shows "reach ulid e \<and> tenant_life pk contents (e_appender e) (e_graph e) None"
  using d
proof induction
  case (start n)
  have "tenant_life pk contents s (NewWithTombstoneCap n) None" using s e by (intro tenant_life.fresh) (simp_all add: stored_def)
  then show ?case using reach.new by (simp add: NewEngine_def)
next
  case (restore e t snap)
  have "ecore (RestoreLiveness (storeEnv (pk_pebble pk) (pk_proto pk) errText ulid t) snap e) = ecore e"
    using RestoreLiveness_inv reach_idle [OF u] restore.IH unfolding idle_ok_def by blast
  then show ?case using restore.IH by (auto intro: reach.restore simp: ecore_def)
next
  case (batch e t ops)
  let ?env = "storeEnv (pk_pebble pk) (pk_proto pk) errText ulid t"
  obtain e' err where b: "Batch ?env ops e = (e', err)" by fastforce
  have env: "env_ulid ?env = ulid" "env_append ?env = storeAppend (pk_pebble pk) (pk_proto pk) errText" by (simp_all add: storeEnv_def)
  have r: "reach (env_ulid ?env) e" "ulid_ok (env_ulid ?env)" "reach ulid e'" using batch.IH u env(1) reach.batch [OF _ env(1), of e ops] b by simp_all
  note E = Batch_events [OF r(2,1) b]
  from E(3) obtain hid where o: "ok_events hid (view (e_graph e)) (map fst (batchEvents ?env ops e))" by blast
  have "tenant_life pk contents (e_appender e') (e_graph e') None"
    using flushed_life [OF _ E(1) reach_keyed [OF u r(3)] env(2) _ o] batch by blast
  with b r(3) show ?case by simp
next
  case (sweep e t)
  let ?env = "storeEnv (pk_pebble pk) (pk_proto pk) errText ulid t"
  obtain e' res err where b: "Sweep ?env e = (e', res, err)" by (metis prod_cases3)
  have env: "env_ulid ?env = ulid" "env_append ?env = storeAppend (pk_pebble pk) (pk_proto pk) errText" by (simp_all add: storeEnv_def)
  have r: "reach (env_ulid ?env) e" "ulid_ok (env_ulid ?env)" "reach ulid e'" using sweep.IH u env(1) reach.sweep [OF _ env(1), of e] b by simp_all
  note E = Sweep_events [OF r(2,1) b]
  from E(2) obtain hid where o: "ok_events hid (view (e_graph e)) (map fst (sweepEvents ?env e))" by blast
  have "tenant_life pk contents (e_appender e') (e_graph e') None"
    using flushed_life [OF _ E(1) reach_keyed [OF u r(3)] env(2) _ o] sweep by blast
  with b r(3) show ?case by simp
qed (auto intro: reach.intros)

end
