(* ===== verification/Registry_Theorems.thy ===== *)
theory Registry_Theorems
  imports Registry_Restart
begin

text \<open>
  The properties of the tenant registry: a restart restores the topology from the snapshot and
  the tail of the log, concurrent callers open a tenant once and never mint more tenants than the
  limit allows.
\<close>

section \<open>Definitions\<close>

text \<open>
  The registry under concurrent calls of \<open>ensure\<close>: callers enter, and the owner of a slot leaves
  with a stack or an error; \<open>k\<close> counts the slots granted outside the limits.
\<close>

inductive registry_run :: "'d Registry \<Rightarrow> nat \<Rightarrow> 'd Registry \<Rightarrow> bool" for r0 where
  start: "registry_run r0 0 r0"
| enter: "registry_run r0 k r \<Longrightarrow> ensureEnter i minting r = (r', x) \<Longrightarrow> x \<noteq> Slot \<Longrightarrow> registry_run r0 k r'"
| mint: "registry_run r0 k r \<Longrightarrow> ensureEnter i True r = (r', Slot) \<Longrightarrow> i \<noteq> Default \<Longrightarrow> registry_run r0 k r'"
| exempt: "registry_run r0 k r \<Longrightarrow> ensureEnter i minting r = (r', Slot) \<Longrightarrow> \<not> minting \<or> i = Default \<Longrightarrow> registry_run r0 (Suc k) r'"
| leave: "registry_run r0 k r \<Longrightarrow> ghas (rg_opening r) i \<Longrightarrow> registry_run r0 k (ensureLeave i res r)"

definition slots_ok :: "'d Registry \<Rightarrow> bool" where
  "slots_ok r = (gdistinct (rg_stacks r) \<and> gdistinct (rg_opening r) \<and> (\<forall>i. ghas (rg_opening r) i \<longrightarrow> \<not> ghas (rg_stacks r) i))"

section \<open>Restart\<close>



definition fxPackages :: "rows packages" where
  "fxPackages = \<lparr>pk_pebble = memPebble, pk_proto = fxCodec, pk_open = (\<lambda>d. Inr (case d of None \<Rightarrow> [] | Some d \<Rightarrow> d)),
     pk_json = (\<lambda>_. None), pk_annotations = (\<lambda>_. None)\<rparr>"

definition fxRegistry :: "rows Registry" where
  "fxRegistry = \<lparr>rg_storeCfg = DefaultConfig, rg_relBuf = 0, rg_resGrace = 0, rg_promiseReporter = False, rg_discardReporter = False,
     rg_aliasConflictReporter = False, rg_limits = \<lparr>lm_AutoCreate = True, lm_Allowlist = [], lm_MaxTenants = 1\<rparr>, rg_quarantined = [],
     rg_stacks = [], rg_opening = []\<rparr>"

definition fxBoot :: "rows Store env" where
  "fxBoot = \<lparr>env_now = unixEpoch + 100, env_ulid = fxUlid, env_append = storeAppend memPebble fxCodec (\<lambda>err. [])\<rparr>"











section \<open>Concurrent callers\<close>

lemma enter_slot:
  assumes "ensureEnter i minting r = (r', Slot)"
  shows "\<not> ghas (rg_stacks r) i" and "\<not> ghas (rg_opening r) i" and "r' = r\<lparr>rg_opening := gadd i (rg_opening r)\<rparr>"
    and "minting \<Longrightarrow> allows (rg_limits r) i (length (rg_stacks r) + length (rg_opening r)) = None"
  using assms by (auto simp: ensureEnter_def ghas_def split: option.splits if_splits)

lemma enter_other: "ensureEnter i minting r = (r', x) \<Longrightarrow> x \<noteq> Slot \<Longrightarrow> r' = r"
  by (auto simp: ensureEnter_def split: option.splits if_splits)

lemma slot_granted:
  assumes "slots_ok r" and "ensureEnter i minting r = (r', Slot)"
  shows "slots_ok r'" and "rg_limits r' = rg_limits r" and "rg_stacks r' = rg_stacks r" and "length (rg_opening r') = Suc (length (rg_opening r))"
  using assms enter_slot [OF assms(2)] by (auto simp: slots_ok_def gadd_def length_gput)

lemma slot_left:
  assumes "slots_ok r" and "ghas (rg_opening r) i"
  shows "slots_ok (ensureLeave i res r)" and "rg_limits (ensureLeave i res r) = rg_limits r"
    and "length (rg_stacks (ensureLeave i res r)) + length (rg_opening (ensureLeave i res r)) \<le> length (rg_stacks r) + length (rg_opening r)"
    and "map_of (rg_stacks r) j = Some s \<Longrightarrow> map_of (rg_stacks (ensureLeave i res r)) j = Some s"
proof -
  have "int (length (gdel i (rg_opening r))) = int (length (rg_opening r)) - 1"
    using assms by (intro length_gdel_mem) (simp_all add: slots_ok_def)
  then have n: "Suc (length (gdel i (rg_opening r))) = length (rg_opening r)" by linarith
  have i: "\<not> ghas (rg_stacks r) i" using assms by (simp add: slots_ok_def)
  show "slots_ok (ensureLeave i res r)" using assms i by (cases res) (auto simp: slots_ok_def ensureLeave_def Let_def)
  show "rg_limits (ensureLeave i res r) = rg_limits r" by (cases res) (simp_all add: ensureLeave_def Let_def)
  show "length (rg_stacks (ensureLeave i res r)) + length (rg_opening (ensureLeave i res r)) \<le> length (rg_stacks r) + length (rg_opening r)"
    using n i by (cases res) (simp_all add: ensureLeave_def Let_def length_gput)
  show "map_of (rg_stacks (ensureLeave i res r)) j = Some s" if "map_of (rg_stacks r) j = Some s"
    using i that by (cases res) (auto simp: ensureLeave_def Let_def ghas_def)
qed

lemma run_slots:
  assumes "registry_run r0 k r" and "slots_ok r0"
  shows "slots_ok r \<and> rg_limits r = rg_limits r0 \<and> (\<forall>i s. map_of (rg_stacks r0) i = Some s \<longrightarrow> map_of (rg_stacks r) i = Some s)"
  using assms
proof induction
  case (enter k r i minting r' x)
  then show ?case using enter_other by metis
next
  case (mint k r i r')
  then have "slots_ok r" by simp
  from slot_granted [OF this mint.hyps(2)] mint show ?case by simp
next
  case (exempt k r i minting r')
  then have "slots_ok r" by simp
  from slot_granted [OF this exempt.hyps(2)] exempt show ?case by simp
next
  case (leave k r i res)
  then have "slots_ok r" by simp
  from slot_left [OF this leave.hyps(2)] leave show ?case by simp
qed simp

text \<open>
  C31. The tenant limit holds under concurrent requests: however callers of \<open>ensure\<close> interleave,
  the open stacks and the stacks being opened are together never more than the limit, or than
  there were at the start, plus the tenants that are opened outside the limits (those already on
  disk and the default one).
\<close>

theorem tenant_limit_under_concurrency:
  assumes run: "registry_run r0 k r" and ok: "slots_ok r0" and M: "lm_MaxTenants (rg_limits r0) > 0"
  shows "int (TenantCount r + length (rg_opening r)) \<le> max (lm_MaxTenants (rg_limits r0)) (int (TenantCount r0 + length (rg_opening r0))) + int k"
  using run
proof induction
  case (enter k r i minting r' x)
  then show ?case using enter_other by metis
next
  case (mint k r i r')
  have l: "rg_limits r = rg_limits r0" "slots_ok r" using run_slots [OF mint.hyps(1) ok] by simp_all
  have "int (length (rg_stacks r) + length (rg_opening r)) < lm_MaxTenants (rg_limits r0)"
    using enter_slot(4) [OF mint.hyps(2)] mint.hyps(3) M l(1) by (simp add: allows_def split: if_splits)
  then show ?case using slot_granted [OF l(2) mint.hyps(2)] by (simp add: TenantCount_def)
next
  case (exempt k r i minting r')
  have "slots_ok r" using run_slots [OF exempt.hyps(1) ok] by simp
  from slot_granted [OF this exempt.hyps(2)] exempt.IH show ?case by (simp add: TenantCount_def)
next
  case (leave k r i res)
  have "slots_ok r" using run_slots [OF leave.hyps(1) ok] by simp
  from slot_left(3) [OF this leave.hyps(2), of res] leave.IH show ?case by (simp add: TenantCount_def)
qed (simp add: TenantCount_def)

theorem tenant_limit_under_concurrency_witness:
  "snd (ensureEnter ''b'' True (fst (ensureEnter ''a'' True fxRegistry))) = Refused (CapReached 1) \<and>
     TenantCount (fst (ensureEnter ''a'' True fxRegistry)) + length (rg_opening (fst (ensureEnter ''a'' True fxRegistry))) \<le> 1"
proof -
  have ok: "slots_ok fxRegistry" by (simp add: slots_ok_def fxRegistry_def gdistinct_def ghas_def)
  have e: "ensureEnter ''a'' True fxRegistry = (fxRegistry\<lparr>rg_opening := gadd ''a'' []\<rparr>, Slot)"
    by (simp add: ensureEnter_def fxRegistry_def allows_def Default_def ghas_def)
  have "registry_run fxRegistry 0 (fxRegistry\<lparr>rg_opening := gadd ''a'' []\<rparr>)"
    by (rule registry_run.mint [OF registry_run.start e]) (simp add: Default_def)
  from tenant_limit_under_concurrency [OF this ok] e show ?thesis
    by (simp add: fxRegistry_def TenantCount_def ensureEnter_def allows_def Default_def ghas_def gadd_def)
qed

text \<open>
  C32. A tenant is opened once: while callers interleave, a slot is only granted for an id that has
  neither a stack nor a slot, no two slots are for one id, and a stack once cached is what every
  later caller gets.
\<close>

theorem a_tenant_is_opened_once:
  assumes "registry_run r0 k r" and "slots_ok r0"
  shows "(ensureEnter i minting r = (r', Slot) \<longrightarrow> \<not> ghas (rg_stacks r) i \<and> \<not> ghas (rg_opening r) i) \<and>
    (map_of (rg_stacks r0) i = Some s \<longrightarrow> ensureEnter i minting r = (r, Cached s)) \<and>
    distinct (gkeys (rg_opening r)) \<and> distinct (gkeys (rg_stacks r)) \<and> set (gkeys (rg_opening r)) \<inter> set (gkeys (rg_stacks r)) = {}"
proof -
  have R: "slots_ok r" "map_of (rg_stacks r0) i = Some s \<longrightarrow> map_of (rg_stacks r) i = Some s"
    using run_slots [OF assms] by blast+
  then have "map_of (rg_stacks r0) i = Some s \<longrightarrow> ensureEnter i minting r = (r, Cached s)" by (simp add: ensureEnter_def)
  moreover have "set (gkeys (rg_opening r)) \<inter> set (gkeys (rg_stacks r)) = {}"
    using R(1) unfolding slots_ok_def by (auto simp: gkeys_def ghas_def map_of_eq_None_iff)
  moreover have "ensureEnter i minting r = (r', Slot) \<longrightarrow> \<not> ghas (rg_stacks r) i \<and> \<not> ghas (rg_opening r) i" using enter_slot(1,2) by blast
  ultimately show ?thesis using R(1) by (simp add: slots_ok_def gdistinct_def gkeys_def)
qed

theorem a_tenant_is_opened_once_witness:
  "\<not> (\<exists>r'. ensureEnter ''a'' True (fst (ensureEnter ''a'' True fxRegistry)) = (r', Slot))"
proof
  let ?r = "fxRegistry\<lparr>rg_opening := gadd ''a'' []\<rparr>"
  have ok: "slots_ok fxRegistry" by (simp add: slots_ok_def fxRegistry_def gdistinct_def ghas_def)
  have e: "ensureEnter ''a'' True fxRegistry = (?r, Slot)" by (simp add: ensureEnter_def fxRegistry_def allows_def Default_def ghas_def)
  have run: "registry_run fxRegistry 0 ?r" by (rule registry_run.mint [OF registry_run.start e]) (simp add: Default_def)
  assume "\<exists>r'. ensureEnter ''a'' True (fst (ensureEnter ''a'' True fxRegistry)) = (r', Slot)"
  then obtain r' where "ensureEnter ''a'' True ?r = (r', Slot)" using e by auto
  with a_tenant_is_opened_once [OF run ok, of "''a''" True r' undefined] have "\<not> ghas (rg_opening ?r) ''a''" by blast
  then show False by (simp add: gadd_def ghas_def)
qed

section \<open>Boot\<close>

lemma tenantDirs_hidden:
  assumes "has_prefix i ''.''"
  shows "i \<notin> set (fst (tenantDirs ents)) \<and> i \<notin> set (snd (tenantDirs ents))"
proof -
  define f :: "string list \<times> string list \<Rightarrow> string \<times> bool \<Rightarrow> string list \<times> string list"
    where "f = (\<lambda>(out, skipped) (name, isDir). if \<not> isDir \<or> has_prefix name ''.'' then (out, skipped)
       else if Sanitize name = (name, True) then (out @ [name], skipped) else (out, skipped @ [name]))"
  have step: "i \<notin> set (fst (f os e)) \<and> i \<notin> set (snd (f os e))" if "i \<notin> set (fst os) \<and> i \<notin> set (snd os)" for os e
    using that assms by (cases os; cases e) (auto simp: f_def)
  have "i \<notin> set (fst (foldl f os ents)) \<and> i \<notin> set (snd (foldl f os ents))" if "i \<notin> set (fst os) \<and> i \<notin> set (snd os)" for os
    using that by (induction ents arbitrary: os) (simp_all add: step)
  then show ?thesis by (simp add: tenantDirs_def f_def)
qed

text \<open>
  A tenant id that begins with a dot is accepted like any other, so that its first write mints
  its directory, but boot never sees that directory again: it is neither among the tenants that
  are opened nor among the entries that are reported as skipped.
\<close>

theorem hidden_tenant_is_forgotten_at_boot:
  assumes "Sanitize i = (i, True)" and "has_prefix i ''.''"
  shows "For pk env i disk r = ensure pk env i (\<not> ghas disk i) disk r \<and>
    i \<notin> set (fst (tenantDirs ents)) \<and> i \<notin> set (snd (tenantDirs ents))"
  using assms tenantDirs_hidden [OF assms(2)] by (simp add: For_def)

theorem hidden_tenant_is_forgotten_at_boot_witness:
  "Sanitize ''.acme'' = (''.acme'', True) \<and> tenantDirs [(''.acme'', True), (''acme'', True), (''a b'', True)] = ([''acme''], [''a b'']) \<and>
     ''.acme'' \<notin> set (fst (tenantDirs [(''.acme'', True), (''acme'', True), (''a b'', True)]))"
proof -
  have s: "Sanitize ''.acme'' = (''.acme'', True)" "tenantDirs [(''.acme'', True), (''acme'', True), (''a b'', True)] = ([''acme''], [''a b''])"
    by code_simp+
  have "has_prefix ''.acme'' ''.''" by (simp add: has_prefix_def)
  from hidden_tenant_is_forgotten_at_boot [OF s(1) this, of fxPackages fxBoot "[]" fxRegistry] s show ?thesis by blast
qed

end
