(* ===== verification/Ingest_Tenants.thy ===== *)
theory Ingest_Tenants
  imports Ingest_Export Registry_Theorems
begin

text \<open>
  The tenants that an export can reach.  The receiver is proved against an interface, a source of
  engines in which the parts of different tenants are separate; the registry provides it.
\<close>

section \<open>The interface\<close>

locale engine_source =
  fixes eng :: "string \<Rightarrow> 'w \<Rightarrow> 'w \<times> (RegErr + 'a Engine)" and put :: "string \<Rightarrow> 'a Engine \<Rightarrow> 'w \<Rightarrow> 'w" and part :: "string \<Rightarrow> 'w \<Rightarrow> 'x"
  assumes eng_frame: "Sanitize i = (i, True) \<Longrightarrow> j \<noteq> i \<Longrightarrow> eng i w = (w', res) \<Longrightarrow> part j w' = part j w"
    and put_frame: "j \<noteq> i \<Longrightarrow> part j (put i e w) = part j w"
begin

lemma resource_frame:
  assumes x: "exportResource env ctx bt locked rl x = (x', err)" and srv: "ls_engineFor (xs_server x) = eng" "ls_putEngine (xs_server x) = put"
    and bt: "Sanitize bt = (bt, True)" and j: "(\<exists>f. ls_authorize (xs_server x) = Some f \<and> \<not> f ctx j) \<or> locked \<and> j \<noteq> bt"
  shows "part j (xs_world x') = part j (xs_world x) \<and> (\<exists>rs. xs_server x' = (xs_server x)\<lparr>ls_reconcilers := rs\<rparr> \<and>
    map_of rs j = map_of (ls_reconcilers (xs_server x)) j)"
proof -
  let ?done = "\<lambda>x'. part j (xs_world x') = part j (xs_world x) \<and> (\<exists>rs. xs_server x' = (xs_server x)\<lparr>ls_reconcilers := rs\<rparr> \<and>
    map_of rs j = map_of (ls_reconcilers (xs_server x)) j)"
  have same: "?done x" by (intro conjI exI [of _ "ls_reconcilers (xs_server x)"]) simp_all
  show ?thesis
  proof (cases "resourceTenant bt locked (rl_Attributes rl)")
    case (Inl e)
    then have "x' = x" using x by (simp add: exportResource_def Let_def)
    with same show ?thesis by simp
  next
    case (Inr i)
    have i: "Sanitize i = (i, True)" "locked \<Longrightarrow> i = bt"
      using Inr bt Sanitize_accepted(2) by (auto simp: resourceTenant_def split: option.splits if_splits prod.splits)
    show ?thesis
    proof (cases "case ls_authorize (xs_server x) of Some f \<Rightarrow> \<not> f ctx i | None \<Rightarrow> False")
      case True
      then have "x' = x" using x Inr by (simp add: exportResource_def Let_def)
      with same show ?thesis by simp
    next
      case False
      then have ji: "j \<noteq> i" using j i(2) by (auto split: option.splits)
      obtain w res where e: "eng i (xs_world x) = (w, res)" by fastforce
      note frame = eng_frame [OF i(1) ji e]
      show ?thesis
      proof (cases res)
        case (Inl rerr)
        then have "x' = x\<lparr>xs_world := w\<rparr>" using x Inr False e srv by (simp add: exportResource_def Let_def)
        with same frame show ?thesis by simp
      next
        case (Inr engine)
        obtain p e' r t routeErr batchErr where
          b: "ingestBatch env i p (\<not> ls_acceptUnknown (xs_server x)) (rl_ScopeLogs rl) (reconcilerFor i (xs_server x)) (xs_tally x) engine
            = (e', r, t, routeErr, batchErr)" and p: "p = (case strAttr (rl_Attributes rl) resAttrProducer of Some p \<Rightarrow> p | None \<Rightarrow> [])"
          by (metis prod_cases5)
        have "xs_world x' = put i e' w \<and> xs_server x' = (xs_server x)\<lparr>ls_reconcilers := gput i r (ls_reconcilers (xs_server x))\<rparr>"
          using x \<open>resourceTenant bt locked (rl_Attributes rl) = Inr i\<close> False e srv Inr b p
          by (auto simp: exportResource_def Let_def split: option.splits)
        with frame put_frame [OF ji] ji show ?thesis
          by (intro conjI exI [of _ "gput i r (ls_reconcilers (xs_server x))"]) simp_all
      qed
    qed
  qed
qed

lemma resources_frame:
  assumes "exportResources env ctx bt locked rls x = (x', err)" and "ls_engineFor (xs_server x) = eng" "ls_putEngine (xs_server x) = put"
    and bt: "Sanitize bt = (bt, True)" and "(\<exists>f. ls_authorize (xs_server x) = Some f \<and> \<not> f ctx j) \<or> locked \<and> j \<noteq> bt"
  shows "part j (xs_world x') = part j (xs_world x) \<and> map_of (ls_reconcilers (xs_server x')) j = map_of (ls_reconcilers (xs_server x)) j"
  using assms
proof (induction rls arbitrary: x)
  case (Cons rl rls)
  obtain x1 err1 where 1: "exportResource env ctx bt locked rl x = (x1, err1)" by fastforce
  note F = resource_frame [OF 1 Cons.prems(2,3) bt Cons.prems(5)]
  show ?case
  proof (cases err1)
    case None
    then have "exportResources env ctx bt locked rls x1 = (x', err)" using 1 Cons.prems(1) by simp
    from Cons.IH [OF this] F Cons.prems show ?thesis by auto
  next
    case (Some e)
    then have "x' = x1" using 1 Cons.prems(1) by simp
    with F show ?thesis by auto
  qed
qed simp

lemma export_frame:
  assumes "Export env ctx rls srv w = (x, res)" and "ls_engineFor srv = eng" "ls_putEngine srv = put"
    and "ls_resolveTenant srv ctx = (bt, locked, True)" "Sanitize bt = (bt, True)"
    and "(\<exists>f. ls_authorize srv = Some f \<and> \<not> f ctx j) \<or> locked \<and> j \<noteq> bt"
  shows "part j (xs_world x) = part j w \<and> map_of (ls_reconcilers (xs_server x)) j = map_of (ls_reconcilers srv) j"
proof -
  let ?x0 = "\<lparr>xs_server = srv, xs_world = w, xs_tally = zeroTally, xs_perTenant = []\<rparr>"
  obtain err where "exportResources env ctx bt locked rls ?x0 = (x, err)"
    using assms(1,4) by (auto simp: Export_def Let_def split: prod.splits option.splits)
  from resources_frame [OF this] assms show ?thesis by simp
qed

end

section \<open>The registry provides it\<close>

definition tenantPart :: "string \<Rightarrow> 'd disk \<times> 'd Registry \<Rightarrow> 'd option \<times> 'd Stack option" where
  "tenantPart j w = (map_of (fst w) j, map_of (rg_stacks (snd w)) j)"

lemma openStack_frame: "openStack pk env i disk r = (disk', res) \<Longrightarrow> j \<noteq> i \<Longrightarrow> map_of disk' j = map_of disk j"
  by (auto simp: openStack_def Let_def split: sum.splits prod.splits option.splits)

lemma ensureEnter_stacks: "ensureEnter i minting r = (r', x) \<Longrightarrow> rg_stacks r' = rg_stacks r"
  by (auto simp: ensureEnter_def split: option.splits if_splits)

lemma ensure_frame:
  assumes "ensure pk env i minting disk r = (disk', r', res)" and "j \<noteq> i"
  shows "map_of disk' j = map_of disk j \<and> map_of (rg_stacks r') j = map_of (rg_stacks r) j"
proof -
  obtain r1 x where e: "ensureEnter i minting r = (r1, x)" by fastforce
  obtain d o' where o: "openStack pk env i disk r1 = (d, o')" by fastforce
  have "rg_stacks r1 = rg_stacks r" using ensureEnter_stacks [OF e] .
  then show ?thesis using assms e o openStack_frame [OF o assms(2)]
    by (cases x) (auto simp: ensure_def ensureLeave_def Let_def split: sum.splits)
qed

interpretation registry_source: engine_source "engineFor pk env" putEngine tenantPart
proof (unfold_locales, goal_cases)
  case (1 i j w w' res)
  obtain disk r where w: "w = (disk, r)" by (cases w)
  obtain disk' r' res' where e: "ensure pk env i (\<not> ghas disk i) disk r = (disk', r', res')" by (metis prod_cases3)
  then have "w' = (disk', r')" using 1(1,3) w by (auto simp: engineFor_def For_def split: sum.splits)
  with ensure_frame [OF e 1(2)] w show ?case by (simp add: tenantPart_def)
next
  case (2 j i e w)
  then show ?case by (auto simp: putEngine_def tenantPart_def split: prod.splits option.splits)
qed

text \<open>
  C8. An export cannot touch a tenant it may not write.  Whatever its resources name, the store
  directory, the open stack (log, topology, liveness) and the recorded assertions of a tenant
  that the caller is not authorized for are as they were, also when the export fails on the way;
  and when the tenant is derived from the token and locked, this holds for every other tenant.
\<close>

theorem export_stays_within_its_tenants:
  assumes x: "Export env ctx rls srv w = (x, res)" and srv: "ls_engineFor srv = engineFor pk senv" "ls_putEngine srv = putEngine"
    and t: "ls_resolveTenant srv ctx = (bt, locked, True)" "Sanitize bt = (bt, True)"
    and j: "(\<exists>f. ls_authorize srv = Some f \<and> \<not> f ctx j) \<or> locked \<and> j \<noteq> bt"
  shows "map_of (fst (xs_world x)) j = map_of (fst w) j \<and> map_of (rg_stacks (snd (xs_world x))) j = map_of (rg_stacks (snd w)) j \<and>
    map_of (ls_reconcilers (xs_server x)) j = map_of (ls_reconcilers srv) j"
  using registry_source.export_frame [OF x srv t j] by (simp add: tenantPart_def)

theorem export_stays_within_its_tenants_witness:
  "let srv = registryServer fxPackages fxBoot (Some (\<lambda>ctx t. t = ctx)) (\<lambda>ctx. [ctx]) False;
       rl = \<lparr>rl_Attributes = [(ResourceAttr, PStr ''b'')], rl_ScopeLogs = []\<rparr>;
       x = fst (Export fxBoot ''a'' [rl] srv ([(''b'', s_db fxStore)], fxRegistry))
   in snd (Export fxBoot ''a'' [rl] srv ([(''b'', s_db fxStore)], fxRegistry)) = Inl (NotAuthorized ''b'') \<and>
      map_of (fst (xs_world x)) ''b'' = Some (s_db fxStore)"
proof -
  let ?srv = "registryServer fxPackages fxBoot (Some (\<lambda>ctx t. t = ctx)) (\<lambda>ctx. [ctx]) False"
  let ?rl = "\<lparr>rl_Attributes = [(ResourceAttr, PStr ''b'')], rl_ScopeLogs = []\<rparr>"
  let ?w = "([(''b'', s_db fxStore)], fxRegistry)"
  obtain x res where x: "Export fxBoot ''a'' [?rl] ?srv ?w = (x, res)" by fastforce
  have s: "Sanitize ''a'' = (''a'', True)" "Sanitize ''b'' = (''b'', True)" by code_simp+
  have "ls_engineFor ?srv = engineFor fxPackages fxBoot" "ls_putEngine ?srv = putEngine" "ls_resolveTenant ?srv ''a'' = (''a'', False, True)"
    by (simp_all add: registryServer_def NewRoutedReceiver_def FromGRPC_def s)
  note X = export_stays_within_its_tenants [OF x this s(1), of "''b''"]
  have "res = Inl (NotAuthorized ''b'')"
    using x s by (simp add: Export_def exportResource_def registryServer_def NewRoutedReceiver_def FromGRPC_def resourceTenant_def
        strAttr_def Let_def)
  with x X show ?thesis by (simp add: registryServer_def NewRoutedReceiver_def)
qed

end
