(* ===== verification/Auth_Theorems.thy ===== *)
theory Auth_Theorems
  imports Oidc Tenant_Router Ingest_Tenants
begin

text \<open>
  What the tokens guarantee, against the access matrix they are configured as, and the composition
  with the receiver.
\<close>

section \<open>The access matrix\<close>

text \<open>
  The specification of the package: a global token of full role, or of the role of the surface,
  grants every tenant; a token of a tenant grants that tenant.
\<close>

definition grants :: "Authenticator \<Rightarrow> string \<Rightarrow> string \<Rightarrow> surface \<Rightarrow> bool" where
  "grants a token t s = (let got = hashToken token; role = (case s of surfaceRead \<Rightarrow> au_readTokens a | surfaceIngest \<Rightarrow> au_ingestTokens a);
       scopedRole = (case s of surfaceRead \<Rightarrow> au_scopedRead a | surfaceIngest \<Rightarrow> au_scopedIngest a)
     in got \<in> set (au_tokens a) \<or> got \<in> set role \<or>
        (\<exists>toks. (map_of (au_scoped a) t = Some toks \<or> map_of scopedRole t = Some toks) \<and> got \<in> set toks))"

lemma matchAny_set [simp]: "matchAny token wants \<longleftrightarrow> token \<in> set wants"
proof -
  have "foldl (\<lambda>ok want. if token = want then True else ok) b wants \<longleftrightarrow> b \<or> token \<in> set wants" for b
    by (induction wants arbitrary: b) auto
  then show ?thesis by (simp add: matchAny_def)
qed

lemma scoped_set: "got \<in> set (gget [] m t) \<longleftrightarrow> (\<exists>toks. map_of m t = Some toks \<and> got \<in> set toks)"
  by (cases "map_of m t") (simp_all add: gget_def)

lemma allowed_grants: "allowedForTenant token t s a \<longleftrightarrow> grants a token t s"
  by (cases s) (auto simp: allowedForTenant_def grants_def roleSet_def scopedRoleSet_def scoped_set Let_def)

lemma any_scoped: "foldl (\<lambda>ok (_, toks). if got \<in> set toks then True else ok) b m \<longleftrightarrow> b \<or> (\<exists>(t, toks) \<in> set m. got \<in> set toks)"
  by (induction m arbitrary: b) (auto split: if_splits)

text \<open>A token is accepted on a surface exactly when it grants some tenant there.\<close>

lemma valid_grants:
  assumes "gdistinct (au_scoped a)" "gdistinct (au_scopedRead a)" "gdistinct (au_scopedIngest a)"
  shows "valid token s a \<longleftrightarrow> (\<exists>t. grants a token t s)"
proof -
  have m: "(\<exists>(t, toks) \<in> set m. got \<in> set toks) \<longleftrightarrow> (\<exists>t toks. map_of m t = Some toks \<and> got \<in> set toks)" if "gdistinct m" for m :: scopedTokens and got
    using that by (auto simp: gdistinct_def)
  show ?thesis
    using m [OF assms(1)] m [OF assms(2)] m [OF assms(3)]
    by (cases s) (auto simp: valid_def grants_def roleSet_def scopedRoleSet_def any_scoped Let_def)
qed

section \<open>Reading\<close>

lemma Effective_writable [simp]: "EffectiveTenantHTTP a (WithWritable writable r) = EffectiveTenantHTTP a r"
  by (simp add: EffectiveTenantHTTP_def WithWritable_def cong: if_cong option.case_cong)

lemma passed_within_grants:
  assumes on: "Enabled a" and m: "HTTPMiddleware public a r = (Pass r', failed)"
    and path: "\<not> gget False public (rq_Path r)" "\<not> gget False (au_tenantExempt a) (rq_Path r)"
    and fresh: "rq_resolvedTenant r = None" and oidc: "au_oidc a = map_option (\<lambda>cfg. Verify idToken cfg) oc"
    and t: "EffectiveTenantHTTP a r' = (t, True)"
  shows "(bearer (rq_Authorization r) \<noteq> [] \<and> grants a (bearer (rq_Authorization r)) t surfaceRead \<and>
      (CanWrite r' \<longrightarrow> hashToken (bearer (rq_Authorization r)) \<in> set (au_tokens a) \<or>
         (\<exists>(u, toks) \<in> set (au_scoped a). hashToken (bearer (rq_Authorization r)) \<in> set toks))) \<or>
    (\<exists>cfg role. oc = Some cfg \<and> Verify idToken cfg (bearer (rq_Authorization r)) = Some (t, role) \<and> role \<noteq> RoleIngest \<and>
      (CanWrite r' \<longrightarrow> role = RoleFull))"
proof (cases "validHeader (rq_Authorization r) surfaceRead a")
  case True
  let ?b = "bearer (rq_Authorization r)"
  have r': "r' = WithWritable (canWriteHeader (rq_Authorization r) a) r"
    using m on path True by (auto simp: HTTPMiddleware_def Let_def split: prod.splits if_splits)
  then have "EffectiveTenantHTTP a r = (t, True)" using t by simp
  then have "grants a ?b t surfaceRead" using m on path True by (auto simp: HTTPMiddleware_def allowed_grants Let_def split: if_splits)
  moreover have "CanWrite r' \<Longrightarrow> hashToken ?b \<in> set (au_tokens a) \<or> (\<exists>(u, toks) \<in> set (au_scoped a). hashToken ?b \<in> set toks)"
    unfolding r' by (fastforce simp: CanWrite_def WithWritable_def canWriteHeader_def Let_def list_ex_iff split: if_splits)
  ultimately show ?thesis using True by (auto simp: validHeader_def)
next
  case False
  then obtain verify tID role where v: "au_oidc a = Some verify" "verify (bearer (rq_Authorization r)) = Some (tID, role)" "role \<noteq> ''ingest''"
    and r': "r' = WithWritable (role = ''full'') (r\<lparr>rq_resolvedTenant := Some tID\<rparr>)"
    using m on path by (auto simp: HTTPMiddleware_def Let_def split: option.splits if_splits)
  then obtain cfg where c: "oc = Some cfg" "Verify idToken cfg (bearer (rq_Authorization r)) = Some (tID, role)" using oidc by auto
  have "tID = t" using t Verify_tenant(1) [OF c(2)] by (simp add: r') (simp add: EffectiveTenantHTTP_def)
  with c v(3) show ?thesis by (auto simp: r' CanWrite_def WithWritable_def RoleIngest_def RoleFull_def)
qed

lemma Verify_claim:
  assumes "Verify idToken cfg raw = Some (t, role)"
  obtains claims where "idToken raw = Some claims"
    "trim_space (claimString claims (tenantClaim cfg)) \<noteq> [] \<longrightarrow> t = trim_space (claimString claims (tenantClaim cfg))"
proof -
  obtain claims where c: "idToken raw = Some claims" and s: "Sanitize (claimString claims (tenantClaim cfg)) = (t, True)"
    using assms by (auto simp: Verify_def Let_def split: option.splits prod.splits if_splits)
  from s have "trim_space (claimString claims (tenantClaim cfg)) \<noteq> [] \<longrightarrow> t = trim_space (claimString claims (tenantClaim cfg))"
    by (auto simp: Sanitize_def Let_def split: if_splits)
  with c show thesis by (rule that)
qed

text \<open>
  C7. With authentication on, the query surfaces, GraphQL and MCP, serve only what the credential
  grants.  When a request for a path that is neither public nor exempt from tenancy passes the
  middleware and the query router hands it to a tenant's handler, that handler is the one of a
  tenant that the bearer token grants on the read surface, or of the tenant that the tenant claim
  of a verified OIDC token names, the claim being more than white space, with a role that is not
  the ingest role; and the request may write only with a full global token, a full token of some
  tenant, not necessarily of this one, or the full role of its OIDC token.  The debug router
  resolves tenants by another rule and is not covered.
\<close>

theorem served_tenant_is_granted:
  assumes on: "Enabled a" and s: "serve public a reg r tr = (tr', Served h i r')"
    and path: "\<not> gget False public (rq_Path r)" "\<not> gget False (au_tenantExempt a) (rq_Path r)"
    and fresh: "rq_resolvedTenant r = None" and oidc: "au_oidc a = map_option (\<lambda>cfg. Verify idToken cfg) oc"
    and tr: "tr_resolve tr = queryResolve (oc \<noteq> None) a" "handlers_ok tr" "stacks_named reg"
    and claim: "\<forall>cfg claims. oc = Some cfg \<longrightarrow> idToken (bearer (rq_Authorization r)) = Some claims \<longrightarrow>
      trim_space (claimString claims (tenantClaim cfg)) \<noteq> []"
  shows "Sanitize i = (h, True) \<and>
    ((bearer (rq_Authorization r) \<noteq> [] \<and> grants a (bearer (rq_Authorization r)) i surfaceRead \<and>
      (CanWrite r' \<longrightarrow> hashToken (bearer (rq_Authorization r)) \<in> set (au_tokens a) \<or>
         (\<exists>(u, toks) \<in> set (au_scoped a). hashToken (bearer (rq_Authorization r)) \<in> set toks))) \<or>
    (\<exists>cfg claims role. oc = Some cfg \<and> idToken (bearer (rq_Authorization r)) = Some claims \<and>
      i = trim_space (claimString claims (tenantClaim cfg)) \<and>
      Verify idToken cfg (bearer (rq_Authorization r)) = Some (i, role) \<and> role \<noteq> RoleIngest \<and> (CanWrite r' \<longrightarrow> role = RoleFull)))"
proof -
  obtain r1 failed where m: "HTTPMiddleware public a r = (Pass r1, failed)" and d: "ServeHTTP reg r1 tr = (tr', Served h i r')"
    using s by (auto simp: serve_def split: prod.splits outcome.splits)
  from ServeHTTP_ok [OF d tr(2,3)] have r1: "r' = r1" and i: "queryResolve (oc \<noteq> None) a r1 = (i, True)" "Sanitize i = (h, True)"
    using tr(1) by auto
  have "EffectiveTenantHTTP a r1 = (i, True)"
  proof (cases "au_deriveOnly a \<or> oc \<noteq> None")
    case False
    then have "au_oidc a = None" using oidc by simp
    then obtain w where "r1 = WithWritable w r" using m on path by (auto simp: HTTPMiddleware_def Let_def split: if_splits prod.splits)
    then have "rq_resolvedTenant r1 = None" using fresh by (simp add: WithWritable_def)
    with False i(1) show ?thesis by (simp add: queryResolve_def EffectiveTenantHTTP_def)
  qed (use i(1) in \<open>simp add: queryResolve_def\<close>)
  note P = passed_within_grants [OF on m path fresh oidc this]
  have "\<exists>claims. idToken (bearer (rq_Authorization r)) = Some claims \<and> i = trim_space (claimString claims (tenantClaim cfg))"
    if "oc = Some cfg" "Verify idToken cfg (bearer (rq_Authorization r)) = Some (i, role)" for cfg role
    by (rule Verify_claim [OF that(2)]) (use claim that(1) in blast)
  with P i(2) r1 show ?thesis by blast
qed

text \<open>A token of the tenant acme, and another that is of full role there and a reader of beta.\<close>

definition fxAuth :: Authenticator where
  "fxAuth = (NewWithRoles [] [] [] [])\<lparr>au_scoped := [(''acme'', [hashToken ''k1'', hashToken ''k2''])], au_scopedRead := [(''beta'', [hashToken ''k2''])]\<rparr>"

lemma fx_bearer: "bearer ''Bearer k1'' = ''k1''" "bearer ''Bearer k2'' = ''k2''"
  by code_simp+

lemma fx_sanitize: "Sanitize ''acme'' = (''acme'', True)" "Sanitize ''beta'' = (''beta'', True)"
  by code_simp+

lemma fx_enabled: "Enabled fxAuth"
  by (simp add: Enabled_def fxAuth_def)

definition fxRequest :: "string \<Rightarrow> string \<Rightarrow> Request" where
  "fxRequest h org = \<lparr>rq_Path = ''/graphql'', rq_Authorization = h, rq_OrgID = org, rq_TenantQuery = [], rq_resolvedTenant = None, rq_writable = None\<rparr>"

lemma fx_scoped: "au_scoped fxAuth = [(''acme'', [hashToken ''k1'', hashToken ''k2''])]" "au_scopedRead fxAuth = [(''beta'', [hashToken ''k2''])]"
  "au_tokens fxAuth = []" "au_readTokens fxAuth = []" "au_ingestTokens fxAuth = []" "au_scopedIngest fxAuth = []"
  "au_deriveOnly fxAuth = False" "au_tenantExempt fxAuth = []" "au_oidc fxAuth = None" "au_ingestMTLSOnly fxAuth = False"
  by (simp_all add: fxAuth_def NewWithRoles_def toBytes_def hashScopedMap_def)

lemma fx_pass: "HTTPMiddleware [] fxAuth (fxRequest ''Bearer k1'' ''acme''\<lparr>rq_TenantQuery := q\<rparr>) =
    (Pass (WithWritable True (fxRequest ''Bearer k1'' ''acme''\<lparr>rq_TenantQuery := q\<rparr>)), False)"
proof -
  have "validHeader ''Bearer k1'' surfaceRead fxAuth"
    by (simp add: validHeader_def fx_bearer valid_def fx_scoped roleSet_def scopedRoleSet_def Let_def)
  moreover have "EffectiveTenantHTTP fxAuth (fxRequest ''Bearer k1'' ''acme''\<lparr>rq_TenantQuery := q\<rparr>) = (''acme'', True)"
    by (simp add: EffectiveTenantHTTP_def fxRequest_def fx_scoped FromHTTP_def fx_sanitize)
  ultimately show ?thesis
    by (simp add: HTTPMiddleware_def fx_enabled gget_def fxRequest_def allowedForTenant_def fx_bearer fx_scoped canWriteHeader_def Let_def)
qed

definition fxTwo :: "rows Registry" where
  "fxTwo = fxRegistry\<lparr>rg_stacks := map (\<lambda>i. (i, \<lparr>sk_Tenant = i, sk_Engine = NewEngine NewGraph fxStore\<rparr>)) [''acme'', ''beta'']\<rparr>"

lemma fx_two: "stacks_named fxTwo" "\<exists>e. Peek ''acme'' fxTwo = Some \<lparr>sk_Tenant = ''acme'', sk_Engine = e\<rparr>"
  "\<exists>e. Peek ''beta'' fxTwo = Some \<lparr>sk_Tenant = ''beta'', sk_Engine = e\<rparr>"
  by (auto simp: stacks_named_def fxTwo_def Peek_def fx_sanitize split: if_splits)

lemma fx_new [simp]: "handlers_ok ((newTenantRouter build)\<lparr>tr_resolve := f\<rparr>)"
  by (simp add: handlers_ok_def newTenantRouter_def)

theorem served_tenant_is_granted_witness:
  "\<exists>tr' r'. serve [] fxAuth fxTwo (fxRequest ''Bearer k1'' ''acme'') ((newTenantRouter (\<lambda>_. None))\<lparr>tr_resolve := queryResolve False fxAuth\<rparr>)
       = (tr', Served ''acme'' ''acme'' r') \<and> grants fxAuth ''k1'' ''acme'' surfaceRead"
proof -
  let ?r = "fxRequest ''Bearer k1'' ''acme''" and ?tr = "(newTenantRouter (\<lambda>_. None))\<lparr>tr_resolve := queryResolve False fxAuth\<rparr>"
  have q: "?r\<lparr>rq_TenantQuery := []\<rparr> = ?r" by (simp add: fxRequest_def)
  obtain e where e: "Peek ''acme'' fxTwo = Some \<lparr>sk_Tenant = ''acme'', sk_Engine = e\<rparr>" using fx_two(2) by blast
  have r: "rq_OrgID (WithWritable True ?r) = ''acme''" by (simp add: WithWritable_def fxRequest_def)
  obtain tr' r' where s: "serve [] fxAuth fxTwo ?r ?tr = (tr', Served ''acme'' ''acme'' r')"
    using fx_pass [of "[]"] unfolding q
    by (simp add: serve_def ServeHTTP_def queryResolve_def fx_scoped r FromHTTP_def fx_sanitize handlerFor_def newTenantRouter_def e)
  have o: "au_oidc fxAuth = map_option (\<lambda>cfg. Verify (\<lambda>_. None) cfg) None" by (simp add: fx_scoped)
  have "grants fxAuth ''k1'' ''acme'' surfaceRead"
    using served_tenant_is_granted [OF fx_enabled s _ _ _ o _ _ fx_two(1)] by (simp add: gget_def fx_scoped fxRequest_def fx_bearer)
  with s show ?thesis by blast
qed

text \<open>
  The debug pages of another tenant.  Where tenancy is neither derived nor OIDC is on, the
  middleware authorizes the token for the tenant of the header while the debug router serves the
  tenant of the query parameter.  So a token that is granted one tenant reads the debug pages of
  every open tenant, whether it is granted that tenant or not.
\<close>

theorem debug_pages_of_any_tenant:
  assumes "Enabled a" "\<not> au_deriveOnly a" and path: "\<not> gget False public (rq_Path r)"
    and tok: "validHeader (rq_Authorization r) surfaceRead a" "rq_resolvedTenant r = None"
      "FromHTTP (rq_OrgID r) = (t, True)" "grants a (bearer (rq_Authorization r)) t surfaceRead"
    and q: "Sanitize u = (u, True)" "rq_TenantQuery r = u" "Peek u reg = Some st"
    and tr: "tr_resolve tr = debugResolve False a" "tr_handlers tr = []" "tr_build tr (sk_Tenant st) = None"
  shows "\<exists>tr' r'. serve public a reg r tr = (tr', Served (sk_Tenant st) u r')"
proof -
  have u: "u \<noteq> []" using Sanitize_accepted(1) [OF q(1)] by blast
  have e: "EffectiveTenantHTTP a r = (t, True)" using assms(2) tok(2,3) by (simp add: EffectiveTenantHTTP_def)
  have "HTTPMiddleware public a r = (Pass (WithWritable (canWriteHeader (rq_Authorization r) a) r), False)"
    using assms(1) path tok(1,4) e by (simp add: HTTPMiddleware_def allowed_grants Let_def)
  moreover have "debugResolve False a (WithWritable w r) = (u, True)" for w
    using assms(2) q u by (simp add: debugResolve_def FromHTTPWithQuery_def WithWritable_def)
  ultimately show ?thesis using q tr by (simp add: serve_def ServeHTTP_def handlerFor_def)
qed

theorem debug_pages_of_any_tenant_witness:
  "\<exists>tr' r'. serve [] fxAuth fxTwo (fxRequest ''Bearer k1'' ''acme''\<lparr>rq_TenantQuery := ''beta''\<rparr>)
     ((newTenantRouter (\<lambda>_. None))\<lparr>tr_resolve := debugResolve False fxAuth\<rparr>) = (tr', Served ''beta'' ''beta'' r')"
proof -
  let ?r = "fxRequest ''Bearer k1'' ''acme''\<lparr>rq_TenantQuery := ''beta''\<rparr>" and ?tr = "(newTenantRouter (\<lambda>_. None))\<lparr>tr_resolve := debugResolve False fxAuth\<rparr>"
  obtain e where e: "Peek ''beta'' fxTwo = Some \<lparr>sk_Tenant = ''beta'', sk_Engine = e\<rparr>" using fx_two(3) by blast
  have v: "validHeader (rq_Authorization ?r) surfaceRead fxAuth"
    by (simp add: fxRequest_def validHeader_def fx_bearer valid_def fx_scoped roleSet_def scopedRoleSet_def Let_def)
  have g: "grants fxAuth (bearer (rq_Authorization ?r)) ''acme'' surfaceRead" by (simp add: fxRequest_def fx_bearer grants_def fx_scoped Let_def)
  from debug_pages_of_any_tenant [OF fx_enabled _ _ v _ _ g fx_sanitize(2) _ e, of "[]" ?tr]
  show ?thesis by (simp add: fx_scoped gget_def fxRequest_def FromHTTP_def fx_sanitize newTenantRouter_def)
qed

text \<open>
  The write decision does not look at the tenant: a token that is of full role for one tenant and a
  read-only token of another may write in the other one as well.
\<close>

theorem reader_of_a_tenant_may_write_it:
  "\<exists>r'. HTTPMiddleware [] fxAuth (fxRequest ''Bearer k2'' ''beta'') = (Pass r', False) \<and> EffectiveTenantHTTP fxAuth r' = (''beta'', True) \<and>
     CanWrite r' \<and> gget [] (au_scoped fxAuth) ''beta'' = []"
proof -
  let ?r = "fxRequest ''Bearer k2'' ''beta''"
  have v: "validHeader ''Bearer k2'' surfaceRead fxAuth"
    by (simp add: validHeader_def fx_bearer valid_def fx_scoped scopedRoleSet_def Let_def)
  have e: "EffectiveTenantHTTP fxAuth ?r = (''beta'', True)"
    by (simp add: EffectiveTenantHTTP_def fxRequest_def fx_scoped FromHTTP_def fx_sanitize)
  have "HTTPMiddleware [] fxAuth ?r = (Pass (WithWritable True ?r), False)"
    using v e by (simp add: HTTPMiddleware_def fx_enabled gget_def fxRequest_def allowedForTenant_def scopedRoleSet_def fx_bearer fx_scoped
        canWriteHeader_def Let_def)
  moreover have "CanWrite (WithWritable True ?r)" by (simp add: CanWrite_def WithWritable_def)
  ultimately show ?thesis using e by (intro exI [of _ "WithWritable True ?r"]) (simp add: fx_scoped gget_def)
qed

section \<open>Ingesting\<close>

lemma seen_tenants:
  "ghas (foldl (\<lambda>seen (tid, toks). if got \<in> set toks then gadd tid seen else seen) seen m) t \<longleftrightarrow>
     ghas seen t \<or> (\<exists>toks. (t, toks) \<in> set m \<and> got \<in> set toks)"
  by (induction m arbitrary: seen) (auto simp: gadd_def ghas_def split: if_splits)

lemma TenantForBearer_only:
  assumes "TenantForBearer h a = Some t"
  shows "bearer h \<noteq> []" and "grants a (bearer h) j s \<Longrightarrow> j = t"
proof -
  let ?got = "hashToken (bearer h)"
  let ?seen = "foldl (\<lambda>seen m. foldl (\<lambda>seen (tid, toks). if ?got \<in> set toks then gadd tid seen else seen) seen m) []
    [au_scoped a, au_scopedRead a, au_scopedIngest a]"
  obtain u where s: "?seen = [(t, u)]" and n: "?got \<notin> set (au_tokens a)" "?got \<notin> set (au_readTokens a)" "?got \<notin> set (au_ingestTokens a)"
    using assms by (auto simp: TenantForBearer_def Let_def split: if_splits list.splits)
  show "bearer h \<noteq> []" using assms by (auto simp: TenantForBearer_def)
  have "ghas ?seen j \<longleftrightarrow> (\<exists>toks. ((j, toks) \<in> set (au_scoped a) \<or> (j, toks) \<in> set (au_scopedRead a) \<or> (j, toks) \<in> set (au_scopedIngest a)) \<and> ?got \<in> set toks)"
    by (simp add: seen_tenants) (auto simp: ghas_def)
  moreover have "ghas ?seen j \<longleftrightarrow> j = t" unfolding s by (simp add: ghas_def)
  ultimately show "grants a (bearer h) j s \<Longrightarrow> j = t"
    using n by (cases s) (auto simp: grants_def Let_def dest: map_of_SomeD)
qed

text \<open>
  C6. A token of one tenant writes only that tenant, end to end, where ingest is not left to client
  certificates alone.  Whatever tenant the metadata and the resources of the export name, whether
  the trust mode derives the tenant or takes the header, and whatever the receiver has recorded
  before, an export with a bearer token that is bound to one tenant, whose id is a canonical one,
  leaves the store, the stack and the recorded assertions of every other tenant as they were.
\<close>

theorem scoped_token_writes_only_its_tenant:
  assumes x: "Export env ctx rls srv w = (x, res)"
    and srv: "srv = (SetTenantResolver (if derive then Some (EffectiveTenantGRPC a) else None)
      (registryServer pk senv (Some (AllowedForTenantGRPC a)) gc_orgID acceptUnknown))\<lparr>ls_reconcilers := rs\<rparr>"
    and tok: "gc_authorization ctx = h # hs" "TenantForBearer h a = Some t" "\<not> au_ingestMTLSOnly a"
    and t: "Sanitize t = (t, True)" and j: "j \<noteq> t"
  shows "map_of (fst (xs_world x)) j = map_of (fst w) j \<and> map_of (rg_stacks (snd (xs_world x))) j = map_of (rg_stacks (snd w)) j \<and>
    map_of (ls_reconcilers (xs_server x)) j = map_of rs j"
proof -
  have on: "Enabled a" using tok(2) by (auto simp: TenantForBearer_def Enabled_def Let_def split: if_splits list.splits)
  have "\<not> headerAllowedForTenant h j surfaceIngest a"
    using TenantForBearer_only [OF tok(2)] j by (auto simp: headerAllowedForTenant_def allowed_grants)
  then have f: "\<not> AllowedForTenantGRPC a ctx j" using tok on by (simp add: AllowedForTenantGRPC_def)
  have s: "ls_engineFor srv = engineFor pk senv" "ls_putEngine srv = putEngine" "ls_authorize srv = Some (AllowedForTenantGRPC a)" "ls_reconcilers srv = rs"
    by (simp_all add: srv SetTenantResolver_def registryServer_def NewRoutedReceiver_def)
  obtain bt locked ok where r: "ls_resolveTenant srv ctx = (bt, locked, ok)" by (metis prod_cases3)
  show ?thesis
  proof (cases ok)
    case False
    then show ?thesis using x r s by (auto simp: Export_def Let_def)
  next
    case True
    have "Sanitize bt = (bt, True)"
      using r True t tok Sanitize_accepted(2)
      by (auto simp: srv SetTenantResolver_def registryServer_def NewRoutedReceiver_def EffectiveTenantGRPC_def TenantForBearerGRPC_def
          FromGRPC_def split: if_splits prod.splits list.splits option.splits)
    from registry_source.export_frame [OF x s(1,2) _ this, of locked j] r True s f show ?thesis by (simp add: tenantPart_def)
  qed
qed

theorem scoped_token_writes_only_its_tenant_witness:
  "let srv = (SetTenantResolver None (registryServer fxPackages fxBoot (Some (AllowedForTenantGRPC (fxAuth\<lparr>au_scoped := [(''acme'', [hashToken ''k1''])], au_scopedRead := []\<rparr>))) gc_orgID False))
         \<lparr>ls_reconcilers := [(''beta'', fxAsserted)]\<rparr>;
       ctx = \<lparr>gc_authorization = [''Bearer k1''], gc_orgID = [''beta'']\<rparr>; rl = \<lparr>rl_Attributes = [], rl_ScopeLogs = []\<rparr>;
       w = ([(''beta'', s_db fxStore)], fxRegistry);
       x = fst (Export fxBoot ctx [rl] srv w)
   in map_of (fst (xs_world x)) ''beta'' = Some (s_db fxStore) \<and> map_of (ls_reconcilers (xs_server x)) ''beta'' = Some fxAsserted"
proof -
  let ?a = "fxAuth\<lparr>au_scoped := [(''acme'', [hashToken ''k1''])], au_scopedRead := []\<rparr>"
  let ?srv = "(SetTenantResolver None (registryServer fxPackages fxBoot (Some (AllowedForTenantGRPC ?a)) gc_orgID False))\<lparr>ls_reconcilers := [(''beta'', fxAsserted)]\<rparr>"
  let ?ctx = "\<lparr>gc_authorization = [''Bearer k1''], gc_orgID = [''beta'']\<rparr>"
  let ?rl = "\<lparr>rl_Attributes = [], rl_ScopeLogs = []\<rparr>" and ?w = "([(''beta'', s_db fxStore)], fxRegistry)"
  obtain x res where x: "Export fxBoot ?ctx [?rl] ?srv ?w = (x, res)" by fastforce
  have t: "TenantForBearer ''Bearer k1'' ?a = Some ''acme''"
    by (simp add: TenantForBearer_def fx_bearer fx_scoped gadd_def gput_def Let_def)
  have "?srv = (SetTenantResolver (if False then Some (EffectiveTenantGRPC ?a) else None)
      (registryServer fxPackages fxBoot (Some (AllowedForTenantGRPC ?a)) gc_orgID False))\<lparr>ls_reconcilers := [(''beta'', fxAsserted)]\<rparr>" by simp
  from scoped_token_writes_only_its_tenant [OF x this _ t _ fx_sanitize(1), of "[]" "''beta''"] x
  show ?thesis by (simp add: fx_scoped)
qed

end
