(* ===== verification/Go_Paths.thy ===== *)
theory Go_Paths
  imports Go_Stdlib
begin

text \<open>
  More of the Go standard library, as log shipping and the annotation sync use it: suffixes and
  path segments of \<open>strings\<close> and \<open>path/filepath\<close>, the hexadecimal verbs of \<open>fmt\<close> and
  \<open>strconv\<close>, \<open>encoding/hex\<close> decoding, and a file system as \<open>os\<close> offers it.
\<close>

section \<open>strings\<close>

definition has_suffix :: "string \<Rightarrow> string \<Rightarrow> bool" where
  "has_suffix s p = (drop (length s - length p) s = p)"

definition trim_suffix :: "string \<Rightarrow> string \<Rightarrow> string" where
  "trim_suffix s p = (if has_suffix s p then take (length s - length p) s else s)"

definition trim_prefix :: "string \<Rightarrow> string \<Rightarrow> string" where
  "trim_prefix s p = (if has_prefix s p then drop (length p) s else s)"

text \<open>What follows the last occurrence of a byte, the whole string when there is none.\<close>

definition after_last :: "char \<Rightarrow> string \<Rightarrow> string" where
  "after_last c s = rev (takeWhile (\<lambda>x. x \<noteq> c) (rev s))"

section \<open>Hexadecimal\<close>

text \<open>\<open>fmt.Sprintf("%016x", w)\<close>.\<close>

definition hex16 :: "64 word \<Rightarrow> string" where
  "hex16 w = map (\<lambda>i. hex_digit (unat (drop_bit (4 * (15 - i)) w))) [0..<16]"

definition hex_val :: "char \<Rightarrow> nat option" where
  "hex_val c =
     (let n = (of_char c :: nat)
      in if 48 \<le> n \<and> n \<le> 57 then Some (n - 48)
         else if 97 \<le> n \<and> n \<le> 102 then Some (n - 87)
         else if 65 \<le> n \<and> n \<le> 70 then Some (n - 55)
         else None)"

fun hex_nat :: "nat \<Rightarrow> string \<Rightarrow> nat option" where
  "hex_nat acc [] = Some acc"
| "hex_nat acc (c # s) = (case hex_val c of None \<Rightarrow> None | Some d \<Rightarrow> hex_nat (16 * acc + d) s)"

text \<open>\<open>strconv.ParseUint(s, 16, 64)\<close>: \<^const>\<open>None\<close> is a syntax or a range error.\<close>

definition parse_hex :: "string \<Rightarrow> 64 word option" where
  "parse_hex s =
     (if s = [] then None
      else case hex_nat 0 s of None \<Rightarrow> None | Some n \<Rightarrow> if n < 2 ^ 64 then Some (of_nat n) else None)"

fun hex_decode :: "string \<Rightarrow> string option" where
  "hex_decode [] = Some []"
| "hex_decode [c] = None"
| "hex_decode (c # d # s) =
     (case (hex_val c, hex_val d, hex_decode s) of
        (Some h, Some l, Some bs) \<Rightarrow> Some (char_of (16 * h + l) # bs)
      | _ \<Rightarrow> None)"

section \<open>Paths and files\<close>

text \<open>
  A path is the list of its components from the file system's root.  \<open>filepath.Join\<close> cleans what
  it joins: empty and \<open>.\<close> components vanish and \<open>..\<close> takes the parent.
\<close>

type_synonym path = "string list"

definition path_step :: "path \<Rightarrow> string \<Rightarrow> path" where
  "path_step p c = (if c = [] \<or> c = ''.'' then p else if c = ''..'' then butlast p else p @ [c])"

definition path_join :: "path \<Rightarrow> string \<Rightarrow> path" where
  "path_join dir name = foldl path_step dir (split_byte (CHR ''/'') name)"

text \<open>
  The files, with the error of the \<open>n\<close>-th system call if it has one, the number of calls so far
  and how many bytes a failing write gets out.  A directory is there when a file below it is;
  \<open>os.MkdirAll\<close> fails where a component is a file, \<open>os.Rename\<close> where the destination is a
  directory.
\<close>

record fileSys =
  fs_files :: "(path, string) gomap"
  fs_fault :: "nat \<Rightarrow> string option"
  fs_calls :: nat
  fs_torn :: nat

definition syscall :: "fileSys \<Rightarrow> fileSys \<times> string option" where
  "syscall fs = (fs\<lparr>fs_calls := Suc (fs_calls fs)\<rparr>, fs_fault fs (fs_calls fs))"

definition below_path :: "path \<Rightarrow> path \<Rightarrow> bool" where
  "below_path d p = (take (length d) p = d \<and> length d < length p)"

definition mkdirAll :: "path \<Rightarrow> fileSys \<Rightarrow> fileSys \<times> string option" where
  "mkdirAll dir fs =
     (let (fs, err) = syscall fs
      in (fs, if err \<noteq> None then err
              else if list_ex (\<lambda>p. p = dir \<or> below_path p dir) (gkeys (fs_files fs)) then Some ''not a directory''
              else None))"

text \<open>\<open>os.CreateTemp\<close> picks a name that no file has; the first free number stands for it.\<close>

definition createTemp :: "path \<Rightarrow> string \<Rightarrow> fileSys \<Rightarrow> fileSys \<times> (string + path)" where
  "createTemp dir pre fs =
     (let (fs, err) = syscall fs
      in case err of
           Some e \<Rightarrow> (fs, Inl e)
         | None \<Rightarrow>
             (case find (\<lambda>n. \<not> ghas (fs_files fs) (dir @ [pre @ itoa n])) [0..<Suc (length (fs_files fs))] of
                None \<Rightarrow> (fs, Inl ''file exists'')
              | Some n \<Rightarrow> (fs\<lparr>fs_files := gput (dir @ [pre @ itoa n]) [] (fs_files fs)\<rparr>, Inr (dir @ [pre @ itoa n]))))"

definition writeFile :: "path \<Rightarrow> string \<Rightarrow> fileSys \<Rightarrow> fileSys \<times> string option" where
  "writeFile p data fs =
     (let (fs, err) = syscall fs
      in (fs\<lparr>fs_files := gput p (if err = None then data else take (fs_torn fs) data) (fs_files fs)\<rparr>, err))"

definition renameFile :: "path \<Rightarrow> path \<Rightarrow> fileSys \<Rightarrow> fileSys \<times> string option" where
  "renameFile p q fs =
     (let (fs, err) = syscall fs
      in if err \<noteq> None then (fs, err)
         else if list_ex (below_path q) (gkeys (fs_files fs)) then (fs, Some ''file exists'')
         else (fs\<lparr>fs_files := gput q (gget [] (fs_files fs) p) (gdel p (fs_files fs))\<rparr>, None))"

definition removeFile :: "path \<Rightarrow> fileSys \<Rightarrow> fileSys" where
  "removeFile p fs =
     (let (fs, err) = syscall fs in if err = None then fs\<lparr>fs_files := gdel p (fs_files fs)\<rparr> else fs)"

definition readFile :: "path \<Rightarrow> fileSys \<Rightarrow> fileSys \<times> (string + string)" where
  "readFile p fs =
     (let (fs, err) = syscall fs
      in (fs, case err of
                Some e \<Rightarrow> Inl e
              | None \<Rightarrow> (case map_of (fs_files fs) p of None \<Rightarrow> Inl ''no such file'' | Some data \<Rightarrow> Inr data)))"

section \<open>Laws of strings\<close>

lemma has_suffix_iff: "has_suffix s p \<longleftrightarrow> (\<exists>t. s = t @ p)"
  by (auto simp: has_suffix_def) (metis append_take_drop_id)

lemma has_suffix_append [simp]: "has_suffix (t @ p) p"
  by (simp add: has_suffix_def)

lemma trim_suffix_append [simp]: "trim_suffix (t @ p) p = t"
  by (simp add: trim_suffix_def)

lemma has_prefix_append [simp]: "has_prefix (p @ t) p"
  by (simp add: has_prefix_def)

lemma trim_prefix_append [simp]: "trim_prefix (p @ t) p = t"
  by (simp add: trim_prefix_def)

lemma after_last_append: "c \<notin> set t \<Longrightarrow> after_last c (s @ c # t) = t"
proof -
  assume "c \<notin> set t"
  then have "takeWhile (\<lambda>x. x \<noteq> c) (rev t @ c # rev s) = rev t" by (subst takeWhile_append2) auto
  then show ?thesis by (simp add: after_last_def)
qed

section \<open>Laws of hexadecimal\<close>

lemma hex_val_digit [simp]: "hex_val (hex_digit n) = Some (n mod 16)"
proof -
  have "n mod 16 \<le> 15" using mod_less_divisor [of 16 n] by linarith
  then show ?thesis by (auto simp: hex_val_def hex_digit_def Let_def of_char_of)
qed

lemma hex_decode_encode [simp]: "hex_decode (hex_encode bs) = Some bs"
proof (induction bs)
  case (Cons b bs)
  have "16 * ((of_char b :: nat) div 16 mod 16) + of_char b mod 16 = of_char b"
  proof -
    have "(of_char b :: nat) < 256" by (rule nat_of_char_less_256)
    then have "(of_char b :: nat) div 16 < 16" by (simp add: less_mult_imp_div_less)
    then have "(of_char b :: nat) div 16 mod 16 = of_char b div 16" by simp
    then show ?thesis by simp
  qed
  with Cons show ?case by (simp add: hex_encode_def Let_def)
qed (simp add: hex_encode_def)

lemma hex_nat_digits:
  "hex_nat acc (map (\<lambda>i. hex_digit (unat (drop_bit (4 * (n - Suc i)) w))) [0..<n])
     = Some (acc * 16 ^ n + unat (w :: 64 word) mod 16 ^ n)"
proof -
  have gen: "hex_nat acc (map (\<lambda>i. hex_digit (x div 16 ^ (n - Suc i))) [0..<n]) = Some (acc * 16 ^ n + x mod 16 ^ n)" for x
  proof (induction n arbitrary: acc)
    case (Suc n)
    have "map (\<lambda>i. hex_digit (x div 16 ^ (Suc n - Suc i))) [0..<Suc n] =
        hex_digit (x div 16 ^ n) # map (\<lambda>i. hex_digit (x div 16 ^ (n - Suc i))) [0..<n]"
      by (simp add: upt_conv_Cons map_Suc_upt [symmetric] del: upt_Suc)
    moreover have "(16 * acc + x div 16 ^ n mod 16) * 16 ^ n + x mod 16 ^ n = acc * 16 ^ Suc n + x mod 16 ^ Suc n"
    proof -
      have "x mod 16 ^ Suc n = 16 ^ n * (x div 16 ^ n mod 16) + x mod 16 ^ n"
        using mod_mult2_eq [of x "16 ^ n" 16] by (simp add: mult.commute)
      then show ?thesis by (simp add: algebra_simps)
    qed
    ultimately show ?case using Suc.IH by simp
  qed simp
  have "unat (drop_bit (4 * m) w) = unat w div 16 ^ m" for m
  proof -
    have "(16 :: nat) ^ m = 2 ^ (4 * m)" by (simp add: power_mult)
    then show ?thesis unfolding unat_drop_bit_eq by (simp add: drop_bit_eq_div)
  qed
  with gen [of "unat w"] show ?thesis by simp
qed

lemma parse_hex16 [simp]: "parse_hex (hex16 w) = Some w"
proof -
  have "unat w < 2 ^ 64" using unsigned_less [of w] by simp
  then have "unat w < 16 ^ 16" by simp
  with hex_nat_digits [of 0 16 w] have "hex_nat 0 (hex16 w) = Some (unat w)" by (simp add: hex16_def)
  moreover have "hex16 w \<noteq> []" by (simp add: hex16_def)
  ultimately show ?thesis using \<open>unat w < 2 ^ 64\<close> by (simp add: parse_hex_def)
qed

lemma hex16_set: "set (hex16 w) \<subseteq> set ''0123456789abcdef''"
  using hex_digit_set by (auto simp: hex16_def)

lemma hex16_no_sep [simp]: "CHR ''-'' \<notin> set (hex16 w)" "CHR ''/'' \<notin> set (hex16 w)" "CHR ''.'' \<notin> set (hex16 w)"
  using hex16_set [of w] by auto

lemma hex16_inject [simp]: "hex16 v = hex16 w \<longleftrightarrow> v = w"
  by (metis option.inject parse_hex16)

end
