(* ===== verification/Logship.thy ===== *)
theory Logship
  imports Sink Store_Log
begin

text \<open>
  \<open>internal/logship/shipper.go\<close>: the export of a tenant's event log as immutable segments, their
  replay, and \<open>restoreTenantLog\<close> of \<open>cmd/toise-server\<close>, which rebuilds a log from them.

  The sink is a \<open>Sink\<close> with its state in the shipper; the event source is the store.  \<open>Ship\<close>
  reads the sequence before it scans, and the store may have moved in between, so it takes the
  store at both moments.  A callback that fails keeps what it has done: \<open>ScanFromKeep\<close> is
  \<open>ScanFrom\<close> with the accumulator returned beside the error.  \<open>sort.Slice\<close> is a stable sort
  here; segments that start at the same sequence are refused in either order.
\<close>

section \<open>Segments\<close>

definition segExt :: string where "segExt = ''.seg''"

definition segmentName :: "string \<Rightarrow> 64 word \<Rightarrow> 64 word \<Rightarrow> string" where
  "segmentName tenant from to = tenant @ ''/'' @ hex16 from @ ''-'' @ hex16 to @ segExt"

definition parseSegmentName :: "string \<Rightarrow> (64 word \<times> 64 word) option" where
  "parseSegmentName name =
     (let fields = cut (trim_suffix (after_last (CHR ''/'') name) segExt) (CHR ''-'')
      in case fields of (f, t, found) \<Rightarrow>
           if \<not> found then None
           else case (parse_hex f, parse_hex t) of
                  (Some f, Some t) \<Rightarrow> Some (f, t)
                | _ \<Rightarrow> None)"

datatype ShipErr =
    SinkErr string
  | ScanErr StoreErr
  | SegmentMarshal nat string
  | SegmentTruncated
  | SegmentUnmarshal string
  | BadSegmentName string
  | SegmentOverlap string "64 word" "64 word"
  | SegmentGap string "64 word" "64 word"
  | ApplyErr StoreErr
  | DestinationNotEmpty "64 word"
  | OpenErr StoreErr

fun encodeSegment :: "proto \<Rightarrow> nat \<Rightarrow> Event list \<Rightarrow> ShipErr + string" where
  "encodeSegment pm i [] = Inr []"
| "encodeSegment pm i (ev # evs) =
     (case pm_marshal pm (eventToProto ev) of
        Inl err \<Rightarrow> Inl (SegmentMarshal i err)
      | Inr b \<Rightarrow> (case encodeSegment pm (Suc i) evs of Inl err \<Rightarrow> Inl err | Inr rest \<Rightarrow> Inr (framed b @ rest)))"

function decodeSegment :: "proto \<Rightarrow> string \<Rightarrow> Event list \<Rightarrow> ShipErr + Event list" where
  "decodeSegment pm data events =
     (if data = [] then Inr events
      else if length data < 4 then Inl SegmentTruncated
      else let n = unat (decodeU32 data);
               data = drop 4 data
           in if length data < n then Inl SegmentTruncated
              else case pm_unmarshal pm (take n data) of
                     Inl err \<Rightarrow> Inl (SegmentUnmarshal err)
                   | Inr pe \<Rightarrow> decodeSegment pm (drop n data) (events @ [EventFromProto (Some pe)]))"
  by pat_completeness auto
termination
  by (relation "measure (\<lambda>(pm, data, events). length data)") auto

declare decodeSegment.simps [simp del]

section \<open>The scan\<close>

fun forRowsKeep :: "(string \<times> string \<Rightarrow> 'a \<Rightarrow> 'a \<times> StoreErr option) \<Rightarrow> (string \<times> string) list \<Rightarrow> 'a \<Rightarrow> 'a \<times> StoreErr option" where
  "forRowsKeep f [] a = (a, None)"
| "forRowsKeep f (row # rows) a = (case f row a of (a, Some err) \<Rightarrow> (a, Some err) | (a, None) \<Rightarrow> forRowsKeep f rows a)"

definition ScanFromKeep :: "'d pebble \<Rightarrow> proto \<Rightarrow> 64 word \<Rightarrow> (64 word \<Rightarrow> Event \<Rightarrow> 'a \<Rightarrow> 'a \<times> StoreErr option) \<Rightarrow> 'd Store \<Rightarrow> 'a
    \<Rightarrow> 'a \<times> StoreErr option" where
  "ScanFromKeep pb pm afterSeq fn s a =
     (case pb_iter pb (s_db s) (primaryKey (afterSeq + 1)) (prefixUpperBound primaryPrefix) of
        Inl err \<Rightarrow> (a, Some (IterOpenErr err))
      | Inr (rows, ierr) \<Rightarrow>
          (case forRowsKeep (\<lambda>row a. case decodeRow pm row of Inl err \<Rightarrow> (a, Some err) | Inr (seq, ev) \<Rightarrow> fn seq ev a) rows a of
             (a, Some err) \<Rightarrow> (a, Some err)
           | (a, None) \<Rightarrow> (a, map_option IterErr ierr)))"

section \<open>The shipper\<close>

record 'k Shipper =
  sh_sink :: 'k
  sh_cursor :: "(string, 64 word) gomap"

definition NewShipper :: "'k \<Rightarrow> 'k Shipper" where
  "NewShipper k = \<lparr>sh_sink = k, sh_cursor = []\<rparr>"

definition segments :: "'k Sink \<Rightarrow> ctx \<Rightarrow> string \<Rightarrow> 'k \<Rightarrow> 'k \<times> (string + string list)" where
  "segments sk ctx tenant k =
     (case sk_List sk ctx (tenant @ ''/'') k of
        (k, Inl e) \<Rightarrow> (k, Inl e)
      | (k, Inr names) \<Rightarrow> (k, Inr (filter (\<lambda>n. has_suffix n segExt) names)))"

definition maxShipped :: "string list \<Rightarrow> 64 word" where
  "maxShipped names =
     foldl (\<lambda>m n. case parseSegmentName n of Some (_, to) \<Rightarrow> if to > m then to else m | None \<Rightarrow> m) 0 names"

definition lastShipped :: "'k Sink \<Rightarrow> ctx \<Rightarrow> string \<Rightarrow> 'k Shipper \<Rightarrow> 'k Shipper \<times> (ShipErr + 64 word)" where
  "lastShipped sk ctx tenant sh =
     (case map_of (sh_cursor sh) tenant of
        Some v \<Rightarrow> (sh, Inr v)
      | None \<Rightarrow>
          (case segments sk ctx tenant (sh_sink sh) of
             (k, Inl e) \<Rightarrow> (sh\<lparr>sh_sink := k\<rparr>, Inl (SinkErr e))
           | (k, Inr names) \<Rightarrow>
               (sh\<lparr>sh_sink := k, sh_cursor := gput tenant (maxShipped names) (sh_cursor sh)\<rparr>, Inr (maxShipped names))))"

definition errStop :: StoreErr where "errStop = CallbackErr ''stop''"

definition shipEvent :: "64 word \<Rightarrow> 64 word \<Rightarrow> Event \<Rightarrow> Event list \<Rightarrow> Event list \<times> StoreErr option" where
  "shipEvent current seq ev events = (if seq > current then (events, Some errStop) else (events @ [ev], None))"

definition shipSegment :: "'k Sink \<Rightarrow> proto \<Rightarrow> ctx \<Rightarrow> string \<Rightarrow> 64 word \<Rightarrow> 64 word \<Rightarrow> Event list \<Rightarrow> 'k Shipper
    \<Rightarrow> 'k Shipper \<times> (ShipErr + nat)" where
  "shipSegment sk pm ctx tenant from current events sh =
     (case encodeSegment pm 0 events of
        Inl err \<Rightarrow> (sh, Inl err)
      | Inr seg \<Rightarrow>
          (case sk_Put sk ctx (segmentName tenant from current) seg (sh_sink sh) of
             (k, Some e) \<Rightarrow> (sh\<lparr>sh_sink := k, sh_cursor := gdel tenant (sh_cursor sh)\<rparr>, Inl (SinkErr e))
           | (k, None) \<Rightarrow> (sh\<lparr>sh_sink := k, sh_cursor := gput tenant current (sh_cursor sh)\<rparr>, Inr (length events))))"

definition Ship :: "'k Sink \<Rightarrow> 'd pebble \<Rightarrow> proto \<Rightarrow> ctx \<Rightarrow> string \<Rightarrow> 'd Store \<Rightarrow> 'd Store \<Rightarrow> 'k Shipper
    \<Rightarrow> 'k Shipper \<times> (ShipErr + nat)" where
  "Ship sk pb pm ctx tenant src0 src sh =
     (case lastShipped sk ctx tenant sh of
        (sh, Inl err) \<Rightarrow> (sh, Inl err)
      | (sh, Inr from) \<Rightarrow>
          let current = Sequence src0
          in if current \<le> from then (sh, Inr 0)
             else case ScanFromKeep pb pm from (shipEvent current) src [] of
                    (events, err) \<Rightarrow>
                      if err \<noteq> None \<and> err \<noteq> Some errStop then (sh, Inl (ScanErr (the err)))
                      else if events = [] then (sh, Inr 0)
                      else shipSegment sk pm ctx tenant from current events sh)"

fun applyEach :: "(Event \<Rightarrow> 'a \<Rightarrow> 'a \<times> ShipErr option) \<Rightarrow> Event list \<Rightarrow> 'a \<Rightarrow> 'a \<times> ShipErr option" where
  "applyEach apply [] a = (a, None)"
| "applyEach apply (ev # evs) a =
     (case apply ev a of (a, Some err) \<Rightarrow> (a, Some err) | (a, None) \<Rightarrow> applyEach apply evs a)"

fun replaySegments :: "'k Sink \<Rightarrow> proto \<Rightarrow> ctx \<Rightarrow> (Event \<Rightarrow> 'a \<Rightarrow> 'a \<times> ShipErr option) \<Rightarrow> string list \<Rightarrow> 64 word \<Rightarrow> 'k \<Rightarrow> 'a
    \<Rightarrow> 'k \<times> 'a \<times> ShipErr option" where
  "replaySegments sk pm ctx apply [] next k a = (k, a, None)"
| "replaySegments sk pm ctx apply (name # names) next k a =
     (case parseSegmentName name of
        None \<Rightarrow> (k, a, Some (BadSegmentName name))
      | Some (from, to) \<Rightarrow>
          if from \<noteq> next
          then (k, a, Some (if from < next then SegmentOverlap name from next else SegmentGap name from next))
          else case sk_Get sk ctx name k of
                 (k, Inl e) \<Rightarrow> (k, a, Some (SinkErr e))
               | (k, Inr data) \<Rightarrow>
                   (case decodeSegment pm data [] of
                      Inl err \<Rightarrow> (k, a, Some err)
                    | Inr events \<Rightarrow>
                        (case applyEach apply events a of
                           (a, Some err) \<Rightarrow> (k, a, Some err)
                         | (a, None) \<Rightarrow> replaySegments sk pm ctx apply names to k a)))"

definition segmentFrom :: "string \<Rightarrow> 64 word" where
  "segmentFrom name = (case parseSegmentName name of Some (from, _) \<Rightarrow> from | None \<Rightarrow> 0)"

definition ReplayLog :: "'k Sink \<Rightarrow> proto \<Rightarrow> ctx \<Rightarrow> string \<Rightarrow> (Event \<Rightarrow> 'a \<Rightarrow> 'a \<times> ShipErr option) \<Rightarrow> 'k Shipper \<Rightarrow> 'a
    \<Rightarrow> 'k Shipper \<times> 'a \<times> ShipErr option" where
  "ReplayLog sk pm ctx tenant apply sh a =
     (case segments sk ctx tenant (sh_sink sh) of
        (k, Inl e) \<Rightarrow> (sh\<lparr>sh_sink := k\<rparr>, a, Some (SinkErr e))
      | (k, Inr names) \<Rightarrow>
          (case replaySegments sk pm ctx apply (sort_key segmentFrom names) 0 k a of
             (k, a, err) \<Rightarrow> (sh\<lparr>sh_sink := k\<rparr>, a, err)))"

definition TenantsOf :: "string list \<Rightarrow> string list" where
  "TenantsOf names =
     sort (remdups (map (\<lambda>n. takeWhile (\<lambda>c. c \<noteq> CHR ''/'') n)
       (filter (\<lambda>n. has_suffix n segExt \<and> (case index_byte n (CHR ''/'') of None \<Rightarrow> False | Some i \<Rightarrow> i > 0)) names)))"

definition Tenants :: "'k Sink \<Rightarrow> ctx \<Rightarrow> 'k Shipper \<Rightarrow> 'k Shipper \<times> (string + string list)" where
  "Tenants sk ctx sh =
     (case sk_List sk ctx [] (sh_sink sh) of
        (k, Inl e) \<Rightarrow> (sh\<lparr>sh_sink := k\<rparr>, Inl e)
      | (k, Inr names) \<Rightarrow> (sh\<lparr>sh_sink := k\<rparr>, Inr (TenantsOf names)))"

section \<open>Restoring a log\<close>

definition batchSize :: nat where "batchSize = 1000"

definition restoreFlush :: "'d pebble \<Rightarrow> proto \<Rightarrow> 'd Store \<times> Event list \<Rightarrow> ('d Store \<times> Event list) \<times> ShipErr option" where
  "restoreFlush pb pm sb =
     (case sb of (s, batch) \<Rightarrow>
        if batch = [] then ((s, batch), None)
        else case Append pb pm batch s of
               (s, Some err) \<Rightarrow> ((s, batch), Some (ApplyErr err))
             | (s, None) \<Rightarrow> ((s, []), None))"

definition restoreEvent :: "'d pebble \<Rightarrow> proto \<Rightarrow> Event \<Rightarrow> 'd Store \<times> Event list \<Rightarrow> ('d Store \<times> Event list) \<times> ShipErr option" where
  "restoreEvent pb pm ev sb =
     (case sb of (s, batch) \<Rightarrow>
        let batch = batch @ [ev]
        in if length batch \<ge> batchSize then restoreFlush pb pm (s, batch) else ((s, batch), None))"

text \<open>The database of the destination directory is \<open>d\<close>.\<close>

definition restoreTenantLog :: "'k Sink \<Rightarrow> 'd pebble \<Rightarrow> proto \<Rightarrow> string \<Rightarrow> 'd \<Rightarrow> 'k Shipper
    \<Rightarrow> 'k Shipper \<times> (ShipErr + 'd Store)" where
  "restoreTenantLog sk pb pm tenant d sh =
     (case openStore pb d (DefaultConfig\<lparr>cf_AcceptUnknownTypes := True\<rparr>) False of
        Inl err \<Rightarrow> (sh, Inl (OpenErr err))
      | Inr s \<Rightarrow>
          if Sequence s > 0 then (sh, Inl (DestinationNotEmpty (Sequence s)))
          else case ReplayLog sk pm None tenant (restoreEvent pb pm) sh (s, []) of
                 (sh, sb, Some err) \<Rightarrow> (sh, Inl err)
               | (sh, sb, None) \<Rightarrow>
                   (case restoreFlush pb pm sb of
                      (sb, Some err) \<Rightarrow> (sh, Inl err)
                    | (sb, None) \<Rightarrow> (sh, Inr (fst sb))))"

end
