(* ===== verification/Sink_Laws.thy ===== *)
theory Sink_Laws
  imports Sink
begin

text \<open>
  What the clients of an object store rely on (\<open>sink_laws\<close>), and that the file sink and the S3
  sink provide it: a successful \<open>Put\<close> sets exactly its object, a failed one leaves the objects as
  they were or sets its object, and the reads see the objects that are there.
\<close>

section \<open>The interface\<close>

locale sink_laws =
  fixes sk :: "'k Sink" and objects :: "'k \<Rightarrow> string \<rightharpoonup> string" and good :: "'k \<Rightarrow> bool" and name_ok :: "string \<Rightarrow> bool"
  assumes put_good: "good k \<Longrightarrow> name_ok n \<Longrightarrow> sk_Put sk ctx n d k = (k', err) \<Longrightarrow> good k'"
    and put_done: "good k \<Longrightarrow> name_ok n \<Longrightarrow> sk_Put sk ctx n d k = (k', None) \<Longrightarrow> objects k' = (objects k)(n \<mapsto> d)"
    and put_failed: "good k \<Longrightarrow> name_ok n \<Longrightarrow> sk_Put sk ctx n d k = (k', Some e) \<Longrightarrow>
      objects k' = objects k \<or> objects k' = (objects k)(n \<mapsto> d)"
    and get_same: "good k \<Longrightarrow> sk_Get sk ctx n k = (k', r) \<Longrightarrow> good k' \<and> objects k' = objects k"
    and read_law: "good k \<Longrightarrow> name_ok n \<Longrightarrow> sk_Get sk ctx n k = (k', Inr d) \<Longrightarrow> objects k n = Some d"
    and list_same: "good k \<Longrightarrow> sk_List sk ctx p k = (k', rs) \<Longrightarrow> good k' \<and> objects k' = objects k"
    and list_sorted: "good k \<Longrightarrow> sk_List sk ctx p k = (k', Inr ns) \<Longrightarrow> sorted ns \<and> distinct ns"
    and list_law: "good k \<Longrightarrow> sk_List sk ctx p k = (k', Inr ns) \<Longrightarrow> n \<in> set ns \<longleftrightarrow> objects k n \<noteq> None \<and> has_prefix n p"

section \<open>Definitions\<close>

definition component_ok :: "string \<Rightarrow> bool" where
  "component_ok c = (c \<noteq> [] \<and> c \<noteq> ''.'' \<and> c \<noteq> ''..'' \<and> CHR ''/'' \<notin> set c)"

definition file_name :: "string \<Rightarrow> bool" where
  "file_name name = (list_all component_ok (split_byte (CHR ''/'') name) \<and>
     \<not> has_prefix (last (split_byte (CHR ''/'') name)) tempPrefix)"

definition fileObjects :: "path \<Rightarrow> fileSys \<Rightarrow> string \<rightharpoonup> string" where
  "fileObjects dir fs name = (if file_name name then map_of (fs_files fs) (dir @ split_byte (CHR ''/'') name) else None)"

definition fileTree :: "fileSys \<Rightarrow> bool" where
  "fileTree fs = (gdistinct (fs_files fs) \<and> (\<forall>p \<in> set (gkeys (fs_files fs)). list_all component_ok p))"

text \<open>What the documentation of the client promises of its objects.\<close>

definition object_client :: "'k minio \<Rightarrow> ('k \<Rightarrow> string \<rightharpoonup> string) \<Rightarrow> bool" where
  "object_client mc objs =
     ((\<forall>k ctx n d k'. mc_PutObject mc ctx n d k = (k', None) \<longrightarrow> objs k' = (objs k)(n \<mapsto> d)) \<and>
      (\<forall>k ctx n d k' e. mc_PutObject mc ctx n d k = (k', Some e) \<longrightarrow> objs k' = objs k \<or> objs k' = (objs k)(n \<mapsto> d)) \<and>
      (\<forall>k ctx n k' r. mc_GetObject mc ctx n k = (k', r) \<longrightarrow> objs k' = objs k \<and> (\<forall>d. r = Inr d \<longrightarrow> objs k n = Some d)) \<and>
      (\<forall>k ctx p k' r. mc_ListObjects mc ctx p k = (k', r) \<longrightarrow> objs k' = objs k \<and>
         (\<forall>ns. r = Inr ns \<longrightarrow> distinct ns \<and> set ns = {n. objs k n \<noteq> None \<and> has_prefix n p})))"

section \<open>Names and paths\<close>

lemma split_byte_neq_Nil [simp]: "split_byte c s \<noteq> []"
  by (induction s) (auto split: list.splits)

lemma split_no_sep: "w \<in> set (split_byte c s) \<Longrightarrow> c \<notin> set w"
  by (induction s arbitrary: w) (auto split: list.splits if_splits)

lemma split_byte_append: "c \<notin> set w \<Longrightarrow> split_byte c (w @ c # s) = w # split_byte c s"
  by (induction w) auto

lemma split_byte_none: "c \<notin> set w \<Longrightarrow> split_byte c w = [w]"
  by (induction w) auto

lemma join_split [simp]: "join [c] (split_byte c s) = s"
proof (induction s)
  case (Cons x s)
  obtain w ws where "split_byte c s = w # ws" by (cases "split_byte c s") auto
  with Cons show ?case by (cases ws) auto
qed simp

lemma split_join: "cs \<noteq> [] \<Longrightarrow> \<forall>w \<in> set cs. c \<notin> set w \<Longrightarrow> split_byte c (join [c] cs) = cs"
  by (induction "[c]" cs rule: join.induct) (auto simp: split_byte_none split_byte_append)

lemma path_join_ok:
  assumes "list_all component_ok (split_byte (CHR ''/'') name)"
  shows "path_join dir name = dir @ split_byte (CHR ''/'') name"
proof -
  have "foldl path_step dir cs = dir @ cs" if "list_all component_ok cs" for cs
    using that by (induction cs arbitrary: dir) (auto simp: path_step_def component_ok_def)
  with assms show ?thesis by (simp add: path_join_def)
qed

lemma relName_split [simp]: "relName dir (dir @ split_byte (CHR ''/'') name) = name"
  using join_split [of "CHR ''/''" name] by (simp add: relName_def)

section \<open>The file system\<close>

lemma fs_syscall: "syscall fs = (fs', err) \<Longrightarrow> fs_files fs' = fs_files fs"
  by (auto simp: syscall_def)

lemma fs_mkdirAll: "mkdirAll d fs = (fs', err) \<Longrightarrow> fs_files fs' = fs_files fs"
  by (auto simp: mkdirAll_def syscall_def)

lemma fs_createTemp:
  assumes "createTemp d pre fs = (fs', r)"
  shows "case r of Inl e \<Rightarrow> fs_files fs' = fs_files fs
    | Inr p \<Rightarrow> (\<exists>n. p = d @ [pre @ itoa n]) \<and> \<not> ghas (fs_files fs) p \<and> fs_files fs' = gput p [] (fs_files fs)"
proof (cases "fs_fault fs (fs_calls fs)")
  case None
  then show ?thesis using assms by (auto simp: createTemp_def syscall_def find_Some_iff split: option.splits)
next
  case (Some e)
  then show ?thesis using assms by (auto simp: createTemp_def syscall_def)
qed

lemma fs_writeFile:
  assumes "writeFile p data fs = (fs', err)"
  shows "\<exists>d. fs_files fs' = gput p d (fs_files fs) \<and> (err = None \<longrightarrow> d = data)"
  using assms by (auto simp: writeFile_def syscall_def split: if_splits)

lemma fs_renameFile:
  assumes "renameFile p q fs = (fs', err)"
  shows "fs_files fs' = (if err = None then gput q (gget [] (fs_files fs) p) (gdel p (fs_files fs)) else fs_files fs)"
  using assms by (auto simp: renameFile_def syscall_def split: if_splits)

lemma fs_removeFile: "fs_files (removeFile p fs) = fs_files fs \<or> fs_files (removeFile p fs) = gdel p (fs_files fs)"
  by (simp add: removeFile_def syscall_def)

lemma fs_publish:
  assumes "publish tmp dst data fs = (fs', err)"
  shows "if err = None then fs_files fs' = gput dst data (gdel tmp (gput tmp data (fs_files fs)))
    else \<exists>d. fs_files fs' = gput tmp d (fs_files fs)"
proof -
  obtain fs1 e1 where w: "writeFile tmp data fs = (fs1, e1)" by (cases "writeFile tmp data fs")
  obtain fs2 e2 where s: "syscall fs1 = (fs2, e2)" by (cases "syscall fs1")
  obtain fs3 e3 where c: "syscall fs2 = (fs3, e3)" by (cases "syscall fs2")
  obtain fs4 e4 where r: "renameFile tmp dst fs3 = (fs4, e4)" by (cases "renameFile tmp dst fs3")
  show ?thesis
    using assms fs_writeFile [OF w] fs_renameFile [OF r] fs_syscall [OF s] fs_syscall [OF c]
    by (auto simp: publish_def w s c r split: option.splits if_splits)
qed

text \<open>The files after a \<open>Put\<close>: one temporary file may stay, and the object is there on success.\<close>

lemma FilePut_files:
  assumes "FilePut dir ctx name data fs = (fs', err)" and "file_name name"
  obtains (refused) "err \<noteq> None" and "fs_files fs' = fs_files fs"
  | (failed) n where "err \<noteq> None" and "map_of (fs_files fs') = (map_of (fs_files fs))(butlast (dir @ split_byte (CHR ''/'') name) @ [tempPrefix @ itoa n] := map_of (fs_files fs') (butlast (dir @ split_byte (CHR ''/'') name) @ [tempPrefix @ itoa n]))"
  | (put) "err = None" and "map_of (fs_files fs') = (map_of (fs_files fs))(dir @ split_byte (CHR ''/'') name \<mapsto> data)"
proof -
  let ?dst = "dir @ split_byte (CHR ''/'') name"
  have dst: "path_join dir name = ?dst" using assms(2) by (intro path_join_ok) (simp add: file_name_def)
  have last: "last ?dst = last (split_byte (CHR ''/'') name)" by simp
  show thesis
  proof (cases "ctx = None")
    case False
    then show thesis using assms(1) refused by (auto simp: FilePut_def)
  next
    case True
    obtain fs1 e1 where mk: "mkdirAll (butlast ?dst) fs = (fs1, e1)" by (cases "mkdirAll (butlast ?dst) fs")
    show thesis
    proof (cases e1)
      case (Some e)
      then show thesis using assms(1) True mk fs_mkdirAll [OF mk] refused by (auto simp: FilePut_def dst)
    next
      case e1: None
      obtain fs2 r where ct: "createTemp (butlast ?dst) tempPrefix fs1 = (fs2, r)" by (cases "createTemp (butlast ?dst) tempPrefix fs1")
      show thesis
      proof (cases r)
        case (Inl e)
        then show thesis using assms(1) True mk e1 ct fs_mkdirAll [OF mk] fs_createTemp [OF ct] refused
          by (auto simp: FilePut_def dst)
      next
        case (Inr tmp)
        obtain fs3 e3 where pu: "publish tmp ?dst data fs2 = (fs3, e3)" by (cases "publish tmp ?dst data fs2")
        obtain n where tmp: "tmp = butlast ?dst @ [tempPrefix @ itoa n]" and new: "\<not> ghas (fs_files fs) tmp"
          and f2: "fs_files fs2 = gput tmp [] (fs_files fs)"
          using fs_createTemp [OF ct] fs_mkdirAll [OF mk] Inr by auto
        have fs': "fs' = removeFile tmp fs3" "err = e3"
          using assms(1) True mk e1 ct Inr pu by (auto simp: FilePut_def dst)
        have ne: "tmp \<noteq> ?dst" using assms(2) last by (metis file_name_def has_prefix_append last_snoc tmp)
        show thesis
        proof (cases e3)
          case None
          then have "fs_files fs3 = gput ?dst data (gdel tmp (gput tmp data (gput tmp [] (fs_files fs))))"
            using fs_publish [OF pu] f2 by simp
          then have "map_of (fs_files fs') = (map_of (fs_files fs))(?dst \<mapsto> data)"
            using fs_removeFile [of tmp fs3] new ne fs' by (auto simp: fun_eq_iff ghas_def)
          with None fs' put show thesis by simp
        next
          case (Some e)
          then obtain d where "fs_files fs3 = gput tmp d (gput tmp [] (fs_files fs))" using fs_publish [OF pu] f2 by auto
          then have "map_of (fs_files fs') = (map_of (fs_files fs))(tmp := map_of (fs_files fs') tmp)"
            using fs_removeFile [of tmp fs3] fs' by (auto simp: fun_eq_iff)
          with Some fs' failed [of n] show thesis by (simp add: tmp)
        qed
      qed
    qed
  qed
qed

lemma FilePut_distinct:
  assumes "gdistinct (fs_files fs)" and "FilePut dir ctx name data fs = (fs', err)"
  shows "gdistinct (fs_files fs')"
proof -
  let ?dst = "path_join dir name"
  obtain fs1 e1 where mk: "mkdirAll (butlast ?dst) fs = (fs1, e1)" by (cases "mkdirAll (butlast ?dst) fs")
  obtain fs2 r where ct: "createTemp (butlast ?dst) tempPrefix fs1 = (fs2, r)" by (cases "createTemp (butlast ?dst) tempPrefix fs1")
  have f2: "gdistinct (fs_files fs2)" using fs_createTemp [OF ct] fs_mkdirAll [OF mk] assms(1) by (auto split: sum.splits)
  have "gdistinct (fs_files (removeFile tmp fs3))" if "publish tmp ?dst data fs2 = (fs3, e3)" for tmp fs3 e3
    using fs_publish [OF that] fs_removeFile [of tmp fs3] f2 by (auto split: if_splits)
  then show ?thesis using assms fs_mkdirAll [OF mk] f2
    by (auto simp: FilePut_def mk ct Let_def split: option.splits sum.splits prod.splits if_splits)
qed

lemma fileTree_iff:
  "fileTree fs \<longleftrightarrow> gdistinct (fs_files fs) \<and> (\<forall>p. map_of (fs_files fs) p \<noteq> None \<longrightarrow> list_all component_ok p)"
  by (auto simp: fileTree_def gkeys_def map_of_eq_None_iff)

lemma temp_component [simp]: "component_ok (tempPrefix @ itoa n)"
  using non_digit_notin_digits_of [of "CHR ''/''" n] by (simp add: component_ok_def tempPrefix_def itoa_def is_digit_def)

lemma FilePut_tree:
  assumes "fileTree fs" and "file_name name" and "list_all component_ok dir" and "FilePut dir ctx name data fs = (fs', err)"
  shows "fileTree fs'"
proof -
  have d: "gdistinct (fs_files fs')" using assms FilePut_distinct by (auto simp: fileTree_def)
  have ok: "list_all component_ok (split_byte (CHR ''/'') name)" using assms(2) by (simp add: file_name_def)
  then have butl: "list_all component_ok (butlast (dir @ split_byte (CHR ''/'') name))"
    using assms(3) by (auto simp: list_all_iff butlast_append dest: in_set_butlastD split: if_splits)
  show ?thesis using assms(4,2)
  proof (cases rule: FilePut_files)
    case refused
    then show ?thesis using assms(1) by (simp add: fileTree_def)
  next
    case (failed n)
    then have "map_of (fs_files fs) p \<noteq> None \<or> p = butlast (dir @ split_byte (CHR ''/'') name) @ [tempPrefix @ itoa n]"
      if "map_of (fs_files fs') p \<noteq> None" for p
      using that by (metis fun_upd_other)
    then show ?thesis using assms(1) d butl unfolding fileTree_iff by fastforce
  next
    case put
    then show ?thesis using assms(1,3) d ok unfolding fileTree_iff by auto
  qed
qed

lemma FilePut_objects:
  assumes "file_name name" and "FilePut dir ctx name data fs = (fs', err)"
  shows "if err = None then fileObjects dir fs' = (fileObjects dir fs)(name \<mapsto> data) else fileObjects dir fs' = fileObjects dir fs"
  using assms(2,1)
proof (cases rule: FilePut_files)
  case refused
  then show ?thesis by (auto simp: fileObjects_def)
next
  case (failed n)
  have "map_of (fs_files fs') (dir @ split_byte (CHR ''/'') m) = map_of (fs_files fs) (dir @ split_byte (CHR ''/'') m)"
    if m: "file_name m" for m
  proof -
    have "dir @ split_byte (CHR ''/'') m \<noteq> butlast (dir @ split_byte (CHR ''/'') name) @ [tempPrefix @ itoa n]"
      using m unfolding file_name_def by (metis has_prefix_append last_appendR last_snoc split_byte_neq_Nil)
    then show ?thesis by (subst failed(2)) simp
  qed
  with failed(1) show ?thesis by (auto simp: fileObjects_def fun_eq_iff)
next
  case put
  have "split_byte (CHR ''/'') m = split_byte (CHR ''/'') name \<longleftrightarrow> m = name" for m
    by (metis join_split)
  with put assms(1) show ?thesis by (auto simp: fileObjects_def fun_eq_iff)
qed

lemma FileList_names:
  assumes "fileTree fs" and "FileList dir ctx pre fs = (fs', Inr ns)"
  shows "sorted ns" and "distinct ns" and "n \<in> set ns \<longleftrightarrow> fileObjects dir fs n \<noteq> None \<and> has_prefix n pre"
proof -
  let ?P = "\<lambda>p. below_path dir p \<and> \<not> has_prefix (last p) tempPrefix \<and> has_prefix (relName dir p) pre"
  have ns: "ns = sort (map (relName dir) (filter ?P (gkeys (fs_files fs))))"
    using assms(2) by (auto simp: FileList_def syscall_def split: option.splits)
  have split: "p = dir @ split_byte (CHR ''/'') (relName dir p)" if "below_path dir p" "p \<in> set (gkeys (fs_files fs))" for p
  proof -
    from that assms(1) have "list_all component_ok p" by (simp add: fileTree_def)
    then have "\<forall>w \<in> set (drop (length dir) p). CHR ''/'' \<notin> set w"
      by (auto simp: list_all_iff component_ok_def dest: in_set_dropD)
    moreover have "drop (length dir) p \<noteq> []" "p = dir @ drop (length dir) p"
      using that(1) by (auto simp: below_path_def) (metis append_take_drop_id)
    ultimately show ?thesis using split_join [of "drop (length dir) p" "CHR ''/''"] by (simp add: relName_def)
  qed
  show "sorted ns" by (simp add: ns)
  have "inj_on (relName dir) (set (filter ?P (gkeys (fs_files fs))))"
    by (rule inj_onI) (metis (no_types, lifting) mem_Collect_eq set_filter split)
  moreover have "distinct (gkeys (fs_files fs))" using assms(1) by (simp add: fileTree_def gdistinct_def gkeys_def)
  ultimately show "distinct ns" by (simp add: ns distinct_map)
  have "fileObjects dir fs n \<noteq> None \<longleftrightarrow> (\<exists>p \<in> set (gkeys (fs_files fs)). below_path dir p \<and> \<not> has_prefix (last p) tempPrefix \<and> relName dir p = n)"
  proof
    assume "fileObjects dir fs n \<noteq> None"
    then have "file_name n" "dir @ split_byte (CHR ''/'') n \<in> set (gkeys (fs_files fs))"
      by (auto simp: fileObjects_def gkeys_def split: if_splits) (metis domI dom_map_of_conv_image_fst)
    then show "\<exists>p \<in> set (gkeys (fs_files fs)). below_path dir p \<and> \<not> has_prefix (last p) tempPrefix \<and> relName dir p = n"
      by (intro bexI [of _ "dir @ split_byte (CHR ''/'') n"]) (auto simp: file_name_def below_path_def)
  next
    assume "\<exists>p \<in> set (gkeys (fs_files fs)). below_path dir p \<and> \<not> has_prefix (last p) tempPrefix \<and> relName dir p = n"
    then obtain p where p: "p \<in> set (gkeys (fs_files fs))" "below_path dir p" "\<not> has_prefix (last p) tempPrefix" "relName dir p = n"
      by blast
    then have eq: "p = dir @ split_byte (CHR ''/'') n" using split by metis
    moreover have "list_all component_ok p" using p(1) assms(1) by (simp add: fileTree_def)
    moreover have "map_of (fs_files fs) p \<noteq> None" using p(1) by (simp add: gkeys_def map_of_eq_None_iff)
    ultimately show "fileObjects dir fs n \<noteq> None" using p(3) by (auto simp: fileObjects_def file_name_def)
  qed
  then show "n \<in> set ns \<longleftrightarrow> fileObjects dir fs n \<noteq> None \<and> has_prefix n pre" by (auto simp: ns)
qed

section \<open>The sinks\<close>

lemma FileSink_laws:
  assumes "list_all component_ok dir"
  shows "sink_laws (FileSink dir) (fileObjects dir) fileTree file_name"
proof unfold_locales
  fix k n ctx d k' err assume "fileTree k" "file_name n" "sk_Put (FileSink dir) ctx n d k = (k', err)"
  then show "fileTree k'" using FilePut_tree [OF _ _ assms] by (simp add: FileSink_def)
next
  fix k n ctx d k' assume "fileTree k" "file_name n" "sk_Put (FileSink dir) ctx n d k = (k', None)"
  then show "fileObjects dir k' = (fileObjects dir k)(n \<mapsto> d)" using FilePut_objects [of n dir ctx d k k' None] by (simp add: FileSink_def)
next
  fix k n ctx d k' e assume "fileTree k" "file_name n" "sk_Put (FileSink dir) ctx n d k = (k', Some e)"
  then show "fileObjects dir k' = fileObjects dir k \<or> fileObjects dir k' = (fileObjects dir k)(n \<mapsto> d)"
    using FilePut_objects [of n dir ctx d k k' "Some e"] by (simp add: FileSink_def)
next
  fix k n ctx k' r assume "fileTree k" "sk_Get (FileSink dir) ctx n k = (k', r)"
  then show "fileTree k' \<and> fileObjects dir k' = fileObjects dir k"
    by (auto simp: FileSink_def FileGet_def readFile_def syscall_def fileTree_def fileObjects_def fun_eq_iff split: option.splits)
next
  fix k n ctx k' d assume "fileTree k" "file_name n" "sk_Get (FileSink dir) ctx n k = (k', Inr d)"
  then show "fileObjects dir k n = Some d"
    by (auto simp: FileSink_def FileGet_def readFile_def syscall_def fileObjects_def path_join_ok file_name_def split: option.splits)
next
  fix k p ctx k' rs assume "fileTree k" "sk_List (FileSink dir) ctx p k = (k', rs)"
  then show "fileTree k' \<and> fileObjects dir k' = fileObjects dir k"
    by (auto simp: FileSink_def FileList_def syscall_def fileTree_def fileObjects_def fun_eq_iff split: option.splits)
next
  fix k p ctx k' ns assume "fileTree k" "sk_List (FileSink dir) ctx p k = (k', Inr ns)"
  then show "sorted ns \<and> distinct ns" using FileList_names(1,2) by (simp add: FileSink_def)
next
  fix k p ctx k' ns n assume "fileTree k" "sk_List (FileSink dir) ctx p k = (k', Inr ns)"
  then show "n \<in> set ns \<longleftrightarrow> fileObjects dir k n \<noteq> None \<and> has_prefix n p" using FileList_names(3) by (simp add: FileSink_def)
qed

interpretation tmp_sink: sink_laws "FileSink [''srv'', ''segments'']" "fileObjects [''srv'', ''segments'']" fileTree file_name
  by (rule FileSink_laws) (simp add: component_ok_def)

lemma S3Sink_laws:
  assumes "object_client mc objs"
  shows "sink_laws (S3Sink mc prefix) (\<lambda>k n. objs k (prefix @ n)) (\<lambda>k. True) (\<lambda>n. True)"
proof unfold_locales
  note client = assms [unfolded object_client_def]
  fix k ctx n d k' assume "sk_Put (S3Sink mc prefix) ctx n d k = (k', None)"
  then have "objs k' = (objs k)(prefix @ n \<mapsto> d)" using client by (simp add: S3Sink_def S3Put_def S3key_def)
  then show "(\<lambda>n. objs k' (prefix @ n)) = (\<lambda>n. objs k (prefix @ n))(n \<mapsto> d)" by (simp add: fun_eq_iff)
next
  fix k ctx n d k' e assume "sk_Put (S3Sink mc prefix) ctx n d k = (k', Some e)"
  then have "objs k' = objs k \<or> objs k' = (objs k)(prefix @ n \<mapsto> d)"
    using assms unfolding object_client_def S3Sink_def S3Put_def S3key_def by simp blast
  then show "(\<lambda>n. objs k' (prefix @ n)) = (\<lambda>n. objs k (prefix @ n)) \<or> (\<lambda>n. objs k' (prefix @ n)) = (\<lambda>n. objs k (prefix @ n))(n \<mapsto> d)"
    by (auto simp: fun_eq_iff)
next
  fix k ctx n k' r assume "sk_Get (S3Sink mc prefix) ctx n k = (k', r)"
  then show "True \<and> (\<lambda>n. objs k' (prefix @ n)) = (\<lambda>n. objs k (prefix @ n))"
    using assms unfolding object_client_def by (simp add: S3Sink_def S3Get_def S3key_def)
next
  fix k ctx n k' d assume "sk_Get (S3Sink mc prefix) ctx n k = (k', Inr d)"
  then show "objs k (prefix @ n) = Some d"
    using assms unfolding object_client_def by (simp add: S3Sink_def S3Get_def S3key_def)
next
  fix k ctx p k' rs assume "sk_List (S3Sink mc prefix) ctx p k = (k', rs)"
  then show "True \<and> (\<lambda>n. objs k' (prefix @ n)) = (\<lambda>n. objs k (prefix @ n))"
    using assms unfolding object_client_def by (auto simp: S3Sink_def S3List_def split: prod.splits sum.splits)
next
  fix k ctx p k' ns assume "sk_List (S3Sink mc prefix) ctx p k = (k', Inr ns)"
  then obtain keys where l: "mc_ListObjects mc ctx (prefix @ p) k = (k', Inr keys)" and ns: "ns = sort (map (\<lambda>key. trim_prefix key prefix) keys)"
    by (auto simp: S3Sink_def S3List_def split: prod.splits sum.splits)
  then have keys: "distinct keys" "set keys = {n. objs k n \<noteq> None \<and> has_prefix n (prefix @ p)}"
    using assms [unfolded object_client_def, THEN conjunct2, THEN conjunct2, THEN conjunct2] by blast+
  have pre: "\<exists>t. key = prefix @ t" if "key \<in> set keys" for key
    using that keys(2) by (auto simp: has_prefix_iff)
  have "inj_on (\<lambda>key. trim_prefix key prefix) (set keys)"
    by (rule inj_onI) (metis pre trim_prefix_append)
  with keys(1) show "sorted ns \<and> distinct ns" by (simp add: ns distinct_map)
  fix n
  have "n \<in> set ns \<longleftrightarrow> prefix @ n \<in> set keys"
  proof
    assume "n \<in> set ns"
    then obtain key where "key \<in> set keys" "n = trim_prefix key prefix" by (auto simp: ns)
    with pre [of key] show "prefix @ n \<in> set keys" by auto
  next
    assume "prefix @ n \<in> set keys"
    then have "trim_prefix (prefix @ n) prefix \<in> set ns" unfolding ns set_sort set_map by (rule imageI)
    then show "n \<in> set ns" by simp
  qed
  also have "\<dots> \<longleftrightarrow> objs k (prefix @ n) \<noteq> None \<and> has_prefix n p"
    by (auto simp: keys(2) has_prefix_iff)
  finally show "n \<in> set ns \<longleftrightarrow> objs k (prefix @ n) \<noteq> None \<and> has_prefix n p" .
qed simp_all

end
