(* ===== verification/Logship_Laws.thy ===== *)
theory Logship_Laws
  imports Logship Sink_Laws Registry_Restart
begin

text \<open>
  What shipping keeps in the sink: a chain of segments that starts at zero, each resuming where
  the previous one ended, with the events of the log in each range.  The locale \<open>shipping\<close> joins
  the laws of a sink with those of the log.
\<close>

section \<open>Chains of segments\<close>

type_synonym segment = "64 word \<times> 64 word \<times> Event list"

fun linked :: "64 word \<Rightarrow> segment list \<Rightarrow> bool" where
  "linked n [] = True"
| "linked n ((f, t, evs) # segs) = (f = n \<and> f < t \<and> linked t segs)"

fun endOf :: "64 word \<Rightarrow> segment list \<Rightarrow> 64 word" where
  "endOf n [] = n"
| "endOf n ((f, t, evs) # segs) = endOf t segs"

definition segEvents :: "segment list \<Rightarrow> Event list" where
  "segEvents segs = concat (map (\<lambda>(f, t, evs). evs) segs)"

definition nameOf :: "string \<Rightarrow> segment \<Rightarrow> string" where
  "nameOf tenant seg = (case seg of (f, t, evs) \<Rightarrow> segmentName tenant f t)"

definition isSegment :: "string \<Rightarrow> string \<Rightarrow> bool" where
  "isSegment tenant n = (has_prefix n (tenant @ ''/'') \<and> has_suffix n segExt)"

text \<open>The objects of a tenant are exactly the segments of a chain, and each decodes to its events.\<close>

definition shippedAs :: "proto \<Rightarrow> (string \<rightharpoonup> string) \<Rightarrow> string \<Rightarrow> segment list \<Rightarrow> bool" where
  "shippedAs pm C tenant segs =
     (linked 0 segs \<and>
      (\<forall>seg \<in> set segs. \<exists>data. C (nameOf tenant seg) = Some data \<and> decodeSegment pm data [] = Inr (snd (snd seg)) \<and>
         (\<forall>ev \<in> set (snd (snd seg)). wire_event ev \<and> proper ev)) \<and>
      (\<forall>n. C n \<noteq> None \<longrightarrow> isSegment tenant n \<longrightarrow> n \<in> nameOf tenant ` set segs))"

definition inRange :: "64 word \<Rightarrow> 64 word \<Rightarrow> (64 word \<times> Event) list \<Rightarrow> Event list" where
  "inRange from to L = map snd (filter (\<lambda>(n, ev). from < n \<and> n \<le> to) L)"

text \<open>A cached cursor is the end of the chain.\<close>

definition cursor_ok :: "string \<Rightarrow> 'k Shipper \<Rightarrow> segment list \<Rightarrow> bool" where
  "cursor_ok tenant sh segs = (\<forall>v. map_of (sh_cursor sh) tenant = Some v \<longrightarrow> v = endOf 0 segs)"

lemma succ_neq_0: "f < (t :: 64 word) \<Longrightarrow> f + 1 \<noteq> 0"
proof -
  assume "f < t"
  moreover have "unat t < 2 ^ 64" using unsigned_less [of t] by simp
  ultimately have "unat f + 1 < 2 ^ 64" unfolding word_less_nat_alt by linarith
  then have "unat (f + 1) \<noteq> 0" by (simp add: unat_succ)
  then show "f + 1 \<noteq> 0" by auto
qed

lemma linked_append: "linked n (segs @ segs') \<longleftrightarrow> linked n segs \<and> linked (endOf n segs) segs'"
  by (induction n segs rule: linked.induct) auto

lemma endOf_append [simp]: "endOf n (segs @ segs') = endOf (endOf n segs) segs'"
  by (induction n segs rule: endOf.induct) auto

lemma linked_bounds:
  "linked n segs \<Longrightarrow> n \<le> endOf n segs \<and> (\<forall>(f, t, evs) \<in> set segs. n \<le> f \<and> f < t \<and> t \<le> endOf n segs)"
proof (induction n segs rule: linked.induct)
  case (2 n f t evs segs)
  then show ?case by fastforce
qed simp

lemma linked_sorted: "linked n segs \<Longrightarrow> sorted_wrt (<) (map fst segs)"
proof (induction n segs rule: linked.induct)
  case (2 n f t evs segs)
  then show ?case using linked_bounds [of t segs] by fastforce
qed simp

lemma linked_ends: "linked n segs \<Longrightarrow> segs \<noteq> [] \<Longrightarrow> \<exists>seg \<in> set segs. fst (snd seg) = endOf n segs"
proof (induction n segs rule: linked.induct)
  case (2 n f t evs segs)
  then show ?case by (cases segs) auto
qed simp

section \<open>Names\<close>

lemma parse_segmentName [simp]: "parseSegmentName (segmentName tenant f t) = Some (f, t)"
proof -
  have n: "segmentName tenant f t = tenant @ CHR ''/'' # (hex16 f @ ''-'' @ hex16 t) @ segExt" by (simp add: segmentName_def)
  have "CHR ''/'' \<notin> set ((hex16 f @ ''-'' @ hex16 t) @ segExt)" by (simp add: segExt_def)
  then have base: "after_last (CHR ''/'') (segmentName tenant f t) = (hex16 f @ ''-'' @ hex16 t) @ segExt"
    unfolding n by (rule after_last_append)
  have "cut (hex16 f @ CHR ''-'' # hex16 t) (CHR ''-'') = (hex16 f, hex16 t, True)"
    by (simp add: cut_def)
  then show ?thesis unfolding parseSegmentName_def base trim_suffix_append by (simp add: Let_def)
qed

lemma segmentFrom_name [simp]: "segmentFrom (nameOf tenant seg) = fst seg"
  by (simp add: segmentFrom_def nameOf_def split: prod.splits)

lemma parse_nameOf [simp]: "parseSegmentName (nameOf tenant seg) = Some (fst seg, fst (snd seg))"
  by (simp add: nameOf_def split: prod.splits)

lemma isSegment_name [simp]: "isSegment tenant (nameOf tenant seg)"
proof -
  obtain f t evs where seg: "seg = (f, t, evs)" by (cases seg)
  have "segmentName tenant f t = (tenant @ ''/'') @ hex16 f @ ''-'' @ hex16 t @ segExt"
    and "segmentName tenant f t = (tenant @ ''/'' @ hex16 f @ ''-'' @ hex16 t) @ segExt" by (simp_all add: segmentName_def)
  then show ?thesis unfolding isSegment_def nameOf_def seg prod.case by (metis has_prefix_append has_suffix_append)
qed

lemma segmentName_inject: "segmentName tenant f t = segmentName tenant f' t' \<longleftrightarrow> f = f' \<and> t = t'"
  by (metis option.inject parse_segmentName prod.inject)

lemma segment_file_name:
  assumes "component_ok tenant"
  shows "file_name (segmentName tenant f t)"
proof -
  have c: "CHR ''/'' \<notin> set tenant" using assms by (simp add: component_ok_def)
  have "segmentName tenant f t = tenant @ CHR ''/'' # (hex16 f @ ''-'' @ hex16 t @ segExt)" by (simp add: segmentName_def)
  moreover have "CHR ''/'' \<notin> set (hex16 f @ ''-'' @ hex16 t @ segExt)" by (simp add: segExt_def)
  ultimately have sp: "split_byte (CHR ''/'') (segmentName tenant f t) = [tenant, hex16 f @ ''-'' @ hex16 t @ segExt]"
    using c by (simp add: split_byte_append split_byte_none)
  obtain x xs where x: "hex16 f = x # xs" by (cases "hex16 f") (simp_all add: hex16_def)
  then have "x \<noteq> CHR ''.''" using hex16_no_sep(3) [of f] by auto
  with x have "\<not> has_prefix (hex16 f @ ''-'' @ hex16 t @ segExt) tempPrefix" by (simp add: has_prefix_def tempPrefix_def)
  moreover have "component_ok (hex16 f @ ''-'' @ hex16 t @ segExt)"
    using x hex16_no_sep(2) [of f] hex16_no_sep(2) [of t] by (simp add: component_ok_def segExt_def del: hex16_no_sep)
  ultimately show ?thesis using assms by (simp add: file_name_def sp)
qed

section \<open>Shipping\<close>

locale shipping =
  sink_laws sk objects good name_ok +
  log_laws pb contents pm
  for sk :: "'k Sink" and objects :: "'k \<Rightarrow> string \<rightharpoonup> string" and good :: "'k \<Rightarrow> bool" and name_ok :: "string \<Rightarrow> bool"
    and pb :: "'d pebble" and contents :: "'d \<Rightarrow> string \<rightharpoonup> string" and pm :: proto +
  fixes tenant :: string
  assumes tenant_ok: "component_ok tenant"
    and names_ok: "component_ok i \<Longrightarrow> name_ok (segmentName i f t)"
    and small: "pm_marshal pm p = Inr b \<Longrightarrow> length b < 2 ^ 32"
    and iter_partial: "pb_iter pb d lo hi = Inr (rows, Some e) \<Longrightarrow>
      \<exists>more. sorted_wrt (<) (map fst (rows @ more)) \<and>
        (\<forall>k v. (k, v) \<in> set (rows @ more) \<longleftrightarrow> contents d k = Some v \<and> lo \<le> k \<and> below hi k)"
begin

lemma segment_ok: "name_ok (segmentName tenant f t)"
  by (rule names_ok [OF tenant_ok])

lemma decode_encode:
  assumes "encodeSegment pm i evs = Inr seg"
  shows "decodeSegment pm seg acc = Inr (acc @ map onWire evs)"
  using assms
proof (induction evs arbitrary: i seg acc)
  case Nil
  then show ?case by (simp add: decodeSegment.simps)
next
  case (Cons ev evs)
  then obtain b rest where m: "pm_marshal pm (eventToProto ev) = Inr b" and t: "encodeSegment pm (Suc i) evs = Inr rest"
    and seg: "seg = framed b @ rest" by (auto split: sum.splits)
  have "unat (of_nat (length b) :: 32 word) = length b" by (rule unat_size [OF small [OF m]])
  then have "decodeSegment pm seg acc = decodeSegment pm rest (acc @ [onWire ev])"
    using codec [OF m] by (subst decodeSegment.simps) (simp add: seg framed_def Let_def onWire_def)
  with Cons.IH [OF t] show ?case by simp
qed

lemma collect_range:
  assumes "\<And>n ev. (n, ev) \<in> set L \<Longrightarrow> decodeRow pm (primaryKey n, val n) = Inr (n, ev)" and "sorted_wrt (<) (map fst L)"
    and "forRowsKeep (\<lambda>row a. case decodeRow pm row of Inl err \<Rightarrow> (a, Some err) | Inr (seq, ev) \<Rightarrow> shipEvent cur seq ev a)
      (take m (map (\<lambda>(n, ev). (primaryKey n, val n)) L)) acc = (events, err)"
  shows "(err = Some errStop \<or> err = None \<and> length L \<le> m \<longrightarrow> events = acc @ map snd (filter (\<lambda>(n, ev). n \<le> cur) L)) \<and>
    (err = None \<or> err = Some errStop)"
  using assms
proof (induction L arbitrary: acc m)
  case (Cons r L)
  obtain n ev where r: "r = (n, ev)" by (cases r)
  then have d: "decodeRow pm (primaryKey n, val n) = Inr (n, ev)" using Cons.prems(1) by simp
  have bigger: "filter (\<lambda>(n, ev). n \<le> cur) (r # L) = []" if "n > cur"
    using that Cons.prems(2) by (auto simp: r filter_empty_conv)
  show ?case
  proof (cases m)
    case 0
    with Cons.prems(3) show ?thesis by auto
  next
    case (Suc m')
    show ?thesis
    proof (cases "n > cur")
      case True
      with Cons.prems(3) bigger [OF True] Suc show ?thesis by (simp add: r d shipEvent_def errStop_def)
    next
      case False
      with Cons.prems(3) Suc have "forRowsKeep (\<lambda>row a. case decodeRow pm row of Inl err \<Rightarrow> (a, Some err) | Inr (seq, ev) \<Rightarrow> shipEvent cur seq ev a)
          (take m' (map (\<lambda>(n, ev). (primaryKey n, val n)) L)) (acc @ [ev]) = (events, err)"
        by (simp add: r d shipEvent_def)
      from Cons.IH [OF _ _ this] Cons.prems(1,2) False Suc show ?thesis by (auto simp: r)
    qed
  qed
qed simp

lemma scan_range_events:
  assumes L: "logged pm (contents (s_db src)) L" and nowrap: "from + 1 \<noteq> 0"
    and s: "ScanFromKeep pb pm from (shipEvent cur) src [] = (events, err)" and err: "err = None \<or> err = Some errStop"
  shows "events = inRange from cur L"
proof -
  let ?L = "filter (\<lambda>(n, ev). from < n) L"
  let ?rows = "map (\<lambda>(n, ev). (primaryKey n, the (contents (s_db src) (primaryKey n)))) ?L"
  let ?f = "\<lambda>row a. case decodeRow pm row of Inl err \<Rightarrow> (a, Some err) | Inr (seq, ev) \<Rightarrow> shipEvent cur seq ev a"
  obtain rows ierr where it: "pb_iter pb (s_db src) (primaryKey (from + 1)) (prefixUpperBound primaryPrefix) = Inr (rows, ierr)"
    and body: "(case forRowsKeep ?f rows [] of (a, Some err) \<Rightarrow> (a, Some err) | (a, None) \<Rightarrow> (a, map_option IterErr ierr)) = (events, err)"
    using s err by (auto simp: ScanFromKeep_def errStop_def split: sum.splits)
  obtain more where all: "rows @ more = ?rows" and full: "ierr = None \<Longrightarrow> more = []"
  proof (cases ierr)
    case None
    with it have "rows = ?rows" by (intro rows_range [OF L after_range [OF L nowrap]]) simp_all
    with None show thesis by (intro that [of "[]"]) simp_all
  next
    case (Some e)
    then obtain more where "sorted_wrt (<) (map fst (rows @ more))"
      "\<forall>k v. (k, v) \<in> set (rows @ more) \<longleftrightarrow> contents (s_db src) k = Some v \<and> primaryKey (from + 1) \<le> k \<and> below (prefixUpperBound primaryPrefix) k"
      using iter_partial it by metis
    then have "rows @ more = ?rows" by (intro sorted_rows_range [OF L after_range [OF L nowrap]]) blast+
    with Some show thesis by (intro that) simp_all
  qed
  obtain evs e where f: "forRowsKeep ?f rows [] = (evs, e)" by (cases "forRowsKeep ?f rows []")
  have rows: "rows = take (length rows) ?rows" using all by (metis append_eq_conv_conj)
  have dec: "\<And>n ev. (n, ev) \<in> set ?L \<Longrightarrow> decodeRow pm (primaryKey n, the (contents (s_db src) (primaryKey n))) = Inr (n, ev)"
    using row_decode [OF L] by auto
  have srt: "sorted_wrt (<) (map fst ?L)" using L by (simp add: logged_def sorted_wrt_map sorted_wrt_filter)
  from f rows have "forRowsKeep ?f (take (length rows) ?rows) [] = (evs, e)" by metis
  note C = collect_range [OF dec srt this]
  have *: "(e = Some errStop \<or> e = None \<and> length ?L \<le> length rows) \<and> events = evs"
  proof (cases e)
    case None
    with body f have "events = evs" "err = map_option IterErr ierr" by simp_all
    moreover from this err have "ierr = None" by (cases ierr) (auto simp: errStop_def)
    then have "rows = ?rows" using full all by simp
    from arg_cong [OF this, of length] have "length rows = length ?L" unfolding length_map .
    ultimately show ?thesis using None by simp
  next
    case (Some x)
    with body f have "events = evs" by simp
    with Some C show ?thesis by auto
  qed
  with C have "events = map snd (filter (\<lambda>(n, ev). n \<le> cur) ?L)" by auto
  moreover have "filter (\<lambda>(n, ev). n \<le> cur) ?L = filter (\<lambda>(n, ev). from < n \<and> n \<le> cur) L"
    by (induction L) auto
  ultimately show ?thesis by (simp add: inRange_def)
qed

text \<open>The cursor is the end of the chain.\<close>

lemma max_step:
  assumes "\<forall>n \<in> set ns. \<exists>f t. parseSegmentName n = Some (f, t) \<and> t \<le> M"
    and "m = M \<or> m \<le> M \<and> (\<exists>n \<in> set ns. \<exists>f. parseSegmentName n = Some (f, M))"
  shows "foldl (\<lambda>m n. case parseSegmentName n of Some (_, to) \<Rightarrow> if to > m then to else m | None \<Rightarrow> m) m ns = M"
  using assms
proof (induction ns arbitrary: m)
  case (Cons n ns)
  then obtain f t where p: "parseSegmentName n = Some (f, t)" "t \<le> M" by auto
  have "(if t > m then t else m) = M \<or> (if t > m then t else m) \<le> M \<and> (\<exists>n \<in> set ns. \<exists>f. parseSegmentName n = Some (f, M))"
    using Cons.prems(2) p by auto
  with Cons.IH [of "if t > m then t else m"] Cons.prems(1) p show ?case by simp
qed auto

lemma segments_listed:
  assumes "good k" and sh: "shippedAs pm (objects k) tenant segs" and l: "segments sk ctx tenant k = (k', Inr names)"
  shows "set names = nameOf tenant ` set segs" and "distinct names"
proof -
  obtain all where l: "sk_List sk ctx (tenant @ ''/'') k = (k', Inr all)" and names: "names = filter (\<lambda>n. has_suffix n segExt) all"
    using l by (auto simp: segments_def split: prod.splits sum.splits)
  have "n \<in> set names \<longleftrightarrow> objects k n \<noteq> None \<and> isSegment tenant n" for n
    using list_law [OF assms(1) l, of n] by (auto simp: names isSegment_def)
  moreover have "objects k (nameOf tenant seg) \<noteq> None" if "seg \<in> set segs" for seg
    using sh that by (auto simp: shippedAs_def)
  ultimately show "set names = nameOf tenant ` set segs" using sh by (auto simp: shippedAs_def)
  show "distinct names" using list_sorted [OF assms(1) l] by (simp add: names)
qed

lemma segments_same:
  assumes "good k" and "segments sk ctx tenant k = (k', r)"
  shows "good k' \<and> objects k' = objects k"
proof -
  obtain k1 r1 where l: "sk_List sk ctx (tenant @ ''/'') k = (k1, r1)" by (cases "sk_List sk ctx (tenant @ ''/'') k")
  with assms list_same [OF assms(1) l] show ?thesis by (auto simp: segments_def split: sum.splits)
qed

lemma maxShipped_end:
  assumes sh: "shippedAs pm C tenant segs" and names: "set names = nameOf tenant ` set segs"
  shows "maxShipped names = endOf 0 segs"
  unfolding maxShipped_def
proof (rule max_step)
  have lk: "linked 0 segs" using sh by (simp add: shippedAs_def)
  show "\<forall>n \<in> set names. \<exists>f t. parseSegmentName n = Some (f, t) \<and> t \<le> endOf 0 segs"
  proof
    fix n assume "n \<in> set names"
    then obtain f t evs where "(f, t, evs) \<in> set segs" "n = segmentName tenant f t" using names by (auto simp: nameOf_def)
    with linked_bounds [OF lk] show "\<exists>f t. parseSegmentName n = Some (f, t) \<and> t \<le> endOf 0 segs" by auto
  qed
  show "0 = endOf 0 segs \<or> 0 \<le> endOf 0 segs \<and> (\<exists>n \<in> set names. \<exists>f. parseSegmentName n = Some (f, endOf 0 segs))"
  proof (cases "segs = []")
    case False
    then obtain f t evs where "(f, t, evs) \<in> set segs" "t = endOf 0 segs" using linked_ends [OF lk] by auto
    then have "segmentName tenant f (endOf 0 segs) \<in> set names" using names by (force simp: nameOf_def)
    then show ?thesis by (intro disjI2 conjI bexI [of _ "segmentName tenant f (endOf 0 segs)"]) auto
  qed simp
qed

lemma lastShipped_end:
  assumes "good (sh_sink sh)" and s: "shippedAs pm (objects (sh_sink sh)) tenant segs" and c: "cursor_ok tenant sh segs"
    and l: "lastShipped sk ctx tenant sh = (sh', r)"
  shows "good (sh_sink sh')" and "objects (sh_sink sh') = objects (sh_sink sh)" and "cursor_ok tenant sh' segs"
    and "r = Inr v \<Longrightarrow> v = endOf 0 segs"
proof -
  have "good (sh_sink sh') \<and> objects (sh_sink sh') = objects (sh_sink sh) \<and> cursor_ok tenant sh' segs \<and> (\<forall>v. r = Inr v \<longrightarrow> v = endOf 0 segs)"
  proof (cases "map_of (sh_cursor sh) tenant")
    case (Some v)
    with assms show ?thesis by (auto simp: lastShipped_def cursor_ok_def)
  next
    case None
    obtain k q where sg: "segments sk ctx tenant (sh_sink sh) = (k, q)" by (cases "segments sk ctx tenant (sh_sink sh)")
    note same = segments_same [OF assms(1) sg]
    show ?thesis
    proof (cases q)
      case (Inl e)
      with None l sg same show ?thesis by (auto simp: lastShipped_def cursor_ok_def)
    next
      case (Inr names)
      then have "maxShipped names = endOf 0 segs"
        using maxShipped_end [OF s] segments_listed(1) [OF assms(1) s] sg by metis
      with None l sg same Inr show ?thesis by (auto simp: lastShipped_def cursor_ok_def)
    qed
  qed
  then show "good (sh_sink sh')" and "objects (sh_sink sh') = objects (sh_sink sh)" and "cursor_ok tenant sh' segs"
    and "r = Inr v \<Longrightarrow> v = endOf 0 segs" by auto
qed

text \<open>A new segment continues the chain.\<close>

lemma shipped_snoc:
  assumes sh: "shippedAs pm C tenant segs" and less: "endOf 0 segs < cur" and enc: "encodeSegment pm 0 evs = Inr seg"
    and ok: "\<forall>ev \<in> set evs. wire_event ev \<and> proper ev"
  shows "shippedAs pm (C(segmentName tenant (endOf 0 segs) cur \<mapsto> seg)) tenant (segs @ [(endOf 0 segs, cur, evs)])"
proof -
  let ?n = "segmentName tenant (endOf 0 segs) cur"
  have lk: "linked 0 segs" using sh by (simp add: shippedAs_def)
  have other: "nameOf tenant s \<noteq> ?n" if "s \<in> set segs" for s
    using that linked_bounds [OF lk] by (fastforce simp: nameOf_def segmentName_inject)
  have "map onWire evs = evs" using ok by (simp add: map_idI onWire_same)
  then have "decodeSegment pm seg [] = Inr evs" using decode_encode [OF enc, of "[]"] by simp
  moreover have "nameOf tenant (endOf 0 segs, cur, evs) = ?n" by (simp add: nameOf_def)
  ultimately show ?thesis using sh less ok other unfolding shippedAs_def by (auto simp: linked_append)
qed

lemma segment_step:
  assumes g: "good (sh_sink sh)" and s: "shippedAs pm (objects (sh_sink sh)) tenant segs" and c: "cursor_ok tenant sh segs"
    and less: "endOf 0 segs < cur" and ok: "\<forall>ev \<in> set evs. wire_event ev \<and> proper ev"
    and ship: "shipSegment sk pm ctx tenant (endOf 0 segs) cur evs sh = (sh', r)"
  shows "good (sh_sink sh') \<and>
    (shippedAs pm (objects (sh_sink sh')) tenant segs \<and> cursor_ok tenant sh' segs \<and> (\<exists>err. r = Inl err) \<or>
     shippedAs pm (objects (sh_sink sh')) tenant (segs @ [(endOf 0 segs, cur, evs)]) \<and>
     cursor_ok tenant sh' (segs @ [(endOf 0 segs, cur, evs)]) \<and> (\<forall>m. r = Inr m \<longrightarrow> m = length evs))"
proof (cases "encodeSegment pm 0 evs")
  case (Inl err)
  with ship g s c show ?thesis by (auto simp: shipSegment_def)
next
  case (Inr seg)
  let ?n = "segmentName tenant (endOf 0 segs) cur"
  obtain k e where p: "sk_Put sk ctx ?n seg (sh_sink sh) = (k, e)" by (cases "sk_Put sk ctx ?n seg (sh_sink sh)")
  have gk: "good k" by (rule put_good [OF g segment_ok p])
  note snoc = shipped_snoc [OF s less Inr ok]
  show ?thesis
  proof (cases e)
    case None
    with p have "objects k = (objects (sh_sink sh))(?n \<mapsto> seg)" by (intro put_done [OF g segment_ok]) simp
    with snoc ship Inr p None gk show ?thesis by (auto simp: shipSegment_def cursor_ok_def)
  next
    case (Some err)
    then have sh': "sh' = sh\<lparr>sh_sink := k, sh_cursor := gdel tenant (sh_cursor sh)\<rparr>" "r = Inl (SinkErr err)"
      using ship Inr p by (auto simp: shipSegment_def)
    have "objects k = objects (sh_sink sh) \<or> objects k = (objects (sh_sink sh))(?n \<mapsto> seg)"
      using put_failed [OF g segment_ok] p Some by metis
    with s snoc sh' gk show ?thesis by (auto simp: cursor_ok_def)
  qed
qed

lemma ship_step:
  assumes g: "good (sh_sink sh)" and s: "shippedAs pm (objects (sh_sink sh)) tenant segs" and c: "cursor_ok tenant sh segs"
    and L: "stored pm (contents (s_db src)) n L" and ship: "Ship sk pb pm ctx tenant src0 src sh = (sh', r)"
  obtains (same) "shippedAs pm (objects (sh_sink sh')) tenant segs" and "good (sh_sink sh')" and "cursor_ok tenant sh' segs"
      and "\<And>m. r = Inr m \<Longrightarrow> m = 0 \<and> (Sequence src0 \<le> endOf 0 segs \<or> inRange (endOf 0 segs) (Sequence src0) L = [])"
  | (more) "shippedAs pm (objects (sh_sink sh')) tenant (segs @ [(endOf 0 segs, Sequence src0, inRange (endOf 0 segs) (Sequence src0) L)])"
      and "good (sh_sink sh')" and "cursor_ok tenant sh' (segs @ [(endOf 0 segs, Sequence src0, inRange (endOf 0 segs) (Sequence src0) L)])"
      and "endOf 0 segs < Sequence src0" and "\<And>m. r = Inr m \<Longrightarrow> m = length (inRange (endOf 0 segs) (Sequence src0) L) \<and> m \<noteq> 0"
proof -
  let ?to = "Sequence src0" and ?from = "endOf 0 segs"
  let ?evs = "inRange ?from ?to L"
  obtain sh1 q where ls: "lastShipped sk ctx tenant sh = (sh1, q)" by (cases "lastShipped sk ctx tenant sh")
  note K = lastShipped_end [OF g s c ls]
  have s1: "shippedAs pm (objects (sh_sink sh1)) tenant segs" using s K(2) by simp
  have unchanged: thesis if "sh' = sh1" and "\<And>m. r = Inr m \<Longrightarrow> m = 0 \<and> (?to \<le> ?from \<or> ?evs = [])"
    by (rule same) (use that K s1 in auto)
  show thesis
  proof (cases q)
    case (Inl err)
    with ship ls show thesis by (intro unchanged) (auto simp: Ship_def)
  next
    case (Inr v)
    with K(4) have v: "v = ?from" by simp
    show thesis
    proof (cases "?to \<le> ?from")
      case True
      with ship ls Inr v show thesis by (intro unchanged) (auto simp: Ship_def Let_def)
    next
      case False
      then have less: "?from < ?to" by simp
      then have nowrap: "?from + 1 \<noteq> 0" by (rule succ_neq_0)
      obtain events err where sc: "ScanFromKeep pb pm ?from (shipEvent ?to) src [] = (events, err)"
        by (cases "ScanFromKeep pb pm ?from (shipEvent ?to) src []")
      show thesis
      proof (cases "err = None \<or> err = Some errStop")
        case bad: False
        with ship ls Inr v False sc show thesis by (intro unchanged) (auto simp: Ship_def Let_def)
      next
        case True
        have lg: "logged pm (contents (s_db src)) L" using L by (simp add: stored_def)
        have ev: "events = ?evs" by (rule scan_range_events [OF lg nowrap sc True])
        have wp: "\<forall>ev \<in> set ?evs. wire_event ev \<and> proper ev" using L by (auto simp: stored_def inRange_def)
        have body: "(sh', r) = (if ?evs = [] then (sh1, Inr 0) else shipSegment sk pm ctx tenant ?from ?to ?evs sh1)"
          using ship ls Inr v False sc True ev by (auto simp: Ship_def Let_def)
        show thesis
        proof (cases "?evs = []")
          case True
          with body show thesis by (intro unchanged) auto
        next
          case ne: False
          have "shipSegment sk pm ctx tenant ?from ?to ?evs sh1 = (sh', r)" using body ne by simp
          from segment_step [OF K(1) s1 K(3) less wp this] show thesis
          proof (elim conjE disjE exE)
            fix err assume "r = Inl err" "shippedAs pm (objects (sh_sink sh')) tenant segs" "cursor_ok tenant sh' segs" "good (sh_sink sh')"
            then show thesis by (intro same) simp_all
          qed (rule more; use ne less in simp)
        qed
      qed
    qed
  qed
qed

section \<open>Replay\<close>

lemma sort_by_from:
  assumes lk: "linked 0 segs" and names: "set names = nameOf tenant ` set segs" "distinct names"
  shows "sort_key segmentFrom names = map (nameOf tenant) segs"
proof -
  have srt: "sorted_wrt (<) (map fst segs)" by (rule linked_sorted [OF lk])
  then have dist: "distinct (map fst segs)" using strict_sorted_iff by blast
  have inj: "inj_on segmentFrom (nameOf tenant ` set segs)"
    using dist by (auto simp: inj_on_def) (metis eq_key_imp_eq_value)
  then have "distinct (map segmentFrom (sort_key segmentFrom names))" using names by (simp add: distinct_map)
  then have s1: "sorted_wrt (<) (map segmentFrom (sort_key segmentFrom names))" by (simp add: strict_sorted_iff)
  have s2: "sorted_wrt (<) (map segmentFrom (map (nameOf tenant) segs))" using srt by (simp add: o_def)
  have "map segmentFrom (sort_key segmentFrom names) = map segmentFrom (map (nameOf tenant) segs)"
    by (rule strict_sorted_equal [OF s2 s1]) (simp add: names image_image)
  then show ?thesis by (rule map_inj_on) (simp add: names inj)
qed

lemma applyEach_append:
  "applyEach f (xs @ ys) a = (case applyEach f xs a of (a, Some err) \<Rightarrow> (a, Some err) | (a, None) \<Rightarrow> applyEach f ys a)"
  by (induction f xs a rule: applyEach.induct) (auto split: prod.splits option.splits)

lemma replay_chain:
  assumes "linked n segs" and "good k"
    and "\<forall>seg \<in> set segs. \<exists>data. objects k (nameOf tenant seg) = Some data \<and> decodeSegment pm data [] = Inr (snd (snd seg))"
    and "replaySegments sk pm ctx apply (map (nameOf tenant) segs) n k a = (k', a', err)"
  shows "(err = None \<longrightarrow> applyEach apply (segEvents segs) a = (a', None)) \<and>
    (err \<noteq> None \<longrightarrow> (\<exists>e. err = Some (SinkErr e)) \<or> applyEach apply (segEvents segs) a = (a', err))"
  using assms
proof (induction segs arbitrary: n k a)
  case (Cons seg segs)
  obtain f t evs where seg: "seg = (f, t, evs)" by (cases seg)
  obtain k1 g where get: "sk_Get sk ctx (nameOf tenant seg) k = (k1, g)" by (cases "sk_Get sk ctx (nameOf tenant seg) k")
  have same: "good k1 \<and> objects k1 = objects k" by (rule get_same [OF Cons.prems(2) get])
  have n: "f = n" "linked t segs" using Cons.prems(1) by (simp_all add: seg)
  show ?case
  proof (cases g)
    case (Inl e)
    with Cons.prems(4) get n show ?thesis by (auto simp: seg)
  next
    case (Inr data)
    with get have "objects k (nameOf tenant seg) = Some data"
      using read_law [OF Cons.prems(2) segment_ok] by (auto simp: seg nameOf_def)
    with Cons.prems(3) have dec: "decodeSegment pm data [] = Inr evs" by (auto simp: seg)
    obtain a1 e1 where ap: "applyEach apply evs a = (a1, e1)" by (cases "applyEach apply evs a")
    have ev: "segEvents (seg # segs) = evs @ segEvents segs" by (simp add: segEvents_def seg)
    show ?thesis
    proof (cases e1)
      case None
      then have "replaySegments sk pm ctx apply (map (nameOf tenant) segs) t k1 a1 = (k', a', err)"
        using Cons.prems(4) get n Inr dec ap by (simp add: seg)
      from Cons.IH [OF n(2) _ _ this] same Cons.prems(3) None ap show ?thesis by (simp add: ev applyEach_append)
    next
      case (Some e)
      with Cons.prems(4) get n Inr dec ap have "applyEach apply (segEvents (seg # segs)) a = (a', err)"
        unfolding ev applyEach_append by (auto simp: seg)
      with Some show ?thesis by simp
    qed
  qed
qed (simp add: segEvents_def)

lemma replay_shipped:
  assumes g: "good (sh_sink sh)" and s: "shippedAs pm (objects (sh_sink sh)) tenant segs"
    and r: "ReplayLog sk pm ctx tenant apply sh a = (sh', a', err)"
  shows "(err = None \<longrightarrow> applyEach apply (segEvents segs) a = (a', None)) \<and>
    (err \<noteq> None \<longrightarrow> (\<exists>e. err = Some (SinkErr e)) \<or> applyEach apply (segEvents segs) a = (a', err))"
proof -
  obtain k q where sg: "segments sk ctx tenant (sh_sink sh) = (k, q)" by (cases "segments sk ctx tenant (sh_sink sh)")
  show ?thesis
  proof (cases q)
    case (Inl e)
    with r sg show ?thesis by (auto simp: ReplayLog_def)
  next
    case (Inr names)
    have lk: "linked 0 segs" using s by (simp add: shippedAs_def)
    have "sort_key segmentFrom names = map (nameOf tenant) segs"
      using sort_by_from [OF lk] segments_listed [OF g s] sg Inr by metis
    then obtain k' where rp: "replaySegments sk pm ctx apply (map (nameOf tenant) segs) 0 k a = (k', a', err)"
      using r sg Inr by (auto simp: ReplayLog_def split: prod.splits)
    have k: "good k" "objects k = objects (sh_sink sh)" using segments_same [OF g sg] by simp_all
    have "\<forall>seg \<in> set segs. \<exists>data. objects k (nameOf tenant seg) = Some data \<and> decodeSegment pm data [] = Inr (snd (snd seg))"
      using s unfolding k shippedAs_def by blast
    from replay_chain [OF lk k(1) this rp] show ?thesis .
  qed
qed

section \<open>Restore\<close>

lemma snd_numbered [simp]: "map snd (numbered n evs) = evs"
  by (induction n evs rule: numbered.induct) auto

lemma length_numbered [simp]: "length (numbered n evs) = length evs"
  by (induction n evs rule: numbered.induct) auto

lemma stamp_stamp [simp]: "stampCommit c (stampCommit c' ev) = stampCommit c ev"
  by (simp add: stampCommit_def split: option.splits)

lemma unstamped: "map (stampCommit 0 \<circ> snd) (numbered n (map (stampCommit c) evs)) = map (stampCommit 0) evs"
proof -
  have "map (stampCommit 0 \<circ> snd) (numbered n (map (stampCommit c) evs)) = map (stampCommit 0) (map snd (numbered n (map (stampCommit c) evs)))"
    by (simp only: map_map)
  also have "\<dots> = map (stampCommit 0) evs" unfolding snd_numbered by simp
  finally show ?thesis .
qed

lemma unat_plus: "unat n + k < 2 ^ 64 \<Longrightarrow> unat (n + of_nat k :: 64 word) = unat n + k"
  by (simp add: unat_word_ariths unat_of_nat)

lemma append_counts:
  assumes "Append pb pm evs s = (s', None)" and "stored pm (contents (s_db s)) (s_seq s) L"
    and "unat (s_seq s) + length evs < 2 ^ 64" and "\<forall>ev \<in> set evs. wire_event ev \<and> proper ev"
  shows "stored pm (contents (s_db s')) (s_seq s') (L @ numbered (s_seq s) (map (stampCommit (s_seq s + 1)) evs)) \<and>
    unat (s_seq s') = unat (s_seq s) + length evs"
proof -
  have "logged pm (contents (s_db s)) L" "sequenced (contents (s_db s)) (s_seq s) L" using assms(2) by (simp_all add: stored_def)
  from append_log [OF assms(1) this assms(3)] have "s_seq s' = s_seq s + of_nat (length evs)" by blast
  with append_stored [OF assms(1,2,3)] assms(3,4) show ?thesis by (simp add: unat_plus)
qed

text \<open>
  The events restored so far are those in the new log and those waiting in the batch; the commit
  sequence is stamped anew.
\<close>

definition restored :: "Event list \<Rightarrow> 'd Store \<times> Event list \<Rightarrow> bool" where
  "restored E sb =
     (\<exists>L. stored pm (contents (s_db (fst sb))) (s_seq (fst sb)) L \<and> unat (s_seq (fst sb)) = length L \<and>
        map (stampCommit 0 \<circ> snd) L @ map (stampCommit 0) (snd sb) = map (stampCommit 0) E \<and>
        (\<forall>ev \<in> set (snd sb). wire_event ev \<and> proper ev))"

lemma flush_restored:
  assumes r: "restored E sb" and f: "restoreFlush pb pm sb = (sb', None)" and room: "length E < 2 ^ 64"
  shows "restored E sb' \<and> snd sb' = []"
proof -
  obtain s batch where sb: "sb = (s, batch)" by (cases sb)
  obtain L where L: "stored pm (contents (s_db s)) (s_seq s) L" "unat (s_seq s) = length L"
    and E: "map (stampCommit 0 \<circ> snd) L @ map (stampCommit 0) batch = map (stampCommit 0) E"
    and wp: "\<forall>ev \<in> set batch. wire_event ev \<and> proper ev" using r by (auto simp: restored_def sb)
  show ?thesis
  proof (cases "batch = []")
    case True
    with r f show ?thesis by (auto simp: restoreFlush_def sb)
  next
    case False
    then obtain s' where a: "Append pb pm batch s = (s', None)" and sb': "sb' = (s', [])"
      using f by (auto simp: restoreFlush_def sb split: prod.splits option.splits)
    have "length L + length batch = length E" using arg_cong [OF E, of length] by simp
    with L(2) room have "unat (s_seq s) + length batch < 2 ^ 64" by simp
    from append_counts [OF a L(1) this wp] L(2) E show ?thesis
      unfolding restored_def sb'
      by (intro conjI exI [of _ "L @ numbered (s_seq s) (map (stampCommit (s_seq s + 1)) batch)"]) (simp_all add: unstamped)
  qed
qed

lemma event_restored:
  assumes r: "restored E sb" and f: "restoreEvent pb pm ev sb = (sb', None)" and room: "length E + 1 < 2 ^ 64"
    and ev: "wire_event ev \<and> proper ev"
  shows "restored (E @ [ev]) sb'"
proof -
  obtain s batch where sb: "sb = (s, batch)" by (cases sb)
  have new: "restored (E @ [ev]) (s, batch @ [ev])" using r ev by (auto simp: restored_def sb)
  show ?thesis
  proof (cases "length (batch @ [ev]) \<ge> batchSize")
    case True
    then have "restoreFlush pb pm (s, batch @ [ev]) = (sb', None)" using f by (simp add: restoreEvent_def sb Let_def)
    from flush_restored [OF new this] room show ?thesis by simp
  next
    case False
    then show ?thesis using f new by (simp add: restoreEvent_def sb Let_def)
  qed
qed

lemma events_restored:
  assumes "restored E sb" and "applyEach (restoreEvent pb pm) evs sb = (sb', None)" and "length E + length evs < 2 ^ 64"
    and "\<forall>ev \<in> set evs. wire_event ev \<and> proper ev"
  shows "restored (E @ evs) sb'"
  using assms
proof (induction evs arbitrary: E sb)
  case (Cons ev evs)
  then obtain sb1 where e: "restoreEvent pb pm ev sb = (sb1, None)" and rest: "applyEach (restoreEvent pb pm) evs sb1 = (sb', None)"
    by (auto split: prod.splits option.splits)
  have "restored (E @ [ev]) sb1" by (rule event_restored [OF Cons.prems(1) e]) (use Cons.prems in auto)
  from Cons.IH [OF this rest] Cons.prems show ?case by simp
qed simp

lemma restore_log:
  assumes g: "good (sh_sink sh)" and s: "shippedAs pm (objects (sh_sink sh)) tenant segs" and room: "length (segEvents segs) < 2 ^ 64"
    and d: "contents d = Map.empty" and r: "restoreTenantLog sk pb pm tenant d sh = (sh', Inr s')"
  shows "\<exists>L. stored pm (contents (s_db s')) (s_seq s') L \<and> unat (s_seq s') = length L \<and>
    map (stampCommit 0 \<circ> snd) L = map (stampCommit 0) (segEvents segs)"
proof -
  obtain s0 where op: "openStore pb d (DefaultConfig\<lparr>cf_AcceptUnknownTypes := True\<rparr>) False = Inr s0"
    using r by (auto simp: restoreTenantLog_def split: sum.splits)
  have "stored pm (contents d) 0 []" using stored_empty [of pm] by (simp add: d)
  from reopened_log(1) [OF log_laws_axioms this op] have s0: "s_seq s0 = 0" "stored pm (contents (s_db s0)) (s_seq s0) []" by blast+
  obtain sh1 sb err where rp: "ReplayLog sk pm None tenant (restoreEvent pb pm) sh (s0, []) = (sh1, sb, err)"
    by (cases "ReplayLog sk pm None tenant (restoreEvent pb pm) sh (s0, [])")
  then have "err = None" and fl: "\<exists>sb'. restoreFlush pb pm sb = (sb', None) \<and> s' = fst sb'"
    using r op s0(1) by (auto simp: restoreTenantLog_def Sequence_def split: option.splits prod.splits)
  with replay_shipped [OF g s rp] have each: "applyEach (restoreEvent pb pm) (segEvents segs) (s0, []) = (sb, None)" by simp
  have wp: "\<forall>ev \<in> set (segEvents segs). wire_event ev \<and> proper ev" using s by (fastforce simp: shippedAs_def segEvents_def)
  have "restored [] (s0, [])" using s0 by (auto simp: restored_def)
  from events_restored [OF this each] room wp have "restored (segEvents segs) sb" by simp
  with fl flush_restored room obtain sb' where "restored (segEvents segs) sb'" "snd sb' = []" "s' = fst sb'" by metis
  then show ?thesis by (auto simp: restored_def)
qed

end

end
