(* ===== verification/Logship_Theorems.thy ===== *)
theory Logship_Theorems
  imports Logship_Laws Registry_Theorems
begin

text \<open>
  Disaster recovery: what a history of appends and shipments leaves in the sink restores the log,
  and what a restored log no longer ships.
\<close>

section \<open>Definitions\<close>

text \<open>
  The life of a node: it appends to the log of the tenant, ships it while it may be appending,
  ships the logs of other tenants, and restarts with a shipper that remembers nothing.  Each append and
  each shipment may fail.
\<close>

inductive shipRun :: "'k Sink \<Rightarrow> 'd pebble \<Rightarrow> proto \<Rightarrow> string \<Rightarrow> 'd Store \<times> 'k Shipper \<Rightarrow> 'd Store \<times> 'k Shipper \<Rightarrow> bool"
  for sk :: "'k Sink" and pb :: "'d pebble" and pm :: proto and tenant :: string and c :: "'d Store \<times> 'k Shipper" where
  start: "shipRun sk pb pm tenant c c"
| append: "shipRun sk pb pm tenant c (s, sh) \<Longrightarrow> Append pb pm evs s = (s', err) \<Longrightarrow> \<forall>ev \<in> set evs. wire_event ev \<Longrightarrow>
    unat (s_seq s) + length evs < 2 ^ 64 \<Longrightarrow> shipRun sk pb pm tenant c (s', sh)"
| ship: "shipRun sk pb pm tenant c (s, sh) \<Longrightarrow> Append pb pm evs s = (s', err) \<Longrightarrow> \<forall>ev \<in> set evs. wire_event ev \<Longrightarrow>
    unat (s_seq s) + length evs < 2 ^ 64 \<Longrightarrow> Ship sk pb pm ctx tenant s s' sh = (sh', r) \<Longrightarrow>
    shipRun sk pb pm tenant c (s', sh')"
| other: "shipRun sk pb pm tenant c (s, sh) \<Longrightarrow> component_ok i \<Longrightarrow> i \<noteq> tenant \<Longrightarrow> Ship sk pb pm ctx i src0 src sh = (sh', r) \<Longrightarrow>
    shipRun sk pb pm tenant c (s, sh')"
| restart: "shipRun sk pb pm tenant c (s, sh) \<Longrightarrow> shipRun sk pb pm tenant c (s, NewShipper (sh_sink sh))"

text \<open>Every record of the log has its place: no number is missing and none is zero.\<close>

definition dense :: "'d Store \<Rightarrow> (64 word \<times> Event) list \<Rightarrow> bool" where
  "dense s L = (unat (s_seq s) = length L \<and> (\<forall>n ev. (n, ev) \<in> set L \<longrightarrow> 0 < n))"

section \<open>Logs and ranges\<close>

lemma inRange_append [simp]: "inRange f t (L @ L') = inRange f t L @ inRange f t L'"
  by (simp add: inRange_def)

lemma inRange_above: "\<forall>n ev. (n, ev) \<in> set L \<longrightarrow> t < n \<Longrightarrow> inRange f t L = []"
  by (auto simp: inRange_def filter_empty_conv)

lemma inRange_all: "\<forall>n ev. (n, ev) \<in> set L \<longrightarrow> f < n \<and> n \<le> t \<Longrightarrow> inRange f t L = map snd L"
  by (induction L) (auto simp: inRange_def)

lemma inRange_split:
  assumes "sorted_wrt (<) (map fst L)" and "f \<le> m" and "m \<le> t"
  shows "inRange f m L @ inRange m t L = inRange f t L"
  using assms(1)
proof (induction L)
  case (Cons r L)
  obtain n ev where r: "r = (n, ev)" by (cases r)
  have IH: "inRange f m L @ inRange m t L = inRange f t L" using Cons by simp
  have "inRange f m L = []" if "m < n" using Cons.prems that by (intro inRange_above) (auto simp: r)
  with IH assms(2,3) show ?case by (auto simp: inRange_def r)
qed (simp add: inRange_def)

context shipping
begin

lemma append_dense:
  assumes a: "Append pb pm evs s = (s', err)" and L: "stored pm (contents (s_db s)) (s_seq s) L" and d: "dense s L"
    and room: "unat (s_seq s) + length evs < 2 ^ 64" and w: "\<forall>ev \<in> set evs. wire_event ev"
  obtains M where "stored pm (contents (s_db s')) (s_seq s') (L @ M)" and "dense s' (L @ M)"
    and "\<forall>n ev. (n, ev) \<in> set M \<longrightarrow> s_seq s < n" and "s_seq s \<le> s_seq s'"
proof (cases err)
  case None
  have wp: "\<forall>ev \<in> set evs. wire_event ev \<and> proper ev"
    using w validated_proper [OF appended_valid [OF a [unfolded None]]] by auto
  note A = append_counts [OF a [unfolded None] L room wp]
  have above: "\<forall>n ev. (n, ev) \<in> set (numbered (s_seq s) (map (stampCommit (s_seq s + 1)) evs)) \<longrightarrow> s_seq s < n"
    using numbered_above room by (metis length_map)
  show thesis
  proof (rule that)
    show "dense s' (L @ numbered (s_seq s) (map (stampCommit (s_seq s + 1)) evs))"
      using A d above by (auto simp: dense_def) (metis word_gt_0 word_not_simps(1))
  qed (use A above in \<open>auto simp: word_le_nat_alt\<close>)
next
  case (Some e)
  with append_failed a have "s' = s" by simp
  with L d show thesis by (intro that [of "[]"]) simp_all
qed

lemma ship_other:
  assumes g: "good (sh_sink sh)" and i: "component_ok i" "i \<noteq> tenant" and ship: "Ship sk pb pm ctx i src0 src sh = (sh', r)"
  shows "good (sh_sink sh') \<and> (\<forall>n. isSegment tenant n \<longrightarrow> objects (sh_sink sh') n = objects (sh_sink sh) n) \<and>
    map_of (sh_cursor sh') tenant = map_of (sh_cursor sh) tenant"
proof -
  obtain sh1 q where ls: "lastShipped sk ctx i sh = (sh1, q)" by (cases "lastShipped sk ctx i sh")
  obtain k1 q1 where l: "sk_List sk ctx (i @ ''/'') (sh_sink sh) = (k1, q1)" by (cases "sk_List sk ctx (i @ ''/'') (sh_sink sh)")
  have one: "good (sh_sink sh1) \<and> objects (sh_sink sh1) = objects (sh_sink sh) \<and> map_of (sh_cursor sh1) tenant = map_of (sh_cursor sh) tenant"
    using ls list_same [OF g l] g i(2) by (auto simp: lastShipped_def segments_def l split: option.splits sum.splits prod.splits)
  have foreign: "\<not> isSegment tenant (segmentName i f t)" for f t
  proof
    assume "isSegment tenant (segmentName i f t)"
    then obtain u where "i @ CHR ''/'' # (hex16 f @ ''-'' @ hex16 t @ segExt) = tenant @ CHR ''/'' # u"
      by (auto simp: isSegment_def has_prefix_iff segmentName_def)
    with i tenant_ok show False by (auto simp: append_eq_prefix_free component_ok_def)
  qed
  have "good (sh_sink sh') \<and> (\<forall>n. isSegment tenant n \<longrightarrow> objects (sh_sink sh') n = objects (sh_sink sh1) n) \<and>
      map_of (sh_cursor sh') tenant = map_of (sh_cursor sh1) tenant"
    if s: "shipSegment sk pm ctx i f t evs sh1 = (sh', r)" for f t evs
  proof (cases "encodeSegment pm 0 evs")
    case (Inl err)
    with s one show ?thesis by (auto simp: shipSegment_def)
  next
    case (Inr seg)
    obtain k e where p: "sk_Put sk ctx (segmentName i f t) seg (sh_sink sh1) = (k, e)"
      by (cases "sk_Put sk ctx (segmentName i f t) seg (sh_sink sh1)")
    have "good k" "objects k = objects (sh_sink sh1) \<or> objects k = (objects (sh_sink sh1))(segmentName i f t \<mapsto> seg)"
      using put_good [OF _ names_ok [OF i(1)] p] put_done [OF _ names_ok [OF i(1)]] put_failed [OF _ names_ok [OF i(1)]] p one
      by (cases e; blast)+
    with s Inr p foreign i(2) show ?thesis by (auto simp: shipSegment_def split: option.splits)
  qed
  with ship ls one show ?thesis by (auto simp: Ship_def Let_def split: sum.splits prod.splits if_splits)
qed

definition in_step :: "'d Store \<Rightarrow> 'k Shipper \<Rightarrow> segment list \<Rightarrow> (64 word \<times> Event) list \<Rightarrow> bool" where
  "in_step s sh segs L =
     (good (sh_sink sh) \<and> shippedAs pm (objects (sh_sink sh)) tenant segs \<and> cursor_ok tenant sh segs \<and>
      stored pm (contents (s_db s)) (s_seq s) L \<and> dense s L \<and> endOf 0 segs \<le> s_seq s \<and> segEvents segs = inRange 0 (endOf 0 segs) L)"

lemma append_in_step:
  assumes i: "in_step s sh segs L" and a: "Append pb pm evs s = (s', err)" "\<forall>ev \<in> set evs. wire_event ev" "unat (s_seq s) + length evs < 2 ^ 64"
  shows "\<exists>M. in_step s' sh segs (L @ M) \<and> (\<forall>n ev. (n, ev) \<in> set M \<longrightarrow> s_seq s < n)"
proof -
  have L: "stored pm (contents (s_db s)) (s_seq s) L" "dense s L" using i by (simp_all add: in_step_def)
  obtain M where M: "stored pm (contents (s_db s')) (s_seq s') (L @ M)" "dense s' (L @ M)"
    "\<forall>n ev. (n, ev) \<in> set M \<longrightarrow> s_seq s < n" "s_seq s \<le> s_seq s'"
    using append_dense [OF a(1) L a(3,2)] by blast
  then have "inRange 0 (endOf 0 segs) M = []" using i by (intro inRange_above) (force simp: in_step_def)
  with i M show ?thesis by (intro exI [of _ M]) (auto simp: in_step_def)
qed

lemma ship_in_step:
  assumes i: "in_step s' sh segs (L @ M)" and M: "\<forall>n ev. (n, ev) \<in> set M \<longrightarrow> s_seq s < n" and le: "s_seq s \<le> s_seq s'"
    and ship: "Ship sk pb pm ctx tenant s s' sh = (sh', r)"
  shows "\<exists>segs'. in_step s' sh' segs' (L @ M) \<and> (\<forall>m. r = Inr m \<longrightarrow> segEvents segs' = inRange 0 (s_seq s) (L @ M) \<or> s_seq s \<le> endOf 0 segs')"
proof -
  have st: "good (sh_sink sh)" "shippedAs pm (objects (sh_sink sh)) tenant segs" "cursor_ok tenant sh segs"
    "stored pm (contents (s_db s')) (s_seq s') (L @ M)" using i by (simp_all add: in_step_def)
  have srt: "sorted_wrt (<) (map fst (L @ M))" using st(4) by (simp add: stored_def logged_def)
  have ev: "segEvents segs = inRange 0 (endOf 0 segs) (L @ M)" using i by (simp add: in_step_def)
  show ?thesis using st ship
  proof (cases rule: ship_step)
    case same
    have ev': "segEvents segs = inRange 0 (s_seq s) (L @ M)" if "inRange (endOf 0 segs) (s_seq s) (L @ M) = []" "endOf 0 segs < s_seq s"
      using inRange_split [OF srt, of 0 "endOf 0 segs" "s_seq s"] that ev by simp
    have "segEvents segs = inRange 0 (s_seq s) (L @ M) \<or> s_seq s \<le> endOf 0 segs" if "r = Inr m" for m
      using same(4) [OF that] ev' unfolding Sequence_def by (metis not_le)
    moreover have "in_step s' sh' segs (L @ M)" using same(1-3) i by (simp add: in_step_def)
    ultimately show ?thesis by blast
  next
    case more
    let ?segs = "segs @ [(endOf 0 segs, Sequence s, inRange (endOf 0 segs) (Sequence s) (L @ M))]"
    have "segEvents ?segs = inRange 0 (s_seq s) (L @ M)"
      using inRange_split [OF srt, of 0 "endOf 0 segs" "s_seq s"] more(4) ev by (simp add: segEvents_def Sequence_def)
    with more i le show ?thesis by (intro exI [of _ ?segs]) (auto simp: in_step_def Sequence_def)
  qed
qed

lemma other_in_step:
  assumes i: "in_step s sh segs L" and j: "component_ok j" "j \<noteq> tenant" and ship: "Ship sk pb pm ctx j src0 src sh = (sh', r)"
  shows "in_step s sh' segs L"
proof -
  have "good (sh_sink sh)" using i by (simp add: in_step_def)
  from ship_other [OF this j ship] have o: "good (sh_sink sh')" "\<And>n. isSegment tenant n \<Longrightarrow> objects (sh_sink sh') n = objects (sh_sink sh) n"
    "map_of (sh_cursor sh') tenant = map_of (sh_cursor sh) tenant" by blast+
  moreover have "shippedAs pm (objects (sh_sink sh')) tenant segs"
    using i o(2) unfolding in_step_def shippedAs_def by (metis (no_types, lifting) isSegment_name)
  ultimately show ?thesis using i by (simp add: in_step_def cursor_ok_def)
qed

lemma run_in_step:
  assumes "shipRun sk pb pm tenant c (s, sh)" and "in_step (fst c) (snd c) segs0 L0"
  shows "\<exists>segs L. in_step s sh segs L"
  using assms
proof (induction "(s, sh)" arbitrary: s sh rule: shipRun.induct)
  case start
  then show ?case by (metis fst_conv snd_conv)
next
  case (append s sh evs s' err)
  then show ?case using append_in_step by metis
next
  case (ship s sh evs s' err ctx sh' r)
  then obtain segs L where i: "in_step s sh segs L" by blast
  from append_in_step [OF i ship.hyps(3-5)] obtain M where "in_step s' sh segs (L @ M)" "\<forall>n ev. (n, ev) \<in> set M \<longrightarrow> s_seq s < n" by blast
  moreover have "s_seq s \<le> s_seq s'" using append_dense [OF ship.hyps(3) _ _ ship.hyps(5,4)] i unfolding in_step_def by metis
  ultimately show ?case using ship_in_step [OF _ _ _ ship.hyps(6)] by blast
next
  case (other s sh i ctx src0 src sh' r)
  then show ?case using other_in_step by metis
next
  case (restart s sh)
  then show ?case by (fastforce simp: in_step_def NewShipper_def cursor_ok_def)
qed

text \<open>A shipment that reports success leaves the whole log in the sink.\<close>

lemma shipped_whole:
  assumes i: "in_step s sh segs L" and ship: "Ship sk pb pm ctx tenant s s sh = (sh', Inr m)"
  shows "\<exists>segs'. in_step s sh' segs' L \<and> segEvents segs' = map snd L"
proof -
  from ship_in_step [of s sh segs L "[]" s ctx sh' "Inr m"] i ship
  obtain segs' where i': "in_step s sh' segs' L" and or: "segEvents segs' = inRange 0 (s_seq s) L \<or> s_seq s \<le> endOf 0 segs'" by auto
  have "inRange 0 (s_seq s) L = map snd L"
    using i' by (intro inRange_all) (auto simp: in_step_def dense_def stored_def sequenced_def)
  moreover have "segEvents segs' = inRange 0 (s_seq s) L"
    using or i' by (auto simp: in_step_def dest: order_antisym)
  ultimately show ?thesis using i' by auto
qed

lemma recovered:
  assumes run: "shipRun sk pb pm tenant (s0, NewShipper k0) (s, sh)"
    and L0: "stored pm (contents (s_db s0)) (s_seq s0) L0" "dense s0 L0" and k0: "good k0" "\<forall>n. objects k0 n \<noteq> None \<longrightarrow> \<not> isSegment tenant n"
    and ship: "Ship sk pb pm ctx tenant s s sh = (sh', Inr m)"
    and d: "contents d = Map.empty" and r: "restoreTenantLog sk pb pm tenant d sh' = (sh'', Inr s')"
  shows "\<exists>L L'. stored pm (contents (s_db s)) (s_seq s) L \<and> stored pm (contents (s_db s')) (s_seq s') L' \<and> s_seq s' = s_seq s \<and>
    map (stampCommit 0 \<circ> snd) L' = map (stampCommit 0 \<circ> snd) L \<and> replayLog L' = replayLog L"
proof -
  have "in_step s0 (NewShipper k0) [] L0"
    using L0 k0 by (auto simp: in_step_def shippedAs_def cursor_ok_def NewShipper_def segEvents_def inRange_def filter_empty_conv)
  then have "in_step (fst (s0, NewShipper k0)) (snd (s0, NewShipper k0)) [] L0" by simp
  from run_in_step [OF run this] obtain segs L where i: "in_step s sh segs L" by blast
  obtain segs' where i': "in_step s sh' segs' L" and ev: "segEvents segs' = map snd L" using shipped_whole [OF i ship] by blast
  have L: "stored pm (contents (s_db s)) (s_seq s) L" "unat (s_seq s) = length L" and g: "good (sh_sink sh')"
    "shippedAs pm (objects (sh_sink sh')) tenant segs'" using i' by (auto simp: in_step_def dense_def)
  have "unat (s_seq s) < 2 ^ 64" using unsigned_less [of "s_seq s"] by simp
  then have "length (segEvents segs') < 2 ^ 64" by (simp add: L(2) ev)
  from restore_log [OF g this d r] obtain L' where L': "stored pm (contents (s_db s')) (s_seq s') L'" "unat (s_seq s') = length L'"
    and eq: "map (stampCommit 0 \<circ> snd) L' = map (stampCommit 0 \<circ> snd) L" unfolding ev by auto
  have "spec_replay (map (stampCommit 0) (map snd L')) emptyTopology = spec_replay (map (stampCommit 0) (map snd L)) emptyTopology"
    using eq by simp
  then have "replayLog L' = replayLog L" by (simp only: spec_replay_stamp replayLog_def)
  moreover have "length L' = length L" using arg_cong [OF eq, of length] by simp
  then have "s_seq s' = s_seq s" using L(2) L'(2) by (metis word_unat_eq_iff)
  ultimately show ?thesis using L(1) L'(1) eq by blast
qed

text \<open>When the database and the sink answer, a shipment and a replay return.\<close>

lemma ship_returns:
  assumes i: "in_step s sh segs L" and it: "\<And>lo hi. \<exists>rows. pb_iter pb (s_db s) lo hi = Inr (rows, None)"
    and ls: "\<And>p. \<exists>k ns. sk_List sk ctx p (sh_sink sh) = (k, Inr ns) \<and> (\<forall>f t d. \<exists>k'. sk_Put sk ctx (segmentName tenant f t) d k = (k', None))"
    and cur: "map_of (sh_cursor sh) tenant = None" and m: "\<And>n ev. (n, ev) \<in> set L \<Longrightarrow> \<exists>b. pm_marshal pm (eventToProto ev) = Inr b"
  shows "\<exists>sh' m. Ship sk pb pm ctx tenant s s sh = (sh', Inr m)"
proof -
  obtain k ns where l: "sk_List sk ctx (tenant @ ''/'') (sh_sink sh) = (k, Inr ns)" 
    and put: "\<And>f t d. \<exists>k'. sk_Put sk ctx (segmentName tenant f t) d k = (k', None)"
    using ls by blast
  obtain sh1 v where lst: "lastShipped sk ctx tenant sh = (sh1, Inr v)" and k1: "sh_sink sh1 = k"
    using cur l by (auto simp: lastShipped_def segments_def)
  obtain rows where rows: "pb_iter pb (s_db s) (primaryKey (v + 1)) (prefixUpperBound primaryPrefix) = Inr (rows, None)" using it by blast
  obtain events err where sc: "ScanFromKeep pb pm v (shipEvent (Sequence s)) s [] = (events, err)" by force
  have st: "logged pm (contents (s_db s)) L" using i by (simp add: in_step_def stored_def)
  have enc: "\<exists>seg. encodeSegment pm j evs = Inr seg" if "set evs \<subseteq> snd ` set L" for j evs
    using that
  proof (induction evs arbitrary: j)
    case (Cons ev evs)
    then obtain n where "(n, ev) \<in> set L" by auto
    with m obtain b where "pm_marshal pm (eventToProto ev) = Inr b" by blast
    moreover obtain seg where "encodeSegment pm (Suc j) evs = Inr seg" using Cons by (metis insert_subset list.simps(15))
    ultimately show ?case by simp
  qed simp
  show ?thesis
  proof (cases "Sequence s \<le> v")
    case True
    with lst show ?thesis by (simp add: Ship_def Let_def)
  next
    case False
    then have nowrap: "v + 1 \<noteq> 0" by (intro succ_neq_0 [of v "Sequence s"]) simp
    have R: "rows = map (\<lambda>(n, ev). (primaryKey n, the (contents (s_db s) (primaryKey n)))) (filter (\<lambda>(n, ev). v < n) L)"
      by (rule rows_range [OF st after_range [OF st nowrap] rows])
    have "err = None \<or> err = Some errStop"
    proof -
      let ?L = "filter (\<lambda>(n, ev). v < n) L"
      have dec: "\<And>n ev. (n, ev) \<in> set ?L \<Longrightarrow> decodeRow pm (primaryKey n, the (contents (s_db s) (primaryKey n))) = Inr (n, ev)"
        using row_decode [OF st] by auto
      have srt: "sorted_wrt (<) (map fst ?L)" using st by (simp add: logged_def sorted_wrt_map sorted_wrt_filter)
      obtain evs e where f: "forRowsKeep (\<lambda>row a. case decodeRow pm row of Inl err \<Rightarrow> (a, Some err) | Inr (seq, ev) \<Rightarrow> shipEvent (Sequence s) seq ev a)
          rows [] = (evs, e)" by force
      then have "forRowsKeep (\<lambda>row a. case decodeRow pm row of Inl err \<Rightarrow> (a, Some err) | Inr (seq, ev) \<Rightarrow> shipEvent (Sequence s) seq ev a)
          (take (length rows) (map (\<lambda>(n, ev). (primaryKey n, the (contents (s_db s) (primaryKey n)))) ?L)) [] = (evs, e)"
        using R by simp
      from collect_range [OF dec srt this] f rows sc show ?thesis by (auto simp: ScanFromKeep_def split: option.splits)
    qed
    moreover from scan_range_events [OF st nowrap sc this] have "set events \<subseteq> snd ` set L" by (auto simp: inRange_def)
    then obtain seg where "encodeSegment pm 0 events = Inr seg" using enc by blast
    moreover obtain k' where "sk_Put sk ctx (segmentName tenant v (Sequence s)) seg k = (k', None)" using put by blast
    ultimately show ?thesis using False lst sc k1 by (auto simp: Ship_def Let_def shipSegment_def)
  qed
qed

lemma replay_returns:
  assumes "linked n segs" and "good k"
    and "\<forall>seg \<in> set segs. \<exists>data. objects k (nameOf tenant seg) = Some data \<and> decodeSegment pm data [] = Inr (snd (snd seg))"
    and get: "\<And>k n. good k \<Longrightarrow> name_ok n \<Longrightarrow> objects k n \<noteq> None \<Longrightarrow> \<exists>k' d. sk_Get sk ctx n k = (k', Inr d)"
    and "applyEach apply (segEvents segs) a = (a', None)"
  shows "\<exists>k'. replaySegments sk pm ctx apply (map (nameOf tenant) segs) n k a = (k', a', None)"
  using assms(1-3,5)
proof (induction segs arbitrary: n k a)
  case (Cons seg segs)
  obtain f t evs where seg: "seg = (f, t, evs)" by (cases seg)
  obtain data where o: "objects k (nameOf tenant seg) = Some data" "decodeSegment pm data [] = Inr evs"
    using Cons.prems(3) by (auto simp: seg)
  have ok: "name_ok (nameOf tenant seg)" using segment_ok by (simp add: seg nameOf_def)
  obtain k1 d where g: "sk_Get sk ctx (nameOf tenant seg) k = (k1, Inr d)" using get [OF Cons.prems(2) ok] o(1) by auto
  have d: "d = data" using read_law [OF Cons.prems(2) ok g] o(1) by simp
  have same: "good k1 \<and> objects k1 = objects k" by (rule get_same [OF Cons.prems(2) g])
  have "segEvents (seg # segs) = evs @ segEvents segs" by (simp add: segEvents_def seg)
  then obtain a1 where a: "applyEach apply evs a = (a1, None)" "applyEach apply (segEvents segs) a1 = (a', None)"
    using Cons.prems(4) by (auto simp: applyEach_append split: prod.splits option.splits)
  have n: "f = n" "linked t segs" using Cons.prems(1) by (simp_all add: seg)
  have "\<forall>seg \<in> set segs. \<exists>data. objects k1 (nameOf tenant seg) = Some data \<and> decodeSegment pm data [] = Inr (snd (snd seg))"
    using Cons.prems(3) same by simp
  from Cons.IH [OF n(2) _ this a(2)] same
  obtain k' where "replaySegments sk pm ctx apply (map (nameOf tenant) segs) t k1 a1 = (k', a', None)" by blast
  with n g d o(2) a(1) show ?case by (simp add: seg)
qed (simp add: segEvents_def)

lemma replay_whole:
  assumes g: "good (sh_sink sh)" and s: "shippedAs pm (objects (sh_sink sh)) tenant segs"
    and get: "\<And>k n. good k \<Longrightarrow> name_ok n \<Longrightarrow> objects k n \<noteq> None \<Longrightarrow> \<exists>k' d. sk_Get sk ctx n k = (k', Inr d)"
    and ls: "\<exists>k ns. sk_List sk ctx (tenant @ ''/'') (sh_sink sh) = (k, Inr ns)"
    and a: "applyEach apply (segEvents segs) a = (a', None)"
  shows "\<exists>sh'. ReplayLog sk pm ctx tenant apply sh a = (sh', a', None)"
proof -
  obtain k names where sg: "segments sk ctx tenant (sh_sink sh) = (k, Inr names)" using ls by (auto simp: segments_def)
  have lk: "linked 0 segs" using s by (simp add: shippedAs_def)
  have names: "sort_key segmentFrom names = map (nameOf tenant) segs"
    using sort_by_from [OF lk] segments_listed [OF g s sg] by blast
  have k: "good k" "objects k = objects (sh_sink sh)" using segments_same [OF g sg] by simp_all
  have "\<forall>seg \<in> set segs. \<exists>data. objects k (nameOf tenant seg) = Some data \<and> decodeSegment pm data [] = Inr (snd (snd seg))"
    using s unfolding k shippedAs_def by blast
  from replay_returns [OF lk k(1) this get a] sg names show ?thesis by (auto simp: ReplayLog_def)
qed

end

text \<open>
  C3. Log shipping is a backup.  Take a node that appends to a tenant's log and ships it to an object store, through
  failed appends, failed or ambiguous uploads, restarts that lose the cached cursor, appends that race the
  export and shipments of other tenants; once a shipment reports success, restoring the tenant into an empty
  directory, if it succeeds, yields a log with the same records in the same order under the same sequence, the
  commit stamp apart, which replays to the same topology.  Retention does not run in between.
\<close>

theorem shipped_log_restores:
  assumes "shipping sk objects sink_good name_ok pb contents pm tenant"
    and "stored pm (contents (s_db s0)) (s_seq s0) L0" and "dense s0 L0"
    and "sink_good k0" and "\<forall>n. objects k0 n \<noteq> None \<longrightarrow> \<not> isSegment tenant n"
    and "shipRun sk pb pm tenant (s0, NewShipper k0) (s, sh)"
    and "Ship sk pb pm ctx tenant s s sh = (sh', Inr m)"
    and "contents d = Map.empty" and "restoreTenantLog sk pb pm tenant d sh' = (sh'', Inr s')"
  shows "\<exists>L L'. stored pm (contents (s_db s)) (s_seq s) L \<and> stored pm (contents (s_db s')) (s_seq s') L' \<and> s_seq s' = s_seq s \<and>
    map (stampCommit 0 \<circ> snd) L' = map (stampCommit 0 \<circ> snd) L \<and> replayLog L' = replayLog L"
  by (rule shipping.recovered [OF assms(1) assms(6) assms(2-5) assms(7-9)])

text \<open>
  A restored log that had lost records to retention is not backed up any more.  Restoring numbers the
  records from one, so a chain with fewer records than its last sequence gives a log whose sequence is below
  the end of the chain; until new records have filled the difference a shipment to the same sink reports
  success and ships nothing, and the segments that come later start at the old end, after them.
\<close>

theorem restored_pruned_log_is_not_shipped:
  assumes laws: "shipping sk objects sink_good name_ok pb contents pm tenant"
    and sh: "sink_good (sh_sink sh)" "shippedAs pm (objects (sh_sink sh)) tenant segs" "cursor_ok tenant sh segs"
    and pruned: "length (segEvents segs) + length evs \<le> unat (endOf 0 segs)"
    and d: "contents d = Map.empty" and r: "restoreTenantLog sk pb pm tenant d sh = (sh1, Inr s)"
    and a: "Append pb pm evs s = (s', None)" and w: "\<forall>ev \<in> set evs. wire_event ev"
    and ship: "Ship sk pb pm ctx tenant s' s' sh = (sh', Inr m)"
  shows "m = 0 \<and> shippedAs pm (objects (sh_sink sh')) tenant segs"
proof -
  have bound: "unat (endOf 0 segs) < 2 ^ 64" using unsigned_less [of "endOf 0 segs"] by simp
  with pruned have "length (segEvents segs) < 2 ^ 64" by linarith
  from shipping.restore_log [OF laws sh(1,2) this d r] obtain L where L: "stored pm (contents (s_db s)) (s_seq s) L" "unat (s_seq s) = length L"
    and eq: "map (stampCommit 0 \<circ> snd) L = map (stampCommit 0) (segEvents segs)" by blast
  have len: "length L = length (segEvents segs)" using arg_cong [OF eq, of length] by simp
  have wp: "\<forall>ev \<in> set evs. wire_event ev \<and> proper ev" using w validated_proper [OF appended_valid [OF a]] by auto
  have room: "unat (s_seq s) + length evs < 2 ^ 64" using pruned len L(2) bound by linarith
  note A = shipping.append_counts [OF laws a L(1) room wp]
  then have below: "\<not> endOf 0 segs < Sequence s'" using pruned len L(2) by (simp add: Sequence_def word_less_nat_alt)
  show ?thesis
  proof (rule shipping.ship_step [OF laws sh _ ship])
    show "stored pm (contents (s_db s')) (s_seq s') (L @ numbered (s_seq s) (map (stampCommit (s_seq s + 1)) evs))" using A by blast
  qed (use below in auto)
qed

section \<open>Witnesses\<close>

definition fxFiles :: fileSys where
  "fxFiles = \<lparr>fs_files = [], fs_fault = (\<lambda>n. None), fs_calls = 0, fs_torn = 0\<rparr>"

text \<open>A tree of files whose calls do not fail.\<close>

definition calm :: "fileSys \<Rightarrow> bool" where
  "calm fs = (fileTree fs \<and> fs_fault fs = (\<lambda>n. None))"

definition fxDir :: path where "fxDir = [''srv'']"

lemma fault_same:
  "syscall fs = (fs', e) \<Longrightarrow> fs_fault fs' = fs_fault fs"
  "mkdirAll p fs = (fs', e) \<Longrightarrow> fs_fault fs' = fs_fault fs"
  "createTemp p t fs = (fs', r) \<Longrightarrow> fs_fault fs' = fs_fault fs"
  "writeFile p d fs = (fs', e) \<Longrightarrow> fs_fault fs' = fs_fault fs"
  "renameFile p q fs = (fs', e) \<Longrightarrow> fs_fault fs' = fs_fault fs"
  "fs_fault (removeFile p fs) = fs_fault fs"
  by (auto simp: syscall_def mkdirAll_def createTemp_def writeFile_def renameFile_def removeFile_def split: option.splits if_splits)

lemma fault_publish: "publish t p d fs = (fs', e) \<Longrightarrow> fs_fault fs' = fs_fault fs"
  by (simp add: publish_def split: prod.splits option.splits) (metis fault_same(1,4,5))+

lemma fault_put: "FilePut p ctx n d fs = (fs', e) \<Longrightarrow> fs_fault fs' = fs_fault fs"
  by (simp add: FilePut_def Let_def split: prod.splits option.splits sum.splits if_splits) (metis fault_same(2,3,6) fault_publish)+

lemma fault_get: "FileGet p ctx n fs = (fs', r) \<Longrightarrow> fs_fault fs' = fs_fault fs"
  by (auto simp: FileGet_def readFile_def syscall_def split: option.splits)

lemma fault_list: "FileList p ctx n fs = (fs', q) \<Longrightarrow> fs_fault fs' = fs_fault fs"
  by (auto simp: FileList_def syscall_def split: option.splits)

lemma fx_tree: "sink_laws (FileSink fxDir) (fileObjects fxDir) fileTree file_name"
  by (rule FileSink_laws) (simp add: fxDir_def component_ok_def)

lemma fx_sink: "sk_Put (FileSink fxDir) = FilePut fxDir" "sk_Get (FileSink fxDir) = FileGet fxDir" "sk_List (FileSink fxDir) = FileList fxDir"
  by (simp_all add: FileSink_def)

lemma fx_iter: "pb_iter memPebble d lo hi \<noteq> Inr (rows, Some e)"
  by (simp add: memPebble_def)

lemma fx_codec_small: "pm_marshal fxCodec p = Inr b \<Longrightarrow> length b < 2 ^ 32"
proof -
  have "length (takeWhile Q xs) \<le> length xs" for Q and xs :: "PbEvent list" by (rule length_takeWhile_le)
  moreover assume "pm_marshal fxCodec p = Inr b"
  ultimately have "length b \<le> 5" by (auto simp: fxCodec_def tableProto_def fxLife_def split: if_splits)
  then show "length b < 2 ^ 32" by simp
qed

interpretation fx_shipping: shipping "FileSink fxDir" "fileObjects fxDir" calm file_name memPebble map_of fxCodec "''acme''"
proof (intro shipping.intro shipping_axioms.intro)
  show "log_laws memPebble map_of fxCodec" by (rule fx_laws)
  show "sink_laws (FileSink fxDir) (fileObjects fxDir) calm file_name"
  proof (rule sink_laws.intro)
    fix k n ctx d k' err assume "calm k" "file_name n" "sk_Put (FileSink fxDir) ctx n d k = (k', err)"
    then show "calm k'" using sink_laws.put_good [OF fx_tree] fault_put by (fastforce simp: calm_def fx_sink)
  next
    fix k n ctx k' r assume "calm k" "sk_Get (FileSink fxDir) ctx n k = (k', r)"
    then show "calm k' \<and> fileObjects fxDir k' = fileObjects fxDir k"
      using sink_laws.get_same [OF fx_tree] fault_get by (fastforce simp: calm_def fx_sink)
  next
    fix k p ctx k' rs assume "calm k" "sk_List (FileSink fxDir) ctx p k = (k', rs)"
    then show "calm k' \<and> fileObjects fxDir k' = fileObjects fxDir k"
      using sink_laws.list_same [OF fx_tree] fault_list by (fastforce simp: calm_def fx_sink)
  qed (use sink_laws.put_done [OF fx_tree] sink_laws.put_failed [OF fx_tree] sink_laws.read_law [OF fx_tree]
      sink_laws.list_sorted [OF fx_tree] sink_laws.list_law [OF fx_tree] in \<open>auto simp: calm_def\<close>)
qed (use fx_iter fx_codec_small segment_file_name in \<open>auto simp: component_ok_def\<close>)

lemma fx_list: "calm fs \<Longrightarrow> FileList fxDir None p fs = (fs\<lparr>fs_calls := Suc (fs_calls fs)\<rparr>, Inr (sort (map (relName fxDir)
    (filter (\<lambda>q. below_path fxDir q \<and> \<not> has_prefix (last q) tempPrefix \<and> has_prefix (relName fxDir q) p) (gkeys (fs_files fs))))))"
  by (simp add: FileList_def syscall_def calm_def)

lemma fx_get: "calm fs \<Longrightarrow> file_name n \<Longrightarrow> fileObjects fxDir fs n \<noteq> None \<Longrightarrow> \<exists>fs' d. FileGet fxDir None n fs = (fs', Inr d)"
  by (auto simp: FileGet_def readFile_def syscall_def calm_def fileObjects_def path_join_ok file_name_def split: option.splits if_splits)

lemma fx_put:
  assumes "fs_files fs = []" and "fs_fault fs = (\<lambda>n. None)" and "file_name n"
  shows "\<exists>fs'. FilePut fxDir None n d fs = (fs', None)"
proof -
  let ?dst = "fxDir @ split_byte (CHR ''/'') n"
  have "path_join fxDir n = ?dst" using assms(3) by (intro path_join_ok) (simp add: file_name_def)
  moreover have "\<not> below_path ?dst (butlast ?dst @ [x])" for x by (simp add: below_path_def fxDir_def)
  ultimately show ?thesis using assms(1,2)
    by (simp add: FilePut_def mkdirAll_def createTemp_def publish_def writeFile_def renameFile_def removeFile_def syscall_def gkeys_def Let_def)
qed

lemma fx_keep:
  assumes "length evs < 1000" and "length batch + length evs < 1000"
  shows "applyEach (restoreEvent pb pm) evs (s, batch) = ((s, batch @ evs), None)"
  using assms by (induction evs arbitrary: batch) (simp_all add: restoreEvent_def batchSize_def)

lemma fx_four: "length fxLife = 4"
  by (simp add: fxLife_def)

lemma fx_marshal: "ev \<in> set (map (stampCommit 1) fxLife) \<Longrightarrow> \<exists>b. pm_marshal fxCodec (eventToProto ev) = Inr b"
  by (auto simp: fxCodec_def tableProto_def)

lemma fx_encode: "set evs \<subseteq> set (map (stampCommit 1) fxLife) \<Longrightarrow> \<exists>seg. encodeSegment fxCodec i evs = Inr seg"
proof (induction evs arbitrary: i)
  case (Cons ev evs)
  then obtain b where "pm_marshal fxCodec (eventToProto ev) = Inr b" using fx_marshal [of ev] by auto
  moreover obtain seg where "encodeSegment fxCodec (Suc i) evs = Inr seg" using Cons by (metis insert_subset list.simps(15))
  ultimately show ?case by simp
qed simp

definition fxLog :: "(64 word \<times> Event) list" where
  "fxLog = numbered 0 (map (stampCommit 1) fxLife)"

lemma fxLog_events: "map snd fxLog = map (stampCommit 1) fxLife"
  by (simp add: fxLog_def fx_shipping.snd_numbered)

lemma fx_dest: "\<exists>s. openStore memPebble [] (DefaultConfig\<lparr>cf_AcceptUnknownTypes := True\<rparr>) False = Inr s \<and> s_seq s = 0 \<and>
    s_cfg s = DefaultConfig\<lparr>cf_AcceptUnknownTypes := True\<rparr>"
  by (simp add: openStore_def checkFormat_def recoverSeq_def memPebble_def memStep_def meta_defs)

lemma fx_valid:
  assumes "cf_AcceptUnknownTypes cfg" and "ev \<in> set fxLife \<or> ev = baselineEvent ''b'' (fxRecord 4 EntityUnchanged 40) fxCutoff"
  shows "validateFor cfg (stampCommit c ev) = None" and "validateFor cfg ev = None" and "wire_event ev"
  using assms
  by (auto simp: fxLife_def validateFor_def ValidateShape_def validateEnvelope_def validateEntityEvent_def fxRecord_def stampCommit_def baselineEvent_def
      entityEvent_def zeroEntityEvent_def IsEntity_def commonEventChecks_def unixEpoch_def validateEntity_def validateKeyValues_def fx_known fxCutoff_def
      wire_event_def wire_entityEvent_def wire_time_def wire_source_def wire_change_def int64_ok_def)

lemma fx_restore:
  assumes c: "calm (sh_sink sh)" and s: "shippedAs fxCodec (fileObjects fxDir (sh_sink sh)) ''acme'' segs"
    and ev: "segEvents segs = map (stampCommit 1) fxLife"
  shows "\<exists>sh' s'. restoreTenantLog (FileSink fxDir) memPebble fxCodec ''acme'' [] sh = (sh', Inr s') \<and> s_seq s' = 4 \<and>
    cf_AcceptUnknownTypes (s_cfg s')"
proof -
  obtain s where op: "openStore memPebble [] (DefaultConfig\<lparr>cf_AcceptUnknownTypes := True\<rparr>) False = Inr s" "s_seq s = 0"
    "s_cfg s = DefaultConfig\<lparr>cf_AcceptUnknownTypes := True\<rparr>" using fx_dest by blast
  have each: "applyEach (restoreEvent memPebble fxCodec) (segEvents segs) (s, []) = ((s, segEvents segs), None)"
    by (subst fx_keep) (simp_all add: ev fxLife_def)
  have "\<exists>k ns. sk_List (FileSink fxDir) None (''acme'' @ ''/'') (sh_sink sh) = (k, Inr ns)"
    by (simp add: fx_sink fx_list [OF c])
  from fx_shipping.replay_whole [OF c s _ this each] fx_get
  obtain sh' where rp: "ReplayLog (FileSink fxDir) fxCodec None ''acme'' (restoreEvent memPebble fxCodec) sh (s, []) = (sh', (s, segEvents segs), None)"
    unfolding fx_sink by blast
  have "\<exists>s'. Append memPebble fxCodec (segEvents segs) s = (s', None)" unfolding fxCodec_def
    by (rule mem_append) (use fx_valid(1) [of "s_cfg s"] op in \<open>auto simp: ev fx_shipping.stamp_stamp\<close>)
  then obtain s' where a: "Append memPebble fxCodec (segEvents segs) s = (s', None)" by blast
  then have "restoreFlush memPebble fxCodec (s, segEvents segs) = ((s', []), None)"
    by (auto simp: restoreFlush_def ev fxLife_def Append_def)
  with op(1,2) rp have "restoreTenantLog (FileSink fxDir) memPebble fxCodec ''acme'' [] sh = (sh', Inr s')"
    by (simp add: restoreTenantLog_def Sequence_def)
  moreover have "length (segEvents segs) < 2 ^ 64" by (simp add: ev fx_four)
  from fx_shipping.restore_log [OF c s this map_of.simps(1) calculation] obtain L :: "(64 word \<times> Event) list" where "unat (s_seq s') = length L"
    "map (stampCommit 0 \<circ> snd) L = map (stampCommit 0) (segEvents segs)" by blast
  then have "unat (s_seq s') = length (segEvents segs)" by (metis length_map)
  then have "unat (s_seq s') = unat (4 :: 64 word)" by (simp add: ev fx_four)
  then have "s_seq s' = 4" by (simp only: word_unat_eq_iff)
  moreover have "s_cfg s' = s_cfg s" using a by (auto simp: Append_def split: if_splits sum.splits prod.splits)
  ultimately show ?thesis using op(3) by auto
qed

lemma fx_chain: "stored fxCodec (map_of (s_db fxStore)) (s_seq fxStore) fxLog" "dense fxStore fxLog"
proof -
  show "stored fxCodec (map_of (s_db fxStore)) (s_seq fxStore) fxLog" using fx_stored(1) by (simp add: fxLog_def)
  show "dense fxStore fxLog" by (simp add: dense_def fx_stored(2) fxLog_def fxLife_def)
qed

lemma fx_calm: "calm fxFiles" "\<forall>n. fileObjects fxDir fxFiles n \<noteq> None \<longrightarrow> \<not> isSegment ''acme'' n"
  by (simp_all add: calm_def fxFiles_def fileTree_def fileObjects_def gkeys_def)

lemma fx_ship: "\<exists>sh' m. Ship (FileSink fxDir) memPebble fxCodec None ''acme'' fxStore fxStore (NewShipper fxFiles) = (sh', Inr m)"
proof (rule fx_shipping.ship_returns)
  show "fx_shipping.in_step fxStore (NewShipper fxFiles) [] fxLog"
    using fx_chain fx_calm by (auto simp: fx_shipping.in_step_def shippedAs_def cursor_ok_def NewShipper_def segEvents_def inRange_def filter_empty_conv)
  show "\<exists>rows. pb_iter memPebble (s_db fxStore) lo hi = Inr (rows, None)" for lo hi by (simp add: memPebble_def)
  show "\<exists>k ns. sk_List (FileSink fxDir) None p (sh_sink (NewShipper fxFiles)) = (k, Inr ns) \<and>
      (\<forall>f t d. \<exists>k'. sk_Put (FileSink fxDir) None (segmentName ''acme'' f t) d k = (k', None))" for p
    using fx_put segment_file_name by (simp add: NewShipper_def fx_sink fx_list [OF fx_calm(1)]) (simp add: fxFiles_def component_ok_def)
  show "map_of (sh_cursor (NewShipper fxFiles)) ''acme'' = None" by (simp add: NewShipper_def)
  fix n ev assume "(n, ev) \<in> set fxLog"
  then have "ev \<in> set (map snd fxLog)" by force
  then show "\<exists>b. pm_marshal fxCodec (eventToProto ev) = Inr b" unfolding fxLog_events by (rule fx_marshal)
qed

theorem shipped_log_restores_witness:
  "\<exists>sh m sh' s'. Ship (FileSink fxDir) memPebble fxCodec None ''acme'' fxStore fxStore (NewShipper fxFiles) = (sh, Inr m) \<and>
     restoreTenantLog (FileSink fxDir) memPebble fxCodec ''acme'' [] sh = (sh', Inr s') \<and> s_seq s' = 4"
proof -
  obtain sh m where sh: "Ship (FileSink fxDir) memPebble fxCodec None ''acme'' fxStore fxStore (NewShipper fxFiles) = (sh, Inr m)"
    using fx_ship by blast
  have i: "fx_shipping.in_step fxStore (NewShipper fxFiles) [] fxLog"
    using fx_chain fx_calm by (auto simp: fx_shipping.in_step_def shippedAs_def cursor_ok_def NewShipper_def segEvents_def inRange_def filter_empty_conv)
  obtain segs where "fx_shipping.in_step fxStore sh segs fxLog" and ev: "segEvents segs = map snd fxLog"
    using fx_shipping.shipped_whole [OF i sh] by blast
  then have "calm (sh_sink sh)" "shippedAs fxCodec (fileObjects fxDir (sh_sink sh)) ''acme'' segs"
    by (simp_all add: fx_shipping.in_step_def)
  from fx_restore [OF this] obtain sh' s' where r: "restoreTenantLog (FileSink fxDir) memPebble fxCodec ''acme'' [] sh = (sh', Inr s')"
    unfolding ev fxLog_events by blast
  have run: "shipRun (FileSink fxDir) memPebble fxCodec ''acme'' (fxStore, NewShipper fxFiles) (fxStore, NewShipper fxFiles)" by (rule shipRun.start)
  have "s_seq s' = s_seq fxStore"
    using shipped_log_restores [OF fx_shipping.shipping_axioms fx_chain fx_calm run sh _ r] by auto
  with sh r fx_stored(2) show ?thesis by auto
qed

text \<open>A sink that holds the four records of a log whose sequence had reached nine.\<close>

definition fxPruned :: fileSys where
  "fxPruned = fxFiles\<lparr>fs_files := [(fxDir @ split_byte (CHR ''/'') (segmentName ''acme'' 0 9),
     case encodeSegment fxCodec 0 (map (stampCommit 1) fxLife) of Inr seg \<Rightarrow> seg | Inl _ \<Rightarrow> [])]\<rparr>"

lemma fx_pruned_chain:
  "calm fxPruned" "shippedAs fxCodec (fileObjects fxDir fxPruned) ''acme'' [(0, 9, map (stampCommit 1) fxLife)]"
proof -
  have acme: "component_ok ''acme''" by (simp add: component_ok_def)
  have fn: "file_name (segmentName ''acme'' 0 9)" by (rule segment_file_name [OF acme])
  then show "calm fxPruned"
    by (auto simp: calm_def fileTree_def fxPruned_def fxFiles_def gkeys_def file_name_def fxDir_def component_ok_def)
  obtain seg where seg: "encodeSegment fxCodec 0 (map (stampCommit 1) fxLife) = Inr seg" using fx_encode [OF order_refl] by blast
  have only: "fileObjects fxDir fxPruned = [segmentName ''acme'' 0 9 \<mapsto> seg]"
  proof
    fix n
    have "split_byte (CHR ''/'') n = split_byte (CHR ''/'') (segmentName ''acme'' 0 9) \<longleftrightarrow> n = segmentName ''acme'' 0 9" by (metis join_split)
    then show "fileObjects fxDir fxPruned n = [segmentName ''acme'' 0 9 \<mapsto> seg] n"
      using fn seg by (simp add: fileObjects_def fxPruned_def)
  qed
  have wp: "\<forall>ev \<in> set (map (stampCommit 1) fxLife). wire_event ev \<and> proper ev"
    using fx_chain(1) unfolding fxLog_events [symmetric] by (auto simp: stored_def)
  have "shippedAs fxCodec Map.empty ''acme'' []" by (simp add: shippedAs_def)
  from fx_shipping.shipped_snoc [OF this _ seg wp, of 9]
  show "shippedAs fxCodec (fileObjects fxDir fxPruned) ''acme'' [(0, 9, map (stampCommit 1) fxLife)]" by (simp add: only)
qed

theorem restored_pruned_log_is_not_shipped_witness:
  "\<exists>sh s s' sh'. restoreTenantLog (FileSink fxDir) memPebble fxCodec ''acme'' [] (NewShipper fxPruned) = (sh, Inr s) \<and>
     Append memPebble fxCodec [baselineEvent ''b'' (fxRecord 4 EntityUnchanged 40) fxCutoff] s = (s', None) \<and>
     Ship (FileSink fxDir) memPebble fxCodec None ''acme'' s' s' (NewShipper fxPruned) = (sh', Inr 0)"
proof -
  let ?b = "baselineEvent ''b'' (fxRecord 4 EntityUnchanged 40) fxCutoff"
  let ?segs = "[(0, 9, map (stampCommit 1) fxLife)] :: segment list"
  have c: "calm (sh_sink (NewShipper fxPruned))" "shippedAs fxCodec (fileObjects fxDir (sh_sink (NewShipper fxPruned))) ''acme'' ?segs"
    "cursor_ok ''acme'' (NewShipper fxPruned) ?segs" using fx_pruned_chain by (simp_all add: NewShipper_def cursor_ok_def)
  obtain sh s where r: "restoreTenantLog (FileSink fxDir) memPebble fxCodec ''acme'' [] (NewShipper fxPruned) = (sh, Inr s)" "s_seq s = 4"
    "cf_AcceptUnknownTypes (s_cfg s)" using fx_restore [OF c(1,2)] by (auto simp: segEvents_def)
  have "\<exists>s'. Append memPebble fxCodec [?b] s = (s', None)" unfolding fxCodec_def
    by (rule mem_append) (use fx_valid(2) [OF r(3)] r(2) in \<open>auto simp: fxCodec_def\<close>)
  then obtain s' where a: "Append memPebble fxCodec [?b] s = (s', None)" by blast
  have q: "s_seq s' = 5"
    using a r(2) by (auto simp: Append_def Let_def split: sum.splits option.splits)
  obtain k q where "lastShipped (FileSink fxDir) None ''acme'' (NewShipper fxPruned) = (k, Inr q)"
    by (auto simp: lastShipped_def NewShipper_def segments_def fx_sink fx_list [OF fx_pruned_chain(1)])
  moreover from fx_shipping.lastShipped_end(4) [OF c this, of q] have "q = 9" by simp
  ultimately have sh: "Ship (FileSink fxDir) memPebble fxCodec None ''acme'' s' s' (NewShipper fxPruned) = (k, Inr 0)"
    by (simp add: Ship_def Sequence_def q)
  have "\<forall>ev \<in> set [?b]. wire_event ev" using fx_valid(3) [OF r(3)] by simp
  from restored_pruned_log_is_not_shipped [OF fx_shipping.shipping_axioms c _ _ r(1) a this sh] sh r a show ?thesis
    by (auto simp: segEvents_def fxLife_def)
qed

end
