(* ===== verification/Annotations.thy ===== *)
theory Annotations
  imports Sink Store_Log
begin

text \<open>
  \<open>internal/annotations\<close>: the operators' notes on entities, a key-value database beside the event
  log (\<open>annotations.go\<close>), and its reconciliation with a shared object store (\<open>sync.go\<close>).

  The database is the pebble package, a parameter as for the event log; the object store is a
  \<open>Sink\<close>.  The JSON encoding of a row is a parameter too: what the code relies on is that a row
  decodes to what was encoded.
\<close>

section \<open>Rows\<close>

record Annotation =
  an_Values :: "(string, string) gomap"
  an_Author :: string
  an_UpdatedAt :: time

definition zeroAnnotation :: Annotation where
  "zeroAnnotation = \<lparr>an_Values = [], an_Author = [], an_UpdatedAt = 0\<rparr>"

record json =
  js_marshal :: "Annotation \<Rightarrow> string + string"
  js_unmarshal :: "string \<Rightarrow> string + Annotation"

datatype AnnErr =
    AnnRead string
  | AnnDecode string string
  | AnnEncode string string
  | AnnWrite string
  | AnnIterOpen string
  | AnnIter string
  | SharedList string
  | SharedRead string
  | SharedDecode string string
  | SharedPush string

section \<open>The store\<close>

definition rawGet :: "'d pebble \<Rightarrow> json \<Rightarrow> string \<Rightarrow> 'd \<Rightarrow> AnnErr + Annotation option" where
  "rawGet pb js i d =
     (case pb_get pb d i of
        Inl err \<Rightarrow> Inl (AnnRead err)
      | Inr None \<Rightarrow> Inr None
      | Inr (Some v) \<Rightarrow> (case js_unmarshal js v of Inl err \<Rightarrow> Inl (AnnDecode i err) | Inr a \<Rightarrow> Inr (Some a)))"

definition an_Get :: "'d pebble \<Rightarrow> json \<Rightarrow> string \<Rightarrow> 'd \<Rightarrow> AnnErr + Annotation option" where
  "an_Get pb js i d =
     (case pb_get pb d i of
        Inl err \<Rightarrow> Inl (AnnRead err)
      | Inr None \<Rightarrow> Inr None
      | Inr (Some v) \<Rightarrow>
          (case js_unmarshal js v of
             Inl err \<Rightarrow> Inl (AnnDecode i err)
           | Inr a \<Rightarrow> Inr (if an_Values a = [] then None else Some a)))"

definition an_Apply :: "'d pebble \<Rightarrow> json \<Rightarrow> string \<Rightarrow> Annotation \<Rightarrow> 'd \<Rightarrow> 'd \<times> AnnErr option" where
  "an_Apply pb js i a d =
     (case js_marshal js a of
        Inl err \<Rightarrow> (d, Some (AnnEncode i err))
      | Inr blob \<Rightarrow> (case pb_commit pb d [KvSet i blob] of Inl err \<Rightarrow> (d, Some (AnnWrite err)) | Inr d \<Rightarrow> (d, None)))"

definition mergeValue :: "string \<times> string \<Rightarrow> (string, string) gomap \<Rightarrow> (string, string) gomap" where
  "mergeValue kv m = (if snd kv = [] then gdel (fst kv) m else gput (fst kv) (snd kv) m)"

definition an_Set :: "'d pebble \<Rightarrow> json \<Rightarrow> string \<Rightarrow> (string, string) gomap \<Rightarrow> string \<Rightarrow> time \<Rightarrow> 'd
    \<Rightarrow> 'd \<times> (AnnErr + Annotation)" where
  "an_Set pb js i values author now d =
     (case an_Get pb js i d of
        Inl err \<Rightarrow> (d, Inl err)
      | Inr r \<Rightarrow>
          let cur = (case r of Some a \<Rightarrow> a | None \<Rightarrow> zeroAnnotation);
              cur = cur\<lparr>an_Values := fold mergeValue values (an_Values cur), an_Author := author, an_UpdatedAt := now\<rparr>
          in case an_Apply pb js i cur d of
               (d, Some err) \<Rightarrow> (d, Inl err)
             | (d, None) \<Rightarrow> (d, Inr cur))"

definition migrate :: "'d pebble \<Rightarrow> json \<Rightarrow> string \<Rightarrow> string \<Rightarrow> Annotation \<Rightarrow> 'd \<Rightarrow> 'd \<times> AnnErr option" where
  "migrate pb js key legacyKey a d =
     (case js_marshal js a of
        Inl err \<Rightarrow> (d, Some (AnnEncode key err))
      | Inr blob \<Rightarrow>
          (case pb_commit pb d [KvSet key blob] of
             Inl err \<Rightarrow> (d, Some (AnnWrite err))
           | Inr d \<Rightarrow>
               (case pb_commit pb d [KvDelete legacyKey] of
                  Inl err \<Rightarrow> (d, Some (AnnWrite err))
                | Inr d \<Rightarrow> (d, None))))"

definition GetAt :: "'d pebble \<Rightarrow> json \<Rightarrow> string \<Rightarrow> string \<Rightarrow> 'd \<Rightarrow> 'd \<times> (AnnErr + Annotation option)" where
  "GetAt pb js key legacyKey d =
     (case an_Get pb js key d of
        Inl err \<Rightarrow> (d, Inl err)
      | Inr r \<Rightarrow>
          if r \<noteq> None \<or> legacyKey = [] \<or> legacyKey = key then (d, Inr r)
          else case an_Get pb js legacyKey d of
                 Inl err \<Rightarrow> (d, Inl err)
               | Inr None \<Rightarrow> (d, Inr None)
               | Inr (Some old) \<Rightarrow> (fst (migrate pb js key legacyKey old d), Inr (Some old)))"

definition SetAt :: "'d pebble \<Rightarrow> json \<Rightarrow> string \<Rightarrow> string \<Rightarrow> (string, string) gomap \<Rightarrow> string \<Rightarrow> time \<Rightarrow> 'd
    \<Rightarrow> 'd \<times> (AnnErr + Annotation)" where
  "SetAt pb js key legacyKey values author now d =
     (if legacyKey \<noteq> [] \<and> legacyKey \<noteq> key
      then case GetAt pb js key legacyKey d of
             (d, Inl err) \<Rightarrow> (d, Inl err)
           | (d, Inr _) \<Rightarrow> an_Set pb js key values author now d
      else an_Set pb js key values author now d)"

fun scanRows :: "json \<Rightarrow> (string \<Rightarrow> Annotation \<Rightarrow> 'a \<Rightarrow> 'a \<times> AnnErr option) \<Rightarrow> (string \<times> string) list \<Rightarrow> 'a \<Rightarrow> 'a \<times> AnnErr option" where
  "scanRows js fn [] x = (x, None)"
| "scanRows js fn ((k, v) # rows) x =
     (case js_unmarshal js v of
        Inl err \<Rightarrow> (x, Some (AnnDecode k err))
      | Inr a \<Rightarrow> (case fn k a x of (x, Some err) \<Rightarrow> (x, Some err) | (x, None) \<Rightarrow> scanRows js fn rows x))"

definition an_Scan :: "'d pebble \<Rightarrow> json \<Rightarrow> (string \<Rightarrow> Annotation \<Rightarrow> 'a \<Rightarrow> 'a \<times> AnnErr option) \<Rightarrow> 'd \<Rightarrow> 'a \<Rightarrow> 'a \<times> AnnErr option" where
  "an_Scan pb js fn d x =
     (case pb_iter pb d [] None of
        Inl err \<Rightarrow> (x, Some (AnnIterOpen err))
      | Inr (rows, ierr) \<Rightarrow>
          (case scanRows js fn rows x of
             (x, Some err) \<Rightarrow> (x, Some err)
           | (x, None) \<Rightarrow> (x, map_option AnnIter ierr)))"

definition an_Count :: "'d pebble \<Rightarrow> json \<Rightarrow> 'd \<Rightarrow> AnnErr + nat" where
  "an_Count pb js d =
     (case an_Scan pb js (\<lambda>_ _ n. (Suc n, None)) d 0 of (n, Some err) \<Rightarrow> Inl err | (n, None) \<Rightarrow> Inr n)"

definition an_Delete :: "'d pebble \<Rightarrow> string \<Rightarrow> 'd \<Rightarrow> 'd \<times> AnnErr option" where
  "an_Delete pb i d = (case pb_commit pb d [KvDelete i] of Inl err \<Rightarrow> (d, Some (AnnWrite err)) | Inr d \<Rightarrow> (d, None))"

section \<open>Sync\<close>

definition annExt :: string where "annExt = ''.ann''"

definition nameFor :: "string \<Rightarrow> string \<Rightarrow> string" where
  "nameFor prefix key = prefix @ ''/'' @ hex_encode key @ annExt"

definition keyFromName :: "string \<Rightarrow> string \<Rightarrow> string option" where
  "keyFromName prefix name =
     (let rest = trim_suffix (trim_prefix name (prefix @ ''/'')) annExt
      in if rest = name \<or> contains_byte rest (CHR ''/'') then None else hex_decode rest)"

text \<open>What a pass carries: the database, the shared store, the rows seen there and the two counts.\<close>

record ('d, 'k) syncState =
  sy_db :: 'd
  sy_remote :: 'k
  sy_seen :: "(string, Annotation) gomap"
  sy_pushed :: nat
  sy_pulled :: nat

definition pullRow :: "'d pebble \<Rightarrow> json \<Rightarrow> string \<Rightarrow> Annotation \<Rightarrow> ('d, 'k) syncState \<Rightarrow> ('d, 'k) syncState \<times> AnnErr option" where
  "pullRow pb js key ra s =
     (let s = s\<lparr>sy_seen := gput key ra (sy_seen s)\<rparr>
      in case rawGet pb js key (sy_db s) of
           Inl err \<Rightarrow> (s, Some err)
         | Inr la \<Rightarrow>
             if (case la of None \<Rightarrow> True | Some la \<Rightarrow> an_UpdatedAt ra > an_UpdatedAt la)
             then (case an_Apply pb js key ra (sy_db s) of
                     (d, Some err) \<Rightarrow> (s\<lparr>sy_db := d\<rparr>, Some err)
                   | (d, None) \<Rightarrow> (s\<lparr>sy_db := d, sy_pulled := Suc (sy_pulled s)\<rparr>, None))
             else (s, None))"

fun pullAll :: "'d pebble \<Rightarrow> json \<Rightarrow> 'k Sink \<Rightarrow> ctx \<Rightarrow> string \<Rightarrow> string list \<Rightarrow> ('d, 'k) syncState \<Rightarrow> ('d, 'k) syncState \<times> AnnErr option" where
  "pullAll pb js sk ctx prefix [] s = (s, None)"
| "pullAll pb js sk ctx prefix (name # names) s =
     (case keyFromName prefix name of
        None \<Rightarrow> pullAll pb js sk ctx prefix names s
      | Some key \<Rightarrow>
          (case sk_Get sk ctx name (sy_remote s) of
             (k, Inl err) \<Rightarrow> (s\<lparr>sy_remote := k\<rparr>, Some (SharedRead err))
           | (k, Inr blob) \<Rightarrow>
               (case js_unmarshal js blob of
                  Inl err \<Rightarrow> (s\<lparr>sy_remote := k\<rparr>, Some (SharedDecode name err))
                | Inr ra \<Rightarrow>
                    (case pullRow pb js key ra (s\<lparr>sy_remote := k\<rparr>) of
                       (s, Some err) \<Rightarrow> (s, Some err)
                     | (s, None) \<Rightarrow> pullAll pb js sk ctx prefix names s))))"

definition pushRow :: "json \<Rightarrow> 'k Sink \<Rightarrow> ctx \<Rightarrow> string \<Rightarrow> string \<Rightarrow> Annotation \<Rightarrow> ('d, 'k) syncState \<Rightarrow> ('d, 'k) syncState \<times> AnnErr option" where
  "pushRow js sk ctx prefix key la s =
     (if (case map_of (sy_seen s) key of Some ra \<Rightarrow> \<not> an_UpdatedAt la > an_UpdatedAt ra | None \<Rightarrow> False) then (s, None)
      else case js_marshal js la of
             Inl err \<Rightarrow> (s, Some (AnnEncode key err))
           | Inr blob \<Rightarrow>
               (case sk_Put sk ctx (nameFor prefix key) blob (sy_remote s) of
                  (k, Some err) \<Rightarrow> (s\<lparr>sy_remote := k\<rparr>, Some (SharedPush err))
                | (k, None) \<Rightarrow> (s\<lparr>sy_remote := k, sy_pushed := Suc (sy_pushed s)\<rparr>, None)))"

definition SyncOnce :: "'d pebble \<Rightarrow> json \<Rightarrow> 'k Sink \<Rightarrow> ctx \<Rightarrow> string \<Rightarrow> 'd \<Rightarrow> 'k \<Rightarrow> ('d, 'k) syncState \<times> AnnErr option" where
  "SyncOnce pb js sk ctx prefix d k =
     (let s = \<lparr>sy_db = d, sy_remote = k, sy_seen = [], sy_pushed = 0, sy_pulled = 0\<rparr>
      in case sk_List sk ctx prefix k of
           (k, Inl err) \<Rightarrow> (s\<lparr>sy_remote := k\<rparr>, Some (SharedList err))
         | (k, Inr names) \<Rightarrow>
             (case pullAll pb js sk ctx prefix names (s\<lparr>sy_remote := k\<rparr>) of
                (s, Some err) \<Rightarrow> (s, Some err)
              | (s, None) \<Rightarrow> an_Scan pb js (pushRow js sk ctx prefix) (sy_db s) s))"

end
