(* ===== verification/Annotations_Laws.thy ===== *)
theory Annotations_Laws
  imports Annotations Sink_Laws Store_Laws
begin

text \<open>
  Last writer wins: what a pass of the annotation sync makes of the two sides, as a join of maps
  from keys to rows (\<open>lww\<close>), and the operations of the store on the rows they touch.
\<close>

section \<open>The specification\<close>

definition lww :: "(string \<rightharpoonup> Annotation) \<Rightarrow> (string \<rightharpoonup> Annotation) \<Rightarrow> (string \<rightharpoonup> Annotation)" where
  "lww A B = (\<lambda>k. case A k of
     None \<Rightarrow> B k
   | Some a \<Rightarrow> (case B k of None \<Rightarrow> Some a | Some b \<Rightarrow> if an_UpdatedAt b > an_UpdatedAt a then Some b else Some a))"

text \<open>The rows of a database or an object store that decode.\<close>

definition rowsOf :: "json \<Rightarrow> (string \<rightharpoonup> string) \<Rightarrow> (string \<rightharpoonup> Annotation)" where
  "rowsOf js C = (\<lambda>k. case C k of None \<Rightarrow> None | Some v \<Rightarrow> (case js_unmarshal js v of Inl _ \<Rightarrow> None | Inr a \<Rightarrow> Some a))"

definition sharedRows :: "json \<Rightarrow> string \<Rightarrow> (string \<rightharpoonup> string) \<Rightarrow> (string \<rightharpoonup> Annotation)" where
  "sharedRows js prefix C = (\<lambda>key. rowsOf js C (nameFor prefix key))"

text \<open>No object under the prefix spells a key in another way than \<open>nameFor\<close>.\<close>

definition canonicalNames :: "string \<Rightarrow> (string \<rightharpoonup> string) \<Rightarrow> bool" where
  "canonicalNames prefix C = (\<forall>n key. C n \<noteq> None \<longrightarrow> has_prefix n prefix \<longrightarrow> keyFromName prefix n = Some key \<longrightarrow> n = nameFor prefix key)"

text \<open>Rows of one key that carry the same time are the same row.\<close>

definition no_ties :: "(string \<rightharpoonup> Annotation) \<Rightarrow> (string \<rightharpoonup> Annotation) \<Rightarrow> bool" where
  "no_ties A B = (\<forall>k a b. A k = Some a \<longrightarrow> B k = Some b \<longrightarrow> an_UpdatedAt a = an_UpdatedAt b \<longrightarrow> a = b)"

lemma lww_at: "A k = A' k \<Longrightarrow> B k = B' k \<Longrightarrow> lww A B k = lww A' B' k"
  unfolding lww_def by (simp only:)

lemma lww_commute: "no_ties A B \<Longrightarrow> lww A B = lww B A"
  by (rule ext) (force simp: lww_def no_ties_def split: option.splits)

lemma lww_assoc: "lww (lww A B) C = lww A (lww B C)"
  by (rule ext) (auto simp: lww_def split: option.splits)

lemma lww_idem: "lww A A = A"
  by (rule ext) (simp add: lww_def split: option.splits)

lemma lww_absorb: "lww R (lww L R) = lww R L"
  by (rule ext) (auto simp: lww_def split: option.splits)

lemma lww_again: "lww (lww A B) B = lww A B"
  by (rule ext) (auto simp: lww_def split: option.splits)

section \<open>Names\<close>

lemma hex_encode_no_slash [simp]: "CHR ''/'' \<notin> set (hex_encode key)"
  using hex_encode_set [of key] by auto

lemma keyFromName_nameFor [simp]: "keyFromName prefix (nameFor prefix key) = Some key"
proof -
  have n: "nameFor prefix key = (prefix @ ''/'') @ (hex_encode key @ annExt)" by (simp add: nameFor_def)
  have "hex_encode key \<noteq> nameFor prefix key" 
  proof
    assume "hex_encode key = nameFor prefix key"
    from arg_cong [OF this, of length] show False by (simp add: nameFor_def annExt_def)
  qed
  moreover have "trim_suffix (trim_prefix (nameFor prefix key) (prefix @ ''/'')) annExt = hex_encode key"
    unfolding n trim_prefix_append trim_suffix_append ..
  ultimately show ?thesis by (simp add: keyFromName_def Let_def contains_byte_def)
qed

lemma nameFor_inject [simp]: "nameFor prefix key = nameFor prefix key' \<longleftrightarrow> key = key'"
  by (metis keyFromName_nameFor option.inject)

lemma nameFor_prefix [simp]: "has_prefix (nameFor prefix key) prefix"
  by (simp add: nameFor_def)

section \<open>The laws\<close>

locale annotating =
  sink_laws sk objects good name_ok +
  pebble_laws pb contents
  for sk :: "'k Sink" and objects :: "'k \<Rightarrow> string \<rightharpoonup> string" and good :: "'k \<Rightarrow> bool" and name_ok :: "string \<Rightarrow> bool"
    and pb :: "'d pebble" and contents :: "'d \<Rightarrow> string \<rightharpoonup> string" +
  fixes js :: json and prefix :: string
  assumes codec: "js_unmarshal js b = Inr a \<Longrightarrow> js_marshal js a = Inr b' \<Longrightarrow> js_unmarshal js b' = Inr a"
    and listed_ok: "objects k n \<noteq> None \<Longrightarrow> name_ok n"
    and shared_ok: "name_ok (nameFor prefix key)"
begin

abbreviation localRows :: "'d \<Rightarrow> string \<rightharpoonup> Annotation" where
  "localRows d \<equiv> rowsOf js (contents d)"

abbreviation remoteRows :: "'k \<Rightarrow> string \<rightharpoonup> Annotation" where
  "remoteRows k \<equiv> sharedRows js prefix (objects k)"

lemma rawGet_rows: "rawGet pb js i d = Inr r \<Longrightarrow> r = localRows d i"
  using get_law [of d i] by (auto simp: rawGet_def rowsOf_def split: sum.splits option.splits)

lemma apply_rows:
  assumes "an_Apply pb js i a d = (d', None)" and "js_unmarshal js b = Inr a"
  shows "localRows d' = (localRows d)(i \<mapsto> a)"
  using assms codec [OF assms(2)] commit_law
  by (auto simp: an_Apply_def rowsOf_def fun_eq_iff kvApply_def kvStep_def split: sum.splits)

lemma pullRow_rows:
  assumes p: "pullRow pb js key ra s = (s', None)" and dec: "js_unmarshal js b = Inr ra"
  shows "localRows (sy_db s') = (localRows (sy_db s))(key := lww (localRows (sy_db s)) [key \<mapsto> ra] key) \<and>
    sy_remote s' = sy_remote s \<and> map_of (sy_seen s') = (map_of (sy_seen s))(key \<mapsto> ra)"
proof -
  obtain la where la: "rawGet pb js key (sy_db s) = Inr la" using p by (auto simp: pullRow_def Let_def split: sum.splits)
  have l: "la = localRows (sy_db s) key" by (rule rawGet_rows [OF la])
  show ?thesis
  proof (cases "case la of None \<Rightarrow> True | Some la \<Rightarrow> an_UpdatedAt ra > an_UpdatedAt la")
    case True
    then obtain d where a: "an_Apply pb js key ra (sy_db s) = (d, None)" and s': "sy_db s' = d" "sy_remote s' = sy_remote s"
      "sy_seen s' = gput key ra (sy_seen s)" using p la by (auto simp: pullRow_def Let_def split: prod.splits option.splits)
    have "lww (localRows (sy_db s)) [key \<mapsto> ra] key = Some ra" using True l by (auto simp: lww_def split: option.splits)
    with apply_rows [OF a dec] s' show ?thesis by simp
  next
    case False
    then have "lww (localRows (sy_db s)) [key \<mapsto> ra] key = localRows (sy_db s) key" using l by (auto simp: lww_def split: option.splits)
    with False p la show ?thesis by (auto simp: pullRow_def Let_def)
  qed
qed

lemma pullAll_rows:
  assumes "pullAll pb js sk ctx prefix names s = (s', None)" and "good (sy_remote s)"
    and "\<forall>n \<in> set names. \<forall>key. keyFromName prefix n = Some key \<longrightarrow> n = nameFor prefix key" and "\<forall>n \<in> set names. name_ok n"
  shows "good (sy_remote s') \<and> objects (sy_remote s') = objects (sy_remote s) \<and>
    localRows (sy_db s') = (\<lambda>key. if nameFor prefix key \<in> set names then lww (localRows (sy_db s)) (remoteRows (sy_remote s)) key
      else localRows (sy_db s) key) \<and>
    map_of (sy_seen s') = (\<lambda>key. if nameFor prefix key \<in> set names then remoteRows (sy_remote s) key else map_of (sy_seen s) key) \<and>
    (\<forall>key. nameFor prefix key \<in> set names \<longrightarrow> remoteRows (sy_remote s) key \<noteq> None)"
  using assms
proof (induction names arbitrary: s)
  case (Cons n names)
  have tl: "\<forall>n \<in> set names. \<forall>key. keyFromName prefix n = Some key \<longrightarrow> n = nameFor prefix key" "\<forall>n \<in> set names. name_ok n"
    using Cons.prems(3,4) by simp_all
  show ?case
  proof (cases "keyFromName prefix n")
    case None
    then have "nameFor prefix key \<noteq> n" for key by (metis keyFromName_nameFor option.distinct(1))
    then have mem: "nameFor prefix key \<in> set (n # names) \<longleftrightarrow> nameFor prefix key \<in> set names" for key by auto
    have "pullAll pb js sk ctx prefix names s = (s', None)" using None Cons.prems(1) by simp
    from Cons.IH [OF this Cons.prems(2) tl] show ?thesis unfolding mem .
  next
    case (Some key)
    then have n: "n = nameFor prefix key" using Cons.prems(3) by simp
    obtain k q where g: "sk_Get sk ctx n (sy_remote s) = (k, q)" by (cases "sk_Get sk ctx n (sy_remote s)")
    have same: "good k" "objects k = objects (sy_remote s)" using get_same [OF Cons.prems(2) g] by simp_all
    obtain blob ra s1 where q: "q = Inr blob" and dec: "js_unmarshal js blob = Inr ra"
      and pr: "pullRow pb js key ra (s\<lparr>sy_remote := k\<rparr>) = (s1, None)" and rest: "pullAll pb js sk ctx prefix names s1 = (s', None)"
      using Cons.prems(1) Some g by (auto split: sum.splits prod.splits option.splits)
    have "objects (sy_remote s) n = Some blob" using read_law [OF Cons.prems(2)] Cons.prems(4) g q by simp
    then have R: "remoteRows (sy_remote s) key = Some ra" by (simp add: sharedRows_def rowsOf_def n dec)
    note P = pullRow_rows [OF pr dec]
    have s1: "sy_remote s1 = k" using P by simp
    have RR: "remoteRows (sy_remote s1) = remoteRows (sy_remote s)" by (simp add: s1 same(2) sharedRows_def)
    have L1: "localRows (sy_db s1) = (localRows (sy_db s))(key := lww (localRows (sy_db s)) (remoteRows (sy_remote s)) key)"
    proof -
      have "lww (localRows (sy_db s)) [key \<mapsto> ra] key = lww (localRows (sy_db s)) (remoteRows (sy_remote s)) key"
        by (rule lww_at) (simp_all add: R)
      with P show ?thesis by simp
    qed
    have again: "lww (localRows (sy_db s1)) (remoteRows (sy_remote s)) key' = lww (localRows (sy_db s)) (remoteRows (sy_remote s)) key'" for key'
      unfolding L1 by (auto simp: lww_def split: option.splits)
    have "good (sy_remote s1)" using s1 same by simp
    from Cons.IH [OF rest this tl] have IH: "good (sy_remote s')" "objects (sy_remote s') = objects (sy_remote s1)"
      "localRows (sy_db s') = (\<lambda>key'. if nameFor prefix key' \<in> set names then lww (localRows (sy_db s1)) (remoteRows (sy_remote s)) key'
        else localRows (sy_db s1) key')"
      "map_of (sy_seen s') = (\<lambda>key'. if nameFor prefix key' \<in> set names then remoteRows (sy_remote s) key' else map_of (sy_seen s1) key')"
      "\<forall>key'. nameFor prefix key' \<in> set names \<longrightarrow> remoteRows (sy_remote s) key' \<noteq> None" unfolding RR by blast+
    have mem: "nameFor prefix key' \<in> set (n # names) \<longleftrightarrow> key' = key \<or> nameFor prefix key' \<in> set names" for key' by (auto simp: n)
    show ?thesis unfolding mem
    proof (intro conjI)
      show "objects (sy_remote s') = objects (sy_remote s)" using IH(2) s1 same by simp
      show "localRows (sy_db s') = (\<lambda>key'. if key' = key \<or> nameFor prefix key' \<in> set names
          then lww (localRows (sy_db s)) (remoteRows (sy_remote s)) key' else localRows (sy_db s) key')"
        unfolding IH(3) again by (simp add: L1 fun_eq_iff)
      show "map_of (sy_seen s') = (\<lambda>key'. if key' = key \<or> nameFor prefix key' \<in> set names
          then remoteRows (sy_remote s) key' else map_of (sy_seen s) key')"
        unfolding IH(4) using P R by (simp add: fun_eq_iff)
    qed (use IH(1,5) R in auto)
  qed
qed simp

lemma put_shared:
  assumes "sk_Put sk ctx (nameFor prefix key) blob k = (k', None)" and "good k" and "js_unmarshal js blob = Inr la"
  shows "good k'" and "remoteRows k' = (remoteRows k)(key \<mapsto> la)"
    and "canonicalNames prefix (objects k) \<Longrightarrow> canonicalNames prefix (objects k')"
proof -
  have o: "objects k' = (objects k)(nameFor prefix key \<mapsto> blob)" by (rule put_done [OF assms(2) shared_ok assms(1)])
  show "good k'" by (rule put_good [OF assms(2) shared_ok assms(1)])
  show "remoteRows k' = (remoteRows k)(key \<mapsto> la)" unfolding o by (auto simp: sharedRows_def rowsOf_def assms(3) fun_eq_iff)
  show "canonicalNames prefix (objects k')" if "canonicalNames prefix (objects k)"
    using that unfolding o canonicalNames_def by (metis fun_upd_apply keyFromName_nameFor option.inject)
qed

lemma pushRow_rows:
  assumes p: "pushRow js sk ctx prefix key la s = (s', None)" and g: "good (sy_remote s)" and dec: "js_unmarshal js b = Inr la"
    and seen: "map_of (sy_seen s) key = remoteRows (sy_remote s) key"
  shows "good (sy_remote s') \<and> remoteRows (sy_remote s') = (remoteRows (sy_remote s))(key := lww (remoteRows (sy_remote s)) [key \<mapsto> la] key) \<and>
    sy_seen s' = sy_seen s \<and> sy_db s' = sy_db s \<and> (canonicalNames prefix (objects (sy_remote s)) \<longrightarrow> canonicalNames prefix (objects (sy_remote s')))"
proof (cases "case map_of (sy_seen s) key of Some ra \<Rightarrow> \<not> an_UpdatedAt la > an_UpdatedAt ra | None \<Rightarrow> False")
  case True
  then have "lww (remoteRows (sy_remote s)) [key \<mapsto> la] key = remoteRows (sy_remote s) key"
    unfolding seen by (auto simp: lww_def split: option.splits)
  with True p g show ?thesis by (auto simp: pushRow_def)
next
  case False
  then obtain blob k where m: "js_marshal js la = Inr blob" and put: "sk_Put sk ctx (nameFor prefix key) blob (sy_remote s) = (k, None)"
    and s': "s' = s\<lparr>sy_remote := k, sy_pushed := Suc (sy_pushed s)\<rparr>" using p by (auto simp: pushRow_def split: sum.splits prod.splits option.splits)
  have "lww (remoteRows (sy_remote s)) [key \<mapsto> la] key = Some la"
    using False unfolding seen by (auto simp: lww_def split: option.splits)
  with put_shared [OF put g codec [OF dec m]] s' show ?thesis by simp
qed

lemma pushAll_rows:
  assumes "scanRows js (pushRow js sk ctx prefix) rows s = (s', None)" and "good (sy_remote s)" and "distinct (map fst rows)"
    and "\<forall>key \<in> fst ` set rows. map_of (sy_seen s) key = remoteRows (sy_remote s) key"
  shows "good (sy_remote s') \<and> remoteRows (sy_remote s') = (\<lambda>key. if key \<in> fst ` set rows then lww (remoteRows (sy_remote s)) (rowsOf js (map_of rows)) key
      else remoteRows (sy_remote s) key) \<and> sy_db s' = sy_db s \<and> (\<forall>key \<in> fst ` set rows. rowsOf js (map_of rows) key \<noteq> None) \<and>
    (canonicalNames prefix (objects (sy_remote s)) \<longrightarrow> canonicalNames prefix (objects (sy_remote s')))"
  using assms
proof (induction rows arbitrary: s)
  case (Cons row rows)
  obtain key v where row: "row = (key, v)" by (cases row)
  obtain la s1 where dec: "js_unmarshal js v = Inr la" and p: "pushRow js sk ctx prefix key la s = (s1, None)"
    and rest: "scanRows js (pushRow js sk ctx prefix) rows s1 = (s', None)"
    using Cons.prems(1) by (auto simp: row split: sum.splits prod.splits option.splits)
  have fresh: "key \<notin> fst ` set rows" "distinct (map fst rows)" using Cons.prems(3) by (simp_all add: row)
  have "map_of (sy_seen s) key = remoteRows (sy_remote s) key" using Cons.prems(4) by (simp add: row)
  note P = pushRow_rows [OF p Cons.prems(2) dec this]
  have "\<forall>key' \<in> fst ` set rows. map_of (sy_seen s1) key' = remoteRows (sy_remote s1) key'"
    using P Cons.prems(4) fresh(1) by (auto simp: row)
  from Cons.IH [OF rest _ fresh(2) this] P have IH: "good (sy_remote s')"
    "remoteRows (sy_remote s') = (\<lambda>key'. if key' \<in> fst ` set rows then lww (remoteRows (sy_remote s1)) (rowsOf js (map_of rows)) key' else remoteRows (sy_remote s1) key')"
    "sy_db s' = sy_db s" "\<forall>key' \<in> fst ` set rows. rowsOf js (map_of rows) key' \<noteq> None"
    "canonicalNames prefix (objects (sy_remote s)) \<longrightarrow> canonicalNames prefix (objects (sy_remote s'))" by auto
  have R1: "remoteRows (sy_remote s1) = (remoteRows (sy_remote s))(key := lww (remoteRows (sy_remote s)) [key \<mapsto> la] key)" using P by blast
  have here: "rowsOf js (map_of (row # rows)) key = Some la" by (simp add: rowsOf_def row dec)
  have there: "rowsOf js (map_of (row # rows)) key' = rowsOf js (map_of rows) key'" if "key' \<noteq> key" for key'
    using that by (simp add: rowsOf_def row)
  show ?case
  proof (intro conjI)
    show "remoteRows (sy_remote s') = (\<lambda>key'. if key' \<in> fst ` set (row # rows)
        then lww (remoteRows (sy_remote s)) (rowsOf js (map_of (row # rows))) key' else remoteRows (sy_remote s) key')"
    proof
      fix key'
      show "remoteRows (sy_remote s') key' = (if key' \<in> fst ` set (row # rows)
          then lww (remoteRows (sy_remote s)) (rowsOf js (map_of (row # rows))) key' else remoteRows (sy_remote s) key')"
      proof (cases "key' = key")
        case True
        have "lww (remoteRows (sy_remote s)) [key \<mapsto> la] key = lww (remoteRows (sy_remote s)) (rowsOf js (map_of (row # rows))) key"
          by (rule lww_at) (simp_all add: here del: map_of.simps)
        with True fresh(1) show ?thesis unfolding IH(2) R1 by (simp add: row)
      next
        case False
        have "lww (remoteRows (sy_remote s1)) (rowsOf js (map_of rows)) key' = lww (remoteRows (sy_remote s)) (rowsOf js (map_of (row # rows))) key'"
          by (rule lww_at) (simp_all add: there [OF False] R1 False del: map_of.simps)
        with False show ?thesis unfolding IH(2) by (simp add: row R1)
      qed
    qed
    show "\<forall>key' \<in> fst ` set (row # rows). rowsOf js (map_of (row # rows)) key' \<noteq> None"
      using IH(4) here there by (metis (no_types, lifting) fst_conv image_iff insertE list.simps(15) option.distinct(1) row)
  qed (use IH(1,3,5) in auto)
qed simp

text \<open>A pass that reports no error joins the two sides.\<close>

lemma sync_rows:
  assumes g: "good k" and can: "canonicalNames prefix (objects k)" and sync: "SyncOnce pb js sk ctx prefix d k = (s, None)"
  shows "localRows (sy_db s) = lww (localRows d) (remoteRows k) \<and> remoteRows (sy_remote s) = lww (remoteRows k) (localRows d) \<and>
    good (sy_remote s) \<and> canonicalNames prefix (objects (sy_remote s))"
proof -
  let ?s = "\<lparr>sy_db = d, sy_remote = k, sy_seen = [], sy_pushed = 0, sy_pulled = 0\<rparr>"
  obtain k1 q where l: "sk_List sk ctx prefix k = (k1, q)" by (cases "sk_List sk ctx prefix k")
  obtain names s1 where q: "q = Inr names" and pull: "pullAll pb js sk ctx prefix names (?s\<lparr>sy_remote := k1\<rparr>) = (s1, None)"
    and push: "an_Scan pb js (pushRow js sk ctx prefix) (sy_db s1) s1 = (s, None)"
    using sync l by (auto simp: SyncOnce_def Let_def split: sum.splits prod.splits option.splits)
  have same: "good k1" "objects k1 = objects k" using list_same [OF g l] by simp_all
  have ls: "n \<in> set names \<longleftrightarrow> objects k n \<noteq> None \<and> has_prefix n prefix" for n using list_law [OF g] l q by simp
  have c: "\<forall>n \<in> set names. \<forall>key. keyFromName prefix n = Some key \<longrightarrow> n = nameFor prefix key" "\<forall>n \<in> set names. name_ok n"
    using can ls listed_ok unfolding canonicalNames_def by blast+
  have R: "remoteRows k1 = remoteRows k" by (simp add: same(2))
  have absent: "remoteRows k key = None" if "nameFor prefix key \<notin> set names" for key
    using that ls by (auto simp: sharedRows_def rowsOf_def)
  from pullAll_rows [OF pull _ c] same R have P: "good (sy_remote s1)" "objects (sy_remote s1) = objects k"
    "localRows (sy_db s1) = (\<lambda>key. if nameFor prefix key \<in> set names then lww (localRows d) (remoteRows k) key else localRows d key)"
    "map_of (sy_seen s1) = (\<lambda>key. if nameFor prefix key \<in> set names then remoteRows k key else None)" by auto
  have L: "localRows (sy_db s1) = lww (localRows d) (remoteRows k)"
    unfolding P(3) using absent by (auto simp: fun_eq_iff lww_def split: option.splits)
  have seen: "map_of (sy_seen s1) = remoteRows k" unfolding P(4) using absent by (auto simp: fun_eq_iff)
  have R1: "remoteRows (sy_remote s1) = remoteRows k" by (simp add: P(2))
  obtain rows where it: "pb_iter pb (sy_db s1) [] None = Inr (rows, None)" and sc: "scanRows js (pushRow js sk ctx prefix) rows s1 = (s, None)"
    using push by (auto simp: an_Scan_def split: sum.splits prod.splits option.splits)
  have dist: "distinct (map fst rows)" using iter_sorted [OF it] strict_sorted_iff by blast
  have "(key, v) \<in> set rows \<longleftrightarrow> contents (sy_db s1) key = Some v" for key v
    using iter_rows [OF it, of key v] by (simp add: below_def)
  with dist have m: "map_of rows = contents (sy_db s1)" by (metis (no_types, lifting) ext map_of_eq_Some_iff not_None_eq)
  from pushAll_rows [OF sc P(1) dist] seen R1 have Q: "good (sy_remote s)" "sy_db s = sy_db s1"
    "remoteRows (sy_remote s) = (\<lambda>key. if key \<in> fst ` set rows then lww (remoteRows k) (localRows (sy_db s1)) key else remoteRows k key)"
    "canonicalNames prefix (objects k) \<longrightarrow> canonicalNames prefix (objects (sy_remote s))" unfolding m P(2) by auto
  have out: "localRows (sy_db s1) key = None" if "key \<notin> fst ` set rows" for key
    using that m by (metis map_of_eq_None_iff option.simps(4) rowsOf_def)
  have "remoteRows (sy_remote s) = lww (remoteRows k) (localRows (sy_db s1))"
    unfolding Q(3) using out by (auto simp: fun_eq_iff lww_def split: option.splits)
  then have "remoteRows (sy_remote s) = lww (remoteRows k) (localRows d)" by (simp add: L lww_absorb)
  with L Q can show ?thesis by simp
qed

end

end
