(* ===== verification/Annotations_Theorems.thy ===== *)
theory Annotations_Theorems
  imports Annotations_Laws Store_Mem
begin

text \<open>
  The annotation store: nodes that share an object store converge, a removal that a node makes is
  seen by the others, and two ways in which a removed note lingers.
\<close>

section \<open>Definitions\<close>

text \<open>A row survives its encoding.\<close>

definition encodable :: "json \<Rightarrow> Annotation \<Rightarrow> bool" where
  "encodable js a = (\<forall>b. js_marshal js a = Inr b \<longrightarrow> js_unmarshal js b = Inr a)"

text \<open>An encoding over a table: a row is the unary number of its place.\<close>

definition tableJson :: "Annotation list \<Rightarrow> json" where
  "tableJson t =
     \<lparr>js_marshal = (\<lambda>a. if a \<in> set t then Inr (replicate (length (takeWhile (\<lambda>q. q \<noteq> a) t)) CHR ''x'') else Inl ''not in the table''),
      js_unmarshal = (\<lambda>b. if length b < length t then Inr (t ! length b) else Inl ''not in the table'')\<rparr>"

definition fxNote :: "string \<Rightarrow> time \<Rightarrow> Annotation" where
  "fxNote v t = \<lparr>an_Values = (if v = [] then [] else [(''owner'', v)]), an_Author = ''ops'', an_UpdatedAt = t\<rparr>"

definition fxNotes :: "Annotation list" where
  "fxNotes = [fxNote ''ann'' 10, fxNote ''bob'' 20, fxNote [] 30]"

definition fxShared :: fileSys where
  "fxShared = \<lparr>fs_files = [], fs_fault = (\<lambda>n. None), fs_calls = 0, fs_torn = 0\<rparr>"

definition fxPrefix :: string where "fxPrefix = ''annotations/acme''"

section \<open>Convergence\<close>

lemma no_ties_sym: "no_ties A B \<Longrightarrow> no_ties B A"
  unfolding no_ties_def by metis

lemma lww_absorb_right: "lww B A = lww A B \<Longrightarrow> lww (lww A B) A = lww A B"
  by (metis lww_assoc lww_idem)

lemma no_ties_lww: "no_ties A C \<Longrightarrow> no_ties B C \<Longrightarrow> no_ties (lww A B) C"
  by (auto simp: no_ties_def lww_def split: option.splits if_splits)

text \<open>
  C5. A pass of the annotation sync that reports no error is last-writer-wins in both directions: afterwards each
  side holds, for every key, the row with the later time of the two it started from, a row that only one side had,
  and its own row when the times are equal; removals are rows like any other.
\<close>

theorem sync_is_last_writer_wins:
  assumes "annotating sk objects sink_good name_ok pb contents js prefix" and "sink_good k" and "canonicalNames prefix (objects k)"
    and "SyncOnce pb js sk ctx prefix d k = (s, None)"
  shows "rowsOf js (contents (sy_db s)) = lww (rowsOf js (contents d)) (sharedRows js prefix (objects k)) \<and>
    sharedRows js prefix (objects (sy_remote s)) = lww (sharedRows js prefix (objects k)) (rowsOf js (contents d))"
  using annotating.sync_rows [OF assms] by blast

text \<open>
  C4. Nodes converge without talking to each other.  When one node syncs, then another, then the first again, and
  no error is reported, both nodes and the shared store hold the same rows, provided that two different rows of a
  key never carry the same time.
\<close>

theorem nodes_converge:
  assumes laws: "annotating sk objects sink_good name_ok pb contents js prefix" and k: "sink_good k" "canonicalNames prefix (objects k)"
    and a: "SyncOnce pb js sk ctx prefix da k = (s1, None)" and b: "SyncOnce pb js sk ctx' prefix db (sy_remote s1) = (s2, None)"
    and a': "SyncOnce pb js sk ctx'' prefix (sy_db s1) (sy_remote s2) = (s3, None)"
    and ties: "no_ties (rowsOf js (contents da)) (rowsOf js (contents db))" "no_ties (rowsOf js (contents da)) (sharedRows js prefix (objects k))"
      "no_ties (rowsOf js (contents db)) (sharedRows js prefix (objects k))"
  shows "rowsOf js (contents (sy_db s3)) = rowsOf js (contents (sy_db s2)) \<and>
    sharedRows js prefix (objects (sy_remote s3)) = rowsOf js (contents (sy_db s2))"
proof -
  let ?A = "rowsOf js (contents da)" and ?B = "rowsOf js (contents db)" and ?R = "sharedRows js prefix (objects k)"
  note S1 = annotating.sync_rows [OF laws k a]
  then have k1: "sink_good (sy_remote s1)" "canonicalNames prefix (objects (sy_remote s1))" by blast+
  note S2 = annotating.sync_rows [OF laws k1 b]
  then have k2: "sink_good (sy_remote s2)" "canonicalNames prefix (objects (sy_remote s2))" by blast+
  note S3 = annotating.sync_rows [OF laws k2 a']
  have ra: "lww ?R ?A = lww ?A ?R" by (rule lww_commute [OF no_ties_sym [OF ties(2)]])
  have b_ra: "no_ties ?B (lww ?A ?R)" by (rule no_ties_sym [OF no_ties_lww]) (use ties no_ties_sym in blast)+
  have both: "lww ?B (lww ?A ?R) = lww (lww ?A ?R) ?B" by (rule lww_commute [OF b_ra])
  have L2: "rowsOf js (contents (sy_db s2)) = lww (lww ?A ?R) ?B" using S1 S2 ra both by simp
  have R2: "sharedRows js prefix (objects (sy_remote s2)) = lww (lww ?A ?R) ?B" using S1 S2 ra by simp
  have L1: "rowsOf js (contents (sy_db s1)) = lww ?A ?R" using S1 by simp
  have "lww (lww ?A ?R) (lww (lww ?A ?R) ?B) = lww (lww ?A ?R) ?B" by (simp add: lww_assoc [symmetric] lww_idem)
  moreover have "lww (lww (lww ?A ?R) ?B) (lww ?A ?R) = lww (lww ?A ?R) ?B"
    by (rule lww_absorb_right [OF both])
  ultimately show ?thesis using S3 unfolding L1 L2 R2 by simp
qed

text \<open>
  A row that a migration deleted under its old key is pulled back by the next pass while the shared store still
  holds it, since a hard delete looks like a row that was never there.
\<close>

theorem migrated_row_is_pulled_back:
  assumes "annotating sk objects sink_good name_ok pb contents js prefix" and "sink_good k" and "canonicalNames prefix (objects k)"
    and "SyncOnce pb js sk ctx prefix d k = (s, None)"
    and gone: "rowsOf js (contents d) legacy = None" and shared: "sharedRows js prefix (objects k) legacy = Some old"
  shows "rowsOf js (contents (sy_db s)) legacy = Some old"
  using annotating.sync_rows [OF assms(1-4)] gone shared by (simp add: lww_def)

section \<open>Removed notes\<close>

context pebble_laws
begin

lemma an_Get_rows:
  assumes "an_Get pb js i d = Inr r"
  shows "r = (case rowsOf js (contents d) i of None \<Rightarrow> None | Some a \<Rightarrow> if an_Values a = [] then None else Some a)"
  using assms get_law [of d i] by (auto simp: an_Get_def rowsOf_def split: sum.splits option.splits if_splits)

lemma an_Set_rows:
  assumes s: "an_Set pb js i values author now d = (d', Inr a)" and e: "encodable js a"
  shows "contents d' = (contents d)(i := contents d' i) \<and> rowsOf js (contents d') i = Some a"
proof -
  obtain r where g: "an_Get pb js i d = Inr r" using s by (auto simp: an_Set_def split: sum.splits)
  obtain blob where m: "js_marshal js a = Inr blob" and c: "pb_commit pb d [KvSet i blob] = Inr d'"
    using s g by (auto simp: an_Set_def an_Apply_def Let_def split: sum.splits prod.splits option.splits)
  have "js_unmarshal js blob = Inr a" using e m by (simp add: encodable_def)
  moreover have "contents d' = (contents d)(i \<mapsto> blob)" using commit_law [OF c] by (simp add: kvApply_def kvStep_def)
  ultimately show ?thesis by (simp add: rowsOf_def)
qed

lemma returns_legacy:
  assumes g: "GetAt pb js key legacy d = (d', Inr r)" and k: "legacy \<noteq> []" "legacy \<noteq> key"
    and t: "rowsOf js (contents d) key = Some t" "an_Values t = []" and o: "rowsOf js (contents d) legacy = Some old" "an_Values old \<noteq> []"
  shows "r = Some old"
proof -
  obtain r1 where r1: "an_Get pb js key d = Inr r1" using g by (auto simp: GetAt_def split: sum.splits)
  then have "r1 = None" using an_Get_rows [OF r1] t by simp
  moreover obtain r2 where r2: "an_Get pb js legacy d = Inr r2" using g r1 k calculation by (auto simp: GetAt_def split: sum.splits)
  then have "r2 = Some old" using an_Get_rows [OF r2] o by simp
  ultimately show ?thesis using g r1 r2 k by (simp add: GetAt_def)
qed

end

text \<open>
  A removed note comes back.  When a migration stopped after it had written the row under the new key and before
  it had deleted the one under the old key, both rows are there, and the next read does not resolve the duplicate:
  removing the note leaves the old row, and the read after the removal returns it again.
\<close>

theorem removed_note_comes_back:
  assumes laws: "pebble_laws pb contents" and k: "legacy \<noteq> []" "legacy \<noteq> key"
    and both: "rowsOf js (contents d) key = Some cur" "an_Values cur \<noteq> []" "rowsOf js (contents d) legacy = Some old" "an_Values old \<noteq> []"
    and rm: "SetAt pb js key legacy values author now d = (d', Inr a)" "an_Values a = []" "encodable js a"
    and rd: "GetAt pb js key legacy d' = (d'', Inr r)"
  shows "r = Some old"
proof -
  obtain r0 where g0: "an_Get pb js key d = Inr r0" using rm(1) k by (auto simp: SetAt_def GetAt_def split: sum.splits)
  then have "r0 = Some cur" using pebble_laws.an_Get_rows [OF laws g0] both by simp
  with g0 have "GetAt pb js key legacy d = (d, Inr (Some cur))" by (simp add: GetAt_def)
  with rm(1) k have "an_Set pb js key values author now d = (d', Inr a)" by (simp add: SetAt_def)
  note S = pebble_laws.an_Set_rows [OF laws this rm(3)]
  then have "rowsOf js (contents d') legacy = Some old" using both(3) k(2) by (metis fun_upd_other rowsOf_def)
  with pebble_laws.returns_legacy [OF laws rd k] S rm(2) both(4) show ?thesis by blast
qed

text \<open>
  \<open>Count\<close> is the number of rows, those of removed notes included, while no read returns a removed note.
\<close>

lemma scan_counts: "scanRows js (\<lambda>_ _ n. (Suc n, None)) rows n = (m, None) \<Longrightarrow> m = n + length rows"
proof (induction rows arbitrary: n)
  case (Cons row rows)
  then have "scanRows js (\<lambda>_ _ n. (Suc n, None)) rows (Suc n) = (m, None)" by (cases row) (auto split: sum.splits)
  with Cons.IH show ?case by fastforce
qed simp

theorem removed_notes_are_counted:
  assumes "an_Count pb js d = Inr n" and "pb_iter pb d [] None = Inr (rows, None)"
  shows "n = length rows"
  using assms scan_counts [of js rows 0 n] by (auto simp: an_Count_def an_Scan_def split: prod.splits option.splits)

section \<open>Witnesses\<close>

lemma tableJson_law: "js_marshal (tableJson t) a = Inr b \<Longrightarrow> js_unmarshal (tableJson t) b = Inr a"
proof -
  assume m: "js_marshal (tableJson t) a = Inr b"
  then have a: "a \<in> set t" and b: "b = replicate (length (takeWhile (\<lambda>q. q \<noteq> a) t)) CHR ''x''"
    by (auto simp: tableJson_def split: if_splits)
  have "length (takeWhile (\<lambda>q. q \<noteq> a) t) < length t" using a by (induction t) auto
  moreover from nth_length_takeWhile [OF this] have "t ! length (takeWhile (\<lambda>q. q \<noteq> a) t) = a" by simp
  ultimately show ?thesis using b by (simp add: tableJson_def)
qed

interpretation fx_notes: annotating "FileSink [''srv'']" "fileObjects [''srv'']" fileTree file_name memPebble map_of "tableJson fxNotes" fxPrefix
proof (intro annotating.intro annotating_axioms.intro)
  show "sink_laws (FileSink [''srv'']) (fileObjects [''srv'']) fileTree file_name" by (rule FileSink_laws) (simp add: component_ok_def)
  show "pebble_laws memPebble map_of" by (rule mem.pebble_laws_axioms)
  show "file_name n" if "fileObjects [''srv''] fs n \<noteq> None" for fs n using that by (auto simp: fileObjects_def split: if_splits)
  show "file_name (nameFor fxPrefix key)" for key
  proof -
    have n: "nameFor fxPrefix key = ''annotations'' @ CHR ''/'' # ''acme'' @ CHR ''/'' # (hex_encode key @ annExt)" by (simp add: nameFor_def fxPrefix_def)
    have "CHR ''/'' \<notin> set (hex_encode key @ annExt)" by (simp add: annExt_def)
    then have "split_byte (CHR ''/'') (nameFor fxPrefix key) = [''annotations'', ''acme'', hex_encode key @ annExt]"
      unfolding n by (simp add: split_byte_append split_byte_none del: append.simps append_Cons)
    moreover have "component_ok (hex_encode key @ annExt)" by (simp add: component_ok_def annExt_def append_eq_Cons_conv Cons_eq_append_conv)
    moreover have "\<not> has_prefix (hex_encode key @ annExt) tempPrefix"
    proof (cases "hex_encode key")
      case (Cons c cs)
      then have "c \<in> set ''0123456789abcdef''" using hex_encode_set [of key] by auto
      with Cons show ?thesis by (auto simp: has_prefix_def tempPrefix_def)
    qed (simp add: has_prefix_def tempPrefix_def annExt_def)
    ultimately show ?thesis by (simp add: file_name_def) (simp add: component_ok_def)
  qed
qed (use tableJson_law in blast)

definition fxSync :: "rows \<Rightarrow> fileSys \<Rightarrow> (rows, fileSys) syncState" where
  "fxSync d fs = fst (SyncOnce memPebble (tableJson fxNotes) (FileSink [''srv'']) None fxPrefix d fs)"

text \<open>One node has the note, the other has removed it later.\<close>

definition fxA :: rows where "fxA = [(''k'', [])]"
definition fxB :: rows where "fxB = [(''k'', ''xx'')]"

definition fxS1 where "fxS1 = fxSync fxA fxShared"
definition fxS2 where "fxS2 = fxSync fxB (sy_remote fxS1)"
definition fxS3 where "fxS3 = fxSync (sy_db fxS1) (sy_remote fxS2)"

lemma fx_runs:
  "snd (SyncOnce memPebble (tableJson fxNotes) (FileSink [''srv'']) None fxPrefix fxA fxShared) = None"
  "snd (SyncOnce memPebble (tableJson fxNotes) (FileSink [''srv'']) None fxPrefix fxB (sy_remote fxS1)) = None"
  "snd (SyncOnce memPebble (tableJson fxNotes) (FileSink [''srv'']) None fxPrefix (sy_db fxS1) (sy_remote fxS2)) = None"
  by code_simp+

lemma fxSync_done: "snd (SyncOnce memPebble (tableJson fxNotes) (FileSink [''srv'']) None fxPrefix d fs) = None \<Longrightarrow>
    SyncOnce memPebble (tableJson fxNotes) (FileSink [''srv'']) None fxPrefix d fs = (fxSync d fs, None)"
  unfolding fxSync_def by (metis prod.collapse)

lemma fx_synced_start: "fileTree fxShared" "canonicalNames fxPrefix (fileObjects [''srv''] fxShared)"
  by (simp_all add: fileTree_def fxShared_def gkeys_def canonicalNames_def fileObjects_def)

lemma fx_rows: "rowsOf (tableJson fxNotes) (map_of fxA) = [''k'' \<mapsto> fxNote ''ann'' 10]"
  "rowsOf (tableJson fxNotes) (map_of fxB) = [''k'' \<mapsto> fxNote [] 30]"
  "sharedRows (tableJson fxNotes) fxPrefix (fileObjects [''srv''] fxShared) = Map.empty"
  by (auto simp: rowsOf_def sharedRows_def fxA_def fxB_def tableJson_def fxNotes_def fileObjects_def fxShared_def fun_eq_iff)

lemma fx_passes:
  "SyncOnce memPebble (tableJson fxNotes) (FileSink [''srv'']) None fxPrefix fxA fxShared = (fxS1, None)"
  "SyncOnce memPebble (tableJson fxNotes) (FileSink [''srv'']) None fxPrefix fxB (sy_remote fxS1) = (fxS2, None)"
  "SyncOnce memPebble (tableJson fxNotes) (FileSink [''srv'']) None fxPrefix (sy_db fxS1) (sy_remote fxS2) = (fxS3, None)"
  unfolding fxS1_def fxS2_def fxS3_def by (rule fxSync_done, rule fx_runs [unfolded fxS1_def fxS2_def])+

theorem sync_is_last_writer_wins_witness:
  "sharedRows (tableJson fxNotes) fxPrefix (fileObjects [''srv''] (sy_remote fxS1)) = [''k'' \<mapsto> fxNote ''ann'' 10]"
  using sync_is_last_writer_wins [OF fx_notes.annotating_axioms, OF fx_synced_start fx_passes(1)] unfolding fx_rows by (simp add: lww_def fun_eq_iff)

theorem migrated_row_is_pulled_back_witness:
  "\<exists>s. SyncOnce memPebble (tableJson fxNotes) (FileSink [''srv'']) None fxPrefix [] (sy_remote fxS1) = (s, None) \<and>
     rowsOf (tableJson fxNotes) (map_of (sy_db s)) ''k'' = Some (fxNote ''ann'' 10)"
proof -
  have "snd (SyncOnce memPebble (tableJson fxNotes) (FileSink [''srv'']) None fxPrefix [] (sy_remote fxS1)) = None" by code_simp
  note run = fxSync_done [OF this]
  have k: "fileTree (sy_remote fxS1)" "canonicalNames fxPrefix (fileObjects [''srv''] (sy_remote fxS1))"
    "sharedRows (tableJson fxNotes) fxPrefix (fileObjects [''srv''] (sy_remote fxS1)) ''k'' = Some (fxNote ''ann'' 10)"
    using fx_notes.sync_rows [OF fx_synced_start fx_passes(1)] unfolding fx_rows by (simp_all add: lww_def)
  have "rowsOf (tableJson fxNotes) (map_of []) ''k'' = None" by (simp add: rowsOf_def)
  from migrated_row_is_pulled_back [OF fx_notes.annotating_axioms, OF k(1,2) run this k(3)] run show ?thesis by blast
qed

lemma fx_apart:
  "no_ties (rowsOf (tableJson fxNotes) (map_of fxA)) (rowsOf (tableJson fxNotes) (map_of fxB))"
  "no_ties (rowsOf (tableJson fxNotes) (map_of fxA)) (sharedRows (tableJson fxNotes) fxPrefix (fileObjects [''srv''] fxShared))"
  "no_ties (rowsOf (tableJson fxNotes) (map_of fxB)) (sharedRows (tableJson fxNotes) fxPrefix (fileObjects [''srv''] fxShared))"
  unfolding fx_rows by (auto simp: no_ties_def fxNote_def)

theorem nodes_converge_witness:
  "rowsOf (tableJson fxNotes) (map_of (sy_db fxS3)) ''k'' = Some (fxNote [] 30)"
proof -
  have "rowsOf (tableJson fxNotes) (map_of (sy_db fxS2)) ''k'' = Some (fxNote [] 30)" by code_simp
  with nodes_converge [OF fx_notes.annotating_axioms, OF fx_synced_start fx_passes fx_apart] show ?thesis by simp
qed

definition fxBoth :: rows where "fxBoth = [(''k'', ''x''), (''old'', [])]"

theorem removed_note_comes_back_witness:
  "\<exists>d' d''. SetAt memPebble (tableJson fxNotes) ''k'' ''old'' [(''owner'', [])] ''ops'' 30 fxBoth = (d', Inr (fxNote [] 30)) \<and>
     GetAt memPebble (tableJson fxNotes) ''k'' ''old'' d' = (d'', Inr (Some (fxNote ''ann'' 10)))"
proof -
  let ?s = "SetAt memPebble (tableJson fxNotes) ''k'' ''old'' [(''owner'', [])] ''ops'' 30 fxBoth"
  let ?g = "GetAt memPebble (tableJson fxNotes) ''k'' ''old'' (fst ?s)"
  have rows: "rowsOf (tableJson fxNotes) (map_of fxBoth) ''k'' = Some (fxNote ''bob'' 20)"
    "rowsOf (tableJson fxNotes) (map_of fxBoth) ''old'' = Some (fxNote ''ann'' 10)"
    by (simp_all add: rowsOf_def fxBoth_def tableJson_def fxNotes_def)
  have "snd ?s = Inr (fxNote [] 30)" by code_simp
  then have s: "?s = (fst ?s, Inr (fxNote [] 30))" by (metis prod.collapse)
  have "\<exists>r. snd ?g = Inr r" by (intro exI [of _ "Some (fxNote ''ann'' 10)"]) code_simp
  then obtain r where g: "?g = (fst ?g, Inr r)" by (metis prod.collapse)
  have "encodable (tableJson fxNotes) (fxNote [] 30)" using tableJson_law by (simp add: encodable_def)
  from removed_note_comes_back [OF mem.pebble_laws_axioms, OF _ _ rows(1) _ rows(2) _ s _ this g] have "r = Some (fxNote ''ann'' 10)"
    by (simp add: fxNote_def)
  with s g show ?thesis by blast
qed

end
