(* ===== verification/Go_Time.thy ===== *)
theory Go_Time
  imports Go_Stdlib "HOL-Library.Monad_Syntax"
begin

text \<open>
  What the sources use of Go's \<open>time\<close> package beyond instants and durations as numbers:
  the proleptic Gregorian calendar, \<open>Time.Format(time.RFC3339Nano)\<close> of a UTC instant,
  \<open>time.Parse(time.RFC3339, _)\<close> and \<open>time.ParseDuration\<close>.  An instant is its distance in
  nanoseconds from 0001-01-01T00:00:00Z, the zero \<open>Time\<close>.
\<close>

section \<open>Definitions\<close>

definition is_leap :: "int \<Rightarrow> bool" where
  "is_leap y = (y mod 4 = 0 \<and> (y mod 100 \<noteq> 0 \<or> y mod 400 = 0))"

definition month_lengths :: "int \<Rightarrow> nat list" where
  "month_lengths y = [31, if is_leap y then 29 else 28, 31, 30, 31, 30, 31, 31, 30, 31, 30, 31]"

text \<open>Days from the zero date to the first day of a year, and to a date.\<close>

definition days_before_year :: "int \<Rightarrow> int" where
  "days_before_year y = 365 * (y - 1) + (y - 1) div 4 - (y - 1) div 100 + (y - 1) div 400"

definition days_of_date :: "int \<Rightarrow> nat \<Rightarrow> nat \<Rightarrow> int" where
  "days_of_date y m d = days_before_year y + int (sum_list (take (m - 1) (month_lengths y))) + int d - 1"

text \<open>The year and the day within it of a day number.\<close>

definition year_of_days :: "int \<Rightarrow> int \<times> int" where
  "year_of_days n =
     (let a = n div 146097; r = n mod 146097;
          b = min 3 (r div 36524); r = r - 36524 * b;
          c = r div 1461; r = r mod 1461;
          d = min 3 (r div 365)
      in (400 * a + 100 * b + 4 * c + d + 1, r - 365 * d))"

fun month_day :: "nat list \<Rightarrow> nat \<Rightarrow> nat \<times> nat" where
  "month_day [] doy = (1, doy + 1)"
| "month_day (l # ls) doy =
     (if doy < l then (1, doy + 1) else (case month_day ls (doy - l) of (m, d) \<Rightarrow> (m + 1, d)))"

definition nsPerSec :: int where "nsPerSec = 1000000000"

text \<open>\<open>Time.UTC().Format(time.RFC3339Nano)\<close>: trailing zeros of the fraction are cut.\<close>

definition pad :: "nat \<Rightarrow> nat \<Rightarrow> string" where
  "pad w n = (let s = digits_of n in replicate (w - length s) (CHR ''0'') @ s)"

definition format_frac :: "nat \<Rightarrow> string" where
  "format_frac ns =
     (let s = rev (dropWhile (\<lambda>c. c = CHR ''0'') (rev (pad 9 ns))) in if s = [] then [] else CHR ''.'' # s)"

definition format_clock :: "nat \<Rightarrow> string" where
  "format_clock sod = pad 2 (sod div 3600) @ '':'' @ pad 2 (sod div 60 mod 60) @ '':'' @ pad 2 (sod mod 60)"

definition format_date :: "int \<Rightarrow> string" where
  "format_date days =
     (case year_of_days days of (y, doy) \<Rightarrow>
        case month_day (month_lengths y) (nat doy) of (m, d) \<Rightarrow>
          (if y < 0 then CHR ''-'' # pad 4 (nat (- y)) else pad 4 (nat y)) @ ''-'' @ pad 2 m @ ''-'' @ pad 2 d)"

definition format_rfc3339nano :: "time \<Rightarrow> string" where
  "format_rfc3339nano t =
     (let secs = t div nsPerSec
      in format_date (secs div 86400) @ ''T'' @ format_clock (nat (secs mod 86400))
         @ format_frac (nat (t mod nsPerSec)) @ ''Z'')"

text \<open>
  \<open>time.Parse\<close> with the RFC 3339 layout: a one-digit hour and a comma before the fraction
  are read too, an offset may say 24 hours or 60 minutes.
\<close>

definition getnum :: "bool \<Rightarrow> string \<Rightarrow> (nat \<times> string) option" where
  "getnum fixed s =
     (case s of
        [] \<Rightarrow> None
      | c # cs \<Rightarrow>
          if \<not> is_digit c then None
          else case cs of
                 d # ds \<Rightarrow> if is_digit d then Some (10 * digit_val c + digit_val d, ds)
                          else if fixed then None else Some (digit_val c, cs)
               | [] \<Rightarrow> if fixed then None else Some (digit_val c, []))"

definition expect :: "char \<Rightarrow> string \<Rightarrow> string option" where
  "expect c s = (case s of d # ds \<Rightarrow> if d = c then Some ds else None | [] \<Rightarrow> None)"

definition parse_year :: "string \<Rightarrow> (int \<times> string) option" where
  "parse_year s =
     (if length s < 4 \<or> \<not> list_all is_digit (take 4 s) then None
      else Some (int (nat_of_digits (take 4 s)), drop 4 s))"

definition in_bounds :: "nat \<Rightarrow> nat \<Rightarrow> nat \<Rightarrow> unit option" where
  "in_bounds lo hi n = (if lo \<le> n \<and> n \<le> hi then Some () else None)"

definition parse_frac :: "string \<Rightarrow> nat \<times> string" where
  "parse_frac s =
     (case s of
        c # cs \<Rightarrow>
          if (c = CHR ''.'' \<or> c = CHR '','') \<and> cs \<noteq> [] \<and> is_digit (hd cs)
          then let ds = take 9 (takeWhile is_digit cs)
               in (nat_of_digits ds * 10 ^ (9 - length ds), dropWhile is_digit cs)
          else (0, s)
      | [] \<Rightarrow> (0, s))"

definition parse_zone :: "string \<Rightarrow> (int \<times> string) option" where
  "parse_zone s =
     (case s of
        [] \<Rightarrow> None
      | c # cs \<Rightarrow>
          if c = CHR ''Z'' then Some (0, cs)
          else do {
            (hr, cs) \<leftarrow> getnum True cs;
            cs \<leftarrow> expect (CHR '':'') cs;
            (mm, cs) \<leftarrow> getnum True cs;
            in_bounds 0 24 hr;
            in_bounds 0 60 mm;
            if c = CHR ''+'' then Some (int ((hr * 60 + mm) * 60), cs)
            else if c = CHR ''-'' then Some (- int ((hr * 60 + mm) * 60), cs)
            else None
          })"

definition parse_date :: "string \<Rightarrow> (int \<times> string) option" where
  "parse_date s = do {
     (y, s) \<leftarrow> parse_year s;
     s \<leftarrow> expect (CHR ''-'') s;
     (m, s) \<leftarrow> getnum True s;
     in_bounds 1 12 m;
     s \<leftarrow> expect (CHR ''-'') s;
     (d, s) \<leftarrow> getnum True s;
     in_bounds 1 (month_lengths y ! (m - 1)) d;
     Some (days_of_date y m d, s)
   }"

definition parse_clock :: "string \<Rightarrow> (nat \<times> string) option" where
  "parse_clock s = do {
     (hh, s) \<leftarrow> getnum False s;
     in_bounds 0 23 hh;
     s \<leftarrow> expect (CHR '':'') s;
     (mm, s) \<leftarrow> getnum True s;
     in_bounds 0 59 mm;
     s \<leftarrow> expect (CHR '':'') s;
     (ss, s) \<leftarrow> getnum True s;
     in_bounds 0 59 ss;
     Some ((hh * 60 + mm) * 60 + ss, s)
   }"

definition parse_rfc3339 :: "string \<Rightarrow> time option" where
  "parse_rfc3339 s = do {
     (days, s) \<leftarrow> parse_date s;
     s \<leftarrow> expect (CHR ''T'') s;
     (sod, s) \<leftarrow> parse_clock s;
     let (ns, s) = parse_frac s;
     (off, s) \<leftarrow> parse_zone s;
     if s = [] then Some ((days * 86400 + int sod - off) * nsPerSec + int ns) else None
   }"

text \<open>
  \<open>time.ParseDuration\<close>.  The fraction of a unit is computed there in \<open>float64\<close> and cut to
  whole nanoseconds; here it is the exact product, cut the same way.
\<close>

definition unitMap :: "(string, nat) gomap" where
  "unitMap = [(''ns'', 1), (''us'', 1000), ([CHR 0xC2, CHR 0xB5, CHR ''s''], 1000),
     ([CHR 0xCE, CHR 0xBC, CHR ''s''], 1000), (''ms'', 1000000), (''s'', 1000000000),
     (''m'', 60 * 1000000000), (''h'', 3600 * 1000000000)]"

fun leadingInt :: "nat \<Rightarrow> string \<Rightarrow> (nat \<times> string) option" where
  "leadingInt x [] = Some (x, [])"
| "leadingInt x (c # cs) =
     (if \<not> is_digit c then Some (x, c # cs)
      else if x > 2 ^ 63 div 10 then None
      else let x = 10 * x + digit_val c in if x > 2 ^ 63 then None else leadingInt x cs)"

fun leadingFraction :: "nat \<Rightarrow> nat \<Rightarrow> bool \<Rightarrow> string \<Rightarrow> nat \<times> nat \<times> string" where
  "leadingFraction x scale overflow [] = (x, scale, [])"
| "leadingFraction x scale overflow (c # cs) =
     (if \<not> is_digit c then (x, scale, c # cs)
      else if overflow \<or> x > (2 ^ 63 - 1) div 10 \<or> 10 * x + digit_val c > 2 ^ 63
      then leadingFraction x scale True cs
      else leadingFraction (10 * x + digit_val c) (10 * scale) False cs)"

definition numberByte :: "char \<Rightarrow> bool" where
  "numberByte c = (c = CHR ''.'' \<or> is_digit c)"

definition parseTerm :: "string \<Rightarrow> (nat \<times> string) option" where
  "parseTerm s = do {
     (v, s1) \<leftarrow> leadingInt 0 s;
     let pre = (length s1 \<noteq> length s);
     let (f, scale, s2, post) =
       (case s1 of
          c # cs \<Rightarrow> if c = CHR ''.'' then (case leadingFraction 0 1 False cs of (f, scale, s2) \<Rightarrow> (f, scale, s2, length s2 \<noteq> length cs))
                   else (0, 1, s1, False)
        | [] \<Rightarrow> (0, 1, s1, False));
     if \<not> numberByte (hd s) \<or> (\<not> pre \<and> \<not> post) then None
     else do {
       u \<leftarrow> map_of unitMap (takeWhile (\<lambda>c. \<not> numberByte c) s2);
       if v > 2 ^ 63 div u then None
       else let v = v * u + (if f > 0 then f * u div scale else 0)
            in if f > 0 \<and> v > 2 ^ 63 then None else Some (v, dropWhile (\<lambda>c. \<not> numberByte c) s2)
     }
   }"

fun parseTerms :: "nat \<Rightarrow> nat \<Rightarrow> string \<Rightarrow> nat option" where
  "parseTerms fuel d [] = Some d"
| "parseTerms 0 d (c # cs) = None"
| "parseTerms (Suc fuel) d (c # cs) = do {
     (v, rest) \<leftarrow> parseTerm (c # cs);
     let d = (d + v) mod 2 ^ 64;
     if d > 2 ^ 63 then None else parseTerms fuel d rest
   }"

definition ParseDuration :: "string \<Rightarrow> duration option" where
  "ParseDuration s0 =
     (let neg = (s0 \<noteq> [] \<and> hd s0 = CHR ''-'');
          s = (if s0 \<noteq> [] \<and> (hd s0 = CHR ''-'' \<or> hd s0 = CHR ''+'') then tl s0 else s0)
      in if s = ''0'' then Some 0
         else if s = [] then None
         else do {
           d \<leftarrow> parseTerms (length s) 0 s;
           if neg then Some (- int d)
           else if d > 2 ^ 63 - 1 then None else Some (int d)
         })"

section \<open>Digits\<close>

lemma length_digits_of: "n < 10 ^ w \<Longrightarrow> 0 < w \<Longrightarrow> length (digits_of n) \<le> w"
proof (induction w arbitrary: n)
  case (Suc w)
  show ?case
  proof (cases "n < 10")
    case True
    then show ?thesis by (subst digits_of.simps) simp
  next
    case False
    with Suc.prems have "n div 10 < 10 ^ w" "0 < w" by (auto simp: less_mult_imp_div_less mult.commute intro: Nat.gr0I)
    with Suc.IH False show ?thesis by (subst digits_of.simps) simp
  qed
qed simp

lemma nat_of_digits_zeros: "nat_of_digits (replicate k (CHR ''0'') @ s) = nat_of_digits s"
  by (induction k) (simp_all add: nat_of_digits_def digit_val_def)

lemma nat_of_digits_pad [simp]: "nat_of_digits (pad w n) = n"
  by (simp add: pad_def Let_def nat_of_digits_zeros)

lemma length_pad: "n < 10 ^ w \<Longrightarrow> 0 < w \<Longrightarrow> length (pad w n) = w"
  using length_digits_of [of n w] by (simp add: pad_def Let_def)

lemma pad_digits: "list_all is_digit (pad w n)"
  using digits_of_all_digits [of n] by (auto simp: pad_def Let_def list_all_iff is_digit_def)

lemma nat_of_digits_append_zeros: "nat_of_digits (s @ replicate k (CHR ''0'')) = nat_of_digits s * 10 ^ k"
proof (induction k)
  case (Suc k)
  have "nat_of_digits ((s @ replicate k (CHR ''0'')) @ [CHR ''0'']) = 10 * (nat_of_digits s * 10 ^ k)"
    by (subst nat_of_digits_snoc) (simp add: Suc.IH digit_val_def)
  then show ?case by (simp add: replicate_append_same)
qed simp

lemma pad_two:
  assumes "n < 100"
  obtains c d where "pad 2 n = [c, d]" and "is_digit c" and "is_digit d" and "10 * digit_val c + digit_val d = n"
proof -
  have "length (pad 2 n) = 2" using length_pad [of n 2] assms by simp
  then obtain c d where cd: "pad 2 n = [c, d]" by (auto simp: length_Suc_conv numeral_2_eq_2)
  with pad_digits [of 2 n] nat_of_digits_pad [of 2 n] that show thesis by (simp add: nat_of_digits_def)
qed

lemma getnum_pad: "n < 100 \<Longrightarrow> getnum fixed (pad 2 n @ s) = Some (n, s)"
  by (rule pad_two [of n]) (simp_all add: getnum_def)

lemma parse_year_pad: "n < 10000 \<Longrightarrow> parse_year (pad 4 n @ s) = Some (int n, s)"
  using length_pad [of n 4] pad_digits [of 4 n] by (simp add: parse_year_def)

section \<open>The calendar\<close>

lemma days_before_year_split:
  assumes "0 \<le> b" "b \<le> 3" "0 \<le> c" "c \<le> 24" "0 \<le> d" "d \<le> 3"
  shows "days_before_year (400 * a + 100 * b + 4 * c + d + 1) = 146097 * a + 36524 * b + 1461 * c + 365 * d"
proof -
  let ?z = "400 * a + 100 * b + 4 * c + d"
  have "?z div 4 = 100 * a + 25 * b + c"
    by (rule int_div_pos_eq [where r = d]) (use assms in simp_all)
  moreover have "?z div 100 = 4 * a + b"
    by (rule int_div_pos_eq [where r = "4 * c + d"]) (use assms in simp_all)
  moreover have "?z div 400 = a"
    by (rule int_div_pos_eq [where r = "100 * b + 4 * c + d"]) (use assms in simp_all)
  ultimately show ?thesis by (simp add: days_before_year_def)
qed

lemma mod_full_cycle:
  fixes k :: int
  assumes "1 \<le> x" and "x \<le> k"
  shows "(k * q + x) mod k = 0 \<longleftrightarrow> x = k"
  using assms by (cases "x = k") (simp_all add: mod_pos_pos_trivial)

lemma is_leap_split:
  assumes "0 \<le> b" "b \<le> 3" "0 \<le> c" "c \<le> 24" "0 \<le> d" "d \<le> 3"
  shows "is_leap (400 * a + 100 * b + 4 * c + d + 1) \<longleftrightarrow> d = 3 \<and> (c = 24 \<longrightarrow> b = 3)"
proof -
  let ?y = "400 * a + 100 * b + 4 * c + d + 1"
  have "?y mod 4 = 0 \<longleftrightarrow> d + 1 = 4"
    using mod_full_cycle [of "d + 1" 4 "100 * a + 25 * b + c"] assms by (simp add: algebra_simps)
  moreover have "?y mod 100 = 0 \<longleftrightarrow> 4 * c + d + 1 = 100"
    using mod_full_cycle [of "4 * c + d + 1" 100 "4 * a + b"] assms by (simp add: algebra_simps)
  moreover have "?y mod 400 = 0 \<longleftrightarrow> 100 * b + 4 * c + d + 1 = 400"
    using mod_full_cycle [of "100 * b + 4 * c + d + 1" 400 a] assms by (simp add: algebra_simps)
  moreover have "4 * c + d + 1 = 100 \<longleftrightarrow> c = 24 \<and> d = 3"
    "100 * b + 4 * c + d + 1 = 400 \<longleftrightarrow> b = 3 \<and> c = 24 \<and> d = 3"
    using assms by (intro iffI conjI; linarith)+
  ultimately show ?thesis by (auto simp: is_leap_def)
qed

lemma year_of_days_correct:
  assumes "year_of_days n = (y, doy)"
  shows "days_before_year y + doy = n" and "0 \<le> doy" and "doy < 365 + (if is_leap y then 1 else 0)"
proof -
  define a where "a = n div 146097"
  define r where "r = n mod 146097"
  define b where "b = min 3 (r div 36524)"
  define r1 where "r1 = r - 36524 * b"
  define c where "c = r1 div 1461"
  define r2 where "r2 = r1 mod 1461"
  define d where "d = min 3 (r2 div 365)"
  have "(400 * a + 100 * b + 4 * c + d + 1, r2 - 365 * d) = (y, doy)"
    using assms unfolding year_of_days_def Let_def a_def r_def b_def r1_def c_def r2_def d_def .
  then have y: "y = 400 * a + 100 * b + 4 * c + d + 1" and doy: "doy = r2 - 365 * d" by simp_all
  have r: "0 \<le> r" "r < 146097" by (simp_all add: r_def)
  have div: "x = k * (x div k) + x mod k" "0 \<le> x mod k" "x mod k < k" if "0 < k" for x k :: int
    using that by simp_all
  have b: "0 \<le> b" "b \<le> 3" "0 \<le> r1" "r1 \<le> 36524" "b < 3 \<longrightarrow> r1 < 36524"
    using r div [of 36524 r] unfolding b_def r1_def by (auto simp: min_def)
  have r1: "r1 = 1461 * c + r2" "0 \<le> r2" "r2 < 1461"
    using div [of 1461 r1] unfolding c_def r2_def by auto
  have c: "0 \<le> c" "c \<le> 24" "c = 24 \<longrightarrow> b < 3 \<longrightarrow> r2 < 1460"
    using b r1 by auto
  have d: "0 \<le> d" "d \<le> 3" "0 \<le> doy" "d < 3 \<longrightarrow> doy < 365" "doy = r2 - 365 * d"
    using r1 div [of 365 r2] unfolding d_def doy by (auto simp: min_def)
  have "n = 146097 * a + r" by (simp add: a_def r_def)
  also have "r = 36524 * b + 1461 * c + r2" using r1(1) by (simp add: r1_def)
  finally show "days_before_year y + doy = n"
    unfolding y days_before_year_split [OF b(1,2) c(1,2) d(1,2)] using d(5) by simp
  show "0 \<le> doy" by (rule d(3))
  have "doy < 365" if "\<not> is_leap y"
    using that r1 c d b(2) unfolding y is_leap_split [OF b(1,2) c(1,2) d(1,2)] by auto
  then show "doy < 365 + (if is_leap y then 1 else 0)" using r1(3) d by (cases "d < 3") auto
qed

lemma month_day_correct:
  assumes "doy < sum_list ls" and "month_day ls doy = (m, d)"
  shows "1 \<le> m \<and> m \<le> length ls \<and> 1 \<le> d \<and> d \<le> ls ! (m - 1) \<and> sum_list (take (m - 1) ls) + d = doy + 1"
  using assms
proof (induction ls arbitrary: doy m)
  case (Cons l ls)
  show ?case
  proof (cases "doy < l")
    case False
    obtain m' where m': "month_day ls (doy - l) = (m', d)" "m = m' + 1"
      using Cons.prems False by (auto split: prod.splits)
    have "doy - l < sum_list ls" using Cons.prems(1) False by simp
    from Cons.IH [OF this m'(1)] False m'(2) show ?thesis
      by (auto simp: nth_Cons' take_Cons')
  qed (use Cons.prems in auto)
qed simp

lemma sum_month_lengths: "sum_list (month_lengths y) = 365 + (if is_leap y then 1 else 0)"
  by (simp add: month_lengths_def)

lemma month_length_le: "m < 12 \<Longrightarrow> month_lengths y ! m \<le> 31"
proof -
  assume "m < 12"
  then have "month_lengths y ! m \<in> set (month_lengths y)" by (intro nth_mem) (simp add: month_lengths_def)
  moreover have "\<forall>l \<in> set (month_lengths y). l \<le> 31" by (simp add: month_lengths_def)
  ultimately show ?thesis by blast
qed

section \<open>Reading a rendered instant\<close>

lemma year_bounds:
  assumes "0 \<le> n" and "n < days_before_year 10000" and "year_of_days n = (y, doy)"
  shows "0 \<le> y \<and> y < 10000"
proof -
  note Y = year_of_days_correct [OF assms(3)]
  have d: "k * ((y - 1) div k) \<le> y - 1" "y - 1 < k * ((y - 1) div k) + k" if "0 < k" for k :: int
    using that mult_div_mod_eq [of k "y - 1"] pos_mod_sign [of k "y - 1"] pos_mod_bound [of k "y - 1"] by linarith+
  have lo: "days_before_year y + 366 < 0" if "y < 0"
    using that d [of 4] d [of 100] d [of 400] unfolding days_before_year_def by simp
  have hi: "days_before_year 10000 \<le> days_before_year y" if "10000 \<le> y"
    using that d [of 4] d [of 100] d [of 400] unfolding days_before_year_def by simp
  show ?thesis
  proof (rule ccontr)
    assume "\<not> (0 \<le> y \<and> y < 10000)"
    then have "y < 0 \<or> 10000 \<le> y" by auto
    then show False using lo hi Y assms(1,2) by (auto split: if_splits)
  qed
qed

lemma parse_format_date:
  assumes "0 \<le> n" and "n < days_before_year 10000"
  shows "parse_date (format_date n @ s) = Some (n, s)"
proof -
  obtain y doy where y: "year_of_days n = (y, doy)" by fastforce
  obtain m d where md: "month_day (month_lengths y) (nat doy) = (m, d)" by fastforce
  note Y = year_of_days_correct [OF y]
  have "nat doy < sum_list (month_lengths y)" using Y(2,3) by (auto simp: sum_month_lengths split: if_splits)
  note M = month_day_correct [OF this md]
  have len: "length (month_lengths y) = 12" by (simp add: month_lengths_def)
  have m: "1 \<le> m" "m \<le> 12" "m < 100" using M len by simp_all
  have "month_lengths y ! (m - 1) \<le> 31" using m by (intro month_length_le) simp
  with M have d: "1 \<le> d" "d \<le> month_lengths y ! (m - 1)" "d < 100" by simp_all
  have yb: "0 \<le> y" "y < 10000" using year_bounds [OF assms y] by simp_all
  have fmt: "format_date n @ s = pad 4 (nat y) @ CHR ''-'' # pad 2 m @ CHR ''-'' # pad 2 d @ s"
    using yb by (simp add: format_date_def y md)
  have "int (sum_list (take (m - 1) (month_lengths y))) + int d = doy + 1"
    using M Y(2) by (metis int_nat_eq int_ops(4) of_nat_add Suc_eq_plus1 of_nat_Suc)
  then have "days_of_date y m d = n" using Y(1) by (simp add: days_of_date_def)
  then show ?thesis unfolding fmt parse_date_def
    using yb m d by (simp add: parse_year_pad getnum_pad expect_def in_bounds_def)
qed

lemma parse_format_clock:
  assumes "sod < 86400"
  shows "parse_clock (format_clock sod @ s) = Some (sod, s)"
proof -
  have "sod div 60 mod 60 < 60" "sod mod 60 < 60" by simp_all
  then have "sod div 3600 \<le> 23" "sod div 60 mod 60 \<le> 59" "sod mod 60 \<le> 59" using assms by linarith+
  moreover have "sod div 3600 = sod div 60 div 60" by (simp add: div_mult2_eq [symmetric])
  then have "(sod div 3600 * 60 + sod div 60 mod 60) * 60 + sod mod 60 = sod" by simp
  ultimately show ?thesis
    by (simp add: parse_clock_def format_clock_def getnum_pad expect_def in_bounds_def)
qed

lemma while_last:
  assumes "\<forall>c \<in> set xs. P c" and "\<not> P z"
  shows "takeWhile P (xs @ [z]) = xs" and "dropWhile P (xs @ [z]) = [z]"
  using assms by (induction xs) auto

lemma parse_format_frac:
  assumes "ns < 1000000000"
  shows "parse_frac (format_frac ns @ ''Z'') = (ns, ''Z'')"
proof -
  let ?p = "pad 9 ns" and ?zero = "\<lambda>c. c = CHR ''0''"
  define q where "q = rev (dropWhile ?zero (rev ?p))"
  have fmt: "format_frac ns = (if q = [] then [] else CHR ''.'' # q)" by (simp only: format_frac_def Let_def q_def)
  define k where "k = length (takeWhile ?zero (rev ?p))"
  have len: "length ?p = 9" using assms by (intro length_pad) simp_all
  have "takeWhile ?zero xs = replicate (length (takeWhile ?zero xs)) (CHR ''0'')" for xs
    by (induction xs) auto
  then have split: "?p = q @ replicate k (CHR ''0'')"
    unfolding q_def k_def by (metis rev_append rev_replicate rev_rev_ident takeWhile_dropWhile_id)
  have val: "nat_of_digits q * 10 ^ k = ns"
    using nat_of_digits_append_zeros [of q k] nat_of_digits_pad [of 9 ns] split by metis
  have k9: "k = 9 - length q" using len arg_cong [OF split, of length] by simp
  have dig: "\<forall>c \<in> set q. is_digit c"
    using pad_digits [of 9 ns] by (subst (asm) split) (simp add: list_all_iff)
  have z: "\<not> is_digit (CHR ''Z'')" by (simp add: is_digit_def)
  show ?thesis
  proof (cases "q = []")
    case True
    with val have "ns = 0" by (simp add: nat_of_digits_def)
    with True show ?thesis unfolding fmt by (simp add: parse_frac_def)
  next
    case False
    have "length q \<le> 9" using len arg_cong [OF split, of length] by simp
    moreover have "takeWhile is_digit (q @ ''Z'') = q" "dropWhile is_digit (q @ ''Z'') = ''Z''"
      by (rule while_last(1) [OF dig z], rule while_last(2) [OF dig z])
    moreover have "is_digit (hd (q @ ''Z''))"
      unfolding hd_append2 [OF False] using hd_in_set [OF False] dig by blast
    ultimately show ?thesis using False val k9
      unfolding fmt by (simp add: parse_frac_def Let_def)
  qed
qed

lemma int_div_less:
  fixes n :: int
  assumes "0 < k" and "x < n * k"
  shows "x div k < n"
proof (rule ccontr)
  assume "\<not> x div k < n"
  then have "n * k \<le> x div k * k" using assms(1) by simp
  also have "\<dots> \<le> x" using assms(1) div_mult_mod_eq [of x k] pos_mod_sign [of k x] by linarith
  finally show False using assms(2) by simp
qed

text \<open>A rendered instant up to the year 9999 is read back exactly.\<close>

lemma parse_format_rfc3339:
  assumes "0 \<le> t" and "t < days_before_year 10000 * 86400 * nsPerSec"
  shows "parse_rfc3339 (format_rfc3339nano t) = Some t"
proof -
  let ?secs = "t div nsPerSec"
  have ns: "0 < nsPerSec" by (simp add: nsPerSec_def)
  have secs: "0 \<le> ?secs" "?secs < days_before_year 10000 * 86400"
    using assms ns by (simp_all add: pos_imp_zdiv_nonneg_iff int_div_less)
  then have days: "0 \<le> ?secs div 86400" "?secs div 86400 < days_before_year 10000"
    by (simp_all add: int_div_less)
  have sod: "nat (?secs mod 86400) < 86400" by simp
  have frac: "nat (t mod nsPerSec) < 1000000000" by (simp add: nsPerSec_def nat_less_iff)
  have "(?secs div 86400 * 86400 + int (nat (?secs mod 86400))) * nsPerSec + int (nat (t mod nsPerSec)) = t"
    using ns by (simp add: mult.commute)
  then show ?thesis
    using parse_format_date [OF days] parse_format_clock [OF sod] parse_format_frac [OF frac]
    by (simp add: parse_rfc3339_def format_rfc3339nano_def Let_def expect_def parse_zone_def)
qed

section \<open>Durations\<close>

lemma leadingInt_rest: "leadingInt x s = Some (v, r) \<Longrightarrow> length r \<le> length s"
  by (induction x s arbitrary: v r rule: leadingInt.induct) (auto simp: Let_def split: if_splits intro: le_SucI)

lemma leadingFraction_rest: "leadingFraction x k ov s = (f, k', r) \<Longrightarrow> length r \<le> length s"
  by (induction x k ov s arbitrary: f k' r rule: leadingFraction.induct) (auto split: if_splits intro: le_SucI)

lemma parseTerm_consumes:
  assumes "parseTerm s = Some (v, r)"
  shows "length r < length s"
proof -
  obtain w s1 where w: "leadingInt 0 s = Some (w, s1)"
    using assms by (auto simp: parseTerm_def split: Option.bind_splits)
  obtain f k s2 post where s2: "(case s1 of
          c # cs \<Rightarrow> if c = CHR ''.'' then (case leadingFraction 0 1 False cs of (f, scale, s2) \<Rightarrow> (f, scale, s2, length s2 \<noteq> length cs))
                   else (0, 1, s1, False)
        | [] \<Rightarrow> (0, 1, s1, False)) = (f, k, s2, post)" by (rule prod_cases4)
  have le: "length s2 \<le> length s"
    using leadingInt_rest [OF w] s2 leadingFraction_rest
    by (fastforce split: list.splits if_splits prod.splits intro: le_trans)
  obtain u where u: "map_of unitMap (takeWhile (\<lambda>c. \<not> numberByte c) s2) = Some u"
    and r: "r = dropWhile (\<lambda>c. \<not> numberByte c) s2"
    using assms w s2 by (auto simp: parseTerm_def Let_def split: Option.bind_splits if_splits)
  have "map_of unitMap [] = None" by (simp add: unitMap_def)
  with u have "takeWhile (\<lambda>c. \<not> numberByte c) s2 \<noteq> []" by force
  then have "0 < length (takeWhile (\<lambda>c. \<not> numberByte c) s2)" by simp
  moreover have "length (takeWhile (\<lambda>c. \<not> numberByte c) s2) + length r = length s2"
    unfolding r by (metis length_append takeWhile_dropWhile_id)
  ultimately show ?thesis using le by linarith
qed

text \<open>The length of the text is fuel enough.\<close>

lemma parseTerms_fuel: "length s \<le> fuel \<Longrightarrow> parseTerms fuel d s = parseTerms (length s) d s"
proof (induction "length s" arbitrary: s d fuel rule: less_induct)
  case less
  show ?case
  proof (cases s)
    case (Cons c cs)
    obtain k where k: "fuel = Suc k" using less.prems Cons by (cases fuel) auto
    have "parseTerms k d' r = parseTerms (length cs) d' r" if "parseTerm s = Some (v, r)" for v r d'
    proof -
      have r: "length r < length s" by (rule parseTerm_consumes [OF that])
      have "parseTerms k d' r = parseTerms (length r) d' r"
        using r less.prems k by (intro less.hyps) auto
      moreover have "parseTerms (length cs) d' r = parseTerms (length r) d' r"
        using r Cons by (intro less.hyps) auto
      ultimately show ?thesis by simp
    qed
    then show ?thesis using Cons k by (auto simp: Let_def split: Option.bind_splits)
  qed (cases fuel; simp)
qed

end
