(* ===== verification/Mcp_View.thy ===== *)
theory Mcp_View
  imports Go_Time Canonical Model_DisplayName Store_Log Change_Engine Annotations Auth
begin

text \<open>
  \<open>internal/mcp\<close>: the server's state and what its tools answer with
  (\<open>server.go\<close>, \<open>convert.go\<close>, \<open>canonical.go\<close>, \<open>asof.go\<close>, \<open>annotate.go\<close>).

  The graph, the event log, the change engine's liveness reads and the annotation store are the
  ones modelled in the other theories.  A sentence of an answer is a value of a data type that
  says which sentence it is and holds what it quotes; the fixed prose around it is left out.
\<close>

section \<open>The server\<close>

text \<open>
  \<open>Cadence\<close> is the interface of the liveness reads; its last two operations are the optional
  interfaces \<open>implausiblePromiseReader\<close> and \<open>anonymousReferenceReader\<close>, absent when the reader
  does not provide them.
\<close>

record Cadence =
  cad_ObservationInterval :: "EntityID \<Rightarrow> duration \<times> bool"
  cad_AssertingProducers :: "EntityID \<Rightarrow> string list"
  cad_AssertingScopes :: "EntityID \<Rightarrow> string list"
  cad_RelationAssertingProducers :: "RelationID \<Rightarrow> string list"
  cad_RelationAssertingScopes :: "RelationID \<Rightarrow> string list"
  cad_ImplausiblePromise :: "(EntityID \<Rightarrow> duration \<times> string \<times> bool) option"
  cad_AnonymousReferences :: "(EntityID \<Rightarrow> nat) option"

definition engineCadence :: "'a Engine \<Rightarrow> Cadence" where
  "engineCadence e =
     \<lparr>cad_ObservationInterval = ObservationInterval e, cad_AssertingProducers = AssertingProducers e,
      cad_AssertingScopes = AssertingScopes e, cad_RelationAssertingProducers = RelationAssertingProducers e,
      cad_RelationAssertingScopes = RelationAssertingScopes e, cad_ImplausiblePromise = Some (ImplausiblePromise e),
      cad_AnonymousReferences = Some (AnonymousReferences e)\<rparr>"

text \<open>\<open>ms_now\<close> is the clock's answer during the call.\<close>

record 'd Server =
  ms_graph :: Graph
  ms_store :: "'d Store"
  ms_now :: time
  ms_idThr :: float64
  ms_cadence :: "Cadence option"
  ms_ann :: "'d option"
  ms_tenant :: string
  ms_tenantName :: string

text \<open>The packages the server calls: the database, the message and row encodings, the context.\<close>

record 'd mcpEnv =
  me_pb :: "'d pebble"
  me_pm :: proto
  me_js :: json
  me_ctx :: "nat \<Rightarrow> StoreErr option"
  me_canceled :: bool

definition defaultIdentityThreshold :: float64 where "defaultIdentityThreshold = Fin False 9 (-1)"

definition NewMcp :: "Graph \<Rightarrow> 'd Store \<Rightarrow> time \<Rightarrow> 'd Server" where
  "NewMcp g st now =
     \<lparr>ms_graph = g, ms_store = st, ms_now = now, ms_idThr = defaultIdentityThreshold, ms_cadence = None,
      ms_ann = None, ms_tenant = [], ms_tenantName = []\<rparr>"

definition SetTenant :: "string \<Rightarrow> 'd Server \<Rightarrow> 'd Server" where
  "SetTenant t s = s\<lparr>ms_tenant := t\<rparr>"

definition SetTenantName :: "string \<Rightarrow> 'd Server \<Rightarrow> 'd Server" where
  "SetTenantName name s = s\<lparr>ms_tenantName := name\<rparr>"

definition SetAnnotations :: "'d option \<Rightarrow> 'd Server \<Rightarrow> 'd Server" where
  "SetAnnotations a s = s\<lparr>ms_ann := a\<rparr>"

definition SetCadence :: "Cadence option \<Rightarrow> 'd Server \<Rightarrow> 'd Server" where
  "SetCadence c s = s\<lparr>ms_cadence := c\<rparr>"

definition SetIdentityThreshold :: "float64 \<Rightarrow> 'd Server \<Rightarrow> 'd Server" where
  "SetIdentityThreshold t s = (if f_lt f_zero t \<and> f_le t f_one then s\<lparr>ms_idThr := t\<rparr> else s)"

definition maxDepth :: int where "maxDepth = 5"
definition defaultLimit :: int where "defaultLimit = 50"
definition maxLimit :: int where "maxLimit = 200"

definition clampLimit :: "int \<Rightarrow> int" where
  "clampLimit limit = (if limit \<le> 0 then defaultLimit else if limit > maxLimit then maxLimit else limit)"

datatype McpErr =
    UnknownVerbosity string
  | EntityRequired
  | EndpointsRequired
  | TypeRequired
  | BadTime string string
  | TimeBeforeEpoch string string
  | AsOfErr "StoreErr AtErr"
  | ExistsNow string string
  | NeverFound string string
  | PartialIdentity string string int int
  | NoEntityFound string
  | NoLiveEntity string
  | DepthTooLarge int
  | BadCursor string
  | WindowAndFrom
  | BadWindow string
  | EmptyWindow time time
  | WindowRequired
  | BadKind string
  | BadChangeType string
  | ReadErr StoreErr
  | UnknownType string
  | AnnotationsOff
  | MayNotAnnotate
  | NoAnnotationKey
  | AnnotationErr AnnErr

section \<open>Rendering\<close>

record Attribute =
  at_Key :: string
  at_Value :: string
  at_Type :: string

datatype ProvenanceNote = WithheldAsOf | Anonymous nat

text \<open>A list that is \<^const>\<open>None\<close> is the \<open>nil\<close> slice, rendered \<open>null\<close>.\<close>

record EntityOut =
  eo_ID :: string
  eo_IdentityFingerprint :: string
  eo_Type :: string
  eo_DisplayName :: string
  eo_Label :: string
  eo_Identity :: "Attribute list option"
  eo_Attributes :: "Attribute list option"
  eo_Deleted :: bool
  eo_AssertedBy :: "string list option"
  eo_Provenance :: "ProvenanceNote option"
  eo_CollectedBy :: "string list option"

record RelationOut =
  ro_ID :: string
  ro_Type :: string
  ro_FromID :: string
  ro_ToID :: string
  ro_Structural :: bool
  ro_Attributes :: "Attribute list"

datatype Gloss = NoGloss | GoneForReason string | ReportedGone | WentSilent | Collateral

record Change =
  ch_EventID :: string
  ch_CommitSeq :: "64 word"
  ch_Scope :: string
  ch_ChangeType :: string
  ch_EventTime :: string
  ch_RecordedAt :: string
  ch_ChangedKeys :: "string list"
  ch_DeleteReason :: string
  ch_DeleteSource :: string
  ch_Disappearance :: Gloss
  ch_Entity :: "EntityOut option"
  ch_Relation :: "RelationOut option"

definition disappearanceGloss :: "DeleteSource \<Rightarrow> string \<Rightarrow> Gloss" where
  "disappearanceGloss src reason =
     (if src = DeleteSourceProducer then (if reason \<noteq> [] then GoneForReason reason else ReportedGone)
      else if src = DeleteSourceLivenessExpiry then WentSilent
      else if src = DeleteSourceCascade then Collateral
      else NoGloss)"

definition valueString :: "Value \<Rightarrow> string \<times> string" where
  "valueString v =
     (Display v,
      case Kind v of KindInt \<Rightarrow> ''int'' | KindDouble \<Rightarrow> ''double'' | KindBool \<Rightarrow> ''bool''
      | KindArray \<Rightarrow> ''array'' | KindKvlist \<Rightarrow> ''kvlist'' | _ \<Rightarrow> ''string'')"

definition attrsOut :: "KeyValue list \<Rightarrow> Attribute list" where
  "attrsOut kvs = map (\<lambda>(k, v). case valueString v of (val, ty) \<Rightarrow> \<lparr>at_Key = k, at_Value = val, at_Type = ty\<rparr>) kvs"

definition label :: "Entity \<Rightarrow> string" where
  "label e =
     ent_Type e @ (let name = LabelName e in if name \<noteq> [] then '' '' @ name else [])
     @ concat (map (\<lambda>(k, v). '' '' @ k @ ''='' @ fst (valueString v)) (ent_Identity e))"

definition entityOutV :: "Entity \<Rightarrow> bool \<Rightarrow> bool \<Rightarrow> EntityOut" where
  "entityOutV e deleted brief =
     \<lparr>eo_ID = ent_ID e, eo_IdentityFingerprint = IdentityHash e, eo_Type = ent_Type e,
      eo_DisplayName = DisplayName e, eo_Label = label e,
      eo_Identity = (if brief then None else Some (attrsOut (ent_Identity e))),
      eo_Attributes = (if brief then None else Some (attrsOut (ent_Attributes e))),
      eo_Deleted = deleted, eo_AssertedBy = None, eo_Provenance = None, eo_CollectedBy = None\<rparr>"

definition entityOut :: "Entity \<Rightarrow> bool \<Rightarrow> EntityOut" where
  "entityOut e deleted = entityOutV e deleted False"

definition parseVerbosity :: "string \<Rightarrow> McpErr + bool" where
  "parseVerbosity v =
     (if v = [] \<or> v = ''full'' then Inr False
      else if v = ''compact'' then Inr True
      else Inl (UnknownVerbosity v))"

definition relationOut :: "Relation \<Rightarrow> RelationOut" where
  "relationOut r =
     \<lparr>ro_ID = rel_ID r, ro_Type = rel_Type r, ro_FromID = rel_From r, ro_ToID = rel_To r,
      ro_Structural = rel_Structural r, ro_Attributes = attrsOut (rel_Attributes r)\<rparr>"

definition formatTime :: "time \<Rightarrow> string" where
  "formatTime t = (if t = 0 then [] else format_rfc3339nano t)"

definition zeroChange :: Change where
  "zeroChange = \<lparr>ch_EventID = [], ch_CommitSeq = 0, ch_Scope = [], ch_ChangeType = [], ch_EventTime = [],
     ch_RecordedAt = [], ch_ChangedKeys = [], ch_DeleteReason = [], ch_DeleteSource = [],
     ch_Disappearance = NoGloss, ch_Entity = None, ch_Relation = None\<rparr>"

definition changeOut :: "Event \<Rightarrow> Change" where
  "changeOut ev =
     (case ev_Entity ev of
        Some ee \<Rightarrow>
          zeroChange\<lparr>ch_EventID := ee_EventID ee, ch_CommitSeq := ee_CommitSeq ee, ch_Scope := ee_Scope ee,
            ch_ChangeType := ct_String (ee_ChangeType ee), ch_EventTime := formatTime (ee_EventTime ee),
            ch_RecordedAt := formatTime (ee_RecordedAt ee), ch_ChangedKeys := ee_ChangedKeys ee,
            ch_DeleteReason := ee_DeleteReason ee, ch_DeleteSource := ee_DeleteSource ee,
            ch_Disappearance := disappearanceGloss (ee_DeleteSource ee) (ee_DeleteReason ee),
            ch_Entity := Some (entityOut (ee_Entity ee) (ee_ChangeType ee = EntityDeleted))\<rparr>
      | None \<Rightarrow>
          (case ev_Relation ev of
             Some re \<Rightarrow>
               zeroChange\<lparr>ch_EventID := re_EventID re, ch_CommitSeq := re_CommitSeq re, ch_Scope := re_Scope re,
                 ch_ChangeType := ct_String (re_ChangeType re), ch_EventTime := formatTime (re_EventTime re),
                 ch_RecordedAt := formatTime (re_RecordedAt re), ch_ChangedKeys := re_ChangedKeys re,
                 ch_DeleteSource := re_DeleteSource re, ch_Disappearance := disappearanceGloss (re_DeleteSource re) [],
                 ch_Relation := Some (relationOut (re_Relation re))\<rparr>
           | None \<Rightarrow> zeroChange))"

section \<open>Provenance\<close>

record GraphMeta =
  gm_Tenant :: string
  gm_TenantName :: string
  gm_Entities :: nat
  gm_Relations :: nat
  gm_NewestEvent :: string
  gm_OldestAnswerable :: string
  gm_AsOf :: string

definition graphMeta :: "'d mcpEnv \<Rightarrow> 'd Server \<Rightarrow> Graph \<Rightarrow> string \<Rightarrow> GraphMeta" where
  "graphMeta env s g asOf =
     \<lparr>gm_Tenant = ms_tenant s, gm_TenantName = ms_tenantName s, gm_Entities = EntityCount g,
      gm_Relations = RelationCount g,
      gm_NewestEvent = (case NewestEventTime (me_pb env) (ms_store s) of Inr (Some t) \<Rightarrow> formatTime t | _ \<Rightarrow> []),
      gm_OldestAnswerable = (let h = PruneHorizon (ms_store s) in if h \<noteq> 0 then formatTime h else []),
      gm_AsOf = asOf\<rparr>"

definition attachProducers :: "'d Server \<Rightarrow> EntityID \<Rightarrow> bool \<Rightarrow> string \<Rightarrow> EntityOut \<Rightarrow> EntityOut" where
  "attachProducers s eid brief asOf out =
     (case ms_cadence s of
        None \<Rightarrow> out
      | Some c \<Rightarrow>
          if brief then out
          else if asOf \<noteq> [] then out\<lparr>eo_Provenance := Some WithheldAsOf\<rparr>
          else let out = out\<lparr>eo_AssertedBy := Some (cad_AssertingProducers c eid),
                             eo_CollectedBy := Some (cad_AssertingScopes c eid)\<rparr>
               in if cad_AssertingProducers c eid = []
                  then (case cad_AnonymousReferences c of
                          Some anon \<Rightarrow> (let n = anon eid in if n > 0 then out\<lparr>eo_Provenance := Some (Anonymous n)\<rparr> else out)
                        | None \<Rightarrow> out)
                  else out)"

definition entityWithProducers :: "'d Server \<Rightarrow> Entity \<Rightarrow> bool \<Rightarrow> bool \<Rightarrow> string \<Rightarrow> EntityOut" where
  "entityWithProducers s e deleted brief asOf =
     attachProducers s (ent_ID e) brief asOf (entityOutV e deleted brief)"

datatype Resolution =
    UnknownThen
  | PromiseRefused string duration
  | NoLivenessPromise
  | Interval duration

definition resolutionFor :: "'d Server \<Rightarrow> EntityID \<Rightarrow> string \<Rightarrow> Resolution option" where
  "resolutionFor s eid asOf =
     (case ms_cadence s of
        None \<Rightarrow> None
      | Some c \<Rightarrow>
          if asOf \<noteq> [] then Some UnknownThen
          else case cad_ObservationInterval c eid of
                 (interval, True) \<Rightarrow> Some (Interval interval)
               | (_, False) \<Rightarrow>
                   (case cad_ImplausiblePromise c of
                      Some reader \<Rightarrow>
                        (case reader eid of
                           (declared, producer, True) \<Rightarrow>
                             Some (PromiseRefused (if producer = [] then ''an unidentified producer'' else producer) declared)
                         | (_, _, False) \<Rightarrow> Some NoLivenessPromise)
                    | None \<Rightarrow> Some NoLivenessPromise))"

section \<open>Handles that do not resolve, and windows before the horizon\<close>

definition multiKeyIdentitySizes :: "(string, int) gomap" where
  "multiKeyIdentitySizes =
     [(TypeNetworkInterface, 2), (TypeNetworkNeighbor, 2), (TypeComputeVM, 2), (TypeProcess, 2), (TypeNetworkRoute, 3)]"

definition partialIdentityHint :: "string \<Rightarrow> (string \<times> int \<times> int) option" where
  "partialIdentityHint handle =
     (case cut handle (CHR '':'') of
        (typ, rest, ok) \<Rightarrow>
          if \<not> ok \<or> \<not> contains_byte rest (CHR ''='') then None
          else case map_of multiKeyIdentitySizes typ of
                 None \<Rightarrow> None
               | Some want \<Rightarrow>
                   let given = int (length (filter (\<lambda>c. c = CHR '','') rest)) + 1
                   in if given \<ge> want then None else Some (typ, want, given))"

definition notFoundMsg :: "'d Server \<Rightarrow> string \<Rightarrow> string \<Rightarrow> McpErr" where
  "notFoundMsg s handle asOf =
     (if asOf \<noteq> []
      then (case ResolveHandle (ms_graph s) handle of
              Some _ \<Rightarrow> ExistsNow handle asOf
            | None \<Rightarrow> NeverFound handle asOf)
      else case partialIdentityHint handle of
             Some (typ, want, given) \<Rightarrow> PartialIdentity handle typ want given
           | None \<Rightarrow> NoEntityFound handle)"

datatype HorizonNote = EmptyByRetention time time time | PartialByRetention time time time

definition horizonWarning :: "'d Server \<Rightarrow> time \<Rightarrow> time \<Rightarrow> HorizonNote option" where
  "horizonWarning s from to =
     (let h = PruneHorizon (ms_store s)
      in if h = 0 \<or> \<not> from < h then None
         else if \<not> to > h then Some (EmptyByRetention from to h)
         else Some (PartialByRetention from to h))"

section \<open>Instants\<close>

definition parseOptTime :: "string \<Rightarrow> string \<Rightarrow> McpErr + time" where
  "parseOptTime str field =
     (if str = [] then Inr 0
      else case parse_rfc3339 str of
             None \<Rightarrow> Inl (BadTime field str)
           | Some t \<Rightarrow> if t < unixEpoch then Inl (TimeBeforeEpoch field str) else Inr t)"

definition graphAt :: "'d mcpEnv \<Rightarrow> 'd Server \<Rightarrow> string \<Rightarrow> McpErr + Graph" where
  "graphAt env s asOf =
     (if asOf = [] then Inr (ms_graph s)
      else case parseOptTime asOf ''as_of'' of
             Inl err \<Rightarrow> Inl err
           | Inr t \<Rightarrow>
               (case At (ms_now s) (me_canceled env) (PruneHorizon (ms_store s))
                       (\<lambda>from to. ReadByTimeRange (me_pb env) (me_pm env) (me_ctx env) from to (ms_store s)) t of
                  Inl err \<Rightarrow> Inl (AsOfErr err)
                | Inr g \<Rightarrow> Inr g))"

section \<open>The identity overlay of an entity\<close>

record CanonicalMember =
  cm_ID :: string
  cm_Type :: string
  cm_Label :: string
  cm_State :: string

record InertBelief =
  ib_From :: string
  ib_To :: string
  ib_Basis :: string
  ib_Reason :: string

record CanonicalGroup =
  cg_Aliases :: "CanonicalMember list"
  cg_Links :: "Link list"
  cg_Inert :: "InertBelief list"

fun inertReasonOf :: "KeyValue list \<Rightarrow> string" where
  "inertReasonOf [] = ''no_confidence''"
| "inertReasonOf ((k, v) # kvs) =
     (if k \<noteq> ConfidenceKey then inertReasonOf kvs
      else if Kind v = KindDouble \<or> Kind v = KindInt then ''confidence_out_of_range''
      else ''confidence_not_numeric'')"

definition inertReason :: "Relation \<Rightarrow> string" where
  "inertReason r = inertReasonOf (rel_Attributes r)"

definition inertBeliefs :: "Graph \<Rightarrow> EntityID \<Rightarrow> InertBelief list" where
  "inertBeliefs g rootID =
     sort_key (\<lambda>b. (ib_From b, ib_To b))
       (map (\<lambda>r. \<lparr>ib_From = rel_From r, ib_To = rel_To r, ib_Basis = Basis r, ib_Reason = inertReason r\<rparr>)
          (filter (\<lambda>r. \<not> snd (Confidence r)) (RelationsTouching g rootID RelSameAs)))"

definition aliasOf :: "Graph \<Rightarrow> EntityID \<Rightarrow> CanonicalMember" where
  "aliasOf g i =
     (case GetEntity g i of
        (Some ent, False) \<Rightarrow> \<lparr>cm_ID = i, cm_Type = ent_Type ent, cm_Label = label ent, cm_State = ''live''\<rparr>
      | (Some ent, True) \<Rightarrow> \<lparr>cm_ID = i, cm_Type = [], cm_Label = [], cm_State = ''deleted''\<rparr>
      | (None, _) \<Rightarrow> \<lparr>cm_ID = i, cm_Type = [], cm_Label = [], cm_State = ''unresolvable''\<rparr>)"

text \<open>The outer \<^const>\<open>None\<close> is a walk that does not return, the inner one the \<open>nil\<close> group.\<close>

definition canonicalGroup :: "'d Server \<Rightarrow> Graph \<Rightarrow> EntityID \<Rightarrow> CanonicalGroup option option" where
  "canonicalGroup s g rootID =
     map_option (\<lambda>(members, links).
        let inert = inertBeliefs g rootID;
            alone = (if inert = [] then None else Some \<lparr>cg_Aliases = [], cg_Links = [], cg_Inert = inert\<rparr>)
        in if length members \<le> 1 then alone
           else let aliases = map (aliasOf g) (filter (\<lambda>i. i \<noteq> rootID) members)
                in if aliases = [] then alone
                   else Some \<lparr>cg_Aliases = sort_key cm_ID aliases, cg_Links = links, cg_Inert = inert\<rparr>)
       (Walk (RelationsTouching g) rootID (ms_idThr s))"

definition canonicalMemberIDs :: "'d Server \<Rightarrow> Graph \<Rightarrow> EntityID \<Rightarrow> EntityID list option" where
  "canonicalMemberIDs s g rootID = map_option fst (Walk (RelationsTouching g) rootID (ms_idThr s))"

end
