(* ===== verification/Go_Base64.thy ===== *)
theory Go_Base64
  imports Go_Stdlib
begin

text \<open>
  Go's \<open>base64.RawURLEncoding\<close>: the URL alphabet without padding.  Decoding skips line ends,
  rejects any other byte outside the alphabet and a last group of one character, and ignores
  the unused low bits of the last group.
\<close>

section \<open>Definitions\<close>

definition b64_alphabet :: string where
  "b64_alphabet = ''ABCDEFGHIJKLMNOPQRSTUVWXYZabcdefghijklmnopqrstuvwxyz0123456789-_''"

definition b64_char :: "nat \<Rightarrow> char" where
  "b64_char n = b64_alphabet ! n"

definition b64_val :: "char \<Rightarrow> nat option" where
  "b64_val c = index_byte b64_alphabet c"

fun b64_groups :: "nat list \<Rightarrow> nat list" where
  "b64_groups [] = []"
| "b64_groups [a] = [a div 4, a mod 4 * 16]"
| "b64_groups [a, b] = [a div 4, a mod 4 * 16 + b div 16, b mod 16 * 4]"
| "b64_groups (a # b # c # rest) =
     [a div 4, a mod 4 * 16 + b div 16, b mod 16 * 4 + c div 64, c mod 64] @ b64_groups rest"

definition EncodeToString :: "string \<Rightarrow> string" where
  "EncodeToString s = map b64_char (b64_groups (map nat_of_byte s))"

fun b64_bytes :: "nat list \<Rightarrow> nat list option" where
  "b64_bytes [] = Some []"
| "b64_bytes [w] = None"
| "b64_bytes [w, x] = Some [w * 4 + x div 16]"
| "b64_bytes [w, x, y] = Some [w * 4 + x div 16, x mod 16 * 16 + y div 4]"
| "b64_bytes (w # x # y # z # rest) =
     map_option (\<lambda>bs. [w * 4 + x div 16, x mod 16 * 16 + y div 4, y mod 4 * 64 + z] @ bs) (b64_bytes rest)"

definition DecodeString :: "string \<Rightarrow> string option" where
  "DecodeString s =
     (let cs = filter (\<lambda>c. c \<noteq> CHR 0x0A \<and> c \<noteq> CHR 0x0D) s
      in if list_all (\<lambda>c. b64_val c \<noteq> None) cs
         then map_option (map byte_of) (b64_bytes (map (\<lambda>c. the (b64_val c)) cs))
         else None)"

section \<open>Decoding an encoded text\<close>

lemma b64_char_table:
  "list_all (\<lambda>n. b64_val (b64_char n) = Some n \<and> b64_char n \<noteq> CHR 0x0A \<and> b64_char n \<noteq> CHR 0x0D) [0..<64]"
  by code_simp

lemma b64_char_val:
  assumes "n < 64"
  shows "b64_val (b64_char n) = Some n" and "b64_char n \<noteq> CHR 0x0A" and "b64_char n \<noteq> CHR 0x0D"
  using b64_char_table assms by (auto simp: list_all_iff)

lemma b64_pieces:
  fixes a b c :: nat
  assumes "a < 256" and "b < 256" and "c < 256"
  shows "a div 4 < 64" and "b div 16 < 16" and "c div 64 < 4" and "a mod 4 * 16 + b div 16 < 64"
    and "b mod 16 * 4 + c div 64 < 64" and "a mod 4 * 16 < 64" and "b mod 16 * 4 < 64"
proof -
  show d: "a div 4 < 64" "b div 16 < 16" "c div 64 < 4" using assms by (simp_all add: less_mult_imp_div_less)
  have m: "a mod 4 < 4" "b mod 16 < 16" by simp_all
  from m d show "a mod 4 * 16 + b div 16 < 64" "b mod 16 * 4 + c div 64 < 64" by linarith+
  from m show "a mod 4 * 16 < 64" "b mod 16 * 4 < 64" by linarith+
qed

lemma b64_groups_bound: "list_all (\<lambda>b. b < 256) bs \<Longrightarrow> list_all (\<lambda>n. n < 64) (b64_groups bs)"
proof (induction bs rule: b64_groups.induct)
  case (4 a b c rest)
  then have "a div 4 < 64" "a mod 4 * 16 + b div 16 < 64" "b mod 16 * 4 + c div 64 < 64"
    using b64_pieces [of a b c] by simp_all
  with 4 show ?case by simp
next
  case (3 a b)
  then have "a div 4 < 64" "a mod 4 * 16 + b div 16 < 64" "b mod 16 * 4 < 64"
    using b64_pieces [of a b 0] by simp_all
  then show ?case by simp
next
  case (2 a)
  then have "a div 4 < 64" "a mod 4 * 16 < 64" using b64_pieces [of a 0 0] by simp_all
  then show ?case by simp
qed simp

lemma b64_bytes_groups: "list_all (\<lambda>b. b < 256) bs \<Longrightarrow> b64_bytes (b64_groups bs) = Some bs"
proof (induction bs rule: b64_groups.induct)
  case (4 a b c rest)
  have "(a mod 4 * 16 + b div 16) div 16 = a mod 4" "(a mod 4 * 16 + b div 16) mod 16 = b div 16"
    "(b mod 16 * 4 + c div 64) div 4 = b mod 16" "(b mod 16 * 4 + c div 64) mod 4 = c div 64"
    using 4 b64_pieces [of a b c] by simp_all
  with 4 show ?case by (simp add: mult.commute)
next
  case (3 a b)
  have "(a mod 4 * 16 + b div 16) div 16 = a mod 4" "(a mod 4 * 16 + b div 16) mod 16 = b div 16"
    using 3 b64_pieces [of a b 0] by simp_all
  then show ?case by (simp add: mult.commute)
qed simp_all

lemma byte_of_nat [simp]: "byte_of (nat_of_byte c) = c"
  by (simp add: byte_of_def nat_of_byte_def)

lemma nat_of_byte_less [simp]: "nat_of_byte c < 256"
  by (simp add: nat_of_byte_def)

lemma base64_decode_encode: "DecodeString (EncodeToString s) = Some s"
proof -
  let ?bs = "map nat_of_byte s"
  have bs: "list_all (\<lambda>b. b < 256) ?bs" by (simp add: list_all_iff)
  have g: "n < 64" if "n \<in> set (b64_groups ?bs)" for n
    using b64_groups_bound [OF bs] that by (simp add: list_all_iff)
  have "filter (\<lambda>c. c \<noteq> CHR 0x0A \<and> c \<noteq> CHR 0x0D) (EncodeToString s) = EncodeToString s"
    using g b64_char_val by (auto simp: EncodeToString_def filter_id_conv)
  moreover have "list_all (\<lambda>c. b64_val c \<noteq> None) (EncodeToString s)"
    using g b64_char_val(1) by (auto simp: EncodeToString_def list_all_iff)
  moreover have "map (\<lambda>c. the (b64_val c)) (EncodeToString s) = b64_groups ?bs"
    using g b64_char_val(1) by (auto simp: EncodeToString_def intro!: map_idI)
  ultimately show ?thesis
    using b64_bytes_groups [OF bs] by (simp add: DecodeString_def Let_def comp_def)
qed

lemma encode_nonempty: "EncodeToString s = [] \<longleftrightarrow> s = []"
  using base64_decode_encode [of s] by (auto simp: EncodeToString_def DecodeString_def)

end
