(* ===== verification/Mcp_Traverse.thy ===== *)
theory Mcp_Traverse
  imports Mcp_View Go_Base64 Go_Paths
begin

text \<open>
  The traversals of \<open>internal/mcp\<close>: the edge view and \<open>find_path\<close> (\<open>traverse.go\<close>),
  \<open>impact_of\<close> (\<open>impact.go\<close>), \<open>get_neighbors\<close> with its pages (\<open>tools.go\<close>) and the read-time
  resolution of an observed endpoint (\<open>resolve.go\<close>).
\<close>

section \<open>Edges\<close>

definition maxPathDepth :: int where "maxPathDepth = 10"

record edge =
  ed_rel :: Relation
  ed_other :: EntityID
  ed_direction :: string

definition edgeOf :: "Graph \<Rightarrow> EntityID \<Rightarrow> Relation \<Rightarrow> edge option" where
  "edgeOf g i r =
     (let (other, direction) = (if rel_To r = i \<and> rel_From r \<noteq> i then (rel_From r, ''incoming'') else (rel_To r, ''outgoing''))
      in case GetEntity g other of
           (Some _, False) \<Rightarrow> Some \<lparr>ed_rel = r, ed_other = other, ed_direction = direction\<rparr>
         | _ \<Rightarrow> None)"

definition edgesOf :: "Graph \<Rightarrow> EntityID \<Rightarrow> string \<Rightarrow> edge list" where
  "edgesOf g i relType = List.map_filter (edgeOf g i) (RelationsTouching g i relType)"

section \<open>find\_path\<close>

record cameFrom =
  cf_prev :: EntityID
  cf_via :: edge

definition zeroEdge :: edge where
  "zeroEdge = \<lparr>ed_rel = zeroRelation, ed_other = [], ed_direction = []\<rparr>"

definition zeroCameFrom :: cameFrom where
  "zeroCameFrom = \<lparr>cf_prev = [], cf_via = zeroEdge\<rparr>"

record pathWalk =
  pw_parents :: "(EntityID, cameFrom) gomap"
  pw_terminals :: "EntityID goset"
  pw_found :: bool

text \<open>What the walk reads of a node it leaves: whether it is terminal, and the type it arrived by.\<close>

definition leaving :: "Graph \<Rightarrow> EntityID \<Rightarrow> pathWalk \<Rightarrow> EntityID \<Rightarrow> bool \<times> string" where
  "leaving g start w cur =
     (if cur = start then (False, [])
      else case fst (GetEntity g cur) of
             None \<Rightarrow> (False, [])
           | Some ent \<Rightarrow>
               (IsTerminalEntityType (ent_Type ent),
                if CrossingNeedsADifferentRelation (ent_Type ent)
                then rel_Type (ed_rel (cf_via (gget zeroCameFrom (pw_parents w) cur))) else []))"

text \<open>The edges of one node, in order; the loop breaks when the goal is reached.\<close>

fun pathEdges :: "float64 \<Rightarrow> EntityID \<Rightarrow> EntityID \<Rightarrow> bool \<times> string \<Rightarrow> edge list
    \<Rightarrow> pathWalk \<times> EntityID list \<Rightarrow> pathWalk \<times> EntityID list" where
  "pathEdges thr goal cur leave [] s = s"
| "pathEdges thr goal cur leave (e # es) s =
     (case s of (w, nxt) \<Rightarrow>
        if fst leave \<and> ed_direction e \<noteq> ''outgoing''
        then pathEdges thr goal cur leave es (w\<lparr>pw_terminals := gadd cur (pw_terminals w)\<rparr>, nxt)
        else if snd leave \<noteq> [] \<and> rel_Type (ed_rel e) = snd leave
        then pathEdges thr goal cur leave es (w\<lparr>pw_terminals := gadd cur (pw_terminals w)\<rparr>, nxt)
        else if rel_Type (ed_rel e) = RelSameAs \<and> \<not> believed thr (ed_rel e)
        then pathEdges thr goal cur leave es s
        else if ghas (pw_parents w) (ed_other e)
        then pathEdges thr goal cur leave es s
        else let w = w\<lparr>pw_parents := gput (ed_other e) \<lparr>cf_prev = cur, cf_via = e\<rparr> (pw_parents w)\<rparr>
             in if ed_other e = goal then (w\<lparr>pw_found := True\<rparr>, nxt)
                else pathEdges thr goal cur leave es (w, nxt @ [ed_other e]))"

fun pathNodes :: "float64 \<Rightarrow> Graph \<Rightarrow> EntityID \<Rightarrow> EntityID \<Rightarrow> string \<Rightarrow> EntityID list
    \<Rightarrow> pathWalk \<times> EntityID list \<Rightarrow> pathWalk \<times> EntityID list" where
  "pathNodes thr g start goal relType [] s = s"
| "pathNodes thr g start goal relType (cur # frontier) s =
     (let s = pathEdges thr goal cur (leaving g start (fst s) cur) (edgesOf g cur relType) s
      in if pw_found (fst s) then s else pathNodes thr g start goal relType frontier s)"

fun pathLevels :: "float64 \<Rightarrow> Graph \<Rightarrow> EntityID \<Rightarrow> EntityID \<Rightarrow> string \<Rightarrow> nat \<Rightarrow> pathWalk \<Rightarrow> EntityID list \<Rightarrow> pathWalk" where
  "pathLevels thr g start goal relType 0 w frontier = w"
| "pathLevels thr g start goal relType (Suc d) w frontier =
     (if frontier = [] \<or> pw_found w then w
      else case pathNodes thr g start goal relType frontier (w, []) of
             (w, nxt) \<Rightarrow> pathLevels thr g start goal relType d w nxt)"

definition walkPaths :: "float64 \<Rightarrow> Graph \<Rightarrow> EntityID \<Rightarrow> EntityID \<Rightarrow> string \<Rightarrow> int \<Rightarrow> pathWalk" where
  "walkPaths thr g start goal relType depth =
     pathLevels thr g start goal relType (nat depth)
       \<lparr>pw_parents = [(start, zeroCameFrom)], pw_terminals = [], pw_found = (start = goal)\<rparr> [start]"

record PathHop =
  ph_Entity :: EntityOut
  ph_ViaRelation :: string
  ph_Direction :: string

text \<open>The loop that follows the parents back from the goal, the last hop first.\<close>

partial_function (option) pathBack ::
    "Graph \<Rightarrow> (EntityID, cameFrom) gomap \<Rightarrow> EntityID \<Rightarrow> EntityID \<Rightarrow> PathHop list \<Rightarrow> PathHop list option" where
  "pathBack g parents from cur hops =
     (let p = gget zeroCameFrom parents cur;
          ent = (case fst (GetEntity g cur) of Some e \<Rightarrow> e | None \<Rightarrow> zeroEntity);
          hop = (if cur \<noteq> from
                 then \<lparr>ph_Entity = entityOut ent False, ph_ViaRelation = rel_Type (ed_rel (cf_via p)),
                       ph_Direction = ed_direction (cf_via p)\<rparr>
                 else \<lparr>ph_Entity = entityOut ent False, ph_ViaRelation = [], ph_Direction = []\<rparr>)
      in if cur = from then Some (hops @ [hop]) else pathBack g parents from (cf_prev p) (hops @ [hop]))"

definition maxConvergences :: nat where "maxConvergences = 10"

definition convergenceEntities :: "Graph \<Rightarrow> EntityID list \<Rightarrow> EntityOut list \<times> nat" where
  "convergenceEntities g ids =
     (let listed = sort_key eo_IdentityFingerprint
            (List.map_filter (\<lambda>i. case GetEntity g i of (Some ent, False) \<Rightarrow> Some (entityOut ent False) | _ \<Rightarrow> None) ids)
      in (take maxConvergences listed, length listed))"

record FindPathInput =
  fi_FromID :: string
  fi_ToID :: string
  fi_RelationType :: string
  fi_MaxDepth :: int
  fi_AsOf :: string

record FindPathOutput =
  fp_Graph :: GraphMeta
  fp_Reachable :: bool
  fp_Hops :: int
  fp_MaxDepth :: int
  fp_Path :: "PathHop list"
  fp_Convergences :: "EntityOut list"
  fp_ConvergenceTotal :: nat
  fp_ConvergenceNote :: "nat option"

definition liveHandle :: "Graph \<Rightarrow> string \<Rightarrow> McpErr + EntityID" where
  "liveHandle g handle =
     (case ResolveHandle g handle of
        None \<Rightarrow> Inl (NoLiveEntity handle)
      | Some i \<Rightarrow> (case GetEntity g i of (Some _, False) \<Rightarrow> Inr i | _ \<Rightarrow> Inl (NoLiveEntity handle)))"

definition clampDepth :: "int \<Rightarrow> int" where
  "clampDepth d = (if d \<le> 0 \<or> d > maxPathDepth then maxPathDepth else d)"

text \<open>The answer once the endpoints are resolved; \<^const>\<open>None\<close> is a loop that does not return.\<close>

definition pathAnswer :: "'d mcpEnv \<Rightarrow> 'd Server \<Rightarrow> Graph \<Rightarrow> FindPathInput \<Rightarrow> EntityID \<Rightarrow> EntityID \<Rightarrow> FindPathOutput option" where
  "pathAnswer env s g inp from to =
     (let depth = clampDepth (fi_MaxDepth inp);
          out = \<lparr>fp_Graph = graphMeta env s g (fi_AsOf inp), fp_Reachable = False, fp_Hops = 0, fp_MaxDepth = depth,
                 fp_Path = [], fp_Convergences = [], fp_ConvergenceTotal = 0,
                 fp_ConvergenceNote = None\<rparr>;
          w = walkPaths (ms_idThr s) g from to (fi_RelationType inp) depth
      in if \<not> pw_found w
         then let shared = (if pw_terminals w = [] then []
                  else let back = walkPaths (ms_idThr s) g to from (fi_RelationType inp) depth
                       in filter (ghas (pw_terminals back)) (gkeys (pw_terminals w)))
              in if shared = [] then Some out
                 else case convergenceEntities g shared of
                        (listed, n) \<Rightarrow> Some (out\<lparr>fp_Convergences := listed, fp_ConvergenceTotal := n,
                                                        fp_ConvergenceNote := Some n\<rparr>)
         else map_option (\<lambda>hops. out\<lparr>fp_Reachable := True, fp_Path := rev hops, fp_Hops := int (length hops) - 1\<rparr>)
                (pathBack g (pw_parents w) from to []))"

definition findPath :: "'d mcpEnv \<Rightarrow> FindPathInput \<Rightarrow> 'd Server \<Rightarrow> (McpErr + FindPathOutput) option" where
  "findPath env inp s =
     (if fi_FromID inp = [] \<or> fi_ToID inp = [] then Some (Inl EndpointsRequired)
      else case graphAt env s (fi_AsOf inp) of
             Inl err \<Rightarrow> Some (Inl err)
           | Inr g \<Rightarrow>
               (case liveHandle g (fi_FromID inp) of
                  Inl err \<Rightarrow> Some (Inl err)
                | Inr from \<Rightarrow>
                    (case liveHandle g (fi_ToID inp) of
                       Inl err \<Rightarrow> Some (Inl err)
                     | Inr to \<Rightarrow> map_option Inr (pathAnswer env s g inp from to))))"

section \<open>A breadth-first search through the edge view\<close>

text \<open>
  The loop that \<open>impactOf\<close> and \<open>getNeighbors\<close> both write out: \<open>keep cur e\<close> says whether the edge
  is followed, \<open>mark d e\<close> what is recorded when it reaches an entity for the first time.
\<close>

definition bfsEdge :: "(EntityID \<Rightarrow> edge \<Rightarrow> bool) \<Rightarrow> (nat \<Rightarrow> edge \<Rightarrow> 'r \<Rightarrow> 'r) \<Rightarrow> nat \<Rightarrow> EntityID
    \<Rightarrow> edge \<Rightarrow> EntityID goset \<times> EntityID list \<times> 'r \<Rightarrow> EntityID goset \<times> EntityID list \<times> 'r" where
  "bfsEdge keep mark d cur e s =
     (case s of (visited, nxt, r) \<Rightarrow>
        if \<not> keep cur e then s
        else if ghas visited (ed_other e) then s
        else (gadd (ed_other e) visited, nxt @ [ed_other e], mark d e r))"

fun bfsLevels :: "(EntityID \<Rightarrow> edge list) \<Rightarrow> (EntityID \<Rightarrow> edge \<Rightarrow> bool) \<Rightarrow> (nat \<Rightarrow> edge \<Rightarrow> 'r \<Rightarrow> 'r) \<Rightarrow> nat \<Rightarrow> nat
    \<Rightarrow> EntityID goset \<Rightarrow> EntityID list \<Rightarrow> 'r \<Rightarrow> 'r" where
  "bfsLevels edges keep mark 0 d visited frontier r = r"
| "bfsLevels edges keep mark (Suc k) d visited frontier r =
     (if frontier = [] then r
      else case fold (\<lambda>cur. fold (bfsEdge keep mark d cur) (edges cur)) frontier (visited, [], r) of
             (visited, nxt, r) \<Rightarrow> bfsLevels edges keep mark k (d + 1) visited nxt r)"

section \<open>impact\_of\<close>

record TypeCount =
  tc_Type :: string
  tc_Count :: nat
  tc_DisplayNameAbsent :: bool

definition sortedCounts :: "(string, nat) gomap \<Rightarrow> TypeCount list" where
  "sortedCounts m =
     sort_key (\<lambda>t. (- int (tc_Count t), tc_Type t))
       (map (\<lambda>(t, n). \<lparr>tc_Type = t, tc_Count = n, tc_DisplayNameAbsent = False\<rparr>) m)"

record ImpactOfInput =
  ii_EntityID :: string
  ii_MaxDepth :: int
  ii_Limit :: int
  ii_AsOf :: string

record ImpactedEntity =
  im_Entity :: EntityOut
  im_Depth :: nat
  im_Via :: string

record ImpactOfOutput =
  io_Graph :: GraphMeta
  io_Root :: EntityOut
  io_Impacted :: "ImpactedEntity list"
  io_Total :: nat
  io_Truncated :: bool
  io_ByType :: "TypeCount list"
  io_Aliases :: int
  io_Summary :: string

definition impactPropagates :: "edge \<Rightarrow> EntityID \<Rightarrow> bool" where
  "impactPropagates e failed =
     (case ImpactFlowOf (rel_Type (ed_rel e)) of
        ImpactToFrom \<Rightarrow> rel_To (ed_rel e) = failed
      | ImpactFromTo \<Rightarrow> rel_From (ed_rel e) = failed
      | ImpactNone \<Rightarrow> False
      | ImpactBoth \<Rightarrow> True)"

definition entityOrZero :: "Graph \<Rightarrow> EntityID \<Rightarrow> Entity" where
  "entityOrZero g i = (case fst (GetEntity g i) of Some e \<Rightarrow> e | None \<Rightarrow> zeroEntity)"

definition noteImpact :: "Graph \<Rightarrow> nat \<Rightarrow> edge \<Rightarrow> ImpactedEntity list \<times> (string, nat) gomap
    \<Rightarrow> ImpactedEntity list \<times> (string, nat) gomap" where
  "noteImpact g d e r =
     (let ent = entityOrZero g (ed_other e)
      in (fst r @ [\<lparr>im_Entity = entityOut ent False, im_Depth = d, im_Via = rel_Type (ed_rel e)\<rparr>],
          gput (ent_Type ent) (gget 0 (snd r) (ent_Type ent) + 1) (snd r)))"

definition sortImpacted :: "ImpactedEntity list \<Rightarrow> ImpactedEntity list" where
  "sortImpacted impacted = sort_key (\<lambda>i. (im_Depth i, eo_Label (im_Entity i))) impacted"

definition impactSummary :: "Entity \<Rightarrow> nat \<Rightarrow> TypeCount list \<Rightarrow> string" where
  "impactSummary e n byType =
     (if n = 0
      then ''Nothing depends on '' @ label e @ '': its failure propagates to no other entity within the explored depth.''
      else ''A failure of '' @ label e @ '' impacts '' @ itoa n @ '' entities: ''
           @ join '', '' (map (\<lambda>tc. itoa (tc_Count tc) @ '' '' @ tc_Type tc) byType) @ ''.'')"

definition impactAnswer :: "'d mcpEnv \<Rightarrow> 'd Server \<Rightarrow> Graph \<Rightarrow> ImpactOfInput \<Rightarrow> EntityID \<Rightarrow> ImpactOfOutput option" where
  "impactAnswer env s g inp rootID =
     map_option (\<lambda>group.
        let (impacted, counts) = bfsLevels (\<lambda>i. edgesOf g i []) (\<lambda>cur e. impactPropagates e cur) (noteImpact g)
               (nat (clampDepth (ii_MaxDepth inp))) 1 (map (\<lambda>i. (i, ())) group) group ([], []);
            impacted = sortImpacted impacted;
            limit = nat (clampLimit (ii_Limit inp))
        in \<lparr>io_Graph = graphMeta env s g (ii_AsOf inp), io_Root = entityOut (entityOrZero g rootID) False,
            io_Impacted = take limit impacted, io_Total = length impacted, io_Truncated = (length impacted > limit),
            io_ByType = sortedCounts counts, io_Aliases = int (length group) - 1,
            io_Summary = impactSummary (entityOrZero g rootID) (length impacted) (sortedCounts counts)\<rparr>)
       (canonicalMemberIDs s g rootID)"

definition impactOf :: "'d mcpEnv \<Rightarrow> ImpactOfInput \<Rightarrow> 'd Server \<Rightarrow> (McpErr + ImpactOfOutput) option" where
  "impactOf env inp s =
     (if ii_EntityID inp = [] then Some (Inl EntityRequired)
      else case graphAt env s (ii_AsOf inp) of
             Inl err \<Rightarrow> Some (Inl err)
           | Inr g \<Rightarrow>
               (case liveHandle g (ii_EntityID inp) of
                  Inl err \<Rightarrow> Some (Inl err)
                | Inr rootID \<Rightarrow> map_option Inr (impactAnswer env s g inp rootID)))"

section \<open>The entity an observed endpoint denotes\<close>

definition identityValue :: "Entity \<Rightarrow> string \<Rightarrow> string" where
  "identityValue e key = (case map_of (ent_Identity e) key of Some v \<Rightarrow> fst (valueString v) | None \<Rightarrow> [])"

definition mcpAttrValue :: "Entity \<Rightarrow> string \<Rightarrow> string" where
  "mcpAttrValue e key = (case map_of (ent_Attributes e) key of Some v \<Rightarrow> fst (valueString v) | None \<Rightarrow> [])"

definition listenerPort :: "Entity \<Rightarrow> string" where
  "listenerPort l =
     (let ep = identityValue l ''service.endpoint'';
          ep = (if contains_byte ep (CHR ''/'') then rev (tl (dropWhile (\<lambda>c. c \<noteq> CHR ''/'') (rev ep))) else ep)
      in if contains_byte ep (CHR '':'') then rev (takeWhile (\<lambda>c. c \<noteq> CHR '':'') (rev ep)) else [])"

definition listenerProto :: "Entity \<Rightarrow> string" where
  "listenerProto l =
     (let ep = identityValue l ''service.endpoint''
      in if contains_byte ep (CHR ''/'') then rev (takeWhile (\<lambda>c. c \<noteq> CHR ''/'') (rev ep)) else [])"

definition protoMismatch :: "Entity \<Rightarrow> string \<Rightarrow> bool" where
  "protoMismatch l transport = (let p = listenerProto l in p \<noteq> [] \<and> transport \<noteq> [] \<and> p \<noteq> transport)"

definition listenerByBind :: "Graph \<Rightarrow> string \<Rightarrow> string \<Rightarrow> string \<Rightarrow> Entity option" where
  "listenerByBind g addr port transport =
     find (\<lambda>l. \<not> (mcpAttrValue l ''listen.address'' \<noteq> addr) \<and> \<not> (port \<noteq> [] \<and> listenerPort l \<noteq> port)
             \<and> \<not> protoMismatch l transport)
       (ListEntities g TypeServiceListener)"

definition hostByID :: "Graph \<Rightarrow> string \<Rightarrow> Entity option" where
  "hostByID g hid = find (\<lambda>h. identityValue h ''host.id'' = hid) (ListEntities g TypeHost)"

definition firstSome :: "'a option list \<Rightarrow> 'a option" where
  "firstSome xs = (case filter (\<lambda>x. x \<noteq> None) xs of x # _ \<Rightarrow> x | [] \<Rightarrow> None)"

definition hostForAddress :: "Graph \<Rightarrow> string \<Rightarrow> Entity option" where
  "hostForAddress g addr =
     (case find (\<lambda>a. identityValue a ''network.address'' = addr) (ListEntities g TypeNetworkAddress) of
        None \<Rightarrow> None
      | Some a \<Rightarrow>
          firstSome (concat (map (\<lambda>bt.
            map (\<lambda>hi. case GetEntity g (rel_From hi) of
                        (Some h, False) \<Rightarrow> if ent_Type h = TypeHost then Some h else None | _ \<Rightarrow> None)
              (ListRelations g RelHasInterface [] (rel_To bt)))
            (ListRelations g RelBoundTo (ent_ID a) []))))"

definition listenerOnHostPort :: "Graph \<Rightarrow> Entity \<Rightarrow> string \<Rightarrow> string \<Rightarrow> Entity option" where
  "listenerOnHostPort g host port transport =
     firstSome (map (\<lambda>r. case GetEntity g (rel_From r) of
         (Some l, False) \<Rightarrow>
           if ent_Type l = TypeServiceListener \<and> listenerPort l = port \<and> \<not> protoMismatch l transport then Some l else None
       | _ \<Rightarrow> None)
       (ListRelations g RelRunsOn [] (ent_ID host)))"

definition onHost :: "Graph \<Rightarrow> Entity \<Rightarrow> string \<Rightarrow> string \<Rightarrow> Entity" where
  "onHost g host port transport =
     (if port = [] then host
      else case listenerOnHostPort g host port transport of Some l \<Rightarrow> l | None \<Rightarrow> host)"

definition resolveObserved :: "Graph \<Rightarrow> Entity \<Rightarrow> Entity option" where
  "resolveObserved g endpoint =
     (let addr = identityValue endpoint ''server.address'';
          port = identityValue endpoint ''server.port'';
          transport = identityValue endpoint ''network.transport'';
          hostID = identityValue endpoint ''host.id''
      in if addr = [] then None
         else if hostID \<noteq> []
         then (case hostByID g hostID of None \<Rightarrow> None | Some host \<Rightarrow> Some (onHost g host port transport))
         else case listenerByBind g addr port transport of
                Some l \<Rightarrow> Some l
              | None \<Rightarrow>
                  (case hostForAddress g addr of None \<Rightarrow> None | Some host \<Rightarrow> Some (onHost g host port transport)))"

section \<open>get\_neighbors\<close>

record GetNeighborsInput =
  ni_EntityID :: string
  ni_RelationType :: string
  ni_MaxDepth :: int
  ni_After :: string
  ni_Limit :: int
  ni_AsOf :: string
  ni_Verbosity :: string

record Neighbor =
  nb_Entity :: EntityOut
  nb_ViaRelation :: string
  nb_Direction :: string
  nb_Depth :: nat
  nb_ViaAssertedBy :: "string list option"
  nb_ViaCollectedBy :: "string list option"
  nb_ViaWithheld :: bool
  nb_ResolvedEntity :: "EntityOut option"

record GetNeighborsOutput =
  no_Graph :: GraphMeta
  no_Neighbors :: "Neighbor list"
  no_Count :: nat
  no_NextCursor :: string
  no_Truncation :: "(nat \<times> nat \<times> string) option"
  no_Total :: nat
  no_Truncated :: bool

definition attachEdgeProvenance :: "'d Server \<Rightarrow> RelationID \<Rightarrow> string \<Rightarrow> Neighbor \<Rightarrow> Neighbor" where
  "attachEdgeProvenance s rid asOf nb =
     (case ms_cadence s of
        None \<Rightarrow> nb
      | Some c \<Rightarrow>
          if asOf \<noteq> [] then nb\<lparr>nb_ViaWithheld := True\<rparr>
          else nb\<lparr>nb_ViaAssertedBy := Some (cad_RelationAssertingProducers c rid),
                  nb_ViaCollectedBy := Some (cad_RelationAssertingScopes c rid)\<rparr>)"

definition neighborOut :: "'d Server \<Rightarrow> Graph \<Rightarrow> bool \<Rightarrow> string \<Rightarrow> nat \<Rightarrow> edge \<Rightarrow> Neighbor" where
  "neighborOut s g brief asOf d e =
     (let ent = entityOrZero g (ed_other e);
          nb = attachEdgeProvenance s (rel_ID (ed_rel e)) asOf
                 \<lparr>nb_Entity = entityOutV ent False brief, nb_ViaRelation = rel_Type (ed_rel e),
                  nb_Direction = ed_direction e, nb_Depth = d, nb_ViaAssertedBy = None, nb_ViaCollectedBy = None,
                  nb_ViaWithheld = False, nb_ResolvedEntity = None\<rparr>
      in if ent_Type ent = TypeNetworkEndpoint
         then nb\<lparr>nb_ResolvedEntity := map_option (\<lambda>r. entityOutV r False brief) (resolveObserved g ent)\<rparr>
         else nb)"

definition encodeCursor :: "string \<Rightarrow> string" where
  "encodeCursor fp = EncodeToString fp"

definition decodeCursor :: "string \<Rightarrow> string option" where
  "decodeCursor c = DecodeString c"

definition neighborKey :: "Neighbor \<Rightarrow> string" where
  "neighborKey n = pad 9 (nb_Depth n) @ [x00] @ eo_IdentityFingerprint (nb_Entity n)"

definition pageNeighbors :: "Neighbor list \<Rightarrow> string \<Rightarrow> nat \<Rightarrow> McpErr + (Neighbor list \<times> string)" where
  "pageNeighbors all after limit =
     (case (if after = [] then Some all
            else map_option (\<lambda>want. dropWhile (\<lambda>n. neighborKey n \<le> want) all) (decodeCursor after)) of
        None \<Rightarrow> Inl (BadCursor after)
      | Some all \<Rightarrow>
          if length all \<le> limit then Inr (all, [])
          else let page = take limit all in Inr (page, encodeCursor (neighborKey (last page))))"

text \<open>All neighbours in the order of the answer, before the page is cut.\<close>

definition allNeighbors :: "'d Server \<Rightarrow> Graph \<Rightarrow> bool \<Rightarrow> string \<Rightarrow> string \<Rightarrow> EntityID \<Rightarrow> nat \<Rightarrow> Neighbor list" where
  "allNeighbors s g brief asOf relType start depth =
     sort_key (\<lambda>n. (nb_Depth n, eo_IdentityFingerprint (nb_Entity n)))
       (bfsLevels (\<lambda>i. edgesOf g i relType) (\<lambda>_ _. True) (\<lambda>d e r. r @ [neighborOut s g brief asOf d e])
          depth 1 [(start, ())] [start] [])"

definition getNeighbors :: "'d mcpEnv \<Rightarrow> GetNeighborsInput \<Rightarrow> 'd Server \<Rightarrow> McpErr + GetNeighborsOutput" where
  "getNeighbors env inp s =
     (if ni_EntityID inp = [] then Inl EntityRequired
      else case parseVerbosity (ni_Verbosity inp) of
        Inl err \<Rightarrow> Inl err
      | Inr brief \<Rightarrow>
          let depth = (if ni_MaxDepth inp \<le> 0 then 1 else ni_MaxDepth inp);
              limit = nat (clampLimit (ni_Limit inp))
          in if depth > maxDepth then Inl (DepthTooLarge (ni_MaxDepth inp))
             else case graphAt env s (ni_AsOf inp) of
               Inl err \<Rightarrow> Inl err
             | Inr g \<Rightarrow>
                 (case ResolveHandle g (ni_EntityID inp) of
                    None \<Rightarrow> Inl (notFoundMsg s (ni_EntityID inp) (ni_AsOf inp))
                  | Some start \<Rightarrow>
                      if fst (GetEntity g start) = None then Inl (notFoundMsg s (ni_EntityID inp) (ni_AsOf inp))
                      else let all = allNeighbors s g brief (ni_AsOf inp) (ni_RelationType inp) start (nat depth)
                           in case pageNeighbors all (ni_After inp) limit of
                                Inl err \<Rightarrow> Inl err
                              | Inr (page, cursor) \<Rightarrow>
                                  Inr \<lparr>no_Graph = graphMeta env s g (ni_AsOf inp), no_Neighbors = page,
                                       no_Count = length page, no_NextCursor = cursor,
                                       no_Truncation = (if cursor = [] then None else Some (length page, length all, cursor)),
                                       no_Total = length all,
                                       no_Truncated = (cursor \<noteq> [])\<rparr>))"

end
