(* ===== verification/Mcp_Changes.thy ===== *)
theory Mcp_Changes
  imports Mcp_Traverse
begin

text \<open>
  The timeline tools of \<open>internal/mcp\<close>: the change filter, \<open>recent_changes\<close> and
  \<open>entity_history\<close> (\<open>tools.go\<close>) and \<open>graph_diff\<close> (\<open>diff.go\<close>).
\<close>

section \<open>Windows\<close>

definition diffBounds :: "'d Server \<Rightarrow> string \<Rightarrow> string \<Rightarrow> string \<Rightarrow> McpErr + (time \<times> time)" where
  "diffBounds s window from to =
     (if window \<noteq> [] \<and> from \<noteq> [] then Inl WindowAndFrom
      else if window \<noteq> []
      then (case ParseDuration window of
              None \<Rightarrow> Inl (BadWindow window)
            | Some d \<Rightarrow> if d \<le> 0 then Inl (BadWindow window) else Inr (ms_now s - d, ms_now s))
      else if from \<noteq> []
      then (case parseOptTime from ''from'' of
              Inl err \<Rightarrow> Inl err
            | Inr start \<Rightarrow>
                (case (if to \<noteq> [] then parseOptTime to ''to'' else Inr (ms_now s)) of
                   Inl err \<Rightarrow> Inl err
                 | Inr stop \<Rightarrow> if \<not> stop > start then Inl (EmptyWindow start stop) else Inr (start, stop)))
      else Inl WindowRequired)"

section \<open>The change filter\<close>

record changeFilter =
  cf_changeType :: ChangeType
  cf_scope :: string
  cf_match :: "(string, string) gomap"
  cf_includeHeartbeats :: bool

definition parseChangeType :: "string \<Rightarrow> McpErr + ChangeType" where
  "parseChangeType s =
     (if s = [] then Inr ChangeUnspecified
      else case find (\<lambda>c. ct_String c = s)
        [EntityCreated, EntityDeleted, EntityIdentityChanged, EntityAttributeUpdated, EntityStateChanged, EntityUnchanged,
         RelationAdded, RelationRemoved, RelationAttributeChanged] of
        Some c \<Rightarrow> Inr c
      | None \<Rightarrow> Inl (BadChangeType s))"

definition newChangeFilterFull :: "string \<Rightarrow> string \<Rightarrow> (string, string) gomap \<Rightarrow> bool \<Rightarrow> McpErr + changeFilter" where
  "newChangeFilterFull changeType scope match includeHeartbeats =
     (case parseChangeType changeType of
        Inl err \<Rightarrow> Inl err
      | Inr ct \<Rightarrow> Inr \<lparr>cf_changeType = ct, cf_scope = scope, cf_match = match, cf_includeHeartbeats = includeHeartbeats\<rparr>)"

definition newChangeFilterScoped :: "string \<Rightarrow> string \<Rightarrow> bool \<Rightarrow> McpErr + changeFilter" where
  "newChangeFilterScoped changeType scope includeHeartbeats = newChangeFilterFull changeType scope [] includeHeartbeats"

definition newChangeFilter :: "string \<Rightarrow> bool \<Rightarrow> McpErr + changeFilter" where
  "newChangeFilter changeType includeHeartbeats = newChangeFilterScoped changeType [] includeHeartbeats"

definition needsRecord :: "changeFilter \<Rightarrow> bool" where
  "needsRecord f = (cf_scope f \<noteq> [] \<or> cf_match f \<noteq> [])"

definition eventScope :: "Event \<Rightarrow> string" where
  "eventScope ev =
     (case ev_Entity ev of Some ee \<Rightarrow> ee_Scope ee
      | None \<Rightarrow> (case ev_Relation ev of Some re \<Rightarrow> re_Scope re | None \<Rightarrow> []))"

definition keepScope :: "changeFilter \<Rightarrow> Event \<Rightarrow> bool" where
  "keepScope f ev =
     (\<not> (cf_scope f \<noteq> [] \<and> eventScope ev \<noteq> cf_scope f) \<and>
      (cf_match f = [] \<or> (case ev_Entity ev of None \<Rightarrow> False | Some ee \<Rightarrow> MatchAll (ee_Entity ee) (cf_match f))))"

definition keepClass :: "changeFilter \<Rightarrow> ChangeType \<Rightarrow> bool \<times> bool" where
  "keepClass f ct =
     (if cf_changeType f \<noteq> ChangeUnspecified then (ct = cf_changeType f, False)
      else if ct = EntityUnchanged \<and> \<not> cf_includeHeartbeats f then (False, True)
      else (True, False))"

definition eventChangeType :: "Event \<Rightarrow> ChangeType" where
  "eventChangeType ev =
     (case ev_Entity ev of Some ee \<Rightarrow> ee_ChangeType ee
      | None \<Rightarrow> (case ev_Relation ev of Some re \<Rightarrow> re_ChangeType re | None \<Rightarrow> ChangeUnspecified))"

definition keep :: "changeFilter \<Rightarrow> Event \<Rightarrow> bool \<times> bool" where
  "keep f ev = keepClass f (eventChangeType ev)"

definition keepKindClass :: "ChangeType \<Rightarrow> bool \<Rightarrow> string \<Rightarrow> bool" where
  "keepKindClass ct structural kind =
     (if kind = ''entity'' then IsEntity ct
      else if kind = ''relation'' then IsRelation ct
      else if kind = ''structural'' then structural
      else True)"

section \<open>The digest\<close>

record ChangeDigest =
  cd_Total :: nat
  cd_HeartbeatsExcluded :: nat
  cd_ByChangeType :: "(string, nat) gomap"

definition emptyDigest :: ChangeDigest where
  "emptyDigest = \<lparr>cd_Total = 0, cd_HeartbeatsExcluded = 0, cd_ByChangeType = []\<rparr>"

definition tallyClass :: "ChangeType \<Rightarrow> ChangeDigest \<Rightarrow> ChangeDigest" where
  "tallyClass c d =
     d\<lparr>cd_ByChangeType := gput (ct_String c) (gget 0 (cd_ByChangeType d) (ct_String c) + 1) (cd_ByChangeType d)\<rparr>"

definition finishDigest :: "ChangeDigest \<Rightarrow> TypeCount list" where
  "finishDigest d = sortedCounts (cd_ByChangeType d)"

section \<open>recent\_changes\<close>

record RecentChangesInput =
  rc_Window :: string
  rc_From :: string
  rc_To :: string
  rc_Kind :: string
  rc_ChangeType :: string
  rc_Scope :: string
  rc_Match :: "(string, string) gomap"
  rc_IncludeHeartbeats :: bool
  rc_Limit :: int

text \<open>What the truncation sentence quotes: how many of how many, and the oldest change returned.\<close>

record RecentChangesOutput =
  rco_Graph :: GraphMeta
  rco_Changes :: "Change list"
  rco_Count :: nat
  rco_WindowFrom :: string
  rco_WindowTo :: string
  rco_Horizon :: "HorizonNote option"
  rco_Partial :: "(nat \<times> nat \<times> string) option"
  rco_Total :: nat
  rco_Truncated :: bool
  rco_HeartbeatsExcluded :: nat
  rco_ByChangeType :: "TypeCount list"

text \<open>\<open>strings.ToLower\<close>, on the ASCII letters.\<close>

definition lowerAscii :: "char \<Rightarrow> char" where
  "lowerAscii c = (let n = (of_char c :: nat) in if 65 \<le> n \<and> n \<le> 90 then char_of (n + 32) else c)"

definition structuralOf :: "Event \<Rightarrow> bool" where
  "structuralOf ev = (case ev_Relation ev of Some re \<Rightarrow> rel_Structural (re_Relation re) | None \<Rightarrow> False)"

text \<open>
  The callback of the index scan.  \<open>resolve\<close> reads a record, where \<^const>\<open>None\<close> is a row whose
  record is gone: the entry is then skipped, after it was counted when only the page needed it.
\<close>

definition recentEntry :: "(64 word \<Rightarrow> StoreErr + Event option) \<Rightarrow> changeFilter \<Rightarrow> string \<Rightarrow> nat
    \<Rightarrow> TimeIndexEntry \<Rightarrow> ChangeDigest \<times> Change list \<Rightarrow> StoreErr + (ChangeDigest \<times> Change list)" where
  "recentEntry resolve f kind limit e acc =
     (case (if ti_Tagged e then Inr (Some (ti_ChangeType e, ti_Structural e, None))
            else map_sum id (map_option (\<lambda>ev. (eventChangeType ev, structuralOf ev, Some ev))) (resolve (ti_Seq e))) of
        Inl err \<Rightarrow> Inl err
      | Inr None \<Rightarrow> Inr acc
      | Inr (Some (ct, structural, known)) \<Rightarrow>
          if \<not> keepKindClass ct structural kind then Inr acc
          else case keepClass f ct of (kept, heartbeat) \<Rightarrow>
            let (d, changes) = acc;
                d = (if heartbeat then d\<lparr>cd_HeartbeatsExcluded := cd_HeartbeatsExcluded d + 1\<rparr> else d)
            in if \<not> kept then Inr (d, changes)
               else case (if needsRecord f \<and> known = None then resolve (ti_Seq e) else Inr known) of
                      Inl err \<Rightarrow> Inl err
                    | Inr known \<Rightarrow>
                        if needsRecord f \<and> (case known of None \<Rightarrow> True | Some ev \<Rightarrow> \<not> keepScope f ev) then Inr (d, changes)
                        else let d = tallyClass ct (d\<lparr>cd_Total := cd_Total d + 1\<rparr>)
                             in if length changes < limit
                                then (case (case known of None \<Rightarrow> resolve (ti_Seq e) | Some ev \<Rightarrow> Inr (Some ev)) of
                                        Inl err \<Rightarrow> Inl err
                                      | Inr None \<Rightarrow> Inr (d, changes)
                                      | Inr (Some ev) \<Rightarrow> Inr (d, changes @ [changeOut ev]))
                                else Inr (d, changes))"

definition validKinds :: "string list" where
  "validKinds = [[], ''all'', ''entity'', ''relation'', ''structural'']"

definition recentAnswer :: "'d mcpEnv \<Rightarrow> 'd Server \<Rightarrow> time \<Rightarrow> time \<Rightarrow> nat \<Rightarrow> ChangeDigest \<times> Change list \<Rightarrow> RecentChangesOutput" where
  "recentAnswer env s from to limit acc =
     (case acc of (d, changes) \<Rightarrow>
        \<lparr>rco_Graph = graphMeta env s (ms_graph s) [], rco_Changes = changes, rco_Count = length changes,
         rco_WindowFrom = formatTime from, rco_WindowTo = formatTime to, rco_Horizon = horizonWarning s from to,
         rco_Partial = (if cd_Total d > limit \<and> changes \<noteq> []
           then Some (length changes, cd_Total d, ch_EventTime (last changes)) else None),
         rco_Total = cd_Total d, rco_Truncated = (cd_Total d > limit),
         rco_HeartbeatsExcluded = cd_HeartbeatsExcluded d, rco_ByChangeType = finishDigest d\<rparr>)"

definition recentChanges :: "'d mcpEnv \<Rightarrow> RecentChangesInput \<Rightarrow> 'd Server \<Rightarrow> McpErr + RecentChangesOutput" where
  "recentChanges env inp s =
     (let window = (if rc_Window inp = [] \<and> rc_From inp = [] then ''1h'' else rc_Window inp)
      in case diffBounds s window (rc_From inp) (rc_To inp) of
           Inl err \<Rightarrow> Inl err
         | Inr (from, to) \<Rightarrow>
             let kind = map lowerAscii (trim_space (rc_Kind inp))
             in if kind \<notin> set validKinds then Inl (BadKind (rc_Kind inp))
                else case newChangeFilterFull (rc_ChangeType inp) (rc_Scope inp) (rc_Match inp) (rc_IncludeHeartbeats inp) of
                  Inl err \<Rightarrow> Inl err
                | Inr f \<Rightarrow>
                    let limit = nat (clampLimit (rc_Limit inp))
                    in case ScanTimeIndex (me_pb env) (me_ctx env) from (to + 1) True
                              (recentEntry (Resolve (me_pb env) (me_pm env) (ms_store s)) f kind limit) (ms_store s) (emptyDigest, []) of
                         Inl err \<Rightarrow> Inl (ReadErr err)
                       | Inr acc \<Rightarrow> Inr (recentAnswer env s from to limit acc))"

section \<open>entity\_history\<close>

record EntityHistoryInput =
  eh_EntityID :: string
  eh_Since :: string
  eh_Until :: string
  eh_AsKnownAt :: string
  eh_ChangeType :: string
  eh_IncludeHeartbeats :: bool
  eh_Limit :: int

record EntityHistoryOutput =
  ho_Graph :: GraphMeta
  ho_Resolution :: "Resolution option"
  ho_OneIncarnation :: "time option"
  ho_Horizon :: "HorizonNote option"
  ho_Changes :: "Change list"
  ho_Count :: nat
  ho_Total :: nat
  ho_Truncated :: bool
  ho_HeartbeatsExcluded :: nat
  ho_ByChangeType :: "TypeCount list"

definition inBounds :: "time \<Rightarrow> time \<Rightarrow> time \<Rightarrow> Event \<Rightarrow> bool" where
  "inBounds since until known ev =
     (case Times ev of (et, rt) \<Rightarrow>
        \<not> (since \<noteq> 0 \<and> et < since) \<and> \<not> (until \<noteq> 0 \<and> et > until) \<and> \<not> (known \<noteq> 0 \<and> rt > known))"

definition historyEntry :: "changeFilter \<Rightarrow> time \<Rightarrow> time \<Rightarrow> time \<Rightarrow> Event \<Rightarrow> ChangeDigest \<times> Event list \<Rightarrow> ChangeDigest \<times> Event list" where
  "historyEntry f since until known ev acc =
     (if \<not> inBounds since until known ev then acc
      else case keep f ev of (kept, heartbeat) \<Rightarrow>
        let (d, evs) = acc;
            d = (if heartbeat then d\<lparr>cd_HeartbeatsExcluded := cd_HeartbeatsExcluded d + 1\<rparr> else d)
        in if \<not> kept then (d, evs) else (tallyClass (eventChangeType ev) d, evs @ [ev]))"

definition historyAnswer :: "'d mcpEnv \<Rightarrow> 'd Server \<Rightarrow> EntityID \<Rightarrow> time \<Rightarrow> time \<Rightarrow> nat \<Rightarrow> ChangeDigest \<times> Event list \<Rightarrow> EntityHistoryOutput" where
  "historyAnswer env s i since until limit acc =
     (case acc of (d, evs) \<Rightarrow>
        let sorted = sort_key (\<lambda>ev. fst (Times ev)) evs;
            kept = (if length sorted > limit then drop (length sorted - limit) sorted else sorted)
        in \<lparr>ho_Graph = graphMeta env s (ms_graph s) [], ho_Resolution = resolutionFor s i [],
            ho_OneIncarnation = (case sorted of
               ev # _ \<Rightarrow> (case ev_Entity ev of
                            Some ee \<Rightarrow> if ee_ChangeType ee = EntityCreated then Some (fst (Times ev)) else None
                          | None \<Rightarrow> None)
             | [] \<Rightarrow> None),
            ho_Horizon = (if since \<noteq> 0 then horizonWarning s since (if until = 0 then ms_now s else until) else None),
            ho_Changes = map changeOut kept, ho_Count = length kept, ho_Total = length sorted,
            ho_Truncated = (length sorted > limit), ho_HeartbeatsExcluded = cd_HeartbeatsExcluded d,
            ho_ByChangeType = finishDigest d\<rparr>)"

definition entityHistory :: "'d mcpEnv \<Rightarrow> EntityHistoryInput \<Rightarrow> 'd Server \<Rightarrow> McpErr + EntityHistoryOutput" where
  "entityHistory env inp s =
     (if eh_EntityID inp = [] then Inl EntityRequired
      else case parseOptTime (eh_Since inp) ''since'' of
        Inl err \<Rightarrow> Inl err
      | Inr since \<Rightarrow>
      (case parseOptTime (eh_Until inp) ''until'' of
        Inl err \<Rightarrow> Inl err
      | Inr until \<Rightarrow>
      (case parseOptTime (eh_AsKnownAt inp) ''as_known_at'' of
        Inl err \<Rightarrow> Inl err
      | Inr known \<Rightarrow>
      (case newChangeFilter (eh_ChangeType inp) (eh_IncludeHeartbeats inp) of
        Inl err \<Rightarrow> Inl err
      | Inr f \<Rightarrow>
      (case ResolveHandle (ms_graph s) (eh_EntityID inp) of
        None \<Rightarrow> Inl (notFoundMsg s (eh_EntityID inp) [])
      | Some i \<Rightarrow>
      (case ReadByEntity (me_pb env) (me_pm env) (me_ctx env) i (ms_store s) of
        Inl err \<Rightarrow> Inl (ReadErr err)
      | Inr evs \<Rightarrow>
          Inr (historyAnswer env s i since until (nat (clampLimit (eh_Limit inp)))
                 (fold (historyEntry f since until known) evs (emptyDigest, [])))))))))"

section \<open>graph\_diff\<close>

record GraphDiffInput =
  gi_Window :: string
  gi_From :: string
  gi_To :: string
  gi_Limit :: int

record EntityDiff =
  edf_Entity :: EntityOut
  edf_ChangedKeys :: "string list"
  edf_StateChanged :: bool

record DeletedEntity =
  de_Entity :: EntityOut
  de_DeleteReason :: string
  de_DeleteSource :: string

record DiffTotals =
  dtt_EntitiesCreated :: nat
  dtt_EntitiesDeleted :: nat
  dtt_EntitiesChanged :: nat
  dtt_EntitiesTransient :: nat
  dtt_RelationsAdded :: nat
  dtt_RelationsRemoved :: nat
  dtt_RelationsChanged :: nat
  dtt_RelationsTransient :: nat

record GraphDiffOutput =
  gd_Graph :: GraphMeta
  gd_From :: string
  gd_To :: string
  gd_Summary :: string
  gd_Covered :: "HorizonNote option"
  gd_EntitiesCreated :: "EntityOut list"
  gd_EntitiesDeleted :: "DeletedEntity list"
  gd_EntitiesChanged :: "EntityDiff list"
  gd_EntitiesTransient :: "DeletedEntity list"
  gd_RelationsAdded :: "RelationOut list"
  gd_RelationsRemoved :: "RelationOut list"
  gd_RelationsChanged :: "RelationOut list"
  gd_RelationsTransient :: "RelationOut list"
  gd_Totals :: DiffTotals
  gd_Truncated :: bool

text \<open>The folds; \<open>lastLifecycle\<close> is \<open>ChangeUnspecified\<close> until a creation or deletion is seen.\<close>

record entityFold =
  ef_createdFirst :: bool
  ef_lastLifecycle :: ChangeType
  ef_changedKeys :: "string goset"
  ef_stateChanged :: bool
  ef_ent :: Entity
  ef_deleteReason :: string
  ef_deleteSource :: DeleteSource
  ef_seq :: nat

record relationFold =
  rf_addedFirst :: bool
  rf_lastLifecycle :: ChangeType
  rf_attrChanged :: bool
  rf_rel :: Relation
  rf_seq :: nat

definition foldEntity :: "EntityEvent \<Rightarrow> (EntityID, entityFold) gomap \<Rightarrow> (EntityID, entityFold) gomap" where
  "foldEntity ee m =
     (let i = ent_ID (ee_Entity ee); ct = ee_ChangeType ee;
          f = (case map_of m i of
                 Some f \<Rightarrow> f
               | None \<Rightarrow> \<lparr>ef_createdFirst = (ct = EntityCreated), ef_lastLifecycle = ChangeUnspecified, ef_changedKeys = [],
                           ef_stateChanged = False, ef_ent = zeroEntity, ef_deleteReason = [], ef_deleteSource = [],
                           ef_seq = length m\<rparr>);
          f = f\<lparr>ef_ent := ee_Entity ee\<rparr>;
          f = (if ct = EntityCreated then f\<lparr>ef_lastLifecycle := ct\<rparr>
               else if ct = EntityDeleted
               then f\<lparr>ef_lastLifecycle := ct, ef_deleteReason := ee_DeleteReason ee, ef_deleteSource := ee_DeleteSource ee\<rparr>
               else if ct = EntityAttributeUpdated \<or> ct = EntityStateChanged
               then let f = f\<lparr>ef_changedKeys := fold gadd (ee_ChangedKeys ee) (ef_changedKeys f)\<rparr>
                    in if ct = EntityStateChanged then f\<lparr>ef_stateChanged := True\<rparr> else f
               else f)
      in gput i f m)"

definition foldRelation :: "RelationEvent \<Rightarrow> (RelationID, relationFold) gomap \<Rightarrow> (RelationID, relationFold) gomap" where
  "foldRelation re m =
     (let i = rel_ID (re_Relation re); ct = re_ChangeType re;
          f = (case map_of m i of
                 Some f \<Rightarrow> f
               | None \<Rightarrow> \<lparr>rf_addedFirst = (ct = RelationAdded), rf_lastLifecycle = ChangeUnspecified, rf_attrChanged = False,
                           rf_rel = zeroRelation, rf_seq = length m\<rparr>);
          f = f\<lparr>rf_rel := re_Relation re\<rparr>;
          f = (if ct = RelationAdded \<or> ct = RelationRemoved then f\<lparr>rf_lastLifecycle := ct\<rparr>
               else if ct = RelationAttributeChanged then f\<lparr>rf_attrChanged := True\<rparr>
               else f)
      in gput i f m)"

definition foldEvent :: "Event \<Rightarrow> (EntityID, entityFold) gomap \<times> (RelationID, relationFold) gomap
    \<Rightarrow> (EntityID, entityFold) gomap \<times> (RelationID, relationFold) gomap" where
  "foldEvent ev m =
     (case ev_Entity ev of
        Some ee \<Rightarrow> (foldEntity ee (fst m), snd m)
      | None \<Rightarrow> (case ev_Relation ev of Some re \<Rightarrow> (fst m, foldRelation re (snd m)) | None \<Rightarrow> m))"

datatype bucket = Created | Deleted | Changed | Transient | NoChange

definition entityBucket :: "entityFold \<Rightarrow> bucket" where
  "entityBucket f =
     (let presentAtEnd = (ef_lastLifecycle f \<noteq> EntityDeleted)
      in if ef_createdFirst f \<and> presentAtEnd then Created
         else if ef_createdFirst f \<and> \<not> presentAtEnd then Transient
         else if \<not> presentAtEnd then Deleted
         else if ef_changedKeys f \<noteq> [] then Changed
         else NoChange)"

definition relationBucket :: "relationFold \<Rightarrow> bucket" where
  "relationBucket f =
     (let presentAtEnd = (rf_lastLifecycle f \<noteq> RelationRemoved)
      in if rf_addedFirst f \<and> presentAtEnd then Created
         else if rf_addedFirst f \<and> \<not> presentAtEnd then Transient
         else if \<not> presentAtEnd then Deleted
         else if rf_attrChanged f then Changed
         else NoChange)"

definition entitiesIn :: "(EntityID, entityFold) gomap \<Rightarrow> bucket \<Rightarrow> entityFold list" where
  "entitiesIn m b = sort_key ef_seq (filter (\<lambda>f. entityBucket f = b) (map snd m))"

definition relationsIn :: "(RelationID, relationFold) gomap \<Rightarrow> bucket \<Rightarrow> relationFold list" where
  "relationsIn m b = sort_key rf_seq (filter (\<lambda>f. relationBucket f = b) (map snd m))"

definition diffSummary :: "DiffTotals \<Rightarrow> string" where
  "diffSummary t =
     (let parts = concat (map (\<lambda>(n, what). if n > 0 then [itoa n @ '' '' @ what] else [])
            [(dtt_EntitiesCreated t, ''entities created''), (dtt_EntitiesDeleted t, ''entities deleted''),
             (dtt_EntitiesChanged t, ''entities changed''),
             (dtt_EntitiesTransient t, ''entities transient (appeared and disappeared)''),
             (dtt_RelationsAdded t, ''relations added''), (dtt_RelationsRemoved t, ''relations removed''),
             (dtt_RelationsChanged t, ''relations changed''), (dtt_RelationsTransient t, ''relations transient'')])
      in if parts = [] then ''No net change between the two instants.''
         else ''Net difference: '' @ join '', '' parts @ ''.'')"

definition deletedOut :: "entityFold \<Rightarrow> DeletedEntity" where
  "deletedOut f = \<lparr>de_Entity = entityOut (ef_ent f) True, de_DeleteReason = ef_deleteReason f, de_DeleteSource = ef_deleteSource f\<rparr>"

definition changedOut :: "entityFold \<Rightarrow> EntityDiff" where
  "changedOut f = \<lparr>edf_Entity = entityOut (ef_ent f) False, edf_ChangedKeys = sort (gkeys (ef_changedKeys f)),
     edf_StateChanged = ef_stateChanged f\<rparr>"

definition diffAnswer :: "'d mcpEnv \<Rightarrow> 'd Server \<Rightarrow> time \<Rightarrow> time \<Rightarrow> nat \<Rightarrow> Event list \<Rightarrow> GraphDiffOutput" where
  "diffAnswer env s from to limit evs =
     (let (ents, rels) = fold foldEvent evs ([], []);
          E = entitiesIn ents; R = relationsIn rels;
          totals = \<lparr>dtt_EntitiesCreated = length (E Created), dtt_EntitiesDeleted = length (E Deleted),
            dtt_EntitiesChanged = length (E Changed), dtt_EntitiesTransient = length (E Transient),
            dtt_RelationsAdded = length (R Created), dtt_RelationsRemoved = length (R Deleted),
            dtt_RelationsChanged = length (R Changed), dtt_RelationsTransient = length (R Transient)\<rparr>;
          buckets = [Created, Deleted, Changed, Transient]
      in \<lparr>gd_Graph = graphMeta env s (ms_graph s) [], gd_From = formatTime from, gd_To = formatTime to,
          gd_Summary = diffSummary totals, gd_Covered = horizonWarning s from to,
          gd_EntitiesCreated = map (\<lambda>f. entityOut (ef_ent f) False) (take limit (E Created)),
          gd_EntitiesDeleted = map deletedOut (take limit (E Deleted)),
          gd_EntitiesChanged = map changedOut (take limit (E Changed)),
          gd_EntitiesTransient = map deletedOut (take limit (E Transient)),
          gd_RelationsAdded = map (\<lambda>f. relationOut (rf_rel f)) (take limit (R Created)),
          gd_RelationsRemoved = map (\<lambda>f. relationOut (rf_rel f)) (take limit (R Deleted)),
          gd_RelationsChanged = map (\<lambda>f. relationOut (rf_rel f)) (take limit (R Changed)),
          gd_RelationsTransient = map (\<lambda>f. relationOut (rf_rel f)) (take limit (R Transient)),
          gd_Totals = totals,
          gd_Truncated = list_ex (\<lambda>b. length (E b) > limit \<or> length (R b) > limit) buckets\<rparr>)"

definition diffEntry :: "(64 word \<Rightarrow> StoreErr + Event option) \<Rightarrow> TimeIndexEntry \<Rightarrow> Event list \<Rightarrow> StoreErr + Event list" where
  "diffEntry resolve e evs =
     (if ti_Tagged e \<and> ti_ChangeType e = EntityUnchanged then Inr evs
      else case resolve (ti_Seq e) of
             Inl err \<Rightarrow> Inl err
           | Inr None \<Rightarrow> Inr evs
           | Inr (Some ev) \<Rightarrow>
               if \<not> ti_Tagged e \<and> (case ev_Entity ev of Some ee \<Rightarrow> ee_ChangeType ee = EntityUnchanged | None \<Rightarrow> False)
               then Inr evs else Inr (evs @ [ev]))"

definition graphDiff :: "'d mcpEnv \<Rightarrow> GraphDiffInput \<Rightarrow> 'd Server \<Rightarrow> McpErr + GraphDiffOutput" where
  "graphDiff env inp s =
     (case diffBounds s (gi_Window inp) (gi_From inp) (gi_To inp) of
        Inl err \<Rightarrow> Inl err
      | Inr (from, to) \<Rightarrow>
          (case ScanTimeIndex (me_pb env) (me_ctx env) from to False
                  (diffEntry (Resolve (me_pb env) (me_pm env) (ms_store s))) (ms_store s) [] of
             Inl err \<Rightarrow> Inl (ReadErr err)
           | Inr evs \<Rightarrow> Inr (diffAnswer env s from to (nat (clampLimit (gi_Limit inp))) evs)))"

end
