(* ===== verification/Mcp_Traverse_Laws.thy ===== *)
theory Mcp_Traverse_Laws
  imports Mcp_Traverse Projection_Theorems
begin

text \<open>
  What the traversals compute.  The locale \<open>edge_graph\<close> states what a breadth-first search
  relies on in its edge view and holds what it then reaches, at which depth; the impact and the
  neighbourhood of the projection interpret it.  The walk behind \<open>find_path\<close> is related to
  the routes its crossing rules admit.
\<close>

section \<open>Specifications\<close>

definition at_distance :: "(EntityID \<times> EntityID) set \<Rightarrow> EntityID set \<Rightarrow> nat \<Rightarrow> EntityID \<Rightarrow> bool" where
  "at_distance E S n y = (y \<in> reach_within E n S \<and> (\<forall>m < n. y \<notin> reach_within E m S))"

text \<open>One hop to a live entity, and one hop a failure takes.\<close>

definition liveHop :: "Graph \<Rightarrow> string \<Rightarrow> (EntityID \<times> EntityID) set" where
  "liveHop g relType = {(x, y). (x, y) \<in> hop g relType \<and> live g y \<noteq> None}"

definition impactHop :: "Graph \<Rightarrow> (EntityID \<times> EntityID) set" where
  "impactHop g =
     {(x, y). live g y \<noteq> None \<and> (\<exists>i r. map_of (g_relations g) i = Some r \<and>
        (rel_From r = x \<and> rel_To r = y \<and> ImpactFlowOf (rel_Type r) \<in> {ImpactFromTo, ImpactBoth} \<or>
         rel_To r = x \<and> rel_From r = y \<and> ImpactFlowOf (rel_Type r) \<in> {ImpactToFrom, ImpactBoth}))}"

text \<open>
  The rules of a path: a terminal entity is left only by an edge it is the source of, some types
  only by another relation type than the one of the arrival, and a weak \<open>same_as\<close> belief is
  no edge.
\<close>

definition may_leave :: "Graph \<Rightarrow> EntityID \<Rightarrow> EntityID \<Rightarrow> string \<Rightarrow> edge \<Rightarrow> bool" where
  "may_leave g start x arrived e =
     (x = start \<or> (case fst (GetEntity g x) of
        None \<Rightarrow> True
      | Some ent \<Rightarrow>
          \<not> (IsTerminalEntityType (ent_Type ent) \<and> ed_direction e \<noteq> ''outgoing'') \<and>
          \<not> (CrossingNeedsADifferentRelation (ent_Type ent) \<and> arrived \<noteq> [] \<and> rel_Type (ed_rel e) = arrived)))"

definition usable :: "float64 \<Rightarrow> edge \<Rightarrow> bool" where
  "usable thr e = (rel_Type (ed_rel e) = RelSameAs \<longrightarrow> believed thr (ed_rel e))"

fun route :: "float64 \<Rightarrow> Graph \<Rightarrow> string \<Rightarrow> EntityID \<Rightarrow> EntityID \<Rightarrow> string \<Rightarrow> edge list \<Rightarrow> EntityID \<Rightarrow> bool" where
  "route thr g relType start x arrived [] y = (x = y)"
| "route thr g relType start x arrived (e # es) y =
     (e \<in> set (edgesOf g x relType) \<and> usable thr e \<and> may_leave g start x arrived e \<and>
      route thr g relType start (ed_other e) (rel_Type (ed_rel e)) es y)"

text \<open>The steps whose admission does not depend on how their source was reached.\<close>

definition freeStep :: "float64 \<Rightarrow> Graph \<Rightarrow> string \<Rightarrow> EntityID \<Rightarrow> (EntityID \<times> EntityID) set" where
  "freeStep thr g relType start =
     {(x, y). \<exists>e \<in> set (edgesOf g x relType). ed_other e = y \<and> usable thr e \<and> (\<forall>arrived. may_leave g start x arrived e)}"

section \<open>The edge view of the projection\<close>

lemma in_map_filter: "y \<in> set (List.map_filter f xs) \<longleftrightarrow> (\<exists>x \<in> set xs. f x = Some y)"
  by (induction xs) (auto simp: List.map_filter_def split: option.splits)

lemma live_case:
  "(case GetEntity g i of (Some e, False) \<Rightarrow> f e | _ \<Rightarrow> z) = (case live g i of Some e \<Rightarrow> f e | None \<Rightarrow> z)"
  by (auto simp: GetEntity_def live_def split: option.splits bool.splits)

lemma edgeOf_Some:
  "edgeOf g x r = Some e \<longleftrightarrow>
     live g (ed_other e) \<noteq> None \<and> ed_rel e = r \<and>
     (if rel_To r = x \<and> rel_From r \<noteq> x then ed_other e = rel_From r \<and> ed_direction e = ''incoming''
      else ed_other e = rel_To r \<and> ed_direction e = ''outgoing'')"
  unfolding edgeOf_def live_case Let_def by (cases e) (auto split: option.splits if_splits)

lemma touching_iff:
  assumes "graph_wf g"
  shows "r \<in> set (RelationsTouching g x t) \<longleftrightarrow>
    (\<exists>i. map_of (g_relations g) i = Some r) \<and> (t = [] \<or> rel_Type r = t) \<and> (rel_From r = x \<or> rel_To r = x)"
proof -
  have "wf_maps g" using assms by (simp add: graph_wf_def)
  with projection.set_touching [OF assms, of x t] show ?thesis by (auto simp: relations_mem)
qed

lemma edgesOf_iff:
  assumes "graph_wf g"
  shows "e \<in> set (edgesOf g x t) \<longleftrightarrow>
    (\<exists>i. map_of (g_relations g) i = Some (ed_rel e)) \<and> (t = [] \<or> rel_Type (ed_rel e) = t) \<and>
    (rel_From (ed_rel e) = x \<or> rel_To (ed_rel e) = x) \<and> edgeOf g x (ed_rel e) = Some e"
  by (auto simp: edgesOf_def in_map_filter touching_iff [OF assms] edgeOf_Some)

lemma edgesOf_live: "e \<in> set (edgesOf g x t) \<Longrightarrow> live g (ed_other e) \<noteq> None"
  by (auto simp: edgesOf_def in_map_filter edgeOf_Some)

lemma edge_exists:
  assumes "map_of (g_relations g) i = Some r" "t = [] \<or> rel_Type r = t" "graph_wf g" "live g y \<noteq> None"
    and "rel_From r = x \<and> rel_To r = y \<or> rel_To r = x \<and> rel_From r = y"
  shows "\<exists>e \<in> set (edgesOf g x t). ed_other e = y \<and> ed_rel e = r"
proof -
  let ?d = "if rel_To r = x \<and> rel_From r \<noteq> x then ''incoming'' else ''outgoing''"
  let ?e = "\<lparr>ed_rel = r, ed_other = y, ed_direction = ?d\<rparr>"
  have "edgeOf g x r = Some ?e" using assms(4,5) by (auto simp: edgeOf_Some)
  then have "?e \<in> set (edgesOf g x t)" using assms by (auto simp: edgesOf_iff)
  then show ?thesis by force
qed

lemma edges_liveHop:
  assumes "graph_wf g"
  shows "(x, y) \<in> liveHop g t \<longleftrightarrow> (\<exists>e \<in> set (edgesOf g x t). True \<and> ed_other e = y)"
proof
  assume "(x, y) \<in> liveHop g t"
  show "\<exists>e \<in> set (edgesOf g x t). True \<and> ed_other e = y"
  proof -
    from \<open>(x, y) \<in> liveHop g t\<close> obtain i r where "map_of (g_relations g) i = Some r" "t = [] \<or> rel_Type r = t"
      "live g y \<noteq> None" "rel_From r = x \<and> rel_To r = y \<or> rel_To r = x \<and> rel_From r = y"
      unfolding liveHop_def hop_def by blast
    from edge_exists [OF this(1,2) assms this(3,4)] show ?thesis by blast
  qed
next
  assume "\<exists>e \<in> set (edgesOf g x t). True \<and> ed_other e = y"
  show "(x, y) \<in> liveHop g t"
  proof -
    from \<open>\<exists>e \<in> set (edgesOf g x t). True \<and> ed_other e = y\<close> obtain e where
      e: "e \<in> set (edgesOf g x t)" "ed_other e = y" by blast
    have "live g y \<noteq> None" using edgesOf_live [OF e(1)] e(2) by simp
    with e show ?thesis
      by (auto simp: liveHop_def hop_def edgesOf_iff [OF assms] edgeOf_Some split: if_splits)
  qed
qed

lemma edges_impactHop:
  assumes "graph_wf g"
  shows "(x, y) \<in> impactHop g \<longleftrightarrow> (\<exists>e \<in> set (edgesOf g x []). impactPropagates e x \<and> ed_other e = y)"
proof
  assume "(x, y) \<in> impactHop g"
  then obtain i r where r: "live g y \<noteq> None" "map_of (g_relations g) i = Some r"
    "rel_From r = x \<and> rel_To r = y \<and> ImpactFlowOf (rel_Type r) \<in> {ImpactFromTo, ImpactBoth} \<or>
     rel_To r = x \<and> rel_From r = y \<and> ImpactFlowOf (rel_Type r) \<in> {ImpactToFrom, ImpactBoth}"
    by (auto simp: impactHop_def)
  then obtain e where "e \<in> set (edgesOf g x [])" "ed_other e = y" "ed_rel e = r"
    using edge_exists [OF r(2) _ assms r(1), of "[]" x] by auto
  with r(3) show "\<exists>e \<in> set (edgesOf g x []). impactPropagates e x \<and> ed_other e = y"
    by (auto simp: impactPropagates_def intro!: bexI [of _ e])
next
  assume "\<exists>e \<in> set (edgesOf g x []). impactPropagates e x \<and> ed_other e = y"
  then obtain e where e: "e \<in> set (edgesOf g x [])" "impactPropagates e x" "ed_other e = y" by blast
  then have "live g y \<noteq> None" using edgesOf_live by blast
  with e show "(x, y) \<in> impactHop g"
    by (cases "ImpactFlowOf (rel_Type (ed_rel e))")
      (auto simp: impactHop_def edgesOf_iff [OF assms] edgeOf_Some impactPropagates_def split: if_splits)
qed

section \<open>Breadth-first search\<close>

lemma fold_nodes:
  "fold (\<lambda>c. fold (f c) (edges c)) frontier = fold (\<lambda>(c, e). f c e) (concat (map (\<lambda>c. map (Pair c) (edges c)) frontier))"
  by (induction frontier) (auto simp: fold_map comp_def)

lemma bfs_visit:
  "\<exists>vis' new. fold (\<lambda>(c, e). bfsEdge keep mark d c e) ps (vis, nxt, r)
       = (vis', nxt @ map ed_other new, fold (mark d) new r) \<and>
     (\<forall>x. ghas vis' x \<longleftrightarrow> ghas vis x \<or> x \<in> ed_other ` set new) \<and> distinct (map ed_other new) \<and>
     (\<forall>e \<in> set new. \<exists>c. (c, e) \<in> set ps \<and> keep c e) \<and>
     ed_other ` set new = {ed_other e |c e. (c, e) \<in> set ps \<and> keep c e} - {x. ghas vis x}"
proof (induction ps arbitrary: vis nxt r)
  case Nil
  show ?case by (intro exI [of _ vis] exI [of _ "[]"]) auto
next
  case (Cons p ps)
  obtain c e where p: "p = (c, e)" by fastforce
  show ?case
  proof (cases "keep c e \<and> \<not> ghas vis (ed_other e)")
    case False
    then have stay: "fold (\<lambda>(c, e). bfsEdge keep mark d c e) (p # ps) (vis, nxt, r)
        = fold (\<lambda>(c, e). bfsEdge keep mark d c e) ps (vis, nxt, r)" by (auto simp: p bfsEdge_def)
    have same: "{ed_other e |c e. (c, e) \<in> set (p # ps) \<and> keep c e} - {x. ghas vis x}
        = {ed_other e |c e. (c, e) \<in> set ps \<and> keep c e} - {x. ghas vis x}" using False p by auto
    obtain vis' new where "fold (\<lambda>(c, e). bfsEdge keep mark d c e) ps (vis, nxt, r)
         = (vis', nxt @ map ed_other new, fold (mark d) new r)"
      "\<forall>x. ghas vis' x \<longleftrightarrow> ghas vis x \<or> x \<in> ed_other ` set new" "distinct (map ed_other new)"
      "\<forall>e \<in> set new. \<exists>c. (c, e) \<in> set ps \<and> keep c e"
      "ed_other ` set new = {ed_other e |c e. (c, e) \<in> set ps \<and> keep c e} - {x. ghas vis x}"
      using Cons.IH [of vis nxt r] by blast
    then show ?thesis unfolding stay same by (intro exI [of _ vis'] exI [of _ new]) auto
  next
    case True
    let ?v = "gadd (ed_other e) vis"
    obtain vis' new where new: "fold (\<lambda>(c, e). bfsEdge keep mark d c e) ps (?v, nxt @ [ed_other e], mark d e r)
         = (vis', (nxt @ [ed_other e]) @ map ed_other new, fold (mark d) new (mark d e r))"
      "\<forall>x. ghas vis' x \<longleftrightarrow> ghas ?v x \<or> x \<in> ed_other ` set new" "distinct (map ed_other new)"
      "\<forall>e \<in> set new. \<exists>c. (c, e) \<in> set ps \<and> keep c e"
      "ed_other ` set new = {ed_other e |c e. (c, e) \<in> set ps \<and> keep c e} - {x. ghas ?v x}"
      using Cons.IH [of ?v "nxt @ [ed_other e]" "mark d e r"] by blast
    have "fold (\<lambda>(c, e). bfsEdge keep mark d c e) (p # ps) (vis, nxt, r)
        = (vis', nxt @ map ed_other (e # new), fold (mark d) (e # new) r)"
      using True p new(1) by (simp add: bfsEdge_def)
    moreover have "\<forall>x. ghas vis' x \<longleftrightarrow> ghas vis x \<or> x \<in> ed_other ` set (e # new)" using new(2) by auto
    moreover have "distinct (map ed_other (e # new))" using new(3,5) by simp
    moreover have "\<forall>e' \<in> set (e # new). \<exists>c. (c, e') \<in> set (p # ps) \<and> keep c e'" using new(4) True p by auto
    moreover have "ed_other ` set (e # new) = {ed_other e |c e. (c, e) \<in> set (p # ps) \<and> keep c e} - {x. ghas vis x}"
      using new(5) True p by auto
    ultimately show ?thesis by blast
  qed
qed

lemma reach_within_mono: "m \<le> n \<Longrightarrow> reach_within E m S \<subseteq> reach_within E n S"
  by (auto simp: reach_within_def intro: le_trans)

lemma reach_within_0: "reach_within E 0 S = S"
  by (auto simp: reach_within_def)

lemma at_distance_Suc: "at_distance E S (Suc n) y \<longleftrightarrow> y \<in> reach_within E (Suc n) S \<and> y \<notin> reach_within E n S"
  unfolding at_distance_def using reach_within_mono [of _ n E S] by (auto simp: less_Suc_eq_le)

locale edge_graph =
  fixes inv :: "'g \<Rightarrow> bool"
    and edges :: "'g \<Rightarrow> EntityID \<Rightarrow> edge list"
    and follow :: "EntityID \<Rightarrow> edge \<Rightarrow> bool"
    and step :: "'g \<Rightarrow> (EntityID \<times> EntityID) set"
  assumes step_iff: "inv g \<Longrightarrow> (x, y) \<in> step g \<longleftrightarrow> (\<exists>e \<in> set (edges g x). follow x e \<and> ed_other e = y)"
begin

lemma levels:
  assumes inv: "inv g" and "set frontier \<subseteq> {x. ghas vis x}"
    and "step g `` ({x. ghas vis x} - set frontier) \<subseteq> {x. ghas vis x}"
  shows "\<exists>rs. bfsLevels (edges g) follow mark k d vis frontier r = fold (\<lambda>(n, e). mark n e) rs r \<and>
     distinct (map (ed_other \<circ> snd) rs) \<and>
     (\<forall>(n, e) \<in> set rs. d \<le> n \<and> n < d + k \<and> (\<exists>x \<in> reach_within (step g) (n - d) (set frontier). e \<in> set (edges g x) \<and> follow x e)) \<and>
     (\<forall>y n. (\<exists>e. (n, e) \<in> set rs \<and> ed_other e = y) \<longleftrightarrow>
        d \<le> n \<and> n < d + k \<and> \<not> ghas vis y \<and> y \<in> reach_within (step g) (Suc (n - d)) (set frontier)
        \<and> y \<notin> reach_within (step g) (n - d) (set frontier))"
  using assms(2,3)
proof (induction k arbitrary: d vis frontier r)
  case 0
  show ?case by (intro exI [of _ "[]"]) auto
next
  case (Suc k)
  let ?E = "step g" and ?F = "set frontier" and ?V = "{x. ghas vis x}"
  show ?case
  proof (cases "frontier = []")
    case True
    then show ?thesis by (intro exI [of _ "[]"]) (auto simp: reach_within_def)
  next
    case False
    let ?ps = "concat (map (\<lambda>c. map (Pair c) (edges g c)) frontier)"
    obtain vis' new where
      fold: "fold (\<lambda>c. fold (bfsEdge follow mark d c) (edges g c)) frontier (vis, [], r)
          = (vis', map ed_other new, fold (mark d) new r)"
      and vis': "\<And>x. ghas vis' x \<longleftrightarrow> ghas vis x \<or> x \<in> ed_other ` set new"
      and dist: "distinct (map ed_other new)"
      and src: "\<forall>e \<in> set new. \<exists>c. (c, e) \<in> set ?ps \<and> follow c e"
      and img: "ed_other ` set new = {ed_other e |c e. (c, e) \<in> set ?ps \<and> follow c e} - ?V"
      using bfs_visit [of follow mark d ?ps vis "[]" r] by (auto simp: fold_nodes)
    define N where "N = ed_other ` set new"
    have N: "N = {y. y \<notin> ?V \<and> (\<exists>x \<in> ?F. (x, y) \<in> ?E)}"
      unfolding N_def img step_iff [OF inv] by auto
    have V': "{x. ghas vis' x} = ?V \<union> N" using vis' by (auto simp: N_def)
    have newN: "set (map ed_other new) = N" by (simp add: N_def)
    have closed: "?E `` ({x. ghas vis' x} - set (map ed_other new)) \<subseteq> {x. ghas vis' x}"
      unfolding V' newN using Suc.prems(2) N by blast
    have sub: "set (map ed_other new) \<subseteq> {x. ghas vis' x}" using V' by (auto simp: N_def)
    from Suc.IH [OF sub closed, where d = "d + 1" and r = "fold (mark d) new r"] obtain rs where
      rs: "bfsLevels (edges g) follow mark k (d + 1) vis' (map ed_other new) (fold (mark d) new r)
          = fold (\<lambda>(n, e). mark n e) rs (fold (mark d) new r)"
        "distinct (map (ed_other \<circ> snd) rs)"
      and rs_src': "\<forall>(n, e) \<in> set rs. d + 1 \<le> n \<and> n < d + 1 + k
          \<and> (\<exists>x \<in> reach_within ?E (n - (d + 1)) N. e \<in> set (edges g x) \<and> follow x e)"
      and rs_iff: "\<forall>y n. (\<exists>e. (n, e) \<in> set rs \<and> ed_other e = y) \<longleftrightarrow>
          d + 1 \<le> n \<and> n < d + 1 + k \<and> \<not> ghas vis' y \<and> y \<in> reach_within ?E (Suc (n - (d + 1))) N
          \<and> y \<notin> reach_within ?E (n - (d + 1)) N"
      unfolding newN by blast
    note rs_iff = rs_iff [rule_format]
    have rs_src: "d + 1 \<le> n \<and> n < d + 1 + k
          \<and> (\<exists>x \<in> reach_within ?E (n - (d + 1)) N. e \<in> set (edges g x) \<and> follow x e)" if "(n, e) \<in> set rs" for n e
      using rs_src' that by blast
    let ?rs = "map (Pair d) new @ rs"
    have ws: "reach_within ?E (Suc m) ?F - ?V = N \<union> (reach_within ?E m N - (?V \<union> N))" for m
      by (rule within_step) (use Suc.prems N in auto)
    have NF: "x \<in> reach_within ?E (Suc m) ?F" if x: "x \<in> reach_within ?E m N" for x m
    proof -
      from x obtain n z where z: "n \<le> m" "z \<in> N" "(z, x) \<in> ?E ^^ n" by (auto simp: reach_within_def)
      from z(2) N obtain w where "w \<in> ?F" "(w, z) \<in> ?E" by blast
      with z show ?thesis unfolding reach_within_def
        by (intro CollectI exI [of _ "Suc n"] conjI bexI [of _ w] relpow_Suc_I2 [of w z]) simp_all
    qed
    have "bfsLevels (edges g) follow mark (Suc k) d vis frontier r = fold (\<lambda>(n, e). mark n e) ?rs r"
      using False fold rs(1) by (simp add: fold_map comp_def)
    moreover have "distinct (map (ed_other \<circ> snd) ?rs)"
    proof -
      have "y \<notin> N" if "(n, e) \<in> set rs" "ed_other e = y" for n e y
        using rs_iff [of n y] that V' by blast
      then have "set (map ed_other new) \<inter> (ed_other \<circ> snd) ` set rs = {}" unfolding newN by auto
      then show ?thesis using dist rs(2) by (simp add: comp_def)
    qed
    moreover have "\<forall>(n, e) \<in> set ?rs. d \<le> n \<and> n < d + Suc k
        \<and> (\<exists>x \<in> reach_within ?E (n - d) ?F. e \<in> set (edges g x) \<and> follow x e)"
    proof (clarsimp, intro conjI allI impI)
      fix n e assume "(n, e) \<in> Pair d ` set new \<or> (n, e) \<in> set rs"
      then consider "n = d" "e \<in> set new" | "(n, e) \<in> set rs" by auto
      then have "d \<le> n \<and> n < Suc (d + k) \<and> (\<exists>x \<in> reach_within ?E (n - d) ?F. e \<in> set (edges g x) \<and> follow x e)"
      proof cases
        case 1
        with src show ?thesis by (auto simp: reach_within_0)
      next
        case 2
        from rs_src [OF this] obtain x where x: "d + 1 \<le> n" "n < d + 1 + k" "x \<in> reach_within ?E (n - (d + 1)) N"
          "e \<in> set (edges g x)" "follow x e" by blast
        moreover have "Suc (n - (d + 1)) = n - d" using x(1) by simp
        ultimately show ?thesis using NF [of x "n - (d + 1)"] by auto
      qed
      then show "d \<le> n" "n < Suc (d + k)" "\<exists>x \<in> reach_within ?E (n - d) ?F. e \<in> set (edges g x) \<and> follow x e"
        by blast+
    qed
    moreover have "(\<exists>e. (n, e) \<in> set ?rs \<and> ed_other e = y) \<longleftrightarrow>
        d \<le> n \<and> n < d + Suc k \<and> \<not> ghas vis y \<and> y \<in> reach_within ?E (Suc (n - d)) ?F
        \<and> y \<notin> reach_within ?E (n - d) ?F" for y n
    proof (cases "n = d")
      case True
      have "(\<exists>e. (n, e) \<in> set ?rs \<and> ed_other e = y) \<longleftrightarrow> y \<in> N"
        using True rs_src by (force simp: N_def)
      moreover have "y \<in> N \<longleftrightarrow> y \<in> reach_within ?E (Suc 0) ?F - ?V" using ws [of 0] by (auto simp: reach_within_0)
      ultimately show ?thesis using True Suc.prems(1) by (auto simp: reach_within_0)
    next
      case False
      have l: "(\<exists>e. (n, e) \<in> set ?rs \<and> ed_other e = y) \<longleftrightarrow> (\<exists>e. (n, e) \<in> set rs \<and> ed_other e = y)"
        using False by auto
      show ?thesis
      proof (cases "d + 1 \<le> n")
        case True
        then obtain m where m: "n = d + 1 + m" by (metis le_add_diff_inverse)
        have "y \<in> reach_within ?E (Suc (Suc m)) ?F - ?V \<longleftrightarrow> y \<in> N \<or> y \<in> reach_within ?E (Suc m) N \<and> y \<notin> ?V \<union> N"
          "y \<in> reach_within ?E (Suc m) ?F - ?V \<longleftrightarrow> y \<in> N \<or> y \<in> reach_within ?E m N \<and> y \<notin> ?V \<union> N"
          using ws [of "Suc m"] ws [of m] by blast+
        moreover have "\<not> ghas vis' y \<longleftrightarrow> y \<notin> ?V \<union> N" using V' by blast
        ultimately show ?thesis unfolding l unfolding rs_iff unfolding m by (simp add: Suc_diff_le) blast
      next
        case False
        with \<open>n \<noteq> d\<close> show ?thesis unfolding l rs_iff by simp
      qed
    qed
    ultimately show ?thesis by blast
  qed
qed

text \<open>From a set of starts: everything within the depth is reached once, at its distance.\<close>

lemma search:
  assumes inv: "inv g" and vis: "\<And>x. ghas vis x \<longleftrightarrow> x \<in> set starts"
  shows "\<exists>rs. bfsLevels (edges g) follow mark k 1 vis starts r = fold (\<lambda>(n, e). mark n e) rs r \<and>
     distinct (map (ed_other \<circ> snd) rs) \<and>
     (\<forall>(n, e) \<in> set rs. \<exists>x \<in> reach_within (step g) (n - 1) (set starts). e \<in> set (edges g x) \<and> follow x e) \<and>
     (\<forall>y n. (\<exists>e. (n, e) \<in> set rs \<and> ed_other e = y) \<longleftrightarrow>
        1 \<le> n \<and> n \<le> k \<and> at_distance (step g) (set starts) n y)"
proof -
  have "set starts \<subseteq> {x. ghas vis x}" "step g `` ({x. ghas vis x} - set starts) \<subseteq> {x. ghas vis x}"
    using vis by auto
  from levels [OF inv this, where mark = mark and k = k and d = 1 and r = r] obtain rs where
    rs: "bfsLevels (edges g) follow mark k 1 vis starts r = fold (\<lambda>(n, e). mark n e) rs r"
      "distinct (map (ed_other \<circ> snd) rs)"
      "\<forall>(n, e) \<in> set rs. 1 \<le> n \<and> n < 1 + k \<and> (\<exists>x \<in> reach_within (step g) (n - 1) (set starts). e \<in> set (edges g x) \<and> follow x e)"
      "\<forall>y n. (\<exists>e. (n, e) \<in> set rs \<and> ed_other e = y) \<longleftrightarrow>
        1 \<le> n \<and> n < 1 + k \<and> \<not> ghas vis y \<and> y \<in> reach_within (step g) (Suc (n - 1)) (set starts)
        \<and> y \<notin> reach_within (step g) (n - 1) (set starts)" by blast
  have start: "set starts \<subseteq> reach_within (step g) m (set starts)" for m
    using reach_within_mono [of 0 m] by (simp add: reach_within_0)
  have "(\<exists>e. (n, e) \<in> set rs \<and> ed_other e = y) \<longleftrightarrow> 1 \<le> n \<and> n \<le> k \<and> at_distance (step g) (set starts) n y" for y n
    unfolding rs(4) [rule_format] using vis start by (cases n) (auto simp: at_distance_Suc)
  with rs(1,2,3) show ?thesis by (intro exI [of _ rs]) auto
qed

end

interpretation impact: edge_graph graph_wf "\<lambda>g i. edgesOf g i []" "\<lambda>cur e. impactPropagates e cur" impactHop
  by unfold_locales (rule edges_impactHop)

interpretation neighborhood: edge_graph "\<lambda>(g, t). graph_wf g" "\<lambda>(g, t) i. edgesOf g i t" "\<lambda>_ _. True" "\<lambda>(g, t). liveHop g t"
  by unfold_locales (auto simp: edges_liveHop)

end
