(* ===== verification/Mcp_Path.thy ===== *)
theory Mcp_Path
  imports Mcp_Traverse_Laws
begin

text \<open>
  The walk behind \<open>find_path\<close>: every entity it marks is reached by an admitted route that its
  parents spell out, and nothing that is reachable by steps whose admission does not depend on
  the arrival is missed, or reached by more hops than such a walk needs.
\<close>

section \<open>Routes and parents\<close>

definition arrivalOf :: "edge list \<Rightarrow> string" where
  "arrivalOf es = (if es = [] then [] else rel_Type (ed_rel (last es)))"

lemma route_snoc:
  "route thr g t start x arr (es @ [e]) y \<longleftrightarrow>
     (\<exists>z. route thr g t start x arr es z \<and> e \<in> set (edgesOf g z t) \<and> usable thr e \<and>
        may_leave g start z (if es = [] then arr else rel_Type (ed_rel (last es))) e \<and> ed_other e = y)"
  by (induction es arbitrary: x arr) auto

inductive parentsPath :: "(EntityID, cameFrom) gomap \<Rightarrow> EntityID \<Rightarrow> EntityID \<Rightarrow> edge list \<Rightarrow> bool" for P start where
  at_start: "parentsPath P start start []"
| via: "parentsPath P start x es \<Longrightarrow> ed_other e \<noteq> start \<Longrightarrow> map_of P (ed_other e) = Some \<lparr>cf_prev = x, cf_via = e\<rparr>
    \<Longrightarrow> parentsPath P start (ed_other e) (es @ [e])"

lemma parentsPath_mono:
  "parentsPath P start y es \<Longrightarrow> map_of P \<subseteq>\<^sub>m map_of P' \<Longrightarrow> parentsPath P' start y es"
  by (induction rule: parentsPath.induct) (auto intro: parentsPath.intros simp: map_le_def dom_def)

lemma parentsPath_arrival:
  "parentsPath P start y es \<Longrightarrow> y \<noteq> start \<Longrightarrow> arrivalOf es = rel_Type (ed_rel (cf_via (gget zeroCameFrom P y)))"
  by (induction rule: parentsPath.induct) (auto simp: arrivalOf_def gget_def)

lemma parentsPath_start: "parentsPath P start y es \<Longrightarrow> y = start \<Longrightarrow> es = []"
  by (induction rule: parentsPath.induct) auto

text \<open>The hops of an answer, and that following the parents back spells them out.\<close>

definition routeHops :: "Graph \<Rightarrow> EntityID \<Rightarrow> edge list \<Rightarrow> PathHop list" where
  "routeHops g start es =
     \<lparr>ph_Entity = entityOut (entityOrZero g start) False, ph_ViaRelation = [], ph_Direction = []\<rparr>
     # map (\<lambda>e. \<lparr>ph_Entity = entityOut (entityOrZero g (ed_other e)) False, ph_ViaRelation = rel_Type (ed_rel e),
                 ph_Direction = ed_direction e\<rparr>) es"

lemma pathBack_parents:
  "parentsPath P start y es \<Longrightarrow> pathBack g P start y hops = Some (hops @ rev (routeHops g start es))"
proof (induction arbitrary: hops rule: parentsPath.induct)
  case at_start
  show ?case by (subst pathBack.simps) (simp add: routeHops_def entityOrZero_def Let_def)
next
  case (via x es e)
  have "gget zeroCameFrom P (ed_other e) = \<lparr>cf_prev = x, cf_via = e\<rparr>" using via.hyps(3) by (simp add: gget_def)
  with via show ?case by (subst pathBack.simps) (simp add: routeHops_def entityOrZero_def Let_def)
qed

section \<open>The walk\<close>

definition reached :: "float64 \<Rightarrow> Graph \<Rightarrow> string \<Rightarrow> EntityID \<Rightarrow> nat \<Rightarrow> pathWalk \<Rightarrow> EntityID \<Rightarrow> bool" where
  "reached thr g t start d w y =
     (\<exists>es. parentsPath (pw_parents w) start y es \<and> route thr g t start start [] es y \<and> length es \<le> d)"

definition walk_ok :: "float64 \<Rightarrow> Graph \<Rightarrow> string \<Rightarrow> EntityID \<Rightarrow> EntityID \<Rightarrow> nat \<Rightarrow> pathWalk \<Rightarrow> bool" where
  "walk_ok thr g t start goal d w =
     ((\<forall>y. ghas (pw_parents w) y \<longrightarrow> reached thr g t start d w y) \<and> ghas (pw_parents w) start \<and>
      (pw_found w \<longleftrightarrow> ghas (pw_parents w) goal))"

definition walkGrows :: "pathWalk \<times> EntityID list \<Rightarrow> pathWalk \<times> EntityID list \<Rightarrow> bool" where
  "walkGrows s s' =
     (map_of (pw_parents (fst s)) \<subseteq>\<^sub>m map_of (pw_parents (fst s')) \<and> set (snd s) \<subseteq> set (snd s') \<and>
      set (snd s') \<subseteq> set (snd s) \<union> {y. ghas (pw_parents (fst s')) y} \<and>
      (pw_found (fst s') \<or> {y. ghas (pw_parents (fst s')) y} \<subseteq> {y. ghas (pw_parents (fst s)) y} \<union> set (snd s')))"

lemma ghas_map_le: "map_of P \<subseteq>\<^sub>m map_of P' \<Longrightarrow> ghas P y \<Longrightarrow> ghas P' y"
  by (auto simp: ghas_def map_le_def dom_def)

lemma walk_grows_refl: "walkGrows s s"
  by (auto simp: walkGrows_def)

lemma walk_grows_trans:
  assumes "walkGrows s s'" and "walkGrows s' s''" and "\<not> pw_found (fst s')"
  shows "walkGrows s s''"
proof -
  have le: "map_of (pw_parents (fst s)) \<subseteq>\<^sub>m map_of (pw_parents (fst s'))"
    "map_of (pw_parents (fst s')) \<subseteq>\<^sub>m map_of (pw_parents (fst s''))" using assms by (simp_all add: walkGrows_def)
  note sub = ghas_map_le [OF le(2)]
  show ?thesis using assms sub map_le_trans [OF le] unfolding walkGrows_def by blast
qed

lemma reached_mono:
  assumes "reached thr g t start d w y" and "map_of (pw_parents w) \<subseteq>\<^sub>m map_of (pw_parents w')" and "d \<le> d'"
  shows "reached thr g t start d' w' y"
  using assms unfolding reached_def by (meson le_trans parentsPath_mono)

lemma walk_ok_mono: "walk_ok thr g t start goal d w \<Longrightarrow> d \<le> d' \<Longrightarrow> walk_ok thr g t start goal d' w"
  unfolding walk_ok_def using reached_mono [of thr g t start d w _ w d'] by (metis map_le_refl)

lemma reached_parents [simp]:
  "reached thr g t start d (w\<lparr>pw_found := b\<rparr>) y = reached thr g t start d w y"
  "reached thr g t start d (w\<lparr>pw_terminals := T\<rparr>) y = reached thr g t start d w y"
  by (simp_all add: reached_def)

lemma walk_ok_terminals [simp]:
  "walk_ok thr g t start goal d (w\<lparr>pw_terminals := T\<rparr>) = walk_ok thr g t start goal d w"
  by (simp add: walk_ok_def)

text \<open>The refusals of the loop are the rule of leaving an entity.\<close>

definition passes :: "bool \<times> string \<Rightarrow> edge \<Rightarrow> bool" where
  "passes leave e = (\<not> (fst leave \<and> ed_direction e \<noteq> ''outgoing'') \<and> \<not> (snd leave \<noteq> [] \<and> rel_Type (ed_rel e) = snd leave))"

lemma passes_leaving:
  assumes "parentsPath (pw_parents w) start cur es"
  shows "passes (leaving g start w cur) e \<longleftrightarrow> may_leave g start cur (arrivalOf es) e"
proof (cases "cur = start")
  case True
  then show ?thesis by (simp add: passes_def leaving_def may_leave_def)
next
  case False
  show ?thesis
    unfolding parentsPath_arrival [OF assms False] using False
    by (auto simp: passes_def leaving_def may_leave_def split: option.splits)
qed

lemma pathEdges_unfold:
  "pathEdges thr goal cur leave (e # es) (w, nxt) =
     (if \<not> passes leave e then pathEdges thr goal cur leave es (w\<lparr>pw_terminals := gadd cur (pw_terminals w)\<rparr>, nxt)
      else if \<not> usable thr e \<or> ghas (pw_parents w) (ed_other e) then pathEdges thr goal cur leave es (w, nxt)
      else let w' = w\<lparr>pw_parents := gput (ed_other e) \<lparr>cf_prev = cur, cf_via = e\<rparr> (pw_parents w)\<rparr>
           in if ed_other e = goal then (w'\<lparr>pw_found := True\<rparr>, nxt)
              else pathEdges thr goal cur leave es (w', nxt @ [ed_other e]))"
  by (auto simp: passes_def usable_def Let_def)

lemma new_parent:
  assumes ok: "walk_ok thr g t start goal (Suc d) w" and p: "parentsPath (pw_parents w) start cur p"
    and r: "route thr g t start start [] p cur" and len: "length p \<le> d" and e: "e \<in> set (edgesOf g cur t)"
    and "usable thr e" and "may_leave g start cur (arrivalOf p) e" and new: "\<not> ghas (pw_parents w) (ed_other e)"
    and nf: "\<not> pw_found w"
    and w': "w' = w\<lparr>pw_parents := gput (ed_other e) \<lparr>cf_prev = cur, cf_via = e\<rparr> (pw_parents w), pw_found := (ed_other e = goal)\<rparr>"
  shows "walk_ok thr g t start goal (Suc d) w'" and "map_of (pw_parents w) \<subseteq>\<^sub>m map_of (pw_parents w')"
proof -
  show le: "map_of (pw_parents w) \<subseteq>\<^sub>m map_of (pw_parents w')"
    using new by (auto simp: w' map_le_def ghas_def)
  have ns: "ed_other e \<noteq> start" using new ok by (auto simp: walk_ok_def)
  have "parentsPath (pw_parents w') start (ed_other e) (p @ [e])"
    by (rule parentsPath.via [OF parentsPath_mono [OF p le] ns]) (simp add: w')
  moreover have "route thr g t start start [] (p @ [e]) (ed_other e)"
    using r e assms(6,7) by (auto simp: route_snoc arrivalOf_def)
  ultimately have "reached thr g t start (Suc d) w' (ed_other e)"
    using len unfolding reached_def by (intro exI [of _ "p @ [e]"]) simp
  moreover have "reached thr g t start (Suc d) w' y" if "ghas (pw_parents w) y" for y
    using ok that by (intro reached_mono [OF _ le order_refl]) (simp add: walk_ok_def)
  ultimately show "walk_ok thr g t start goal (Suc d) w'"
    using ok nf by (auto simp: walk_ok_def w')
qed

lemma pathEdges_ok:
  assumes "walk_ok thr g t start goal (Suc d) w" and "\<not> pw_found w"
    and "parentsPath (pw_parents w) start cur p" and r: "route thr g t start start [] p cur" and len: "length p \<le> d"
    and leave: "\<And>e. passes leave e \<longleftrightarrow> may_leave g start cur (arrivalOf p) e" and "set es \<subseteq> set (edgesOf g cur t)"
    and "s' = pathEdges thr goal cur leave es (w, nxt)"
  shows "walk_ok thr g t start goal (Suc d) (fst s') \<and> walkGrows (w, nxt) s' \<and>
    (pw_found (fst s') \<or> (\<forall>e \<in> set es. usable thr e \<and> may_leave g start cur (arrivalOf p) e \<longrightarrow> ghas (pw_parents (fst s')) (ed_other e)))"
  using assms(1,2,3,7,8)
proof (induction es arbitrary: w nxt)
  case Nil
  then show ?case by (simp add: walk_grows_refl)
next
  case (Cons e es)
  have es: "set es \<subseteq> set (edgesOf g cur t)" and e: "e \<in> set (edgesOf g cur t)" using Cons.prems(4) by auto
  show ?case
  proof (cases "passes leave e \<and> usable thr e \<and> \<not> ghas (pw_parents w) (ed_other e)")
    case False
    define w1 where "w1 = (if passes leave e then w else w\<lparr>pw_terminals := gadd cur (pw_terminals w)\<rparr>)"
    have s': "s' = pathEdges thr goal cur leave es (w1, nxt)"
      using Cons.prems(5) False by (auto simp: pathEdges_unfold w1_def simp del: pathEdges.simps)
    have "walk_ok thr g t start goal (Suc d) w1" "\<not> pw_found w1" "parentsPath (pw_parents w1) start cur p"
      and P: "pw_parents w1 = pw_parents w"
      using Cons.prems(1,2,3) by (simp_all add: w1_def)
    from Cons.IH [OF this(1,2,3) es s'] have IH: "walk_ok thr g t start goal (Suc d) (fst s')" "walkGrows (w1, nxt) s'"
      "pw_found (fst s') \<or> (\<forall>e \<in> set es. usable thr e \<and> may_leave g start cur (arrivalOf p) e \<longrightarrow> ghas (pw_parents (fst s')) (ed_other e))"
      by blast+
    have "walkGrows (w, nxt) s'" using IH(2) by (simp add: walkGrows_def P)
    moreover have "ghas (pw_parents (fst s')) (ed_other e)"
      if "usable thr e" "may_leave g start cur (arrivalOf p) e"
      using that False leave \<open>walkGrows (w, nxt) s'\<close> ghas_map_le [of "pw_parents w"] by (auto simp: walkGrows_def)
    ultimately show ?thesis using IH by auto
  next
    case True
    define w1 where "w1 = w\<lparr>pw_parents := gput (ed_other e) \<lparr>cf_prev = cur, cf_via = e\<rparr> (pw_parents w), pw_found := (ed_other e = goal)\<rparr>"
    note np = new_parent [OF Cons.prems(1,3) r len e _ _ _ Cons.prems(2) w1_def]
    have ok1: "walk_ok thr g t start goal (Suc d) w1" and le1: "map_of (pw_parents w) \<subseteq>\<^sub>m map_of (pw_parents w1)"
      using np True leave by blast+
    have has: "ghas (pw_parents w1) (ed_other e)" by (simp add: w1_def)
    show ?thesis
    proof (cases "ed_other e = goal")
      case goal: True
      have "s' = (w1, nxt)"
        using Cons.prems(5) True goal by (simp add: pathEdges_unfold w1_def Let_def del: pathEdges.simps)
      moreover have "walkGrows (w, nxt) (w1, nxt)" using le1 goal by (auto simp: walkGrows_def w1_def)
      ultimately show ?thesis using ok1 goal by (simp add: w1_def)
    next
      case False
      have "w1 = w\<lparr>pw_parents := gput (ed_other e) \<lparr>cf_prev = cur, cf_via = e\<rparr> (pw_parents w)\<rparr>"
        using Cons.prems(2) False unfolding w1_def by (cases w) simp
      then have s': "s' = pathEdges thr goal cur leave es (w1, nxt @ [ed_other e])"
        using Cons.prems(5) True False by (simp add: pathEdges_unfold Let_def del: pathEdges.simps)
      have nf1: "\<not> pw_found w1" using False by (simp add: w1_def)
      from Cons.IH [OF ok1 nf1 parentsPath_mono [OF Cons.prems(3) le1] es s']
      have IH: "walk_ok thr g t start goal (Suc d) (fst s')" "walkGrows (w1, nxt @ [ed_other e]) s'"
        "pw_found (fst s') \<or> (\<forall>e \<in> set es. usable thr e \<and> may_leave g start cur (arrivalOf p) e \<longrightarrow> ghas (pw_parents (fst s')) (ed_other e))"
        by blast+
      have "walkGrows (w, nxt) (w1, nxt @ [ed_other e])" using le1 by (auto simp: walkGrows_def w1_def)
      from walk_grows_trans [OF this IH(2)] nf1 have "walkGrows (w, nxt) s'" by simp
      moreover have "ghas (pw_parents (fst s')) (ed_other e)"
        using IH(2) has ghas_map_le [of "pw_parents w1"] by (auto simp: walkGrows_def)
      ultimately show ?thesis using IH by auto
    qed
  qed
qed

lemma pathNodes_ok:
  assumes "walk_ok thr g t start goal (Suc d) w" and "\<not> pw_found w"
    and "\<forall>cur \<in> set frontier. reached thr g t start d w cur"
    and "s' = pathNodes thr g start goal t frontier (w, nxt)"
  shows "walk_ok thr g t start goal (Suc d) (fst s') \<and> walkGrows (w, nxt) s' \<and>
    (pw_found (fst s') \<or> freeStep thr g t start `` set frontier \<subseteq> {y. ghas (pw_parents (fst s')) y})"
  using assms
proof (induction frontier arbitrary: w nxt)
  case Nil
  then show ?case by (simp add: walk_grows_refl)
next
  case (Cons cur frontier)
  let ?s1 = "pathEdges thr goal cur (leaving g start w cur) (edgesOf g cur t) (w, nxt)"
  from Cons.prems(3) obtain p where p: "parentsPath (pw_parents w) start cur p"
    "route thr g t start start [] p cur" "length p \<le> d" by (auto simp: reached_def)
  have E: "walk_ok thr g t start goal (Suc d) (fst ?s1)" "walkGrows (w, nxt) ?s1"
    "pw_found (fst ?s1) \<or> (\<forall>e \<in> set (edgesOf g cur t). usable thr e \<and> may_leave g start cur (arrivalOf p) e
      \<longrightarrow> ghas (pw_parents (fst ?s1)) (ed_other e))"
    using pathEdges_ok [OF Cons.prems(1,2) p passes_leaving [OF p(1)] order_refl refl] by blast+
  have le: "map_of (pw_parents w) \<subseteq>\<^sub>m map_of (pw_parents (fst ?s1))" using E(2) by (simp add: walkGrows_def)
  have s': "s' = (if pw_found (fst ?s1) then ?s1 else pathNodes thr g start goal t frontier ?s1)"
    using Cons.prems(4) by (simp add: Let_def)
  show ?case
  proof (cases "pw_found (fst ?s1)")
    case True
    with s' E show ?thesis by simp
  next
    case False
    obtain w1 nxt1 where s1: "?s1 = (w1, nxt1)" by fastforce
    have "\<forall>cur \<in> set frontier. reached thr g t start d w1 cur"
      using Cons.prems(3) reached_mono [OF _ le order_refl] s1 by auto
    from Cons.IH [OF _ _ this, of nxt1] E(1) False s' s1
    have IH: "walk_ok thr g t start goal (Suc d) (fst s')" "walkGrows (w1, nxt1) s'"
      "pw_found (fst s') \<or> freeStep thr g t start `` set frontier \<subseteq> {y. ghas (pw_parents (fst s')) y}" by auto
    have "ghas (pw_parents (fst s')) y" if "(cur, y) \<in> freeStep thr g t start" for y
    proof -
      have "ghas (pw_parents w1) y" using that E(3) False s1 by (auto simp: freeStep_def)
      then show ?thesis using IH(2) ghas_map_le [of "pw_parents w1"] by (auto simp: walkGrows_def)
    qed
    moreover have "walkGrows (w, nxt) s'" using walk_grows_trans [of "(w, nxt)" "(w1, nxt1)" s'] E(2) IH(2) False s1 by simp
    ultimately show ?thesis using IH(1,3) by auto
  qed
qed

lemma reach_within_step:
  assumes "y \<in> reach_within E (Suc m) V" and "E `` V \<union> V \<subseteq> V'"
  shows "y \<in> reach_within E m V'"
proof -
  from assms(1) obtain n x where n: "n \<le> Suc m" "x \<in> V" "(x, y) \<in> E ^^ n" by (auto simp: reach_within_def)
  show ?thesis
  proof (cases n)
    case 0
    with n assms(2) show ?thesis by (auto simp: reach_within_def intro!: exI [of _ 0])
  next
    case (Suc k)
    obtain z where z: "(x, z) \<in> E" "(z, y) \<in> E ^^ k"
      using n(3) unfolding Suc by (rule relpow_Suc_E2)
    moreover have "z \<in> V'" using z(1) n(2) assms(2) by blast
    ultimately show ?thesis using n(1) Suc unfolding reach_within_def by auto
  qed
qed

lemma reach_within_closed:
  assumes "E `` V \<subseteq> V" and "y \<in> reach_within E n V"
  shows "y \<in> V"
proof -
  have "(x, y) \<in> E ^^ m \<Longrightarrow> x \<in> V \<Longrightarrow> y \<in> V" for m x
    by (induction m arbitrary: y) (use assms(1) in auto)
  with assms(2) show ?thesis by (auto simp: reach_within_def)
qed

lemma pathLevels_ok:
  assumes "walk_ok thr g t start goal d w" and "set frontier \<subseteq> {y. ghas (pw_parents w) y}"
    and "pw_found w \<or> freeStep thr g t start `` ({y. ghas (pw_parents w) y} - set frontier) \<subseteq> {y. ghas (pw_parents w) y}"
    and "w' = pathLevels thr g start goal t k w frontier"
  shows "walk_ok thr g t start goal (d + k) w' \<and>
    (\<forall>n \<le> k. goal \<in> reach_within (freeStep thr g t start) n {y. ghas (pw_parents w) y}
       \<longrightarrow> pw_found w' \<and> reached thr g t start (d + n) w' goal)"
  using assms
proof (induction k arbitrary: d w frontier)
  case 0
  have "goal \<in> {y. ghas (pw_parents w) y}" if "goal \<in> reach_within (freeStep thr g t start) 0 {y. ghas (pw_parents w) y}"
    using that by (simp add: reach_within_0)
  then show ?case using 0 by (auto simp: walk_ok_def)
next
  case (Suc k)
  let ?E = "freeStep thr g t start" and ?V = "{y. ghas (pw_parents w) y}"
  show ?case
  proof (cases "frontier = [] \<or> pw_found w")
    case True
    then have w': "w' = w" using Suc.prems(4) by simp
    have "pw_found w" if "goal \<in> reach_within ?E n ?V" for n
      using reach_within_closed [OF _ that] Suc.prems(1,3) True by (auto simp: walk_ok_def)
    then have "pw_found w \<and> reached thr g t start (d + n) w goal" if "goal \<in> reach_within ?E n ?V" for n
      using Suc.prems(1) that reached_mono [of thr g t start d w goal w "d + n"] by (auto simp: walk_ok_def)
    then show ?thesis using walk_ok_mono [OF Suc.prems(1), of "d + Suc k"] w' by simp
  next
    case False
    obtain w1 nxt where s1: "pathNodes thr g start goal t frontier (w, []) = (w1, nxt)" by fastforce
    have w': "w' = pathLevels thr g start goal t k w1 nxt" using Suc.prems(4) False s1 by simp
    have "\<forall>cur \<in> set frontier. reached thr g t start d w cur" using Suc.prems(1,2) by (auto simp: walk_ok_def)
    from pathNodes_ok [OF walk_ok_mono [OF Suc.prems(1)] _ this, where s' = "(w1, nxt)" and nxt = "[]"] False s1
    have N: "walk_ok thr g t start goal (Suc d) w1" "walkGrows (w, []) (w1, nxt)"
      "pw_found w1 \<or> ?E `` set frontier \<subseteq> {y. ghas (pw_parents w1) y}" by auto
    let ?V1 = "{y. ghas (pw_parents w1) y}"
    have VV: "?V \<subseteq> ?V1" using N(2) ghas_map_le by (auto simp: walkGrows_def)
    have V1: "pw_found w1 \<or> ?E `` ?V \<union> ?V \<subseteq> ?V1" using N(3) Suc.prems(3) False VV by blast
    have "set nxt \<subseteq> ?V1" using N(2) by (simp add: walkGrows_def)
    moreover have "pw_found w1 \<or> ?V1 - set nxt \<subseteq> ?V" using N(2) by (auto simp: walkGrows_def)
    then have "pw_found w1 \<or> ?E `` (?V1 - set nxt) \<subseteq> ?V1" using V1 by blast
    ultimately have IH: "walk_ok thr g t start goal (Suc d + k) w'"
      "\<And>n. n \<le> k \<Longrightarrow> goal \<in> reach_within ?E n ?V1 \<Longrightarrow> pw_found w' \<and> reached thr g t start (Suc d + n) w' goal"
      using Suc.IH [OF N(1) _ _ w'] by blast+
    have "pw_found w' \<and> reached thr g t start (d + n) w' goal" if n: "n \<le> Suc k" "goal \<in> reach_within ?E n ?V" for n
    proof (cases n)
      case 0
      with n(2) have "ghas (pw_parents w) goal" by (simp add: reach_within_0)
      then show ?thesis using Suc.prems(1) False by (simp add: walk_ok_def)
    next
      case m: (Suc m)
      show ?thesis
      proof (cases "pw_found w1")
        case True
        then have "w' = w1" using w' by (cases k) simp_all
        moreover have "reached thr g t start (Suc d) w1 goal" using N(1) True by (simp add: walk_ok_def)
        ultimately show ?thesis using True m reached_mono [of thr g t start "Suc d" w1 goal w1 "d + n"] by simp
      next
        case False
        then have "goal \<in> reach_within ?E m ?V1" using reach_within_step n(2) V1 unfolding m by blast
        with IH(2) [of m] n(1) m show ?thesis by simp
      qed
    qed
    with IH(1) show ?thesis by simp
  qed
qed

text \<open>The whole walk.\<close>

lemma walkPaths_ok:
  shows "walk_ok thr g t start goal (nat depth) (walkPaths thr g start goal t depth)" (is ?ok)
    and "\<lbrakk>int n \<le> depth; (start, goal) \<in> freeStep thr g t start ^^ n\<rbrakk>
      \<Longrightarrow> pw_found (walkPaths thr g start goal t depth) \<and> reached thr g t start n (walkPaths thr g start goal t depth) goal"
proof -
  let ?w = "\<lparr>pw_parents = [(start, zeroCameFrom)], pw_terminals = [], pw_found = (start = goal)\<rparr>"
  have V: "{y. ghas (pw_parents ?w) y} = {start}" by (auto simp: ghas_def)
  have "walk_ok thr g t start goal 0 ?w"
    by (auto simp: walk_ok_def reached_def ghas_def intro: parentsPath.at_start split: if_splits)
  from pathLevels_ok [OF this, of "[start]" "walkPaths thr g start goal t depth" "nat depth"]
  have *: "walk_ok thr g t start goal (nat depth) (walkPaths thr g start goal t depth)"
    "\<And>n. n \<le> nat depth \<Longrightarrow> goal \<in> reach_within (freeStep thr g t start) n {start} \<Longrightarrow>
      pw_found (walkPaths thr g start goal t depth) \<and> reached thr g t start n (walkPaths thr g start goal t depth) goal"
    unfolding V by (auto simp: walkPaths_def)
  show ?ok by (rule *(1))
  show "pw_found (walkPaths thr g start goal t depth) \<and> reached thr g t start n (walkPaths thr g start goal t depth) goal"
    if "int n \<le> depth" "(start, goal) \<in> freeStep thr g t start ^^ n"
    using that by (intro *(2)) (auto simp: reach_within_def)
qed

end
