(* ===== verification/Model_Governance.thy ===== *)
theory Model_Governance
  imports Toise_Prelude
begin

text \<open>
  The advisory vocabulary of governance attributes (\<open>internal/model/governance.go\<close>): a constant
  table that the description of the schema hands out.
\<close>

record GovernanceAttribute =
  gov_Key :: string
  gov_Summary :: string
  gov_Example :: string
  gov_Values :: "string list"
  gov_Semconv :: bool
  gov_Was :: "string list"

definition governanceAttributes :: "GovernanceAttribute list" where
  "governanceAttributes =
     [\<lparr>gov_Key = ''service.namespace'',
       gov_Summary = ''owning team or service group; reuse the semconv key when the entity is a service and do not override an existing value'',
       gov_Example = ''checkout'', gov_Values = [], gov_Semconv = True, gov_Was = []\<rparr>,
      \<lparr>gov_Key = ''senhub.owner.team'',
       gov_Summary = ''owning team for any entity type, where service.namespace does not apply'',
       gov_Example = ''sre-platform'', gov_Values = [], gov_Semconv = False, gov_Was = [''entity.owner.team'']\<rparr>,
      \<lparr>gov_Key = ''senhub.owner.contact'',
       gov_Summary = ''escalation contact for the owning team (optional)'',
       gov_Example = ''sre@acme.io'', gov_Values = [], gov_Semconv = False, gov_Was = [''entity.owner.contact'']\<rparr>,
      \<lparr>gov_Key = ''service.criticality'',
       gov_Summary = ''business criticality / tier; semconv key (service-scoped upstream) applied to any entity type'',
       gov_Example = ''high'', gov_Values = [''critical'', ''high'', ''medium'', ''low''], gov_Semconv = True, gov_Was = []\<rparr>,
      \<lparr>gov_Key = ''senhub.location.site'',
       gov_Summary = ''physical site or campus (on-prem; semconv covers only cloud regions)'',
       gov_Example = ''paris'', gov_Values = [], gov_Semconv = False, gov_Was = [''entity.location.site'']\<rparr>,
      \<lparr>gov_Key = ''senhub.location.datacenter'', gov_Summary = ''physical datacenter'',
       gov_Example = ''dc-eq5'', gov_Values = [], gov_Semconv = False, gov_Was = [''entity.location.datacenter'']\<rparr>,
      \<lparr>gov_Key = ''senhub.location.rack'', gov_Summary = ''physical rack'',
       gov_Example = ''R12'', gov_Values = [], gov_Semconv = False, gov_Was = [''entity.location.rack'']\<rparr>,
      \<lparr>gov_Key = ''senhub.location.room'', gov_Summary = ''physical room or hall'',
       gov_Example = ''hall-2'', gov_Values = [], gov_Semconv = False, gov_Was = [''entity.location.room'']\<rparr>,
      \<lparr>gov_Key = ''senhub.lifecycle.status'',
       gov_Summary = ''operator-asserted lifecycle / maintenance state (open enum)'',
       gov_Example = ''maintenance'', gov_Values = [''active'', ''maintenance'', ''decommissioning'', ''retired''],
       gov_Semconv = False, gov_Was = [''entity.lifecycle.status'']\<rparr>]"

definition GovernanceAttributes :: "GovernanceAttribute list" where
  "GovernanceAttributes = governanceAttributes"

text \<open>The keys are distinct, and no key is an old spelling: a filter on a key and its old spellings is unambiguous.\<close>

lemma governance_keys_distinct: "distinct (concat (map (\<lambda>a. gov_Key a # gov_Was a) governanceAttributes))"
  by code_simp

end
