(* ===== verification/Mcp_Entities.thy ===== *)
theory Mcp_Entities
  imports Mcp_Traverse Model_Governance
begin

text \<open>
  The entity tools of \<open>internal/mcp\<close>: \<open>find_entities\<close> with its pages, \<open>get_entity\<close> and
  \<open>describe_schema\<close> (\<open>tools.go\<close>), \<open>annotate_entity\<close> (\<open>annotate.go\<close>), \<open>describe_type\<close>
  (\<open>dtype.go\<close>) and \<open>telemetry_keys\<close> (\<open>telemetry.go\<close>).  The natural-language description that
  \<open>describe_type\<close> renders from its other fields, and the guidance texts of \<open>telemetry_keys\<close>,
  are left out.
\<close>

section \<open>find\_entities\<close>

record FindEntitiesInput =
  en_Type :: string
  en_Match :: "(string, string) gomap"
  en_Limit :: int
  en_AsOf :: string
  en_Verbosity :: string
  en_After :: string

datatype KeyNote = NoCarrier string | ValueAbsent string string | CarriedBy string "string list"

record NoMatch =
  nm_Type :: string
  nm_Searched :: nat
  nm_Keys :: "KeyNote list"

record FindEntitiesOutput =
  fe_Graph :: GraphMeta
  fe_Entities :: "EntityOut list"
  fe_Total :: nat
  fe_Truncated :: bool
  fe_NextCursor :: string
  fe_Truncation :: "(nat \<times> nat \<times> string) option"
  fe_NoMatch :: "NoMatch option"

definition hasKey :: "Entity \<Rightarrow> string \<Rightarrow> bool" where
  "hasKey e key = (list_ex (\<lambda>(k, _). k = key) (ent_Identity e) \<or> list_ex (\<lambda>(k, _). k = key) (ent_Attributes e))"

definition typesCarryingKey :: "Graph \<Rightarrow> string \<Rightarrow> string list" where
  "typesCarryingKey g key =
     sort (filter (\<lambda>typ. list_ex (\<lambda>e. hasKey e key) (ListEntities g typ)) (gkeys (CountByType g)))"

definition keyNote :: "Graph \<Rightarrow> string \<Rightarrow> string \<Rightarrow> KeyNote" where
  "keyNote g typ k =
     (let carriers = typesCarryingKey g k
      in if carriers = [] then NoCarrier k
         else if typ \<noteq> [] \<and> length carriers = 1 \<and> hd carriers = typ then ValueAbsent k typ
         else CarriedBy k carriers)"

definition noMatchReason :: "Graph \<Rightarrow> string \<Rightarrow> (string, string) gomap \<Rightarrow> NoMatch" where
  "noMatchReason g typ match =
     \<lparr>nm_Type = typ, nm_Searched = (if typ \<noteq> [] then gget 0 (CountByType g) typ else EntityCount g),
      nm_Keys = map (keyNote g typ) (sort (gkeys match))\<rparr>"

text \<open>\<open>sort.Search\<close>: binary search for the first index at which a predicate holds.\<close>

function searchFrom :: "(nat \<Rightarrow> bool) \<Rightarrow> nat \<Rightarrow> nat \<Rightarrow> nat" where
  "searchFrom f i j =
     (if i < j then let h = (i + j) div 2 in if \<not> f h then searchFrom f (h + 1) j else searchFrom f i h else i)"
  by auto
termination by (relation "measure (\<lambda>(f, i, j). j - i)") auto

declare searchFrom.simps [simp del]

definition pageByFingerprint :: "Entity list \<Rightarrow> string \<Rightarrow> nat \<Rightarrow> McpErr + (Entity list \<times> string)" where
  "pageByFingerprint all after limit =
     (case (if after = [] then Some all
            else map_option (\<lambda>fp. drop (searchFrom (\<lambda>i. IdentityHash (all ! i) > fp) 0 (length all)) all) (decodeCursor after)) of
        None \<Rightarrow> Inl (BadCursor after)
      | Some all \<Rightarrow>
          if length all \<le> limit then Inr (all, [])
          else let page = take limit all in Inr (page, encodeCursor (IdentityHash (last page))))"

definition foundOutput :: "'d mcpEnv \<Rightarrow> 'd Server \<Rightarrow> FindEntitiesInput \<Rightarrow> Graph \<Rightarrow> bool \<Rightarrow> Entity list \<Rightarrow> nat \<Rightarrow> string
    \<Rightarrow> FindEntitiesOutput" where
  "foundOutput env s inp g brief page n cursor =
     \<lparr>fe_Graph = graphMeta env s g (en_AsOf inp),
      fe_Entities = map (\<lambda>e. attachProducers s (ent_ID e) brief (en_AsOf inp) (entityOutV e False brief)) page,
      fe_Total = n, fe_Truncated = (cursor \<noteq> []), fe_NextCursor = cursor,
      fe_Truncation = (if cursor = [] then None else Some (length page, n, cursor)),
      fe_NoMatch = (if page = [] then Some (noMatchReason g (en_Type inp) (en_Match inp)) else None)\<rparr>"

text \<open>
  Without an attribute filter the projection pages; with one every candidate is examined.  The
  projection's page is \<^const>\<open>None\<close> only for a limit below one, which \<open>clampLimit\<close> excludes.
\<close>

definition findEntities :: "'d mcpEnv \<Rightarrow> FindEntitiesInput \<Rightarrow> 'd Server \<Rightarrow> (McpErr + FindEntitiesOutput) option" where
  "findEntities env inp s =
     (case parseVerbosity (en_Verbosity inp) of
        Inl err \<Rightarrow> Some (Inl err)
      | Inr brief \<Rightarrow>
          (case graphAt env s (en_AsOf inp) of
             Inl err \<Rightarrow> Some (Inl err)
           | Inr g \<Rightarrow>
               let limit = clampLimit (en_Limit inp)
               in if en_Match inp = []
                  then (case (if en_After inp = [] then Some [] else decodeCursor (en_After inp)) of
                          None \<Rightarrow> Some (Inl (BadCursor (en_After inp)))
                        | Some afterFP \<Rightarrow>
                            map_option (\<lambda>(page, nxt, n).
                               Inr (foundOutput env s inp g brief page n (if nxt \<noteq> [] then encodeCursor nxt else [])))
                              (PageEntitiesByFingerprint g (en_Type inp) afterFP limit))
                  else let matched = filter (\<lambda>e. MatchAll e (en_Match inp)) (ListEntitiesByFingerprint g (en_Type inp))
                       in case pageByFingerprint matched (en_After inp) (nat limit) of
                            Inl err \<Rightarrow> Some (Inl err)
                          | Inr (page, cursor) \<Rightarrow> Some (Inr (foundOutput env s inp g brief page (length matched) cursor))))"

section \<open>get\_entity and annotate\_entity\<close>

record AnnotationOut =
  ao_Values :: "(string, string) gomap"
  ao_Author :: string
  ao_UpdatedAt :: string

definition annotationOut :: "Annotation \<Rightarrow> AnnotationOut" where
  "annotationOut a = \<lparr>ao_Values = an_Values a, ao_Author = an_Author a, ao_UpdatedAt = formatTime (an_UpdatedAt a)\<rparr>"

text \<open>Reading a note may move its row to the entity's fingerprint, so the server changes.\<close>

definition annotationFor :: "'d mcpEnv \<Rightarrow> EntityID \<Rightarrow> 'd Server \<Rightarrow> 'd Server \<times> AnnotationOut option" where
  "annotationFor env i s =
     (case ms_ann s of
        None \<Rightarrow> (s, None)
      | Some ann \<Rightarrow>
          let key = (case fst (GetEntity (ms_graph s) i) of Some e \<Rightarrow> IdentityHash e | None \<Rightarrow> i)
          in case GetAt (me_pb env) (me_js env) key i ann of
               (ann, Inr (Some a)) \<Rightarrow> (s\<lparr>ms_ann := Some ann\<rparr>, Some (annotationOut a))
             | (ann, _) \<Rightarrow> (s\<lparr>ms_ann := Some ann\<rparr>, None))"

record GetEntityInput =
  ge_EntityID :: string
  ge_AsOf :: string
  ge_Verbosity :: string

record GetEntityOutput =
  go_Graph :: GraphMeta
  go_Resolution :: "Resolution option"
  go_Entity :: EntityOut
  go_Annotations :: "AnnotationOut option"
  go_Canonical :: "CanonicalGroup option"

definition handleAt :: "'d Server \<Rightarrow> Graph \<Rightarrow> string \<Rightarrow> string \<Rightarrow> McpErr + (EntityID \<times> Entity \<times> bool)" where
  "handleAt s g handle asOf =
     (case ResolveHandle g handle of
        None \<Rightarrow> Inl (notFoundMsg s handle asOf)
      | Some i \<Rightarrow>
          (case GetEntity g i of
             (None, _) \<Rightarrow> Inl (notFoundMsg s handle asOf)
           | (Some e, deleted) \<Rightarrow> Inr (i, e, deleted)))"

definition mcpGetEntity :: "'d mcpEnv \<Rightarrow> GetEntityInput \<Rightarrow> 'd Server \<Rightarrow> ('d Server \<times> (McpErr + GetEntityOutput)) option" where
  "mcpGetEntity env inp s =
     (if ge_EntityID inp = [] then Some (s, Inl EntityRequired)
      else case parseVerbosity (ge_Verbosity inp) of
        Inl err \<Rightarrow> Some (s, Inl err)
      | Inr brief \<Rightarrow>
          (case graphAt env s (ge_AsOf inp) of
             Inl err \<Rightarrow> Some (s, Inl err)
           | Inr g \<Rightarrow>
               (case handleAt s g (ge_EntityID inp) (ge_AsOf inp) of
                  Inl err \<Rightarrow> Some (s, Inl err)
                | Inr (i, e, deleted) \<Rightarrow>
                    map_option (\<lambda>group.
                       case annotationFor env i s of
                         (s', notes) \<Rightarrow>
                           (s', Inr \<lparr>go_Graph = graphMeta env s g (ge_AsOf inp), go_Resolution = resolutionFor s i (ge_AsOf inp),
                                     go_Entity = entityWithProducers s e deleted brief (ge_AsOf inp),
                                     go_Annotations = notes, go_Canonical = group\<rparr>))
                      (canonicalGroup s g i))))"

record AnnotateEntityInput =
  ae_EntityID :: string
  ae_Annotations :: "(string, string) gomap"

record AuditEvent =
  aud_Time :: time
  aud_Tenant :: string
  aud_Surface :: string
  aud_Action :: string
  aud_Target :: string

text \<open>The request stands for the context: whether it may write, and its tenant.\<close>

definition annotateEntity :: "'d mcpEnv \<Rightarrow> Request \<Rightarrow> string \<Rightarrow> AnnotateEntityInput \<Rightarrow> 'd Server
    \<Rightarrow> 'd Server \<times> AuditEvent list \<times> (McpErr + AnnotationOut)" where
  "annotateEntity env req ten inp s =
     (case ms_ann s of
        None \<Rightarrow> (s, [], Inl AnnotationsOff)
      | Some ann \<Rightarrow>
          if \<not> CanWrite req then (s, [], Inl MayNotAnnotate)
          else if ae_EntityID inp = [] then (s, [], Inl EntityRequired)
          else if ae_Annotations inp = [] then (s, [], Inl NoAnnotationKey)
          else case ResolveHandle (ms_graph s) (ae_EntityID inp) of
                 None \<Rightarrow> (s, [], Inl (NoEntityFound (ae_EntityID inp)))
               | Some i \<Rightarrow>
                   (case fst (GetEntity (ms_graph s) i) of
                      None \<Rightarrow> (s, [], Inl (NoEntityFound (ae_EntityID inp)))
                    | Some e \<Rightarrow>
                        (case SetAt (me_pb env) (me_js env) (IdentityHash e) i (ae_Annotations inp) [] (ms_now s) ann of
                           (ann, Inl err) \<Rightarrow> (s\<lparr>ms_ann := Some ann\<rparr>, [], Inl (AnnotationErr err))
                         | (ann, Inr a) \<Rightarrow>
                             (s\<lparr>ms_ann := Some ann\<rparr>,
                              [\<lparr>aud_Time = ms_now s, aud_Tenant = ten, aud_Surface = ''mcp'', aud_Action = ''annotate_entity'',
                                aud_Target = ae_EntityID inp\<rparr>],
                              Inr (annotationOut a)))))"

section \<open>describe\_schema\<close>

definition countType :: "string \<Rightarrow> (string, nat) gomap \<Rightarrow> (string, nat) gomap" where
  "countType t m = gput t (gget 0 m t + 1) m"

definition relationCounts :: "Relation list \<Rightarrow> (string, nat) gomap" where
  "relationCounts rels = fold (\<lambda>r. countType (rel_Type r)) rels []"

record GovernanceAttributeInfo =
  gai_Key :: string
  gai_Summary :: string
  gai_Example :: string
  gai_Values :: "string list"
  gai_Semconv :: bool
  gai_Was :: "string list"

definition governanceVocabulary :: "GovernanceAttributeInfo list" where
  "governanceVocabulary =
     map (\<lambda>a. \<lparr>gai_Key = gov_Key a, gai_Summary = gov_Summary a, gai_Example = gov_Example a, gai_Values = gov_Values a,
               gai_Semconv = gov_Semconv a, gai_Was = gov_Was a\<rparr>) GovernanceAttributes"

record DescribeSchemaOutput =
  ds_Graph :: GraphMeta
  ds_Description :: string
  ds_EntityTypes :: "TypeCount list"
  ds_RelationTypes :: "TypeCount list"
  ds_TotalEntities :: nat
  ds_TotalRelations :: nat
  ds_GovernanceAttributes :: "GovernanceAttributeInfo list"

definition joinCounts :: "TypeCount list \<Rightarrow> string" where
  "joinCounts tcs = join '', '' (map (\<lambda>tc. itoa (tc_Count tc) @ '' '' @ tc_Type tc) tcs)"

text \<open>\<open>emDash\<close> is the UTF-8 form of the dash in the sentence.\<close>

definition emDash :: string where
  "emDash = [CHR 0xE2, CHR 0x80, CHR 0x94]"

definition describe :: "DescribeSchemaOutput \<Rightarrow> string" where
  "describe out =
     (if ds_TotalEntities out = 0 then ''This Toise instance is empty: no entities have been observed yet.''
      else ''This Toise instance tracks '' @ itoa (ds_TotalEntities out) @ '' entities across ''
        @ itoa (length (ds_EntityTypes out)) @ '' types''
        @ (if ds_EntityTypes out \<noteq> [] then '' ('' @ joinCounts (ds_EntityTypes out) @ '')'' else [])
        @ (if ds_TotalRelations out > 0
           then '', connected by '' @ itoa (ds_TotalRelations out) @ '' relations across '' @ itoa (length (ds_RelationTypes out))
             @ '' types ('' @ joinCounts (ds_RelationTypes out) @ '')''
           else '', with no relations recorded yet'')
        @ ''.''
        @ (if ds_GovernanceAttributes out \<noteq> []
           then '' Any entity may also carry '' @ itoa (length (ds_GovernanceAttributes out))
             @ '' cross-cutting governance attributes (ownership, criticality, location, lifecycle) you can filter on ''
             @ emDash @ '' see governance_attributes.''
           else []))"

definition describeSchema :: "'d mcpEnv \<Rightarrow> string \<Rightarrow> 'd Server \<Rightarrow> McpErr + DescribeSchemaOutput" where
  "describeSchema env asOf s =
     (case graphAt env s asOf of
        Inl err \<Rightarrow> Inl err
      | Inr g \<Rightarrow>
          let out = \<lparr>ds_Graph = graphMeta env s g asOf, ds_Description = [],
               ds_EntityTypes = map (\<lambda>tc. if snd (DisplayNameAbsentReason (tc_Type tc)) then tc\<lparr>tc_DisplayNameAbsent := True\<rparr> else tc)
                 (sortedCounts (CountByType g)),
               ds_RelationTypes = sortedCounts (relationCounts (ListRelations g [] [] [])),
               ds_TotalEntities = EntityCount g, ds_TotalRelations = RelationCount g,
               ds_GovernanceAttributes = governanceVocabulary\<rparr>
          in Inr (out\<lparr>ds_Description := describe out\<rparr>))"

section \<open>describe\_type\<close>

definition keyUsageSample :: nat where "keyUsageSample = 500"
definition maxTypeSamples :: nat where "maxTypeSamples = 5"

record AttributeUsage =
  us_Key :: string
  us_Seen :: nat
  us_Example :: string

record RelationParticipation =
  rp_RelationType :: string
  rp_Direction :: string
  rp_Count :: nat
  rp_PeerTypes :: "TypeCount list"

record EndpointShape =
  es_FromType :: string
  es_ToType :: string
  es_Count :: nat

record DescribeTypeOutput =
  dt_Kind :: string
  dt_Type :: string
  dt_Registered :: bool
  dt_Count :: nat
  dt_DisplayNameAbsent :: "string option"
  dt_IdentityKeys :: "AttributeUsage list"
  dt_AttributeKeys :: "AttributeUsage list"
  dt_Relations :: "RelationParticipation list"
  dt_Samples :: "string list"
  dt_Structural :: bool
  dt_ImpactFlow :: string
  dt_EndpointShapes :: "EndpointShape list"

definition recordUsage :: "KeyValue \<Rightarrow> (string, AttributeUsage) gomap \<Rightarrow> (string, AttributeUsage) gomap" where
  "recordUsage kv m =
     (case map_of m (fst kv) of
        None \<Rightarrow> gput (fst kv) \<lparr>us_Key = fst kv, us_Seen = 1, us_Example = fst (valueString (snd kv))\<rparr> m
      | Some u \<Rightarrow> gput (fst kv) (u\<lparr>us_Seen := us_Seen u + 1\<rparr>) m)"

definition sortedUsage :: "(string, AttributeUsage) gomap \<Rightarrow> AttributeUsage list" where
  "sortedUsage m = sort_key (\<lambda>u. (- int (us_Seen u), us_Key u)) (map snd m)"

definition participate :: "Graph \<Rightarrow> EntityID goset \<Rightarrow> Relation \<Rightarrow> (string \<times> string, (string, nat) gomap) gomap
    \<Rightarrow> (string \<times> string, (string, nat) gomap) gomap" where
  "participate g isType r parts =
     (case (fst (GetEntity g (rel_From r)), fst (GetEntity g (rel_To r))) of
        (Some fromEnt, Some toEnt) \<Rightarrow>
          let add = (\<lambda>k t m. gput k (countType t (gget [] m k)) m);
              parts = (if ghas isType (rel_From r) then add (rel_Type r, ''outgoing'') (ent_Type toEnt) parts else parts)
          in if ghas isType (rel_To r) then add (rel_Type r, ''incoming'') (ent_Type fromEnt) parts else parts
      | _ \<Rightarrow> parts)"

definition describeEntityType :: "Graph \<Rightarrow> string \<Rightarrow> Entity list \<Rightarrow> DescribeTypeOutput" where
  "describeEntityType g typ ents =
     (let sample = take keyUsageSample ents;
          parts = fold (participate g (map (\<lambda>e. (ent_ID e, ())) ents)) (ListRelations g [] [] []) []
      in \<lparr>dt_Kind = ''entity'', dt_Type = typ, dt_Registered = IsKnownEntityType typ, dt_Count = length ents,
          dt_DisplayNameAbsent = (case DisplayNameAbsentReason typ of (reason, True) \<Rightarrow> Some reason | _ \<Rightarrow> None),
          dt_IdentityKeys = sortedUsage (fold (\<lambda>e. fold recordUsage (ent_Identity e)) sample []),
          dt_AttributeKeys = sortedUsage (fold (\<lambda>e. fold recordUsage (ent_Attributes e)) sample []),
          dt_Relations = sort_key (\<lambda>p. (- int (rp_Count p), rp_RelationType p, rp_Direction p))
            (map (\<lambda>((rel, dir), peers). \<lparr>rp_RelationType = rel, rp_Direction = dir, rp_Count = sum_list (map snd peers),
               rp_PeerTypes = sortedCounts peers\<rparr>) parts),
          dt_Samples = map label (take maxTypeSamples ents),
          dt_Structural = False, dt_ImpactFlow = [], dt_EndpointShapes = []\<rparr>)"

definition shapeOf :: "Graph \<Rightarrow> Relation \<Rightarrow> (string \<times> string, nat) gomap \<Rightarrow> (string \<times> string, nat) gomap" where
  "shapeOf g r shapes =
     (case (fst (GetEntity g (rel_From r)), fst (GetEntity g (rel_To r))) of
        (Some fromEnt, Some toEnt) \<Rightarrow>
          let k = (ent_Type fromEnt, ent_Type toEnt) in gput k (gget 0 shapes k + 1) shapes
      | _ \<Rightarrow> shapes)"

definition describeRelationType :: "Graph \<Rightarrow> string \<Rightarrow> Relation list \<Rightarrow> DescribeTypeOutput" where
  "describeRelationType g typ rels =
     (let d = RelationDef typ
      in \<lparr>dt_Kind = ''relation'', dt_Type = typ, dt_Registered = (d \<noteq> None), dt_Count = length rels,
          dt_DisplayNameAbsent = None, dt_IdentityKeys = [], dt_AttributeKeys = [], dt_Relations = [], dt_Samples = [],
          dt_Structural = (case d of Some def \<Rightarrow> rtd_Structural def | None \<Rightarrow> False),
          dt_ImpactFlow = (case d of
             Some def \<Rightarrow> (case rtd_Impact def of ImpactToFrom \<Rightarrow> ''to_from'' | ImpactFromTo \<Rightarrow> ''from_to'' | ImpactNone \<Rightarrow> ''none''
                          | ImpactBoth \<Rightarrow> ''both'')
           | None \<Rightarrow> ''both''),
          dt_EndpointShapes = sort_key (\<lambda>sh. (- int (es_Count sh), es_FromType sh @ es_ToType sh))
            (map (\<lambda>((f, t), n). \<lparr>es_FromType = f, es_ToType = t, es_Count = n\<rparr>) (fold (shapeOf g) rels []))\<rparr>)"

definition describeType :: "'d mcpEnv \<Rightarrow> string \<Rightarrow> string \<Rightarrow> 'd Server \<Rightarrow> McpErr + (GraphMeta \<times> DescribeTypeOutput)" where
  "describeType env typ asOf s =
     (if typ = [] then Inl TypeRequired
      else case graphAt env s asOf of
        Inl err \<Rightarrow> Inl err
      | Inr g \<Rightarrow>
          let rels = ListRelations g typ [] []
          in if rels \<noteq> [] \<or> RelationDef typ \<noteq> None
             then Inr (graphMeta env s g asOf, describeRelationType g typ rels)
             else let ents = ListEntities g typ
                  in if ents \<noteq> [] \<or> IsKnownEntityType typ
                     then Inr (graphMeta env s g asOf, describeEntityType g typ ents)
                     else Inl (UnknownType typ))"

section \<open>telemetry\_keys\<close>

definition joinKeys :: "string list" where
  "joinKeys = [''host.id'', ''host.name'', ''service.instance.id'', ''service.name'', ''service.namespace'',
     ''network.device.id'', ''db.instance.id'', ''network.interface.name'', ''interface.name'', ''process.pid'',
     ''process.executable.name'', ''container.id'', ''host.service.name'', ''k8s.pod.uid'', ''k8s.pod.name'',
     ''k8s.namespace.name'']"

definition hasIncomingMonitors :: "Graph \<Rightarrow> EntityID \<Rightarrow> bool" where
  "hasIncomingMonitors g i = list_ex (\<lambda>e. ed_direction e = ''incoming'') (edgesOf g i RelMonitors)"

definition conditionalJoinKeys :: "(string, Graph \<Rightarrow> EntityID \<Rightarrow> bool) gomap" where
  "conditionalJoinKeys = [(''service.endpoint'', hasIncomingMonitors)]"

text \<open>The keys whose use has a caveat; the sentence itself is left out.\<close>

definition joinKeyNotes :: "string list" where
  "joinKeyNotes = [''process.pid'', ''host.name'', ''service.name'', ''k8s.pod.name'', ''host.service.name'',
     ''network.device.id'', ''db.instance.id'', ''service.endpoint'']"

definition ownerDirection :: "(string, string) gomap" where
  "ownerDirection = [(RelRunsOn, ''outgoing''), (RelBoundTo, ''outgoing''), (RelListensOn, ''outgoing''),
     (RelHasInterface, ''incoming''), (RelHasRoute, ''incoming'')]"

record TelemetryKey =
  tk_Key :: string
  tk_Value :: string
  tk_MetricLabel :: string
  tk_Source :: string
  tk_Noted :: bool

definition collectKey :: "string list \<Rightarrow> string \<Rightarrow> KeyValue \<Rightarrow> string goset \<times> TelemetryKey list \<Rightarrow> string goset \<times> TelemetryKey list" where
  "collectKey allowed source kv s =
     (if fst kv \<notin> set joinKeys \<and> fst kv \<notin> set allowed then s
      else if ghas (fst s) (fst kv) then s
      else (gadd (fst kv) (fst s),
            snd s @ [\<lparr>tk_Key = fst kv, tk_Value = fst (valueString (snd kv)),
                      tk_MetricLabel = map (\<lambda>c. if c = CHR ''.'' then CHR ''_'' else c) (fst kv),
                      tk_Source = source, tk_Noted = (fst kv \<in> set joinKeyNotes)\<rparr>]))"

definition collectEntity :: "string list \<Rightarrow> string \<Rightarrow> string \<Rightarrow> Entity \<Rightarrow> string goset \<times> TelemetryKey list \<Rightarrow> string goset \<times> TelemetryKey list" where
  "collectEntity allowed idSource attrSource e s =
     fold (collectKey allowed attrSource) (ent_Attributes e) (fold (collectKey allowed idSource) (ent_Identity e) s)"

definition inheritKeys :: "Graph \<Rightarrow> string list \<Rightarrow> edge \<Rightarrow> string goset \<times> TelemetryKey list \<Rightarrow> string goset \<times> TelemetryKey list" where
  "inheritKeys g allowed e s =
     (if gget [] ownerDirection (rel_Type (ed_rel e)) \<noteq> ed_direction e then s
      else case GetEntity g (ed_other e) of
             (Some other, False) \<Rightarrow>
               let source = ent_Type other @ '' '' @ ed_direction e @ '' via '' @ rel_Type (ed_rel e)
               in collectEntity allowed source source other s
           | _ \<Rightarrow> s)"

definition keysFor :: "Graph \<Rightarrow> EntityID \<Rightarrow> Entity \<Rightarrow> TelemetryKey list" where
  "keysFor g i ent =
     (let allowed = map fst (filter (\<lambda>(k, ok). ok g i) conditionalJoinKeys);
          s = collectEntity allowed ''identity'' ''attribute'' ent ([], [])
      in sort_key tk_Key (snd (fold (inheritKeys g allowed) (edgesOf g i []) s)))"

definition telemetryKeys :: "'d mcpEnv \<Rightarrow> string \<Rightarrow> string \<Rightarrow> 'd Server \<Rightarrow> McpErr + (GraphMeta \<times> EntityOut \<times> TelemetryKey list)" where
  "telemetryKeys env handle asOf s =
     (if handle = [] then Inl EntityRequired
      else case graphAt env s asOf of
        Inl err \<Rightarrow> Inl err
      | Inr g \<Rightarrow>
          (case handleAt s g handle asOf of
             Inl err \<Rightarrow> Inl err
           | Inr (i, ent, deleted) \<Rightarrow> Inr (graphMeta env s g asOf, entityOut ent deleted, keysFor g i ent)))"

end
