(* ===== verification/Mcp_Theorems.thy ===== *)
theory Mcp_Theorems
  imports Mcp_Path Mcp_Entities Mcp_Changes Change_Log Annotations_Theorems
begin

text \<open>
  What the graph tools of the MCP server promise: the path, the blast radius and the pages of the
  neighbourhood they answer with; and a route that \<open>find_path\<close> does not find.
\<close>

section \<open>Fixtures\<close>

definition fxMcpEnv :: "(string \<times> string) list mcpEnv" where
  "fxMcpEnv = \<lparr>me_pb = memPebble, me_pm = fxPm, me_js = tableJson fxNotes, me_ctx = (\<lambda>_. None), me_canceled = False\<rparr>"

definition fxMcp :: "(string \<times> string) list Server" where
  "fxMcp = NewMcp fxGraph (emptyStore False) (unixEpoch + 60)"

lemma fxMcp_simps [simp]: "ms_graph fxMcp = fxGraph" "ms_idThr fxMcp = defaultIdentityThreshold"
  by (simp_all add: fxMcp_def NewMcp_def)

lemma graphAt_now [simp]: "graphAt env s [] = Inr (ms_graph s)"
  by (simp add: graphAt_def)

lemma clampDepth_bounds: "1 \<le> clampDepth d \<and> clampDepth d \<le> 10"
  by (simp add: clampDepth_def maxPathDepth_def)

lemma clampLimit_bounds: "1 \<le> clampLimit n \<and> clampLimit n \<le> 200"
  by (simp add: clampLimit_def defaultLimit_def maxLimit_def)

lemma liveHandle_id:
  assumes "live g i = Some e" and "CHR '':'' \<notin> set i"
  shows "liveHandle g i = Inr i"
proof -
  have "cut i (CHR '':'') = (i, [], False)" using assms(2) by (simp add: cut_def index_byte_None [THEN iffD2])
  then have "ResolveHandle g i = Some i" by (simp add: ResolveHandle_def)
  then show ?thesis using assms(1) by (simp add: liveHandle_def live_case)
qed

lemma fx_live_handle: "liveHandle fxGraph ''h1'' = Inr ''h1''" "liveHandle fxGraph ''v1'' = Inr ''v1''"
  using liveHandle_id [OF fxGraph_live(1)] liveHandle_id [OF fxGraph_live(2)] by simp_all

section \<open>find\_path\<close>

text \<open>
  C14. A path that \<open>find_path\<close> returns is a path. The tool always answers when both handles name
  live entities; an answer \<open>reachable\<close> shows a route of live entities and existing relations from
  the one to the other within the depth, whose every hop the crossing rules admit (a terminal
  entity is left by its own edges, a network interface or a link-layer neighbour by another relation
  type than it was entered by, a \<open>same_as\<close> edge only when believed); and when the other end is within \<open>n\<close> hops
  by steps that may be taken however their source was reached, the answer is \<open>reachable\<close> in at
  most \<open>n\<close> hops.
\<close>

theorem find_path_answers_with_a_route:
  assumes "fi_FromID inp \<noteq> []" and "fi_ToID inp \<noteq> []" and "graphAt env s (fi_AsOf inp) = Inr g"
    and "liveHandle g (fi_FromID inp) = Inr a" and "liveHandle g (fi_ToID inp) = Inr b"
  shows "\<exists>out. findPath env inp s = Some (Inr out) \<and> 1 \<le> fp_MaxDepth out \<and> fp_MaxDepth out \<le> 10 \<and>
    (fp_Reachable out \<longrightarrow> (\<exists>es. route (ms_idThr s) g (fi_RelationType inp) a a [] es b \<and>
       int (length es) \<le> fp_MaxDepth out \<and> fp_Path out = routeHops g a es \<and> fp_Hops out = int (length es))) \<and>
    (\<forall>n. int n \<le> fp_MaxDepth out \<and> (a, b) \<in> freeStep (ms_idThr s) g (fi_RelationType inp) a ^^ n
       \<longrightarrow> fp_Reachable out \<and> fp_Hops out \<le> int n)"
proof -
  let ?t = "fi_RelationType inp" and ?d = "clampDepth (fi_MaxDepth inp)"
  let ?w = "walkPaths (ms_idThr s) g a b ?t ?d"
  have find: "findPath env inp s = map_option Inr (pathAnswer env s g inp a b)" using assms by (simp add: findPath_def)
  have ok: "walk_ok (ms_idThr s) g ?t a b (nat ?d) ?w" by (rule walkPaths_ok)
  show ?thesis
  proof (cases "pw_found ?w")
    case False
    let ?out = "the (pathAnswer env s g inp a b)"
    have out: "pathAnswer env s g inp a b = Some ?out" "\<not> fp_Reachable ?out" "fp_MaxDepth ?out = ?d"
      using False by (simp_all add: pathAnswer_def Let_def split_beta)
    have "\<not> (int n \<le> ?d \<and> (a, b) \<in> freeStep (ms_idThr s) g ?t a ^^ n)" for n
      using False walkPaths_ok(2) by blast
    with find clampDepth_bounds [of "fi_MaxDepth inp"] out(2,3) out(1) [symmetric] show ?thesis
      by (intro exI [of _ ?out]) simp
  next
    case True
    with ok obtain es where es: "parentsPath (pw_parents ?w) a b es" "route (ms_idThr s) g ?t a a [] es b"
      "length es \<le> nat ?d" by (auto simp: walk_ok_def reached_def)
    let ?out = "the (pathAnswer env s g inp a b)"
    have out: "pathAnswer env s g inp a b = Some ?out" "fp_Reachable ?out" "fp_MaxDepth ?out = ?d"
      "fp_Path ?out = routeHops g a es" "fp_Hops ?out = int (length es)"
      using True pathBack_parents [OF es(1), of g "[]"] by (simp_all add: pathAnswer_def Let_def routeHops_def)
    have "fp_Hops ?out \<le> int n" if "int n \<le> ?d" "(a, b) \<in> freeStep (ms_idThr s) g ?t a ^^ n" for n
    proof -
      from walkPaths_ok(2) [OF that] obtain es' where es': "parentsPath (pw_parents ?w) a b es'" "length es' \<le> n"
        by (auto simp: reached_def)
      from pathBack_parents [OF this(1), of g "[]"] pathBack_parents [OF es(1), of g "[]"]
      have "length (routeHops g a es') = length (routeHops g a es)" by simp
      with es' out(5) show ?thesis by (simp add: routeHops_def)
    qed
    with out es find clampDepth_bounds [of "fi_MaxDepth inp"] show ?thesis
      by (intro exI [of _ ?out]) (auto simp: le_nat_iff)
  qed
qed

definition fxPathInput :: FindPathInput where
  "fxPathInput = \<lparr>fi_FromID = ''h1'', fi_ToID = ''v1'', fi_RelationType = [], fi_MaxDepth = 0, fi_AsOf = []\<rparr>"

lemma fx_freeStep: "(''h1'', ''v1'') \<in> freeStep defaultIdentityThreshold fxGraph [] ''h1''"
proof -
  have "rel_From fxEdge = ''h1'' \<and> rel_To fxEdge = ''v1''" by (simp add: fxEdge_def)
  with edge_exists [OF fxGraph_relation, of "[]" "''v1''" "''h1''"] fxGraph_wf fxGraph_live(2) obtain e where
    e: "e \<in> set (edgesOf fxGraph ''h1'' [])" "ed_other e = ''v1''" "ed_rel e = fxEdge" by auto
  have "believed defaultIdentityThreshold fxEdge" by code_simp
  with e show ?thesis by (auto simp: freeStep_def usable_def may_leave_def)
qed

theorem find_path_answers_with_a_route_witness:
  "\<exists>out. findPath fxMcpEnv fxPathInput fxMcp = Some (Inr out) \<and> fp_Reachable out \<and> fp_Hops out \<le> 1"
proof -
  have "(''h1'', ''v1'') \<in> freeStep (ms_idThr fxMcp) fxGraph [] ''h1'' ^^ 1" using fx_freeStep by simp
  moreover obtain out where "findPath fxMcpEnv fxPathInput fxMcp = Some (Inr out)" "1 \<le> fp_MaxDepth out"
    "\<forall>n. int n \<le> fp_MaxDepth out \<and> (''h1'', ''v1'') \<in> freeStep (ms_idThr fxMcp) fxGraph [] ''h1'' ^^ n
       \<longrightarrow> fp_Reachable out \<and> fp_Hops out \<le> int n"
    using find_path_answers_with_a_route [of fxPathInput fxMcpEnv fxMcp fxGraph "''h1''" "''v1''"] fx_live_handle
    by (auto simp: fxPathInput_def)
  ultimately show ?thesis by (metis of_nat_1)
qed

text \<open>A switch with two ports on one hub, and the port of another machine on it.\<close>

definition fxPort :: "string \<Rightarrow> Entity" where
  "fxPort i = zeroEntity\<lparr>ent_ID := i, ent_Type := TypeNetworkInterface, ent_Identity := [(''id'', StringValue i)]\<rparr>"

definition fxSwitch :: Entity where
  "fxSwitch = zeroEntity\<lparr>ent_ID := ''s'', ent_Type := TypeNetworkDevice, ent_Identity := [(''id'', StringValue ''s'')]\<rparr>"

definition fxLink :: "string \<Rightarrow> string \<Rightarrow> string \<Rightarrow> string \<Rightarrow> Relation" where
  "fxLink i t a b = zeroRelation\<lparr>rel_ID := i, rel_Type := t, rel_From := a, rel_To := b\<rparr>"

definition fxAdded :: "Relation \<Rightarrow> Event" where
  "fxAdded r = relationEv (zeroRelationEvent\<lparr>re_ChangeType := RelationAdded, re_Relation := r\<rparr>)"

definition fxHub :: Graph where
  "fxHub = Replay 0
     [fxEvent EntityCreated (fxPort ''x''), fxEvent EntityCreated (fxPort ''y''), fxEvent EntityCreated (fxPort ''z''),
      fxEvent EntityCreated fxSwitch, fxAdded (fxLink ''r1'' RelConnectedTo ''x'' ''y''), fxAdded (fxLink ''r2'' RelConnectedTo ''y'' ''z''),
      fxAdded (fxLink ''r3'' RelHasInterface ''s'' ''x''), fxAdded (fxLink ''r4'' RelHasInterface ''s'' ''y'')] NewGraph"

lemma fxHub_simps:
  "g_entities fxHub = [(''x'', fxPort ''x''), (''y'', fxPort ''y''), (''z'', fxPort ''z''), (''s'', fxSwitch)]"
  "g_deleted fxHub = []"
  "g_relations fxHub = [(''r1'', fxLink ''r1'' RelConnectedTo ''x'' ''y''), (''r2'', fxLink ''r2'' RelConnectedTo ''y'' ''z''),
     (''r3'', fxLink ''r3'' RelHasInterface ''s'' ''x''), (''r4'', fxLink ''r4'' RelHasInterface ''s'' ''y'')]"
  "g_out fxHub = [(''x'', [(''r1'', ())]), (''y'', [(''r2'', ())]), (''s'', [(''r3'', ()), (''r4'', ())])]"
  "g_in fxHub = [(''y'', [(''r1'', ()), (''r4'', ())]), (''z'', [(''r2'', ())]), (''x'', [(''r3'', ())])]"
  by (simp_all add: fxHub_def Replay_def fxEvent_def fxAdded_def Apply_def applyEntity_def applyRelation_def putEntity_def
      Let_def NewGraph_def NewWithTombstoneCap_def addAdjacency_def fxPort_def fxSwitch_def fxLink_def gput_def gget_def
      gadd_def isDeleted_def gdel_def)

lemma fxHub_edges:
  "edgesOf fxHub ''x'' [] = [\<lparr>ed_rel = fxLink ''r1'' RelConnectedTo ''x'' ''y'', ed_other = ''y'', ed_direction = ''outgoing''\<rparr>,
     \<lparr>ed_rel = fxLink ''r3'' RelHasInterface ''s'' ''x'', ed_other = ''s'', ed_direction = ''incoming''\<rparr>]"
  "edgesOf fxHub ''y'' [] = [\<lparr>ed_rel = fxLink ''r1'' RelConnectedTo ''x'' ''y'', ed_other = ''x'', ed_direction = ''incoming''\<rparr>,
     \<lparr>ed_rel = fxLink ''r2'' RelConnectedTo ''y'' ''z'', ed_other = ''z'', ed_direction = ''outgoing''\<rparr>,
     \<lparr>ed_rel = fxLink ''r4'' RelHasInterface ''s'' ''y'', ed_other = ''s'', ed_direction = ''incoming''\<rparr>]"
  "edgesOf fxHub ''s'' [] = [\<lparr>ed_rel = fxLink ''r3'' RelHasInterface ''s'' ''x'', ed_other = ''x'', ed_direction = ''outgoing''\<rparr>,
     \<lparr>ed_rel = fxLink ''r4'' RelHasInterface ''s'' ''y'', ed_other = ''y'', ed_direction = ''outgoing''\<rparr>]"
  by (simp_all add: edgesOf_def RelationsTouching_def fxHub_simps addTouching_def gkeys_def gget_def ghas_def gadd_def gput_def
      edgeOf_def GetEntity_def isDeleted_def List.map_filter_def fxLink_def Let_def)

lemma crossing_ports:
  "CrossingNeedsADifferentRelation TypeNetworkInterface" "\<not> IsTerminalEntityType TypeNetworkInterface"
  "\<not> CrossingNeedsADifferentRelation TypeNetworkDevice" "\<not> IsTerminalEntityType TypeNetworkDevice"
  "RelConnectedTo \<noteq> []" "RelHasInterface \<noteq> []" "RelConnectedTo \<noteq> RelHasInterface" "RelHasInterface \<noteq> RelConnectedTo"
  "RelConnectedTo \<noteq> RelSameAs" "RelHasInterface \<noteq> RelSameAs"
  by code_simp+

lemma fxHub_walk: "\<not> pw_found (walkPaths thr fxHub ''x'' ''z'' [] 10)"
  by (simp add: walkPaths_def eval_nat_numeral fxHub_edges leaving_def GetEntity_def fxHub_simps fxPort_def fxSwitch_def fxLink_def
      crossing_ports ghas_def gget_def gput_def gadd_def Let_def)

text \<open>
  An answer \<open>reachable: false\<close> is not a proof that there is no path. The walk decides how an
  interface may be left by the relation it was first reached through: two ports of a switch that
  hear each other and a third port on one hub, and the route over the switch to that third port,
  which the crossing rules admit, is not found, because its second port was already reached over
  the hub.
\<close>

theorem find_path_misses_an_admitted_route:
  "(\<exists>es. length es = 3 \<and> route defaultIdentityThreshold fxHub [] ''x'' ''x'' [] es ''z'') \<and>
   (\<exists>out. findPath fxMcpEnv (fxPathInput\<lparr>fi_FromID := ''x'', fi_ToID := ''z''\<rparr>) (fxMcp\<lparr>ms_graph := fxHub\<rparr>) = Some (Inr out) \<and>
      \<not> fp_Reachable out)"
proof
  let ?es = "[\<lparr>ed_rel = fxLink ''r3'' RelHasInterface ''s'' ''x'', ed_other = ''s'', ed_direction = ''incoming''\<rparr>,
    \<lparr>ed_rel = fxLink ''r4'' RelHasInterface ''s'' ''y'', ed_other = ''y'', ed_direction = ''outgoing''\<rparr>,
    \<lparr>ed_rel = fxLink ''r2'' RelConnectedTo ''y'' ''z'', ed_other = ''z'', ed_direction = ''outgoing''\<rparr>]"
  have "route defaultIdentityThreshold fxHub [] ''x'' ''x'' [] ?es ''z''"
    by (simp add: fxHub_edges usable_def may_leave_def GetEntity_def fxHub_simps fxPort_def fxSwitch_def fxLink_def
        crossing_ports)
  then show "\<exists>es. length es = 3 \<and> route defaultIdentityThreshold fxHub [] ''x'' ''x'' [] es ''z''"
    by (intro exI [of _ ?es]) simp
  have live: "live fxHub ''x'' \<noteq> None" "live fxHub ''z'' \<noteq> None" by (simp_all add: live_def isDeleted_def gget_def fxHub_simps)
  let ?inp = "fxPathInput\<lparr>fi_FromID := ''x'', fi_ToID := ''z''\<rparr>" and ?s = "fxMcp\<lparr>ms_graph := fxHub\<rparr>"
  show "\<exists>out. findPath fxMcpEnv ?inp ?s = Some (Inr out) \<and> \<not> fp_Reachable out"
    using live liveHandle_id [of fxHub "''x''"] liveHandle_id [of fxHub "''z''"] fxHub_walk
    by (auto simp: findPath_def fxPathInput_def pathAnswer_def clampDepth_def maxPathDepth_def Let_def split_beta)
qed

section \<open>impact\_of\<close>

definition impactedAt :: "Graph \<Rightarrow> nat \<times> edge \<Rightarrow> ImpactedEntity" where
  "impactedAt g h = \<lparr>im_Entity = entityOut (entityOrZero g (ed_other (snd h))) False, im_Depth = fst h,
     im_Via = rel_Type (ed_rel (snd h))\<rparr>"

definition typeAt :: "Graph \<Rightarrow> nat \<times> edge \<Rightarrow> string" where
  "typeAt g h = ent_Type (entityOrZero g (ed_other (snd h)))"

lemma fold_noteImpact:
  "fst (fold (\<lambda>(n, e). noteImpact g n e) rs r) = fst r @ map (impactedAt g) rs"
  "gget 0 (snd (fold (\<lambda>(n, e). noteImpact g n e) rs r)) t = gget 0 (snd r) t + length (filter (\<lambda>h. typeAt g h = t) rs)"
  "gdistinct (snd r) \<Longrightarrow> gdistinct (snd (fold (\<lambda>(n, e). noteImpact g n e) rs r))"
  by (induction rs arbitrary: r) (auto simp: noteImpact_def impactedAt_def typeAt_def Let_def)

lemma impactAnswer_found:
  assumes "canonicalMemberIDs s g a = Some grp"
    and "bfsLevels (\<lambda>i. edgesOf g i []) (\<lambda>cur e. impactPropagates e cur) (noteImpact g)
      (nat (clampDepth (ii_MaxDepth inp))) 1 (map (\<lambda>i. (i, ())) grp) grp ([], []) = (found, counts)"
  shows "\<exists>out. impactAnswer env s g inp a = Some out \<and> io_Total out = length found \<and>
    io_Impacted out = take (nat (clampLimit (ii_Limit inp))) (sortImpacted found) \<and> io_ByType out = sortedCounts counts"
  by (simp add: impactAnswer_def assms(1) assms(2) [unfolded One_nat_def] Let_def sortImpacted_def)

lemma sortedCounts_count:
  assumes "gdistinct m" and "tc \<in> set (sortedCounts m)"
  shows "tc_Count tc = gget 0 m (tc_Type tc)"
  using assms by (auto simp: sortedCounts_def gget_def gdistinct_def)

text \<open>
  C15. The blast radius is exact. For a live entity of a consistent graph \<open>impact_of\<close> answers, and
  what it lists are the live entities that a failure of the entity's canonical group reaches
  within the depth over relations whose flow carries it in that direction, each once and with its
  distance as depth; the total counts them all, the list is the first of them in the order of
  depth and label up to the limit, and the digest by type counts them by type.
\<close>

theorem impact_of_is_the_blast_radius:
  assumes "ii_EntityID inp \<noteq> []" and "graphAt env s (ii_AsOf inp) = Inr g" and "graph_wf g"
    and "liveHandle g (ii_EntityID inp) = Inr a"
  shows "\<exists>out hits. impactOf env inp s = Some (Inr out) \<and> distinct (map (ed_other \<circ> snd) hits) \<and>
    (\<forall>y n. (\<exists>e. (n, e) \<in> set hits \<and> ed_other e = y) \<longleftrightarrow> 1 \<le> n \<and> int n \<le> clampDepth (ii_MaxDepth inp) \<and>
       at_distance (impactHop g) ((belief (snd ` set (g_relations g)) (ms_idThr s))\<^sup>* `` {a}) n y) \<and>
    io_Total out = length hits \<and>
    io_Impacted out = take (nat (clampLimit (ii_Limit inp))) (sortImpacted (map (impactedAt g) hits)) \<and>
    (\<forall>tc \<in> set (io_ByType out). tc_Count tc = length (filter (\<lambda>h. typeAt g h = tc_Type tc) hits))"
proof -
  obtain grp links where walk: "Walk (RelationsTouching g) a (ms_idThr s) = Some (grp, links)"
    "set grp = (belief (snd ` set (g_relations g)) (ms_idThr s))\<^sup>* `` {a}"
    using projection.walk_group [OF assms(3), of a "ms_idThr s"] by blast
  let ?r = "([], []) :: ImpactedEntity list \<times> (string, nat) gomap"
  let ?vis = "map (\<lambda>i. (i, ())) grp" and ?k = "nat (clampDepth (ii_MaxDepth inp))"
  have vis: "ghas ?vis x \<longleftrightarrow> x \<in> set grp" for x by (induction grp) (auto simp: ghas_def)
  from impact.search [OF assms(3) vis, of "noteImpact g" ?k ?r] obtain hits where
    hits: "bfsLevels (\<lambda>i. edgesOf g i []) (\<lambda>cur e. impactPropagates e cur) (noteImpact g) ?k 1 ?vis grp ?r
        = fold (\<lambda>(n, e). noteImpact g n e) hits ?r" "distinct (map (ed_other \<circ> snd) hits)"
      "\<forall>y n. (\<exists>e. (n, e) \<in> set hits \<and> ed_other e = y) \<longleftrightarrow> 1 \<le> n \<and> n \<le> ?k \<and> at_distance (impactHop g) (set grp) n y"
    by blast
  let ?f = "fold (\<lambda>(n, e). noteImpact g n e) hits ?r"
  have fold: "?f = (map (impactedAt g) hits, snd ?f)" using fold_noteImpact(1) [of g hits ?r] by (simp add: prod_eq_iff)
  have "canonicalMemberIDs s g a = Some grp" by (simp add: canonicalMemberIDs_def walk(1))
  from impactAnswer_found [OF this trans [OF hits(1) fold], of env] obtain out where
    out: "impactAnswer env s g inp a = Some out" "io_Total out = length hits"
      "io_Impacted out = take (nat (clampLimit (ii_Limit inp))) (sortImpacted (map (impactedAt g) hits))"
      "io_ByType out = sortedCounts (snd ?f)" by auto
  have "tc_Count tc = length (filter (\<lambda>h. typeAt g h = tc_Type tc) hits)" if "tc \<in> set (io_ByType out)" for tc
    using that sortedCounts_count [of "snd ?f" tc] fold_noteImpact(2,3) [where g = g and rs = hits and r = ?r]
    by (simp add: out(4) gget_def)
  moreover have "impactOf env inp s = Some (Inr out)" using assms(1,2,4) out(1) by (simp add: impactOf_def)
  ultimately show ?thesis using out(2,3) hits(2,3) walk(2) clampDepth_bounds [of "ii_MaxDepth inp"]
    by (intro exI [of _ out] exI [of _ hits]) (simp add: le_nat_iff)
qed

definition fxImpactInput :: ImpactOfInput where
  "fxImpactInput = \<lparr>ii_EntityID = ''h1'', ii_MaxDepth = 3, ii_Limit = 0, ii_AsOf = []\<rparr>"

theorem impact_of_is_the_blast_radius_witness:
  "\<exists>out (hits :: (nat \<times> edge) list). impactOf fxMcpEnv fxImpactInput fxMcp = Some (Inr out) \<and> io_Total out = length hits \<and>
     distinct (map (ed_other \<circ> snd) hits)"
proof -
  have "ii_EntityID fxImpactInput \<noteq> []" "graphAt fxMcpEnv fxMcp (ii_AsOf fxImpactInput) = Inr fxGraph"
    "liveHandle fxGraph (ii_EntityID fxImpactInput) = Inr ''h1''" using fx_live_handle(1) by (simp_all add: fxImpactInput_def)
  from impact_of_is_the_blast_radius [OF this(1,2) fxGraph_wf this(3)] show ?thesis by blast
qed

section \<open>get\_neighbors\<close>

lemma fold_snoc: "fold (\<lambda>(n, e) r. r @ [f n e]) rs r = r @ map (\<lambda>(n, e). f n e) rs"
  by (induction rs arbitrary: r) auto

lemma entityOrZero_live: "live g y = Some e \<Longrightarrow> entityOrZero g y = e"
  by (simp add: entityOrZero_def GetEntity_def live_def split: if_splits)

lemma neighborOut_simps [simp]:
  "nb_Depth (neighborOut s g brief asOf d e) = d"
  "eo_IdentityFingerprint (nb_Entity (neighborOut s g brief asOf d e)) = IdentityHash (entityOrZero g (ed_other e))"
  by (simp_all add: neighborOut_def attachEdgeProvenance_def entityOutV_def Let_def split: option.splits)

lemma digit_pad: "n \<le> 5 \<Longrightarrow> pad 9 n = replicate 8 (CHR ''0'') @ pad 1 n \<and> length (pad 1 n) = 1"
proof -
  assume "n \<le> 5"
  then have "n \<in> {0, 1, 2, 3, 4, 5}" by auto
  moreover have "\<forall>n \<in> {0, 1, 2, 3, 4, 5::nat}. pad 9 n = replicate 8 (CHR ''0'') @ pad 1 n \<and> length (pad 1 n) = 1" by code_simp
  ultimately show ?thesis by blast
qed

lemma digit_less: "m \<le> 5 \<Longrightarrow> n \<le> 5 \<Longrightarrow> m < n \<Longrightarrow> pad 1 m < pad 1 n"
proof -
  assume "m \<le> 5" "n \<le> 5" "m < n"
  then have "m \<in> {0, 1, 2, 3, 4, 5}" "n \<in> {0, 1, 2, 3, 4, 5}" by auto
  moreover have "\<forall>m \<in> {0, 1, 2, 3, 4, 5::nat}. \<forall>n \<in> {0, 1, 2, 3, 4, 5}. m < n \<longrightarrow> pad 1 m < pad 1 n" by code_simp
  ultimately show ?thesis using \<open>m < n\<close> by blast
qed

lemma neighborKey_less:
  assumes "nb_Depth a \<le> 5" and "nb_Depth b \<le> 5"
    and "(nb_Depth a, eo_IdentityFingerprint (nb_Entity a)) < (nb_Depth b, eo_IdentityFingerprint (nb_Entity b))"
  shows "neighborKey a < neighborKey b"
proof -
  have one: "\<exists>c. pad 1 n = [c] \<and> pad 9 n = replicate 8 (CHR ''0'') @ [c]" if "n \<le> 5" for n
    using digit_pad [OF that] by (cases "pad 1 n") auto
  from one [OF assms(1)] one [OF assms(2)] obtain c c' where
    c: "pad 1 (nb_Depth a) = [c]" "pad 9 (nb_Depth a) = replicate 8 (CHR ''0'') @ [c]"
      "pad 1 (nb_Depth b) = [c']" "pad 9 (nb_Depth b) = replicate 8 (CHR ''0'') @ [c']" by blast
  consider "nb_Depth a < nb_Depth b" |
    "nb_Depth a = nb_Depth b" "eo_IdentityFingerprint (nb_Entity a) < eo_IdentityFingerprint (nb_Entity b)"
    using assms(3) by (auto simp: le_less)
  then show ?thesis
  proof cases
    case 1
    then have "c < c'" using digit_less [OF assms(1,2)] c by simp
    then show ?thesis unfolding neighborKey_def c by (simp add: eval_nat_numeral)
  next
    case 2
    then have "c = c'" using c by simp
    with 2(2) show ?thesis unfolding neighborKey_def c by (simp add: eval_nat_numeral)
  qed
qed

lemma dropWhile_key:
  fixes key :: "'a \<Rightarrow> 'b::linorder"
  assumes "sorted_wrt (\<lambda>a b. key a < key b) xs" and "0 < k" and "k \<le> length xs"
  shows "dropWhile (\<lambda>n. key n \<le> key (last (take k xs))) xs = drop k xs"
proof -
  let ?l = "last (take k xs)"
  have l: "?l = xs ! (k - 1)" using assms(2,3) by (subst last_conv_nth) auto
  have "key x \<le> key ?l" if x: "x \<in> set (take k xs)" for x
  proof -
    from x obtain i where "i < k" "i < length xs" "x = xs ! i" by (auto simp: in_set_conv_nth)
    then show ?thesis using assms sorted_wrt_nth_less [OF assms(1), of i "k - 1"] by (cases "i = k - 1") (auto simp: l less_imp_le)
  qed
  then have "dropWhile (\<lambda>n. key n \<le> key ?l) (take k xs @ drop k xs) = dropWhile (\<lambda>n. key n \<le> key ?l) (drop k xs)"
    by (intro dropWhile_append2) blast
  also have "\<dots> = drop k xs"
  proof (cases "drop k xs")
    case (Cons x rest)
    then have "k < length xs" "x = xs ! k" by (auto simp: nth_via_drop dest: arg_cong [of _ _ length])
    then have "key ?l < key x" using sorted_wrt_nth_less [OF assms(1), of "k - 1" k] assms(2) by (simp add: l)
    then show ?thesis by (simp add: Cons)
  qed simp
  finally show ?thesis by simp
qed

text \<open>A client that follows \<open>next_cursor\<close> until it is empty.\<close>

fun neighborPages :: "nat \<Rightarrow> 'd mcpEnv \<Rightarrow> GetNeighborsInput \<Rightarrow> 'd Server \<Rightarrow> Neighbor list option" where
  "neighborPages 0 env inp s = None"
| "neighborPages (Suc k) env inp s =
     (case getNeighbors env inp s of
        Inl _ \<Rightarrow> None
      | Inr out \<Rightarrow>
          if no_NextCursor out = [] then Some (no_Neighbors out)
          else map_option ((@) (no_Neighbors out)) (neighborPages k env (inp\<lparr>ni_After := no_NextCursor out\<rparr>) s))"

lemma neighborPages_from:
  assumes step: "\<And>after. getNeighbors env (inp\<lparr>ni_After := after\<rparr>) s =
      (case pageNeighbors all after limit of Inl err \<Rightarrow> Inl err | Inr (page, cursor) \<Rightarrow> Inr (mk page cursor))"
    and mk: "\<And>page cursor. no_Neighbors (mk page cursor) = page \<and> no_NextCursor (mk page cursor) = cursor"
    and sorted: "sorted_wrt (\<lambda>a b. neighborKey a < neighborKey b) all" and "0 < limit"
  shows "\<lbrakk>k \<le> length all; length all - k < fuel; after = (if k = 0 then [] else encodeCursor (neighborKey (last (take k all))))\<rbrakk>
    \<Longrightarrow> neighborPages fuel env (inp\<lparr>ni_After := after\<rparr>) s = Some (drop k all)"
proof (induction fuel arbitrary: k after)
  case (Suc fuel)
  let ?rest = "drop k all"
  have cursor: "encodeCursor (neighborKey n) \<noteq> []" "decodeCursor (encodeCursor c) = Some c" for n c
    by (simp_all add: encodeCursor_def decodeCursor_def encode_nonempty base64_decode_encode neighborKey_def)
  have page: "pageNeighbors all after limit = (if length ?rest \<le> limit then Inr (?rest, [])
      else Inr (take limit ?rest, encodeCursor (neighborKey (last (take limit ?rest)))))"
    using Suc.prems(1,3) cursor dropWhile_key [OF sorted, of k] by (cases "k = 0") (auto simp: pageNeighbors_def Let_def)
  show ?case
  proof (cases "length ?rest \<le> limit")
    case True
    then show ?thesis using step [of after] mk page by simp
  next
    case False
    let ?k = "k + limit"
    have k: "?k \<le> length all" "0 < ?k" "length all - ?k < fuel" using False Suc.prems \<open>0 < limit\<close> by auto
    have tk: "take limit ?rest \<noteq> []" using False \<open>0 < limit\<close> by (cases ?rest) auto
    have lst: "last (take limit ?rest) = last (take ?k all)" using tk by (simp add: take_add)
    have "neighborPages fuel env (inp\<lparr>ni_After := encodeCursor (neighborKey (last (take limit ?rest)))\<rparr>) s = Some (drop ?k all)"
      using Suc.IH [OF k(1,3) refl] \<open>0 < limit\<close> by (simp add: lst)
    then show ?thesis using step [of after] mk page False cursor
      by (simp add: add.commute [of k limit] flip: drop_drop)
  qed
qed simp

lemma live_fingerprint_inj:
  assumes "graph_wf g" and "live g x = Some e" and "live g y = Some e'" and "IdentityHash e = IdentityHash e'"
  shows "x = y"
proof -
  have "wf_index g" using assms(1) by (simp add: graph_wf_def)
  with assms have "map_of (g_byHash g) (IdentityHash e) = Some x" "map_of (g_byHash g) (IdentityHash e') = Some y"
    by (auto simp: wf_indexD(2))
  with assms(4) show ?thesis by simp
qed

text \<open>The neighbours of the answer, from the edges the search found.\<close>

lemma allNeighbors_found:
  assumes "graph_wf g"
  obtains hits where
    "allNeighbors s g brief asOf t a k =
       sort_key (\<lambda>n. (nb_Depth n, eo_IdentityFingerprint (nb_Entity n))) (map (\<lambda>(n, e). neighborOut s g brief asOf n e) hits)"
    "distinct (map (ed_other \<circ> snd) hits)"
    "\<forall>(n, e) \<in> set hits. live g (ed_other e) \<noteq> None"
    "\<forall>y n. (\<exists>e. (n, e) \<in> set hits \<and> ed_other e = y) \<longleftrightarrow> 1 \<le> n \<and> n \<le> k \<and> at_distance (liveHop g t) {a} n y"
proof -
  let ?mark = "\<lambda>d e r. r @ [neighborOut s g brief asOf d e]" and ?r = "[] :: Neighbor list"
  have inv: "case (g, t) of (g, t) \<Rightarrow> graph_wf g" and vis: "ghas [(a, ())] x \<longleftrightarrow> x \<in> set [a]" for x
    using assms by (auto simp: ghas_def)
  from neighborhood.search [OF inv vis, of ?mark k ?r] obtain hits where
    hits: "bfsLevels (\<lambda>i. edgesOf g i t) (\<lambda>_ _. True) ?mark k 1 [(a, ())] [a] ?r = fold (\<lambda>(n, e). ?mark n e) hits ?r"
      "distinct (map (ed_other \<circ> snd) hits)"
      "\<forall>(n, e) \<in> set hits. \<exists>x \<in> reach_within (liveHop g t) (n - 1) {a}. e \<in> set (edgesOf g x t)"
      "\<forall>y n. (\<exists>e. (n, e) \<in> set hits \<and> ed_other e = y) \<longleftrightarrow> 1 \<le> n \<and> n \<le> k \<and> at_distance (liveHop g t) {a} n y"
    by auto
  show thesis
  proof (rule that [of hits])
    show "\<forall>(n, e) \<in> set hits. live g (ed_other e) \<noteq> None" using hits(3) edgesOf_live by fast
    show "allNeighbors s g brief asOf t a k =
       sort_key (\<lambda>n. (nb_Depth n, eo_IdentityFingerprint (nb_Entity n))) (map (\<lambda>(n, e). neighborOut s g brief asOf n e) hits)"
      unfolding allNeighbors_def hits(1) by (simp add: fold_snoc)
  qed (use hits in blast)+
qed

lemma neighbors_sorted:
  assumes "graph_wf g" and "distinct (map (ed_other \<circ> snd) hits)" and "\<forall>(n, e) \<in> set hits. n \<le> 5 \<and> live g (ed_other e) \<noteq> None"
  shows "sorted_wrt (\<lambda>a b. neighborKey a < neighborKey b)
    (sort_key (\<lambda>n. (nb_Depth n, eo_IdentityFingerprint (nb_Entity n))) (map (\<lambda>(n, e). neighborOut s g brief asOf n e) hits))"
    (is "sorted_wrt _ (sort_key ?f ?ns)")
proof -
  have "inj_on (IdentityHash \<circ> entityOrZero g \<circ> ed_other \<circ> snd) (set hits)"
  proof (rule inj_onI)
    fix h h' assume h: "h \<in> set hits" "h' \<in> set hits"
      and eq: "(IdentityHash \<circ> entityOrZero g \<circ> ed_other \<circ> snd) h = (IdentityHash \<circ> entityOrZero g \<circ> ed_other \<circ> snd) h'"
    have "live g (ed_other (snd k)) \<noteq> None" if "k \<in> set hits" for k using assms(3) that by (cases k) auto
    with h obtain e e' where "live g (ed_other (snd h)) = Some e" "live g (ed_other (snd h')) = Some e'" by blast
    with eq have "ed_other (snd h) = ed_other (snd h')"
      using live_fingerprint_inj [OF assms(1)] by (simp add: entityOrZero_live)
    with h assms(2) show "h = h'" by (auto simp: distinct_map inj_on_def)
  qed
  moreover have "distinct hits" using assms(2) by (simp add: distinct_map)
  ultimately have "distinct (map ?f ?ns)" by (auto simp: distinct_map inj_on_def split_beta)
  then have "distinct (map ?f (sort_key ?f ?ns))" by (simp only: distinct_map distinct_sort set_sort)
  then have "sorted_wrt (<) (map ?f (sort_key ?f ?ns))" by (simp add: strict_sorted_iff)
  moreover have "nb_Depth n \<le> 5" if "n \<in> set (sort_key ?f ?ns)" for n using that assms(3) by auto
  ultimately show ?thesis
    by (intro sorted_wrt_mono_rel [where P = "\<lambda>a b. ?f a < ?f b" and Q = "\<lambda>a b. neighborKey a < neighborKey b"] neighborKey_less)
      (simp_all only: sorted_wrt_map)
qed

text \<open>
  C16. Paging through the neighbourhood loses and repeats nothing. For an entity of a consistent
  graph and an accepted depth, a client that follows \<open>next_cursor\<close> of \<open>get_neighbors\<close> from the
  start comes to an end, and the pages together are the live entities within the depth over live
  relations of the wanted type, each once and with its distance, closest first, whatever the
  limit; the total of the first page counts them.
\<close>

theorem get_neighbors_pages_are_the_neighborhood:
  assumes "ni_EntityID inp \<noteq> []" and "parseVerbosity (ni_Verbosity inp) = Inr brief" and "ni_MaxDepth inp \<le> maxDepth"
    and "graphAt env s (ni_AsOf inp) = Inr g" and "graph_wf g"
    and "ResolveHandle g (ni_EntityID inp) = Some a" and "fst (GetEntity g a) \<noteq> None" and "ni_After inp = []"
  shows "\<exists>out hits. getNeighbors env inp s = Inr out \<and> no_Total out = length hits \<and>
    neighborPages (Suc (length hits)) env inp s = Some (sort_key (\<lambda>n. (nb_Depth n, eo_IdentityFingerprint (nb_Entity n)))
       (map (\<lambda>(n, e). neighborOut s g brief (ni_AsOf inp) n e) hits)) \<and>
    distinct (map (ed_other \<circ> snd) hits) \<and>
    (\<forall>y n. (\<exists>e. (n, e) \<in> set hits \<and> ed_other e = y) \<longleftrightarrow>
       1 \<le> n \<and> int n \<le> max 1 (ni_MaxDepth inp) \<and> at_distance (liveHop g (ni_RelationType inp)) {a} n y)"
proof -
  let ?d = "if ni_MaxDepth inp \<le> 0 then 1 else ni_MaxDepth inp" and ?limit = "nat (clampLimit (ni_Limit inp))"
  have d: "1 \<le> ?d" "?d \<le> 5" "?d = max 1 (ni_MaxDepth inp)" using assms(3) by (auto simp: maxDepth_def)
  obtain hits where hits: "allNeighbors s g brief (ni_AsOf inp) (ni_RelationType inp) a (nat ?d) =
       sort_key (\<lambda>n. (nb_Depth n, eo_IdentityFingerprint (nb_Entity n)))
         (map (\<lambda>(n, e). neighborOut s g brief (ni_AsOf inp) n e) hits)" (is "?all = ?sorted")
    "distinct (map (ed_other \<circ> snd) hits)" "\<forall>(n, e) \<in> set hits. live g (ed_other e) \<noteq> None"
    "\<forall>y n. (\<exists>e. (n, e) \<in> set hits \<and> ed_other e = y) \<longleftrightarrow> 1 \<le> n \<and> n \<le> nat ?d \<and>
       at_distance (liveHop g (ni_RelationType inp)) {a} n y"
    by (rule allNeighbors_found [OF assms(5)])
  let ?mk = "\<lambda>page cursor. \<lparr>no_Graph = graphMeta env s g (ni_AsOf inp), no_Neighbors = page, no_Count = length page,
     no_NextCursor = cursor, no_Truncation = (if cursor = [] then None else Some (length page, length ?all, cursor)),
     no_Total = length ?all, no_Truncated = (cursor \<noteq> [])\<rparr>"
  have step: "getNeighbors env (inp\<lparr>ni_After := after\<rparr>) s =
      (case pageNeighbors ?all after ?limit of Inl err \<Rightarrow> Inl err | Inr (page, cursor) \<Rightarrow> Inr (?mk page cursor))" for after
    using assms(1-4,6,7) by (auto simp: getNeighbors_def Let_def maxDepth_def split: sum.splits)
  have limit: "0 < ?limit" using clampLimit_bounds [of "ni_Limit inp"] by simp
  have "\<forall>(n, e) \<in> set hits. n \<le> 5 \<and> live g (ed_other e) \<noteq> None"
  proof clarify
    fix n e assume "(n, e) \<in> set hits"
    then have "n \<le> nat ?d" "live g (ed_other e) \<noteq> None" using hits(3,4) by blast+
    then show "n \<le> 5 \<and> live g (ed_other e) \<noteq> None" using d(2) by linarith
  qed
  from neighbors_sorted [OF assms(5) hits(2) this, of s brief "ni_AsOf inp"]
  have sorted: "sorted_wrt (\<lambda>a b. neighborKey a < neighborKey b) ?all" by (simp only: hits(1))
  have inp: "inp\<lparr>ni_After := []\<rparr> = inp" using assms(8) by simp
  have "neighborPages (Suc (length ?all)) env (inp\<lparr>ni_After := []\<rparr>) s = Some (drop 0 ?all)"
    by (rule neighborPages_from [OF step _ sorted limit]) auto
  then have "neighborPages (Suc (length hits)) env inp s = Some ?sorted" unfolding inp by (simp add: hits(1))
  moreover obtain out where "getNeighbors env inp s = Inr out" "no_Total out = length hits"
    using step [of "[]", unfolded inp] by (auto simp: pageNeighbors_def hits(1) Let_def split: if_splits)
  moreover have "n \<le> nat ?d \<longleftrightarrow> int n \<le> max 1 (ni_MaxDepth inp)" for n using d by (simp add: le_nat_iff)
  ultimately show ?thesis using hits(2,4) by (intro exI [of _ out] exI [of _ hits]) simp
qed

definition fxNeighborsInput :: GetNeighborsInput where
  "fxNeighborsInput = \<lparr>ni_EntityID = ''h1'', ni_RelationType = [], ni_MaxDepth = 2, ni_After = [], ni_Limit = 1, ni_AsOf = [],
     ni_Verbosity = []\<rparr>"

theorem get_neighbors_pages_are_the_neighborhood_witness:
  "\<exists>out. getNeighbors fxMcpEnv fxNeighborsInput fxMcp = Inr out \<and>
     (\<exists>ns. neighborPages (Suc (no_Total out)) fxMcpEnv fxNeighborsInput fxMcp = Some ns \<and> length ns = no_Total out)"
proof -
  have "ResolveHandle fxGraph ''h1'' = Some ''h1''" by (simp add: ResolveHandle_def cut_def)
  moreover have "fst (GetEntity fxGraph ''h1'') \<noteq> None"
    using fxGraph_live(1) by (simp add: GetEntity_def live_def split: if_splits)
  moreover have "parseVerbosity [] = Inr False" by code_simp
  ultimately obtain out and hits :: "(nat \<times> edge) list" where "getNeighbors fxMcpEnv fxNeighborsInput fxMcp = Inr out" "no_Total out = length hits"
    "neighborPages (Suc (length hits)) fxMcpEnv fxNeighborsInput fxMcp =
       Some (sort_key (\<lambda>n. (nb_Depth n, eo_IdentityFingerprint (nb_Entity n)))
         (map (\<lambda>(n, e). neighborOut fxMcp fxGraph False [] n e) hits))"
    using get_neighbors_pages_are_the_neighborhood [of fxNeighborsInput False fxMcpEnv fxMcp fxGraph "''h1''"] fxGraph_wf
    by (auto simp: fxNeighborsInput_def maxDepth_def)
  then show ?thesis by (simp del: neighborPages.simps)
qed

end
