(* ===== verification/Mcp_Window.thy ===== *)
theory Mcp_Window
  imports Mcp_Changes Mcp_Theorems Store_Theorems
begin

text \<open>
  The windowed tools read the time index: they decide from its one-byte tags what to skip and
  resolve only the records they need.  Here that reading is shown to be the plain one, which
  resolves every record of the window.
\<close>

section \<open>The time index as a log\<close>

definition entryOf :: "64 word \<Rightarrow> Event \<Rightarrow> TimeIndexEntry" where
  "entryOf n ev = \<lparr>ti_Seq = n, ti_ChangeType = eventChangeType ev, ti_Structural = structuralOf ev, ti_Tagged = True\<rparr>"

lemma changeOf_eventChangeType: "changeOf ev = eventChangeType ev"
  by (simp add: changeOf_def eventChangeType_def)

lemma tag_roundtrip:
  assumes "0 \<le> ct_num c" and "ct_num c < 128" and "changeTypeFromProto (ct_num c) = c"
  shows "timeEntry (k, [char_of (if b then nat (ct_num c mod 128) + 128 else nat (ct_num c mod 128))])
    = \<lparr>ti_Seq = seqFromKeySuffix k, ti_ChangeType = c, ti_Structural = b, ti_Tagged = True\<rparr>"
proof -
  let ?n = "nat (ct_num c mod 128)"
  have n: "int ?n = ct_num c" "?n < 128" using assms by auto
  have "(of_char (char_of (if b then ?n + 128 else ?n) :: char) :: nat) = (if b then ?n + 128 else ?n)" using n(2) by simp
  moreover have "(if b then ?n + 128 else ?n) mod 128 = ?n" using n(2) by simp
  moreover have "(128 \<le> (if b then ?n + 128 else ?n)) = b" using n(2) by simp
  ultimately show ?thesis by (simp only: timeEntry_def prod.case list.size list.sel if_True simp_thms Let_def assms(3) n(1) One_nat_def add_0)
qed

lemma timeEntry_tag:
  assumes "proper ev"
  shows "timeEntry (timeKey t n, [classTag ev (eventChangeType ev)]) = entryOf n ev"
proof -
  have "0 \<le> ct_num (eventChangeType ev)" "ct_num (eventChangeType ev) < 128"
    "changeTypeFromProto (ct_num (eventChangeType ev)) = eventChangeType ev"
    using assms by (auto simp: proper_def eventChangeType_def changeTypeFromProto_def split: option.splits)
  note tag = tag_roundtrip [OF this, of "timeKey t n" "structuralOf ev"]
  have "classTag ev (eventChangeType ev) = char_of (if structuralOf ev then nat (ct_num (eventChangeType ev) mod 128) + 128
      else nat (ct_num (eventChangeType ev) mod 128))"
    by (simp add: classTag_def structuralOf_def Let_def split: option.splits)
  with tag show ?thesis by (simp add: entryOf_def)
qed

lemma time_row:
  "(k, v) \<in> set (indexRows ev n) \<Longrightarrow> has_prefix k timePrefix \<Longrightarrow>
     k = timeKey (unixNano (fst (Times ev))) n \<and> v = [classTag ev (eventChangeType ev)]"
  by (auto simp: set_indexRows changeOf_eventChangeType)

text \<open>The window of a log: by event time, equal times in log order.\<close>

definition windowOf :: "time \<Rightarrow> time \<Rightarrow> (64 word \<times> Event) list \<Rightarrow> (64 word \<times> Event) list" where
  "windowOf start stop L =
     sort_key (nanosOf \<circ> snd) (filter (\<lambda>(n, ev). of_int (unixNano start) \<le> nanosOf ev \<and> nanosOf ev < of_int (unixNano stop)) L)"

lemma set_windowOf: "(n, ev) \<in> set (windowOf start stop L) \<Longrightarrow> (n, ev) \<in> set L"
  by (auto simp: windowOf_def)

lemma forRows_entries:
  "map timeEntry rows = map (\<lambda>(n, ev). entryOf n ev) W \<Longrightarrow>
   forRows (timeRow noDeadline fn) rows (m, a) =
     (case forLog (\<lambda>n ev. fn (entryOf n ev)) W a of Inl err \<Rightarrow> Inl err | Inr b \<Rightarrow> Inr (m + length rows, b))"
proof (induction rows arbitrary: W m a)
  case (Cons row rows)
  then obtain n ev W' where W: "W = (n, ev) # W'" "timeEntry row = entryOf n ev" "map timeEntry rows = map (\<lambda>(n, ev). entryOf n ev) W'"
    by (cases W) auto
  show ?case
    using Cons.IH [OF W(3)] by (auto simp: W timeRow_def checkEvery_def noDeadline_def split: sum.splits)
qed simp

lemma ScanTimeIndex_log:
  assumes laws: "log_laws pb contents pm" and L: "stored pm (contents (s_db s)) (s_seq s) L" and ans: "answers pb (s_db s)"
  shows "ScanTimeIndex pb noDeadline start stop newestFirst fn s a =
    forLog (\<lambda>n ev. fn (entryOf n ev)) (if newestFirst then rev (windowOf start stop L) else windowOf start stop L) a"
proof -
  have lg: "logged pm (contents (s_db s)) L" "indexed (contents (s_db s)) L" using L by (simp_all add: stored_def)
  obtain rows where rows: "pb_iter pb (s_db s) (timeKeyBound (unixNano start)) (Some (timeKeyBound (unixNano stop))) = Inr (rows, None)"
    using ans unfolding answers_def by blast
  note tr = log_laws.time_rows [OF laws lg stored_whole [OF L] rows]
  have W: "rowEvents L rows = windowOf start stop L" using tr(2) by (simp add: windowOf_def)
  have "timeEntry row = entryOf (seqFromKeySuffix (fst row)) (the (map_of L (seqFromKeySuffix (fst row))))" if r: "row \<in> set rows" for row
  proof -
    let ?n = "seqFromKeySuffix (fst row)"
    obtain ev where ev: "map_of L ?n = Some ev" "(fst row, snd row) \<in> set (indexRows ev ?n)" "has_prefix (fst row) timePrefix"
      using tr(1) r by force
    then have "proper ev" using L map_of_SomeD by (fastforce simp: stored_def)
    moreover have "fst row = timeKey (unixNano (fst (Times ev))) ?n" "snd row = [classTag ev (eventChangeType ev)]"
      using time_row [OF ev(2,3)] by simp_all
    ultimately show ?thesis using timeEntry_tag ev(1) by (metis option.sel prod.collapse)
  qed
  then have entries: "map timeEntry rows = map (\<lambda>(n, ev). entryOf n ev) (windowOf start stop L)"
    by (simp add: rowEvents_def flip: W)
  have "map timeEntry (rev rows) = map (\<lambda>(n, ev). entryOf n ev) (rev (windowOf start stop L))"
    using entries by (simp add: rev_map [symmetric])
  from forRows_entries [OF entries, of fn 0 a] forRows_entries [OF this, of fn 0 a] show ?thesis
    by (auto simp: ScanTimeIndex_def rows split: sum.splits)
qed

lemma Resolve_log:
  assumes laws: "log_laws pb contents pm" and L: "stored pm (contents (s_db s)) (s_seq s) L" and ans: "answers pb (s_db s)"
    and "(n, ev) \<in> set L"
  shows "Resolve pb pm s n = Inr (Some ev)"
proof -
  have lg: "logged pm (contents (s_db s)) L" using L by (simp add: stored_def)
  then have "distinct (map fst L)" using strict_sorted_iff by (auto simp: logged_def)
  then have "map_of L n = Some ev" using assms(4) by simp
  from log_laws.logged_get [OF laws lg refl this] resolveSeq_total [OF lg laws ans, of n]
  show ?thesis by (auto simp: Resolve_def resolveSeq_def split: sum.splits)
qed

lemma ReadByTimeRange_window:
  assumes laws: "log_laws pb contents pm" and L: "stored pm (contents (s_db s)) (s_seq s) L" and ans: "answers pb (s_db s)"
  shows "ReadByTimeRange pb pm noDeadline start stop s = Inr (map snd (windowOf start stop L))"
proof -
  have lg: "logged pm (contents (s_db s)) L" "indexed (contents (s_db s)) L" using L by (simp_all add: stored_def)
  obtain evs where r: "ReadByTimeRange pb pm noDeadline start stop s = Inr evs" using index_reads_total(2) [OF lg(1) laws ans] by blast
  then show ?thesis
    using log_laws.ScanByTimeRange_log [OF laws lg stored_whole [OF L] r [unfolded ReadByTimeRange_def]]
    by (simp add: log_laws.forLog_collect [OF laws] windowOf_def)
qed

section \<open>graph\_diff\<close>

lemma diffEntry_step:
  "resolve n = Inr (Some ev) \<Longrightarrow>
     diffEntry resolve (entryOf n ev) evs = Inr (if eventChangeType ev = EntityUnchanged then evs else evs @ [ev])"
  by (simp add: diffEntry_def entryOf_def)

lemma diffEntry_log:
  assumes "\<And>n ev. (n, ev) \<in> set W \<Longrightarrow> resolve n = Inr (Some ev)"
  shows "forLog (\<lambda>n ev. diffEntry resolve (entryOf n ev)) W evs =
    Inr (evs @ filter (\<lambda>ev. eventChangeType ev \<noteq> EntityUnchanged) (map snd W))"
  using assms
proof (induction W arbitrary: evs)
  case (Cons p W)
  obtain n ev where "p = (n, ev)" by fastforce
  with Cons show ?case by (simp add: diffEntry_step)
qed simp

text \<open>
  Skipping heartbeats by the tag of the index changes no difference: over a log in order and a
  database that answers, \<open>graph_diff\<close> folds exactly the events of the window that are not
  heartbeats, oldest first, which is what decoding every record of the window would give.
\<close>

lemma graph_diff_reads_the_window:
  assumes "log_laws (me_pb env) contents (me_pm env)"
    and "stored (me_pm env) (contents (s_db (ms_store s))) (s_seq (ms_store s)) L"
    and "answers (me_pb env) (s_db (ms_store s))" and "me_ctx env = noDeadline"
    and "diffBounds s (gi_Window inp) (gi_From inp) (gi_To inp) = Inr (start, stop)"
  shows "\<exists>evs. ReadByTimeRange (me_pb env) (me_pm env) (me_ctx env) start stop (ms_store s) = Inr evs \<and>
    graphDiff env inp s =
      Inr (diffAnswer env s start stop (nat (clampLimit (gi_Limit inp))) (filter (\<lambda>ev. eventChangeType ev \<noteq> EntityUnchanged) evs))"
proof -
  note r = ReadByTimeRange_window [OF assms(1-3), of start stop]
  have "forLog (\<lambda>n ev. diffEntry (Resolve (me_pb env) (me_pm env) (ms_store s)) (entryOf n ev)) (windowOf start stop L) [] =
      Inr ([] @ filter (\<lambda>ev. eventChangeType ev \<noteq> EntityUnchanged) (map snd (windowOf start stop L)))"
    by (rule diffEntry_log) (blast intro: Resolve_log [OF assms(1-3)] set_windowOf)
  then show ?thesis using r assms(4,5)
    by (simp add: graphDiff_def ScanTimeIndex_log [OF assms(1-3)])
qed

definition fxWinEnv :: "rows mcpEnv" where
  "fxWinEnv = \<lparr>me_pb = memPebble, me_pm = fxCodec, me_js = tableJson fxNotes, me_ctx = noDeadline, me_canceled = False\<rparr>"

definition fxWinServer :: "rows Server" where
  "fxWinServer = NewMcp fxGraph fxStore (unixEpoch + 3600000000005)"

definition fxDiffInput :: GraphDiffInput where
  "fxDiffInput = \<lparr>gi_Window = ''1h'', gi_From = [], gi_To = [], gi_Limit = 0\<rparr>"

lemma fx_window:
  "diffBounds fxWinServer ''1h'' [] [] = Inr (unixEpoch + 5, unixEpoch + 3600000000005)"
  "log_laws (me_pb fxWinEnv) map_of (me_pm fxWinEnv)"
  "stored (me_pm fxWinEnv) (map_of (s_db (ms_store fxWinServer))) (s_seq (ms_store fxWinServer)) (numbered 0 (map (stampCommit 1) fxLife))"
  "answers (me_pb fxWinEnv) (s_db (ms_store fxWinServer))" "me_ctx fxWinEnv = noDeadline"
proof -
  have "ParseDuration ''1h'' = Some 3600000000000"
    by (simp add: ParseDuration_def parseTerm_def numberByte_def unitMap_def Let_def is_digit_def digit_val_def in_range_def)
  then show "diffBounds fxWinServer ''1h'' [] [] = Inr (unixEpoch + 5, unixEpoch + 3600000000005)"
    by (simp add: diffBounds_def fxWinServer_def NewMcp_def)
qed (use fx_laws fx_stored(1) mem_answers in \<open>simp_all add: fxWinEnv_def fxWinServer_def NewMcp_def\<close>)

section \<open>recent\_changes\<close>

definition keepsChange :: "changeFilter \<Rightarrow> string \<Rightarrow> Event \<Rightarrow> bool" where
  "keepsChange f kind ev =
     (keepKindClass (eventChangeType ev) (structuralOf ev) kind \<and> fst (keepClass f (eventChangeType ev)) \<and> keepScope f ev)"

lemma keepScope_idle: "\<not> needsRecord f \<Longrightarrow> keepScope f ev"
  by (simp add: needsRecord_def keepScope_def)

lemma recentEntry_step:
  assumes "resolve n = Inr (Some ev)"
  shows "\<exists>d'. recentEntry resolve f kind limit (entryOf n ev) (d, ch) =
      Inr (d', if keepsChange f kind ev \<and> length ch < limit then ch @ [changeOut ev] else ch) \<and>
    cd_Total d' = cd_Total d + (if keepsChange f kind ev then 1 else 0)"
proof -
  obtain kept hb where k: "keepClass f (eventChangeType ev) = (kept, hb)" by fastforce
  show ?thesis
    using assms keepScope_idle [of f ev]
    by (cases "keepKindClass (eventChangeType ev) (structuralOf ev) kind"; cases kept; cases "needsRecord f"; cases "keepScope f ev")
      (simp_all add: recentEntry_def entryOf_def keepsChange_def k tallyClass_def Let_def)
qed

lemma recentEntry_log:
  assumes "\<And>n ev. (n, ev) \<in> set W \<Longrightarrow> resolve n = Inr (Some ev)"
  shows "\<exists>d'. forLog (\<lambda>n ev. recentEntry resolve f kind limit (entryOf n ev)) W (d, ch) =
      Inr (d', ch @ map changeOut (take (limit - length ch) (filter (keepsChange f kind) (map snd W)))) \<and>
    cd_Total d' = cd_Total d + length (filter (keepsChange f kind) (map snd W))"
  using assms
proof (induction W arbitrary: d ch)
  case (Cons p W)
  obtain n ev where p: "p = (n, ev)" by fastforce
  let ?ch = "if keepsChange f kind ev \<and> length ch < limit then ch @ [changeOut ev] else ch"
  obtain d1 where d1: "recentEntry resolve f kind limit (entryOf n ev) (d, ch) = Inr (d1, ?ch)"
    "cd_Total d1 = cd_Total d + (if keepsChange f kind ev then 1 else 0)"
    using recentEntry_step [of resolve n ev f kind limit d ch] Cons.prems p by auto
  obtain d2 where d2: "forLog (\<lambda>n ev. recentEntry resolve f kind limit (entryOf n ev)) W (d1, ?ch) =
      Inr (d2, ?ch @ map changeOut (take (limit - length ?ch) (filter (keepsChange f kind) (map snd W))))"
    "cd_Total d2 = cd_Total d1 + length (filter (keepsChange f kind) (map snd W))"
    using Cons.IH [of d1 ?ch] Cons.prems by auto
  have "?ch @ map changeOut (take (limit - length ?ch) (filter (keepsChange f kind) (map snd W)))
      = ch @ map changeOut (take (limit - length ch) (filter (keepsChange f kind) (map snd (p # W))))"
    by (cases "limit - length ch") (auto simp: p take_Cons' diff_Suc split: nat.splits)
  with d1 d2 p show ?case by auto
qed simp

text \<open>
  C17. \<open>recent_changes\<close> answers from the tags of the index what reading every record would. Over a
  log in order and a database that answers, its total counts the changes of the window that pass
  the filters for kind, change type, scope and attributes, all of them and not only those on the
  page; the page holds the newest of them up to the limit, newest first; and it is truncated
  exactly when there are more.
\<close>

theorem recent_changes_filters_the_window:
  assumes "log_laws (me_pb env) contents (me_pm env)"
    and "stored (me_pm env) (contents (s_db (ms_store s))) (s_seq (ms_store s)) L"
    and "answers (me_pb env) (s_db (ms_store s))" and "me_ctx env = noDeadline"
    and "diffBounds s (if rc_Window inp = [] \<and> rc_From inp = [] then ''1h'' else rc_Window inp) (rc_From inp) (rc_To inp) = Inr (start, stop)"
    and "map lowerAscii (trim_space (rc_Kind inp)) = kind" and "kind \<in> set validKinds"
    and "newChangeFilterFull (rc_ChangeType inp) (rc_Scope inp) (rc_Match inp) (rc_IncludeHeartbeats inp) = Inr f"
  shows "\<exists>evs out. ReadByTimeRange (me_pb env) (me_pm env) (me_ctx env) start (stop + 1) (ms_store s) = Inr evs \<and>
    recentChanges env inp s = Inr out \<and> rco_Total out = length (filter (keepsChange f kind) evs) \<and>
    rco_Changes out = map changeOut (take (nat (clampLimit (rc_Limit inp))) (filter (keepsChange f kind) (rev evs))) \<and>
    rco_Truncated out = (int (length (filter (keepsChange f kind) evs)) > clampLimit (rc_Limit inp))"
proof -
  let ?W = "windowOf start (stop + 1) L" and ?limit = "nat (clampLimit (rc_Limit inp))"
  define evs where evs: "evs = map snd ?W"
  have r: "ReadByTimeRange (me_pb env) (me_pm env) noDeadline start (stop + 1) (ms_store s) = Inr evs"
    using ReadByTimeRange_window [OF assms(1-3)] by (simp add: evs)
  have res: "Resolve (me_pb env) (me_pm env) (ms_store s) n = Inr (Some ev)" if "(n, ev) \<in> set (rev ?W)" for n ev
    using that Resolve_log [OF assms(1-3)] set_windowOf [of n ev start "stop + 1" L] by simp
  have "cd_Total emptyDigest = 0" by (simp add: emptyDigest_def)
  with recentEntry_log [where W = "rev ?W" and resolve = "Resolve (me_pb env) (me_pm env) (ms_store s)" and d = emptyDigest
      and ch = "[]" and f = f and kind = kind and limit = ?limit, OF res] obtain d where
    d: "forLog (\<lambda>n ev. recentEntry (Resolve (me_pb env) (me_pm env) (ms_store s)) f kind ?limit (entryOf n ev)) (rev ?W) (emptyDigest, [])
        = Inr (d, map changeOut (take ?limit (filter (keepsChange f kind) (map snd (rev ?W)))))"
      "cd_Total d = length (filter (keepsChange f kind) (map snd (rev ?W)))" by auto
  let ?out = "recentAnswer env s start stop ?limit (d, map changeOut (take ?limit (filter (keepsChange f kind) (map snd (rev ?W)))))"
  have "recentChanges env inp s = Inr ?out"
    using assms(4-8) d(1) by (simp add: recentChanges_def ScanTimeIndex_log [OF assms(1-3)] Let_def)
  moreover have "length (filter (keepsChange f kind) (map snd (rev ?W))) = length (filter (keepsChange f kind) evs)"
    by (simp add: evs rev_map [symmetric] rev_filter [symmetric])
  moreover have "filter (keepsChange f kind) (map snd (rev ?W)) = filter (keepsChange f kind) (rev evs)"
    by (simp add: evs rev_map)
  ultimately show ?thesis using r assms(4) d(2) clampLimit_bounds [of "rc_Limit inp"]
    by (intro exI [of _ evs] exI [of _ ?out]) (auto simp: recentAnswer_def nat_less_iff)
qed

definition fxRecentInput :: RecentChangesInput where
  "fxRecentInput = \<lparr>rc_Window = [], rc_From = [], rc_To = [], rc_Kind = ''Entity'', rc_ChangeType = [], rc_Scope = [], rc_Match = [],
     rc_IncludeHeartbeats = False, rc_Limit = 1\<rparr>"

theorem recent_changes_filters_the_window_witness:
  "\<exists>out. recentChanges fxWinEnv fxRecentInput fxWinServer = Inr out \<and> length (rco_Changes out) \<le> 1"
proof -
  let ?f = "\<lparr>cf_changeType = ChangeUnspecified, cf_scope = [], cf_match = [], cf_includeHeartbeats = False\<rparr>"
  have kind: "map lowerAscii (trim_space (rc_Kind fxRecentInput)) = ''entity''" "''entity'' \<in> set validKinds" by code_simp+
  have filter: "newChangeFilterFull (rc_ChangeType fxRecentInput) (rc_Scope fxRecentInput) (rc_Match fxRecentInput)
      (rc_IncludeHeartbeats fxRecentInput) = Inr ?f" by code_simp
  have bounds: "diffBounds fxWinServer (if rc_Window fxRecentInput = [] \<and> rc_From fxRecentInput = [] then ''1h'' else rc_Window fxRecentInput)
      (rc_From fxRecentInput) (rc_To fxRecentInput) = Inr (unixEpoch + 5, unixEpoch + 3600000000005)"
    using fx_window(1) by (simp add: fxRecentInput_def)
  have "clampLimit (rc_Limit fxRecentInput) = 1" by (simp add: fxRecentInput_def clampLimit_def maxLimit_def)
  with recent_changes_filters_the_window [OF fx_window(2-5) bounds kind filter] show ?thesis by auto
qed

end
