(* ===== verification/Mcp_Diff.thy ===== *)
theory Mcp_Diff
  imports Mcp_Window
begin

text \<open>
  What \<open>graph_diff\<close> makes of the events of a window: the entities that are there at one end and
  not at the other, and where the fold says less or more than the two ends differ by.
\<close>

section \<open>Presence at the two ends of a window\<close>

definition eventsOf :: "EntityID \<Rightarrow> Event list \<Rightarrow> EntityEvent list" where
  "eventsOf i evs = filter (\<lambda>ee. ent_ID (ee_Entity ee) = i) (List.map_filter ev_Entity evs)"

fun presentAfter :: "bool \<Rightarrow> ChangeType list \<Rightarrow> bool" where
  "presentAfter p [] = p"
| "presentAfter p (ct # cts) = presentAfter (if ct = EntityCreated then True else if ct = EntityDeleted then False else p) cts"

text \<open>An entity is created when it is absent, and deleted or changed when it is present.\<close>

fun orderly :: "bool \<Rightarrow> ChangeType list \<Rightarrow> bool" where
  "orderly p [] = True"
| "orderly p (ct # cts) =
     (if ct = EntityCreated then \<not> p \<and> orderly True cts
      else if ct = EntityDeleted then p \<and> orderly False cts
      else p \<and> orderly p cts)"

definition lastLife :: "ChangeType list \<Rightarrow> ChangeType" where
  "lastLife cts = (let ls = filter (\<lambda>ct. ct = EntityCreated \<or> ct = EntityDeleted) cts in if ls = [] then ChangeUnspecified else last ls)"

definition keysOf :: "EntityEvent list \<Rightarrow> string set" where
  "keysOf ees = \<Union> ((\<lambda>ee. set (ee_ChangedKeys ee)) ` set (filter (\<lambda>ee. ee_ChangeType ee = EntityAttributeUpdated \<or> ee_ChangeType ee = EntityStateChanged) ees))"

lemma lastLife_snoc: "lastLife (cts @ [ct]) = (if ct = EntityCreated \<or> ct = EntityDeleted then ct else lastLife cts)"
  by (simp add: lastLife_def Let_def)

lemma presentAfter_snoc:
  "presentAfter p (cts @ [ct]) = (if ct = EntityCreated then True else if ct = EntityDeleted then False else presentAfter p cts)"
  by (induction cts arbitrary: p) auto

lemma presentAfter_lastLife:
  "presentAfter p cts = (case lastLife cts of EntityCreated \<Rightarrow> True | EntityDeleted \<Rightarrow> False | _ \<Rightarrow> p)"
proof (induction cts rule: rev_induct)
  case (snoc ct cts)
  then show ?case by (auto simp: presentAfter_snoc lastLife_snoc)
qed (simp add: lastLife_def)

lemma lastLife_cases: "lastLife cts \<in> {ChangeUnspecified, EntityCreated, EntityDeleted}"
  by (induction cts rule: rev_induct) (auto simp: lastLife_snoc, simp add: lastLife_def)

lemma orderly_first: "orderly p (ct # cts) \<Longrightarrow> (ct = EntityCreated) = (\<not> p)"
  by (auto split: if_splits)

lemma lastLife_none: "lastLife cts = ChangeUnspecified \<Longrightarrow> EntityCreated \<notin> set cts"
  by (induction cts rule: rev_induct) (auto simp: lastLife_snoc split: if_splits)

lemma orderly_no_creation: "orderly p cts \<Longrightarrow> cts \<noteq> [] \<Longrightarrow> lastLife cts = ChangeUnspecified \<Longrightarrow> p"
  using lastLife_none [of cts] by (cases cts) (auto split: if_splits)

text \<open>So the two ends are what the fold records of the first event and of the last creation or deletion.\<close>

lemma ends_of_fold:
  assumes "orderly p cts" and "cts \<noteq> []"
  shows "(hd cts = EntityCreated) = (\<not> p)" and "(lastLife cts \<noteq> EntityDeleted) = presentAfter p cts"
proof -
  obtain ct cts' where cts: "cts = ct # cts'" using assms(2) by (cases cts) auto
  show "(hd cts = EntityCreated) = (\<not> p)" using orderly_first assms(1) by (simp add: cts)
  show "(lastLife cts \<noteq> EntityDeleted) = presentAfter p cts"
    using lastLife_cases [of cts] orderly_no_creation [OF assms] by (auto simp: presentAfter_lastLife)
qed

section \<open>The fold\<close>

definition folded :: "EntityID \<Rightarrow> EntityEvent list \<Rightarrow> entityFold option \<Rightarrow> bool" where
  "folded i ees f =
     (case f of
        None \<Rightarrow> ees = []
      | Some f \<Rightarrow> ees \<noteq> [] \<and> ef_createdFirst f = (ee_ChangeType (hd ees) = EntityCreated) \<and>
          ef_lastLifecycle f = lastLife (map ee_ChangeType ees) \<and> ent_ID (ef_ent f) = i \<and>
          {k. ghas (ef_changedKeys f) k} = keysOf ees)"

lemma ghas_fold_gadd: "ghas (fold gadd ks s) k \<longleftrightarrow> k \<in> set ks \<or> ghas s k"
  by (induction ks arbitrary: s) auto

definition nextFold :: "EntityEvent \<Rightarrow> entityFold \<Rightarrow> entityFold" where
  "nextFold ee f =
     (let ct = ee_ChangeType ee; f = f\<lparr>ef_ent := ee_Entity ee\<rparr>
      in if ct = EntityCreated then f\<lparr>ef_lastLifecycle := ct\<rparr>
         else if ct = EntityDeleted
         then f\<lparr>ef_lastLifecycle := ct, ef_deleteReason := ee_DeleteReason ee, ef_deleteSource := ee_DeleteSource ee\<rparr>
         else if ct = EntityAttributeUpdated \<or> ct = EntityStateChanged
         then let f = f\<lparr>ef_changedKeys := fold gadd (ee_ChangedKeys ee) (ef_changedKeys f)\<rparr>
              in if ct = EntityStateChanged then f\<lparr>ef_stateChanged := True\<rparr> else f
         else f)"

definition newFold :: "EntityEvent \<Rightarrow> nat \<Rightarrow> entityFold" where
  "newFold ee n = \<lparr>ef_createdFirst = (ee_ChangeType ee = EntityCreated), ef_lastLifecycle = ChangeUnspecified, ef_changedKeys = [],
     ef_stateChanged = False, ef_ent = zeroEntity, ef_deleteReason = [], ef_deleteSource = [], ef_seq = n\<rparr>"

lemma foldEntity_next:
  "foldEntity ee m = gput (ent_ID (ee_Entity ee))
     (nextFold ee (case map_of m (ent_ID (ee_Entity ee)) of Some f \<Rightarrow> f | None \<Rightarrow> newFold ee (length m))) m"
  unfolding foldEntity_def nextFold_def newFold_def Let_def by (rule refl)

lemma nextFold_fields:
  "ef_createdFirst (nextFold ee f) = ef_createdFirst f" "ef_ent (nextFold ee f) = ee_Entity ee"
  "ef_lastLifecycle (nextFold ee f) =
     (if ee_ChangeType ee = EntityCreated \<or> ee_ChangeType ee = EntityDeleted then ee_ChangeType ee else ef_lastLifecycle f)"
  "{k. ghas (ef_changedKeys (nextFold ee f)) k} = {k. ghas (ef_changedKeys f) k} \<union>
     (if ee_ChangeType ee = EntityAttributeUpdated \<or> ee_ChangeType ee = EntityStateChanged then set (ee_ChangedKeys ee) else {})"
  by (auto simp: nextFold_def Let_def ghas_fold_gadd)

lemma keysOf_snoc: "keysOf (ees @ [ee]) = keysOf ees \<union>
    (if ee_ChangeType ee = EntityAttributeUpdated \<or> ee_ChangeType ee = EntityStateChanged then set (ee_ChangedKeys ee) else {})"
  by (auto simp: keysOf_def)

lemma foldEntity_folded:
  assumes "folded i ees (map_of m i)"
  shows "folded i (if ent_ID (ee_Entity ee) = i then ees @ [ee] else ees) (map_of (foldEntity ee m) i)"
proof (cases "ent_ID (ee_Entity ee) = i")
  case False
  then show ?thesis using assms by (simp add: foldEntity_next)
next
  case True
  let ?f = "case map_of m i of Some f \<Rightarrow> f | None \<Rightarrow> newFold ee (length m)"
  have "ef_createdFirst ?f = (ee_ChangeType (hd (ees @ [ee])) = EntityCreated)" "ef_lastLifecycle ?f = lastLife (map ee_ChangeType ees)"
    "{k. ghas (ef_changedKeys ?f) k} = keysOf ees"
    using assms by (auto simp: folded_def newFold_def lastLife_def keysOf_def ghas_def split: option.splits)
  then show ?thesis using True by (simp add: foldEntity_next folded_def nextFold_fields lastLife_snoc keysOf_snoc)
qed

lemma foldEvent_entities: "fst (fold foldEvent evs m) = fold foldEntity (List.map_filter ev_Entity evs) (fst m)"
  by (induction evs arbitrary: m) (auto simp: foldEvent_def List.map_filter_def split: option.splits)

lemma fold_entities:
  "folded i ees0 (map_of m i) \<Longrightarrow> folded i (ees0 @ filter (\<lambda>ee. ent_ID (ee_Entity ee) = i) ees) (map_of (fold foldEntity ees m) i)"
proof (induction ees arbitrary: m ees0)
  case (Cons ee ees)
  from Cons.IH [OF foldEntity_folded [OF Cons.prems, of ee]] show ?case by (cases "ent_ID (ee_Entity ee) = i") simp_all
qed simp

lemma fold_entities_distinct: "gdistinct m \<Longrightarrow> gdistinct (fold foldEntity ees m)"
  by (induction ees arbitrary: m) (simp_all add: foldEntity_next)

lemma fold_window:
  fixes evs :: "Event list"
  defines "m \<equiv> fst (fold foldEvent evs ([], []))"
  shows "folded i (eventsOf i evs) (map_of m i)" and "gdistinct m"
proof -
  have "folded i [] (map_of [] i)" by (simp add: folded_def)
  from fold_entities [OF this, of "List.map_filter ev_Entity evs"] show "folded i (eventsOf i evs) (map_of m i)"
    by (simp add: m_def foldEvent_entities eventsOf_def)
  show "gdistinct m" using fold_entities_distinct [of "[]"] by (simp add: m_def foldEvent_entities gdistinct_def)
qed

text \<open>The ids in one bucket.\<close>

definition idsIn :: "Event list \<Rightarrow> bucket \<Rightarrow> EntityID set" where
  "idsIn evs b = {i. \<exists>f. map_of (fst (fold foldEvent evs ([], []))) i = Some f \<and> entityBucket f = b}"

lemma entitiesIn_ids:
  fixes evs :: "Event list"
  defines "m \<equiv> fst (fold foldEvent evs ([], []))"
  shows "distinct (map (\<lambda>f. ent_ID (ef_ent f)) (entitiesIn m b))" and "(\<lambda>f. ent_ID (ef_ent f)) ` set (entitiesIn m b) = idsIn evs b"
    and "length (entitiesIn m b) = card (idsIn evs b)"
proof -
  note w = fold_window(1) [of _ evs, folded m_def] fold_window(2) [of evs, folded m_def]
  have d: "distinct (map fst m)" using w(2) by (simp add: gdistinct_def)
  have key: "ent_ID (ef_ent f) = i" if "(i, f) \<in> set m" for i f
    using w(1) [of i] that d by (simp add: folded_def)
  have ids: "map (\<lambda>f. ent_ID (ef_ent f)) (filter (\<lambda>f. entityBucket f = b) (map snd m)) = map fst (filter (\<lambda>p. entityBucket (snd p) = b) m)"
    using key by (auto simp: filter_map comp_def)
  have "distinct (map fst (filter (\<lambda>p. entityBucket (snd p) = b) m))" using d by (rule distinct_map_filter)
  then have df: "distinct (map (\<lambda>f. ent_ID (ef_ent f)) (filter (\<lambda>f. entityBucket f = b) (map snd m)))" unfolding ids .
  then show D: "distinct (map (\<lambda>f. ent_ID (ef_ent f)) (entitiesIn m b))"
    unfolding entitiesIn_def by (simp only: distinct_map distinct_sort set_sort)
  have "(\<lambda>f. ent_ID (ef_ent f)) ` set (entitiesIn m b) = set (map (\<lambda>f. ent_ID (ef_ent f)) (filter (\<lambda>f. entityBucket f = b) (map snd m)))"
    by (simp add: entitiesIn_def)
  also have "\<dots> = idsIn evs b" unfolding ids idsIn_def m_def [symmetric] using d by force
  finally show S: "(\<lambda>f. ent_ID (ef_ent f)) ` set (entitiesIn m b) = idsIn evs b" .
  show "length (entitiesIn m b) = card (idsIn evs b)"
    using distinct_card [OF D] S by simp
qed

lemma idsIn_ends:
  assumes "\<And>i. orderly (i \<in> before) (map ee_ChangeType (eventsOf i evs))"
    and after: "after = {i. presentAfter (i \<in> before) (map ee_ChangeType (eventsOf i evs))}"
  shows "idsIn evs Created = after - before" "idsIn evs Deleted = before - after"
    "idsIn evs Transient = {i. eventsOf i evs \<noteq> [] \<and> i \<notin> before \<union> after}"
    "idsIn evs Changed = {i \<in> before \<inter> after. keysOf (eventsOf i evs) \<noteq> {}}"
proof -
  let ?m = "fst (fold foldEvent evs ([], []))"
  have none: "eventsOf i evs = [] \<and> (i \<in> after \<longleftrightarrow> i \<in> before)" if "map_of ?m i = None" for i
    using fold_window(1) [of i evs] that by (simp add: folded_def after)
  have some: "ef_createdFirst f = (i \<notin> before) \<and> (ef_lastLifecycle f \<noteq> EntityDeleted) = (i \<in> after) \<and>
      (ef_changedKeys f \<noteq> []) = (keysOf (eventsOf i evs) \<noteq> {}) \<and> eventsOf i evs \<noteq> []" if "map_of ?m i = Some f" for i f
  proof -
    have f: "eventsOf i evs \<noteq> []" "ef_createdFirst f = (ee_ChangeType (hd (eventsOf i evs)) = EntityCreated)"
      "ef_lastLifecycle f = lastLife (map ee_ChangeType (eventsOf i evs))" "{k. ghas (ef_changedKeys f) k} = keysOf (eventsOf i evs)"
      using fold_window(1) [of i evs] that by (auto simp: folded_def)
    moreover have "(ef_changedKeys f \<noteq> []) = ({k. ghas (ef_changedKeys f) k} \<noteq> {})"
      by (cases "ef_changedKeys f") (auto simp: ghas_def split: if_splits)
    ultimately show ?thesis
      using ends_of_fold [OF assms(1) [of i]] by (simp add: hd_map after)
  qed
  have k: "keysOf [] = {}" by (simp add: keysOf_def)
  have mem: "i \<in> idsIn evs b \<longleftrightarrow> (\<exists>f. map_of ?m i = Some f \<and> entityBucket f = b)" for i b by (simp add: idsIn_def)
  have each: "(i \<in> idsIn evs Created) = (i \<in> after - before) \<and> (i \<in> idsIn evs Deleted) = (i \<in> before - after) \<and>
      (i \<in> idsIn evs Transient) = (eventsOf i evs \<noteq> [] \<and> i \<notin> before \<union> after) \<and>
      (i \<in> idsIn evs Changed) = (i \<in> before \<inter> after \<and> keysOf (eventsOf i evs) \<noteq> {})" for i
  proof (cases "map_of ?m i")
    case None
    then show ?thesis using none [OF None] by (simp add: mem k)
  next
    case (Some f)
    then show ?thesis using some [OF Some] by (simp add: mem entityBucket_def Let_def)
  qed
  then show "idsIn evs Created = after - before" "idsIn evs Deleted = before - after"
    "idsIn evs Transient = {i. eventsOf i evs \<noteq> [] \<and> i \<notin> before \<union> after}"
    "idsIn evs Changed = {i \<in> before \<inter> after. keysOf (eventsOf i evs) \<noteq> {}}" by blast+
qed

lemma diffAnswer_ends:
  assumes "\<And>i. orderly (i \<in> before) (map ee_ChangeType (eventsOf i evs))"
    and "after = {i. presentAfter (i \<in> before) (map ee_ChangeType (eventsOf i evs))}"
    and "out = diffAnswer env s start stop limit evs"
  shows "dtt_EntitiesCreated (gd_Totals out) = card (after - before)" "dtt_EntitiesDeleted (gd_Totals out) = card (before - after)"
    "dtt_EntitiesTransient (gd_Totals out) = card {i. eventsOf i evs \<noteq> [] \<and> i \<notin> before \<union> after}"
    "dtt_EntitiesChanged (gd_Totals out) = card {i \<in> before \<inter> after. keysOf (eventsOf i evs) \<noteq> {}}"
    "distinct (map eo_ID (gd_EntitiesCreated out))" "eo_ID ` set (gd_EntitiesCreated out) \<subseteq> after - before"
    "card (after - before) \<le> limit \<Longrightarrow> eo_ID ` set (gd_EntitiesCreated out) = after - before"
    "distinct (map (eo_ID \<circ> de_Entity) (gd_EntitiesDeleted out))" "(eo_ID \<circ> de_Entity) ` set (gd_EntitiesDeleted out) \<subseteq> before - after"
    "card (before - after) \<le> limit \<Longrightarrow> (eo_ID \<circ> de_Entity) ` set (gd_EntitiesDeleted out) = before - after"
    "(eo_ID \<circ> edf_Entity) ` set (gd_EntitiesChanged out) \<subseteq> before \<inter> after"
proof -
  let ?m = "fst (fold foldEvent evs ([], []))" and ?id = "\<lambda>f. ent_ID (ef_ent f)"
  note ends = idsIn_ends [OF assms(1,2)] and ids = entitiesIn_ids [of evs]
  have T: "dtt_EntitiesCreated (gd_Totals out) = length (entitiesIn ?m Created)" "dtt_EntitiesDeleted (gd_Totals out) = length (entitiesIn ?m Deleted)"
    "dtt_EntitiesTransient (gd_Totals out) = length (entitiesIn ?m Transient)" "dtt_EntitiesChanged (gd_Totals out) = length (entitiesIn ?m Changed)"
    by (simp_all add: assms(3) diffAnswer_def split_beta Let_def)
  have C: "map eo_ID (gd_EntitiesCreated out) = take limit (map ?id (entitiesIn ?m Created))"
    "map (eo_ID \<circ> de_Entity) (gd_EntitiesDeleted out) = take limit (map ?id (entitiesIn ?m Deleted))"
    "map (eo_ID \<circ> edf_Entity) (gd_EntitiesChanged out) = take limit (map ?id (entitiesIn ?m Changed))"
    by (simp_all add: assms(3) diffAnswer_def split_beta Let_def entityOut_def entityOutV_def deletedOut_def changedOut_def take_map)
  have take: "distinct (take limit (map ?id (entitiesIn ?m b))) \<and> set (take limit (map ?id (entitiesIn ?m b))) \<subseteq> idsIn evs b \<and>
      (card (idsIn evs b) \<le> limit \<longrightarrow> set (take limit (map ?id (entitiesIn ?m b))) = idsIn evs b)" for b
    using ids(1) [of b] set_take_subset [of limit "map ?id (entitiesIn ?m b)"] ids(2,3) [of b] by simp
  show "dtt_EntitiesCreated (gd_Totals out) = card (after - before)" "dtt_EntitiesDeleted (gd_Totals out) = card (before - after)"
    "dtt_EntitiesTransient (gd_Totals out) = card {i. eventsOf i evs \<noteq> [] \<and> i \<notin> before \<union> after}"
    "dtt_EntitiesChanged (gd_Totals out) = card {i \<in> before \<inter> after. keysOf (eventsOf i evs) \<noteq> {}}"
    unfolding T ids(3) ends by (rule refl)+
  note take [of Created, folded C(1)] take [of Deleted, folded C(2)] take [of Changed, folded C(3)]
  then show "distinct (map eo_ID (gd_EntitiesCreated out))" "eo_ID ` set (gd_EntitiesCreated out) \<subseteq> after - before"
    "card (after - before) \<le> limit \<Longrightarrow> eo_ID ` set (gd_EntitiesCreated out) = after - before"
    "distinct (map (eo_ID \<circ> de_Entity) (gd_EntitiesDeleted out))" "(eo_ID \<circ> de_Entity) ` set (gd_EntitiesDeleted out) \<subseteq> before - after"
    "card (before - after) \<le> limit \<Longrightarrow> (eo_ID \<circ> de_Entity) ` set (gd_EntitiesDeleted out) = before - after"
    "(eo_ID \<circ> edf_Entity) ` set (gd_EntitiesChanged out) \<subseteq> before \<inter> after"
    unfolding ends by auto
qed

text \<open>Heartbeats change neither end.\<close>

lemma heartbeats_idle:
  fixes evs :: "Event list"
  defines "evs' \<equiv> filter (\<lambda>ev. eventChangeType ev \<noteq> EntityUnchanged) evs"
  assumes "orderly p (map ee_ChangeType (eventsOf i evs))"
  shows "orderly p (map ee_ChangeType (eventsOf i evs'))"
    "presentAfter p (map ee_ChangeType (eventsOf i evs')) = presentAfter p (map ee_ChangeType (eventsOf i evs))"
    "keysOf (eventsOf i evs') = keysOf (eventsOf i evs)" "\<not> p \<Longrightarrow> eventsOf i evs' = [] \<longleftrightarrow> eventsOf i evs = []"
proof -
  have e: "eventsOf i evs' = filter (\<lambda>ee. ee_ChangeType ee \<noteq> EntityUnchanged) (eventsOf i evs)"
    unfolding evs'_def by (induction evs) (auto simp: eventsOf_def eventChangeType_def List.map_filter_def split: option.splits)
  have o: "orderly p cts \<Longrightarrow> orderly p (filter (\<lambda>ct. ct \<noteq> EntityUnchanged) cts) \<and>
      presentAfter p (filter (\<lambda>ct. ct \<noteq> EntityUnchanged) cts) = presentAfter p cts" for p cts
    by (induction cts arbitrary: p) (auto split: if_splits)
  have m: "map ee_ChangeType (eventsOf i evs') = filter (\<lambda>ct. ct \<noteq> EntityUnchanged) (map ee_ChangeType (eventsOf i evs))"
    by (simp add: e filter_map comp_def)
  show "orderly p (map ee_ChangeType (eventsOf i evs'))"
    "presentAfter p (map ee_ChangeType (eventsOf i evs')) = presentAfter p (map ee_ChangeType (eventsOf i evs))"
    unfolding m using o [OF assms(2)] by simp_all
  show "keysOf (eventsOf i evs') = keysOf (eventsOf i evs)" unfolding e keysOf_def by auto
  show "eventsOf i evs' = [] \<longleftrightarrow> eventsOf i evs = []" if "\<not> p"
    using assms(2) that by (cases "eventsOf i evs") (auto simp: e split: if_splits)
qed

text \<open>
  C13. \<open>graph_diff\<close> tells what came and what went in its window. Over a log in order and a database
  that answers, when the events of the window create an entity only when it is absent and change or
  delete it only when it is present, the answer counts as created exactly the entities present at
  the end and not at the start, as deleted those present at the start and not at the end, and as
  transient those that appeared and disappeared in between; the lists of created and deleted
  entities hold each of them once, and all of them when they fit the limit; and every entity listed
  as changed is present at both ends. Which of those are listed as changed is not part of this.
\<close>

theorem graph_diff_is_the_net_presence:
  assumes "log_laws (me_pb env) contents (me_pm env)"
    and "stored (me_pm env) (contents (s_db (ms_store s))) (s_seq (ms_store s)) L"
    and "answers (me_pb env) (s_db (ms_store s))" and "me_ctx env = noDeadline"
    and "diffBounds s (gi_Window inp) (gi_From inp) (gi_To inp) = Inr (start, stop)"
    and "ReadByTimeRange (me_pb env) (me_pm env) noDeadline start stop (ms_store s) = Inr evs"
    and "\<And>i. orderly (i \<in> before) (map ee_ChangeType (eventsOf i evs))"
    and "after = {i. presentAfter (i \<in> before) (map ee_ChangeType (eventsOf i evs))}"
  shows "\<exists>out. graphDiff env inp s = Inr out \<and>
    dtt_EntitiesCreated (gd_Totals out) = card (after - before) \<and> dtt_EntitiesDeleted (gd_Totals out) = card (before - after) \<and>
    dtt_EntitiesTransient (gd_Totals out) = card {i. eventsOf i evs \<noteq> [] \<and> i \<notin> before \<union> after} \<and>
    (eo_ID \<circ> edf_Entity) ` set (gd_EntitiesChanged out) \<subseteq> before \<inter> after \<and>
    distinct (map eo_ID (gd_EntitiesCreated out)) \<and> eo_ID ` set (gd_EntitiesCreated out) \<subseteq> after - before \<and>
    (int (card (after - before)) \<le> clampLimit (gi_Limit inp) \<longrightarrow> eo_ID ` set (gd_EntitiesCreated out) = after - before) \<and>
    distinct (map (eo_ID \<circ> de_Entity) (gd_EntitiesDeleted out)) \<and> (eo_ID \<circ> de_Entity) ` set (gd_EntitiesDeleted out) \<subseteq> before - after \<and>
    (int (card (before - after)) \<le> clampLimit (gi_Limit inp) \<longrightarrow> (eo_ID \<circ> de_Entity) ` set (gd_EntitiesDeleted out) = before - after)"
proof -
  let ?evs = "filter (\<lambda>ev. eventChangeType ev \<noteq> EntityUnchanged) evs" and ?limit = "nat (clampLimit (gi_Limit inp))"
  define out where "out = diffAnswer env s start stop ?limit ?evs"
  have g: "graphDiff env inp s = Inr out"
    using graph_diff_reads_the_window [OF assms(1-5)] assms(4,6) by (auto simp: out_def)
  note idle = heartbeats_idle [OF assms(7)]
  have after: "after = {i. presentAfter (i \<in> before) (map ee_ChangeType (eventsOf i ?evs))}" using idle(2) assms(8) by simp
  note ends = diffAnswer_ends [OF idle(1) after out_def]
  have "{i. eventsOf i ?evs \<noteq> [] \<and> i \<notin> before \<union> after} = {i. eventsOf i evs \<noteq> [] \<and> i \<notin> before \<union> after}" using idle(4) by blast
  moreover have "int n \<le> clampLimit (gi_Limit inp) \<longleftrightarrow> n \<le> ?limit" for n
    using clampLimit_bounds [of "gi_Limit inp"] by (simp add: le_nat_iff)
  ultimately show ?thesis using g ends by (intro exI [of _ out]) (simp add: o_def)
qed

lemma fx_events:
  "ReadByTimeRange (me_pb fxWinEnv) (me_pm fxWinEnv) noDeadline (unixEpoch + 5) (unixEpoch + 3600000000005) (ms_store fxWinServer)
     = Inr (map (stampCommit 1) fxLife)"
proof -
  have "map snd (windowOf (unixEpoch + 5) (unixEpoch + 3600000000005) (numbered 0 (map (stampCommit 1) fxLife))) = map (stampCommit 1) fxLife"
    by code_simp
  then show ?thesis using ReadByTimeRange_window [OF fx_window(2-4)] by simp
qed

lemma fx_changes:
  "map ee_ChangeType (eventsOf i (map (stampCommit 1) fxLife)) =
     (if i = ''h'' then [EntityCreated, EntityUnchanged, EntityUnchanged, EntityUnchanged] else [])"
  by (simp add: eventsOf_def fxLife_def fxRecord_def stampCommit_def List.map_filter_def)

theorem graph_diff_is_the_net_presence_witness:
  "\<exists>out. graphDiff fxWinEnv fxDiffInput fxWinServer = Inr out \<and> dtt_EntitiesCreated (gd_Totals out) = 1 \<and>
     eo_ID ` set (gd_EntitiesCreated out) = {''h''} \<and> dtt_EntitiesDeleted (gd_Totals out) = 0"
proof -
  have bounds: "diffBounds fxWinServer (gi_Window fxDiffInput) (gi_From fxDiffInput) (gi_To fxDiffInput)
      = Inr (unixEpoch + 5, unixEpoch + 3600000000005)" using fx_window(1) by (simp add: fxDiffInput_def)
  have orderly: "orderly (i \<in> {}) (map ee_ChangeType (eventsOf i (map (stampCommit 1) fxLife)))" for i by (simp add: fx_changes)
  have after: "{''h''} = {i. presentAfter (i \<in> {}) (map ee_ChangeType (eventsOf i (map (stampCommit 1) fxLife)))}"
    by (simp add: fx_changes)
  have "clampLimit (gi_Limit fxDiffInput) = 50" by (simp add: fxDiffInput_def clampLimit_def defaultLimit_def)
  with graph_diff_is_the_net_presence [OF fx_window(2-5) bounds fx_events orderly after] show ?thesis by auto
qed

text \<open>
  The answer is less than the difference of the two ends, and more. An entity that is deleted and
  created again under its id with other attributes is present at both ends and differs, and the
  answer is that there was no net change; an attribute that changes and changes back is reported
  as a change of an entity that is the same at both ends.
\<close>

definition fxHost2 :: Entity where
  "fxHost2 = fxHost\<lparr>ent_Attributes := [(''os'', StringValue ''b'')]\<rparr>"

definition fxRetag :: "Entity \<Rightarrow> Event" where
  "fxRetag e = entityEvent (zeroEntityEvent\<lparr>ee_ChangeType := EntityAttributeUpdated, ee_Entity := e, ee_ChangedKeys := [''os'']\<rparr>)"

lemma diffAnswer_totals:
  fixes evs :: "Event list"
  defines "E \<equiv> entitiesIn (fst (fold foldEvent evs ([], [])))" and "R \<equiv> relationsIn (snd (fold foldEvent evs ([], [])))"
  shows "gd_Totals (diffAnswer env s start stop limit evs) =
      \<lparr>dtt_EntitiesCreated = length (E Created), dtt_EntitiesDeleted = length (E Deleted), dtt_EntitiesChanged = length (E Changed),
       dtt_EntitiesTransient = length (E Transient), dtt_RelationsAdded = length (R Created), dtt_RelationsRemoved = length (R Deleted),
       dtt_RelationsChanged = length (R Changed), dtt_RelationsTransient = length (R Transient)\<rparr>"
    and "gd_Summary (diffAnswer env s start stop limit evs) = diffSummary (gd_Totals (diffAnswer env s start stop limit evs))"
  by (simp_all add: diffAnswer_def E_def R_def split_beta Let_def)

theorem graph_diff_misses_a_replacement:
  "gd_Summary (diffAnswer env s start stop limit [fxEvent EntityDeleted fxHost, fxEvent EntityCreated fxHost2])
     = ''No net change between the two instants.'' \<and> live (Replay now [fxEvent EntityDeleted fxHost, fxEvent EntityCreated fxHost2] fxGraph) ''h1'' = Some fxHost2
     \<and> live fxGraph ''h1'' = Some fxHost \<and> fxHost \<noteq> fxHost2 \<and>
   dtt_EntitiesChanged (gd_Totals (diffAnswer env s start stop limit [fxRetag fxHost2, fxRetag fxHost])) = 1 \<and>
   live (Replay now [fxRetag fxHost2, fxRetag fxHost] fxGraph) ''h1'' = Some fxHost"
proof -
  have d: "fold foldEvent [fxEvent EntityDeleted fxHost, fxEvent EntityCreated fxHost2] ([], []) =
      ([(''h1'', \<lparr>ef_createdFirst = False, ef_lastLifecycle = EntityCreated, ef_changedKeys = [], ef_stateChanged = False,
        ef_ent = fxHost2, ef_deleteReason = [], ef_deleteSource = [], ef_seq = 0\<rparr>)], [])"
    by (simp add: foldEvent_def foldEntity_def fxEvent_def fxHost_def fxHost2_def Let_def gput_def zeroEntityEvent_def DeleteSourceUnknown_def)
  have c: "fold foldEvent [fxRetag fxHost2, fxRetag fxHost] ([], []) =
      ([(''h1'', \<lparr>ef_createdFirst = False, ef_lastLifecycle = ChangeUnspecified, ef_changedKeys = [(''os'', ())], ef_stateChanged = False,
        ef_ent = fxHost, ef_deleteReason = [], ef_deleteSource = [], ef_seq = 0\<rparr>)], [])"
    by (simp add: foldEvent_def foldEntity_def fxRetag_def fxHost_def fxHost2_def Let_def gput_def gadd_def zeroEntityEvent_def)
  have "gd_Summary (diffAnswer env s start stop limit [fxEvent EntityDeleted fxHost, fxEvent EntityCreated fxHost2])
     = ''No net change between the two instants.''"
    unfolding diffAnswer_totals d by (simp add: entitiesIn_def relationsIn_def entityBucket_def diffSummary_def)
  moreover have "dtt_EntitiesChanged (gd_Totals (diffAnswer env s start stop limit [fxRetag fxHost2, fxRetag fxHost])) = 1"
    unfolding diffAnswer_totals c by (simp add: entitiesIn_def entityBucket_def)
  moreover have "live (putEntity e g) (ent_ID e) = Some e" for e g
    by (simp add: live_def putEntity_def isDeleted_def Let_def)
  ultimately show ?thesis using fxGraph_live(1)
    by (simp add: Replay_def Apply_def applyEntity_def fxEvent_def fxRetag_def fxHost_def fxHost2_def Let_def)
qed

end
