(* ===== verification/Mcp_Answers.thy ===== *)
theory Mcp_Answers
  imports Mcp_Diff
begin

text \<open>
  Properties every answer shares: the limits, the instants an answer names, what an answer about
  the past withholds; and the guards of the one tool that writes and of the resolution of an
  observed endpoint.
\<close>

section \<open>Limits\<close>

lemma forRows_invariant:
  assumes "\<And>row a b. P (snd a) \<Longrightarrow> timeRow ctx fn row a = Inr b \<Longrightarrow> P (snd b)"
  shows "P (snd a) \<Longrightarrow> forRows (timeRow ctx fn) rows a = Inr b \<Longrightarrow> P (snd b)"
proof (induction rows arbitrary: a)
  case (Cons row rows)
  from Cons.prems(2) obtain a' where "timeRow ctx fn row a = Inr a'" "forRows (timeRow ctx fn) rows a' = Inr b"
    by (auto split: sum.splits)
  with Cons.IH assms Cons.prems(1) show ?case by blast
qed simp

lemma ScanTimeIndex_invariant:
  assumes step: "\<And>e a b. P a \<Longrightarrow> fn e a = Inr b \<Longrightarrow> P b" and "P a" and "ScanTimeIndex pb ctx start stop newestFirst fn s a = Inr b"
  shows "P b"
proof -
  have row: "P (snd na')" if "P (snd na)" "timeRow ctx fn row na = Inr na'" for row na na'
    using that step by (auto simp: timeRow_def split: option.splits sum.splits)
  from assms(3) obtain rows n where "forRows (timeRow ctx fn) rows (0, a) = Inr (n, b)"
    by (auto simp: ScanTimeIndex_def split: sum.splits option.splits)
  from forRows_invariant [where P = P, OF row _ this] assms(2) show ?thesis by simp
qed

lemma recentEntry_bounded:
  assumes "length (snd a) \<le> limit" and "recentEntry resolve f kind limit e a = Inr b"
  shows "length (snd b) \<le> limit"
  using assms by (auto simp: recentEntry_def Let_def split: prod.splits if_splits sum.splits option.splits)

lemma page_bounded:
  "pageNeighbors all after limit = Inr (ns, c) \<Longrightarrow> length ns \<le> limit"
  "pageByFingerprint es after limit = Inr (page, c) \<Longrightarrow> length page \<le> limit"
  "PageEntitiesByFingerprint g typ after n = Some (page, fp, k) \<Longrightarrow> length page \<le> nat n"
  by (auto simp: pageNeighbors_def pageByFingerprint_def PageEntitiesByFingerprint_def Let_def split: if_splits option.splits)

lemma limit_200: "nat (clampLimit n) \<le> 200"
  using clampLimit_bounds [of n] by linarith

lemma path_hops_bounded:
  assumes "pathAnswer env s g inp a b = Some out"
  shows "length (fp_Path out) \<le> 11 \<and> length (fp_Convergences out) \<le> 10"
proof (cases "pw_found (walkPaths (ms_idThr s) g a b (fi_RelationType inp) (clampDepth (fi_MaxDepth inp)))")
  case False
  with assms show ?thesis
    by (auto simp: pathAnswer_def convergenceEntities_def maxConvergences_def Let_def split: if_splits)
next
  case True
  let ?w = "walkPaths (ms_idThr s) g a b (fi_RelationType inp) (clampDepth (fi_MaxDepth inp))"
  from True walkPaths_ok(1) [of "ms_idThr s" g "fi_RelationType inp" a b "clampDepth (fi_MaxDepth inp)"] obtain es where
    es: "parentsPath (pw_parents ?w) a b es" "length es \<le> nat (clampDepth (fi_MaxDepth inp))" by (auto simp: walk_ok_def reached_def)
  have "length es \<le> 10" using es(2) clampDepth_bounds [of "fi_MaxDepth inp"] by linarith
  with True assms pathBack_parents [OF es(1), of g "[]"] show ?thesis by (auto simp: pathAnswer_def Let_def routeHops_def)
qed

lemma found_bounded:
  assumes "findEntities env inp s = Some (Inr out)"
  shows "length (fe_Entities out) \<le> 200"
proof -
  from assms obtain g brief page n c where "out = foundOutput env s inp g brief page n c" "length page \<le> nat (clampLimit (en_Limit inp))"
    by (auto simp: findEntities_def Let_def dest: page_bounded(2,3) split: option.splits sum.splits if_splits)
  then show ?thesis using limit_200 [of "en_Limit inp"] by (simp add: foundOutput_def)
qed

lemma neighbors_bounded:
  assumes "getNeighbors env inp s = Inr out"
  shows "length (no_Neighbors out) \<le> 200"
proof -
  from assms obtain all c where "pageNeighbors all (ni_After inp) (nat (clampLimit (ni_Limit inp))) = Inr (no_Neighbors out, c)"
    by (auto simp: getNeighbors_def Let_def split: option.splits sum.splits if_splits)
  from page_bounded(1) [OF this] limit_200 [of "ni_Limit inp"] show ?thesis by simp
qed

lemma impacted_bounded:
  assumes "impactOf env inp s = Some (Inr out)"
  shows "length (io_Impacted out) \<le> 200"
proof -
  from assms obtain g a where "impactAnswer env s g inp a = Some out" by (auto simp: impactOf_def split: sum.splits if_splits)
  then show ?thesis using limit_200 [of "ii_Limit inp"] by (auto simp: impactAnswer_def Let_def split_beta)
qed

lemma history_bounded:
  assumes "entityHistory env inp s = Inr out"
  shows "length (ho_Changes out) \<le> 200"
proof -
  have h: "length (ho_Changes (historyAnswer env s i since until n acc)) \<le> n" for i since until n acc
    by (auto simp: historyAnswer_def Let_def split_beta)
  show ?thesis using assms
    by (auto simp: entityHistory_def intro: le_trans [OF h limit_200] split: sum.splits option.splits if_splits)
qed

lemma recent_bounded:
  assumes "recentChanges env inp s = Inr out"
  shows "length (rco_Changes out) \<le> 200"
proof -
  let ?limit = "nat (clampLimit (rc_Limit inp))"
  from assms obtain start stop f kind acc where
    acc: "ScanTimeIndex (me_pb env) (me_ctx env) start (stop + 1) True
        (recentEntry (Resolve (me_pb env) (me_pm env) (ms_store s)) f kind ?limit) (ms_store s) (emptyDigest, []) = Inr acc"
      "out = recentAnswer env s start stop ?limit acc"
    by (auto simp: recentChanges_def Let_def split: sum.splits if_splits)
  have "length (snd acc) \<le> ?limit"
    by (rule ScanTimeIndex_invariant [where P = "\<lambda>a. length (snd a) \<le> ?limit", OF _ _ acc(1)]) (auto intro: recentEntry_bounded)
  then show ?thesis using limit_200 [of "rc_Limit inp"] by (simp add: acc(2) recentAnswer_def split_beta)
qed

lemma diff_bounded:
  assumes "graphDiff env inp s = Inr out"
  shows "length (gd_EntitiesCreated out) \<le> 200 \<and> length (gd_EntitiesDeleted out) \<le> 200 \<and> length (gd_EntitiesChanged out) \<le> 200 \<and>
    length (gd_EntitiesTransient out) \<le> 200 \<and> length (gd_RelationsAdded out) \<le> 200 \<and> length (gd_RelationsRemoved out) \<le> 200 \<and>
    length (gd_RelationsChanged out) \<le> 200 \<and> length (gd_RelationsTransient out) \<le> 200"
proof -
  from assms obtain start stop evs where "out = diffAnswer env s start stop (nat (clampLimit (gi_Limit inp))) evs"
    by (auto simp: graphDiff_def split: sum.splits)
  then show ?thesis using limit_200 [of "gi_Limit inp"] by (simp add: diffAnswer_def Let_def split_beta min.coboundedI2)
qed

text \<open>
  C18. No answer grows with the graph or the log. Whatever limit and depth a caller asks for, and
  whatever the graph and the log hold, \<open>find_entities\<close>, \<open>get_neighbors\<close>, \<open>impact_of\<close>,
  \<open>entity_history\<close>, \<open>recent_changes\<close> and each list of \<open>graph_diff\<close> return at most 200 items, a
  path has at most 10 hops, and at most 10 convergences are listed.
\<close>

theorem answers_are_bounded:
  "list_all (\<lambda>n. n \<le> 200)
     [case findEntities env fe s of Some (Inr out) \<Rightarrow> length (fe_Entities out) | _ \<Rightarrow> 0,
      case getNeighbors env gn s of Inr out \<Rightarrow> length (no_Neighbors out) | _ \<Rightarrow> 0,
      case impactOf env io s of Some (Inr out) \<Rightarrow> length (io_Impacted out) | _ \<Rightarrow> 0,
      case entityHistory env eh s of Inr out \<Rightarrow> length (ho_Changes out) | _ \<Rightarrow> 0,
      case recentChanges env rc s of Inr out \<Rightarrow> length (rco_Changes out) | _ \<Rightarrow> 0] \<and>
   (case graphDiff env gi s of
      Inr out \<Rightarrow> list_all (\<lambda>n. n \<le> 200)
        [length (gd_EntitiesCreated out), length (gd_EntitiesDeleted out), length (gd_EntitiesChanged out),
         length (gd_EntitiesTransient out), length (gd_RelationsAdded out), length (gd_RelationsRemoved out),
         length (gd_RelationsChanged out), length (gd_RelationsTransient out)]
    | Inl _ \<Rightarrow> True) \<and>
   (case findPath env fp s of
      Some (Inr out) \<Rightarrow> length (fp_Path out) \<le> 10 + 1 \<and> length (fp_Convergences out) \<le> 10
    | _ \<Rightarrow> True)"
proof (intro conjI)
  show "list_all (\<lambda>n. n \<le> 200)
     [case findEntities env fe s of Some (Inr out) \<Rightarrow> length (fe_Entities out) | _ \<Rightarrow> 0,
      case getNeighbors env gn s of Inr out \<Rightarrow> length (no_Neighbors out) | _ \<Rightarrow> 0,
      case impactOf env io s of Some (Inr out) \<Rightarrow> length (io_Impacted out) | _ \<Rightarrow> 0,
      case entityHistory env eh s of Inr out \<Rightarrow> length (ho_Changes out) | _ \<Rightarrow> 0,
      case recentChanges env rc s of Inr out \<Rightarrow> length (rco_Changes out) | _ \<Rightarrow> 0]"
    using found_bounded [of env fe s] neighbors_bounded [of env gn s] impacted_bounded [of env io s] history_bounded [of env eh s]
      recent_bounded [of env rc s] by (simp split: option.split sum.split)
  show "case findPath env fp s of
      Some (Inr out) \<Rightarrow> length (fp_Path out) \<le> 10 + 1 \<and> length (fp_Convergences out) \<le> 10 | _ \<Rightarrow> True"
    by (auto simp: findPath_def dest: path_hops_bounded split: option.splits sum.splits)
qed (use diff_bounded [of env gi s] in \<open>simp split: sum.split\<close>)

section \<open>Instants\<close>

text \<open>
  An instant that an answer names is accepted back as it was meant: from the Unix epoch up to the
  year 10000 the printed form of an instant parses to that instant, to the nanosecond, and so two
  printed instants in order are a window.
\<close>

theorem printed_instants_are_accepted:
  assumes "unixEpoch \<le> t" and "t < u" and "u < days_before_year 10000 * 86400 * nsPerSec"
  shows "parseOptTime (formatTime t) field = Inr t \<and> diffBounds s [] (formatTime t) (formatTime u) = Inr (t, u)"
proof -
  have epoch: "(0::int) < unixEpoch" by (simp add: unixEpoch_def)
  have p: "formatTime v \<noteq> [] \<and> parseOptTime (formatTime v) field = Inr v"
    if "unixEpoch \<le> v" "v < days_before_year 10000 * 86400 * nsPerSec" for v field
  proof -
    have "parse_rfc3339 (format_rfc3339nano v) = Some v" by (rule parse_format_rfc3339) (use that epoch in linarith)+
    moreover have "parse_rfc3339 [] = None" by code_simp
    ultimately have "format_rfc3339nano v \<noteq> []" by auto
    with \<open>parse_rfc3339 (format_rfc3339nano v) = Some v\<close> that epoch show ?thesis by (simp add: formatTime_def parseOptTime_def)
  qed
  have "t < days_before_year 10000 * 86400 * nsPerSec" "unixEpoch \<le> u" using assms by linarith+
  then show ?thesis using p [of t] p [of u] assms by (simp add: diffBounds_def)
qed

theorem printed_instants_are_accepted_witness:
  "diffBounds fxMcp [] (formatTime unixEpoch) (formatTime (unixEpoch + 1)) = Inr (unixEpoch, unixEpoch + 1)"
  using printed_instants_are_accepted [of unixEpoch "unixEpoch + 1" "[]" fxMcp]
  by (simp add: unixEpoch_def days_before_year_def nsPerSec_def)

section \<open>Answers about the past\<close>

text \<open>
  An answer about a past instant never names a producer: the live table of references is not
  that of the past, so \<open>get_entity\<close>, \<open>find_entities\<close> and \<open>get_neighbors\<close> withhold who
  asserts an entity or an edge, and \<open>get_entity\<close> states no observation interval.
\<close>

lemma past_entity_withheld:
  assumes "asOf \<noteq> []"
  shows "eo_AssertedBy (attachProducers s i brief asOf (entityOutV e d brief)) = None"
    "eo_CollectedBy (attachProducers s i brief asOf (entityOutV e d brief)) = None"
    "resolutionFor s i asOf \<in> {None, Some UnknownThen}"
  using assms by (auto simp: attachProducers_def entityOutV_def resolutionFor_def split: option.splits)

lemma past_neighbor_withheld:
  "asOf \<noteq> [] \<Longrightarrow> nb_ViaAssertedBy (neighborOut s g brief asOf n e) = None \<and> nb_ViaCollectedBy (neighborOut s g brief asOf n e) = None \<and>
     eo_AssertedBy (nb_Entity (neighborOut s g brief asOf n e)) = None"
  by (auto simp: neighborOut_def attachEdgeProvenance_def entityOutV_def Let_def split: option.splits)

section \<open>Guards\<close>

text \<open>
  \<open>annotate_entity\<close> is the one tool that writes, and it writes annotations only: the graph, the
  log and the settings of the server are what they were; without the permission to write, or with
  any other error, nothing is audited, and without the permission nothing changes at all.
\<close>

theorem annotate_entity_writes_only_annotations:
  assumes "annotateEntity env req ten inp s = (s', audit, r)"
  shows "s'\<lparr>ms_ann := ms_ann s\<rparr> = s \<and> (\<not> CanWrite req \<longrightarrow> s' = s \<and> (\<exists>err. r = Inl err)) \<and>
    (audit \<noteq> [] \<longleftrightarrow> (\<exists>a. r = Inr a))"
  using assms by (auto simp: annotateEntity_def split: option.splits if_splits prod.splits sum.splits)

text \<open>
  An endpoint that names its host is resolved on that host or not at all: to the host itself, or
  to a live listener with a relation \<open>runs_on\<close> to it and the port of the endpoint.
\<close>

lemma firstSome_mem: "firstSome xs = Some x \<Longrightarrow> Some x \<in> set xs"
  by (auto simp: firstSome_def split: list.splits dest!: arg_cong [of _ _ set])

theorem scoped_endpoint_stays_on_its_host:
  assumes "resolveObserved g e = Some x" and "identityValue e ''host.id'' \<noteq> []"
  shows "\<exists>h. h \<in> set (ListEntities g TypeHost) \<and> identityValue h ''host.id'' = identityValue e ''host.id'' \<and>
    (x = h \<or> ent_Type x = TypeServiceListener \<and> listenerPort x = identityValue e ''server.port'' \<and>
      (\<exists>r \<in> set (ListRelations g RelRunsOn [] (ent_ID h)). live g (rel_From r) = Some x))"
proof -
  let ?p = "identityValue e ''server.port''" and ?t = "identityValue e ''network.transport''"
  from assms obtain h where h: "hostByID g (identityValue e ''host.id'') = Some h" "x = onHost g h ?p ?t"
    by (auto simp: resolveObserved_def Let_def split: if_splits option.splits)
  from h(1) have host: "h \<in> set (ListEntities g TypeHost)" "identityValue h ''host.id'' = identityValue e ''host.id''"
    by (auto simp: hostByID_def find_Some_iff)
  show ?thesis
  proof (cases "x = h")
    case False
    with h(2) have "listenerOnHostPort g h ?p ?t = Some x" by (auto simp: onHost_def split: if_splits option.splits)
    then have "Some x \<in> set (map (\<lambda>r. case live g (rel_From r) of
        Some l \<Rightarrow> if ent_Type l = TypeServiceListener \<and> listenerPort l = ?p \<and> \<not> protoMismatch l ?t then Some l else None | None \<Rightarrow> None)
        (ListRelations g RelRunsOn [] (ent_ID h)))"
      unfolding listenerOnHostPort_def live_case by (rule firstSome_mem)
    then obtain r where "r \<in> set (ListRelations g RelRunsOn [] (ent_ID h))" "live g (rel_From r) = Some x"
      "ent_Type x = TypeServiceListener" "listenerPort x = ?p" by (auto split: option.splits if_splits)
    with host show ?thesis by blast
  qed (use host in blast)
qed

end
