(* ===== verification/Emit.thy ===== *)
theory Emit
  imports Ingest_Receiver
begin

text \<open>
  \<open>pkg/emit/emit.go\<close>: the producer SDK, which builds the OTLP payload that the ingest boundary reads.

  A Go map is an association list as everywhere in the development.  \<open>PutStr\<close>, \<open>PutInt\<close>,
  \<open>PutDouble\<close> and \<open>PutEmpty\<close> of a \<open>pcommon.Map\<close> replace the value of a key that is there and append
  the key otherwise, which is \<^const>\<open>gput\<close>.  A Go value of type \<open>any\<close> is one of the types that the
  type switch names, at its width, or another type.  The gRPC client is an argument of the export,
  and the text of an error is a constructor with the values the text is made of.
\<close>

section \<open>Data\<close>

text \<open>A value of Go's type \<open>any\<close>: the cases of the type switch, and every other type by its name.\<close>

datatype goAny =
    GoString string | GoBool bool
  | GoInt "64 word" | GoInt8 "8 word" | GoInt16 "16 word" | GoInt32 "32 word" | GoInt64 "64 word"
  | GoUint "64 word" | GoUint8 "8 word" | GoUint16 "16 word" | GoUint32 "32 word"
  | GoFloat32 float64 | GoFloat64 float64
  | GoSlice "goAny list" | GoMap "(string \<times> goAny) list"
  | GoOther string

record EmitRelationship =
  er_Type :: string
  er_TargetType :: string
  er_TargetID :: "(string, string) gomap"
  er_Confidence :: float64
  er_Basis :: string

record EmitEntity =
  em_Type :: string
  em_ID :: "(string, string) gomap"
  em_RichAttributes :: "(string, goAny) gomap"
  em_Attributes :: "(string, string) gomap"
  em_Interval :: duration
  em_Relationships :: "EmitRelationship list"
  em_DeleteReason :: string

record EmitOptions =
  op_Endpoint :: string
  op_Headers :: "(string, string) gomap"
  op_ServiceName :: string
  op_ServiceInstanceID :: string
  op_Resource :: "(string, string) gomap"
  op_now :: time

datatype AnyErr = UnsupportedType string | AtIndex nat AnyErr | AtKey string AnyErr

datatype RichErr = KeyInBoth string | RichKey string AnyErr

datatype BuildErr =
    UnknownEventName string
  | NoEntityType nat
  | EmptyEntityID nat string
  | SubSecondInterval nat string duration
  | BadDescription nat string RichErr
  | IncompleteRelationship nat string nat
  | ConfidenceOutOfRange nat string nat float64

section \<open>Values\<close>

text \<open>The results of a loop that stops at the first error.\<close>

fun firstErr :: "('e + 'v) list \<Rightarrow> 'e + 'v list" where
  "firstErr [] = Inr []"
| "firstErr (Inl err # rs) = Inl err"
| "firstErr (Inr v # rs) = map_sum (\<lambda>err. err) ((#) v) (firstErr rs)"

text \<open>The conversions \<open>int64(x)\<close> sign-extend a signed value, zero-extend an unsigned one and reinterpret a \<open>uint\<close>.\<close>

fun putAnyValue :: "goAny \<Rightarrow> AnyErr + PValue" where
  "putAnyValue (GoString x) = Inr (PStr x)"
| "putAnyValue (GoBool x) = Inr (PBool x)"
| "putAnyValue (GoInt x) = Inr (PInt (sint x))"
| "putAnyValue (GoInt8 x) = Inr (PInt (sint x))"
| "putAnyValue (GoInt16 x) = Inr (PInt (sint x))"
| "putAnyValue (GoInt32 x) = Inr (PInt (sint x))"
| "putAnyValue (GoInt64 x) = Inr (PInt (sint x))"
| "putAnyValue (GoUint x) = Inr (PInt (sint x))"
| "putAnyValue (GoUint8 x) = Inr (PInt (uint x))"
| "putAnyValue (GoUint16 x) = Inr (PInt (uint x))"
| "putAnyValue (GoUint32 x) = Inr (PInt (uint x))"
| "putAnyValue (GoFloat32 x) = Inr (PDouble x)"
| "putAnyValue (GoFloat64 x) = Inr (PDouble x)"
| "putAnyValue (GoSlice xs) =
     map_sum (\<lambda>err. err) PSlice
       (firstErr (map (\<lambda>(i, r). map_sum (AtIndex i) (\<lambda>v. v) r) (enumerate 0 (map putAnyValue xs))))"
| "putAnyValue (GoMap x) =
     map_sum (\<lambda>err. err) PMap
       (firstErr (map (\<lambda>(k, r). map_sum (AtKey k) (Pair k) r) (sort_key fst (map (\<lambda>(k, v). (k, putAnyValue v)) x))))"
| "putAnyValue (GoOther t) = Inl (UnsupportedType t)"

definition putSorted :: "PMapping \<Rightarrow> (string, string) gomap \<Rightarrow> PMapping" where
  "putSorted m kvs = foldl (\<lambda>m (k, v). gput k (PStr v) m) m (sort_key fst kvs)"

fun putRichKeys :: "PMapping \<Rightarrow> (string \<times> goAny) list \<Rightarrow> RichErr + PMapping" where
  "putRichKeys dst [] = Inr dst"
| "putRichKeys dst ((k, x) # rich) =
     (case putAnyValue x of Inl err \<Rightarrow> Inl (RichKey k err) | Inr v \<Rightarrow> putRichKeys (gput k v dst) rich)"

definition putRich :: "PMapping \<Rightarrow> (string, string) gomap \<Rightarrow> (string, goAny) gomap \<Rightarrow> RichErr + PMapping" where
  "putRich dst scalar rich =
     (if rich = [] then Inr dst
      else case find (\<lambda>(k, x). ghas scalar k) rich of
             Some (k, x) \<Rightarrow> Inl (KeyInBoth k)
           | None \<Rightarrow> putRichKeys dst (sort_key fst rich))"

section \<open>The payload\<close>

definition second :: duration where "second = 1000000000"

text \<open>The descriptor of the relationship at index \<open>j\<close> of the entity at index \<open>i\<close>.\<close>

definition buildRelationship :: "nat \<Rightarrow> string \<Rightarrow> nat \<times> EmitRelationship \<Rightarrow> BuildErr + PValue" where
  "buildRelationship i entType jr =
     (case jr of (j, r) \<Rightarrow>
        if er_Type r = [] \<or> er_TargetType r = [] \<or> er_TargetID r = [] then Inl (IncompleteRelationship i entType j)
        else if f_lt (er_Confidence r) f_zero \<or> f_lt f_one (er_Confidence r)
          then Inl (ConfidenceOutOfRange i entType j (er_Confidence r))
        else
          let m = gput relDescType (PStr (er_Type r)) [];
              m = gput relDescEntityType (PStr (er_TargetType r)) m;
              m = gput relDescEntityID (PMap (putSorted [] (er_TargetID r))) m;
              m = (if er_Type r = RelSameAs then
                     let m = (if f_lt f_zero (er_Confidence r) then gput relDescConfidence (PDouble (er_Confidence r)) m else m)
                     in if er_Basis r \<noteq> [] then gput relDescBasis (PStr (er_Basis r)) m else m
                   else m)
          in Inr (PMap m))"

text \<open>The body of the loop over the entities: the attributes of the record at index \<open>i\<close>.\<close>

definition buildDescription :: "nat \<Rightarrow> EmitEntity \<Rightarrow> PMapping \<Rightarrow> BuildErr + PMapping" where
  "buildDescription i e a =
     (if em_Attributes e \<noteq> [] \<or> em_RichAttributes e \<noteq> [] then
        (case putRich (putSorted [] (em_Attributes e)) (em_Attributes e) (em_RichAttributes e) of
           Inl rerr \<Rightarrow> Inl (BadDescription i (em_Type e) rerr)
         | Inr desc \<Rightarrow> Inr (gput attrEntityDesc (PMap desc) a))
      else Inr a)"

definition buildRecord :: "string \<Rightarrow> 64 word \<Rightarrow> nat \<times> EmitEntity \<Rightarrow> BuildErr + LogRecord" where
  "buildRecord eventName when ie =
     (case ie of (i, e) \<Rightarrow>
        if em_Type e = [] then Inl (NoEntityType i)
        else if em_ID e = [] then Inl (EmptyEntityID i (em_Type e))
        else if em_Interval e > 0 \<and> em_Interval e < second then Inl (SubSecondInterval i (em_Type e) (em_Interval e))
        else
          let a = gput attrEntityType (PStr (em_Type e)) [];
              a = gput attrEntityID (PMap (putSorted [] (em_ID e))) a
          in case buildDescription i e a of
               Inl err \<Rightarrow> Inl err
             | Inr a \<Rightarrow>
                 let a = (if em_Interval e > 0 then gput attrEntityInterval (PInt (em_Interval e div second)) a else a);
                     a = (if eventName = evEntityDelete \<and> em_DeleteReason e \<noteq> []
                          then gput attrEntityDeleteReason (PStr (em_DeleteReason e)) a else a)
                 in case (if eventName = evEntityState \<and> em_Relationships e \<noteq> []
                          then map_sum (\<lambda>err. err) (\<lambda>slc. gput attrEntityRelationships (PSlice slc) a)
                                 (firstErr (map (buildRelationship i (em_Type e)) (enumerate 0 (em_Relationships e))))
                          else Inr a) of
                      Inl err \<Rightarrow> Inl err
                    | Inr a \<Rightarrow> Inr \<lparr>lr_EventName = eventName, lr_Attributes = a, lr_Timestamp = when, lr_ObservedTimestamp = 0\<rparr>)"

definition resServiceName :: string where "resServiceName = ''service.name''"

definition emitScope :: string where "emitScope = ''toise-emit''"

definition buildResource :: "EmitOptions \<Rightarrow> PMapping" where
  "buildResource opts =
     (let res = (if op_ServiceName opts \<noteq> [] then gput resServiceName (PStr (op_ServiceName opts)) [] else []);
          res = (if op_ServiceInstanceID opts \<noteq> [] then gput resAttrProducer (PStr (op_ServiceInstanceID opts)) res else res)
      in putSorted res (op_Resource opts))"

text \<open>\<open>pcommon.NewTimestampFromTime\<close> keeps the low 64 bits of the nanoseconds since 1970.\<close>

definition Build :: "EmitOptions \<Rightarrow> string \<Rightarrow> EmitEntity list \<Rightarrow> BuildErr + ResourceLogs list" where
  "Build opts eventName entities =
     (if eventName \<noteq> evEntityState \<and> eventName \<noteq> evEntityDelete then Inl (UnknownEventName eventName)
      else
        let when = word_of_int (op_now opts - unixEpoch)
        in case firstErr (map (buildRecord eventName when) (enumerate 0 entities)) of
             Inl err \<Rightarrow> Inl err
           | Inr recs \<Rightarrow> Inr [\<lparr>rl_Attributes = buildResource opts, rl_ScopeLogs = [(emitScope, recs)]\<rparr>])"

section \<open>The export\<close>

text \<open>
  A call of the gRPC client takes the headers and the payload, and returns a new state of the other side
  with an error or the number of rejected records and a message.
\<close>

datatype ('x, 'm) EmitErr = BuildFailed BuildErr | ExportFailed nat string 'x | PartialError nat 'm

type_synonym ('w, 'x, 'm) grpcClient = "(string, string) gomap \<Rightarrow> ResourceLogs list \<Rightarrow> 'w \<Rightarrow> 'w \<times> ('x + nat \<times> 'm)"

definition emitExport :: "('w, 'x, 'm) grpcClient \<Rightarrow> EmitOptions \<Rightarrow> string \<Rightarrow> EmitEntity list \<Rightarrow> 'w \<Rightarrow> 'w \<times> ('x, 'm) EmitErr option" where
  "emitExport grpc opts eventName entities w =
     (if entities = [] then (w, None)
      else case Build opts eventName entities of
             Inl err \<Rightarrow> (w, Some (BuildFailed err))
           | Inr ld \<Rightarrow>
               (case grpc (op_Headers opts) ld w of
                  (w, Inl err) \<Rightarrow> (w, Some (ExportFailed (length entities) eventName err))
                | (w, Inr (rejected, msg)) \<Rightarrow> (w, if rejected > 0 then Some (PartialError rejected msg) else None)))"

definition emitState :: "('w, 'x, 'm) grpcClient \<Rightarrow> EmitOptions \<Rightarrow> EmitEntity list \<Rightarrow> 'w \<Rightarrow> 'w \<times> ('x, 'm) EmitErr option" where
  "emitState grpc opts entities w = emitExport grpc opts evEntityState entities w"

definition emitDelete :: "('w, 'x, 'm) grpcClient \<Rightarrow> EmitOptions \<Rightarrow> EmitEntity list \<Rightarrow> 'w \<Rightarrow> 'w \<times> ('x, 'm) EmitErr option" where
  "emitDelete grpc opts entities w = emitExport grpc opts evEntityDelete entities w"

text \<open>\<open>DependsOnEndpoint\<close> of \<open>endpoint.go\<close>.\<close>

definition DependsOnEndpoint :: "string \<Rightarrow> int \<Rightarrow> string \<Rightarrow> EmitRelationship" where
  "DependsOnEndpoint serverAddress serverPort transport =
     \<lparr>er_Type = RelDependsOn, er_TargetType = TypeNetworkEndpoint,
      er_TargetID = [(''server.address'', serverAddress), (''server.port'', format_int serverPort), (''network.transport'', transport)],
      er_Confidence = f_zero, er_Basis = []\<rparr>"

end
