(* ===== verification/Emit_Laws.thy ===== *)
theory Emit_Laws
  imports Emit Ingest_Export
begin

text \<open>
  What the producer SDK puts on the wire, read back: the model value a Go value is converted to, the
  observation that is read for an entity and the relation observations of its relationships.
\<close>

section \<open>Lists and maps\<close>

lemma sort_fst_map: "sort_key fst (map (\<lambda>(k, v). (k, f v)) m) = map (\<lambda>(k, v). (k, f v)) (sort_key fst m)"
  by (rule sort_key_map) auto

lemma gdistinct_sort [simp]: "gdistinct (sort_key fst m) \<longleftrightarrow> gdistinct m"
  by (simp add: gdistinct_def distinct_map)

lemma gput_fresh: "\<not> ghas m k \<Longrightarrow> gput k v m = m @ [(k, v)]"
  by (induction m) (auto simp: ghas_def split: if_splits)

lemma ghas_append [simp]: "ghas (m @ m') k \<longleftrightarrow> ghas m k \<or> ghas m' k"
  by (auto simp: ghas_iff)

lemma foldl_gput_append:
  "gdistinct kvs \<Longrightarrow> \<forall>k \<in> fst ` set kvs. \<not> ghas m k \<Longrightarrow>
     foldl (\<lambda>m (k, v). gput k (f v) m) m kvs = m @ map (\<lambda>(k, v). (k, f v)) kvs"
proof (induction kvs arbitrary: m)
  case (Cons kv kvs)
  obtain k v where kv: "kv = (k, v)" by (cases kv)
  have "\<forall>k' \<in> fst ` set kvs. \<not> ghas (m @ [(k, f v)]) k'" using Cons.prems by (auto simp: kv ghas_iff)
  with Cons.IH [of "m @ [(k, f v)]"] Cons.prems show ?case by (simp add: kv gput_fresh)
qed simp

lemma putSorted_Nil: "gdistinct kvs \<Longrightarrow> putSorted [] kvs = map (\<lambda>(k, v). (k, PStr v)) (sort_key fst kvs)"
  by (simp add: putSorted_def foldl_gput_append)

lemma ghas_putSorted: "gdistinct kvs \<Longrightarrow> ghas (putSorted [] kvs) k \<longleftrightarrow> ghas kvs k"
  by (simp add: putSorted_Nil ghas_iff image_image case_prod_beta)

lemma firstErr_Inr: "firstErr rs = Inr vs \<longleftrightarrow> rs = map Inr vs"
proof (induction rs arbitrary: vs rule: firstErr.induct)
  case (3 v rs)
  then show ?case by (cases vs; cases "firstErr rs") auto
qed auto

lemma firstErr_index:
  "firstErr (map (\<lambda>(i, r). map_sum (f i) (\<lambda>v. v) r) (enumerate n rs)) = Inr vs \<longleftrightarrow> rs = map Inr vs"
  unfolding firstErr_Inr
proof (induction rs arbitrary: n vs)
  case (Cons r rs)
  then show ?case by (cases vs; cases r) auto
qed auto

lemma firstErr_key:
  "firstErr (map (\<lambda>(k, r). map_sum (f k) (Pair k) r) krs) = Inr vs \<longleftrightarrow> krs = map (\<lambda>(k, v). (k, Inr v)) vs"
  unfolding firstErr_Inr
proof (induction krs arbitrary: vs)
  case (Cons kr krs)
  obtain k r where kr: "kr = (k, r)" by (cases kr)
  show ?case using Cons.IH by (cases vs; cases r) (auto simp: kr)
qed auto

section \<open>Values\<close>

text \<open>
  The model value that the boundary reads for a Go value, as the SDK sends it: a map is written in the
  order of its keys, and a \<open>uint\<close> as a signed number.
\<close>

fun wireValue :: "goAny \<Rightarrow> Value" where
  "wireValue (GoString x) = StringValue x"
| "wireValue (GoBool x) = BoolValue x"
| "wireValue (GoInt x) = IntValue (sint x)"
| "wireValue (GoInt8 x) = IntValue (sint x)"
| "wireValue (GoInt16 x) = IntValue (sint x)"
| "wireValue (GoInt32 x) = IntValue (sint x)"
| "wireValue (GoInt64 x) = IntValue (sint x)"
| "wireValue (GoUint x) = IntValue (wrap64 (uint x))"
| "wireValue (GoUint8 x) = IntValue (uint x)"
| "wireValue (GoUint16 x) = IntValue (uint x)"
| "wireValue (GoUint32 x) = IntValue (uint x)"
| "wireValue (GoFloat32 x) = DoubleValue x"
| "wireValue (GoFloat64 x) = DoubleValue x"
| "wireValue (GoSlice xs) = ArrayValue (map wireValue xs)"
| "wireValue (GoMap m) = KvlistValue (sort_key fst (map (\<lambda>(k, v). (k, wireValue v)) m))"
| "wireValue (GoOther t) = InvalidValue"

lemma sint_wrap64: "sint (x :: 64 word) = wrap64 (uint x)"
proof -
  have "sint x = signed_take_bit 63 (uint x)" by (simp add: sint_uint)
  also have "\<dots> = wrap64 (uint x)" by (simp add: signed_take_bit_eq_take_bit_shift take_bit_eq_mod wrap64_def)
  finally show ?thesis .
qed

lemma putAnyValue_said: "putAnyValue x = Inr p \<Longrightarrow> proper (wireValue x) \<and> otlp (wireValue x) = p"
proof (induction x arbitrary: p)
  case (GoSlice xs)
  then obtain vs where p: "p = PSlice vs" and l: "map putAnyValue xs = map Inr vs"
    by (cases "firstErr (map (\<lambda>(i, r). map_sum (AtIndex i) (\<lambda>v. v) r) (enumerate 0 (map putAnyValue xs)))") (auto simp: firstErr_index)
  have "\<forall>x \<in> set xs. \<exists>v. putAnyValue x = Inr v" using l by (metis ex_map_conv in_set_conv_nth length_map nth_map)
  then have a: "\<forall>x \<in> set xs. proper (wireValue x) \<and> putAnyValue x = Inr (otlp (wireValue x))" using GoSlice.IH by blast
  then have "map putAnyValue xs = map Inr (map (otlp \<circ> wireValue) xs)" by simp
  then have "map Inr vs = map (Inr :: PValue \<Rightarrow> AnyErr + PValue) (map (otlp \<circ> wireValue) xs)" using l by simp
  then have "vs = map (otlp \<circ> wireValue) xs" by (metis Inr_inject inj_map_eq_map inj_def)
  with a p show ?case by simp
next
  case (GoMap m)
  let ?m = "sort_key fst m"
  let ?r = "firstErr (map (\<lambda>(k, r). map_sum (AtKey k) (Pair k) r) (map (\<lambda>(k, v). (k, putAnyValue v)) ?m))"
  have "map_sum (\<lambda>err. err) PMap ?r = Inr p" using GoMap.prems by (simp only: putAnyValue.simps sort_fst_map)
  then obtain vs where p: "p = PMap vs" and "?r = Inr vs" by (cases ?r) auto
  then have l: "map (\<lambda>(k, v). (k, putAnyValue v)) ?m = map (\<lambda>(k, v). (k, Inr v)) vs" by (simp only: firstErr_key)
  have "\<forall>(k, x) \<in> set ?m. \<exists>v. putAnyValue x = Inr v"
  proof (clarify)
    fix k x assume "(k, x) \<in> set ?m"
    then have "(k, putAnyValue x) \<in> set (map (\<lambda>(k, v). (k, putAnyValue v)) ?m)" by force
    then show "\<exists>v. putAnyValue x = Inr v" unfolding l by auto
  qed
  then have a: "\<forall>(k, x) \<in> set ?m. proper (wireValue x) \<and> putAnyValue x = Inr (otlp (wireValue x))" using GoMap.IH by fastforce
  then have "map (\<lambda>(k, v). (k, putAnyValue v)) ?m = map (\<lambda>(k, v). (k, Inr v)) (map (\<lambda>(k, x). (k, otlp (wireValue x))) ?m)" by auto
  then have "map (\<lambda>(k, v). (k, Inr v :: AnyErr + PValue)) vs = map (\<lambda>(k, v). (k, Inr v)) (map (\<lambda>(k, x). (k, otlp (wireValue x))) ?m)" using l by simp
  then have "vs = map (\<lambda>(k, x). (k, otlp (wireValue x))) ?m" by (rule map_injective) (auto simp: inj_def)
  with a p show ?case by (auto simp: sort_fst_map case_prod_beta o_def)
qed (auto simp: sint_wrap64)

lemma valueFrom_said: "putAnyValue x = Inr p \<Longrightarrow> valueFrom p True = Some (wireValue x)"
  using putAnyValue_said valueFrom_complete by blast

section \<open>Entities\<close>

text \<open>The fields of an entity that are Go maps have each key once.\<close>

definition goMaps :: "EmitEntity \<Rightarrow> bool" where
  "goMaps e = (gdistinct (em_ID e) \<and> gdistinct (em_Attributes e) \<and> gdistinct (em_RichAttributes e) \<and>
     (\<forall>r \<in> set (em_Relationships e). gdistinct (er_TargetID r)) \<and> int64_ok (em_Interval e))"

text \<open>What the boundary asks of an entity beyond its shape: no empty key, and with the strict vocabulary registered types.\<close>

definition sendable :: "bool \<Rightarrow> EmitEntity \<Rightarrow> bool" where
  "sendable strictVocab e = (\<not> ghas (em_ID e) [] \<and> \<not> ghas (em_Attributes e) [] \<and> \<not> ghas (em_RichAttributes e) [] \<and>
     (strictVocab \<longrightarrow> IsKnownEntityType (em_Type e) \<and> (\<forall>r \<in> set (em_Relationships e). RelationDef (er_Type r) \<noteq> None)))"

definition saidStrings :: "(string, string) gomap \<Rightarrow> KeyValue list" where
  "saidStrings kvs = map (\<lambda>(k, v). (k, StringValue v)) (sort_key fst kvs)"

definition saidInterval :: "EmitEntity \<Rightarrow> duration" where
  "saidInterval e = (if em_Interval e > 0 then em_Interval e div second * second else 0)"

definition wireEntity :: "time \<Rightarrow> EmitEntity \<Rightarrow> EntityObservation" where
  "wireEntity when e = \<lparr>eo_Type = em_Type e, eo_Identity = saidStrings (em_ID e),
     eo_Attributes = saidStrings (em_Attributes e) @ map (\<lambda>(k, x). (k, wireValue x)) (sort_key fst (em_RichAttributes e)),
     eo_SchemaURL = [], eo_EventTime = when, eo_Interval = saidInterval e, eo_Producer = [], eo_DeleteReason = []\<rparr>"

definition wireBeliefs :: "EmitRelationship \<Rightarrow> KeyValue list" where
  "wireBeliefs r = (if er_Type r = RelSameAs
     then (if f_lt f_zero (er_Confidence r) then [(relDescConfidence, DoubleValue (er_Confidence r))] else []) @
          (if er_Basis r \<noteq> [] then [(relDescBasis, StringValue (er_Basis r))] else [])
     else [])"

definition wireRelation :: "EndpointRef \<Rightarrow> string \<Rightarrow> time \<Rightarrow> EmitEntity \<Rightarrow> EmitRelationship \<Rightarrow> RelationObservation" where
  "wireRelation source producer when e r = \<lparr>ro_Type = er_Type r, ro_From = source,
     ro_To = \<lparr>ep_Type = er_TargetType r, ep_Identity = saidStrings (er_TargetID r)\<rparr>, ro_Attributes = wireBeliefs r,
     ro_EventTime = when, ro_Producer = producer, ro_Interval = 0, ro_SourceInterval = saidInterval e\<rparr>"

text \<open>A same_as without a confidence is the one thing the boundary reports as inert.\<close>

definition saidInert :: "EmitRelationship list \<Rightarrow> beliefNote list" where
  "saidInert rs = map (\<lambda>r. \<lparr>bn_relType = RelSameAs, bn_reason = ''no_confidence''\<rparr>)
     (filter (\<lambda>r. er_Type r = RelSameAs \<and> \<not> f_lt f_zero (er_Confidence r)) rs)"

lemma kvsFromMap_strings: "kvsFromMap (map (\<lambda>(k, v). (k, PStr v)) kvs) prefix a = (map (\<lambda>(k, v). (k, StringValue v)) kvs, [])"
  by (induction kvs) auto

lemma kvsFromMap_append:
  "kvsFromMap m prefix a = (kvs, []) \<Longrightarrow> kvsFromMap m' prefix a = (kvs', []) \<Longrightarrow> kvsFromMap (m @ m') prefix a = (kvs @ kvs', [])"
  by (auto simp: kvsFromMap_all intro: list_all2_appendI)

lemma putRichKeys_said:
  "putRichKeys dst rich = Inr m \<Longrightarrow> gdistinct rich \<Longrightarrow> \<forall>k \<in> fst ` set rich. \<not> ghas dst k \<Longrightarrow>
     \<exists>m'. m = dst @ m' \<and> kvsFromMap m' prefix True = (map (\<lambda>(k, x). (k, wireValue x)) rich, [])"
proof (induction rich arbitrary: dst)
  case (Cons kx rich)
  obtain k x where kx: "kx = (k, x)" by (cases kx)
  obtain v where v: "putAnyValue x = Inr v" and p: "putRichKeys (gput k v dst) rich = Inr m"
    using Cons.prems(1) by (auto simp: kx split: sum.splits)
  have "k \<notin> fst ` set rich" using Cons.prems(2) by (simp add: kx ghas_iff)
  then have "\<forall>k' \<in> fst ` set rich. \<not> ghas (gput k v dst) k'" using Cons.prems(3) by (auto simp: kx)
  from Cons.IH [OF p _ this] Cons.prems(2) obtain m' where m': "m = gput k v dst @ m'"
    "kvsFromMap m' prefix True = (map (\<lambda>(k, x). (k, wireValue x)) rich, [])" by (auto simp: kx)
  then show ?case using Cons.prems(3) valueFrom_said [OF v] by (intro exI [of _ "(k, v) # m'"]) (simp add: kx gput_fresh)
qed simp

lemma putRich_said:
  assumes "putRich (putSorted [] scalar) scalar rich = Inr m" and d: "gdistinct scalar" "gdistinct rich"
  shows "kvsFromMap m prefix True = (saidStrings scalar @ map (\<lambda>(k, x). (k, wireValue x)) (sort_key fst rich), []) \<and>
    (\<forall>k \<in> fst ` set rich. \<not> ghas scalar k)"
proof (cases "rich = []")
  case True
  with assms show ?thesis by (auto simp: putRich_def putSorted_Nil saidStrings_def kvsFromMap_strings)
next
  case False
  with assms(1) have f: "find (\<lambda>(k, x). ghas scalar k) rich = None" and p: "putRichKeys (putSorted [] scalar) (sort_key fst rich) = Inr m"
    by (auto simp: putRich_def split: option.splits)
  have n: "\<forall>k \<in> fst ` set rich. \<not> ghas scalar k" using f by (auto simp: find_None_iff)
  then have "\<forall>k \<in> fst ` set (sort_key fst rich). \<not> ghas (putSorted [] scalar) k"
    using d by (simp add: ghas_putSorted)
  from putRichKeys_said [OF p _ this, of prefix] d obtain m' where "m = putSorted [] scalar @ m'"
    "kvsFromMap m' prefix True = (map (\<lambda>(k, x). (k, wireValue x)) (sort_key fst rich), [])" by auto
  with d n show ?thesis using kvsFromMap_append [OF kvsFromMap_strings] by (auto simp: putSorted_Nil saidStrings_def)
qed

section \<open>Records\<close>

lemma validate_strings:
  "gdistinct kvs \<Longrightarrow> \<not> ghas kvs [] \<Longrightarrow> validateKeyValues (saidStrings kvs) = None"
  unfolding validateKeyValues_None saidStrings_def
  by (auto simp: case_prod_beta o_def IsValid_def ghas_iff gdistinct_def distinct_map image_iff)

lemma proper_valid: "proper v \<Longrightarrow> IsValid v"
  by (cases v) (auto simp: IsValid_def)

lemma validate_description:
  assumes "gdistinct scalar" "gdistinct rich" "\<not> ghas scalar []" "\<not> ghas rich []" "\<forall>k \<in> fst ` set rich. \<not> ghas scalar k"
    and "\<forall>(k, x) \<in> set rich. proper (wireValue x)"
  shows "validateKeyValues (saidStrings scalar @ map (\<lambda>(k, x). (k, wireValue x)) (sort_key fst rich)) = None"
proof -
  have P: "\<forall>(k, x) \<in> set rich. IsValid (wireValue x)" using assms(6) proper_valid by blast
  have "gdistinct (sort_key fst scalar)" "gdistinct (sort_key fst rich)" using assms by simp_all
  moreover have "False" if "(k, x) \<in> set rich" "(k, v) \<in> set scalar" for k x v using assms(5) that by (force simp: ghas_iff)
  ultimately have "distinct (map fst (saidStrings scalar @ map (\<lambda>(k, x). (k, wireValue x)) (sort_key fst rich)))"
    by (auto simp: saidStrings_def case_prod_beta o_def gdistinct_def image_image)
  moreover have "k \<noteq> [] \<and> IsValid v" if "(k, v) \<in> set (saidStrings scalar @ map (\<lambda>(k, x). (k, wireValue x)) (sort_key fst rich))" for k v
    using that assms(3,4) P by (auto simp: saidStrings_def IsValid_def ghas_iff image_iff)
  ultimately show ?thesis unfolding validateKeyValues_None by blast
qed

text \<open>The attributes of a built record, by key.\<close>

lemma wire_keys_distinct:
  "distinct [attrEntityType, attrEntityID, attrEntityDesc, attrEntityInterval, attrEntityDeleteReason, attrEntityRelationships]"
  "distinct [relDescType, relDescEntityType, relDescEntityID, relDescConfidence, relDescBasis]"
  by (simp_all add: wire_names)

lemma buildRecord_attrs:
  assumes b: "buildRecord eventName when (i, e) = Inr lr"
  shows "lr_EventName lr = eventName" "lr_Timestamp lr = when" "em_Type e \<noteq> []" "em_ID e \<noteq> []"
    and "em_Interval e > 0 \<Longrightarrow> em_Interval e \<ge> second"
    and "map_of (lr_Attributes lr) attrEntityType = Some (PStr (em_Type e))"
    and "map_of (lr_Attributes lr) attrEntityID = Some (PMap (putSorted [] (em_ID e)))"
    and "map_of (lr_Attributes lr) attrEntityInterval = (if em_Interval e > 0 then Some (PInt (em_Interval e div second)) else None)"
    and "map_of (lr_Attributes lr) attrEntityDeleteReason =
           (if eventName = evEntityDelete \<and> em_DeleteReason e \<noteq> [] then Some (PStr (em_DeleteReason e)) else None)"
    and "em_Attributes e = [] \<Longrightarrow> em_RichAttributes e = [] \<Longrightarrow> map_of (lr_Attributes lr) attrEntityDesc = None"
    and "em_Attributes e \<noteq> [] \<or> em_RichAttributes e \<noteq> [] \<Longrightarrow>
           \<exists>desc. putRich (putSorted [] (em_Attributes e)) (em_Attributes e) (em_RichAttributes e) = Inr desc \<and>
             map_of (lr_Attributes lr) attrEntityDesc = Some (PMap desc)"
    and "eventName = evEntityState \<and> em_Relationships e \<noteq> [] \<Longrightarrow>
           \<exists>slc. map (buildRelationship i (em_Type e)) (enumerate 0 (em_Relationships e)) = map Inr slc \<and>
             map_of (lr_Attributes lr) attrEntityRelationships = Some (PSlice slc)"
    and "eventName \<noteq> evEntityState \<or> em_Relationships e = [] \<Longrightarrow> map_of (lr_Attributes lr) attrEntityRelationships = None"
proof -
  have D: "distinct [attrEntityType, attrEntityID, attrEntityDesc, attrEntityInterval, attrEntityDeleteReason, attrEntityRelationships]"
    "distinct (rev [attrEntityType, attrEntityID, attrEntityDesc, attrEntityInterval, attrEntityDeleteReason, attrEntityRelationships])"
    using wire_keys_distinct(1) by (simp_all only: distinct_rev)
  let ?a0 = "gput attrEntityID (PMap (putSorted [] (em_ID e))) (gput attrEntityType (PStr (em_Type e)) [])"
  show t: "em_Type e \<noteq> []" and n: "em_ID e \<noteq> []" and iv: "em_Interval e > 0 \<Longrightarrow> em_Interval e \<ge> second"
    using b by (auto simp: buildRecord_def split: if_splits)
  obtain a where a: "buildDescription i e ?a0 = Inr a"
    using b by (auto simp: buildRecord_def Let_def split: if_splits sum.splits)
  let ?a1 = "if em_Interval e > 0 then gput attrEntityInterval (PInt (em_Interval e div second)) a else a"
  let ?a2 = "if eventName = evEntityDelete \<and> em_DeleteReason e \<noteq> [] then gput attrEntityDeleteReason (PStr (em_DeleteReason e)) ?a1 else ?a1"
  let ?slc = "firstErr (map (buildRelationship i (em_Type e)) (enumerate 0 (em_Relationships e)))"
  let ?st = "eventName = evEntityState \<and> em_Relationships e \<noteq> []"
  have r: "(if ?st then \<exists>slc. ?slc = Inr slc \<and> lr_Attributes lr = gput attrEntityRelationships (PSlice slc) ?a2 else lr_Attributes lr = ?a2) \<and>
      lr_EventName lr = eventName \<and> lr_Timestamp lr = when"
    using b a t n iv unfolding buildRecord_def Let_def
    by (cases ?slc) (auto split: if_splits)
  then show "lr_EventName lr = eventName" "lr_Timestamp lr = when" by simp_all
  have m: "map_of (lr_Attributes lr) k = map_of ?a2 k" if "k \<noteq> attrEntityRelationships" for k
    using r that by (auto split: if_splits)
  have a2: "map_of ?a2 attrEntityRelationships = None" if "map_of a attrEntityRelationships = None" using D that by auto
  have a1: "map_of a k = map_of ?a0 k" if "k \<noteq> attrEntityDesc" for k
    using a that by (auto simp: buildDescription_def split: if_splits sum.splits)
  have m2: "map_of (lr_Attributes lr) k = map_of a k" if "k \<notin> {attrEntityInterval, attrEntityDeleteReason, attrEntityRelationships}" for k
    using m that by auto
  show "map_of (lr_Attributes lr) attrEntityType = Some (PStr (em_Type e))"
    "map_of (lr_Attributes lr) attrEntityID = Some (PMap (putSorted [] (em_ID e)))"
    using D m2 a1 by simp_all
  show "map_of (lr_Attributes lr) attrEntityInterval = (if em_Interval e > 0 then Some (PInt (em_Interval e div second)) else None)"
    "map_of (lr_Attributes lr) attrEntityDeleteReason =
       (if eventName = evEntityDelete \<and> em_DeleteReason e \<noteq> [] then Some (PStr (em_DeleteReason e)) else None)"
    using D m a1 by simp_all
  show "em_Attributes e = [] \<Longrightarrow> em_RichAttributes e = [] \<Longrightarrow> map_of (lr_Attributes lr) attrEntityDesc = None"
    using D a m2 by (auto simp: buildDescription_def)
  show "em_Attributes e \<noteq> [] \<or> em_RichAttributes e \<noteq> [] \<Longrightarrow>
       \<exists>desc. putRich (putSorted [] (em_Attributes e)) (em_Attributes e) (em_RichAttributes e) = Inr desc \<and>
         map_of (lr_Attributes lr) attrEntityDesc = Some (PMap desc)"
    using D a m2 by (auto simp: buildDescription_def split: sum.splits)
  have a0: "map_of a attrEntityRelationships = None" using D a1 by simp
  show "?st \<Longrightarrow> \<exists>slc. map (buildRelationship i (em_Type e)) (enumerate 0 (em_Relationships e)) = map Inr slc \<and>
      map_of (lr_Attributes lr) attrEntityRelationships = Some (PSlice slc)"
    using r by (auto simp: firstErr_Inr)
  show "eventName \<noteq> evEntityState \<or> em_Relationships e = [] \<Longrightarrow> map_of (lr_Attributes lr) attrEntityRelationships = None"
    using r a2 a0 by auto
qed

lemma kvsFromMap_proper: "kvsFromMap m prefix True = (kvs, []) \<Longrightarrow> (k, v) \<in> set kvs \<Longrightarrow> proper v"
  using valueFrom_sound unfolding kvsFromMap_all by (fastforce simp: list_all2_conv_all_nth in_set_conv_nth)

lemma saidInterval_wrap:
  assumes "int64_ok (em_Interval e)" "em_Interval e > 0" "em_Interval e \<ge> second"
  shows "em_Interval e div second > 0 \<and> wrap64 (em_Interval e div second * 1000000000) = saidInterval e"
proof -
  have p: "em_Interval e div second > 0" using assms by (simp add: second_def pos_imp_zdiv_pos_iff)
  have le: "em_Interval e div second * second \<le> em_Interval e" by (simp add: second_def)
  with assms p have "int64_ok (em_Interval e div second * second)" by (auto simp: int64_ok_def second_def)
  with p assms show ?thesis by (simp add: saidInterval_def second_def)
qed

lemma buildRecord_entity:
  assumes b: "buildRecord eventName when (i, e) = Inr lr" and g: "goMaps e" and ad: "sendable strictVocab e"
  shows "entityObs (lr_Attributes lr) t strictVocab = (Inr (wireEntity t e), [])"
    and "reportEntityInterval (lr_Attributes lr) = saidInterval e"
    and "strAttr (lr_Attributes lr) attrEntityType = Some (em_Type e)"
    and "mapAttr (lr_Attributes lr) attrEntityID False = Some (saidStrings (em_ID e), [])" and "saidStrings (em_ID e) \<noteq> []"
proof -
  note B = buildRecord_attrs [OF b]
  let ?rich = "map (\<lambda>(k, x). (k, wireValue x)) (sort_key fst (em_RichAttributes e))"
  show ty: "strAttr (lr_Attributes lr) attrEntityType = Some (em_Type e)" using B(6) by (simp add: strAttr_def)
  show ids: "mapAttr (lr_Attributes lr) attrEntityID False = Some (saidStrings (em_ID e), [])"
    using B(7) g by (simp add: mapAttr_def goMaps_def putSorted_Nil kvsFromMap_strings saidStrings_def)
  show ne: "saidStrings (em_ID e) \<noteq> []"
    using B(4) by (metis saidStrings_def map_is_Nil_conv set_empty set_sort)
  have desc: "(case mapAttr (lr_Attributes lr) attrEntityDesc True of None \<Rightarrow> ([], []) | Some r \<Rightarrow> r) = (saidStrings (em_Attributes e) @ ?rich, []) \<and>
      validateKeyValues (saidStrings (em_Attributes e) @ ?rich) = None"
  proof (cases "em_Attributes e = [] \<and> em_RichAttributes e = []")
    case True
    with B(10) show ?thesis by (simp add: mapAttr_def saidStrings_def validateKeyValues_def)
  next
    case False
    then obtain m where m: "putRich (putSorted [] (em_Attributes e)) (em_Attributes e) (em_RichAttributes e) = Inr m"
      "map_of (lr_Attributes lr) attrEntityDesc = Some (PMap m)" using B(11) by blast
    have k: "kvsFromMap m attrEntityDesc True = (saidStrings (em_Attributes e) @ ?rich, [])" "\<forall>k \<in> fst ` set (em_RichAttributes e). \<not> ghas (em_Attributes e) k"
      using putRich_said [OF m(1)] g by (simp_all add: goMaps_def)
    have "\<forall>(k, x) \<in> set (em_RichAttributes e). proper (wireValue x)" using kvsFromMap_proper [OF k(1)] by force
    with k g ad have "validateKeyValues (saidStrings (em_Attributes e) @ ?rich) = None"
      by (intro validate_description) (auto simp: goMaps_def sendable_def)
    with k(1) m(2) show ?thesis by (simp add: mapAttr_def)
  qed
  have valid: "validateEntity strictVocab \<lparr>ent_ID = [], ent_Type = em_Type e, ent_Identity = saidStrings (em_ID e),
      ent_Attributes = saidStrings (em_Attributes e) @ ?rich, ent_SchemaURL = []\<rparr> = None"
    using desc ne B(3) g ad by (simp add: validateEntity_def validate_strings goMaps_def sendable_def)
  have iv: "(case map_of (lr_Attributes lr) attrEntityInterval of None \<Rightarrow> (0, d) | Some (PInt secs) \<Rightarrow> (if secs > 0 then wrap64 (secs * 1000000000) else 0, d)
      | Some _ \<Rightarrow> (0, d @ [attrEntityInterval])) = (saidInterval e, d)" for d
  proof (cases "em_Interval e > 0")
    case True
    with saidInterval_wrap [of e] B(5,8) g show ?thesis by (simp add: goMaps_def)
  qed (use B(8) in \<open>simp add: saidInterval_def\<close>)
  then show "reportEntityInterval (lr_Attributes lr) = saidInterval e"
    using B(8) saidInterval_wrap [of e] B(5) g by (auto simp: reportEntityInterval_def goMaps_def saidInterval_def)
  show "entityObs (lr_Attributes lr) t strictVocab = (Inr (wireEntity t e), [])"
    using ty ids ne desc valid iv by (simp add: entityObs_def wireEntity_def Let_def)
qed

section \<open>Relationships\<close>

lemma confidence_unit:
  assumes "f_lt f_zero c" "\<not> f_lt f_one c"
  shows "f_le f_zero c \<and> f_le c f_one"
proof (cases c)
  case (Inf b)
  with assms show ?thesis by (cases b) (simp_all add: f_zero_def f_one_def)
qed (use assms in \<open>auto simp: f_zero_def f_one_def\<close>)

lemma buildRelationship_attrs:
  assumes "buildRelationship i ty (j, r) = Inr v"
  obtains m where "v = PMap m" "strFromMap m relDescType = Some (er_Type r)" "strFromMap m relDescEntityType = Some (er_TargetType r)"
    "map_of m relDescEntityID = Some (PMap (putSorted [] (er_TargetID r)))" "er_Type r \<noteq> []" "er_TargetID r \<noteq> []"
    "er_Type r = RelSameAs \<longrightarrow> beliefAttributes m RelSameAs = (wireBeliefs r, if f_lt f_zero (er_Confidence r) then [] else ''no_confidence'')"
    "er_Type r = RelResolvesTo \<longrightarrow> beliefAttributes m RelResolvesTo = ([], [])"
proof -
  note D = wire_keys_distinct(2)
  have D': "distinct (rev [relDescType, relDescEntityType, relDescEntityID, relDescConfidence, relDescBasis])" using D by (simp only: distinct_rev)
  have ne: "er_Type r \<noteq> []" "er_TargetType r \<noteq> []" "er_TargetID r \<noteq> []" "\<not> f_lt (er_Confidence r) f_zero"
    and c: "\<not> f_lt f_one (er_Confidence r)"
    using assms by (auto simp: buildRelationship_def split: if_splits)
  let ?ma = "gput relDescEntityID (PMap (putSorted [] (er_TargetID r))) (gput relDescEntityType (PStr (er_TargetType r)) (gput relDescType (PStr (er_Type r)) []))"
  let ?mb = "if f_lt f_zero (er_Confidence r) then gput relDescConfidence (PDouble (er_Confidence r)) ?ma else ?ma"
  let ?mc = "if er_Basis r \<noteq> [] then gput relDescBasis (PStr (er_Basis r)) ?mb else ?mb"
  let ?m = "if er_Type r = RelSameAs then ?mc else ?ma"
  have "buildRelationship i ty (j, r) = Inr (PMap ?m)"
    using ne c unfolding buildRelationship_def Let_def prod.case by (simp only: if_False de_Morgan_disj simp_thms)
  with assms have v: "v = PMap ?m" by (simp only: sum.inject)
  have k: "map_of ?m relDescType = Some (PStr (er_Type r))" "map_of ?m relDescEntityType = Some (PStr (er_TargetType r))"
    "map_of ?m relDescEntityID = Some (PMap (putSorted [] (er_TargetID r)))"
    using D D' by simp_all
  have ns: "RelSameAs \<noteq> RelResolvesTo" by (simp add: rel_defs)
  then have B: "beliefAttributes ?mc RelSameAs = (wireBeliefs r, if f_lt f_zero (er_Confidence r) then [] else ''no_confidence'')" if "er_Type r = RelSameAs"
    using D D' that confidence_unit [OF _ c]
    by (cases "f_lt f_zero (er_Confidence r)"; cases "er_Basis r = []") (simp_all add: beliefAttributes_def wireBeliefs_def Let_def)
  have S: "er_Type r = RelSameAs \<longrightarrow> beliefAttributes ?m RelSameAs = (wireBeliefs r, if f_lt f_zero (er_Confidence r) then [] else ''no_confidence'')"
  proof
    assume sa: "er_Type r = RelSameAs"
    show "beliefAttributes ?m RelSameAs = (wireBeliefs r, if f_lt f_zero (er_Confidence r) then [] else ''no_confidence'')"
      unfolding if_P [OF sa] by (rule B [OF sa])
  qed
  have Q: "beliefAttributes ?ma RelResolvesTo = ([], [])" using D D' by (simp add: beliefAttributes_def ghas_def)
  have R: "er_Type r = RelResolvesTo \<longrightarrow> beliefAttributes ?m RelResolvesTo = ([], [])"
  proof
    assume "er_Type r = RelResolvesTo"
    with ns have n: "er_Type r \<noteq> RelSameAs" by simp
    show "beliefAttributes ?m RelResolvesTo = ([], [])" unfolding if_not_P [OF n] by (rule Q)
  qed
  have T: "strFromMap ?m relDescType = Some (er_Type r)" "strFromMap ?m relDescEntityType = Some (er_TargetType r)"
    unfolding strFromMap_def k by simp_all
  show thesis by (rule that [OF v T k(3) ne(1,3) S R])
qed

lemma embeddedRelation_built:
  assumes "buildRelationship i ty (j, r) = Inr v" and d: "gdistinct (er_TargetID r)" and k: "strictVocab \<Longrightarrow> RelationDef (er_Type r) \<noteq> None"
  shows "embeddedRelation source producer t strictVocab (saidInterval e) p (j, v) =
    p\<lparr>pa_rels := pa_rels p @ [wireRelation source producer t e r], pa_beliefs := pa_beliefs p @ saidInert [r]\<rparr>"
proof -
  from buildRelationship_attrs [OF assms(1)] obtain m where m: "v = PMap m" "strFromMap m relDescType = Some (er_Type r)"
    "strFromMap m relDescEntityType = Some (er_TargetType r)" "map_of m relDescEntityID = Some (PMap (putSorted [] (er_TargetID r)))"
    "er_Type r \<noteq> []" "er_TargetID r \<noteq> []"
    and b: "er_Type r = RelSameAs \<longrightarrow> beliefAttributes m RelSameAs = (wireBeliefs r, if f_lt f_zero (er_Confidence r) then [] else ''no_confidence'')"
      "er_Type r = RelResolvesTo \<longrightarrow> beliefAttributes m RelResolvesTo = ([], [])" .
  have i: "kvsFromMap (putSorted [] (er_TargetID r)) prefix False = (saidStrings (er_TargetID r), [])" for prefix
    using d by (simp add: putSorted_Nil kvsFromMap_strings saidStrings_def)
  have ne: "saidStrings (er_TargetID r) \<noteq> []" using m(6) by (metis saidStrings_def map_is_Nil_conv set_empty set_sort)
  have "RelSameAs \<noteq> RelResolvesTo" by (simp add: rel_defs)
  with m b i ne k show ?thesis
    by (cases "er_Type r = RelSameAs"; cases "er_Type r = RelResolvesTo")
      (auto simp: embeddedRelation_def wireRelation_def saidInert_def wireBeliefs_def Let_def)
qed

lemma saidInert_Cons: "saidInert (r # rs) = saidInert [r] @ saidInert rs"
  by (simp add: saidInert_def)

lemma foldl_embedded_built:
  assumes "map (buildRelationship i ty) (enumerate n rs) = map Inr slc"
    and "\<forall>r \<in> set rs. gdistinct (er_TargetID r)" and "strictVocab \<Longrightarrow> \<forall>r \<in> set rs. RelationDef (er_Type r) \<noteq> None"
  shows "foldl (embeddedRelation source producer t strictVocab (saidInterval e)) p (enumerate n slc) =
    p\<lparr>pa_rels := pa_rels p @ map (wireRelation source producer t e) rs, pa_beliefs := pa_beliefs p @ saidInert rs\<rparr>"
  using assms
proof (induction rs arbitrary: n slc p)
  case (Cons r rs)
  then obtain v slc' where s: "slc = v # slc'" "buildRelationship i ty (n, r) = Inr v" "map (buildRelationship i ty) (enumerate (Suc n) rs) = map Inr slc'"
    by (cases slc) auto
  have "embeddedRelation source producer t strictVocab (saidInterval e) p (n, v) =
    p\<lparr>pa_rels := pa_rels p @ [wireRelation source producer t e r], pa_beliefs := pa_beliefs p @ saidInert [r]\<rparr>"
    using Cons.prems(2,3) by (intro embeddedRelation_built [OF s(2)]) auto
  with Cons.IH [OF s(3)] Cons.prems(2,3) show ?case by (simp add: s(1) saidInert_Cons [of r rs])
qed (simp add: saidInert_def)

lemma buildRecord_relations:
  assumes b: "buildRecord evEntityState when (i, e) = Inr lr" and g: "goMaps e" and ad: "sendable strictVocab e"
  shows "embeddedRelations (lr_Attributes lr) source producer t strictVocab =
    \<lparr>pa_rels = map (wireRelation source producer t e) (em_Relationships e), pa_dropped = [],
     pa_beliefs = saidInert (em_Relationships e), pa_err = None\<rparr>"
proof (cases "em_Relationships e = []")
  case True
  then show ?thesis using buildRecord_attrs(13) [OF b] by (simp add: embeddedRelations_def saidInert_def)
next
  case False
  then obtain slc where s: "map (buildRelationship i (em_Type e)) (enumerate 0 (em_Relationships e)) = map Inr slc"
    "map_of (lr_Attributes lr) attrEntityRelationships = Some (PSlice slc)" using buildRecord_attrs(12) [OF b] by blast
  from foldl_embedded_built [OF s(1)] g ad show ?thesis
    by (simp add: embeddedRelations_def s(2) buildRecord_entity(2) [OF b g ad] goMaps_def sendable_def)
qed

end
