(* ===== verification/Emit_Theorems.thy ===== *)
theory Emit_Theorems
  imports Emit_Laws
begin

text \<open>
  The producer SDK against the ingest boundary: a payload that \<open>Build\<close> makes is read back as what the
  producer said, and a server never rejects a record of it nor drops a part of one.
\<close>

section \<open>A payload is read back\<close>

lemma Build_records:
  assumes "Build opts eventName entities = Inr rls"
  obtains recs where "rls = [\<lparr>rl_Attributes = buildResource opts, rl_ScopeLogs = [(emitScope, recs)]\<rparr>]"
    "eventName = evEntityState \<or> eventName = evEntityDelete"
    "list_all2 (\<lambda>e lr. \<exists>i. buildRecord eventName (word_of_int (op_now opts - unixEpoch)) (i, e) = Inr lr) entities recs"
proof -
  let ?b = "buildRecord eventName (word_of_int (op_now opts - unixEpoch))"
  have ev: "eventName = evEntityState \<or> eventName = evEntityDelete" using assms by (auto simp: Build_def split: if_splits)
  obtain recs where r: "firstErr (map ?b (enumerate 0 entities)) = Inr recs" "rls = [\<lparr>rl_Attributes = buildResource opts, rl_ScopeLogs = [(emitScope, recs)]\<rparr>]"
    using assms by (auto simp: Build_def Let_def split: if_splits sum.splits)
  have "map ?b (enumerate n es) = map Inr rs \<Longrightarrow> list_all2 (\<lambda>e lr. \<exists>i. ?b (i, e) = Inr lr) es rs" for n es rs
  proof (induction es arbitrary: n rs)
    case (Cons e es)
    then show ?case by (cases rs) auto
  qed simp
  with r ev show thesis using that by (auto simp: firstErr_Inr)
qed

lemma map_of_putSorted:
  assumes "gdistinct kvs"
  shows "map_of (putSorted m kvs) k = (case map_of kvs k of Some v \<Rightarrow> Some (PStr v) | None \<Rightarrow> map_of m k)"
proof -
  have "map_of (foldl (\<lambda>m (k, v). gput k (PStr v) m) m xs) k = (case map_of (rev xs) k of Some v \<Rightarrow> Some (PStr v) | None \<Rightarrow> map_of m k)" for xs m
    by (induction xs arbitrary: m) (auto simp: map_add_def split: option.splits)
  moreover have "map_of (rev (sort_key fst kvs)) k = map_of kvs k"
    using assms by (intro map_of_inject_set [THEN iffD2, THEN fun_cong]) (simp_all add: gdistinct_def distinct_map rev_map [symmetric])
  ultimately show ?thesis by (simp add: putSorted_def)
qed

lemma buildResource_producer:
  "gdistinct (op_Resource opts) \<Longrightarrow> strAttr (buildResource opts) resAttrProducer =
     (case map_of (op_Resource opts) resAttrProducer of Some p \<Rightarrow> Some p
      | None \<Rightarrow> if op_ServiceInstanceID opts = [] then None else Some (op_ServiceInstanceID opts))"
  by (auto simp: strAttr_def buildResource_def map_of_putSorted wire_names resServiceName_def Let_def split: option.splits)

text \<open>
  What a producer says: a Go value is the model value of the same kind with the same number, whatever its
  width and its sign; and a relationship of any type has the beliefs it is given.
\<close>

fun saidValue :: "goAny \<Rightarrow> Value" where
  "saidValue (GoString x) = StringValue x"
| "saidValue (GoBool x) = BoolValue x"
| "saidValue (GoInt x) = IntValue (sint x)"
| "saidValue (GoInt8 x) = IntValue (sint x)"
| "saidValue (GoInt16 x) = IntValue (sint x)"
| "saidValue (GoInt32 x) = IntValue (sint x)"
| "saidValue (GoInt64 x) = IntValue (sint x)"
| "saidValue (GoUint x) = IntValue (uint x)"
| "saidValue (GoUint8 x) = IntValue (uint x)"
| "saidValue (GoUint16 x) = IntValue (uint x)"
| "saidValue (GoUint32 x) = IntValue (uint x)"
| "saidValue (GoFloat32 x) = DoubleValue x"
| "saidValue (GoFloat64 x) = DoubleValue x"
| "saidValue (GoSlice xs) = ArrayValue (map saidValue xs)"
| "saidValue (GoMap m) = KvlistValue (sort_key fst (map (\<lambda>(k, v). (k, saidValue v)) m))"
| "saidValue (GoOther t) = InvalidValue"

definition saidEntity :: "time \<Rightarrow> EmitEntity \<Rightarrow> EntityObservation" where
  "saidEntity when e = \<lparr>eo_Type = em_Type e, eo_Identity = saidStrings (em_ID e),
     eo_Attributes = saidStrings (em_Attributes e) @ map (\<lambda>(k, x). (k, saidValue x)) (sort_key fst (em_RichAttributes e)),
     eo_SchemaURL = [], eo_EventTime = when, eo_Interval = saidInterval e, eo_Producer = [], eo_DeleteReason = []\<rparr>"

definition saidBeliefs :: "EmitRelationship \<Rightarrow> KeyValue list" where
  "saidBeliefs r =
     (if f_lt f_zero (er_Confidence r) then [(relDescConfidence, DoubleValue (er_Confidence r))] else []) @
     (if er_Basis r \<noteq> [] then [(relDescBasis, StringValue (er_Basis r))] else [])"

definition saidRelation :: "EndpointRef \<Rightarrow> string \<Rightarrow> time \<Rightarrow> EmitEntity \<Rightarrow> EmitRelationship \<Rightarrow> RelationObservation" where
  "saidRelation source producer when e r = \<lparr>ro_Type = er_Type r, ro_From = source,
     ro_To = \<lparr>ep_Type = er_TargetType r, ep_Identity = saidStrings (er_TargetID r)\<rparr>, ro_Attributes = saidBeliefs r,
     ro_EventTime = when, ro_Producer = producer, ro_Interval = 0, ro_SourceInterval = saidInterval e\<rparr>"

text \<open>What the wire holds: no \<open>uint\<close> above the largest signed number, and beliefs of a same_as only.\<close>

fun fitsInt64 :: "goAny \<Rightarrow> bool" where
  "fitsInt64 (GoUint x) = (uint x < 2 ^ 63)"
| "fitsInt64 (GoSlice xs) = list_all fitsInt64 xs"
| "fitsInt64 (GoMap m) = list_all (\<lambda>(k, v). fitsInt64 v) m"
| "fitsInt64 _ = True"

definition lossless :: "EmitEntity \<Rightarrow> bool" where
  "lossless e =
     (list_all (\<lambda>(k, x). fitsInt64 x) (em_RichAttributes e) \<and>
      list_all (\<lambda>r. er_Type r = RelSameAs \<or> \<not> f_lt f_zero (er_Confidence r) \<and> er_Basis r = []) (em_Relationships e))"

lemma said_value: "fitsInt64 x \<Longrightarrow> wireValue x = saidValue x"
proof (induction x rule: saidValue.induct)
  case (8 x)
  have "- (2 ^ 63) \<le> (0 :: int)" by simp
  also have "0 \<le> uint x" by simp
  finally have "int64_ok (uint x)" using 8 by (simp only: int64_ok_def fitsInt64.simps)
  then show ?case by (simp add: wrap64_id)
next
  case (14 xs)
  then show ?case by (simp add: list_all_iff)
next
  case (15 m)
  then have "map (\<lambda>(k, v). (k, wireValue v)) m = map (\<lambda>(k, v). (k, saidValue v)) m" by (auto simp: list_all_iff)
  then show ?case by (simp only: saidValue.simps wireValue.simps)
qed simp_all

lemma said_entity:
  assumes "lossless e"
  shows "wireEntity t e = saidEntity t e" and "map (wireRelation source producer t e) (em_Relationships e) = map (saidRelation source producer t e) (em_Relationships e)"
proof -
  have "map (\<lambda>(k, x). (k, wireValue x)) (sort_key fst (em_RichAttributes e)) = map (\<lambda>(k, x). (k, saidValue x)) (sort_key fst (em_RichAttributes e))"
    using assms said_value by (auto simp: lossless_def list_all_iff)
  then show "wireEntity t e = saidEntity t e" by (simp only: wireEntity_def saidEntity_def)
  show "map (wireRelation source producer t e) (em_Relationships e) = map (saidRelation source producer t e) (em_Relationships e)"
    using assms by (auto simp: lossless_def list_all_iff wireRelation_def saidRelation_def wireBeliefs_def saidBeliefs_def)
qed

text \<open>
  C23. What a producer says through the SDK is what the boundary reads.  Take a payload that \<open>Build\<close> accepts
  of entities that have no empty key, whose types are registered when the boundary asks for it,
  that hold no \<open>uint\<close> above the largest signed 64-bit number and state a confidence or a basis only of
  a same_as, built at a time that 64 bits of nanoseconds hold and that is not the epoch.  It is one
  resource with one record for each entity, in order, under the producer's instance id; each
  record has the event name and the time of the call; the boundary converts it, dropping nothing,
  to the observation of that entity: its type, its identity as strings in the order of the keys,
  its descriptive attributes each with its own type and value, and its interval cut to whole
  seconds; the relations read from a state record are exactly the entity's relationships, with
  their beliefs; and a delete record carries the reason.
\<close>

theorem built_payload_is_read_back:
  assumes b: "Build opts eventName entities = Inr rls"
    and e: "\<forall>e \<in> set entities. goMaps e \<and> sendable strictVocab e \<and> lossless e"
    and o: "gdistinct (op_Resource opts)" "int64_ok (op_now opts - unixEpoch)" "op_now opts \<noteq> unixEpoch"
  shows "\<exists>res recs. rls = [\<lparr>rl_Attributes = res, rl_ScopeLogs = [(''toise-emit'', recs)]\<rparr>] \<and>
    strAttr res resAttrProducer = (case map_of (op_Resource opts) resAttrProducer of Some p \<Rightarrow> Some p
      | None \<Rightarrow> if op_ServiceInstanceID opts = [] then None else Some (op_ServiceInstanceID opts)) \<and>
    list_all2 (\<lambda>e lr. lr_EventName lr = eventName \<and> eventTimeOf now lr = op_now opts \<and>
      entityObs (lr_Attributes lr) t strictVocab = (Inr (saidEntity t e), []) \<and>
      (eventName = evEntityState \<longrightarrow> embeddedRelations (lr_Attributes lr) source producer t strictVocab =
         \<lparr>pa_rels = map (saidRelation source producer t e) (em_Relationships e), pa_dropped = [],
          pa_beliefs = saidInert (em_Relationships e), pa_err = None\<rparr>) \<and>
      (eventName = evEntityDelete \<longrightarrow>
         strAttr (lr_Attributes lr) attrEntityDeleteReason = (if em_DeleteReason e = [] then None else Some (em_DeleteReason e))))
      entities recs"
proof -
  let ?when = "word_of_int (op_now opts - unixEpoch) :: 64 word"
  obtain recs where r: "rls = [\<lparr>rl_Attributes = buildResource opts, rl_ScopeLogs = [(emitScope, recs)]\<rparr>]"
    "list_all2 (\<lambda>e lr. \<exists>i. buildRecord eventName ?when (i, e) = Inr lr) entities recs" using Build_records [OF b] by blast
  have s: "sint ?when = op_now opts - unixEpoch"
    using wrap64_id [OF o(2)] unfolding int_word_sint wrap64_def by simp
  then have w: "?when \<noteq> 0" using o(3) by (metis right_minus_eq sint_0)
  have K: "lr_EventName lr = eventName \<and> eventTimeOf now lr = op_now opts \<and>
      entityObs (lr_Attributes lr) t strictVocab = (Inr (saidEntity t e), []) \<and>
      (eventName = evEntityState \<longrightarrow> embeddedRelations (lr_Attributes lr) source producer t strictVocab =
         \<lparr>pa_rels = map (saidRelation source producer t e) (em_Relationships e), pa_dropped = [],
          pa_beliefs = saidInert (em_Relationships e), pa_err = None\<rparr>) \<and>
      (eventName = evEntityDelete \<longrightarrow>
         strAttr (lr_Attributes lr) attrEntityDeleteReason = (if em_DeleteReason e = [] then None else Some (em_DeleteReason e)))"
    if m: "e \<in> set entities" and "lr \<in> set recs" and x: "\<exists>i. buildRecord eventName ?when (i, e) = Inr lr" for e lr
  proof -
    obtain i where i: "buildRecord eventName ?when (i, e) = Inr lr" using x by blast
    from m e have g: "goMaps e" "sendable strictVocab e" and l: "lossless e" by auto
    note said_entity [OF l, simp]
    show ?thesis using buildRecord_attrs(1,2,9) [OF i] buildRecord_entity(1) [OF i g] buildRecord_relations [OF _ g] i s w
      by (auto simp: strAttr_def eventTimeOf_def)
  qed
  show ?thesis
    by (intro exI conjI, rule r(1) [unfolded emitScope_def], rule buildResource_producer [OF o(1)], rule list.rel_mono_strong [OF r(2)], rule K)
qed

section \<open>An export to the server\<close>

definition clean :: "tally \<Rightarrow> bool" where
  "clean t = (ta_rejected t = 0 \<and> ta_skipped t = 0 \<and> ta_dropped t = [])"

definition engineOnly :: "IngestErr option \<Rightarrow> bool" where
  "engineOnly err = (case err of None \<Rightarrow> True | Some err \<Rightarrow> \<not> errInvalidRecord err)"

lemma engineOnly_simps [simp]: "engineOnly None" "engineOnly (Some (Engine err))" "engineOnly (map_option Engine oerr)"
  by (simp_all add: engineOnly_def split: option.splits)

lemma route_built:
  assumes b: "buildRecord eventName when (i, e) = Inr lr" and ev: "eventName = evEntityState \<or> eventName = evEntityDelete"
    and g: "goMaps e" "sendable strictVocab e"
  shows "\<exists>eng' err. routeRecordVocab env lr producer strictVocab eng = (eng', True, [], err) \<and> engineOnly err"
proof -
  note O = buildRecord_entity(1) [OF b g] and N = buildRecord_attrs(1) [OF b]
  show ?thesis
  proof (cases "eventName = evEntityState")
    case True
    obtain eng' r where "observeEntityLocked env ((wireEntity (eventTimeOf (env_now env) lr) e)\<lparr>eo_Producer := producer\<rparr>) eng = (eng', r)" by fastforce
    with True N O show ?thesis by (cases r) (simp_all add: routeRecordVocab_def Let_def)
  next
    case False
    with ev N O show ?thesis by (simp add: routeRecordVocab_def Let_def split: prod.splits option.splits)
  qed
qed

lemma handle_built:
  assumes b: "buildRecord eventName when (i, e) = Inr lr" and ev: "eventName = evEntityState \<or> eventName = evEntityDelete"
    and g: "goMaps e" "sendable strictVocab e"
  shows "\<exists>s' h. handleVocab env lr producer scope strictVocab s = (s', h) \<and> ha_dropped h = [] \<and> engineOnly (ha_err h)"
proof -
  note S = buildRecord_entity(3,4,5) [OF b g] and N = buildRecord_attrs(1) [OF b]
  let ?source = "\<lparr>ep_Type = em_Type e, ep_Identity = saidStrings (em_ID e)\<rparr>" and ?now = "eventTimeOf (env_now env) lr"
  show ?thesis
  proof (cases "eventName = evEntityState")
    case True
    have R: "embeddedRelations (lr_Attributes lr) ?source producer ?now strictVocab =
        \<lparr>pa_rels = map (wireRelation ?source producer ?now e) (em_Relationships e), pa_dropped = [], pa_beliefs = saidInert (em_Relationships e), pa_err = None\<rparr>"
      using buildRecord_relations [OF b [unfolded True] g] .
    obtain s' rerr where "reconcile env (producerKey producer scope ?source) (map (wireRelation ?source producer ?now e) (em_Relationships e)) ?now s = (s', rerr)"
      by fastforce
    with True N S R show ?thesis by (cases rerr) (simp_all add: handleVocab_def Let_def)
  next
    case False
    with ev N S show ?thesis by (simp add: handleVocab_def Let_def)
  qed
qed

lemma ingest_built:
  assumes "buildRecord eventName when (i, e) = Inr lr" and "eventName = evEntityState \<or> eventName = evEntityDelete"
    and "goMaps e" "sendable strictVocab e" and "clean (bs_tally b)"
  shows "clean (bs_tally (ingestRecord env tenantID producer scope strictVocab b lr))"
proof (cases "bs_routeErr b")
  case None
  obtain eng' err where r: "routeRecordVocab env lr producer strictVocab (rt_engine (bs_routing b)) = (eng', True, [], err)" "engineOnly err"
    using route_built [OF assms(1-4)] by blast
  obtain s' h where h: "handleVocab env lr producer scope strictVocab ((bs_routing b)\<lparr>rt_engine := eng'\<rparr>) = (s', h)" "ha_dropped h = []" "engineOnly (ha_err h)"
    using handle_built [OF assms(1-4)] by blast
  show ?thesis using None r h assms(5)
    by (auto simp: ingestRecord_def clean_def engineOnly_def Let_def split: option.splits)
qed (use assms(5) in \<open>simp add: ingestRecord_def\<close>)

lemma export_built:
  assumes b: "Build opts eventName entities = Inr rls" and e: "\<forall>e \<in> set entities. goMaps e \<and> sendable (\<not> ls_acceptUnknown srv) e"
    and x: "Export env ctx rls srv w = (x, res)"
  shows "clean (xs_tally x)"
proof -
  obtain recs where r: "rls = [\<lparr>rl_Attributes = buildResource opts, rl_ScopeLogs = [(emitScope, recs)]\<rparr>]"
    and ev: "eventName = evEntityState \<or> eventName = evEntityDelete"
    and l: "list_all2 (\<lambda>e lr. \<exists>i. buildRecord eventName (word_of_int (op_now opts - unixEpoch)) (i, e) = Inr lr) entities recs"
    by (rule Build_records [OF b])
  have i: "clean (bs_tally (ingestRecord env tenantID producer scope (\<not> ls_acceptUnknown srv) bs lr))"
    if c: "clean (bs_tally bs)" and m: "lr \<in> set recs" for tenantID producer scope bs lr
  proof -
    obtain e i where "e \<in> set entities" "buildRecord eventName (word_of_int (op_now opts - unixEpoch)) (i, e) = Inr lr"
      using l m unfolding list_all2_conv_all_nth in_set_conv_nth by metis
    with e c ev show ?thesis using ingest_built by blast
  qed
  have z: "clean zeroTally" by (simp add: clean_def zeroTally_def)
  have "clean (bs_tally (foldl (ingestRecord env tenantID producer emitScope (\<not> ls_acceptUnknown srv)) bs recs))"
    if "clean (bs_tally bs)" for tenantID producer bs
    using that by (rule foldl_invariant [where P = "\<lambda>b. clean (bs_tally b)"]) (rule i)
  then have body: "clean (bs_tally (batchBody env tenantID producer (\<not> ls_acceptUnknown srv) [(emitScope, recs)] rc zeroTally eng))" for tenantID producer rc eng
    by (simp add: batchBody_def ingestScope_def Let_def z)
  show ?thesis using x body z
    by (auto simp: Export_def exportResource_def ingestBatch_def r Let_def split: prod.splits if_splits option.splits sum.splits)
qed

text \<open>The server as the other side of the gRPC client: a call runs \<open>Export\<close> in the context of its headers.\<close>

definition served :: "'a env \<Rightarrow> ((string, string) gomap \<Rightarrow> 'c) \<Rightarrow> (('c, 'a, 'w) logsServer \<times> 'w, ExportErr, IngestErr option) grpcClient" where
  "served env ctx headers ld sw =
     (case Export env (ctx headers) ld (fst sw) (snd sw) of
        (x, Inl err) \<Rightarrow> ((xs_server x, xs_world x), Inl err)
      | (x, Inr resp) \<Rightarrow> ((xs_server x, xs_world x), Inr (er_RejectedLogRecords resp, er_ErrorMessage resp)))"

text \<open>
  C24. The server never rejects what the SDK sends.  An export of entities without empty keys, and of
  registered types when the server asks for them, ends with success, with an error of \<open>Build\<close> before
  anything is sent, or with an error of the whole call, and never with a partial success; no part
  of any record is dropped on the way, and when the call succeeds every entity was handled.
\<close>

theorem sdk_export_is_never_rejected:
  assumes e: "\<forall>e \<in> set entities. goMaps e \<and> sendable (\<not> ls_acceptUnknown srv) e"
    and x: "emitExport (served env ctx) opts eventName entities (srv, w) = (sw', err)"
  shows "(case err of None \<Rightarrow> True
      | Some (BuildFailed berr) \<Rightarrow> Build opts eventName entities = Inl berr \<and> sw' = (srv, w)
      | Some (ExportFailed n name xerr) \<Rightarrow> n = length entities \<and> name = eventName
      | Some (PartialError n msg) \<Rightarrow> False) \<and>
    (\<forall>rls x res. Build opts eventName entities = Inr rls \<and> Export env (ctx (op_Headers opts)) rls srv w = (x, res) \<longrightarrow>
       ta_rejected (xs_tally x) = 0 \<and> ta_dropped (xs_tally x) = [] \<and> (\<forall>resp. res = Inr resp \<longrightarrow> ta_handled (xs_tally x) = length entities))"
proof -
  have C: "ta_rejected (xs_tally x) = 0 \<and> ta_dropped (xs_tally x) = [] \<and>
      (\<forall>resp. res = Inr resp \<longrightarrow> er_RejectedLogRecords resp = 0 \<and> ta_handled (xs_tally x) = length entities)"
    if b: "Build opts eventName entities = Inr rls" and x: "Export env c rls srv w = (x, res)" for rls x res c
  proof -
    let ?x = "\<lparr>xs_server = srv, xs_world = w, xs_tally = zeroTally, xs_perTenant = []\<rparr>"
    have c: "clean (xs_tally x)" by (rule export_built [OF b e x])
    have "ta_handled (xs_tally x) = length entities \<and> er_RejectedLogRecords resp = 0" if r: "res = Inr resp" for resp
    proof -
      obtain bt locked where "exportResources env c bt locked rls ?x = (x, None)" and rr: "er_RejectedLogRecords resp = 0"
        using x c r by (auto simp: Export_def clean_def Let_def split: prod.splits if_splits option.splits)
      moreover have "adds_up ?x" by (simp add: adds_up_def tenantSum_def zeroTally_def)
      ultimately have n: "counted (xs_tally x) = records rls" using exportResources_tally [of env c bt locked rls ?x x] by (simp add: counted_def zeroTally_def)
      have "\<exists>recs. rls = [\<lparr>rl_Attributes = buildResource opts, rl_ScopeLogs = [(emitScope, recs)]\<rparr>] \<and> length recs = length entities"
        by (rule Build_records [OF b]) (auto dest: list_all2_lengthD)
      with n c rr show ?thesis by (auto simp: counted_def records_def clean_def)
    qed
    with c show ?thesis by (auto simp: clean_def)
  qed
  have "case err of None \<Rightarrow> True | Some (BuildFailed berr) \<Rightarrow> Build opts eventName entities = Inl berr \<and> sw' = (srv, w)
      | Some (ExportFailed n name xerr) \<Rightarrow> n = length entities \<and> name = eventName | Some (PartialError n msg) \<Rightarrow> False"
  proof (cases "Build opts eventName entities")
    case (Inl berr)
    with x show ?thesis by (auto simp: emitExport_def split: if_splits)
  next
    case (Inr rls)
    obtain x' res where E: "Export env (ctx (op_Headers opts)) rls srv w = (x', res)" by fastforce
    show ?thesis
    proof (cases res)
      case (Inl xerr)
      with x Inr E show ?thesis by (auto simp: emitExport_def served_def split: if_splits)
    next
      case R: (Inr resp)
      with C [OF Inr E] have "er_RejectedLogRecords resp = 0" by simp
      with x Inr E R show ?thesis by (auto simp: emitExport_def served_def split: if_splits)
    qed
  qed
  with C show ?thesis by blast
qed

text \<open>A host with typed attributes, a nested one among them, that is believed to be another.\<close>

definition fxSaid :: EmitEntity where
  "fxSaid = \<lparr>em_Type = TypeHost, em_ID = [(''host.id'', ''h1'')],
     em_RichAttributes = [(''os'', GoMap [(''name'', GoString ''linux''), (''bits'', GoUint8 64)]), (''cpus'', GoInt 8)],
     em_Attributes = [(''host.name'', ''web'')], em_Interval = 90500000000,
     em_Relationships = [\<lparr>er_Type = RelSameAs, er_TargetType = TypeComputeVM, er_TargetID = [(''vm.id'', ''v1'')], er_Confidence = f_one, er_Basis = ''vm_id_match''\<rparr>],
     em_DeleteReason = []\<rparr>"

definition fxOptions :: EmitOptions where
  "fxOptions = \<lparr>op_Endpoint = ''localhost:4317'', op_Headers = [], op_ServiceName = ''agent'', op_ServiceInstanceID = ''agent-1'',
     op_Resource = [], op_now = unixEpoch + 7\<rparr>"

lemma strict_receiver [simp]: "\<not> ls_acceptUnknown (NewReceiver metadata)"
  by (simp add: NewReceiver_def NewRoutedReceiver_def)

lemma fx_said: "goMaps fxSaid \<and> sendable True fxSaid \<and> lossless fxSaid"
  by (simp add: goMaps_def sendable_def lossless_def fxSaid_def int64_ok_def ghas_def IsKnownEntityType_def entityTypes_def type_defs RelationDef_same_as)

lemma fx_built: "\<exists>rls. Build fxOptions evEntityState [fxSaid] = Inr rls"
proof -
  have "isl (Build fxOptions evEntityState [fxSaid]) = False" by code_simp
  then show ?thesis by (cases "Build fxOptions evEntityState [fxSaid]") simp_all
qed

theorem built_payload_is_read_back_witness:
  "\<exists>res lr. Build fxOptions evEntityState [fxSaid] = Inr [\<lparr>rl_Attributes = res, rl_ScopeLogs = [(''toise-emit'', [lr])]\<rparr>] \<and>
     strAttr res resAttrProducer = Some ''agent-1'' \<and> fst (entityObs (lr_Attributes lr) 0 True) = Inr (saidEntity 0 fxSaid) \<and>
     saidInterval fxSaid = 90000000000"
proof -
  obtain rls where b: "Build fxOptions evEntityState [fxSaid] = Inr rls" using fx_built by blast
  have "int64_ok (op_now fxOptions - unixEpoch)" "op_now fxOptions \<noteq> unixEpoch" "gdistinct (op_Resource fxOptions)"
    by (simp_all add: fxOptions_def int64_ok_def)
  from built_payload_is_read_back [where strictVocab = True and t = 0 and now = 0 and producer = "[]" and source = "fxHost ''h1''", OF b _ this(3,1,2)] fx_said
  obtain res lr where "rls = [\<lparr>rl_Attributes = res, rl_ScopeLogs = [(''toise-emit'', [lr])]\<rparr>]" "strAttr res resAttrProducer = Some ''agent-1''"
    "entityObs (lr_Attributes lr) 0 True = (Inr (saidEntity 0 fxSaid), [])"
    by (auto simp: fxOptions_def list_all2_Cons1)
  moreover have "saidInterval fxSaid = 90000000000" by (simp add: saidInterval_def fxSaid_def second_def)
  ultimately show ?thesis using b by auto
qed

theorem sdk_export_is_never_rejected_witness:
  "\<exists>sw' err. emitState (served (fxEnv 1) (\<lambda>_. ())) fxOptions [fxSaid] (NewReceiver (\<lambda>_. []), fxStart) = (sw', err) \<and>
     (\<forall>n msg. err \<noteq> Some (PartialError n msg)) \<and> (\<forall>berr. err \<noteq> Some (BuildFailed berr))"
proof -
  obtain sw' err where x: "emitState (served (fxEnv 1) (\<lambda>_. ())) fxOptions [fxSaid] (NewReceiver (\<lambda>_. []), fxStart) = (sw', err)" by fastforce
  from sdk_export_is_never_rejected [OF _ x [unfolded emitState_def]] fx_said fx_built x show ?thesis
    by (auto split: option.splits EmitErr.splits)
qed

section \<open>Unsigned values\<close>

text \<open>
  The comment on \<open>RichAttributes\<close> promises the int and uint families without a silent loss.  A \<open>uint\<close> above
  the largest signed value is sent as a negative number.
\<close>

theorem large_uint_is_sent_negative:
  "uint (9223372036854775808 :: 64 word) = 2 ^ 63 \<and> putAnyValue (GoUint 9223372036854775808) = Inr (PInt (- (2 ^ 63)))"
  by simp

end
