(* ===== verification/Conformance.thy ===== *)
theory Conformance
  imports Emit
begin

text \<open>
  \<open>pkg/emit/conformance\<close>: the kit that a producer runs over its payload, without a server.

  A problem carries, in place of its text, a constructor of \<open>Issue\<close> with the values the text is made
  of; the prose of a frozen vocabulary (why a value costs, what was verified) is left out.  A missing
  value of a \<open>pcommon.Map\<close> and one of another type read as the empty string.
\<close>

section \<open>Problems\<close>

datatype ValueType = VEmpty | VStr | VInt | VDouble | VBool | VMap | VSlice | VBytes

fun typeOf :: "PValue \<Rightarrow> ValueType" where
  "typeOf PEmpty = VEmpty"
| "typeOf (PStr _) = VStr"
| "typeOf (PInt _) = VInt"
| "typeOf (PDouble _) = VDouble"
| "typeOf (PBool _) = VBool"
| "typeOf (PMap _) = VMap"
| "typeOf (PSlice _) = VSlice"
| "typeOf (PBytes _) = VBytes"

definition strOf :: "PValue option \<Rightarrow> string" where
  "strOf v = (case v of Some (PStr s) \<Rightarrow> s | _ \<Rightarrow> [])"

datatype Issue =
    NoInstanceID
  | MissingEntityType | EntityTypeNotString ValueType | EntityTypeEmpty
  | MissingEntityID | EntityIDNotMap ValueType | EntityIDEmpty
  | DescriptionNotMap ValueType
  | IntervalNotInt ValueType | IntervalNegative
  | RelationshipsOnDelete | RelationshipsNotSlice ValueType | DescriptorNotMap ValueType
  | BadRelationshipType | BadTargetType | BadTargetID
  | NoBasis | NoConfidence | ConfidenceNotNumber ValueType | ConfidenceOutside float64 | ConfidenceNotContractual string float64 float64
  | ConfidenceUnread
  | RawMachineID string | UppercaseHostID string | BadMAC string string string | RetiredKey string string string
  | EmptyKey string | NotScalar string string ValueType | UnsupportedLeaf string ValueType
  | FrozenNotString string string ValueType | FrozenEmpty string string | FrozenUnknown string string string

record Problem =
  pr_Record :: string
  pr_Issue :: Issue
  pr_Advisory :: bool

abbreviation problem :: "string \<Rightarrow> Issue \<Rightarrow> Problem" where
  "problem w issue \<equiv> \<lparr>pr_Record = w, pr_Issue = issue, pr_Advisory = False\<rparr>"

abbreviation advisory :: "string \<Rightarrow> Issue \<Rightarrow> Problem" where
  "advisory w issue \<equiv> \<lparr>pr_Record = w, pr_Issue = issue, pr_Advisory = True\<rparr>"

section \<open>Renderings\<close>

definition isHexDigit :: "char \<Rightarrow> bool" where
  "isHexDigit c = ((c \<ge> CHR ''0'' \<and> c \<le> CHR ''9'') \<or> (c \<ge> CHR ''a'' \<and> c \<le> CHR ''f'') \<or> (c \<ge> CHR ''A'' \<and> c \<le> CHR ''F''))"

definition isCanonicalMAC :: "string \<Rightarrow> bool" where
  "isCanonicalMAC s = (length s = 17 \<and>
     list_all (\<lambda>(i, c). if i mod 3 = 2 then c = CHR ''-''
       else \<not> ((c < CHR ''0'' \<or> c > CHR ''9'') \<and> (c < CHR ''A'' \<or> c > CHR ''F''))) (enumerate (0::nat) s))"

definition isRawMachineID :: "string \<Rightarrow> bool" where
  "isRawMachineID s = (length s = 32 \<and> list_all isHexDigit s)"

definition isUUIDWithUppercase :: "string \<Rightarrow> bool" where
  "isUUIDWithUppercase s = (length s = 36 \<and>
     list_all (\<lambda>(i, c). if i \<in> {8, 13, 18, 23} then c = CHR ''-'' else isHexDigit c) (enumerate (0::nat) s) \<and>
     list_ex (\<lambda>(i, c). i \<notin> {8, 13, 18, 23} \<and> c \<ge> CHR ''A'' \<and> c \<le> CHR ''F'') (enumerate (0::nat) s))"

definition identityHostID :: string where "identityHostID = ''host.id''"
definition identityMAC :: string where "identityMAC = ''mac''"
definition identityNetworkDeviceID :: string where "identityNetworkDeviceID = ''network.device.id''"

definition checkHostID :: "string \<Rightarrow> string \<Rightarrow> PMapping \<Rightarrow> Problem list" where
  "checkHostID where' field m =
     (case map_of m identityHostID of
        Some (PStr s) \<Rightarrow>
          if isRawMachineID s then [problem where' (RawMachineID field)]
          else if isUUIDWithUppercase s then [problem where' (UppercaseHostID field)]
          else []
      | _ \<Rightarrow> [])"

definition checkMAC :: "string \<Rightarrow> string \<Rightarrow> PMapping \<Rightarrow> Problem list" where
  "checkMAC where' field m =
     (case map_of m identityMAC of
        Some (PStr s) \<Rightarrow> if \<not> isCanonicalMAC s then [problem where' (BadMAC field identityMAC s)] else []
      | _ \<Rightarrow> []) @
     (case map_of m identityNetworkDeviceID of
        Some (PStr s) \<Rightarrow>
          if has_prefix s ''mac:'' \<and> \<not> isCanonicalMAC (drop 4 s) then [problem where' (BadMAC field identityNetworkDeviceID s)] else []
      | _ \<Rightarrow> [])"

definition retiredIdentityKeys :: "(string, string) gomap" where
  "retiredIdentityKeys = [(''interface.name'', ''network.interface.name'')]"

definition checkIdentityKeySpelling :: "string \<Rightarrow> string \<Rightarrow> PMapping \<Rightarrow> Problem list" where
  "checkIdentityKeySpelling where' field m =
     concat (map (\<lambda>(retired, use). if ghas m retired then [problem where' (RetiredKey field retired use)] else []) retiredIdentityKeys)"

section \<open>Maps\<close>

definition scalarType :: "ValueType \<Rightarrow> bool" where
  "scalarType t = (t \<in> {VStr, VInt, VDouble, VBool})"

definition checkScalarMap :: "string \<Rightarrow> string \<Rightarrow> PMapping \<Rightarrow> Problem list" where
  "checkScalarMap where' field m =
     concat (map (\<lambda>(k, v). (if k = [] then [problem where' (EmptyKey field)] else []) @
       (if scalarType (typeOf v) then [] else [problem where' (NotScalar field k (typeOf v))])) m)"

function checkDescriptionMap :: "string \<Rightarrow> string \<Rightarrow> PMapping \<Rightarrow> Problem list"
  and checkDescriptionValue :: "string \<Rightarrow> string \<Rightarrow> PValue \<Rightarrow> Problem list"
  and checkDescriptionSlice :: "string \<Rightarrow> string \<Rightarrow> nat \<Rightarrow> PValue list \<Rightarrow> Problem list"
where
  "checkDescriptionMap where' field [] = []"
| "checkDescriptionMap where' field ((k, v) # m) =
     (if k = [] then [problem where' (EmptyKey field)] else []) @
     checkDescriptionValue where' (field @ ''.'' @ k) v @ checkDescriptionMap where' field m"
| "checkDescriptionValue where' path (PStr s) = []"
| "checkDescriptionValue where' path (PInt i) = []"
| "checkDescriptionValue where' path (PDouble f) = []"
| "checkDescriptionValue where' path (PBool b) = []"
| "checkDescriptionValue where' path (PSlice sl) = checkDescriptionSlice where' path 0 sl"
| "checkDescriptionValue where' path (PMap m) = checkDescriptionMap where' path m"
| "checkDescriptionValue where' path PEmpty = [problem where' (UnsupportedLeaf path VEmpty)]"
| "checkDescriptionValue where' path (PBytes b) = [problem where' (UnsupportedLeaf path VBytes)]"
| "checkDescriptionSlice where' path i [] = []"
| "checkDescriptionSlice where' path i (v # sl) =
     checkDescriptionValue where' (path @ ''['' @ itoa i @ '']'') v @ checkDescriptionSlice where' path (Suc i) sl"
  by pat_completeness auto
termination
  by (relation "measure (\<lambda>x. case x of
        Inl (_, _, m) \<Rightarrow> size_list (size_prod (\<lambda>_. 0) size) m
      | Inr (Inl (_, _, v)) \<Rightarrow> size v
      | Inr (Inr (_, _, _, s)) \<Rightarrow> size_list size s)") auto

section \<open>Frozen vocabularies\<close>

record frozenVocabulary =
  fv_key :: string
  fv_values :: "string list"
  fv_refuse :: bool

definition frozenVocabularies :: "frozenVocabulary list" where
  "frozenVocabularies =
     [\<lparr>fv_key = ''oper_state'', fv_values = [''up'', ''down'', ''testing'', ''unknown'', ''dormant'', ''not_present'', ''lower_layer_down''], fv_refuse = True\<rparr>,
      \<lparr>fv_key = ''admin_state'', fv_values = [''up'', ''down'', ''testing''], fv_refuse = True\<rparr>,
      \<lparr>fv_key = ''duplex'', fv_values = [''full'', ''half'', ''unknown''], fv_refuse = True\<rparr>,
      \<lparr>fv_key = ''interface.type'', fv_values = [''physical'', ''virtual'', ''wireless'', ''loopback''], fv_refuse = True\<rparr>,
      \<lparr>fv_key = ''host.virtualization'', fv_values = [''none'', ''kvm'', ''vmware'', ''xen'', ''hyperv'', ''virtualbox'', ''qemu'', ''lxc'', ''openvz'', ''bhyve'', ''unknown''],
       fv_refuse = False\<rparr>,
      \<lparr>fv_key = ''host.chassis.type'', fv_values = [''desktop'', ''laptop'', ''server'', ''blade'', ''vm'', ''other''], fv_refuse = True\<rparr>]"

definition fv_contains :: "frozenVocabulary \<Rightarrow> string \<Rightarrow> bool" where
  "fv_contains v s = list_ex (\<lambda>want. s = want) (fv_values v)"

definition checkValueVocabularies :: "string \<Rightarrow> string \<Rightarrow> PMapping \<Rightarrow> Problem list" where
  "checkValueVocabularies where' field m =
     concat (map (\<lambda>v.
       let add = (\<lambda>issue. [\<lparr>pr_Record = where', pr_Issue = issue, pr_Advisory = \<not> fv_refuse v\<rparr>])
       in case map_of m (fv_key v) of
            None \<Rightarrow> []
          | Some (PStr s) \<Rightarrow>
              if s = [] then add (FrozenEmpty field (fv_key v))
              else if fv_contains v s then []
              else add (FrozenUnknown field (fv_key v) s)
          | Some got \<Rightarrow> add (FrozenNotString field (fv_key v) (typeOf got))) frozenVocabularies)"

section \<open>Beliefs\<close>

definition beliefConfidenceByBasis :: "(string, float64) gomap" where
  "beliefConfidenceByBasis = [(''rekey'', f_one), (''k8s_api'', f_one), (''vm_id_match'', f_one)]"

text \<open>The comparison \<open>c == want\<close> of floats, which is false on NaN.\<close>

definition f_eq :: "float64 \<Rightarrow> float64 \<Rightarrow> bool" where
  "f_eq a b = (f_le a b \<and> f_le b a)"

definition checkSameAsBelief :: "string \<Rightarrow> PMapping \<Rightarrow> Problem list" where
  "checkSameAsBelief where' m =
     (let basis = map_of m relDescBasis;
          out = (if basis = None \<or> trim_space (strOf basis) = [] then [advisory where' NoBasis] else []);
          check = (\<lambda>c. if f_lt c f_zero \<or> f_lt f_one c then [problem where' (ConfidenceOutside c)]
                       else if basis \<noteq> None then
                         (case map_of beliefConfidenceByBasis (strOf basis) of
                            Some want \<Rightarrow> if \<not> f_eq c want then [problem where' (ConfidenceNotContractual (strOf basis) want c)] else []
                          | None \<Rightarrow> [])
                       else [])
      in out @
         (case map_of m relDescConfidence of
            None \<Rightarrow> [problem where' NoConfidence]
          | Some (PDouble c) \<Rightarrow> check c
          | Some (PInt i) \<Rightarrow> check (float_of_int i)
          | Some v \<Rightarrow> [problem where' (ConfidenceNotNumber (typeOf v))]))"

definition checkResolvesToBelief :: "string \<Rightarrow> PMapping \<Rightarrow> Problem list" where
  "checkResolvesToBelief where' m = (if ghas m relDescConfidence then [advisory where' ConfidenceUnread] else [])"

section \<open>Records\<close>

definition nonEmptyString :: "PValue option \<Rightarrow> bool" where
  "nonEmptyString v = (case v of Some (PStr s) \<Rightarrow> s \<noteq> [] | _ \<Rightarrow> False)"

definition checkDescriptor :: "string \<Rightarrow> nat \<times> PValue \<Rightarrow> Problem list" where
  "checkDescriptor where' iel =
     (case iel of (i, el) \<Rightarrow>
        let rw = where' @ ''.entity.relationships['' @ itoa i @ '']''
        in case el of
             PMap m \<Rightarrow>
               (if \<not> nonEmptyString (map_of m relDescType) then [problem rw BadRelationshipType] else []) @
               (if \<not> nonEmptyString (map_of m relDescEntityType) then [problem rw BadTargetType] else []) @
               (case map_of m relDescEntityID of
                  Some (PMap idv) \<Rightarrow>
                    if idv = [] then [problem rw BadTargetID]
                    else checkHostID rw attrEntityID idv @ checkMAC rw attrEntityID idv @ checkIdentityKeySpelling rw attrEntityID idv
                | _ \<Rightarrow> [problem rw BadTargetID]) @
               (if strOf (map_of m relDescType) = RelSameAs then checkSameAsBelief rw m
                else if strOf (map_of m relDescType) = RelResolvesTo then checkResolvesToBelief rw m
                else [])
           | _ \<Rightarrow> [problem rw (DescriptorNotMap (typeOf el))])"

definition checkRecord :: "string \<Rightarrow> LogRecord \<Rightarrow> Problem list" where
  "checkRecord where' lr =
     (let name = lr_EventName lr; attrs = lr_Attributes lr
      in if name \<noteq> evEntityState \<and> name \<noteq> evEntityDelete then []
         else
           (case map_of attrs attrEntityType of
              None \<Rightarrow> [problem where' MissingEntityType]
            | Some (PStr s) \<Rightarrow> if s = [] then [problem where' EntityTypeEmpty] else []
            | Some v \<Rightarrow> [problem where' (EntityTypeNotString (typeOf v))]) @
           (case map_of attrs attrEntityID of
              None \<Rightarrow> [problem where' MissingEntityID]
            | Some (PMap m) \<Rightarrow>
                if m = [] then [problem where' EntityIDEmpty]
                else checkScalarMap where' attrEntityID m @ checkHostID where' attrEntityID m @
                     checkMAC where' attrEntityID m @ checkIdentityKeySpelling where' attrEntityID m
            | Some v \<Rightarrow> [problem where' (EntityIDNotMap (typeOf v))]) @
           (case map_of attrs attrEntityDesc of
              None \<Rightarrow> []
            | Some (PMap m) \<Rightarrow>
                checkDescriptionMap where' attrEntityDesc m @ checkMAC where' attrEntityDesc m @ checkValueVocabularies where' attrEntityDesc m
            | Some v \<Rightarrow> [problem where' (DescriptionNotMap (typeOf v))]) @
           (case map_of attrs attrEntityInterval of
              None \<Rightarrow> []
            | Some (PInt i) \<Rightarrow> if i < 0 then [problem where' IntervalNegative] else []
            | Some v \<Rightarrow> [problem where' (IntervalNotInt (typeOf v))]) @
           (case map_of attrs attrEntityRelationships of
              None \<Rightarrow> []
            | Some rels \<Rightarrow>
                (if name = evEntityDelete then [problem where' RelationshipsOnDelete] else []) @
                (case rels of
                   PSlice sl \<Rightarrow> concat (map (checkDescriptor where') (enumerate 0 sl))
                 | _ \<Rightarrow> [problem where' (RelationshipsNotSlice (typeOf rels))])))"

definition checkResource :: "nat \<Rightarrow> PMapping \<Rightarrow> Problem list" where
  "checkResource i res =
     (if nonEmptyString (map_of res resAttrProducer) then []
      else [advisory (''resourceLogs['' @ itoa i @ ''].resource'') NoInstanceID])"

definition checkResourceLogs :: "nat \<times> ResourceLogs \<Rightarrow> Problem list" where
  "checkResourceLogs irl =
     (case irl of (i, rl) \<Rightarrow>
        concat (map (\<lambda>(j, (scope, recs)). concat (map (\<lambda>(k, lr).
          checkRecord (''resourceLogs['' @ itoa i @ ''].scopeLogs['' @ itoa j @ ''].logRecords['' @ itoa k @ '']'') lr)
            (enumerate 0 recs))) (enumerate 0 (rl_ScopeLogs rl))) @
        (if list_ex (\<lambda>(scope, recs). list_ex (\<lambda>lr. lr_EventName lr = evEntityState \<or> lr_EventName lr = evEntityDelete) recs) (rl_ScopeLogs rl)
         then checkResource i (rl_Attributes rl) else []))"

definition Check :: "ResourceLogs list \<Rightarrow> Problem list" where
  "Check ld = concat (map checkResourceLogs (enumerate 0 ld))"

end
