(* ===== verification/Conformance_Theorems.thy ===== *)
theory Conformance_Theorems
  imports Conformance Emit_Theorems
begin

text \<open>
  The conformance kit against the ingest boundary: what a record that passes the kit can still meet
  there, and the three cases in which the kit passes a record that the boundary does not take whole.
\<close>

section \<open>Passing\<close>

definition passes :: "Problem list \<Rightarrow> bool" where
  "passes ps = list_all pr_Advisory ps"

lemma passes_simps [simp]:
  "passes []" "passes (p # ps) \<longleftrightarrow> pr_Advisory p \<and> passes ps" "passes (ps @ qs) \<longleftrightarrow> passes ps \<and> passes qs"
  by (simp_all add: passes_def)

lemma passes_concat: "passes (concat pss) \<longleftrightarrow> (\<forall>ps \<in> set pss. passes ps)"
  by (induction pss) simp_all

lemma scalarType_iff: "scalarType (typeOf v) \<longleftrightarrow> (\<exists>mv. valueFrom v False = Some mv)"
  by (cases v) (simp_all add: scalarType_def)

lemma kvsFromMap_scalar:
  "\<forall>(k, v) \<in> set m. scalarType (typeOf v) \<Longrightarrow> \<exists>kvs. kvsFromMap m prefix False = (kvs, []) \<and> map fst kvs = map fst m"
proof (induction m)
  case (Cons kv m)
  then show ?case by (cases kv) (auto simp: scalarType_iff)
qed simp

lemma checkScalarMap_passes:
  "passes (checkScalarMap w f m) \<Longrightarrow> (\<forall>(k, v) \<in> set m. scalarType (typeOf v)) \<and> \<not> ghas m []"
  by (induction m) (auto simp: checkScalarMap_def ghas_iff split: if_splits)

lemma description_passes:
  "passes (checkDescriptionMap w f m) \<Longrightarrow> \<exists>kvs. kvsFromMap m prefix True = (kvs, []) \<and> map fst kvs = map fst m \<and> \<not> ghas m []"
  "passes (checkDescriptionValue w f v) \<Longrightarrow> \<exists>mv. valueFrom v True = Some mv"
  "passes (checkDescriptionSlice w f i sl) \<Longrightarrow> \<exists>vs. elemsFrom sl = Some vs"
proof (induction w f m and w f v and w f i sl arbitrary: prefix and and rule: checkDescriptionMap_checkDescriptionValue_checkDescriptionSlice.induct)
  case (2 w field k v m)
  then obtain kvs mv where "kvsFromMap m prefix True = (kvs, [])" "map fst kvs = map fst m" "\<not> ghas m []" "valueFrom v True = Some mv" "k \<noteq> []"
    by (fastforce split: if_splits)
  then show ?case by (auto simp: ghas_def)
next
  case (8 w path m)
  then obtain kvs where "kvsFromMap m [] True = (kvs, [])" by fastforce
  then show ?case by simp
qed auto

section \<open>Descriptors\<close>

text \<open>What the kit does not look at in a descriptor: the values of the target's identity, and a confidence that is not a number.\<close>

definition descriptorOk :: "bool \<Rightarrow> PMapping \<Rightarrow> bool" where
  "descriptorOk strictVocab m =
     ((\<forall>idv. map_of m relDescEntityID = Some (PMap idv) \<longrightarrow> (\<forall>(k, v) \<in> set idv. scalarType (typeOf v))) \<and>
      map_of m relDescConfidence \<noteq> Some (PDouble NaN) \<and>
      (strictVocab \<longrightarrow> RelationDef (strOf (map_of m relDescType)) \<noteq> None))"

text \<open>And in a record: a key that occurs twice, and the vocabulary.\<close>

definition recordOk :: "bool \<Rightarrow> PMapping \<Rightarrow> bool" where
  "recordOk strictVocab attrs =
     ((\<forall>m. map_of attrs attrEntityID = Some (PMap m) \<or> map_of attrs attrEntityDesc = Some (PMap m) \<longrightarrow> gdistinct m) \<and>
      (strictVocab \<longrightarrow> IsKnownEntityType (strOf (map_of attrs attrEntityType))) \<and>
      (\<forall>sl m. map_of attrs attrEntityRelationships = Some (PSlice sl) \<longrightarrow> PMap m \<in> set sl \<longrightarrow> descriptorOk strictVocab m))"

lemma f_in_unit:
  assumes "c \<noteq> NaN" "\<not> f_lt c f_zero" "\<not> f_lt f_one c"
  shows "f_le f_zero c \<and> f_le c f_one"
proof (cases c)
  case (Inf b)
  with assms show ?thesis by (cases b) (simp_all add: f_zero_def f_one_def)
qed (use assms in \<open>auto simp: f_zero_def f_one_def\<close>)

lemma float_of_int_number: "float_of_int i \<noteq> NaN"
  by (simp add: float_of_int_def split: prod.splits)

lemma same_as_passes:
  assumes "passes (checkSameAsBelief w m)" and "map_of m relDescConfidence \<noteq> Some (PDouble NaN)"
  shows "snd (beliefAttributes m RelSameAs) = []"
proof -
  have ns: "RelSameAs \<noteq> RelResolvesTo" by (simp add: rel_defs)
  consider c where "map_of m relDescConfidence = Some (PDouble c)" "c \<noteq> NaN" "\<not> f_lt c f_zero" "\<not> f_lt f_one c"
    | i where "map_of m relDescConfidence = Some (PInt i)" "\<not> f_lt (float_of_int i) f_zero" "\<not> f_lt f_one (float_of_int i)"
    using assms by (auto simp: checkSameAsBelief_def Let_def split: option.splits PValue.splits if_splits)
  then show ?thesis
  proof cases
    case 1
    with f_in_unit [of c] ns show ?thesis by (simp add: beliefAttributes_def Let_def)
  next
    case 2
    with f_in_unit [of "float_of_int i"] float_of_int_number ns show ?thesis by (simp add: beliefAttributes_def Let_def)
  qed
qed

lemma descriptor_passes:
  assumes p: "passes (checkDescriptor w (i, el))" and ok: "\<And>m. el = PMap m \<Longrightarrow> descriptorOk strictVocab m"
  shows "\<exists>obs bns. embeddedRelation source producer t strictVocab iv pa (i, el) = pa\<lparr>pa_rels := pa_rels pa @ [obs], pa_beliefs := pa_beliefs pa @ bns\<rparr> \<and>
    (\<forall>bn \<in> set bns. bn_relType bn = RelResolvesTo)"
proof -
  obtain m where m: "el = PMap m" using p by (cases el) (simp_all add: checkDescriptor_def Let_def)
  obtain relType toType idv where d: "map_of m relDescType = Some (PStr relType)" "relType \<noteq> []" "map_of m relDescEntityType = Some (PStr toType)"
    "map_of m relDescEntityID = Some (PMap idv)" "idv \<noteq> []"
    using p unfolding m by (auto simp: checkDescriptor_def nonEmptyString_def Let_def split: option.splits PValue.splits if_splits)
  have sa: "relType = RelSameAs \<Longrightarrow> passes (checkSameAsBelief (w @ ''.entity.relationships['' @ itoa i @ '']'') m)"
    using p d unfolding m by (simp add: checkDescriptor_def strOf_def Let_def)
  note O = ok [OF m, unfolded descriptorOk_def]
  obtain toID where k: "kvsFromMap idv (descriptorKey i @ ''.'' @ relDescEntityID) False = (toID, [])" "toID \<noteq> []"
    using kvsFromMap_scalar [of idv "descriptorKey i @ ''.'' @ relDescEntityID"] O d by fastforce
  have v: "\<not> (strictVocab \<and> RelationDef relType = None)" using O d by (simp add: strOf_def)
  obtain attrs reason where b: "beliefAttributes m relType = (attrs, reason)" by fastforce
  let ?belief = "relType = RelSameAs \<or> relType = RelResolvesTo"
  let ?obs = "\<lparr>ro_Type = relType, ro_From = source, ro_To = \<lparr>ep_Type = toType, ep_Identity = toID\<rparr>, ro_Attributes = if ?belief then attrs else [],
    ro_EventTime = t, ro_Producer = producer, ro_Interval = 0, ro_SourceInterval = iv\<rparr>"
  let ?bns = "if ?belief \<and> reason \<noteq> [] then [\<lparr>bn_relType = relType, bn_reason = reason\<rparr>] else []"
  have "embeddedRelation source producer t strictVocab iv pa (i, el) = pa\<lparr>pa_rels := pa_rels pa @ [?obs], pa_beliefs := pa_beliefs pa @ ?bns\<rparr>"
    using m d k v b by (cases "?belief"; cases "reason = []") (auto simp: embeddedRelation_def strFromMap_def Let_def)
  moreover have "relType = RelSameAs \<Longrightarrow> reason = []" using same_as_passes [OF sa] O b by simp
  then have "\<forall>bn \<in> set ?bns. bn_relType bn = RelResolvesTo" by auto
  ultimately show ?thesis by blast
qed

lemma descriptors_pass:
  assumes "\<forall>ps \<in> set (map (checkDescriptor w) (enumerate n sl)). passes ps" and "\<forall>m. PMap m \<in> set sl \<longrightarrow> descriptorOk strictVocab m"
  shows "\<exists>rels bns. foldl (embeddedRelation source producer t strictVocab iv) pa (enumerate n sl) =
      pa\<lparr>pa_rels := pa_rels pa @ rels, pa_beliefs := pa_beliefs pa @ bns\<rparr> \<and> length rels = length sl \<and> (\<forall>bn \<in> set bns. bn_relType bn = RelResolvesTo)"
  using assms
proof (induction sl arbitrary: n pa)
  case (Cons el sl)
  have p1: "passes (checkDescriptor w (n, el))" using Cons.prems(1) by simp
  have ok1: "descriptorOk strictVocab m" if "el = PMap m" for m using Cons.prems(2) that by simp
  obtain obs bns where 1: "embeddedRelation source producer t strictVocab iv pa (n, el) = pa\<lparr>pa_rels := pa_rels pa @ [obs], pa_beliefs := pa_beliefs pa @ bns\<rparr>"
    "\<forall>bn \<in> set bns. bn_relType bn = RelResolvesTo"
    using descriptor_passes [OF p1 ok1] by blast
  obtain rels bns' where 2: "foldl (embeddedRelation source producer t strictVocab iv) (pa\<lparr>pa_rels := pa_rels pa @ [obs], pa_beliefs := pa_beliefs pa @ bns\<rparr>) (enumerate (Suc n) sl) =
      pa\<lparr>pa_rels := (pa_rels pa @ [obs]) @ rels, pa_beliefs := (pa_beliefs pa @ bns) @ bns'\<rparr>" "length rels = length sl"
      "\<forall>bn \<in> set bns'. bn_relType bn = RelResolvesTo"
    using Cons.IH [of "Suc n" "pa\<lparr>pa_rels := pa_rels pa @ [obs], pa_beliefs := pa_beliefs pa @ bns\<rparr>"] Cons.prems by auto
  show ?case using 1 2 by (intro exI [of _ "obs # rels"] exI [of _ "bns @ bns'"]) auto
qed (intro exI [of _ "[]"], simp)

section \<open>A record that passes\<close>

lemma valueFrom_valid: "valueFrom v a = Some mv \<Longrightarrow> IsValid mv"
  by (cases v) (auto simp: IsValid_def split: if_splits prod.splits)

lemma converted_valid:
  assumes "kvsFromMap m prefix a = (kvs, [])" "gdistinct m" "\<not> ghas m []"
  shows "validateKeyValues kvs = None" and "m \<noteq> [] \<Longrightarrow> kvs \<noteq> []"
proof -
  have l: "list_all2 (\<lambda>kp kv. fst kp = fst kv \<and> valueFrom (snd kp) a = Some (snd kv)) m kvs" using assms(1) by (simp add: kvsFromMap_all)
  have f: "map fst kvs = map fst m" using l by (induction rule: list_all2_induct) auto
  have v: "\<forall>kv \<in> set kvs. IsValid (snd kv)" using l by (induction rule: list_all2_induct) (auto intro: valueFrom_valid)
  have "[] \<notin> set (map fst kvs)" using assms(3) unfolding f by (simp add: ghas_iff)
  then have "\<forall>kv \<in> set kvs. fst kv \<noteq> []" by force
  with v assms(2) f show "validateKeyValues kvs = None" unfolding validateKeyValues_None gdistinct_def by (simp add: case_prod_beta)
  show "m \<noteq> [] \<Longrightarrow> kvs \<noteq> []" using f by auto
qed

text \<open>
  C30. A record that passes the kit is accepted.  If the kit reports no problem but advisories, no key
  of the identity or of the description occurs twice, the types are registered when the server asks
  for them, and every descriptor identifies its target by scalars and has a confidence, if any, that
  is not NaN (two cases the kit lets pass), then the boundary converts the entity and drops no part
  of it; it reads one relation for each descriptor, rejects none and drops no part of one; and no
  same_as among them is reported as inert.
\<close>

theorem conforming_record_is_accepted:
  assumes p: "passes (checkRecord w lr)" and ev: "lr_EventName lr = evEntityState \<or> lr_EventName lr = evEntityDelete"
    and ok: "recordOk strictVocab (lr_Attributes lr)"
  shows "(\<exists>obs. entityObs (lr_Attributes lr) t strictVocab = (Inr obs, [])) \<and>
    (let pa = embeddedRelations (lr_Attributes lr) source producer t strictVocab
     in pa_err pa = None \<and> pa_dropped pa = [] \<and> (\<forall>bn \<in> set (pa_beliefs pa). bn_relType bn = RelResolvesTo) \<and>
        length (pa_rels pa) = (case map_of (lr_Attributes lr) attrEntityRelationships of Some (PSlice sl) \<Rightarrow> length sl | _ \<Rightarrow> 0))"
proof
  let ?a = "lr_Attributes lr"
  note O = ok [unfolded recordOk_def]
  have P: "passes (case map_of ?a attrEntityType of None \<Rightarrow> [problem w MissingEntityType] | Some (PStr s) \<Rightarrow> if s = [] then [problem w EntityTypeEmpty] else []
        | Some v \<Rightarrow> [problem w (EntityTypeNotString (typeOf v))])"
    "passes (case map_of ?a attrEntityID of None \<Rightarrow> [problem w MissingEntityID]
        | Some (PMap m) \<Rightarrow> if m = [] then [problem w EntityIDEmpty] else checkScalarMap w attrEntityID m @ checkHostID w attrEntityID m @
             checkMAC w attrEntityID m @ checkIdentityKeySpelling w attrEntityID m
        | Some v \<Rightarrow> [problem w (EntityIDNotMap (typeOf v))])"
    "passes (case map_of ?a attrEntityDesc of None \<Rightarrow> []
        | Some (PMap m) \<Rightarrow> checkDescriptionMap w attrEntityDesc m @ checkMAC w attrEntityDesc m @ checkValueVocabularies w attrEntityDesc m
        | Some v \<Rightarrow> [problem w (DescriptionNotMap (typeOf v))])"
    "passes (case map_of ?a attrEntityInterval of None \<Rightarrow> [] | Some (PInt i) \<Rightarrow> if i < 0 then [problem w IntervalNegative] else []
        | Some v \<Rightarrow> [problem w (IntervalNotInt (typeOf v))])"
    "map_of ?a attrEntityRelationships = Some rels \<Longrightarrow> passes (case rels of PSlice sl \<Rightarrow> concat (map (checkDescriptor w) (enumerate 0 sl))
        | _ \<Rightarrow> [problem w (RelationshipsNotSlice (typeOf rels))])" for rels
    using p ev by (auto simp: checkRecord_def Let_def)
  obtain etype where ty: "map_of ?a attrEntityType = Some (PStr etype)" "etype \<noteq> []" using P(1) by (auto split: option.splits PValue.splits if_splits)
  obtain m where m: "map_of ?a attrEntityID = Some (PMap m)" "m \<noteq> []" "passes (checkScalarMap w attrEntityID m)"
    using P(2) by (auto split: option.splits PValue.splits if_splits)
  obtain ident where i: "kvsFromMap m attrEntityID False = (ident, [])" using kvsFromMap_scalar checkScalarMap_passes [OF m(3)] by blast
  have iv: "validateKeyValues ident = None" "ident \<noteq> []"
    using converted_valid [OF i] O m(1,2) checkScalarMap_passes [OF m(3)] by auto
  obtain desc where d: "(case mapAttr ?a attrEntityDesc True of None \<Rightarrow> ([], []) | Some r \<Rightarrow> r) = (desc, [])" "validateKeyValues desc = None"
  proof (cases "map_of ?a attrEntityDesc")
    case None
    then show thesis using that [of "[]"] by (simp add: mapAttr_def validateKeyValues_def)
  next
    case (Some v)
    then obtain dm where dm: "map_of ?a attrEntityDesc = Some (PMap dm)" "passes (checkDescriptionMap w attrEntityDesc dm)"
      using P(3) by (cases v) auto
    obtain kvs where k: "kvsFromMap dm attrEntityDesc True = (kvs, [])" "\<not> ghas dm []" using description_passes(1) [OF dm(2)] by blast
    show thesis using that [of kvs] converted_valid(1) [OF k(1)] k O dm(1) by (auto simp: mapAttr_def)
  qed
  have n: "(case map_of ?a attrEntityInterval of None \<Rightarrow> (0, dr) | Some (PInt secs) \<Rightarrow> (if secs > 0 then wrap64 (secs * 1000000000) else 0, dr)
      | Some _ \<Rightarrow> (0, dr @ [attrEntityInterval])) = (reportEntityInterval ?a, dr)" for dr :: "string list"
    using P(4) by (auto simp: reportEntityInterval_def split: option.splits PValue.splits)
  have "validateEntity strictVocab \<lparr>ent_ID = [], ent_Type = etype, ent_Identity = ident, ent_Attributes = desc, ent_SchemaURL = []\<rparr> = None"
    using ty iv d(2) O by (auto simp: validateEntity_def strOf_def)
  then show "\<exists>obs. entityObs ?a t strictVocab = (Inr obs, [])"
    using ty m i iv d n by (simp add: entityObs_def strAttr_def mapAttr_def Let_def)
  show "let pa = embeddedRelations ?a source producer t strictVocab
     in pa_err pa = None \<and> pa_dropped pa = [] \<and> (\<forall>bn \<in> set (pa_beliefs pa). bn_relType bn = RelResolvesTo) \<and>
        length (pa_rels pa) = (case map_of ?a attrEntityRelationships of Some (PSlice sl) \<Rightarrow> length sl | _ \<Rightarrow> 0)"
  proof (cases "map_of ?a attrEntityRelationships")
    case (Some rels)
    with P(5) obtain sl where sl: "rels = PSlice sl" "\<forall>ps \<in> set (map (checkDescriptor w) (enumerate 0 sl)). passes ps"
      by (cases rels) (auto simp: passes_concat)
    have "\<forall>m. PMap m \<in> set sl \<longrightarrow> descriptorOk strictVocab m" using O Some sl(1) by blast
    from descriptors_pass [OF sl(2) this, of source producer t "reportEntityInterval ?a" "\<lparr>pa_rels = [], pa_dropped = [], pa_beliefs = [], pa_err = None\<rparr>"]
    show ?thesis using Some sl(1) by (auto simp: embeddedRelations_def Let_def)
  qed (simp add: embeddedRelations_def)
qed

text \<open>A host with a nested attribute that is believed to be a virtual machine.\<close>

definition fxConforming :: LogRecord where
  "fxConforming = \<lparr>lr_EventName = evEntityState, lr_Attributes =
     [(attrEntityType, PStr ''host''), (attrEntityID, PMap [(''host.id'', PStr ''h1'')]),
      (attrEntityDesc, PMap [(''os'', PMap [(''bits'', PInt 64)]), (''oper_state'', PStr ''up'')]), (attrEntityInterval, PInt 60),
      (attrEntityRelationships, PSlice [PMap [(relDescType, PStr ''same_as''), (relDescEntityType, PStr ''compute.vm''),
         (relDescEntityID, PMap [(''vm.id'', PStr ''v1'')]), (relDescConfidence, PDouble f_one), (relDescBasis, PStr ''vm_id_match'')]])],
     lr_Timestamp = 7, lr_ObservedTimestamp = 0\<rparr>"

theorem conforming_record_is_accepted_witness:
  "passes (checkRecord ''r'' fxConforming) \<and> (\<exists>obs. entityObs (lr_Attributes fxConforming) 0 True = (Inr obs, [])) \<and>
   length (pa_rels (embeddedRelations (lr_Attributes fxConforming) (fxHost ''h1'') [] 0 True)) = 1"
proof -
  have p: "passes (checkRecord ''r'' fxConforming)" by code_simp
  have "IsKnownEntityType ''host''" by code_simp
  moreover have "RelationDef ''same_as'' \<noteq> None" using RelationDef_same_as by (simp add: rel_defs)
  ultimately have "recordOk True (lr_Attributes fxConforming)"
    by (auto simp: recordOk_def descriptorOk_def fxConforming_def wire_names strOf_def scalarType_def f_one_def ghas_def)
  from conforming_record_is_accepted [OF p _ this, of 0 "fxHost ''h1''" "[]"] p show ?thesis
    by (simp add: fxConforming_def wire_names Let_def)
qed

section \<open>What the kit does not see\<close>

definition fxKit :: "PMapping \<Rightarrow> PValue list \<Rightarrow> LogRecord" where
  "fxKit identity rels = \<lparr>lr_EventName = evEntityState, lr_Attributes =
     [(attrEntityType, PStr ''host''), (attrEntityID, PMap identity), (attrEntityRelationships, PSlice rels)],
     lr_Timestamp = 7, lr_ObservedTimestamp = 0\<rparr>"

text \<open>
  The kit promises that a record which passes is never rejected for its shape.  A key that occurs twice
  in an identity passes, and the boundary rejects the record.
\<close>

theorem kit_passes_a_repeated_key:
  "let lr = fxKit [(''host.id'', PStr ''a''), (''host.id'', PStr ''b'')] []
   in checkRecord ''r'' lr = [] \<and> fst (entityObs (lr_Attributes lr) 0 True) = Inl (BadEntity (Wrapped ''identity'' (ErrDuplicateKey ''host.id'')))"
  by code_simp

text \<open>
  The values of a target's identity are not looked at.  A port that is not a scalar passes; the boundary
  drops it from the identity and keeps the edge, which now points at another entity.
\<close>

theorem kit_passes_a_truncated_target:
  "let lr = fxKit [(''host.id'', PStr ''a'')] [PMap [(relDescType, PStr ''depends_on''), (relDescEntityType, PStr ''network.endpoint''),
         (relDescEntityID, PMap [(''server.address'', PStr ''10.0.0.1''), (''server.port'', PSlice [PInt 443])])]];
       pa = embeddedRelations (lr_Attributes lr) (fxHost ''a'') [] 0 True
   in checkRecord ''r'' lr = [] \<and> pa_dropped pa = [''entity.relationships[0].entity.id.server.port''] \<and>
      map (\<lambda>obs. ep_Identity (ro_To obs)) (pa_rels pa) = [[(''server.address'', StringValue ''10.0.0.1'')]]"
  by code_simp

text \<open>A confidence that is not a number is neither below zero nor above one, so it passes; the boundary reports the belief as inert.\<close>

theorem kit_passes_a_confidence_that_is_no_number:
  "let m = [(relDescConfidence, PDouble NaN), (relDescBasis, PStr ''lldp'')]
   in checkSameAsBelief ''r'' m = [] \<and> snd (beliefAttributes m RelSameAs) = ''confidence_out_of_range''"
  by code_simp

end
