(* ===== verification/Spec2Isabelle.thy ===== *)
theory Spec2Isabelle
  imports Projection_Theorems Auth_Theorems Logship_Theorems Annotations_Theorems Mcp_Answers Emit_Theorems Conformance_Theorems
begin

text \<open>
  Toise keeps a living map of an infrastructure: producers report entities and relations as OTLP
  log records, a change engine turns the observations into classified events, an append-only log
  stores them, and an in-memory projection of the log answers what exists, how it is connected and
  how that changed.  This library models the server's own logic from the Go sources under
  \<open>src/\<close>, and the producer library beside it, and proves what makes them correct.

  \<^bold>\<open>The parts and how they interact.\<close>  An export (\<open>internal/ingest\<close>) is resolved to a tenant
  (\<open>internal/tenant\<close>) and authorized (\<open>internal/auth\<close>, \<open>internal/oidc\<close>); its records become
  observations for the engine (\<open>internal/change\<close>) of the tenant's stack, which the registry
  (\<open>internal/registry\<close>) opens once and restores from snapshot and log.  The engine matches an
  observation against the projection (\<open>internal/projection\<close>), counts who asserts what, stages the
  events of a batch, appends them to the log (\<open>internal/store\<close>), applies them and notifies
  subscribers; a sweep expires what went silent.  The log is shipped as segments to an object store
  and restored from it (\<open>internal/logship\<close>); operators' notes live beside it and are synchronized
  between nodes (\<open>internal/annotations\<close>).  The read surfaces are dispatched per tenant
  (\<open>cmd/toise-server/tenant_router.go\<close>); the MCP server (\<open>internal/mcp\<close>) answers from the projection,
  the log, the engine's reference counts and the notes.

  \<^bold>\<open>Theories and sources.\<close>  A struct is a record with a prefix for its fields, an enumeration or a
  tagged union a datatype, a method a function that takes and returns the record; a Go map is an
  association list in the order in which \<open>range\<close> visits it, a \<open>uint64\<close> a 64-bit word, an instant
  a number of nanoseconds, an error a constructor of an error type in the left summand.

    \<^item> \<open>Toise_Prelude\<close> (maps, sets, shared lemmas), \<open>Go_Stdlib\<close>, \<open>Go_Paths\<close>, \<open>Go_Time\<close>,
      \<open>Go_Base64\<close>: what the sources use of Go and its library, with SHA-256, RFC 3339, durations and
      base64 computed.
    \<^item> \<open>Model_Value\<close>, \<open>Model_Entity\<close>, \<open>Model_Event\<close>, \<open>Model_Registry\<close>, \<open>Model_DisplayName\<close>,
      \<open>Model_Governance\<close>: \<open>internal/model\<close>, the data, its validation, identity hash and wire forms.
    \<^item> \<open>Projection_Graph\<close> (\<open>graph.go\<close>, \<open>asof.go\<close>) and \<open>Canonical\<close> (\<open>internal/canonical\<close>):
      \<open>Graph\<close> has the fields of the struct, one function per method.  \<open>Projection_Spec\<close> is the
      abstract topology it refines, \<open>Projection_Inv\<close> the consistency of its indexes,
      \<open>Projection_Reads\<close> and \<open>Projection_Theorems\<close> what the reads answer.
    \<^item> \<open>Change_Speakers\<close>, \<open>Change_Alias\<close>, \<open>Change_Engine\<close>: \<open>engine.go\<close> and \<open>alias.go\<close>; one
      function per call under the observation lock.  \<open>Change_Overlay\<close> to \<open>Change_Sweep\<close> carry the
      invariant through every handler; \<open>Change_Reach\<close> is the step relation; \<open>Change_Theorems\<close>,
      \<open>Change_Expiry\<close> and \<open>Change_Log\<close> hold the properties of reachable states.
    \<^item> \<open>Store_Keys\<close>, \<open>Store_Log\<close>: \<open>internal/store\<close>.  \<open>Store_Laws\<close>, \<open>Store_Inv\<close>, \<open>Store_Reads\<close>,
      \<open>Store_Retention\<close>, \<open>Store_Prune\<close>, \<open>Store_Theorems\<close>: what appends, reads,
      coalescing, pruning and recovery do under the laws of the database; \<open>Store_Mem\<close> is
      a database with them.
    \<^item> \<open>Tenant\<close>, \<open>Ingest_Convert\<close>, \<open>Ingest_Embedded\<close>, \<open>Ingest_Receiver\<close> and their laws and
      theorems: the OTLP boundary.  \<open>Auth\<close>, \<open>Oidc\<close>, \<open>Tenant_Router\<close>, \<open>Auth_Theorems\<close>: who may
      read and write what.  \<open>Registry\<close>, \<open>Registry_Restart\<close>, \<open>Registry_Theorems\<close>: the stacks,
      with the critical sections of \<open>ensure\<close> as separate steps, the snapshot on disk, and the life of
      a tenant's database, with the three steps of a snapshot and restarts between the commits of the engine.
    \<^item> \<open>Sink\<close>, \<open>Sink_Laws\<close>, \<open>Logship\<close>, \<open>Logship_Laws\<close>, \<open>Logship_Theorems\<close>: object stores, shipping
      and restore.  \<open>Annotations\<close>, \<open>Annotations_Laws\<close>, \<open>Annotations_Theorems\<close>: notes and their sync.
    \<^item> \<open>Mcp_View\<close>, \<open>Mcp_Traverse\<close>, \<open>Mcp_Entities\<close>, \<open>Mcp_Changes\<close>: the twelve MCP tools, their
      inputs and answers.  \<open>Mcp_Traverse_Laws\<close>, \<open>Mcp_Path\<close>, \<open>Mcp_Theorems\<close>, \<open>Mcp_Window\<close>,
      \<open>Mcp_Diff\<close>, \<open>Mcp_Answers\<close>: what they answer.
    \<^item> \<open>Emit\<close> (\<open>pkg/emit/emit.go\<close>) and \<open>Conformance\<close> (\<open>pkg/emit/conformance\<close>): the producer's side, the
      payload that the SDK builds and the kit that checks one.  \<open>Emit_Laws\<close>, \<open>Emit_Theorems\<close> and
      \<open>Conformance_Theorems\<close> compose them with the boundary.

  \<^bold>\<open>What is shown.\<close>  The projection refines the meaning of the events, and keeps its indexes
  consistent.  In every reachable state of the engine an identity names one entity, edges have live
  ends, an observation is what the projection then holds, one speaker's withdrawal does not retract
  another's entity, a batch takes effect in one append or not at all, and a sweep expires exactly
  what went silent; over the store, a served engine's topology is the one the log on disk gives.
  The log appends atomically, its indexes return what it holds, coalescing and pruning keep the
  topology, and after a life of commits, snapshots and restarts (without a pass of retention) a
  restart serves what was served before.  At the boundary nothing is dropped or half done
  silently, and an export reaches only tenants it may write; what a producer says through the SDK is
  what the boundary reads, and is never rejected, and a record that passes the kit is accepted; the
  GraphQL and MCP surfaces serve only what the credential grants.  A shipped log restores; nodes that share an object store converge.  The MCP
  tools answer with routes that exist, the exact blast radius, the whole neighbourhood page by page,
  the changes a full read of the window would select, the net difference of presence between two
  instants, and bounded lists.  Where the code falls short of what a comment or a description says,
  a theorem shows the case on a concrete run.

  \<^bold>\<open>Interfaces.\<close>  A locale states what one part relies on in another, and is interpreted on the model:
  \<open>belief_graph\<close> (canonical view over the projection), \<open>pebble_laws\<close> and \<open>log_laws\<close> (the log over
  its database), \<open>event_log\<close> (the engine over the log), \<open>engine_source\<close> (the receiver over the
  registry), \<open>sink_laws\<close> (clients of an object store), \<open>shipping\<close>, \<open>annotating\<close>, and \<open>edge_graph\<close>
  (a breadth-first search over an edge view).

  \<^bold>\<open>Parameters.\<close>  Code that is not in the repository is an argument: the pebble database, the protobuf
  encoding, the ULID generator, the OTLP data types' wire form, the verification of a JWT, the minio
  client, the JSON form of a note and of the liveness section.  The laws assumed of them are named
  hypotheses or locale assumptions, and the witnesses run on concrete functions that satisfy them.

  \<^bold>\<open>Bounds and fuel.\<close>  Loops are structural recursions or functions with a measure.  The walk of the
  canonical view, the path read back from its parents and the tombstone eviction are partial
  functions whose termination is a lemma; \<open>find_path\<close> is proved to answer.  \<open>ParseDuration\<close> spends
  one unit of fuel per term and starts with the length of its input, and no term is empty.  The
  client loops of the paging theorems carry fuel in their statements, one more than the number of
  items.  Sequence numbers are 64-bit words, and the laws say where a wrap-around is excluded; the
  interval of a report is multiplied in 64 bits and does wrap.

  \<^bold>\<open>Not modelled.\<close>  The GraphQL API (its schema code is generated, and its resolvers repeat the reads
  modelled here), the debug pages, the resources, prompts and prose of the MCP server, its timeouts
  and transport; configuration files, health endpoints, metrics and the audit file; the command
  line and the demonstration producers; in the SDK, dialling and the classification of host-local
  addresses, which rests on Go's parser of IP addresses.  Locks are left out: a method that holds
  one for its whole body is one step, and where a lock is released in between the steps are
  separate.
\<close>

end
